(* ===== verification/Prelude.thy ===== *)
theory Prelude
  imports Main "HOL-Library.List_Lexorder" "HOL-Library.Char_ord" "HOL-Library.Multiset"
    "HOL-Library.Word"
begin

text \<open>
  The shared ground of the development.

  \<^item> Errors: every error of the modelled code is either a value of \<open>pkg/errs\<close>, whose
    machine identity is its Kind, or a plain \<open>errors.New\<close>/\<open>fmt.Errorf\<close> value. An error is
    modelled by that Kind (\<open>err\<close>); the operator-facing message texts are not modelled. A
    fallible function returns \<open>'a res\<close>, with \<open>Inl\<close> for the error.
  \<^item> Strings: a Go string is a sequence of bytes and so is an Isabelle \<open>string\<close>; the order on
    \<open>string\<close> is the bytewise lexicographic order of Go's \<open><\<close> and \<open>strings.Compare\<close>.
  \<^item> Time: \<open>time.Time\<close> is an instant in nanoseconds and a location.
  \<^item> Machine integers keep their width (\<open>u32\<close>, \<open>u64\<close>).
\<close>

section \<open>Collections of facts\<close>

named_theorems model_simps "unfolding rules of small helper definitions"
named_theorems valid_iff "characterisations of the validators of the code"

section \<open>Machine integers\<close>

type_synonym u16 = "16 word"
type_synonym u32 = "32 word"
type_synonym u64 = "64 word"

lemma u32_less: "unat (a :: u32) < 2 ^ 32"
  using unsigned_less[of a, where 'a = nat] by simp

lemma u64_less: "unat (a :: u64) < 2 ^ 64"
  using unsigned_less[of a, where 'a = nat] by simp

section \<open>Errors and fallible results\<close>

text \<open>
  The Kinds of \<open>pkg/errs/codes.go\<close> that the modelled code raises or tests, the errors of the standard library
  that it tests with \<open>errors.Is\<close> (\<open>context.DeadlineExceeded\<close>, \<open>context.Canceled\<close>, \<open>fs.ErrPermission\<close>,
  \<open>fs.ErrNotExist\<close>, wrapped or not), plain errors, and \<open>Panic\<close> for a run-time panic such as a nil dereference.
\<close>

datatype err =
    ValidationFailed
  | StateConflict
  | InternalError
  | TaskNotAbortable
  | ResourceInUse
  | RequestFailed
  | StorageUnavailable
  | RequestUnavailable
  | ScopeUnauthorized
  | WorkloadImageResolutionUnavailable
  | WorkloadImageResolutionBusy
  | ContextDeadline
  | ContextCanceled
  | FileDenied
  | FileMissing
  | PlainError
  | Panic

type_synonym 'a res = "err + 'a"

text \<open>\<open>if err != nil \{ return err \}\<close>: pass an error on, otherwise continue with the value.\<close>

fun try_res :: "'a res \<Rightarrow> ('a \<Rightarrow> 'b res) \<Rightarrow> 'b res" where
  "try_res (Inl e) k = Inl e"
| "try_res (Inr v) k = k v"

lemma try_res_eq_Inr [simp]: "try_res r k = Inr y \<longleftrightarrow> (\<exists>v. r = Inr v \<and> k v = Inr y)"
  by (cases r) auto

lemma try_res_unit: "try_res (r :: unit res) k = Inr y \<longleftrightarrow> r = Inr () \<and> k () = Inr y"
  by (cases r) auto

lemma try_res_eq_Inl: "try_res r k = Inl e \<longleftrightarrow> r = Inl e \<or> (\<exists>v. r = Inr v \<and> k v = Inl e)"
  by (cases r) auto

lemma if_Inl_eq_Inr [simp]: "(if c then Inl e else r) = Inr y \<longleftrightarrow> \<not> c \<and> r = Inr y"
  by simp

lemma res_eqI:
  assumes "\<And>v. r = Inr v \<longleftrightarrow> s = Inr v" "\<And>e. r = Inl e \<Longrightarrow> e = e0" "\<And>e. s = Inl e \<Longrightarrow> e = e0"
  shows "r = (s :: 'a res)"
proof (cases r)
  case (Inl e)
  then have "s \<noteq> Inr v" for v using assms(1)[of v] by simp
  then obtain e' where "s = Inl e'" by (cases s) auto
  with Inl assms(2)[of e] assms(3)[of e'] show ?thesis by simp
next
  case (Inr v)
  with assms(1)[of v] show ?thesis by simp
qed

definition is_ok :: "'a res \<Rightarrow> bool" where
  "is_ok r \<longleftrightarrow> (case r of Inl _ \<Rightarrow> False | Inr _ \<Rightarrow> True)"

lemma is_ok_simps [simp]: "is_ok (Inl e) = False" "is_ok (Inr v) = True"
  by (simp_all add: is_ok_def)

lemma is_ok_unit: "is_ok r \<longleftrightarrow> r = Inr ()"
  by (cases r) auto

lemma is_ok_iff: "is_ok r \<longleftrightarrow> (\<exists>v. r = Inr v)"
  by (cases r) auto

text \<open>A loop over a slice whose body may return an error: the first error wins.\<close>

fun each_res :: "('a \<Rightarrow> unit res) \<Rightarrow> 'a list \<Rightarrow> unit res" where
  "each_res f [] = Inr ()"
| "each_res f (x # xs) = try_res (f x) (\<lambda>_. each_res f xs)"

lemma each_res_ok: "each_res f xs = Inr () \<longleftrightarrow> (\<forall>x \<in> set xs. f x = Inr ())"
  by (induction xs) auto

text \<open>An optional pointer is validated only when it is set.\<close>

definition opt_res :: "('a \<Rightarrow> unit res) \<Rightarrow> 'a option \<Rightarrow> unit res" where
  "opt_res f x = (case x of None \<Rightarrow> Inr () | Some v \<Rightarrow> f v)"

lemma opt_res_simps [simp]: "opt_res f None = Inr ()" "opt_res f (Some v) = f v"
  by (simp_all add: opt_res_def)

lemma opt_res_all: "opt_res f x = Inr () \<longleftrightarrow> (case x of None \<Rightarrow> True | Some v \<Rightarrow> f v = Inr ())"
  by (cases x) auto

lemma opt_res_ok: "opt_res f x = Inr () \<longleftrightarrow> (\<forall>v. x = Some v \<longrightarrow> f v = Inr ())"
  by (cases x) auto

text \<open>A test of an optional pointer that passes when the pointer is nil.\<close>

fun opt_all :: "('a \<Rightarrow> bool) \<Rightarrow> 'a option \<Rightarrow> bool" where
  "opt_all P None = True"
| "opt_all P (Some v) = P v"

lemma opt_all_mono: "opt_all P x \<Longrightarrow> (\<And>v. P v \<Longrightarrow> Q v) \<Longrightarrow> opt_all Q x"
  by (cases x) auto

section \<open>Bytes of strings\<close>

definition byte :: "char \<Rightarrow> nat" where
  "byte c = of_char c"

definition is_digit :: "char \<Rightarrow> bool" where
  "is_digit c \<longleftrightarrow> 48 \<le> byte c \<and> byte c \<le> 57"

definition is_lower_letter :: "char \<Rightarrow> bool" where
  "is_lower_letter c \<longleftrightarrow> 97 \<le> byte c \<and> byte c \<le> 122"

definition is_upper_letter :: "char \<Rightarrow> bool" where
  "is_upper_letter c \<longleftrightarrow> 65 \<le> byte c \<and> byte c \<le> 90"

text \<open>A lower-case hexadecimal digit.\<close>

definition is_lower_hex :: "char \<Rightarrow> bool" where
  "is_lower_hex c \<longleftrightarrow> is_digit c \<or> (97 \<le> byte c \<and> byte c \<le> 102)"

lemmas char_class_defs [model_simps] =
  byte_def is_digit_def is_lower_letter_def is_upper_letter_def is_lower_hex_def

text \<open>
  The digest test of the code: \<open>hex.DecodeString\<close> succeeds on 32 bytes and the text equals
  its lower-case form. Hexadecimal text of 32 bytes that has no upper-case letter is 64 digits
  of \<open>0-9a-f\<close>; text with any other byte (ASCII or not) is rejected by \<open>hex.DecodeString\<close>.
\<close>

definition sha256_hex :: "string \<Rightarrow> bool" where
  "sha256_hex s \<longleftrightarrow> length s = 64 \<and> list_all is_lower_hex s"

text \<open>\<open>strings.ToLower\<close> and \<open>strings.ToUpper\<close> on ASCII text.\<close>

definition lower_char :: "char \<Rightarrow> char" where
  "lower_char c = (if is_upper_letter c then char_of (byte c + 32) else c)"

definition to_lower :: "string \<Rightarrow> string" where
  "to_lower s = map lower_char s"

definition has_prefix :: "string \<Rightarrow> string \<Rightarrow> bool" where
  "has_prefix p s \<longleftrightarrow> take (length p) s = p"

lemma has_prefix_append [simp]: "has_prefix p (p @ s)"
  by (simp add: has_prefix_def)

lemma has_prefix_iff: "has_prefix p s \<longleftrightarrow> (\<exists>r. s = p @ r)"
  by (auto simp: has_prefix_def) (metis append_take_drop_id)

section \<open>UTF-8\<close>

text \<open>
  \<open>utf8.ValidString\<close>: the byte sequences of RFC 3629 (no overlong forms, no surrogates,
  nothing above U+10FFFF), decoded to code points. \<open>None\<close> for an invalid encoding.
\<close>

definition cont_byte :: "nat \<Rightarrow> bool" where
  "cont_byte b \<longleftrightarrow> 128 \<le> b \<and> b \<le> 191"

definition second_byte_ok :: "nat \<Rightarrow> nat \<Rightarrow> bool" where
  "second_byte_ok b0 b1 \<longleftrightarrow>
     (if b0 = 224 then 160 \<le> b1 \<and> b1 \<le> 191
      else if b0 = 237 then 128 \<le> b1 \<and> b1 \<le> 159
      else if b0 = 240 then 144 \<le> b1 \<and> b1 \<le> 191
      else if b0 = 244 then 128 \<le> b1 \<and> b1 \<le> 143
      else cont_byte b1)"

fun utf8_runes :: "nat list \<Rightarrow> nat list option" where
  "utf8_runes [] = Some []"
| "utf8_runes (b0 # bs) =
     (if b0 < 128 then map_option (\<lambda>rs. b0 # rs) (utf8_runes bs)
      else if 194 \<le> b0 \<and> b0 \<le> 223 then
        (case bs of
           b1 # bs1 \<Rightarrow>
             if cont_byte b1
             then map_option (\<lambda>rs. ((b0 - 192) * 64 + (b1 - 128)) # rs) (utf8_runes bs1)
             else None
         | _ \<Rightarrow> None)
      else if 224 \<le> b0 \<and> b0 \<le> 239 then
        (case bs of
           b1 # b2 # bs2 \<Rightarrow>
             if second_byte_ok b0 b1 \<and> cont_byte b2
             then map_option
               (\<lambda>rs. ((b0 - 224) * 4096 + (b1 - 128) * 64 + (b2 - 128)) # rs) (utf8_runes bs2)
             else None
         | _ \<Rightarrow> None)
      else if 240 \<le> b0 \<and> b0 \<le> 244 then
        (case bs of
           b1 # b2 # b3 # bs3 \<Rightarrow>
             if second_byte_ok b0 b1 \<and> cont_byte b2 \<and> cont_byte b3
             then map_option
               (\<lambda>rs. ((b0 - 240) * 262144 + (b1 - 128) * 4096 + (b2 - 128) * 64 + (b3 - 128)) # rs)
               (utf8_runes bs3)
             else None
         | _ \<Rightarrow> None)
      else None)"

definition runes :: "string \<Rightarrow> nat list option" where
  "runes s = utf8_runes (map byte s)"

definition valid_utf8 :: "string \<Rightarrow> bool" where
  "valid_utf8 s \<longleftrightarrow> runes s \<noteq> None"

lemma utf8_runes_ascii: "\<forall>b \<in> set bs. b < 128 \<Longrightarrow> utf8_runes bs = Some bs"
  by (induction bs) auto

text \<open>\<open>unicode.IsSpace\<close> and \<open>unicode.IsControl\<close>.\<close>

definition is_space_rune :: "nat \<Rightarrow> bool" where
  "is_space_rune r \<longleftrightarrow>
     (9 \<le> r \<and> r \<le> 13) \<or> r = 32 \<or> r = 133 \<or> r = 160 \<or> r = 5760 \<or> (8192 \<le> r \<and> r \<le> 8202) \<or>
     r = 8232 \<or> r = 8233 \<or> r = 8239 \<or> r = 8287 \<or> r = 12288"

definition is_control_rune :: "nat \<Rightarrow> bool" where
  "is_control_rune r \<longleftrightarrow> r < 32 \<or> (127 \<le> r \<and> r < 160)"

section \<open>Time\<close>

text \<open>
  A \<open>time.Time\<close> is an instant (nanoseconds since the zero Time, 1 January of year 1, 00:00
  UTC) together with its location: \<open>time.UTC\<close> itself or another location, with its offset
  east of UTC in seconds. \<open>Before\<close>, \<open>After\<close>, \<open>Equal\<close> and \<open>IsZero\<close> look at the instant only;
  \<open>Location() == time.UTC\<close> and \<open>Year()\<close> look at the location as well. Durable times carry no
  monotonic clock reading.
\<close>

datatype location = UTC | Location int

record gotime =
  instant :: int
  loc :: location

definition zero_time :: gotime where
  "zero_time = \<lparr>instant = 0, loc = UTC\<rparr>"

definition is_zero :: "gotime \<Rightarrow> bool" where
  "is_zero t \<longleftrightarrow> instant t = 0"

definition before :: "gotime \<Rightarrow> gotime \<Rightarrow> bool" where
  "before t s \<longleftrightarrow> instant t < instant s"

definition after :: "gotime \<Rightarrow> gotime \<Rightarrow> bool" where
  "after t s \<longleftrightarrow> instant s < instant t"

definition is_utc :: "gotime \<Rightarrow> bool" where
  "is_utc t \<longleftrightarrow> loc t = UTC"

definition utc :: "gotime \<Rightarrow> gotime" where
  "utc t = t\<lparr>loc := UTC\<rparr>"

definition add_duration :: "gotime \<Rightarrow> int \<Rightarrow> gotime" where
  "add_duration t d = t\<lparr>instant := instant t + d\<rparr>"

text \<open>\<open>Time.Sub\<close> saturates at the bounds of \<open>time.Duration\<close>, an \<open>int64\<close> of nanoseconds.\<close>

definition sub_time :: "gotime \<Rightarrow> gotime \<Rightarrow> int" where
  "sub_time t s = max (- (2 ^ 63)) (min (2 ^ 63 - 1) (instant t - instant s))"

abbreviation second :: int where "second \<equiv> 1000000000"

text \<open>\<open>Year()\<close> is the proleptic Gregorian year in the time's own location.\<close>

definition days_before_year :: "int \<Rightarrow> int" where
  "days_before_year y = 365 * (y - 1) + (y - 1) div 4 - (y - 1) div 100 + (y - 1) div 400"

definition year_start :: "int \<Rightarrow> int" where
  "year_start y = days_before_year y * 86400 * second"

definition local_nanos :: "gotime \<Rightarrow> int" where
  "local_nanos t = instant t + (case loc t of UTC \<Rightarrow> 0 | Location off \<Rightarrow> off * second)"

definition year_between :: "int \<Rightarrow> int \<Rightarrow> gotime \<Rightarrow> bool" where
  "year_between lo hi t \<longleftrightarrow> year_start lo \<le> local_nanos t \<and> local_nanos t < year_start (hi + 1)"

lemmas time_order_defs [model_simps] = before_def after_def is_zero_def is_utc_def

section \<open>Sorted and duplicate-free lists\<close>

lemma distinct_mset_eq: "mset xs = mset ys \<Longrightarrow> distinct xs \<longleftrightarrow> distinct ys"
  by (metis distinct_count_atmost_1 count_mset mset_eq_setD)

lemma sorted_distinct_eqI:
  "\<lbrakk>sorted xs; sorted ys; mset xs = mset ys\<rbrakk> \<Longrightarrow> xs = (ys :: 'a :: linorder list)"
  by (metis properties_for_sort)

section \<open>Association lists with distinct keys\<close>

lemma notin_image_iff: "y \<notin> f ` S \<longleftrightarrow> (\<forall>x \<in> S. f x \<noteq> y)"
  by auto

lemma map_of_mset_eq:
  assumes "distinct (map fst xs)" "mset xs = mset ys"
  shows "map_of xs = map_of ys"
proof
  fix k
  have "distinct (map fst ys)" using assms by (metis distinct_mset_eq mset_map)
  moreover have "set xs = set ys" using assms(2) by (rule mset_eq_setD)
  ultimately show "map_of xs k = map_of ys k"
    using assms(1) by (metis map_of_eq_Some_iff not_Some_eq)
qed

lemma map_of_rev: "distinct (map fst xs) \<Longrightarrow> map_of (rev xs) = map_of xs"
  by (rule map_of_mset_eq) (simp_all add: rev_map[symmetric])

lemma sort_key_mset_eq:
  assumes "mset xs = mset ys" "distinct (map f xs)"
  shows "sort_key f xs = sort_key f ys"
proof (rule sort_key_inj_key_eq)
  show "mset xs = mset (sort_key f ys)" by (simp add: assms(1))
  show "inj_on f (set xs)" using assms(2) by (simp add: distinct_map)
qed (rule sorted_sort_key)

end
