(* ===== verification/Ids.thy ===== *)
theory Ids
  imports Prelude
begin

text \<open>
  Stable identifiers (\<open>internal/common/ids\<close>) and the two image-identifier tests built like
  them. An id is \<open>kind_ULID\<close>. The ULID syntax is checked by \<open>ulid.ParseStrict\<close> of
  \<open>github.com/oklog/ulid/v2\<close>, which is not part of the repository: it is the parameter
  \<open>u :: ulid_check\<close> of every definition that validates an id (\<open>u body\<close> is "ParseStrict
  returns no error"). No theorem assumes anything about it.
\<close>

section \<open>Kinds\<close>

type_synonym kind = string
type_synonym ulid_check = "string \<Rightarrow> bool"

definition KindTenant :: kind where "KindTenant = ''tnt''"
definition KindProject :: kind where "KindProject = ''prj''"
definition KindEnvironment :: kind where "KindEnvironment = ''env''"
definition KindService :: kind where "KindService = ''svc''"
definition KindDeployment :: kind where "KindDeployment = ''dep''"
definition KindEnvEntry :: kind where "KindEnvEntry = ''ev''"
definition KindVolume :: kind where "KindVolume = ''vol''"
definition KindAttach :: kind where "KindAttach = ''att''"
definition KindRoute :: kind where "KindRoute = ''rte''"
definition KindDNSRecord :: kind where "KindDNSRecord = ''dns''"
definition KindSecret :: kind where "KindSecret = ''sec''"
definition KindConnector :: kind where "KindConnector = ''con''"
definition KindRunner :: kind where "KindRunner = ''run''"
definition KindScript :: kind where "KindScript = ''scr''"
definition KindBackupSource :: kind where "KindBackupSource = ''spt''"
definition KindRecoveryPoint :: kind where "KindRecoveryPoint = ''rp''"
definition KindTask :: kind where "KindTask = ''task''"
definition KindWorkItem :: kind where "KindWorkItem = ''work''"
definition KindAttempt :: kind where "KindAttempt = ''try''"
definition KindHost :: kind where "KindHost = ''host''"
definition KindAssignment :: kind where "KindAssignment = ''asgn''"
definition KindOperation :: kind where "KindOperation = ''op''"
definition KindPlan :: kind where "KindPlan = ''plan''"
definition KindStep :: kind where "KindStep = ''step''"
definition KindConfig :: kind where "KindConfig = ''cfg''"
definition KindAgent :: kind where "KindAgent = ''agt''"
definition KindNetwork :: kind where "KindNetwork = ''net''"
definition KindBackingService :: kind where "KindBackingService = ''bks''"
definition KindReleaseGroup :: kind where "KindReleaseGroup = ''rg''"
definition KindComponent :: kind where "KindComponent = ''cmp''"

lemmas kind_defs [model_simps] =
  KindTenant_def KindProject_def KindEnvironment_def KindService_def KindDeployment_def
  KindEnvEntry_def KindVolume_def KindAttach_def KindRoute_def KindDNSRecord_def KindSecret_def
  KindConnector_def KindRunner_def KindScript_def KindBackupSource_def KindRecoveryPoint_def
  KindTask_def KindWorkItem_def KindAttempt_def KindHost_def KindAssignment_def KindOperation_def
  KindPlan_def KindStep_def KindConfig_def KindAgent_def KindNetwork_def KindBackingService_def
  KindReleaseGroup_def KindComponent_def

section \<open>Validation\<close>

text \<open>
  \<open>strings.ToUpper\<close> changes a body exactly when it holds a lower-case letter; only ASCII bodies
  matter here, because \<open>ParseStrict\<close> documents an error for every other byte.
\<close>

definition id_valid :: "ulid_check \<Rightarrow> kind \<Rightarrow> string \<Rightarrow> bool" where
  "id_valid u kind value \<longleftrightarrow>
     kind \<noteq> [] \<and> has_prefix (kind @ ''_'') value \<and>
     (let body = drop (length kind + 1) value in
      length body = 26 \<and> \<not> list_ex is_lower_letter body \<and> u body)"

lemma id_valid_cases:
  assumes "id_valid u kind value"
  obtains body where "value = kind @ ''_'' @ body" "length body = 26" "u body"
proof -
  from assms obtain r where r: "value = (kind @ ''_'') @ r"
    by (auto simp: id_valid_def has_prefix_iff)
  with assms have "length r = 26" "u r" by (auto simp: id_valid_def Let_def)
  with r that show thesis by simp
qed

lemma id_valid_nonempty [simp]: "\<not> id_valid u kind []"
  by (auto simp: id_valid_def has_prefix_iff)

lemma id_valid_length: "id_valid u kind value \<Longrightarrow> length value = length kind + 27"
  by (auto elim: id_valid_cases)

text \<open>
  A kind is written without an underscore, so an id determines its kind: no id of one kind
  validates as another.
\<close>

lemma id_valid_kind_unique:
  assumes "id_valid u k v" "id_valid u k' v" "CHR ''_'' \<notin> set k" "CHR ''_'' \<notin> set k'"
  shows "k = k'"
proof -
  from assms(1) have l1: "length v = length k + 27" by (rule id_valid_length)
  from assms(2) have l2: "length v = length k' + 27" by (rule id_valid_length)
  from l1 l2 have l: "length k = length k'" by simp
  from assms(1) obtain b where b: "v = k @ ''_'' @ b" by (rule id_valid_cases)
  from assms(2) obtain b' where b': "v = k' @ ''_'' @ b'" by (rule id_valid_cases)
  from b b' l show ?thesis by simp
qed

text \<open>\<open>ids.ValidContainerID\<close>.\<close>

definition valid_container_id :: "string \<Rightarrow> bool" where
  "valid_container_id value \<longleftrightarrow>
     12 \<le> length value \<and> length value \<le> 64 \<and> list_all is_lower_hex value"

text \<open>\<open>workloadimage.LocalIDValid\<close>: the digest of a host-local image.\<close>

definition local_id_valid :: "string \<Rightarrow> bool" where
  "local_id_valid value \<longleftrightarrow>
     has_prefix ''sha256:'' value \<and> length (drop 7 value) = 64 \<and>
     list_all is_lower_hex (drop 7 value)"

text \<open>A concrete syntax check, used to evaluate examples: 26 Crockford base-32 characters.\<close>

definition crockford_ulid :: ulid_check where
  "crockford_ulid s \<longleftrightarrow>
     length s = 26 \<and> list_all (\<lambda>c. c \<in> set ''0123456789ABCDEFGHJKMNPQRSTVWXYZ'') s"

text \<open>Ids for examples: one body, with a digit of choice at its end.\<close>

definition ex_id :: "kind \<Rightarrow> char \<Rightarrow> string" where
  "ex_id kind c = kind @ ''_'' @ ''01HZY3M0Q8W5RX7J2K4N6P8T0'' @ [c]"

lemma ex_id_valid [simp]:
  assumes "kind \<noteq> []" "c \<in> set ''0123456789''"
  shows "id_valid crockford_ulid kind (ex_id kind c)"
proof -
  have "\<not> list_ex is_lower_letter ''01HZY3M0Q8W5RX7J2K4N6P8T0''"
    "list_all (\<lambda>c. c \<in> set ''0123456789ABCDEFGHJKMNPQRSTVWXYZ'') ''01HZY3M0Q8W5RX7J2K4N6P8T0''"
    by code_simp+
  moreover have "\<forall>c \<in> set ''0123456789''. \<not> is_lower_letter c" by code_simp
  ultimately show ?thesis
    using assms by (auto simp: id_valid_def ex_id_def crockford_ulid_def has_prefix_def)
qed

lemma ex_id_inject [simp]: "ex_id k c = ex_id k d \<longleftrightarrow> c = d"
  by (simp add: ex_id_def)

end
