(* ===== verification/Kahn.thy ===== *)
theory Kahn
  imports Prelude
begin

text \<open>
  Topological ordering by Kahn's algorithm. The repository contains the loop four times, over
  one discipline of the ready list each: kept sorted (\<open>internal/core/service_dependency.go\<close> and
  \<open>internal/core/blueprint_requirement_dag.go\<close>), first-in-first-out
  (\<open>internal/common/workexecution/graph.go\<close>) and a stack
  (\<open>internal/core/blueprintreconcile/validation.go\<close>). This theory holds the loop with the
  discipline as the argument \<open>push\<close>, the interface \<open>ready_list\<close> a discipline has to satisfy,
  and the facts the components use: the loop never runs out of fuel, what it orders is
  duplicate-free and has every prerequisite before its dependents, it orders every node exactly
  when the graph has no cycle, and with the sorted discipline the order is the least one.
\<close>

section \<open>The loop\<close>

text \<open>
  \<open>for _, dependent := range adjacent[node]\<close>: decrement the in-degree of each dependent and
  make it ready when it reaches zero. A Go map of counters is a function that is 0 where the
  map has no entry.
\<close>

fun release_dependents ::
  "('a \<Rightarrow> 'a list \<Rightarrow> 'a list) \<Rightarrow> 'a list \<Rightarrow> ('a \<Rightarrow> int) \<Rightarrow> 'a list \<Rightarrow> ('a \<Rightarrow> int) \<times> 'a list" where
  "release_dependents push [] indegree ready = (indegree, ready)"
| "release_dependents push (d # ds) indegree ready =
     (let indegree' = indegree(d := indegree d - 1)
      in release_dependents push ds indegree' (if indegree' d = 0 then push d ready else ready))"

text \<open>
  \<open>for len(ready) != 0\<close>: take the head, append it to the order, release its dependents.
  \<open>None\<close> would mean that the loop is still running after \<open>fuel\<close> iterations.
\<close>

fun kahn_loop ::
  "('a \<Rightarrow> 'a list \<Rightarrow> 'a list) \<Rightarrow> ('a \<Rightarrow> 'a list) \<Rightarrow> nat \<Rightarrow> 'a list \<Rightarrow> ('a \<Rightarrow> int) \<Rightarrow> 'a list \<Rightarrow>
   'a list option" where
  "kahn_loop push adj fuel [] indegree ordered = Some ordered"
| "kahn_loop push adj 0 (n # ready) indegree ordered = None"
| "kahn_loop push adj (Suc fuel) (n # ready) indegree ordered =
     (case release_dependents push (adj n) indegree ready of
        (indegree', ready') \<Rightarrow> kahn_loop push adj fuel ready' indegree' (ordered @ [n]))"

section \<open>Graphs as edge lists\<close>

text \<open>An edge is a pair of prerequisite and dependent; parallel edges are allowed.\<close>

definition adjacent :: "('a \<times> 'a) list \<Rightarrow> 'a \<Rightarrow> 'a list" where
  "adjacent es n = map snd (filter (\<lambda>e. fst e = n) es)"

definition indegree_of :: "('a \<times> 'a) list \<Rightarrow> 'a \<Rightarrow> int" where
  "indegree_of es n = int (length (filter (\<lambda>e. snd e = n) es))"

text \<open>Every node of the list has all its prerequisites earlier in the list.\<close>

definition prereqs_first :: "('a \<times> 'a) list \<Rightarrow> 'a list \<Rightarrow> bool" where
  "prereqs_first es xs \<longleftrightarrow>
     (\<forall>i < length xs. \<forall>p. (p, xs ! i) \<in> set es \<longrightarrow> p \<in> set (take i xs))"

lemma prereqs_first_Nil [simp]: "prereqs_first es []"
  by (simp add: prereqs_first_def)

lemma prereqs_first_snoc:
  "prereqs_first es (xs @ [n]) \<longleftrightarrow>
     prereqs_first es xs \<and> (\<forall>p. (p, n) \<in> set es \<longrightarrow> p \<in> set xs)"
  by (auto simp: prereqs_first_def nth_append less_Suc_eq)

lemma prereqs_first_edge:
  assumes "prereqs_first es xs" "distinct xs" "(p, d) \<in> set es" "d \<in> set xs"
  obtains i j where "i < j" "j < length xs" "xs ! i = p" "xs ! j = d"
proof -
  from assms(4) obtain j where j: "j < length xs" "xs ! j = d" by (auto simp: in_set_conv_nth)
  with assms(1,3) have "p \<in> set (take j xs)" by (auto simp: prereqs_first_def)
  then obtain i where "i < j" "xs ! i = p" using j by (auto simp: in_set_conv_nth)
  with j that show thesis by blast
qed

lemma prereqs_first_closed:
  assumes "prereqs_first es xs" "d \<in> set xs" "(p, d) \<in> set es"
  shows "p \<in> set xs"
proof -
  from assms(2) obtain i where "i < length xs" "xs ! i = d" by (auto simp: in_set_conv_nth)
  with assms(1,3) have "p \<in> set (take i xs)" by (auto simp: prereqs_first_def)
  then show ?thesis by (rule in_set_takeD)
qed

text \<open>A complete order exists only for a graph without a cycle.\<close>

lemma prereqs_first_acyclic:
  assumes pf: "prereqs_first es xs" and dist: "distinct xs" and all: "snd ` set es \<subseteq> set xs"
  shows "acyclic (set es)"
proof -
  define pos where "pos n = (LEAST i. i < length xs \<and> xs ! i = n)" for n
  have pos_nth: "pos (xs ! i) = i" if "i < length xs" for i
    unfolding pos_def
    by (rule Least_equality) (use that dist in \<open>auto simp: nth_eq_iff_index_eq\<close>)
  have step: "(p, d) \<in> set es \<Longrightarrow> pos p < pos d" for p d
  proof -
    assume e: "(p, d) \<in> set es"
    with all have "d \<in> set xs" by force
    from prereqs_first_edge[OF pf dist e this] pos_nth show "pos p < pos d"
      by (metis less_trans)
  qed
  have "set es \<subseteq> measure pos" using step by auto
  then show ?thesis by (meson acyclic_subset wf_acyclic wf_measure)
qed

text \<open>In a finite graph without a cycle every nonempty set of nodes has a node free inside it.\<close>

lemma acyclic_has_free_node:
  assumes "acyclic (set es)" "x \<in> U"
  obtains n where "n \<in> U" "\<And>p. (p, n) \<in> set es \<Longrightarrow> p \<notin> U"
proof -
  have "wf (set es)" using assms(1) by (simp add: finite_acyclic_wf)
  from wfE_min[OF this assms(2)] that show thesis by metis
qed

section \<open>The disciplines of the ready list\<close>

text \<open>
  The client of this interface is the loop: all it needs of \<open>push\<close> is that it adds one
  occurrence of the new node and loses nothing.
\<close>

locale ready_list =
  fixes push :: "'a \<Rightarrow> 'a list \<Rightarrow> 'a list"
  assumes mset_push: "mset (push x r) = add_mset x (mset r)"
begin

lemma set_push: "set (push x r) = insert x (set r)"
  by (metis mset_push set_mset_add_mset_insert set_mset_mset)

lemma release_dependents_spec:
  "release_dependents push ds ind ready = (ind', ready') \<Longrightarrow>
     (\<forall>x. ind' x = ind x - int (count_list ds x)) \<and>
     mset ready' = mset ready + mset_set {x \<in> set ds. 0 < ind x \<and> ind x \<le> int (count_list ds x)}"
proof (induction ds arbitrary: ind ready)
  case Nil
  then show ?case by simp
next
  case (Cons d ds)
  let ?ind = "ind(d := ind d - 1)"
  let ?ready = "if ind d = 1 then push d ready else ready"
  let ?old = "{x \<in> set ds. 0 < ?ind x \<and> ?ind x \<le> int (count_list ds x)}"
  let ?new = "{x \<in> set (d # ds). 0 < ind x \<and> ind x \<le> int (count_list (d # ds) x)}"
  from Cons.prems have "release_dependents push ds ?ind ?ready = (ind', ready')"
    by (simp add: Let_def)
  from Cons.IH[OF this]
  have IH: "\<forall>x. ind' x = ?ind x - int (count_list ds x)" "mset ready' = mset ?ready + mset_set ?old"
    by auto
  have "mset ready' = mset ready + mset_set ?new"
  proof (cases "ind d = 1")
    case True
    then have "?new = insert d ?old" by auto
    moreover have "d \<notin> ?old" using True by simp
    ultimately show ?thesis using IH(2) True by (simp add: mset_push)
  next
    case False
    have d1: "d \<in> ?old" if "d \<in> ?new"
    proof -
      from that False have "1 < ind d" "ind d \<le> int (count_list ds d) + 1" by auto
      then have "0 < count_list ds d" by linarith
      then have "d \<in> set ds" by (metis count_notin less_irrefl)
      with \<open>1 < ind d\<close> \<open>ind d \<le> int (count_list ds d) + 1\<close> show ?thesis by simp
    qed
    have d2: "d \<in> ?new" if "d \<in> ?old" using that by auto
    have neq: "x \<in> ?old \<longleftrightarrow> x \<in> ?new" if "x \<noteq> d" for x using that by auto
    have "?new = ?old"
    proof (rule set_eqI)
      fix x
      show "x \<in> ?new \<longleftrightarrow> x \<in> ?old"
      proof (cases "x = d")
        case True
        show ?thesis unfolding True using d1 d2 by (rule iffI)
      next
        case False
        show ?thesis by (rule neq[OF False, symmetric])
      qed
    qed
    then show ?thesis using IH(2) False by simp
  qed
  with IH(1) show ?case by simp
qed

end

text \<open>What is known between two iterations: \<open>pending\<close> counts the edges from unordered nodes.\<close>

definition pending :: "('a \<times> 'a) list \<Rightarrow> 'a list \<Rightarrow> 'a \<Rightarrow> int" where
  "pending es done x = int (length (filter (\<lambda>e. snd e = x \<and> fst e \<notin> set done) es))"

definition kahn_inv ::
  "('a \<times> 'a) list \<Rightarrow> 'a list \<Rightarrow> 'a list \<Rightarrow> ('a \<Rightarrow> int) \<Rightarrow> 'a list \<Rightarrow> bool" where
  "kahn_inv es ns ready ind done \<longleftrightarrow>
     distinct ready \<and> distinct done \<and> set done \<subseteq> set ns \<and> prereqs_first es done \<and>
     ind = pending es done \<and>
     set ready = {x \<in> set ns. x \<notin> set done \<and> pending es done x = 0}"

lemma pending_Nil: "pending es [] = indegree_of es"
  by (simp add: pending_def indegree_of_def fun_eq_iff)

lemma pending_zero: "pending es done x = 0 \<longleftrightarrow> (\<forall>p. (p, x) \<in> set es \<longrightarrow> p \<in> set done)"
  by (auto simp: pending_def filter_empty_conv)

lemma count_list_adjacent:
  "count_list (adjacent es n) x = length (filter (\<lambda>e. fst e = n \<and> snd e = x) es)"
  by (induction es) (auto simp: adjacent_def)

lemma pending_snoc:
  assumes "n \<notin> set done"
  shows "pending es (done @ [n]) x = pending es done x - int (count_list (adjacent es n) x)"
  unfolding pending_def count_list_adjacent using assms by (induction es) auto

lemma pending_nonneg: "0 \<le> pending es done x"
  by (simp add: pending_def)

lemma kahn_inv_initial:
  assumes "mset ready = mset (filter (\<lambda>n. indegree_of es n = 0) ns)" "distinct ns"
  shows "kahn_inv es ns ready (indegree_of es) []"
proof -
  have "set ready = {n \<in> set ns. indegree_of es n = 0}"
    using mset_eq_setD[OF assms(1)] by auto
  moreover have "distinct ready"
    using distinct_mset_eq[OF assms(1)] assms(2) by simp
  ultimately show ?thesis by (simp add: kahn_inv_def pending_Nil)
qed

context ready_list
begin

lemma kahn_inv_step:
  assumes inv: "kahn_inv es ns (n # ready) ind done"
    and rel: "release_dependents push (adjacent es n) ind ready = (ind', ready')"
    and nodes: "fst ` set es \<union> snd ` set es \<subseteq> set ns"
  shows "kahn_inv es ns ready' ind' (done @ [n])"
proof -
  let ?c = "\<lambda>x. int (count_list (adjacent es n) x)"
  let ?A = "{x \<in> set (adjacent es n). 0 < ind x \<and> ind x \<le> ?c x}"
  from inv have ready: "set (n # ready) = {x \<in> set ns. x \<notin> set done \<and> pending es done x = 0}"
    and ind: "ind = pending es done" and d: "distinct (n # ready)" "distinct done"
    and sub: "set done \<subseteq> set ns" and pf: "prereqs_first es done"
    by (simp_all add: kahn_inv_def)
  from ready have n: "n \<in> set ns" "n \<notin> set done" "pending es done n = 0" by auto
  from release_dependents_spec[OF rel]
  have ind': "\<And>x. ind' x = ind x - ?c x" and mready: "mset ready' = mset ready + mset_set ?A"
    by auto
  have ind'_pending: "ind' = pending es (done @ [n])"
    using ind' ind pending_snoc[OF n(2)] by (simp add: fun_eq_iff)
  have sready: "set ready' = set ready \<union> ?A"
    using arg_cong[OF mready, of set_mset] by simp
  have "set ready \<subseteq> {x. pending es done x = 0}" using ready by auto
  then have disj: "set ready \<inter> ?A = {}" using ind by auto
  have "distinct ready'"
  proof -
    have "mset ready' = mset_set (set ready) + mset_set ?A"
      using mready d(1) by (simp add: mset_set_set)
    also have "\<dots> = mset_set (set ready')"
      using disj by (simp add: sready mset_set_Union)
    finally have eq: "mset ready' = mset_set (set ready')" .
    show ?thesis
      by (simp only: distinct_count_atmost_1 eq) (simp add: count_mset_set')
  qed
  moreover have "set ready' = {x \<in> set ns. x \<notin> set (done @ [n]) \<and> pending es (done @ [n]) x = 0}"
  proof -
    have "x \<in> set ready \<union> ?A \<longleftrightarrow>
        x \<in> set ns \<and> x \<noteq> n \<and> x \<notin> set done \<and> pending es (done @ [n]) x = 0" for x
    proof -
      have adj: "x \<in> set ns" "\<not> pending es done x = 0" if "x \<in> set (adjacent es n)"
      proof -
        from that have e: "(n, x) \<in> set es" by (force simp: adjacent_def)
        with nodes show "x \<in> set ns" by force
        from e n(2) show "\<not> pending es done x = 0" by (auto simp: pending_zero)
      qed
      have pend: "pending es (done @ [n]) x = pending es done x - ?c x"
        by (rule pending_snoc[OF n(2)])
      have nn: "0 \<le> pending es (done @ [n]) x" by (rule pending_nonneg)
      have notin: "?c x = 0" if "x \<notin> set (adjacent es n)" using that by simp
      have don: "x \<in> set done \<Longrightarrow> pending es done x = 0"
        using prereqs_first_closed[OF pf] by (auto simp: pending_zero)
      show ?thesis
        using ready d(1) adj pend nn notin don n ind pending_nonneg[of es "done" x]
        by (cases "x \<in> set (adjacent es n)") auto
    qed
    then show ?thesis using sready by auto
  qed
  moreover have "prereqs_first es (done @ [n])"
    using pf n(3) by (simp add: prereqs_first_snoc pending_zero)
  ultimately show ?thesis
    using ind'_pending d n sub by (simp add: kahn_inv_def)
qed

lemma kahn_loop_total:
  assumes nodes: "fst ` set es \<union> snd ` set es \<subseteq> set ns" and dns: "distinct ns"
  shows "\<lbrakk>kahn_inv es ns ready ind done; length ns \<le> fuel + length done\<rbrakk> \<Longrightarrow>
    \<exists>ord. kahn_loop push (adjacent es) fuel ready ind done = Some ord \<and>
          kahn_inv es ns [] (pending es ord) ord"
proof (induction fuel arbitrary: ready ind "done")
  case 0
  show ?case
  proof (cases ready)
    case Nil
    with 0 show ?thesis by (auto simp: kahn_inv_def)
  next
    case (Cons n ready0)
    with 0(1) have "n \<in> set ns" "n \<notin> set done" "distinct done" "set done \<subseteq> set ns"
      by (auto simp: kahn_inv_def)
    then have "card (set done) < card (set ns)" by (intro psubset_card_mono) auto
    with 0(2) \<open>distinct done\<close> dns show ?thesis by (simp add: distinct_card)
  qed
next
  case (Suc fuel)
  show ?case
  proof (cases ready)
    case Nil
    with Suc.prems show ?thesis by (auto simp: kahn_inv_def)
  next
    case (Cons n ready0)
    obtain ind' ready' where rel: "release_dependents push (adjacent es n) ind ready0 = (ind', ready')"
      by (cases "release_dependents push (adjacent es n) ind ready0")
    from kahn_inv_step[OF _ rel nodes] Suc.prems(1) Cons
    have "kahn_inv es ns ready' ind' (done @ [n])" by simp
    from Suc.IH[OF this] Suc.prems(2) Cons rel show ?thesis by simp
  qed
qed

end

text \<open>When the ready list is empty, every node is ordered exactly if the graph has no cycle.\<close>

lemma kahn_inv_final:
  assumes inv: "kahn_inv es ns [] ind ord" and nodes: "fst ` set es \<union> snd ` set es \<subseteq> set ns"
    and dns: "distinct ns"
  shows "length ord = length ns \<longleftrightarrow> acyclic (set es)"
proof
  from inv have ord: "distinct ord" "set ord \<subseteq> set ns" "prereqs_first es ord" by (auto simp: kahn_inv_def)
  assume "length ord = length ns"
  then have "card (set ord) = card (set ns)" using ord(1) dns by (simp add: distinct_card)
  then have "set ord = set ns" using ord(2) by (simp add: card_subset_eq)
  with nodes show "acyclic (set es)" by (intro prereqs_first_acyclic[OF ord(3,1)]) auto
next
  from inv have ord: "distinct ord" "set ord \<subseteq> set ns" by (auto simp: kahn_inv_def)
  from inv have none: "x \<in> set ns \<Longrightarrow> x \<notin> set ord \<Longrightarrow> pending es ord x \<noteq> 0" for x
    by (auto simp: kahn_inv_def)
  assume ac: "acyclic (set es)"
  have "set ns \<subseteq> set ord"
  proof (rule ccontr)
    assume "\<not> set ns \<subseteq> set ord"
    then obtain x where "x \<in> set ns - set ord" by auto
    from acyclic_has_free_node[OF ac this] obtain n where
      n: "n \<in> set ns - set ord" "\<And>p. (p, n) \<in> set es \<Longrightarrow> p \<notin> set ns - set ord" by blast
    from nodes have "(p, n) \<in> set es \<Longrightarrow> p \<in> set ns" for p by force
    with n(2) have "pending es ord n = 0" by (auto simp: pending_zero)
    with none n(1) show False by auto
  qed
  with ord(2) have "set ord = set ns" by auto
  then show "length ord = length ns" using ord(1) dns by (metis distinct_card)
qed

section \<open>The whole algorithm\<close>

definition kahn_order ::
  "('a \<Rightarrow> 'a list \<Rightarrow> 'a list) \<Rightarrow> ('a \<times> 'a) list \<Rightarrow> 'a list \<Rightarrow> 'a list \<Rightarrow> 'a list option" where
  "kahn_order push es ns ready =
     kahn_loop push (adjacent es) (length ns) ready (indegree_of es) []"

text \<open>The order itself: \<open>kahn_order_spec\<close> below shows that the loop always ends.\<close>

definition kahn_run ::
  "('a \<Rightarrow> 'a list \<Rightarrow> 'a list) \<Rightarrow> ('a \<times> 'a) list \<Rightarrow> 'a list \<Rightarrow> 'a list \<Rightarrow> 'a list" where
  "kahn_run push es ns ready = (case kahn_order push es ns ready of Some ord \<Rightarrow> ord | None \<Rightarrow> [])"

definition topological_order :: "('a \<times> 'a) list \<Rightarrow> 'a list \<Rightarrow> 'a list \<Rightarrow> bool" where
  "topological_order es ns xs \<longleftrightarrow> distinct xs \<and> set xs = set ns \<and> prereqs_first es xs"

context ready_list
begin

theorem kahn_order_spec:
  assumes nodes: "fst ` set es \<union> snd ` set es \<subseteq> set ns" and dns: "distinct ns"
    and ready: "mset ready = mset (filter (\<lambda>n. indegree_of es n = 0) ns)"
  shows "\<exists>ord. kahn_order push es ns ready = Some ord \<and> distinct ord \<and> set ord \<subseteq> set ns \<and>
     prereqs_first es ord \<and> (length ord = length ns \<longleftrightarrow> acyclic (set es))"
proof -
  from kahn_loop_total[OF nodes dns kahn_inv_initial[OF ready dns], of "length ns"]
  obtain ord where ord: "kahn_order push es ns ready = Some ord"
    "kahn_inv es ns [] (pending es ord) ord"
    by (auto simp: kahn_order_def)
  from kahn_inv_final[OF ord(2) nodes dns] ord show ?thesis by (auto simp: kahn_inv_def)
qed

corollary kahn_order_topological:
  assumes "fst ` set es \<union> snd ` set es \<subseteq> set ns" "distinct ns"
    "mset ready = mset (filter (\<lambda>n. indegree_of es n = 0) ns)"
    "kahn_order push es ns ready = Some ord" "length ord = length ns"
  shows "topological_order es ns ord"
proof -
  from kahn_order_spec[OF assms(1-3)] assms(4)
  have "distinct ord" "set ord \<subseteq> set ns" "prereqs_first es ord" by auto
  moreover have "card (set ord) = card (set ns)"
    using assms(2,5) \<open>distinct ord\<close> by (simp add: distinct_card)
  ultimately show ?thesis by (simp add: topological_order_def card_subset_eq)
qed

end

section \<open>The sorted discipline gives the least order\<close>

text \<open>At every position the order holds the least node whose prerequisites are already ordered.\<close>

definition least_first :: "('a :: linorder \<times> 'a) list \<Rightarrow> 'a list \<Rightarrow> 'a list \<Rightarrow> bool" where
  "least_first es ns xs \<longleftrightarrow>
     (\<forall>i < length xs. \<forall>m \<in> set ns.
        m \<notin> set (take i xs) \<and> (\<forall>p. (p, m) \<in> set es \<longrightarrow> p \<in> set (take i xs)) \<longrightarrow> xs ! i \<le> m)"

lemma least_first_snoc:
  "least_first es ns (xs @ [n]) \<longleftrightarrow>
     least_first es ns xs \<and>
     (\<forall>m \<in> set ns. m \<notin> set xs \<and> (\<forall>p. (p, m) \<in> set es \<longrightarrow> p \<in> set xs) \<longrightarrow> n \<le> m)"
  by (auto simp: least_first_def nth_append less_Suc_eq)

lemma least_first_is_least:
  assumes least: "least_first es ns xs" and tx: "topological_order es ns xs"
    and ty: "topological_order es ns ys"
  shows "xs \<le> ys"
proof (cases "xs = ys")
  case True
  then show ?thesis by simp
next
  case False
  have len: "length xs = length ys"
    using tx ty by (metis topological_order_def distinct_card)
  define i where "i = (LEAST i. i < length xs \<and> xs ! i \<noteq> ys ! i)"
  have "\<exists>i. i < length xs \<and> xs ! i \<noteq> ys ! i" using False len nth_equalityI by blast
  then have i: "i < length xs" "xs ! i \<noteq> ys ! i"
    unfolding i_def by (metis (mono_tags, lifting) LeastI_ex)+
  have "xs ! j = ys ! j" if "j < i" for j
    using that i(1) not_less_Least[of j "\<lambda>i. i < length xs \<and> xs ! i \<noteq> ys ! i"] by (auto simp: i_def)
  then have take: "take i xs = take i ys" using i(1) len by (intro nth_take_lemma) auto
  have "ys ! i \<notin> set (take i ys)"
    using ty i(1) len by (auto simp: topological_order_def in_set_conv_nth nth_eq_iff_index_eq)
  moreover have "ys ! i \<in> set ns"
  proof -
    have "ys ! i \<in> set ys" using i(1) len by simp
    with ty show ?thesis by (simp add: topological_order_def)
  qed
  moreover have "(p, ys ! i) \<in> set es \<Longrightarrow> p \<in> set (take i ys)" for p
    using ty i(1) len by (auto simp: topological_order_def prereqs_first_def)
  ultimately have "xs ! i \<le> ys ! i" using least i(1) take by (auto simp: least_first_def)
  then have "xs ! i < ys ! i" using i(2) by simp
  with i(1) len take
  have "\<exists>i. i < min (length xs) (length ys) \<and> take i xs = take i ys \<and>
      (xs ! i, ys ! i) \<in> {(u, v). u < v}"
    by (intro exI[of _ i]) simp
  then have "(xs, ys) \<in> lexord {(u, v). u < v}"
    unfolding lexord_take_index_conv by (rule disjI2)
  then show ?thesis by (simp add: list_le_def list_less_def)
qed

locale sorted_ready_list = ready_list push for push :: "'a :: linorder \<Rightarrow> 'a list \<Rightarrow> 'a list" +
  assumes sorted_push: "sorted r \<Longrightarrow> sorted (push x r)"
begin

lemma sorted_release_dependents:
  "sorted ready \<Longrightarrow> release_dependents push ds ind ready = (ind', ready') \<Longrightarrow> sorted ready'"
proof (induction ds arbitrary: ind ready)
  case Nil
  then show ?case by simp
next
  case (Cons d ds)
  have "sorted (if ind d = 1 then push d ready else ready)"
    using Cons.prems(1) sorted_push by simp
  from Cons.IH[OF this] Cons.prems(2) show ?case by (simp add: Let_def)
qed

lemma kahn_loop_least:
  assumes nodes: "fst ` set es \<union> snd ` set es \<subseteq> set ns"
  shows "\<lbrakk>kahn_inv es ns ready ind done; sorted ready; least_first es ns done;
          kahn_loop push (adjacent es) fuel ready ind done = Some ord\<rbrakk> \<Longrightarrow> least_first es ns ord"
proof (induction fuel arbitrary: ready ind "done")
  case 0
  then show ?case by (cases ready) auto
next
  case (Suc fuel)
  show ?case
  proof (cases ready)
    case Nil
    with Suc.prems show ?thesis by simp
  next
    case (Cons n ready0)
    obtain ind' ready' where rel: "release_dependents push (adjacent es n) ind ready0 = (ind', ready')"
      by (cases "release_dependents push (adjacent es n) ind ready0")
    have inv: "kahn_inv es ns ready' ind' (done @ [n])"
      using kahn_inv_step[OF _ rel nodes] Suc.prems(1) Cons by simp
    have "sorted ready'"
      using sorted_release_dependents[OF _ rel] Suc.prems(2) Cons by simp
    moreover have "least_first es ns (done @ [n])"
    proof -
      have "n \<le> m" if "m \<in> set ns" "m \<notin> set done" "\<forall>p. (p, m) \<in> set es \<longrightarrow> p \<in> set done" for m
      proof -
        from that Suc.prems(1) have "m \<in> set ready"
          by (auto simp: kahn_inv_def pending_zero)
        with Suc.prems(2) Cons show "n \<le> m" by auto
      qed
      with Suc.prems(3) show ?thesis by (simp add: least_first_snoc)
    qed
    ultimately show ?thesis using Suc.IH[OF inv] Suc.prems(4) Cons rel by simp
  qed
qed

theorem kahn_order_least:
  assumes nodes: "fst ` set es \<union> snd ` set es \<subseteq> set ns" and dns: "distinct ns"
    and ready: "ready = sort (filter (\<lambda>n. indegree_of es n = 0) ns)"
    and ord: "kahn_order push es ns ready = Some ord"
  shows "least_first es ns ord"
proof -
  have m: "mset ready = mset (filter (\<lambda>n. indegree_of es n = 0) ns)" by (simp add: ready)
  show ?thesis
    using kahn_loop_least[OF nodes kahn_inv_initial[OF m dns]] ord
    by (simp add: ready kahn_order_def least_first_def)
qed

end

text \<open>The whole run, as the clients use it: complete exactly for a graph without a cycle, and then
  the one topological order with the least free node first.\<close>

context sorted_ready_list
begin

lemma kahn_run_sorted:
  fixes es :: "('a \<times> 'a) list" and ns :: "'a list"
  defines "ord \<equiv> kahn_run push es ns (sort (filter (\<lambda>n. indegree_of es n = 0) ns))"
  assumes nodes: "fst ` set es \<union> snd ` set es \<subseteq> set ns" and dns: "distinct ns"
  shows "length ord = length ns \<longleftrightarrow> acyclic (set es)"
    and "length ord = length ns \<longleftrightarrow> topological_order es ns ord \<and> least_first es ns ord"
proof -
  let ?ready = "sort (filter (\<lambda>n. indegree_of es n = 0) ns)"
  have m: "mset ?ready = mset (filter (\<lambda>n. indegree_of es n = 0) ns)" by simp
  from kahn_order_spec[OF nodes dns m] obtain o1 where
    o1: "kahn_order push es ns ?ready = Some o1" "length o1 = length ns \<longleftrightarrow> acyclic (set es)" by auto
  then have ord: "ord = o1" by (simp add: ord_def kahn_run_def)
  show "length ord = length ns \<longleftrightarrow> acyclic (set es)" using o1(2) by (simp add: ord)
  have "topological_order es ns ord \<and> least_first es ns ord" if "length ord = length ns"
    using kahn_order_topological[OF nodes dns m o1(1)] kahn_order_least[OF nodes dns refl o1(1)] that
    by (simp add: ord)
  moreover have "length ord = length ns" if "topological_order es ns ord"
    using that dns by (metis distinct_card topological_order_def)
  ultimately show "length ord = length ns \<longleftrightarrow> topological_order es ns ord \<and> least_first es ns ord"
    by blast
qed

end

section \<open>Removing a node that nothing depends on\<close>

lemma filter_prefix:
  "i < length (filter P xs) \<Longrightarrow>
     \<exists>j < length xs. xs ! j = filter P xs ! i \<and> take i (filter P xs) = filter P (take j xs)"
proof (induction xs arbitrary: i)
  case Nil
  then show ?case by simp
next
  case (Cons x xs)
  show ?case
  proof (cases "P x")
    case True
    show ?thesis
    proof (cases i)
      case 0
      with True show ?thesis by (intro exI[of _ 0]) simp
    next
      case (Suc k)
      with Cons.prems True Cons.IH[of k] obtain j where
        "j < length xs" "xs ! j = filter P xs ! k" "take k (filter P xs) = filter P (take j xs)" by auto
      with Suc True show ?thesis by (intro exI[of _ "Suc j"]) simp
    qed
  next
    case False
    with Cons.prems Cons.IH[of i] obtain j where
      "j < length xs" "xs ! j = filter P xs ! i" "take i (filter P xs) = filter P (take j xs)" by auto
    with False show ?thesis by (intro exI[of _ "Suc j"]) simp
  qed
qed

lemma prereqs_first_remove:
  assumes pf: "prereqs_first es xs" and es': "set es' = {e \<in> set es. fst e \<noteq> x \<and> snd e \<noteq> x}"
  shows "prereqs_first es' (filter (\<lambda>y. y \<noteq> x) xs)"
  unfolding prereqs_first_def
proof (intro allI impI)
  fix i p
  assume i: "i < length (filter (\<lambda>y. y \<noteq> x) xs)" and e: "(p, filter (\<lambda>y. y \<noteq> x) xs ! i) \<in> set es'"
  from filter_prefix[OF i] obtain j where j: "j < length xs" "xs ! j = filter (\<lambda>y. y \<noteq> x) xs ! i"
    "take i (filter (\<lambda>y. y \<noteq> x) xs) = filter (\<lambda>y. y \<noteq> x) (take j xs)" by blast
  from e es' j(2) have "(p, xs ! j) \<in> set es" "p \<noteq> x" by auto
  with pf j(1) have "p \<in> set (take j xs)" by (auto simp: prereqs_first_def)
  with \<open>p \<noteq> x\<close> j(3) show "p \<in> set (take i (filter (\<lambda>y. y \<noteq> x) xs))" by simp
qed

lemma least_first_remove:
  assumes lf: "least_first es ns xs" and sink: "\<forall>e \<in> set es. fst e \<noteq> x"
    and es': "set es' = {e \<in> set es. fst e \<noteq> x \<and> snd e \<noteq> x}" and ns': "set ns' = set ns - {x}"
  shows "least_first es' ns' (filter (\<lambda>y. y \<noteq> x) xs)"
  unfolding least_first_def
proof (intro allI impI ballI)
  fix i m
  assume i: "i < length (filter (\<lambda>y. y \<noteq> x) xs)" and m: "m \<in> set ns'"
    and free: "m \<notin> set (take i (filter (\<lambda>y. y \<noteq> x) xs)) \<and>
      (\<forall>p. (p, m) \<in> set es' \<longrightarrow> p \<in> set (take i (filter (\<lambda>y. y \<noteq> x) xs)))"
  from filter_prefix[OF i] obtain j where j: "j < length xs" "xs ! j = filter (\<lambda>y. y \<noteq> x) xs ! i"
    "take i (filter (\<lambda>y. y \<noteq> x) xs) = filter (\<lambda>y. y \<noteq> x) (take j xs)" by blast
  from m ns' have m': "m \<in> set ns" "m \<noteq> x" by auto
  with free j(3) have "m \<notin> set (take j xs)" by auto
  moreover have "p \<in> set (take j xs)" if "(p, m) \<in> set es" for p
  proof -
    from that sink m'(2) es' have "(p, m) \<in> set es'" by auto
    with free j(3) show ?thesis by auto
  qed
  ultimately have "xs ! j \<le> m" using lf j(1) m'(1) by (auto simp: least_first_def)
  with j(2) show "filter (\<lambda>y. y \<noteq> x) xs ! i \<le> m" by simp
qed

section \<open>The four disciplines of the code\<close>

text \<open>\<open>ready = append(ready, dependent); sort.Strings(ready)\<close>.\<close>

definition push_sorted :: "'a :: linorder \<Rightarrow> 'a list \<Rightarrow> 'a list" where
  "push_sorted x r = sort (r @ [x])"

text \<open>The insertion at \<open>sort.SearchStrings(ready, dependent)\<close>: the first position whose node is
  not less, which the binary search finds in the sorted ready list.\<close>

definition push_search :: "'a :: linorder \<Rightarrow> 'a list \<Rightarrow> 'a list" where
  "push_search x r = takeWhile (\<lambda>y. y < x) r @ x # dropWhile (\<lambda>y. y < x) r"

lemma push_search_insort: "sorted r \<Longrightarrow> push_search x r = insort x r"
proof (induction r)
  case Nil
  then show ?case by (simp add: push_search_def)
next
  case (Cons y r)
  then show ?case by (auto simp: push_search_def)
qed

text \<open>\<open>ready = append(ready, dependent)\<close>, read from the front.\<close>

definition push_back :: "'a \<Rightarrow> 'a list \<Rightarrow> 'a list" where
  "push_back x r = r @ [x]"

text \<open>\<open>ready = append(ready, dependent)\<close>, read from the end: the head of the model's list is the
  end of the slice.\<close>

definition push_stack :: "'a \<Rightarrow> 'a list \<Rightarrow> 'a list" where
  "push_stack x r = x # r"

interpretation sorted_list: sorted_ready_list push_sorted
  by unfold_locales (auto simp: push_sorted_def)

interpretation search_list: sorted_ready_list push_search
proof unfold_locales
  fix x :: 'a and r :: "'a list"
  have "mset (takeWhile (\<lambda>y. y < x) r) + mset (dropWhile (\<lambda>y. y < x) r) = mset r"
    by (metis mset_append takeWhile_dropWhile_id)
  then show "mset (push_search x r) = add_mset x (mset r)" by (simp add: push_search_def)
  show "sorted r \<Longrightarrow> sorted (push_search x r)" by (simp add: push_search_insort sorted_insort)
qed

interpretation queue_list: ready_list push_back
  by unfold_locales (simp add: push_back_def)

interpretation stack_list: ready_list push_stack
  by unfold_locales (simp add: push_stack_def)

end
