(* ===== verification/ServiceDependency.thy ===== *)
theory ServiceDependency
  imports Kahn "HOL-Library.Product_Lexorder"
begin

text \<open>
  Service dependency plans (\<open>internal/core/service_dependency.go\<close> and
  \<open>internal/core/service_dependency_validation.go\<close>): the authored \<open>x-gp-depends_on\<close> selectors of
  an Environment are compiled, per lifecycle phase, into a sorted edge list and the least
  topological order of the Services on its edges; a frozen plan is validated again before use.

  A Go map is an association list in one of its iteration orders. \<open>build_phase_plan_iteration\<close>
  shows that the order does not matter.
\<close>

section \<open>Data\<close>

datatype dependency_condition =
    DependencyStarted
  | DependencyHealthy
  | DependencyCompletedSuccessfully
  | DependencyConditionOther string

fun condition_valid :: "dependency_condition \<Rightarrow> bool" where
  "condition_valid DependencyStarted = True"
| "condition_valid DependencyHealthy = True"
| "condition_valid DependencyCompletedSuccessfully = True"
| "condition_valid (DependencyConditionOther s) = False"

datatype dependency_phase =
    PhaseStart
  | PhaseDeploy
  | PhaseRollback
  | PhaseAlways
  | PhaseOther string

fun dependency_phase_valid :: "dependency_phase \<Rightarrow> bool" where
  "dependency_phase_valid PhaseStart = True"
| "dependency_phase_valid PhaseDeploy = True"
| "dependency_phase_valid PhaseRollback = True"
| "dependency_phase_valid PhaseAlways = True"
| "dependency_phase_valid (PhaseOther s) = False"

fun dependency_phase_string :: "dependency_phase \<Rightarrow> string" where
  "dependency_phase_string PhaseStart = ''start''"
| "dependency_phase_string PhaseDeploy = ''deploy''"
| "dependency_phase_string PhaseRollback = ''rollback''"
| "dependency_phase_string PhaseAlways = ''always''"
| "dependency_phase_string (PhaseOther s) = s"

text \<open>An executable lifecycle phase; the zero value \<open>""\<close> marks an empty embedded plan.\<close>

datatype lifecycle_phase =
    LifecycleNone
  | LifecycleStart
  | LifecycleDeploy
  | LifecycleRollback
  | LifecycleOther string

fun lifecycle_phase_valid :: "lifecycle_phase \<Rightarrow> bool" where
  "lifecycle_phase_valid LifecycleStart = True"
| "lifecycle_phase_valid LifecycleDeploy = True"
| "lifecycle_phase_valid LifecycleRollback = True"
| "lifecycle_phase_valid LifecycleNone = False"
| "lifecycle_phase_valid (LifecycleOther s) = False"

fun lifecycle_phase_string :: "lifecycle_phase \<Rightarrow> string" where
  "lifecycle_phase_string LifecycleNone = []"
| "lifecycle_phase_string LifecycleStart = ''start''"
| "lifecycle_phase_string LifecycleDeploy = ''deploy''"
| "lifecycle_phase_string LifecycleRollback = ''rollback''"
| "lifecycle_phase_string (LifecycleOther s) = s"

record service_dependency =
  dep_Condition :: dependency_condition
  dep_Phases :: "dependency_phase list"

record dependency_edge =
  edge_Service :: string
  edge_Dependency :: string
  edge_Condition :: dependency_condition

record phase_plan =
  plan_Phase :: lifecycle_phase
  plan_OrderedServices :: "string list"
  plan_Edges :: "dependency_edge list"

record dependency_plans =
  plans_Deploy :: phase_plan
  plans_Rollback :: phase_plan

text \<open>
  The \<open>DependsOn\<close> map of a Service's extension; the \<open>Release\<close> part of the extension is not
  read by this component.
\<close>

type_synonym depends_on = "(string \<times> service_dependency) list"

section \<open>Authored dependencies\<close>

fun validate_phases :: "dependency_phase list \<Rightarrow> dependency_phase list \<Rightarrow> unit res" where
  "validate_phases seen [] = Inr ()"
| "validate_phases seen (p # ps) =
     (if \<not> dependency_phase_valid p then Inl PlainError
      else if p \<in> set seen then Inl PlainError
      else validate_phases (p # seen) ps)"

definition dependency_validate :: "service_dependency \<Rightarrow> unit res" where
  "dependency_validate d =
     (if \<not> condition_valid (dep_Condition d) then Inl PlainError
      else validate_phases [] (dep_Phases d))"

definition phase_strings :: "service_dependency \<Rightarrow> string list" where
  "phase_strings d = map dependency_phase_string (dep_Phases d)"

definition applies_to :: "service_dependency \<Rightarrow> lifecycle_phase \<Rightarrow> bool" where
  "applies_to d phase \<longleftrightarrow>
     list_ex (\<lambda>s. s = PhaseAlways \<or> dependency_phase_string s = lifecycle_phase_string phase)
       (dep_Phases d)"

lemma validate_phases_ok:
  "validate_phases seen ps = Inr () \<longleftrightarrow>
     (\<forall>p \<in> set ps. dependency_phase_valid p \<and> p \<notin> set seen) \<and> distinct ps"
  by (induction ps arbitrary: seen) auto

lemma dependency_validate_ok [valid_iff]:
  "dependency_validate d = Inr () \<longleftrightarrow>
     condition_valid (dep_Condition d) \<and> (\<forall>p \<in> set (dep_Phases d). dependency_phase_valid p) \<and>
     distinct (dep_Phases d)"
  by (auto simp: dependency_validate_def validate_phases_ok)

section \<open>Ordering the Services of a phase\<close>

definition edge_nodes :: "dependency_edge list \<Rightarrow> string list" where
  "edge_nodes edges = remdups (concat (map (\<lambda>e. [edge_Service e, edge_Dependency e]) edges))"

definition edge_graph :: "dependency_edge list \<Rightarrow> (string \<times> string) list" where
  "edge_graph edges = map (\<lambda>e. (edge_Dependency e, edge_Service e)) edges"

definition order_phase :: "dependency_edge list \<Rightarrow> string list res" where
  "order_phase edges =
     (let nodes = edge_nodes edges;
          graph = edge_graph edges;
          ready = sort (filter (\<lambda>n. indegree_of graph n = 0) nodes);
          ordered = kahn_run push_sorted graph nodes ready
      in if length ordered \<noteq> length nodes then Inl PlainError else Inr ordered)"

lemma edge_nodes_distinct [simp]: "distinct (edge_nodes edges)"
  by (simp add: edge_nodes_def)

lemma set_edge_nodes:
  "set (edge_nodes edges) = edge_Service ` set edges \<union> edge_Dependency ` set edges"
  by (auto simp: edge_nodes_def)

lemma edge_graph_nodes: "fst ` set (edge_graph es) \<union> snd ` set (edge_graph es) \<subseteq> set (edge_nodes es)"
  by (auto simp: edge_graph_def set_edge_nodes)

lemma set_edge_graph: "set (edge_graph es) = (\<lambda>e. (edge_Dependency e, edge_Service e)) ` set es"
  by (simp add: edge_graph_def)

text \<open>The loop of \<open>orderServiceDependencyPhase\<close> always ends, so \<open>kahn_run\<close> is its result.\<close>

lemma order_phase_returns:
  "\<exists>ord. kahn_order push_sorted (edge_graph es) (edge_nodes es)
     (sort (filter (\<lambda>n. indegree_of (edge_graph es) n = 0) (edge_nodes es))) = Some ord"
proof -
  let ?ready = "sort (filter (\<lambda>n. indegree_of (edge_graph es) n = 0) (edge_nodes es))"
  have "mset ?ready = mset (filter (\<lambda>n. indegree_of (edge_graph es) n = 0) (edge_nodes es))" by simp
  from sorted_list.kahn_order_spec[OF edge_graph_nodes edge_nodes_distinct this]
  show ?thesis by auto
qed

lemma order_phase_cases:
  "order_phase es =
     (if acyclic (set (edge_graph es))
      then Inr (kahn_run push_sorted (edge_graph es) (edge_nodes es)
             (sort (filter (\<lambda>n. indegree_of (edge_graph es) n = 0) (edge_nodes es))))
      else Inl PlainError)"
proof -
  let ?ready = "sort (filter (\<lambda>n. indegree_of (edge_graph es) n = 0) (edge_nodes es))"
  have "mset ?ready = mset (filter (\<lambda>n. indegree_of (edge_graph es) n = 0) (edge_nodes es))" by simp
  from sorted_list.kahn_order_spec[OF edge_graph_nodes edge_nodes_distinct this]
  show ?thesis by (auto simp: order_phase_def Let_def kahn_run_def)
qed

lemma order_phase_Inr:
  assumes "order_phase es = Inr ord"
  shows "acyclic (set (edge_graph es))" "topological_order (edge_graph es) (edge_nodes es) ord"
    "least_first (edge_graph es) (edge_nodes es) ord"
proof -
  let ?ready = "sort (filter (\<lambda>n. indegree_of (edge_graph es) n = 0) (edge_nodes es))"
  have m: "mset ?ready = mset (filter (\<lambda>n. indegree_of (edge_graph es) n = 0) (edge_nodes es))" by simp
  from assms show "acyclic (set (edge_graph es))" by (simp add: order_phase_cases split: if_splits)
  from assms order_phase_returns[of es]
  have o: "kahn_order push_sorted (edge_graph es) (edge_nodes es) ?ready = Some ord"
    "length ord = length (edge_nodes es)"
    by (auto simp: order_phase_def Let_def kahn_run_def split: if_splits)
  show "topological_order (edge_graph es) (edge_nodes es) ord"
    by (rule sorted_list.kahn_order_topological[OF edge_graph_nodes edge_nodes_distinct m o])
  show "least_first (edge_graph es) (edge_nodes es) ord"
    by (rule sorted_list.kahn_order_least[OF edge_graph_nodes edge_nodes_distinct refl o(1)])
qed

text \<open>The result is the one order with the two properties.\<close>

lemma order_phase_iff:
  "order_phase es = Inr ord \<longleftrightarrow>
     topological_order (edge_graph es) (edge_nodes es) ord \<and>
     least_first (edge_graph es) (edge_nodes es) ord" (is "_ \<longleftrightarrow> ?spec ord")
proof
  assume "order_phase es = Inr ord"
  then show "?spec ord" by (simp add: order_phase_Inr)
next
  assume spec: "?spec ord"
  then have "acyclic (set (edge_graph es))"
    using edge_graph_nodes[of es] by (intro prereqs_first_acyclic) (auto simp: topological_order_def)
  then obtain ord' where ord': "order_phase es = Inr ord'" by (simp add: order_phase_cases)
  from order_phase_Inr(2,3)[OF ord'] spec have "ord \<le> ord'" "ord' \<le> ord"
    by (blast intro: least_first_is_least)+
  with ord' show "order_phase es = Inr ord" by simp
qed

section \<open>Building a plan\<close>

text \<open>\<open>services[name]\<close> for every name: an empty or repeated name is an error.\<close>

fun collect_names :: "err \<Rightarrow> string list \<Rightarrow> string list \<Rightarrow> string list res" where
  "collect_names e seen [] = Inr seen"
| "collect_names e seen (n # ns) =
     (if n = [] then Inl e
      else if n \<in> set seen then Inl e
      else collect_names e (n # seen) ns)"

fun collect_dependencies ::
  "string list \<Rightarrow> lifecycle_phase \<Rightarrow> string \<Rightarrow> depends_on \<Rightarrow> dependency_edge list \<Rightarrow>
   dependency_edge list res" where
  "collect_dependencies services phase service [] edges = Inr edges"
| "collect_dependencies services phase service ((name, d) # ds) edges =
     (if dependency_validate d \<noteq> Inr () then Inl PlainError
      else if name = service then Inl PlainError
      else if name \<notin> set services then Inl PlainError
      else if \<not> applies_to d phase then collect_dependencies services phase service ds edges
      else collect_dependencies services phase service ds
        (edges @ [\<lparr>edge_Service = service, edge_Dependency = name,
                   edge_Condition = dep_Condition d\<rparr>]))"

fun collect_edges ::
  "string list \<Rightarrow> lifecycle_phase \<Rightarrow> (string \<times> depends_on) list \<Rightarrow> dependency_edge list \<Rightarrow>
   dependency_edge list res" where
  "collect_edges services phase [] edges = Inr edges"
| "collect_edges services phase ((service, ds) # exts) edges =
     (if service \<notin> set services then Inl PlainError
      else try_res (collect_dependencies services phase service ds edges)
             (collect_edges services phase exts))"

text \<open>
  \<open>sort.Slice\<close> by Service, then by Dependency. The sort is not stable, but no two edges share
  the key: the keys of the two maps are distinct.
\<close>

definition sort_edges :: "dependency_edge list \<Rightarrow> dependency_edge list" where
  "sort_edges edges = sort_key (\<lambda>e. (edge_Service e, edge_Dependency e)) edges"

definition build_phase_plan ::
  "string list \<Rightarrow> (string \<times> depends_on) list \<Rightarrow> lifecycle_phase \<Rightarrow> phase_plan res" where
  "build_phase_plan names exts phase =
     (if \<not> lifecycle_phase_valid phase then Inl PlainError
      else try_res (collect_names PlainError [] names) (\<lambda>services.
           try_res (collect_edges services phase exts []) (\<lambda>collected.
           (let edges = sort_edges collected in
            try_res (order_phase edges) (\<lambda>ordered.
              Inr \<lparr>plan_Phase = phase, plan_OrderedServices = ordered, plan_Edges = edges\<rparr>)))))"

section \<open>Validating a frozen plan\<close>

fun validate_edges ::
  "string list \<Rightarrow> (string \<times> string) option \<Rightarrow> dependency_edge list \<Rightarrow> unit res" where
  "validate_edges services prev [] = Inr ()"
| "validate_edges services prev (e # es) =
     (if edge_Service e \<notin> set services then Inl ValidationFailed
      else if edge_Dependency e \<notin> set services then Inl ValidationFailed
      else if edge_Service e = edge_Dependency e \<or> \<not> condition_valid (edge_Condition e)
        then Inl ValidationFailed
      else if (case prev of None \<Rightarrow> False
               | Some (ps, pd) \<Rightarrow>
                   edge_Service e < ps \<or> (edge_Service e = ps \<and> edge_Dependency e \<le> pd))
        then Inl ValidationFailed
      else validate_edges services (Some (edge_Service e, edge_Dependency e)) es)"

text \<open>\<open>positions[name] = index\<close>, as the association list of the map.\<close>

fun collect_positions ::
  "string list \<Rightarrow> nat \<Rightarrow> (string \<times> nat) list \<Rightarrow> string list \<Rightarrow> (string \<times> nat) list res" where
  "collect_positions nodes i pos [] = Inr pos"
| "collect_positions nodes i pos (n # ns) =
     (if n \<notin> set nodes then Inl ValidationFailed
      else if n \<in> fst ` set pos then Inl ValidationFailed
      else collect_positions nodes (Suc i) ((n, i) # pos) ns)"

definition position_of :: "(string \<times> nat) list \<Rightarrow> string \<Rightarrow> nat" where
  "position_of pos n = (case map_of pos n of None \<Rightarrow> 0 | Some i \<Rightarrow> i)"

definition validate_phase_plan :: "string list \<Rightarrow> phase_plan \<Rightarrow> unit res" where
  "validate_phase_plan names plan =
     (if \<not> lifecycle_phase_valid (plan_Phase plan) then Inl ValidationFailed
      else try_res (collect_names ValidationFailed [] names) (\<lambda>services.
           try_res (validate_edges services None (plan_Edges plan)) (\<lambda>_.
           (let nodes = edge_nodes (plan_Edges plan) in
            if length (plan_OrderedServices plan) \<noteq> length nodes then Inl ValidationFailed
            else try_res (collect_positions nodes 0 [] (plan_OrderedServices plan)) (\<lambda>pos.
              if list_ex (\<lambda>e. position_of pos (edge_Service e) \<le> position_of pos (edge_Dependency e))
                   (plan_Edges plan) then Inl ValidationFailed
              else case order_phase (plan_Edges plan) of
                     Inl _ \<Rightarrow> Inl ValidationFailed
                   | Inr expected \<Rightarrow>
                       if plan_OrderedServices plan \<noteq> expected then Inl ValidationFailed
                       else Inr ())))))"

section \<open>The pair of plans of a projection\<close>

definition embedded_plan_empty :: "phase_plan \<Rightarrow> bool" where
  "embedded_plan_empty plan \<longleftrightarrow>
     plan_Phase plan = LifecycleNone \<and> plan_OrderedServices plan = [] \<and> plan_Edges plan = []"

definition validate_embedded :: "string list \<Rightarrow> lifecycle_phase \<Rightarrow> phase_plan \<Rightarrow> unit res" where
  "validate_embedded names phase plan =
     (if embedded_plan_empty plan then Inr ()
      else if plan_Phase plan \<noteq> phase then Inl ValidationFailed
      else validate_phase_plan names plan)"

definition plans_validate :: "string list \<Rightarrow> dependency_plans \<Rightarrow> unit res" where
  "plans_validate names plans =
     try_res (validate_embedded names LifecycleDeploy (plans_Deploy plans)) (\<lambda>_.
       validate_embedded names LifecycleRollback (plans_Rollback plans))"

definition phase_plans_equal :: "phase_plan \<Rightarrow> phase_plan \<Rightarrow> bool" where
  "phase_plans_equal l r \<longleftrightarrow>
     plan_Phase l = plan_Phase r \<and> plan_OrderedServices l = plan_OrderedServices r \<and>
     plan_Edges l = plan_Edges r"

definition plans_equal :: "dependency_plans \<Rightarrow> dependency_plans \<Rightarrow> bool" where
  "plans_equal l r \<longleftrightarrow>
     phase_plans_equal (plans_Deploy l) (plans_Deploy r) \<and>
     phase_plans_equal (plans_Rollback l) (plans_Rollback r)"

text \<open>
  Removal of one Service. The code filters in place (\<open>plan.OrderedServices[:0]\<close>); its callers
  pass an owned copy (\<open>Clone().WithoutService\<close>), so only the returned value matters.
\<close>

definition plan_without_service :: "string \<Rightarrow> phase_plan \<Rightarrow> phase_plan" where
  "plan_without_service name plan =
     (let ordered = filter (\<lambda>s. s \<noteq> name) (plan_OrderedServices plan);
          edges = filter (\<lambda>e. edge_Service e \<noteq> name \<and> edge_Dependency e \<noteq> name) (plan_Edges plan)
      in \<lparr>plan_Phase = (if ordered = [] \<and> edges = [] then LifecycleNone else plan_Phase plan),
          plan_OrderedServices = ordered, plan_Edges = edges\<rparr>)"

definition plans_without_service :: "string \<Rightarrow> dependency_plans \<Rightarrow> dependency_plans" where
  "plans_without_service name plans =
     \<lparr>plans_Deploy = plan_without_service name (plans_Deploy plans),
      plans_Rollback = plan_without_service name (plans_Rollback plans)\<rparr>"

text \<open>
  \<open>ValidEnvironmentComposeName\<close>. Its loop runs over code points and rejects those up to the
  space, the slash and the backslash; all of these are ASCII, so the loop over the bytes of
  valid UTF-8 decides the same.
\<close>

definition valid_environment_compose_name :: "string \<Rightarrow> bool" where
  "valid_environment_compose_name value \<longleftrightarrow>
     value \<noteq> [] \<and> length value \<le> 255 \<and> valid_utf8 value \<and> list_all (\<lambda>c. byte c \<noteq> 0) value \<and>
     list_all (\<lambda>c. \<not> byte c \<le> 32 \<and> c \<noteq> CHR ''/'' \<and> c \<noteq> CHR 0x5C) value"

section \<open>What the loops compute\<close>

lemma collect_names_ok:
  "collect_names e seen ns = Inr s \<longleftrightarrow>
     s = rev ns @ seen \<and> [] \<notin> set ns \<and> distinct ns \<and> set ns \<inter> set seen = {}"
  by (induction ns arbitrary: seen) auto

lemma collect_names_Inl: "collect_names e seen ns = Inl e' \<Longrightarrow> e' = e"
  by (induction ns arbitrary: seen) (auto split: if_splits)

definition names_ok :: "string list \<Rightarrow> bool" where
  "names_ok ns \<longleftrightarrow> [] \<notin> set ns \<and> distinct ns"

definition dependency_ok :: "string set \<Rightarrow> string \<Rightarrow> string \<times> service_dependency \<Rightarrow> bool" where
  "dependency_ok services service nd \<longleftrightarrow>
     dependency_validate (snd nd) = Inr () \<and> fst nd \<noteq> service \<and> fst nd \<in> services"

definition edges_of :: "lifecycle_phase \<Rightarrow> string \<Rightarrow> depends_on \<Rightarrow> dependency_edge list" where
  "edges_of phase service ds =
     map (\<lambda>nd. \<lparr>edge_Service = service, edge_Dependency = fst nd, edge_Condition = dep_Condition (snd nd)\<rparr>)
       (filter (\<lambda>nd. applies_to (snd nd) phase) ds)"

definition all_edges :: "lifecycle_phase \<Rightarrow> (string \<times> depends_on) list \<Rightarrow> dependency_edge list" where
  "all_edges phase exts = concat (map (\<lambda>x. edges_of phase (fst x) (snd x)) exts)"

definition extensions_ok :: "string set \<Rightarrow> (string \<times> depends_on) list \<Rightarrow> bool" where
  "extensions_ok services exts \<longleftrightarrow>
     (\<forall>x \<in> set exts. fst x \<in> services \<and> (\<forall>nd \<in> set (snd x). dependency_ok services (fst x) nd))"

lemma extensions_ok_simps [simp]:
  "extensions_ok services []"
  "extensions_ok services ((s, ds) # exts) \<longleftrightarrow>
     s \<in> services \<and> (\<forall>nd \<in> set ds. dependency_ok services s nd) \<and> extensions_ok services exts"
  by (auto simp: extensions_ok_def)

lemma all_edges_simps [simp]:
  "all_edges phase [] = []"
  "all_edges phase ((s, ds) # exts) = edges_of phase s ds @ all_edges phase exts"
  by (auto simp: all_edges_def)

lemma collect_dependencies_ok:
  "collect_dependencies services phase service ds edges = Inr r \<longleftrightarrow>
     (\<forall>nd \<in> set ds. dependency_ok (set services) service nd) \<and> r = edges @ edges_of phase service ds"
proof (induction ds arbitrary: edges)
  case Nil
  then show ?case by (auto simp: edges_of_def)
next
  case (Cons x ds)
  obtain name d where "x = (name, d)" by (cases x)
  then show ?case by (simp add: Cons.IH dependency_ok_def edges_of_def)
qed

lemma collect_edges_ok:
  "collect_edges services phase exts edges = Inr r \<longleftrightarrow>
     extensions_ok (set services) exts \<and> r = edges @ all_edges phase exts"
proof (induction exts arbitrary: edges)
  case Nil
  then show ?case by auto
next
  case (Cons x exts)
  then show ?case by (cases x) (auto simp: collect_dependencies_ok)
qed

lemma collect_dependencies_Inl:
  "collect_dependencies services phase service ds edges = Inl e \<Longrightarrow> e = PlainError"
  by (induction services phase service ds edges rule: collect_dependencies.induct)
    (auto split: if_splits)

lemma collect_edges_Inl: "collect_edges services phase exts edges = Inl e \<Longrightarrow> e = PlainError"
  by (induction services phase exts edges rule: collect_edges.induct)
    (auto simp: try_res_eq_Inl dest: collect_dependencies_Inl split: if_splits)

text \<open>The plan that \<open>BuildServiceDependencyPhasePlan\<close> returns, and exactly when it returns one.\<close>

lemma build_phase_plan_Inr:
  "build_phase_plan names exts phase = Inr plan \<longleftrightarrow>
     lifecycle_phase_valid phase \<and> names_ok names \<and> extensions_ok (set names) exts \<and>
     plan_Phase plan = phase \<and> plan_Edges plan = sort_edges (all_edges phase exts) \<and>
     order_phase (plan_Edges plan) = Inr (plan_OrderedServices plan)"
proof -
  have rev_names: "extensions_ok (set (rev names @ [])) exts \<longleftrightarrow> extensions_ok (set names) exts"
    by simp
  show ?thesis
    by (cases plan)
      (auto simp: build_phase_plan_def Let_def collect_names_ok collect_edges_ok names_ok_def rev_names)
qed

lemma set_sort_edges [simp]: "set (sort_edges es) = set es"
  by (simp add: sort_edges_def)

lemma edge_graph_sort_edges: "set (edge_graph (sort_edges es)) = set (edge_graph es)"
  by (simp add: set_edge_graph)

lemma build_phase_plan_ok_iff:
  "is_ok (build_phase_plan names exts phase) \<longleftrightarrow>
     lifecycle_phase_valid phase \<and> names_ok names \<and> extensions_ok (set names) exts \<and>
     acyclic (set (edge_graph (all_edges phase exts)))"
proof -
  have "is_ok (build_phase_plan names exts phase) \<longleftrightarrow>
      (\<exists>plan. build_phase_plan names exts phase = Inr plan)" by (rule is_ok_iff)
  also have "\<dots> \<longleftrightarrow> lifecycle_phase_valid phase \<and> names_ok names \<and> extensions_ok (set names) exts \<and>
      (\<exists>ord. order_phase (sort_edges (all_edges phase exts)) = Inr ord)"
    by (auto simp: build_phase_plan_Inr)
      (rule exI[of _ "\<lparr>plan_Phase = phase, plan_OrderedServices = _, plan_Edges = _\<rparr>"], simp)
  also have "(\<exists>ord. order_phase (sort_edges (all_edges phase exts)) = Inr ord) \<longleftrightarrow>
      acyclic (set (edge_graph (all_edges phase exts)))"
    by (simp add: order_phase_cases edge_graph_sort_edges)
  finally show ?thesis .
qed

section \<open>Independence of the iteration order of the maps\<close>

text \<open>Two association lists are iterations of the same map of maps.\<close>

definition same_dependencies :: "depends_on \<Rightarrow> depends_on \<Rightarrow> bool" where
  "same_dependencies xs ys \<longleftrightarrow> distinct (map fst xs) \<and> mset xs = mset ys"

definition same_extensions ::
  "(string \<times> depends_on) list \<Rightarrow> (string \<times> depends_on) list \<Rightarrow> bool" where
  "same_extensions xs ys \<longleftrightarrow>
     distinct (map fst xs) \<and>
     (\<exists>zs. mset zs = mset ys \<and>
       list_all2 (\<lambda>x z. fst x = fst z \<and> same_dependencies (snd x) (snd z)) xs zs)"

definition edge_key :: "dependency_edge \<Rightarrow> string \<times> string" where
  "edge_key e = (edge_Service e, edge_Dependency e)"

lemma sort_edges_key: "sort_edges = sort_key edge_key"
proof -
  have "(\<lambda>e. (edge_Service e, edge_Dependency e)) = edge_key" by (rule ext) (simp add: edge_key_def)
  then show ?thesis by (simp add: sort_edges_def fun_eq_iff)
qed

lemma edges_of_service: "e \<in> set (edges_of phase s ds) \<Longrightarrow> edge_Service e = s"
  by (auto simp: edges_of_def)

lemma all_edges_service: "e \<in> set (all_edges phase exts) \<Longrightarrow> edge_Service e \<in> fst ` set exts"
proof (induction exts)
  case (Cons x exts)
  then show ?case by (cases x) (auto dest: edges_of_service)
qed simp

lemma distinct_edges_of:
  "distinct (map fst ds) \<Longrightarrow> distinct (map edge_key (edges_of phase s ds))"
  by (induction ds) (auto simp: edges_of_def edge_key_def)

text \<open>No two collected edges share the sort key when the maps have distinct keys.\<close>

lemma distinct_all_edges:
  assumes "distinct (map fst exts)" "\<forall>x \<in> set exts. distinct (map fst (snd x))"
  shows "distinct (map edge_key (all_edges phase exts))"
  using assms
proof (induction exts)
  case Nil
  then show ?case by (simp add: all_edges_def)
next
  case (Cons x exts)
  obtain s ds where x: "x = (s, ds)" by (cases x)
  have "s \<notin> fst ` set exts" using Cons.prems x by auto
  then have "edge_key ` set (edges_of phase s ds) \<inter> edge_key ` set (all_edges phase exts) = {}"
    by (auto simp: edge_key_def dest!: edges_of_service dest: all_edges_service)
  moreover have "distinct (map edge_key (edges_of phase s ds))"
    using distinct_edges_of Cons.prems x by simp
  ultimately show ?case using Cons x by simp
qed

lemma mset_edges_of:
  "mset xs = mset ys \<Longrightarrow> mset (edges_of phase s xs) = mset (edges_of phase s ys)"
  by (simp add: edges_of_def)

lemma mset_all_edges_sum:
  "mset (all_edges phase xs) = (\<Sum>x \<in># mset xs. mset (edges_of phase (fst x) (snd x)))"
  by (induction xs) (auto simp: all_edges_def)

lemma mset_all_edges:
  assumes "same_extensions xs ys"
  shows "mset (all_edges phase xs) = mset (all_edges phase ys)"
proof -
  from assms obtain zs where zs: "mset zs = mset ys"
    "list_all2 (\<lambda>x z. fst x = fst z \<and> same_dependencies (snd x) (snd z)) xs zs"
    by (auto simp: same_extensions_def)
  from zs(2) have "mset (all_edges phase xs) = mset (all_edges phase zs)"
    by (induction rule: list_all2_induct) (auto simp: all_edges_def same_dependencies_def intro: mset_edges_of)
  also have "\<dots> = mset (all_edges phase ys)" by (simp add: mset_all_edges_sum zs(1))
  finally show ?thesis .
qed

lemma same_extensions_ok:
  assumes "same_extensions xs ys"
  shows "extensions_ok services xs \<longleftrightarrow> extensions_ok services ys"
proof -
  from assms obtain zs where zs: "mset zs = mset ys"
    "list_all2 (\<lambda>x z. fst x = fst z \<and> same_dependencies (snd x) (snd z)) xs zs"
    by (auto simp: same_extensions_def)
  from zs(2) have "extensions_ok services xs \<longleftrightarrow> extensions_ok services zs"
    by (induction rule: list_all2_induct)
      (auto simp: extensions_ok_def same_dependencies_def dest!: mset_eq_setD)
  then show ?thesis using mset_eq_setD[OF zs(1)] by (simp add: extensions_ok_def)
qed

lemma same_extensions_sorted_edges:
  assumes "same_extensions xs ys"
  shows "sort_edges (all_edges phase xs) = sort_edges (all_edges phase ys)"
proof -
  from assms obtain zs where zs: "distinct (map fst xs)"
    "list_all2 (\<lambda>x z. fst x = fst z \<and> same_dependencies (snd x) (snd z)) xs zs"
    by (auto simp: same_extensions_def)
  from zs(2) have "\<forall>x \<in> set xs. distinct (map fst (snd x))"
    by (induction rule: list_all2_induct) (auto simp: same_dependencies_def)
  with zs(1) have "inj_on edge_key (set (all_edges phase xs))"
    using distinct_all_edges[of xs phase] by (simp add: distinct_map)
  with mset_all_edges[OF assms] show ?thesis
    by (simp add: sort_edges_key sort_key_eq_sort_key)
qed

lemma build_phase_plan_same:
  assumes "same_extensions xs ys"
  shows "build_phase_plan names xs phase = build_phase_plan names ys phase"
proof -
  have ok: "build_phase_plan names xs phase = Inr plan \<longleftrightarrow> build_phase_plan names ys phase = Inr plan" for plan
    using same_extensions_ok[OF assms] same_extensions_sorted_edges[OF assms]
    by (simp add: build_phase_plan_Inr)
  have err: "build_phase_plan names zs phase = Inl e \<Longrightarrow> e = PlainError" for zs e
    by (auto simp: build_phase_plan_def Let_def try_res_eq_Inl order_phase_cases
        dest: collect_names_Inl collect_edges_Inl split: if_splits)
  show ?thesis by (rule res_eqI[OF ok err err])
qed

section \<open>What the validator accepts\<close>

lemma validate_edges_ok:
  "validate_edges services prev es = Inr () \<longleftrightarrow>
     (\<forall>e \<in> set es. edge_Service e \<in> set services \<and> edge_Dependency e \<in> set services \<and>
        edge_Service e \<noteq> edge_Dependency e \<and> condition_valid (edge_Condition e)) \<and>
     sorted_wrt (<) (map edge_key es) \<and>
     (case prev of None \<Rightarrow> True | Some p \<Rightarrow> \<forall>e \<in> set es. p < edge_key e)"
proof (induction es arbitrary: prev)
  case Nil
  then show ?case by (cases prev) auto
next
  case (Cons e es)
  have key: "\<not> (edge_Service e < fst p \<or> edge_Service e = fst p \<and> edge_Dependency e \<le> snd p) \<longleftrightarrow>
      p < edge_key e" for p
    by (cases p) (auto simp: edge_key_def less_prod_simp not_less not_le order.order_iff_strict)
  have prev: "(case prev of None \<Rightarrow> False
       | Some (ps, pd) \<Rightarrow> edge_Service e < ps \<or> (edge_Service e = ps \<and> edge_Dependency e \<le> pd)) \<longleftrightarrow>
      \<not> (case prev of None \<Rightarrow> True | Some p \<Rightarrow> p < edge_key e)"
  proof (cases prev)
    case (Some p)
    with key[of p] show ?thesis by (cases p) auto
  qed simp
  have IH: "validate_edges services (Some (edge_Service e, edge_Dependency e)) es = Inr () \<longleftrightarrow>
     (\<forall>e \<in> set es. edge_Service e \<in> set services \<and> edge_Dependency e \<in> set services \<and>
        edge_Service e \<noteq> edge_Dependency e \<and> condition_valid (edge_Condition e)) \<and>
     sorted_wrt (<) (map edge_key es) \<and> (\<forall>e' \<in> set es. edge_key e < edge_key e')"
  proof -
    have "(edge_Service e, edge_Dependency e) = edge_key e" by (simp add: edge_key_def)
    then show ?thesis by (simp only: Cons.IH option.case)
  qed
  show ?case
    unfolding validate_edges.simps prev
    by (cases prev) (auto simp: IH intro: less_trans)
qed

lemma validate_edges_Inl: "validate_edges services prev es = Inl e \<Longrightarrow> e = ValidationFailed"
  by (induction services prev es rule: validate_edges.induct) (auto split: if_splits)

lemma collect_positions_ok:
  "collect_positions nodes i pos ns = Inr r \<longleftrightarrow>
     set ns \<subseteq> set nodes \<and> distinct ns \<and> set ns \<inter> fst ` set pos = {} \<and>
     r = rev (zip ns [i ..< i + length ns]) @ pos"
proof (induction ns arbitrary: i pos)
  case Nil
  then show ?case by auto
next
  case (Cons n ns)
  have "[i ..< i + length (n # ns)] = i # [Suc i ..< Suc i + length ns]"
    by (simp add: upt_conv_Cons del: upt_Suc)
  then show ?case by (simp add: Cons.IH del: upt_Suc) auto
qed

lemma position_of_nth:
  assumes "distinct ns" "j < length ns"
  shows "position_of (rev (zip ns [0 ..< length ns])) (ns ! j) = j"
proof -
  have "distinct (map fst (rev (zip ns [0 ..< length ns])))"
    using assms(1) by (simp add: rev_map[symmetric])
  moreover have "(ns ! j, j) \<in> set (rev (zip ns [0 ..< length ns]))"
    using assms(2) by (auto simp: set_zip)
  ultimately show ?thesis by (simp add: position_of_def)
qed

text \<open>The position test never fails on the order that the validator recomputes.\<close>

lemma order_phase_positions:
  assumes "order_phase es = Inr ord" "e \<in> set es"
  shows "position_of (rev (zip ord [0 ..< length ord])) (edge_Dependency e)
       < position_of (rev (zip ord [0 ..< length ord])) (edge_Service e)"
proof -
  from order_phase_Inr(2)[OF assms(1)]
  have ord: "distinct ord" "set ord = set (edge_nodes es)" "prereqs_first (edge_graph es) ord"
    by (auto simp: topological_order_def)
  have "(edge_Dependency e, edge_Service e) \<in> set (edge_graph es)" "edge_Service e \<in> set ord"
    using assms(2) ord(2) by (auto simp: set_edge_graph set_edge_nodes)
  from prereqs_first_edge[OF ord(3,1) this] obtain i j where
    "i < j" "j < length ord" "ord ! i = edge_Dependency e" "ord ! j = edge_Service e" .
  then show ?thesis
    using position_of_nth[OF ord(1), of i] position_of_nth[OF ord(1), of j] by simp
qed

definition edges_ok :: "string list \<Rightarrow> dependency_edge list \<Rightarrow> bool" where
  "edges_ok names es \<longleftrightarrow>
     (\<forall>e \<in> set es. edge_Service e \<in> set names \<and> edge_Dependency e \<in> set names \<and>
        edge_Service e \<noteq> edge_Dependency e \<and> condition_valid (edge_Condition e)) \<and>
     sorted_wrt (<) (map edge_key es)"

lemma validate_phase_plan_iff:
  "validate_phase_plan names plan = Inr () \<longleftrightarrow>
     lifecycle_phase_valid (plan_Phase plan) \<and> names_ok names \<and> edges_ok names (plan_Edges plan) \<and>
     order_phase (plan_Edges plan) = Inr (plan_OrderedServices plan)"
    (is "?v \<longleftrightarrow> ?spec")
proof
  assume ?v
  then show ?spec
    by (auto simp: validate_phase_plan_def Let_def collect_names_ok names_ok_def validate_edges_ok
        edges_ok_def split: sum.splits if_splits)
next
  assume spec: ?spec
  let ?ord = "plan_OrderedServices plan"
  let ?es = "plan_Edges plan"
  from spec have ord: "order_phase ?es = Inr ?ord" by simp
  from order_phase_Inr(2)[OF ord] have top: "distinct ?ord" "set ?ord = set (edge_nodes ?es)"
    by (auto simp: topological_order_def)
  then have len: "length ?ord = length (edge_nodes ?es)"
    by (metis distinct_card edge_nodes_distinct)
  have pos: "collect_positions (edge_nodes ?es) 0 [] ?ord = Inr (rev (zip ?ord [0 ..< length ?ord]))"
    using top by (simp add: collect_positions_ok)
  have names: "collect_names ValidationFailed [] names = Inr (rev names)"
    using spec by (simp add: collect_names_ok names_ok_def)
  have edges: "validate_edges (rev names) None ?es = Inr ()"
    using spec by (simp add: validate_edges_ok edges_ok_def)
  have "\<not> list_ex (\<lambda>e. position_of (rev (zip ?ord [0 ..< length ?ord])) (edge_Service e)
        \<le> position_of (rev (zip ?ord [0 ..< length ?ord])) (edge_Dependency e)) ?es"
    using order_phase_positions[OF ord] by (auto simp: list_ex_iff not_le)
  with spec ord len pos names edges show ?v by (simp add: validate_phase_plan_def Let_def)
qed

lemma sort_edges_sorted:
  assumes "distinct (map edge_key es)"
  shows "sorted_wrt (<) (map edge_key (sort_edges es))"
proof -
  have "distinct (map edge_key (sort_edges es))"
    using assms by (simp add: sort_edges_key distinct_map)
  then show ?thesis by (simp add: strict_sorted_iff sort_edges_key)
qed

lemma edges_of_wf:
  assumes "\<forall>nd \<in> set ds. dependency_ok services s nd" "e \<in> set (edges_of phase s ds)"
  shows "edge_Service e = s" "edge_Dependency e \<in> services" "s \<noteq> edge_Dependency e"
    "condition_valid (edge_Condition e)"
proof -
  from assms(2) obtain nd where nd: "nd \<in> set ds"
    "e = \<lparr>edge_Service = s, edge_Dependency = fst nd, edge_Condition = dep_Condition (snd nd)\<rparr>"
    by (auto simp: edges_of_def)
  moreover from assms(1) nd(1) have "dependency_ok services s nd" by blast
  ultimately show "edge_Service e = s" "edge_Dependency e \<in> services" "s \<noteq> edge_Dependency e"
    "condition_valid (edge_Condition e)"
    by (auto simp: dependency_ok_def dependency_validate_ok)
qed

lemma all_edges_wf:
  "\<lbrakk>extensions_ok services exts; e \<in> set (all_edges phase exts)\<rbrakk> \<Longrightarrow>
     edge_Service e \<in> services \<and> edge_Dependency e \<in> services \<and>
     edge_Service e \<noteq> edge_Dependency e \<and> condition_valid (edge_Condition e)"
proof (induction exts)
  case (Cons x exts)
  then show ?case by (cases x) (auto dest: edges_of_wf)
qed simp

lemma build_validates:
  assumes "distinct (map fst exts)" "\<forall>x \<in> set exts. distinct (map fst (snd x))"
    "build_phase_plan names exts phase = Inr plan"
  shows "validate_phase_plan names plan = Inr ()"
proof -
  from assms(3) have b: "lifecycle_phase_valid phase" "names_ok names" "extensions_ok (set names) exts"
    "plan_Phase plan = phase" "plan_Edges plan = sort_edges (all_edges phase exts)"
    "order_phase (plan_Edges plan) = Inr (plan_OrderedServices plan)"
    by (auto simp: build_phase_plan_Inr)
  have "edges_ok names (plan_Edges plan)"
    using b(3,5) sort_edges_sorted[OF distinct_all_edges[OF assms(1,2)]]
    by (auto simp: edges_ok_def dest: all_edges_wf)
  with b show ?thesis by (simp add: validate_phase_plan_iff)
qed

section \<open>Removing a Service\<close>

lemma edges_without:
  "set (edge_graph (filter (\<lambda>e. edge_Service e \<noteq> x \<and> edge_Dependency e \<noteq> x) es)) =
     {e \<in> set (edge_graph es). fst e \<noteq> x \<and> snd e \<noteq> x}"
  by (auto simp: set_edge_graph)

lemma sorted_wrt_filter_map:
  "sorted_wrt R (map f xs) \<Longrightarrow> sorted_wrt R (map f (filter P xs))"
  by (induction xs) auto

lemma plan_without_service_iff:
  assumes valid: "validate_phase_plan names plan = Inr ()"
    and inbound: "\<forall>e \<in> set (plan_Edges plan). edge_Dependency e \<noteq> x"
  shows "validate_embedded (filter (\<lambda>n. n \<noteq> x) names) (plan_Phase plan) (plan_without_service x plan) = Inr ()
    \<longleftrightarrow> (\<forall>s \<in> set (plan_OrderedServices plan). s \<noteq> x \<longrightarrow>
          (\<exists>e \<in> set (plan_Edges plan). edge_Service e \<noteq> x \<and> s \<in> {edge_Service e, edge_Dependency e}))"
proof -
  let ?es = "plan_Edges plan"
  let ?es' = "filter (\<lambda>e. edge_Service e \<noteq> x \<and> edge_Dependency e \<noteq> x) ?es"
  let ?ord = "plan_OrderedServices plan"
  let ?ord' = "filter (\<lambda>s. s \<noteq> x) ?ord"
  let ?names' = "filter (\<lambda>n. n \<noteq> x) names"
  from valid have v: "lifecycle_phase_valid (plan_Phase plan)" "names_ok names" "edges_ok names ?es"
    "order_phase ?es = Inr ?ord" by (auto simp: validate_phase_plan_iff)
  from order_phase_Inr(2,3)[OF v(4)]
  have ord: "distinct ?ord" "set ?ord = set (edge_nodes ?es)" "prereqs_first (edge_graph ?es) ?ord"
    "least_first (edge_graph ?es) (edge_nodes ?es) ?ord" by (auto simp: topological_order_def)
  have covered: "set (edge_nodes ?es') = set ?ord' \<longleftrightarrow>
      (\<forall>s \<in> set ?ord. s \<noteq> x \<longrightarrow> (\<exists>e \<in> set ?es. edge_Service e \<noteq> x \<and> s \<in> {edge_Service e, edge_Dependency e}))"
    using inbound by (auto simp: ord(2) set_edge_nodes)
  have pf: "prereqs_first (edge_graph ?es') ?ord'"
    by (rule prereqs_first_remove[OF ord(3) edges_without])
  have "order_phase ?es' = Inr ?ord' \<longleftrightarrow> set (edge_nodes ?es') = set ?ord'"
  proof
    assume "order_phase ?es' = Inr ?ord'"
    from order_phase_Inr(2)[OF this] show "set (edge_nodes ?es') = set ?ord'"
      by (simp add: topological_order_def)
  next
    assume nodes: "set (edge_nodes ?es') = set ?ord'"
    then have "set (edge_nodes ?es') = set (edge_nodes ?es) - {x}" using ord(2) by auto
    from least_first_remove[OF ord(4) _ edges_without this] inbound
    have "least_first (edge_graph ?es') (edge_nodes ?es') ?ord'" by (auto simp: set_edge_graph)
    with pf nodes ord(1) show "order_phase ?es' = Inr ?ord'"
      by (auto simp: order_phase_iff topological_order_def)
  qed
  moreover have "names_ok ?names'" "edges_ok ?names' ?es'"
    using v(2,3) by (auto simp: names_ok_def edges_ok_def sorted_wrt_filter_map)
  moreover have "edge_nodes ?es' = []" if "?es' = []" using that by (simp only: edge_nodes_def) simp
  ultimately show ?thesis
    using v(1) covered
    by (cases "?ord' = [] \<and> ?es' = []")
      (auto simp: validate_embedded_def embedded_plan_empty_def plan_without_service_def Let_def
        validate_phase_plan_iff)
qed

section \<open>Properties\<close>

text \<open>An example: \<open>web\<close> depends on \<open>api\<close> and \<open>db\<close>, \<open>api\<close> depends on \<open>db\<close>.\<close>

definition example_dependency :: service_dependency where
  "example_dependency = \<lparr>dep_Condition = DependencyHealthy, dep_Phases = [PhaseDeploy]\<rparr>"

definition example_names :: "string list" where
  "example_names = [''api'', ''db'', ''web'']"

definition example_extensions :: "(string \<times> depends_on) list" where
  "example_extensions =
     [(''web'', [(''db'', example_dependency), (''api'', example_dependency)]),
      (''api'', [(''db'', example_dependency)])]"

definition example_edge :: "string \<Rightarrow> string \<Rightarrow> dependency_edge" where
  "example_edge s d = \<lparr>edge_Service = s, edge_Dependency = d, edge_Condition = DependencyHealthy\<rparr>"

definition example_plan :: phase_plan where
  "example_plan = \<lparr>plan_Phase = LifecycleDeploy, plan_OrderedServices = [''db'', ''api'', ''web''],
     plan_Edges = [example_edge ''api'' ''db'', example_edge ''web'' ''api'', example_edge ''web'' ''db'']\<rparr>"

lemma example_build: "build_phase_plan example_names example_extensions LifecycleDeploy = Inr example_plan"
  by code_simp

text \<open>C1. A plan that \<open>BuildServiceDependencyPhasePlan\<close> returns holds exactly the authored edges
  of the phase, sorted strictly by Service and prerequisite, and its order is the least
  topological order of the Services on those edges: every prerequisite comes before its
  dependents, each Service occurs once, and no other such order is lexicographically smaller.\<close>

theorem build_phase_plan_order:
  assumes "build_phase_plan names exts phase = Inr plan"
  shows "set (plan_Edges plan) = set (all_edges phase exts) \<and>
    sorted (map edge_key (plan_Edges plan)) \<and>
    topological_order (edge_graph (plan_Edges plan)) (edge_nodes (plan_Edges plan)) (plan_OrderedServices plan) \<and>
    (\<forall>ys. topological_order (edge_graph (plan_Edges plan)) (edge_nodes (plan_Edges plan)) ys \<longrightarrow>
       plan_OrderedServices plan \<le> ys)"
proof -
  from assms have edges: "plan_Edges plan = sort_edges (all_edges phase exts)"
    and ord: "order_phase (plan_Edges plan) = Inr (plan_OrderedServices plan)"
    by (auto simp: build_phase_plan_Inr)
  from order_phase_Inr(2,3)[OF ord] show ?thesis
    by (auto simp: edges sort_edges_key intro: least_first_is_least)
qed

theorem build_phase_plan_order_witness:
  "build_phase_plan example_names example_extensions LifecycleDeploy = Inr example_plan \<and>
   topological_order (edge_graph (plan_Edges example_plan)) (edge_nodes (plan_Edges example_plan))
     (plan_OrderedServices example_plan)"
  using build_phase_plan_order[OF example_build] example_build by blast

text \<open>C2. \<open>BuildServiceDependencyPhasePlan\<close> succeeds exactly when the phase is a lifecycle phase,
  the Service names are nonempty and distinct, every authored dependency is valid, names another
  declared Service, and the edges selected for the phase have no cycle. In particular its
  ordering loop always ends.\<close>

theorem build_phase_plan_succeeds_iff:
  "is_ok (build_phase_plan names exts phase) \<longleftrightarrow>
     lifecycle_phase_valid phase \<and> names_ok names \<and> extensions_ok (set names) exts \<and>
     acyclic (set (edge_graph (all_edges phase exts)))"
  by (rule build_phase_plan_ok_iff)

text \<open>Round trip: a plan built from maps (association lists with distinct keys) is accepted by
  \<open>ValidateServiceDependencyPhasePlan\<close> for the same Service names.\<close>

theorem build_phase_plan_validates:
  assumes "distinct (map fst exts)" "\<forall>x \<in> set exts. distinct (map fst (snd x))"
    and "build_phase_plan names exts phase = Inr plan"
  shows "validate_phase_plan names plan = Inr ()"
  using assms by (rule build_validates)

theorem build_phase_plan_validates_witness:
  "validate_phase_plan example_names example_plan = Inr ()"
proof (rule build_phase_plan_validates[OF _ _ example_build])
  show "distinct (map fst example_extensions)" by code_simp
  show "\<forall>x \<in> set example_extensions. distinct (map fst (snd x))" by code_simp
qed

text \<open>\<open>ValidateServiceDependencyPhasePlan\<close> accepts a plan exactly when its phase and names are
  valid, its edges connect two different declared Services under a known condition and are
  strictly sorted, and its order is the least topological order of the Services on the edges
  (the unique order with every prerequisite first and the least free Service at each position).\<close>

theorem validate_phase_plan_accepts_iff:
  "validate_phase_plan names plan = Inr () \<longleftrightarrow>
     lifecycle_phase_valid (plan_Phase plan) \<and> names_ok names \<and> edges_ok names (plan_Edges plan) \<and>
     topological_order (edge_graph (plan_Edges plan)) (edge_nodes (plan_Edges plan)) (plan_OrderedServices plan) \<and>
     least_first (edge_graph (plan_Edges plan)) (edge_nodes (plan_Edges plan)) (plan_OrderedServices plan)"
  by (auto simp: validate_phase_plan_iff order_phase_iff)

text \<open>The built plan does not depend on the iteration order of the extension map or of any of
  its dependency maps: two iterations of the same map of maps give the same plan or both fail.\<close>

theorem build_phase_plan_iteration:
  assumes "same_extensions xs ys"
  shows "build_phase_plan names xs phase = build_phase_plan names ys phase"
  using assms by (rule build_phase_plan_same)

theorem build_phase_plan_iteration_witness:
  "build_phase_plan example_names
     [(''api'', [(''db'', example_dependency)]),
      (''web'', [(''api'', example_dependency), (''db'', example_dependency)])] LifecycleDeploy =
   Inr example_plan"
proof -
  let ?ys = "[(''api'', [(''db'', example_dependency)]),
      (''web'', [(''api'', example_dependency), (''db'', example_dependency)])]"
  have "same_extensions example_extensions ?ys"
    unfolding same_extensions_def
    by (intro conjI exI[of _ "rev ?ys"])
      (auto simp: example_extensions_def same_dependencies_def add_mset_commute)
  from build_phase_plan_iteration[OF this, of example_names LifecycleDeploy] example_build
  show ?thesis by simp
qed

text \<open>Removing a Service that no edge names as a prerequisite, from a plan that validates:
  the remaining plan validates for the remaining names exactly when every other ordered Service
  still lies on a remaining edge. Removing the only dependent of a prerequisite leaves that
  prerequisite in \<open>OrderedServices\<close> without an edge, and the projection is then rejected.\<close>

theorem removal_keeps_plan_valid_iff:
  assumes "validate_phase_plan names plan = Inr ()"
    and "\<forall>e \<in> set (plan_Edges plan). edge_Dependency e \<noteq> x"
  shows "validate_embedded (filter (\<lambda>n. n \<noteq> x) names) (plan_Phase plan) (plan_without_service x plan) = Inr ()
    \<longleftrightarrow> (\<forall>s \<in> set (plan_OrderedServices plan). s \<noteq> x \<longrightarrow>
          (\<exists>e \<in> set (plan_Edges plan). edge_Service e \<noteq> x \<and> s \<in> {edge_Service e, edge_Dependency e}))"
  using assms by (rule plan_without_service_iff)

text \<open>In the example below \<open>web\<close> is the only dependent of \<open>db\<close>; nothing depends on \<open>web\<close>.\<close>

definition example_small_plan :: phase_plan where
  "example_small_plan = \<lparr>plan_Phase = LifecycleDeploy, plan_OrderedServices = [''db'', ''web''],
     plan_Edges = [example_edge ''web'' ''db'']\<rparr>"

theorem removal_keeps_plan_valid_iff_witness:
  "validate_phase_plan [''db'', ''web''] example_small_plan = Inr () \<and>
   validate_embedded [''db''] LifecycleDeploy (plan_without_service ''web'' example_small_plan) \<noteq> Inr () \<and>
   validate_embedded [''api'', ''db''] LifecycleDeploy (plan_without_service ''web'' example_plan) = Inr ()"
proof (intro conjI)
  show v: "validate_phase_plan [''db'', ''web''] example_small_plan = Inr ()" by code_simp
  have "\<forall>e \<in> set (plan_Edges example_small_plan). edge_Dependency e \<noteq> ''web''" by code_simp
  from removal_keeps_plan_valid_iff[OF v this]
  show "validate_embedded [''db''] LifecycleDeploy (plan_without_service ''web'' example_small_plan) \<noteq> Inr ()"
    by (simp add: example_small_plan_def example_edge_def)
  have v': "validate_phase_plan [''api'', ''db'', ''web''] example_plan = Inr ()" by code_simp
  have "\<forall>e \<in> set (plan_Edges example_plan). edge_Dependency e \<noteq> ''web''" by code_simp
  from removal_keeps_plan_valid_iff[OF v' this]
  show "validate_embedded [''api'', ''db''] LifecycleDeploy (plan_without_service ''web'' example_plan) = Inr ()"
    by (simp add: example_plan_def example_edge_def)
qed

end
