(* ===== verification/Requirements.thy ===== *)
theory Requirements
  imports Kahn Ids "HOL-Library.Product_Lexorder"
begin

text \<open>
  Blueprint requirements (\<open>internal/core/blueprint_requirement_dag.go\<close>): the authored
  \<open>x-gp-requires\<close> conditions of a Blueprint are resolved against the Attaches that existed at one
  fixed read revision, and the Tasks of those Attaches become prerequisites of the root Task in an
  acyclic Task graph. \<open>resolve_closed_form\<close> gives the resolution without its loops and
  \<open>task_graph_closed_form\<close> the graph.
\<close>

section \<open>Data\<close>

datatype requirement_target_kind = RequirementTargetBackingAttach | RequirementTargetOther string

datatype requirement_condition =
    RequirementExists
  | RequirementReady
  | RequirementCompletedSuccessfully
  | RequirementConditionOther string

datatype requirement_phase =
    RequirementPhaseStart
  | RequirementPhaseDeploy
  | RequirementPhaseRollback
  | RequirementPhaseAlways
  | RequirementPhaseOther string

record requirement_target =
  rt_Kind :: requirement_target_kind
  rt_Name :: string

record requirement =
  req_Target :: requirement_target
  req_Condition :: requirement_condition
  req_Phases :: "requirement_phase list"

text \<open>The code declares the same fields twice, as \<open>ResolvedRequirementTarget\<close> and
  \<open>RequirementResolutionTarget\<close>, and converts between them.\<close>

record resolved_target =
  rst_Kind :: requirement_target_kind
  rst_Name :: string
  rst_ID :: string
  rst_TaskID :: string
  rst_Revision :: int

record resolved_requirement =
  rr_Target :: resolved_target
  rr_Condition :: requirement_condition
  rr_Phases :: "requirement_phase list"

record blueprint_requirements =
  br_Authored :: "requirement list"
  br_Resolved :: "resolved_requirement list"
  br_ResolutionRevision :: int

record requirement_task_edge =
  rte_PrerequisiteTaskID :: string
  rte_DependentTaskID :: string

definition target_key :: "resolved_target \<Rightarrow> requirement_target" where
  "target_key t = \<lparr>rt_Kind = rst_Kind t, rt_Name = rst_Name t\<rparr>"

section \<open>Validation of authored requirements\<close>

fun validate_requirement_condition :: "requirement_condition \<Rightarrow> unit res" where
  "validate_requirement_condition (RequirementConditionOther s) = Inl ValidationFailed"
| "validate_requirement_condition _ = Inr ()"

fun requirement_phase_known :: "requirement_phase \<Rightarrow> bool" where
  "requirement_phase_known (RequirementPhaseOther s) = False"
| "requirement_phase_known _ = True"

fun validate_phase_list :: "requirement_phase list \<Rightarrow> requirement_phase list \<Rightarrow> unit res" where
  "validate_phase_list seen [] = Inr ()"
| "validate_phase_list seen (p # ps) =
     (if \<not> requirement_phase_known p then Inl ValidationFailed
      else if p \<in> set seen then Inl ValidationFailed
      else validate_phase_list (p # seen) ps)"

definition validate_requirement_phases :: "requirement_phase list \<Rightarrow> unit res" where
  "validate_requirement_phases values =
     (if values = [] then Inl ValidationFailed else validate_phase_list [] values)"

definition requirement_validate :: "requirement \<Rightarrow> unit res" where
  "requirement_validate r =
     (if rt_Kind (req_Target r) \<noteq> RequirementTargetBackingAttach \<or> rt_Name (req_Target r) = []
      then Inl ValidationFailed
      else try_res (validate_requirement_condition (req_Condition r))
             (\<lambda>_. validate_requirement_phases (req_Phases r)))"

fun normalize_loop :: "requirement_target list \<Rightarrow> requirement list \<Rightarrow> unit res" where
  "normalize_loop seen [] = Inr ()"
| "normalize_loop seen (r # rs) =
     try_res (requirement_validate r) (\<lambda>_.
       if req_Target r \<in> set seen then Inl ValidationFailed
       else normalize_loop (req_Target r # seen) rs)"

text \<open>The result is a copy of the input.\<close>

definition normalize_requirements :: "requirement list \<Rightarrow> requirement list res" where
  "normalize_requirements values = try_res (normalize_loop [] values) (\<lambda>_. Inr values)"

lemma validate_requirement_condition_ok [valid_iff]:
  "validate_requirement_condition c = Inr () \<longleftrightarrow> (\<forall>s. c \<noteq> RequirementConditionOther s)"
  by (cases c) auto

lemma validate_phase_list_ok:
  "validate_phase_list seen ps = Inr () \<longleftrightarrow>
     (\<forall>p \<in> set ps. requirement_phase_known p \<and> p \<notin> set seen) \<and> distinct ps"
  by (induction ps arbitrary: seen) auto

lemma validate_requirement_phases_ok [valid_iff]:
  "validate_requirement_phases ps = Inr () \<longleftrightarrow>
     ps \<noteq> [] \<and> (\<forall>p \<in> set ps. requirement_phase_known p) \<and> distinct ps"
  by (auto simp: validate_requirement_phases_def validate_phase_list_ok)

lemma validate_requirement_condition_err:
  "validate_requirement_condition c = Inl e \<Longrightarrow> e = ValidationFailed"
  by (cases c) auto

lemma validate_phase_list_err: "validate_phase_list seen ps = Inl e \<Longrightarrow> e = ValidationFailed"
  by (induction ps arbitrary: seen) (auto split: if_splits)

lemma requirement_validate_err: "requirement_validate r = Inl e \<Longrightarrow> e = ValidationFailed"
  by (auto simp: requirement_validate_def validate_requirement_phases_def try_res_eq_Inl
      dest: validate_requirement_condition_err validate_phase_list_err split: if_splits)

definition authored_ok :: "requirement list \<Rightarrow> bool" where
  "authored_ok rs \<longleftrightarrow> (\<forall>r \<in> set rs. requirement_validate r = Inr ()) \<and> distinct (map req_Target rs)"

lemma normalize_loop_ok:
  "normalize_loop seen rs = Inr () \<longleftrightarrow>
     authored_ok rs \<and> (\<forall>r \<in> set rs. req_Target r \<notin> set seen)"
proof (induction rs arbitrary: seen)
  case Nil
  then show ?case by (simp add: authored_ok_def)
next
  case (Cons r rs)
  show ?case
    unfolding normalize_loop.simps try_res_eq_Inr if_Inl_eq_Inr Cons.IH
    by (auto simp: authored_ok_def simp: notin_image_iff)
qed

lemma normalize_loop_err: "normalize_loop seen rs = Inl e \<Longrightarrow> e = ValidationFailed"
  by (induction rs arbitrary: seen)
    (auto simp: try_res_eq_Inl dest: requirement_validate_err split: if_splits)

lemma normalize_requirements_eq:
  "normalize_requirements rs = (if authored_ok rs then Inr rs else Inl ValidationFailed)"
proof (cases "normalize_loop [] rs")
  case (Inl e)
  then show ?thesis
    using normalize_loop_err[OF Inl] normalize_loop_ok[of "[]" rs]
    by (simp add: normalize_requirements_def)
next
  case (Inr v)
  then show ?thesis using normalize_loop_ok[of "[]" rs] by (simp add: normalize_requirements_def)
qed

lemma authored_ok_mset: "mset rs = mset rs' \<Longrightarrow> authored_ok rs = authored_ok rs'"
  unfolding authored_ok_def
  by (metis distinct_mset_eq mset_map set_mset_mset)

section \<open>Validation of a resolved projection\<close>

text \<open>\<open>byTarget[requirement.Target] = requirement\<close>: a later entry overrides an earlier one.\<close>

definition requirements_by_target :: "requirement list \<Rightarrow> requirement_target \<Rightarrow> requirement option" where
  "requirements_by_target rs = map_of (rev (map (\<lambda>r. (req_Target r, r)) rs))"

fun validate_resolved ::
  "ulid_check \<Rightarrow> (requirement_target \<Rightarrow> requirement option) \<Rightarrow> string \<Rightarrow> resolved_requirement list \<Rightarrow>
   unit res" where
  "validate_resolved u by prev [] = Inr ()"
| "validate_resolved u by prev (rr # rest) =
     (case by (target_key (rr_Target rr)) of
        None \<Rightarrow> Inl ValidationFailed
      | Some want \<Rightarrow>
          if rr_Condition rr \<noteq> req_Condition want \<or> rr_Phases rr \<noteq> req_Phases want \<or>
             \<not> id_valid u KindAttach (rst_ID (rr_Target rr)) \<or>
             \<not> id_valid u KindTask (rst_TaskID (rr_Target rr)) \<or>
             rst_Revision (rr_Target rr) \<le> 0 \<or>
             (prev \<noteq> [] \<and> rst_ID (rr_Target rr) \<le> prev)
          then Inl ValidationFailed
          else validate_resolved u by (rst_ID (rr_Target rr)) rest)"

definition requirements_validate :: "ulid_check \<Rightarrow> blueprint_requirements \<Rightarrow> unit res" where
  "requirements_validate u b =
     try_res (normalize_requirements (br_Authored b)) (\<lambda>authored.
       if authored = [] then
         (if br_Resolved b \<noteq> [] \<or> br_ResolutionRevision b \<noteq> 0 then Inl ValidationFailed else Inr ())
       else if br_ResolutionRevision b \<le> 0 \<or> length (br_Resolved b) \<noteq> length authored
         then Inl ValidationFailed
       else validate_resolved u (requirements_by_target authored) [] (br_Resolved b))"

lemma requirements_by_target_Some:
  "authored_ok rs \<Longrightarrow> requirements_by_target rs t = Some r \<longleftrightarrow> r \<in> set rs \<and> req_Target r = t"
  by (subst requirements_by_target_def, subst map_of_eq_Some_iff)
    (auto simp: authored_ok_def rev_map[symmetric] comp_def)

abbreviation resolved_ID :: "resolved_requirement \<Rightarrow> string" where
  "resolved_ID rr \<equiv> rst_ID (rr_Target rr)"

text \<open>What one entry has to satisfy, apart from the order of the entries.\<close>

definition resolved_entry_ok :: "ulid_check \<Rightarrow> requirement list \<Rightarrow> resolved_requirement \<Rightarrow> bool" where
  "resolved_entry_ok u authored rr \<longleftrightarrow>
     (\<exists>want \<in> set authored. req_Target want = target_key (rr_Target rr) \<and>
        rr_Condition rr = req_Condition want \<and> rr_Phases rr = req_Phases want) \<and>
     id_valid u KindAttach (resolved_ID rr) \<and> id_valid u KindTask (rst_TaskID (rr_Target rr)) \<and>
     0 < rst_Revision (rr_Target rr)"

lemma validate_resolved_ok:
  assumes "authored_ok authored"
  shows "validate_resolved u (requirements_by_target authored) prev rrs = Inr () \<longleftrightarrow>
    (\<forall>rr \<in> set rrs. resolved_entry_ok u authored rr) \<and> sorted_wrt (<) (map resolved_ID rrs) \<and>
    (prev \<noteq> [] \<longrightarrow> (\<forall>rr \<in> set rrs. prev < resolved_ID rr))"
proof (induction rrs arbitrary: prev)
  case Nil
  then show ?case by simp
next
  case (Cons rr rrs)
  have entry: "resolved_entry_ok u authored rr \<longleftrightarrow>
    (\<exists>want. requirements_by_target authored (target_key (rr_Target rr)) = Some want \<and>
       rr_Condition rr = req_Condition want \<and> rr_Phases rr = req_Phases want) \<and>
    id_valid u KindAttach (resolved_ID rr) \<and> id_valid u KindTask (rst_TaskID (rr_Target rr)) \<and>
    0 < rst_Revision (rr_Target rr)"
    by (auto simp: resolved_entry_ok_def requirements_by_target_Some[OF assms])
  have ne: "id_valid u KindAttach (resolved_ID rr) \<Longrightarrow> resolved_ID rr \<noteq> []" by auto
  have tr: "prev < resolved_ID rr \<Longrightarrow> \<forall>r \<in> set rrs. resolved_ID rr < resolved_ID r \<Longrightarrow>
    \<forall>r \<in> set rrs. prev < resolved_ID r" by (meson less_trans)
  show ?case
  proof (cases "requirements_by_target authored (target_key (rr_Target rr))")
    case None
    then show ?thesis by (simp add: entry)
  next
    case (Some want)
    show ?thesis
      using ne tr unfolding list.set ball_simps list.map sorted_wrt.simps entry
      by (auto simp: Some Cons.IH not_le)
  qed
qed

lemma validate_resolved_err: "validate_resolved u by prev rrs = Inl e \<Longrightarrow> e = ValidationFailed"
  by (induction rrs arbitrary: prev) (auto split: option.splits if_splits)

lemma requirements_validate_ok [valid_iff]:
  "requirements_validate u b = Inr () \<longleftrightarrow>
     authored_ok (br_Authored b) \<and>
     (if br_Authored b = [] then br_Resolved b = [] \<and> br_ResolutionRevision b = 0
      else 0 < br_ResolutionRevision b \<and> length (br_Resolved b) = length (br_Authored b) \<and>
        (\<forall>rr \<in> set (br_Resolved b). resolved_entry_ok u (br_Authored b) rr) \<and>
        sorted_wrt (<) (map resolved_ID (br_Resolved b)))"
  by (cases "authored_ok (br_Authored b)")
    (auto simp: requirements_validate_def normalize_requirements_eq validate_resolved_ok)

lemma requirements_validate_err: "requirements_validate u b = Inl e \<Longrightarrow> e = ValidationFailed"
  by (auto simp: requirements_validate_def normalize_requirements_eq try_res_eq_Inl
      dest: validate_resolved_err split: if_splits)

section \<open>Resolution\<close>

text \<open>\<open>targets[key] = target\<close> for the projected Attaches.\<close>

fun collect_targets ::
  "ulid_check \<Rightarrow> (requirement_target \<times> resolved_target) list \<Rightarrow> resolved_target list \<Rightarrow>
   (requirement_target \<times> resolved_target) list res" where
  "collect_targets u acc [] = Inr acc"
| "collect_targets u acc (t # ts) =
     (if rst_Kind t \<noteq> RequirementTargetBackingAttach \<or> rst_Name t = [] \<or>
         \<not> id_valid u KindAttach (rst_ID t) \<or> \<not> id_valid u KindTask (rst_TaskID t) \<or>
         rst_Revision t \<le> 0
      then Inl InternalError
      else if target_key t \<in> fst ` set acc then Inl InternalError
      else collect_targets u ((target_key t, t) # acc) ts)"

fun resolve_loop ::
  "(requirement_target \<times> resolved_target) list \<Rightarrow> string list \<Rightarrow> resolved_requirement list \<Rightarrow>
   requirement list \<Rightarrow> resolved_requirement list res" where
  "resolve_loop targets candidates acc [] = Inr acc"
| "resolve_loop targets candidates acc (r # rs) =
     (case map_of targets (req_Target r) of
        None \<Rightarrow>
          if rt_Name (req_Target r) \<in> set candidates then Inl ValidationFailed
          else Inl ValidationFailed
      | Some t \<Rightarrow>
          resolve_loop targets candidates
            (acc @ [\<lparr>rr_Target = t, rr_Condition = req_Condition r, rr_Phases = req_Phases r\<rparr>]) rs)"

definition resolve_blueprint_requirements ::
  "ulid_check \<Rightarrow> requirement list \<Rightarrow> resolved_target list \<Rightarrow> string list \<Rightarrow> int \<Rightarrow>
   blueprint_requirements res" where
  "resolve_blueprint_requirements u authored available candidates readRevision =
     try_res (normalize_requirements authored) (\<lambda>normalized.
       if normalized = [] then
         Inr \<lparr>br_Authored = normalized, br_Resolved = [], br_ResolutionRevision = 0\<rparr>
       else if readRevision \<le> 0 then Inl InternalError
       else try_res (collect_targets u [] available) (\<lambda>targets.
         try_res (resolve_loop targets candidates [] normalized) (\<lambda>resolved.
           (let result = \<lparr>br_Authored = normalized, br_Resolved = sort_key resolved_ID resolved,
                          br_ResolutionRevision = readRevision\<rparr>
            in try_res (requirements_validate u result) (\<lambda>_. Inr result)))))"

definition available_ok :: "ulid_check \<Rightarrow> resolved_target list \<Rightarrow> bool" where
  "available_ok u ts \<longleftrightarrow>
     (\<forall>t \<in> set ts. rst_Kind t = RequirementTargetBackingAttach \<and> rst_Name t \<noteq> [] \<and>
        id_valid u KindAttach (rst_ID t) \<and> id_valid u KindTask (rst_TaskID t) \<and> 0 < rst_Revision t) \<and>
     distinct (map target_key ts)"

text \<open>The target an authored requirement resolves to, and the resolved entry.\<close>

definition target_of :: "resolved_target list \<Rightarrow> requirement_target \<Rightarrow> resolved_target option" where
  "target_of ts k = map_of (map (\<lambda>t. (target_key t, t)) ts) k"

definition entry_of :: "resolved_target list \<Rightarrow> requirement \<Rightarrow> resolved_requirement" where
  "entry_of ts r =
     \<lparr>rr_Target = the (target_of ts (req_Target r)), rr_Condition = req_Condition r,
      rr_Phases = req_Phases r\<rparr>"

lemma target_of_Some: "available_ok u ts \<Longrightarrow> target_of ts k = Some t \<longleftrightarrow> t \<in> set ts \<and> target_key t = k"
  by (auto simp: target_of_def available_ok_def comp_def)

lemma target_of_None: "target_of ts k = None \<longleftrightarrow> k \<notin> target_key ` set ts"
  by (simp add: target_of_def map_of_eq_None_iff image_image)

lemma target_of_mset:
  assumes "available_ok u ts" "mset ts = mset ts'"
  shows "target_of ts = target_of ts'"
proof -
  have "map_of (map (\<lambda>t. (target_key t, t)) ts) = map_of (map (\<lambda>t. (target_key t, t)) ts')"
    by (rule map_of_mset_eq) (use assms in \<open>simp_all add: available_ok_def comp_def\<close>)
  then show ?thesis by (intro ext) (simp add: target_of_def)
qed

lemma collect_targets_Inr:
  "collect_targets u acc ts = Inr tg \<longleftrightarrow>
     available_ok u ts \<and> (\<forall>t \<in> set ts. target_key t \<notin> fst ` set acc) \<and>
     tg = rev (map (\<lambda>t. (target_key t, t)) ts) @ acc"
proof (induction ts arbitrary: acc)
  case Nil
  then show ?case by (auto simp: available_ok_def)
next
  case (Cons t ts)
  show ?case
    unfolding collect_targets.simps if_Inl_eq_Inr Cons.IH
    by (auto simp: available_ok_def not_le notin_image_iff)
qed

lemma collect_targets_err: "collect_targets u acc ts = Inl e \<Longrightarrow> e = InternalError"
  by (induction ts arbitrary: acc) (auto split: if_splits)

lemma resolve_loop_eq:
  assumes "available_ok u ts"
  shows "resolve_loop (rev (map (\<lambda>t. (target_key t, t)) ts)) candidates acc rs =
    (if \<forall>r \<in> set rs. req_Target r \<in> target_key ` set ts then Inr (acc @ map (entry_of ts) rs)
     else Inl ValidationFailed)"
proof -
  have "map_of (rev (map (\<lambda>t. (target_key t, t)) ts)) = target_of ts"
  proof -
    have "distinct (map fst (map (\<lambda>t. (target_key t, t)) ts))"
      using assms by (simp add: available_ok_def comp_def)
    from map_of_rev[OF this] show ?thesis by (intro ext) (simp add: target_of_def)
  qed
  then show ?thesis
  proof (induction rs arbitrary: acc)
    case Nil
    then show ?case by simp
  next
    case (Cons r rs)
    then show ?case
    proof (cases "target_of ts (req_Target r)")
      case None
      then have "req_Target r \<notin> target_key ` set ts" by (simp add: target_of_None)
      with Cons.prems None show ?thesis by simp
    next
      case (Some t)
      then have "req_Target r \<in> target_key ` set ts" by (metis target_of_None option.distinct(1))
      with Cons Some show ?thesis by (simp add: entry_of_def)
    qed
  qed
qed

lemma entry_of_ok:
  assumes "available_ok u ts" "r \<in> set rs" "req_Target r \<in> target_key ` set ts"
  shows "resolved_entry_ok u rs (entry_of ts r)"
proof -
  from assms(3) obtain t where t: "t \<in> set ts" "target_key t = req_Target r" by auto
  then have "target_of ts (req_Target r) = Some t" by (simp add: target_of_Some[OF assms(1)])
  then have e: "entry_of ts r = \<lparr>rr_Target = t, rr_Condition = req_Condition r, rr_Phases = req_Phases r\<rparr>"
    by (simp add: entry_of_def)
  have "id_valid u KindAttach (rst_ID t)" "id_valid u KindTask (rst_TaskID t)" "0 < rst_Revision t"
    using assms(1) t(1) by (auto simp: available_ok_def)
  with assms(2) t show ?thesis by (auto simp: resolved_entry_ok_def e intro!: bexI[of _ r])
qed

lemma strictly_sorted_sort_key:
  "sorted_wrt (<) (map f (sort_key f xs)) \<longleftrightarrow> distinct (map f xs)"
proof -
  have "distinct (map f (sort_key f xs)) = distinct (map f xs)"
    by (metis distinct_mset_eq mset_map mset_sort)
  then show ?thesis by (simp add: strict_sorted_iff)
qed

theorem resolve_closed_form:
  "resolve_blueprint_requirements u authored available candidates rv =
     (if \<not> authored_ok authored then Inl ValidationFailed
      else if authored = [] then
        Inr \<lparr>br_Authored = [], br_Resolved = [], br_ResolutionRevision = 0\<rparr>
      else if rv \<le> 0 \<or> \<not> available_ok u available then Inl InternalError
      else if \<not> (\<forall>r \<in> set authored. req_Target r \<in> target_key ` set available) \<or>
        \<not> distinct (map (\<lambda>r. resolved_ID (entry_of available r)) authored) then Inl ValidationFailed
      else Inr \<lparr>br_Authored = authored,
                br_Resolved = sort_key resolved_ID (map (entry_of available) authored),
                br_ResolutionRevision = rv\<rparr>)"
proof (cases "authored_ok authored \<and> authored \<noteq> [] \<and> 0 < rv")
  case False
  then show ?thesis by (auto simp: resolve_blueprint_requirements_def normalize_requirements_eq)
next
  case True
  show ?thesis
  proof (cases "available_ok u available")
    case False
    then obtain e where "collect_targets u [] available = Inl e"
      using collect_targets_Inr[of u "[]" available] by (cases "collect_targets u [] available") auto
    with collect_targets_err[OF this] True False show ?thesis
      by (simp add: resolve_blueprint_requirements_def normalize_requirements_eq)
  next
    case ok: True
    let ?tg = "rev (map (\<lambda>t. (target_key t, t)) available)"
    let ?found = "\<forall>r \<in> set authored. req_Target r \<in> target_key ` set available"
    let ?es = "map (entry_of available) authored"
    let ?b = "\<lparr>br_Authored = authored, br_Resolved = sort_key resolved_ID ?es,
                br_ResolutionRevision = rv\<rparr>"
    have tg: "collect_targets u [] available = Inr ?tg" by (simp add: collect_targets_Inr ok)
    have lp: "resolve_loop ?tg candidates [] authored =
      (if ?found then Inr ?es else Inl ValidationFailed)"
      by (simp add: resolve_loop_eq[OF ok])
    have v: "requirements_validate u ?b = Inr () \<longleftrightarrow> distinct (map resolved_ID ?es)" if ?found
      using that True by (simp add: requirements_validate_ok strictly_sorted_sort_key entry_of_ok[OF ok])
    have e: "requirements_validate u ?b = (if distinct (map resolved_ID ?es) then Inr () else Inl ValidationFailed)"
      if ?found
      using v[OF that] requirements_validate_err[of u ?b] by (cases "requirements_validate u ?b") auto
    show ?thesis
      using True ok by (simp add: resolve_blueprint_requirements_def normalize_requirements_eq tg lp Let_def e comp_def)
  qed
qed

section \<open>The Task graph\<close>

abbreviation task_edge_key :: "requirement_task_edge \<Rightarrow> string \<times> string" where
  "task_edge_key e \<equiv> (rte_PrerequisiteTaskID e, rte_DependentTaskID e)"

text \<open>Edges are validated and repeated edges dropped, over the sorted list.\<close>

fun compact_edges ::
  "ulid_check \<Rightarrow> requirement_task_edge list \<Rightarrow> requirement_task_edge list \<Rightarrow>
   requirement_task_edge list res" where
  "compact_edges u compacted [] = Inr compacted"
| "compact_edges u compacted (e # es) =
     (if \<not> id_valid u KindTask (rte_PrerequisiteTaskID e) \<or> \<not> id_valid u KindTask (rte_DependentTaskID e)
      then Inl ValidationFailed
      else if compacted \<noteq> [] \<and> last compacted = e then compact_edges u compacted es
      else compact_edges u (compacted @ [e]) es)"

definition task_nodes :: "string \<Rightarrow> requirement_task_edge list \<Rightarrow> string list" where
  "task_nodes root edges =
     remdups (root # concat (map (\<lambda>e. [rte_PrerequisiteTaskID e, rte_DependentTaskID e]) edges))"

definition build_requirement_task_graph ::
  "ulid_check \<Rightarrow> string \<Rightarrow> blueprint_requirements \<Rightarrow> requirement_task_edge list \<Rightarrow>
   (requirement_task_edge list \<times> string list) res" where
  "build_requirement_task_graph u root requirements inherited =
     (if \<not> id_valid u KindTask root then Inl ValidationFailed
      else try_res (requirements_validate u requirements) (\<lambda>_.
        (let added = map (\<lambda>rr. \<lparr>rte_PrerequisiteTaskID = rst_TaskID (rr_Target rr),
                                 rte_DependentTaskID = root\<rparr>) (br_Resolved requirements) in
         try_res (compact_edges u [] (sort_key task_edge_key (inherited @ added))) (\<lambda>edges.
           (let nodes = task_nodes root edges;
                graph = map task_edge_key edges;
                ready = sort (filter (\<lambda>n. indegree_of graph n = 0) nodes);
                ordered = kahn_run push_search graph nodes ready
            in if length ordered \<noteq> length nodes then Inl ValidationFailed
               else Inr (edges, ordered))))))"

lemma task_edge_key_inj: "task_edge_key e = task_edge_key e' \<Longrightarrow> e = e'"
  by (cases e, cases e') simp

lemma compact_edges_Inr:
  assumes "sorted (map task_edge_key es)" "sorted_wrt (<) (map task_edge_key acc)"
    "\<forall>a \<in> set acc. \<forall>e \<in> set es. task_edge_key a \<le> task_edge_key e"
  shows "compact_edges u acc es = Inr out \<Longrightarrow>
    (\<forall>e \<in> set es. id_valid u KindTask (rte_PrerequisiteTaskID e) \<and> id_valid u KindTask (rte_DependentTaskID e)) \<and>
    set out = set acc \<union> set es \<and> sorted_wrt (<) (map task_edge_key out)"
  using assms
proof (induction es arbitrary: acc)
  case Nil
  then show ?case by simp
next
  case (Cons e es)
  note prems = Cons.prems
  have valid: "id_valid u KindTask (rte_PrerequisiteTaskID e)" "id_valid u KindTask (rte_DependentTaskID e)"
    using prems(1) by (auto split: if_splits)
  show ?case
  proof (cases "acc \<noteq> [] \<and> last acc = e")
    case True
    then have "e \<in> set acc" by auto
    with Cons.IH[of acc] prems True valid show ?thesis by auto
  next
    case False
    have below: "task_edge_key a < task_edge_key e" if "a \<in> set acc" for a
    proof -
      from that have ne: "acc \<noteq> []" by auto
      with False have "last acc \<noteq> e" by simp
      with task_edge_key_inj have "task_edge_key (last acc) \<noteq> task_edge_key e" by blast
      moreover have "task_edge_key (last acc) \<le> task_edge_key e"
        using prems(4) ne by (meson last_in_set list.set_intros(1))
      ultimately have l: "task_edge_key (last acc) < task_edge_key e"
        by (metis order_le_neq_trans)
      from ne that have "a \<in> set (butlast acc) \<or> a = last acc"
        by (cases acc rule: rev_cases) auto
      moreover have "task_edge_key b < task_edge_key (last acc)" if "b \<in> set (butlast acc)" for b
      proof -
        have "sorted_wrt (<) (map task_edge_key (butlast acc @ [last acc]))"
          using prems(3) ne by simp
        then show ?thesis using that by (simp add: sorted_wrt_append)
      qed
      ultimately show ?thesis using l by (metis order.strict_trans)
    qed
    have "sorted_wrt (<) (map task_edge_key (acc @ [e]))"
      using prems(3) below by (simp add: sorted_wrt_append)
    moreover have "\<forall>a \<in> set (acc @ [e]). \<forall>x \<in> set es. task_edge_key a \<le> task_edge_key x"
      using prems(2,4) by auto
    moreover have "compact_edges u (acc @ [e]) es = Inr out" using prems(1) False valid by simp
    ultimately show ?thesis using Cons.IH[of "acc @ [e]"] prems(2) valid by simp
  qed
qed

lemma compact_edges_ok:
  "(\<exists>out. compact_edges u acc es = Inr out) \<longleftrightarrow>
     (\<forall>e \<in> set es. id_valid u KindTask (rte_PrerequisiteTaskID e) \<and> id_valid u KindTask (rte_DependentTaskID e))"
  by (induction es arbitrary: acc) auto

definition requirement_edges :: "string \<Rightarrow> blueprint_requirements \<Rightarrow> requirement_task_edge list" where
  "requirement_edges root b =
     map (\<lambda>rr. \<lparr>rte_PrerequisiteTaskID = rst_TaskID (rr_Target rr), rte_DependentTaskID = root\<rparr>)
       (br_Resolved b)"

definition task_edges_ok :: "ulid_check \<Rightarrow> requirement_task_edge list \<Rightarrow> bool" where
  "task_edges_ok u es \<longleftrightarrow>
     (\<forall>e \<in> set es. id_valid u KindTask (rte_PrerequisiteTaskID e) \<and> id_valid u KindTask (rte_DependentTaskID e))"

lemma requirement_edges_ok:
  assumes "requirements_validate u b = Inr ()" "id_valid u KindTask root"
  shows "task_edges_ok u (requirement_edges root b)"
  using assms
  by (auto simp: task_edges_ok_def requirement_edges_def requirements_validate_ok resolved_entry_ok_def
      split: if_splits)

lemma task_graph_nodes:
  "fst ` set (map task_edge_key es) \<union> snd ` set (map task_edge_key es) \<subseteq> set (task_nodes root es)"
  by (auto simp: task_nodes_def)

lemma build_requirement_task_graph_Inr:
  "build_requirement_task_graph u root b inherited = Inr (edges, ordered) \<longleftrightarrow>
     id_valid u KindTask root \<and> requirements_validate u b = Inr () \<and>
     compact_edges u [] (sort_key task_edge_key (inherited @ requirement_edges root b)) = Inr edges \<and>
     topological_order (map task_edge_key edges) (task_nodes root edges) ordered \<and>
     least_first (map task_edge_key edges) (task_nodes root edges) ordered"
proof -
  let ?g = "map task_edge_key edges" and ?n = "task_nodes root edges"
  let ?ord = "kahn_run push_search ?g ?n (sort (filter (\<lambda>n. indegree_of ?g n = 0) ?n))"
  have d: "distinct ?n" by (simp add: task_nodes_def)
  note run = search_list.kahn_run_sorted[OF task_graph_nodes d]
  have "length ?ord = length ?n \<and> ordered = ?ord \<longleftrightarrow>
    topological_order ?g ?n ordered \<and> least_first ?g ?n ordered" (is "?l \<longleftrightarrow> ?r")
  proof
    assume ?l
    with run(2) show ?r by simp
  next
    assume r: ?r
    then have "acyclic (set ?g)"
      using task_graph_nodes[of edges root]
      by (intro prereqs_first_acyclic[of ?g ordered]) (auto simp: topological_order_def)
    with run have "length ?ord = length ?n" "topological_order ?g ?n ?ord" "least_first ?g ?n ?ord"
      by simp_all
    with r show ?l by (meson least_first_is_least order_antisym)
  qed
  then show ?thesis
    unfolding build_requirement_task_graph_def requirement_edges_def Let_def
    by auto
qed

lemma build_requirement_task_graph_ok:
  "is_ok (build_requirement_task_graph u root b inherited) \<longleftrightarrow>
     id_valid u KindTask root \<and> requirements_validate u b = Inr () \<and> task_edges_ok u inherited \<and>
     acyclic (task_edge_key ` (set inherited \<union> set (requirement_edges root b)))"
proof (cases "id_valid u KindTask root \<and> requirements_validate u b = Inr () \<and> task_edges_ok u inherited")
  case False
  have "task_edges_ok u inherited" if "compact_edges u [] (sort_key task_edge_key (inherited @ requirement_edges root b)) = Inr edges" for edges
    using compact_edges_ok[of u "[]" "sort_key task_edge_key (inherited @ requirement_edges root b)"] that
    by (auto simp: task_edges_ok_def)
  with False show ?thesis by (auto simp: is_ok_iff build_requirement_task_graph_Inr)
next
  case True
  let ?es = "sort_key task_edge_key (inherited @ requirement_edges root b)"
  from True requirement_edges_ok[of u b root] obtain edges where edges: "compact_edges u [] ?es = Inr edges"
    using compact_edges_ok[of u "[]" ?es] by (auto simp: task_edges_ok_def)
  have srt: "sorted (map task_edge_key ?es)" by (rule sorted_sort_key)
  from compact_edges_Inr[OF srt _ _ edges] have set_edges: "set edges = set inherited \<union> set (requirement_edges root b)"
    by auto
  let ?g = "map task_edge_key edges" and ?n = "task_nodes root edges"
  let ?ord = "kahn_run push_search ?g ?n (sort (filter (\<lambda>n. indegree_of ?g n = 0) ?n))"
  have d: "distinct ?n" by (simp add: task_nodes_def)
  note run = search_list.kahn_run_sorted[OF task_graph_nodes d]
  have "is_ok (build_requirement_task_graph u root b inherited) \<longleftrightarrow> length ?ord = length ?n"
    using True edges
    by (simp add: build_requirement_task_graph_def requirement_edges_def[symmetric] Let_def)
  with run(1) True set_edges show ?thesis by simp
qed

section \<open>Properties\<close>

definition example_requirement :: "string \<Rightarrow> requirement" where
  "example_requirement name =
     \<lparr>req_Target = \<lparr>rt_Kind = RequirementTargetBackingAttach, rt_Name = name\<rparr>,
      req_Condition = RequirementReady, req_Phases = [RequirementPhaseStart]\<rparr>"

definition example_target :: "string \<Rightarrow> char \<Rightarrow> resolved_target" where
  "example_target name c =
     \<lparr>rst_Kind = RequirementTargetBackingAttach, rst_Name = name, rst_ID = ex_id ''att'' c,
      rst_TaskID = ex_id ''task'' c, rst_Revision = 7\<rparr>"

definition example_resolved :: "string \<Rightarrow> char \<Rightarrow> resolved_requirement" where
  "example_resolved name c =
     \<lparr>rr_Target = example_target name c, rr_Condition = RequirementReady,
      rr_Phases = [RequirementPhaseStart]\<rparr>"

definition example_requirements :: blueprint_requirements where
  "example_requirements =
     \<lparr>br_Authored = [example_requirement ''db'', example_requirement ''cache''],
      br_Resolved = [example_resolved ''cache'' CHR ''1'', example_resolved ''db'' CHR ''2''],
      br_ResolutionRevision = 9\<rparr>"

lemma example_resolution:
  "resolve_blueprint_requirements crockford_ulid
     [example_requirement ''db'', example_requirement ''cache'']
     [example_target ''db'' CHR ''2'', example_target ''cache'' CHR ''1''] [] 9 =
   Inr example_requirements"
  by code_simp

text \<open>C3. A resolution that \<open>ResolveBlueprintRequirements\<close> returns is complete and nothing is
  invented: the entries are exactly one per authored requirement (as a permutation), with the
  authored condition and phases and a target taken from the projected Attaches; the entries are
  in strictly increasing order of Attach ids; the result passes its own validator.\<close>

theorem resolution_is_complete:
  assumes "resolve_blueprint_requirements u authored available candidates rv = Inr b" "authored \<noteq> []"
  shows "br_Authored b = authored \<and> br_ResolutionRevision b = rv \<and> 0 < rv \<and>
    mset (map (\<lambda>rr. (target_key (rr_Target rr), rr_Condition rr, rr_Phases rr)) (br_Resolved b)) =
    mset (map (\<lambda>r. (req_Target r, req_Condition r, req_Phases r)) authored) \<and>
    rr_Target ` set (br_Resolved b) \<subseteq> set available \<and>
    sorted_wrt (<) (map resolved_ID (br_Resolved b)) \<and> requirements_validate u b = Inr ()"
proof -
  from assms have ok: "authored_ok authored" "0 < rv" "available_ok u available"
    "\<forall>r \<in> set authored. req_Target r \<in> target_key ` set available"
    "distinct (map (\<lambda>r. resolved_ID (entry_of available r)) authored)"
    and b: "b = \<lparr>br_Authored = authored, br_Resolved = sort_key resolved_ID (map (entry_of available) authored),
      br_ResolutionRevision = rv\<rparr>"
    by (auto simp: resolve_closed_form split: if_splits)
  have target: "\<exists>t \<in> set available. rr_Target (entry_of available r) = t \<and> target_key t = req_Target r"
    if "r \<in> set authored" for r
  proof -
    from that ok(4) obtain t where t: "t \<in> set available" "target_key t = req_Target r" by force
    then have "target_of available (req_Target r) = Some t" by (simp add: target_of_Some[OF ok(3)])
    with t show ?thesis by (auto simp: entry_of_def)
  qed
  have "map (\<lambda>r. (target_key (rr_Target (entry_of available r)), rr_Condition (entry_of available r),
      rr_Phases (entry_of available r))) authored = map (\<lambda>r. (req_Target r, req_Condition r, req_Phases r)) authored"
    using target by (auto simp: entry_of_def)
  then have "image_mset (\<lambda>rr. (target_key (rr_Target rr), rr_Condition rr, rr_Phases rr))
      (mset (map (entry_of available) authored)) = mset (map (\<lambda>r. (req_Target r, req_Condition r, req_Phases r)) authored)"
    by (metis (mono_tags, lifting) comp_apply map_eq_conv map_map mset_map)
  moreover have "sorted_wrt (<) (map resolved_ID (br_Resolved b))"
    using ok(5) by (simp add: b strictly_sorted_sort_key comp_def)
  moreover have "rr_Target ` set (br_Resolved b) \<subseteq> set available" using target by (auto simp: b)
  ultimately show ?thesis
    using assms(2) ok entry_of_ok[OF ok(3)] by (auto simp: b requirements_validate_ok)
qed

theorem resolution_is_complete_witness:
  "resolve_blueprint_requirements crockford_ulid
     [example_requirement ''db'', example_requirement ''cache'']
     [example_target ''db'' CHR ''2'', example_target ''cache'' CHR ''1''] [] 9 =
   Inr example_requirements \<and> requirements_validate crockford_ulid example_requirements = Inr ()"
  using resolution_is_complete[OF example_resolution] example_resolution by simp

text \<open>The resolution depends neither on the order of the authored requirements nor on the order
  of the projected Attaches, nor on the candidate names (these select the text of an error only):
  the resolved entries are the same list, or both calls fail with the same kind of error.\<close>

theorem resolution_ignores_order:
  assumes "mset authored = mset authored'" "mset available = mset available'"
  shows "try_res (resolve_blueprint_requirements u authored available candidates rv) (\<lambda>b. Inr (br_Resolved b)) =
    try_res (resolve_blueprint_requirements u authored' available' candidates' rv) (\<lambda>b. Inr (br_Resolved b))"
proof (cases "available_ok u available")
  case False
  then have "\<not> available_ok u available'"
    using assms(2) unfolding available_ok_def by (metis distinct_mset_eq mset_eq_setD mset_map)
  moreover have "(authored = []) = (authored' = [])" using assms(1) by auto
  ultimately show ?thesis using False authored_ok_mset[OF assms(1)]
    by (simp add: resolve_closed_form)
next
  case True
  then have ok': "available_ok u available'"
    using assms(2) unfolding available_ok_def by (metis distinct_mset_eq mset_eq_setD mset_map)
  have e: "entry_of available = entry_of available'"
    by (intro ext) (simp add: entry_of_def target_of_mset[OF True assms(2)])
  have m: "mset (map (entry_of available) authored) = mset (map (entry_of available') authored')"
    by (simp add: assms(1) e)
  have d: "distinct (map (\<lambda>r. resolved_ID (entry_of available r)) authored) =
      distinct (map (\<lambda>r. resolved_ID (entry_of available' r)) authored')"
    by (rule distinct_mset_eq) (simp add: assms(1) e)
  have s: "sort_key resolved_ID (map (entry_of available) authored) =
      sort_key resolved_ID (map (entry_of available') authored')"
    if "distinct (map (\<lambda>r. resolved_ID (entry_of available r)) authored)"
    by (rule sort_key_mset_eq[OF m]) (use that in \<open>simp add: comp_def\<close>)
  from assms have "set authored = set authored'" "set available = set available'"
    "(authored = []) = (authored' = [])"
    by (auto dest: mset_eq_setD)
  with True ok' authored_ok_mset[OF assms(1)] d s show ?thesis
    by (simp add: resolve_closed_form)
qed

theorem resolution_ignores_order_witness:
  "try_res (resolve_blueprint_requirements crockford_ulid
      [example_requirement ''cache'', example_requirement ''db'']
      [example_target ''cache'' CHR ''1'', example_target ''db'' CHR ''2''] [''web''] 9)
      (\<lambda>b. Inr (br_Resolved b)) =
   Inr [example_resolved ''cache'' CHR ''1'', example_resolved ''db'' CHR ''2'']"
proof -
  have "mset [example_requirement ''db'', example_requirement ''cache''] =
      mset [example_requirement ''cache'', example_requirement ''db'']"
    "mset [example_target ''db'' CHR ''2'', example_target ''cache'' CHR ''1''] =
      mset [example_target ''cache'' CHR ''1'', example_target ''db'' CHR ''2'']"
    by (simp_all add: add_mset_commute)
  from resolution_ignores_order[OF this, of crockford_ulid "[]" 9 "[''web'']"] example_resolution
  show ?thesis by (simp add: example_requirements_def)
qed

text \<open>\<open>BuildBlueprintRequirementTaskGraph\<close> always returns, and succeeds exactly when the root is
  a Task id, the requirements validate, every inherited edge joins Task ids, and the inherited
  edges together with the new ones into the root have no cycle.\<close>

theorem task_graph_accepts_iff:
  "is_ok (build_requirement_task_graph u root b inherited) \<longleftrightarrow>
     id_valid u KindTask root \<and> requirements_validate u b = Inr () \<and> task_edges_ok u inherited \<and>
     acyclic (task_edge_key ` (set inherited \<union> set (requirement_edges root b)))"
  by (rule build_requirement_task_graph_ok)

text \<open>A Task graph that \<open>BuildBlueprintRequirementTaskGraph\<close> returns has exactly the inherited
  and the new edges, each once and strictly sorted; its order lists the root and every Task of an
  edge once, with every prerequisite before its dependent, and is the lexicographically least such
  order; every Task the requirements resolve to comes before the root.\<close>

theorem task_graph_order:
  assumes "build_requirement_task_graph u root b inherited = Inr (edges, ordered)"
  shows "set edges = set inherited \<union> set (requirement_edges root b) \<and>
    sorted_wrt (<) (map task_edge_key edges) \<and>
    topological_order (map task_edge_key edges) (task_nodes root edges) ordered \<and>
    (\<forall>ys. topological_order (map task_edge_key edges) (task_nodes root edges) ys \<longrightarrow> ordered \<le> ys) \<and>
    (\<exists>earlier later. ordered = earlier @ root # later \<and>
       (\<forall>rr \<in> set (br_Resolved b). rst_TaskID (rr_Target rr) \<in> set earlier))"
proof -
  let ?g = "map task_edge_key edges" and ?n = "task_nodes root edges"
  from assms have c: "compact_edges u [] (sort_key task_edge_key (inherited @ requirement_edges root b)) = Inr edges"
    and top: "topological_order ?g ?n ordered" and least: "least_first ?g ?n ordered"
    by (simp_all add: build_requirement_task_graph_Inr)
  have srt: "sorted (map task_edge_key (sort_key task_edge_key (inherited @ requirement_edges root b)))"
    by (rule sorted_sort_key)
  from compact_edges_Inr[OF srt _ _ c]
  have edges: "set edges = set inherited \<union> set (requirement_edges root b)"
    "sorted_wrt (<) (map task_edge_key edges)"
    by auto
  have "root \<in> set ordered" using top by (simp add: topological_order_def task_nodes_def)
  then obtain earlier later where o: "ordered = earlier @ root # later" by (meson split_list)
  have "rst_TaskID (rr_Target rr) \<in> set earlier" if "rr \<in> set (br_Resolved b)" for rr
  proof -
    have "(rst_TaskID (rr_Target rr), ordered ! length earlier) \<in> set ?g"
      using that by (force simp: o edges requirement_edges_def)
    moreover have "length earlier < length ordered" by (simp add: o)
    ultimately have "rst_TaskID (rr_Target rr) \<in> set (take (length earlier) ordered)"
      using top unfolding topological_order_def prereqs_first_def by blast
    then show ?thesis by (simp add: o)
  qed
  with edges top least o show ?thesis by (blast intro: least_first_is_least)
qed

definition example_task_edge :: "string \<Rightarrow> string \<Rightarrow> requirement_task_edge" where
  "example_task_edge p d = \<lparr>rte_PrerequisiteTaskID = p, rte_DependentTaskID = d\<rparr>"

theorem task_graph_order_witness:
  "build_requirement_task_graph crockford_ulid (ex_id ''task'' CHR ''9'') example_requirements
     [example_task_edge (ex_id ''task'' CHR ''2'') (ex_id ''task'' CHR ''1'')] =
   Inr ([example_task_edge (ex_id ''task'' CHR ''1'') (ex_id ''task'' CHR ''9''),
         example_task_edge (ex_id ''task'' CHR ''2'') (ex_id ''task'' CHR ''1''),
         example_task_edge (ex_id ''task'' CHR ''2'') (ex_id ''task'' CHR ''9'')],
        [ex_id ''task'' CHR ''2'', ex_id ''task'' CHR ''1'', ex_id ''task'' CHR ''9'']) \<and>
   sorted_wrt (<) (map task_edge_key
     [example_task_edge (ex_id ''task'' CHR ''1'') (ex_id ''task'' CHR ''9''),
      example_task_edge (ex_id ''task'' CHR ''2'') (ex_id ''task'' CHR ''1''),
      example_task_edge (ex_id ''task'' CHR ''2'') (ex_id ''task'' CHR ''9'')])"
  (is "?b \<and> ?s")
proof -
  have ?b by code_simp
  from this task_graph_order[OF this] show ?thesis by blast
qed

definition example_incomplete :: blueprint_requirements where
  "example_incomplete = example_requirements
     \<lparr>br_Resolved := [example_resolved ''db'' CHR ''1'', example_resolved ''db'' CHR ''2'']\<rparr>"

text \<open>What \<open>BlueprintRequirements.Validate\<close> does not check: it compares the number of resolved
  entries with the number of authored requirements and looks every entry up among the authored
  targets, but two entries may name the same target. A projection in which one authored
  requirement has no resolved entry at all is accepted, and the Task graph built from it then
  lacks that prerequisite.\<close>

theorem validate_accepts_incomplete_resolution:
  "requirements_validate crockford_ulid example_incomplete = Inr () \<and>
   example_requirement ''cache'' \<in> set (br_Authored example_incomplete) \<and>
   \<not> list_ex (\<lambda>rr. target_key (rr_Target rr) = req_Target (example_requirement ''cache''))
     (br_Resolved example_incomplete)"
proof (intro conjI)
  show "requirements_validate crockford_ulid example_incomplete = Inr ()" by code_simp
  show "example_requirement ''cache'' \<in> set (br_Authored example_incomplete)"
    by (simp add: example_incomplete_def example_requirements_def)
  show "\<not> list_ex (\<lambda>rr. target_key (rr_Target rr) = req_Target (example_requirement ''cache''))
     (br_Resolved example_incomplete)" by code_simp
qed

end
