(* ===== verification/WorkModel.thy ===== *)
theory WorkModel
  imports Ids
begin

text \<open>
  The data of the work-execution lifecycle and its validators
  (\<open>internal/common/workexecution/model.go\<close>, \<open>validation.go\<close> and the \<open>Validate\<close> method of
  \<open>attempt.go\<close>). A Task owns Items; an Item is executed by numbered Attempts, each bound to one
  executor identity. Every transition validates its arguments first, so \<open>item_ok\<close> and
  \<open>attempt_ok\<close>, the characterisations proved here, are the invariants of \<open>WorkTransitions\<close>.
\<close>

section \<open>Enumerations\<close>

datatype operation =
    OpRelease | OpReleaseRestoration | OpServiceLifecycle | OpServiceRemoval | OpBackingProvision
  | OpAttach | OpDetach | OpScript | OpNetwork | OpVolume | OpComponent | OpResolver
  | OpEnvironment | OpHierarchy | OpRemovalBackupObject | OpBackup | OpBackupPrune | OpRestore
  | OpImage | OpRunner | OpControllerSoftware | OpAgentSoftware | OpSoftwarePreparation
  | OpSoftwareStaging | OpConnectorCheck | OpConnectorRemoval | OpSecretRemoval
  | OpScriptRemoval | OpBackingCheck | OpDNSCheck | OpEdgeCheck | OpRunnerCheck
  | OpSecretRotation | OpEntrySettlement | OpEntryConfiguration | OpResourceDefinition
  | OpReleaseGroup | OpAgentLifecycle | OpEtcdConfiguration
  | OperationOther string

datatype executor = ControllerExecutor | AgentExecutor | ExecutorOther string

datatype work_phase =
    Waiting | Ready | Assigned | Running | Attention | Settled | WorkPhaseOther string

text \<open>The zero value \<open>""\<close> of an outcome is \<open>NoOutcome\<close>.\<close>

datatype outcome =
    NoOutcome | Succeeded | Failed | Cancelled | Superseded | OutcomeOther string

datatype direction = Forward | Recovery | DirectionOther string

datatype cleanup =
    CleanupNone | CleanupRequired | CleanupRunning | CleanupStopped | CleanupComplete
  | CleanupOther string

datatype wait_reason =
    WaitInput | WaitDependency | WaitConflict | WaitReservation | WaitExecutor | WaitOperation
  | WaitCapacity | WaitRetry | WaitOther string

fun valid_operation :: "operation \<Rightarrow> bool" where
  "valid_operation (OperationOther s) = False"
| "valid_operation _ = True"

fun valid_outcome :: "outcome \<Rightarrow> bool" where
  "valid_outcome Succeeded = True"
| "valid_outcome Failed = True"
| "valid_outcome Cancelled = True"
| "valid_outcome Superseded = True"
| "valid_outcome _ = False"

fun valid_cleanup :: "cleanup \<Rightarrow> bool" where
  "valid_cleanup (CleanupOther s) = False"
| "valid_cleanup _ = True"

fun valid_wait_reason :: "wait_reason \<Rightarrow> bool" where
  "valid_wait_reason (WaitOther s) = False"
| "valid_wait_reason _ = True"

lemma valid_outcome_cases:
  "valid_outcome x \<longleftrightarrow> x = Succeeded \<or> x = Failed \<or> x = Cancelled \<or> x = Superseded"
  by (cases x) auto

section \<open>Records\<close>

record placement =
  pl_Executor :: executor
  pl_HostID :: string

record input =
  in_ID :: string
  in_SHA256 :: string

record claim =
  cl_HostID :: string
  cl_ScopeID :: string

record wait =
  wt_Reason :: wait_reason
  wt_WorkItemID :: string
  wt_TaskID :: string
  wt_Until :: "gotime option"

record item =
  it_ID :: string
  it_TaskID :: string
  it_Operation :: operation
  it_TargetID :: string
  it_TargetName :: string
  it_Placement :: placement
  it_Dependencies :: "string list"
  it_Claims :: "claim list"
  it_Input :: "input option"
  it_Phase :: work_phase
  it_Wait :: "wait option"
  it_AttemptNumber :: u64
  it_ActiveAttemptID :: string
  it_Outcome :: outcome
  it_FirstFailure :: "input option"
  it_FirstFailureAttempt :: u64
  it_Result :: "input option"
  it_CleanupResult :: "input option"
  it_Cleanup :: cleanup
  it_ForwardRevoked :: bool
  it_CreatedAt :: gotime
  it_UpdatedAt :: gotime
  it_Deadline :: gotime

record identity =
  idn_Executor :: executor
  idn_HostID :: string
  idn_AgentID :: string
  idn_Generation :: u64

record attempt =
  at_ID :: string
  at_WorkItemID :: string
  at_TaskID :: string
  at_Number :: u64
  at_Executor :: identity
  at_Direction :: direction
  at_Input :: input
  at_AssignedAt :: gotime
  at_Deadline :: gotime
  at_StartedAt :: "gotime option"
  at_FinishedAt :: "gotime option"
  at_Outcome :: outcome
  at_Result :: "input option"

section \<open>Validators\<close>

definition valid_time :: "gotime \<Rightarrow> bool" where
  "valid_time t \<longleftrightarrow> \<not> is_zero t \<and> year_between 1970 9999 t"

definition resource_kinds :: "kind list" where
  "resource_kinds =
     [KindTenant, KindProject, KindEnvironment, KindService, KindEnvEntry, KindVolume, KindAttach,
      KindRoute, KindDNSRecord, KindSecret, KindConnector, KindRunner, KindScript,
      KindBackupSource, KindRecoveryPoint, KindAgent, KindHost, KindNetwork, KindBackingService,
      KindReleaseGroup, KindComponent, KindConfig]"

definition valid_resource_id :: "ulid_check \<Rightarrow> string \<Rightarrow> bool" where
  "valid_resource_id u v \<longleftrightarrow> local_id_valid v \<or> list_ex (\<lambda>k. id_valid u k v) resource_kinds"

text \<open>Length, lower case and \<open>hex.DecodeString\<close> together are \<open>sha256_hex\<close>.\<close>

definition input_validate :: "ulid_check \<Rightarrow> input \<Rightarrow> unit res" where
  "input_validate u i =
     (if \<not> id_valid u KindPlan (in_ID i) then Inl ValidationFailed
      else if \<not> sha256_hex (in_SHA256 i) then Inl ValidationFailed
      else Inr ())"

definition placement_validate :: "ulid_check \<Rightarrow> placement \<Rightarrow> unit res" where
  "placement_validate u p =
     (if pl_Executor p \<noteq> AgentExecutor \<and> pl_Executor p \<noteq> ControllerExecutor \<or>
         pl_HostID p \<noteq> [] \<and> \<not> id_valid u KindHost (pl_HostID p) \<or>
         pl_Executor p = AgentExecutor \<and> pl_HostID p = []
      then Inl ValidationFailed else Inr ())"

definition identity_validate :: "ulid_check \<Rightarrow> identity \<Rightarrow> unit res" where
  "identity_validate u x =
     try_res (placement_validate u \<lparr>pl_Executor = idn_Executor x, pl_HostID = idn_HostID x\<rparr>) (\<lambda>_.
       if idn_Generation x = 0 \<or>
          idn_Executor x = AgentExecutor \<and> \<not> id_valid u KindAgent (idn_AgentID x) \<or>
          idn_Executor x = ControllerExecutor \<and> idn_AgentID x \<noteq> []
       then Inl ValidationFailed else Inr ())"

definition wait_validate :: "ulid_check \<Rightarrow> wait \<Rightarrow> unit res" where
  "wait_validate u w =
     (if \<not> valid_wait_reason (wt_Reason w) then Inl ValidationFailed
      else if wt_WorkItemID w \<noteq> [] \<and> \<not> id_valid u KindWorkItem (wt_WorkItemID w) \<or>
              wt_TaskID w \<noteq> [] \<and> \<not> id_valid u KindTask (wt_TaskID w) \<or>
              \<not> opt_all valid_time (wt_Until w)
        then Inl ValidationFailed
      else if wt_Reason w = WaitDependency \<and> wt_WorkItemID w = [] \<or>
              wt_Reason w = WaitConflict \<and> (wt_WorkItemID w = [] \<or> wt_TaskID w = []) \<or>
              wt_Reason w = WaitReservation \<and> (wt_TaskID w = [] \<or> wt_WorkItemID w \<noteq> []) \<or>
              wt_Reason w = WaitRetry \<and> wt_Until w = None
        then Inl ValidationFailed
      else Inr ())"

fun validate_item_dependencies :: "ulid_check \<Rightarrow> string \<Rightarrow> string list \<Rightarrow> string list \<Rightarrow> unit res" where
  "validate_item_dependencies u self seen [] = Inr ()"
| "validate_item_dependencies u self seen (d # ds) =
     (if \<not> id_valid u KindWorkItem d \<or> d = self then Inl ValidationFailed
      else if d \<in> set seen then Inl ValidationFailed
      else validate_item_dependencies u self (d # seen) ds)"

definition claim_ok :: "ulid_check \<Rightarrow> placement \<Rightarrow> claim \<Rightarrow> bool" where
  "claim_ok u p c \<longleftrightarrow>
     valid_resource_id u (cl_ScopeID c) \<and>
     (cl_HostID c \<noteq> [] \<longrightarrow>
        id_valid u KindHost (cl_HostID c) \<and>
        \<not> (pl_Executor p = AgentExecutor \<and> cl_HostID c \<noteq> pl_HostID p))"

fun validate_item_claims :: "ulid_check \<Rightarrow> placement \<Rightarrow> claim list \<Rightarrow> claim list \<Rightarrow> unit res" where
  "validate_item_claims u p seen [] = Inr ()"
| "validate_item_claims u p seen (c # cs) =
     (if \<not> claim_ok u p c then Inl ValidationFailed
      else if c \<in> set seen then Inl ValidationFailed
      else validate_item_claims u p (c # seen) cs)"

definition maximum_dependencies :: nat where "maximum_dependencies = 64"
definition maximum_claims :: nat where "maximum_claims = 32"

text \<open>The final switch of \<open>Item.Validate\<close> over the phase.\<close>

definition validate_item_phase :: "ulid_check \<Rightarrow> item \<Rightarrow> unit res" where
  "validate_item_phase u it =
     (case it_Phase it of
        Waiting \<Rightarrow>
          if it_ActiveAttemptID it \<noteq> [] then Inl ValidationFailed
          else (case it_Wait it of None \<Rightarrow> Inl ValidationFailed | Some w \<Rightarrow> wait_validate u w)
      | Ready \<Rightarrow>
          if it_ActiveAttemptID it \<noteq> [] \<or> it_Wait it \<noteq> None then Inl ValidationFailed else Inr ()
      | Attention \<Rightarrow>
          if it_ActiveAttemptID it \<noteq> [] \<or> it_Wait it \<noteq> None then Inl ValidationFailed else Inr ()
      | Settled \<Rightarrow>
          if it_ActiveAttemptID it \<noteq> [] \<or> it_Wait it \<noteq> None then Inl ValidationFailed else Inr ()
      | Assigned \<Rightarrow>
          if \<not> id_valid u KindAttempt (it_ActiveAttemptID it) \<or> it_AttemptNumber it = 0 \<or> it_Wait it \<noteq> None
          then Inl ValidationFailed else Inr ()
      | Running \<Rightarrow>
          if \<not> id_valid u KindAttempt (it_ActiveAttemptID it) \<or> it_AttemptNumber it = 0 \<or> it_Wait it \<noteq> None
          then Inl ValidationFailed else Inr ()
      | WorkPhaseOther s \<Rightarrow> Inl ValidationFailed)"

definition item_validate :: "ulid_check \<Rightarrow> item \<Rightarrow> unit res" where
  "item_validate u it =
     (if \<not> id_valid u KindWorkItem (it_ID it) \<or> \<not> id_valid u KindTask (it_TaskID it) \<or>
         \<not> valid_operation (it_Operation it) \<or> \<not> valid_resource_id u (it_TargetID it)
        then Inl ValidationFailed
      else try_res (placement_validate u (it_Placement it)) (\<lambda>_.
      if 256 < length (it_TargetName it) \<or> \<not> valid_utf8 (it_TargetName it) then Inl ValidationFailed
      else if \<not> valid_time (it_CreatedAt it) \<or> \<not> valid_time (it_UpdatedAt it) \<or>
              \<not> valid_time (it_Deadline it) \<or> before (it_UpdatedAt it) (it_CreatedAt it) \<or>
              \<not> after (it_Deadline it) (it_CreatedAt it)
        then Inl ValidationFailed
      else if maximum_dependencies < length (it_Dependencies it) \<or> length (it_Claims it) = 0 \<or>
              maximum_claims < length (it_Claims it)
        then Inl ValidationFailed
      else try_res (validate_item_dependencies u (it_ID it) [] (it_Dependencies it)) (\<lambda>_.
      try_res (validate_item_claims u (it_Placement it) [] (it_Claims it)) (\<lambda>_.
      try_res (case it_Input it of
                 Some i \<Rightarrow> input_validate u i
               | None \<Rightarrow>
                   if it_Phase it \<noteq> Waiting \<and> it_Phase it \<noteq> Settled then Inl ValidationFailed
                   else Inr ()) (\<lambda>_.
      if it_Outcome it \<noteq> NoOutcome \<and> \<not> valid_outcome (it_Outcome it) then Inl ValidationFailed
      else try_res (opt_res (input_validate u) (it_FirstFailure it)) (\<lambda>_.
      if it_AttemptNumber it < it_FirstFailureAttempt it \<or>
         0 < it_FirstFailureAttempt it \<and> it_FirstFailure it = None
        then Inl ValidationFailed
      else try_res (each_res (opt_res (input_validate u)) [it_Result it, it_CleanupResult it]) (\<lambda>_.
      if \<not> valid_cleanup (it_Cleanup it) then Inl ValidationFailed
      else if it_Cleanup it \<noteq> CleanupNone \<and> (it_Outcome it = NoOutcome \<or> it_Outcome it = Succeeded)
        then Inl ValidationFailed
      else try_res (validate_item_phase u it) (\<lambda>_.
      if it_Phase it = Settled \<and>
         (it_Outcome it = NoOutcome \<or> it_Cleanup it \<noteq> CleanupNone \<and> it_Cleanup it \<noteq> CleanupComplete)
        then Inl ValidationFailed
      else Inr ()))))))))"

definition attempt_validate :: "ulid_check \<Rightarrow> attempt \<Rightarrow> unit res" where
  "attempt_validate u a =
     (if \<not> id_valid u KindAttempt (at_ID a) \<or> \<not> id_valid u KindWorkItem (at_WorkItemID a) \<or>
         \<not> id_valid u KindTask (at_TaskID a) \<or> at_Number a = 0
        then Inl ValidationFailed
      else try_res (identity_validate u (at_Executor a)) (\<lambda>_.
      try_res (input_validate u (at_Input a)) (\<lambda>_.
      if at_Direction a \<noteq> Forward \<and> at_Direction a \<noteq> Recovery \<or>
         \<not> valid_time (at_AssignedAt a) \<or> \<not> valid_time (at_Deadline a) \<or>
         \<not> after (at_Deadline a) (at_AssignedAt a)
        then Inl ValidationFailed
      else if \<not> opt_all (\<lambda>s. valid_time s \<and> \<not> before s (at_AssignedAt a)) (at_StartedAt a) \<or>
              \<not> opt_all (\<lambda>f. valid_time f \<and> \<not> before f (at_AssignedAt a)) (at_FinishedAt a) \<or>
              \<not> opt_all (\<lambda>s. opt_all (\<lambda>f. \<not> before f s) (at_FinishedAt a)) (at_StartedAt a)
        then Inl ValidationFailed
      else (case at_FinishedAt a of
              None \<Rightarrow>
                if at_Outcome a \<noteq> NoOutcome \<or> at_Result a \<noteq> None then Inl ValidationFailed else Inr ()
            | Some f \<Rightarrow>
                if \<not> valid_outcome (at_Outcome a) then Inl ValidationFailed
                else (case at_Result a of
                        None \<Rightarrow> Inl ValidationFailed
                      | Some r \<Rightarrow> input_validate u r)))))"

section \<open>Characterisation of validity\<close>

definition input_ok :: "ulid_check \<Rightarrow> input \<Rightarrow> bool" where
  "input_ok u i \<longleftrightarrow> id_valid u KindPlan (in_ID i) \<and> sha256_hex (in_SHA256 i)"

lemma input_validate_ok [valid_iff, simp]: "input_validate u i = Inr () \<longleftrightarrow> input_ok u i"
  by (simp add: input_validate_def input_ok_def)

lemma input_validate_eq: "input_validate u i = (if input_ok u i then Inr () else Inl ValidationFailed)"
  by (simp add: input_validate_def input_ok_def)

lemma opt_input_ok [simp]: "opt_res (input_validate u) x = Inr () \<longleftrightarrow> opt_all (input_ok u) x"
  by (cases x) auto

text \<open>The part of an item that no transition changes.\<close>

definition item_static_ok :: "ulid_check \<Rightarrow> item \<Rightarrow> bool" where
  "item_static_ok u it \<longleftrightarrow>
     id_valid u KindWorkItem (it_ID it) \<and> id_valid u KindTask (it_TaskID it) \<and>
     valid_operation (it_Operation it) \<and> valid_resource_id u (it_TargetID it) \<and>
     placement_validate u (it_Placement it) = Inr () \<and>
     length (it_TargetName it) \<le> 256 \<and> valid_utf8 (it_TargetName it) \<and>
     length (it_Dependencies it) \<le> maximum_dependencies \<and>
     it_Claims it \<noteq> [] \<and> length (it_Claims it) \<le> maximum_claims \<and>
     (\<forall>d \<in> set (it_Dependencies it). id_valid u KindWorkItem d \<and> d \<noteq> it_ID it) \<and>
     distinct (it_Dependencies it) \<and>
     (\<forall>c \<in> set (it_Claims it). claim_ok u (it_Placement it) c) \<and> distinct (it_Claims it) \<and>
     valid_time (it_CreatedAt it)"

definition item_times_ok :: "item \<Rightarrow> bool" where
  "item_times_ok it \<longleftrightarrow>
     valid_time (it_UpdatedAt it) \<and> valid_time (it_Deadline it) \<and>
     \<not> before (it_UpdatedAt it) (it_CreatedAt it) \<and> after (it_Deadline it) (it_CreatedAt it)"

definition item_results_ok :: "ulid_check \<Rightarrow> item \<Rightarrow> bool" where
  "item_results_ok u it \<longleftrightarrow>
     opt_all (input_ok u) (it_Input it) \<and> opt_all (input_ok u) (it_FirstFailure it) \<and>
     opt_all (input_ok u) (it_Result it) \<and> opt_all (input_ok u) (it_CleanupResult it) \<and>
     it_FirstFailureAttempt it \<le> it_AttemptNumber it \<and>
     (it_FirstFailureAttempt it = 0 \<or> it_FirstFailure it \<noteq> None)"

definition item_state_ok :: "ulid_check \<Rightarrow> item \<Rightarrow> bool" where
  "item_state_ok u it \<longleftrightarrow>
     (it_Outcome it = NoOutcome \<or> valid_outcome (it_Outcome it)) \<and> valid_cleanup (it_Cleanup it) \<and>
     (it_Cleanup it \<noteq> CleanupNone \<longrightarrow> it_Outcome it \<noteq> NoOutcome \<and> it_Outcome it \<noteq> Succeeded) \<and>
     (it_Input it = None \<longrightarrow> it_Phase it = Waiting \<or> it_Phase it = Settled) \<and>
     validate_item_phase u it = Inr () \<and>
     (it_Phase it = Settled \<longrightarrow>
        it_Outcome it \<noteq> NoOutcome \<and> (it_Cleanup it = CleanupNone \<or> it_Cleanup it = CleanupComplete))"

definition item_ok :: "ulid_check \<Rightarrow> item \<Rightarrow> bool" where
  "item_ok u it \<longleftrightarrow>
     item_static_ok u it \<and> item_times_ok it \<and> item_results_ok u it \<and> item_state_ok u it"

lemma validate_item_dependencies_ok:
  "validate_item_dependencies u self seen ds = Inr () \<longleftrightarrow>
     (\<forall>d \<in> set ds. id_valid u KindWorkItem d \<and> d \<noteq> self \<and> d \<notin> set seen) \<and> distinct ds"
  by (induction ds arbitrary: seen) auto

lemma validate_item_claims_ok:
  "validate_item_claims u p seen cs = Inr () \<longleftrightarrow>
     (\<forall>c \<in> set cs. claim_ok u p c \<and> c \<notin> set seen) \<and> distinct cs"
  by (induction cs arbitrary: seen) auto

lemma item_validate_ok [valid_iff, simp]: "item_validate u it = Inr () \<longleftrightarrow> item_ok u it"
proof -
  have i: "(case it_Input it of Some i \<Rightarrow> input_validate u i
      | None \<Rightarrow> if it_Phase it \<noteq> Waiting \<and> it_Phase it \<noteq> Settled then Inl ValidationFailed else Inr ()) = Inr () \<longleftrightarrow>
    opt_all (input_ok u) (it_Input it) \<and> (it_Input it = None \<longrightarrow> it_Phase it = Waiting \<or> it_Phase it = Settled)"
    by (cases "it_Input it") auto
  show ?thesis
    unfolding item_validate_def item_ok_def item_static_ok_def item_times_ok_def item_results_ok_def
      item_state_ok_def if_Inl_eq_Inr try_res_unit i each_res_ok validate_item_dependencies_ok
      validate_item_claims_ok
    by (simp add: not_less ball_conj_distrib) satx
qed


definition attempt_ok :: "ulid_check \<Rightarrow> attempt \<Rightarrow> bool" where
  "attempt_ok u a \<longleftrightarrow>
     id_valid u KindAttempt (at_ID a) \<and> id_valid u KindWorkItem (at_WorkItemID a) \<and>
     id_valid u KindTask (at_TaskID a) \<and> at_Number a \<noteq> 0 \<and>
     identity_validate u (at_Executor a) = Inr () \<and> input_ok u (at_Input a) \<and>
     (at_Direction a = Forward \<or> at_Direction a = Recovery) \<and>
     valid_time (at_AssignedAt a) \<and> valid_time (at_Deadline a) \<and>
     after (at_Deadline a) (at_AssignedAt a) \<and>
     opt_all (\<lambda>s. valid_time s \<and> \<not> before s (at_AssignedAt a)) (at_StartedAt a) \<and>
     opt_all (\<lambda>f. valid_time f \<and> \<not> before f (at_AssignedAt a)) (at_FinishedAt a) \<and>
     opt_all (\<lambda>s. opt_all (\<lambda>f. \<not> before f s) (at_FinishedAt a)) (at_StartedAt a) \<and>
     (if at_FinishedAt a = None then at_Outcome a = NoOutcome \<and> at_Result a = None
      else valid_outcome (at_Outcome a) \<and> at_Result a \<noteq> None \<and> opt_all (input_ok u) (at_Result a))"

lemma attempt_validate_ok [valid_iff, simp]: "attempt_validate u a = Inr () \<longleftrightarrow> attempt_ok u a"
proof -
  have f: "(case at_FinishedAt a of
       None \<Rightarrow> if at_Outcome a \<noteq> NoOutcome \<or> at_Result a \<noteq> None then Inl ValidationFailed else Inr ()
     | Some f \<Rightarrow>
         if \<not> valid_outcome (at_Outcome a) then Inl ValidationFailed
         else (case at_Result a of None \<Rightarrow> Inl ValidationFailed | Some r \<Rightarrow> input_validate u r)) = Inr () \<longleftrightarrow>
    (if at_FinishedAt a = None then at_Outcome a = NoOutcome \<and> at_Result a = None
     else valid_outcome (at_Outcome a) \<and> at_Result a \<noteq> None \<and> opt_all (input_ok u) (at_Result a))"
    by (cases "at_FinishedAt a"; cases "at_Result a") auto
  show ?thesis
    unfolding attempt_validate_def attempt_ok_def if_Inl_eq_Inr try_res_unit f input_validate_ok
    by simp satx
qed

lemma identity_placement:
  "identity_validate u x = Inr () \<Longrightarrow>
     placement_validate u \<lparr>pl_Executor = idn_Executor x, pl_HostID = idn_HostID x\<rparr> = Inr ()"
  by (simp add: identity_validate_def)

section \<open>Validity under updates\<close>

text \<open>Each part of \<open>item_ok\<close> depends on its own fields only.\<close>

lemma item_static_update [simp]:
  "item_static_ok u (it_Input_update f it) = item_static_ok u it"
  "item_static_ok u (it_Phase_update f1 it) = item_static_ok u it"
  "item_static_ok u (it_Wait_update f2 it) = item_static_ok u it"
  "item_static_ok u (it_AttemptNumber_update f3 it) = item_static_ok u it"
  "item_static_ok u (it_ActiveAttemptID_update f4 it) = item_static_ok u it"
  "item_static_ok u (it_Outcome_update f5 it) = item_static_ok u it"
  "item_static_ok u (it_FirstFailure_update f6 it) = item_static_ok u it"
  "item_static_ok u (it_FirstFailureAttempt_update f7 it) = item_static_ok u it"
  "item_static_ok u (it_Result_update f8 it) = item_static_ok u it"
  "item_static_ok u (it_CleanupResult_update f9 it) = item_static_ok u it"
  "item_static_ok u (it_Cleanup_update f10 it) = item_static_ok u it"
  "item_static_ok u (it_ForwardRevoked_update f11 it) = item_static_ok u it"
  "item_static_ok u (it_UpdatedAt_update f12 it) = item_static_ok u it"
  "item_static_ok u (it_Deadline_update f13 it) = item_static_ok u it"
  by (simp_all add: item_static_ok_def)

lemma validate_item_phase_update [simp]:
  "validate_item_phase u (it_FirstFailure_update f1 it) = validate_item_phase u it"
  "validate_item_phase u (it_FirstFailureAttempt_update f2 it) = validate_item_phase u it"
  "validate_item_phase u (it_Result_update f3 it) = validate_item_phase u it"
  "validate_item_phase u (it_CleanupResult_update f4 it) = validate_item_phase u it"
  "validate_item_phase u (it_ForwardRevoked_update f5 it) = validate_item_phase u it"
  "validate_item_phase u (it_UpdatedAt_update f6 it) = validate_item_phase u it"
  "validate_item_phase u (it_Deadline_update f7 it) = validate_item_phase u it"
  by (simp_all add: validate_item_phase_def cong: work_phase.case_cong option.case_cong if_cong
      split del: if_split)

lemma item_state_update [simp]:
  "item_state_ok u (it_FirstFailure_update f1 it) = item_state_ok u it"
  "item_state_ok u (it_FirstFailureAttempt_update f2 it) = item_state_ok u it"
  "item_state_ok u (it_Result_update f3 it) = item_state_ok u it"
  "item_state_ok u (it_CleanupResult_update f4 it) = item_state_ok u it"
  "item_state_ok u (it_ForwardRevoked_update f5 it) = item_state_ok u it"
  "item_state_ok u (it_UpdatedAt_update f6 it) = item_state_ok u it"
  "item_state_ok u (it_Deadline_update f7 it) = item_state_ok u it"
  by (simp_all add: item_state_ok_def)

end
