(* ===== verification/WorkTransitions.thy ===== *)
theory WorkTransitions
  imports WorkModel
begin

text \<open>
  The transitions of one work item and its attempts: \<open>attempt.go\<close>, \<open>readiness.go\<close>,
  \<open>settlement.go\<close>, \<open>unstarted_retry.go\<close> and \<open>delivery.go\<close> of
  \<open>internal/common/workexecution\<close>. \<open>Clone\<close> and \<open>cloneAttempt\<close> are identities on values.

  The life of an item is the step relation \<open>work_step\<close> over the item and the history of its
  attempts; its invariant \<open>work_inv\<close> says what the scheduler, the store and the executors rely on.
\<close>

section \<open>Assignment, start and completion\<close>

definition assign ::
  "ulid_check \<Rightarrow> item \<Rightarrow> identity \<Rightarrow> string \<Rightarrow> direction \<Rightarrow> gotime \<Rightarrow> gotime \<Rightarrow> (item \<times> attempt) res" where
  "assign u it who attemptID dir now deadline =
     try_res (item_validate u it) (\<lambda>_.
     try_res (identity_validate u who) (\<lambda>_.
     case it_Input it of
       None \<Rightarrow> Inl StateConflict
     | Some inp \<Rightarrow>
     if it_Phase it \<noteq> Ready \<or> idn_Executor who \<noteq> pl_Executor (it_Placement it) \<or>
        idn_HostID who \<noteq> pl_HostID (it_Placement it) \<or> it_AttemptNumber it = - 1 \<or>
        before now (it_UpdatedAt it) \<or> \<not> after deadline now \<or> after deadline (it_Deadline it)
       then Inl StateConflict
     else try_res (case dir of
         Forward \<Rightarrow>
           if it_ForwardRevoked it \<or> it_Cleanup it \<noteq> CleanupNone \<or> after deadline (it_Deadline it)
           then Inl StateConflict else Inr ()
       | Recovery \<Rightarrow>
           if it_Cleanup it \<noteq> CleanupRequired \<and> it_Cleanup it \<noteq> CleanupStopped
           then Inl StateConflict else Inr ()
       | DirectionOther s \<Rightarrow> Inl ValidationFailed) (\<lambda>_.
     (let a = \<lparr>at_ID = attemptID, at_WorkItemID = it_ID it, at_TaskID = it_TaskID it,
               at_Number = it_AttemptNumber it + 1, at_Executor = who, at_Direction = dir,
               at_Input = inp, at_AssignedAt = now, at_Deadline = deadline,
               at_StartedAt = None, at_FinishedAt = None, at_Outcome = NoOutcome,
               at_Result = None\<rparr>;
          next = it\<lparr>it_Phase := Assigned, it_ActiveAttemptID := at_ID a,
                    it_AttemptNumber := at_Number a, it_UpdatedAt := now\<rparr>;
          next' = (if dir = Recovery then next\<lparr>it_Cleanup := CleanupRunning\<rparr> else next)
      in try_res (attempt_validate u a) (\<lambda>_. Inr (next', a))))))"

definition match_active :: "ulid_check \<Rightarrow> item \<Rightarrow> attempt \<Rightarrow> unit res" where
  "match_active u it a =
     try_res (item_validate u it) (\<lambda>_.
     try_res (attempt_validate u a) (\<lambda>_.
     if it_ID it \<noteq> at_WorkItemID a \<or> it_TaskID it \<noteq> at_TaskID a \<or>
        it_ActiveAttemptID it \<noteq> at_ID a \<or> it_AttemptNumber it \<noteq> at_Number a \<or>
        it_Input it \<noteq> Some (at_Input a) \<or> at_FinishedAt a \<noteq> None \<or>
        pl_Executor (it_Placement it) \<noteq> idn_Executor (at_Executor a) \<or>
        pl_HostID (it_Placement it) \<noteq> idn_HostID (at_Executor a)
     then Inl StateConflict else Inr ()))"

definition start :: "ulid_check \<Rightarrow> item \<Rightarrow> attempt \<Rightarrow> gotime \<Rightarrow> (item \<times> attempt) res" where
  "start u it a now =
     try_res (match_active u it a) (\<lambda>_.
     if at_StartedAt a \<noteq> None then Inr (it, a)
     else if it_Phase it \<noteq> Assigned \<or> before now (it_UpdatedAt it) \<or>
             \<not> before now (at_Deadline a) \<or> at_Direction a = Forward \<and> it_ForwardRevoked it
       then Inl StateConflict
     else Inr (it\<lparr>it_Phase := Running, it_UpdatedAt := now\<rparr>, a\<lparr>at_StartedAt := Some now\<rparr>))"

record completion =
  co_Outcome :: outcome
  co_Evidence :: input
  co_EffectsSettled :: bool

text \<open>The fields \<open>Finish\<close> writes into the item, by direction of the attempt.\<close>

definition finish_item :: "item \<Rightarrow> attempt \<Rightarrow> completion \<Rightarrow> item" where
  "finish_item it a c =
     (if at_Direction a = Forward then
        (let it1 = it\<lparr>it_Outcome := co_Outcome c, it_Result := Some (co_Evidence c)\<rparr>;
             it2 = (if co_Outcome c = Failed \<and> it_FirstFailure it1 = None
                    then it1\<lparr>it_FirstFailure := Some (co_Evidence c),
                             it_FirstFailureAttempt := at_Number a\<rparr>
                    else it1)
         in if co_EffectsSettled c then it2\<lparr>it_Phase := Settled, it_Cleanup := CleanupNone\<rparr>
            else it2\<lparr>it_Phase := Attention, it_Cleanup := CleanupRequired\<rparr>)
      else if co_EffectsSettled c then
        it\<lparr>it_Phase := Settled, it_Cleanup := CleanupComplete, it_CleanupResult := Some (co_Evidence c)\<rparr>
      else
        it\<lparr>it_Phase := Attention, it_Cleanup := CleanupStopped, it_CleanupResult := Some (co_Evidence c)\<rparr>)"

definition finish ::
  "ulid_check \<Rightarrow> item \<Rightarrow> attempt \<Rightarrow> completion \<Rightarrow> gotime \<Rightarrow> (item \<times> attempt) res" where
  "finish u it a c now =
     try_res (match_active u it a) (\<lambda>_.
     if \<not> valid_outcome (co_Outcome c) \<or> before now (it_UpdatedAt it) \<or>
        co_Outcome c = Succeeded \<and> (\<not> co_EffectsSettled c \<or> at_StartedAt a = None)
       then Inl ValidationFailed
     else try_res (input_validate u (co_Evidence c)) (\<lambda>_.
     (let execution = a\<lparr>at_FinishedAt := Some now, at_Outcome := co_Outcome c,
                        at_Result := Some (co_Evidence c)\<rparr>;
          next = finish_item (it\<lparr>it_ActiveAttemptID := [], it_UpdatedAt := now\<rparr>) a c
      in try_res (item_validate u next) (\<lambda>_.
         try_res (attempt_validate u execution) (\<lambda>_. Inr (next, execution))))))"

definition revoke_forward :: "ulid_check \<Rightarrow> item \<Rightarrow> outcome \<Rightarrow> gotime \<Rightarrow> item res" where
  "revoke_forward u it result now =
     try_res (item_validate u it) (\<lambda>_.
     if result \<noteq> Cancelled \<and> result \<noteq> Superseded \<or> before now (it_UpdatedAt it)
       then Inl ValidationFailed
     else if it_Phase it = Settled then Inr it
     else (let next = it\<lparr>it_ForwardRevoked := True, it_UpdatedAt := now\<rparr> in
       Inr (if it_ActiveAttemptID next = [] \<and> it_Cleanup next = CleanupNone
            then next\<lparr>it_Phase := Settled, it_Outcome := result, it_Wait := None\<rparr>
            else next)))"

section \<open>Readiness and retry\<close>

definition prepare_input :: "ulid_check \<Rightarrow> item \<Rightarrow> input \<Rightarrow> gotime \<Rightarrow> item res" where
  "prepare_input u it inp now =
     try_res (item_validate u it) (\<lambda>_.
     try_res (input_validate u inp) (\<lambda>_.
     if it_Phase it \<noteq> Waiting \<or> it_ForwardRevoked it \<or> it_AttemptNumber it \<noteq> 0 \<or>
        before now (it_UpdatedAt it) \<or> \<not> before now (it_Deadline it)
       then Inl StateConflict
     else if it_Input it \<noteq> None \<and> it_Input it \<noteq> Some inp then Inl StateConflict
     else Inr (it\<lparr>it_Input := Some inp, it_Phase := Ready, it_Wait := None, it_UpdatedAt := now\<rparr>)))"

record retry_decision =
  rd_Direction :: direction
  rd_Result :: input
  rd_NotBefore :: gotime
  rd_Deadline :: gotime

definition retry :: "ulid_check \<Rightarrow> item \<Rightarrow> attempt \<Rightarrow> retry_decision \<Rightarrow> gotime \<Rightarrow> item res" where
  "retry u it previous d now =
     try_res (item_validate u it) (\<lambda>_.
     try_res (attempt_validate u previous) (\<lambda>_.
     try_res (input_validate u (rd_Result d)) (\<lambda>_.
     if at_WorkItemID previous \<noteq> it_ID it \<or> at_TaskID previous \<noteq> it_TaskID it \<or>
        at_Number previous \<noteq> it_AttemptNumber it \<or> at_FinishedAt previous = None \<or>
        at_Result previous \<noteq> Some (rd_Result d) \<or> it_ActiveAttemptID it \<noteq> [] \<or>
        it_Input it \<noteq> Some (at_Input previous) \<or> before now (it_UpdatedAt it) \<or>
        \<not> valid_time now \<or> \<not> valid_time (rd_NotBefore d) \<or> \<not> valid_time (rd_Deadline d) \<or>
        before (rd_NotBefore d) now \<or> \<not> after (rd_Deadline d) (rd_NotBefore d)
       then Inl StateConflict
     else try_res (case rd_Direction d of
         Forward \<Rightarrow>
           if it_Phase it \<noteq> Settled \<or> it_Outcome it \<noteq> Failed \<or> it_ForwardRevoked it \<or>
              it_Cleanup it \<noteq> CleanupNone \<and> it_Cleanup it \<noteq> CleanupComplete
           then Inl StateConflict
           else Inr (it\<lparr>it_Cleanup := CleanupNone, it_Outcome := NoOutcome, it_Result := None,
                       it_CleanupResult := None\<rparr>)
       | Recovery \<Rightarrow>
           if it_Phase it \<noteq> Attention \<or>
              it_Cleanup it \<noteq> CleanupRequired \<and> it_Cleanup it \<noteq> CleanupStopped
           then Inl StateConflict
           else Inr it
       | DirectionOther s \<Rightarrow> Inl ValidationFailed) (\<lambda>next.
     (let next1 = next\<lparr>it_Deadline := rd_Deadline d, it_UpdatedAt := now\<rparr> in
      Inr (if after (rd_NotBefore d) now
           then next1\<lparr>it_Phase := Waiting,
                  it_Wait := Some \<lparr>wt_Reason = WaitRetry, wt_WorkItemID = [], wt_TaskID = [],
                                   wt_Until = Some (rd_NotBefore d)\<rparr>\<rparr>
           else next1\<lparr>it_Phase := Ready, it_Wait := None\<rparr>))))))"

definition release_retry_wait :: "ulid_check \<Rightarrow> item \<Rightarrow> gotime \<Rightarrow> item res" where
  "release_retry_wait u it now =
     try_res (item_validate u it) (\<lambda>_.
     case it_Wait it of
       None \<Rightarrow> Inl StateConflict
     | Some w \<Rightarrow>
     (case wt_Until w of
       None \<Rightarrow> Inl StateConflict
     | Some until \<Rightarrow>
     if it_Phase it \<noteq> Waiting \<or> wt_Reason w \<noteq> WaitRetry \<or> before now until \<or>
        before now (it_UpdatedAt it) \<or> \<not> before now (it_Deadline it) \<or>
        it_ForwardRevoked it \<and> it_Cleanup it = CleanupNone
       then Inl StateConflict
     else Inr (it\<lparr>it_Phase := Ready, it_Wait := None, it_UpdatedAt := now\<rparr>)))"

definition expire_cleanup_retry :: "ulid_check \<Rightarrow> item \<Rightarrow> gotime \<Rightarrow> item res" where
  "expire_cleanup_retry u it now =
     try_res (item_validate u it) (\<lambda>_.
     if \<not> valid_time now \<or> before now (it_UpdatedAt it) \<or> before now (it_Deadline it) \<or>
        it_ActiveAttemptID it \<noteq> [] \<or> it_AttemptNumber it = 0 \<or>
        it_Phase it \<noteq> Ready \<and> it_Phase it \<noteq> Waiting \<or>
        it_Cleanup it \<noteq> CleanupRequired \<and> it_Cleanup it \<noteq> CleanupStopped
       then Inl StateConflict
     else (let next = it\<lparr>it_Phase := Attention, it_Cleanup := CleanupStopped, it_Wait := None,
                         it_UpdatedAt := now\<rparr>
       in try_res (item_validate u next) (\<lambda>_. Inr next)))"

section \<open>Settlement without execution\<close>

definition settle_unstarted :: "ulid_check \<Rightarrow> item \<Rightarrow> completion \<Rightarrow> gotime \<Rightarrow> item res" where
  "settle_unstarted u it c now =
     try_res (item_validate u it) (\<lambda>_.
     try_res (input_validate u (co_Evidence c)) (\<lambda>_.
     if it_AttemptNumber it \<noteq> 0 \<or> it_ActiveAttemptID it \<noteq> [] \<or>
        it_Phase it \<noteq> Ready \<and> it_Phase it \<noteq> Waiting \<or> it_Cleanup it \<noteq> CleanupNone \<or>
        \<not> valid_outcome (co_Outcome c) \<or> \<not> co_EffectsSettled c \<or> before now (it_UpdatedAt it)
       then Inl StateConflict
     else (let next = it\<lparr>it_Phase := Settled, it_Outcome := co_Outcome c, it_Wait := None,
                         it_UpdatedAt := now, it_Result := Some (co_Evidence c)\<rparr>;
               next = (if co_Outcome c = Failed \<and> it_FirstFailure next = None
                       then next\<lparr>it_FirstFailure := Some (co_Evidence c)\<rparr> else next);
               next = (if co_Outcome c = Cancelled \<or> co_Outcome c = Superseded
                       then next\<lparr>it_ForwardRevoked := True\<rparr> else next)
       in try_res (item_validate u next) (\<lambda>_. Inr next))))"

definition settle_queued_retry :: "ulid_check \<Rightarrow> item \<Rightarrow> completion \<Rightarrow> gotime \<Rightarrow> item res" where
  "settle_queued_retry u it c now =
     try_res (item_validate u it) (\<lambda>_.
     if input_validate u (co_Evidence c) \<noteq> Inr () \<or> \<not> valid_time now \<or> before now (it_UpdatedAt it) \<or>
        it_AttemptNumber it = 0 \<or> it_ActiveAttemptID it \<noteq> [] \<or> it_FirstFailure it = None \<or>
        it_Cleanup it \<noteq> CleanupNone \<or> it_Outcome it \<noteq> NoOutcome \<or> it_Result it \<noteq> None \<or>
        it_Phase it \<noteq> Ready \<and>
          (it_Phase it \<noteq> Waiting \<or>
           (case it_Wait it of None \<Rightarrow> True | Some w \<Rightarrow> wt_Reason w \<noteq> WaitRetry)) \<or>
        \<not> co_EffectsSettled c \<or>
        co_Outcome c \<noteq> Failed \<and> co_Outcome c \<noteq> Cancelled \<and> co_Outcome c \<noteq> Superseded
       then Inl StateConflict
     else (let next = it\<lparr>it_Phase := Settled, it_Outcome := co_Outcome c, it_Wait := None,
                         it_UpdatedAt := now, it_Result := Some (co_Evidence c)\<rparr>;
               next = (if co_Outcome c = Cancelled \<or> co_Outcome c = Superseded
                       then next\<lparr>it_ForwardRevoked := True\<rparr> else next)
       in try_res (item_validate u next) (\<lambda>_. Inr next)))"

definition retry_unstarted :: "ulid_check \<Rightarrow> item \<Rightarrow> gotime \<Rightarrow> gotime \<Rightarrow> item res" where
  "retry_unstarted u it deadline now =
     (if item_validate u it \<noteq> Inr () \<or> it_AttemptNumber it \<noteq> 0 \<or> it_ActiveAttemptID it \<noteq> [] \<or>
         it_Input it = None \<or> it_Result it = None \<or> it_Phase it \<noteq> Settled \<or>
         it_Outcome it \<noteq> Failed \<or> it_Cleanup it \<noteq> CleanupNone \<or> it_ForwardRevoked it \<or>
         \<not> valid_time now \<or> \<not> valid_time deadline \<or> before now (it_UpdatedAt it) \<or>
         \<not> after deadline now
       then Inl StateConflict
      else (let next = it\<lparr>it_Phase := Ready, it_Outcome := NoOutcome, it_Result := None,
                          it_Wait := None, it_Deadline := deadline, it_UpdatedAt := now\<rparr>
        in try_res (item_validate u next) (\<lambda>_. Inr next)))"

definition renew_unstarted_deadline :: "ulid_check \<Rightarrow> item \<Rightarrow> gotime \<Rightarrow> gotime \<Rightarrow> item res" where
  "renew_unstarted_deadline u it deadline now =
     (if item_validate u it \<noteq> Inr () \<or> it_AttemptNumber it \<noteq> 0 \<or> it_ActiveAttemptID it \<noteq> [] \<or>
         it_Input it = None \<or> it_Result it \<noteq> None \<or>
         it_Phase it \<noteq> Ready \<and> it_Phase it \<noteq> Waiting \<or> it_Cleanup it \<noteq> CleanupNone \<or>
         it_ForwardRevoked it \<or> \<not> valid_time now \<or> \<not> valid_time deadline \<or>
         before now (it_UpdatedAt it) \<or> \<not> after deadline now \<or> \<not> after deadline (it_Deadline it)
       then Inl StateConflict
      else (let next = it\<lparr>it_Deadline := deadline, it_UpdatedAt := now\<rparr>
        in try_res (item_validate u next) (\<lambda>_. Inr next)))"

section \<open>Delivery of a persisted assignment\<close>

definition validate_delivery :: "ulid_check \<Rightarrow> item \<Rightarrow> attempt \<Rightarrow> unit res" where
  "validate_delivery u it a =
     try_res (match_active u it a) (\<lambda>_.
     if it_Phase it \<noteq> Assigned \<and> it_Phase it \<noteq> Running \<or>
        after (at_Deadline a) (it_Deadline it) \<or> before (at_AssignedAt a) (it_CreatedAt it) \<or>
        it_Phase it = Assigned \<and> at_StartedAt a \<noteq> None \<or>
        it_Phase it = Running \<and> at_StartedAt a = None
     then Inl StateConflict else Inr ())"

definition same_assignment :: "attempt \<Rightarrow> attempt \<Rightarrow> bool" where
  "same_assignment l r \<longleftrightarrow>
     at_ID l = at_ID r \<and> at_TaskID l = at_TaskID r \<and> at_WorkItemID l = at_WorkItemID r \<and>
     at_Number l = at_Number r \<and> at_Executor l = at_Executor r \<and> at_Input l = at_Input r \<and>
     at_Direction l = at_Direction r \<and>
     instant (at_AssignedAt l) = instant (at_AssignedAt r) \<and>
     instant (at_Deadline l) = instant (at_Deadline r)"

section \<open>Every transition keeps the item and its attempt valid\<close>

lemmas item_parts = item_ok_def item_times_ok_def item_results_ok_def item_state_ok_def
  validate_item_phase_def

lemma match_active_ok [valid_iff]:
  "match_active u it a = Inr () \<longleftrightarrow>
     item_ok u it \<and> attempt_ok u a \<and> at_WorkItemID a = it_ID it \<and> at_TaskID a = it_TaskID it \<and>
     it_ActiveAttemptID it = at_ID a \<and> it_AttemptNumber it = at_Number a \<and>
     it_Input it = Some (at_Input a) \<and> at_FinishedAt a = None \<and>
     idn_Executor (at_Executor a) = pl_Executor (it_Placement it) \<and>
     idn_HostID (at_Executor a) = pl_HostID (it_Placement it)"
  by (auto simp: match_active_def)

text \<open>An item with an active attempt is assigned or running.\<close>

lemma item_ok_active:
  "item_ok u it \<Longrightarrow> it_ActiveAttemptID it \<noteq> [] \<longleftrightarrow> it_Phase it = Assigned \<or> it_Phase it = Running"
  by (cases "it_Phase it") (auto simp: item_ok_def item_state_ok_def validate_item_phase_def)

lemma item_ok_active_id:
  "item_ok u it \<Longrightarrow> it_ActiveAttemptID it \<noteq> [] \<Longrightarrow>
     id_valid u KindAttempt (it_ActiveAttemptID it) \<and> it_AttemptNumber it \<noteq> 0 \<and> it_Wait it = None"
  by (cases "it_Phase it") (auto simp: item_ok_def item_state_ok_def validate_item_phase_def split: if_splits)

lemma match_active_phase:
  assumes "match_active u it a = Inr ()"
  shows "it_Phase it = Assigned \<or> it_Phase it = Running"
  using assms item_ok_active[of u it] by (auto simp: match_active_ok attempt_ok_def)

text \<open>The result of \<open>Assign\<close> without its guards.\<close>

definition assigned_attempt ::
  "item \<Rightarrow> input \<Rightarrow> identity \<Rightarrow> string \<Rightarrow> direction \<Rightarrow> gotime \<Rightarrow> gotime \<Rightarrow> attempt" where
  "assigned_attempt it inp who attemptID dir now deadline =
     \<lparr>at_ID = attemptID, at_WorkItemID = it_ID it, at_TaskID = it_TaskID it,
      at_Number = it_AttemptNumber it + 1, at_Executor = who, at_Direction = dir,
      at_Input = inp, at_AssignedAt = now, at_Deadline = deadline, at_StartedAt = None,
      at_FinishedAt = None, at_Outcome = NoOutcome, at_Result = None\<rparr>"

lemma assign_Inr:
  "assign u it who attemptID dir now deadline = Inr (it', a) \<longleftrightarrow>
     (\<exists>inp. item_ok u it \<and> identity_validate u who = Inr () \<and> it_Input it = Some inp \<and> it_Phase it = Ready \<and>
       idn_Executor who = pl_Executor (it_Placement it) \<and> idn_HostID who = pl_HostID (it_Placement it) \<and>
       it_AttemptNumber it \<noteq> - 1 \<and> \<not> before now (it_UpdatedAt it) \<and> after deadline now \<and>
       \<not> after deadline (it_Deadline it) \<and>
       (dir = Forward \<and> \<not> it_ForwardRevoked it \<and> it_Cleanup it = CleanupNone \<or>
        dir = Recovery \<and> (it_Cleanup it = CleanupRequired \<or> it_Cleanup it = CleanupStopped)) \<and>
       a = assigned_attempt it inp who attemptID dir now deadline \<and> attempt_ok u a \<and>
       it' = it\<lparr>it_Phase := Assigned, it_ActiveAttemptID := attemptID,
                it_AttemptNumber := it_AttemptNumber it + 1, it_UpdatedAt := now,
                it_Cleanup := if dir = Recovery then CleanupRunning else it_Cleanup it\<rparr>)"
  by (cases dir; cases "it_Input it")
    (auto simp: assign_def assigned_attempt_def Let_def try_res_unit)

lemma number_grows:
  assumes "n \<noteq> - 1"
  shows "n < n + (1 :: u64)" "n + (1 :: u64) \<noteq> 0"
proof -
  from assms have "n < - 1" using word_order.not_eq_extremum by blast
  then have "uint n < uint (- 1 :: u64)" by (simp add: word_less_def)
  then have "uint n + 1 < 2 ^ 64" by (simp add: unsigned_minus_1_eq_mask mask_eq_exp_minus_1)
  then have "uint (n + 1) = uint n + 1" by (simp add: uint_word_ariths)
  moreover have "0 \<le> uint n" by simp
  ultimately have "uint n < uint (n + 1)" "uint (n + 1) \<noteq> 0" by linarith+
  then show "n < n + 1" "n + 1 \<noteq> 0" by (auto simp: word_less_def)
qed

lemma item_okI:
  assumes "item_ok u it" "item_static_ok u it' = item_static_ok u it"
    "item_times_ok it \<Longrightarrow> item_times_ok it'" "item_results_ok u it \<Longrightarrow> item_results_ok u it'"
    "item_state_ok u it'"
  shows "item_ok u it'"
  using assms by (simp add: item_ok_def)

text \<open>The outcome and cleanup part of \<open>item_state_ok\<close>.\<close>

definition outcome_cleanup_ok :: "item \<Rightarrow> bool" where
  "outcome_cleanup_ok it \<longleftrightarrow>
     (it_Outcome it = NoOutcome \<or> valid_outcome (it_Outcome it)) \<and> valid_cleanup (it_Cleanup it) \<and>
     (it_Cleanup it \<noteq> CleanupNone \<longrightarrow> it_Outcome it \<noteq> NoOutcome \<and> it_Outcome it \<noteq> Succeeded)"

lemma item_state_outcome: "item_ok u it \<Longrightarrow> outcome_cleanup_ok it"
  by (simp add: item_ok_def item_state_ok_def outcome_cleanup_ok_def)

lemma item_state_by_phase:
  "it_Phase it = Waiting \<Longrightarrow> item_state_ok u it \<longleftrightarrow> outcome_cleanup_ok it \<and> it_ActiveAttemptID it = [] \<and>
     it_Wait it \<noteq> None \<and> opt_all (\<lambda>w. wait_validate u w = Inr ()) (it_Wait it)"
  "it_Phase it = Ready \<Longrightarrow> item_state_ok u it \<longleftrightarrow> outcome_cleanup_ok it \<and> it_ActiveAttemptID it = [] \<and>
     it_Wait it = None \<and> it_Input it \<noteq> None"
  "it_Phase it = Assigned \<or> it_Phase it = Running \<Longrightarrow> item_state_ok u it \<longleftrightarrow> outcome_cleanup_ok it \<and>
     id_valid u KindAttempt (it_ActiveAttemptID it) \<and> it_AttemptNumber it \<noteq> 0 \<and>
     it_Wait it = None \<and> it_Input it \<noteq> None"
  "it_Phase it = Attention \<Longrightarrow> item_state_ok u it \<longleftrightarrow> outcome_cleanup_ok it \<and> it_ActiveAttemptID it = [] \<and>
     it_Wait it = None \<and> it_Input it \<noteq> None"
  "it_Phase it = Settled \<Longrightarrow> item_state_ok u it \<longleftrightarrow> outcome_cleanup_ok it \<and> it_ActiveAttemptID it = [] \<and>
     it_Wait it = None \<and> it_Outcome it \<noteq> NoOutcome \<and>
     (it_Cleanup it = CleanupNone \<or> it_Cleanup it = CleanupComplete)"
proof -
  note defs = item_state_ok_def outcome_cleanup_ok_def validate_item_phase_def
  show "it_Phase it = Waiting \<Longrightarrow> item_state_ok u it \<longleftrightarrow> outcome_cleanup_ok it \<and> it_ActiveAttemptID it = [] \<and>
     it_Wait it \<noteq> None \<and> opt_all (\<lambda>w. wait_validate u w = Inr ()) (it_Wait it)"
    by (cases "it_Wait it") (simp_all add: defs)
  show "it_Phase it = Ready \<Longrightarrow> item_state_ok u it \<longleftrightarrow> outcome_cleanup_ok it \<and> it_ActiveAttemptID it = [] \<and>
     it_Wait it = None \<and> it_Input it \<noteq> None"
    by (simp add: defs) satx
  show "it_Phase it = Attention \<Longrightarrow> item_state_ok u it \<longleftrightarrow> outcome_cleanup_ok it \<and> it_ActiveAttemptID it = [] \<and>
     it_Wait it = None \<and> it_Input it \<noteq> None"
    by (simp add: defs) satx
  show "it_Phase it = Settled \<Longrightarrow> item_state_ok u it \<longleftrightarrow> outcome_cleanup_ok it \<and> it_ActiveAttemptID it = [] \<and>
     it_Wait it = None \<and> it_Outcome it \<noteq> NoOutcome \<and>
     (it_Cleanup it = CleanupNone \<or> it_Cleanup it = CleanupComplete)"
    by (simp add: defs)
  assume "it_Phase it = Assigned \<or> it_Phase it = Running"
  then show "item_state_ok u it \<longleftrightarrow> outcome_cleanup_ok it \<and>
     id_valid u KindAttempt (it_ActiveAttemptID it) \<and> it_AttemptNumber it \<noteq> 0 \<and>
     it_Wait it = None \<and> it_Input it \<noteq> None"
    by (elim disjE) (simp_all add: defs, satx+)
qed


lemma assign_keeps_ok:
  assumes "assign u it who attemptID dir now deadline = Inr (it', a)"
  shows "item_ok u it'" "attempt_ok u a"
proof -
  from assms have ok: "item_ok u it" and n: "it_AttemptNumber it \<noteq> - 1" and inp: "it_Input it \<noteq> None"
    and ready: "it_Phase it = Ready" and time: "\<not> before now (it_UpdatedAt it)" and a: "attempt_ok u a"
    and att: "at_ID a = attemptID" "at_AssignedAt a = now"
    and dir: "dir = Recovery \<Longrightarrow> it_Cleanup it \<noteq> CleanupNone"
    and it': "it' = it\<lparr>it_Phase := Assigned, it_ActiveAttemptID := attemptID,
        it_AttemptNumber := it_AttemptNumber it + 1, it_UpdatedAt := now,
        it_Cleanup := if dir = Recovery then CleanupRunning else it_Cleanup it\<rparr>"
    by (auto simp: assign_Inr assigned_attempt_def)
  show "attempt_ok u a" by (rule a)
  show "item_ok u it'"
  proof (rule item_okI[OF ok])
    show "item_times_ok it \<Longrightarrow> item_times_ok it'"
      using a att time by (simp add: it' item_times_ok_def attempt_ok_def before_def after_def)
    show "item_results_ok u it \<Longrightarrow> item_results_ok u it'"
      using number_grows(1)[OF n] by (auto simp: it' item_results_ok_def)
    have "outcome_cleanup_ok it'" using item_state_outcome[OF ok] dir by (auto simp: it' outcome_cleanup_ok_def)
    moreover have "it_Wait it = None" using ok ready by (simp add: item_ok_def item_state_by_phase)
    ultimately show "item_state_ok u it'"
      using a att inp number_grows(2)[OF n] by (simp add: it' item_state_by_phase attempt_ok_def)
  qed (simp add: it')
qed

lemma start_Inr:
  "start u it a now = Inr (it', a') \<longleftrightarrow> match_active u it a = Inr () \<and>
     (if at_StartedAt a \<noteq> None then it' = it \<and> a' = a
      else it_Phase it = Assigned \<and> \<not> before now (it_UpdatedAt it) \<and> before now (at_Deadline a) \<and>
        \<not> (at_Direction a = Forward \<and> it_ForwardRevoked it) \<and>
        it' = it\<lparr>it_Phase := Running, it_UpdatedAt := now\<rparr> \<and> a' = a\<lparr>at_StartedAt := Some now\<rparr>)"
  by (auto simp: start_def try_res_unit)

lemma start_keeps_ok:
  assumes "start u it a now = Inr (it', a')" "valid_time now" "\<not> before (it_UpdatedAt it) (at_AssignedAt a)"
  shows "item_ok u it'" "attempt_ok u a'"
proof -
  from assms have m: "item_ok u it" "attempt_ok u a" by (simp_all add: start_Inr match_active_ok)
  show "item_ok u it'"
  proof (cases "at_StartedAt a = None")
    case True
    with assms have r: "it_Phase it = Assigned" "\<not> before now (it_UpdatedAt it)"
      "it' = it\<lparr>it_Phase := Running, it_UpdatedAt := now\<rparr>" by (simp_all add: start_Inr)
    show ?thesis
    proof (rule item_okI[OF m(1)])
      show "item_state_ok u it'"
        using m(1) r by (simp add: item_ok_def item_state_by_phase outcome_cleanup_ok_def)
    qed (use r assms(2) in \<open>simp_all add: item_times_ok_def item_results_ok_def before_def\<close>)
  next
    case False
    with assms m show ?thesis by (simp add: start_Inr)
  qed
  show "attempt_ok u a'"
    using assms m(2)
    by (cases "at_StartedAt a") (simp_all add: start_Inr match_active_ok attempt_ok_def before_def)
qed

text \<open>The guarded results of the remaining transitions.\<close>

lemma finish_Inr:
  "finish u it a c now = Inr (it', a') \<longleftrightarrow>
     match_active u it a = Inr () \<and> valid_outcome (co_Outcome c) \<and> \<not> before now (it_UpdatedAt it) \<and>
     (co_Outcome c = Succeeded \<longrightarrow> co_EffectsSettled c \<and> at_StartedAt a \<noteq> None) \<and>
     input_ok u (co_Evidence c) \<and>
     it' = finish_item (it\<lparr>it_ActiveAttemptID := [], it_UpdatedAt := now\<rparr>) a c \<and>
     a' = a\<lparr>at_FinishedAt := Some now, at_Outcome := co_Outcome c, at_Result := Some (co_Evidence c)\<rparr> \<and>
     item_ok u it' \<and> attempt_ok u a'"
  by (auto simp: finish_def Let_def try_res_unit)

lemma revoke_forward_Inr:
  "revoke_forward u it x now = Inr it' \<longleftrightarrow>
     item_ok u it \<and> (x = Cancelled \<or> x = Superseded) \<and> \<not> before now (it_UpdatedAt it) \<and>
     (if it_Phase it = Settled then it' = it
      else if it_ActiveAttemptID it = [] \<and> it_Cleanup it = CleanupNone
        then it' = it\<lparr>it_ForwardRevoked := True, it_UpdatedAt := now, it_Phase := Settled,
                     it_Outcome := x, it_Wait := None\<rparr>
      else it' = it\<lparr>it_ForwardRevoked := True, it_UpdatedAt := now\<rparr>)"
  by (auto simp: revoke_forward_def Let_def try_res_unit)

lemma prepare_input_Inr:
  "prepare_input u it inp now = Inr it' \<longleftrightarrow>
     item_ok u it \<and> input_ok u inp \<and> it_Phase it = Waiting \<and> \<not> it_ForwardRevoked it \<and>
     it_AttemptNumber it = 0 \<and> \<not> before now (it_UpdatedAt it) \<and> before now (it_Deadline it) \<and>
     (it_Input it = None \<or> it_Input it = Some inp) \<and>
     it' = it\<lparr>it_Input := Some inp, it_Phase := Ready, it_Wait := None, it_UpdatedAt := now\<rparr>"
  by (auto simp: prepare_input_def try_res_unit)

text \<open>The item a retry starts from: a forward retry clears the failed result, a recovery keeps it.\<close>

definition retry_base :: "item \<Rightarrow> direction \<Rightarrow> item" where
  "retry_base it dir =
     (if dir = Forward then it\<lparr>it_Cleanup := CleanupNone, it_Outcome := NoOutcome, it_Result := None,
                              it_CleanupResult := None\<rparr> else it)"

definition retry_wait :: "retry_decision \<Rightarrow> wait" where
  "retry_wait d = \<lparr>wt_Reason = WaitRetry, wt_WorkItemID = [], wt_TaskID = [], wt_Until = Some (rd_NotBefore d)\<rparr>"

lemma retry_Inr:
  "retry u it p d now = Inr it' \<longleftrightarrow>
     item_ok u it \<and> attempt_ok u p \<and> input_ok u (rd_Result d) \<and>
     at_WorkItemID p = it_ID it \<and> at_TaskID p = it_TaskID it \<and> at_Number p = it_AttemptNumber it \<and>
     at_FinishedAt p \<noteq> None \<and> at_Result p = Some (rd_Result d) \<and> it_ActiveAttemptID it = [] \<and>
     it_Input it = Some (at_Input p) \<and> \<not> before now (it_UpdatedAt it) \<and> valid_time now \<and>
     valid_time (rd_NotBefore d) \<and> valid_time (rd_Deadline d) \<and> \<not> before (rd_NotBefore d) now \<and>
     after (rd_Deadline d) (rd_NotBefore d) \<and>
     (rd_Direction d = Forward \<and> it_Phase it = Settled \<and> it_Outcome it = Failed \<and>
        \<not> it_ForwardRevoked it \<and> (it_Cleanup it = CleanupNone \<or> it_Cleanup it = CleanupComplete) \<or>
      rd_Direction d = Recovery \<and> it_Phase it = Attention \<and>
        (it_Cleanup it = CleanupRequired \<or> it_Cleanup it = CleanupStopped)) \<and>
     it' = (let next = retry_base it (rd_Direction d)\<lparr>it_Deadline := rd_Deadline d, it_UpdatedAt := now\<rparr>
            in if after (rd_NotBefore d) now
               then next\<lparr>it_Phase := Waiting, it_Wait := Some (retry_wait d)\<rparr>
               else next\<lparr>it_Phase := Ready, it_Wait := None\<rparr>)"
  by (cases "rd_Direction d") (simp_all add: retry_def retry_base_def retry_wait_def Let_def try_res_unit, blast+)

lemma release_retry_wait_Inr:
  "release_retry_wait u it now = Inr it' \<longleftrightarrow>
     item_ok u it \<and> it_Phase it = Waiting \<and>
     (\<exists>w t. it_Wait it = Some w \<and> wt_Reason w = WaitRetry \<and> wt_Until w = Some t \<and> \<not> before now t) \<and>
     \<not> before now (it_UpdatedAt it) \<and> before now (it_Deadline it) \<and>
     \<not> (it_ForwardRevoked it \<and> it_Cleanup it = CleanupNone) \<and>
     it' = it\<lparr>it_Phase := Ready, it_Wait := None, it_UpdatedAt := now\<rparr>"
  by (auto simp: release_retry_wait_def try_res_unit split: option.splits)

lemma expire_cleanup_retry_Inr:
  "expire_cleanup_retry u it now = Inr it' \<longleftrightarrow>
     item_ok u it \<and> valid_time now \<and> \<not> before now (it_UpdatedAt it) \<and> \<not> before now (it_Deadline it) \<and>
     it_ActiveAttemptID it = [] \<and> it_AttemptNumber it \<noteq> 0 \<and> (it_Phase it = Ready \<or> it_Phase it = Waiting) \<and>
     (it_Cleanup it = CleanupRequired \<or> it_Cleanup it = CleanupStopped) \<and>
     it' = it\<lparr>it_Phase := Attention, it_Cleanup := CleanupStopped, it_Wait := None, it_UpdatedAt := now\<rparr> \<and>
     item_ok u it'"
  by (simp add: expire_cleanup_retry_def Let_def try_res_unit) blast

text \<open>The item both settlements without an execution produce, but for the first failure.\<close>

definition settled_item :: "item \<Rightarrow> completion \<Rightarrow> gotime \<Rightarrow> item" where
  "settled_item it c now =
     it\<lparr>it_Phase := Settled, it_Outcome := co_Outcome c, it_Wait := None, it_UpdatedAt := now,
        it_Result := Some (co_Evidence c),
        it_ForwardRevoked := it_ForwardRevoked it \<or> co_Outcome c = Cancelled \<or> co_Outcome c = Superseded\<rparr>"

lemma settle_unstarted_Inr:
  "settle_unstarted u it c now = Inr it' \<longleftrightarrow>
     item_ok u it \<and> input_ok u (co_Evidence c) \<and> it_AttemptNumber it = 0 \<and> it_ActiveAttemptID it = [] \<and>
     (it_Phase it = Ready \<or> it_Phase it = Waiting) \<and> it_Cleanup it = CleanupNone \<and>
     valid_outcome (co_Outcome c) \<and> co_EffectsSettled c \<and> \<not> before now (it_UpdatedAt it) \<and>
     it' = (if co_Outcome c = Failed \<and> it_FirstFailure it = None
            then settled_item it c now\<lparr>it_FirstFailure := Some (co_Evidence c)\<rparr>
            else settled_item it c now) \<and>
     item_ok u it'"
  by (cases "co_Outcome c"; cases "it_FirstFailure it")
    (simp_all add: settle_unstarted_def settled_item_def Let_def try_res_unit, (blast | auto)+)

lemma settle_queued_retry_Inr:
  "settle_queued_retry u it c now = Inr it' \<longleftrightarrow>
     item_ok u it \<and> input_ok u (co_Evidence c) \<and> valid_time now \<and> \<not> before now (it_UpdatedAt it) \<and>
     it_AttemptNumber it \<noteq> 0 \<and> it_ActiveAttemptID it = [] \<and> it_FirstFailure it \<noteq> None \<and>
     it_Cleanup it = CleanupNone \<and> it_Outcome it = NoOutcome \<and> it_Result it = None \<and>
     (it_Phase it = Ready \<or> it_Phase it = Waiting \<and> (\<exists>w. it_Wait it = Some w \<and> wt_Reason w = WaitRetry)) \<and>
     co_EffectsSettled c \<and> (co_Outcome c = Failed \<or> co_Outcome c = Cancelled \<or> co_Outcome c = Superseded) \<and>
     it' = settled_item it c now \<and> item_ok u it'"
  by (cases "co_Outcome c"; cases "it_Wait it")
    (simp_all add: settle_queued_retry_def settled_item_def Let_def try_res_unit, (blast | auto)+)

lemma retry_unstarted_Inr:
  "retry_unstarted u it deadline now = Inr it' \<longleftrightarrow>
     item_ok u it \<and> it_AttemptNumber it = 0 \<and> it_ActiveAttemptID it = [] \<and> it_Input it \<noteq> None \<and>
     it_Result it \<noteq> None \<and> it_Phase it = Settled \<and> it_Outcome it = Failed \<and> it_Cleanup it = CleanupNone \<and>
     \<not> it_ForwardRevoked it \<and> valid_time now \<and> valid_time deadline \<and> \<not> before now (it_UpdatedAt it) \<and>
     after deadline now \<and>
     it' = it\<lparr>it_Phase := Ready, it_Outcome := NoOutcome, it_Result := None, it_Wait := None,
              it_Deadline := deadline, it_UpdatedAt := now\<rparr> \<and> item_ok u it'"
  by (simp add: retry_unstarted_def Let_def try_res_unit) blast

lemma renew_unstarted_deadline_Inr:
  "renew_unstarted_deadline u it deadline now = Inr it' \<longleftrightarrow>
     item_ok u it \<and> it_AttemptNumber it = 0 \<and> it_ActiveAttemptID it = [] \<and> it_Input it \<noteq> None \<and>
     it_Result it = None \<and> (it_Phase it = Ready \<or> it_Phase it = Waiting) \<and> it_Cleanup it = CleanupNone \<and>
     \<not> it_ForwardRevoked it \<and> valid_time now \<and> valid_time deadline \<and> \<not> before now (it_UpdatedAt it) \<and>
     after deadline now \<and> after deadline (it_Deadline it) \<and>
     it' = it\<lparr>it_Deadline := deadline, it_UpdatedAt := now\<rparr> \<and> item_ok u it'"
  by (simp add: renew_unstarted_deadline_def Let_def try_res_unit) blast

text \<open>Validity after the transitions whose code does not validate its own result.\<close>

lemma revoke_forward_keeps_ok:
  assumes "revoke_forward u it x now = Inr it'" "valid_time now"
  shows "item_ok u it'"
proof -
  from assms have ok: "item_ok u it" and x: "x = Cancelled \<or> x = Superseded"
    and time: "\<not> before now (it_UpdatedAt it)" by (simp_all add: revoke_forward_Inr)
  consider "it' = it" |
    "it_ActiveAttemptID it = []" "it_Cleanup it = CleanupNone"
    "it' = it\<lparr>it_ForwardRevoked := True, it_UpdatedAt := now, it_Phase := Settled, it_Outcome := x, it_Wait := None\<rparr>" |
    "it' = it\<lparr>it_ForwardRevoked := True, it_UpdatedAt := now\<rparr>"
    using assms(1) unfolding revoke_forward_Inr by presburger
  then show ?thesis
  proof cases
    case 1
    with ok show ?thesis by simp
  next
    case 2
    show ?thesis
    proof (rule item_okI[OF ok])
      show "item_state_ok u it'" using 2 x by (auto simp: item_state_by_phase outcome_cleanup_ok_def)
    qed (use 2 time assms(2) in \<open>simp_all add: item_times_ok_def item_results_ok_def before_def\<close>)
  next
    case 3
    show ?thesis
    proof (rule item_okI[OF ok])
      show "item_state_ok u it'" using 3 ok by (simp add: item_ok_def)
    qed (use 3 time assms(2) in \<open>simp_all add: item_times_ok_def item_results_ok_def before_def\<close>)
  qed
qed

lemma prepare_input_keeps_ok:
  assumes "prepare_input u it inp now = Inr it'" "valid_time now"
  shows "item_ok u it'"
proof -
  from assms have ok: "item_ok u it" and r: "input_ok u inp" "it_Phase it = Waiting" "\<not> before now (it_UpdatedAt it)"
    "it' = it\<lparr>it_Input := Some inp, it_Phase := Ready, it_Wait := None, it_UpdatedAt := now\<rparr>"
    by (simp_all add: prepare_input_Inr)
  show ?thesis
  proof (rule item_okI[OF ok])
    show "item_state_ok u it'"
      using r ok by (simp add: item_ok_def item_state_by_phase outcome_cleanup_ok_def)
  qed (use r assms(2) in \<open>simp_all add: item_times_ok_def item_results_ok_def before_def\<close>)
qed

lemma release_retry_wait_keeps_ok_iff:
  assumes "release_retry_wait u it now = Inr it'" "valid_time now"
  shows "item_ok u it' \<longleftrightarrow> it_Input it \<noteq> None"
proof -
  from assms have ok: "item_ok u it" and r: "it_Phase it = Waiting" "\<not> before now (it_UpdatedAt it)"
    "it' = it\<lparr>it_Phase := Ready, it_Wait := None, it_UpdatedAt := now\<rparr>"
    by (auto simp: release_retry_wait_Inr)
  have st: "item_state_ok u it' \<longleftrightarrow> it_Input it \<noteq> None"
    using r ok by (simp add: item_ok_def item_state_by_phase outcome_cleanup_ok_def)
  moreover have "item_ok u it'" if "item_state_ok u it'"
    by (rule item_okI[OF ok])
      (use r assms(2) that in \<open>simp_all add: item_times_ok_def item_results_ok_def before_def\<close>)
  ultimately show ?thesis by (auto simp: item_ok_def)
qed

lemma retry_keeps_ok:
  assumes "retry u it p d now = Inr it'"
  shows "item_ok u it'"
proof -
  let ?next = "retry_base it (rd_Direction d)\<lparr>it_Deadline := rd_Deadline d, it_UpdatedAt := now\<rparr>"
  from assms have ok: "item_ok u it" and inp: "it_Input it \<noteq> None" "it_ActiveAttemptID it = []"
    and times: "\<not> before now (it_UpdatedAt it)" "valid_time now" "valid_time (rd_NotBefore d)"
      "valid_time (rd_Deadline d)" "\<not> before (rd_NotBefore d) now" "after (rd_Deadline d) (rd_NotBefore d)"
    and it': "it' = (if after (rd_NotBefore d) now
        then ?next\<lparr>it_Phase := Waiting, it_Wait := Some (retry_wait d)\<rparr>
        else ?next\<lparr>it_Phase := Ready, it_Wait := None\<rparr>)"
    by (simp_all add: retry_Inr Let_def)
  have w: "wait_validate u (retry_wait d) = Inr ()" using times by (simp add: wait_validate_def retry_wait_def)
  have oc: "outcome_cleanup_ok ?next" using item_state_outcome[OF ok]
    by (simp add: retry_base_def outcome_cleanup_ok_def)
  show ?thesis
  proof (rule item_okI[OF ok])
    show "item_state_ok u it'"
    proof (cases "after (rd_NotBefore d) now")
      case True
      with it' w oc inp show ?thesis by (simp add: item_state_by_phase outcome_cleanup_ok_def retry_base_def)
    next
      case False
      with it' oc inp show ?thesis by (simp add: item_state_by_phase outcome_cleanup_ok_def retry_base_def)
    qed
  qed (use it' times in \<open>simp_all add: retry_base_def item_times_ok_def item_results_ok_def before_def after_def\<close>)
qed

end
