(* ===== verification/WorkLifecycle.thy ===== *)
theory WorkLifecycle
  imports WorkTransitions
begin

text \<open>
  The life of one work item with the history of its attempts, as a step relation over the
  transitions of \<open>WorkTransitions\<close>, its invariant, and what follows for every reachable state.
  A state pairs the item with the list of its attempts in order of creation; the store writes
  both in one transaction, so a step is one successful transition at a valid time.
\<close>

section \<open>Steps\<close>

type_synonym work_state = "item \<times> attempt list"

text \<open>
  What the publication of a Task accepts as a new item (the checks of \<open>CountPublication\<close>; a new
  item is not revoked and does not wait for a retry).
\<close>

definition initial_work :: "ulid_check \<Rightarrow> item \<Rightarrow> bool" where
  "initial_work u it \<longleftrightarrow>
     item_ok u it \<and> it_AttemptNumber it = 0 \<and> it_Outcome it = NoOutcome \<and>
     it_Cleanup it = CleanupNone \<and> (it_Phase it = Waiting \<or> it_Phase it = Ready) \<and>
     \<not> it_ForwardRevoked it \<and> opt_all (\<lambda>w. wt_Reason w \<noteq> WaitRetry) (it_Wait it)"

inductive work_step :: "ulid_check \<Rightarrow> work_state \<Rightarrow> work_state \<Rightarrow> bool" for u where
  step_assign: "assign u it who aid dir now deadline = Inr (it', a) \<Longrightarrow>
     work_step u (it, as) (it', as @ [a])"
| step_start: "\<lbrakk>i < length as; start u it (as ! i) now = Inr (it', a); valid_time now\<rbrakk> \<Longrightarrow>
     work_step u (it, as) (it', as[i := a])"
| step_finish: "\<lbrakk>i < length as; finish u it (as ! i) c now = Inr (it', a)\<rbrakk> \<Longrightarrow>
     work_step u (it, as) (it', as[i := a])"
| step_revoke: "\<lbrakk>revoke_forward u it x now = Inr it'; valid_time now\<rbrakk> \<Longrightarrow> work_step u (it, as) (it', as)"
| step_prepare: "\<lbrakk>prepare_input u it inp now = Inr it'; valid_time now\<rbrakk> \<Longrightarrow> work_step u (it, as) (it', as)"
| step_retry: "\<lbrakk>p \<in> set as; retry u it p d now = Inr it'\<rbrakk> \<Longrightarrow> work_step u (it, as) (it', as)"
| step_release: "\<lbrakk>release_retry_wait u it now = Inr it'; valid_time now\<rbrakk> \<Longrightarrow> work_step u (it, as) (it', as)"
| step_expire: "expire_cleanup_retry u it now = Inr it' \<Longrightarrow> work_step u (it, as) (it', as)"
| step_settle_unstarted: "settle_unstarted u it c now = Inr it' \<Longrightarrow> work_step u (it, as) (it', as)"
| step_settle_queued: "settle_queued_retry u it c now = Inr it' \<Longrightarrow> work_step u (it, as) (it', as)"
| step_retry_unstarted: "retry_unstarted u it deadline now = Inr it' \<Longrightarrow> work_step u (it, as) (it', as)"
| step_renew: "renew_unstarted_deadline u it deadline now = Inr it' \<Longrightarrow> work_step u (it, as) (it', as)"

inductive_cases work_stepE: "work_step u (it, as) (it', as')"

inductive work_reachable :: "ulid_check \<Rightarrow> work_state \<Rightarrow> bool" for u where
  reach_initial: "initial_work u it \<Longrightarrow> work_reachable u (it, [])"
| reach_step: "\<lbrakk>work_reachable u s; work_step u s s'\<rbrakk> \<Longrightarrow> work_reachable u s'"

section \<open>The invariant\<close>

text \<open>One attempt of the history: it belongs to the item, its captured input and its executor.\<close>

definition attempt_of :: "ulid_check \<Rightarrow> item \<Rightarrow> attempt \<Rightarrow> bool" where
  "attempt_of u it a \<longleftrightarrow>
     attempt_ok u a \<and> at_WorkItemID a = it_ID it \<and> at_TaskID a = it_TaskID it \<and>
     it_Input it = Some (at_Input a) \<and> idn_Executor (at_Executor a) = pl_Executor (it_Placement it) \<and>
     idn_HostID (at_Executor a) = pl_HostID (it_Placement it) \<and>
     \<not> before (at_AssignedAt a) (it_CreatedAt it)"

text \<open>The history: numbered from 1 without a gap, all but the last attempt finished.\<close>

definition history_inv :: "ulid_check \<Rightarrow> work_state \<Rightarrow> bool" where
  "history_inv u s \<longleftrightarrow> (case s of (it, as) \<Rightarrow>
     unat (it_AttemptNumber it) = length as \<and>
     (\<forall>i < length as. unat (at_Number (as ! i)) = Suc i) \<and>
     (\<forall>a \<in> set as. attempt_of u it a) \<and>
     (\<forall>a \<in> set (butlast as). at_FinishedAt a \<noteq> None))"

text \<open>The active attempt, or that no attempt is active.\<close>

definition active_inv :: "work_state \<Rightarrow> bool" where
  "active_inv s \<longleftrightarrow> (case s of (it, as) \<Rightarrow>
     if it_ActiveAttemptID it = [] then as = [] \<or> at_FinishedAt (last as) \<noteq> None
     else as \<noteq> [] \<and>
       (let a = last as in
          at_ID a = it_ActiveAttemptID it \<and> at_FinishedAt a = None \<and>
          (at_StartedAt a = None \<longleftrightarrow> it_Phase it = Assigned) \<and>
          \<not> before (it_UpdatedAt it) (at_AssignedAt a) \<and>
          opt_all (\<lambda>s. \<not> before (it_UpdatedAt it) s) (at_StartedAt a) \<and>
          \<not> after (at_Deadline a) (it_Deadline it) \<and>
          it_Cleanup it = (if at_Direction a = Recovery then CleanupRunning else CleanupNone)))"

text \<open>The item while no attempt is active.\<close>

definition idle_inv :: "item \<Rightarrow> bool" where
  "idle_inv it \<longleftrightarrow>
     (it_AttemptNumber it \<noteq> 0 \<longrightarrow> it_Input it \<noteq> None) \<and>
     (it_Cleanup it \<noteq> CleanupNone \<longrightarrow> it_AttemptNumber it \<noteq> 0) \<and>
     (it_Outcome it = Failed \<longrightarrow> it_FirstFailure it \<noteq> None) \<and>
     (it_Phase it = Attention \<longrightarrow> it_Cleanup it = CleanupRequired \<or> it_Cleanup it = CleanupStopped) \<and>
     (it_Phase it = Waiting \<or> it_Phase it = Ready \<longrightarrow>
        (if it_Cleanup it = CleanupNone then
           it_Outcome it = NoOutcome \<and> \<not> it_ForwardRevoked it \<and>
           (it_AttemptNumber it \<noteq> 0 \<longrightarrow> it_FirstFailure it \<noteq> None \<and> it_Result it = None)
         else it_Cleanup it = CleanupRequired \<or> it_Cleanup it = CleanupStopped)) \<and>
     (it_Phase it = Waiting \<longrightarrow>
        opt_all (\<lambda>w. wt_Reason w = WaitRetry \<longleftrightarrow> it_AttemptNumber it \<noteq> 0) (it_Wait it))"

definition work_inv :: "ulid_check \<Rightarrow> work_state \<Rightarrow> bool" where
  "work_inv u s \<longleftrightarrow> item_ok u (fst s) \<and> history_inv u s \<and> active_inv s \<and> idle_inv (fst s)"

lemma initial_work_inv: "initial_work u it \<Longrightarrow> work_inv u (it, [])"
  by (cases "it_Wait it")
    (auto simp: initial_work_def work_inv_def history_inv_def active_inv_def idle_inv_def
      item_ok_def item_state_by_phase)

text \<open>Transitions that leave the history alone keep it when they keep what it refers to.\<close>

definition same_owner :: "item \<Rightarrow> item \<Rightarrow> bool" where
  "same_owner it it' \<longleftrightarrow>
     it_ID it' = it_ID it \<and> it_TaskID it' = it_TaskID it \<and> it_Placement it' = it_Placement it \<and>
     it_CreatedAt it' = it_CreatedAt it"

lemma history_inv_keep:
  assumes "history_inv u (it, as)" "same_owner it it'" "it_AttemptNumber it' = it_AttemptNumber it"
    "as \<noteq> [] \<Longrightarrow> it_Input it' = it_Input it"
  shows "history_inv u (it', as)"
proof (cases "as = []")
  case True
  with assms show ?thesis by (simp add: history_inv_def)
next
  case False
  with assms have "attempt_of u it' a = attempt_of u it a" for a by (simp add: attempt_of_def same_owner_def)
  with assms show ?thesis by (simp add: history_inv_def)
qed

lemma inactive_keep:
  assumes "active_inv (it, as)" "it_ActiveAttemptID it = []" "it_ActiveAttemptID it' = []"
  shows "active_inv (it', as)"
  using assms by (simp add: active_inv_def)

lemma history_empty: "history_inv u (it, as) \<Longrightarrow> as = [] \<longleftrightarrow> it_AttemptNumber it = 0"
  by (auto simp: history_inv_def unat_eq_0)

lemma history_last_number:
  assumes "history_inv u (it, as)" "as \<noteq> []"
  shows "at_Number (last as) = it_AttemptNumber it"
proof -
  let ?n = "length as - 1"
  from assms(2) have n: "?n < length as" "Suc ?n = length as" by simp_all
  with assms(1) have "unat (at_Number (as ! ?n)) = length as" unfolding history_inv_def by auto
  moreover have "unat (it_AttemptNumber it) = length as" using assms(1) by (simp add: history_inv_def)
  ultimately have "unat (at_Number (last as)) = unat (it_AttemptNumber it)"
    using assms(2) by (simp add: last_conv_nth)
  then show ?thesis by (rule word_unat_eq_iff[THEN iffD2])
qed

text \<open>The attempt a transition names by its position is the last one.\<close>

lemma matched_is_last:
  assumes "work_inv u (it, as)" "i < length as" "match_active u it (as ! i) = Inr ()"
  shows "as ! i = last as" "i = length as - 1" "as \<noteq> []" "it_ActiveAttemptID it \<noteq> []"
proof -
  from assms(1) have h: "unat (it_AttemptNumber it) = length as" "unat (at_Number (as ! i)) = Suc i"
    using assms(2) by (simp_all add: work_inv_def history_inv_def)
  from assms(3) have m: "it_AttemptNumber it = at_Number (as ! i)" "it_ActiveAttemptID it = at_ID (as ! i)"
    "attempt_ok u (as ! i)" by (simp_all add: match_active_ok)
  from h m(1) have i: "length as = Suc i" by simp
  then show "as \<noteq> []" "i = length as - 1" by auto
  with i show "as ! i = last as" by (simp add: last_conv_nth)
  from m show "it_ActiveAttemptID it \<noteq> []" by (auto simp: attempt_ok_def)
qed

lemma active_last:
  assumes "active_inv (it, as)" "it_ActiveAttemptID it \<noteq> []"
  shows "as \<noteq> []" "at_ID (last as) = it_ActiveAttemptID it" "at_FinishedAt (last as) = None"
    "at_StartedAt (last as) = None \<longleftrightarrow> it_Phase it = Assigned"
    "\<not> before (it_UpdatedAt it) (at_AssignedAt (last as))"
    "opt_all (\<lambda>s. \<not> before (it_UpdatedAt it) s) (at_StartedAt (last as))"
    "\<not> after (at_Deadline (last as)) (it_Deadline it)"
    "it_Cleanup it = (if at_Direction (last as) = Recovery then CleanupRunning else CleanupNone)"
  using assms by (simp_all add: active_inv_def Let_def)

section \<open>Every step keeps the invariant\<close>

lemma assign_inv:
  assumes inv: "work_inv u (it, as)" and r: "assign u it who aid dir now deadline = Inr (it', a)"
  shows "work_inv u (it', as @ [a])"
proof -
  from assign_keeps_ok[OF r] have ok: "item_ok u it'" and aok: "attempt_ok u a" by simp_all
  from r obtain inp where g: "item_ok u it" "it_Input it = Some inp" "it_Phase it = Ready"
      "idn_Executor who = pl_Executor (it_Placement it)" "idn_HostID who = pl_HostID (it_Placement it)"
      "it_AttemptNumber it \<noteq> - 1" "\<not> before now (it_UpdatedAt it)" "\<not> after deadline (it_Deadline it)"
    and dir: "dir = Forward \<and> it_Cleanup it = CleanupNone \<or>
      dir = Recovery \<and> it_Cleanup it \<noteq> CleanupNone"
    and a: "a = assigned_attempt it inp who aid dir now deadline"
    and it': "it' = it\<lparr>it_Phase := Assigned, it_ActiveAttemptID := aid,
        it_AttemptNumber := it_AttemptNumber it + 1, it_UpdatedAt := now,
        it_Cleanup := if dir = Recovery then CleanupRunning else it_Cleanup it\<rparr>"
    by (auto simp: assign_Inr)
  from inv have h: "history_inv u (it, as)" and act: "active_inv (it, as)" and idle: "idle_inv it"
    by (simp_all add: work_inv_def)
  have inactive: "it_ActiveAttemptID it = []" using g(1,3) by (simp add: item_ok_def item_state_by_phase)
  have fin: "\<forall>b \<in> set as. at_FinishedAt b \<noteq> None"
  proof (cases as rule: rev_cases)
    case (snoc xs x)
    with act inactive h show ?thesis by (auto simp: active_inv_def history_inv_def)
  qed simp
  have n: "unat (it_AttemptNumber it + 1) = Suc (length as)"
  proof -
    have "it_AttemptNumber it + 1 \<noteq> 0" by (rule number_grows(2)[OF g(6)])
    then show ?thesis using h by (simp add: history_inv_def unatSuc add.commute)
  qed
  have created: "\<not> before now (it_CreatedAt it)"
    using g(1,7) by (simp add: item_ok_def item_times_ok_def before_def)
  have "history_inv u (it', as @ [a])"
  proof -
    have "attempt_of u it' a" using aok g created by (simp add: attempt_of_def it' a assigned_attempt_def)
    moreover have "attempt_of u it' b" if "b \<in> set as" for b
      using h that by (simp add: history_inv_def attempt_of_def it')
    ultimately show ?thesis
      using h n fin by (auto simp: history_inv_def nth_append it' a assigned_attempt_def less_Suc_eq)
  qed
  moreover have "active_inv (it', as @ [a])"
  proof -
    have "aid \<noteq> []" using aok by (auto simp: a assigned_attempt_def attempt_ok_def)
    then show ?thesis
      using g dir aok by (auto simp: active_inv_def it' a assigned_attempt_def attempt_ok_def before_def after_def)
  qed
  moreover have "idle_inv it'"
  proof -
    have "it_AttemptNumber it + 1 \<noteq> 0" by (rule number_grows(2)[OF g(6)])
    then show ?thesis using idle g(2) by (simp add: idle_inv_def it')
  qed
  ultimately show ?thesis using ok by (simp add: work_inv_def)
qed

text \<open>Replacing the last attempt of a history.\<close>

lemma update_last: "as \<noteq> [] \<Longrightarrow> as[length as - Suc 0 := a] = butlast as @ [a]"
  by (cases as rule: rev_cases) auto

lemma history_inv_update:
  assumes h: "history_inv u (it, as)" and ne: "as \<noteq> []"
    and a: "attempt_of u it a" "at_Number a = at_Number (last as)"
  shows "history_inv u (it, butlast as @ [a])"
proof -
  from ne obtain xs x where as: "as = xs @ [x]" by (cases as rule: rev_cases) auto
  from h have n: "unat (at_Number (as ! i)) = Suc i" if "i < length as" for i
    using that by (simp add: history_inv_def)
  have "unat (at_Number ((xs @ [a]) ! i)) = Suc i" if "i < Suc (length xs)" for i
    using n[of i] that a(2) by (cases "i = length xs") (simp_all add: as nth_append)
  with h a(1) show ?thesis by (auto simp: history_inv_def as)
qed

lemma start_inv:
  assumes inv: "work_inv u (it, as)" and i: "i < length as"
    and r: "start u it (as ! i) now = Inr (it', a)" and t: "valid_time now"
  shows "work_inv u (it', as[i := a])"
proof -
  from r have m: "match_active u it (as ! i) = Inr ()" by (simp add: start_Inr)
  note last = matched_is_last[OF inv i m]
  from inv have h: "history_inv u (it, as)" and act: "active_inv (it, as)" and idle: "idle_inv it"
    by (simp_all add: work_inv_def)
  note la = active_last(2-5,7,8)[OF act last(4)]
  have ok: "item_ok u it'" "attempt_ok u a"
    using start_keeps_ok[OF r t] la(4) last(1) by simp_all
  show ?thesis
  proof (cases "at_StartedAt (last as) = None")
    case False
    with r last(1) have "it' = it" "a = last as" by (simp_all add: start_Inr)
    with last inv show ?thesis by (simp add: update_last)
  next
    case True
    with r last(1) have g: "\<not> before now (it_UpdatedAt it)" "it_Phase it = Assigned"
      and it': "it' = it\<lparr>it_Phase := Running, it_UpdatedAt := now\<rparr>"
      and a: "a = (last as)\<lparr>at_StartedAt := Some now\<rparr>"
      by (simp_all add: start_Inr)
    have "attempt_of u it (last as)" using h last(3) by (simp add: history_inv_def)
    then have "attempt_of u it a" using ok(2) by (simp add: attempt_of_def a)
    then have "history_inv u (it, butlast as @ [a])"
      by (rule history_inv_update[OF h last(3)]) (simp add: a)
    then have "history_inv u (it', butlast as @ [a])"
      by (rule history_inv_keep) (simp_all add: it' same_owner_def)
    moreover have "active_inv (it', butlast as @ [a])"
      using la last(4) g by (simp add: active_inv_def it' a before_def)
    moreover have "idle_inv it'" using idle by (simp add: idle_inv_def it')
    ultimately show ?thesis using ok last by (simp add: work_inv_def update_last)
  qed
qed

lemma finish_inv:
  assumes inv: "work_inv u (it, as)" and i: "i < length as"
    and r: "finish u it (as ! i) c now = Inr (it', a)"
  shows "work_inv u (it', as[i := a])"
proof -
  from r have m: "match_active u it (as ! i) = Inr ()" by (simp add: finish_Inr)
  note last = matched_is_last[OF inv i m]
  from inv have h: "history_inv u (it, as)" and act: "active_inv (it, as)" and idle: "idle_inv it"
    by (simp_all add: work_inv_def)
  from r have it': "it' = finish_item (it\<lparr>it_ActiveAttemptID := [], it_UpdatedAt := now\<rparr>) (last as) c"
    and a: "a = (last as)\<lparr>at_FinishedAt := Some now, at_Outcome := co_Outcome c, at_Result := Some (co_Evidence c)\<rparr>"
    and ok: "item_ok u it'" "attempt_ok u a" unfolding finish_Inr last(1) by blast+
  have n: "it_AttemptNumber it \<noteq> 0" using history_empty[OF h] last(3) by simp
  have of: "attempt_of u it (last as)" using h last(3) by (simp add: history_inv_def)
  then have "attempt_of u it a" using ok(2) by (simp add: attempt_of_def a)
  then have "history_inv u (it, butlast as @ [a])"
    by (rule history_inv_update[OF h last(3)]) (simp add: a)
  then have "history_inv u (it', butlast as @ [a])"
    by (rule history_inv_keep) (simp_all add: it' finish_item_def same_owner_def Let_def)
  moreover have "active_inv (it', butlast as @ [a])"
    by (simp add: active_inv_def it' finish_item_def a Let_def)
  moreover have "idle_inv it'"
    using idle n of by (auto simp: idle_inv_def it' finish_item_def Let_def attempt_of_def)
  ultimately show ?thesis using ok last by (simp add: work_inv_def update_last)
qed

text \<open>The transitions without an active attempt share one argument.\<close>

lemma idle_step_inv:
  assumes inv: "work_inv u (it, as)" and ok: "item_ok u it'" and own: "same_owner it it'"
    and n: "it_AttemptNumber it' = it_AttemptNumber it"
    and inp: "it_AttemptNumber it \<noteq> 0 \<Longrightarrow> it_Input it' = it_Input it"
    and inactive: "it_ActiveAttemptID it = []" "it_ActiveAttemptID it' = []"
    and idle: "idle_inv it \<Longrightarrow> idle_inv it'"
  shows "work_inv u (it', as)"
proof -
  from inv have h: "history_inv u (it, as)" by (simp add: work_inv_def)
  have "history_inv u (it', as)"
    by (rule history_inv_keep[OF h own n]) (use inp history_empty[OF h] in simp)
  moreover have "active_inv (it', as)" 
    by (rule inactive_keep[of it as it']) (use inv inactive in \<open>simp_all add: work_inv_def\<close>)
  ultimately show ?thesis using ok idle inv by (simp add: work_inv_def)
qed

lemma ok_inactive:
  "item_ok u it \<Longrightarrow> it_Phase it \<noteq> Assigned \<Longrightarrow> it_Phase it \<noteq> Running \<Longrightarrow> it_ActiveAttemptID it = []"
  using item_ok_active by blast

lemma revoke_forward_cases:
  assumes "revoke_forward u it x now = Inr it'"
  obtains (settled) "it' = it" |
    (closed) "it_ActiveAttemptID it = []" "it_Cleanup it = CleanupNone" "x = Cancelled \<or> x = Superseded"
      "it' = it\<lparr>it_ForwardRevoked := True, it_UpdatedAt := now, it_Phase := Settled, it_Outcome := x, it_Wait := None\<rparr>" |
    (marked) "it_ActiveAttemptID it \<noteq> [] \<or> it_Cleanup it \<noteq> CleanupNone" "\<not> before now (it_UpdatedAt it)"
      "it' = it\<lparr>it_ForwardRevoked := True, it_UpdatedAt := now\<rparr>"
proof (cases "it_Phase it = Settled")
  case True
  with assms have "it' = it" by (simp add: revoke_forward_Inr)
  then show thesis by (rule settled)
next
  case False
  show thesis
  proof (cases "it_ActiveAttemptID it = [] \<and> it_Cleanup it = CleanupNone")
    case True
    with False assms show thesis by (intro closed) (simp_all add: revoke_forward_Inr)
  next
    case no: False
    with False assms show thesis by (intro marked) (auto simp: revoke_forward_Inr)
  qed
qed

lemma revoke_inv:
  assumes inv: "work_inv u (it, as)" and r: "revoke_forward u it x now = Inr it'" and t: "valid_time now"
  shows "work_inv u (it', as)"
proof -
  have ok': "item_ok u it'" by (rule revoke_forward_keeps_ok[OF r t])
  from inv have ok: "item_ok u it" and idle: "idle_inv it" by (simp_all add: work_inv_def)
  from r show ?thesis
  proof (cases rule: revoke_forward_cases)
    case settled
    with inv show ?thesis by simp
  next
    case closed
    have "idle_inv it'" using closed(3) idle by (auto simp: idle_inv_def closed(4))
    with closed show ?thesis
      by - (rule idle_step_inv[OF inv ok'], simp_all add: same_owner_def)
  next
    case marked
    have "history_inv u (it', as)"
      by (rule history_inv_keep[of u it]) (use inv in \<open>simp_all add: work_inv_def marked(3) same_owner_def\<close>)
    moreover have "active_inv (it', as)"
    proof (cases "it_ActiveAttemptID it = []")
      case True
      show ?thesis
        by (rule inactive_keep[of it as it']) (use inv True in \<open>simp_all add: work_inv_def marked(3)\<close>)
    next
      case False
      have act: "active_inv (it, as)" using inv by (simp add: work_inv_def)
      note la = active_last[OF act False]
      have "opt_all (\<lambda>s. \<not> before now s) (at_StartedAt (last as))"
        by (rule opt_all_mono[OF la(6)]) (use marked(2) in \<open>simp add: before_def\<close>)
      then show ?thesis using la False marked(2) by (simp add: active_inv_def marked(3) before_def)
    qed
    moreover have "idle_inv it'"
    proof (cases "it_Phase it = Waiting \<or> it_Phase it = Ready")
      case True
      with item_ok_active[OF ok] marked(1) have "it_Cleanup it \<noteq> CleanupNone" by auto
      with idle show ?thesis by (auto simp: idle_inv_def marked(3))
    next
      case False
      with idle show ?thesis by (simp add: idle_inv_def marked(3))
    qed
    ultimately show ?thesis using ok' by (simp add: work_inv_def)
  qed
qed

lemma prepare_inv:
  assumes inv: "work_inv u (it, as)" and r: "prepare_input u it inp now = Inr it'" and t: "valid_time now"
  shows "work_inv u (it', as)"
proof (rule idle_step_inv[OF inv prepare_input_keeps_ok[OF r t]])
  from r have g: "item_ok u it" "it_Phase it = Waiting" "it_AttemptNumber it = 0" "\<not> it_ForwardRevoked it"
    and it': "it' = it\<lparr>it_Input := Some inp, it_Phase := Ready, it_Wait := None, it_UpdatedAt := now\<rparr>"
    by (simp_all add: prepare_input_Inr)
  show "same_owner it it'" "it_AttemptNumber it' = it_AttemptNumber it"
    by (simp_all add: it' same_owner_def)
  show "it_ActiveAttemptID it = []" "it_ActiveAttemptID it' = []"
    using ok_inactive[OF g(1)] g(2) by (simp_all add: it')
  show "it_AttemptNumber it \<noteq> 0 \<Longrightarrow> it_Input it' = it_Input it" using g by simp
  show "idle_inv it \<Longrightarrow> idle_inv it'" using g by (simp add: idle_inv_def it')
qed

lemma release_inv:
  assumes inv: "work_inv u (it, as)" and r: "release_retry_wait u it now = Inr it'" and t: "valid_time now"
  shows "work_inv u (it', as)"
proof -
  from r obtain w where g: "item_ok u it" "it_Phase it = Waiting" "it_Wait it = Some w" "wt_Reason w = WaitRetry"
    and it': "it' = it\<lparr>it_Phase := Ready, it_Wait := None, it_UpdatedAt := now\<rparr>"
    by (auto simp: release_retry_wait_Inr)
  from inv have idle: "idle_inv it" by (simp add: work_inv_def)
  with g have "it_AttemptNumber it \<noteq> 0" by (simp add: idle_inv_def)
  with idle have "it_Input it \<noteq> None" by (simp add: idle_inv_def)
  then have ok: "item_ok u it'" using release_retry_wait_keeps_ok_iff[OF r t] by simp
  show ?thesis
    by (rule idle_step_inv[OF inv ok])
      (use ok_inactive[OF g(1)] g(2) in \<open>simp_all add: it' same_owner_def idle_inv_def\<close>)
qed

lemma retry_inv:
  assumes inv: "work_inv u (it, as)" and r: "retry u it p d now = Inr it'"
  shows "work_inv u (it', as)"
proof (rule idle_step_inv[OF inv retry_keeps_ok[OF r]])
  let ?next = "retry_base it (rd_Direction d)\<lparr>it_Deadline := rd_Deadline d, it_UpdatedAt := now\<rparr>"
  from r have p: "attempt_ok u p" "at_Number p = it_AttemptNumber it" and act: "it_ActiveAttemptID it = []"
    and dir: "rd_Direction d = Forward \<and> it_Outcome it = Failed \<and> \<not> it_ForwardRevoked it \<or>
      rd_Direction d = Recovery \<and> (it_Cleanup it = CleanupRequired \<or> it_Cleanup it = CleanupStopped)"
    and it': "it' = (if after (rd_NotBefore d) now
        then ?next\<lparr>it_Phase := Waiting, it_Wait := Some (retry_wait d)\<rparr>
        else ?next\<lparr>it_Phase := Ready, it_Wait := None\<rparr>)"
    unfolding retry_Inr Let_def by blast+
  have n: "it_AttemptNumber it \<noteq> 0" using p by (simp add: attempt_ok_def)
  show "same_owner it it'" "it_AttemptNumber it' = it_AttemptNumber it" "it_ActiveAttemptID it' = []"
    "it_Input it' = it_Input it"
    using act by (simp_all add: it' same_owner_def retry_base_def)
  show "it_ActiveAttemptID it = []" by (rule act)
  assume idle: "idle_inv it"
  show "idle_inv it'"
  proof (cases "rd_Direction d = Forward")
    case True
    with dir idle n show ?thesis by (simp add: idle_inv_def it' retry_base_def retry_wait_def)
  next
    case False
    with dir have "it_Cleanup it = CleanupRequired \<or> it_Cleanup it = CleanupStopped" by simp
    then have "it_Cleanup it \<noteq> CleanupNone" by auto
    with False \<open>it_Cleanup it = CleanupRequired \<or> it_Cleanup it = CleanupStopped\<close> idle n
    show ?thesis by (simp add: idle_inv_def it' retry_base_def retry_wait_def)
  qed
qed

lemma expire_inv:
  assumes inv: "work_inv u (it, as)" and r: "expire_cleanup_retry u it now = Inr it'"
  shows "work_inv u (it', as)"
proof -
  from r have g: "it_ActiveAttemptID it = []" "item_ok u it'"
    and it': "it' = it\<lparr>it_Phase := Attention, it_Cleanup := CleanupStopped, it_Wait := None, it_UpdatedAt := now\<rparr>"
    and n: "it_AttemptNumber it \<noteq> 0"
    unfolding expire_cleanup_retry_Inr by blast+
  show ?thesis
    by (rule idle_step_inv[OF inv g(2)]) (use g n in \<open>simp_all add: it' same_owner_def idle_inv_def\<close>)
qed

lemma settle_unstarted_inv:
  assumes inv: "work_inv u (it, as)" and r: "settle_unstarted u it c now = Inr it'"
  shows "work_inv u (it', as)"
proof -
  from r have g: "it_AttemptNumber it = 0" "it_ActiveAttemptID it = []" "it_Cleanup it = CleanupNone" "item_ok u it'"
    and it': "it' = (if co_Outcome c = Failed \<and> it_FirstFailure it = None
            then settled_item it c now\<lparr>it_FirstFailure := Some (co_Evidence c)\<rparr> else settled_item it c now)"
    unfolding settle_unstarted_Inr by blast+
  show ?thesis
    by (rule idle_step_inv[OF inv g(4)])
      (use g in \<open>auto simp: it' same_owner_def idle_inv_def settled_item_def\<close>)
qed

lemma settle_queued_inv:
  assumes inv: "work_inv u (it, as)" and r: "settle_queued_retry u it c now = Inr it'"
  shows "work_inv u (it', as)"
proof -
  from r have g: "it_ActiveAttemptID it = []" "it_Cleanup it = CleanupNone" "it_FirstFailure it \<noteq> None" "item_ok u it'"
    and it': "it' = settled_item it c now"
    unfolding settle_queued_retry_Inr by blast+
  show ?thesis
    by (rule idle_step_inv[OF inv g(4)]) (use g in \<open>simp_all add: it' same_owner_def idle_inv_def settled_item_def\<close>)
qed

lemma retry_unstarted_inv:
  assumes inv: "work_inv u (it, as)" and r: "retry_unstarted u it deadline now = Inr it'"
  shows "work_inv u (it', as)"
proof -
  from r have g: "it_ActiveAttemptID it = []" "it_AttemptNumber it = 0" "it_Cleanup it = CleanupNone"
      "\<not> it_ForwardRevoked it" "item_ok u it'"
    and it': "it' = it\<lparr>it_Phase := Ready, it_Outcome := NoOutcome, it_Result := None, it_Wait := None,
              it_Deadline := deadline, it_UpdatedAt := now\<rparr>"
    unfolding retry_unstarted_Inr by blast+
  show ?thesis
    by (rule idle_step_inv[OF inv g(5)]) (use g in \<open>simp_all add: it' same_owner_def idle_inv_def\<close>)
qed

lemma renew_inv:
  assumes inv: "work_inv u (it, as)" and r: "renew_unstarted_deadline u it deadline now = Inr it'"
  shows "work_inv u (it', as)"
proof -
  from r have g: "it_ActiveAttemptID it = []" "item_ok u it'"
    and it': "it' = it\<lparr>it_Deadline := deadline, it_UpdatedAt := now\<rparr>"
    unfolding renew_unstarted_deadline_Inr by blast+
  show ?thesis
    by (rule idle_step_inv[OF inv g(2)]) (use g in \<open>simp_all add: it' same_owner_def idle_inv_def\<close>)
qed

lemma work_step_inv:
  assumes "work_step u s s'" "work_inv u s"
  shows "work_inv u s'"
  using assms
proof (induction rule: work_step.induct)
  case step_assign
  then show ?case by (simp add: assign_inv)
next
  case step_start
  then show ?case by (simp add: start_inv)
next
  case step_finish
  then show ?case by (simp add: finish_inv)
next
  case step_revoke
  then show ?case by (blast intro: revoke_inv)
next
  case step_prepare
  then show ?case by (blast intro: prepare_inv)
next
  case step_retry
  then show ?case by (blast intro: retry_inv)
next
  case step_release
  then show ?case by (blast intro: release_inv)
next
  case step_expire
  then show ?case by (blast intro: expire_inv)
next
  case step_settle_unstarted
  then show ?case by (blast intro: settle_unstarted_inv)
next
  case step_settle_queued
  then show ?case by (blast intro: settle_queued_inv)
next
  case step_retry_unstarted
  then show ?case by (blast intro: retry_unstarted_inv)
next
  case step_renew
  then show ?case by (blast intro: renew_inv)
qed

lemma work_reachable_inv: "work_reachable u s \<Longrightarrow> work_inv u s"
  by (induction rule: work_reachable.induct) (simp_all add: initial_work_inv work_step_inv)

section \<open>What a step may change\<close>

text \<open>The identity of the work, its revocation and its first failure are kept by every step.\<close>

definition keeps_record :: "item \<Rightarrow> item \<Rightarrow> bool" where
  "keeps_record it it' \<longleftrightarrow>
     same_owner it it' \<and> (it_ForwardRevoked it \<longrightarrow> it_ForwardRevoked it') \<and>
     (it_FirstFailure it \<noteq> None \<longrightarrow>
        it_FirstFailure it' = it_FirstFailure it \<and> it_FirstFailureAttempt it' = it_FirstFailureAttempt it)"

lemma keeps_record_refl [simp]: "keeps_record it it"
  by (simp add: keeps_record_def same_owner_def)

lemma keeps_record_trans: "keeps_record a b \<Longrightarrow> keeps_record b c \<Longrightarrow> keeps_record a c"
  by (auto simp: keeps_record_def same_owner_def)

lemma work_step_keeps_record:
  "work_step u s s' \<Longrightarrow> keeps_record (fst s) (fst s')"
proof (induction rule: work_step.induct)
  case step_assign
  then show ?case by (auto simp: assign_Inr keeps_record_def same_owner_def)
next
  case (step_start i as it now it' a)
  from step_start(2) show ?case
    by (cases "at_StartedAt (as ! i)") (simp_all add: start_Inr keeps_record_def same_owner_def)
next
  case (step_finish i as it c now it' a)
  from step_finish(2) have "it' = finish_item (it\<lparr>it_ActiveAttemptID := [], it_UpdatedAt := now\<rparr>) (as ! i) c"
    unfolding finish_Inr by blast
  then show ?case by (simp add: keeps_record_def same_owner_def finish_item_def Let_def)
next
  case (step_revoke it x now it' as)
  from step_revoke(1) show ?case
    by (cases rule: revoke_forward_cases) (simp_all add: keeps_record_def same_owner_def)
next
  case step_prepare
  then show ?case by (simp add: prepare_input_Inr keeps_record_def same_owner_def)
next
  case (step_retry p as it d now it')
  then show ?case
    by (simp add: retry_Inr Let_def retry_base_def keeps_record_def same_owner_def)
next
  case step_release
  then show ?case by (auto simp: release_retry_wait_Inr keeps_record_def same_owner_def)
next
  case (step_expire it now it' as)
  from step_expire(1) have "it' = it\<lparr>it_Phase := Attention, it_Cleanup := CleanupStopped, it_Wait := None, it_UpdatedAt := now\<rparr>"
    unfolding expire_cleanup_retry_Inr by blast
  then show ?case by (simp add: keeps_record_def same_owner_def)
next
  case (step_settle_unstarted it c now it' as)
  from step_settle_unstarted(1) have "it' = (if co_Outcome c = Failed \<and> it_FirstFailure it = None
            then settled_item it c now\<lparr>it_FirstFailure := Some (co_Evidence c)\<rparr> else settled_item it c now)"
    unfolding settle_unstarted_Inr by blast
  then show ?case by (simp add: keeps_record_def same_owner_def settled_item_def)
next
  case (step_settle_queued it c now it' as)
  from step_settle_queued(1) have "it' = settled_item it c now" unfolding settle_queued_retry_Inr by blast
  then show ?case by (simp add: keeps_record_def same_owner_def settled_item_def)
next
  case (step_retry_unstarted it deadline now it' as)
  from step_retry_unstarted(1) have "it' = it\<lparr>it_Phase := Ready, it_Outcome := NoOutcome, it_Result := None, it_Wait := None,
              it_Deadline := deadline, it_UpdatedAt := now\<rparr>"
    unfolding retry_unstarted_Inr by blast
  then show ?case by (simp add: keeps_record_def same_owner_def)
next
  case (step_renew it deadline now it' as)
  from step_renew(1) have "it' = it\<lparr>it_Deadline := deadline, it_UpdatedAt := now\<rparr>"
    unfolding renew_unstarted_deadline_Inr by blast
  then show ?case by (simp add: keeps_record_def same_owner_def)
qed

text \<open>The history only grows, and an attempt in it only gains its start and its result.\<close>

definition attempt_extends :: "attempt \<Rightarrow> attempt \<Rightarrow> bool" where
  "attempt_extends a b \<longleftrightarrow>
     same_assignment a b \<and> at_AssignedAt b = at_AssignedAt a \<and> at_Deadline b = at_Deadline a \<and>
     (at_StartedAt a \<noteq> None \<longrightarrow> at_StartedAt b = at_StartedAt a) \<and>
     (at_FinishedAt a \<noteq> None \<longrightarrow> b = a)"

definition history_extends :: "attempt list \<Rightarrow> attempt list \<Rightarrow> bool" where
  "history_extends as bs \<longleftrightarrow> length as \<le> length bs \<and> (\<forall>i < length as. attempt_extends (as ! i) (bs ! i))"

lemma same_assignment_trans: "same_assignment a b \<Longrightarrow> same_assignment b c \<Longrightarrow> same_assignment a c"
  by (simp add: same_assignment_def)

lemma attempt_extends_refl [simp]: "attempt_extends a a"
  by (simp add: attempt_extends_def same_assignment_def)

lemma attempt_extends_trans: "attempt_extends a b \<Longrightarrow> attempt_extends b c \<Longrightarrow> attempt_extends a c"
  unfolding attempt_extends_def by (metis same_assignment_trans)

lemma history_extends_refl [simp]: "history_extends as as"
  by (simp add: history_extends_def)

lemma history_extends_trans: "history_extends as bs \<Longrightarrow> history_extends bs cs \<Longrightarrow> history_extends as cs"
  unfolding history_extends_def by (metis attempt_extends_trans order_less_le_trans order_trans)

lemma history_extends_update: "attempt_extends (as ! i) a \<Longrightarrow> history_extends as (as[i := a])"
  by (cases "i < length as") (auto simp: history_extends_def nth_list_update)

lemma work_step_history:
  "work_step u s s' \<Longrightarrow> history_extends (snd s) (snd s')"
proof (induction rule: work_step.induct)
  case step_assign
  then show ?case by (simp add: history_extends_def nth_append)
next
  case (step_start i as it now it' a)
  then have "attempt_extends (as ! i) a"
    by (cases "at_StartedAt (as ! i)")
      (simp_all add: start_Inr match_active_ok attempt_extends_def same_assignment_def)
  with step_start show ?case by (simp add: history_extends_update)
next
  case (step_finish i as it c now it' a)
  from step_finish(2) have "match_active u it (as ! i) = Inr ()"
    "a = (as ! i)\<lparr>at_FinishedAt := Some now, at_Outcome := co_Outcome c, at_Result := Some (co_Evidence c)\<rparr>"
    unfolding finish_Inr by blast+
  then have "attempt_extends (as ! i) a"
    by (simp add: match_active_ok attempt_extends_def same_assignment_def)
  with step_finish show ?case by (simp add: history_extends_update)
qed simp_all

text \<open>Permission for forward effects: the forward attempts assigned and started so far.\<close>

definition forward_assigned :: "attempt list \<Rightarrow> nat" where
  "forward_assigned as = length (filter (\<lambda>a. at_Direction a = Forward) as)"

definition forward_started :: "attempt list \<Rightarrow> nat" where
  "forward_started as = length (filter (\<lambda>a. at_Direction a = Forward \<and> at_StartedAt a \<noteq> None) as)"

lemma length_filter_update:
  "P (as ! i) = P a \<Longrightarrow> length (filter P (as[i := a])) = length (filter P as)"
proof (induction as arbitrary: i)
  case (Cons x xs)
  then show ?case by (cases i) auto
qed simp

lemma work_step_forward:
  assumes "work_step u s s'" "it_ForwardRevoked (fst s)"
  shows "forward_assigned (snd s') = forward_assigned (snd s) \<and>
    forward_started (snd s') = forward_started (snd s)"
  using assms
proof (induction rule: work_step.induct)
  case step_assign
  then show ?case
    using step_assign(2) by (auto simp: assign_Inr assigned_attempt_def forward_assigned_def forward_started_def)
next
  case (step_start i as it now it' a)
  then have "at_Direction a = at_Direction (as ! i)"
    "(at_Direction a = Forward \<and> at_StartedAt a \<noteq> None) =
     (at_Direction (as ! i) = Forward \<and> at_StartedAt (as ! i) \<noteq> None)"
    using step_start(4) by (cases "at_StartedAt (as ! i)"; auto simp: start_Inr)+
  with step_start show ?case by (simp add: forward_assigned_def forward_started_def length_filter_update)
next
  case (step_finish i as it c now it' a)
  from step_finish(2)
  have "a = (as ! i)\<lparr>at_FinishedAt := Some now, at_Outcome := co_Outcome c, at_Result := Some (co_Evidence c)\<rparr>"
    unfolding finish_Inr by blast
  with step_finish show ?case by (simp add: forward_assigned_def forward_started_def length_filter_update)
qed simp_all

lemma work_steps_keep:
  assumes "(work_step u)\<^sup>*\<^sup>* (it, as) (it', as')"
  shows "keeps_record it it'" "history_extends as as'"
    "it_ForwardRevoked it \<Longrightarrow> forward_assigned as' = forward_assigned as \<and> forward_started as' = forward_started as"
proof -
  have "keeps_record it it' \<and> history_extends as as' \<and> (it_ForwardRevoked it \<longrightarrow>
      forward_assigned as' = forward_assigned as \<and> forward_started as' = forward_started as)"
    using assms
  proof (induction rule: rtranclp_induct2)
    case refl
    then show ?case by simp
  next
    case (step it1 as1 it2 as2)
    from work_step_keeps_record[OF step(2)] work_step_history[OF step(2)] work_step_forward[OF step(2)] step(3)
    have "keeps_record it it2" "history_extends as as2"
      by (simp_all, meson keeps_record_trans, meson history_extends_trans)
    moreover have "it_ForwardRevoked it1" if "it_ForwardRevoked it" using that step(3) by (simp add: keeps_record_def)
    ultimately show ?case using work_step_forward[OF step(2)] step(3) by simp
  qed
  then show "keeps_record it it'" "history_extends as as'"
    "it_ForwardRevoked it \<Longrightarrow> forward_assigned as' = forward_assigned as \<and> forward_started as' = forward_started as"
    by auto
qed

section \<open>No reachable item is stuck\<close>

definition can_settle :: "ulid_check \<Rightarrow> work_state \<Rightarrow> bool" where
  "can_settle u s \<longleftrightarrow> (\<exists>s'. (work_step u)\<^sup>*\<^sup>* s s' \<and> it_Phase (fst s') = Settled)"

lemma can_settle_step: "work_step u s s' \<Longrightarrow> can_settle u s' \<Longrightarrow> can_settle u s"
  unfolding can_settle_def by (meson converse_rtranclp_into_rtranclp)

lemma can_settle_done: "it_Phase it = Settled \<Longrightarrow> can_settle u (it, as)"
  unfolding can_settle_def by (metis fst_conv rtranclp.rtrancl_refl)

text \<open>An active attempt can be finished at once, with its effects accounted for.\<close>

lemma active_can_settle:
  assumes inv: "work_inv u (it, as)" and active: "it_ActiveAttemptID it \<noteq> []"
  shows "can_settle u (it, as)"
proof -
  from inv have ok: "item_ok u it" and h: "history_inv u (it, as)" and act: "active_inv (it, as)"
    by (simp_all add: work_inv_def)
  note la = active_last[OF act active]
  have ao: "attempt_of u it (last as)" using h la(1) by (simp add: history_inv_def)
  have num: "at_Number (last as) = it_AttemptNumber it"
    by (rule history_last_number[OF h la(1)])
  let ?now = "it_UpdatedAt it"
  let ?c = "\<lparr>co_Outcome = Cancelled, co_Evidence = at_Input (last as), co_EffectsSettled = True\<rparr>"
  let ?it = "finish_item (it\<lparr>it_ActiveAttemptID := [], it_UpdatedAt := ?now\<rparr>) (last as) ?c"
  let ?a = "(last as)\<lparr>at_FinishedAt := Some ?now, at_Outcome := Cancelled, at_Result := Some (at_Input (last as))\<rparr>"
  have wait: "it_Wait it = None" using item_ok_active_id[OF ok active] by simp
  have inp: "input_ok u (at_Input (last as))" using ao by (simp add: attempt_of_def attempt_ok_def)
  have time: "valid_time ?now" using ok by (simp add: item_ok_def item_times_ok_def)
  have "attempt_ok u (last as)" using ao by (simp add: attempt_of_def)
  then have aok: "attempt_ok u ?a"
    using la(3,5,6) inp time by (cases "at_StartedAt (last as)") (simp_all add: attempt_ok_def)
  have dir: "at_Direction (last as) = Forward \<or> at_Direction (last as) = Recovery"
    using ao by (simp add: attempt_of_def attempt_ok_def)
  have iok: "item_ok u ?it"
  proof (rule item_okI[OF ok])
    show "item_results_ok u it \<Longrightarrow> item_results_ok u ?it" using inp by (simp add: item_results_ok_def finish_item_def Let_def)
    show "item_times_ok it \<Longrightarrow> item_times_ok ?it" by (simp add: item_times_ok_def finish_item_def Let_def)
    show "item_static_ok u ?it = item_static_ok u it" by (simp add: finish_item_def Let_def)
    from dir show "item_state_ok u ?it"
    proof
      assume "at_Direction (last as) = Forward"
      then show ?thesis using wait by (simp add: finish_item_def Let_def item_state_by_phase outcome_cleanup_ok_def)
    next
      assume r: "at_Direction (last as) = Recovery"
      with la(8) have "it_Cleanup it = CleanupRunning" by simp
      with item_state_outcome[OF ok] r wait show ?thesis
        by (auto simp: finish_item_def Let_def item_state_by_phase outcome_cleanup_ok_def)
    qed
  qed
  have "match_active u it (last as) = Inr ()"
    using ok ao num la(2,3) by (simp add: match_active_ok attempt_of_def)
  then have "finish u it (last as) ?c ?now = Inr (?it, ?a)"
    unfolding finish_Inr using inp iok aok by (simp add: before_def)
  then have "work_step u (it, as) (?it, as[length as - 1 := ?a])"
    by (intro step_finish[where c = ?c and now = ?now]) (use la(1) in \<open>simp_all add: last_conv_nth\<close>)
  moreover have "it_Phase ?it = Settled" by (simp add: finish_item_def Let_def)
  ultimately show ?thesis by (blast intro: can_settle_step can_settle_done)
qed

text \<open>Forward work that waits can be withdrawn.\<close>

lemma queued_forward_can_settle:
  assumes ok: "item_ok u it" and "it_Phase it = Waiting \<or> it_Phase it = Ready" "it_Cleanup it = CleanupNone"
  shows "can_settle u (it, as)"
proof -
  let ?it = "it\<lparr>it_ForwardRevoked := True, it_UpdatedAt := it_UpdatedAt it, it_Phase := Settled,
    it_Outcome := Cancelled, it_Wait := None\<rparr>"
  have "it_ActiveAttemptID it = []" using ok_inactive[OF ok] assms(2) by auto
  then have "revoke_forward u it Cancelled (it_UpdatedAt it) = Inr ?it"
    using assms by (auto simp: revoke_forward_Inr before_def)
  moreover have "valid_time (it_UpdatedAt it)" using ok by (simp add: item_ok_def item_times_ok_def)
  ultimately have "work_step u (it, as) (?it, as)" by (rule step_revoke)
  then show ?thesis by (rule can_settle_step) (simp add: can_settle_done)
qed

text \<open>Unresolved cleanup can be retried on the executor of the last attempt.\<close>

lemma attention_can_settle:
  assumes inv: "work_inv u (it, as)" and ph: "it_Phase it = Attention" and max: "it_AttemptNumber it \<noteq> - 1"
    and t: "valid_time t" "after t (it_UpdatedAt it)"
  shows "can_settle u (it, as)"
proof -
  from inv have ok: "item_ok u it" and h: "history_inv u (it, as)" and act: "active_inv (it, as)"
    and idle: "idle_inv it" by (simp_all add: work_inv_def)
  have cl: "it_Cleanup it = CleanupRequired \<or> it_Cleanup it = CleanupStopped" using idle ph by (simp add: idle_inv_def)
  then have "it_AttemptNumber it \<noteq> 0" using idle by (auto simp: idle_inv_def)
  then have ne: "as \<noteq> []" using history_empty[OF h] by simp
  have inactive: "it_ActiveAttemptID it = []" using ok_inactive[OF ok] ph by simp
  then have fin: "at_FinishedAt (last as) \<noteq> None" using act ne by (simp add: active_inv_def)
  have ao: "attempt_of u it (last as)" using h ne by (simp add: history_inv_def)
  then have lok: "attempt_ok u (last as)" by (simp add: attempt_of_def)
  with fin obtain res where res: "at_Result (last as) = Some res" "input_ok u res"
    by (cases "at_Result (last as)") (auto simp: attempt_ok_def)
  let ?now = "it_UpdatedAt it"
  have now: "valid_time ?now" "item_times_ok it" using ok by (simp_all add: item_ok_def item_times_ok_def)
  let ?d = "\<lparr>rd_Direction = Recovery, rd_Result = res, rd_NotBefore = ?now, rd_Deadline = t\<rparr>"
  let ?it1 = "it\<lparr>it_Deadline := t, it_UpdatedAt := ?now, it_Phase := Ready, it_Wait := None\<rparr>"
  have r1: "retry u it (last as) ?d ?now = Inr ?it1"
    using ok lok res fin ph cl now t ao inactive history_last_number[OF h ne]
    by (simp add: retry_Inr attempt_of_def before_def after_def retry_base_def)
  then have s1: "work_step u (it, as) (?it1, as)" by (intro step_retry) (use ne in simp_all)
  let ?a = "assigned_attempt ?it1 (at_Input (last as)) (at_Executor (last as)) (at_ID (last as)) Recovery ?now t"
  let ?it2 = "?it1\<lparr>it_Phase := Assigned, it_ActiveAttemptID := at_ID (last as),
      it_AttemptNumber := it_AttemptNumber it + 1, it_UpdatedAt := ?now, it_Cleanup := CleanupRunning\<rparr>"
  have "id_valid u KindWorkItem (it_ID it)" "id_valid u KindTask (it_TaskID it)"
    using ok by (simp_all add: item_ok_def item_static_ok_def)
  then have a: "attempt_ok u ?a"
    using lok now t number_grows(2)[OF max] by (simp add: assigned_attempt_def attempt_ok_def)
  have "assign u ?it1 (at_Executor (last as)) (at_ID (last as)) Recovery ?now t = Inr (?it2, ?a)"
    unfolding assign_Inr using retry_keeps_ok[OF r1] a cl t max ao lok
    by (simp add: attempt_of_def attempt_ok_def before_def after_def)
  then have s2: "work_step u (?it1, as) (?it2, as @ [?a])" by (rule step_assign)
  have "work_inv u (?it2, as @ [?a])" by (rule work_step_inv[OF s2 work_step_inv[OF s1 inv]])
  then have "can_settle u (?it2, as @ [?a])"
    by (rule active_can_settle) (use lok in \<open>auto simp: attempt_ok_def\<close>)
  with s1 s2 show ?thesis by (blast intro: can_settle_step)
qed

lemma reachable_can_settle:
  assumes r: "work_reachable u (it, as)" and max: "it_AttemptNumber it \<noteq> - 1"
    and t: "valid_time t" "after t (it_UpdatedAt it)" "after t (it_Deadline it)"
    and t': "valid_time t'" "after t' t"
  shows "can_settle u (it, as)"
proof -
  have inv: "work_inv u (it, as)" by (rule work_reachable_inv[OF r])
  then have ok: "item_ok u it" and idle: "idle_inv it" by (simp_all add: work_inv_def)
  have queued: "can_settle u (it, as)" if ph: "it_Phase it = Waiting \<or> it_Phase it = Ready"
  proof (cases "it_Cleanup it = CleanupNone")
    case True
    with ok ph show ?thesis by (rule queued_forward_can_settle)
  next
    case False
    let ?it = "it\<lparr>it_Phase := Attention, it_Cleanup := CleanupStopped, it_Wait := None, it_UpdatedAt := t\<rparr>"
    have inactive: "it_ActiveAttemptID it = []" using ok_inactive[OF ok] ph by auto
    have cl: "it_Cleanup it = CleanupRequired \<or> it_Cleanup it = CleanupStopped" "it_AttemptNumber it \<noteq> 0"
      "it_Input it \<noteq> None" using idle False ph by (simp_all add: idle_inv_def)
    have "item_ok u ?it"
    proof (rule item_okI[OF ok])
      show "item_state_ok u ?it"
        using item_state_outcome[OF ok] False cl inactive by (auto simp: item_state_by_phase outcome_cleanup_ok_def)
    qed (use t in \<open>simp_all add: item_times_ok_def item_results_ok_def before_def after_def\<close>)
    then have "expire_cleanup_retry u it t = Inr ?it"
      unfolding expire_cleanup_retry_Inr using ok t ph cl inactive by (auto simp: before_def after_def)
    then have s1: "work_step u (it, as) (?it, as)" by (rule step_expire)
    have "can_settle u (?it, as)"
      by (rule attention_can_settle[OF work_step_inv[OF s1 inv] _ _ t'(1)]) (use max t' in simp_all)
    with s1 show ?thesis by (rule can_settle_step)
  qed
  show ?thesis
  proof (cases "it_Phase it")
    case Settled
    then show ?thesis by (rule can_settle_done)
  next
    case Attention
    then show ?thesis by (rule attention_can_settle[OF inv _ max t(1,2)])
  next
    case Assigned
    then show ?thesis using item_ok_active[OF ok] by (intro active_can_settle[OF inv]) simp
  next
    case Running
    then show ?thesis using item_ok_active[OF ok] by (intro active_can_settle[OF inv]) simp
  next
    case (WorkPhaseOther x)
    with ok show ?thesis by (simp add: item_ok_def item_state_ok_def validate_item_phase_def)
  next
    case Waiting
    then show ?thesis by (intro queued) simp
  next
    case Ready
    then show ?thesis by (intro queued) simp
  qed
qed

section \<open>An example life\<close>

text \<open>
  A release that fails without accounting for its effects, is superseded, and is cleaned up: the
  scenario of \<open>lifecycle_test.go\<close>.
\<close>

definition ex_time :: "int \<Rightarrow> gotime" where
  "ex_time n = \<lparr>instant = (63839664000 + n) * second, loc = UTC\<rparr>"

definition ex_input :: "char \<Rightarrow> input" where
  "ex_input c = \<lparr>in_ID = ex_id ''plan'' c, in_SHA256 = replicate 64 (CHR ''a'')\<rparr>"

definition ex_item :: item where
  "ex_item =
     \<lparr>it_ID = ex_id ''work'' CHR ''1'', it_TaskID = ex_id ''task'' CHR ''1'', it_Operation = OpRelease,
      it_TargetID = ex_id ''svc'' CHR ''1'', it_TargetName = ''web'',
      it_Placement = \<lparr>pl_Executor = AgentExecutor, pl_HostID = ex_id ''host'' CHR ''1''\<rparr>,
      it_Dependencies = [],
      it_Claims = [\<lparr>cl_HostID = ex_id ''host'' CHR ''1'', cl_ScopeID = ex_id ''svc'' CHR ''1''\<rparr>],
      it_Input = Some (ex_input CHR ''1''), it_Phase = Ready, it_Wait = None, it_AttemptNumber = 0,
      it_ActiveAttemptID = [], it_Outcome = NoOutcome, it_FirstFailure = None,
      it_FirstFailureAttempt = 0, it_Result = None, it_CleanupResult = None,
      it_Cleanup = CleanupNone, it_ForwardRevoked = False, it_CreatedAt = ex_time 0,
      it_UpdatedAt = ex_time 0, it_Deadline = ex_time 600\<rparr>"

definition ex_identity :: identity where
  "ex_identity = \<lparr>idn_Executor = AgentExecutor, idn_HostID = ex_id ''host'' CHR ''1'',
     idn_AgentID = ex_id ''agt'' CHR ''1'', idn_Generation = 3\<rparr>"

definition ex_assigned :: item where
  "ex_assigned = ex_item\<lparr>it_Phase := Assigned, it_ActiveAttemptID := ex_id ''try'' CHR ''1'',
     it_AttemptNumber := 1, it_UpdatedAt := ex_time 1\<rparr>"

definition ex_attempt :: attempt where
  "ex_attempt = \<lparr>at_ID = ex_id ''try'' CHR ''1'', at_WorkItemID = ex_id ''work'' CHR ''1'',
     at_TaskID = ex_id ''task'' CHR ''1'', at_Number = 1, at_Executor = ex_identity,
     at_Direction = Forward, at_Input = ex_input CHR ''1'', at_AssignedAt = ex_time 1,
     at_Deadline = ex_time 600, at_StartedAt = None, at_FinishedAt = None, at_Outcome = NoOutcome,
     at_Result = None\<rparr>"

definition ex_running :: item where
  "ex_running = ex_assigned\<lparr>it_Phase := Running, it_UpdatedAt := ex_time 2\<rparr>"

definition ex_started :: attempt where
  "ex_started = ex_attempt\<lparr>at_StartedAt := Some (ex_time 2)\<rparr>"

definition ex_failure :: completion where
  "ex_failure = \<lparr>co_Outcome = Failed, co_Evidence = ex_input CHR ''2'', co_EffectsSettled = False\<rparr>"

definition ex_failed :: item where
  "ex_failed = ex_running\<lparr>it_ActiveAttemptID := [], it_UpdatedAt := ex_time 3, it_Outcome := Failed,
     it_Result := Some (ex_input CHR ''2''), it_FirstFailure := Some (ex_input CHR ''2''),
     it_FirstFailureAttempt := 1, it_Phase := Attention, it_Cleanup := CleanupRequired\<rparr>"

definition ex_finished :: attempt where
  "ex_finished = ex_started\<lparr>at_FinishedAt := Some (ex_time 3), at_Outcome := Failed,
     at_Result := Some (ex_input CHR ''2'')\<rparr>"

definition ex_revoked :: item where
  "ex_revoked = ex_failed\<lparr>it_ForwardRevoked := True, it_UpdatedAt := ex_time 4\<rparr>"

definition ex_decision :: retry_decision where
  "ex_decision = \<lparr>rd_Direction = Recovery, rd_Result = ex_input CHR ''2'', rd_NotBefore = ex_time 5,
     rd_Deadline = ex_time 60\<rparr>"

definition ex_cleaning :: item where
  "ex_cleaning = ex_revoked\<lparr>it_Deadline := ex_time 60, it_UpdatedAt := ex_time 5, it_Phase := Ready\<rparr>"

lemmas ex_defs = ex_item_def ex_identity_def ex_assigned_def ex_attempt_def ex_running_def ex_started_def
  ex_failure_def ex_failed_def ex_finished_def ex_revoked_def ex_decision_def ex_cleaning_def

lemmas ex_time_defs = ex_time_def before_def after_def

lemma ex_input_ok: "input_ok crockford_ulid (ex_input CHR ''1'')" "input_ok crockford_ulid (ex_input CHR ''2'')"
proof -
  have "sha256_hex (replicate 64 CHR ''a'')" by code_simp
  then show "input_ok crockford_ulid (ex_input CHR ''1'')" "input_ok crockford_ulid (ex_input CHR ''2'')"
    by (simp_all add: input_ok_def ex_input_def KindPlan_def)
qed

lemma ex_time_valid:
  assumes "0 \<le> n" "n \<le> 1000"
  shows "valid_time (ex_time n)"
proof -
  have "year_start 1970 = 62135596800 * second" "year_start 10000 = 315537897600 * second" by code_simp+
  with assms show ?thesis
    by (simp add: valid_time_def ex_time_def is_zero_def year_between_def local_nanos_def)
qed

lemma ex_placement_ok:
  "placement_validate crockford_ulid \<lparr>pl_Executor = AgentExecutor, pl_HostID = ex_id ''host'' CHR ''1''\<rparr> = Inr ()"
proof -
  have "ex_id ''host'' CHR ''1'' \<noteq> []" by (simp add: ex_id_def)
  then show ?thesis by (simp add: placement_validate_def KindHost_def)
qed

lemma ex_identity_ok: "identity_validate crockford_ulid ex_identity = Inr ()"
  using ex_placement_ok by (simp add: identity_validate_def ex_identity_def KindAgent_def)

lemma ex_item_ok: "item_ok crockford_ulid ex_item"
proof -
  have r: "valid_resource_id crockford_ulid (ex_id ''svc'' CHR ''1'')"
    by (simp add: valid_resource_id_def resource_kinds_def KindService_def)
  have t: "valid_utf8 ''web''" by code_simp
  have "item_static_ok crockford_ulid ex_item"
    using r t ex_placement_ok ex_time_valid[of 0]
    by (simp add: item_static_ok_def ex_item_def KindWorkItem_def KindTask_def KindHost_def claim_ok_def
        maximum_claims_def)
  moreover have "item_times_ok ex_item"
    using ex_time_valid[of 0] ex_time_valid[of 600] by (simp add: item_times_ok_def ex_item_def ex_time_defs)
  moreover have "item_results_ok crockford_ulid ex_item"
    using ex_input_ok by (simp add: item_results_ok_def ex_item_def)
  moreover have "item_state_ok crockford_ulid ex_item"
    by (simp add: item_state_by_phase outcome_cleanup_ok_def ex_item_def)
  ultimately show ?thesis by (simp add: item_ok_def)
qed

lemma ex_attempt_ok: "attempt_ok crockford_ulid ex_attempt"
  using ex_identity_ok ex_input_ok ex_time_valid[of 1] ex_time_valid[of 600]
  by (simp add: attempt_ok_def ex_attempt_def KindAttempt_def KindWorkItem_def KindTask_def ex_time_defs)

lemma ex_initial: "initial_work crockford_ulid ex_item"
  using ex_item_ok by (simp add: initial_work_def ex_item_def)

lemma ex_assign:
  "assign crockford_ulid ex_item ex_identity (ex_id ''try'' CHR ''1'') Forward (ex_time 1) (ex_time 600) =
     Inr (ex_assigned, ex_attempt)"
proof -
  have "ex_attempt = assigned_attempt ex_item (ex_input CHR ''1'') ex_identity (ex_id ''try'' CHR ''1'')
      Forward (ex_time 1) (ex_time 600)"
    by (simp add: assigned_attempt_def ex_attempt_def ex_item_def)
  with ex_item_ok ex_attempt_ok ex_identity_ok show ?thesis
    unfolding assign_Inr by (simp add: ex_item_def ex_assigned_def ex_identity_def ex_time_defs)
qed

lemma ex_start: "start crockford_ulid ex_assigned ex_attempt (ex_time 2) = Inr (ex_running, ex_started)"
  using assign_keeps_ok[OF ex_assign]
  by (simp add: start_Inr match_active_ok) (simp add: ex_defs ex_time_defs)

lemma ex_started_ok: "item_ok crockford_ulid ex_running" "attempt_ok crockford_ulid ex_started"
  using start_keeps_ok[OF ex_start ex_time_valid] by (simp_all add: ex_defs ex_time_defs)

lemma ex_finished_ok: "item_ok crockford_ulid ex_failed" "attempt_ok crockford_ulid ex_finished"
proof -
  show "item_ok crockford_ulid ex_failed"
  proof (rule item_okI[OF ex_started_ok(1)])
    show "item_state_ok crockford_ulid ex_failed"
      by (simp add: item_state_by_phase outcome_cleanup_ok_def ex_defs)
  qed (use ex_input_ok ex_time_valid[of 3] in
      \<open>simp_all add: ex_failed_def ex_running_def ex_assigned_def ex_item_def item_static_ok_def
        item_times_ok_def item_results_ok_def ex_time_defs\<close>)
  show "attempt_ok crockford_ulid ex_finished"
    using ex_started_ok(2) ex_input_ok ex_time_valid[of 3]
    by (simp add: attempt_ok_def ex_finished_def) (simp add: ex_defs ex_time_defs)
qed

lemma ex_finish: "finish crockford_ulid ex_running ex_started ex_failure (ex_time 3) = Inr (ex_failed, ex_finished)"
proof -
  have "match_active crockford_ulid ex_running ex_started = Inr ()"
    using ex_started_ok by (simp add: match_active_ok) (simp add: ex_defs)
  moreover have "ex_failed = finish_item (ex_running\<lparr>it_ActiveAttemptID := [], it_UpdatedAt := ex_time 3\<rparr>)
      ex_started ex_failure"
    by (simp add: finish_item_def Let_def ex_defs)
  ultimately show ?thesis
    unfolding finish_Inr using ex_finished_ok ex_input_ok
    by (simp add: ex_failure_def ex_finished_def ex_running_def ex_time_defs)
qed

lemma ex_revoke: "revoke_forward crockford_ulid ex_failed Superseded (ex_time 4) = Inr ex_revoked"
  using ex_finished_ok(1) by (simp add: revoke_forward_Inr) (simp add: ex_defs ex_time_defs)

lemma ex_retry: "retry crockford_ulid ex_revoked ex_finished ex_decision (ex_time 5) = Inr ex_cleaning"
proof -
  have "input_ok crockford_ulid (rd_Result ex_decision)" using ex_input_ok by (simp add: ex_decision_def)
  then show ?thesis
    using revoke_forward_keeps_ok[OF ex_revoke ex_time_valid] ex_finished_ok(2) ex_time_valid[of 5] ex_time_valid[of 60]
    by (simp add: retry_Inr) (simp add: ex_defs ex_time_defs retry_base_def)
qed

lemma ex_assigned_reachable: "work_reachable crockford_ulid (ex_assigned, [ex_attempt])"
  using reach_step[OF reach_initial[OF ex_initial] step_assign[OF ex_assign]] by simp

lemma ex_running_reachable: "work_reachable crockford_ulid (ex_running, [ex_started])"
  using reach_step[OF ex_assigned_reachable step_start[of 0 "[ex_attempt]"]] ex_start ex_time_valid by simp

lemma ex_failed_reachable: "work_reachable crockford_ulid (ex_failed, [ex_finished])"
  using reach_step[OF ex_running_reachable step_finish[of 0 "[ex_started]"]] ex_finish by simp

lemma ex_revoked_reachable: "work_reachable crockford_ulid (ex_revoked, [ex_finished])"
  using reach_step[OF ex_failed_reachable step_revoke[OF ex_revoke]] ex_time_valid by simp

lemma ex_cleanup_steps: "(work_step crockford_ulid)\<^sup>*\<^sup>* (ex_revoked, [ex_finished]) (ex_cleaning, [ex_finished])"
  by (rule r_into_rtranclp, rule step_retry[of ex_finished _ _ _ ex_decision]) (use ex_retry in simp_all)

section \<open>Properties\<close>

text \<open>C4. In every reachable state the item passes \<open>Item.Validate\<close>, the attempts are numbered from 1
  without a gap up to the item's attempt number, every attempt passes \<open>Attempt.Validate\<close> and
  belongs to the item with its captured input and executor, and at most one attempt is unfinished.\<close>

theorem reachable_work_valid:
  assumes "work_reachable u (it, as)"
  shows "item_validate u it = Inr () \<and> unat (it_AttemptNumber it) = length as \<and>
    (\<forall>i < length as. unat (at_Number (as ! i)) = Suc i) \<and>
    list_all (\<lambda>a. attempt_validate u a = Inr () \<and> attempt_of u it a) as \<and>
    length (filter (\<lambda>a. at_FinishedAt a = None) as) \<le> 1"
proof -
  from work_reachable_inv[OF assms] have inv: "item_ok u it" "history_inv u (it, as)" by (simp_all add: work_inv_def)
  have "length (filter (\<lambda>a. at_FinishedAt a = None) as) \<le> 1"
  proof (cases as rule: rev_cases)
    case (snoc xs x)
    with inv(2) have "\<forall>a \<in> set xs. at_FinishedAt a \<noteq> None" by (simp add: history_inv_def)
    then have "filter (\<lambda>a. at_FinishedAt a = None) xs = []" by (simp add: filter_empty_conv)
    with snoc show ?thesis by simp
  qed simp
  with inv show ?thesis by (auto simp: history_inv_def list_all_iff attempt_of_def)
qed

theorem reachable_work_valid_witness:
  "item_validate crockford_ulid ex_revoked = Inr () \<and> attempt_validate crockford_ulid ex_finished = Inr ()"
  using reachable_work_valid[OF ex_revoked_reachable] by simp

text \<open>A saved assignment can always be delivered again: in every reachable state with an active
  attempt, \<open>ValidateDelivery\<close> accepts the last attempt of the history, and no other attempt.\<close>

theorem active_attempt_deliverable:
  assumes "work_reachable u (it, as)" "it_ActiveAttemptID it \<noteq> []"
  shows "as \<noteq> [] \<and> validate_delivery u it (last as) = Inr () \<and>
    (\<forall>i < length as - 1. validate_delivery u it (as ! i) \<noteq> Inr ())"
proof -
  from work_reachable_inv[OF assms(1)] have inv: "work_inv u (it, as)" and ok: "item_ok u it"
    and h: "history_inv u (it, as)" and act: "active_inv (it, as)" by (simp_all add: work_inv_def)
  note la = active_last[OF act assms(2)]
  have ao: "attempt_of u it (last as)" using h la(1) by (simp add: history_inv_def)
  have "match_active u it (last as) = Inr ()"
    using ok ao la(2,3) history_last_number[OF h la(1)] by (simp add: match_active_ok attempt_of_def)
  moreover have "it_Phase it = Assigned \<or> it_Phase it = Running" using item_ok_active[OF ok] assms(2) by simp
  ultimately have "validate_delivery u it (last as) = Inr ()"
    using la(4,7) ao by (auto simp: validate_delivery_def attempt_of_def)
  moreover have "validate_delivery u it (as ! i) \<noteq> Inr ()" if "i < length as - 1" for i
  proof
    assume "validate_delivery u it (as ! i) = Inr ()"
    then have m: "match_active u it (as ! i) = Inr ()" by (simp add: validate_delivery_def)
    from that have i: "i < length as" by simp
    from matched_is_last(2)[OF inv i m] that show False by simp
  qed
  ultimately show ?thesis using la(1) by simp
qed

theorem active_attempt_deliverable_witness:
  "validate_delivery crockford_ulid ex_running ex_started = Inr ()"
proof -
  have "it_ActiveAttemptID ex_running \<noteq> []" by (simp add: ex_running_def ex_assigned_def ex_id_def)
  from active_attempt_deliverable[OF ex_running_reachable this] show ?thesis by simp
qed

text \<open>C5. Revocation is permanent: once \<open>ForwardRevoked\<close> is set, no sequence of transitions clears
  it, and none assigns or starts another forward attempt; only recovery remains possible.\<close>

theorem revocation_is_permanent:
  assumes "(work_step u)\<^sup>*\<^sup>* (it, as) (it', as')" "it_ForwardRevoked it"
  shows "it_ForwardRevoked it' \<and> forward_assigned as' = forward_assigned as \<and>
    forward_started as' = forward_started as"
  using work_steps_keep[OF assms(1)] assms(2) by (simp add: keeps_record_def)

theorem revocation_is_permanent_witness:
  "it_ForwardRevoked ex_cleaning \<and> forward_started [ex_finished] = 1"
proof -
  have "it_ForwardRevoked ex_revoked" by (simp add: ex_revoked_def)
  from revocation_is_permanent[OF ex_cleanup_steps this]
  show ?thesis by (simp add: forward_started_def ex_finished_def ex_started_def ex_attempt_def)
qed

text \<open>The history is append-only: through any sequence of transitions an attempt keeps its
  identity, number, executor, input, direction, assignment time and deadline; a recorded start
  time never changes, and a finished attempt never changes at all.\<close>

theorem history_is_append_only:
  assumes "(work_step u)\<^sup>*\<^sup>* (it, as) (it', as')" "i < length as"
  shows "i < length as' \<and> same_assignment (as ! i) (as' ! i) \<and>
    at_Deadline (as' ! i) = at_Deadline (as ! i) \<and>
    (at_StartedAt (as ! i) = None \<or> at_StartedAt (as' ! i) = at_StartedAt (as ! i)) \<and>
    (at_FinishedAt (as ! i) = None \<or> as' ! i = as ! i)"
  using work_steps_keep(2)[OF assms(1)] assms(2)
  by (auto simp: history_extends_def attempt_extends_def)

theorem history_is_append_only_witness:
  "same_assignment ([ex_finished] ! 0) ([ex_finished] ! 0) \<and> at_Deadline ex_finished = ex_time 600"
  using history_is_append_only[OF ex_cleanup_steps, of 0]
  by (simp add: ex_finished_def ex_started_def ex_attempt_def)

text \<open>The original failure is retained: once an item records its first failure, no sequence of
  transitions (cleanup, retry or supersession) replaces it or the attempt it is attributed to.\<close>

theorem first_failure_is_retained:
  assumes "(work_step u)\<^sup>*\<^sup>* (it, as) (it', as')" "it_FirstFailure it = Some f"
  shows "it_FirstFailure it' = Some f \<and> it_FirstFailureAttempt it' = it_FirstFailureAttempt it"
  using work_steps_keep(1)[OF assms(1)] assms(2) by (simp add: keeps_record_def)

theorem first_failure_is_retained_witness:
  "it_FirstFailure ex_cleaning = Some (ex_input CHR ''2'') \<and> it_FirstFailureAttempt ex_cleaning = 1"
proof -
  have "it_FirstFailure ex_revoked = Some (ex_input CHR ''2'')" "it_FirstFailureAttempt ex_revoked = 1"
    by (simp_all add: ex_revoked_def ex_failed_def)
  with first_failure_is_retained[OF ex_cleanup_steps this(1)] show ?thesis by simp
qed

text \<open>\<open>Start\<close> is idempotent: delivering the same start acknowledgement again, at any later or
  earlier time, returns the running item and the started attempt unchanged, with the first start
  time and the original deadline.\<close>

theorem start_is_idempotent:
  assumes "work_reachable u (it, as)" "start u it (last as) now = Inr (it', a')" "as \<noteq> []" "valid_time now"
  shows "start u it' a' again = Inr (it', a') \<and> at_Deadline a' = at_Deadline (last as)"
proof -
  have inv: "work_inv u (it, as)" by (rule work_reachable_inv[OF assms(1)])
  have r: "start u it (as ! (length as - 1)) now = Inr (it', a')" using assms(2,3) by (simp add: last_conv_nth)
  have i: "length as - 1 < length as" using assms(3) by simp
  have m: "match_active u it (last as) = Inr ()" using assms(2) by (simp add: start_Inr)
  have inv': "work_inv u (it', as[length as - 1 := a'])" by (rule start_inv[OF inv i r assms(4)])
  then have ok': "item_ok u it'" by (simp add: work_inv_def)
  have "attempt_of u it' a'"
    using inv' assms(3) by (simp add: work_inv_def history_inv_def update_last)
  moreover have "it_ActiveAttemptID it' = at_ID a'" "it_AttemptNumber it' = at_Number a'"
    "at_FinishedAt a' = None" "at_StartedAt a' \<noteq> None" "at_Deadline a' = at_Deadline (last as)"
    using assms(2) m by (cases "at_StartedAt (last as)"; simp add: start_Inr match_active_ok)+
  ultimately have "match_active u it' a' = Inr ()" "at_StartedAt a' \<noteq> None" "at_Deadline a' = at_Deadline (last as)"
    using ok' by (simp_all add: match_active_ok attempt_of_def)
  then show ?thesis by (simp add: start_Inr)
qed

theorem start_is_idempotent_witness:
  "start crockford_ulid ex_running ex_started (ex_time 900) = Inr (ex_running, ex_started)"
  using start_is_idempotent[OF ex_assigned_reachable, of "ex_time 2" ex_running ex_started] ex_start
    ex_time_valid[of 2] by simp

text \<open>C6. No reachable item is stuck: from every reachable state some sequence of transitions settles
  the item, as long as its attempt number has not reached the largest \<open>uint64\<close> and there is a valid
  time after its last update and its deadline. Unknown effects never need to be forgotten for it:
  the sequence finishes the active attempt, withdraws queued forward work, or recovers.\<close>

theorem reachable_work_can_settle:
  assumes "work_reachable u (it, as)" "it_AttemptNumber it \<noteq> - 1"
    and "valid_time t" "after t (it_UpdatedAt it)" "after t (it_Deadline it)"
    and "valid_time t'" "after t' t"
  shows "\<exists>it' as'. (work_step u)\<^sup>*\<^sup>* (it, as) (it', as') \<and> it_Phase it' = Settled"
  using reachable_can_settle[OF assms] by (auto simp: can_settle_def)

theorem reachable_work_can_settle_witness:
  "\<exists>it' as'. (work_step crockford_ulid)\<^sup>*\<^sup>* (ex_revoked, [ex_finished]) (it', as') \<and> it_Phase it' = Settled"
proof (rule reachable_work_can_settle[OF ex_revoked_reachable _ ex_time_valid[of 700] _ _ ex_time_valid[of 800]])
  show "it_AttemptNumber ex_revoked \<noteq> - 1" by (simp add: ex_defs)
  show "after (ex_time 700) (it_UpdatedAt ex_revoked)" "after (ex_time 700) (it_Deadline ex_revoked)"
    by (simp_all add: ex_defs ex_time_defs)
  show "after (ex_time 800) (ex_time 700)" by (simp add: ex_time_defs)
qed simp_all

text \<open>\<open>ReleaseRetryWait\<close> does not validate its result: for a valid item that waits for a retry, the
  released item is valid exactly when its input was captured. Reachable items satisfy this, because
  only \<open>Retry\<close> creates such a wait.\<close>

theorem release_retry_wait_valid_iff:
  assumes "release_retry_wait u it now = Inr it'" "valid_time now"
  shows "item_validate u it' = Inr () \<longleftrightarrow> it_Input it \<noteq> None"
  using release_retry_wait_keeps_ok_iff[OF assms] by simp

definition ex_unprepared :: item where
  "ex_unprepared = ex_item\<lparr>it_Input := None, it_Phase := Waiting,
     it_Wait := Some \<lparr>wt_Reason = WaitRetry, wt_WorkItemID = [], wt_TaskID = [], wt_Until = Some (ex_time 5)\<rparr>\<rparr>"

theorem release_retry_wait_valid_iff_witness:
  "item_validate crockford_ulid (ex_unprepared\<lparr>it_Phase := Ready, it_Wait := None, it_UpdatedAt := ex_time 6\<rparr>) \<noteq> Inr ()"
proof -
  have "item_ok crockford_ulid ex_unprepared"
  proof (rule item_okI[OF ex_item_ok])
    show "item_state_ok crockford_ulid ex_unprepared"
      using ex_time_valid[of 5]
      by (simp add: item_state_by_phase outcome_cleanup_ok_def ex_unprepared_def wait_validate_def)
        (simp add: ex_item_def)
  qed (simp_all add: ex_unprepared_def item_times_ok_def item_results_ok_def)
  then have "release_retry_wait crockford_ulid ex_unprepared (ex_time 6) =
      Inr (ex_unprepared\<lparr>it_Phase := Ready, it_Wait := None, it_UpdatedAt := ex_time 6\<rparr>)"
    by (simp add: release_retry_wait_Inr) (simp add: ex_unprepared_def ex_item_def ex_time_defs)
  from release_retry_wait_valid_iff[OF this ex_time_valid] show ?thesis
    by (simp add: ex_unprepared_def)
qed

end
