(* ===== verification/WorkTask.thy ===== *)
theory WorkTask
  imports WorkLifecycle Kahn
begin

text \<open>
  The Task that owns the work items (\<open>task.go\<close>, \<open>progress.go\<close>, \<open>stop.go\<close>, \<open>activation.go\<close>,
  \<open>publication_settlement.go\<close>, \<open>planning_failure.go\<close> and \<open>retention.go\<close> of
  \<open>internal/common/workexecution\<close>): the counters of its items by state, its stop request, its
  completion and its retention. The nine counters are \<open>uint32\<close>; their sums are \<open>uint64\<close>.
\<close>

section \<open>Data\<close>

datatype action =
    ActionDeploy | ActionRollback | ActionBackup | ActionBackupPrune | ActionRestore | ActionAttach
  | ActionDetach | ActionRun | ActionScript | ActionProvision | ActionCreate | ActionUpdate
  | ActionRemove | ActionStart | ActionStop | ActionDestroy | ActionRotate | ActionFetch
  | ActionPrepare | ActionApply | ActionActivate | ActionCheck | ActionOther string

datatype actor = OperatorActor | SystemActor | ActorOther string

fun valid_action :: "action \<Rightarrow> bool" where
  "valid_action (ActionOther s) = False"
| "valid_action _ = True"

record scope =
  sc_TenantID :: string
  sc_ProjectID :: string
  sc_EnvironmentID :: string

record progress =
  pg_Waiting :: u32
  pg_Ready :: u32
  pg_Assigned :: u32
  pg_Running :: u32
  pg_Attention :: u32
  pg_Succeeded :: u32
  pg_Failed :: u32
  pg_Cancelled :: u32
  pg_Superseded :: u32

record stop_request =
  sr_Outcome :: outcome
  sr_RequestedAt :: gotime

record activation_grant =
  ag_WorkItemID :: string
  ag_AttemptID :: string
  ag_Input :: input
  ag_GrantedAt :: gotime

record task =
  tk_ID :: string
  tk_Actor :: actor
  tk_Scope :: scope
  tk_Action :: action
  tk_TargetID :: string
  tk_TargetName :: string
  tk_Intent :: input
  tk_CreatedAt :: gotime
  tk_UpdatedAt :: gotime
  tk_Deadline :: gotime
  tk_ExpectedItems :: u32
  tk_PublicationComplete :: bool
  tk_Progress :: progress
  tk_Outcome :: outcome
  tk_FirstFailure :: "input option"
  tk_FinishedAt :: "gotime option"
  tk_RetainUntil :: "gotime option"
  tk_CollectionStartedAt :: "gotime option"
  tk_Stop :: "stop_request option"
  tk_Activation :: "activation_grant option"

definition widen :: "u32 \<Rightarrow> u64" where
  "widen n = ucast n"

definition progress_unsettled :: "progress \<Rightarrow> u64" where
  "progress_unsettled p =
     widen (pg_Waiting p) + widen (pg_Ready p) + widen (pg_Assigned p) + widen (pg_Running p) +
     widen (pg_Attention p)"

definition progress_total :: "progress \<Rightarrow> u64" where
  "progress_total p =
     progress_unsettled p + widen (pg_Succeeded p) + widen (pg_Failed p) + widen (pg_Cancelled p) +
     widen (pg_Superseded p)"

definition maximum_task_items :: u32 where "maximum_task_items = 4096"

section \<open>Validation\<close>

definition scope_validate :: "ulid_check \<Rightarrow> scope \<Rightarrow> unit res" where
  "scope_validate u s =
     (if sc_TenantID s \<noteq> [] \<and> \<not> id_valid u KindTenant (sc_TenantID s) \<or>
         sc_ProjectID s \<noteq> [] \<and> \<not> id_valid u KindProject (sc_ProjectID s) \<or>
         sc_EnvironmentID s \<noteq> [] \<and>
           (sc_ProjectID s = [] \<or> \<not> id_valid u KindEnvironment (sc_EnvironmentID s))
      then Inl ValidationFailed else Inr ())"

definition activation_validate :: "ulid_check \<Rightarrow> activation_grant \<Rightarrow> unit res" where
  "activation_validate u g =
     (if \<not> id_valid u KindWorkItem (ag_WorkItemID g) \<or> \<not> id_valid u KindAttempt (ag_AttemptID g) \<or>
         \<not> valid_time (ag_GrantedAt g)
        then Inl ValidationFailed
      else input_validate u (ag_Input g))"

definition task_validate :: "ulid_check \<Rightarrow> task \<Rightarrow> unit res" where
  "task_validate u t =
     (if \<not> id_valid u KindTask (tk_ID t) \<or> \<not> valid_action (tk_Action t) \<or>
         tk_Actor t \<noteq> OperatorActor \<and> tk_Actor t \<noteq> SystemActor \<or>
         \<not> valid_resource_id u (tk_TargetID t) \<or> 256 < length (tk_TargetName t) \<or>
         \<not> valid_utf8 (tk_TargetName t)
        then Inl ValidationFailed
      else try_res (scope_validate u (tk_Scope t)) (\<lambda>_.
      try_res (input_validate u (tk_Intent t)) (\<lambda>_.
      if \<not> valid_time (tk_CreatedAt t) \<or> \<not> valid_time (tk_UpdatedAt t) \<or> \<not> valid_time (tk_Deadline t) \<or>
         before (tk_UpdatedAt t) (tk_CreatedAt t) \<or> \<not> after (tk_Deadline t) (tk_CreatedAt t) \<or>
         tk_ExpectedItems t = 0 \<and> tk_Action t \<noteq> ActionApply \<and> tk_Action t \<noteq> ActionRemove \<or>
         maximum_task_items < tk_ExpectedItems t \<or>
         widen (tk_ExpectedItems t) < progress_total (tk_Progress t) \<or>
         tk_PublicationComplete t \<and> progress_total (tk_Progress t) \<noteq> widen (tk_ExpectedItems t)
        then Inl ValidationFailed
      else try_res (opt_res (input_validate u) (tk_FirstFailure t)) (\<lambda>_.
      if \<not> opt_all (\<lambda>s. (sr_Outcome s = Cancelled \<or> sr_Outcome s = Superseded) \<and>
              valid_time (sr_RequestedAt s) \<and> \<not> before (sr_RequestedAt s) (tk_CreatedAt t) \<and>
              \<not> after (sr_RequestedAt s) (tk_UpdatedAt t)) (tk_Stop t)
        then Inl ValidationFailed
      else try_res (opt_res (\<lambda>g. try_res (activation_validate u g) (\<lambda>_.
              if tk_Stop t \<noteq> None \<or> before (ag_GrantedAt g) (tk_CreatedAt t) \<or>
                 after (ag_GrantedAt g) (tk_UpdatedAt t)
              then Inl ValidationFailed else Inr ())) (tk_Activation t)) (\<lambda>_.
      if tk_Outcome t \<noteq> NoOutcome \<and> \<not> valid_outcome (tk_Outcome t) then Inl ValidationFailed
      else if (case tk_FinishedAt t of
                 None \<Rightarrow> tk_RetainUntil t \<noteq> None
               | Some f \<Rightarrow>
                   \<not> valid_time f \<or> before f (tk_CreatedAt t) \<or> after f (tk_UpdatedAt t) \<or>
                   tk_Outcome t = NoOutcome \<or> \<not> tk_PublicationComplete t \<or>
                   progress_unsettled (tk_Progress t) \<noteq> 0 \<or>
                   (case tk_RetainUntil t of None \<Rightarrow> True | Some r \<Rightarrow> \<not> valid_time r \<or> \<not> after r f))
        then Inl ValidationFailed
      else if tk_Outcome t = Succeeded \<and>
              (tk_Stop t \<noteq> None \<or> \<not> tk_PublicationComplete t \<or>
               pg_Succeeded (tk_Progress t) \<noteq> tk_ExpectedItems t)
        then Inl ValidationFailed
      else if (case tk_CollectionStartedAt t of
                 None \<Rightarrow> False
               | Some c \<Rightarrow>
                   tk_FinishedAt t = None \<or>
                   (case tk_RetainUntil t of None \<Rightarrow> True | Some r \<Rightarrow> \<not> valid_time c \<or> before c r) \<or>
                   after c (tk_UpdatedAt t))
        then Inl ValidationFailed
      else Inr ())))))"

section \<open>Counters\<close>

text \<open>\<open>progressCounter\<close> returns a pointer to one counter; the model names the counter.\<close>

datatype counter =
    CountWaiting | CountReady | CountAssigned | CountRunning | CountAttention
  | CountSucceeded | CountFailed | CountCancelled | CountSuperseded

fun get_count :: "counter \<Rightarrow> progress \<Rightarrow> u32" where
  "get_count CountWaiting = pg_Waiting"
| "get_count CountReady = pg_Ready"
| "get_count CountAssigned = pg_Assigned"
| "get_count CountRunning = pg_Running"
| "get_count CountAttention = pg_Attention"
| "get_count CountSucceeded = pg_Succeeded"
| "get_count CountFailed = pg_Failed"
| "get_count CountCancelled = pg_Cancelled"
| "get_count CountSuperseded = pg_Superseded"

fun map_count :: "counter \<Rightarrow> (u32 \<Rightarrow> u32) \<Rightarrow> progress \<Rightarrow> progress" where
  "map_count CountWaiting = pg_Waiting_update"
| "map_count CountReady = pg_Ready_update"
| "map_count CountAssigned = pg_Assigned_update"
| "map_count CountRunning = pg_Running_update"
| "map_count CountAttention = pg_Attention_update"
| "map_count CountSucceeded = pg_Succeeded_update"
| "map_count CountFailed = pg_Failed_update"
| "map_count CountCancelled = pg_Cancelled_update"
| "map_count CountSuperseded = pg_Superseded_update"

definition progress_counter :: "item \<Rightarrow> counter option" where
  "progress_counter it =
     (case it_Phase it of
        Waiting \<Rightarrow> Some CountWaiting
      | Ready \<Rightarrow> Some CountReady
      | Assigned \<Rightarrow> Some CountAssigned
      | Running \<Rightarrow> Some CountRunning
      | Attention \<Rightarrow> Some CountAttention
      | Settled \<Rightarrow>
          (case it_Outcome it of
             Succeeded \<Rightarrow> Some CountSucceeded
           | Failed \<Rightarrow> Some CountFailed
           | Cancelled \<Rightarrow> Some CountCancelled
           | Superseded \<Rightarrow> Some CountSuperseded
           | _ \<Rightarrow> None)
      | WorkPhaseOther s \<Rightarrow> None)"

abbreviation count_up :: "counter \<Rightarrow> progress \<Rightarrow> progress" where
  "count_up c \<equiv> map_count c (\<lambda>n. n + 1)"

abbreviation count_down :: "counter \<Rightarrow> progress \<Rightarrow> progress" where
  "count_down c \<equiv> map_count c (\<lambda>n. n - 1)"

section \<open>Publication of items\<close>

fun count_items :: "ulid_check \<Rightarrow> task \<Rightarrow> string list \<Rightarrow> item list \<Rightarrow> task \<Rightarrow> task res" where
  "count_items u t seen [] next = Inr next"
| "count_items u t seen (it # its) next =
     try_res (item_validate u it) (\<lambda>_.
     if it_TaskID it \<noteq> tk_ID t \<or> it_AttemptNumber it \<noteq> 0 \<or> it_Outcome it \<noteq> NoOutcome \<or>
        it_Cleanup it \<noteq> CleanupNone \<or> it_Phase it \<noteq> Waiting \<and> it_Phase it \<noteq> Ready \<or>
        before (it_CreatedAt it) (tk_CreatedAt t) \<or> after (it_Deadline it) (tk_Deadline t)
       then Inl ValidationFailed
     else if it_ID it \<in> set seen then Inl ValidationFailed
     else case progress_counter it of
            None \<Rightarrow> Inl Panic
          | Some c \<Rightarrow>
              count_items u t (it_ID it # seen) its (next\<lparr>tk_Progress := count_up c (tk_Progress next)\<rparr>))"

definition count_publication :: "ulid_check \<Rightarrow> task \<Rightarrow> item list \<Rightarrow> gotime \<Rightarrow> task res" where
  "count_publication u t items now =
     try_res (task_validate u t) (\<lambda>_.
     if tk_PublicationComplete t \<or> before now (tk_UpdatedAt t) \<or>
        widen (tk_ExpectedItems t) < progress_total (tk_Progress t) + of_nat (length items)
       then Inl StateConflict
     else try_res (count_items u t [] items t) (\<lambda>next. Inr (next\<lparr>tk_UpdatedAt := now\<rparr>)))"

section \<open>The captured graph\<close>

fun graph_items :: "ulid_check \<Rightarrow> task \<Rightarrow> string list \<Rightarrow> item list \<Rightarrow> unit res" where
  "graph_items u t seen [] = Inr ()"
| "graph_items u t seen (it # its) =
     try_res (item_validate u it) (\<lambda>_.
     if it_TaskID it \<noteq> tk_ID t \<or> before (it_CreatedAt it) (tk_CreatedAt t) \<or>
        after (it_Deadline it) (tk_Deadline t)
       then Inl ValidationFailed
     else if it_ID it \<in> set seen then Inl ValidationFailed
     else graph_items u t (it_ID it # seen) its)"

text \<open>The edges from a dependency to its dependent, in the order the loop appends them.\<close>

definition item_graph :: "item list \<Rightarrow> (string \<times> string) list" where
  "item_graph items = concat (map (\<lambda>it. map (\<lambda>d. (d, it_ID it)) (it_Dependencies it)) items)"

definition validate_graph :: "ulid_check \<Rightarrow> task \<Rightarrow> item list \<Rightarrow> unit res" where
  "validate_graph u t items =
     try_res (task_validate u t) (\<lambda>_.
     if of_nat (length items) \<noteq> widen (tk_ExpectedItems t) then Inl ValidationFailed
     else try_res (graph_items u t [] items) (\<lambda>_.
     if list_ex (\<lambda>it. list_ex (\<lambda>d. d \<notin> it_ID ` set items) (it_Dependencies it)) items
       then Inl ValidationFailed
     else (let ready = map it_ID (filter (\<lambda>it. length (it_Dependencies it) = 0) items);
               ordered = kahn_run push_back (item_graph items) (map it_ID items) ready
           in if length ordered \<noteq> length items then Inl ValidationFailed else Inr ())))"

text \<open>\<open>PreparePublicationComplete\<close> of \<open>internal/infra/etcd/workqueue/task.go\<close>: the Task it writes.
  \<open>EncodeTask\<close> validates the Task; the revision and the storage keys are not part of this model.\<close>

definition publication_complete :: "ulid_check \<Rightarrow> task \<Rightarrow> item list \<Rightarrow> gotime \<Rightarrow> task res" where
  "publication_complete u t items now =
     (if tk_PublicationComplete t \<or> before now (tk_UpdatedAt t) then Inl ValidationFailed
      else try_res (validate_graph u t items) (\<lambda>_.
      if list_ex (\<lambda>it. it_AttemptNumber it \<noteq> 0 \<or> it_Outcome it \<noteq> NoOutcome \<or>
             it_Phase it \<noteq> Ready \<and> it_Phase it \<noteq> Waiting) items
        then Inl ValidationFailed
      else (let next = t\<lparr>tk_PublicationComplete := True, tk_UpdatedAt := now\<rparr>
            in try_res (task_validate u next) (\<lambda>_. Inr next))))"

section \<open>Counting a transition and a retry\<close>

definition count_transition :: "ulid_check \<Rightarrow> task \<Rightarrow> item \<Rightarrow> item \<Rightarrow> gotime \<Rightarrow> task res" where
  "count_transition u t old new now =
     try_res (task_validate u t) (\<lambda>_.
     try_res (item_validate u old) (\<lambda>_.
     try_res (item_validate u new) (\<lambda>_.
     if \<not> tk_PublicationComplete t \<or> tk_FinishedAt t \<noteq> None \<or> it_TaskID old \<noteq> tk_ID t \<or>
        it_TaskID new \<noteq> tk_ID t \<or> it_ID old \<noteq> it_ID new \<or> before now (tk_UpdatedAt t)
       then Inl StateConflict
     else case progress_counter old of
            None \<Rightarrow> Inl ValidationFailed
          | Some c \<Rightarrow>
     if get_count c (tk_Progress t) = 0 then Inl ValidationFailed
     else (let p = count_down c (tk_Progress t) in
           case progress_counter new of
             None \<Rightarrow> Inl ValidationFailed
           | Some c' \<Rightarrow>
               Inr (t\<lparr>tk_Progress := count_up c' p,
                      tk_FirstFailure :=
                        (if tk_FirstFailure t = None then it_FirstFailure new else tk_FirstFailure t),
                      tk_Outcome :=
                        (if it_Outcome new = Failed then Failed
                         else if it_Outcome new = Cancelled \<and> tk_Outcome t \<noteq> Failed then Cancelled
                         else if it_Outcome new = Superseded \<and> tk_Outcome t = NoOutcome then Superseded
                         else tk_Outcome t),
                      tk_UpdatedAt := now\<rparr>)))))"

definition count_retry :: "ulid_check \<Rightarrow> task \<Rightarrow> item \<Rightarrow> item \<Rightarrow> gotime \<Rightarrow> task res" where
  "count_retry u t old new now =
     try_res (task_validate u t) (\<lambda>_.
     try_res (item_validate u old) (\<lambda>_.
     try_res (item_validate u new) (\<lambda>_.
     if \<not> tk_PublicationComplete t \<or> tk_CollectionStartedAt t \<noteq> None \<or> it_TaskID old \<noteq> tk_ID t \<or>
        it_TaskID new \<noteq> tk_ID t \<or> it_ID old \<noteq> it_ID new \<or>
        it_AttemptNumber old \<noteq> it_AttemptNumber new \<or>
        it_Phase old \<noteq> Settled \<and> it_Phase old \<noteq> Attention \<or>
        it_Phase new \<noteq> Ready \<and> it_Phase new \<noteq> Waiting \<or> before now (tk_UpdatedAt t)
       then Inl StateConflict
     else if tk_Stop t \<noteq> None \<and> it_Cleanup new = CleanupNone then Inl StateConflict
     else case (progress_counter old, progress_counter new) of
            (Some c, Some c') \<Rightarrow>
              if get_count c (tk_Progress t) = 0 then Inl ValidationFailed
              else (let p = count_up c' (count_down c (tk_Progress t)) in
                Inr (t\<lparr>tk_Progress := p, tk_FinishedAt := None, tk_RetainUntil := None, tk_UpdatedAt := now,
                       tk_Deadline := (if after (it_Deadline new) (tk_Deadline t)
                                       then it_Deadline new else tk_Deadline t),
                       tk_Outcome :=
                         (if it_Outcome new = NoOutcome \<and> pg_Failed p = 0 \<and> pg_Attention p = 0 \<and>
                             pg_Cancelled p = 0 \<and> pg_Superseded p = 0
                          then NoOutcome else tk_Outcome t)\<rparr>))
          | _ \<Rightarrow> Inl ValidationFailed)))"

section \<open>Completion, stop and retention\<close>

definition completion_outcome :: "ulid_check \<Rightarrow> task \<Rightarrow> outcome res" where
  "completion_outcome u t =
     try_res (task_validate u t) (\<lambda>_.
     if \<not> tk_PublicationComplete t \<or> progress_unsettled (tk_Progress t) \<noteq> 0 \<or> tk_FinishedAt t \<noteq> None
       then Inl StateConflict
     else if 0 < pg_Failed (tk_Progress t) then Inr Failed
     else case tk_Stop t of
            Some s \<Rightarrow> Inr (sr_Outcome s)
          | None \<Rightarrow>
              if 0 < pg_Cancelled (tk_Progress t) then Inr Cancelled
              else if 0 < pg_Superseded (tk_Progress t) then Inr Superseded
              else Inr Succeeded)"

definition complete_task :: "ulid_check \<Rightarrow> task \<Rightarrow> gotime \<Rightarrow> gotime \<Rightarrow> task res" where
  "complete_task u t now retainUntil =
     try_res (task_validate u t) (\<lambda>_.
     if \<not> tk_PublicationComplete t \<or> progress_unsettled (tk_Progress t) \<noteq> 0 \<or> tk_FinishedAt t \<noteq> None \<or>
        before now (tk_UpdatedAt t) \<or> \<not> after retainUntil now
       then Inl StateConflict
     else try_res (completion_outcome u t) (\<lambda>result.
       (let next = t\<lparr>tk_Outcome := result, tk_UpdatedAt := now, tk_FinishedAt := Some now,
                     tk_RetainUntil := Some retainUntil\<rparr>
        in try_res (task_validate u next) (\<lambda>_. Inr next))))"

text \<open>\<open>CancellationFailure\<close> fails exactly when \<open>CancellationRestriction\<close> gives a reason.\<close>

definition cancellation_restricted :: "task \<Rightarrow> bool" where
  "cancellation_restricted t \<longleftrightarrow> tk_Action t = ActionBackupPrune \<or> tk_Activation t \<noteq> None"

definition cancellation_failure :: "task \<Rightarrow> unit res" where
  "cancellation_failure t = (if cancellation_restricted t then Inl TaskNotAbortable else Inr ())"

definition request_stop :: "ulid_check \<Rightarrow> task \<Rightarrow> outcome \<Rightarrow> gotime \<Rightarrow> task res" where
  "request_stop u t result now =
     try_res (task_validate u t) (\<lambda>_.
     if result \<noteq> Cancelled \<and> result \<noteq> Superseded \<or> \<not> valid_time now \<or> before now (tk_UpdatedAt t)
       then Inl ValidationFailed
     else if tk_FinishedAt t \<noteq> None then Inl StateConflict
     else try_res (cancellation_failure t) (\<lambda>_.
     if tk_Stop t \<noteq> None then Inr t
     else Inr (t\<lparr>tk_Stop := Some \<lparr>sr_Outcome = result, sr_RequestedAt = now\<rparr>, tk_UpdatedAt := now\<rparr>)))"

definition authorize_activation ::
  "ulid_check \<Rightarrow> task \<Rightarrow> item \<Rightarrow> attempt \<Rightarrow> input \<Rightarrow> gotime \<Rightarrow> task res" where
  "authorize_activation u t it a inp now =
     try_res (task_validate u t) (\<lambda>_.
     try_res (match_active u it a) (\<lambda>_.
     if it_TaskID it \<noteq> tk_ID t \<or> it_Operation it \<noteq> OpControllerSoftware \<and> it_Operation it \<noteq> OpAgentSoftware \<or>
        it_Phase it \<noteq> Running \<or> at_Direction a \<noteq> Forward \<or> at_StartedAt a = None \<or>
        it_ForwardRevoked it \<or> tk_Stop t \<noteq> None \<or> tk_FinishedAt t \<noteq> None \<or> tk_Activation t \<noteq> None \<or>
        \<not> before now (at_Deadline a) \<or> \<not> before now (tk_Deadline t) \<or>
        before now (it_UpdatedAt it) \<or> before now (tk_UpdatedAt t)
       then Inl StateConflict
     else (let grant = \<lparr>ag_WorkItemID = it_ID it, ag_AttemptID = at_ID a, ag_Input = inp, ag_GrantedAt = now\<rparr>
           in try_res (activation_validate u grant) (\<lambda>_.
              Inr (t\<lparr>tk_Activation := Some grant, tk_UpdatedAt := now\<rparr>)))))"

text \<open>\<open>SettlePublication\<close>: a staged item leaves its counter, a missing one needs room; then the
  terminal counter, the first failure and the outcome of the Task are written.\<close>

definition leave_staged :: "task \<Rightarrow> item \<Rightarrow> bool \<Rightarrow> progress res" where
  "leave_staged t it published =
     (if published then
        (case progress_counter it of
           None \<Rightarrow> Inl ValidationFailed
         | Some k \<Rightarrow>
             if get_count k (tk_Progress t) = 0 then Inl ValidationFailed
             else Inr (count_down k (tk_Progress t)))
      else if widen (tk_ExpectedItems t) \<le> progress_total (tk_Progress t) then Inl ValidationFailed
      else Inr (tk_Progress t))"

definition settled_task :: "task \<Rightarrow> item \<Rightarrow> completion \<Rightarrow> progress \<Rightarrow> gotime \<Rightarrow> task" where
  "settled_task t nextItem c p now =
     t\<lparr>tk_Progress := p,
       tk_FirstFailure := (if tk_FirstFailure t = None then it_FirstFailure nextItem else tk_FirstFailure t),
       tk_Outcome := (if co_Outcome c = Failed \<or> tk_Outcome t = NoOutcome then co_Outcome c else tk_Outcome t),
       tk_UpdatedAt := now\<rparr>"

definition settle_publication ::
  "ulid_check \<Rightarrow> task \<Rightarrow> item \<Rightarrow> bool \<Rightarrow> completion \<Rightarrow> gotime \<Rightarrow> (task \<times> item) res" where
  "settle_publication u t it published c now =
     (if task_validate u t \<noteq> Inr () \<or> tk_PublicationComplete t \<or> tk_FinishedAt t \<noteq> None \<or>
         tk_CollectionStartedAt t \<noteq> None \<or> \<not> valid_time now \<or> before now (tk_UpdatedAt t) \<or>
         it_TaskID it \<noteq> tk_ID t \<or> before (it_CreatedAt it) (tk_CreatedAt t) \<or>
         after (it_Deadline it) (tk_Deadline t) \<or>
         co_Outcome c \<noteq> Failed \<and> co_Outcome c \<noteq> Cancelled \<and> co_Outcome c \<noteq> Superseded \<or>
         co_Outcome c \<noteq> Failed \<and>
           (case tk_Stop t of None \<Rightarrow> True | Some s \<Rightarrow> sr_Outcome s \<noteq> co_Outcome c)
        then Inl StateConflict
      else try_res (settle_unstarted u it c now) (\<lambda>nextItem.
      try_res (leave_staged t it published) (\<lambda>p.
      case progress_counter nextItem of
        None \<Rightarrow> Inl Panic
      | Some k \<Rightarrow>
      (let next = settled_task t nextItem c (count_up k p) now
       in try_res (task_validate u next) (\<lambda>_. Inr (next, nextItem))))))"

definition reject_planning ::
  "ulid_check \<Rightarrow> task \<Rightarrow> outcome \<Rightarrow> input \<Rightarrow> gotime \<Rightarrow> gotime \<Rightarrow> task res" where
  "reject_planning u t result evidence now retainUntil =
     try_res (task_validate u t) (\<lambda>_.
     try_res (input_validate u evidence) (\<lambda>_.
     if result \<noteq> Failed \<and>
        ((case tk_Stop t of None \<Rightarrow> True | Some s \<Rightarrow> sr_Outcome s \<noteq> result) \<or>
         result \<noteq> Cancelled \<and> result \<noteq> Superseded)
       then Inl StateConflict
     else if tk_PublicationComplete t \<or> tk_ExpectedItems t \<noteq> 0 \<or> progress_total (tk_Progress t) \<noteq> 0 \<or>
             tk_FinishedAt t \<noteq> None \<or> tk_CollectionStartedAt t \<noteq> None \<or> tk_Activation t \<noteq> None \<or>
             \<not> valid_time now \<or> before now (tk_UpdatedAt t) \<or> \<not> valid_time retainUntil \<or>
             \<not> after retainUntil now
       then Inl StateConflict
     else (let next = t\<lparr>tk_PublicationComplete := True, tk_Outcome := result,
             tk_FirstFailure := (if result = Failed \<and> tk_FirstFailure t = None then Some evidence
                                 else tk_FirstFailure t),
             tk_UpdatedAt := now, tk_FinishedAt := Some now, tk_RetainUntil := Some retainUntil\<rparr>
       in try_res (task_validate u next) (\<lambda>_. Inr next))))"

definition begin_collection :: "ulid_check \<Rightarrow> task \<Rightarrow> gotime \<Rightarrow> task res" where
  "begin_collection u t now =
     try_res (task_validate u t) (\<lambda>_.
     if tk_CollectionStartedAt t \<noteq> None then Inr t
     else case tk_RetainUntil t of
            None \<Rightarrow> Inl StateConflict
          | Some r \<Rightarrow>
     if \<not> valid_time now \<or> tk_FinishedAt t = None \<or> progress_unsettled (tk_Progress t) \<noteq> 0 \<or>
        before now r \<or> before now (tk_UpdatedAt t)
       then Inl StateConflict
     else (let next = t\<lparr>tk_CollectionStartedAt := Some now, tk_UpdatedAt := now\<rparr>
           in try_res (task_validate u next) (\<lambda>_. Inr next)))"

section \<open>The counters as natural numbers\<close>

definition total_nat :: "progress \<Rightarrow> nat" where
  "total_nat p =
     unat (pg_Waiting p) + unat (pg_Ready p) + unat (pg_Assigned p) + unat (pg_Running p) +
     unat (pg_Attention p) + unat (pg_Succeeded p) + unat (pg_Failed p) + unat (pg_Cancelled p) +
     unat (pg_Superseded p)"

definition unsettled_nat :: "progress \<Rightarrow> nat" where
  "unsettled_nat p =
     unat (pg_Waiting p) + unat (pg_Ready p) + unat (pg_Assigned p) + unat (pg_Running p) +
     unat (pg_Attention p)"

lemma unat_u32_bound: "unat (n :: u32) < 4294967296"
  using unsigned_less[of n] by simp

lemma unat_of_nat_u64: "n < 2 ^ 64 \<Longrightarrow> unat (of_nat n :: u64) = n"
  by (simp add: unat_of_nat take_bit_nat_eq_self)

lemma widen_of_nat: "widen n = of_nat (unat n)"
  by (simp add: widen_def of_nat_unat)

lemma unat_widen [simp]: "unat (widen n) = unat n"
  using unat_u32_bound[of n] unat_of_nat_u64[of "unat n"] by (simp add: widen_of_nat del: of_nat_unat)

text \<open>The sums of nine \<open>uint32\<close> never wrap around a \<open>uint64\<close>.\<close>

lemma total_nat_bound: "total_nat p < 2 ^ 36"
  using unat_u32_bound[of "pg_Waiting p"] unat_u32_bound[of "pg_Ready p"] unat_u32_bound[of "pg_Assigned p"]
    unat_u32_bound[of "pg_Running p"] unat_u32_bound[of "pg_Attention p"] unat_u32_bound[of "pg_Succeeded p"]
    unat_u32_bound[of "pg_Failed p"] unat_u32_bound[of "pg_Cancelled p"] unat_u32_bound[of "pg_Superseded p"]
  by (simp add: total_nat_def)

lemma progress_total_of_nat: "progress_total p = of_nat (total_nat p)"
  by (simp add: progress_total_def progress_unsettled_def total_nat_def widen_of_nat)

lemma progress_unsettled_of_nat: "progress_unsettled p = of_nat (unsettled_nat p)"
  by (simp add: progress_unsettled_def unsettled_nat_def widen_of_nat)

lemma unat_progress_total: "unat (progress_total p) = total_nat p"
  using total_nat_bound[of p] by (simp add: progress_total_of_nat unat_of_nat_u64)

lemma unat_progress_unsettled: "unat (progress_unsettled p) = unsettled_nat p"
proof -
  have "unsettled_nat p \<le> total_nat p" by (simp add: unsettled_nat_def total_nat_def)
  with total_nat_bound[of p] have "unsettled_nat p < 2 ^ 64" by simp
  then show ?thesis by (simp add: progress_unsettled_of_nat unat_of_nat_u64)
qed

lemma progress_comparisons:
  "widen e < progress_total p \<longleftrightarrow> unat e < total_nat p"
  "progress_total p = widen e \<longleftrightarrow> total_nat p = unat e"
  "progress_unsettled p = 0 \<longleftrightarrow> unsettled_nat p = 0"
  "progress_total p = 0 \<longleftrightarrow> total_nat p = 0"
  by (simp_all add: word_less_nat_alt word_unat_eq_iff unat_progress_total unat_progress_unsettled)

lemma get_map_count: "get_count c (map_count c' f p) = (if c = c' then f (get_count c p) else get_count c p)"
  by (cases c; cases c') simp_all

section \<open>Characterisation of a valid Task\<close>

definition task_static_ok :: "ulid_check \<Rightarrow> task \<Rightarrow> bool" where
  "task_static_ok u t \<longleftrightarrow>
     id_valid u KindTask (tk_ID t) \<and> valid_action (tk_Action t) \<and>
     (tk_Actor t = OperatorActor \<or> tk_Actor t = SystemActor) \<and> valid_resource_id u (tk_TargetID t) \<and>
     length (tk_TargetName t) \<le> 256 \<and> valid_utf8 (tk_TargetName t) \<and>
     scope_validate u (tk_Scope t) = Inr () \<and> input_ok u (tk_Intent t) \<and> valid_time (tk_CreatedAt t)"

definition task_times_ok :: "task \<Rightarrow> bool" where
  "task_times_ok t \<longleftrightarrow>
     valid_time (tk_UpdatedAt t) \<and> valid_time (tk_Deadline t) \<and>
     \<not> before (tk_UpdatedAt t) (tk_CreatedAt t) \<and> after (tk_Deadline t) (tk_CreatedAt t)"

definition task_count_ok :: "task \<Rightarrow> bool" where
  "task_count_ok t \<longleftrightarrow>
     (tk_ExpectedItems t = 0 \<longrightarrow> tk_Action t = ActionApply \<or> tk_Action t = ActionRemove) \<and>
     unat (tk_ExpectedItems t) \<le> 4096 \<and> total_nat (tk_Progress t) \<le> unat (tk_ExpectedItems t) \<and>
     (tk_PublicationComplete t \<longrightarrow> total_nat (tk_Progress t) = unat (tk_ExpectedItems t))"

definition task_requests_ok :: "ulid_check \<Rightarrow> task \<Rightarrow> bool" where
  "task_requests_ok u t \<longleftrightarrow>
     opt_all (input_ok u) (tk_FirstFailure t) \<and>
     opt_all (\<lambda>s. (sr_Outcome s = Cancelled \<or> sr_Outcome s = Superseded) \<and>
        valid_time (sr_RequestedAt s) \<and> \<not> before (sr_RequestedAt s) (tk_CreatedAt t) \<and>
        \<not> after (sr_RequestedAt s) (tk_UpdatedAt t)) (tk_Stop t) \<and>
     opt_all (\<lambda>g. activation_validate u g = Inr () \<and> tk_Stop t = None \<and>
        \<not> before (ag_GrantedAt g) (tk_CreatedAt t) \<and> \<not> after (ag_GrantedAt g) (tk_UpdatedAt t))
       (tk_Activation t)"

definition task_finish_ok :: "task \<Rightarrow> bool" where
  "task_finish_ok t \<longleftrightarrow>
     (tk_Outcome t = NoOutcome \<or> valid_outcome (tk_Outcome t)) \<and>
     (case tk_FinishedAt t of
        None \<Rightarrow> tk_RetainUntil t = None
      | Some f \<Rightarrow>
          valid_time f \<and> \<not> before f (tk_CreatedAt t) \<and> \<not> after f (tk_UpdatedAt t) \<and>
          tk_Outcome t \<noteq> NoOutcome \<and> tk_PublicationComplete t \<and> unsettled_nat (tk_Progress t) = 0 \<and>
          (case tk_RetainUntil t of None \<Rightarrow> False | Some r \<Rightarrow> valid_time r \<and> after r f)) \<and>
     (tk_Outcome t = Succeeded \<longrightarrow>
        tk_Stop t = None \<and> tk_PublicationComplete t \<and> pg_Succeeded (tk_Progress t) = tk_ExpectedItems t) \<and>
     (case tk_CollectionStartedAt t of
        None \<Rightarrow> True
      | Some c \<Rightarrow>
          tk_FinishedAt t \<noteq> None \<and>
          (case tk_RetainUntil t of None \<Rightarrow> False | Some r \<Rightarrow> valid_time c \<and> \<not> before c r) \<and>
          \<not> after c (tk_UpdatedAt t))"

definition task_ok :: "ulid_check \<Rightarrow> task \<Rightarrow> bool" where
  "task_ok u t \<longleftrightarrow>
     task_static_ok u t \<and> task_times_ok t \<and> task_count_ok t \<and> task_requests_ok u t \<and> task_finish_ok t"

lemma task_validate_ok [valid_iff, simp]: "task_validate u t = Inr () \<longleftrightarrow> task_ok u t"
proof -
  have mx: "maximum_task_items < e \<longleftrightarrow> 4096 < unat e" for e
    by (simp add: maximum_task_items_def word_less_nat_alt)
  have act: "opt_res (\<lambda>g. try_res (activation_validate u g) (\<lambda>_.
        if tk_Stop t \<noteq> None \<or> before (ag_GrantedAt g) (tk_CreatedAt t) \<or> after (ag_GrantedAt g) (tk_UpdatedAt t)
        then Inl ValidationFailed else Inr ())) (tk_Activation t) = Inr () \<longleftrightarrow>
    opt_all (\<lambda>g. activation_validate u g = Inr () \<and> tk_Stop t = None \<and>
        \<not> before (ag_GrantedAt g) (tk_CreatedAt t) \<and> \<not> after (ag_GrantedAt g) (tk_UpdatedAt t)) (tk_Activation t)"
    by (cases "tk_Activation t") (auto simp: try_res_unit)
  have fin: "\<not> (case tk_FinishedAt t of
        None \<Rightarrow> tk_RetainUntil t \<noteq> None
      | Some f \<Rightarrow>
          \<not> valid_time f \<or> before f (tk_CreatedAt t) \<or> after f (tk_UpdatedAt t) \<or>
          tk_Outcome t = NoOutcome \<or> \<not> tk_PublicationComplete t \<or>
          unsettled_nat (tk_Progress t) \<noteq> 0 \<or>
          (case tk_RetainUntil t of None \<Rightarrow> True | Some r \<Rightarrow> \<not> valid_time r \<or> \<not> after r f)) \<longleftrightarrow>
    (case tk_FinishedAt t of
        None \<Rightarrow> tk_RetainUntil t = None
      | Some f \<Rightarrow>
          valid_time f \<and> \<not> before f (tk_CreatedAt t) \<and> \<not> after f (tk_UpdatedAt t) \<and>
          tk_Outcome t \<noteq> NoOutcome \<and> tk_PublicationComplete t \<and> unsettled_nat (tk_Progress t) = 0 \<and>
          (case tk_RetainUntil t of None \<Rightarrow> False | Some r \<Rightarrow> valid_time r \<and> after r f))"
    by (auto simp: progress_comparisons split: option.splits)
  have col: "\<not> (case tk_CollectionStartedAt t of
        None \<Rightarrow> False
      | Some c \<Rightarrow>
          tk_FinishedAt t = None \<or>
          (case tk_RetainUntil t of None \<Rightarrow> True | Some r \<Rightarrow> \<not> valid_time c \<or> before c r) \<or>
          after c (tk_UpdatedAt t)) \<longleftrightarrow>
    (case tk_CollectionStartedAt t of
        None \<Rightarrow> True
      | Some c \<Rightarrow>
          tk_FinishedAt t \<noteq> None \<and>
          (case tk_RetainUntil t of None \<Rightarrow> False | Some r \<Rightarrow> valid_time c \<and> \<not> before c r) \<and>
          \<not> after c (tk_UpdatedAt t))"
    by (simp split: option.splits)
  show ?thesis
    unfolding task_validate_def task_ok_def task_static_ok_def task_times_ok_def task_count_ok_def
      task_requests_ok_def task_finish_ok_def if_Inl_eq_Inr try_res_unit act fin col mx progress_comparisons
      opt_input_ok input_validate_ok
    by (simp only: de_Morgan_disj de_Morgan_conj not_not not_less not_le simp_thms) satx
qed

end
