(* ===== verification/WorkTaskSystem.thy ===== *)
theory WorkTaskSystem
  imports WorkTask
begin

text \<open>
  What the Task operations of \<open>WorkTask\<close> guarantee together: the captured graph is accepted exactly
  when it is complete and acyclic, and, over every sequence of Task operations with the items they
  are written together with, the counters equal the actual states of the items, a stop request and
  a collection are irrevocable, and a Task succeeds only when every captured item succeeded.
\<close>

section \<open>The captured graph\<close>

lemma graph_items_ok:
  "graph_items u t seen its = Inr () \<longleftrightarrow>
     (\<forall>it \<in> set its. item_ok u it \<and> it_TaskID it = tk_ID t \<and> \<not> before (it_CreatedAt it) (tk_CreatedAt t) \<and>
        \<not> after (it_Deadline it) (tk_Deadline t) \<and> it_ID it \<notin> set seen) \<and> distinct (map it_ID its)"
proof (induction its arbitrary: seen)
  case Nil
  then show ?case by simp
next
  case (Cons it its)
  show ?case
    unfolding graph_items.simps try_res_unit if_Inl_eq_Inr Cons.IH by (auto simp: notin_image_iff)
qed

lemma set_item_graph: "set (item_graph items) = {(d, it_ID it) | d it. it \<in> set items \<and> d \<in> set (it_Dependencies it)}"
  by (auto simp: item_graph_def)

lemma indegree_item_graph_other:
  "n \<notin> it_ID ` set items \<Longrightarrow> indegree_of (item_graph items) n = 0"
  by (auto simp: indegree_of_def item_graph_def filter_empty_conv)

lemma indegree_item_graph:
  "distinct (map it_ID items) \<Longrightarrow> it \<in> set items \<Longrightarrow>
     indegree_of (item_graph items) (it_ID it) = int (length (it_Dependencies it))"
proof (induction items)
  case (Cons x items)
  have split: "indegree_of (item_graph (x # items)) n =
      (if it_ID x = n then int (length (it_Dependencies x)) else 0) + indegree_of (item_graph items) n" for n
    by (auto simp: indegree_of_def item_graph_def filter_map comp_def)
  show ?case
  proof (cases "it = x")
    case True
    with Cons.prems(1) show ?thesis by (simp add: split indegree_item_graph_other)
  next
    case False
    with Cons.prems have "it \<in> set items" "it_ID x \<noteq> it_ID it" by auto
    with Cons show ?thesis by (simp add: split)
  qed
qed simp

definition graph_ok :: "ulid_check \<Rightarrow> task \<Rightarrow> item list \<Rightarrow> bool" where
  "graph_ok u t items \<longleftrightarrow>
     task_ok u t \<and> length items = unat (tk_ExpectedItems t) \<and> distinct (map it_ID items) \<and>
     (\<forall>it \<in> set items. item_ok u it \<and> it_TaskID it = tk_ID t \<and>
        \<not> before (it_CreatedAt it) (tk_CreatedAt t) \<and> \<not> after (it_Deadline it) (tk_Deadline t) \<and>
        set (it_Dependencies it) \<subseteq> it_ID ` set items) \<and>
     acyclic (set (item_graph items))"

lemma validate_graph_ok:
  assumes len: "length items < 2 ^ 64"
  shows "validate_graph u t items = Inr () \<longleftrightarrow> graph_ok u t items"
proof -
  have count: "of_nat (length items) = widen (tk_ExpectedItems t) \<longleftrightarrow> length items = unat (tk_ExpectedItems t)"
    using len by (simp add: word_unat_eq_iff unat_of_nat_u64)
  show ?thesis
  proof (cases "graph_items u t [] items = Inr () \<and> (\<forall>it \<in> set items. set (it_Dependencies it) \<subseteq> it_ID ` set items)")
    case False
    then show ?thesis
      by (auto simp: validate_graph_def graph_ok_def graph_items_ok try_res_unit list_ex_iff)
  next
    case True
    let ?g = "item_graph items" and ?n = "map it_ID items"
    let ?ready = "map it_ID (filter (\<lambda>it. length (it_Dependencies it) = 0) items)"
    from True have d: "distinct ?n" by (simp add: graph_items_ok)
    have nodes: "fst ` set ?g \<union> snd ` set ?g \<subseteq> set ?n" using True by (fastforce simp: set_item_graph)
    have "filter (\<lambda>n. indegree_of ?g n = 0) ?n = map it_ID (filter (\<lambda>it. indegree_of ?g (it_ID it) = 0) items)"
      by (simp add: filter_map comp_def)
    also have "filter (\<lambda>it. indegree_of ?g (it_ID it) = 0) items = filter (\<lambda>it. length (it_Dependencies it) = 0) items"
      by (rule filter_cong) (simp_all add: indegree_item_graph[OF d])
    finally have m: "mset ?ready = mset (filter (\<lambda>n. indegree_of ?g n = 0) ?n)" by simp
    from queue_list.kahn_order_spec[OF nodes d m]
    have "length (kahn_run push_back ?g ?n ?ready) = length items \<longleftrightarrow> acyclic (set ?g)"
      by (auto simp: kahn_run_def)
    moreover have "\<not> list_ex (\<lambda>it. list_ex (\<lambda>d. d \<notin> it_ID ` set items) (it_Dependencies it)) items"
      using True by (auto simp: list_ex_iff)
    ultimately show ?thesis
      using True by (auto simp: validate_graph_def graph_ok_def graph_items_ok try_res_unit Let_def count)
  qed
qed

section \<open>The Task with its items\<close>

type_synonym task_state = "task \<times> item list"

text \<open>A Task as \<open>PrepareTask\<close> of \<open>internal/infra/etcd/workqueue/task.go\<close> accepts it.\<close>

definition initial_task :: "ulid_check \<Rightarrow> task \<Rightarrow> bool" where
  "initial_task u t \<longleftrightarrow>
     \<not> tk_PublicationComplete t \<and> progress_total (tk_Progress t) = 0 \<and> tk_Outcome t = NoOutcome \<and>
     tk_FirstFailure t = None \<and> tk_FinishedAt t = None \<and> tk_Stop t = None \<and> tk_Activation t = None \<and>
     instant (tk_UpdatedAt t) = instant (tk_CreatedAt t) \<and> task_validate u t = Inr ()"

text \<open>
  One step is one stored transaction: a Task operation together with the item it is about. The
  store compares absent item keys, so published ids are new, and it validates every Task it writes.
  The work item may change by any transition of the lifecycle; only what the Task operation itself
  checks is assumed of it.
\<close>

inductive task_step :: "ulid_check \<Rightarrow> task_state \<Rightarrow> task_state \<Rightarrow> bool" for u where
  task_publish: "\<lbrakk>count_publication u t new now = Inr t'; valid_time now; length new < 2 ^ 32;
     it_ID ` set new \<inter> it_ID ` set items = {}\<rbrakk> \<Longrightarrow> task_step u (t, items) (t', items @ new)"
| task_settle_staged: "\<lbrakk>i < length items; settle_publication u t (items ! i) True c now = Inr (t', it')\<rbrakk> \<Longrightarrow>
     task_step u (t, items) (t', items[i := it'])"
| task_settle_missing: "\<lbrakk>it_ID it \<notin> it_ID ` set items; settle_publication u t it False c now = Inr (t', it')\<rbrakk> \<Longrightarrow>
     task_step u (t, items) (t', items @ [it'])"
| task_open: "publication_complete u t items now = Inr t' \<Longrightarrow> task_step u (t, items) (t', items)"
| task_transition: "\<lbrakk>i < length items; count_transition u t (items ! i) it' now = Inr t'; task_validate u t' = Inr ()\<rbrakk> \<Longrightarrow>
     task_step u (t, items) (t', items[i := it'])"
| task_retry: "\<lbrakk>i < length items; count_retry u t (items ! i) it' now = Inr t'; task_validate u t' = Inr ()\<rbrakk> \<Longrightarrow>
     task_step u (t, items) (t', items[i := it'])"
| task_stop: "request_stop u t x now = Inr t' \<Longrightarrow> task_step u (t, items) (t', items)"
| task_activate: "authorize_activation u t it a inp now = Inr t' \<Longrightarrow> task_step u (t, items) (t', items)"
| task_complete: "complete_task u t now until = Inr t' \<Longrightarrow> task_step u (t, items) (t', items)"
| task_reject: "reject_planning u t x evidence now until = Inr t' \<Longrightarrow> task_step u (t, items) (t', items)"
| task_collect: "begin_collection u t now = Inr t' \<Longrightarrow> task_step u (t, items) (t', items)"

inductive task_reachable :: "ulid_check \<Rightarrow> task_state \<Rightarrow> bool" for u where
  task_initial: "initial_task u t \<Longrightarrow> task_reachable u (t, [])"
| task_later: "\<lbrakk>task_reachable u s; task_step u s s'\<rbrakk> \<Longrightarrow> task_reachable u s'"

section \<open>Counting items\<close>

definition tally :: "counter \<Rightarrow> item list \<Rightarrow> nat" where
  "tally c items = length (filter (\<lambda>it. progress_counter it = Some c) items)"

definition counts_match :: "progress \<Rightarrow> item list \<Rightarrow> bool" where
  "counts_match p items \<longleftrightarrow> (\<forall>c. unat (get_count c p) = tally c items)"

lemma tally_simps [simp]:
  "tally c [] = 0" "tally c (it # items) = (if progress_counter it = Some c then 1 else 0) + tally c items"
  "tally c (xs @ ys) = tally c xs + tally c ys"
  by (simp_all add: tally_def)

lemma tally_update:
  "i < length items \<Longrightarrow>
     tally c (items[i := it]) + (if progress_counter (items ! i) = Some c then 1 else 0) =
     tally c items + (if progress_counter it = Some c then 1 else 0)"
proof (induction items arbitrary: i)
  case (Cons x items)
  then show ?case by (cases i) auto
qed simp

lemma tally_pos: "it \<in> set items \<Longrightarrow> progress_counter it = Some c \<Longrightarrow> 0 < tally c items"
  by (auto simp: tally_def filter_empty_conv)

text \<open>Every item whose counter is defined is counted exactly once.\<close>

lemma tally_total:
  "\<forall>it \<in> set items. progress_counter it \<noteq> None \<Longrightarrow>
     tally CountWaiting items + tally CountReady items + tally CountAssigned items + tally CountRunning items +
     tally CountAttention items + tally CountSucceeded items + tally CountFailed items +
     tally CountCancelled items + tally CountSuperseded items = length items"
proof (induction items)
  case (Cons it items)
  then obtain c where "progress_counter it = Some c" by auto
  with Cons show ?case by (cases c) simp_all
qed simp

lemma total_nat_match:
  assumes "counts_match p items" "\<forall>it \<in> set items. progress_counter it \<noteq> None"
  shows "total_nat p = length items"
proof -
  from assms(1) have "\<And>c. unat (get_count c p) = tally c items" by (simp add: counts_match_def)
  from this[of CountWaiting] this[of CountReady] this[of CountAssigned] this[of CountRunning]
    this[of CountAttention] this[of CountSucceeded] this[of CountFailed] this[of CountCancelled]
    this[of CountSuperseded] tally_total[OF assms(2)]
  show ?thesis by (simp add: total_nat_def)
qed

lemma item_ok_counted: "item_ok u it \<Longrightarrow> progress_counter it \<noteq> None"
  by (cases "it_Phase it"; cases "it_Outcome it")
    (auto simp: progress_counter_def item_ok_def item_state_ok_def validate_item_phase_def)

text \<open>Incrementing a counter below \<open>2 ^ 32 - 1\<close> and decrementing a positive one do not wrap.\<close>

lemma unat_of_nat_u32: "n < 2 ^ 32 \<Longrightarrow> unat (of_nat n :: u32) = n"
  by (simp add: unat_of_nat take_bit_nat_eq_self)

lemma unat_count_up: "unat (n :: u32) < 2 ^ 32 - 1 \<Longrightarrow> unat (n + 1) = unat n + 1"
  by (simp add: unat_word_ariths)

lemma unat_count_down: "n \<noteq> (0 :: u32) \<Longrightarrow> unat (n - 1) = unat n - 1"
  by (simp add: unat_minus_one)

lemma count_bound: "unat (get_count c p) \<le> total_nat p"
  by (cases c) (simp_all add: total_nat_def)

lemma counts_match_replace:
  assumes m: "counts_match p items" and i: "i < length items"
    and c: "progress_counter (items ! i) = Some c" "progress_counter it' = Some c'"
    and pos: "get_count c p \<noteq> 0" and small: "total_nat p \<le> 4096"
  shows "counts_match (count_up c' (count_down c p)) (items[i := it'])"
  unfolding counts_match_def
proof
  fix k
  have n: "unat (get_count k p) = tally k items" using m by (simp add: counts_match_def)
  have up: "unat (get_count k p + 1) = unat (get_count k p) + 1"
    using count_bound[of k p] small by (intro unat_count_up) simp
  have down: "k = c \<Longrightarrow> unat (get_count k p - 1) = unat (get_count k p) - 1"
    using pos by (intro unat_count_down) simp
  have pos': "k = c \<Longrightarrow> 0 < unat (get_count k p)" using pos by (simp add: unat_gt_0)
  from tally_update[OF i, of k it'] c n up down pos'
  show "unat (get_count k (count_up c' (count_down c p))) = tally k (items[i := it'])"
    by (cases "k = c"; cases "k = c'") (simp_all add: get_map_count)
qed

lemma counts_match_append:
  assumes m: "counts_match p items" and c: "progress_counter it = Some c" and small: "total_nat p \<le> 4096"
  shows "counts_match (count_up c p) (items @ [it])"
  unfolding counts_match_def
proof
  fix k
  have n: "unat (get_count k p) = tally k items" using m by (simp add: counts_match_def)
  have up: "unat (get_count k p + 1) = unat (get_count k p) + 1"
    using count_bound[of k p] small by (intro unat_count_up) simp
  from n up c show "unat (get_count k (count_up c p)) = tally k (items @ [it])"
    by (simp add: get_map_count)
qed

section \<open>The invariant\<close>

definition task_inv :: "ulid_check \<Rightarrow> task_state \<Rightarrow> bool" where
  "task_inv u s \<longleftrightarrow> (case s of (t, items) \<Rightarrow>
     task_ok u t \<and> counts_match (tk_Progress t) items \<and> distinct (map it_ID items) \<and>
     (\<forall>it \<in> set items. item_ok u it \<and> it_TaskID it = tk_ID t) \<and>
     (tk_FinishedAt t = None \<longrightarrow> tk_Outcome t \<noteq> Succeeded))"

lemma task_small: "task_ok u t \<Longrightarrow> total_nat (tk_Progress t) \<le> 4096"
  by (simp add: task_ok_def task_count_ok_def)

lemma task_inv_total:
  "task_inv u (t, items) \<Longrightarrow> total_nat (tk_Progress t) = length items"
  by (intro total_nat_match) (auto simp: task_inv_def dest: item_ok_counted)

text \<open>A later update time keeps a Task valid.\<close>

lemma task_ok_touch:
  assumes ok: "task_ok u t" and t: "valid_time now" "\<not> before now (tk_UpdatedAt t)"
  shows "task_ok u (t\<lparr>tk_UpdatedAt := now\<rparr>)"
proof -
  let ?t = "t\<lparr>tk_UpdatedAt := now\<rparr>"
  have later: "\<not> after x (tk_UpdatedAt t) \<Longrightarrow> \<not> after x now" for x using t(2) by (simp add: before_def after_def)
  have "task_times_ok ?t" using ok t by (simp add: task_ok_def task_times_ok_def before_def)
  moreover have "task_requests_ok u ?t"
    using ok later unfolding task_ok_def task_requests_ok_def by (auto elim!: opt_all_mono)
  moreover have "task_finish_ok ?t"
    using ok later unfolding task_ok_def task_finish_ok_def by (auto split: option.splits)
  ultimately show ?thesis
    using ok by (simp add: task_ok_def task_static_ok_def task_count_ok_def)
qed

lemma count_items_spec:
  "count_items u t seen its next = Inr next' \<Longrightarrow>
     (\<forall>it \<in> set its. item_ok u it \<and> it_TaskID it = tk_ID t \<and> it_ID it \<notin> set seen) \<and>
     distinct (map it_ID its) \<and>
     (\<exists>p. next' = next\<lparr>tk_Progress := p\<rparr> \<and>
        (\<forall>c. get_count c p = get_count c (tk_Progress next) + of_nat (tally c its)))"
proof (induction its arbitrary: seen "next")
  case Nil
  then show ?case by (auto intro!: exI[of _ "tk_Progress next"])
next
  case (Cons it its)
  from Cons.prems obtain c where ok: "item_ok u it" "it_TaskID it = tk_ID t" "it_ID it \<notin> set seen"
    and c: "progress_counter it = Some c"
    and rest: "count_items u t (it_ID it # seen) its (next\<lparr>tk_Progress := count_up c (tk_Progress next)\<rparr>) = Inr next'"
    by (auto simp: try_res_unit split: if_splits option.splits)
  from Cons.IH[OF rest] obtain p where
    its: "\<forall>it' \<in> set its. item_ok u it' \<and> it_TaskID it' = tk_ID t \<and> it_ID it' \<notin> set (it_ID it # seen)"
      "distinct (map it_ID its)"
    and p: "next' = next\<lparr>tk_Progress := p\<rparr>"
      "\<forall>k. get_count k p = get_count k (count_up c (tk_Progress next)) + of_nat (tally k its)"
    by auto
  have "get_count k p = get_count k (tk_Progress next) + of_nat (tally k (it # its))" for k
    using p(2) c by (simp add: get_map_count)
  with ok its p(1) show ?case by (auto simp: notin_image_iff)
qed

lemma publish_inv:
  assumes inv: "task_inv u (t, items)" and r: "count_publication u t new now = Inr t'"
    and now: "valid_time now" and len: "length new < 2 ^ 32"
    and fresh: "it_ID ` set new \<inter> it_ID ` set items = {}"
  shows "task_inv u (t', items @ new)"
proof -
  from inv have ok: "task_ok u t" and m: "counts_match (tk_Progress t) items" by (simp_all add: task_inv_def)
  from r obtain next' where g: "\<not> tk_PublicationComplete t" "\<not> before now (tk_UpdatedAt t)"
      "\<not> widen (tk_ExpectedItems t) < progress_total (tk_Progress t) + of_nat (length new)"
    and ci: "count_items u t [] new t = Inr next'" and t': "t' = next'\<lparr>tk_UpdatedAt := now\<rparr>"
    unfolding count_publication_def try_res_unit by (auto split: if_splits)
  from count_items_spec[OF ci] obtain p where
    new: "\<forall>it \<in> set new. item_ok u it \<and> it_TaskID it = tk_ID t" "distinct (map it_ID new)"
    and p: "next' = t\<lparr>tk_Progress := p\<rparr>" "\<forall>c. get_count c p = get_count c (tk_Progress t) + of_nat (tally c new)"
    by auto
  have total: "total_nat (tk_Progress t) + length new \<le> unat (tk_ExpectedItems t)"
  proof -
    have "progress_total (tk_Progress t) + of_nat (length new) = of_nat (total_nat (tk_Progress t) + length new)"
      by (simp add: progress_total_of_nat)
    moreover have "total_nat (tk_Progress t) + length new < 2 ^ 64" using task_small[OF ok] len by simp
    ultimately have "unat (progress_total (tk_Progress t) + of_nat (length new)) = total_nat (tk_Progress t) + length new"
      by (metis unat_of_nat_u64)
    with g(3) show ?thesis by (simp add: word_less_nat_alt)
  qed
  have small: "unat (tk_ExpectedItems t) \<le> 4096" using ok by (simp add: task_ok_def task_count_ok_def)
  have match: "counts_match p (items @ new)"
    unfolding counts_match_def
  proof
    fix c
    have n: "unat (get_count c (tk_Progress t)) = tally c items" using m by (simp add: counts_match_def)
    have le: "tally c new \<le> length new" by (simp add: tally_def)
    with n count_bound[of c "tk_Progress t"] total small have "tally c items + tally c new < 2 ^ 32" by simp
    moreover have "get_count c p = of_nat (tally c items + tally c new)"
      using p(2) n by (metis of_nat_add of_nat_unat ucast_id)
    ultimately show "unat (get_count c p) = tally c (items @ new)"
      by (metis tally_simps(3) unat_of_nat_u32)
  qed
  have items: "\<forall>it \<in> set (items @ new). item_ok u it \<and> it_TaskID it = tk_ID t"
    using inv new by (auto simp: task_inv_def)
  have "total_nat p = total_nat (tk_Progress t) + length new"
  proof -
    have "total_nat p = length (items @ new)"
      by (rule total_nat_match[OF match]) (use items item_ok_counted in blast)
    then show ?thesis using task_inv_total[OF inv] by simp
  qed
  with total ok g(1) have "task_count_ok (t\<lparr>tk_Progress := p\<rparr>)" by (simp add: task_ok_def task_count_ok_def)
  moreover have "task_finish_ok (t\<lparr>tk_Progress := p\<rparr>)"
    using ok g(1) by (auto simp: task_ok_def task_finish_ok_def split: option.splits)
  ultimately have "task_ok u (t\<lparr>tk_Progress := p\<rparr>)"
    using ok by (simp add: task_ok_def task_static_ok_def task_times_ok_def task_requests_ok_def)
  then have "task_ok u t'" using task_ok_touch[of u "t\<lparr>tk_Progress := p\<rparr>"] now g(2) by (simp add: t' p(1))
  then show ?thesis
    using inv match items new fresh by (simp add: task_inv_def t' p(1) Int_commute)
qed

lemma distinct_ids_update:
  "i < length items \<Longrightarrow> it_ID it' = it_ID (items ! i) \<Longrightarrow> map it_ID (items[i := it']) = map it_ID items"
  by (metis list_update_id map_update nth_map)

text \<open>The item of a transition or retry is replaced by one with the same identity.\<close>

lemma replace_inv:
  assumes inv: "task_inv u (t, items)" and i: "i < length items"
    and ok: "task_ok u t'" "item_ok u it'" and same: "it_ID it' = it_ID (items ! i)" "it_TaskID it' = tk_ID t"
      "tk_ID t' = tk_ID t"
    and m: "counts_match (tk_Progress t') (items[i := it'])"
    and out: "tk_FinishedAt t' = None \<longrightarrow> tk_Outcome t' \<noteq> Succeeded"
  shows "task_inv u (t', items[i := it'])"
proof -
  have "\<forall>it \<in> set (items[i := it']). item_ok u it \<and> it_TaskID it = tk_ID t"
    using inv ok(2) same(2) by (auto simp: task_inv_def dest: subsetD[OF set_update_subset_insert])
  then show ?thesis
    using inv ok(1) m out same(3) distinct_ids_update[OF i same(1)] by (simp add: task_inv_def)
qed

lemma transition_inv:
  assumes inv: "task_inv u (t, items)" and i: "i < length items"
    and r: "count_transition u t (items ! i) it' now = Inr t'" and ok': "task_validate u t' = Inr ()"
  shows "task_inv u (t', items[i := it'])"
proof -
  from r obtain c c' where g: "item_ok u it'" "tk_FinishedAt t = None" "it_TaskID it' = tk_ID t"
      "it_ID (items ! i) = it_ID it'"
    and c: "progress_counter (items ! i) = Some c" "progress_counter it' = Some c'"
      "get_count c (tk_Progress t) \<noteq> 0"
    and t': "tk_Progress t' = count_up c' (count_down c (tk_Progress t))" "tk_FinishedAt t' = tk_FinishedAt t"
      "tk_ID t' = tk_ID t" "tk_Outcome t' \<in> {Failed, Cancelled, Superseded, tk_Outcome t}"
    unfolding count_transition_def try_res_unit by (auto simp: Let_def split: if_splits option.splits)
  have "counts_match (tk_Progress t') (items[i := it'])"
    unfolding t'(1) using inv i c by (intro counts_match_replace) (auto simp: task_inv_def dest: task_small)
  moreover have "tk_Outcome t' \<noteq> Succeeded" using inv g(2) t'(4) by (auto simp: task_inv_def)
  ultimately show ?thesis
    using ok' g t' by (intro replace_inv[OF inv i]) simp_all
qed

text \<open>A valid Task that succeeded has only succeeded items.\<close>

lemma succeeded_items:
  assumes ok: "task_ok u t" and m: "counts_match (tk_Progress t) items"
    and its: "\<forall>it \<in> set items. item_ok u it" and out: "tk_Outcome t = Succeeded" and it: "it \<in> set items"
  shows "progress_counter it = Some CountSucceeded"
proof -
  from ok out have e: "pg_Succeeded (tk_Progress t) = tk_ExpectedItems t" "tk_PublicationComplete t"
    by (simp_all add: task_ok_def task_finish_ok_def)
  with ok have tot: "total_nat (tk_Progress t) = unat (pg_Succeeded (tk_Progress t))"
    by (simp add: task_ok_def task_count_ok_def)
  from its it obtain c where c: "progress_counter it = Some c" using item_ok_counted by blast
  have "0 < unat (get_count c (tk_Progress t))" using m tally_pos[OF it c] by (simp add: counts_match_def)
  with tot have "c = CountSucceeded" by (cases c) (simp_all add: total_nat_def)
  with c show ?thesis by simp
qed

lemma retry_task_inv:
  assumes inv: "task_inv u (t, items)" and i: "i < length items"
    and r: "count_retry u t (items ! i) it' now = Inr t'" and ok': "task_validate u t' = Inr ()"
  shows "task_inv u (t', items[i := it'])"
proof -
  from r obtain c c' where g: "item_ok u it'" "it_TaskID it' = tk_ID t" "it_ID (items ! i) = it_ID it'"
      "it_Phase it' = Ready \<or> it_Phase it' = Waiting"
    and c: "progress_counter (items ! i) = Some c" "progress_counter it' = Some c'"
      "get_count c (tk_Progress t) \<noteq> 0"
    and t': "tk_Progress t' = count_up c' (count_down c (tk_Progress t))" "tk_ID t' = tk_ID t"
    unfolding count_retry_def try_res_unit by (auto simp: Let_def split: if_splits option.splits)
  have m: "counts_match (tk_Progress t') (items[i := it'])"
    unfolding t'(1) using inv i c by (intro counts_match_replace) (auto simp: task_inv_def dest: task_small)
  have its: "\<forall>it \<in> set (items[i := it']). item_ok u it"
    using inv g(1) by (auto simp: task_inv_def dest: subsetD[OF set_update_subset_insert])
  have "tk_Outcome t' \<noteq> Succeeded"
  proof
    assume "tk_Outcome t' = Succeeded"
    moreover have "it' \<in> set (items[i := it'])" using i by (simp add: set_update_memI)
    ultimately have "progress_counter it' = Some CountSucceeded"
      using succeeded_items[OF _ m its] ok' by simp
    with g(4) show False by (auto simp: progress_counter_def)
  qed
  with m ok' g t' show ?thesis by (intro replace_inv[OF inv i]) simp_all
qed

lemma settle_publication_Inr:
  assumes "settle_publication u t it published c now = Inr (t', it')"
  obtains k p where "tk_FinishedAt t = None" "it_TaskID it = tk_ID t" "settle_unstarted u it c now = Inr it'"
    "progress_counter it' = Some k" "task_ok u t'"
    "if published then \<exists>j. progress_counter it = Some j \<and> get_count j (tk_Progress t) \<noteq> 0 \<and> p = count_down j (tk_Progress t)
     else p = tk_Progress t"
    "tk_Progress t' = count_up k p" "tk_ID t' = tk_ID t" "tk_FinishedAt t' = None"
    "tk_Outcome t' \<in> {Failed, Cancelled, Superseded, tk_Outcome t}"
proof -
  have fin: "tk_FinishedAt t = None" by (rule ccontr) (use assms in \<open>simp add: settle_publication_def\<close>)
  have own: "it_TaskID it = tk_ID t" by (rule ccontr) (use assms in \<open>simp add: settle_publication_def\<close>)
  have out: "co_Outcome c \<in> {Failed, Cancelled, Superseded}"
    by (rule ccontr) (use assms in \<open>simp add: settle_publication_def\<close>)
  have "try_res (settle_unstarted u it c now) (\<lambda>nextItem.
      try_res (leave_staged t it published) (\<lambda>p.
      case progress_counter nextItem of
        None \<Rightarrow> Inl Panic
      | Some k \<Rightarrow>
      (let next = settled_task t nextItem c (count_up k p) now
       in try_res (task_validate u next) (\<lambda>_. Inr (next, nextItem))))) = Inr (t', it')"
    using assms unfolding settle_publication_def if_Inl_eq_Inr by (rule conjunct2)
  then obtain it1 where s: "settle_unstarted u it c now = Inr it1"
    and rest: "try_res (leave_staged t it published) (\<lambda>p.
      case progress_counter it1 of
        None \<Rightarrow> Inl Panic
      | Some k \<Rightarrow>
      (let next = settled_task t it1 c (count_up k p) now
       in try_res (task_validate u next) (\<lambda>_. Inr (next, it1)))) = Inr (t', it')"
    unfolding try_res_eq_Inr[of "settle_unstarted u it c now"] by blast
  from rest obtain p where p: "leave_staged t it published = Inr p"
    and rest': "(case progress_counter it1 of
        None \<Rightarrow> Inl Panic
      | Some k \<Rightarrow>
      (let next = settled_task t it1 c (count_up k p) now
       in try_res (task_validate u next) (\<lambda>_. Inr (next, it1)))) = Inr (t', it')"
    unfolding try_res_eq_Inr[of "leave_staged t it published"] by blast
  from rest' obtain k where k: "progress_counter it1 = Some k"
    by (cases "progress_counter it1") simp_all
  with rest' have t': "it1 = it'" "t' = settled_task t it' c (count_up k p) now" "task_ok u t'"
    by (simp_all add: Let_def try_res_unit) (metis)+
  with k s have s: "settle_unstarted u it c now = Inr it'" "progress_counter it' = Some k" by simp_all
  from t'(2) have f: "tk_Progress t' = count_up k p" "tk_ID t' = tk_ID t" "tk_FinishedAt t' = tk_FinishedAt t"
      "tk_Outcome t' \<in> {co_Outcome c, tk_Outcome t}"
    by (simp_all add: settled_task_def)
  from p have this_p: "if published then \<exists>j. progress_counter it = Some j \<and> get_count j (tk_Progress t) \<noteq> 0 \<and> p = count_down j (tk_Progress t)
     else p = tk_Progress t"
    by (auto simp: leave_staged_def split: if_splits option.splits)
  from f(4) out have "tk_Outcome t' \<in> {Failed, Cancelled, Superseded, tk_Outcome t}" by auto
  with that[OF fin own s t'(3) this_p f(1,2)] f(3) fin show thesis by simp
qed

text \<open>\<open>SettleUnstarted\<close> keeps the identity of the item and always gives it a counter.\<close>

lemma settle_unstarted_same:
  assumes "settle_unstarted u it c now = Inr it'"
  shows "item_ok u it'" "it_ID it' = it_ID it" "it_TaskID it' = it_TaskID it"
proof -
  from assms have ok: "item_ok u it'"
    and it': "it' = (if co_Outcome c = Failed \<and> it_FirstFailure it = None
            then settled_item it c now\<lparr>it_FirstFailure := Some (co_Evidence c)\<rparr> else settled_item it c now)"
    unfolding settle_unstarted_Inr by blast+
  show "item_ok u it'" by (rule ok)
  show "it_ID it' = it_ID it" "it_TaskID it' = it_TaskID it" by (simp_all add: it' settled_item_def)
qed

lemma settle_staged_inv:
  assumes inv: "task_inv u (t, items)" and i: "i < length items"
    and r: "settle_publication u t (items ! i) True c now = Inr (t', it')"
  shows "task_inv u (t', items[i := it'])"
  using r
proof (rule settle_publication_Inr)
  fix k p
  assume g: "tk_FinishedAt t = None" "settle_unstarted u (items ! i) c now = Inr it'" "task_ok u t'"
      "progress_counter it' = Some k" "tk_Progress t' = count_up k p" "tk_ID t' = tk_ID t"
      "tk_Outcome t' \<in> {Failed, Cancelled, Superseded, tk_Outcome t}"
    and p: "if True then \<exists>j. progress_counter (items ! i) = Some j \<and> get_count j (tk_Progress t) \<noteq> 0 \<and>
      p = count_down j (tk_Progress t) else p = tk_Progress t"
  note same = settle_unstarted_same[OF g(2)]
  have "counts_match (tk_Progress t') (items[i := it'])"
    using p g(4) inv i unfolding g(5) by (auto simp: task_inv_def intro!: counts_match_replace dest: task_small)
  moreover have "tk_Outcome t' \<noteq> Succeeded" using inv g(1,7) by (auto simp: task_inv_def)
  moreover have "it_TaskID (items ! i) = tk_ID t" using inv i by (simp add: task_inv_def)
  ultimately show ?thesis using same g i by (intro replace_inv[OF inv i]) simp_all
qed

lemma settle_missing_inv:
  assumes inv: "task_inv u (t, items)" and new: "it_ID it \<notin> it_ID ` set items"
    and r: "settle_publication u t it False c now = Inr (t', it')"
  shows "task_inv u (t', items @ [it'])"
  using r
proof (rule settle_publication_Inr)
  fix k p
  assume g: "tk_FinishedAt t = None" "settle_unstarted u it c now = Inr it'" "task_ok u t'" "it_TaskID it = tk_ID t"
      "progress_counter it' = Some k" "tk_Progress t' = count_up k p" "tk_ID t' = tk_ID t"
      "tk_Outcome t' \<in> {Failed, Cancelled, Superseded, tk_Outcome t}"
    and p: "if False then \<exists>j. progress_counter it = Some j \<and> get_count j (tk_Progress t) \<noteq> 0 \<and>
      p = count_down j (tk_Progress t) else p = tk_Progress t"
  note same = settle_unstarted_same[OF g(2)]
  have "counts_match (tk_Progress t') (items @ [it'])"
    using p g(5) inv unfolding g(6) by (auto simp: task_inv_def intro!: counts_match_append dest: task_small)
  moreover have "tk_Outcome t' \<noteq> Succeeded" using inv g(1,8) by (auto simp: task_inv_def)
  ultimately show ?thesis using inv same g new by (auto simp: task_inv_def)
qed

text \<open>The operations that leave the items alone.\<close>

lemma request_stop_Inr:
  "request_stop u t x now = Inr t' \<longleftrightarrow>
     task_ok u t \<and> (x = Cancelled \<or> x = Superseded) \<and> valid_time now \<and> \<not> before now (tk_UpdatedAt t) \<and>
     tk_FinishedAt t = None \<and> tk_Action t \<noteq> ActionBackupPrune \<and> tk_Activation t = None \<and>
     t' = (if tk_Stop t \<noteq> None then t
           else t\<lparr>tk_Stop := Some \<lparr>sr_Outcome = x, sr_RequestedAt = now\<rparr>, tk_UpdatedAt := now\<rparr>)"
  by (auto simp: request_stop_def cancellation_failure_def cancellation_restricted_def try_res_unit)

lemma authorize_activation_Inr:
  assumes "authorize_activation u t it a inp now = Inr t'"
  shows "task_ok u t" "match_active u it a = Inr ()" "it_TaskID it = tk_ID t"
    "it_Operation it = OpControllerSoftware \<or> it_Operation it = OpAgentSoftware"
    "it_Phase it = Running" "at_Direction a = Forward" "at_StartedAt a \<noteq> None" "\<not> it_ForwardRevoked it"
    "tk_Stop t = None" "tk_FinishedAt t = None" "tk_Activation t = None" "\<not> before now (tk_UpdatedAt t)"
    "activation_validate u \<lparr>ag_WorkItemID = it_ID it, ag_AttemptID = at_ID a, ag_Input = inp, ag_GrantedAt = now\<rparr> = Inr ()"
    "t' = t\<lparr>tk_Activation := Some \<lparr>ag_WorkItemID = it_ID it, ag_AttemptID = at_ID a, ag_Input = inp,
       ag_GrantedAt = now\<rparr>, tk_UpdatedAt := now\<rparr>"
  using assms by (simp_all add: authorize_activation_def Let_def try_res_unit)

lemma complete_task_Inr:
  assumes "complete_task u t now until = Inr t'"
  obtains result where "task_ok u t" "completion_outcome u t = Inr result" "tk_PublicationComplete t"
    "unsettled_nat (tk_Progress t) = 0" "tk_FinishedAt t = None" "task_ok u t'"
    "t' = t\<lparr>tk_Outcome := result, tk_UpdatedAt := now, tk_FinishedAt := Some now, tk_RetainUntil := Some until\<rparr>"
  using assms by (auto simp: complete_task_def Let_def try_res_unit progress_comparisons)

lemma reject_planning_Inr:
  assumes "reject_planning u t x evidence now until = Inr t'"
  shows "task_ok u t" "task_ok u t'" "\<not> tk_PublicationComplete t" "tk_FinishedAt t = None"
    "tk_Progress t' = tk_Progress t" "tk_ID t' = tk_ID t" "tk_FinishedAt t' = Some now" "tk_Stop t' = tk_Stop t"
    "tk_Activation t = None" "tk_Activation t' = None" "tk_CollectionStartedAt t = None"
  using assms by (auto simp: reject_planning_def Let_def try_res_unit)

lemma begin_collection_Inr:
  "begin_collection u t now = Inr t' \<longleftrightarrow>
     task_ok u t \<and>
     (if tk_CollectionStartedAt t \<noteq> None then t' = t
      else (\<exists>r. tk_RetainUntil t = Some r \<and> valid_time now \<and> tk_FinishedAt t \<noteq> None \<and>
        unsettled_nat (tk_Progress t) = 0 \<and> \<not> before now r \<and> \<not> before now (tk_UpdatedAt t) \<and>
        t' = t\<lparr>tk_CollectionStartedAt := Some now, tk_UpdatedAt := now\<rparr> \<and> task_ok u t'))"
  by (auto simp: begin_collection_def Let_def try_res_unit progress_comparisons split: option.splits)

lemma publication_complete_Inr:
  assumes "publication_complete u t items now = Inr t'"
  shows "\<not> tk_PublicationComplete t" "validate_graph u t items = Inr ()" "task_ok u t'"
    "t' = t\<lparr>tk_PublicationComplete := True, tk_UpdatedAt := now\<rparr>"
  using assms by (auto simp: publication_complete_def Let_def try_res_unit)

lemma keep_items_inv:
  assumes "task_inv u (t, items)" "task_ok u t'" "tk_Progress t' = tk_Progress t" "tk_ID t' = tk_ID t"
    "tk_FinishedAt t' = None \<longrightarrow> tk_Outcome t' \<noteq> Succeeded"
  shows "task_inv u (t', items)"
  using assms by (simp add: task_inv_def)

lemma task_finish_open:
  "tk_FinishedAt t = None \<Longrightarrow> task_finish_ok t \<longleftrightarrow>
     (tk_Outcome t = NoOutcome \<or> valid_outcome (tk_Outcome t)) \<and> tk_RetainUntil t = None \<and>
     (tk_Outcome t = Succeeded \<longrightarrow>
        tk_Stop t = None \<and> tk_PublicationComplete t \<and> pg_Succeeded (tk_Progress t) = tk_ExpectedItems t) \<and>
     tk_CollectionStartedAt t = None"
  by (cases "tk_CollectionStartedAt t") (auto simp: task_finish_ok_def)

lemma stop_inv:
  assumes inv: "task_inv u (t, items)" and r: "request_stop u t x now = Inr t'"
  shows "task_inv u (t', items)"
proof (cases "tk_Stop t = None")
  case False
  with r have "t' = t" by (simp add: request_stop_Inr)
  with inv show ?thesis by simp
next
  case True
  from r have ok: "task_ok u t" and x: "x = Cancelled \<or> x = Superseded" and g: "valid_time now"
      "\<not> before now (tk_UpdatedAt t)" "tk_FinishedAt t = None" "tk_Activation t = None"
    by (simp_all add: request_stop_Inr)
  from True r have t': "t' = t\<lparr>tk_UpdatedAt := now\<rparr>\<lparr>tk_Stop := Some \<lparr>sr_Outcome = x, sr_RequestedAt = now\<rparr>\<rparr>"
    by (simp add: request_stop_Inr)
  have ok1: "task_ok u (t\<lparr>tk_UpdatedAt := now\<rparr>)" by (rule task_ok_touch[OF ok g(1,2)])
  have "tk_Outcome t \<noteq> Succeeded" using inv g(3) by (simp add: task_inv_def)
  then have "task_finish_ok t'" using ok1 g(3) by (simp add: t' task_ok_def task_finish_open)
  moreover have "task_requests_ok u t'"
    using ok ok1 x g by (auto simp: t' task_ok_def task_requests_ok_def task_times_ok_def before_def after_def)
  ultimately have "task_ok u t'"
    using ok1 by (simp add: t' task_ok_def task_static_ok_def task_times_ok_def task_count_ok_def)
  then show ?thesis by (rule keep_items_inv[OF inv]) (use inv g(3) in \<open>simp_all add: t' task_inv_def\<close>)
qed

lemma activate_inv:
  assumes inv: "task_inv u (t, items)" and r: "authorize_activation u t it a inp now = Inr t'"
  shows "task_inv u (t', items)"
proof -
  note g = authorize_activation_Inr[OF r]
  have now: "valid_time now" using g(13) by (simp add: activation_validate_def split: if_splits)
  have t': "t' = t\<lparr>tk_UpdatedAt := now\<rparr>\<lparr>tk_Activation := Some \<lparr>ag_WorkItemID = it_ID it, ag_AttemptID = at_ID a,
      ag_Input = inp, ag_GrantedAt = now\<rparr>\<rparr>" using g(14) by simp
  have ok1: "task_ok u (t\<lparr>tk_UpdatedAt := now\<rparr>)" by (rule task_ok_touch[OF g(1) now g(12)])
  have "task_requests_ok u t'"
    using ok1 g(9,13) by (simp add: t' task_ok_def task_requests_ok_def task_times_ok_def after_def)
  moreover have "task_finish_ok t'" using ok1 g(10) by (simp add: t' task_ok_def task_finish_open)
  ultimately have "task_ok u t'"
    using ok1 by (simp add: t' task_ok_def task_static_ok_def task_times_ok_def task_count_ok_def)
  then show ?thesis by (rule keep_items_inv[OF inv]) (use inv in \<open>simp_all add: t' task_inv_def\<close>)
qed

lemma task_step_inv:
  assumes "task_step u s s'" "task_inv u s"
  shows "task_inv u s'"
  using assms
proof (induction rule: task_step.induct)
  case task_publish
  then show ?case by (blast intro: publish_inv)
next
  case task_settle_staged
  then show ?case by (blast intro: settle_staged_inv)
next
  case task_settle_missing
  then show ?case by (blast intro: settle_missing_inv)
next
  case (task_open t items now t')
  note g = publication_complete_Inr[OF task_open(1)]
  show ?case
    by (rule keep_items_inv[OF task_open(2) g(3)]) (use task_open(2) in \<open>simp_all add: g(4) task_inv_def\<close>)
next
  case task_transition
  then show ?case by (blast intro: transition_inv)
next
  case task_retry
  then show ?case by (blast intro: retry_task_inv)
next
  case task_stop
  then show ?case by (blast intro: stop_inv)
next
  case task_activate
  then show ?case by (blast intro: activate_inv)
next
  case (task_complete t now until t' items)
  from task_complete(1) show ?case
  proof (rule complete_task_Inr)
    fix result
    assume ok: "task_ok u t'" and t': "t' = t\<lparr>tk_Outcome := result, tk_UpdatedAt := now,
        tk_FinishedAt := Some now, tk_RetainUntil := Some until\<rparr>"
    show ?thesis by (rule keep_items_inv[OF task_complete(2) ok]) (simp_all add: t')
  qed
next
  case (task_reject t x evidence now until t' items)
  note g = reject_planning_Inr[OF task_reject(1)]
  show ?case by (rule keep_items_inv[OF task_reject(2) g(2)]) (simp_all add: g)
next
  case (task_collect t now t' items)
  show ?case
  proof (cases "tk_CollectionStartedAt t = None")
    case True
    with task_collect(1) have "task_ok u t'" "t' = t\<lparr>tk_CollectionStartedAt := Some now, tk_UpdatedAt := now\<rparr>"
      by (auto simp: begin_collection_Inr)
    then show ?thesis
      by (intro keep_items_inv[OF task_collect(2)]) (use task_collect(2) in \<open>simp_all add: task_inv_def\<close>)
  next
    case False
    with task_collect show ?thesis by (simp add: begin_collection_Inr)
  qed
qed

lemma initial_task_inv: "initial_task u t \<Longrightarrow> task_inv u (t, [])"
proof -
  assume i: "initial_task u t"
  then have "total_nat (tk_Progress t) = 0" by (simp add: initial_task_def progress_comparisons)
  with count_bound have "unat (get_count c (tk_Progress t)) = 0" for c by (metis le_zero_eq)
  then have "counts_match (tk_Progress t) []" by (simp add: counts_match_def)
  with i show ?thesis by (simp add: initial_task_def task_inv_def)
qed

lemma task_reachable_inv: "task_reachable u s \<Longrightarrow> task_inv u s"
  by (induction rule: task_reachable.induct) (simp_all add: initial_task_inv task_step_inv)

section \<open>What stays fixed\<close>

text \<open>A stop request is never withdrawn or changed.\<close>

lemma task_step_stop:
  "task_step u s s' \<Longrightarrow> tk_Stop (fst s) = Some r \<Longrightarrow> tk_Stop (fst s') = Some r"
proof (induction rule: task_step.induct)
  case (task_publish t new now t' items)
  then obtain next' where "count_items u t [] new t = Inr next'" "t' = next'\<lparr>tk_UpdatedAt := now\<rparr>"
    unfolding count_publication_def try_res_unit by (auto split: if_splits)
  with count_items_spec[OF this(1)] task_publish show ?case by auto
next
  case (task_settle_staged i items t c now t' it')
  then show ?case by (auto simp: settle_publication_def settled_task_def Let_def try_res_unit split: if_splits option.splits)
next
  case (task_settle_missing it items t c now t' it')
  then show ?case by (auto simp: settle_publication_def settled_task_def Let_def try_res_unit split: if_splits option.splits)
next
  case (task_open t items now t')
  then show ?case by (auto dest!: publication_complete_Inr(4))
next
  case task_transition
  then show ?case by (auto simp: count_transition_def Let_def try_res_unit split: if_splits option.splits)
next
  case task_retry
  then show ?case by (auto simp: count_retry_def Let_def try_res_unit split: if_splits option.splits)
next
  case task_stop
  then show ?case by (simp add: request_stop_Inr)
next
  case task_activate
  then show ?case using authorize_activation_Inr(9) by fastforce
next
  case task_complete
  then show ?case by (auto elim!: complete_task_Inr)
next
  case task_reject
  then show ?case using reject_planning_Inr(8) by fastforce
next
  case task_collect
  then show ?case by (auto simp: begin_collection_Inr split: if_splits)
qed

text \<open>Once collection has begun, no Task operation succeeds on the Task except repeating it.\<close>

lemma task_ok_collecting:
  "task_ok u t \<Longrightarrow> tk_CollectionStartedAt t \<noteq> None \<Longrightarrow> tk_FinishedAt t \<noteq> None \<and> tk_PublicationComplete t"
  by (cases "tk_FinishedAt t") (auto simp: task_ok_def task_finish_ok_def)

lemma task_step_collecting:
  "task_step u s s' \<Longrightarrow> tk_CollectionStartedAt (fst s) \<noteq> None \<Longrightarrow> task_ok u (fst s) \<Longrightarrow> s' = s"
proof (induction rule: task_step.induct)
  case (task_publish t new now t' items)
  then show ?case using task_ok_collecting[of u t] by (auto simp: count_publication_def split: if_splits)
next
  case (task_settle_staged i items t c now t' it')
  then show ?case by (simp add: settle_publication_def)
next
  case (task_settle_missing it items t c now t' it')
  then show ?case by (simp add: settle_publication_def)
next
  case (task_open t items now t')
  then show ?case using task_ok_collecting[of u t] publication_complete_Inr(1)[OF task_open(1)] by simp
next
  case (task_transition i items t it' now t')
  then show ?case using task_ok_collecting[of u t] by (auto simp: count_transition_def try_res_unit split: if_splits)
next
  case (task_retry i items t it' now t')
  then show ?case by (auto simp: count_retry_def try_res_unit split: if_splits)
next
  case (task_stop t x now t' items)
  then show ?case using task_ok_collecting[of u t] by (simp add: request_stop_Inr)
next
  case (task_activate t it a inp now t' items)
  then show ?case using task_ok_collecting[of u t] authorize_activation_Inr(10)[OF task_activate(1)] by simp
next
  case (task_complete t now until t' items)
  then show ?case using task_ok_collecting[of u t] by (auto elim!: complete_task_Inr)
next
  case (task_reject t x evidence now until t' items)
  then show ?case using reject_planning_Inr(11)[OF task_reject(1)] by simp
next
  case task_collect
  then show ?case by (simp add: begin_collection_Inr)
qed

text \<open>The counters that are zero say which states no item is in.\<close>

lemma tally_zero: "tally c items = 0 \<longleftrightarrow> (\<forall>it \<in> set items. progress_counter it \<noteq> Some c)"
  by (auto simp: tally_def filter_empty_conv)

lemma progress_counter_settled:
  "progress_counter it = Some CountSucceeded \<longleftrightarrow> it_Phase it = Settled \<and> it_Outcome it = Succeeded"
  "progress_counter it = Some CountFailed \<longleftrightarrow> it_Phase it = Settled \<and> it_Outcome it = Failed"
  "progress_counter it = Some CountCancelled \<longleftrightarrow> it_Phase it = Settled \<and> it_Outcome it = Cancelled"
  "progress_counter it = Some CountSuperseded \<longleftrightarrow> it_Phase it = Settled \<and> it_Outcome it = Superseded"
  by (auto simp: progress_counter_def split: work_phase.splits outcome.splits)

lemma all_settled:
  assumes inv: "task_inv u (t, items)" and un: "unsettled_nat (tk_Progress t) = 0" and it: "it \<in> set items"
  shows "it_Phase it = Settled" "valid_outcome (it_Outcome it)"
proof -
  from inv it have ok: "item_ok u it" by (simp add: task_inv_def)
  have z: "tally c items = unat (get_count c (tk_Progress t))" for c
    using inv by (simp add: task_inv_def counts_match_def)
  from un have "tally CountWaiting items = 0" "tally CountReady items = 0" "tally CountAssigned items = 0"
    "tally CountRunning items = 0" "tally CountAttention items = 0"
    unfolding z by (simp_all add: unsettled_nat_def)
  with it have "progress_counter it \<notin> {Some CountWaiting, Some CountReady, Some CountAssigned, Some CountRunning,
      Some CountAttention}" by (auto simp: tally_zero)
  then show "it_Phase it = Settled" using item_ok_counted[OF ok]
    by (auto simp: progress_counter_def split: work_phase.splits)
  with ok show "valid_outcome (it_Outcome it)" by (auto simp: item_ok_def item_state_by_phase outcome_cleanup_ok_def)
qed

end
