(* ===== verification/WorkTaskProperties.thy ===== *)
theory WorkTaskProperties
  imports WorkTaskSystem
begin

text \<open>
  The guarantees of the Task with its items over every sequence of Task operations, with a concrete
  run of them: a Task of one item is published, opened, stopped, settled, completed and collected.
\<close>

section \<open>An example\<close>

definition ex_task :: task where
  "ex_task = \<lparr>tk_ID = ex_id ''task'' CHR ''1'', tk_Actor = OperatorActor,
     tk_Scope = \<lparr>sc_TenantID = [], sc_ProjectID = [], sc_EnvironmentID = []\<rparr>,
     tk_Action = ActionDeploy, tk_TargetID = ex_id ''svc'' CHR ''1'', tk_TargetName = ''web'',
     tk_Intent = ex_input CHR ''1'', tk_CreatedAt = ex_time 0, tk_UpdatedAt = ex_time 0,
     tk_Deadline = ex_time 600, tk_ExpectedItems = 1, tk_PublicationComplete = False,
     tk_Progress = \<lparr>pg_Waiting = 0, pg_Ready = 0, pg_Assigned = 0, pg_Running = 0, pg_Attention = 0,
       pg_Succeeded = 0, pg_Failed = 0, pg_Cancelled = 0, pg_Superseded = 0\<rparr>,
     tk_Outcome = NoOutcome, tk_FirstFailure = None, tk_FinishedAt = None, tk_RetainUntil = None,
     tk_CollectionStartedAt = None, tk_Stop = None, tk_Activation = None\<rparr>"

definition ex_published :: task where
  "ex_published = ex_task\<lparr>tk_Progress := (tk_Progress ex_task)\<lparr>pg_Ready := 1\<rparr>, tk_UpdatedAt := ex_time 1\<rparr>"

definition ex_open :: task where
  "ex_open = ex_published\<lparr>tk_PublicationComplete := True, tk_UpdatedAt := ex_time 2\<rparr>"

definition ex_stopped :: task where
  "ex_stopped = ex_open\<lparr>tk_Stop := Some \<lparr>sr_Outcome = Cancelled, sr_RequestedAt = ex_time 3\<rparr>,
     tk_UpdatedAt := ex_time 3\<rparr>"

definition ex_withdrawn :: item where
  "ex_withdrawn = settled_item ex_item \<lparr>co_Outcome = Cancelled, co_Evidence = ex_input CHR ''2'',
     co_EffectsSettled = True\<rparr> (ex_time 4)"

definition ex_counted :: task where
  "ex_counted = ex_stopped\<lparr>tk_Progress := (tk_Progress ex_task)\<lparr>pg_Cancelled := 1\<rparr>,
     tk_Outcome := Cancelled, tk_UpdatedAt := ex_time 4\<rparr>"

definition ex_complete :: task where
  "ex_complete = ex_counted\<lparr>tk_UpdatedAt := ex_time 5, tk_FinishedAt := Some (ex_time 5),
     tk_RetainUntil := Some (ex_time 6)\<rparr>"

definition ex_collecting :: task where
  "ex_collecting = ex_complete\<lparr>tk_UpdatedAt := ex_time 6, tk_CollectionStartedAt := Some (ex_time 6)\<rparr>"

lemmas ex_task_defs = ex_task_def ex_published_def ex_open_def ex_stopped_def ex_counted_def
  ex_complete_def ex_collecting_def

lemma ex_task_ok: "task_ok crockford_ulid ex_task"
proof -
  have r: "valid_resource_id crockford_ulid (ex_id ''svc'' CHR ''1'')"
    by (simp add: valid_resource_id_def resource_kinds_def KindService_def)
  have t: "valid_utf8 ''web''" by code_simp
  show ?thesis
    using r t ex_time_valid[of 0] ex_time_valid[of 600] ex_input_ok
    by (simp add: task_ok_def task_static_ok_def task_times_ok_def task_count_ok_def task_requests_ok_def
      task_finish_ok_def ex_task_def KindTask_def scope_validate_def total_nat_def ex_time_defs)
qed

lemma ex_initial_task: "initial_task crockford_ulid ex_task"
  using ex_task_ok by (simp add: initial_task_def progress_comparisons) (simp add: ex_task_def total_nat_def)

lemma ex_publish: "count_publication crockford_ulid ex_task [ex_item] (ex_time 1) = Inr ex_published"
proof -
  have "progress_counter ex_item = Some CountReady" by (simp add: progress_counter_def ex_item_def)
  then show ?thesis
    using ex_task_ok ex_item_ok
    by (simp add: count_publication_def ex_published_def)
      (simp add: ex_task_def ex_item_def ex_time_defs progress_total_def progress_unsettled_def widen_def)
qed

lemma ex_published_reachable: "task_reachable crockford_ulid (ex_published, [ex_item])"
  using task_later[OF task_initial[OF ex_initial_task] task_publish[OF ex_publish]] ex_time_valid[of 1] by simp

lemma ex_published_ok: "task_ok crockford_ulid ex_published"
  using task_reachable_inv[OF ex_published_reachable] by (simp add: task_inv_def)

lemma ex_open_step: "publication_complete crockford_ulid ex_published [ex_item] (ex_time 2) = Inr ex_open"
proof -
  have g: "graph_ok crockford_ulid ex_published [ex_item]"
    using ex_published_ok ex_item_ok
    by (simp add: graph_ok_def item_graph_def)
      (simp add: ex_published_def ex_task_def ex_item_def ex_time_defs acyclic_def)
  have "ex_open = ex_published\<lparr>tk_UpdatedAt := ex_time 2\<rparr>\<lparr>tk_PublicationComplete := True\<rparr>" by (simp add: ex_open_def)
  have "task_ok crockford_ulid (ex_published\<lparr>tk_UpdatedAt := ex_time 2\<rparr>)"
    by (rule task_ok_touch[OF ex_published_ok ex_time_valid]) (simp_all add: ex_published_def ex_time_defs)
  then have "task_ok crockford_ulid ex_open"
    by (simp add: ex_open_def task_ok_def task_static_ok_def task_times_ok_def task_count_ok_def
      task_requests_ok_def task_finish_ok_def) (simp add: ex_published_def ex_task_def total_nat_def)
  with g validate_graph_ok[of "[ex_item]" crockford_ulid ex_published] show ?thesis
    by (simp add: publication_complete_def try_res_unit flip: ex_open_def)
      (simp add: ex_published_def ex_task_def ex_item_def ex_time_defs)
qed

lemma ex_open_reachable: "task_reachable crockford_ulid (ex_open, [ex_item])"
  using task_later[OF ex_published_reachable task_open[OF ex_open_step]] .

lemma ex_stop: "request_stop crockford_ulid ex_open Cancelled (ex_time 3) = Inr ex_stopped"
proof -
  have "task_ok crockford_ulid ex_open" using task_reachable_inv[OF ex_open_reachable] by (simp add: task_inv_def)
  then show ?thesis using ex_time_valid[of 3]
    by (simp add: request_stop_Inr) (simp add: ex_task_defs ex_time_defs)
qed

lemma ex_stopped_reachable: "task_reachable crockford_ulid (ex_stopped, [ex_item])"
  using task_later[OF ex_open_reachable task_stop[OF ex_stop]] .

lemma ex_withdraw:
  "settle_unstarted crockford_ulid ex_item \<lparr>co_Outcome = Cancelled, co_Evidence = ex_input CHR ''2'',
     co_EffectsSettled = True\<rparr> (ex_time 4) = Inr ex_withdrawn"
proof -
  have "item_ok crockford_ulid ex_withdrawn"
  proof (rule item_okI[OF ex_item_ok])
    show "item_state_ok crockford_ulid ex_withdrawn"
      by (simp add: item_state_by_phase outcome_cleanup_ok_def ex_withdrawn_def settled_item_def ex_item_def)
  qed (use ex_item_ok ex_input_ok ex_time_valid[of 4] in
    \<open>simp_all add: item_ok_def item_static_ok_def item_times_ok_def item_results_ok_def ex_withdrawn_def
       settled_item_def ex_item_def ex_time_defs\<close>)
  then show ?thesis using ex_item_ok ex_input_ok
    by (simp add: settle_unstarted_Inr) (simp add: ex_withdrawn_def ex_item_def ex_time_defs)
qed

lemma ex_count: "count_transition crockford_ulid ex_stopped ex_item ex_withdrawn (ex_time 4) = Inr ex_counted"
proof -
  have "task_ok crockford_ulid ex_stopped" using task_reachable_inv[OF ex_stopped_reachable] by (simp add: task_inv_def)
  moreover have "item_ok crockford_ulid ex_withdrawn" using ex_withdraw by (simp add: settle_unstarted_Inr)
  moreover have "progress_counter ex_item = Some CountReady" "progress_counter ex_withdrawn = Some CountCancelled"
    by (simp_all add: progress_counter_def ex_item_def ex_withdrawn_def settled_item_def)
  ultimately show ?thesis using ex_item_ok
    by (simp add: count_transition_def)
      (simp add: ex_task_defs ex_item_def ex_withdrawn_def settled_item_def ex_time_defs)
qed

lemma ex_counted_ok: "task_ok crockford_ulid ex_counted"
proof -
  have "task_ok crockford_ulid (ex_stopped\<lparr>tk_UpdatedAt := ex_time 4\<rparr>)"
    by (rule task_ok_touch[OF _ ex_time_valid])
      (use task_reachable_inv[OF ex_stopped_reachable] in
        \<open>simp_all add: task_inv_def\<close>, simp add: ex_stopped_def ex_time_defs)
  then show ?thesis
    by (simp add: ex_counted_def task_ok_def task_static_ok_def task_times_ok_def task_count_ok_def
      task_requests_ok_def task_finish_ok_def) (simp add: ex_task_defs total_nat_def)
qed

lemma ex_counted_reachable: "task_reachable crockford_ulid (ex_counted, [ex_withdrawn])"
  using task_later[OF ex_stopped_reachable task_transition[of 0 "[ex_item]"]] ex_count ex_counted_ok by simp

lemma ex_finish_task: "complete_task crockford_ulid ex_counted (ex_time 5) (ex_time 6) = Inr ex_complete"
proof -
  have c: "completion_outcome crockford_ulid ex_counted = Inr Cancelled"
    using ex_counted_ok by (simp add: completion_outcome_def progress_comparisons)
      (simp add: ex_task_defs unsettled_nat_def)
  have "task_ok crockford_ulid (ex_counted\<lparr>tk_UpdatedAt := ex_time 5\<rparr>)"
    by (rule task_ok_touch[OF ex_counted_ok ex_time_valid]) (simp_all add: ex_counted_def ex_time_defs)
  then have "task_ok crockford_ulid ex_complete"
    using ex_time_valid[of 5] ex_time_valid[of 6]
    by (simp add: ex_complete_def task_ok_def task_static_ok_def task_times_ok_def task_count_ok_def
      task_requests_ok_def task_finish_ok_def) (simp add: ex_task_defs unsettled_nat_def ex_time_defs)
  moreover have "ex_counted\<lparr>tk_Outcome := Cancelled, tk_UpdatedAt := ex_time 5, tk_FinishedAt := Some (ex_time 5),
      tk_RetainUntil := Some (ex_time 6)\<rparr> = ex_complete" by (simp add: ex_complete_def ex_counted_def)
  ultimately show ?thesis using ex_counted_ok c
    by (simp add: complete_task_def progress_comparisons) (simp add: ex_task_defs unsettled_nat_def ex_time_defs)
qed

lemma ex_complete_steps: "(task_step crockford_ulid)\<^sup>*\<^sup>* (ex_stopped, [ex_item]) (ex_complete, [ex_withdrawn])"
proof (rule rtranclp_trans)
  show "(task_step crockford_ulid)\<^sup>*\<^sup>* (ex_stopped, [ex_item]) (ex_counted, [ex_withdrawn])"
    using task_transition[of 0 "[ex_item]"] ex_count ex_counted_ok by (intro r_into_rtranclp) simp
  show "(task_step crockford_ulid)\<^sup>*\<^sup>* (ex_counted, [ex_withdrawn]) (ex_complete, [ex_withdrawn])"
    by (rule r_into_rtranclp, rule task_complete, rule ex_finish_task)
qed

section \<open>Properties\<close>

text \<open>C7. The counters are exact: in every reachable state every counter of the Task equals the
  number of its items in that state, their sum is the number of items and never exceeds
  \<open>ExpectedItems\<close>, nor 4096, the ids of the items are distinct, and the Task and all its items pass
  their validators. No counter and no sum ever wraps around.\<close>

theorem reachable_counters_exact:
  assumes "task_reachable u (t, items)"
  shows "task_validate u t = Inr () \<and> (\<forall>c. unat (get_count c (tk_Progress t)) = tally c items) \<and>
    unat (progress_total (tk_Progress t)) = length items \<and>
    length items \<le> unat (tk_ExpectedItems t) \<and> unat (tk_ExpectedItems t) \<le> 4096 \<and>
    distinct (map it_ID items) \<and> list_all (\<lambda>it. item_validate u it = Inr () \<and> it_TaskID it = tk_ID t) items"
proof -
  from task_reachable_inv[OF assms] have inv: "task_inv u (t, items)" .
  from task_inv_total[OF inv] have total: "unat (progress_total (tk_Progress t)) = length items"
    by (simp add: unat_progress_total)
  with inv show ?thesis
    by (auto simp: task_inv_def counts_match_def list_all_iff task_ok_def task_count_ok_def unat_progress_total)
qed

theorem reachable_counters_exact_witness:
  "unat (progress_total (tk_Progress ex_counted)) = 1 \<and> unat (pg_Cancelled (tk_Progress ex_counted)) = tally CountCancelled [ex_withdrawn]"
proof -
  have "unat (progress_total (tk_Progress ex_counted)) = length [ex_withdrawn]"
    "unat (get_count CountCancelled (tk_Progress ex_counted)) = tally CountCancelled [ex_withdrawn]"
    using reachable_counters_exact[OF ex_counted_reachable] by blast+
  then show ?thesis by simp
qed

text \<open>The abstract outcome of a Task, in terms of its items.\<close>

definition aggregate_outcome :: "task \<Rightarrow> item list \<Rightarrow> outcome" where
  "aggregate_outcome t items =
     (if Failed \<in> it_Outcome ` set items then Failed
      else case tk_Stop t of
             Some s \<Rightarrow> sr_Outcome s
           | None \<Rightarrow>
               if Cancelled \<in> it_Outcome ` set items then Cancelled
               else if Superseded \<in> it_Outcome ` set items then Superseded
               else Succeeded)"

text \<open>C8. A Task completes with the aggregate of its items: completing a reachable Task requires that
  all captured items are published and settled; the outcome is Failed exactly when an item failed,
  otherwise the requested outcome of a stop, otherwise Cancelled or Superseded when some item was,
  and Succeeded exactly when no stop was requested and every item succeeded.\<close>

theorem completed_task_outcome:
  assumes "task_reachable u (t, items)" "complete_task u t now until = Inr t'"
  shows "tk_Outcome t' = aggregate_outcome t items \<and> length items = unat (tk_ExpectedItems t) \<and>
    list_all (\<lambda>it. it_Phase it = Settled) items \<and>
    (tk_Outcome t' = Succeeded \<longleftrightarrow> tk_Stop t = None \<and> list_all (\<lambda>it. it_Outcome it = Succeeded) items)"
proof -
  from task_reachable_inv[OF assms(1)] have inv: "task_inv u (t, items)" .
  from assms(2) obtain r where ok: "task_ok u t" and r: "completion_outcome u t = Inr r" "tk_Outcome t' = r"
    and p: "tk_PublicationComplete t" "unsettled_nat (tk_Progress t) = 0" by (auto elim!: complete_task_Inr)
  note settled = all_settled[OF inv p(2)]
  have pos: "0 < get_count c (tk_Progress t) \<longleftrightarrow> (\<exists>it \<in> set items. progress_counter it = Some c)" for c
  proof -
    have "unat (get_count c (tk_Progress t)) = tally c items" using inv by (simp add: task_inv_def counts_match_def)
    moreover have "0 < get_count c (tk_Progress t) \<longleftrightarrow> unat (get_count c (tk_Progress t)) \<noteq> 0"
      by (simp add: word_gt_0 unat_eq_0)
    ultimately show ?thesis by (simp add: tally_zero)
  qed
  have some: "(\<exists>it \<in> set items. progress_counter it = Some c) \<longleftrightarrow> x \<in> it_Outcome ` set items"
    if "(c, x) \<in> {(CountFailed, Failed), (CountCancelled, Cancelled), (CountSuperseded, Superseded)}" for c x
    using that settled(1) by (elim insertE emptyE) (force simp: progress_counter_settled)+
  have r': "r = aggregate_outcome t items"
    using r(1) ok p pos[of CountFailed] pos[of CountCancelled] pos[of CountSuperseded] some
    by (auto simp: completion_outcome_def aggregate_outcome_def progress_comparisons split: option.splits if_splits)
  have stop: "tk_Stop t = Some s \<Longrightarrow> sr_Outcome s \<noteq> Succeeded" for s
    using ok by (auto simp: task_ok_def task_requests_ok_def)
  have succ: "(\<forall>it \<in> set items. it_Outcome it = Succeeded) \<longleftrightarrow>
      Failed \<notin> it_Outcome ` set items \<and> Cancelled \<notin> it_Outcome ` set items \<and> Superseded \<notin> it_Outcome ` set items"
    using settled(2) by (auto simp: image_iff) (metis valid_outcome.elims(2))
  have "length items = unat (tk_ExpectedItems t)"
    using task_inv_total[OF inv] ok p(1) by (simp add: task_ok_def task_count_ok_def)
  moreover have "aggregate_outcome t items = Succeeded \<longleftrightarrow> tk_Stop t = None \<and> (\<forall>it \<in> set items. it_Outcome it = Succeeded)"
    unfolding succ using stop by (auto simp: aggregate_outcome_def split: option.splits)
  ultimately show ?thesis using r(2) r' settled(1) by (simp add: list_all_iff)
qed

theorem completed_task_outcome_witness:
  "tk_Outcome ex_complete = Cancelled \<and> list_all (\<lambda>it. it_Phase it = Settled) [ex_withdrawn]"
  using completed_task_outcome[OF ex_counted_reachable ex_finish_task]
  by (simp add: aggregate_outcome_def ex_withdrawn_def settled_item_def ex_counted_def ex_stopped_def)

text \<open>C9. A stop request is irrevocable: through every later sequence of Task operations it keeps its
  outcome and time, no activation is authorized any more, and the Task never becomes Succeeded.\<close>

theorem stop_is_irrevocable:
  assumes "task_reachable u (t, items)" "(task_step u)\<^sup>*\<^sup>* (t, items) (t', items')" "tk_Stop t = Some r"
  shows "tk_Stop t' = Some r \<and> tk_Activation t' = None \<and> tk_Outcome t' \<noteq> Succeeded \<and>
    (\<forall>it a inp now t''. authorize_activation u t' it a inp now \<noteq> Inr t'')"
proof -
  from assms(2) have later: "task_reachable u (t', items') \<and> tk_Stop t' = Some r"
  proof (induction "(t', items')" arbitrary: t' items')
    case base
    then show ?case using assms(1,3) by simp
  next
    case (step s)
    then show ?case using task_later task_step_stop by (cases s) fastforce
  qed
  then have "task_ok u t'" using task_reachable_inv by (fastforce simp: task_inv_def)
  with later have "tk_Activation t' = None" "tk_Outcome t' \<noteq> Succeeded"
    by (cases "tk_Activation t'"; auto simp: task_ok_def task_requests_ok_def task_finish_ok_def)+
  moreover have "authorize_activation u t' it a inp now \<noteq> Inr t''" for it a inp now t''
    using later authorize_activation_Inr(9) by fastforce
  ultimately show ?thesis using later by blast
qed

theorem stop_is_irrevocable_witness:
  "tk_Stop ex_complete = Some \<lparr>sr_Outcome = Cancelled, sr_RequestedAt = ex_time 3\<rparr> \<and> tk_Outcome ex_complete \<noteq> Succeeded"
proof -
  have "tk_Stop ex_stopped = Some \<lparr>sr_Outcome = Cancelled, sr_RequestedAt = ex_time 3\<rparr>" by (simp add: ex_stopped_def)
  from stop_is_irrevocable[OF ex_stopped_reachable ex_complete_steps this] show ?thesis by simp
qed

text \<open>\<open>ValidateGraph\<close> always terminates, and accepts exactly the captured graphs that are complete
  and executable: a valid Task with exactly \<open>ExpectedItems\<close> valid items of its own with distinct
  ids, within the Task's time span, whose dependencies are items of the graph and acyclic.\<close>

theorem validate_graph_accepts_iff:
  assumes "length items < 2 ^ 64"
  shows "validate_graph u t items = Inr () \<longleftrightarrow>
    task_validate u t = Inr () \<and> length items = unat (tk_ExpectedItems t) \<and> distinct (map it_ID items) \<and>
    list_all (\<lambda>it. item_validate u it = Inr () \<and> it_TaskID it = tk_ID t \<and>
      \<not> before (it_CreatedAt it) (tk_CreatedAt t) \<and> \<not> after (it_Deadline it) (tk_Deadline t) \<and>
      set (it_Dependencies it) \<subseteq> it_ID ` set items) items \<and>
    acyclic {(d, it_ID it) | d it. it \<in> set items \<and> d \<in> set (it_Dependencies it)}"
  unfolding validate_graph_ok[OF assms] graph_ok_def set_item_graph by (simp add: list_all_iff)

theorem validate_graph_accepts_iff_witness:
  "validate_graph crockford_ulid ex_published [ex_item] = Inr () \<longleftrightarrow>
    list_all (\<lambda>it. it_TaskID it = tk_ID ex_published) [ex_item]"
  using validate_graph_accepts_iff[of "[ex_item]" crockford_ulid ex_published] ex_published_ok ex_item_ok
  by (simp add: acyclic_def) (simp add: ex_published_def ex_task_def ex_item_def ex_time_defs acyclic_def)

text \<open>Collection freezes a Task: once \<open>BeginCollection\<close> has marked a Task, every operation of the
  Task is refused, except that repeating \<open>BeginCollection\<close> returns the Task unchanged.\<close>

theorem collection_freezes_task:
  assumes "task_reachable u (t, items)" "(task_step u)\<^sup>*\<^sup>* (t, items) s" "tk_CollectionStartedAt t \<noteq> None"
  shows "s = (t, items) \<and> begin_collection u t now = Inr t"
proof -
  have ok: "task_ok u t" using task_reachable_inv[OF assms(1)] by (simp add: task_inv_def)
  from assms(2) have "s = (t, items)"
  proof (induction rule: rtranclp_induct)
    case (step y z)
    then show ?case using task_step_collecting[of u y z] assms(3) ok by simp
  qed simp
  with ok assms(3) show ?thesis by (simp add: begin_collection_Inr)
qed

lemma ex_collect: "begin_collection crockford_ulid ex_complete (ex_time 6) = Inr ex_collecting"
proof -
  have "task_ok crockford_ulid ex_complete" using ex_finish_task by (auto elim!: complete_task_Inr)
  moreover from this have "task_ok crockford_ulid (ex_complete\<lparr>tk_UpdatedAt := ex_time 6\<rparr>)"
    by (rule task_ok_touch[OF _ ex_time_valid]) (simp_all add: ex_complete_def ex_time_defs)
  then have "task_ok crockford_ulid ex_collecting"
    using ex_time_valid[of 6]
    by (simp add: ex_collecting_def task_ok_def task_static_ok_def task_times_ok_def task_count_ok_def
      task_requests_ok_def task_finish_ok_def) (simp add: ex_complete_def ex_time_defs)
  ultimately show ?thesis using ex_time_valid[of 6]
    by (simp add: begin_collection_Inr) (simp add: ex_task_defs unsettled_nat_def ex_time_defs)
qed

theorem collection_freezes_task_witness:
  "begin_collection crockford_ulid ex_collecting (ex_time 9) = Inr ex_collecting"
proof -
  have "task_reachable crockford_ulid (ex_complete, [ex_withdrawn])"
    using task_later[OF ex_counted_reachable task_complete[OF ex_finish_task]] .
  then have "task_reachable crockford_ulid (ex_collecting, [ex_withdrawn])"
    using task_later task_collect[OF ex_collect] by blast
  moreover have "tk_CollectionStartedAt ex_collecting \<noteq> None" by (simp add: ex_collecting_def)
  ultimately show ?thesis using collection_freezes_task[OF _ rtranclp.rtrancl_refl] by blast
qed

end
