(* ===== verification/WorkStage.thy ===== *)
theory WorkStage
  imports WorkLifecycle
begin

text \<open>
  The diagnostic stages of an attempt (\<open>internal/common/workexecution/diagnostics.go\<close>): safe
  operator-facing evidence that is updated while the attempt runs, and never rewritten once it is
  finished.
\<close>

section \<open>Data and validation\<close>

datatype stage_state =
    StageWaiting | StageRunning | StageSucceeded | StageFailed | StageSkipped | StageUnknown
  | StageStateOther string

record stage =
  sg_Key :: string
  sg_Name :: string
  sg_State :: stage_state
  sg_Expected :: string
  sg_Observed :: string
  sg_FailureCode :: string
  sg_StartedAt :: "gotime option"
  sg_FinishedAt :: "gotime option"

text \<open>The loop over the runes of the key: a byte outside ASCII is part of a rune that is refused.\<close>

definition stage_key_char :: "char \<Rightarrow> bool" where
  "stage_key_char c \<longleftrightarrow> is_lower_letter c \<or> is_digit c \<or> c = CHR ''_'' \<or> c = CHR ''-''"

definition stage_validate :: "stage \<Rightarrow> unit res" where
  "stage_validate s =
     (if length (sg_Key s) < 1 \<or> 64 < length (sg_Key s) \<or> length (sg_Name s) < 1 \<or> 160 < length (sg_Name s) \<or>
         length (sg_Expected s) < 1 \<or> 1024 < length (sg_Expected s) \<or> 2048 < length (sg_Observed s) \<or>
         128 < length (sg_FailureCode s) \<or> \<not> valid_utf8 (sg_Name s) \<or> \<not> valid_utf8 (sg_Expected s) \<or>
         \<not> valid_utf8 (sg_Observed s) \<or> \<not> valid_utf8 (sg_FailureCode s)
        then Inl ValidationFailed
      else if \<not> list_all stage_key_char (sg_Key s) then Inl ValidationFailed
      else if \<not> opt_all valid_time (sg_StartedAt s) \<or> \<not> opt_all valid_time (sg_FinishedAt s) \<or>
              \<not> opt_all (\<lambda>a. opt_all (\<lambda>f. \<not> before f a) (sg_FinishedAt s)) (sg_StartedAt s)
        then Inl ValidationFailed
      else try_res (case sg_State s of
          StageWaiting \<Rightarrow>
            if sg_StartedAt s \<noteq> None \<or> sg_FinishedAt s \<noteq> None then Inl ValidationFailed else Inr ()
        | StageRunning \<Rightarrow>
            if sg_StartedAt s = None \<or> sg_FinishedAt s \<noteq> None then Inl ValidationFailed else Inr ()
        | StageSucceeded \<Rightarrow>
            if sg_StartedAt s = None \<or> sg_FinishedAt s = None then Inl ValidationFailed else Inr ()
        | StageFailed \<Rightarrow>
            if sg_StartedAt s = None \<or> sg_FinishedAt s = None then Inl ValidationFailed else Inr ()
        | StageSkipped \<Rightarrow>
            if sg_StartedAt s \<noteq> None \<or> sg_FinishedAt s = None \<or> sg_Observed s = []
            then Inl ValidationFailed else Inr ()
        | StageUnknown \<Rightarrow>
            if sg_StartedAt s = None \<or> sg_FinishedAt s \<noteq> None \<or> sg_Observed s = []
            then Inl ValidationFailed else Inr ()
        | StageStateOther x \<Rightarrow> Inl ValidationFailed) (\<lambda>_.
      if sg_FailureCode s \<noteq> [] \<and> sg_State s \<noteq> StageFailed \<and> sg_State s \<noteq> StageUnknown
        then Inl ValidationFailed else Inr ()))"

definition advance_stage :: "stage \<Rightarrow> stage \<Rightarrow> unit res" where
  "advance_stage previous nxt =
     try_res (stage_validate previous) (\<lambda>_.
     try_res (stage_validate nxt) (\<lambda>_.
     if sg_Key previous \<noteq> sg_Key nxt \<or> sg_Name previous \<noteq> sg_Name nxt \<or> sg_Expected previous \<noteq> sg_Expected nxt
       then Inl StateConflict
     else if sg_FinishedAt previous \<noteq> None then Inl StateConflict
     else if (case sg_StartedAt previous of
                None \<Rightarrow> False
              | Some a \<Rightarrow> (case sg_StartedAt nxt of None \<Rightarrow> True | Some b \<Rightarrow> instant b \<noteq> instant a))
       then Inl StateConflict
     else if sg_State previous \<noteq> StageWaiting \<and> (sg_State nxt = StageWaiting \<or> sg_State nxt = StageSkipped)
       then Inl StateConflict
     else Inr ()))"

section \<open>The states an update may move to\<close>

fun stage_moves :: "stage_state \<Rightarrow> stage_state set" where
  "stage_moves StageWaiting =
     {StageWaiting, StageRunning, StageSucceeded, StageFailed, StageSkipped, StageUnknown}"
| "stage_moves StageRunning = {StageRunning, StageSucceeded, StageFailed, StageUnknown}"
| "stage_moves StageUnknown = {StageRunning, StageSucceeded, StageFailed, StageUnknown}"
| "stage_moves _ = {}"

definition same_start :: "stage \<Rightarrow> stage \<Rightarrow> bool" where
  "same_start p n \<longleftrightarrow>
     (\<forall>a. sg_StartedAt p = Some a \<longrightarrow> (\<exists>b. sg_StartedAt n = Some b \<and> instant b = instant a))"

lemma stage_timing:
  assumes "stage_validate s = Inr ()"
  shows "sg_StartedAt s = None \<longleftrightarrow> sg_State s = StageWaiting \<or> sg_State s = StageSkipped"
    "sg_FinishedAt s = None \<longleftrightarrow> sg_State s = StageWaiting \<or> sg_State s = StageRunning \<or> sg_State s = StageUnknown"
    "\<And>x. sg_State s \<noteq> StageStateOther x"
  using assms by (cases "sg_State s"; auto simp: stage_validate_def)+

lemma advance_stage_Inr:
  "advance_stage p n = Inr () \<longleftrightarrow>
     stage_validate p = Inr () \<and> stage_validate n = Inr () \<and> sg_Key p = sg_Key n \<and> sg_Name p = sg_Name n \<and>
     sg_Expected p = sg_Expected n \<and> sg_State n \<in> stage_moves (sg_State p) \<and> same_start p n"
proof (cases "stage_validate p = Inr () \<and> stage_validate n = Inr ()")
  case True
  note tp = stage_timing[OF conjunct1[OF True]] and tn = stage_timing[OF conjunct2[OF True]]
  have "sg_FinishedAt p = None \<and>
      \<not> (sg_State p \<noteq> StageWaiting \<and> (sg_State n = StageWaiting \<or> sg_State n = StageSkipped)) \<longleftrightarrow>
      sg_State n \<in> stage_moves (sg_State p)"
    using tp tn by (cases "sg_State p"; cases "sg_State n") auto
  moreover have "\<not> (case sg_StartedAt p of None \<Rightarrow> False
      | Some a \<Rightarrow> (case sg_StartedAt n of None \<Rightarrow> True | Some b \<Rightarrow> instant b \<noteq> instant a)) \<longleftrightarrow> same_start p n"
    by (auto simp: same_start_def split: option.splits)
  ultimately show ?thesis
    using True by (simp add: advance_stage_def) blast
next
  case False
  then show ?thesis by (auto simp: advance_stage_def)
qed

inductive stage_updated :: "stage \<Rightarrow> stage \<Rightarrow> bool" where
  stage_update: "advance_stage p n = Inr () \<Longrightarrow> stage_updated p n"

inductive_simps stage_updated_iff: "stage_updated p n"

section \<open>Properties\<close>

text \<open>Through any sequence of accepted updates a stage keeps its key, name and expectation and, once
  started, its start time; it moves only along the state machine waiting, then running or unknown,
  then succeeded or failed (or from waiting to skipped), and a finished stage accepts no update.\<close>

theorem stage_updates_monotone:
  assumes "stage_updated\<^sup>*\<^sup>* p n" "stage_validate p = Inr ()"
  shows "stage_validate n = Inr () \<and> sg_Key n = sg_Key p \<and> sg_Name n = sg_Name p \<and> sg_Expected n = sg_Expected p \<and>
    same_start p n \<and> (sg_FinishedAt p = None \<or> n = p) \<and>
    (sg_State p \<noteq> StageWaiting \<longrightarrow> sg_State n = sg_State p \<or> sg_State n \<in> stage_moves (sg_State p))"
  using assms(1)
proof (induction rule: rtranclp_induct)
  case base
  then show ?case using assms(2) by (auto simp: same_start_def)
next
  case (step y z)
  from step(2) have u: "stage_validate y = Inr ()" "stage_validate z = Inr ()" "sg_Key y = sg_Key z"
    "sg_Name y = sg_Name z" "sg_Expected y = sg_Expected z" "sg_State z \<in> stage_moves (sg_State y)" "same_start y z"
    by (simp_all add: stage_updated_iff advance_stage_Inr)
  have fin: "sg_FinishedAt p = None"
  proof (rule ccontr)
    assume f: "sg_FinishedAt p \<noteq> None"
    with step(3) have "y = p" by blast
    with f u(6) stage_timing[OF assms(2)] show False by (cases "sg_State p") auto
  qed
  have "same_start p z" using step(3) u(7) by (fastforce simp: same_start_def)
  moreover have "sg_State p \<noteq> StageWaiting \<longrightarrow> sg_State z = sg_State p \<or> sg_State z \<in> stage_moves (sg_State p)"
    using step(3) u(6) fin stage_timing[OF assms(2)] by (cases "sg_State p"; cases "sg_State y") auto
  ultimately show ?case using step(3) u fin by simp
qed

definition ex_stage :: "stage_state \<Rightarrow> gotime option \<Rightarrow> gotime option \<Rightarrow> stage" where
  "ex_stage st started finished = \<lparr>sg_Key = ''pull'', sg_Name = ''Pull image'', sg_State = st, sg_Expected = ''present'',
     sg_Observed = [], sg_FailureCode = [], sg_StartedAt = started, sg_FinishedAt = finished\<rparr>"

lemma ex_stage_valid:
  assumes "opt_all valid_time a" "opt_all valid_time f" "opt_all (\<lambda>x. opt_all (\<lambda>y. \<not> before y x) f) a"
    and "st = StageRunning \<and> a \<noteq> None \<and> f = None \<or> st = StageSucceeded \<and> a \<noteq> None \<and> f \<noteq> None"
  shows "stage_validate (ex_stage st a f) = Inr ()"
proof -
  have "valid_utf8 ''Pull image''" "valid_utf8 ''present''" "valid_utf8 ''''" "list_all stage_key_char ''pull''"
    by code_simp+
  with assms show ?thesis by (auto simp: stage_validate_def ex_stage_def)
qed

theorem stage_updates_monotone_witness:
  "same_start (ex_stage StageRunning (Some (ex_time 1)) None) (ex_stage StageSucceeded (Some (ex_time 1)) (Some (ex_time 2)))"
proof -
  let ?p = "ex_stage StageRunning (Some (ex_time 1)) None"
    and ?n = "ex_stage StageSucceeded (Some (ex_time 1)) (Some (ex_time 2))"
  have v: "stage_validate ?p = Inr ()" "stage_validate ?n = Inr ()"
    using ex_time_valid[of 1] ex_time_valid[of 2] by (auto intro!: ex_stage_valid simp: ex_time_defs)
  then have "stage_updated\<^sup>*\<^sup>* ?p ?n"
    by (intro r_into_rtranclp) (simp add: stage_updated_iff advance_stage_Inr ex_stage_def same_start_def)
  from stage_updates_monotone[OF this v(1)] show ?thesis by simp
qed

end
