(* ===== verification/Rolling.thy ===== *)
theory Rolling
  imports Ids
begin

text \<open>
  The sealed order in which a rolling release replaces the replicas of a Service
  (\<open>internal/common/rollingrelease\<close>): the plan and its validator, the list of replica changes it
  stands for, the durable cursor that walks through their phases, and the completion record.
\<close>

section \<open>Data\<close>

definition maximum_replicas :: u32 where "maximum_replicas = 16"
definition default_replica_timeout :: u32 where "default_replica_timeout = 300"
definition maximum_replica_timeout :: u32 where "maximum_replica_timeout = 86400"
definition drain_seconds :: int where "drain_seconds = 30"

record replica =
  rp_ReleaseID :: string
  rp_ArtifactID :: string
  rp_ComposeName :: string
  rp_Ordinal :: u32
  rp_ContainerID :: string
  rp_ContainerName :: string
  rp_ComposeReplica :: u32

record rolling_plan =
  rl_ServiceID :: string
  rl_ReleaseID :: string
  rl_ReplicaTimeoutSeconds :: u32
  rl_Prior :: "replica list"
  rl_Retained :: "replica list"
  rl_Candidate :: "replica list"

record replica_change =
  ch_Ordinal :: u32
  ch_Candidate :: "replica option"
  ch_Retire :: "replica option"
  ch_Retained :: "replica option"
  ch_Before :: "replica list"
  ch_After :: "replica list"

section \<open>Names\<close>

text \<open>\<open>fmt.Sprintf("%02d", ordinal)\<close> for an ordinal below 100.\<close>

definition two_digits :: "nat \<Rightarrow> string" where
  "two_digits n = [char_of (48 + n div 10), char_of (48 + n mod 10)]"

definition replica_compose_name :: "ulid_check \<Rightarrow> string \<Rightarrow> u32 \<Rightarrow> string res" where
  "replica_compose_name u release_id ordinal =
     (if \<not> id_valid u KindDeployment release_id \<or> ordinal < 1 \<or> maximum_replicas < ordinal
      then Inl ValidationFailed
      else Inr (''gp-'' @ to_lower release_id @ ''-r'' @ two_digits (unat ordinal)))"

text \<open>A byte outside ASCII is part of a rune that no test admits, so the loops over runes are
  loops over bytes.\<close>

definition compose_char :: "nat \<Rightarrow> char \<Rightarrow> bool" where
  "compose_char index c \<longleftrightarrow>
     is_lower_letter c \<or> is_digit c \<or> 0 < index \<and> (c = CHR ''-'' \<or> c = CHR ''_'')"

definition valid_compose_name :: "string \<Rightarrow> bool" where
  "valid_compose_name value \<longleftrightarrow>
     \<not> (length value = 0 \<or> 63 < length value) \<and>
     (\<forall>index < length value. compose_char index (value ! index))"

definition container_char :: "nat \<Rightarrow> char \<Rightarrow> bool" where
  "container_char index c \<longleftrightarrow>
     is_lower_letter c \<or> is_upper_letter c \<or> is_digit c \<or>
     0 < index \<and> (c = CHR ''-'' \<or> c = CHR ''_'' \<or> c = CHR ''.'')"

definition valid_container_dns_name :: "string \<Rightarrow> bool" where
  "valid_container_dns_name value \<longleftrightarrow>
     \<not> (length value = 0 \<or> 253 < length value) \<and>
     (\<forall>index < length value. container_char index (value ! index))"

definition routing_name :: "replica \<Rightarrow> string" where
  "routing_name r = (if rp_ContainerID r \<noteq> [] then rp_ContainerName r else rp_ComposeName r)"

definition validate_container_identity :: "replica \<Rightarrow> unit res" where
  "validate_container_identity r =
     (if rp_ContainerID r = [] \<and> rp_ContainerName r = [] \<and> rp_ComposeReplica r = 0 then Inr ()
      else if length (rp_ContainerID r) \<noteq> 64 \<or> \<not> valid_container_dns_name (rp_ContainerName r) \<or>
              rp_ComposeReplica r = 0 \<or> maximum_replicas < rp_ComposeReplica r
        then Inl ValidationFailed
      else if \<not> list_all is_lower_hex (rp_ContainerID r) then Inl ValidationFailed
      else Inr ())"

section \<open>The plan\<close>

text \<open>The body of the loops of \<open>Plan.Validate\<close> for the replica at \<open>index\<close> of the group with the
  given number (0 prior, 1 candidate, 2 retained) and first replica. The maps \<open>seen\<close> and
  \<open>containers\<close> are lists of their keys.\<close>

definition check_container ::
  "rolling_plan \<Rightarrow> nat \<Rightarrow> replica list \<Rightarrow> string list \<Rightarrow> replica \<Rightarrow> string list res" where
  "check_container p gi grp containers r =
     (if rp_ContainerID r \<noteq> [] then
        (if gi \<noteq> 0 \<or> length grp < 2 \<or> length (rl_Retained p) \<noteq> 0 \<or>
            rp_ComposeName r \<noteq> rp_ComposeName (hd grp) \<or> rp_ComposeReplica r \<noteq> rp_Ordinal r \<or>
            rp_ContainerID r \<in> set containers
         then Inl ValidationFailed else Inr (rp_ContainerID r # containers))
      else Inr containers)"

definition check_role :: "ulid_check \<Rightarrow> rolling_plan \<Rightarrow> nat \<Rightarrow> replica \<Rightarrow> unit res" where
  "check_role u p gi r =
     (if gi \<noteq> 1 then
        (if rp_ReleaseID r = rl_ReleaseID p \<or> rp_ArtifactID r = rp_ArtifactID (hd (rl_Candidate p))
         then Inl ValidationFailed else Inr ())
      else case replica_compose_name u (rl_ReleaseID p) (rp_Ordinal r) of
             Inl e \<Rightarrow> Inl ValidationFailed
           | Inr name \<Rightarrow>
               if rp_ReleaseID r \<noteq> rl_ReleaseID p \<or> rp_ComposeName r \<noteq> name
               then Inl ValidationFailed else Inr ())"

definition validate_replica ::
  "ulid_check \<Rightarrow> rolling_plan \<Rightarrow> nat \<Rightarrow> replica list \<Rightarrow> nat \<Rightarrow> string list \<times> string list \<Rightarrow> replica \<Rightarrow>
     (string list \<times> string list) res" where
  "validate_replica u p gi grp index maps r =
     (if \<not> id_valid u KindDeployment (rp_ReleaseID r) \<or> \<not> id_valid u KindConfig (rp_ArtifactID r) \<or>
         rp_Ordinal r \<noteq> of_nat (index + 1) \<or> \<not> valid_compose_name (rp_ComposeName r) \<or>
         rp_ReleaseID r \<noteq> rp_ReleaseID (hd grp) \<or> rp_ArtifactID r \<noteq> rp_ArtifactID (hd grp)
        then Inl ValidationFailed
      else try_res (validate_container_identity r) (\<lambda>_.
      try_res (check_container p gi grp (snd maps) r) (\<lambda>containers.
      if (rp_ContainerID r \<noteq> []) \<noteq> (rp_ContainerID (hd grp) \<noteq> []) then Inl ValidationFailed
      else if routing_name r \<in> set (fst maps) then Inl ValidationFailed
      else try_res (check_role u p gi r) (\<lambda>_. Inr (routing_name r # fst maps, containers)))))"

fun validate_replicas ::
  "ulid_check \<Rightarrow> rolling_plan \<Rightarrow> nat \<Rightarrow> replica list \<Rightarrow> nat \<Rightarrow> replica list \<Rightarrow>
     string list \<times> string list \<Rightarrow> (string list \<times> string list) res" where
  "validate_replicas u p gi grp index [] maps = Inr maps"
| "validate_replicas u p gi grp index (r # rs) maps =
     try_res (validate_replica u p gi grp index maps r)
       (validate_replicas u p gi grp (index + 1) rs)"

fun validate_groups ::
  "ulid_check \<Rightarrow> rolling_plan \<Rightarrow> nat \<Rightarrow> replica list list \<Rightarrow> string list \<times> string list \<Rightarrow> unit res" where
  "validate_groups u p gi [] maps = Inr ()"
| "validate_groups u p gi (g # gs) maps =
     try_res (validate_replicas u p gi g 0 g maps) (validate_groups u p (gi + 1) gs)"

definition rolling_plan_validate :: "ulid_check \<Rightarrow> rolling_plan \<Rightarrow> unit res" where
  "rolling_plan_validate u p =
     (if \<not> id_valid u KindService (rl_ServiceID p) \<or> \<not> id_valid u KindDeployment (rl_ReleaseID p) \<or>
         rl_ReplicaTimeoutSeconds p = 0 \<or> maximum_replica_timeout < rl_ReplicaTimeoutSeconds p \<or>
         unat maximum_replicas < length (rl_Prior p) \<or> 1 < length (rl_Retained p) \<or>
         length (rl_Retained p) \<noteq> 0 \<and> length (rl_Prior p) \<noteq> 1 \<or>
         length (rl_Candidate p) < 1 \<or> unat maximum_replicas < length (rl_Candidate p)
        then Inl ValidationFailed
      else try_res (validate_groups u p 0 [rl_Prior p, rl_Candidate p, rl_Retained p] ([], [])) (\<lambda>_.
      if length (rl_Retained p) \<noteq> 0 \<and>
         (rp_ReleaseID (hd (rl_Retained p)) = rp_ReleaseID (hd (rl_Prior p)) \<or>
          rp_ArtifactID (hd (rl_Retained p)) = rp_ArtifactID (hd (rl_Prior p)))
        then Inl ValidationFailed else Inr ()))"

text \<open>The candidates of \<open>NewPlan\<close>, at the given indices.\<close>

fun new_candidates :: "ulid_check \<Rightarrow> string \<Rightarrow> string \<Rightarrow> nat list \<Rightarrow> replica list res" where
  "new_candidates u release_id artifact_id [] = Inr []"
| "new_candidates u release_id artifact_id (index # rest) =
     (let ordinal = of_nat (index + 1) in
      try_res (replica_compose_name u release_id ordinal) (\<lambda>name.
      try_res (new_candidates u release_id artifact_id rest) (\<lambda>cs.
      Inr (\<lparr>rp_ReleaseID = release_id, rp_ArtifactID = artifact_id, rp_ComposeName = name,
            rp_Ordinal = ordinal, rp_ContainerID = [], rp_ContainerName = [], rp_ComposeReplica = 0\<rparr> # cs))))"

definition new_plan ::
  "ulid_check \<Rightarrow> string \<Rightarrow> string \<Rightarrow> string \<Rightarrow> u32 \<Rightarrow> u32 \<Rightarrow> replica list \<Rightarrow> rolling_plan res" where
  "new_plan u service_id release_id artifact_id replicas timeout prior =
     (if replicas < 1 \<or> maximum_replicas < replicas then Inl ValidationFailed
      else (let timeout = (if timeout = 0 then default_replica_timeout else timeout) in
      try_res (new_candidates u release_id artifact_id [0..<unat replicas]) (\<lambda>cs.
      (let plan = \<lparr>rl_ServiceID = service_id, rl_ReleaseID = release_id, rl_ReplicaTimeoutSeconds = timeout,
                   rl_Prior = prior, rl_Retained = [], rl_Candidate = cs\<rparr>
       in try_res (rolling_plan_validate u plan) (\<lambda>_. Inr plan)))))"

section \<open>The changes\<close>

text \<open>One pass of the loop of \<open>Changes\<close>: the change at \<open>index\<close> and the routing set it leaves.\<close>

definition change_at :: "rolling_plan \<Rightarrow> nat \<Rightarrow> replica list \<Rightarrow> replica_change \<times> replica list" where
  "change_at p index active =
     (let retire = (if index < length (rl_Prior p) then Some (rl_Prior p ! index) else None);
          active1 = (case retire of None \<Rightarrow> active | Some r \<Rightarrow> filter (\<lambda>x. x \<noteq> r) active);
          candidate = (if index < length (rl_Candidate p) then Some (rl_Candidate p ! index) else None);
          active2 = (case candidate of None \<Rightarrow> active1 | Some c \<Rightarrow> active1 @ [c])
      in (\<lparr>ch_Ordinal = of_nat (index + 1), ch_Candidate = candidate, ch_Retire = retire,
           ch_Retained = None, ch_Before = active, ch_After = active2\<rparr>, active2))"

fun changes_loop :: "rolling_plan \<Rightarrow> nat list \<Rightarrow> replica list \<Rightarrow> replica_change list" where
  "changes_loop p [] active = []"
| "changes_loop p (index # rest) active =
     (case change_at p index active of (c, active') \<Rightarrow> c # changes_loop p rest active')"

definition changes :: "ulid_check \<Rightarrow> rolling_plan \<Rightarrow> replica_change list res" where
  "changes u p =
     try_res (rolling_plan_validate u p) (\<lambda>_.
     (let count = max (length (rl_Prior p)) (length (rl_Candidate p));
          cs = changes_loop p [0..<count] (rl_Prior p)
      in Inr (case rl_Retained p of
                [] \<Rightarrow> cs
              | r # _ \<Rightarrow> cs[length cs - 1 := (cs ! (length cs - 1))\<lparr>ch_Retained := Some r\<rparr>])))"

section \<open>The cursor\<close>

text \<open>The zero value of a phase is \<open>NoPhase\<close>.\<close>

datatype rolling_phase =
    NoPhase | StartCandidate | WaitCandidateHealthy | SwitchTraffic | DrainPredecessor
  | RemovePredecessor | RemoveRetained | RollingPhaseOther string

definition phases :: "replica_change \<Rightarrow> rolling_phase list" where
  "phases c =
     (if ch_Candidate c \<noteq> None then [StartCandidate, WaitCandidateHealthy] else []) @
     [SwitchTraffic] @
     (if ch_Retire c \<noteq> None then [DrainPredecessor, RemovePredecessor] else []) @
     (if ch_Retained c \<noteq> None then [RemoveRetained] else [])"

record cursor =
  cu_Change :: u32
  cu_Phase :: rolling_phase
  cu_InFlight :: bool
  cu_ReplicaStartedAt :: gotime
  cu_ReplicaDeadline :: gotime
  cu_DrainUntil :: gotime

abbreviation fresh_cursor :: "u32 \<Rightarrow> rolling_phase \<Rightarrow> cursor" where
  "fresh_cursor n ph \<equiv> \<lparr>cu_Change = n, cu_Phase = ph, cu_InFlight = False, cu_ReplicaStartedAt = zero_time,
     cu_ReplicaDeadline = zero_time, cu_DrainUntil = zero_time\<rparr>"

definition new_cursor :: "ulid_check \<Rightarrow> rolling_plan \<Rightarrow> cursor res" where
  "new_cursor u p = try_res (changes u p) (\<lambda>cs. Inr (fresh_cursor 1 (hd (phases (hd cs)))))"

fun phase_index_from :: "int \<Rightarrow> rolling_phase list \<Rightarrow> rolling_phase \<Rightarrow> int" where
  "phase_index_from i [] ph = - 1"
| "phase_index_from i (c # cs) ph = (if c = ph then i else phase_index_from (i + 1) cs ph)"

abbreviation phase_index :: "rolling_phase list \<Rightarrow> rolling_phase \<Rightarrow> int" where
  "phase_index \<equiv> phase_index_from 0"

definition timeout_nanos :: "rolling_plan \<Rightarrow> int" where
  "timeout_nanos p = uint (rl_ReplicaTimeoutSeconds p) * second"

definition cursor_validate :: "ulid_check \<Rightarrow> rolling_plan \<Rightarrow> gotime \<Rightarrow> cursor \<Rightarrow> unit res" where
  "cursor_validate u p task_deadline g =
     try_res (changes u p) (\<lambda>cs.
     if is_zero task_deadline \<or> cu_Change g = 0 \<or> of_nat (length cs + 1) < cu_Change g
       then Inl ValidationFailed
     else if cu_Change g = of_nat (length cs + 1) then
       (if cu_Phase g \<noteq> NoPhase \<or> cu_InFlight g \<or> \<not> is_zero (cu_ReplicaStartedAt g) \<or>
           \<not> is_zero (cu_ReplicaDeadline g) \<or> \<not> is_zero (cu_DrainUntil g)
        then Inl ValidationFailed else Inr ())
     else (let phs = phases (cs ! unat (cu_Change g - 1)); index = phase_index phs (cu_Phase g) in
     if index < 0 then Inl ValidationFailed
     else if is_zero (cu_ReplicaStartedAt g) then
       (if index \<noteq> 0 \<or> cu_InFlight g \<or> \<not> is_zero (cu_ReplicaDeadline g) \<or> \<not> is_zero (cu_DrainUntil g)
        then Inl ValidationFailed else Inr ())
     else if \<not> after (cu_ReplicaDeadline g) (cu_ReplicaStartedAt g) \<or> after (cu_ReplicaDeadline g) task_deadline \<or>
             timeout_nanos p < sub_time (cu_ReplicaDeadline g) (cu_ReplicaStartedAt g)
       then Inl ValidationFailed
     else if cu_Phase g = DrainPredecessor \<or> cu_Phase g = RemovePredecessor then
       (if before (cu_DrainUntil g) (cu_ReplicaStartedAt g) \<or> after (cu_DrainUntil g) (cu_ReplicaDeadline g)
        then Inl ValidationFailed else Inr ())
     else if \<not> is_zero (cu_DrainUntil g) then Inl ValidationFailed
     else Inr ()))"

text \<open>The replica budget starts with the first phase of a change and is never renewed.\<close>

definition started_cursor :: "rolling_plan \<Rightarrow> gotime \<Rightarrow> gotime \<Rightarrow> cursor \<Rightarrow> cursor" where
  "started_cursor p d now g =
     (if is_zero (cu_ReplicaStartedAt g) then
        (let deadline = utc (add_duration now (timeout_nanos p)) in
         g\<lparr>cu_ReplicaStartedAt := utc now,
           cu_ReplicaDeadline := (if after deadline d then utc d else deadline)\<rparr>)
      else g)"

definition begin_phase :: "ulid_check \<Rightarrow> rolling_plan \<Rightarrow> gotime \<Rightarrow> gotime \<Rightarrow> cursor \<Rightarrow> cursor res" where
  "begin_phase u p task_deadline now g =
     try_res (cursor_validate u p task_deadline g) (\<lambda>_.
     if cu_Phase g = NoPhase \<or> cu_InFlight g then Inl StateConflict
     else if is_zero now \<or> \<not> before now task_deadline then Inl StateConflict
     else (let g1 = started_cursor p task_deadline now g
     in if before now (cu_ReplicaStartedAt g1) \<or> \<not> before now (cu_ReplicaDeadline g1) then Inl StateConflict
        else Inr (g1\<lparr>cu_InFlight := True\<rparr>)))"

text \<open>The duration \<open>ReplicaDeadline.Sub(now)\<close> is positive where it is halved, so \<open>div\<close> truncates
  as Go's division does.\<close>

definition drain_duration :: "cursor \<Rightarrow> gotime \<Rightarrow> int" where
  "drain_duration g now = min (drain_seconds * second) (sub_time (cu_ReplicaDeadline g) now div 2)"

definition confirm_phase ::
  "ulid_check \<Rightarrow> rolling_plan \<Rightarrow> gotime \<Rightarrow> rolling_phase \<Rightarrow> gotime \<Rightarrow> cursor \<Rightarrow> cursor res" where
  "confirm_phase u p task_deadline phase now g =
     try_res (cursor_validate u p task_deadline g) (\<lambda>_.
     if \<not> cu_InFlight g \<or> cu_Phase g \<noteq> phase then Inl StateConflict
     else if before now (cu_ReplicaStartedAt g) \<or> \<not> before now (cu_ReplicaDeadline g) then Inl StateConflict
     else if phase = DrainPredecessor \<and> before now (cu_DrainUntil g) then Inl StateConflict
     else try_res (changes u p) (\<lambda>cs.
     (let change = cs ! unat (cu_Change g - 1); phs = phases change; index = nat (phase_index phs phase);
          g1 = g\<lparr>cu_InFlight := False\<rparr>
      in if index + 1 < length phs then
           (let g2 = g1\<lparr>cu_Phase := phs ! (index + 1)\<rparr>;
                g3 = (if cu_Phase g2 = RemoveRetained then g2\<lparr>cu_DrainUntil := zero_time\<rparr> else g2)
            in Inr (if phase = SwitchTraffic \<and> ch_Retire change \<noteq> None
                    then g3\<lparr>cu_DrainUntil := utc (add_duration now (drain_duration g3 now))\<rparr> else g3))
         else (let n = cu_Change g + 1 in
           Inr (fresh_cursor n (if n \<le> of_nat (length cs) then hd (phases (cs ! unat (n - 1))) else NoPhase))))))"

section \<open>Completion\<close>

record rolling_completion =
  rc_ServiceID :: string
  rc_ReleaseID :: string
  rc_ArtifactID :: string
  rc_RuntimeSHA256 :: string
  rc_Replicas :: u32
  rc_ProxyGeneration :: u64
  rc_ProxyConfigSHA256 :: string
  rc_Compensated :: bool

definition validate_completion :: "ulid_check \<Rightarrow> rolling_completion \<Rightarrow> unit res" where
  "validate_completion u c =
     (if \<not> id_valid u KindService (rc_ServiceID c) \<or> \<not> id_valid u KindDeployment (rc_ReleaseID c) \<or>
         \<not> id_valid u KindConfig (rc_ArtifactID c) \<or> \<not> sha256_hex (rc_RuntimeSHA256 c) \<or>
         rc_Replicas c = 0 \<or> maximum_replicas < rc_Replicas c \<or>
         rc_ProxyGeneration c = 0 \<and> rc_ProxyConfigSHA256 c \<noteq> [] \<or>
         rc_ProxyGeneration c \<noteq> 0 \<and> \<not> sha256_hex (rc_ProxyConfigSHA256 c)
      then Inl ValidationFailed else Inr ())"

section \<open>What the validator accepts\<close>

definition replica_ok :: "ulid_check \<Rightarrow> rolling_plan \<Rightarrow> nat \<Rightarrow> replica list \<Rightarrow> nat \<Rightarrow> replica \<Rightarrow> bool" where
  "replica_ok u p gi g index r \<longleftrightarrow>
     id_valid u KindDeployment (rp_ReleaseID r) \<and> id_valid u KindConfig (rp_ArtifactID r) \<and>
     rp_Ordinal r = of_nat (index + 1) \<and> valid_compose_name (rp_ComposeName r) \<and>
     rp_ReleaseID r = rp_ReleaseID (hd g) \<and> rp_ArtifactID r = rp_ArtifactID (hd g) \<and>
     validate_container_identity r = Inr () \<and>
     (rp_ContainerID r \<noteq> [] \<longrightarrow>
        gi = 0 \<and> 2 \<le> length g \<and> rl_Retained p = [] \<and> rp_ComposeName r = rp_ComposeName (hd g) \<and>
        rp_ComposeReplica r = rp_Ordinal r) \<and>
     (rp_ContainerID r \<noteq> [] \<longleftrightarrow> rp_ContainerID (hd g) \<noteq> []) \<and>
     check_role u p gi r = Inr ()"

definition container_ids :: "replica list \<Rightarrow> string list" where
  "container_ids rs = filter (\<lambda>c. c \<noteq> []) (map rp_ContainerID rs)"

lemma validate_replica_Inr:
  "validate_replica u p gi g i maps r = Inr maps' \<longleftrightarrow>
     replica_ok u p gi g i r \<and> rp_ContainerID r \<notin> set (snd maps) - {[]} \<and>
     routing_name r \<notin> set (fst maps) \<and>
     maps' = (routing_name r # fst maps, container_ids [r] @ snd maps)"
  by (cases "rp_ContainerID r = []")
    (auto simp: validate_replica_def check_container_def replica_ok_def container_ids_def)

lemma validate_replicas_Inr:
  "validate_replicas u p gi g i rs maps = Inr maps' \<longleftrightarrow>
     (\<forall>k < length rs. replica_ok u p gi g (i + k) (rs ! k)) \<and>
     distinct (map routing_name rs) \<and> set (map routing_name rs) \<inter> set (fst maps) = {} \<and>
     distinct (container_ids rs) \<and> set (container_ids rs) \<inter> set (snd maps) = {} \<and>
     maps' = (rev (map routing_name rs) @ fst maps, rev (container_ids rs) @ snd maps)"
proof (induction rs arbitrary: i maps)
  case Nil
  then show ?case by (cases maps) (auto simp: container_ids_def)
next
  case (Cons r rs)
  have ids: "container_ids (r # rs) = container_ids [r] @ container_ids rs"
    and one: "container_ids [r] = (if rp_ContainerID r = [] then [] else [rp_ContainerID r])"
    by (simp_all add: container_ids_def)
  have all: "(\<forall>k < length (r # rs). replica_ok u p gi g (i + k) ((r # rs) ! k)) \<longleftrightarrow>
      replica_ok u p gi g i r \<and> (\<forall>k < length rs. replica_ok u p gi g (i + 1 + k) (rs ! k))"
    by (auto simp: nth_Cons less_Suc_eq_0_disj)
  show ?case
    unfolding validate_replicas.simps try_res_eq_Inr validate_replica_Inr Cons.IH all unfolding ids one
    by (cases "rp_ContainerID r = []") auto
qed

definition rolling_plan_ok :: "ulid_check \<Rightarrow> rolling_plan \<Rightarrow> bool" where
  "rolling_plan_ok u p \<longleftrightarrow>
     id_valid u KindService (rl_ServiceID p) \<and> id_valid u KindDeployment (rl_ReleaseID p) \<and>
     rl_ReplicaTimeoutSeconds p \<noteq> 0 \<and> unat (rl_ReplicaTimeoutSeconds p) \<le> 86400 \<and>
     length (rl_Prior p) \<le> 16 \<and> length (rl_Retained p) \<le> 1 \<and>
     (rl_Retained p \<noteq> [] \<longrightarrow> length (rl_Prior p) = 1) \<and>
     rl_Candidate p \<noteq> [] \<and> length (rl_Candidate p) \<le> 16 \<and>
     (\<forall>k < length (rl_Prior p). replica_ok u p 0 (rl_Prior p) k (rl_Prior p ! k)) \<and>
     (\<forall>k < length (rl_Candidate p). replica_ok u p 1 (rl_Candidate p) k (rl_Candidate p ! k)) \<and>
     (\<forall>k < length (rl_Retained p). replica_ok u p 2 (rl_Retained p) k (rl_Retained p ! k)) \<and>
     distinct (map routing_name (rl_Prior p @ rl_Candidate p @ rl_Retained p)) \<and>
     distinct (container_ids (rl_Prior p)) \<and>
     (rl_Retained p \<noteq> [] \<longrightarrow>
        rp_ReleaseID (hd (rl_Retained p)) \<noteq> rp_ReleaseID (hd (rl_Prior p)) \<and>
        rp_ArtifactID (hd (rl_Retained p)) \<noteq> rp_ArtifactID (hd (rl_Prior p)))"

lemma no_containers:
  "gi \<noteq> 0 \<Longrightarrow> \<forall>k < length rs. replica_ok u p gi g k (rs ! k) \<Longrightarrow> container_ids rs = []"
  by (auto simp: container_ids_def filter_empty_conv replica_ok_def in_set_conv_nth)

lemma rolling_plan_validate_ok [valid_iff, simp]: "rolling_plan_validate u p = Inr () \<longleftrightarrow> rolling_plan_ok u p"
proof -
  have groups: "validate_groups u p 0 [rl_Prior p, rl_Candidate p, rl_Retained p] ([], []) = Inr () \<longleftrightarrow>
     (\<forall>k < length (rl_Prior p). replica_ok u p 0 (rl_Prior p) k (rl_Prior p ! k)) \<and>
     (\<forall>k < length (rl_Candidate p). replica_ok u p 1 (rl_Candidate p) k (rl_Candidate p ! k)) \<and>
     (\<forall>k < length (rl_Retained p). replica_ok u p 2 (rl_Retained p) k (rl_Retained p ! k)) \<and>
     distinct (map routing_name (rl_Prior p @ rl_Candidate p @ rl_Retained p)) \<and>
     distinct (container_ids (rl_Prior p))"
  proof -
    let ?c = "\<forall>k < length (rl_Candidate p). replica_ok u p 1 (rl_Candidate p) k (rl_Candidate p ! k)"
      and ?r = "\<forall>k < length (rl_Retained p). replica_ok u p 2 (rl_Retained p) k (rl_Retained p ! k)"
    have two: "Suc (Suc 0) = 2" "Suc 0 = 1" by simp_all
    show ?thesis
    proof (cases "?c \<and> ?r")
      case True
      then have "container_ids (rl_Candidate p) = []" "container_ids (rl_Retained p) = []"
        using no_containers[of 1 "rl_Candidate p" u p "rl_Candidate p"]
          no_containers[of 2 "rl_Retained p" u p "rl_Retained p"] by simp_all
      with True show ?thesis by (simp add: validate_replicas_Inr two del: One_nat_def) (simp add: Int_Un_distrib Int_commute conj_ac)
    next
      case False
      then show ?thesis by (auto simp: validate_replicas_Inr two simp del: One_nat_def)
    qed
  qed
  have sizes: "maximum_replica_timeout < n \<longleftrightarrow> \<not> unat n \<le> 86400" "unat maximum_replicas < k \<longleftrightarrow> \<not> k \<le> 16"
    "1 < k \<longleftrightarrow> \<not> k \<le> (1 :: nat)" "length xs = 0 \<longleftrightarrow> xs = []" "length xs < 1 \<longleftrightarrow> xs = []" for n k and xs :: "replica list"
    by (auto simp: maximum_replica_timeout_def maximum_replicas_def word_less_nat_alt)
  show ?thesis
    unfolding rolling_plan_validate_def if_Inl_eq_Inr try_res_unit groups rolling_plan_ok_def sizes by (simp only: simp_thms) satx
qed

section \<open>The changes in closed form\<close>

text \<open>The reference definition: before change \<open>i\<close> the routing set holds the predecessors not yet
  retired, then the candidates already started.\<close>

definition routing_set :: "rolling_plan \<Rightarrow> nat \<Rightarrow> replica list" where
  "routing_set p i = drop i (rl_Prior p) @ take i (rl_Candidate p)"

definition nth_option :: "'a list \<Rightarrow> nat \<Rightarrow> 'a option" where
  "nth_option xs i = (if i < length xs then Some (xs ! i) else None)"

definition change_count :: "rolling_plan \<Rightarrow> nat" where
  "change_count p = max (length (rl_Prior p)) (length (rl_Candidate p))"

definition change_spec :: "rolling_plan \<Rightarrow> nat \<Rightarrow> replica_change" where
  "change_spec p i = \<lparr>ch_Ordinal = of_nat (i + 1), ch_Candidate = nth_option (rl_Candidate p) i,
     ch_Retire = nth_option (rl_Prior p) i,
     ch_Retained = (if Suc i = change_count p then nth_option (rl_Retained p) 0 else None),
     ch_Before = routing_set p i, ch_After = routing_set p (i + 1)\<rparr>"

lemma plan_replicas_distinct: "rolling_plan_ok u p \<Longrightarrow> distinct (rl_Prior p @ rl_Candidate p)"
  by (auto simp: rolling_plan_ok_def distinct_map)

lemma filter_other: "distinct (x # ys) \<Longrightarrow> filter (\<lambda>y. y \<noteq> x) (x # ys) = ys"
  by (auto intro: filter_True)

lemma change_at_spec:
  assumes "distinct (rl_Prior p @ rl_Candidate p)"
  shows "change_at p i (routing_set p i) =
    ((change_spec p i)\<lparr>ch_Retained := None\<rparr>, routing_set p (Suc i))"
proof -
  let ?P = "rl_Prior p" and ?C = "rl_Candidate p"
  have retire: "(case nth_option ?P i of None \<Rightarrow> routing_set p i | Some r \<Rightarrow> filter (\<lambda>x. x \<noteq> r) (routing_set p i)) =
      drop (Suc i) ?P @ take i ?C"
  proof (cases "i < length ?P")
    case True
    then have d: "drop i ?P = ?P ! i # drop (Suc i) ?P" by (simp add: Cons_nth_drop_Suc)
    have "distinct ((?P ! i # drop (Suc i) ?P) @ take i ?C)"
      unfolding d[symmetric] using assms
      by (auto simp: distinct_append dest!: in_set_dropD in_set_takeD)
    then have "filter (\<lambda>x. x \<noteq> ?P ! i) (?P ! i # (drop (Suc i) ?P @ take i ?C)) = drop (Suc i) ?P @ take i ?C"
      by (intro filter_other) simp
    with True d show ?thesis by (simp add: nth_option_def routing_set_def)
  next
    case False
    then show ?thesis by (simp add: nth_option_def routing_set_def)
  qed
  have add: "(case nth_option ?C i of None \<Rightarrow> xs @ take i ?C | Some c \<Rightarrow> (xs @ take i ?C) @ [c]) = xs @ take (Suc i) ?C" for xs
    by (simp add: nth_option_def take_Suc_conv_app_nth)
  show ?thesis
    unfolding change_at_def Let_def nth_option_def[symmetric] retire add
    by (simp add: change_spec_def routing_set_def)
qed

lemma changes_loop_spec:
  assumes "distinct (rl_Prior p @ rl_Candidate p)"
  shows "changes_loop p [i..<n] (routing_set p i) = map (\<lambda>i. (change_spec p i)\<lparr>ch_Retained := None\<rparr>) [i..<n]"
proof (induction "n - i" arbitrary: i)
  case (Suc k)
  then have "[i..<n] = i # [Suc i..<n]" by (simp add: upt_conv_Cons)
  with Suc show ?case by (simp add: change_at_spec[OF assms])
qed simp

lemma change_count_pos: "rolling_plan_ok u p \<Longrightarrow> 0 < change_count p \<and> change_count p \<le> 16"
  by (auto simp: rolling_plan_ok_def change_count_def max_def)

lemma changes_Inr:
  "changes u p = Inr cs \<longleftrightarrow> rolling_plan_ok u p \<and> cs = map (change_spec p) [0..<change_count p]"
proof (cases "rolling_plan_ok u p")
  case True
  let ?n = "change_count p"
  let ?m = "map (\<lambda>i. (change_spec p i)\<lparr>ch_Retained := None\<rparr>) [0..<?n]"
  have loop: "changes_loop p [0..<?n] (rl_Prior p) = ?m"
    using changes_loop_spec[OF plan_replicas_distinct[OF True], of 0 ?n] by (simp add: routing_set_def)
  have "(case rl_Retained p of [] \<Rightarrow> ?m
      | r # _ \<Rightarrow> ?m[length ?m - 1 := (?m ! (length ?m - 1))\<lparr>ch_Retained := Some r\<rparr>]) = map (change_spec p) [0..<?n]"
    using change_count_pos[OF True]
    by (cases "rl_Retained p")
      (auto simp: change_spec_def nth_option_def nth_list_update intro!: nth_equalityI)
  with True have "changes u p = Inr (map (change_spec p) [0..<?n])"
    unfolding changes_def Let_def change_count_def[symmetric] loop by simp
  with True show ?thesis by auto
next
  case False
  then show ?thesis by (simp add: changes_def)
qed

lemma routing_set_bounds:
  "i \<le> change_count p \<Longrightarrow>
     min (length (rl_Prior p)) (length (rl_Candidate p)) \<le> length (routing_set p i) \<and>
     length (routing_set p i) \<le> max (length (rl_Prior p)) (length (rl_Candidate p))"
  by (auto simp: routing_set_def change_count_def)

section \<open>New plans\<close>

definition candidate_at :: "string \<Rightarrow> string \<Rightarrow> nat \<Rightarrow> replica" where
  "candidate_at release_id artifact_id i =
     \<lparr>rp_ReleaseID = release_id, rp_ArtifactID = artifact_id,
      rp_ComposeName = ''gp-'' @ to_lower release_id @ ''-r'' @ two_digits (i + 1),
      rp_Ordinal = of_nat (i + 1), rp_ContainerID = [], rp_ContainerName = [], rp_ComposeReplica = 0\<rparr>"

lemma unat_of_nat_small: "n < 4294967296 \<Longrightarrow> unat (of_nat n :: u32) = n"
  by (simp add: unat_of_nat take_bit_nat_eq_self)

lemma replica_compose_name_at:
  assumes "i < 16"
  shows "replica_compose_name u rel (of_nat (i + 1)) =
    (if id_valid u KindDeployment rel then Inr (''gp-'' @ to_lower rel @ ''-r'' @ two_digits (i + 1))
     else Inl ValidationFailed)"
proof -
  have n: "unat (of_nat (i + 1) :: u32) = i + 1" using assms by (intro unat_of_nat_small) simp
  then have "\<not> (of_nat (i + 1) :: u32) < 1" "\<not> maximum_replicas < (of_nat (i + 1) :: u32)"
    using assms by (simp_all only: word_less_nat_alt maximum_replicas_def) simp_all
  then show ?thesis unfolding replica_compose_name_def n by simp
qed

lemma new_candidates_eq:
  "\<forall>i \<in> set idx. i < 16 \<Longrightarrow>
     new_candidates u rel art idx =
       (if idx = [] \<or> id_valid u KindDeployment rel then Inr (map (candidate_at rel art) idx)
        else Inl ValidationFailed)"
proof (induction idx)
  case (Cons i idx)
  then show ?case
    using replica_compose_name_at[of i u rel] by (simp add: Let_def candidate_at_def)
qed simp

text \<open>The names of the candidates: valid Compose names, one for each ordinal.\<close>

lemma two_digits_small:
  assumes "m < 16" "n < 16"
  shows "two_digits (m + 1) = two_digits (n + 1) \<longleftrightarrow> m = n" "list_all is_digit (two_digits (n + 1))"
    "length (two_digits (n + 1)) = 2"
proof -
  have "list_all (\<lambda>m. list_all (\<lambda>n. two_digits (m + 1) = two_digits (n + 1) \<longrightarrow> m = n) [0..<16]) [0..<16]"
    "list_all (\<lambda>n. list_all is_digit (two_digits (n + 1))) [0..<16]" by code_simp+
  with assms show "two_digits (m + 1) = two_digits (n + 1) \<longleftrightarrow> m = n" "list_all is_digit (two_digits (n + 1))"
    by (auto simp: list_all_iff)
qed (simp add: two_digits_def)

lemma valid_compose_nameI:
  assumes "s = c # s'" "is_lower_letter c" "list_all (\<lambda>c. is_lower_letter c \<or> is_digit c \<or> c = CHR ''-'' \<or> c = CHR ''_'') s'"
    and "length s \<le> 63"
  shows "valid_compose_name s"
  using assms by (auto simp: valid_compose_name_def compose_char_def nth_Cons list_all_length split: nat.split)

lemma lower_char_upper: "is_digit c \<or> is_upper_letter c \<Longrightarrow> is_lower_letter (lower_char c) \<or> is_digit (lower_char c)"
  by (auto simp: lower_char_def is_upper_letter_def is_lower_letter_def is_digit_def byte_def)

definition ulid_text :: "ulid_check \<Rightarrow> bool" where
  "ulid_text u \<longleftrightarrow> (\<forall>s. u s \<longrightarrow> list_all (\<lambda>c. is_digit c \<or> is_upper_letter c) s)"

lemma candidate_name_valid:
  assumes u: "ulid_text u" and rel: "id_valid u KindDeployment rel" and i: "i < 16"
  shows "valid_compose_name (''gp-'' @ to_lower rel @ ''-r'' @ two_digits (i + 1))"
proof -
  from rel obtain body where body: "rel = KindDeployment @ ''_'' @ body" "length body = 26" "u body"
    by (rule id_valid_cases)
  have "list_all (\<lambda>c. is_lower_letter c \<or> is_digit c) (to_lower body)"
    using u body(3) lower_char_upper by (auto simp: ulid_text_def to_lower_def list_all_iff)
  moreover have "to_lower rel = ''dep_'' @ to_lower body"
  proof -
    have "to_lower (KindDeployment @ ''_'') = ''dep_''" by code_simp
    then show ?thesis by (simp add: body(1) to_lower_def)
  qed
  moreover have "is_lower_letter CHR ''g''" "list_all (\<lambda>c. is_lower_letter c \<or> c = CHR ''-'' \<or> c = CHR ''_'') ''p-dep_-r''"
    by code_simp+
  ultimately show ?thesis
    using two_digits_small(2,3)[OF i i] body(2)
    by (intro valid_compose_nameI[of _ "CHR ''g''"]) (auto simp: list_all_iff to_lower_def)
qed

lemma candidates_ok:
  assumes "ulid_text u" "id_valid u KindDeployment (rl_ReleaseID p)" "id_valid u KindConfig art"
    and c: "rl_Candidate p = map (candidate_at (rl_ReleaseID p) art) [0..<n]" "n \<le> 16" and k: "k < n"
  shows "replica_ok u p 1 (rl_Candidate p) k (rl_Candidate p ! k)"
proof -
  have k16: "k < 16" using c(2) k by simp
  have "hd (rl_Candidate p) = candidate_at (rl_ReleaseID p) art 0" using k by (simp add: c(1) hd_map)
  with assms(2,3) k candidate_name_valid[OF assms(1,2) k16] replica_compose_name_at[OF k16, of u "rl_ReleaseID p"]
  show ?thesis
    by (simp add: c(1) replica_ok_def candidate_at_def validate_container_identity_def check_role_def)
qed

section \<open>An example\<close>

definition rx_prior :: replica where
  "rx_prior = \<lparr>rp_ReleaseID = ex_id KindDeployment CHR ''2'', rp_ArtifactID = ex_id KindConfig CHR ''2'',
     rp_ComposeName = ''web'', rp_Ordinal = 1, rp_ContainerID = [], rp_ContainerName = [], rp_ComposeReplica = 0\<rparr>"

definition rx_candidate :: replica where
  "rx_candidate = \<lparr>rp_ReleaseID = ex_id KindDeployment CHR ''1'', rp_ArtifactID = ex_id KindConfig CHR ''1'',
     rp_ComposeName = ''gp-'' @ to_lower (ex_id KindDeployment CHR ''1'') @ ''-r01'', rp_Ordinal = 1,
     rp_ContainerID = [], rp_ContainerName = [], rp_ComposeReplica = 0\<rparr>"

definition rx_plan :: rolling_plan where
  "rx_plan = \<lparr>rl_ServiceID = ex_id KindService CHR ''1'', rl_ReleaseID = ex_id KindDeployment CHR ''1'',
     rl_ReplicaTimeoutSeconds = 60, rl_Prior = [rx_prior], rl_Retained = [], rl_Candidate = [rx_candidate]\<rparr>"

lemma rx_plan_ok: "rolling_plan_ok crockford_ulid rx_plan"
proof -
  have names: "valid_compose_name ''web''" "valid_compose_name (rp_ComposeName rx_candidate)" by code_simp+
  have ne: "KindDeployment \<noteq> []" "KindConfig \<noteq> []" "KindService \<noteq> []" by (simp_all add: kind_defs)
  have c: "replica_compose_name crockford_ulid (ex_id KindDeployment CHR ''1'') 1 = Inr (rp_ComposeName rx_candidate)"
  proof -
    have "two_digits 1 = ''01''" by code_simp
    then show ?thesis by (simp add: replica_compose_name_def maximum_replicas_def ne rx_candidate_def)
  qed
  have p: "replica_ok crockford_ulid rx_plan 0 [rx_prior] 0 rx_prior"
    using names ne by (simp add: replica_ok_def check_role_def validate_container_identity_def)
      (simp add: rx_prior_def rx_candidate_def rx_plan_def)
  have k: "replica_ok crockford_ulid rx_plan 1 [rx_candidate] 0 rx_candidate"
    using names(2) ne c by (simp add: replica_ok_def check_role_def validate_container_identity_def)
      (simp add: rx_candidate_def rx_plan_def)
  have d: "routing_name rx_prior \<noteq> routing_name rx_candidate"
    by (simp add: routing_name_def rx_prior_def rx_candidate_def)
  from p k d ne show ?thesis
    by (simp add: rolling_plan_ok_def container_ids_def) (simp add: rx_plan_def rx_prior_def)
qed

lemma rx_phases: "change_count rx_plan = 1"
    "phases (change_spec rx_plan 0) = [StartCandidate, WaitCandidateHealthy, SwitchTraffic, DrainPredecessor, RemovePredecessor]"
  by (simp_all add: change_count_def rx_plan_def phases_def change_spec_def nth_option_def)

section \<open>Properties\<close>

text \<open>\<open>NewPlan\<close> without predecessors succeeds exactly for valid Service, Release and artifact ids,
  1 to 16 replicas and a timeout of at most a day, and then plans canonical candidates with the
  default timeout in place of 0: the candidate names it makes are always valid and distinct.\<close>

theorem new_plan_accepts_iff:
  assumes "ulid_text u"
  shows "new_plan u svc rel art n t [] = Inr p \<longleftrightarrow>
    id_valid u KindService svc \<and> id_valid u KindDeployment rel \<and> id_valid u KindConfig art \<and>
    1 \<le> unat n \<and> unat n \<le> 16 \<and> unat t \<le> 86400 \<and>
    p = \<lparr>rl_ServiceID = svc, rl_ReleaseID = rel, rl_ReplicaTimeoutSeconds = (if t = 0 then 300 else t),
         rl_Prior = [], rl_Retained = [], rl_Candidate = map (candidate_at rel art) [0..<unat n]\<rparr>"
proof -
  let ?p = "\<lparr>rl_ServiceID = svc, rl_ReleaseID = rel, rl_ReplicaTimeoutSeconds = (if t = 0 then 300 else t),
         rl_Prior = [], rl_Retained = [], rl_Candidate = map (candidate_at rel art) [0..<unat n]\<rparr>"
  have n: "n < 1 \<or> maximum_replicas < n \<longleftrightarrow> \<not> (1 \<le> unat n \<and> unat n \<le> 16)"
    by (auto simp: word_less_nat_alt maximum_replicas_def)
  have t: "unat (if t = 0 then 300 else t) \<le> 86400 \<longleftrightarrow> unat t \<le> 86400" "(if t = 0 then 300 else t) \<noteq> 0" by auto
  show ?thesis
  proof (cases "1 \<le> unat n \<and> unat n \<le> 16 \<and> id_valid u KindDeployment rel")
    case True
    then have i16: "\<forall>i \<in> set [0..<unat n]. i < 16" by auto
    have c: "new_candidates u rel art [0..<unat n] = Inr (rl_Candidate ?p)"
      using new_candidates_eq[OF i16, of u rel art] True by simp
    have names: "map routing_name (rl_Candidate ?p) =
        map (\<lambda>i. ''gp-'' @ to_lower rel @ ''-r'' @ two_digits (i + 1)) [0..<unat n]"
      by (simp add: routing_name_def candidate_at_def)
    have "distinct (map routing_name (rl_Candidate ?p))"
      unfolding names using two_digits_small(1) True
      by (auto simp: distinct_map inj_on_def)
    moreover have "id_valid u KindConfig art \<longleftrightarrow>
        (\<forall>k < unat n. replica_ok u ?p 1 (rl_Candidate ?p) k (rl_Candidate ?p ! k))"
    proof
      assume "id_valid u KindConfig art"
      then show "\<forall>k < unat n. replica_ok u ?p 1 (rl_Candidate ?p) k (rl_Candidate ?p ! k)"
        using candidates_ok[of u ?p art "unat n"] assms True by simp
    next
      assume "\<forall>k < unat n. replica_ok u ?p 1 (rl_Candidate ?p) k (rl_Candidate ?p ! k)"
      then have "replica_ok u ?p 1 (rl_Candidate ?p) 0 (rl_Candidate ?p ! 0)" using True by auto
      then show "id_valid u KindConfig art" using True by (auto simp: replica_ok_def candidate_at_def)
    qed
    ultimately have "rolling_plan_ok u ?p \<longleftrightarrow>
        id_valid u KindService svc \<and> id_valid u KindConfig art \<and> unat t \<le> 86400"
      using True t by (auto simp: rolling_plan_ok_def container_ids_def)
    moreover have "new_plan u svc rel art n t [] =
        try_res (rolling_plan_validate u ?p) (\<lambda>_. Inr ?p)"
      using n True by (simp add: new_plan_def c Let_def default_replica_timeout_def)
    ultimately show ?thesis using True by (auto simp: try_res_unit)
  next
    case False
    have "new_plan u svc rel art n t [] \<noteq> Inr p"
    proof (cases "1 \<le> unat n \<and> unat n \<le> 16")
      case True
      then have i16: "\<forall>i \<in> set [0..<unat n]. i < 16" by auto
      from True False have "new_candidates u rel art [0..<unat n] = Inl ValidationFailed"
        using new_candidates_eq[OF i16, of u rel art] by auto
      then show ?thesis by (simp add: new_plan_def Let_def)
    next
      case False
      then show ?thesis unfolding new_plan_def n by simp
    qed
    with False show ?thesis by auto
  qed
qed

theorem new_plan_accepts_iff_witness:
  "new_plan crockford_ulid (ex_id KindService CHR ''1'') (ex_id KindDeployment CHR ''1'') (ex_id KindConfig CHR ''1'') 2 0 [] =
    Inr \<lparr>rl_ServiceID = ex_id KindService CHR ''1'', rl_ReleaseID = ex_id KindDeployment CHR ''1'',
         rl_ReplicaTimeoutSeconds = 300, rl_Prior = [], rl_Retained = [],
         rl_Candidate = map (candidate_at (ex_id KindDeployment CHR ''1'') (ex_id KindConfig CHR ''1'')) [0, 1]\<rparr>"
proof -
  have "\<forall>c \<in> set ''0123456789ABCDEFGHJKMNPQRSTVWXYZ''. is_digit c \<or> is_upper_letter c" by code_simp
  then have u: "ulid_text crockford_ulid" unfolding ulid_text_def crockford_ulid_def list_all_iff by blast
  have i: "[0..<unat (2 :: u32)] = [0, 1]" by (simp add: upt_conv_Cons)
  have ne: "KindService \<noteq> []" "KindDeployment \<noteq> []" "KindConfig \<noteq> []" by (simp_all add: kind_defs)
  show ?thesis by (rule new_plan_accepts_iff[OF u, THEN iffD2], unfold i) (simp add: ne)
qed

text \<open>The changes of a valid plan replace matching ordinals first and then add or remove the
  difference: change \<open>i\<close> starts candidate \<open>i\<close> and retires predecessor \<open>i\<close> where they exist, its
  routing sets before and after are the predecessors not yet retired followed by the candidates
  started so far, so the sets form a chain from the prior to the candidate replicas and never hold
  fewer replicas than both generations have, nor more than the larger one.\<close>

theorem changes_closed_form:
  assumes "changes u p = Inr cs"
  shows "length cs = max (length (rl_Prior p)) (length (rl_Candidate p)) \<and>
    (\<forall>i < length cs.
      ch_Candidate (cs ! i) = (if i < length (rl_Candidate p) then Some (rl_Candidate p ! i) else None) \<and>
      ch_Retire (cs ! i) = (if i < length (rl_Prior p) then Some (rl_Prior p ! i) else None) \<and>
      ch_Before (cs ! i) = drop i (rl_Prior p) @ take i (rl_Candidate p) \<and>
      ch_After (cs ! i) = drop (i + 1) (rl_Prior p) @ take (i + 1) (rl_Candidate p) \<and>
      min (length (rl_Prior p)) (length (rl_Candidate p)) \<le> length (ch_After (cs ! i)) \<and>
      length (ch_After (cs ! i)) \<le> max (length (rl_Prior p)) (length (rl_Candidate p))) \<and>
    ch_Before (cs ! 0) = rl_Prior p \<and> ch_After (last cs) = rl_Candidate p"
proof -
  from assms have ok: "rolling_plan_ok u p" and cs: "cs = map (change_spec p) [0..<change_count p]"
    by (simp_all add: changes_Inr)
  from change_count_pos[OF ok] have n: "0 < change_count p" by simp
  then have "last cs = change_spec p (change_count p - 1)" by (simp add: cs last_map last_upt)
  with n have "ch_After (last cs) = rl_Candidate p"
    by (simp add: change_spec_def routing_set_def) (simp add: change_count_def)
  moreover have "ch_Before (cs ! 0) = rl_Prior p" using n by (simp add: cs change_spec_def routing_set_def)
  ultimately show ?thesis
    using routing_set_bounds[of _ p]
    by (simp add: cs change_spec_def nth_option_def routing_set_def flip: change_count_def)
qed

theorem changes_closed_form_witness:
  "ch_Before (change_spec rx_plan 0) = [rx_prior] \<and> ch_After (change_spec rx_plan 0) = [rx_candidate]"
proof -
  have "changes crockford_ulid rx_plan = Inr [change_spec rx_plan 0]"
    using rx_plan_ok by (simp add: changes_Inr rx_phases)
  from changes_closed_form[OF this] show ?thesis by (simp add: rx_plan_def)
qed

end
