(* ===== verification/RollingCursor.thy ===== *)
theory RollingCursor
  imports Rolling
begin

text \<open>
  The durable cursor of a rolling release (\<open>Progress\<close> of \<open>progress.go\<close>): what its validator accepts,
  its two operations, and what every run of them guarantees.
\<close>

section \<open>What the cursor validator accepts\<close>

lemma phases_distinct [simp]: "distinct (phases c)"
  by (auto simp: phases_def)

lemma phases_nonempty [simp]: "phases c \<noteq> []"
  by (simp add: phases_def)

lemma NoPhase_notin_phases [simp]: "NoPhase \<notin> set (phases c)"
  by (simp add: phases_def)

lemma phase_index_from_spec:
  "phase_index_from i phs ph =
     (if ph \<in> set phs then i + int (length (takeWhile (\<lambda>x. x \<noteq> ph) phs)) else - 1)"
  by (induction phs arbitrary: i) auto

lemma phase_index_neg: "phase_index phs ph < 0 \<longleftrightarrow> ph \<notin> set phs"
  by (simp add: phase_index_from_spec)

lemma phase_index_zero: "ph \<in> set phs \<Longrightarrow> phase_index phs ph = 0 \<longleftrightarrow> ph = hd phs"
  by (cases phs) (auto simp: phase_index_from_spec)

lemma phase_index_split:
  assumes "ph \<in> set phs"
  shows "phs = take (nat (phase_index phs ph)) phs @ ph # drop (nat (phase_index phs ph) + 1) phs"
    "dropWhile (\<lambda>x. x \<noteq> ph) phs = ph # drop (nat (phase_index phs ph) + 1) phs"
proof -
  let ?k = "length (takeWhile (\<lambda>x. x \<noteq> ph) phs)"
  have k: "nat (phase_index phs ph) = ?k" using assms by (simp add: phase_index_from_spec)
  have len: "?k < length phs" using assms by (induction phs) auto
  then have "phs ! ?k = ph" using nth_length_takeWhile by fastforce
  then have d: "drop ?k phs = ph # drop (?k + 1) phs" using len by (metis Cons_nth_drop_Suc Suc_eq_plus1)
  then show "phs = take (nat (phase_index phs ph)) phs @ ph # drop (nat (phase_index phs ph) + 1) phs"
    unfolding k by (metis append_take_drop_id)
  show "dropWhile (\<lambda>x. x \<noteq> ph) phs = ph # drop (nat (phase_index phs ph) + 1) phs"
    unfolding k d[symmetric] by (simp add: dropWhile_eq_drop)
qed

abbreviation current_change :: "rolling_plan \<Rightarrow> cursor \<Rightarrow> replica_change" where
  "current_change p g \<equiv> change_spec p (unat (cu_Change g) - 1)"

definition budget_ok :: "rolling_plan \<Rightarrow> gotime \<Rightarrow> cursor \<Rightarrow> bool" where
  "budget_ok p d g \<longleftrightarrow>
     after (cu_ReplicaDeadline g) (cu_ReplicaStartedAt g) \<and> \<not> after (cu_ReplicaDeadline g) d \<and>
     instant (cu_ReplicaDeadline g) - instant (cu_ReplicaStartedAt g) \<le> timeout_nanos p \<and>
     (if cu_Phase g = DrainPredecessor \<or> cu_Phase g = RemovePredecessor
      then \<not> before (cu_DrainUntil g) (cu_ReplicaStartedAt g) \<and> \<not> after (cu_DrainUntil g) (cu_ReplicaDeadline g)
      else is_zero (cu_DrainUntil g))"

definition cursor_ok :: "rolling_plan \<Rightarrow> gotime \<Rightarrow> cursor \<Rightarrow> bool" where
  "cursor_ok p d g \<longleftrightarrow>
     \<not> is_zero d \<and> cu_Change g \<noteq> 0 \<and> unat (cu_Change g) \<le> Suc (change_count p) \<and>
     (if unat (cu_Change g) = Suc (change_count p) then
        cu_Phase g = NoPhase \<and> \<not> cu_InFlight g \<and> is_zero (cu_ReplicaStartedAt g) \<and>
        is_zero (cu_ReplicaDeadline g) \<and> is_zero (cu_DrainUntil g)
      else
        cu_Phase g \<in> set (phases (current_change p g)) \<and>
        (if is_zero (cu_ReplicaStartedAt g) then
           cu_Phase g = hd (phases (current_change p g)) \<and> \<not> cu_InFlight g \<and>
           is_zero (cu_ReplicaDeadline g) \<and> is_zero (cu_DrainUntil g)
         else budget_ok p d g))"

lemma timeout_sub:
  assumes "rolling_plan_ok u p"
  shows "timeout_nanos p < sub_time t s \<longleftrightarrow> \<not> instant t - instant s \<le> timeout_nanos p"
proof -
  have "unat (rl_ReplicaTimeoutSeconds p) \<le> 86400" using assms by (simp add: rolling_plan_ok_def)
  then have "uint (rl_ReplicaTimeoutSeconds p) \<le> 86400" by (simp only: uint_nat)
  then have "timeout_nanos p \<le> 86400 * second" by (simp add: timeout_nanos_def)
  moreover have "0 \<le> timeout_nanos p" by (simp add: timeout_nanos_def)
  ultimately show ?thesis by (auto simp: sub_time_def max_def min_def)
qed

lemma cursor_validate_ok [valid_iff, simp]:
  "cursor_validate u p d g = Inr () \<longleftrightarrow> rolling_plan_ok u p \<and> cursor_ok p d g"
proof (cases "rolling_plan_ok u p")
  case ok: True
  note n = change_count_pos[OF ok]
  let ?cs = "map (change_spec p) [0..<change_count p]"
  have cs: "changes u p = Inr ?cs" using ok by (simp add: changes_Inr)
  have w: "unat (of_nat (length ?cs + 1) :: u32) = Suc (change_count p)" using n by (simp add: unat_of_nat_small del: of_nat_Suc of_nat_add)
  have cmp: "of_nat (length ?cs + 1) < cu_Change g \<longleftrightarrow> \<not> unat (cu_Change g) \<le> Suc (change_count p)"
    "cu_Change g = of_nat (length ?cs + 1) \<longleftrightarrow> unat (cu_Change g) = Suc (change_count p)"
    using w by (simp_all only: word_less_nat_alt word_unat_eq_iff not_le)
  show ?thesis
  proof (cases "cu_Change g = 0 \<or> \<not> unat (cu_Change g) \<le> Suc (change_count p) \<or> unat (cu_Change g) = Suc (change_count p)")
    case True
    then show ?thesis
      unfolding cursor_validate_def cs try_res.simps cmp if_Inl_eq_Inr by (auto simp: cursor_ok_def ok)
  next
    case False
    then have "unat (cu_Change g - 1) = unat (cu_Change g) - 1" by (simp add: unat_minus_one)
    moreover have "0 < unat (cu_Change g)" using False by (simp add: unat_gt_0)
    moreover from this False have "unat (cu_Change g) - 1 < change_count p" by linarith
    ultimately have ch: "?cs ! unat (cu_Change g - 1) = current_change p g" by simp
    show ?thesis
      unfolding cursor_validate_def cs try_res.simps cmp if_Inl_eq_Inr ch Let_def phase_index_neg timeout_sub[OF ok]
      using False by (auto simp: cursor_ok_def ok budget_ok_def phase_index_zero split del: if_split split: if_splits)
  qed
next
  case False
  then have "\<nexists>cs. changes u p = Inr cs" by (simp add: changes_Inr)
  with False show ?thesis by (auto simp: cursor_validate_def)
qed

section \<open>The two operations of the cursor\<close>

lemma begin_phase_Inr:
  "begin_phase u p d now g = Inr g' \<longleftrightarrow>
     rolling_plan_ok u p \<and> cursor_ok p d g \<and> cu_Phase g \<noteq> NoPhase \<and> \<not> cu_InFlight g \<and>
     \<not> is_zero now \<and> before now d \<and> \<not> before now (cu_ReplicaStartedAt (started_cursor p d now g)) \<and>
     before now (cu_ReplicaDeadline (started_cursor p d now g)) \<and>
     g' = (started_cursor p d now g)\<lparr>cu_InFlight := True\<rparr>"
  by (auto simp: begin_phase_def Let_def try_res_unit)

definition next_phases :: "rolling_plan \<Rightarrow> cursor \<Rightarrow> rolling_phase list" where
  "next_phases p g = tl (dropWhile (\<lambda>x. x \<noteq> cu_Phase g) (phases (current_change p g)))"

definition advanced :: "rolling_plan \<Rightarrow> gotime \<Rightarrow> cursor \<Rightarrow> cursor" where
  "advanced p now g =
     (case next_phases p g of
        [] \<Rightarrow> fresh_cursor (cu_Change g + 1)
               (if unat (cu_Change g) < change_count p
                then hd (phases (change_spec p (unat (cu_Change g)))) else NoPhase)
      | ph # _ \<Rightarrow>
          g\<lparr>cu_InFlight := False, cu_Phase := ph,
            cu_DrainUntil :=
              (if cu_Phase g = SwitchTraffic \<and> ch_Retire (current_change p g) \<noteq> None
               then utc (add_duration now (drain_duration g now))
               else if ph = RemoveRetained then zero_time else cu_DrainUntil g)\<rparr>)"

lemma cursor_open:
  assumes "cursor_ok p d g" "cu_InFlight g"
  shows "unat (cu_Change g) \<le> change_count p" "0 < unat (cu_Change g)"
    "cu_Phase g \<in> set (phases (current_change p g))" "\<not> is_zero (cu_ReplicaStartedAt g)" "budget_ok p d g"
  using assms by (auto simp: cursor_ok_def unat_gt_0 split: if_splits)

lemma confirm_phase_Inr:
  "confirm_phase u p d ph now g = Inr g' \<longleftrightarrow>
     rolling_plan_ok u p \<and> cursor_ok p d g \<and> cu_InFlight g \<and> cu_Phase g = ph \<and>
     \<not> before now (cu_ReplicaStartedAt g) \<and> before now (cu_ReplicaDeadline g) \<and>
     (ph = DrainPredecessor \<longrightarrow> \<not> before now (cu_DrainUntil g)) \<and> g' = advanced p now g"
proof (cases "rolling_plan_ok u p \<and> cursor_ok p d g \<and> cu_InFlight g \<and> cu_Phase g = ph")
  case True
  then have ok: "rolling_plan_ok u p" and c: "cursor_ok p d g" and fl: "cu_InFlight g" and ph: "cu_Phase g = ph"
    by simp_all
  note op = cursor_open[OF c fl]
  let ?cs = "map (change_spec p) [0..<change_count p]" and ?phs = "phases (current_change p g)"
  let ?k = "nat (phase_index ?phs ph)"
  have one: "unat (cu_Change g - 1) = unat (cu_Change g) - 1" using op(2) by (simp add: unat_minus_one unat_gt_0)
  have small: "unat (cu_Change g) \<le> 16" using op(1) change_count_pos[OF ok] by simp
  have "cu_Change g - 1 + 1 = cu_Change g" by simp
  have next1: "unat (cu_Change g + 1) = unat (cu_Change g) + 1" using small by (simp add: unat_word_ariths)
  have cs: "?cs ! unat (cu_Change g - 1) = current_change p g"
    using op(1,2) one by simp
  have le: "cu_Change g + 1 \<le> of_nat (length ?cs) \<longleftrightarrow> unat (cu_Change g) < change_count p"
  proof -
    have "unat (of_nat (length ?cs) :: u32) = change_count p"
      using change_count_pos[OF ok] by (simp add: unat_of_nat_small)
    then show ?thesis by (simp only: word_le_nat_alt next1) (simp add: Suc_le_eq)
  qed
  have cs': "unat (cu_Change g) < change_count p \<Longrightarrow> ?cs ! unat (cu_Change g + 1 - 1) = change_spec p (unat (cu_Change g))"
    by simp
  have tail: "next_phases p g = drop (?k + 1) ?phs"
    using phase_index_split(2)[of ph ?phs] op(3) ph by (simp add: next_phases_def)
  have adv: "(if ?k + 1 < length ?phs then
           (let g2 = g\<lparr>cu_InFlight := False\<rparr>\<lparr>cu_Phase := ?phs ! (?k + 1)\<rparr>;
                g3 = (if cu_Phase g2 = RemoveRetained then g2\<lparr>cu_DrainUntil := zero_time\<rparr> else g2)
            in if ph = SwitchTraffic \<and> ch_Retire (current_change p g) \<noteq> None
               then g3\<lparr>cu_DrainUntil := utc (add_duration now (drain_duration g3 now))\<rparr> else g3)
         else fresh_cursor (cu_Change g + 1) (if cu_Change g + 1 \<le> of_nat (length ?cs)
            then hd (phases (?cs ! unat (cu_Change g + 1 - 1))) else NoPhase)) = advanced p now g"
  proof (cases "?k + 1 < length ?phs")
    case True
    then have "next_phases p g = ?phs ! (?k + 1) # drop (?k + 2) ?phs"
      unfolding tail by (simp add: Cons_nth_drop_Suc)
    with True ph show ?thesis by (cases "ch_Retire (current_change p g)") (simp_all add: advanced_def drain_duration_def Let_def)
  next
    case False
    then have "next_phases p g = []" unfolding tail by simp
    with False le cs' show ?thesis by (simp add: advanced_def)
  qed
  have v: "cursor_validate u p d g = Inr ()" using ok c by simp
  have "confirm_phase u p d ph now g =
      (if before now (cu_ReplicaStartedAt g) \<or> \<not> before now (cu_ReplicaDeadline g) then Inl StateConflict
       else if ph = DrainPredecessor \<and> before now (cu_DrainUntil g) then Inl StateConflict
       else Inr (advanced p now g))"
    unfolding adv[symmetric] using True
    by (simp add: v confirm_phase_def changes_Inr[THEN iffD2, OF conjI] cs Let_def)
  with True show ?thesis by auto
next
  case False
  then show ?thesis by (auto simp: confirm_phase_def)
qed

section \<open>Runs of the cursor\<close>

inductive cursor_step :: "ulid_check \<Rightarrow> rolling_plan \<Rightarrow> gotime \<Rightarrow> cursor \<Rightarrow> cursor \<Rightarrow> bool" for u p d where
  step_begin: "begin_phase u p d now g = Inr g' \<Longrightarrow> cursor_step u p d g g'"
| step_confirm: "confirm_phase u p d ph now g = Inr g' \<Longrightarrow> cursor_step u p d g g'"

inductive cursor_reachable :: "ulid_check \<Rightarrow> rolling_plan \<Rightarrow> gotime \<Rightarrow> cursor \<Rightarrow> bool" for u p d where
  cursor_initial: "\<lbrakk>new_cursor u p = Inr g; \<not> is_zero d\<rbrakk> \<Longrightarrow> cursor_reachable u p d g"
| cursor_later: "\<lbrakk>cursor_reachable u p d g; cursor_step u p d g g'\<rbrakk> \<Longrightarrow> cursor_reachable u p d g'"

inductive_cases cursor_stepE: "cursor_step u p d g g'"

lemma hd_phases: "hd (phases c) = StartCandidate \<or> hd (phases c) = SwitchTraffic"
  by (simp add: phases_def)

lemma next_phase_cases:
  assumes "cu_Phase g \<in> set (phases (current_change p g))" "next_phases p g = ph # rest"
  shows "(cu_Phase g, ph) \<in> {(StartCandidate, WaitCandidateHealthy), (WaitCandidateHealthy, SwitchTraffic),
      (DrainPredecessor, RemovePredecessor), (RemovePredecessor, RemoveRetained)} \<or>
    cu_Phase g = SwitchTraffic \<and>
      (if ch_Retire (current_change p g) \<noteq> None then ph = DrainPredecessor else ph = RemoveRetained)"
    "ph \<in> set (phases (current_change p g))"
  using assms by (auto simp: next_phases_def phases_def split: if_splits)

lemma zero_time_is_zero [simp]: "is_zero zero_time"
  by (simp add: is_zero_def zero_time_def)

lemma utc_simps [simp]: "instant (utc t) = instant t" "is_zero (utc t) = is_zero t"
  by (simp_all add: utc_def is_zero_def)

text \<open>The invariant: the cursor is valid, and the drain ends strictly before the replica deadline.\<close>

definition cursor_inv :: "rolling_plan \<Rightarrow> gotime \<Rightarrow> cursor \<Rightarrow> bool" where
  "cursor_inv p d g \<longleftrightarrow> cursor_ok p d g \<and>
     (cu_Phase g = DrainPredecessor \<or> cu_Phase g = RemovePredecessor \<longrightarrow>
        before (cu_DrainUntil g) (cu_ReplicaDeadline g))"

lemma begin_inv:
  assumes "begin_phase u p d now g = Inr g'" "cursor_inv p d g"
  shows "cursor_inv p d g'"
proof (cases "is_zero (cu_ReplicaStartedAt g)")
  case True
  from assms(1) have b: "cursor_ok p d g" "cu_Phase g \<noteq> NoPhase" "\<not> is_zero now" "before now d"
    "before now (cu_ReplicaDeadline (started_cursor p d now g))" "g' = (started_cursor p d now g)\<lparr>cu_InFlight := True\<rparr>"
    by (simp_all add: begin_phase_Inr)
  from b(1,2) True have o: "unat (cu_Change g) \<noteq> Suc (change_count p)" "cu_Phase g = hd (phases (current_change p g))"
    "is_zero (cu_DrainUntil g)"
    by (auto simp: cursor_ok_def split: if_splits)
  from o(2) have nd: "cu_Phase g \<noteq> DrainPredecessor" "cu_Phase g \<noteq> RemovePredecessor"
    using hd_phases[of "current_change p g"] by auto
  have "budget_ok p d g'"
    using True b(3-5) o(3) nd unfolding b(6)
    by (simp add: budget_ok_def started_cursor_def Let_def)
      (auto simp: before_def after_def add_duration_def timeout_nanos_def)
  with b(1,3) o True nd show ?thesis
    unfolding b(6) by (simp add: cursor_inv_def cursor_ok_def started_cursor_def Let_def)
next
  case False
  with assms show ?thesis by (auto simp: begin_phase_Inr cursor_inv_def cursor_ok_def budget_ok_def started_cursor_def)
qed

lemma drain_strict:
  assumes "before now (cu_ReplicaDeadline g)"
  shows "instant now \<le> instant (utc (add_duration now (drain_duration g now)))"
    "before (utc (add_duration now (drain_duration g now))) (cu_ReplicaDeadline g)"
  using assms by (auto simp: drain_duration_def add_duration_def before_def sub_time_def drain_seconds_def min_def)

lemma confirm_inv:
  assumes "confirm_phase u p d ph now g = Inr g'" "cursor_inv p d g"
  shows "cursor_inv p d g'"
proof -
  from assms(1) have c: "rolling_plan_ok u p" "cursor_ok p d g" "cu_InFlight g" "cu_Phase g = ph"
    "\<not> before now (cu_ReplicaStartedAt g)" "before now (cu_ReplicaDeadline g)" "g' = advanced p now g"
    by (simp_all add: confirm_phase_Inr)
  note op = cursor_open[OF c(2,3)]
  from c(2) op have d: "\<not> is_zero d" by (simp add: cursor_ok_def)
  show ?thesis
  proof (cases "next_phases p g")
    case Nil
    have "unat (cu_Change g) \<le> 16" using op(1) change_count_pos[OF c(1)] by simp
    then have n: "unat (cu_Change g + 1) = Suc (unat (cu_Change g))" by (simp add: unat_word_ariths)
    then have nz: "cu_Change g + 1 \<noteq> 0" by (metis nat.simps(3) unat_0)
    from Nil n nz d op(1) hd_phases[of "change_spec p (unat (cu_Change g))"] show ?thesis
      unfolding c(7) by (auto simp: advanced_def cursor_inv_def cursor_ok_def)
  next
    case (Cons ph' rest)
    note nc = next_phase_cases[OF op(3) Cons]
    note ds = drain_strict[OF c(6)]
    have g': "cu_Change g' = cu_Change g" "cu_Phase g' = ph'" "\<not> cu_InFlight g'"
      "cu_ReplicaStartedAt g' = cu_ReplicaStartedAt g" "cu_ReplicaDeadline g' = cu_ReplicaDeadline g"
      "cu_DrainUntil g' = (if cu_Phase g = SwitchTraffic \<and> ch_Retire (current_change p g) \<noteq> None
          then utc (add_duration now (drain_duration g now))
          else if ph' = RemoveRetained then zero_time else cu_DrainUntil g)"
      unfolding c(7) by (simp_all add: advanced_def Cons)
    have "budget_ok p d g' \<and> (ph' = DrainPredecessor \<or> ph' = RemovePredecessor \<longrightarrow>
        before (cu_DrainUntil g') (cu_ReplicaDeadline g'))"
      using nc(1) op(5) ds c(5) assms(2) unfolding budget_ok_def g' cursor_inv_def
      by (auto simp: before_def after_def split: if_splits)
    with c(2) op g' nc(2) d show ?thesis by (simp add: cursor_inv_def cursor_ok_def)
  qed
qed

lemma new_cursor_Inr:
  "new_cursor u p = Inr g \<longleftrightarrow>
     rolling_plan_ok u p \<and> g = fresh_cursor 1 (hd (phases (change_spec p 0)))"
proof (cases "rolling_plan_ok u p")
  case True
  from change_count_pos[OF True] have "hd (map (change_spec p) [0..<change_count p]) = change_spec p 0"
    by (simp add: hd_map hd_upt)
  then show ?thesis by (auto simp: new_cursor_def changes_Inr)
next
  case False
  then show ?thesis by (simp add: new_cursor_def changes_Inr)
qed

lemma new_cursor_inv: "\<lbrakk>new_cursor u p = Inr g; \<not> is_zero d\<rbrakk> \<Longrightarrow> cursor_inv p d g"
  using hd_phases[of "change_spec p 0"] change_count_pos[of u p]
  by (auto simp: new_cursor_Inr cursor_inv_def cursor_ok_def)

lemma cursor_reachable_inv: "cursor_reachable u p d g \<Longrightarrow> cursor_inv p d g \<and> rolling_plan_ok u p"
proof (induction rule: cursor_reachable.induct)
  case (cursor_initial g)
  then show ?case using new_cursor_inv by (auto simp: new_cursor_Inr)
next
  case (cursor_later g g')
  from cursor_later(2) show ?case
    by (rule cursor_stepE) (use cursor_later(3) begin_inv confirm_inv in blast)+
qed

section \<open>The sequence of phases the cursor walks through\<close>

definition change_steps :: "rolling_plan \<Rightarrow> nat \<Rightarrow> (nat \<times> rolling_phase) list" where
  "change_steps p i = map (Pair i) (phases (change_spec p i))"

definition steps_from :: "rolling_plan \<Rightarrow> nat \<Rightarrow> (nat \<times> rolling_phase) list" where
  "steps_from p i = concat (map (change_steps p) [i..<change_count p])"

text \<open>The abstraction of a cursor: the steps still to be confirmed, in order.\<close>

definition remaining :: "rolling_plan \<Rightarrow> cursor \<Rightarrow> (nat \<times> rolling_phase) list" where
  "remaining p g =
     (let i = unat (cu_Change g) - 1 in
      if i < change_count p
      then map (Pair i) (dropWhile (\<lambda>x. x \<noteq> cu_Phase g) (phases (change_spec p i))) @ steps_from p (Suc i)
      else [])"

lemma steps_from_Cons: "i < change_count p \<Longrightarrow> steps_from p i = change_steps p i @ steps_from p (Suc i)"
  by (simp add: steps_from_def upt_conv_Cons)

lemma steps_from_end [simp]: "change_count p \<le> i \<Longrightarrow> steps_from p i = []"
  by (simp add: steps_from_def)

lemma dropWhile_hd: "xs \<noteq> [] \<Longrightarrow> dropWhile (\<lambda>x. x \<noteq> hd xs) xs = xs"
  by (cases xs) simp_all

lemma remaining_fresh:
  "0 < unat n \<Longrightarrow> unat n - 1 < change_count p \<Longrightarrow>
     remaining p (fresh_cursor n (hd (phases (change_spec p (unat n - 1))))) = steps_from p (unat n - 1)"
  by (simp add: remaining_def Let_def dropWhile_hd steps_from_Cons change_steps_def)

lemma new_cursor_remaining: "new_cursor u p = Inr g \<Longrightarrow> remaining p g = steps_from p 0"
  using remaining_fresh[of 1 p] change_count_pos[of u p] by (auto simp: new_cursor_Inr)

lemma begin_remaining: "begin_phase u p d now g = Inr g' \<Longrightarrow> remaining p g' = remaining p g"
  by (auto simp: begin_phase_Inr remaining_def started_cursor_def Let_def)

lemma dropWhile_next:
  "distinct xs \<Longrightarrow> tl (dropWhile (\<lambda>x. x \<noteq> a) xs) = b # r \<Longrightarrow> dropWhile (\<lambda>x. x \<noteq> b) xs = b # r"
proof (induction xs)
  case (Cons x xs)
  show ?case
  proof (cases "x = a")
    case False
    with Cons.prems have t: "tl (dropWhile (\<lambda>x. x \<noteq> a) xs) = b # r" by simp
    then have "b \<in> set (dropWhile (\<lambda>x. x \<noteq> a) xs)" by (metis list.sel(2) list.set_intros(1) list.set_sel(2) list.discI)
    then have "b \<in> set xs" by (rule set_dropWhileD)
    with Cons t show ?thesis by auto
  qed (use Cons.prems in auto)
qed simp

lemma confirm_remaining:
  assumes "confirm_phase u p d ph now g = Inr g'"
  shows "remaining p g = (unat (cu_Change g) - 1, ph) # remaining p g'"
proof -
  from assms have c: "rolling_plan_ok u p" "cursor_ok p d g" "cu_InFlight g" "cu_Phase g = ph" "g' = advanced p now g"
    by (simp_all add: confirm_phase_Inr)
  note op = cursor_open[OF c(2,3)]
  let ?i = "unat (cu_Change g) - 1"
  have i: "?i < change_count p" "Suc ?i = unat (cu_Change g)" using op(1,2) by linarith+
  have "unat (cu_Change g) \<le> 16" using op(1) change_count_pos[OF c(1)] by simp
  then have n: "unat (cu_Change g + 1) = Suc (unat (cu_Change g))" by (simp add: unat_word_ariths)
  have "dropWhile (\<lambda>x. x \<noteq> ph) (phases (current_change p g)) = ph # next_phases p g"
    using phase_index_split(2)[of ph "phases (current_change p g)"] op(3) c(4) by (simp add: next_phases_def)
  then have r: "remaining p g = (?i, ph) # map (Pair ?i) (next_phases p g) @ steps_from p (unat (cu_Change g))"
    using i c(4) by (simp add: remaining_def Let_def)
  show ?thesis
  proof (cases "next_phases p g")
    case Nil
    show ?thesis
    proof (cases "unat (cu_Change g) < change_count p")
      case True
      then have "remaining p g' = steps_from p (unat (cu_Change g))"
        using remaining_fresh[of "cu_Change g + 1" p] n unfolding c(5) by (simp add: advanced_def Nil)
      with r Nil show ?thesis by simp
    next
      case False
      then have "remaining p g' = []" using n unfolding c(5) by (simp add: advanced_def Nil remaining_def)
      with r Nil False show ?thesis by simp
    qed
  next
    case (Cons ph' rest)
    then have "dropWhile (\<lambda>x. x \<noteq> ph') (phases (current_change p g)) = next_phases p g"
      unfolding next_phases_def by (metis dropWhile_next phases_distinct)
    then have "remaining p g' = map (Pair ?i) (next_phases p g) @ steps_from p (unat (cu_Change g))"
      unfolding c(5) using i by (simp add: advanced_def Cons remaining_def Let_def)
    with r show ?thesis by simp
  qed
qed

section \<open>Runs as sequences of operations\<close>

datatype cursor_op = Begin gotime | Confirm rolling_phase gotime

fun apply_op :: "ulid_check \<Rightarrow> rolling_plan \<Rightarrow> gotime \<Rightarrow> cursor_op \<Rightarrow> cursor \<Rightarrow> cursor res" where
  "apply_op u p d (Begin now) g = begin_phase u p d now g"
| "apply_op u p d (Confirm ph now) g = confirm_phase u p d ph now g"

fun run_cursor :: "ulid_check \<Rightarrow> rolling_plan \<Rightarrow> gotime \<Rightarrow> cursor_op list \<Rightarrow> cursor \<Rightarrow> cursor res" where
  "run_cursor u p d [] g = Inr g"
| "run_cursor u p d (x # xs) g = try_res (apply_op u p d x g) (run_cursor u p d xs)"

fun confirmed :: "cursor_op list \<Rightarrow> rolling_phase list" where
  "confirmed [] = []"
| "confirmed (Begin now # xs) = confirmed xs"
| "confirmed (Confirm ph now # xs) = ph # confirmed xs"

lemma apply_op_step: "apply_op u p d x g = Inr g' \<Longrightarrow> cursor_step u p d g g'"
  by (cases x) (auto intro: cursor_step.intros)

lemma run_cursor_reachable:
  "run_cursor u p d xs g = Inr g' \<Longrightarrow> cursor_reachable u p d g \<Longrightarrow> cursor_reachable u p d g'"
proof (induction xs arbitrary: g)
  case (Cons x xs)
  then show ?case using apply_op_step cursor_later by (fastforce simp: try_res_eq_Inr)
qed simp

lemma run_cursor_remaining:
  "run_cursor u p d xs g = Inr g' \<Longrightarrow> map snd (remaining p g) = confirmed xs @ map snd (remaining p g')"
proof (induction xs arbitrary: g)
  case (Cons x xs)
  from Cons.prems obtain h where h: "apply_op u p d x g = Inr h" "run_cursor u p d xs h = Inr g'" by auto
  with Cons.IH[OF h(2)] show ?case
    by (cases x) (auto dest: begin_remaining confirm_remaining)
qed simp

lemma remaining_empty:
  assumes "cursor_ok p d g"
  shows "remaining p g = [] \<longleftrightarrow> cu_Phase g = NoPhase"
proof (cases "unat (cu_Change g) = Suc (change_count p)")
  case True
  with assms show ?thesis by (simp add: remaining_def cursor_ok_def)
next
  case False
  with assms have "cu_Phase g \<in> set (phases (current_change p g))" "unat (cu_Change g) \<le> Suc (change_count p)" "0 < unat (cu_Change g)"
    by (auto simp: cursor_ok_def unat_gt_0)
  moreover from this False have "unat (cu_Change g) - 1 < change_count p" by linarith
  ultimately show ?thesis by (auto simp: remaining_def Let_def)
qed

lemma length_steps_from: "length (steps_from p 0) \<le> 6 * change_count p"
proof -
  have "length (phases c) \<le> 6" for c by (simp add: phases_def)
  then have "(\<Sum>i \<leftarrow> xs. length (change_steps p i)) \<le> 6 * length xs" for xs
    by (induction xs) (auto simp: change_steps_def intro: add_mono)
  from this[of "[0..<change_count p]"] show ?thesis by (simp add: steps_from_def length_concat comp_def)
qed

lemma cursor_step_budget:
  assumes "cursor_step u p d g g'" "cursor_inv p d g" "rolling_plan_ok u p"
  shows "unat (cu_Change g) \<le> unat (cu_Change g') \<and>
    (cu_Change g' = cu_Change g \<longrightarrow> is_zero (cu_ReplicaStartedAt g) \<or>
       cu_ReplicaStartedAt g' = cu_ReplicaStartedAt g \<and> cu_ReplicaDeadline g' = cu_ReplicaDeadline g)"
  using assms(1)
proof (rule cursor_stepE)
  fix now
  assume "begin_phase u p d now g = Inr g'"
  then show ?thesis by (auto simp: begin_phase_Inr started_cursor_def Let_def)
next
  fix ph now
  assume "confirm_phase u p d ph now g = Inr g'"
  then have c: "cursor_ok p d g" "cu_InFlight g" "g' = advanced p now g" by (simp_all add: confirm_phase_Inr)
  have "unat (cu_Change g) \<le> 16" using cursor_open(1)[OF c(1,2)] change_count_pos[OF assms(3)] by simp
  then have "unat (cu_Change g + 1) = Suc (unat (cu_Change g))" by (simp add: unat_word_ariths)
  then show ?thesis unfolding c(3) by (auto simp: advanced_def split: list.splits)
qed

lemma begin_keeps_started: "begin_phase u p d now g = Inr g' \<Longrightarrow> \<not> is_zero (cu_ReplicaStartedAt g')"
  by (auto simp: begin_phase_Inr started_cursor_def Let_def)

lemma cursor_step_started:
  assumes "cursor_step u p d g g'" "cu_Change g' = cu_Change g" "\<not> is_zero (cu_ReplicaStartedAt g)" "rolling_plan_ok u p"
  shows "\<not> is_zero (cu_ReplicaStartedAt g')"
  using assms(1)
proof (rule cursor_stepE)
  fix now
  assume "begin_phase u p d now g = Inr g'"
  then show ?thesis by (rule begin_keeps_started)
next
  fix ph now
  assume "confirm_phase u p d ph now g = Inr g'"
  then have c: "g' = advanced p now g" by (simp add: confirm_phase_Inr)
  with assms(2,3) show ?thesis by (auto simp: advanced_def split: list.splits)
qed

lemma cursor_steps_budget:
  assumes "(cursor_step u p d)\<^sup>*\<^sup>* g g'" "cursor_reachable u p d g" "\<not> is_zero (cu_ReplicaStartedAt g)"
  shows "cursor_reachable u p d g' \<and> unat (cu_Change g) \<le> unat (cu_Change g') \<and>
    (cu_Change g' = cu_Change g \<longrightarrow> \<not> is_zero (cu_ReplicaStartedAt g') \<and>
       cu_ReplicaStartedAt g' = cu_ReplicaStartedAt g \<and> cu_ReplicaDeadline g' = cu_ReplicaDeadline g)"
  using assms(1)
proof (induction rule: rtranclp_induct)
  case base
  then show ?case using assms by simp
next
  case (step y z)
  then have r: "cursor_reachable u p d y" by simp
  note inv = cursor_reachable_inv[OF r]
  have b: "unat (cu_Change y) \<le> unat (cu_Change z)"
    using cursor_step_budget[OF step(2)] inv by blast
  have "cu_Change z = cu_Change g \<Longrightarrow> cu_Change y = cu_Change g"
    using b step(3) by (metis le_antisym word_unat_eq_iff)
  then show ?case
    using step cursor_later[OF r step(2)] b cursor_step_budget[OF step(2)] cursor_step_started[OF step(2)] inv
    by (metis order_trans)
qed

section \<open>An example run\<close>

definition rx_at :: "int \<Rightarrow> gotime" where
  "rx_at n = \<lparr>instant = n * second, loc = UTC\<rparr>"

definition rx_run :: "cursor_op list" where
  "rx_run = [Begin (rx_at 1), Confirm StartCandidate (rx_at 2), Begin (rx_at 3)]"

definition rx_started :: cursor where
  "rx_started = \<lparr>cu_Change = 1, cu_Phase = StartCandidate, cu_InFlight = True, cu_ReplicaStartedAt = rx_at 1,
     cu_ReplicaDeadline = rx_at 61, cu_DrainUntil = zero_time\<rparr>"

definition rx_waiting :: cursor where
  "rx_waiting = rx_started\<lparr>cu_Phase := WaitCandidateHealthy\<rparr>"

lemma rx_new: "new_cursor crockford_ulid rx_plan = Inr (fresh_cursor 1 StartCandidate)"
  using rx_plan_ok by (simp add: new_cursor_Inr rx_phases)

lemma rx_at_simps [simp]: "instant (rx_at n) = n * second" "utc (rx_at n) = rx_at n" "is_zero (rx_at n) \<longleftrightarrow> n = 0"
    "before (rx_at m) (rx_at n) \<longleftrightarrow> m < n" "after (rx_at m) (rx_at n) \<longleftrightarrow> n < m" "add_duration (rx_at m) (n * second) = rx_at (m + n)"
  by (simp_all add: rx_at_def utc_def is_zero_def before_def after_def add_duration_def)

lemma rx_timeout: "timeout_nanos rx_plan = 60 * second"
  by (simp add: timeout_nanos_def rx_plan_def)

lemma rx_begin: "begin_phase crockford_ulid rx_plan (rx_at 600) (rx_at 1) (fresh_cursor 1 StartCandidate) = Inr rx_started"
proof -
  have "cursor_inv rx_plan (rx_at 600) (fresh_cursor 1 StartCandidate)" using new_cursor_inv[OF rx_new] by simp
  moreover have "add_duration (rx_at 1) (60 * second) = rx_at 61" unfolding rx_at_simps by simp
  ultimately show ?thesis
    using rx_plan_ok by (simp add: begin_phase_Inr cursor_inv_def started_cursor_def rx_timeout rx_started_def Let_def del: rx_at_simps(6))
qed

lemma rx_confirm: "confirm_phase crockford_ulid rx_plan (rx_at 600) StartCandidate (rx_at 2) rx_started =
    Inr (rx_waiting\<lparr>cu_InFlight := False\<rparr>)"
proof -
  have "cursor_inv rx_plan (rx_at 600) rx_started" using begin_inv[OF rx_begin] new_cursor_inv[OF rx_new] by simp
  then show ?thesis using rx_plan_ok
    by (simp add: confirm_phase_Inr cursor_inv_def)
      (simp add: rx_waiting_def rx_started_def advanced_def next_phases_def rx_phases)
qed

lemma rx_begin_again:
  "begin_phase crockford_ulid rx_plan (rx_at 600) (rx_at 3) (rx_waiting\<lparr>cu_InFlight := False\<rparr>) = Inr rx_waiting"
proof -
  have "cursor_inv rx_plan (rx_at 600) (rx_waiting\<lparr>cu_InFlight := False\<rparr>)"
    using confirm_inv[OF rx_confirm] begin_inv[OF rx_begin] new_cursor_inv[OF rx_new] by simp
  then show ?thesis using rx_plan_ok
    by (simp add: begin_phase_Inr cursor_inv_def) (simp add: started_cursor_def rx_waiting_def rx_started_def)
qed

lemma rx_run_ok: "run_cursor crockford_ulid rx_plan (rx_at 600) rx_run (fresh_cursor 1 StartCandidate) = Inr rx_waiting"
  by (simp add: rx_run_def rx_begin rx_confirm rx_begin_again)

lemma rx_reachable: "cursor_reachable crockford_ulid rx_plan (rx_at 600) rx_started"
    "cursor_reachable crockford_ulid rx_plan (rx_at 600) rx_waiting"
  using run_cursor_reachable[OF rx_run_ok] cursor_later[OF _ step_begin[OF rx_begin]] cursor_initial[OF rx_new, of "rx_at 600"]
  by simp_all

section \<open>Properties\<close>

text \<open>C10. The cursor implements the list of all steps of the plan: whatever sequence of \<open>Begin\<close> and
  \<open>Confirm\<close> succeeds from \<open>NewProgress\<close>, the phases confirmed so far followed by the phases that
  remain are exactly the phases of the changes in order. No phase is skipped, repeated or
  reordered, at most 96 confirmations succeed, and the cursor is complete when none remains.\<close>

theorem cursor_refines_step_list:
  assumes "new_cursor u p = Inr g0" "\<not> is_zero d" "run_cursor u p d ops g0 = Inr g"
  shows "confirmed ops @ map snd (remaining p g) = concat (map (\<lambda>i. phases (change_spec p i)) [0..<change_count p]) \<and>
    cursor_validate u p d g = Inr () \<and> length (confirmed ops) \<le> 96 \<and>
    (cu_Phase g = NoPhase \<longleftrightarrow> confirmed ops = concat (map (\<lambda>i. phases (change_spec p i)) [0..<change_count p]))"
proof -
  let ?all = "concat (map (\<lambda>i. phases (change_spec p i)) [0..<change_count p])"
  have inv: "cursor_inv p d g" "rolling_plan_ok u p"
    using cursor_reachable_inv[OF run_cursor_reachable[OF assms(3) cursor_initial[OF assms(1,2)]]] by simp_all
  have "map snd (steps_from p 0) = ?all" by (simp add: steps_from_def map_concat change_steps_def comp_def)
  with run_cursor_remaining[OF assms(3)] new_cursor_remaining[OF assms(1)]
  have all: "?all = confirmed ops @ map snd (remaining p g)" by simp
  moreover have "length ?all \<le> 96"
  proof -
    have "length ?all = length (steps_from p 0)" using \<open>map snd (steps_from p 0) = ?all\<close> by (metis length_map)
    with length_steps_from[of p] change_count_pos[OF inv(2)] show ?thesis by linarith
  qed
  ultimately show ?thesis using inv remaining_empty[of p d g] by (auto simp: cursor_inv_def)
qed

theorem cursor_refines_step_list_witness:
  "[StartCandidate] @ map snd (remaining rx_plan rx_waiting) =
     [StartCandidate, WaitCandidateHealthy, SwitchTraffic, DrainPredecessor, RemovePredecessor]"
  using cursor_refines_step_list[OF rx_new _ rx_run_ok] by (simp add: rx_phases rx_run_def)

text \<open>C11. A replica budget is never renewed: from a reachable cursor whose replica has started, no
  sequence of operations changes the start time or the deadline while the same change is in
  progress, and the deadline exceeds neither the captured timeout nor the deadline of the Task.\<close>

theorem replica_budget_not_renewed:
  assumes "cursor_reachable u p d g" "(cursor_step u p d)\<^sup>*\<^sup>* g g'" "cu_Change g' = cu_Change g"
    and "\<not> is_zero (cu_ReplicaStartedAt g)"
  shows "cu_ReplicaStartedAt g' = cu_ReplicaStartedAt g \<and> cu_ReplicaDeadline g' = cu_ReplicaDeadline g \<and>
    \<not> after (cu_ReplicaDeadline g') d \<and>
    instant (cu_ReplicaDeadline g') \<le> instant (cu_ReplicaStartedAt g') + timeout_nanos p"
proof -
  note b = cursor_steps_budget[OF assms(2,1,4)]
  then have "cursor_ok p d g'" using cursor_reachable_inv by (auto simp: cursor_inv_def)
  moreover have "\<not> is_zero (cu_ReplicaStartedAt g')" using b assms(3,4) by simp
  ultimately have "budget_ok p d g'" by (auto simp: cursor_ok_def split: if_splits)
  with b assms(3) show ?thesis by (simp add: budget_ok_def)
qed

theorem replica_budget_not_renewed_witness:
  "cu_ReplicaDeadline rx_waiting = cu_ReplicaDeadline rx_started"
proof -
  have "(cursor_step crockford_ulid rx_plan (rx_at 600))\<^sup>*\<^sup>* rx_started rx_waiting"
    using step_confirm[OF rx_confirm] step_begin[OF rx_begin_again] by simp
  moreover have "cu_Change rx_waiting = cu_Change rx_started" "\<not> is_zero (cu_ReplicaStartedAt rx_started)"
    by (simp_all add: rx_waiting_def rx_started_def)
  ultimately show ?thesis using replica_budget_not_renewed[OF rx_reachable(1)] by blast
qed

text \<open>C12. A rollout is never stuck before its deadline: in a reachable, incomplete cursor the next
  operation succeeds at every time of a non-empty interval. A phase that is not in flight can be
  begun at any time before the deadline (of the Task, or of the replica once it has started), and a
  phase in flight can be confirmed from the end of the drain on; the drain always ends before the
  replica deadline, so the removal of the predecessor has time left.\<close>

theorem cursor_never_stuck:
  assumes "cursor_reachable u p d g" "cu_Phase g \<noteq> NoPhase"
  shows "if cu_InFlight g then
      (\<forall>now. \<not> before now (cu_ReplicaStartedAt g) \<and> before now (cu_ReplicaDeadline g) \<and>
         (cu_Phase g = DrainPredecessor \<longrightarrow> \<not> before now (cu_DrainUntil g)) \<longrightarrow>
         is_ok (confirm_phase u p d (cu_Phase g) now g)) \<and>
      before (cu_ReplicaStartedAt g) (cu_ReplicaDeadline g) \<and>
      (cu_Phase g = DrainPredecessor \<longrightarrow> before (cu_DrainUntil g) (cu_ReplicaDeadline g))
    else if is_zero (cu_ReplicaStartedAt g) then
      (\<forall>now. \<not> is_zero now \<and> before now d \<longrightarrow> is_ok (begin_phase u p d now g))
    else
      (\<forall>now. \<not> is_zero now \<and> \<not> before now (cu_ReplicaStartedAt g) \<and> before now (cu_ReplicaDeadline g) \<longrightarrow>
         is_ok (begin_phase u p d now g)) \<and>
      before (cu_ReplicaStartedAt g) (cu_ReplicaDeadline g)"
proof -
  from cursor_reachable_inv[OF assms(1)] have inv: "cursor_inv p d g" and ok: "rolling_plan_ok u p" by simp_all
  then have c: "cursor_ok p d g" by (simp add: cursor_inv_def)
  have pos: "0 < timeout_nanos p"
  proof -
    have "uint (rl_ReplicaTimeoutSeconds p) \<noteq> 0" using ok by (simp add: rolling_plan_ok_def uint_0_iff)
    with uint_ge_0[of "rl_ReplicaTimeoutSeconds p"] have "0 < uint (rl_ReplicaTimeoutSeconds p)" by linarith
    then show ?thesis by (simp add: timeout_nanos_def)
  qed
  have b: "budget_ok p d g" if "\<not> is_zero (cu_ReplicaStartedAt g)"
    using c assms(2) that by (auto simp: cursor_ok_def split: if_splits)
  show ?thesis
  proof (cases "cu_InFlight g")
    case True
    note op = cursor_open[OF c True]
    from op(5) inv True show ?thesis
      by (simp add: is_ok_iff confirm_phase_Inr ok c budget_ok_def cursor_inv_def before_def after_def)
  next
    case nf: False
    show ?thesis
    proof (cases "is_zero (cu_ReplicaStartedAt g)")
      case True
      with nf assms(2) pos show ?thesis
        by (auto simp: is_ok_iff begin_phase_Inr ok c started_cursor_def Let_def before_def after_def add_duration_def)
    next
      case False
      with nf assms(2) b show ?thesis
        by (auto simp: is_ok_iff begin_phase_Inr ok c started_cursor_def budget_ok_def before_def after_def)
    qed
  qed
qed

theorem cursor_never_stuck_witness:
  "is_ok (confirm_phase crockford_ulid rx_plan (rx_at 600) WaitCandidateHealthy (rx_at 60) rx_waiting)"
proof -
  have "cu_Phase rx_waiting \<noteq> NoPhase" by (simp add: rx_waiting_def)
  from cursor_never_stuck[OF rx_reachable(2) this] show ?thesis
    by (simp add: rx_waiting_def rx_started_def)
qed

end
