(* ===== verification/Text.thy ===== *)
theory Text
  imports Prelude
begin

text \<open>
  The functions of Go's \<open>strings\<close> package that the modelled code uses on operator text, over the
  bytes of a string: \<open>TrimSpace\<close>, \<open>ContainsAny\<close>, \<open>Cut\<close>, and decimal numbers.
\<close>

section \<open>Text\<close>

text \<open>
  \<open>strings.TrimSpace s = s\<close>: the text neither starts nor ends with the UTF-8 encoding of a space
  rune. Decoding a rune at either end of any byte string yields a space rune exactly when one of
  these encodings stands there.
\<close>

definition space_encodings :: "string list" where
  "space_encodings =
     [[CHR 0x09], [CHR 0x0A], [CHR 0x0B], [CHR 0x0C], [CHR 0x0D], [CHR 0x20], [CHR 0xC2, CHR 0x85],
      [CHR 0xC2, CHR 0xA0], [CHR 0xE1, CHR 0x9A, CHR 0x80], [CHR 0xE2, CHR 0x80, CHR 0x80],
      [CHR 0xE2, CHR 0x80, CHR 0x81], [CHR 0xE2, CHR 0x80, CHR 0x82], [CHR 0xE2, CHR 0x80, CHR 0x83],
      [CHR 0xE2, CHR 0x80, CHR 0x84], [CHR 0xE2, CHR 0x80, CHR 0x85], [CHR 0xE2, CHR 0x80, CHR 0x86],
      [CHR 0xE2, CHR 0x80, CHR 0x87], [CHR 0xE2, CHR 0x80, CHR 0x88], [CHR 0xE2, CHR 0x80, CHR 0x89],
      [CHR 0xE2, CHR 0x80, CHR 0x8A], [CHR 0xE2, CHR 0x80, CHR 0xA8], [CHR 0xE2, CHR 0x80, CHR 0xA9],
      [CHR 0xE2, CHR 0x80, CHR 0xAF], [CHR 0xE2, CHR 0x81, CHR 0x9F], [CHR 0xE3, CHR 0x80, CHR 0x80]]"

definition has_suffix :: "string \<Rightarrow> string \<Rightarrow> bool" where
  "has_suffix x s \<longleftrightarrow> length x \<le> length s \<and> drop (length s - length x) s = x"

definition trimmed :: "string \<Rightarrow> bool" where
  "trimmed s \<longleftrightarrow>
     \<not> list_ex (\<lambda>e. has_prefix e s \<or> has_suffix e s) space_encodings"

definition contains_any :: "string \<Rightarrow> string \<Rightarrow> bool" where
  "contains_any s cs \<longleftrightarrow> list_ex (\<lambda>c. c \<in> set cs) s"

section \<open>TrimSpace\<close>

lemma space_encodings_nonempty: "e \<in> set space_encodings \<Longrightarrow> e \<noteq> []"
  by (auto simp: space_encodings_def)

function trim_left :: "string \<Rightarrow> string" where
  "trim_left s =
     (case find (\<lambda>e. has_prefix e s) space_encodings of
        None \<Rightarrow> s
      | Some e \<Rightarrow> trim_left (drop (length e) s))"
  by pat_completeness auto

termination
proof (relation "measure length")
  fix s e
  assume "find (\<lambda>e. has_prefix e s) space_encodings = Some e"
  then have "e \<in> set space_encodings" "has_prefix e s" by (auto simp: find_Some_iff)
  then show "(drop (length e) s, s) \<in> measure length"
    using space_encodings_nonempty by (cases s) (fastforce simp: has_prefix_def)+
qed simp

function trim_right :: "string \<Rightarrow> string" where
  "trim_right s =
     (case find (\<lambda>e. has_suffix e s) space_encodings of
        None \<Rightarrow> s
      | Some e \<Rightarrow> trim_right (take (length s - length e) s))"
  by pat_completeness auto

termination
proof (relation "measure length")
  fix s e
  assume "find (\<lambda>e. has_suffix e s) space_encodings = Some e"
  then have "e \<in> set space_encodings" "has_suffix e s" by (auto simp: find_Some_iff)
  then show "(take (length s - length e) s, s) \<in> measure length"
    using space_encodings_nonempty[of e] by (simp add: has_suffix_def) (metis diff_less length_greater_0_conv order_less_le_trans)
qed simp

declare trim_left.simps [simp del] trim_right.simps [simp del]

definition trim_space :: "string \<Rightarrow> string" where
  "trim_space s = trim_right (trim_left s)"

lemma trim_left_length: "length (trim_left s) \<le> length s"
proof (induction s rule: trim_left.induct)
  case (1 s)
  then show ?case
    by (subst trim_left.simps) (auto split: option.split intro: order_trans)
qed

lemma trim_right_length: "length (trim_right s) \<le> length s"
proof (induction s rule: trim_right.induct)
  case (1 s)
  then show ?case
    by (subst trim_right.simps) (auto split: option.split intro: order_trans)
qed

text \<open>The test \<open>TrimSpace s = s\<close> of the code is \<open>trimmed\<close>.\<close>

lemma trim_left_id: "trim_left s = s \<longleftrightarrow> \<not> list_ex (\<lambda>e. has_prefix e s) space_encodings"
proof (cases "find (\<lambda>e. has_prefix e s) space_encodings")
  case None
  then have "\<not> list_ex (\<lambda>e. has_prefix e s) space_encodings" by (auto simp: find_None_iff list_ex_iff)
  with None show ?thesis by (subst trim_left.simps) simp
next
  case (Some e)
  then have e: "e \<in> set space_encodings" "has_prefix e s" by (auto simp: find_Some_iff)
  with space_encodings_nonempty have "s \<noteq> []" by (fastforce simp: has_prefix_def)
  with e space_encodings_nonempty[of e] have "length (drop (length e) s) < length s" by (simp add: diff_less)
  with trim_left_length[of "drop (length e) s"] have "trim_left (drop (length e) s) \<noteq> s" by auto
  with Some e show ?thesis by (subst trim_left.simps) (auto simp: list_ex_iff)
qed

lemma trim_right_id: "trim_right s = s \<longleftrightarrow> \<not> list_ex (\<lambda>e. has_suffix e s) space_encodings"
proof (cases "find (\<lambda>e. has_suffix e s) space_encodings")
  case None
  then have "\<not> list_ex (\<lambda>e. has_suffix e s) space_encodings" by (auto simp: find_None_iff list_ex_iff)
  with None show ?thesis by (subst trim_right.simps) simp
next
  case (Some e)
  then have e: "e \<in> set space_encodings" "has_suffix e s" by (auto simp: find_Some_iff)
  with space_encodings_nonempty[of e] have "length (take (length s - length e) s) < length s"
    by (cases e) (auto simp: has_suffix_def)
  with trim_right_length[of "take (length s - length e) s"] have "trim_right (take (length s - length e) s) \<noteq> s" by auto
  with Some e show ?thesis by (subst trim_right.simps) (auto simp: list_ex_iff)
qed

lemma trim_space_trimmed: "trim_space s = s \<longleftrightarrow> trimmed s"
proof
  assume a: "trim_space s = s"
  then have "length s \<le> length (trim_left s)" using trim_right_length[of "trim_left s"] by (simp add: trim_space_def)
  have "trim_left s = s"
  proof (rule ccontr)
    assume n: "trim_left s \<noteq> s"
    then obtain e where e: "find (\<lambda>e. has_prefix e s) space_encodings = Some e"
      by (metis (no_types, lifting) not_Some_eq option.simps(4) trim_left.simps)
    then have f: "e \<in> set space_encodings" "has_prefix e s" by (auto simp: find_Some_iff)
    with space_encodings_nonempty have "s \<noteq> []" by (fastforce simp: has_prefix_def)
    with f space_encodings_nonempty[of e] have "length (drop (length e) s) < length s" by (simp add: diff_less)
    moreover have "trim_left s = trim_left (drop (length e) s)" using e by (subst trim_left.simps) simp
    ultimately show False using \<open>length s \<le> length (trim_left s)\<close> trim_left_length[of "drop (length e) s"] by simp
  qed
  with a show "trimmed s" using trim_left_id trim_right_id by (auto simp: trim_space_def trimmed_def list_ex_iff)
next
  assume "trimmed s"
  then show "trim_space s = s"
    using trim_left_id[of s] trim_right_id[of s] by (auto simp: trim_space_def trimmed_def list_ex_iff)
qed

section \<open>Cut and decimal numbers\<close>

text \<open>\<open>strings.Cut\<close> at one byte: the text before and after its first occurrence, and whether it occurs.\<close>

fun cut :: "char \<Rightarrow> string \<Rightarrow> string \<times> string \<times> bool" where
  "cut c [] = ([], [], False)"
| "cut c (x # xs) =
     (if x = c then ([], xs, True) else case cut c xs of (a, b, found) \<Rightarrow> (x # a, b, found))"

definition decimal :: "string \<Rightarrow> nat" where
  "decimal s = foldl (\<lambda>n c. n * 10 + (byte c - 48)) 0 s"

end
