(* ===== verification/ReleaseModel.thy ===== *)
theory ReleaseModel
  imports Rolling Text
begin

text \<open>
  The Release ledger (\<open>internal/core/release\<close>): the immutable intent with its workload seal, the
  checkpoints with their effect evidence, the state machine of a Release, the physical topology of a
  strategy change and the operator inputs of group operations (\<open>model.go\<close>, \<open>workload_seal.go\<close>,
  \<open>topology.go\<close>, \<open>operation_input.go\<close>).

  \<open>reference.ParseNormalizedNamed\<close> and \<open>IsNameOnly\<close> of \<open>github.com/distribution/reference\<close> are the
  parameter \<open>tagged :: string \<Rightarrow> bool\<close> (the text parses and has a tag or a digest). The size of the JSON
  encoding of an intent is the parameter \<open>json_size\<close> (\<open>None\<close> when \<open>json.Marshal\<close> fails). No theorem
  assumes anything about them.
\<close>

definition valid_text :: "string \<Rightarrow> bool" where
  "valid_text s \<longleftrightarrow>
     (if s = [] \<or> \<not> trimmed s \<or> \<not> valid_utf8 s then False
      else case runes s of None \<Rightarrow> False | Some rs \<Rightarrow> \<not> list_ex is_control_rune rs)"

section \<open>The workload seal\<close>

record workload_seal =
  ws_RequestedReference :: string
  ws_LocalImageID :: string
  ws_ReplicaCount :: u32

text \<open>A rune above 127 is one that is not a single ASCII byte, valid or not.\<close>

definition validate_workload_seal :: "(string \<Rightarrow> bool) \<Rightarrow> workload_seal \<Rightarrow> unit res" where
  "validate_workload_seal tagged s =
     (if ws_ReplicaCount s = 0 \<or> 512 < length (ws_RequestedReference s) \<or>
         \<not> has_prefix ''sha256:'' (ws_LocalImageID s) \<or> \<not> sha256_hex (drop 7 (ws_LocalImageID s))
        then Inl ValidationFailed
      else if \<not> list_all (\<lambda>c. byte c \<le> 127) (ws_RequestedReference s) then Inl ValidationFailed
      else if \<not> tagged (ws_RequestedReference s) then Inl ValidationFailed
      else Inr ())"

section \<open>Intent\<close>

definition minimum_group_members :: nat where "minimum_group_members = 2"
definition maximum_group_members :: nat where "maximum_group_members = 32"
definition maximum_record_bytes :: nat where "maximum_record_bytes = 262144"

datatype operation_kind = OperationDeploy | OperationRollback | OperationBlueprintApply | OperationKindOther string
datatype strategy = StrategyBlueGreen | StrategyRecreate | StrategyRolling | StrategyOther string
datatype on_failure = OnFailureSwitchBack | OnFailureLeaveActive | OnFailureOther string

text \<open>The zero value \<open>""\<close> of a slot is \<open>NoSlot\<close>.\<close>

datatype slot = NoSlot | SlotBlue | SlotGreen | SlotOther string
datatype workspace_kind = WorkspaceTenant | WorkspacePlatform | WorkspaceKindOther string

record workspace =
  wk_Kind :: workspace_kind
  wk_TenantID :: string
  wk_ProjectID :: string
  wk_EnvironmentID :: string

record intent =
  rt_ID :: string
  rt_EnvironmentID :: string
  rt_ServiceID :: string
  rt_OperationID :: string
  rt_OperationKind :: operation_kind
  rt_GroupOperationID :: string
  rt_GroupMemberOrdinal :: u32
  rt_CandidateWorkload :: workload_seal
  rt_Tag :: string
  rt_Strategy :: strategy
  rt_Slot :: slot
  rt_OnFailure :: on_failure
  rt_RollbackSourceReleaseID :: string
  rt_PriorServingReleaseID :: string
  rt_PriorSuccessfulReleaseID :: string
  rt_RenderInputID :: string
  rt_RenderInputDigest :: string
  rt_CreatedAt :: gotime
  rt_Actor :: string
  rt_Workspace :: workspace
  rt_OriginatingTaskID :: string

definition failure_hook_target :: "intent \<Rightarrow> string" where
  "failure_hook_target t =
     (if rt_OnFailure t = OnFailureSwitchBack \<and> rt_PriorServingReleaseID t \<noteq> []
      then rt_PriorServingReleaseID t else rt_ID t)"

definition validate_workspace :: "ulid_check \<Rightarrow> workspace \<Rightarrow> string \<Rightarrow> unit res" where
  "validate_workspace u w environment_id =
     (if \<not> id_valid u KindProject (wk_ProjectID w) \<or> wk_EnvironmentID w \<noteq> environment_id \<or>
         wk_Kind w = WorkspaceTenant \<and> \<not> id_valid u KindTenant (wk_TenantID w) \<or>
         wk_Kind w = WorkspacePlatform \<and> wk_TenantID w \<noteq> [] \<or>
         wk_Kind w \<noteq> WorkspaceTenant \<and> wk_Kind w \<noteq> WorkspacePlatform
      then Inl ValidationFailed else Inr ())"

text \<open>The final switch of \<open>ValidateIntent\<close> over the strategy.\<close>

definition validate_intent_strategy :: "intent \<Rightarrow> unit res" where
  "validate_intent_strategy t =
     (case rt_Strategy t of
        StrategyBlueGreen \<Rightarrow>
          if rt_Slot t \<noteq> SlotBlue \<and> rt_Slot t \<noteq> SlotGreen then Inl ValidationFailed else Inr ()
      | StrategyRecreate \<Rightarrow> if rt_Slot t \<noteq> NoSlot then Inl ValidationFailed else Inr ()
      | StrategyRolling \<Rightarrow>
          if rt_Slot t \<noteq> NoSlot \<or> maximum_replicas < ws_ReplicaCount (rt_CandidateWorkload t)
          then Inl ValidationFailed else Inr ()
      | StrategyOther s \<Rightarrow> Inl ValidationFailed)"

definition validate_intent ::
  "ulid_check \<Rightarrow> (string \<Rightarrow> bool) \<Rightarrow> (intent \<Rightarrow> nat option) \<Rightarrow> intent \<Rightarrow> unit res" where
  "validate_intent u tagged json_size t =
     (if \<not> id_valid u KindDeployment (rt_ID t) \<or> \<not> id_valid u KindEnvironment (rt_EnvironmentID t) \<or>
         \<not> id_valid u KindService (rt_ServiceID t) \<or> \<not> id_valid u KindOperation (rt_OperationID t) \<or>
         \<not> id_valid u KindConfig (rt_RenderInputID t) \<or> \<not> id_valid u KindTask (rt_OriginatingTaskID t)
        then Inl ValidationFailed
      else if (if rt_GroupOperationID t = [] then rt_GroupMemberOrdinal t \<noteq> 0
               else \<not> id_valid u KindOperation (rt_GroupOperationID t) \<or> rt_GroupMemberOrdinal t = 0 \<or>
                    maximum_group_members < unat (rt_GroupMemberOrdinal t))
        then Inl ValidationFailed
      else if rt_OperationKind t \<noteq> OperationDeploy \<and> rt_OperationKind t \<noteq> OperationRollback \<and>
              rt_OperationKind t \<noteq> OperationBlueprintApply
        then Inl ValidationFailed
      else if (if rt_OperationKind t = OperationRollback
               then \<not> id_valid u KindDeployment (rt_RollbackSourceReleaseID t)
               else rt_RollbackSourceReleaseID t \<noteq> [])
        then Inl ValidationFailed
      else if list_ex (\<lambda>c. c \<noteq> [] \<and> \<not> id_valid u KindDeployment c)
                [rt_PriorServingReleaseID t, rt_PriorSuccessfulReleaseID t]
        then Inl ValidationFailed
      else if validate_workload_seal tagged (rt_CandidateWorkload t) \<noteq> Inr () \<or> \<not> valid_text (rt_Tag t) \<or>
              contains_any (rt_Tag t) [CHR ''@'', CHR ''/'', CHR 0x5C]
        then Inl ValidationFailed
      else if rt_Strategy t = StrategyBlueGreen \<and> ws_ReplicaCount (rt_CandidateWorkload t) \<noteq> 1
        then Inl ValidationFailed
      else if \<not> sha256_hex (rt_RenderInputDigest t) \<or> is_zero (rt_CreatedAt t) \<or> \<not> is_utc (rt_CreatedAt t) \<or>
              \<not> valid_text (rt_Actor t)
        then Inl ValidationFailed
      else if rt_OnFailure t \<noteq> OnFailureSwitchBack \<and> rt_OnFailure t \<noteq> OnFailureLeaveActive
        then Inl ValidationFailed
      else try_res (validate_intent_strategy t) (\<lambda>_.
      try_res (validate_workspace u (rt_Workspace t) (rt_EnvironmentID t)) (\<lambda>_.
      case json_size t of
        None \<Rightarrow> Inl ValidationFailed
      | Some n \<Rightarrow> if maximum_record_bytes < n then Inl ValidationFailed else Inr ())))"

section \<open>States\<close>

datatype release_state =
    StatePending | StateRunning | StateCandidateHealthy | StateSwitching | StateServing | StatePostHooks
  | StateCompensating | StateCompleted | StateFailed | StateTimedOut | StateAborted
  | StateRecoveryRequired | StateRecovering | StateOther string

fun state_terminal :: "release_state \<Rightarrow> bool" where
  "state_terminal StateCompleted = True"
| "state_terminal StateFailed = True"
| "state_terminal StateTimedOut = True"
| "state_terminal StateAborted = True"
| "state_terminal _ = False"

fun valid_state :: "release_state \<Rightarrow> bool" where
  "valid_state (StateOther s) = False"
| "valid_state _ = True"

definition can_transition :: "release_state \<Rightarrow> release_state \<Rightarrow> bool" where
  "can_transition from to =
     (if from = to then True
      else case from of
        StatePending \<Rightarrow> to = StateRunning \<or> to = StateAborted \<or> to = StateTimedOut
      | StateRunning \<Rightarrow>
          to = StateCandidateHealthy \<or> to = StateServing \<or> to = StateCompensating \<or> to = StateFailed \<or>
          to = StateTimedOut \<or> to = StateAborted \<or> to = StateRecoveryRequired
      | StateCandidateHealthy \<Rightarrow>
          to = StateSwitching \<or> to = StateServing \<or> to = StateCompensating \<or> to = StateFailed \<or>
          to = StateTimedOut \<or> to = StateAborted \<or> to = StateRecoveryRequired
      | StateSwitching \<Rightarrow> to = StateServing \<or> to = StateCompensating \<or> to = StateRecoveryRequired
      | StateServing \<Rightarrow>
          to = StatePostHooks \<or> to = StateCompleted \<or> to = StateCompensating \<or> to = StateFailed \<or>
          to = StateTimedOut \<or> to = StateAborted \<or> to = StateRecoveryRequired
      | StatePostHooks \<Rightarrow>
          to = StateCompleted \<or> to = StateCompensating \<or> to = StateFailed \<or> to = StateTimedOut \<or>
          to = StateAborted \<or> to = StateRecoveryRequired
      | StateCompensating \<Rightarrow>
          to = StateFailed \<or> to = StateTimedOut \<or> to = StateAborted \<or> to = StateRecoveryRequired
      | StateRecoveryRequired \<Rightarrow> to = StateRecovering
      | StateRecovering \<Rightarrow>
          to = StateFailed \<or> to = StateTimedOut \<or> to = StateAborted \<or> to = StateRecoveryRequired
      | _ \<Rightarrow> False)"

section \<open>Checkpoints\<close>

record effect_evidence =
  ee_PlanID :: string
  ee_StepID :: string
  ee_AttemptID :: string
  ee_AgentID :: string
  ee_AcknowledgementID :: string
  ee_ObservedReleaseID :: string
  ee_ObservedSlot :: slot
  ee_ObservedRenderGeneration :: u64
  ee_EffectDigest :: string
  ee_RouterConfigurationDigest :: string
  ee_ObservedRouterTarget :: string
  ee_AcknowledgedAt :: gotime

record release_checkpoint =
  ck_ReleaseID :: string
  ck_State :: release_state
  ck_Evidence :: "effect_evidence list"
  ck_UpdatedAt :: gotime

definition validate_evidence :: "ulid_check \<Rightarrow> effect_evidence \<Rightarrow> string \<Rightarrow> unit res" where
  "validate_evidence u e release_id =
     (if \<not> id_valid u KindPlan (ee_PlanID e) \<or> \<not> id_valid u KindStep (ee_StepID e) \<or>
         \<not> id_valid u KindTask (ee_AttemptID e) \<or> \<not> id_valid u KindAgent (ee_AgentID e) \<or>
         \<not> id_valid u KindAssignment (ee_AcknowledgementID e) \<or> ee_ObservedReleaseID e \<noteq> release_id \<or>
         ee_ObservedRenderGeneration e = 0 \<or> \<not> sha256_hex (ee_EffectDigest e) \<or>
         is_zero (ee_AcknowledgedAt e) \<or> \<not> is_utc (ee_AcknowledgedAt e)
        then Inl ValidationFailed
      else if ee_ObservedSlot e \<noteq> NoSlot \<and> ee_ObservedSlot e \<noteq> SlotBlue \<and> ee_ObservedSlot e \<noteq> SlotGreen
        then Inl ValidationFailed
      else if ee_RouterConfigurationDigest e \<noteq> [] \<and> \<not> sha256_hex (ee_RouterConfigurationDigest e)
        then Inl ValidationFailed
      else Inr ())"

fun validate_evidence_list :: "ulid_check \<Rightarrow> string \<Rightarrow> string list \<Rightarrow> effect_evidence list \<Rightarrow> unit res" where
  "validate_evidence_list u release_id seen [] = Inr ()"
| "validate_evidence_list u release_id seen (e # es) =
     try_res (validate_evidence u e release_id) (\<lambda>_.
     if ee_AcknowledgementID e \<in> set seen then Inl ValidationFailed
     else validate_evidence_list u release_id (ee_AcknowledgementID e # seen) es)"

definition validate_checkpoint :: "ulid_check \<Rightarrow> release_checkpoint \<Rightarrow> unit res" where
  "validate_checkpoint u c =
     (if \<not> id_valid u KindDeployment (ck_ReleaseID c) \<or> \<not> valid_state (ck_State c) \<or>
         is_zero (ck_UpdatedAt c) \<or> \<not> is_utc (ck_UpdatedAt c)
        then Inl ValidationFailed
      else validate_evidence_list u (ck_ReleaseID c) [] (ck_Evidence c))"

section \<open>Topology\<close>

datatype workload_target =
    WorkloadSingleton | WorkloadBlue | WorkloadGreen | WorkloadRolling | WorkloadOther string

record topology_transition =
  tt_CandidateStrategy :: strategy
  tt_CandidateTarget :: workload_target
  tt_PriorStrategy :: strategy
  tt_PriorTarget :: workload_target

definition target_for :: "strategy \<Rightarrow> slot \<Rightarrow> workload_target res" where
  "target_for st sl =
     (case st of
        StrategyRecreate \<Rightarrow> if sl \<noteq> NoSlot then Inl ValidationFailed else Inr WorkloadSingleton
      | StrategyRolling \<Rightarrow> if sl \<noteq> NoSlot then Inl ValidationFailed else Inr WorkloadRolling
      | StrategyBlueGreen \<Rightarrow>
          (case sl of SlotBlue \<Rightarrow> Inr WorkloadBlue | SlotGreen \<Rightarrow> Inr WorkloadGreen | _ \<Rightarrow> Inl ValidationFailed)
      | StrategyOther s \<Rightarrow> Inl ValidationFailed)"

definition new_topology_transition :: "strategy \<Rightarrow> slot \<Rightarrow> strategy \<Rightarrow> slot \<Rightarrow> topology_transition res" where
  "new_topology_transition candidateStrategy candidateSlot priorStrategy priorSlot =
     try_res (target_for candidateStrategy candidateSlot) (\<lambda>candidateTarget.
     try_res (target_for priorStrategy priorSlot) (\<lambda>priorTarget.
     Inr \<lparr>tt_CandidateStrategy = candidateStrategy, tt_CandidateTarget = candidateTarget,
          tt_PriorStrategy = priorStrategy, tt_PriorTarget = priorTarget\<rparr>))"

definition requires_prior_artifact :: "topology_transition \<Rightarrow> bool" where
  "requires_prior_artifact t \<longleftrightarrow>
     tt_CandidateStrategy t = StrategyRecreate \<or> tt_CandidateStrategy t = StrategyRolling \<or>
     tt_CandidateStrategy t \<noteq> tt_PriorStrategy t"

definition remove_prior_before_apply :: "topology_transition \<Rightarrow> bool" where
  "remove_prior_before_apply t \<longleftrightarrow> tt_CandidateStrategy t = StrategyRecreate"

definition remove_prior_after_switch :: "topology_transition \<Rightarrow> bool" where
  "remove_prior_after_switch t \<longleftrightarrow>
     tt_CandidateStrategy t = StrategyBlueGreen \<and> tt_PriorStrategy t \<noteq> StrategyBlueGreen"

definition restore_prior_during_compensation :: "topology_transition \<Rightarrow> bool" where
  "restore_prior_during_compensation t \<longleftrightarrow> requires_prior_artifact t"

definition strategy_of_text :: "string \<Rightarrow> strategy" where
  "strategy_of_text s =
     (if s = ''blue-green'' then StrategyBlueGreen else if s = ''recreate'' then StrategyRecreate
      else if s = ''rolling'' then StrategyRolling else StrategyOther s)"

definition deployment_strategy :: "string \<Rightarrow> string \<Rightarrow> strategy res" where
  "deployment_strategy requested declared =
     (let selected = requested;
          selected = (if selected = [] then declared else selected);
          selected = (if selected = [] then ''recreate'' else selected)
      in case strategy_of_text selected of
           StrategyOther s \<Rightarrow> Inl ValidationFailed
         | st \<Rightarrow> Inr st)"

definition inactive_slot :: "strategy \<Rightarrow> slot \<Rightarrow> slot" where
  "inactive_slot st serving =
     (if st \<noteq> StrategyBlueGreen then NoSlot else if serving = SlotBlue then SlotGreen else SlotBlue)"

fun target_valid :: "workload_target \<Rightarrow> bool" where
  "target_valid (WorkloadOther s) = False"
| "target_valid _ = True"

fun target_slot :: "workload_target \<Rightarrow> slot" where
  "target_slot WorkloadBlue = SlotBlue"
| "target_slot WorkloadGreen = SlotGreen"
| "target_slot _ = NoSlot"

fun target_text :: "workload_target \<Rightarrow> string" where
  "target_text WorkloadSingleton = ''singleton''"
| "target_text WorkloadBlue = ''blue''"
| "target_text WorkloadGreen = ''green''"
| "target_text WorkloadRolling = ''rolling''"
| "target_text (WorkloadOther s) = s"

definition workload_compose_name :: "string \<Rightarrow> workload_target \<Rightarrow> string res" where
  "workload_compose_name service target =
     (if service = [] \<or> contains_any service [CHR ''/'', CHR 0x5C, CHR 0x00] \<or> \<not> target_valid target \<or>
         target = WorkloadRolling
      then Inl ValidationFailed else Inr (service @ ''--'' @ target_text target))"

section \<open>Group rollback inputs\<close>

record group_rollback_input =
  gi_Tag :: "string option"
  gi_PreviewRevision :: "int option"

definition validate_optional_rollback_tag :: "string option \<Rightarrow> unit res" where
  "validate_optional_rollback_tag tag =
     (case tag of None \<Rightarrow> Inr () | Some t \<Rightarrow> if t = [] \<or> \<not> trimmed t then Inl ValidationFailed else Inr ())"

definition new_group_rollback_input :: "string option \<Rightarrow> int option \<Rightarrow> group_rollback_input res" where
  "new_group_rollback_input tag revision =
     try_res (validate_optional_rollback_tag tag) (\<lambda>_.
     if \<not> opt_all (\<lambda>r. 0 < r) revision then Inl ValidationFailed
     else Inr \<lparr>gi_Tag = tag, gi_PreviewRevision = revision\<rparr>)"

definition new_group_rollback_preview_input :: "string option \<Rightarrow> string option res" where
  "new_group_rollback_preview_input tag = try_res (validate_optional_rollback_tag tag) (\<lambda>_. Inr tag)"

section \<open>The state machine\<close>

abbreviation release_path :: "release_state \<Rightarrow> release_state \<Rightarrow> bool" where
  "release_path \<equiv> can_transition\<^sup>*\<^sup>*"

definition settled_states :: "release_state set" where
  "settled_states = {StateCompensating, StateRecoveryRequired, StateRecovering, StateFailed, StateTimedOut, StateAborted}"

definition unserved_states :: "release_state set" where
  "unserved_states = {StatePending, StateRunning, StateCandidateHealthy, StateSwitching} \<union> settled_states"

lemma can_transition_terminal: "state_terminal s \<Longrightarrow> can_transition s t \<Longrightarrow> t = s"
  by (cases s) (auto simp: can_transition_def split: if_splits)

lemma can_transition_settled: "s \<in> settled_states \<Longrightarrow> can_transition s t \<Longrightarrow> t \<in> settled_states"
  by (auto simp: settled_states_def can_transition_def split: if_splits)

lemma can_transition_unserved:
  "s \<in> unserved_states \<Longrightarrow> can_transition s t \<Longrightarrow> t \<in> unserved_states \<or> t = StateServing"
  by (auto simp: unserved_states_def settled_states_def can_transition_def split: if_splits)

lemma path_terminal: "release_path s t \<Longrightarrow> state_terminal s \<Longrightarrow> t = s"
  by (induction rule: rtranclp_induct) (auto dest: can_transition_terminal)

lemma path_settled: "release_path s t \<Longrightarrow> s \<in> settled_states \<Longrightarrow> t \<in> settled_states"
  by (induction rule: rtranclp_induct) (auto dest: can_transition_settled)

lemma path_unserved:
  "release_path s t \<Longrightarrow> s \<in> unserved_states \<Longrightarrow> t \<in> unserved_states \<or> release_path s StateServing \<and> release_path StateServing t"
proof (induction rule: rtranclp_induct)
  case (step y z)
  show ?case
  proof (cases "y \<in> unserved_states")
    case True
    from can_transition_unserved[OF this step(2)] show ?thesis
    proof
      assume "z = StateServing"
      with step(1,2) show ?thesis by (auto intro: rtranclp.rtrancl_into_rtrancl)
    qed simp
  next
    case False
    with step have "release_path s StateServing" "release_path StateServing y" by auto
    with step(2) show ?thesis by (auto intro: rtranclp.rtrancl_into_rtrancl)
  qed
qed simp

lemma reaches_terminal:
  assumes "valid_state s"
  shows "\<exists>t. release_path s t \<and> state_terminal t"
proof -
  have one: "release_path StateRunning StateFailed" "release_path StateCandidateHealthy StateFailed"
    "release_path StateServing StateFailed" "release_path StatePostHooks StateFailed"
    "release_path StateCompensating StateFailed" "release_path StateRecovering StateFailed"
    by (rule r_into_rtranclp, simp add: can_transition_def)+
  have c: "can_transition StatePending StateRunning" "can_transition StateSwitching StateServing"
    "can_transition StateRecoveryRequired StateRecovering" by (simp_all add: can_transition_def)
  note two = converse_rtranclp_into_rtranclp[of can_transition, OF c(1) one(1)]
    converse_rtranclp_into_rtranclp[of can_transition, OF c(2) one(3)]
    converse_rtranclp_into_rtranclp[of can_transition, OF c(3) one(6)]
  from assms have "release_path s StateFailed \<or> state_terminal s" by (cases s) (simp_all add: one two)
  then show ?thesis by (metis rtranclp.rtrancl_refl state_terminal.simps(2))
qed

section \<open>Compose names\<close>

lemma target_text_no_dash: "target_valid t \<Longrightarrow> CHR ''-'' \<notin> set (target_text t)"
  by (cases t) auto

lemma target_text_inj: "\<lbrakk>target_valid s; target_valid t; target_text s = target_text t\<rbrakk> \<Longrightarrow> s = t"
  by (cases s; cases t) auto

text \<open>A separator that occurs in neither tail splits the text uniquely.\<close>

lemma split_last_unique:
  assumes "xs @ c # a = ys @ c # b" "c \<notin> set a" "c \<notin> set b"
  shows "xs = ys \<and> a = b"
proof -
  have "rev a @ c # rev xs = rev b @ c # rev ys" using arg_cong[OF assms(1), of rev] by simp
  moreover have "takeWhile (\<lambda>x. x \<noteq> c) (rev a @ c # rev xs) = rev a" "takeWhile (\<lambda>x. x \<noteq> c) (rev b @ c # rev ys) = rev b"
    using assms(2,3) by (subst takeWhile_append2; auto)+
  ultimately show ?thesis using assms(1) by auto
qed

section \<open>Properties\<close>

text \<open>C13. A Release never serves again once it compensates or needs recovery, a terminal state is
  final, every path that enters the post hooks or completes passes through serving (no path that
  leaves \<open>StateServing\<close> out does), and every valid state can still reach a terminal one.\<close>

theorem release_state_machine:
  assumes "release_path s t" "valid_state s"
  shows "(state_terminal s \<longrightarrow> t = s) \<and>
    (s \<in> {StateCompensating, StateRecoveryRequired, StateRecovering} \<longrightarrow>
       t \<notin> {StateServing, StatePostHooks, StateCompleted}) \<and>
    (t \<in> {StatePostHooks, StateCompleted} \<and> s \<notin> {StateServing, StatePostHooks, StateCompleted} \<longrightarrow>
       \<not> (\<lambda>a b. can_transition a b \<and> b \<noteq> StateServing)\<^sup>*\<^sup>* s t \<and> release_path s StateServing) \<and>
    valid_state t \<and> (\<exists>r. release_path t r \<and> state_terminal r)"
proof -
  have v: "valid_state t" using assms
    by (induction rule: rtranclp_induct) (auto simp: can_transition_def split: if_splits release_state.splits)
  have "s \<in> {StateCompensating, StateRecoveryRequired, StateRecovering} \<Longrightarrow> t \<in> settled_states"
    using path_settled[OF assms(1)] by (auto simp: settled_states_def)
  then have a: "s \<in> {StateCompensating, StateRecoveryRequired, StateRecovering} \<Longrightarrow>
       t \<notin> {StateServing, StatePostHooks, StateCompleted}" by (auto simp: settled_states_def)
  have b: "\<not> (\<lambda>a b. can_transition a b \<and> b \<noteq> StateServing)\<^sup>*\<^sup>* s t \<and> release_path s StateServing"
    if "t \<in> {StatePostHooks, StateCompleted}" "s \<notin> {StateServing, StatePostHooks, StateCompleted}"
  proof -
    from that(2) assms(2) have u: "s \<in> unserved_states"
      by (cases s) (auto simp: unserved_states_def settled_states_def)
    have n: "t \<notin> unserved_states" using that(1) by (auto simp: unserved_states_def settled_states_def)
    have "r \<in> unserved_states" if "(\<lambda>a b. can_transition a b \<and> b \<noteq> StateServing)\<^sup>*\<^sup>* s r" for r
      using that u by (induction rule: rtranclp_induct) (use can_transition_unserved in blast)+
    with n path_unserved[OF assms(1) u] show ?thesis by blast
  qed
  from v a b path_terminal[OF assms(1)] reaches_terminal[OF v] show ?thesis by blast
qed

theorem release_state_machine_witness:
  "\<not> (\<lambda>a b. can_transition a b \<and> b \<noteq> StateServing)\<^sup>*\<^sup>* StateRunning StateCompleted"
proof -
  have "can_transition StateRunning StateServing" "can_transition StateServing StatePostHooks"
    "can_transition StatePostHooks StateCompleted" by (simp_all add: can_transition_def)
  then have "release_path StateRunning StateCompleted"
    by (intro rtranclp.rtrancl_into_rtrancl[OF rtranclp.rtrancl_into_rtrancl[OF r_into_rtranclp]])
  from release_state_machine[OF this] show ?thesis by simp
qed

text \<open>A strategy change is safe: whenever the prior workload is removed, before or after the switch,
  its artifact is required and restored during compensation, it is never removed twice, and when a
  blue-green candidate in the inactive slot starts beside its predecessor the two have different
  Compose names.\<close>

theorem topology_transition_safe:
  assumes "new_topology_transition cs cslot ps pslot = Inr t" "cslot = inactive_slot cs pslot"
  shows "(remove_prior_before_apply t \<or> remove_prior_after_switch t \<longrightarrow>
      requires_prior_artifact t \<and> restore_prior_during_compensation t) \<and>
    \<not> (remove_prior_before_apply t \<and> remove_prior_after_switch t) \<and>
    (cs = StrategyBlueGreen \<longrightarrow> tt_CandidateTarget t \<noteq> tt_PriorTarget t \<and>
      (\<forall>service n m. workload_compose_name service (tt_CandidateTarget t) = Inr n \<and>
         workload_compose_name service (tt_PriorTarget t) = Inr m \<longrightarrow> n \<noteq> m))"
proof -
  from assms(1) have t: "target_for cs cslot = Inr (tt_CandidateTarget t)" "target_for ps pslot = Inr (tt_PriorTarget t)"
    "tt_CandidateStrategy t = cs" "tt_PriorStrategy t = ps"
    by (auto simp: new_topology_transition_def)
  have ne: "tt_CandidateTarget t \<noteq> tt_PriorTarget t" if "cs = StrategyBlueGreen"
    using t(1,2) assms(2) that
    by (auto simp: target_for_def inactive_slot_def split: strategy.splits slot.splits if_splits)
  then have "n \<noteq> m" if "cs = StrategyBlueGreen" "workload_compose_name service (tt_CandidateTarget t) = Inr n"
    "workload_compose_name service (tt_PriorTarget t) = Inr m" for service n m
    using that target_text_inj by (auto simp: workload_compose_name_def split: if_splits)
  with ne t(3,4) show ?thesis
    by (auto simp: remove_prior_before_apply_def remove_prior_after_switch_def requires_prior_artifact_def
        restore_prior_during_compensation_def)
qed

theorem topology_transition_safe_witness:
  "WorkloadGreen \<noteq> WorkloadBlue \<and> inactive_slot StrategyBlueGreen SlotBlue = SlotGreen"
proof -
  have "new_topology_transition StrategyBlueGreen SlotGreen StrategyBlueGreen SlotBlue =
      Inr \<lparr>tt_CandidateStrategy = StrategyBlueGreen, tt_CandidateTarget = WorkloadGreen,
           tt_PriorStrategy = StrategyBlueGreen, tt_PriorTarget = WorkloadBlue\<rparr>"
    by (simp add: new_topology_transition_def target_for_def)
  from topology_transition_safe[OF this] show ?thesis by (simp add: inactive_slot_def)
qed

text \<open>Workload Compose names are unambiguous: from the name of a workload its Service and its
  target can be recovered, whatever characters the Service name contains.\<close>

theorem workload_compose_name_injective:
  assumes "workload_compose_name s t = Inr n" "workload_compose_name s' t' = Inr n"
  shows "s = s' \<and> t = t'"
proof -
  from assms have v: "target_valid t" "target_valid t'" and n: "n = (s @ ''-'') @ CHR ''-'' # target_text t"
    "n = (s' @ ''-'') @ CHR ''-'' # target_text t'"
    by (simp_all add: workload_compose_name_def)
  from split_last_unique[OF n(1)[symmetric, THEN trans, OF n(2)] target_text_no_dash[OF v(1)] target_text_no_dash[OF v(2)]]
    target_text_inj[OF v] show ?thesis by simp
qed

theorem workload_compose_name_injective_witness:
  "workload_compose_name ''web--blue'' WorkloadSingleton \<noteq> workload_compose_name ''web'' WorkloadBlue"
proof
  assume "workload_compose_name ''web--blue'' WorkloadSingleton = workload_compose_name ''web'' WorkloadBlue"
  moreover have "workload_compose_name ''web'' WorkloadBlue = Inr ''web--blue''" by code_simp
  ultimately show False using workload_compose_name_injective[of "''web--blue''" WorkloadSingleton "''web--blue''" "''web''" WorkloadBlue]
    by simp
qed

text \<open>A valid intent is executable: its strategy and slot select a workload target, its replica
  count fits the strategy, and the Release its failure hook may target is identified.\<close>

theorem valid_intent_executable:
  assumes "validate_intent u tagged json_size t = Inr ()"
  shows "is_ok (target_for (rt_Strategy t) (rt_Slot t)) \<and> id_valid u KindDeployment (failure_hook_target t) \<and>
    0 < ws_ReplicaCount (rt_CandidateWorkload t) \<and>
    (rt_Strategy t = StrategyBlueGreen \<longrightarrow> ws_ReplicaCount (rt_CandidateWorkload t) = 1) \<and>
    (rt_Strategy t = StrategyRolling \<longrightarrow> ws_ReplicaCount (rt_CandidateWorkload t) \<le> 16)"
proof -
  have seal: "ws_ReplicaCount w \<noteq> 0" if "validate_workload_seal tagged w = Inr ()" for w
    using that by (simp add: validate_workload_seal_def)
  from assms have v: "validate_intent_strategy t = Inr ()" "validate_workload_seal tagged (rt_CandidateWorkload t) = Inr ()"
    "rt_Strategy t = StrategyBlueGreen \<Longrightarrow> ws_ReplicaCount (rt_CandidateWorkload t) = 1"
    "id_valid u KindDeployment (rt_ID t)" "rt_PriorServingReleaseID t \<noteq> [] \<Longrightarrow> id_valid u KindDeployment (rt_PriorServingReleaseID t)"
    unfolding validate_intent_def if_Inl_eq_Inr try_res_unit by (simp_all add: list_ex_iff)
  from v(1) have "is_ok (target_for (rt_Strategy t) (rt_Slot t))"
    by (auto simp: validate_intent_strategy_def target_for_def split: strategy.splits slot.splits if_splits)
  moreover have "rt_Strategy t = StrategyRolling \<Longrightarrow> ws_ReplicaCount (rt_CandidateWorkload t) \<le> 16"
    using v(1) by (auto simp: validate_intent_strategy_def maximum_replicas_def not_less)
  ultimately show ?thesis
    using v seal[OF v(2)] by (auto simp: failure_hook_target_def word_neq_0_conv)
qed

definition ex_intent :: intent where
  "ex_intent = \<lparr>rt_ID = ex_id KindDeployment CHR ''1'', rt_EnvironmentID = ex_id KindEnvironment CHR ''1'',
     rt_ServiceID = ex_id KindService CHR ''1'', rt_OperationID = ex_id KindOperation CHR ''1'',
     rt_OperationKind = OperationDeploy, rt_GroupOperationID = [], rt_GroupMemberOrdinal = 0,
     rt_CandidateWorkload = \<lparr>ws_RequestedReference = ''web:1'', ws_LocalImageID = ''sha256:'' @ replicate 64 CHR ''a'',
        ws_ReplicaCount = 1\<rparr>,
     rt_Tag = ''v1'', rt_Strategy = StrategyBlueGreen, rt_Slot = SlotGreen, rt_OnFailure = OnFailureSwitchBack,
     rt_RollbackSourceReleaseID = [], rt_PriorServingReleaseID = ex_id KindDeployment CHR ''2'',
     rt_PriorSuccessfulReleaseID = [], rt_RenderInputID = ex_id KindConfig CHR ''1'',
     rt_RenderInputDigest = replicate 64 CHR ''b'', rt_CreatedAt = \<lparr>instant = second, loc = UTC\<rparr>, rt_Actor = ''op'',
     rt_Workspace = \<lparr>wk_Kind = WorkspacePlatform, wk_TenantID = [], wk_ProjectID = ex_id KindProject CHR ''1'',
        wk_EnvironmentID = ex_id KindEnvironment CHR ''1''\<rparr>,
     rt_OriginatingTaskID = ex_id KindTask CHR ''1''\<rparr>"

theorem valid_intent_executable_witness:
  "id_valid crockford_ulid KindDeployment (failure_hook_target ex_intent)"
proof -
  have a: "trimmed ''v1''" "trimmed ''op''" by code_simp+
  have b: "runes ''v1'' = Some [118, 49]" "runes ''op'' = Some [111, 112]" by code_simp+
  have t: "\<not> contains_any ''v1'' [CHR ''@'', CHR ''/'', CHR 0x5C]" "sha256_hex (replicate 64 CHR ''a'')"
    "sha256_hex (replicate 64 CHR ''b'')" "list_all (\<lambda>c. byte c \<le> 127) ''web:1''" by code_simp+
  have v: "valid_text ''v1''" "valid_text ''op''"
    using a b by (simp_all add: valid_text_def valid_utf8_def is_control_rune_def)
  have seal: "validate_workload_seal (\<lambda>s. CHR '':'' \<in> set s) (rt_CandidateWorkload ex_intent) = Inr ()"
    using t by (simp add: validate_workload_seal_def ex_intent_def has_prefix_def)
  have ne: "KindDeployment \<noteq> []" "KindEnvironment \<noteq> []" "KindService \<noteq> []" "KindOperation \<noteq> []" "KindConfig \<noteq> []"
    "KindTask \<noteq> []" "KindProject \<noteq> []" by (simp_all add: kind_defs)
  have "validate_intent crockford_ulid (\<lambda>s. CHR '':'' \<in> set s) (\<lambda>t. Some 900) ex_intent = Inr ()"
    using seal t v ne
    by (simp add: validate_intent_def validate_intent_strategy_def validate_workspace_def)
      (simp add: ex_intent_def is_zero_def is_utc_def maximum_record_bytes_def)
  from valid_intent_executable[OF this] show ?thesis by simp
qed

end
