(* ===== verification/Ports.thy ===== *)
theory Ports
  imports Text ReleaseModel "HOL-Library.Product_Lexorder"
begin

text \<open>
  The exposed ports of a Service and its stable proxy: the parser of a port declaration
  (\<open>internal/core/serviceports\<close>), the bounded, canonical listener set of a Release
  (\<open>internal/core/release/proxy_ports.go\<close>), the checks of a proxy configuration
  (\<open>internal/common/serviceproxy/configuration.go\<close>, \<open>traffic_switch.go\<close>), and the readiness and proxy
  transition checks that run before a Release is published (\<open>readiness.go\<close>, \<open>proxy_transition.go\<close>).
\<close>

section \<open>Declarations\<close>

type_synonym protocol = string

definition TCP :: protocol where "TCP = ''tcp''"
definition UDP :: protocol where "UDP = ''udp''"

lemmas protocol_defs = TCP_def UDP_def

record port_declaration =
  dc_First :: u16
  dc_Last :: u16
  dc_Protocol :: protocol

text \<open>\<open>strconv.ParseUint(value, 10, 16)\<close> fails above 65535.\<close>

definition parse_port :: "string \<Rightarrow> u16 option" where
  "parse_port value =
     (if length value = 0 \<or> 5 < length value then None
      else if \<not> list_all is_digit value then None
      else if 65535 < decimal value \<or> decimal value = 0 then None
      else Some (of_nat (decimal value)))"

definition parse_declaration :: "string \<Rightarrow> port_declaration res" where
  "parse_declaration raw =
     (case cut CHR ''/'' (trim_space raw) of (ports, protocolText, explicit) \<Rightarrow>
      let proto = (if explicit then protocolText else TCP) in
      if explicit \<and> proto \<noteq> TCP \<and> proto \<noteq> UDP then Inl ValidationFailed
      else case cut CHR ''-'' ports of (firstText, lastText, ranged) \<Rightarrow>
      (case parse_port firstText of
         None \<Rightarrow> Inl ValidationFailed
       | Some first \<Rightarrow>
           if ranged then
             (case parse_port lastText of
                None \<Rightarrow> Inl ValidationFailed
              | Some last' \<Rightarrow>
                  if last' < first then Inl ValidationFailed
                  else Inr \<lparr>dc_First = first, dc_Last = last', dc_Protocol = proto\<rparr>)
           else Inr \<lparr>dc_First = first, dc_Last = first, dc_Protocol = proto\<rparr>))"

section \<open>Ports\<close>

text \<open>A port with its transport; \<open>compareProxyPorts\<close> and \<open>comparePorts\<close> are the same comparison, by number
  and then by the text of the protocol. It makes the ports a linear order.\<close>

datatype proxy_port = ProxyPort (pp_Port: u16) (pp_Protocol: protocol)

text \<open>\<open>cmp.Compare\<close>.\<close>

definition cmp_compare :: "'a :: linorder \<Rightarrow> 'a \<Rightarrow> int" where
  "cmp_compare x y = (if x < y then -1 else if y < x then 1 else 0)"

definition compare_proxy_ports :: "proxy_port \<Rightarrow> proxy_port \<Rightarrow> int" where
  "compare_proxy_ports p q =
     (let by_port = cmp_compare (pp_Port p) (pp_Port q) in
      if by_port \<noteq> 0 then by_port else cmp_compare (pp_Protocol p) (pp_Protocol q))"

definition compare_ports :: "proxy_port \<Rightarrow> proxy_port \<Rightarrow> int" where
  "compare_ports p q =
     (let by_number = cmp_compare (pp_Port p) (pp_Port q) in
      if by_number \<noteq> 0 then by_number else cmp_compare (pp_Protocol p) (pp_Protocol q))"

lemma compare_proxy_ports_sign:
  "compare_proxy_ports p q \<le> 0 \<longleftrightarrow> (pp_Port p, pp_Protocol p) \<le> (pp_Port q, pp_Protocol q)"
  "compare_proxy_ports p q < 0 \<longleftrightarrow> (pp_Port p, pp_Protocol p) < (pp_Port q, pp_Protocol q)"
  by (auto simp: compare_proxy_ports_def cmp_compare_def Let_def)

instantiation proxy_port :: linorder
begin

definition less_eq_proxy_port :: "proxy_port \<Rightarrow> proxy_port \<Rightarrow> bool" where
  "less_eq_proxy_port p q \<longleftrightarrow> compare_proxy_ports p q \<le> 0"

definition less_proxy_port :: "proxy_port \<Rightarrow> proxy_port \<Rightarrow> bool" where
  "less_proxy_port p q \<longleftrightarrow> compare_proxy_ports p q < 0"

instance
proof
  fix p q r :: proxy_port
  note port_order = less_proxy_port_def less_eq_proxy_port_def compare_proxy_ports_sign
  show "p < q \<longleftrightarrow> p \<le> q \<and> \<not> q \<le> p" unfolding port_order by (rule less_le_not_le)
  show "p \<le> p" by (simp add: port_order)
  show "p \<le> q \<Longrightarrow> q \<le> r \<Longrightarrow> p \<le> r" unfolding port_order by (rule order_trans)
  show "p \<le> q \<Longrightarrow> q \<le> p \<Longrightarrow> p = q"
    unfolding port_order by (cases p; cases q) (auto dest: order_antisym)
  show "p \<le> q \<or> q \<le> p" unfolding port_order by (rule linear)
qed

end

lemma less_eq_proxy_port_iff: "p \<le> q \<longleftrightarrow> (pp_Port p, pp_Protocol p) \<le> (pp_Port q, pp_Protocol q)"
  by (simp only: less_eq_proxy_port_def compare_proxy_ports_sign)

lemma less_proxy_port_iff: "p < q \<longleftrightarrow> (pp_Port p, pp_Protocol p) < (pp_Port q, pp_Protocol q)"
  by (simp only: less_proxy_port_def compare_proxy_ports_sign)

lemma compare_ports_less [simp]: "0 \<le> compare_ports p q \<longleftrightarrow> \<not> p < q"
  by (auto simp: less_proxy_port_def compare_proxy_ports_def compare_ports_def)

definition maximum_ports :: nat where "maximum_ports = 32"
definition maximum_upstreams :: nat where "maximum_upstreams = 16"

text \<open>The loops of \<open>ProxyPorts\<close>. The keys of the map \<open>seen\<close> are the elements of \<open>ports\<close>.\<close>

fun add_ports :: "protocol \<Rightarrow> nat list \<Rightarrow> proxy_port list \<Rightarrow> proxy_port list res" where
  "add_ports proto [] ports = Inr ports"
| "add_ports proto (n # ns) ports =
     (let port = ProxyPort (of_nat n) proto in
      if port \<in> set ports then add_ports proto ns ports
      else if length ports = maximum_ports then Inl ValidationFailed
      else add_ports proto ns (ports @ [port]))"

fun collect_ports :: "string list \<Rightarrow> proxy_port list \<Rightarrow> proxy_port list res" where
  "collect_ports [] ports = Inr ports"
| "collect_ports (raw # rest) ports =
     try_res (parse_declaration raw) (\<lambda>d.
     try_res (add_ports (dc_Protocol d) [unat (dc_First d)..<unat (dc_Last d) + 1] ports) (collect_ports rest))"

definition proxy_ports :: "string list \<Rightarrow> proxy_port list res" where
  "proxy_ports exposures =
     try_res (collect_ports exposures []) (\<lambda>ports.
     if length ports = 0 then Inl ValidationFailed else Inr (sort ports))"

definition require_tcp_proxy_port :: "string list \<Rightarrow> unit res" where
  "require_tcp_proxy_port exposures =
     try_res (proxy_ports exposures) (\<lambda>ports.
     if list_ex (\<lambda>p. pp_Protocol p = TCP) ports then Inr () else Inl ValidationFailed)"

section \<open>Proxy configurations\<close>

datatype implementation = NoImplementation | Caddy | Envoy | ImplementationOther string

text \<open>The loop of \<open>ValidatePorts\<close>, with the previous port.\<close>

fun validate_port_list :: "implementation \<Rightarrow> proxy_port option \<Rightarrow> proxy_port list \<Rightarrow> unit res" where
  "validate_port_list impl previous [] = Inr ()"
| "validate_port_list impl previous (port # rest) =
     (if pp_Port port = 0 \<or> pp_Protocol port \<noteq> TCP \<and> pp_Protocol port \<noteq> UDP \<or>
         (case previous of None \<Rightarrow> False | Some p \<Rightarrow> 0 \<le> compare_ports p port)
        then Inl ValidationFailed
      else if impl = Caddy \<and> pp_Protocol port = UDP then Inl ValidationFailed
      else if impl = Envoy \<and> pp_Port port = 9901 \<and> pp_Protocol port = TCP then Inl ValidationFailed
      else validate_port_list impl (Some port) rest)"

definition validate_ports :: "implementation \<Rightarrow> proxy_port list \<Rightarrow> unit res" where
  "validate_ports impl ports =
     (if impl \<noteq> Caddy \<and> impl \<noteq> Envoy then Inl ValidationFailed
      else if length ports = 0 \<or> maximum_ports < length ports then Inl ValidationFailed
      else validate_port_list impl None ports)"

definition validate_traffic_switch_transports :: "proxy_port list \<Rightarrow> unit res" where
  "validate_traffic_switch_transports ports =
     (if list_ex (\<lambda>p. pp_Protocol p = UDP) ports then Inl ValidationFailed else Inr ())"

definition validate_traffic_switch_ports :: "implementation \<Rightarrow> proxy_port list \<Rightarrow> unit res" where
  "validate_traffic_switch_ports impl ports =
     try_res (validate_ports impl ports) (\<lambda>_. validate_traffic_switch_transports ports)"

record proxy_configuration =
  pc_Implementation :: implementation
  pc_ReleaseID :: string
  pc_Generation :: u64
  pc_Ports :: "proxy_port list"
  pc_Upstreams :: "string list"

fun validate_upstreams :: "string option \<Rightarrow> string list \<Rightarrow> unit res" where
  "validate_upstreams previous [] = Inr ()"
| "validate_upstreams previous (name # rest) =
     (if name = [] \<or> 253 < length name \<or>
         contains_any name [CHR ''/'', CHR 0x5C, CHR 0x00, CHR '':'', CHR '' '', CHR 0x09, CHR 0x0A, CHR 0x0D] \<or>
         (case previous of None \<Rightarrow> False | Some p \<Rightarrow> name \<le> p)
      then Inl ValidationFailed else validate_upstreams (Some name) rest)"

definition proxy_configuration_validate :: "ulid_check \<Rightarrow> proxy_configuration \<Rightarrow> unit res" where
  "proxy_configuration_validate u c =
     (if \<not> id_valid u KindDeployment (pc_ReleaseID c) \<or> pc_Generation c = 0 \<or>
         maximum_upstreams < length (pc_Upstreams c)
        then Inl ValidationFailed
      else try_res (validate_ports (pc_Implementation c) (pc_Ports c)) (\<lambda>_.
        validate_upstreams None (pc_Upstreams c)))"

section \<open>Release checks\<close>

definition validate_proxy_forwarding :: "implementation \<Rightarrow> proxy_port list \<Rightarrow> unit res" where
  "validate_proxy_forwarding impl ports = validate_ports impl ports"

record proxy_selection =
  px_Implementation :: implementation
  px_Ports :: "proxy_port list"

definition validate_proxy_selection :: "proxy_selection \<Rightarrow> unit res" where
  "validate_proxy_selection s =
     (if length (px_Ports s) = 0
      then (if px_Implementation s \<noteq> NoImplementation then Inl ValidationFailed else Inr ())
      else validate_proxy_forwarding (px_Implementation s) (px_Ports s))"

definition validate_proxy_transition ::
  "strategy \<Rightarrow> proxy_selection \<Rightarrow> proxy_selection option \<Rightarrow> unit res" where
  "validate_proxy_transition st candidate previous =
     (if st \<noteq> StrategyRecreate \<and> st \<noteq> StrategyBlueGreen \<and> st \<noteq> StrategyRolling then Inl ValidationFailed
      else try_res (validate_proxy_selection candidate) (\<lambda>_.
      if st \<noteq> StrategyRecreate \<and> length (px_Ports candidate) \<noteq> 0 \<and>
         validate_traffic_switch_ports (px_Implementation candidate) (px_Ports candidate) \<noteq> Inr ()
        then Inl ValidationFailed
      else case previous of
             None \<Rightarrow> Inr ()
           | Some p \<Rightarrow>
      if validate_proxy_selection p \<noteq> Inr () then Inl StateConflict
      else if (length (px_Ports candidate) = 0) \<noteq> (length (px_Ports p) = 0) then Inl StateConflict
      else if length (px_Ports candidate) = 0 \<or> st = StrategyRecreate then Inr ()
      else if px_Implementation candidate \<noteq> px_Implementation p then Inl ValidationFailed
      else if px_Ports candidate \<noteq> px_Ports p then Inl ValidationFailed
      else Inr ()))"

definition validate_deployment_readiness :: "strategy \<Rightarrow> u32 \<Rightarrow> bool \<Rightarrow> string list \<Rightarrow> unit res" where
  "validate_deployment_readiness st replicas healthcheck exposures =
     (if replicas = 0 then Inl ValidationFailed
      else if (st = StrategyBlueGreen \<or> st = StrategyRolling) \<and> \<not> healthcheck then Inl ValidationFailed
      else if st = StrategyBlueGreen \<and> replicas \<noteq> 1 then Inl ValidationFailed
      else if st = StrategyRolling \<and> maximum_replicas < replicas then Inl ValidationFailed
      else if (st = StrategyBlueGreen \<or> st = StrategyRolling) \<and> length exposures \<noteq> 0 then
        try_res (proxy_ports exposures) validate_traffic_switch_transports
      else Inr ())"

section \<open>Declarations parse to valid ranges\<close>

lemma unat_of_nat_u16: "n < 65536 \<Longrightarrow> unat (of_nat n :: u16) = n"
  by (simp add: unat_of_nat take_bit_nat_eq_self)

lemma parse_port_Some:
  assumes "parse_port s = Some p"
  shows "unat p = decimal s" "1 \<le> unat p"
proof -
  from assms have "p = of_nat (decimal s)" "decimal s \<noteq> 0" "decimal s \<le> 65535"
    by (auto simp: parse_port_def split: if_splits)
  then show "unat p = decimal s" "1 \<le> unat p" by (simp_all add: unat_of_nat_u16)
qed

lemma parse_declaration_Inr:
  assumes "parse_declaration raw = Inr d"
  shows "1 \<le> unat (dc_First d)" "dc_First d \<le> dc_Last d" "dc_Protocol d = TCP \<or> dc_Protocol d = UDP"
  using assms parse_port_Some(2) by (auto simp: parse_declaration_def Let_def split: prod.splits option.splits if_splits)

section \<open>The listener set\<close>

definition declared_by :: "port_declaration \<Rightarrow> proxy_port set" where
  "declared_by d = {p. dc_First d \<le> pp_Port p \<and> pp_Port p \<le> dc_Last d \<and> pp_Protocol p = dc_Protocol d}"

text \<open>The reference: the set of all declared ports.\<close>

definition declared :: "string list \<Rightarrow> proxy_port set" where
  "declared exposures = (\<Union>raw \<in> set exposures. case parse_declaration raw of Inl _ \<Rightarrow> {} | Inr d \<Rightarrow> declared_by d)"

lemma declared_simps [simp]:
  "declared [] = {}"
  "parse_declaration raw = Inr d \<Longrightarrow> declared (raw # rest) = declared_by d \<union> declared rest"
  by (simp_all add: declared_def)

lemma declared_by_range:
  "set (map (\<lambda>n. ProxyPort (of_nat n) (dc_Protocol d)) [unat (dc_First d)..<unat (dc_Last d) + 1]) = declared_by d"
proof (rule set_eqI)
  fix q
  have small: "unat (w :: u16) < 65536" for w using unsigned_less[of w] by simp
  have "q \<in> declared_by d \<longleftrightarrow>
      (\<exists>n. unat (dc_First d) \<le> n \<and> n \<le> unat (dc_Last d) \<and> q = ProxyPort (of_nat n) (dc_Protocol d))"
  proof
    assume "q \<in> declared_by d"
    then show "\<exists>n. unat (dc_First d) \<le> n \<and> n \<le> unat (dc_Last d) \<and> q = ProxyPort (of_nat n) (dc_Protocol d)"
      by (intro exI[of _ "unat (pp_Port q)"]) (cases q, simp add: declared_by_def word_le_nat_alt)
  next
    assume "\<exists>n. unat (dc_First d) \<le> n \<and> n \<le> unat (dc_Last d) \<and> q = ProxyPort (of_nat n) (dc_Protocol d)"
    then show "q \<in> declared_by d"
      using small[of "dc_Last d"] by (auto simp: declared_by_def word_le_nat_alt unat_of_nat_u16)
  qed
  then show "q \<in> set (map (\<lambda>n. ProxyPort (of_nat n) (dc_Protocol d)) [unat (dc_First d)..<unat (dc_Last d) + 1]) \<longleftrightarrow>
      q \<in> declared_by d" by auto
qed

lemma add_ports_Inr:
  assumes "distinct ports" "length ports \<le> maximum_ports"
  shows "is_ok (add_ports proto ns ports) \<longleftrightarrow> card (set ports \<union> set (map (\<lambda>n. ProxyPort (of_nat n) proto) ns)) \<le> maximum_ports"
    and "add_ports proto ns ports = Inr ports' \<Longrightarrow>
      distinct ports' \<and> length ports' \<le> maximum_ports \<and> set ports' = set ports \<union> set (map (\<lambda>n. ProxyPort (of_nat n) proto) ns)"
  using assms
proof (induction ns arbitrary: ports)
  case Nil
  { case 1
    then show ?case by (simp add: distinct_card)
  next
    case 2
    then show ?case by simp
  }
next
  case (Cons n ns)
  let ?port = "ProxyPort (of_nat n) proto" and ?S = "set (map (\<lambda>n. ProxyPort (of_nat n) proto) ns)"
  { case 1
    show ?case
    proof (cases "?port \<in> set ports")
      case True
      with Cons.IH(1)[OF 1] show ?thesis by (simp add: insert_absorb Let_def)
    next
      case new: False
      show ?thesis
      proof (cases "length ports = maximum_ports")
        case True
        have "Suc (length ports) \<le> card (set ports \<union> insert ?port ?S)"
        proof -
          have "card (insert ?port (set ports)) \<le> card (set ports \<union> insert ?port ?S)" by (rule card_mono) auto
          with new 1(1) show ?thesis by (simp add: distinct_card)
        qed
        with True new show ?thesis by (simp add: Let_def)
      next
        case False
        with new 1 have "distinct (ports @ [?port])" "length (ports @ [?port]) \<le> maximum_ports" by simp_all
        from Cons.IH(1)[OF this] False new show ?thesis by (simp add: Let_def)
      qed
    qed
  next
    case 2
    show ?case
    proof (cases "?port \<in> set ports")
      case True
      with 2 Cons.IH(2)[OF _ 2(2,3)] show ?thesis by (auto simp: Let_def)
    next
      case False
      with 2 have l: "length ports \<noteq> maximum_ports" "add_ports proto ns (ports @ [?port]) = Inr ports'"
        by (auto simp: Let_def split: if_splits)
      with False 2 have "distinct (ports @ [?port])" "length (ports @ [?port]) \<le> maximum_ports" by simp_all
      from Cons.IH(2)[OF l(2) this] show ?thesis by auto
    qed
  }
qed

lemma finite_declared [simp]: "finite (declared exposures)"
proof -
  have "finite (declared_by d)" for d unfolding declared_by_range[symmetric] by simp
  then show ?thesis by (auto simp: declared_def split: sum.split)
qed

lemma collect_ports_Inr:
  assumes "distinct ports" "length ports \<le> maximum_ports"
  shows "is_ok (collect_ports exposures ports) \<longleftrightarrow>
      list_all (\<lambda>raw. is_ok (parse_declaration raw)) exposures \<and> card (set ports \<union> declared exposures) \<le> maximum_ports"
    and "collect_ports exposures ports = Inr ports' \<Longrightarrow>
      distinct ports' \<and> set ports' = set ports \<union> declared exposures"
  using assms
proof (induction exposures arbitrary: ports)
  case Nil
  { case 1
    then show ?case by (simp add: distinct_card)
  next
    case 2
    then show ?case by simp
  }
next
  case (Cons raw rest)
  { case 1
    show ?case
    proof (cases "parse_declaration raw")
      case (Inl e)
      then show ?thesis by simp
    next
      case d: (Inr d)
      let ?add = "add_ports (dc_Protocol d) [unat (dc_First d)..<unat (dc_Last d) + 1] ports"
      note a = add_ports_Inr[OF 1, of "dc_Protocol d" "[unat (dc_First d)..<unat (dc_Last d) + 1]", unfolded declared_by_range]
      show ?thesis
      proof (cases ?add)
        case (Inl e)
        then have "\<not> card (set ports \<union> declared_by d) \<le> maximum_ports" using a(1) by simp
        moreover have "card (set ports \<union> declared_by d) \<le> card (set ports \<union> declared (raw # rest))"
        proof (rule card_mono)
          show "set ports \<union> declared_by d \<subseteq> set ports \<union> declared (raw # rest)" using d by auto
        qed simp
        ultimately show ?thesis using d Inl by simp
      next
        case (Inr ps)
        from a(2)[OF this] have ps: "distinct ps" "length ps \<le> maximum_ports" "set ps = set ports \<union> declared_by d"
          by simp_all
        from Cons.IH(1)[OF ps(1,2)] d Inr ps(3) show ?thesis by (simp add: Un_assoc)
      qed
    qed
  next
    case 2
    from 2(1) obtain d ps where d: "parse_declaration raw = Inr d"
      and ps: "add_ports (dc_Protocol d) [unat (dc_First d)..<unat (dc_Last d) + 1] ports = Inr ps"
      and rest: "collect_ports rest ps = Inr ports'" by auto
    from add_ports_Inr(2)[OF 2(2,3) ps, unfolded declared_by_range]
    have p: "distinct ps" "length ps \<le> maximum_ports" "set ps = set ports \<union> declared_by d" by simp_all
    from Cons.IH(2)[OF rest p(1,2)] d p(3) show ?case by (simp add: Un_assoc)
  }
qed

lemma proxy_ports_Inr:
  "proxy_ports exposures = Inr ports \<longleftrightarrow>
     list_all (\<lambda>raw. is_ok (parse_declaration raw)) exposures \<and> declared exposures \<noteq> {} \<and>
     card (declared exposures) \<le> maximum_ports \<and> ports = sorted_list_of_set (declared exposures)"
proof (cases "collect_ports exposures []")
  case (Inl e)
  then show ?thesis using collect_ports_Inr(1)[of "[]" exposures] by (auto simp: proxy_ports_def)
next
  case (Inr ps)
  from collect_ports_Inr(2)[OF _ _ Inr] have ps: "distinct ps" "set ps = declared exposures" by simp_all
  then have "sort ps = sorted_list_of_set (declared exposures)"
    by (metis sorted_list_of_set_sort_remdups distinct_remdups_id)
  moreover have "length ps = 0 \<longleftrightarrow> declared exposures = {}" using ps(2) by auto
  moreover have "list_all (\<lambda>raw. is_ok (parse_declaration raw)) exposures \<and> card (declared exposures) \<le> maximum_ports"
    using collect_ports_Inr(1)[of "[]" exposures] Inr by simp
  ultimately show ?thesis using Inr by (auto simp: proxy_ports_def)
qed

section \<open>What the checks accept\<close>

definition forwardable :: "implementation \<Rightarrow> proxy_port \<Rightarrow> bool" where
  "forwardable impl p \<longleftrightarrow>
     pp_Port p \<noteq> 0 \<and> (pp_Protocol p = TCP \<or> pp_Protocol p = UDP) \<and>
     \<not> (impl = Caddy \<and> pp_Protocol p = UDP) \<and> \<not> (impl = Envoy \<and> pp_Port p = 9901 \<and> pp_Protocol p = TCP)"

lemma validate_port_list_ok:
  "validate_port_list impl previous ports = Inr () \<longleftrightarrow>
     list_all (forwardable impl) ports \<and> sorted_wrt (<) (case previous of None \<Rightarrow> ports | Some p \<Rightarrow> p # ports)"
proof (induction ports arbitrary: previous)
  case Nil
  then show ?case by (cases previous) simp_all
next
  case (Cons q ports)
  show ?case
    unfolding validate_port_list.simps if_Inl_eq_Inr Cons.IH
    by (cases previous) (auto simp: forwardable_def[of impl q] dest: less_trans)
qed

lemma validate_ports_ok [valid_iff]:
  "validate_ports impl ports = Inr () \<longleftrightarrow>
     (impl = Caddy \<or> impl = Envoy) \<and> ports \<noteq> [] \<and> length ports \<le> maximum_ports \<and>
     list_all (forwardable impl) ports \<and> sorted_wrt (<) ports"
  by (auto simp: validate_ports_def validate_port_list_ok)

lemma validate_traffic_switch_ports_ok [valid_iff]:
  "validate_traffic_switch_ports impl ports = Inr () \<longleftrightarrow>
     validate_ports impl ports = Inr () \<and> list_all (\<lambda>p. pp_Protocol p = TCP) ports"
proof -
  have "list_all (forwardable impl) ports \<Longrightarrow>
      \<not> list_ex (\<lambda>p. pp_Protocol p = UDP) ports \<longleftrightarrow> list_all (\<lambda>p. pp_Protocol p = TCP) ports"
    by (auto simp: list_ex_iff list_all_iff forwardable_def protocol_defs)
  then show ?thesis
    by (auto simp: validate_traffic_switch_ports_def validate_traffic_switch_transports_def try_res_unit validate_ports_ok)
qed

lemma declared_valid:
  assumes "p \<in> declared exposures"
  shows "pp_Port p \<noteq> 0" "pp_Protocol p = TCP \<or> pp_Protocol p = UDP"
proof -
  from assms obtain raw where r: "p \<in> (case parse_declaration raw of Inl _ \<Rightarrow> {} | Inr d \<Rightarrow> declared_by d)"
    by (auto simp: declared_def)
  then obtain d where d: "parse_declaration raw = Inr d" "p \<in> declared_by d"
    by (cases "parse_declaration raw") auto
  note v = parse_declaration_Inr[OF d(1)]
  from v(3) d(2) show "pp_Protocol p = TCP \<or> pp_Protocol p = UDP" by (simp add: declared_by_def)
  from v(1) d(2) show "pp_Port p \<noteq> 0" by (auto simp: declared_by_def word_le_nat_alt)
qed

lemma proxy_ports_valid:
  assumes "proxy_ports exposures = Inr ports" "impl = Caddy \<or> impl = Envoy"
  shows "validate_ports impl ports = Inr () \<longleftrightarrow>
    (if impl = Caddy then \<forall>p \<in> declared exposures. pp_Protocol p = TCP
     else ProxyPort 9901 TCP \<notin> declared exposures)"
proof -
  from assms(1) have p: "declared exposures \<noteq> {}" "card (declared exposures) \<le> maximum_ports"
    and ports: "ports = sorted_list_of_set (declared exposures)" by (simp_all add: proxy_ports_Inr)
  have "list_all (forwardable impl) ports \<longleftrightarrow> (\<forall>p \<in> declared exposures.
      \<not> (impl = Caddy \<and> pp_Protocol p = UDP) \<and> \<not> (impl = Envoy \<and> pp_Port p = 9901 \<and> pp_Protocol p = TCP))"
    using declared_valid by (auto simp: ports list_all_iff forwardable_def)
  also have "\<dots> \<longleftrightarrow> (if impl = Caddy then \<forall>p \<in> declared exposures. pp_Protocol p = TCP
     else ProxyPort 9901 TCP \<notin> declared exposures)"
    using declared_valid(2) assms(2) by (auto simp: protocol_defs) (metis proxy_port.collapse)
  finally show ?thesis
    using assms(2) p by (auto simp: validate_ports_ok ports)
qed

section \<open>Properties\<close>

text \<open>C14. \<open>ProxyPorts\<close> computes the declared set: it succeeds exactly when every declaration parses and
  between 1 and 32 distinct ports are declared, and then returns them sorted. Overlapping ranges,
  duplicates and the order of the declarations do not matter.\<close>

theorem proxy_ports_canonical:
  "proxy_ports exposures = Inr ports \<longleftrightarrow>
     list_all (\<lambda>raw. is_ok (parse_declaration raw)) exposures \<and> declared exposures \<noteq> {} \<and>
     card (declared exposures) \<le> 32 \<and> ports = sorted_list_of_set (declared exposures)"
  unfolding proxy_ports_Inr by (simp add: maximum_ports_def)

text \<open>What the readiness check admits can be published: for a Service whose deployment is ready and
  whose listeners the chosen implementation can forward, the proxy transition of a first deployment
  is accepted. Caddy forwards exactly TCP listener sets, Envoy every set without its admin port.\<close>

theorem readiness_admits_first_transition:
  assumes "validate_deployment_readiness st replicas healthcheck exposures = Inr ()"
    and "st = StrategyRecreate \<or> st = StrategyBlueGreen \<or> st = StrategyRolling"
    and "proxy_ports exposures = Inr ports" "impl = Caddy \<or> impl = Envoy"
  shows "validate_proxy_transition st \<lparr>px_Implementation = impl, px_Ports = ports\<rparr> None = Inr () \<longleftrightarrow>
    (if impl = Caddy then \<forall>p \<in> declared exposures. pp_Protocol p = TCP
     else ProxyPort 9901 TCP \<notin> declared exposures)"
proof -
  note v = proxy_ports_valid[OF assms(3,4)]
  from assms(3) have ne: "ports \<noteq> []" and e: "exposures \<noteq> []" by (auto simp: proxy_ports_Inr)
  have switch: "validate_traffic_switch_ports impl ports = Inr () \<longleftrightarrow> validate_ports impl ports = Inr ()"
    if "st \<noteq> StrategyRecreate"
  proof -
    from that assms(1,2,3) e have "\<not> list_ex (\<lambda>p. pp_Protocol p = UDP) ports"
      by (auto simp: validate_deployment_readiness_def validate_traffic_switch_transports_def split: if_splits)
    moreover have "list_all (\<lambda>p. pp_Protocol p = TCP \<or> pp_Protocol p = UDP) ports"
      using declared_valid(2) assms(3) by (auto simp: proxy_ports_Inr list_all_iff)
    ultimately show ?thesis by (auto simp: validate_traffic_switch_ports_ok list_all_iff list_ex_iff)
  qed
  show ?thesis
    using assms(2) ne switch unfolding v[symmetric]
    by (auto simp: validate_proxy_transition_def validate_proxy_selection_def validate_proxy_forwarding_def try_res_unit)
qed

theorem readiness_admits_first_transition_witness:
  "validate_proxy_transition StrategyBlueGreen \<lparr>px_Implementation = Envoy, px_Ports = [ProxyPort 80 TCP]\<rparr> None = Inr ()"
proof -
  have d: "parse_declaration ''80'' = Inr \<lparr>dc_First = 80, dc_Last = 80, dc_Protocol = TCP\<rparr>"
  proof -
    have "trimmed ''80''" by code_simp
    moreover have "parse_port ''80'' = Some 80"
      by (simp add: parse_port_def decimal_def is_digit_def byte_def)
    ultimately show ?thesis by (simp add: parse_declaration_def trim_space_trimmed[THEN iffD2] Let_def)
  qed
  have s: "declared [''80''] = {ProxyPort 80 TCP}"
    by (auto simp: declared_def d declared_by_def) (metis proxy_port.collapse order_antisym)
  have p: "proxy_ports [''80''] = Inr [ProxyPort 80 TCP]" using d by (simp add: proxy_ports_Inr s maximum_ports_def)
  have "validate_deployment_readiness StrategyBlueGreen 1 True [''80''] = Inr ()"
    by (simp add: validate_deployment_readiness_def p validate_traffic_switch_transports_def protocol_defs)
  from readiness_admits_first_transition[OF this _ p] show ?thesis by (simp add: s)
qed

text \<open>A traffic switch keeps the stable listeners: a blue-green or rolling transition that is accepted
  after a predecessor with listeners has the same implementation and exactly the same ports, all
  TCP, sorted and at most 32; and no accepted transition adds or removes the proxy.\<close>

theorem traffic_switch_keeps_listeners:
  assumes "validate_proxy_transition st candidate (Some previous) = Inr ()"
  shows "(px_Ports candidate = [] \<longleftrightarrow> px_Ports previous = []) \<and>
    (st \<noteq> StrategyRecreate \<and> px_Ports candidate \<noteq> [] \<longrightarrow>
       px_Implementation candidate = px_Implementation previous \<and> px_Ports candidate = px_Ports previous \<and>
       list_all (\<lambda>p. pp_Protocol p = TCP) (px_Ports candidate) \<and> sorted_wrt (<) (px_Ports candidate) \<and>
       length (px_Ports candidate) \<le> 32)"
proof -
  note a = assms[unfolded validate_proxy_transition_def if_Inl_eq_Inr try_res_unit option.case]
  from a have
    switch: "\<not> (st \<noteq> StrategyRecreate \<and> length (px_Ports candidate) \<noteq> 0 \<and>
      validate_traffic_switch_ports (px_Implementation candidate) (px_Ports candidate) \<noteq> Inr ())"
    and proxied: "(length (px_Ports candidate) = 0) = (length (px_Ports previous) = 0)"
    and same: "length (px_Ports candidate) = 0 \<or> st = StrategyRecreate \<or>
      px_Implementation candidate = px_Implementation previous \<and> px_Ports candidate = px_Ports previous"
    by - (blast, blast, metis Inl_Inr_False)
  from switch have "st \<noteq> StrategyRecreate \<and> px_Ports candidate \<noteq> [] \<longrightarrow>
      list_all (\<lambda>p. pp_Protocol p = TCP) (px_Ports candidate) \<and> sorted_wrt (<) (px_Ports candidate) \<and>
      length (px_Ports candidate) \<le> 32"
    by (simp add: validate_traffic_switch_ports_ok validate_ports_ok maximum_ports_def) blast
  with proxied same show ?thesis by auto
qed

theorem traffic_switch_keeps_listeners_witness:
  "list_all (\<lambda>p. pp_Protocol p = TCP) [ProxyPort 80 TCP, ProxyPort 443 TCP]"
proof -
  let ?s = "\<lparr>px_Implementation = Caddy, px_Ports = [ProxyPort 80 TCP, ProxyPort 443 TCP]\<rparr>"
  have "ProxyPort 80 TCP < ProxyPort 443 TCP" by (simp add: less_proxy_port_iff)
  then have "validate_ports Caddy [ProxyPort 80 TCP, ProxyPort 443 TCP] = Inr ()"
    by (simp add: validate_ports_ok forwardable_def maximum_ports_def protocol_defs)
  then have "validate_proxy_transition StrategyRolling ?s (Some ?s) = Inr ()"
    by (simp add: validate_proxy_transition_def validate_proxy_selection_def validate_proxy_forwarding_def
        validate_traffic_switch_ports_ok)
  from traffic_switch_keeps_listeners[OF this] show ?thesis by simp
qed

end
