(* ===== verification/ReleaseGroup.thy ===== *)
theory ReleaseGroup
  imports ReleaseModel WorkTransitions
begin

text \<open>
  Release Groups (\<open>internal/core/release/group_execution.go\<close>, \<open>group_work.go\<close>): the executor that owns
  the declared order of the members and their reverse compensation, and the Controller decision that
  derives the next bounded action from the members' work items, replaying the executor each time.
\<close>

section \<open>Members and progress\<close>

record group_member =
  gm_Ordinal :: u32
  gm_ServiceID :: string
  gm_ReleaseID :: string

record group_manifest =
  mf_OperationID :: string
  mf_ReleaseGroupID :: string
  mf_EnvironmentID :: string
  mf_FailurePolicy :: on_failure
  mf_Members :: "group_member list"
  mf_ConfiguredTimeoutSeconds :: int
  mf_ComputedBudgetSeconds :: int

datatype member_outcome =
    MemberPending | MemberServing | MemberCompleted | MemberFailed | MemberCompensated
  | MemberRecoveryRequired | MemberOutcomeOther string

record member_result =
  mr_Ordinal :: u32
  mr_ServiceID :: string
  mr_ReleaseID :: string
  mr_Outcome :: member_outcome
  mr_FailureCode :: string
  mr_FailureDetail :: string
  mr_ServingReleaseID :: string
  mr_CompensationReleaseID :: string

record group_progress =
  gp_OperationID :: string
  gp_AttemptID :: string
  gp_NextMemberOrdinal :: u32
  gp_Results :: "member_result list"
  gp_Compensating :: bool
  gp_NextCompensationOrdinal :: u32
  gp_UpdatedAt :: gotime

text \<open>The loop of \<open>ValidateGroupManifest\<close>; the maps \<open>services\<close> and \<open>releases\<close> are lists of keys.\<close>

fun validate_members :: "ulid_check \<Rightarrow> nat \<Rightarrow> string list \<Rightarrow> string list \<Rightarrow> group_member list \<Rightarrow> unit res" where
  "validate_members u index services releases [] = Inr ()"
| "validate_members u index services releases (m # ms) =
     (if gm_Ordinal m \<noteq> of_nat (index + 1) \<or> \<not> id_valid u KindService (gm_ServiceID m) \<or>
         \<not> id_valid u KindDeployment (gm_ReleaseID m)
        then Inl ValidationFailed
      else if gm_ServiceID m \<in> set services then Inl ValidationFailed
      else if gm_ReleaseID m \<in> set releases then Inl ValidationFailed
      else validate_members u (index + 1) (gm_ServiceID m # services) (gm_ReleaseID m # releases) ms)"

definition validate_group_manifest :: "ulid_check \<Rightarrow> group_manifest \<Rightarrow> unit res" where
  "validate_group_manifest u m =
     (if \<not> id_valid u KindOperation (mf_OperationID m) \<or> \<not> id_valid u KindReleaseGroup (mf_ReleaseGroupID m) \<or>
         \<not> id_valid u KindEnvironment (mf_EnvironmentID m) \<or> length (mf_Members m) < minimum_group_members \<or>
         maximum_group_members < length (mf_Members m) \<or> mf_ConfiguredTimeoutSeconds m \<le> 0 \<or>
         mf_ComputedBudgetSeconds m \<le> 0 \<or> mf_ConfiguredTimeoutSeconds m < mf_ComputedBudgetSeconds m
        then Inl ValidationFailed
      else if mf_FailurePolicy m \<noteq> OnFailureSwitchBack \<and> mf_FailurePolicy m \<noteq> OnFailureLeaveActive
        then Inl ValidationFailed
      else validate_members u 0 [] [] (mf_Members m))"

section \<open>The executor\<close>

text \<open>A \<open>*GroupExecutor\<close> is nil (\<open>None\<close>) or holds its manifest.\<close>

type_synonym group_executor = "group_manifest option"

definition new_group_executor :: "ulid_check \<Rightarrow> group_manifest \<Rightarrow> group_executor res" where
  "new_group_executor u m = try_res (validate_group_manifest u m) (\<lambda>_. Inr (Some m))"

definition begin_group :: "ulid_check \<Rightarrow> group_executor \<Rightarrow> string \<Rightarrow> gotime \<Rightarrow> group_progress res" where
  "begin_group u ex attempt_id now =
     (case ex of
        None \<Rightarrow> Inl ValidationFailed
      | Some m \<Rightarrow>
          if \<not> id_valid u KindTask attempt_id \<or> is_zero now \<or> \<not> is_utc now then Inl ValidationFailed
          else Inr \<lparr>gp_OperationID = mf_OperationID m, gp_AttemptID = attempt_id, gp_NextMemberOrdinal = 1,
                    gp_Results = [], gp_Compensating = False, gp_NextCompensationOrdinal = 0,
                    gp_UpdatedAt = now\<rparr>)"

definition validate_progress :: "ulid_check \<Rightarrow> group_executor \<Rightarrow> group_progress \<Rightarrow> group_manifest res" where
  "validate_progress u ex p =
     (case ex of
        None \<Rightarrow> Inl ValidationFailed
      | Some m \<Rightarrow>
          if gp_OperationID p \<noteq> mf_OperationID m \<or> \<not> id_valid u KindTask (gp_AttemptID p) \<or>
             is_zero (gp_UpdatedAt p) \<or> \<not> is_utc (gp_UpdatedAt p) \<or>
             length (mf_Members m) < length (gp_Results p)
          then Inl ValidationFailed else Inr m)"

definition same_member :: "group_member \<Rightarrow> member_result \<Rightarrow> bool" where
  "same_member m r \<longleftrightarrow>
     gm_Ordinal m = mr_Ordinal r \<and> gm_ServiceID m = mr_ServiceID r \<and> gm_ReleaseID m = mr_ReleaseID r"

text \<open>\<open>Members[ordinal-1]\<close>, with the subtraction in \<open>uint32\<close>; out of range it panics.\<close>

definition member_at :: "group_manifest \<Rightarrow> u32 \<Rightarrow> group_member res" where
  "member_at m ordinal =
     (if unat (ordinal - 1) < length (mf_Members m) then Inr (mf_Members m ! unat (ordinal - 1)) else Inl Panic)"

definition record_serving ::
  "ulid_check \<Rightarrow> group_executor \<Rightarrow> group_progress \<Rightarrow> member_result \<Rightarrow> gotime \<Rightarrow> group_progress res" where
  "record_serving u ex p r now =
     try_res (validate_progress u ex p) (\<lambda>m.
     if gp_Compensating p \<or> mr_Ordinal r \<noteq> gp_NextMemberOrdinal p \<or> mr_Outcome r \<noteq> MemberServing \<or>
        length (mf_Members m) < unat (mr_Ordinal r)
       then Inl StateConflict
     else try_res (member_at m (mr_Ordinal r)) (\<lambda>member.
     if \<not> same_member member r then Inl StateConflict
     else Inr (p\<lparr>gp_Results := gp_Results p @ [r], gp_NextMemberOrdinal := gp_NextMemberOrdinal p + 1,
                 gp_UpdatedAt := now\<rparr>)))"

definition record_failure ::
  "ulid_check \<Rightarrow> group_executor \<Rightarrow> group_progress \<Rightarrow> member_result \<Rightarrow> gotime \<Rightarrow> group_progress res" where
  "record_failure u ex p r now =
     try_res (validate_progress u ex p) (\<lambda>m.
     if gp_Compensating p \<or> mr_Ordinal r \<noteq> gp_NextMemberOrdinal p \<or> mr_Outcome r \<noteq> MemberFailed \<or>
        mr_FailureCode r = []
       then Inl StateConflict
     else try_res (member_at m (mr_Ordinal r)) (\<lambda>member.
     if \<not> same_member member r then Inl StateConflict
     else (let p1 = p\<lparr>gp_Results := gp_Results p @ [r], gp_NextMemberOrdinal := 0\<rparr>;
               p2 = (if mf_FailurePolicy m = OnFailureSwitchBack \<and> 1 < mr_Ordinal r
                     then p1\<lparr>gp_Compensating := True, gp_NextCompensationOrdinal := mr_Ordinal r - 1\<rparr> else p1)
           in Inr (p2\<lparr>gp_UpdatedAt := now\<rparr>))))"

text \<open>The index of the first result with the given ordinal.\<close>

fun result_index :: "u32 \<Rightarrow> member_result list \<Rightarrow> nat option" where
  "result_index ordinal [] = None"
| "result_index ordinal (r # rs) =
     (if mr_Ordinal r = ordinal then Some 0 else map_option Suc (result_index ordinal rs))"

definition record_compensation ::
  "ulid_check \<Rightarrow> group_executor \<Rightarrow> group_progress \<Rightarrow> member_result \<Rightarrow> gotime \<Rightarrow> group_progress res" where
  "record_compensation u ex p r now =
     try_res (validate_progress u ex p) (\<lambda>m.
     (let ordinal = gp_NextCompensationOrdinal p in
      if \<not> gp_Compensating p \<or> ordinal = 0 \<or> mr_Ordinal r \<noteq> ordinal \<or>
         mr_Outcome r \<noteq> MemberCompensated \<and> mr_Outcome r \<noteq> MemberRecoveryRequired
        then Inl StateConflict
      else try_res (member_at m ordinal) (\<lambda>member.
      if \<not> same_member member r then Inl StateConflict
      else case result_index ordinal (gp_Results p) of
             None \<Rightarrow> Inl InternalError
           | Some index \<Rightarrow>
               (let p1 = p\<lparr>gp_Results := (gp_Results p)[index := r]\<rparr>;
                    p2 = (if mr_Outcome r = MemberRecoveryRequired \<or> ordinal = 1
                          then p1\<lparr>gp_Compensating := False, gp_NextCompensationOrdinal := 0\<rparr>
                          else p1\<lparr>gp_NextCompensationOrdinal := ordinal - 1\<rparr>)
                in Inr (p2\<lparr>gp_UpdatedAt := now\<rparr>)))))"

text \<open>\<open>Complete\<close> writes the results through the slice of its argument: the loop returns the array as the
  caller sees it afterwards, and whether every member was serving.\<close>

fun complete_results :: "member_result list \<Rightarrow> member_result list \<times> bool" where
  "complete_results [] = ([], True)"
| "complete_results (r # rs) =
     (if mr_Outcome r \<noteq> MemberServing then (r # rs, False)
      else case complete_results rs of (rs', ok) \<Rightarrow> (r\<lparr>mr_Outcome := MemberCompleted\<rparr> # rs', ok))"

definition complete_group ::
  "ulid_check \<Rightarrow> group_executor \<Rightarrow> group_progress \<Rightarrow> gotime \<Rightarrow> member_result list \<times> group_progress res" where
  "complete_group u ex p now =
     (case validate_progress u ex p of
        Inl e \<Rightarrow> (gp_Results p, Inl e)
      | Inr m \<Rightarrow>
          if gp_Compensating p \<or> gp_NextMemberOrdinal p \<noteq> of_nat (length (mf_Members m) + 1) \<or>
             length (gp_Results p) \<noteq> length (mf_Members m)
          then (gp_Results p, Inl StateConflict)
          else case complete_results (gp_Results p) of (rs, ok) \<Rightarrow>
            (rs, if ok then Inr (p\<lparr>gp_Results := rs, gp_NextMemberOrdinal := 0, gp_UpdatedAt := now\<rparr>)
                 else Inl StateConflict))"

section \<open>The work of a group\<close>

record group_work_member =
  gw_Member :: group_member
  gw_ForwardID :: string
  gw_RestoreID :: string

record group_work_manifest =
  gwm_Manifest :: group_manifest
  gwm_TaskID :: string
  gwm_Members :: "group_work_member list"

datatype group_work_action = GroupWorkWait | GroupWorkForward | GroupWorkRestore | GroupWorkSkip | GroupWorkFinish

record group_decision =
  gd_Action :: group_work_action
  gd_WorkID :: string
  gd_Outcome :: outcome
  gd_Reason :: string
  gd_Reads :: "string list"
  gd_SourceWorkID :: string
  gd_FailureWorkID :: string

fun validate_work_members ::
  "ulid_check \<Rightarrow> group_member list \<Rightarrow> string list \<Rightarrow> group_work_member list \<Rightarrow> unit res" where
  "validate_work_members u (m # ms) seen (w # ws) =
     (if gw_Member w \<noteq> m \<or> \<not> id_valid u KindWorkItem (gw_ForwardID w) \<or>
         \<not> id_valid u KindWorkItem (gw_RestoreID w) \<or> gw_ForwardID w = gw_RestoreID w \<or>
         gw_ForwardID w \<in> set seen \<or> gw_RestoreID w \<in> set seen
      then Inl ValidationFailed
      else validate_work_members u ms (gw_ForwardID w # gw_RestoreID w # seen) ws)"
| "validate_work_members u [] seen ws = Inr ()"
| "validate_work_members u ms seen [] = Inr ()"

definition validate_group_work :: "ulid_check \<Rightarrow> group_work_manifest \<Rightarrow> unit res" where
  "validate_group_work u g =
     try_res (validate_group_manifest u (gwm_Manifest g)) (\<lambda>_.
     if \<not> id_valid u KindTask (gwm_TaskID g) \<or> length (gwm_Members g) \<noteq> length (mf_Members (gwm_Manifest g))
       then Inl ValidationFailed
     else validate_work_members u (mf_Members (gwm_Manifest g)) [] (gwm_Members g))"

text \<open>The reasons a decision shows to the operator.\<close>

definition reason_forward :: string where "reason_forward = ''Previous declared members completed''"
definition reason_wait :: string where
  "reason_wait = ''Waiting for the current member and its effects to settle''"
definition reason_earlier_failed :: string where "reason_earlier_failed = ''An earlier declared member failed''"
definition reason_restore :: string where
  "reason_restore = ''Restore the earlier serving member in reverse order''"
definition reason_restore_wait :: string where
  "reason_restore_wait = ''Waiting for captured restoration and its effects to settle''"
definition reason_recovery :: string where
  "reason_recovery = ''Restoration failed; preserve remaining captured members for operator recovery''"
definition reason_no_restore :: string where "reason_no_restore = ''No restoration is required for this member''"
definition reason_finish :: string where "reason_finish = ''All required member effects are settled''"
definition reason_stopped_before :: string where
  "reason_stopped_before = ''The Release Group was stopped before this member''"
definition reason_stopped_restore :: string where
  "reason_stopped_restore = ''Stopped work cannot obtain a new restoration grant''"
definition reason_stopped :: string where "reason_stopped = ''Stopped Release Group effects are settled''"

definition decision :: "string list \<Rightarrow> group_work_action \<Rightarrow> string \<Rightarrow> outcome \<Rightarrow> string \<Rightarrow> group_decision" where
  "decision reads a work_id out reason =
     \<lparr>gd_Action = a, gd_WorkID = work_id, gd_Outcome = out, gd_Reason = reason, gd_Reads = reads,
      gd_SourceWorkID = [], gd_FailureWorkID = []\<rparr>"

text \<open>The snapshot as a map from ids: an absent id reads the zero Item.\<close>

definition zero_item :: item where
  "zero_item = \<lparr>it_ID = [], it_TaskID = [], it_Operation = OperationOther [], it_TargetID = [], it_TargetName = [],
     it_Placement = \<lparr>pl_Executor = ExecutorOther [], pl_HostID = []\<rparr>, it_Dependencies = [], it_Claims = [],
     it_Input = None, it_Phase = WorkPhaseOther [], it_Wait = None, it_AttemptNumber = 0, it_ActiveAttemptID = [],
     it_Outcome = NoOutcome, it_FirstFailure = None, it_FirstFailureAttempt = 0, it_Result = None,
     it_CleanupResult = None, it_Cleanup = CleanupOther [], it_ForwardRevoked = False,
     it_CreatedAt = zero_time, it_UpdatedAt = zero_time, it_Deadline = zero_time\<rparr>"

fun item_of :: "item list \<Rightarrow> string \<Rightarrow> item" where
  "item_of [] k = zero_item"
| "item_of (it # its) k = (if it_ID it = k then it else item_of its k)"

fun check_snapshot :: "ulid_check \<Rightarrow> string \<Rightarrow> gotime \<Rightarrow> string list \<Rightarrow> item list \<Rightarrow> unit res" where
  "check_snapshot u task at seen [] = Inr ()"
| "check_snapshot u task at seen (it # its) =
     (if \<not> is_ok (item_validate u it) \<or> it_TaskID it \<noteq> task \<or> it_ID it \<in> set seen \<or> before at (it_UpdatedAt it)
      then Inl ValidationFailed else check_snapshot u task at (it_ID it # seen) its)"

definition member_bound :: "item list \<Rightarrow> group_work_member \<Rightarrow> bool" where
  "member_bound items w \<longleftrightarrow>
     (let fwd = item_of items (gw_ForwardID w); rst = item_of items (gw_RestoreID w) in
      gw_ForwardID w \<in> it_ID ` set items \<and> gw_RestoreID w \<in> it_ID ` set items \<and>
      it_TargetID fwd = gm_ServiceID (gw_Member w) \<and> it_TargetID rst = gm_ServiceID (gw_Member w) \<and>
      it_Operation fwd = OpRelease \<and> it_Operation rst = OpReleaseRestoration \<and>
      it_Placement fwd = it_Placement rst \<and> pl_Executor (it_Placement fwd) = AgentExecutor)"

text \<open>An item that never obtained executable input or an attempt.\<close>

definition untouched :: "item \<Rightarrow> bool" where
  "untouched it \<longleftrightarrow>
     it_Input it = None \<and> it_AttemptNumber it = 0 \<and> it_ActiveAttemptID it = [] \<and> \<not> it_ForwardRevoked it"

definition skip_group_work :: "item \<Rightarrow> outcome \<Rightarrow> string \<Rightarrow> string list \<Rightarrow> group_decision res" where
  "skip_group_work it out reason reads =
     (if it_AttemptNumber it \<noteq> 0 \<or> it_ActiveAttemptID it \<noteq> [] \<or> it_Input it \<noteq> None \<or> it_Cleanup it \<noteq> CleanupNone
      then Inl StateConflict else Inr (decision reads GroupWorkSkip (it_ID it) out reason))"

text \<open>The loop of \<open>finishStoppedGroup\<close>, at the given index of the members.\<close>

fun finish_stopped_group ::
  "item list \<Rightarrow> nat \<Rightarrow> outcome \<Rightarrow> string list \<Rightarrow> nat \<Rightarrow> group_work_member list \<Rightarrow> group_decision res" where
  "finish_stopped_group items failed out reads index [] = Inr (decision reads GroupWorkFinish [] out reason_stopped)"
| "finish_stopped_group items failed out reads index (w # ws) =
     (if failed < index \<and> it_Phase (item_of items (gw_ForwardID w)) \<noteq> Settled
        then skip_group_work (item_of items (gw_ForwardID w)) out reason_stopped_before reads
      else if it_Phase (item_of items (gw_RestoreID w)) \<noteq> Settled
        then skip_group_work (item_of items (gw_RestoreID w)) out reason_stopped_restore reads
      else finish_stopped_group items failed out reads (index + 1) ws)"

definition serving_result :: "group_member \<Rightarrow> member_result" where
  "serving_result m =
     \<lparr>mr_Ordinal = gm_Ordinal m, mr_ServiceID = gm_ServiceID m, mr_ReleaseID = gm_ReleaseID m,
      mr_Outcome = MemberServing, mr_FailureCode = [], mr_FailureDetail = [],
      mr_ServingReleaseID = gm_ReleaseID m, mr_CompensationReleaseID = []\<rparr>"

definition failed_result :: "group_member \<Rightarrow> member_result" where
  "failed_result m =
     \<lparr>mr_Ordinal = gm_Ordinal m, mr_ServiceID = gm_ServiceID m, mr_ReleaseID = gm_ReleaseID m,
      mr_Outcome = MemberFailed, mr_FailureCode = ''release.member_failed'', mr_FailureDetail = [],
      mr_ServingReleaseID = [], mr_CompensationReleaseID = []\<rparr>"

definition restored_result :: "group_member \<Rightarrow> member_outcome \<Rightarrow> member_result" where
  "restored_result m out =
     \<lparr>mr_Ordinal = gm_Ordinal m, mr_ServiceID = gm_ServiceID m, mr_ReleaseID = gm_ReleaseID m,
      mr_Outcome = out, mr_FailureCode = [], mr_FailureDetail = [],
      mr_ServingReleaseID = [], mr_CompensationReleaseID = []\<rparr>"

text \<open>
  The forward loop: it returns a decision (\<open>Inl\<close>), or the index of the failed member, if any, and the
  progress of the executor.
\<close>

fun scan_members ::
  "ulid_check \<Rightarrow> group_executor \<Rightarrow> group_work_manifest \<Rightarrow> item list \<Rightarrow> gotime \<Rightarrow> string list \<Rightarrow> nat \<Rightarrow>
   group_progress \<Rightarrow> group_work_member list \<Rightarrow> (group_decision + nat option \<times> group_progress) res" where
  "scan_members u ex g items at reads index p [] = Inr (Inr (None, p))"
| "scan_members u ex g items at reads index p (w # ws) =
     (let it = item_of items (gw_ForwardID w) in
      if it_Phase it \<noteq> Settled then
        Inr (Inl (if untouched it then decision reads GroupWorkForward (it_ID it) NoOutcome reason_forward
                  else decision reads GroupWorkWait (it_ID it) NoOutcome reason_wait))
      else if it_Outcome it \<noteq> Succeeded then
        (if it_Outcome it \<noteq> Failed
         then try_res (finish_stopped_group items index (it_Outcome it) reads 0 (gwm_Members g)) (\<lambda>d. Inr (Inl d))
         else try_res (record_failure u ex p (failed_result (gw_Member w)) at) (\<lambda>p'. Inr (Inr (Some index, p'))))
      else try_res (record_serving u ex p (serving_result (gw_Member w)) at)
             (\<lambda>p'. scan_members u ex g items at reads (index + 1) p' ws))"

text \<open>The later members after a failure: \<open>None\<close> lets the decision go on.\<close>

fun check_later :: "item list \<Rightarrow> string list \<Rightarrow> group_work_member list \<Rightarrow> group_decision option res" where
  "check_later items reads [] = Inr None"
| "check_later items reads (w # ws) =
     (let it = item_of items (gw_ForwardID w) in
      if it_Phase it \<noteq> Settled then try_res (skip_group_work it Failed reason_earlier_failed reads) (\<lambda>d. Inr (Some d))
      else if it_Outcome it = Succeeded \<or> it_AttemptNumber it \<noteq> 0 then Inl ValidationFailed
      else check_later items reads ws)"

text \<open>Indexing the work members; out of range, or with no failed member, it panics.\<close>

definition work_at :: "group_work_manifest \<Rightarrow> nat \<Rightarrow> group_work_member res" where
  "work_at g k = (if k < length (gwm_Members g) then Inr (gwm_Members g ! k) else Inl Panic)"

definition failure_work :: "group_work_manifest \<Rightarrow> nat option \<Rightarrow> string res" where
  "failure_work g failed =
     (case failed of None \<Rightarrow> Inl Panic | Some k \<Rightarrow> try_res (work_at g k) (\<lambda>w. Inr (gw_ForwardID w)))"

definition restore_outcome :: "item \<Rightarrow> member_outcome" where
  "restore_outcome it =
     (if it_Outcome it \<noteq> Succeeded \<and> (it_Cleanup it \<noteq> CleanupComplete \<or> it_CleanupResult it = None)
      then MemberRecoveryRequired else MemberCompensated)"

definition select_restore :: "item \<Rightarrow> string list \<Rightarrow> group_work_member \<Rightarrow> string \<Rightarrow> group_decision" where
  "select_restore it reads w failure =
     (if untouched it then decision reads GroupWorkRestore (it_ID it) NoOutcome reason_restore
      else decision reads GroupWorkWait (it_ID it) NoOutcome reason_restore_wait)
     \<lparr>gd_SourceWorkID := gw_ForwardID w, gd_FailureWorkID := failure\<rparr>"

lemma record_compensation_next:
  "record_compensation u ex p r now = Inr p' \<Longrightarrow>
     unat (gp_NextCompensationOrdinal p') < unat (gp_NextCompensationOrdinal p)"
  by (auto simp: record_compensation_def Let_def unat_minus_one unat_gt_0 split: if_splits option.splits)

function compensate ::
  "ulid_check \<Rightarrow> group_executor \<Rightarrow> group_work_manifest \<Rightarrow> item list \<Rightarrow> gotime \<Rightarrow> string list \<Rightarrow> nat option \<Rightarrow>
   group_progress \<Rightarrow> group_decision option res" where
  "compensate u ex g items at reads failed p =
     (if \<not> gp_Compensating p then Inr None
      else if gp_NextCompensationOrdinal p = 0 then Inl Panic
      else case work_at g (unat (gp_NextCompensationOrdinal p) - 1) of
        Inl e \<Rightarrow> Inl e
      | Inr w \<Rightarrow>
        (let it = item_of items (gw_RestoreID w) in
         if it_Phase it \<noteq> Settled
           then try_res (failure_work g failed) (\<lambda>failure. Inr (Some (select_restore it reads w failure)))
         else case record_compensation u ex p (restored_result (gw_Member w) (restore_outcome it)) at of
           Inl e \<Rightarrow> Inl e
         | Inr p' \<Rightarrow>
             if restore_outcome it = MemberRecoveryRequired
             then Inr (Some (decision reads GroupWorkWait (it_ID it) Failed reason_recovery))
             else compensate u ex g items at reads failed p'))"
  by pat_completeness auto
termination
  by (relation "measure (\<lambda>(u, ex, g, items, at, reads, failed, p). unat (gp_NextCompensationOrdinal p))")
     (auto dest: record_compensation_next)

declare compensate.simps [simp del]

fun close_group :: "item list \<Rightarrow> string list \<Rightarrow> outcome \<Rightarrow> group_work_member list \<Rightarrow> group_decision res" where
  "close_group items reads out [] = Inr (decision reads GroupWorkFinish [] out reason_finish)"
| "close_group items reads out (w # ws) =
     (let it = item_of items (gw_RestoreID w) in
      if it_Phase it \<noteq> Settled then skip_group_work it Succeeded reason_no_restore reads
      else close_group items reads out ws)"

definition decide_group_work :: "ulid_check \<Rightarrow> group_work_manifest \<Rightarrow> item list \<Rightarrow> gotime \<Rightarrow> group_decision res" where
  "decide_group_work u g items at =
     try_res (validate_group_work u g) (\<lambda>_.
     if is_zero at \<or> \<not> is_utc at \<or> length items \<noteq> 2 * length (gwm_Members g) then Inl ValidationFailed
     else try_res (check_snapshot u (gwm_TaskID g) at [] items) (\<lambda>_.
     if \<not> list_all (member_bound items) (gwm_Members g) then Inl ValidationFailed
     else try_res (new_group_executor u (gwm_Manifest g)) (\<lambda>ex.
     try_res (begin_group u ex (gwm_TaskID g) at) (\<lambda>p0.
     (let reads = map it_ID items in
     try_res (scan_members u ex g items at reads 0 p0 (gwm_Members g)) (\<lambda>scanned.
     case scanned of
       Inl d \<Rightarrow> Inr d
     | Inr (failed, p) \<Rightarrow>
         try_res (case failed of None \<Rightarrow> Inr None
                  | Some k \<Rightarrow> check_later items reads (drop (k + 1) (gwm_Members g))) (\<lambda>early.
         case early of
           Some d \<Rightarrow> Inr d
         | None \<Rightarrow>
             try_res (compensate u ex g items at reads failed p) (\<lambda>restoring.
             case restoring of
               Some d \<Rightarrow> Inr d
             | None \<Rightarrow> close_group items reads (if failed = None then Succeeded else Failed) (gwm_Members g)))))))))"

section \<open>The policy a decision follows\<close>

text \<open>
  \<open>group_policy\<close> is the specification: it reads only the observed items and keeps no executor progress.
\<close>

definition member_done :: "item list \<Rightarrow> group_work_member \<Rightarrow> bool" where
  "member_done items w \<longleftrightarrow>
     it_Phase (item_of items (gw_ForwardID w)) = Settled \<and> it_Outcome (item_of items (gw_ForwardID w)) = Succeeded"

definition member_restored :: "item list \<Rightarrow> group_work_member \<Rightarrow> bool" where
  "member_restored items w \<longleftrightarrow>
     it_Phase (item_of items (gw_RestoreID w)) = Settled \<and>
     restore_outcome (item_of items (gw_RestoreID w)) = MemberCompensated"

definition restore_policy :: "item list \<Rightarrow> string list \<Rightarrow> string \<Rightarrow> group_work_member list \<Rightarrow> group_decision option" where
  "restore_policy items reads failure earlier =
     map_option (\<lambda>w. let it = item_of items (gw_RestoreID w) in
                    if it_Phase it \<noteq> Settled then select_restore it reads w failure
                    else decision reads GroupWorkWait (it_ID it) Failed reason_recovery)
       (find (\<lambda>w. \<not> member_restored items w) (rev earlier))"

definition group_policy :: "bool \<Rightarrow> item list \<Rightarrow> group_work_member list \<Rightarrow> group_decision res" where
  "group_policy switch_back items ws =
     (let reads = map it_ID items; earlier = takeWhile (member_done items) ws in
      case dropWhile (member_done items) ws of
        [] \<Rightarrow> close_group items reads Succeeded ws
      | w # later \<Rightarrow>
        (let it = item_of items (gw_ForwardID w) in
         if it_Phase it \<noteq> Settled then
           Inr (if untouched it then decision reads GroupWorkForward (it_ID it) NoOutcome reason_forward
                else decision reads GroupWorkWait (it_ID it) NoOutcome reason_wait)
         else if it_Outcome it \<noteq> Failed then
           finish_stopped_group items (length earlier) (it_Outcome it) reads 0 ws
         else try_res (check_later items reads later) (\<lambda>early.
           case early of
             Some d \<Rightarrow> Inr d
           | None \<Rightarrow>
             (case (if switch_back then restore_policy items reads (gw_ForwardID w) earlier else None) of
                Some d \<Rightarrow> Inr d
              | None \<Rightarrow> close_group items reads Failed ws))))"

text \<open>The snapshot a decision accepts.\<close>

definition snapshot_ok :: "ulid_check \<Rightarrow> group_work_manifest \<Rightarrow> item list \<Rightarrow> gotime \<Rightarrow> bool" where
  "snapshot_ok u g items at \<longleftrightarrow>
     validate_group_work u g = Inr () \<and> \<not> is_zero at \<and> is_utc at \<and>
     length items = 2 * length (gwm_Members g) \<and>
     (\<forall>it \<in> set items. item_ok u it \<and> it_TaskID it = gwm_TaskID g \<and> \<not> before at (it_UpdatedAt it)) \<and>
     distinct (map it_ID items) \<and> (\<forall>w \<in> set (gwm_Members g). member_bound items w)"

section \<open>Validated manifests\<close>

lemma validate_members_error: "validate_members u k ss rs ms = Inl e \<Longrightarrow> e = ValidationFailed"
  by (induction u k ss rs ms rule: validate_members.induct) (auto split: if_splits)

lemma validate_members_ordinals:
  "validate_members u k ss rs ms = Inr () \<Longrightarrow> i < length ms \<Longrightarrow> gm_Ordinal (ms ! i) = of_nat (k + i + 1)"
proof (induction ms arbitrary: k ss rs i)
  case (Cons m ms)
  then show ?case by (cases i) (auto split: if_splits simp: algebra_simps)
qed simp

lemma validate_group_manifest_ok:
  assumes "validate_group_manifest u m = Inr ()"
  shows "i < length (mf_Members m) \<Longrightarrow> gm_Ordinal (mf_Members m ! i) = of_nat (i + 1)"
    and "2 \<le> length (mf_Members m)" "length (mf_Members m) \<le> 32"
  using assms unfolding validate_group_manifest_def
  by (auto dest: validate_members_ordinals simp: minimum_group_members_def maximum_group_members_def split: if_splits)

lemma validate_group_manifest_error: "validate_group_manifest u m = Inl e \<Longrightarrow> e = ValidationFailed"
  unfolding validate_group_manifest_def by (auto dest: validate_members_error split: if_splits)

lemma validate_work_members_error: "validate_work_members u ms seen ws = Inl e \<Longrightarrow> e = ValidationFailed"
  by (induction u ms seen ws rule: validate_work_members.induct) (auto split: if_splits)

lemma validate_work_members_bound:
  "validate_work_members u ms seen ws = Inr () \<Longrightarrow> length ws = length ms \<Longrightarrow> map gw_Member ws = ms"
  by (induction u ms seen ws rule: validate_work_members.induct) (auto split: if_splits)

lemma validate_group_work_error: "validate_group_work u g = Inl e \<Longrightarrow> e = ValidationFailed"
  unfolding validate_group_work_def
  by (auto simp: try_res_eq_Inl dest: validate_group_manifest_error validate_work_members_error split: if_splits)

lemma validate_group_work_ok:
  assumes "validate_group_work u g = Inr ()"
  shows "validate_group_manifest u (gwm_Manifest g) = Inr ()" "id_valid u KindTask (gwm_TaskID g)"
    and "mf_Members (gwm_Manifest g) = map gw_Member (gwm_Members g)"
  using assms unfolding validate_group_work_def
  by (auto split: if_splits dest: validate_work_members_bound)

lemma check_snapshot_error: "check_snapshot u task at seen its = Inl e \<Longrightarrow> e = ValidationFailed"
  by (induction its arbitrary: seen) (auto split: if_splits)

lemma check_snapshot_ok:
  "check_snapshot u task at seen its = Inr () \<longleftrightarrow>
     (\<forall>it \<in> set its. item_ok u it \<and> it_TaskID it = task \<and> \<not> before at (it_UpdatedAt it)) \<and>
     distinct (map it_ID its) \<and> set seen \<inter> it_ID ` set its = {}"
  by (induction its arbitrary: seen) (auto simp: is_ok_unit)

section \<open>The executor against the policy\<close>

text \<open>The progress after the members \<open>ws\<close> were recorded as serving.\<close>

definition serving_progress :: "group_work_manifest \<Rightarrow> gotime \<Rightarrow> group_work_member list \<Rightarrow> group_progress" where
  "serving_progress g at ws =
     \<lparr>gp_OperationID = mf_OperationID (gwm_Manifest g), gp_AttemptID = gwm_TaskID g,
      gp_NextMemberOrdinal = of_nat (length ws + 1), gp_Results = map (serving_result \<circ> gw_Member) ws,
      gp_Compensating = False, gp_NextCompensationOrdinal = 0, gp_UpdatedAt = at\<rparr>"

definition failed_progress :: "group_work_manifest \<Rightarrow> gotime \<Rightarrow> group_work_member list \<Rightarrow> group_work_member \<Rightarrow> group_progress" where
  "failed_progress g at ws w =
     (let switch = mf_FailurePolicy (gwm_Manifest g) = OnFailureSwitchBack \<and> ws \<noteq> [] in
      (serving_progress g at ws)\<lparr>gp_NextMemberOrdinal := 0,
         gp_Results := map (serving_result \<circ> gw_Member) ws @ [failed_result (gw_Member w)],
         gp_Compensating := switch, gp_NextCompensationOrdinal := (if switch then of_nat (length ws) else 0)\<rparr>)"

lemma ordinal_small: "k \<le> 32 \<Longrightarrow> unat (of_nat k :: u32) = k"
  by (simp add: unat_of_nat_small)

lemma same_member_results [simp]:
  "same_member m (serving_result m)" "same_member m (failed_result m)" "same_member m (restored_result m out)"
  by (simp_all add: same_member_def serving_result_def failed_result_def restored_result_def)

lemma ordinal_pred: "(of_nat (Suc k) :: u32) - 1 = of_nat k"
  by simp

lemma member_at_ordinal:
  "k < length (mf_Members m) \<Longrightarrow> length (mf_Members m) \<le> 32 \<Longrightarrow>
     member_at m (of_nat (Suc k)) = Inr (mf_Members m ! k)"
  unfolding member_at_def ordinal_pred by (simp add: ordinal_small)

text \<open>A validated group and a usable time.\<close>

definition group_ready :: "ulid_check \<Rightarrow> group_work_manifest \<Rightarrow> gotime \<Rightarrow> bool" where
  "group_ready u g at \<longleftrightarrow> validate_group_work u g = Inr () \<and> \<not> is_zero at \<and> is_utc at"

lemma group_ready_members:
  assumes "group_ready u g at"
  shows "validate_group_manifest u (gwm_Manifest g) = Inr ()" "id_valid u KindTask (gwm_TaskID g)"
    and "mf_Members (gwm_Manifest g) = map gw_Member (gwm_Members g)"
    and "length (gwm_Members g) \<le> 32" "\<not> is_zero at" "is_utc at"
    and "gwm_Members g = ws @ w # rest \<Longrightarrow> gm_Ordinal (gw_Member w) = of_nat (Suc (length ws))"
    and "gwm_Members g = ws @ w # rest \<Longrightarrow>
           member_at (gwm_Manifest g) (of_nat (Suc (length ws))) = Inr (gw_Member w)"
proof -
  note ok = validate_group_work_ok[OF assms[unfolded group_ready_def, THEN conjunct1]]
  show "validate_group_manifest u (gwm_Manifest g) = Inr ()" "id_valid u KindTask (gwm_TaskID g)"
    "mf_Members (gwm_Manifest g) = map gw_Member (gwm_Members g)"
    by (rule ok)+
  show small: "length (gwm_Members g) \<le> 32"
    using validate_group_manifest_ok(3)[OF ok(1)] ok(3) by simp
  show "\<not> is_zero at" "is_utc at"
    using assms by (simp_all add: group_ready_def)
  show "gm_Ordinal (gw_Member w) = of_nat (Suc (length ws))" if "gwm_Members g = ws @ w # rest"
    using validate_group_manifest_ok(1)[OF ok(1), of "length ws"] ok(3) that by (simp add: nth_append)
  show "member_at (gwm_Manifest g) (of_nat (Suc (length ws))) = Inr (gw_Member w)" if "gwm_Members g = ws @ w # rest"
    using member_at_ordinal[of "length ws" "gwm_Manifest g"] ok(3) small that by (simp add: nth_append)
qed

lemma progress_accepted:
  assumes "group_ready u g at" "length (gp_Results p) \<le> length (gwm_Members g)"
    "gp_OperationID p = mf_OperationID (gwm_Manifest g)" "gp_AttemptID p = gwm_TaskID g" "gp_UpdatedAt p = at"
  shows "validate_progress u (Some (gwm_Manifest g)) p = Inr (gwm_Manifest g)"
  using assms group_ready_members(2-6)[OF assms(1)] by (simp add: validate_progress_def)

lemma begin_ready:
  "group_ready u g at \<Longrightarrow>
     begin_group u (Some (gwm_Manifest g)) (gwm_TaskID g) at = Inr (serving_progress g at [])"
  using group_ready_members(2,5,6)[of u g at] by (simp add: begin_group_def serving_progress_def)

lemma serving_step:
  assumes r: "group_ready u g at" and split: "gwm_Members g = ws @ w # rest"
  shows "record_serving u (Some (gwm_Manifest g)) (serving_progress g at ws) (serving_result (gw_Member w)) at =
           Inr (serving_progress g at (ws @ [w]))"
proof -
  note m = group_ready_members[OF r]
  have v: "validate_progress u (Some (gwm_Manifest g)) (serving_progress g at ws) = Inr (gwm_Manifest g)"
    by (rule progress_accepted[OF r]) (simp_all add: serving_progress_def split)
  have o: "mr_Ordinal (serving_result (gw_Member w)) = of_nat (Suc (length ws))"
    using m(7)[OF split] by (simp add: serving_result_def)
  have small: "unat (of_nat (Suc (length ws)) :: u32) \<le> length (mf_Members (gwm_Manifest g))"
    using m(3,4) split by (subst ordinal_small) simp_all
  show ?thesis
    unfolding record_serving_def v try_res.simps o m(8)[OF split]
    using small by (simp add: serving_progress_def serving_result_def same_member_def del: of_nat_Suc) simp
qed

lemma failure_step:
  assumes r: "group_ready u g at" and split: "gwm_Members g = ws @ w # rest"
  shows "record_failure u (Some (gwm_Manifest g)) (serving_progress g at ws) (failed_result (gw_Member w)) at =
           Inr (failed_progress g at ws w)"
proof -
  note m = group_ready_members[OF r]
  have v: "validate_progress u (Some (gwm_Manifest g)) (serving_progress g at ws) = Inr (gwm_Manifest g)"
    by (rule progress_accepted[OF r]) (simp_all add: serving_progress_def split)
  have o: "mr_Ordinal (failed_result (gw_Member w)) = of_nat (Suc (length ws))"
    using m(7)[OF split] by (simp add: failed_result_def)
  have gt: "1 < (of_nat (Suc (length ws)) :: u32) \<longleftrightarrow> ws \<noteq> []"
    using m(4) split by (simp add: word_less_nat_alt ordinal_small del: of_nat_Suc)
  show ?thesis
    unfolding record_failure_def v try_res.simps o m(8)[OF split] gt ordinal_pred
    by (simp add: serving_progress_def failed_progress_def failed_result_def same_member_def Let_def)
qed

lemma scan_members_policy:
  assumes r: "group_ready u g at" and all: "gwm_Members g = ws @ rest" and served: "\<forall>w \<in> set ws. member_done items w"
  shows "scan_members u (Some (gwm_Manifest g)) g items at reads (length ws) (serving_progress g at ws) rest =
    (let earlier = ws @ takeWhile (member_done items) rest in
     case dropWhile (member_done items) rest of
       [] \<Rightarrow> Inr (Inr (None, serving_progress g at (ws @ rest)))
     | w # later \<Rightarrow>
       (let it = item_of items (gw_ForwardID w) in
        if it_Phase it \<noteq> Settled then
          Inr (Inl (if untouched it then decision reads GroupWorkForward (it_ID it) NoOutcome reason_forward
                    else decision reads GroupWorkWait (it_ID it) NoOutcome reason_wait))
        else if it_Outcome it \<noteq> Failed then
          try_res (finish_stopped_group items (length earlier) (it_Outcome it) reads 0 (gwm_Members g)) (\<lambda>d. Inr (Inl d))
        else Inr (Inr (Some (length earlier), failed_progress g at earlier w))))"
  using all served
proof (induction rest arbitrary: ws)
  case (Cons w rest)
  show ?case
  proof (cases "member_done items w")
    case True
    then have "scan_members u (Some (gwm_Manifest g)) g items at reads (length ws) (serving_progress g at ws) (w # rest) =
      scan_members u (Some (gwm_Manifest g)) g items at reads (length (ws @ [w])) (serving_progress g at (ws @ [w])) rest"
      using serving_step[OF r Cons.prems(1)] by (simp add: member_done_def Let_def)
    then show ?thesis
      using Cons.IH[of "ws @ [w]", unfolded append_assoc append_Cons append_Nil] Cons.prems True by simp
  next
    case False
    then show ?thesis
      using failure_step[OF r Cons.prems(1)] by (auto simp: member_done_def Let_def)
  qed
qed simp

text \<open>The results while compensation goes down: the ordinals stay those of the members.\<close>

lemma result_index_ordinals:
  assumes "map mr_Ordinal rs = map (\<lambda>i. of_nat (Suc i)) [0..<n]" "k < n" "n \<le> 32"
  shows "result_index (of_nat (Suc k)) rs = Some k"
proof -
  have "result_index x rs = Some k" if "k < length rs" "mr_Ordinal (rs ! k) = x" "\<forall>i < k. mr_Ordinal (rs ! i) \<noteq> x" for x
    using that
  proof (induction rs arbitrary: k)
    case (Cons r rs)
    then show ?case by (cases k) (auto simp: All_less_Suc2)
  qed simp
  moreover have len: "length rs = n"
    using arg_cong[OF assms(1), of length] by simp
  moreover have "mr_Ordinal (rs ! i) = of_nat (Suc i)" if "i < n" for i
    using arg_cong[OF assms(1), of "\<lambda>xs. xs ! i"] that len by simp
  moreover have "(of_nat (Suc i) :: u32) \<noteq> of_nat (Suc k)" if "i < k" for i
    using that assms(2,3) ordinal_small[of "Suc i"] ordinal_small[of "Suc k"] by (metis Suc_inject Suc_leI
      dual_order.trans nat_less_le order_less_imp_le)
  ultimately show ?thesis
    using assms(2) by simp
qed

definition compensating_at :: "group_work_manifest \<Rightarrow> gotime \<Rightarrow> nat \<Rightarrow> nat \<Rightarrow> group_progress \<Rightarrow> bool" where
  "compensating_at g at n k p \<longleftrightarrow>
     gp_OperationID p = mf_OperationID (gwm_Manifest g) \<and> gp_AttemptID p = gwm_TaskID g \<and> gp_UpdatedAt p = at \<and>
     map mr_Ordinal (gp_Results p) = map (\<lambda>i. of_nat (Suc i)) [0..<n] \<and> k < n \<and> n \<le> length (gwm_Members g) \<and>
     gp_Compensating p = (0 < k) \<and> gp_NextCompensationOrdinal p = of_nat k"

lemma compensating_results: "compensating_at g at n k p \<Longrightarrow> length (gp_Results p) = n"
  unfolding compensating_at_def by (metis length_map length_upt minus_nat.diff_0)

lemma compensation_step:
  assumes r: "group_ready u g at" and split: "gwm_Members g = ws @ w # rest"
    and p: "compensating_at g at n (Suc (length ws)) p"
    and out: "out = MemberCompensated \<or> out = MemberRecoveryRequired"
  obtains p' where "record_compensation u (Some (gwm_Manifest g)) p (restored_result (gw_Member w) out) at = Inr p'"
    and "out = MemberCompensated \<Longrightarrow> compensating_at g at n (length ws) p'"
proof -
  note m = group_ready_members[OF r]
  note c = p[unfolded compensating_at_def]
  have v: "validate_progress u (Some (gwm_Manifest g)) p = Inr (gwm_Manifest g)"
    by (rule progress_accepted[OF r]) (use c compensating_results[OF p] in auto)
  have next_ordinal: "gp_NextCompensationOrdinal p = of_nat (Suc (length ws))"
    using c by blast
  have o: "mr_Ordinal (restored_result (gw_Member w) out) = of_nat (Suc (length ws))"
    using m(7)[OF split] by (simp add: restored_result_def)
  have n: "n \<le> 32" "length ws < n"
    using c m(4) by auto
  have nz: "(of_nat (Suc (length ws)) :: u32) \<noteq> 0"
    using ordinal_small[of "Suc (length ws)"] n by (metis Suc_leI Zero_not_Suc le_trans unat_0)
  have one: "(of_nat (Suc (length ws)) :: u32) = 1 \<longleftrightarrow> length ws = 0"
    using ordinal_small[of "Suc (length ws)"] n by (metis One_nat_def Suc_leI le_trans nat.inject of_nat_1 unat_1)
  have idx: "result_index (of_nat (Suc (length ws))) (gp_Results p) = Some (length ws)"
    using result_index_ordinals n c by blast
  have out': "mr_Outcome (restored_result (gw_Member w) out) = out"
    by (simp add: restored_result_def)
  define p' where "p' = (if out = MemberRecoveryRequired \<or> length ws = 0
     then p\<lparr>gp_Results := (gp_Results p)[length ws := restored_result (gw_Member w) out], gp_Compensating := False,
            gp_NextCompensationOrdinal := 0\<rparr>
     else p\<lparr>gp_Results := (gp_Results p)[length ws := restored_result (gw_Member w) out],
            gp_NextCompensationOrdinal := of_nat (length ws)\<rparr>)\<lparr>gp_UpdatedAt := at\<rparr>"
  show ?thesis
  proof (rule that[of p'])
    show "record_compensation u (Some (gwm_Manifest g)) p (restored_result (gw_Member w) out) at = Inr p'"
      unfolding record_compensation_def v try_res.simps Let_def next_ordinal o m(8)[OF split] idx one out' ordinal_pred
      using c out nz by (auto simp: p'_def simp del: of_nat_Suc)
    assume compensated: "out = MemberCompensated"
    have "map mr_Ordinal (gp_Results p') = (map mr_Ordinal (gp_Results p))[length ws := of_nat (Suc (length ws))]"
      using o by (simp add: p'_def map_update)
    also have "\<dots> = map (\<lambda>i. of_nat (Suc i)) [0..<n]"
      using c n by (simp add: list_eq_iff_nth_eq nth_list_update)
    finally show "compensating_at g at n (length ws) p'"
      using c n compensated by (auto simp: compensating_at_def p'_def)
  qed
qed

lemma restore_outcome_cases: "restore_outcome it = MemberCompensated \<or> restore_outcome it = MemberRecoveryRequired"
  by (simp add: restore_outcome_def)

lemma compensate_policy:
  assumes r: "group_ready u g at" and failed: "f < length (gwm_Members g)"
    and split: "gwm_Members g = earlier @ rest" and p: "compensating_at g at n (length earlier) p"
  shows "compensate u (Some (gwm_Manifest g)) g items at reads (Some f) p =
           Inr (restore_policy items reads (gw_ForwardID (gwm_Members g ! f)) earlier)"
  using split p
proof (induction earlier arbitrary: p rest rule: rev_induct)
  case Nil
  then show ?case
    by (subst compensate.simps) (simp add: compensating_at_def restore_policy_def)
next
  case (snoc w ws)
  have split: "gwm_Members g = ws @ w # rest" and p: "compensating_at g at n (Suc (length ws)) p"
    using snoc.prems by simp_all
  have small: "unat (of_nat (Suc (length ws)) :: u32) = Suc (length ws)"
    using group_ready_members(4)[OF r] split by (intro ordinal_small) simp
  then have next_ordinal: "unat (gp_NextCompensationOrdinal p) = Suc (length ws)" "gp_NextCompensationOrdinal p \<noteq> 0"
    and on: "gp_Compensating p"
    using p by (auto simp: compensating_at_def simp del: of_nat_Suc)
  have w: "work_at g (unat (gp_NextCompensationOrdinal p) - 1) = Inr w"
    unfolding next_ordinal by (simp add: work_at_def split)
  have fw: "failure_work g (Some f) = Inr (gw_ForwardID (gwm_Members g ! f))"
    using failed by (simp add: failure_work_def work_at_def)
  obtain p' where step:
      "record_compensation u (Some (gwm_Manifest g)) p
         (restored_result (gw_Member w) (restore_outcome (item_of items (gw_RestoreID w)))) at = Inr p'"
    and inv: "restore_outcome (item_of items (gw_RestoreID w)) = MemberCompensated \<Longrightarrow>
       compensating_at g at n (length ws) p'"
    using compensation_step[OF r split p restore_outcome_cases] by blast
  show ?case
    using snoc.IH[OF split inv] restore_outcome_cases[of "item_of items (gw_RestoreID w)"]
    by (subst compensate.simps)
       (auto simp: on next_ordinal(2) w[unfolded One_nat_def] fw step restore_policy_def member_restored_def Let_def)
qed

lemma failed_compensating:
  assumes r: "group_ready u g at" and split: "gwm_Members g = ws @ w # rest"
    and switch: "mf_FailurePolicy (gwm_Manifest g) = OnFailureSwitchBack"
  shows "compensating_at g at (Suc (length ws)) (length ws) (failed_progress g at ws w)"
proof -
  have "gm_Ordinal (gw_Member (ws ! i)) = of_nat (Suc i)" if i: "i < length ws" for i
  proof -
    have "gwm_Members g = take i ws @ ws ! i # (drop (Suc i) ws @ w # rest)"
      using id_take_nth_drop[OF i] split by (metis append.assoc append_Cons)
    from group_ready_members(7)[OF r this] show ?thesis
      using i by simp
  qed
  then have "map (mr_Ordinal \<circ> (serving_result \<circ> gw_Member)) ws = map (\<lambda>i. of_nat (Suc i)) [0..<length ws]"
    by (auto intro!: nth_equalityI simp: serving_result_def)
  moreover have "gm_Ordinal (gw_Member w) = of_nat (Suc (length ws))"
    by (rule group_ready_members(7)[OF r split])
  moreover have "Suc (length ws) \<le> length (gwm_Members g)"
    using split by simp
  ultimately show ?thesis
    by (simp add: compensating_at_def failed_progress_def serving_progress_def switch Let_def
        failed_result_def del: of_nat_Suc)
qed

lemma failed_not_compensating:
  "mf_FailurePolicy (gwm_Manifest g) \<noteq> OnFailureSwitchBack \<Longrightarrow>
     compensate u ex g items at reads failed (failed_progress g at ws w) = Inr None"
  by (subst compensate.simps) (simp add: failed_progress_def)

lemma serving_not_compensating: "compensate u ex g items at reads failed (serving_progress g at ws) = Inr None"
  by (subst compensate.simps) (simp add: serving_progress_def)

lemma try_res_if: "try_res (if c then a else b) k = (if c then try_res a k else try_res b k)"
  by simp

lemma try_res_decided: "try_res (try_res r (\<lambda>d. Inr (Inl d))) (case_sum Inr k) = r"
  by (cases r) simp_all

lemma decide_ready:
  assumes "snapshot_ok u g items at"
  shows "decide_group_work u g items at = group_policy
           (mf_FailurePolicy (gwm_Manifest g) = OnFailureSwitchBack) items (gwm_Members g)"
proof -
  let ?m = "gwm_Manifest g" and ?ws = "gwm_Members g" and ?reads = "map it_ID items"
  note ok = assms[unfolded snapshot_ok_def]
  have r: "group_ready u g at"
    using ok by (simp add: group_ready_def)
  have valid: "validate_group_work u g = Inr ()" and len: "length items = 2 * length ?ws"
    and snap: "check_snapshot u (gwm_TaskID g) at [] items = Inr ()" and bound: "list_all (member_bound items) ?ws"
    using ok by (auto simp: check_snapshot_ok list_all_iff)
  have ex: "new_group_executor u ?m = Inr (Some ?m)"
    using group_ready_members(1)[OF r] by (simp add: new_group_executor_def)
  have none: "\<forall>w \<in> set []. member_done items w"
    by simp
  note scan = scan_members_policy[OF r append_Nil[symmetric] none, of ?reads, unfolded append_Nil list.size]
  have started: "decide_group_work u g items at =
    try_res (scan_members u (Some ?m) g items at ?reads 0 (serving_progress g at []) ?ws) (\<lambda>scanned.
     case scanned of
       Inl d \<Rightarrow> Inr d
     | Inr (failed, p) \<Rightarrow>
         try_res (case failed of None \<Rightarrow> Inr None
                  | Some k \<Rightarrow> check_later items ?reads (drop (k + 1) ?ws)) (\<lambda>early.
         case early of
           Some d \<Rightarrow> Inr d
         | None \<Rightarrow>
             try_res (compensate u (Some ?m) g items at ?reads failed p) (\<lambda>restoring.
             case restoring of
               Some d \<Rightarrow> Inr d
             | None \<Rightarrow> close_group items ?reads (if failed = None then Succeeded else Failed) ?ws)))"
    unfolding decide_group_work_def valid snap ex try_res.simps Let_def begin_ready[OF r]
    using group_ready_members(5,6)[OF r] len bound by simp
  have tdw: "takeWhile (member_done items) ?ws @ dropWhile (member_done items) ?ws = ?ws"
    by simp
  show ?thesis
  proof (cases "dropWhile (member_done items) ?ws")
    case Nil
    show ?thesis
      unfolding started scan group_policy_def Nil list.case
      by (simp add: serving_not_compensating Let_def)
  next
    case (Cons w later)
    define earlier where "earlier = takeWhile (member_done items) ?ws"
    have split: "?ws = earlier @ w # later"
      using tdw Cons by (simp add: earlier_def)
    have later: "drop (Suc (length earlier)) ?ws = later" and w: "?ws ! length earlier = w"
      and failed: "length earlier < length ?ws"
      by (simp_all add: split)
    have restoring: "compensate u (Some ?m) g items at ?reads (Some (length earlier)) (failed_progress g at earlier w) =
      Inr (if mf_FailurePolicy ?m = OnFailureSwitchBack
           then restore_policy items ?reads (gw_ForwardID w) earlier else None)"
    proof (cases "mf_FailurePolicy ?m = OnFailureSwitchBack")
      case True
      show ?thesis
        using compensate_policy[OF r failed split failed_compensating[OF r split True], of items ?reads] True w by simp
    next
      case False
      then show ?thesis by (simp add: failed_not_compensating)
    qed
    show ?thesis
      unfolding started scan group_policy_def Cons list.case earlier_def[symmetric]
      by (simp add: Let_def try_res_if try_res_decided later restoring)
  qed
qed

lemma decide_refused:
  assumes "\<not> snapshot_ok u g items at"
  shows "decide_group_work u g items at = Inl ValidationFailed"
proof (cases "validate_group_work u g")
  case (Inl e)
  then show ?thesis
    by (simp add: decide_group_work_def validate_group_work_error)
next
  case (Inr x)
  show ?thesis
  proof (cases "check_snapshot u (gwm_TaskID g) at [] items")
    case (Inl e)
    then show ?thesis
      using Inr by (simp add: decide_group_work_def check_snapshot_error)
  next
    case snap: (Inr y)
    then have "\<not> (\<not> is_zero at \<and> is_utc at \<and> length items = 2 * length (gwm_Members g) \<and>
        list_all (member_bound items) (gwm_Members g))"
      using assms Inr by (auto simp: snapshot_ok_def check_snapshot_ok list_all_iff)
    then show ?thesis
      using Inr snap by (auto simp: decide_group_work_def)
  qed
qed

end
