(* ===== verification/ReleaseGroupProperties.thy ===== *)
theory ReleaseGroupProperties
  imports ReleaseGroup WorkLifecycle
begin

text \<open>
  Properties of Release Groups: the decisions of \<open>DecideGroupWork\<close> follow the policy and only grant what it
  allows, and the faults of the executor on its reachable progress.
\<close>

section \<open>What a decision grants\<close>

lemma skip_group_work_Inr:
  "skip_group_work it out reason reads = Inr d \<longleftrightarrow>
     it_AttemptNumber it = 0 \<and> it_ActiveAttemptID it = [] \<and> it_Input it = None \<and> it_Cleanup it = CleanupNone \<and>
     d = decision reads GroupWorkSkip (it_ID it) out reason"
  by (auto simp: skip_group_work_def)

lemma decision_simps [simp]:
  "gd_Action (decision reads a k out reason) = a" "gd_WorkID (decision reads a k out reason) = k"
  "gd_Outcome (decision reads a k out reason) = out" "gd_Reads (decision reads a k out reason) = reads"
  by (simp_all add: decision_def)

lemma select_restore_simps [simp]:
  "gd_WorkID (select_restore it reads w f) = it_ID it" "gd_Outcome (select_restore it reads w f) = NoOutcome"
  "gd_Action (select_restore it reads w f) = (if untouched it then GroupWorkRestore else GroupWorkWait)"
  "gd_SourceWorkID (select_restore it reads w f) = gw_ForwardID w" "gd_FailureWorkID (select_restore it reads w f) = f"
  by (simp_all add: select_restore_def)

lemma item_of_mem: "k \<in> it_ID ` set items \<Longrightarrow> item_of items k \<in> set items \<and> it_ID (item_of items k) = k"
  by (induction items) auto

text \<open>Every work item of the members is in the snapshot.\<close>

definition present :: "item list \<Rightarrow> group_work_member list \<Rightarrow> bool" where
  "present items ws \<longleftrightarrow>
     (\<forall>w \<in> set ws. gw_ForwardID w \<in> it_ID ` set items \<and> gw_RestoreID w \<in> it_ID ` set items)"

lemma present_simps [simp]:
  "present items []"
  "present items (w # ws) \<longleftrightarrow>
     gw_ForwardID w \<in> it_ID ` set items \<and> gw_RestoreID w \<in> it_ID ` set items \<and> present items ws"
  by (auto simp: present_def)

text \<open>A skip only ever names an unsettled item of the group that never obtained input or an attempt.\<close>

definition skippable :: "item list \<Rightarrow> string \<Rightarrow> bool" where
  "skippable items k \<longleftrightarrow> (\<exists>it \<in> set items. it_ID it = k \<and> it_Phase it \<noteq> Settled \<and> it_AttemptNumber it = 0 \<and>
     it_ActiveAttemptID it = [] \<and> it_Input it = None \<and> it_Cleanup it = CleanupNone)"

lemma skip_skippable:
  "\<lbrakk>skip_group_work (item_of items k) out reason reads = Inr d; it_Phase (item_of items k) \<noteq> Settled;
    k \<in> it_ID ` set items\<rbrakk> \<Longrightarrow> gd_Action d = GroupWorkSkip \<and> skippable items (gd_WorkID d)"
  using item_of_mem[of k items] by (auto simp: skip_group_work_Inr skippable_def)

lemma close_group_cases:
  assumes "close_group items reads out ws = Inr d" "present items ws"
  shows "gd_Action d = GroupWorkSkip \<and> skippable items (gd_WorkID d) \<or>
         gd_Action d = GroupWorkFinish \<and> gd_Outcome d = out \<and>
           (\<forall>w \<in> set ws. it_Phase (item_of items (gw_RestoreID w)) = Settled)"
  using assms by (induction ws) (auto simp: Let_def dest: skip_skippable split: if_splits)

lemma finish_stopped_cases:
  assumes "finish_stopped_group items failed out reads index ws = Inr d" "present items ws"
  shows "gd_Action d = GroupWorkSkip \<and> skippable items (gd_WorkID d) \<or>
         gd_Action d = GroupWorkFinish \<and> gd_Outcome d = out \<and>
           (\<forall>i < length ws. it_Phase (item_of items (gw_RestoreID (ws ! i))) = Settled \<and>
              (failed < index + i \<longrightarrow> it_Phase (item_of items (gw_ForwardID (ws ! i))) = Settled))"
  using assms
  by (induction items failed out reads index ws rule: finish_stopped_group.induct)
     (auto simp: All_less_Suc2 dest: skip_skippable split: if_splits)

lemma check_later_cases:
  assumes "check_later items reads ws = Inr x" "present items ws"
  shows "(\<exists>d. x = Some d \<and> gd_Action d = GroupWorkSkip \<and> skippable items (gd_WorkID d)) \<or>
         x = None \<and> (\<forall>w \<in> set ws. it_Phase (item_of items (gw_ForwardID w)) = Settled \<and>
            it_Outcome (item_of items (gw_ForwardID w)) \<noteq> Succeeded \<and> it_AttemptNumber (item_of items (gw_ForwardID w)) = 0)"
  using assms by (induction ws) (auto simp: Let_def dest: skip_skippable split: if_splits)

lemma find_rev_Some:
  "find P (rev xs) = Some x \<Longrightarrow> \<exists>i < length xs. x = xs ! i \<and> P x \<and> (\<forall>j. i < j \<and> j < length xs \<longrightarrow> \<not> P (xs ! j))"
proof (induction xs rule: rev_induct)
  case (snoc y ys)
  show ?case
  proof (cases "P y")
    case True
    then show ?thesis
      using snoc.prems by (intro exI[of _ "length ys"]) auto
  next
    case False
    then obtain i where i: "i < length ys" "x = ys ! i" "P x" "\<forall>j. i < j \<and> j < length ys \<longrightarrow> \<not> P (ys ! j)"
      using snoc by auto
    show ?thesis
      using i False by (intro exI[of _ i]) (auto simp: nth_append less_Suc_eq)
  qed
qed simp

text \<open>The decisions of the policy, by the member at which the declared order stopped.\<close>

lemma group_policy_complete:
  assumes "dropWhile (member_done items) ws = []" "group_policy back_on items ws = Inr d" "present items ws"
  shows "(\<forall>w \<in> set ws. member_done items w) \<and>
    (gd_Action d = GroupWorkSkip \<and> skippable items (gd_WorkID d) \<or>
     gd_Action d = GroupWorkFinish \<and> gd_Outcome d = Succeeded \<and>
     (\<forall>w \<in> set ws. it_Phase (item_of items (gw_RestoreID w)) = Settled))"
proof -
  have "close_group items (map it_ID items) Succeeded ws = Inr d"
    using assms(2) unfolding group_policy_def Let_def assms(1) list.case .
  then show ?thesis
    using assms(1) close_group_cases[OF _ assms(3)] by (auto simp: dropWhile_eq_Nil_conv)
qed

lemma group_policy_stopped_at:
  assumes dw: "dropWhile (member_done items) ws = w # later" and d: "group_policy switch_on items ws = Inr d"
    and p: "present items ws"
  defines "earlier \<equiv> takeWhile (member_done items) ws" and "it \<equiv> item_of items (gw_ForwardID w)"
  obtains
    (unsettled) "it_Phase it \<noteq> Settled" "gd_WorkID d = gw_ForwardID w"
      "gd_Action d = (if untouched it then GroupWorkForward else GroupWorkWait)"
  | (skip) "gd_Action d = GroupWorkSkip" "skippable items (gd_WorkID d)"
  | (wait) "gd_Action d = GroupWorkWait"
  | (restore) i where "gd_Action d = GroupWorkRestore" "switch_on" "it_Phase it = Settled" "it_Outcome it = Failed"
      "i < length earlier" "gd_WorkID d = gw_RestoreID (earlier ! i)" "gd_SourceWorkID d = gw_ForwardID (earlier ! i)"
      "gd_FailureWorkID d = gw_ForwardID w"
      "it_Phase (item_of items (gw_RestoreID (earlier ! i))) \<noteq> Settled"
      "untouched (item_of items (gw_RestoreID (earlier ! i)))"
      "\<forall>j. i < j \<and> j < length earlier \<longrightarrow> member_restored items (earlier ! j)"
      "\<forall>x \<in> set later. it_Phase (item_of items (gw_ForwardID x)) = Settled \<and>
         it_Outcome (item_of items (gw_ForwardID x)) \<noteq> Succeeded \<and> it_AttemptNumber (item_of items (gw_ForwardID x)) = 0"
  | (finish) "gd_Action d = GroupWorkFinish" "gd_Outcome d \<noteq> Succeeded" "it_Phase it = Settled"
      "\<forall>x \<in> set ws. it_Phase (item_of items (gw_RestoreID x)) = Settled"
      "\<forall>x \<in> set later. it_Phase (item_of items (gw_ForwardID x)) = Settled"
proof -
  have split: "ws = earlier @ w # later"
    using takeWhile_dropWhile_id[of "member_done items" ws] dw by (simp add: earlier_def)
  have notdone: "\<not> member_done items w"
    using dw by (metis hd_dropWhile list.distinct(1) list.sel(1))
  have id: "it_ID it = gw_ForwardID w"
    using p item_of_mem[of "gw_ForwardID w" items] by (simp add: it_def present_def split)
  note policy = d[unfolded group_policy_def Let_def dw list.case, folded earlier_def it_def]
  show ?thesis
  proof (cases "it_Phase it = Settled")
    case False
    then show ?thesis
      using policy unsettled id by (auto split: if_splits)
  next
    case settled: True
    show ?thesis
    proof (cases "it_Outcome it = Failed")
      case False
      then have "finish_stopped_group items (length earlier) (it_Outcome it) (map it_ID items) 0 ws = Inr d"
        using policy settled by simp
      from finish_stopped_cases[OF this p] show ?thesis
      proof (elim disjE conjE)
        assume f: "gd_Action d = GroupWorkFinish" "gd_Outcome d = it_Outcome it"
          and all: "\<forall>i < length ws. it_Phase (item_of items (gw_RestoreID (ws ! i))) = Settled \<and>
              (length earlier < 0 + i \<longrightarrow> it_Phase (item_of items (gw_ForwardID (ws ! i))) = Settled)"
        have "it_Phase (item_of items (gw_ForwardID x)) = Settled" if x: "x \<in> set later" for x
        proof -
          obtain j where "j < length later" "later ! j = x"
            using x by (auto simp: in_set_conv_nth)
          then show ?thesis
            using all[rule_format, of "length earlier + Suc j"] by (simp add: split nth_append)
        qed
        moreover have "it_Outcome it \<noteq> Succeeded"
          using notdone settled by (simp add: member_done_def it_def)
        moreover have "\<forall>x \<in> set ws. it_Phase (item_of items (gw_RestoreID x)) = Settled"
          using all by (metis in_set_conv_nth)
        ultimately show ?thesis
          using finish f settled by simp
      qed (rule skip)
    next
      case failed: True
      obtain x where x: "check_later items (map it_ID items) later = Inr x"
        using policy settled failed by auto
      have "present items later"
        using p by (simp add: split present_def)
      from check_later_cases[OF x this] show ?thesis
      proof (elim disjE exE conjE)
        fix d' assume "x = Some d'" "gd_Action d' = GroupWorkSkip" "skippable items (gd_WorkID d')"
        then show ?thesis
          using skip policy settled failed x by simp
      next
        assume none: "x = None"
          and later: "\<forall>w \<in> set later. it_Phase (item_of items (gw_ForwardID w)) = Settled \<and>
            it_Outcome (item_of items (gw_ForwardID w)) \<noteq> Succeeded \<and> it_AttemptNumber (item_of items (gw_ForwardID w)) = 0"
        show ?thesis
        proof (cases "if switch_on then restore_policy items (map it_ID items) (gw_ForwardID w) earlier else None")
          case None
          then have "close_group items (map it_ID items) Failed ws = Inr d"
            using policy settled failed x none by simp
          from close_group_cases[OF this p] show ?thesis
            using skip finish settled later by (metis outcome.distinct(11))
        next
          case (Some d')
          then have d': "d = d'" and on: "switch_on"
            using policy settled failed x none by (auto split: if_splits)
          then obtain m where m: "find (\<lambda>w. \<not> member_restored items w) (rev earlier) = Some m"
            and dm: "d = (let r = item_of items (gw_RestoreID m) in
                    if it_Phase r \<noteq> Settled then select_restore r (map it_ID items) m (gw_ForwardID w)
                    else decision (map it_ID items) GroupWorkWait (it_ID r) Failed reason_recovery)"
            using Some by (auto simp: restore_policy_def)
          from find_rev_Some[OF m] obtain i where i: "i < length earlier" "m = earlier ! i"
            "\<forall>j. i < j \<and> j < length earlier \<longrightarrow> member_restored items (earlier ! j)"
            by auto
          have "it_ID (item_of items (gw_RestoreID m)) = gw_RestoreID m"
            using p i item_of_mem[of "gw_RestoreID m" items] by (simp add: split present_def)
          then show ?thesis
            using dm wait restore[of i] i on settled failed later
            by (cases "untouched (item_of items (gw_RestoreID m))") (auto simp: Let_def split: if_splits)
        qed
      qed
    qed
  qed
qed


section \<open>The reachable progress of the executor\<close>

inductive group_run :: "ulid_check \<Rightarrow> group_manifest \<Rightarrow> group_progress \<Rightarrow> bool" for u m where
  begin_run: "\<lbrakk>new_group_executor u m = Inr ex; begin_group u ex attempt_id now = Inr p\<rbrakk> \<Longrightarrow> group_run u m p"
| serve: "\<lbrakk>group_run u m p; record_serving u (Some m) p r now = Inr p'\<rbrakk> \<Longrightarrow> group_run u m p'"
| fail: "\<lbrakk>group_run u m p; record_failure u (Some m) p r now = Inr p'\<rbrakk> \<Longrightarrow> group_run u m p'"
| restore: "\<lbrakk>group_run u m p; record_compensation u (Some m) p r now = Inr p'\<rbrakk> \<Longrightarrow> group_run u m p'"
| complete: "\<lbrakk>group_run u m p; complete_group u (Some m) p now = (rs, Inr p')\<rbrakk> \<Longrightarrow> group_run u m p'"

text \<open>
  The invariant: the results are those of the first members in declared order; a pending member is the next
  one and all before it serve; during compensation the next one to restore still has its serving result.
\<close>

definition progress_inv :: "group_manifest \<Rightarrow> group_progress \<Rightarrow> bool" where
  "progress_inv m p \<longleftrightarrow>
     length (gp_Results p) \<le> length (mf_Members m) \<and>
     (\<forall>i < length (gp_Results p). same_member (mf_Members m ! i) (gp_Results p ! i)) \<and>
     (gp_NextMemberOrdinal p \<noteq> 0 \<longrightarrow>
        gp_NextMemberOrdinal p = of_nat (Suc (length (gp_Results p))) \<and> \<not> gp_Compensating p \<and>
        (\<forall>r \<in> set (gp_Results p). mr_Outcome r = MemberServing)) \<and>
     (gp_Compensating p \<longrightarrow> mf_FailurePolicy m = OnFailureSwitchBack \<and>
        0 < unat (gp_NextCompensationOrdinal p) \<and>
        unat (gp_NextCompensationOrdinal p) < length (gp_Results p) \<and>
        (\<forall>i < unat (gp_NextCompensationOrdinal p). mr_Outcome (gp_Results p ! i) = MemberServing))"

lemma validate_progress_Inr: "validate_progress u (Some m) p = Inr m' \<Longrightarrow> m' = m"
  by (auto simp: validate_progress_def split: if_splits)

lemma member_at_Inr: "member_at m k = Inr x \<Longrightarrow> unat (k - 1) < length (mf_Members m) \<and> x = mf_Members m ! unat (k - 1)"
  by (auto simp: member_at_def split: if_splits)

lemma member_at_zero:
  assumes "length (mf_Members m) \<le> 32"
  shows "member_at m 0 = Inl Panic"
proof -
  have "unat (- 1 :: u32) = 4294967295" by (simp add: unsigned_minus_1_eq_mask mask_eq_exp_minus_1)
  then show ?thesis
    using assms by (simp add: member_at_def)
qed

lemma same_member_outcome [simp]: "same_member x (r\<lparr>mr_Outcome := out\<rparr>) = same_member x r"
  by (simp add: same_member_def)

lemma complete_results_members:
  "complete_results rs = (rs', ok) \<Longrightarrow> list_all2 (\<lambda>r r'. \<forall>x. same_member x r' = same_member x r) rs rs'"
proof (induction rs arbitrary: rs' ok)
  case (Cons r rs)
  have "list_all2 (\<lambda>r r'. \<forall>x. same_member x r' = same_member x r) rs rs"
    by (simp add: list_all2_same)
  then show ?case
    using Cons by (auto split: if_splits prod.splits)
qed simp

lemma group_run_valid: "group_run u m p \<Longrightarrow> validate_group_manifest u m = Inr ()"
  by (induction rule: group_run.induct) (auto simp: new_group_executor_def)

lemma begin_group_inv: "new_group_executor u m = Inr ex \<Longrightarrow> begin_group u ex a now = Inr p \<Longrightarrow> progress_inv m p"
  by (auto simp: new_group_executor_def begin_group_def progress_inv_def split: if_splits)

lemma next_index:
  "k \<le> 32 \<Longrightarrow> unat ((of_nat (Suc k) :: u32) - 1) = k"
  unfolding ordinal_pred by (rule ordinal_small)

lemma record_serving_inv:
  assumes "progress_inv m p" "record_serving u (Some m) p r now = Inr p'" "length (mf_Members m) \<le> 32"
  shows "progress_inv m p'"
proof -
  have r: "\<not> gp_Compensating p" "mr_Ordinal r = gp_NextMemberOrdinal p" "mr_Outcome r = MemberServing"
    and "\<exists>x. member_at m (mr_Ordinal r) = Inr x \<and> same_member x r"
    and p': "p' = p\<lparr>gp_Results := gp_Results p @ [r], gp_NextMemberOrdinal := gp_NextMemberOrdinal p + 1, gp_UpdatedAt := now\<rparr>"
    using assms(2) by (auto simp: record_serving_def dest: validate_progress_Inr split: if_splits)
  then obtain x where x: "member_at m (mr_Ordinal r) = Inr x" "same_member x r" by auto
  have nz: "gp_NextMemberOrdinal p \<noteq> 0"
    using x(1) member_at_zero[OF assms(3)] r(2) by auto
  then have next_ordinal: "gp_NextMemberOrdinal p = of_nat (Suc (length (gp_Results p)))"
    and small: "length (gp_Results p) \<le> 32"
    using assms(1,3) by (auto simp: progress_inv_def)
  have "length (gp_Results p) < length (mf_Members m)" "x = mf_Members m ! length (gp_Results p)"
    using member_at_Inr[OF x(1)] unfolding r(2) next_ordinal next_index[OF small] by auto
  then show ?thesis
    using assms(1) r x(2) nz next_ordinal by (auto simp: p' progress_inv_def nth_append less_Suc_eq)
qed

text \<open>The progress after a recorded failure.\<close>

definition failure_recorded :: "group_manifest \<Rightarrow> group_progress \<Rightarrow> member_result \<Rightarrow> gotime \<Rightarrow> group_progress" where
  "failure_recorded m p r now =
     (if mf_FailurePolicy m = OnFailureSwitchBack \<and> 1 < mr_Ordinal r
      then p\<lparr>gp_Results := gp_Results p @ [r], gp_NextMemberOrdinal := 0, gp_Compensating := True,
             gp_NextCompensationOrdinal := mr_Ordinal r - 1\<rparr>
      else p\<lparr>gp_Results := gp_Results p @ [r], gp_NextMemberOrdinal := 0\<rparr>)\<lparr>gp_UpdatedAt := now\<rparr>"

lemma record_failure_Inr:
  assumes "record_failure u (Some m) p r now = Inr p'"
  obtains x where "\<not> gp_Compensating p" "mr_Ordinal r = gp_NextMemberOrdinal p" "member_at m (mr_Ordinal r) = Inr x"
    "same_member x r" "p' = failure_recorded m p r now"
proof (cases "validate_progress u (Some m) p")
  case (Inl e)
  then show ?thesis using assms by (simp add: record_failure_def)
next
  case (Inr m')
  then have v: "validate_progress u (Some m) p = Inr m"
    using validate_progress_Inr by blast
  show ?thesis
  proof (cases "member_at m (mr_Ordinal r)")
    case (Inl e)
    then show ?thesis using assms by (simp add: record_failure_def v)
  next
    case (Inr x)
    have "\<not> gp_Compensating p \<and> mr_Ordinal r = gp_NextMemberOrdinal p \<and> same_member x r \<and>
        failure_recorded m p r now = p'"
      using assms unfolding record_failure_def v failure_recorded_def try_res.simps if_Inl_eq_Inr Let_def Inr
      by blast
    then show ?thesis
      using that[of x] Inr by blast
  qed
qed

lemma record_failure_inv:
  assumes "progress_inv m p" "record_failure u (Some m) p r now = Inr p'" "length (mf_Members m) \<le> 32"
  shows "progress_inv m p'"
proof -
  obtain x where r: "\<not> gp_Compensating p" "mr_Ordinal r = gp_NextMemberOrdinal p"
    and x: "member_at m (mr_Ordinal r) = Inr x" "same_member x r" and p': "p' = failure_recorded m p r now"
    by (rule record_failure_Inr[OF assms(2)])
  have nz: "gp_NextMemberOrdinal p \<noteq> 0"
    using x(1) member_at_zero[OF assms(3)] r(2) by auto
  then have next_ordinal: "gp_NextMemberOrdinal p = of_nat (Suc (length (gp_Results p)))"
    and small: "length (gp_Results p) \<le> 32"
    using assms(1,3) by (auto simp: progress_inv_def)
  have "length (gp_Results p) < length (mf_Members m)" "x = mf_Members m ! length (gp_Results p)"
    using member_at_Inr[OF x(1)] unfolding r(2) next_ordinal next_index[OF small] by auto
  moreover have "1 < gp_NextMemberOrdinal p \<longleftrightarrow> 0 < length (gp_Results p)"
    using small calculation(1) assms(3) unfolding next_ordinal word_less_nat_alt by (subst ordinal_small) auto
  moreover have "unat (gp_NextMemberOrdinal p - 1) = length (gp_Results p)"
    unfolding next_ordinal by (rule next_index[OF small])
  ultimately show ?thesis
    using assms(1) r x(2) nz by (auto simp: p' failure_recorded_def progress_inv_def nth_append less_Suc_eq)
qed

lemma record_compensation_Inr:
  assumes "record_compensation u (Some m) p r now = Inr p'"
  obtains x index where "gp_Compensating p" "gp_NextCompensationOrdinal p \<noteq> 0" "mr_Ordinal r = gp_NextCompensationOrdinal p"
    "member_at m (gp_NextCompensationOrdinal p) = Inr x" "same_member x r"
    "result_index (gp_NextCompensationOrdinal p) (gp_Results p) = Some index"
    "p' = (if mr_Outcome r = MemberRecoveryRequired \<or> gp_NextCompensationOrdinal p = 1
           then p\<lparr>gp_Results := (gp_Results p)[index := r], gp_Compensating := False, gp_NextCompensationOrdinal := 0\<rparr>
           else p\<lparr>gp_Results := (gp_Results p)[index := r],
                  gp_NextCompensationOrdinal := gp_NextCompensationOrdinal p - 1\<rparr>)\<lparr>gp_UpdatedAt := now\<rparr>"
proof (cases "validate_progress u (Some m) p")
  case (Inl e)
  then show ?thesis using assms by (simp add: record_compensation_def)
next
  case (Inr m')
  then have v: "validate_progress u (Some m) p = Inr m"
    using validate_progress_Inr by blast
  show ?thesis
  proof (cases "member_at m (gp_NextCompensationOrdinal p)")
    case (Inl e)
    then show ?thesis using assms by (simp add: record_compensation_def v Let_def)
  next
    case x: (Inr x)
    show ?thesis
    proof (cases "result_index (gp_NextCompensationOrdinal p) (gp_Results p)")
      case None
      then show ?thesis using assms by (simp add: record_compensation_def v x Let_def)
    next
      case (Some index)
      have "gp_Compensating p \<and> gp_NextCompensationOrdinal p \<noteq> 0 \<and> mr_Ordinal r = gp_NextCompensationOrdinal p \<and>
          same_member x r"
        using assms unfolding record_compensation_def v try_res.simps if_Inl_eq_Inr Let_def x by blast
      then show ?thesis
        using that[of x index] x Some assms
        unfolding record_compensation_def v try_res.simps if_Inl_eq_Inr Let_def x Some option.case by blast
    qed
  qed
qed

text \<open>The ordinals of the results are those of the members, so the first result with an ordinal is at its place.\<close>

lemma progress_ordinals:
  assumes "progress_inv m p" "validate_group_manifest u m = Inr ()"
  shows "map mr_Ordinal (gp_Results p) = map (\<lambda>i. of_nat (Suc i)) [0..<length (gp_Results p)]"
proof (rule nth_equalityI)
  fix i assume "i < length (map mr_Ordinal (gp_Results p))"
  then have "same_member (mf_Members m ! i) (gp_Results p ! i)" "i < length (mf_Members m)" "i < length (gp_Results p)"
    using assms(1) by (auto simp: progress_inv_def)
  then show "map mr_Ordinal (gp_Results p) ! i = map (\<lambda>i. of_nat (Suc i)) [0..<length (gp_Results p)] ! i"
    using validate_group_manifest_ok(1)[OF assms(2), of i] by (simp add: same_member_def)
qed simp

lemma compensation_target:
  assumes "progress_inv m p" "validate_group_manifest u m = Inr ()" "gp_Compensating p"
  obtains k where "gp_NextCompensationOrdinal p = of_nat (Suc k)" "Suc k < length (gp_Results p)" "k \<le> 32"
    "result_index (gp_NextCompensationOrdinal p) (gp_Results p) = Some k"
    "member_at m (gp_NextCompensationOrdinal p) = Inr (mf_Members m ! k)"
    "unat (gp_NextCompensationOrdinal p) = Suc k" "unat (gp_NextCompensationOrdinal p - 1) = k"
proof -
  obtain k where k: "unat (gp_NextCompensationOrdinal p) = Suc k"
    using assms(1,3) by (auto simp: progress_inv_def dest: gr0_implies_Suc)
  then have o: "gp_NextCompensationOrdinal p = of_nat (Suc k)"
    unfolding k[symmetric] by simp
  have len: "Suc k < length (gp_Results p)" "length (gp_Results p) \<le> length (mf_Members m)" "length (mf_Members m) \<le> 32"
    using assms k validate_group_manifest_ok(3)[OF assms(2)] by (auto simp: progress_inv_def)
  then have small: "k \<le> 32" by simp
  have "result_index (of_nat (Suc k)) (gp_Results p) = Some k"
    using result_index_ordinals[OF progress_ordinals[OF assms(1,2)], of k] len by simp
  moreover have "member_at m (of_nat (Suc k)) = Inr (mf_Members m ! k)"
    using member_at_ordinal[of k m] len by simp
  ultimately show ?thesis
    using that[of k] o k len small next_index[OF small] by simp
qed

lemma record_compensation_inv:
  assumes "progress_inv m p" "record_compensation u (Some m) p r now = Inr p'" "validate_group_manifest u m = Inr ()"
  shows "progress_inv m p'"
proof (rule record_compensation_Inr[OF assms(2)])
  fix x index
  assume c: "gp_Compensating p" and x: "member_at m (gp_NextCompensationOrdinal p) = Inr x" "same_member x r"
    and index: "result_index (gp_NextCompensationOrdinal p) (gp_Results p) = Some index"
    and p': "p' = (if mr_Outcome r = MemberRecoveryRequired \<or> gp_NextCompensationOrdinal p = 1
           then p\<lparr>gp_Results := (gp_Results p)[index := r], gp_Compensating := False, gp_NextCompensationOrdinal := 0\<rparr>
           else p\<lparr>gp_Results := (gp_Results p)[index := r],
                  gp_NextCompensationOrdinal := gp_NextCompensationOrdinal p - 1\<rparr>)\<lparr>gp_UpdatedAt := now\<rparr>"
  obtain k where k: "gp_NextCompensationOrdinal p = of_nat (Suc k)" "Suc k < length (gp_Results p)" "index = k"
    "x = mf_Members m ! k" "unat (gp_NextCompensationOrdinal p) = Suc k" "unat (gp_NextCompensationOrdinal p - 1) = k"
    using compensation_target[OF assms(1,3) c] x index by (metis Inr_inject option.inject)
  have "k \<noteq> 0" if "gp_NextCompensationOrdinal p \<noteq> 1"
    using that k(1) by (cases k) auto
  then show ?thesis
    using assms(1) c x(2) k by (auto simp: p' progress_inv_def nth_list_update)
qed

lemma complete_group_inv:
  assumes "progress_inv m p" "complete_group u (Some m) p now = (rs, Inr p')"
  shows "progress_inv m p'"
proof -
  obtain rs' ok where c: "complete_results (gp_Results p) = (rs', ok)"
    by (metis surj_pair)
  have p': "p' = p\<lparr>gp_Results := rs', gp_NextMemberOrdinal := 0, gp_UpdatedAt := now\<rparr>" and "\<not> gp_Compensating p"
    using assms(2) c by (auto simp: complete_group_def split: sum.splits if_splits)
  moreover have "length rs' = length (gp_Results p)"
    and "i < length (gp_Results p) \<Longrightarrow> same_member x (rs' ! i) = same_member x (gp_Results p ! i)" for i x
    using complete_results_members[OF c] by (auto dest: list_all2_lengthD list_all2_nthD)
  ultimately show ?thesis
    using assms(1) by (simp add: progress_inv_def)
qed

lemma group_run_inv: "group_run u m p \<Longrightarrow> progress_inv m p"
proof (induction rule: group_run.induct)
  case (begin_run ex a now p)
  then show ?case by (rule begin_group_inv)
next
  case (serve p r now p')
  then show ?case
    using record_serving_inv validate_group_manifest_ok(3)[OF group_run_valid] by blast
next
  case (fail p r now p')
  then show ?case
    using record_failure_inv validate_group_manifest_ok(3)[OF group_run_valid] by blast
next
  case (restore p r now p')
  then show ?case
    using record_compensation_inv group_run_valid by blast
next
  case (complete p now rs p')
  then show ?case by (blast intro: complete_group_inv)
qed

lemma validate_progress_Inl: "validate_progress u ex p = Inl e \<Longrightarrow> e = ValidationFailed"
  by (auto simp: validate_progress_def split: option.splits if_splits)

lemma validate_progress_cases:
  obtains "validate_progress u (Some m) p = Inr m" | "validate_progress u (Some m) p = Inl ValidationFailed"
  using validate_progress_Inl validate_progress_Inr by (metis sum.exhaust)

lemma member_at_panic: "member_at m k = Inl e \<longleftrightarrow> e = Panic \<and> length (mf_Members m) \<le> unat (k - 1)"
  by (auto simp: member_at_def)

lemma next_member_fault:
  assumes "group_run u m p"
  shows "member_at m (gp_NextMemberOrdinal p) = Inl Panic \<longleftrightarrow>
     gp_NextMemberOrdinal p = 0 \<or> length (gp_Results p) = length (mf_Members m)"
proof (cases "gp_NextMemberOrdinal p = 0")
  case True
  then show ?thesis
    using member_at_zero validate_group_manifest_ok(3)[OF group_run_valid[OF assms]] by simp
next
  case False
  have inv: "progress_inv m p" and n: "length (mf_Members m) \<le> 32"
    using group_run_inv[OF assms] validate_group_manifest_ok(3)[OF group_run_valid[OF assms]] by auto
  then have o: "gp_NextMemberOrdinal p = of_nat (Suc (length (gp_Results p)))"
    and len: "length (gp_Results p) \<le> length (mf_Members m)"
    using False by (auto simp: progress_inv_def)
  then have "unat (gp_NextMemberOrdinal p - 1) = length (gp_Results p)"
    unfolding o using n by (intro next_index) simp
  then show ?thesis
    using False len by (auto simp: member_at_panic)
qed

lemma serving_fault:
  assumes "group_run u m p"
  shows "record_serving u (Some m) p r now = Inl Panic \<longleftrightarrow>
     validate_progress u (Some m) p = Inr m \<and> \<not> gp_Compensating p \<and> mr_Outcome r = MemberServing \<and>
     mr_Ordinal r = 0 \<and> gp_NextMemberOrdinal p = 0"
proof (cases rule: validate_progress_cases[of u m p])
  case 1
  have n: "length (mf_Members m) \<le> 32"
    by (rule validate_group_manifest_ok(3)[OF group_run_valid[OF assms]])
  have "length (gp_Results p) \<noteq> length (mf_Members m) \<or> gp_NextMemberOrdinal p = 0"
    if "unat (gp_NextMemberOrdinal p) \<le> length (mf_Members m)"
  proof (cases "gp_NextMemberOrdinal p = 0")
    case False
    then have "gp_NextMemberOrdinal p = of_nat (Suc (length (gp_Results p)))"
      using group_run_inv[OF assms] by (simp add: progress_inv_def)
    then show ?thesis
      using that n group_run_inv[OF assms] by (auto simp: progress_inv_def unat_of_nat_small simp del: of_nat_Suc)
  qed simp
  then show ?thesis
    using 1 next_member_fault[OF assms]
    by (auto simp: record_serving_def try_res_eq_Inl split: if_splits)
next
  case 2
  then show ?thesis by (simp add: record_serving_def)
qed

lemma failure_fault:
  assumes "group_run u m p"
  shows "record_failure u (Some m) p r now = Inl Panic \<longleftrightarrow>
     validate_progress u (Some m) p = Inr m \<and> \<not> gp_Compensating p \<and> mr_Outcome r = MemberFailed \<and>
     mr_FailureCode r \<noteq> [] \<and> mr_Ordinal r = gp_NextMemberOrdinal p \<and>
     (gp_NextMemberOrdinal p = 0 \<or> length (gp_Results p) = length (mf_Members m))"
proof (cases rule: validate_progress_cases[of u m p])
  case 1
  then show ?thesis
    unfolding next_member_fault[OF assms, symmetric]
    by (cases "member_at m (mr_Ordinal r)") (auto simp: record_failure_def Let_def split: if_splits)
next
  case 2
  then show ?thesis by (simp add: record_failure_def)
qed

lemma compensation_fault:
  assumes "group_run u m p"
  shows "record_compensation u (Some m) p r now \<in> range Inr \<union> {Inl ValidationFailed, Inl StateConflict}"
proof (cases rule: validate_progress_cases[of u m p])
  case v: 1
  show ?thesis
  proof (cases "gp_Compensating p")
    case True
    obtain k where "result_index (gp_NextCompensationOrdinal p) (gp_Results p) = Some k"
      "member_at m (gp_NextCompensationOrdinal p) = Inr (mf_Members m ! k)"
      by (rule compensation_target[OF group_run_inv[OF assms] group_run_valid[OF assms] True])
    then show ?thesis
      using v by (auto simp: record_compensation_def Let_def)
  next
    case False
    then show ?thesis using v by (simp add: record_compensation_def Let_def)
  qed
next
  case 2
  then show ?thesis by (simp add: record_compensation_def)
qed

section \<open>An example group\<close>

definition ex_member :: "char \<Rightarrow> group_member" where
  "ex_member c = \<lparr>gm_Ordinal = (if c = CHR ''1'' then 1 else 2), gm_ServiceID = ex_id ''svc'' c, gm_ReleaseID = ex_id ''dep'' c\<rparr>"

definition ex_manifest :: group_manifest where
  "ex_manifest = \<lparr>mf_OperationID = ex_id ''op'' CHR ''1'', mf_ReleaseGroupID = ex_id ''rg'' CHR ''1'',
     mf_EnvironmentID = ex_id ''env'' CHR ''1'', mf_FailurePolicy = OnFailureSwitchBack,
     mf_Members = [ex_member CHR ''1'', ex_member CHR ''2''], mf_ConfiguredTimeoutSeconds = 600,
     mf_ComputedBudgetSeconds = 300\<rparr>"

definition ex_group :: group_work_manifest where
  "ex_group = \<lparr>gwm_Manifest = ex_manifest, gwm_TaskID = ex_id ''task'' CHR ''1'',
     gwm_Members =
       [\<lparr>gw_Member = ex_member CHR ''1'', gw_ForwardID = ex_id ''work'' CHR ''1'', gw_RestoreID = ex_id ''work'' CHR ''3''\<rparr>,
        \<lparr>gw_Member = ex_member CHR ''2'', gw_ForwardID = ex_id ''work'' CHR ''2'', gw_RestoreID = ex_id ''work'' CHR ''4''\<rparr>]\<rparr>"

text \<open>The first member succeeded and the second failed; no restoration has begun.\<close>

definition ex_work :: "char \<Rightarrow> char \<Rightarrow> operation \<Rightarrow> item" where
  "ex_work c svc op = ex_item\<lparr>it_ID := ex_id ''work'' c, it_Operation := op, it_TargetID := ex_id ''svc'' svc\<rparr>"

definition ex_forward_done :: item where
  "ex_forward_done = (ex_work CHR ''1'' CHR ''1'' OpRelease)\<lparr>it_Phase := Settled, it_AttemptNumber := 1,
     it_Outcome := Succeeded, it_Result := Some (ex_input CHR ''2'')\<rparr>"

definition ex_forward_failed :: item where
  "ex_forward_failed = (ex_work CHR ''2'' CHR ''2'' OpRelease)\<lparr>it_Phase := Settled, it_AttemptNumber := 1,
     it_Outcome := Failed, it_Result := Some (ex_input CHR ''2''), it_FirstFailure := Some (ex_input CHR ''2''),
     it_FirstFailureAttempt := 1, it_Cleanup := CleanupComplete, it_CleanupResult := Some (ex_input CHR ''2'')\<rparr>"

definition ex_restore_waiting :: "char \<Rightarrow> char \<Rightarrow> item" where
  "ex_restore_waiting c svc = (ex_work c svc OpReleaseRestoration)\<lparr>it_Input := None, it_Phase := Waiting,
     it_Wait := Some \<lparr>wt_Reason = WaitInput, wt_WorkItemID = [], wt_TaskID = [], wt_Until = None\<rparr>\<rparr>"

definition ex_snapshot :: "item list" where
  "ex_snapshot = [ex_forward_done, ex_forward_failed, ex_restore_waiting CHR ''3'' CHR ''1'', ex_restore_waiting CHR ''4'' CHR ''2'']"

lemmas ex_group_defs = ex_member_def ex_manifest_def ex_group_def ex_work_def ex_forward_done_def ex_forward_failed_def
  ex_restore_waiting_def ex_snapshot_def

lemma ex_manifest_valid: "validate_group_manifest crockford_ulid ex_manifest = Inr ()"
  by (simp add: validate_group_manifest_def ex_manifest_def ex_member_def minimum_group_members_def
      maximum_group_members_def KindOperation_def KindReleaseGroup_def KindEnvironment_def KindService_def
      KindDeployment_def)

lemma ex_group_valid: "validate_group_work crockford_ulid ex_group = Inr ()"
proof -
  have "mf_Members ex_manifest = [ex_member CHR ''1'', ex_member CHR ''2'']"
    by (simp add: ex_manifest_def)
  with ex_manifest_valid show ?thesis
    by (simp add: validate_group_work_def ex_group_def KindTask_def KindWorkItem_def)
qed

lemma ex_work_static:
  assumes "c \<in> set ''0123456789''" "svc \<in> set ''0123456789''" "valid_operation op"
  shows "item_static_ok crockford_ulid (ex_work c svc op)"
proof -
  have "valid_resource_id crockford_ulid (ex_id ''svc'' svc)"
    using assms by (simp add: valid_resource_id_def resource_kinds_def KindService_def)
  then show ?thesis
    using ex_item_ok assms by (simp add: item_ok_def item_static_ok_def ex_work_def KindWorkItem_def ex_item_def)
qed

lemma ex_work_times: "item_times_ok (ex_work c svc op)"
  using ex_item_ok by (simp add: item_ok_def item_times_ok_def ex_work_def)

lemma ex_snapshot_items: "\<forall>it \<in> set ex_snapshot. item_ok crockford_ulid it"
proof -
  note parts = item_ok_def item_results_ok_def item_state_by_phase outcome_cleanup_ok_def
  have t: "item_times_ok ex_forward_done" "item_times_ok ex_forward_failed" "item_times_ok (ex_restore_waiting c svc)" for c svc
    using ex_work_times[of c svc] ex_work_times by (simp_all add: item_times_ok_def ex_forward_done_def
        ex_forward_failed_def ex_restore_waiting_def)
  have d: "item_ok crockford_ulid ex_forward_done"
    using t(1) ex_work_static[of "CHR ''1''" "CHR ''1''" OpRelease] ex_input_ok
    by (simp add: parts ex_forward_done_def) (simp add: ex_work_def ex_item_def)
  have f: "item_ok crockford_ulid ex_forward_failed"
    using t(2) ex_work_static[of "CHR ''2''" "CHR ''2''" OpRelease] ex_input_ok
    by (simp add: parts ex_forward_failed_def) (simp add: ex_work_def ex_item_def)
  have r: "item_ok crockford_ulid (ex_restore_waiting c svc)"
    if "c \<in> set ''0123456789''" "svc \<in> set ''0123456789''" for c svc
    using t(3)[of c svc] ex_work_static[OF that, of OpReleaseRestoration] ex_input_ok
    by (simp add: parts ex_restore_waiting_def wait_validate_def) (simp add: ex_work_def ex_item_def)
  show ?thesis
    using d f r by (simp add: ex_snapshot_def)
qed

lemma ex_snapshot_bound:
  "list_all (member_bound ex_snapshot) (gwm_Members ex_group)" "distinct (map it_ID ex_snapshot)"
  "\<forall>it \<in> set ex_snapshot. it_TaskID it = gwm_TaskID ex_group \<and> it_UpdatedAt it = ex_time 0"
  by (simp_all add: ex_group_defs member_bound_def ex_item_def)

lemma ex_snapshot_ok: "snapshot_ok crockford_ulid ex_group ex_snapshot (ex_time 5)"
  using ex_group_valid ex_snapshot_items ex_snapshot_bound ex_time_valid[of 5]
  by (simp add: snapshot_ok_def list_all_iff valid_time_def ex_time_defs is_utc_def)
     (simp add: ex_snapshot_def ex_group_def)

definition ex_restore :: group_decision where
  "ex_restore = (decision (map it_ID ex_snapshot) GroupWorkRestore (ex_id ''work'' CHR ''3'') NoOutcome reason_restore)
     \<lparr>gd_SourceWorkID := ex_id ''work'' CHR ''1'', gd_FailureWorkID := ex_id ''work'' CHR ''2''\<rparr>"

lemma ex_policy: "group_policy True ex_snapshot (gwm_Members ex_group) = Inr ex_restore"
  by (simp add: group_policy_def ex_group_defs ex_item_def member_done_def restore_policy_def member_restored_def
      select_restore_def untouched_def ex_restore_def)

section \<open>Properties\<close>

text \<open>C15. Whenever the snapshot is complete and consistent, DecideGroupWork, which replays the executor over
  all members, takes exactly the decision of the policy on the observed items: no replay step is refused, and
  no index is out of range. Otherwise it is refused as a failed validation.\<close>

theorem decide_group_work_policy:
  "decide_group_work u g items at =
     (if snapshot_ok u g items at
      then group_policy (mf_FailurePolicy (gwm_Manifest g) = OnFailureSwitchBack) items (gwm_Members g)
      else Inl ValidationFailed)"
  using decide_ready decide_refused by simp

lemma member_bound_present: "list_all (member_bound items) ws \<Longrightarrow> present items ws"
  by (auto simp: list_all_iff member_bound_def present_def Let_def)

lemma decided:
  assumes "decide_group_work u g items at = Inr d"
  shows "group_policy (mf_FailurePolicy (gwm_Manifest g) = OnFailureSwitchBack) items (gwm_Members g) = Inr d"
    and "present items (gwm_Members g)"
proof -
  have ok: "snapshot_ok u g items at"
    using assms decide_refused by fastforce
  then show "group_policy (mf_FailurePolicy (gwm_Manifest g) = OnFailureSwitchBack) items (gwm_Members g) = Inr d"
    using assms decide_ready by metis
  show "present items (gwm_Members g)"
    using ok by (intro member_bound_present) (simp add: snapshot_ok_def list_all_iff)
qed

text \<open>
  What the grant of a restoration requires: member \<open>k\<close> failed after all earlier members succeeded, no later
  member runs or ran, and the members between \<open>i\<close> and \<open>k\<close> are restored.
\<close>

definition restorable :: "item list \<Rightarrow> group_work_member list \<Rightarrow> group_decision \<Rightarrow> nat \<Rightarrow> nat \<Rightarrow> bool" where
  "restorable items ws d i k \<longleftrightarrow>
     i < k \<and> k < length ws \<and> gd_WorkID d = gw_RestoreID (ws ! i) \<and>
     gd_SourceWorkID d = gw_ForwardID (ws ! i) \<and> gd_FailureWorkID d = gw_ForwardID (ws ! k) \<and>
     it_Outcome (item_of items (gw_ForwardID (ws ! k))) = Failed \<and> (\<forall>j < k. member_done items (ws ! j)) \<and>
     (\<forall>j. i < j \<and> j < k \<longrightarrow> member_restored items (ws ! j)) \<and>
     it_Phase (item_of items (gw_RestoreID (ws ! i))) \<noteq> Settled \<and>
     untouched (item_of items (gw_RestoreID (ws ! i))) \<and>
     (\<forall>j. k \<le> j \<and> j < length ws \<longrightarrow> it_Phase (item_of items (gw_ForwardID (ws ! j))) = Settled) \<and>
     (\<forall>j. k < j \<and> j < length ws \<longrightarrow> it_AttemptNumber (item_of items (gw_ForwardID (ws ! j))) = 0)"

definition grant_safe :: "bool \<Rightarrow> item list \<Rightarrow> group_work_member list \<Rightarrow> group_decision \<Rightarrow> bool" where
  "grant_safe switch_on items ws d \<longleftrightarrow>
     (gd_Action d = GroupWorkForward \<longrightarrow>
        (\<exists>k < length ws. gd_WorkID d = gw_ForwardID (ws ! k) \<and>
           it_Phase (item_of items (gw_ForwardID (ws ! k))) \<noteq> Settled \<and>
           untouched (item_of items (gw_ForwardID (ws ! k))) \<and> (\<forall>j < k. member_done items (ws ! j)))) \<and>
     (gd_Action d = GroupWorkRestore \<longrightarrow> switch_on \<and> (\<exists>i k. restorable items ws d i k)) \<and>
     (gd_Action d = GroupWorkSkip \<longrightarrow> skippable items (gd_WorkID d)) \<and>
     (gd_Action d = GroupWorkFinish \<longrightarrow>
        (\<forall>w \<in> set ws. it_Phase (item_of items (gw_ForwardID w)) = Settled \<and>
           it_Phase (item_of items (gw_RestoreID w)) = Settled) \<and>
        (gd_Outcome d = Succeeded \<longleftrightarrow> (\<forall>w \<in> set ws. member_done items w)))"

lemma nth_later: "length xs < j \<Longrightarrow> j < length (xs @ w # ys) \<Longrightarrow> (xs @ w # ys) ! j \<in> set ys"
  by (auto simp: nth_append nth_Cons split: nat.splits)

lemma group_policy_safe:
  assumes "group_policy switch_on items ws = Inr d" "present items ws"
  shows "grant_safe switch_on items ws d"
proof (cases "dropWhile (member_done items) ws")
  case Nil
  show ?thesis
    using group_policy_complete[OF Nil assms] by (auto simp: grant_safe_def member_done_def)
next
  case (Cons w later)
  let ?earlier = "takeWhile (member_done items) ws"
  have split: "ws = ?earlier @ w # later"
    using takeWhile_dropWhile_id[of "member_done items" ws] Cons by simp
  have notdone: "\<not> member_done items w"
    using Cons by (metis hd_dropWhile list.distinct(1) list.sel(1))
  have done_before: "member_done items (ws ! j)" if "j < length ?earlier" for j
    using that by (metis nth_mem set_takeWhileD takeWhile_nth)
  have at_k: "ws ! length ?earlier = w" "length ?earlier < length ws"
    by (metis split nth_append_length) (metis split length_append less_add_same_cancel1 length_greater_0_conv list.distinct(1))
  from Cons assms show ?thesis
  proof (cases rule: group_policy_stopped_at)
    case unsettled
    then show ?thesis
      using at_k done_before by (auto simp: grant_safe_def)
  next
    case skip
    then show ?thesis by (simp add: grant_safe_def)
  next
    case wait
    then show ?thesis by (simp add: grant_safe_def)
  next
    case (restore i)
    have i: "?earlier ! j = ws ! j" if "j < length ?earlier" for j
      using that by (simp add: takeWhile_nth)
    have after: "ws ! j \<in> set later" if "length ?earlier < j" "j < length ws" for j
      using nth_later[of ?earlier j w later] that split by metis
    have "it_Phase (item_of items (gw_ForwardID (ws ! j))) = Settled" if "length ?earlier \<le> j" "j < length ws" for j
      using that after[of j] restore at_k by (cases "j = length ?earlier") auto
    then have "restorable items ws d i (length ?earlier)"
      using restore at_k done_before i after by (auto simp: restorable_def)
    then show ?thesis
      using restore by (auto simp: grant_safe_def)
  next
    case finish
    have "it_Phase (item_of items (gw_ForwardID x)) = Settled" if "x \<in> set ws" for x
    proof -
      have "x \<in> set ?earlier \<or> x = w \<or> x \<in> set later"
        using that by (metis split Un_iff set_ConsD set_append)
      then show ?thesis
        using finish by (auto simp: member_done_def dest: set_takeWhileD)
    qed
    moreover have "w \<in> set ws"
      by (metis split in_set_conv_decomp)
    ultimately show ?thesis
      using finish notdone by (auto simp: grant_safe_def)
  qed
qed


text \<open>C16. A decision starts a member only when every earlier member succeeded and it has not been touched; it
  restores a member only under switch_back, after a later member failed, in reverse order, and while no
  member after the failed one runs or ran; it skips only work that never obtained input or an attempt; and it
  finishes only when every forward and restoration item is settled, as a success exactly when every member succeeded.\<close>

theorem decide_group_work_safe:
  assumes "decide_group_work u g items at = Inr d"
  shows "(gd_Action d = GroupWorkForward \<longrightarrow>
      (\<exists>k < length (gwm_Members g). gd_WorkID d = gw_ForwardID (gwm_Members g ! k) \<and>
         it_Phase (item_of items (gw_ForwardID (gwm_Members g ! k))) \<noteq> Settled \<and>
         untouched (item_of items (gw_ForwardID (gwm_Members g ! k))) \<and>
         (\<forall>j < k. member_done items (gwm_Members g ! j)))) \<and>
    (gd_Action d = GroupWorkRestore \<longrightarrow>
      mf_FailurePolicy (gwm_Manifest g) = OnFailureSwitchBack \<and> (\<exists>i k. restorable items (gwm_Members g) d i k)) \<and>
    (gd_Action d = GroupWorkSkip \<longrightarrow> skippable items (gd_WorkID d)) \<and>
    (gd_Action d = GroupWorkFinish \<longrightarrow>
      (\<forall>w \<in> set (gwm_Members g). it_Phase (item_of items (gw_ForwardID w)) = Settled \<and>
         it_Phase (item_of items (gw_RestoreID w)) = Settled) \<and>
      (gd_Outcome d = Succeeded \<longleftrightarrow> (\<forall>w \<in> set (gwm_Members g). member_done items w)))"
  using group_policy_safe[OF decided[OF assms]] unfolding grant_safe_def .

lemma ex_decide: "decide_group_work crockford_ulid ex_group ex_snapshot (ex_time 5) = Inr ex_restore"
  using decide_ready[OF ex_snapshot_ok] ex_policy by (simp add: ex_group_def ex_manifest_def)

theorem decide_group_work_safe_witness:
  "decide_group_work crockford_ulid ex_group ex_snapshot (ex_time 5) = Inr ex_restore \<and>
   (\<exists>i k. restorable ex_snapshot (gwm_Members ex_group) ex_restore i k)"
  using decide_group_work_safe[OF ex_decide] ex_decide by (simp add: ex_restore_def)

text \<open>C17. In every reachable progress the executor faults only where it indexes the members without a bound:
  RecordServing exactly for ordinal 0 once no member is pending (a failure was recorded, or the group is complete),
  RecordFailure then and for the ordinal after the last member; RecordCompensation never faults.\<close>

theorem executor_faults:
  assumes "group_run u m p"
  shows "(record_serving u (Some m) p r now = Inl Panic \<longleftrightarrow>
      validate_progress u (Some m) p = Inr m \<and> \<not> gp_Compensating p \<and> mr_Outcome r = MemberServing \<and>
      mr_Ordinal r = 0 \<and> gp_NextMemberOrdinal p = 0) \<and>
    (record_failure u (Some m) p r now = Inl Panic \<longleftrightarrow>
      validate_progress u (Some m) p = Inr m \<and> \<not> gp_Compensating p \<and> mr_Outcome r = MemberFailed \<and>
      mr_FailureCode r \<noteq> [] \<and> mr_Ordinal r = gp_NextMemberOrdinal p \<and>
      (gp_NextMemberOrdinal p = 0 \<or> length (gp_Results p) = length (mf_Members m))) \<and>
    record_compensation u (Some m) p r now \<in> range Inr \<union> {Inl ValidationFailed, Inl StateConflict}"
  by (intro conjI serving_fault[OF assms] failure_fault[OF assms] compensation_fault[OF assms])

definition ex_begun :: group_progress where
  "ex_begun = \<lparr>gp_OperationID = ex_id ''op'' CHR ''1'', gp_AttemptID = ex_id ''task'' CHR ''1'',
     gp_NextMemberOrdinal = 1, gp_Results = [], gp_Compensating = False, gp_NextCompensationOrdinal = 0,
     gp_UpdatedAt = ex_time 1\<rparr>"

lemma ex_begun_run: "group_run crockford_ulid ex_manifest ex_begun"
proof (rule group_run.begin_run)
  show "new_group_executor crockford_ulid ex_manifest = Inr (Some ex_manifest)"
    by (simp add: new_group_executor_def ex_manifest_valid)
  show "begin_group crockford_ulid (Some ex_manifest) (ex_id ''task'' CHR ''1'') (ex_time 1) = Inr ex_begun"
    using ex_time_valid[of 1]
    by (simp add: begin_group_def ex_begun_def ex_manifest_def KindTask_def valid_time_def is_utc_def ex_time_def)
qed

lemma ex_failed_run: "group_run crockford_ulid ex_manifest (failure_recorded ex_manifest ex_begun (failed_result (ex_member CHR ''1'')) (ex_time 2))"
proof (rule group_run.fail[OF ex_begun_run])
  show "record_failure crockford_ulid (Some ex_manifest) ex_begun (failed_result (ex_member CHR ''1'')) (ex_time 2) =
    Inr (failure_recorded ex_manifest ex_begun (failed_result (ex_member CHR ''1'')) (ex_time 2))"
    using ex_time_valid[of 1]
    by (simp add: record_failure_def failure_recorded_def validate_progress_def ex_begun_def ex_manifest_def
        KindTask_def valid_time_def is_utc_def ex_time_def failed_result_def ex_member_def member_at_def same_member_def)
qed

theorem executor_faults_witness:
  "record_failure crockford_ulid (Some ex_manifest)
     (failure_recorded ex_manifest ex_begun (failed_result (ex_member CHR ''1'')) (ex_time 2))
     (failed_result (ex_member CHR ''1'')\<lparr>mr_Ordinal := 0\<rparr>) (ex_time 3) = Inl Panic"
  unfolding executor_faults[OF ex_failed_run, THEN conjunct2, THEN conjunct1]
  using ex_time_valid[of 2]
  by (simp add: failure_recorded_def validate_progress_def ex_begun_def ex_manifest_def
      KindTask_def valid_time_def is_utc_def ex_time_def failed_result_def ex_member_def)

end
