(* ===== verification/Ipam.thy ===== *)
theory Ipam
  imports Text "HOL-Library.Product_Lexorder"
begin

unbundle bit_operations_syntax

text \<open>
  IPv4 allocation (\<open>internal/common/ipam/ipam.go\<close>): the lowest free child prefix of a pool, the highest
  free usable address of a subnet, and the checks of a reservation. Addresses and prefixes are those of
  \<open>net/netip\<close>; interval ends are \<open>uint64\<close> as in the code.
\<close>

section \<open>Addresses and prefixes\<close>

text \<open>\<open>netip.Addr\<close>: the zero value, an IPv4 address, or an IPv6 address with its zone.\<close>

datatype addr = AddrNone | Addr4 u32 | Addr6 "128 word" string

fun is4 :: "addr \<Rightarrow> bool" where
  "is4 (Addr4 a) = True"
| "is4 _ = False"

fun bit_len :: "addr \<Rightarrow> int" where
  "bit_len AddrNone = 0"
| "bit_len (Addr4 a) = 32"
| "bit_len (Addr6 a z) = 128"

text \<open>\<open>netip.Prefix\<close>; \<open>Bits\<close> is \<open>-1\<close> in an invalid prefix.\<close>

record prefix =
  pf_Addr :: addr
  pf_Bits :: int

definition prefix_from :: "addr \<Rightarrow> int \<Rightarrow> prefix" where
  "prefix_from a bits =
     \<lparr>pf_Addr = (case a of Addr6 w z \<Rightarrow> Addr6 w [] | _ \<Rightarrow> a),
      pf_Bits = (if a \<noteq> AddrNone \<and> 0 \<le> bits \<and> bits \<le> bit_len a then bits else -1)\<rparr>"

definition prefix_valid :: "prefix \<Rightarrow> bool" where
  "prefix_valid p \<longleftrightarrow> 0 \<le> pf_Bits p"

text \<open>The first bits of a word, the others cleared.\<close>

definition keep_bits :: "nat \<Rightarrow> 'a :: len word \<Rightarrow> 'a word" where
  "keep_bits n w = push_bit (LENGTH('a) - n) (drop_bit (LENGTH('a) - n) w)"

definition addr_prefix :: "addr \<Rightarrow> int \<Rightarrow> prefix" where
  "addr_prefix a bits =
     prefix_from (case a of AddrNone \<Rightarrow> AddrNone
                  | Addr4 w \<Rightarrow> Addr4 (keep_bits (nat bits) w)
                  | Addr6 w z \<Rightarrow> Addr6 (keep_bits (nat bits) w) []) bits"

text \<open>\<open>Prefix.Masked\<close>: an invalid prefix has the zero prefix as its mask.\<close>

definition masked :: "prefix \<Rightarrow> prefix" where
  "masked p = (if prefix_valid p then addr_prefix (pf_Addr p) (pf_Bits p) else \<lparr>pf_Addr = AddrNone, pf_Bits = -1\<rparr>)"

text \<open>\<open>Prefix.Contains\<close>: the same family, no zone, and no difference in the bits of the prefix.\<close>

definition prefix_contains :: "prefix \<Rightarrow> addr \<Rightarrow> bool" where
  "prefix_contains p ip \<longleftrightarrow>
     prefix_valid p \<and>
     (case (pf_Addr p, ip) of
        (Addr4 a, Addr4 b) \<Rightarrow> drop_bit (32 - nat (pf_Bits p)) (b XOR a) = 0
      | (Addr6 a z, Addr6 b z') \<Rightarrow> z' = [] \<and> drop_bit (128 - nat (pf_Bits p)) (b XOR a) = 0
      | _ \<Rightarrow> False)"

definition prefix_overlaps :: "prefix \<Rightarrow> prefix \<Rightarrow> bool" where
  "prefix_overlaps p q \<longleftrightarrow>
     prefix_valid p \<and> prefix_valid q \<and>
     (p = q \<or>
      is4 (pf_Addr p) = is4 (pf_Addr q) \<and>
      (let m = min (pf_Bits p) (pf_Bits q) in
       m = 0 \<or> pf_Addr (addr_prefix (pf_Addr p) m) = pf_Addr (addr_prefix (pf_Addr q) m)))"

section \<open>Text of a prefix\<close>

text \<open>\<open>strings.Split\<close> at one byte.\<close>

fun split_at_char :: "char \<Rightarrow> string \<Rightarrow> string list" where
  "split_at_char c [] = [[]]"
| "split_at_char c (x # xs) =
     (if x = c then [] # split_at_char c xs
      else case split_at_char c xs of [] \<Rightarrow> [[x]] | f # fs \<Rightarrow> (x # f) # fs)"

text \<open>One octet of an IPv4 address: digits without a leading zero, at most 255.\<close>

definition valid_octet :: "string \<Rightarrow> bool" where
  "valid_octet s \<longleftrightarrow>
     s \<noteq> [] \<and> list_all is_digit s \<and> (hd s = CHR ''0'' \<longrightarrow> length s = 1) \<and> decimal s \<le> 255"

definition parse_ipv4 :: "string \<Rightarrow> u32 option" where
  "parse_ipv4 s =
     (case split_at_char (CHR ''.'') s of
        [a, b, c, d] \<Rightarrow>
          if list_all valid_octet [a, b, c, d]
          then Some (of_nat (((decimal a * 256 + decimal b) * 256 + decimal c) * 256 + decimal d)) else None
      | _ \<Rightarrow> None)"

text \<open>The bits after the last slash: decimal digits without a leading zero.\<close>

definition parse_prefix_bits :: "string \<Rightarrow> nat option" where
  "parse_prefix_bits s =
     (if s \<noteq> [] \<and> list_all is_digit s \<and> (hd s = CHR ''0'' \<longrightarrow> length s = 1) then Some (decimal s) else None)"

text \<open>
  \<open>ParseIPv4Prefix\<close>: a text that is not an IPv4 prefix is refused in one way, whether it parses as an IPv6
  prefix or not at all. The slash is the last one; an IPv4 address holds none.
\<close>

definition parse_ipv4_prefix :: "string \<Rightarrow> prefix res" where
  "parse_ipv4_prefix s =
     (case split_at_char (CHR ''/'') s of
        [a, b] \<Rightarrow>
          (case (parse_ipv4 a, parse_prefix_bits b) of
             (Some w, Some n) \<Rightarrow> if n \<le> 32 then Inr (masked (prefix_from (Addr4 w) (int n))) else Inl ValidationFailed
           | _ \<Rightarrow> Inl ValidationFailed)
      | _ \<Rightarrow> Inl ValidationFailed)"

text \<open>\<open>Prefix.String\<close> of an IPv4 prefix.\<close>

function decimal_text :: "nat \<Rightarrow> string" where
  "decimal_text n =
     (if n < 10 then [char_of (48 + n)] else decimal_text (n div 10) @ [char_of (48 + n mod 10)])"
  by pat_completeness auto
termination
  by (relation "measure id") auto

declare decimal_text.simps [simp del]

definition ipv4_text :: "u32 \<Rightarrow> string" where
  "ipv4_text a =
     (let x = unat a in
      decimal_text (x div 16777216) @ ''.'' @ decimal_text (x div 65536 mod 256) @ ''.'' @
      decimal_text (x div 256 mod 256) @ ''.'' @ decimal_text (x mod 256))"

definition ipv4_prefix_text :: "u32 \<Rightarrow> nat \<Rightarrow> string" where
  "ipv4_prefix_text a n = ipv4_text a @ ''/'' @ decimal_text n"

section \<open>Reservations\<close>

definition canonical_ipv4 :: "prefix \<Rightarrow> prefix res" where
  "canonical_ipv4 p = (if \<not> prefix_valid p \<or> \<not> is4 (pf_Addr p) then Inl ValidationFailed else Inr (masked p))"

definition contains_prefix :: "prefix \<Rightarrow> prefix \<Rightarrow> bool" where
  "contains_prefix parent child \<longleftrightarrow>
     pf_Bits parent \<le> pf_Bits child \<and> prefix_contains parent (pf_Addr child)"

definition validate_root_pair :: "prefix \<Rightarrow> prefix \<Rightarrow> unit res" where
  "validate_root_pair environment_pool system_pool =
     try_res (canonical_ipv4 environment_pool) (\<lambda>e.
     try_res (canonical_ipv4 system_pool) (\<lambda>s.
     if prefix_overlaps e s then Inl ValidationFailed else Inr ()))"

fun check_reserved :: "prefix \<Rightarrow> prefix list \<Rightarrow> unit res" where
  "check_reserved candidate [] = Inr ()"
| "check_reserved candidate (r # rs) =
     try_res (canonical_ipv4 r) (\<lambda>v.
     if prefix_overlaps candidate v then Inl StateConflict else check_reserved candidate rs)"

definition validate_child :: "prefix \<Rightarrow> prefix \<Rightarrow> prefix list \<Rightarrow> unit res" where
  "validate_child parent candidate reserved =
     try_res (canonical_ipv4 parent) (\<lambda>p.
     try_res (canonical_ipv4 candidate) (\<lambda>c.
     if \<not> contains_prefix p c then Inl ValidationFailed else check_reserved c reserved))"

section \<open>Intervals\<close>

record address_interval =
  iv_start :: u64
  iv_end :: u64

text \<open>\<open>binary.BigEndian.Uint32(address.AsSlice())\<close>: the first four bytes. The slice of the zero address is
  empty, which panics; the callers have excluded it.\<close>

fun ipv4_number :: "addr \<Rightarrow> u64" where
  "ipv4_number AddrNone = 0"
| "ipv4_number (Addr4 a) = ucast a"
| "ipv4_number (Addr6 a z) = ucast (drop_bit 96 a)"

definition interval_of :: "prefix \<Rightarrow> address_interval" where
  "interval_of p =
     (let start = ipv4_number (pf_Addr p); block = push_bit (32 - nat (pf_Bits p)) 1
      in \<lparr>iv_start = start, iv_end = start + block - 1\<rparr>)"

definition align_up :: "u64 \<Rightarrow> u64 \<Rightarrow> u64 \<Rightarrow> u64" where
  "align_up v base block =
     (let offset = v - base; remainder = offset mod block
      in base + (if remainder \<noteq> 0 then offset + (block - remainder) else offset))"

definition ipv4_from_number :: "u64 \<Rightarrow> addr" where
  "ipv4_from_number v = Addr4 (ucast v)"

definition prefix_from_number :: "u64 \<Rightarrow> int \<Rightarrow> prefix" where
  "prefix_from_number start bits = prefix_from (Addr4 (ucast start)) bits"

text \<open>The reservations of the pool as intervals; the first error wins.\<close>

fun collect_intervals :: "prefix \<Rightarrow> prefix list \<Rightarrow> address_interval list res" where
  "collect_intervals parent [] = Inr []"
| "collect_intervals parent (r # rs) =
     try_res (canonical_ipv4 r) (\<lambda>v.
     if \<not> contains_prefix parent v then Inl ValidationFailed
     else try_res (collect_intervals parent rs) (\<lambda>ivs. Inr (interval_of v # ivs)))"

text \<open>
  The scan of the sorted intervals: \<open>None\<close> when neither the loop nor the check after it finds a block.
\<close>

fun scan_intervals :: "u64 \<Rightarrow> address_interval \<Rightarrow> u64 \<Rightarrow> address_interval list \<Rightarrow> u64 option" where
  "scan_intervals block parent cursor [] =
     (if cursor + block - 1 \<le> iv_end parent then Some cursor else None)"
| "scan_intervals block parent cursor (iv # ivs) =
     (if iv_end iv < cursor then scan_intervals block parent cursor ivs
      else if cursor + block - 1 < iv_start iv then Some cursor
      else let cursor' = align_up (iv_end iv + 1) (iv_start parent) block in
           if iv_end parent < cursor'
           then (if cursor' + block - 1 \<le> iv_end parent then Some cursor' else None)
           else scan_intervals block parent cursor' ivs)"

definition first_available_child :: "prefix \<Rightarrow> int \<Rightarrow> prefix list \<Rightarrow> prefix res" where
  "first_available_child parent bits reserved =
     try_res (canonical_ipv4 parent) (\<lambda>p.
     if bits < pf_Bits p \<or> 32 < bits then Inl ValidationFailed
     else try_res (collect_intervals p reserved) (\<lambda>ivs.
       (let range = interval_of p; block = push_bit (32 - nat bits) 1 in
        case scan_intervals block range (iv_start range) (sort_key (\<lambda>iv. (iv_start iv, iv_end iv)) ivs) of
          Some start \<Rightarrow> Inr (prefix_from_number start bits)
        | None \<Rightarrow> Inl StateConflict)))"

section \<open>Usable addresses\<close>

definition validate_bridge_subnet :: "prefix \<Rightarrow> unit res" where
  "validate_bridge_subnet p =
     try_res (canonical_ipv4 p) (\<lambda>_. if 30 < pf_Bits p then Inl ValidationFailed else Inr ())"

definition validate_usable_ipv4 :: "prefix \<Rightarrow> addr \<Rightarrow> unit res" where
  "validate_usable_ipv4 prefix address =
     try_res (canonical_ipv4 prefix) (\<lambda>p.
     if 30 < pf_Bits p then Inl ValidationFailed
     else if address = AddrNone \<or> \<not> is4 address \<or> \<not> prefix_contains p address then Inl ValidationFailed
     else (let range = interval_of p; v = ipv4_number address in
           if v \<le> iv_start range + 1 \<or> iv_end range \<le> v then Inl ValidationFailed else Inr ()))"

fun collect_usable :: "prefix \<Rightarrow> u64 list \<Rightarrow> addr list \<Rightarrow> u64 list res" where
  "collect_usable p seen [] = Inr seen"
| "collect_usable p seen (a # as) =
     try_res (validate_usable_ipv4 p a) (\<lambda>_.
     if ipv4_number a \<in> set seen then Inl ValidationFailed
     else collect_usable p (ipv4_number a # seen) as)"

function scan_down :: "u64 list \<Rightarrow> u64 \<Rightarrow> u64 \<Rightarrow> addr res" where
  "scan_down seen low candidate =
     (if low < candidate
      then (if candidate \<notin> set seen then Inr (ipv4_from_number candidate) else scan_down seen low (candidate - 1))
      else Inl StateConflict)"
  by pat_completeness auto
termination
proof (relation "measure (\<lambda>(seen, low, candidate). unat candidate)")
  fix seen and low candidate :: u64
  assume "low < candidate"
  then have "candidate \<noteq> 0" by auto
  then show "((seen, low, candidate - 1), (seen, low, candidate)) \<in> measure (\<lambda>(seen, low, candidate). unat candidate)"
    by (simp add: unat_minus_one unat_gt_0)
qed simp

declare scan_down.simps [simp del]

definition last_available_usable_ipv4 :: "prefix \<Rightarrow> addr list \<Rightarrow> addr res" where
  "last_available_usable_ipv4 prefix reserved =
     try_res (canonical_ipv4 prefix) (\<lambda>p.
     if 30 < pf_Bits p then Inl StateConflict
     else try_res (collect_usable p [] reserved) (\<lambda>seen.
       scan_down seen (iv_start (interval_of p) + 1) (iv_end (interval_of p) - 1)))"

section \<open>The addresses of a prefix\<close>

text \<open>The prefixes that the constructors of \<open>net/netip\<close> make.\<close>

definition prefix_wf :: "prefix \<Rightarrow> bool" where
  "prefix_wf p \<longleftrightarrow> -1 \<le> pf_Bits p \<and> pf_Bits p \<le> bit_len (pf_Addr p) \<and> (pf_Addr p = AddrNone \<longrightarrow> pf_Bits p = -1)"

text \<open>A canonical IPv4 prefix: an address aligned to its length; and the numbers of its addresses.\<close>

definition net :: "u32 \<Rightarrow> nat \<Rightarrow> prefix" where
  "net a n = \<lparr>pf_Addr = Addr4 a, pf_Bits = int n\<rparr>"

definition aligned :: "u32 \<Rightarrow> nat \<Rightarrow> bool" where
  "aligned a n \<longleftrightarrow> n \<le> 32 \<and> 2 ^ (32 - n) dvd unat a"

definition block_range :: "nat \<Rightarrow> nat \<Rightarrow> nat set" where
  "block_range lo block = {lo..<lo + block}"

definition net_range :: "u32 \<Rightarrow> nat \<Rightarrow> nat set" where
  "net_range a n = block_range (unat a) (2 ^ (32 - n))"

lemma net_simps [simp]: "pf_Addr (net a n) = Addr4 a" "pf_Bits (net a n) = int n" "net a n = net b m \<longleftrightarrow> a = b \<and> n = m"
  by (auto simp: net_def)

lemma unat_drop_bit: "unat (drop_bit k (a :: u32)) = unat a div 2 ^ k"
  unfolding unsigned_drop_bit_eq
  by (simp add: take_bit_nat_eq_self u32_less[simplified] drop_bit_nat_def)

lemma unat_keep_bits: "unat (keep_bits n a :: u32) = unat a div 2 ^ (32 - n) * 2 ^ (32 - n)"
proof -
  have "unat a div 2 ^ (32 - n) * 2 ^ (32 - n) < 2 ^ 32"
    using u32_less[of a] by (metis div_times_less_eq_dividend le_less_trans)
  then show ?thesis
    unfolding keep_bits_def unsigned_push_bit_eq unat_drop_bit push_bit_nat_def
    by (simp add: take_bit_nat_eq_self)
qed

lemma keep_bits_aligned: "n \<le> 32 \<Longrightarrow> aligned (keep_bits n a) n"
  by (simp add: aligned_def unat_keep_bits)

lemma keep_bits_id: "aligned a n \<Longrightarrow> keep_bits n a = a"
  by (simp add: aligned_def unat_keep_bits word_unat_eq_iff)

lemma net_valid [simp]: "prefix_valid (net a n)"
  by (simp add: prefix_valid_def)

lemma addr_prefix_net: "n \<le> 32 \<Longrightarrow> addr_prefix (Addr4 a) (int n) = net (keep_bits n a) n"
  by (simp add: addr_prefix_def prefix_from_def net_def)

lemma masked_net: "n \<le> 32 \<Longrightarrow> masked (net a n) = net (keep_bits n a) n"
  by (simp add: masked_def addr_prefix_net)

lemma canonical_ipv4_Inr:
  assumes "prefix_wf p" "canonical_ipv4 p = Inr q"
  obtains a n where "p = net a n" "n \<le> 32" "q = net (keep_bits n a) n" "aligned (keep_bits n a) n"
proof -
  obtain a where a: "pf_Addr p = Addr4 a" and v: "0 \<le> pf_Bits p" "pf_Bits p \<le> 32"
    using assms by (cases "pf_Addr p") (auto simp: canonical_ipv4_def prefix_wf_def prefix_valid_def split: if_splits)
  then have p: "p = net a (nat (pf_Bits p))" "nat (pf_Bits p) \<le> 32"
    by (cases p; simp add: net_def)+
  then have "q = net (keep_bits (nat (pf_Bits p)) a) (nat (pf_Bits p))"
    using assms(2) masked_net[of "nat (pf_Bits p)" a] by (auto simp: canonical_ipv4_def split: if_splits)
  then show ?thesis
    using that p keep_bits_aligned by blast
qed

lemma canonical_ipv4_err: "canonical_ipv4 p = Inl e \<Longrightarrow> e = ValidationFailed"
  by (auto simp: canonical_ipv4_def split: if_splits)

lemma canonical_net: "n \<le> 32 \<Longrightarrow> canonical_ipv4 (net a n) = Inr (net (keep_bits n a) n)"
  by (simp add: canonical_ipv4_def masked_net)

lemma canonical_aligned: "aligned a n \<Longrightarrow> canonical_ipv4 (net a n) = Inr (net a n)"
  using canonical_net[of n a] keep_bits_id[of a n] by (simp add: aligned_def)

lemma xor_zero: "(x :: 'a :: len word) XOR y = 0 \<longleftrightarrow> x = y"
proof
  assume "x XOR y = 0"
  then have "(x XOR y) XOR y = y" by simp
  then show "x = y" by (simp add: xor.assoc)
qed simp

lemma drop_xor_zero: "drop_bit k (x XOR y :: u32) = 0 \<longleftrightarrow> unat x div 2 ^ k = unat y div 2 ^ k"
proof -
  have "drop_bit k (x XOR y) = 0 \<longleftrightarrow> drop_bit k x = drop_bit k y"
    unfolding drop_bit_xor xor_zero ..
  then show ?thesis
    unfolding word_unat_eq_iff[of "drop_bit k x"] unat_drop_bit .
qed

lemma net_range_div: "aligned a n \<Longrightarrow> x \<in> net_range a n \<longleftrightarrow> x div 2 ^ (32 - n) = unat a div 2 ^ (32 - n)"
proof -
  assume "aligned a n"
  then obtain q where q: "unat a = 2 ^ (32 - n) * q"
    by (auto simp: aligned_def dvd_def)
  have "x div b = q \<longleftrightarrow> b * q \<le> x \<and> x < b * q + b" if "0 < b" for b :: nat
    using that by (auto simp: div_nat_eqI dividend_less_times_div mult.commute less_mult_imp_div_less)
      (metis dividend_less_times_div mult.commute add.commute)
  then show ?thesis
    by (simp add: net_range_def block_range_def q)
qed

lemma contains_net: "prefix_contains (net a n) (Addr4 x) \<longleftrightarrow> unat x div 2 ^ (32 - n) = unat a div 2 ^ (32 - n)"
  by (simp only: prefix_contains_def drop_xor_zero net_simps net_valid nat_int prod.case addr.case simp_thms)

text \<open>A coarser prefix either covers a finer one or is disjoint from it.\<close>

lemma net_ranges_meet:
  assumes "aligned a n" "aligned c m" "m \<le> n"
  shows "net_range a n \<inter> net_range c m \<noteq> {} \<longleftrightarrow> unat a div 2 ^ (32 - m) = unat c div 2 ^ (32 - m)"
    and "net_range a n \<inter> net_range c m \<noteq> {} \<Longrightarrow> net_range a n \<subseteq> net_range c m"
proof -
  obtain d where d: "32 - m = (32 - n) + d"
    using assms(3) le_Suc_ex[of "32 - n" "32 - m"] diff_le_mono2 by blast
  have coarse: "x div 2 ^ (32 - m) = unat a div 2 ^ (32 - m)" if "x \<in> net_range a n" for x
    using that unfolding net_range_div[OF assms(1)] d power_add div_mult2_eq by simp
  have a: "unat a \<in> net_range a n"
    by (simp add: net_range_div[OF assms(1)])
  show meet: "net_range a n \<inter> net_range c m \<noteq> {} \<longleftrightarrow> unat a div 2 ^ (32 - m) = unat c div 2 ^ (32 - m)"
  proof
    assume "net_range a n \<inter> net_range c m \<noteq> {}"
    then obtain x where "x \<in> net_range a n" "x \<in> net_range c m" by blast
    then show "unat a div 2 ^ (32 - m) = unat c div 2 ^ (32 - m)"
      using coarse[of x] net_range_div[OF assms(2), of x] by simp
  next
    assume "unat a div 2 ^ (32 - m) = unat c div 2 ^ (32 - m)"
    then have "unat a \<in> net_range c m"
      by (simp only: net_range_div[OF assms(2)])
    then show "net_range a n \<inter> net_range c m \<noteq> {}"
      using a by blast
  qed
  show "net_range a n \<subseteq> net_range c m" if "net_range a n \<inter> net_range c m \<noteq> {}"
  proof
    fix x assume "x \<in> net_range a n"
    then show "x \<in> net_range c m"
      using that coarse[of x] unfolding meet net_range_div[OF assms(2)] by simp
  qed
qed

lemma contains_prefix_net:
  assumes "aligned a n" "aligned c m"
  shows "contains_prefix (net c m) (net a n) \<longleftrightarrow> net_range a n \<subseteq> net_range c m"
proof (cases "m \<le> n")
  case True
  have "net_range a n \<noteq> {}"
    by (simp add: net_range_def block_range_def)
  then have "net_range a n \<inter> net_range c m \<noteq> {} \<longleftrightarrow> net_range a n \<subseteq> net_range c m"
    using net_ranges_meet(2)[OF assms True] by auto
  then show ?thesis
    using True net_ranges_meet(1)[OF assms True] by (simp add: contains_prefix_def contains_net)
next
  case False
  then have "(2::nat) ^ (32 - m) < 2 ^ (32 - n)"
    using assms by (intro power_strict_increasing) (auto simp: aligned_def)
  then have "card (net_range c m) < card (net_range a n)"
    by (simp add: net_range_def block_range_def)
  then have "\<not> net_range a n \<subseteq> net_range c m"
    using card_mono[of "net_range c m" "net_range a n"] by (auto simp: net_range_def block_range_def)
  then show ?thesis
    using False by (simp add: contains_prefix_def)
qed

lemma keep_bits_eq: "m \<le> 32 \<Longrightarrow> keep_bits m a = keep_bits m c \<longleftrightarrow> unat a div 2 ^ (32 - m) = unat (c :: u32) div 2 ^ (32 - m)"
  by (simp add: word_unat_eq_iff unat_keep_bits)

lemma overlaps_net_le:
  assumes "aligned a n" "aligned c m" "m \<le> n"
  shows "prefix_overlaps (net a n) (net c m) \<longleftrightarrow> net_range a n \<inter> net_range c m \<noteq> {}"
    and "prefix_overlaps (net c m) (net a n) \<longleftrightarrow> net_range a n \<inter> net_range c m \<noteq> {}"
proof -
  have m: "m \<le> 32" "min (int n) (int m) = int m" "min (int m) (int n) = int m"
    using assms by (auto simp: aligned_def)
  have zero: "unat a div 2 ^ (32 - m) = unat c div 2 ^ (32 - m)" if "m = 0"
    using that u32_less[of a] u32_less[of c] by simp
  show "prefix_overlaps (net a n) (net c m) \<longleftrightarrow> net_range a n \<inter> net_range c m \<noteq> {}"
    "prefix_overlaps (net c m) (net a n) \<longleftrightarrow> net_range a n \<inter> net_range c m \<noteq> {}"
    unfolding net_ranges_meet(1)[OF assms]
    using zero m keep_bits_eq[OF m(1), of a c] keep_bits_eq[OF m(1), of c a]
    by (auto simp: prefix_overlaps_def Let_def addr_prefix_net)
qed

lemma overlaps_net:
  assumes "aligned a n" "aligned c m"
  shows "prefix_overlaps (net a n) (net c m) \<longleftrightarrow> net_range a n \<inter> net_range c m \<noteq> {}"
  using overlaps_net_le[of a n c m] overlaps_net_le[of c m a n] assms by (cases "m \<le> n") auto

section \<open>Intervals without overflow\<close>

lemma unat_ucast_u64: "unat (ucast (a :: u32) :: u64) = unat a"
  by (simp add: unsigned_ucast_eq take_bit_nat_eq_self less_trans[OF u32_less])

lemma unat_block: "k \<le> 32 \<Longrightarrow> unat (push_bit k 1 :: u64) = 2 ^ k"
  unfolding unsigned_push_bit_eq by (simp add: push_bit_nat_def take_bit_nat_eq_self)

lemma unat_add_u64: "unat x + unat y < 2 ^ 64 \<Longrightarrow> unat (x + y :: u64) = unat x + unat y"
  by (simp add: unat_word_ariths)

lemma unat_sub_u64: "unat y \<le> unat x \<Longrightarrow> unat (x - y :: u64) = unat x - unat y"
  by (simp add: unat_sub_if_size)

text \<open>The scan over natural numbers, of which the scan of the code is an implementation that never wraps around.\<close>

definition align_nat :: "nat \<Rightarrow> nat \<Rightarrow> nat \<Rightarrow> nat" where
  "align_nat v base block = base + (v - base + block - 1) div block * block"

fun find_gap :: "nat \<Rightarrow> nat \<Rightarrow> nat \<Rightarrow> nat \<Rightarrow> (nat \<times> nat) list \<Rightarrow> nat option" where
  "find_gap block low_addr top_addr cursor [] = (if cursor + block - 1 \<le> top_addr then Some cursor else None)"
| "find_gap block low_addr top_addr cursor ((lo, hi) # ivs) =
     (if hi < cursor then find_gap block low_addr top_addr cursor ivs
      else if cursor + block - 1 < lo then Some cursor
      else if top_addr < align_nat (hi + 1) low_addr block then None
      else find_gap block low_addr top_addr (align_nat (hi + 1) low_addr block) ivs)"

lemma align_up_offset:
  assumes "0 < b"
  shows "(if x mod b \<noteq> 0 then x + (b - x mod b) else x) = (x + b - 1) div b * (b :: nat)"
proof (cases "x mod b = 0")
  case True
  then obtain q where "x = b * q" by (auto simp: mod_eq_0_iff_dvd dvd_def)
  moreover have "b * q + b - 1 = b * q + (b - 1)"
    using assms by simp
  ultimately show ?thesis
    using assms True by (simp only: div_mult_self4 div_less) (simp add: mult.commute)
next
  case False
  define q r where "q = x div b" and "r = x mod b"
  have x: "x = b * q + r" and r: "0 < r" "r < b"
    using False assms by (simp_all add: q_def r_def)
  have "x + b - 1 = b * (q + 1) + (r - 1)"
    using r by (simp add: x algebra_simps)
  then have "(x + b - 1) div b = q + 1"
    using r by (simp only: div_mult_self4 div_less)
  moreover have "x + (b - r) = b * (q + 1)"
    using r by (simp add: x algebra_simps)
  ultimately show ?thesis
    using False by (simp add: r_def mult.commute)
qed

lemma unat_align_up:
  assumes "unat base \<le> unat v" "unat v \<le> 2 ^ 33" "0 < unat block" "unat block \<le> 2 ^ 32"
  shows "unat (align_up v base block) = align_nat (unat v) (unat base) (unat block)"
proof -
  let ?x = "unat v - unat base" and ?b = "unat block"
  have offset: "unat (v - base) = ?x" "unat ((v - base) mod block) = ?x mod ?b"
    using assms(1) by (simp_all add: unat_sub_u64 unat_mod_distrib)
  have less: "?x mod ?b < ?b"
    using assms(3) by simp
  then have gap: "unat (block - (v - base) mod block) = ?b - ?x mod ?b"
    using offset by (simp add: unat_sub_u64)
  define up where "up = (if (v - base) mod block \<noteq> 0 then v - base + (block - (v - base) mod block) else v - base)"
  have unat_up: "unat up = (?x + ?b - 1) div ?b * ?b"
    unfolding align_up_offset[OF assms(3), symmetric] up_def
    using offset gap less assms by (auto simp: unat_add_u64 unat_eq_0 word_unat_eq_iff)
  have "unat up \<le> 2 ^ 33 + 2 ^ 32"
    unfolding unat_up align_up_offset[OF assms(3), symmetric] using assms by (auto intro: order_trans)
  then have "unat base + unat up < 2 ^ 64"
    using assms by simp
  then have "unat (base + up) = unat base + unat up"
    by (rule unat_add_u64)
  then show ?thesis
    unfolding align_up_def Let_def align_nat_def unat_up[symmetric] up_def .
qed

text \<open>Block \<open>k\<close> of the pool meets none of the intervals.\<close>

definition block_free :: "nat \<Rightarrow> nat \<Rightarrow> (nat \<times> nat) list \<Rightarrow> nat \<Rightarrow> bool" where
  "block_free block start ivs k \<longleftrightarrow>
     (\<forall>(lo, hi) \<in> set ivs. start + (k + 1) * block \<le> lo \<or> hi < start + k * block)"

definition first_free_from :: "nat \<Rightarrow> nat \<Rightarrow> nat \<Rightarrow> (nat \<times> nat) list \<Rightarrow> nat \<Rightarrow> nat option \<Rightarrow> bool" where
  "first_free_from block start n ivs c found \<longleftrightarrow>
     (case found of
        None \<Rightarrow> \<forall>k. c \<le> k \<and> k < n \<longrightarrow> \<not> block_free block start ivs k
      | Some x \<Rightarrow> \<exists>k. c \<le> k \<and> k < n \<and> x = start + k * block \<and> block_free block start ivs k \<and>
          (\<forall>j. c \<le> j \<and> j < k \<longrightarrow> \<not> block_free block start ivs j))"

lemma align_nat_spec:
  assumes "0 < b" "s \<le> v"
  obtains c where "align_nat v s b = s + c * b" "v \<le> s + c * b" "\<forall>k. v \<le> s + k * b \<longrightarrow> c \<le> k"
proof
  let ?c = "(v - s + b - 1) div b"
  show "align_nat v s b = s + ?c * b"
    by (simp add: align_nat_def)
  show "v \<le> s + ?c * b"
  proof -
    have "v - s + b - 1 < (?c + 1) * b"
      using assms(1) by (metis Suc_eq_plus1 dividend_less_times_div mult.commute mult_Suc_right add.commute)
    then show ?thesis
      using assms by (simp add: algebra_simps)
  qed
  show "\<forall>k. v \<le> s + k * b \<longrightarrow> ?c \<le> k"
  proof (intro allI impI)
    fix k assume that: "v \<le> s + k * b"
    have "v - s + b - 1 < (k + 1) * b"
      using that assms by (simp add: algebra_simps)
    then show "?c \<le> k"
      using assms(1) by (metis Suc_eq_plus1 less_Suc_eq_le less_mult_imp_div_less)
  qed
qed

lemma block_less: "0 < b \<Longrightarrow> s + k * b < s + j * b \<longleftrightarrow> k < (j :: nat)" "0 < b \<Longrightarrow> s + k * b \<le> s + j * b \<longleftrightarrow> k \<le> (j :: nat)"
  by simp_all

lemma find_gap_spec:
  assumes "0 < b" "sorted (map fst ivs)"
    "\<forall>(lo, hi) \<in> set ivs. start \<le> lo \<and> lo \<le> hi \<and> hi \<le> top_addr"
    "Suc top_addr = start + n * b"
  shows "first_free_from b start n ivs c (find_gap b start top_addr (start + c * b) ivs)"
  using assms(2,3)
proof (induction ivs arbitrary: c)
  case Nil
  have "start + c * b + b - 1 \<le> top_addr \<longleftrightarrow> Suc c \<le> n"
    using assms(1,4) block_less(2)[OF assms(1), of start "Suc c" n] by auto
  then show ?case
    by (auto simp: first_free_from_def block_free_def)
next
  case (Cons iv ivs)
  obtain lo hi where iv: "iv = (lo, hi)" by force
  have bounds: "start \<le> lo" "lo \<le> hi" "hi \<le> top_addr"
    using Cons.prems by (auto simp: iv)
  have split: "block_free b start (iv # ivs) k \<longleftrightarrow>
      (start + (k + 1) * b \<le> lo \<or> hi < start + k * b) \<and> block_free b start ivs k" for k
    by (simp add: block_free_def iv)
  have IH: "first_free_from b start n ivs c' (find_gap b start top_addr (start + c' * b) ivs)" for c'
    using Cons by simp
  consider (past) "hi < start + c * b" | (gap) "start + c * b + b - 1 < lo" "start + c * b \<le> hi"
    | (hit) "lo \<le> start + c * b + b - 1" "start + c * b \<le> hi"
    by linarith
  then show ?case
  proof cases
    case past
    then have "hi < start + k * b" if "c \<le> k" for k
      using that block_less(2)[OF assms(1), of start c k] by linarith
    then have "first_free_from b start n (iv # ivs) c found = first_free_from b start n ivs c found" for found
      by (auto simp: first_free_from_def split split: option.split)
    then show ?thesis
      using IH[of c] past by (simp add: iv)
  next
    case gap
    have "start + c * b < start + n * b"
      using gap bounds assms(4) by linarith
    then have "start + (c + 1) * b \<le> lo" "c < n"
      using gap assms(1) by (auto simp: algebra_simps)
    moreover have "start + (c + 1) * b \<le> fst jv" if "jv \<in> set ivs" for jv
      using that Cons.prems(1) calculation(1) by (fastforce simp: iv)
    ultimately have "block_free b start (iv # ivs) c" "c < n"
      by (auto simp: block_free_def iv split: prod.splits)
    then show ?thesis
      using gap by (auto simp: iv first_free_from_def)
  next
    case hit
    have le: "start \<le> hi + 1"
      using bounds by simp
    obtain c' where c': "align_nat (hi + 1) start b = start + c' * b" "hi + 1 \<le> start + c' * b"
      "\<forall>k. hi + 1 \<le> start + k * b \<longrightarrow> c' \<le> k"
      by (rule align_nat_spec[OF assms(1) le])
    have busy: "\<not> block_free b start (iv # ivs) k" if "c \<le> k" "k < c'" for k
    proof -
      have "\<not> hi < start + k * b"
        using c'(3)[rule_format, of k] that(2) by auto
      moreover have "start + c * b \<le> start + k * b"
        using that(1) block_less(2)[OF assms(1)] by blast
      moreover have "(k + 1) * b = k * b + b"
        by simp
      ultimately show ?thesis
        using hit assms(1) unfolding split by linarith
    qed
    have later: "block_free b start (iv # ivs) k \<longleftrightarrow> block_free b start ivs k" if "c' \<le> k" for k
    proof -
      have "start + c' * b \<le> start + k * b"
        using that block_less(2)[OF assms(1)] by blast
      then have "hi < start + k * b"
        using c'(2) by linarith
      then show ?thesis by (simp add: split)
    qed
    have c_le: "c \<le> c'"
      using c'(2) hit(2) block_less(2)[OF assms(1), of start c c'] by linarith
    have lift: "first_free_from b start n (iv # ivs) c found" if "first_free_from b start n ivs c' found" for found
      using that busy later c_le unfolding first_free_from_def
      by (cases found) (auto, metis leI, metis leI le_trans)
    show ?thesis
    proof (cases "top_addr < start + c' * b")
      case True
      then have "n \<le> c'"
        using assms(4) block_less(2)[OF assms(1), of start n c'] by linarith
      then have "first_free_from b start n ivs c' None"
        by (auto simp: first_free_from_def)
      then show ?thesis
        using lift hit True c'(1) by (simp add: iv)
    next
      case False
      then show ?thesis
        using lift[OF IH[of c']] hit c'(1) by (simp add: iv)
    qed
  qed
qed

lemma align_nat_le: "0 < b \<Longrightarrow> s \<le> v \<Longrightarrow> align_nat v s b \<le> v + b - 1"
  unfolding align_nat_def using div_times_less_eq_dividend[of "v - s + b - 1" b] by linarith

definition interval_bounds :: "address_interval \<Rightarrow> nat \<times> nat" where
  "interval_bounds iv = (unat (iv_start iv), unat (iv_end iv))"

lemma scan_refines:
  assumes "0 < unat block" "unat block \<le> 2 ^ 32" "unat (iv_end parent) < 2 ^ 32"
    "\<forall>iv \<in> set ivs. unat (iv_end iv) < 2 ^ 32 \<and> unat (iv_start parent) \<le> unat (iv_end iv)"
    "unat cursor \<le> 2 ^ 33"
  shows "map_option unat (scan_intervals block parent cursor ivs) =
    find_gap (unat block) (unat (iv_start parent)) (unat (iv_end parent)) (unat cursor) (map interval_bounds ivs)"
  using assms(4,5)
proof (induction ivs arbitrary: cursor)
  case Nil
  have "unat (cursor + block - 1) = unat cursor + unat block - 1"
    using assms Nil by (subst unat_sub_u64) (auto simp: unat_add_u64)
  then show ?case
    by (simp add: word_le_nat_alt)
next
  case (Cons iv ivs)
  let ?B = "unat block" and ?S = "unat (iv_start parent)" and ?E = "unat (iv_end parent)"
  have sum: "unat (cursor + block - 1) = unat cursor + ?B - 1"
    using assms Cons.prems by (subst unat_sub_u64) (auto simp: unat_add_u64)
  define cursor' where "cursor' = align_up (iv_end iv + 1) (iv_start parent) block"
  have hi: "unat (iv_end iv + 1) = unat (iv_end iv) + 1"
    using Cons.prems by (subst unat_add_u64) auto
  have up: "unat cursor' = align_nat (unat (iv_end iv) + 1) ?S ?B"
    unfolding cursor'_def hi[symmetric] using Cons.prems assms by (intro unat_align_up) (auto simp: hi)
  have "unat cursor' \<le> unat (iv_end iv) + 1 + ?B - 1"
    unfolding up using Cons.prems assms by (intro align_nat_le) auto
  also have "\<dots> \<le> 2 ^ 33"
    using Cons.prems assms by simp
  finally have small: "unat cursor' \<le> 2 ^ 33" .
  have sum': "unat (cursor' + block - 1) = unat cursor' + ?B - 1"
    using assms small by (subst unat_sub_u64) (auto simp: unat_add_u64)
  have IH: "map_option unat (scan_intervals block parent x ivs) =
      find_gap ?B ?S ?E (unat x) (map interval_bounds ivs)" if "unat x \<le> 2 ^ 33" for x
    using Cons that by simp
  show ?case
    using IH[of cursor'] IH[of cursor] Cons.prems(2) small sum sum' up assms(1)
    by (auto simp: interval_bounds_def[of iv] Let_def cursor'_def[symmetric] word_less_nat_alt word_le_nat_alt)
qed

section \<open>The pool and its reservations\<close>

lemma interval_of_net:
  assumes "aligned a n"
  shows "interval_bounds (interval_of (net a n)) = (unat a, unat a + 2 ^ (32 - n) - 1)"
    and "unat a + 2 ^ (32 - n) \<le> 2 ^ 32"
proof -
  have n: "n \<le> 32" and dvd: "2 ^ (32 - n) dvd unat a"
    using assms by (auto simp: aligned_def)
  have pow: "(2::nat) ^ 32 = 2 ^ (32 - n) * 2 ^ n"
    using n by (simp add: power_add[symmetric])
  obtain q where q: "unat a = 2 ^ (32 - n) * q" using dvd by (auto simp: dvd_def)
  then have "2 ^ (32 - n) * q < (2::nat) ^ (32 - n) * 2 ^ n"
    using u32_less[of a] pow by simp
  then have "q + 1 \<le> 2 ^ n" by simp
  then have "2 ^ (32 - n) * (q + 1) \<le> (2::nat) ^ (32 - n) * 2 ^ n"
    by (rule mult_le_mono2)
  then show le: "unat a + 2 ^ (32 - n) \<le> 2 ^ 32"
    unfolding pow q by (simp add: algebra_simps)
  have block: "unat (push_bit (32 - n) 1 :: u64) = 2 ^ (32 - n)" "unat (ucast a :: u64) = unat a"
    by (simp only: unat_block diff_le_self) (rule unat_ucast_u64)
  have sum: "unat (ucast a + push_bit (32 - n) 1 :: u64) = unat a + 2 ^ (32 - n)"
    unfolding block[symmetric] by (rule unat_add_u64) (use le in \<open>simp only: block, simp\<close>)
  have "unat (ucast a + push_bit (32 - n) 1 - 1 :: u64) = unat a + 2 ^ (32 - n) - 1"
    unfolding sum[symmetric] by (subst unat_sub_u64) (simp_all only: sum unat_1, simp add: Suc_le_eq)
  then show "interval_bounds (interval_of (net a n)) = (unat a, unat a + 2 ^ (32 - n) - 1)"
    by (simp only: interval_bounds_def interval_of_def Let_def net_simps nat_int ipv4_number.simps block
        address_interval.simps)
qed

text \<open>The reservations of a list as their ranges of addresses, when all lie inside the pool.\<close>

fun prefix_range :: "prefix \<Rightarrow> nat set" where
  "prefix_range p =
     (case pf_Addr (masked p) of Addr4 a \<Rightarrow> net_range a (nat (pf_Bits p)) | _ \<Rightarrow> {})"

declare prefix_range.simps [simp del]

lemma prefix_range_net: "n \<le> 32 \<Longrightarrow> prefix_range (net a n) = net_range (keep_bits n a) n"
  by (simp add: prefix_range.simps masked_net)

lemma collect_intervals_Inr:
  assumes "\<forall>r \<in> set rs. prefix_wf r" "aligned a n"
  shows "collect_intervals (net a n) rs = Inr ivs \<longleftrightarrow>
    (\<forall>r \<in> set rs. prefix_valid r \<and> is4 (pf_Addr r) \<and> prefix_range r \<subseteq> net_range a n) \<and>
    ivs = map (interval_of \<circ> masked) rs"
  using assms(1)
proof (induction rs arbitrary: ivs)
  case (Cons r rs)
  show ?case
  proof (cases "canonical_ipv4 r")
    case (Inl e)
    then show ?thesis by (auto simp: canonical_ipv4_def split: if_splits)
  next
    case (Inr q)
    then obtain b m where r: "r = net b m" "m \<le> 32" "q = net (keep_bits m b) m" "aligned (keep_bits m b) m"
      using Cons.prems canonical_ipv4_Inr[of r q] by auto
    have "contains_prefix (net a n) q \<longleftrightarrow> prefix_range r \<subseteq> net_range a n"
      using contains_prefix_net[OF r(4) assms(2)] r by (simp add: prefix_range_net)
    then show ?thesis
      using Cons r Inr by (auto simp: masked_net)
  qed
qed auto

lemma collect_intervals_err: "collect_intervals p rs = Inl e \<Longrightarrow> e = ValidationFailed"
  by (induction rs arbitrary: e) (auto simp: try_res_eq_Inl dest: canonical_ipv4_err split: if_splits)

text \<open>Child \<open>k\<close> of a pool, and whether it meets no reservation.\<close>

definition child_range :: "nat \<Rightarrow> nat \<Rightarrow> nat \<Rightarrow> nat set" where
  "child_range start bits k = block_range (start + k * 2 ^ (32 - bits)) (2 ^ (32 - bits))"

definition child_free :: "nat \<Rightarrow> nat \<Rightarrow> prefix list \<Rightarrow> nat \<Rightarrow> bool" where
  "child_free start bits reserved k \<longleftrightarrow> (\<forall>r \<in> set reserved. child_range start bits k \<inter> prefix_range r = {})"

lemma block_meets:
  assumes "0 < n" "0 < m"
  shows "block_range lo n \<inter> block_range x m = {} \<longleftrightarrow> lo + n \<le> x \<or> x + m \<le> lo"
  using assms by (auto simp: block_range_def disjoint_iff)

lemma masked_wf:
  assumes "prefix_wf r" "prefix_valid r" "is4 (pf_Addr r)"
  obtains a n where "masked r = net a n" "aligned a n" "prefix_range r = net_range a n"
proof -
  have "canonical_ipv4 r = Inr (masked r)"
    using assms by (simp add: canonical_ipv4_def)
  then obtain b n where "r = net b n" "n \<le> 32" "masked r = net (keep_bits n b) n" "aligned (keep_bits n b) n"
    using canonical_ipv4_Inr[OF assms(1)] by metis
  then show ?thesis
    using that prefix_range_net by blast
qed

lemma block_free_child:
  assumes "\<forall>r \<in> set rs. prefix_wf r \<and> prefix_valid r \<and> is4 (pf_Addr r)"
  shows "block_free (2 ^ (32 - bits)) start (map (interval_bounds \<circ> interval_of \<circ> masked) rs) k \<longleftrightarrow>
    child_free start bits rs k"
proof -
  have "(case interval_bounds (interval_of (masked r)) of (lo, hi) \<Rightarrow>
        start + (k + 1) * 2 ^ (32 - bits) \<le> lo \<or> hi < start + k * 2 ^ (32 - bits)) \<longleftrightarrow>
      child_range start bits k \<inter> prefix_range r = {}" if r_in: "r \<in> set rs" for r
  proof -
    obtain a n where r: "masked r = net a n" "aligned a n" "prefix_range r = net_range a n"
      by (rule masked_wf[of r]) (use assms r_in in auto)
    have pos: "(0::nat) < 2 ^ (32 - n)" "(0::nat) < 2 ^ (32 - bits)"
      by simp_all
    have "unat a + 2 ^ (32 - n) - 1 < x \<longleftrightarrow> unat a + 2 ^ (32 - n) \<le> x" for x
      using pos(1) by linarith
    then show ?thesis
      unfolding r(1,3) interval_of_net(1)[OF r(2)] child_range_def net_range_def block_meets[OF pos(2,1)] prod.case
      by (simp add: add.assoc add_mult_distrib add.commute[of "2 ^ (32 - bits)"])
  qed
  then show ?thesis
    by (simp add: block_free_def child_free_def)
qed

text \<open>The request that the allocation accepts.\<close>

definition request_ok :: "prefix \<Rightarrow> int \<Rightarrow> prefix list \<Rightarrow> bool" where
  "request_ok parent bits reserved \<longleftrightarrow>
     prefix_valid parent \<and> is4 (pf_Addr parent) \<and> pf_Bits parent \<le> bits \<and> bits \<le> 32 \<and>
     (\<forall>r \<in> set reserved. prefix_valid r \<and> is4 (pf_Addr r) \<and> prefix_range r \<subseteq> prefix_range parent)"

definition child_prefix :: "u32 \<Rightarrow> nat \<Rightarrow> nat \<Rightarrow> prefix" where
  "child_prefix a bits k = net (of_nat (unat a + k * 2 ^ (32 - bits))) bits"

lemma u32_of_nat: "x < 2 ^ 32 \<Longrightarrow> unat (of_nat x :: u32) = x"
  by (simp add: unat_of_nat take_bit_nat_eq_self)

lemma pool_size: "n \<le> m \<Longrightarrow> m \<le> 32 \<Longrightarrow> (2::nat) ^ (32 - n) = 2 ^ (m - n) * 2 ^ (32 - m)"
  by (simp add: power_add[symmetric])

lemma child_within:
  assumes "aligned a n" "n \<le> m" "m \<le> 32" "k < 2 ^ (m - n)"
  shows "unat a + (k + 1) * 2 ^ (32 - m) \<le> unat a + 2 ^ (32 - n)"
    and "unat (of_nat (unat a + k * 2 ^ (32 - m)) :: u32) = unat a + k * 2 ^ (32 - m)"
    and "aligned (of_nat (unat a + k * 2 ^ (32 - m))) m"
    and "net_range (of_nat (unat a + k * 2 ^ (32 - m))) m = child_range (unat a) m k"
proof -
  have "(k + 1) * 2 ^ (32 - m) \<le> 2 ^ (m - n) * 2 ^ (32 - m)"
    using assms(4) by (intro mult_le_mono1) simp
  then show le: "unat a + (k + 1) * 2 ^ (32 - m) \<le> unat a + 2 ^ (32 - n)"
    using pool_size[OF assms(2,3)] by simp
  moreover have "(k + 1) * (2::nat) ^ (32 - m) = k * 2 ^ (32 - m) + 2 ^ (32 - m)" "(0::nat) < 2 ^ (32 - m)"
    by simp_all
  ultimately have "unat a + k * 2 ^ (32 - m) < 2 ^ 32"
    using interval_of_net(2)[OF assms(1)] by linarith
  then show u: "unat (of_nat (unat a + k * 2 ^ (32 - m)) :: u32) = unat a + k * 2 ^ (32 - m)"
    by (rule u32_of_nat)
  have "(2::nat) ^ (32 - m) dvd 2 ^ (32 - n)"
    using assms(2) by (intro le_imp_power_dvd) simp
  then have "2 ^ (32 - m) dvd unat a"
    using assms(1) by (auto simp: aligned_def)
  then show "aligned (of_nat (unat a + k * 2 ^ (32 - m))) m"
    unfolding aligned_def u using assms(3) by simp
  show "net_range (of_nat (unat a + k * 2 ^ (32 - m))) m = child_range (unat a) m k"
    unfolding net_range_def child_range_def u ..
qed

lemma sorted_interval_starts:
  "sorted (map fst (map interval_bounds (sort_key (\<lambda>iv. (iv_start iv, iv_end iv)) ivs)))"
proof -
  have "sorted_wrt (\<lambda>x y. (iv_start x, iv_end x) \<le> (iv_start y, iv_end y)) (sort_key (\<lambda>iv. (iv_start iv, iv_end iv)) ivs)"
    using sorted_sort_key[of "\<lambda>iv. (iv_start iv, iv_end iv)" ivs] by (simp add: sorted_map)
  then have "sorted_wrt (\<lambda>x y. unat (iv_start x) \<le> unat (iv_start y)) (sort_key (\<lambda>iv. (iv_start iv, iv_end iv)) ivs)"
    by (rule sorted_wrt_mono_rel[rotated]) (auto simp: word_le_nat_alt word_less_nat_alt)
  then show ?thesis
    by (simp add: sorted_map interval_bounds_def)
qed

lemma first_free_from_set:
  "set ivs = set ivs' \<Longrightarrow> first_free_from b s n ivs c found = first_free_from b s n ivs' c found"
  by (simp only: first_free_from_def block_free_def)

lemma scan_finds_first:
  assumes pool: "aligned a n" "n \<le> m" "m \<le> 32"
    and reserved: "\<forall>r \<in> set rs. prefix_wf r \<and> prefix_valid r \<and> is4 (pf_Addr r) \<and> prefix_range r \<subseteq> net_range a n"
  defines "ivs \<equiv> sort_key (\<lambda>iv. (iv_start iv, iv_end iv)) (map (interval_of \<circ> masked) rs)"
  shows "first_free_from (2 ^ (32 - m)) (unat a) (2 ^ (m - n)) (map (interval_bounds \<circ> interval_of \<circ> masked) rs) 0
           (map_option unat (scan_intervals (push_bit (32 - m) 1) (interval_of (net a n)) (iv_start (interval_of (net a n))) ivs))"
proof -
  let ?top = "unat a + 2 ^ (32 - n) - 1"
  have ends: "unat (iv_start (interval_of (net a n))) = unat a" "unat (iv_end (interval_of (net a n))) = ?top"
    using interval_of_net(1)[OF pool(1)] by (simp_all add: interval_bounds_def)
  have block: "unat (push_bit (32 - m) 1 :: u64) = 2 ^ (32 - m)"
    by (rule unat_block) simp
  have top: "Suc ?top = unat a + 2 ^ (m - n) * 2 ^ (32 - m)" "?top < 2 ^ 32"
    using pool_size[OF pool(2,3)] interval_of_net(2)[OF pool(1)] by (simp_all add: Suc_diff_Suc)
  have set_ivs: "set ivs = (interval_of \<circ> masked) ` set rs"
    by (simp add: ivs_def)
  have inside: "unat a \<le> lo \<and> lo \<le> hi \<and> hi \<le> ?top"
    if bounds: "(lo, hi) \<in> set (map interval_bounds ivs)" for lo hi
  proof -
    obtain r where r: "r \<in> set rs" "(lo, hi) = interval_bounds (interval_of (masked r))"
      using bounds set_ivs by auto
    obtain b l where b: "masked r = net b l" "aligned b l" "prefix_range r = net_range b l"
      by (rule masked_wf[of r]) (use reserved r(1) in auto)
    have lohi: "lo = unat b" "hi = unat b + 2 ^ (32 - l) - 1" "(0::nat) < 2 ^ (32 - l)"
      using r(2) interval_of_net(1)[OF b(2)] by (simp_all add: b(1))
    then have "lo \<le> hi" "hi < lo + 2 ^ (32 - l)"
      by linarith+
    then have "lo \<in> net_range b l" "hi \<in> net_range b l"
      using lohi(1) by (auto simp: net_range_def block_range_def)
    then have "lo \<in> net_range a n" "hi \<in> net_range a n"
      using reserved r(1) b(3) by auto
    then show ?thesis
      using \<open>lo \<le> hi\<close> by (auto simp: net_range_def block_range_def)
  qed
  have "map_option unat (scan_intervals (push_bit (32 - m) 1) (interval_of (net a n)) (iv_start (interval_of (net a n))) ivs) =
      find_gap (2 ^ (32 - m)) (unat a) ?top (unat a) (map interval_bounds ivs)"
  proof (subst scan_refines, unfold ends block)
    show "(2::nat) ^ (32 - m) \<le> 2 ^ 32"
      by (rule power_increasing) simp_all
    show "\<forall>iv \<in> set ivs. unat (iv_end iv) < 2 ^ 32 \<and> unat a \<le> unat (iv_end iv)"
      using inside top(2) by (force simp: interval_bounds_def)
    show "unat a \<le> 2 ^ 33"
      using u32_less[of a] by simp
  qed (use top(2) in simp_all)
  moreover have "first_free_from (2 ^ (32 - m)) (unat a) (2 ^ (m - n)) (map interval_bounds ivs) 0
      (find_gap (2 ^ (32 - m)) (unat a) ?top (unat a + 0 * 2 ^ (32 - m)) (map interval_bounds ivs))"
  proof (rule find_gap_spec)
    show "sorted (map fst (map interval_bounds ivs))"
      unfolding ivs_def by (rule sorted_interval_starts)
    show "\<forall>(lo, hi) \<in> set (map interval_bounds ivs). unat a \<le> lo \<and> lo \<le> hi \<and> hi \<le> ?top"
      using inside by blast
  qed (use top(1) in simp_all)
  ultimately show ?thesis
    using first_free_from_set[of "map interval_bounds ivs" "map (interval_bounds \<circ> interval_of \<circ> masked) rs"] set_ivs
    by (simp add: image_comp comp_assoc)
qed

lemma first_available_child_eq:
  assumes "canonical_ipv4 parent = Inr (net a n)" "aligned a n" "pf_Bits parent = int n" "int n \<le> int m" "m \<le> 32"
    and "\<forall>r \<in> set rs. prefix_wf r \<and> prefix_valid r \<and> is4 (pf_Addr r) \<and> prefix_range r \<subseteq> net_range a n"
  defines "ivs \<equiv> sort_key (\<lambda>iv. (iv_start iv, iv_end iv)) (map (interval_of \<circ> masked) rs)"
  shows "first_available_child parent (int m) rs =
    (case scan_intervals (push_bit (32 - m) 1) (interval_of (net a n)) (iv_start (interval_of (net a n))) ivs of
       Some start \<Rightarrow> Inr (net (ucast start) m) | None \<Rightarrow> Inl StateConflict)"
proof -
  have "collect_intervals (net a n) rs = Inr (map (interval_of \<circ> masked) rs)"
    using assms by (subst collect_intervals_Inr) auto
  then show ?thesis
    using assms by (simp add: first_available_child_def Let_def prefix_from_number_def prefix_from_def net_def
        cong: option.case_cong)
qed

lemma first_available_child_spec:
  assumes wf: "prefix_wf parent" "\<forall>r \<in> set rs. prefix_wf r" and ok: "request_ok parent bits rs"
  obtains a n m where "masked parent = net a n" "aligned a n" "n \<le> m" "m \<le> 32" "bits = int m"
    "prefix_range parent = net_range a n" "pf_Bits parent = int n"
    "\<And>c. first_available_child parent bits rs = Inr c \<longleftrightarrow>
       (\<exists>k < 2 ^ (m - n). c = child_prefix a m k \<and> child_free (unat a) m rs k \<and> (\<forall>j < k. \<not> child_free (unat a) m rs j))"
    "first_available_child parent bits rs = Inl StateConflict \<longleftrightarrow> (\<forall>k < 2 ^ (m - n). \<not> child_free (unat a) m rs k)"
    "first_available_child parent bits rs \<in> range Inr \<union> {Inl StateConflict}"
proof -
  obtain a n where p: "masked parent = net a n" "aligned a n" "prefix_range parent = net_range a n"
    using masked_wf[of parent] wf(1) ok by (auto simp: request_ok_def)
  have c: "canonical_ipv4 parent = Inr (net a n)"
    using ok p(1) by (simp add: canonical_ipv4_def request_ok_def)
  then obtain a0 where "parent = net a0 n"
    using canonical_ipv4_Inr[OF wf(1) c] by (metis net_simps(3))
  then have n: "pf_Bits parent = int n"
    by simp
  define m where "m = nat bits"
  have m: "bits = int m" "n \<le> m" "m \<le> 32"
    using ok n by (auto simp: request_ok_def m_def)
  have rs: "\<forall>r \<in> set rs. prefix_wf r \<and> prefix_valid r \<and> is4 (pf_Addr r) \<and> prefix_range r \<subseteq> net_range a n"
    using ok wf(2) p(3) by (auto simp: request_ok_def)
  define found where "found = scan_intervals (push_bit (32 - m) 1) (interval_of (net a n))
    (iv_start (interval_of (net a n))) (sort_key (\<lambda>iv. (iv_start iv, iv_end iv)) (map (interval_of \<circ> masked) rs))"
  have eq: "first_available_child parent bits rs =
      (case found of Some start \<Rightarrow> Inr (net (ucast start) m) | None \<Rightarrow> Inl StateConflict)"
    unfolding found_def m(1) using first_available_child_eq[OF c p(2) n _ m(3) rs] m(2) by simp
  have free: "block_free (2 ^ (32 - m)) (unat a) (map (interval_bounds \<circ> interval_of \<circ> masked) rs) k =
      child_free (unat a) m rs k" for k
    using rs by (intro block_free_child) auto
  have first: "first_free_from (2 ^ (32 - m)) (unat a) (2 ^ (m - n)) (map (interval_bounds \<circ> interval_of \<circ> masked) rs) 0
      (map_option unat found)"
    unfolding found_def by (rule scan_finds_first[OF p(2) m(2,3) rs])
  show ?thesis
  proof (cases found)
    case None
    then have none: "\<forall>k < 2 ^ (m - n). \<not> child_free (unat a) m rs k"
      using first by (simp add: first_free_from_def free)
    then show ?thesis
      using that[OF p(1,2) m(2,3,1) p(3) n] None eq by auto
  next
    case (Some start)
    then obtain k where k: "k < 2 ^ (m - n)" "unat start = unat a + k * 2 ^ (32 - m)"
      "child_free (unat a) m rs k" "\<forall>j < k. \<not> child_free (unat a) m rs j"
      using first by (auto simp: first_free_from_def free)
    have "start = of_nat (unat a + k * 2 ^ (32 - m))"
      unfolding k(2)[symmetric] by simp
    have "unat (ucast start :: u32) = unat start"
      using child_within(2)[OF p(2) m(2,3) k(1)] u32_less[of "of_nat (unat a + k * 2 ^ (32 - m))"]
      unfolding k(2)[symmetric] by (simp add: unsigned_ucast_eq take_bit_nat_eq_self)
    then have "ucast start = (of_nat (unat a + k * 2 ^ (32 - m)) :: u32)"
      using child_within(2)[OF p(2) m(2,3) k(1)] k(2) by (simp only: word_unat_eq_iff)
    then have c: "first_available_child parent bits rs = Inr (child_prefix a m k)"
      by (simp only: eq Some option.case child_prefix_def)
    have unique: "j = k" if "child_free (unat a) m rs j" "\<forall>i < j. \<not> child_free (unat a) m rs i" for j
      using that k(3,4) by (metis linorder_neqE_nat)
    show ?thesis
    proof (rule that[OF p(1,2) m(2,3,1) p(3) n])
      fix c'
      show "first_available_child parent bits rs = Inr c' \<longleftrightarrow>
        (\<exists>k < 2 ^ (m - n). c' = child_prefix a m k \<and> child_free (unat a) m rs k \<and> (\<forall>j < k. \<not> child_free (unat a) m rs j))"
        unfolding c using k unique by blast
      show "first_available_child parent bits rs = Inl StateConflict \<longleftrightarrow> (\<forall>k < 2 ^ (m - n). \<not> child_free (unat a) m rs k)"
        unfolding c using k by blast
      show "first_available_child parent bits rs \<in> range Inr \<union> {Inl StateConflict}"
        unfolding c by blast
    qed
  qed
qed

lemma collect_intervals_cases:
  "collect_intervals p rs = Inl ValidationFailed \<or> (\<exists>ivs. collect_intervals p rs = Inr ivs)"
  using collect_intervals_err by (cases "collect_intervals p rs") auto

lemma first_available_child_refused:
  assumes "prefix_wf parent" "\<forall>r \<in> set rs. prefix_wf r" "\<not> request_ok parent bits rs"
  shows "first_available_child parent bits rs = Inl ValidationFailed"
proof (cases "canonical_ipv4 parent")
  case (Inl e)
  then show ?thesis by (simp add: first_available_child_def canonical_ipv4_err)
next
  case (Inr q)
  then obtain a0 n where p: "parent = net a0 n" "n \<le> 32" "q = net (keep_bits n a0) n" "aligned (keep_bits n a0) n"
    using canonical_ipv4_Inr[OF assms(1)] by metis
  show ?thesis
  proof (cases "bits < int n \<or> 32 < bits")
    case True
    then show ?thesis
      using Inr p by (simp add: first_available_child_def)
  next
    case False
    then have "\<not> (\<forall>r \<in> set rs. prefix_valid r \<and> is4 (pf_Addr r) \<and> prefix_range r \<subseteq> net_range (keep_bits n a0) n)"
      using assms(3) p by (simp add: request_ok_def prefix_range_net)
    then have "collect_intervals q rs = Inl ValidationFailed"
      using collect_intervals_Inr[OF assms(2) p(4)] collect_intervals_cases[of q rs] p(3) by auto
    then show ?thesis
      using Inr p by (simp add: first_available_child_def)
  qed
qed

lemma check_reserved_ok:
  assumes "aligned a n" "\<forall>r \<in> set rs. prefix_wf r"
  shows "check_reserved (net a n) rs = Inr () \<longleftrightarrow>
    (\<forall>r \<in> set rs. prefix_valid r \<and> is4 (pf_Addr r) \<and> net_range a n \<inter> prefix_range r = {})"
  using assms(2)
proof (induction rs)
  case (Cons r rs)
  show ?case
  proof (cases "prefix_valid r \<and> is4 (pf_Addr r)")
    case True
    then obtain b l where b: "masked r = net b l" "aligned b l" "prefix_range r = net_range b l"
      using masked_wf[of r] Cons.prems by auto
    have "prefix_overlaps (net a n) (masked r) \<longleftrightarrow> net_range a n \<inter> prefix_range r \<noteq> {}"
      unfolding b using overlaps_net[OF assms(1) b(2)] .
    then show ?thesis
      using Cons True by (auto simp: canonical_ipv4_def)
  next
    case False
    then show ?thesis by (auto simp: canonical_ipv4_def)
  qed
qed simp

lemma child_prefix_range:
  assumes "aligned a n" "n \<le> m" "m \<le> 32" "k < 2 ^ (m - n)"
  shows "prefix_range (child_prefix a m k) = child_range (unat a) m k"
    and "child_range (unat a) m k \<subseteq> net_range a n" and "prefix_wf (child_prefix a m k)"
    and "canonical_ipv4 (child_prefix a m k) = Inr (child_prefix a m k)"
proof -
  note c = child_within[OF assms]
  show "prefix_range (child_prefix a m k) = child_range (unat a) m k"
    unfolding child_prefix_def prefix_range_net[OF assms(3)] keep_bits_id[OF c(3)] by (rule c(4))
  have "unat a + k * 2 ^ (32 - m) + 2 ^ (32 - m) \<le> unat a + 2 ^ (32 - n)"
    using c(1) by simp
  then show "child_range (unat a) m k \<subseteq> net_range a n"
    by (auto simp: child_range_def net_range_def block_range_def)
  show "prefix_wf (child_prefix a m k)"
    using assms(3) by (simp add: prefix_wf_def child_prefix_def)
  show "canonical_ipv4 (child_prefix a m k) = Inr (child_prefix a m k)"
    unfolding child_prefix_def by (rule canonical_aligned[OF c(3)])
qed

lemma allocated_child:
  assumes wf: "prefix_wf parent" "\<forall>r \<in> set rs. prefix_wf r" and c: "first_available_child parent bits rs = Inr c"
  shows "prefix_wf c" "prefix_valid c \<and> is4 (pf_Addr c)" "pf_Bits c = bits" "prefix_range c \<subseteq> prefix_range parent"
    "prefix_range c \<noteq> {}" "\<forall>r \<in> set rs. prefix_range c \<inter> prefix_range r = {}" "validate_child parent c rs = Inr ()"
    "request_ok parent bits rs"
proof -
  show ok: "request_ok parent bits rs"
    using first_available_child_refused[OF wf, of bits] c by force
  obtain a n m k where p: "masked parent = net a n" "aligned a n" "n \<le> m" "m \<le> 32" "bits = int m"
    "prefix_range parent = net_range a n" and k: "k < 2 ^ (m - n)" "c = child_prefix a m k" "child_free (unat a) m rs k"
    using first_available_child_spec[OF wf ok] c by metis
  note child = child_prefix_range[OF p(2,3,4) k(1)]
  show "prefix_wf c" "prefix_valid c \<and> is4 (pf_Addr c)" "pf_Bits c = bits" "prefix_range c \<subseteq> prefix_range parent"
    using child p k(2) by (simp_all add: child_prefix_def)
  show "prefix_range c \<noteq> {}"
    unfolding k(2) child(1) by (simp add: child_range_def block_range_def)
  show free: "\<forall>r \<in> set rs. prefix_range c \<inter> prefix_range r = {}"
    using k child(1) by (simp add: child_free_def)
  have c_net: "c = net (of_nat (unat a + k * 2 ^ (32 - m))) m" "aligned (of_nat (unat a + k * 2 ^ (32 - m))) m"
    using k(2) child_within(3)[OF p(2,3,4) k(1)] by (simp_all only: child_prefix_def)
  have "contains_prefix (net a n) c"
    unfolding c_net(1) contains_prefix_net[OF c_net(2) p(2)] child_within(4)[OF p(2,3,4) k(1)] by (rule child(2))
  moreover have "check_reserved c rs = Inr ()"
    using free ok child_within(4)[OF p(2,3,4) k(1)] child(1) k(2)
    unfolding c_net(1) check_reserved_ok[OF c_net(2) wf(2)] by (auto simp: request_ok_def child_prefix_def)
  ultimately show "validate_child parent c rs = Inr ()"
    using ok p(1) child(4) k(2) by (simp add: validate_child_def canonical_ipv4_def[of parent] request_ok_def)
qed

end
