(* ===== verification/IpamProperties.thy ===== *)
theory IpamProperties
  imports Ipam
begin

text \<open>
  Properties of IPv4 allocation: the text of prefixes, the usable addresses of a subnet, and pools over time.
\<close>

section \<open>Text round trip\<close>

lemma byte_digit: "d < 10 \<Longrightarrow> byte (char_of (48 + d)) = 48 + d"
  by (simp add: byte_def of_char_of)

lemma decimal_snoc: "decimal (s @ [c]) = decimal s * 10 + (byte c - 48)"
  by (simp add: decimal_def)

lemma decimal_text_decimal: "decimal (decimal_text n) = n"
proof (induction n rule: decimal_text.induct)
  case (1 n)
  show ?case
  proof (cases "n < 10")
    case True
    then show ?thesis
      by (subst decimal_text.simps) (simp add: decimal_def byte_digit)
  next
    case False
    then show ?thesis
      using 1 byte_digit[of "n mod 10"]
      by (subst decimal_text.simps) (simp add: decimal_snoc)
  qed
qed

lemma decimal_text_digits: "list_all is_digit (decimal_text n) \<and> decimal_text n \<noteq> []"
proof (induction n rule: decimal_text.induct)
  case (1 n)
  have digit: "is_digit (char_of (48 + d))" if "d < 10" for d :: nat
    using byte_digit[OF that] that by (simp add: is_digit_def)
  show ?case
    using 1 digit[of n] digit[of "n mod 10"] by (subst (1 2) decimal_text.simps) simp
qed

lemma decimal_text_leading: "hd (decimal_text n) = CHR ''0'' \<Longrightarrow> length (decimal_text n) = 1"
proof (induction n rule: decimal_text.induct)
  case (1 n)
  show ?case
  proof (cases "n < 10")
    case True
    then show ?thesis by (simp add: decimal_text.simps)
  next
    case False
    have "hd (decimal_text n) = hd (decimal_text (n div 10))"
      using False decimal_text_digits[of "n div 10"] by (subst decimal_text.simps) simp
    then have "length (decimal_text (n div 10)) = 1" and zero: "hd (decimal_text (n div 10)) = CHR ''0''"
      using 1 False by simp_all
    then have "decimal_text (n div 10) = [CHR ''0'']"
      by (cases "decimal_text (n div 10)") auto
    then have "n div 10 = 0"
      using decimal_text_decimal[of "n div 10"] by (simp add: decimal_def byte_def)
    then show ?thesis
      using False by simp
  qed
qed

lemma decimal_text_char: "c \<in> set (decimal_text n) \<Longrightarrow> is_digit c"
  using decimal_text_digits[of n] by (auto simp: list_all_iff)

lemma decimal_text_no: "CHR ''.'' \<notin> set (decimal_text n)" "CHR ''/'' \<notin> set (decimal_text n)"
  using decimal_text_char[of "CHR ''.''" n] decimal_text_char[of "CHR ''/''" n] by (auto simp: is_digit_def byte_def)

lemma split_no: "c \<notin> set xs \<Longrightarrow> split_at_char c xs = [xs]"
  by (induction xs) auto

lemma split_append: "c \<notin> set xs \<Longrightarrow> split_at_char c (xs @ c # ys) = xs # split_at_char c ys"
  by (induction xs) auto

lemma decimal_text_octet: "n \<le> 255 \<Longrightarrow> valid_octet (decimal_text n)"
  using decimal_text_digits[of n] decimal_text_leading[of n] by (simp add: valid_octet_def decimal_text_decimal)

lemma decimal_text_bits: "parse_prefix_bits (decimal_text n) = Some n"
  using decimal_text_digits[of n] decimal_text_leading[of n] by (simp add: parse_prefix_bits_def decimal_text_decimal)

lemma octets: "(((x div 16777216) * 256 + x div 65536 mod 256) * 256 + x div 256 mod 256) * 256 + x mod 256 = (x :: nat)"
proof -
  have "x = x div 256 * 256 + x mod 256" "x div 256 = x div 65536 * 256 + x div 256 mod 256"
    "x div 65536 = x div 16777216 * 256 + x div 65536 mod 256"
    using div_mult_mod_eq[of x 256] div_mult_mod_eq[of "x div 256" 256] div_mult_mod_eq[of "x div 65536" 256]
    by (simp_all add: div_mult2_eq[symmetric])
  then show ?thesis by simp
qed

lemma parse_ipv4_text: "parse_ipv4 (ipv4_text a) = Some a"
proof -
  define x where "x = unat a"
  have "x < 2 ^ 32"
    unfolding x_def by (rule u32_less)
  then have top: "x div 16777216 \<le> 255"
    by (simp add: div_less_iff_less_mult less_Suc_eq_le[symmetric])
  have "split_at_char (CHR ''.'') (ipv4_text a) =
      [decimal_text (x div 16777216), decimal_text (x div 65536 mod 256), decimal_text (x div 256 mod 256),
       decimal_text (x mod 256)]"
    by (simp add: ipv4_text_def Let_def x_def[symmetric] split_append split_no decimal_text_no)
  moreover have "x div 65536 mod 256 \<le> 255" "x div 256 mod 256 \<le> 255" "x mod 256 \<le> 255"
    by (simp_all add: less_Suc_eq_le[symmetric])
  moreover have "of_nat ((((x div 16777216) * 256 + x div 65536 mod 256) * 256 + x div 256 mod 256) * 256 + x mod 256) = a"
    unfolding octets x_def by simp
  ultimately show ?thesis
    using top by (simp add: parse_ipv4_def decimal_text_octet decimal_text_decimal del: of_nat_add of_nat_mult)
qed

lemma ipv4_text_no_slash: "CHR ''/'' \<notin> set (ipv4_text a)"
  by (simp add: ipv4_text_def Let_def decimal_text_no)

lemma parse_prefix_text: "n \<le> 32 \<Longrightarrow> parse_ipv4_prefix (ipv4_prefix_text a n) = Inr (net (keep_bits n a) n)"
  using masked_net[of n a]
  by (simp add: parse_ipv4_prefix_def ipv4_prefix_text_def split_append split_no decimal_text_no ipv4_text_no_slash
      parse_ipv4_text decimal_text_bits prefix_from_def net_def)

section \<open>Usable addresses of a subnet\<close>

text \<open>The number of an address is usable when it is neither network, gateway nor broadcast.\<close>

definition usable_number :: "u32 \<Rightarrow> nat \<Rightarrow> nat \<Rightarrow> bool" where
  "usable_number a n v \<longleftrightarrow> unat a + 1 < v \<and> v < unat a + 2 ^ (32 - n) - 1"

lemma validate_usable_net:
  assumes "canonical_ipv4 p = Inr (net a n)" "aligned a n"
  shows "validate_usable_ipv4 p x = Inr () \<longleftrightarrow> n \<le> 30 \<and> (\<exists>v. x = Addr4 v \<and> usable_number a n (unat v))"
    and "validate_usable_ipv4 p x = Inl ValidationFailed \<or> validate_usable_ipv4 p x = Inr ()"
proof -
  have ends: "unat (iv_start (interval_of (net a n))) = unat a"
    "unat (iv_end (interval_of (net a n))) = unat a + 2 ^ (32 - n) - 1"
    using interval_of_net(1)[OF assms(2)] by (simp_all add: interval_bounds_def)
  have succ: "unat (iv_start (interval_of (net a n)) + 1) = unat a + 1"
    using u32_less[of a] by (subst unat_add_u64) (simp_all add: ends)
  have inside: "usable_number a n (unat v) \<Longrightarrow> prefix_contains (net a n) (Addr4 v)" for v
    using net_range_div[OF assms(2), of "unat v"]
    by (auto simp: contains_net usable_number_def net_range_def block_range_def)
  show "validate_usable_ipv4 p x = Inr () \<longleftrightarrow> n \<le> 30 \<and> (\<exists>v. x = Addr4 v \<and> usable_number a n (unat v))"
  proof (cases x)
    case (Addr4 v)
    then show ?thesis
      using assms inside[of v]
      by (auto simp: validate_usable_ipv4_def Let_def word_le_nat_alt succ ends unat_ucast_u64 usable_number_def)
  qed (auto simp: validate_usable_ipv4_def assms(1))
  show "validate_usable_ipv4 p x = Inl ValidationFailed \<or> validate_usable_ipv4 p x = Inr ()"
    using assms(1) by (simp add: validate_usable_ipv4_def Let_def)
qed

lemma collect_usable_Inr:
  "collect_usable p seen as = Inr seen' \<longleftrightarrow>
     (\<forall>x \<in> set as. validate_usable_ipv4 p x = Inr ()) \<and> distinct (map ipv4_number as) \<and>
     set seen \<inter> ipv4_number ` set as = {} \<and> seen' = rev (map ipv4_number as) @ seen"
  by (induction as arbitrary: seen) auto

lemma collect_usable_err:
  assumes "canonical_ipv4 p = Inr (net a n)" "aligned a n"
  shows "collect_usable p seen as = Inl e \<Longrightarrow> e = ValidationFailed"
proof (induction as arbitrary: seen)
  case (Cons x xs)
  then show ?case
    using validate_usable_net(2)[OF assms, of x] by (auto simp: try_res_eq_Inl split: if_splits)
qed simp

lemma scan_down_spec:
  "scan_down seen low cand = Inl StateConflict \<and> (\<forall>v. unat low < unat v \<and> unat v \<le> unat cand \<longrightarrow> v \<in> set seen) \<or>
   (\<exists>v. scan_down seen low cand = Inr (ipv4_from_number v) \<and> unat low < unat v \<and> unat v \<le> unat cand \<and> v \<notin> set seen \<and>
      (\<forall>w. unat v < unat w \<and> unat w \<le> unat cand \<longrightarrow> w \<in> set seen))"
proof (induction seen low cand rule: scan_down.induct)
  case (1 seen low cand)
  show ?case
  proof (cases "low < cand \<and> cand \<in> set seen")
    case False
    then show ?thesis
      by (subst (1 2) scan_down.simps) (auto simp: word_less_nat_alt not_le)
  next
    case True
    then have "cand \<noteq> 0" by auto
    then have pred: "unat (cand - 1) = unat cand - 1" "0 < unat cand"
      by (simp_all add: unat_minus_one unat_gt_0)
    have below: "unat w \<le> unat cand \<longleftrightarrow> unat w \<le> unat cand - 1 \<or> w = cand" for w
      using pred(2) by (auto simp: word_unat_eq_iff)
    have step: "scan_down seen low cand = scan_down seen low (cand - 1)"
      using True by (subst scan_down.simps) simp
    show ?thesis
      using "1.IH" True unfolding step pred(1) below by auto
  qed
qed

lemma addr_number_inject: "ipv4_number (Addr4 x) = ipv4_number (Addr4 y) \<longleftrightarrow> x = y"
  by (simp add: word_unat_eq_iff unat_ucast_u64)

lemma last_available_spec:
  assumes p: "canonical_ipv4 p = Inr (net a n)" "aligned a n" and n: "pf_Bits p = int n" "n \<le> 30"
    and reserved: "\<forall>x \<in> set rs. validate_usable_ipv4 p x = Inr ()" "distinct rs"
  shows "last_available_usable_ipv4 p rs = Inl StateConflict \<and>
      (\<forall>v. validate_usable_ipv4 p (Addr4 v) = Inr () \<longrightarrow> Addr4 v \<in> set rs) \<or>
    (\<exists>v. last_available_usable_ipv4 p rs = Inr (Addr4 v) \<and> validate_usable_ipv4 p (Addr4 v) = Inr () \<and>
      Addr4 v \<notin> set rs \<and> (\<forall>w > v. validate_usable_ipv4 p (Addr4 w) = Inr () \<longrightarrow> Addr4 w \<in> set rs))"
proof -
  have four: "\<exists>v. x = Addr4 v" if "x \<in> set rs" for x
    using that reserved(1) validate_usable_net(1)[OF p, of x] by auto
  have "inj_on ipv4_number (set rs)"
  proof (rule inj_onI)
    fix x y assume "x \<in> set rs" "y \<in> set rs" and eq: "ipv4_number x = ipv4_number y"
    then obtain v w where "x = Addr4 v" "y = Addr4 w"
      using four by blast
    then show "x = y"
      using eq addr_number_inject by blast
  qed
  then have "collect_usable p [] rs = Inr (rev (map ipv4_number rs))"
    using reserved by (simp add: collect_usable_Inr distinct_map)
  moreover have "collect_usable (net a n) [] rs = collect_usable p [] rs"
  proof -
    have "validate_usable_ipv4 (net a n) = validate_usable_ipv4 p"
      using p canonical_aligned[OF p(2)] by (simp add: validate_usable_ipv4_def fun_eq_iff)
    then have "collect_usable (net a n) seen xs = collect_usable p seen xs" for seen xs
      by (induction xs arbitrary: seen) auto
    then show ?thesis .
  qed
  ultimately have collected: "collect_usable (net a n) [] rs = Inr (rev (map ipv4_number rs))" by simp
  let ?low = "iv_start (interval_of (net a n)) + 1" and ?high = "iv_end (interval_of (net a n)) - 1"
  have ends: "unat (iv_start (interval_of (net a n))) = unat a"
    "unat (iv_end (interval_of (net a n))) = unat a + 2 ^ (32 - n) - 1"
    using interval_of_net(1)[OF p(2)] by (simp_all add: interval_bounds_def)
  have "(2::nat) ^ 2 \<le> 2 ^ (32 - n)"
    using n(2) by (intro power_increasing) auto
  then have low: "unat ?low = unat a + 1" and high: "unat ?high = unat a + 2 ^ (32 - n) - 1 - 1"
    using u32_less[of a] by (subst unat_add_u64, simp_all add: ends) (subst unat_sub_u64, simp_all add: ends)
  have range: "usable_number a n v \<longleftrightarrow> unat ?low < v \<and> v \<le> unat ?high" for v
    using \<open>2 ^ 2 \<le> 2 ^ (32 - n)\<close> unfolding usable_number_def low high by auto
  have usable: "validate_usable_ipv4 p (Addr4 v) = Inr () \<longleftrightarrow> unat ?low < unat v \<and> unat v \<le> unat ?high" for v
    unfolding validate_usable_net(1)[OF p] range[symmetric] using n(2) by simp
  have member: "ucast v \<in> ipv4_number ` set rs \<longleftrightarrow> Addr4 v \<in> set rs" for v :: u32
    using four addr_number_inject[of v] by (auto simp: image_iff) (metis ipv4_number.simps(2))+
  have eq: "last_available_usable_ipv4 p rs = scan_down (rev (map ipv4_number rs)) ?low ?high"
    using p n collected by (simp add: last_available_usable_ipv4_def)
  have wide: "ipv4_from_number w = Addr4 (ucast w)" "(ucast (ucast w :: u32) :: u64) = w" "unat (ucast w :: u32) = unat w"
    if "unat w \<le> unat ?high" for w
  proof -
    have "unat w < 2 ^ 32"
      using that interval_of_net(2)[OF p(2)] unfolding high by simp
    then show "unat (ucast w :: u32) = unat w"
      by (simp add: unsigned_ucast_eq take_bit_nat_eq_self)
    then show "(ucast (ucast w :: u32) :: u64) = w"
      by (simp add: word_unat_eq_iff unat_ucast_u64)
  qed (rule ipv4_from_number_def)
  from scan_down_spec[of "rev (map ipv4_number rs)" ?low ?high, folded eq] show ?thesis
  proof (elim disjE conjE exE)
    assume "last_available_usable_ipv4 p rs = Inl StateConflict"
      "\<forall>v. unat ?low < unat v \<and> unat v \<le> unat ?high \<longrightarrow> v \<in> set (rev (map ipv4_number rs))"
    then show ?thesis
      using usable member unat_ucast_u64 by (metis set_map set_rev)
  next
    fix w
    assume w: "last_available_usable_ipv4 p rs = Inr (ipv4_from_number w)"
      "unat ?low < unat w" "unat w \<le> unat ?high" "w \<notin> set (rev (map ipv4_number rs))"
      "\<forall>x. unat w < unat x \<and> unat x \<le> unat ?high \<longrightarrow> x \<in> set (rev (map ipv4_number rs))"
    note wide_w = wide[OF w(3)]
    have "Addr4 (ucast w) \<notin> set rs"
      using w(4) member[of "ucast w"] wide_w(2) by simp
    moreover have "Addr4 x \<in> set rs" if "ucast w < x" "validate_usable_ipv4 p (Addr4 x) = Inr ()" for x
      using that w(5)[rule_format, of "ucast x"] usable[of x] member[of x] wide_w(3)
      by (simp add: word_less_nat_alt unat_ucast_u64)
    ultimately show ?thesis
      using w wide_w usable[of "ucast w"] by (metis)
  qed
qed

section \<open>Pools over time\<close>

lemma validate_child_ok:
  assumes wf: "prefix_wf parent" "prefix_wf c" "\<forall>r \<in> set rs. prefix_wf r"
    and ok: "prefix_valid parent" "is4 (pf_Addr parent)" "prefix_valid c" "is4 (pf_Addr c)"
    "\<forall>r \<in> set rs. prefix_valid r \<and> is4 (pf_Addr r)"
  shows "validate_child parent c rs = Inr () \<longleftrightarrow>
    prefix_range c \<subseteq> prefix_range parent \<and> (\<forall>r \<in> set rs. prefix_range c \<inter> prefix_range r = {})"
proof -
  obtain a n where p: "masked parent = net a n" "aligned a n" "prefix_range parent = net_range a n"
    using masked_wf[of parent] wf(1) ok(1,2) by auto
  obtain b l where q: "masked c = net b l" "aligned b l" "prefix_range c = net_range b l"
    using masked_wf[of c] wf(2) ok(3,4) by auto
  show ?thesis
    using ok p q contains_prefix_net[OF q(2) p(2)] check_reserved_ok[OF q(2) wf(3)]
    by (simp add: validate_child_def canonical_ipv4_def)
qed

text \<open>
  The reservations of one pool: each is the lowest free child of some size, in any order of sizes, and may be
  released again.
\<close>

inductive allocated :: "prefix \<Rightarrow> prefix list \<Rightarrow> bool" for parent where
  empty_pool: "allocated parent []"
| reserve: "\<lbrakk>allocated parent rs; first_available_child parent bits rs = Inr c\<rbrakk> \<Longrightarrow> allocated parent (c # rs)"
| release: "allocated parent (xs @ c # ys) \<Longrightarrow> allocated parent (xs @ ys)"

definition reservations_ok :: "prefix \<Rightarrow> prefix list \<Rightarrow> bool" where
  "reservations_ok parent rs \<longleftrightarrow>
     (\<forall>r \<in> set rs. prefix_wf r \<and> prefix_valid r \<and> is4 (pf_Addr r) \<and> prefix_range r \<subseteq> prefix_range parent \<and>
        prefix_valid parent \<and> is4 (pf_Addr parent)) \<and>
     sorted_wrt (\<lambda>r s. prefix_range r \<inter> prefix_range s = {}) rs"

lemma allocated_ok: "allocated parent rs \<Longrightarrow> prefix_wf parent \<Longrightarrow> reservations_ok parent rs"
proof (induction rule: allocated.induct)
  case empty_pool
  then show ?case by (simp add: reservations_ok_def)
next
  case (reserve rs bits c)
  then have "\<forall>r \<in> set rs. prefix_wf r"
    by (simp add: reservations_ok_def)
  from allocated_child[OF reserve.prems(1) this reserve.hyps(2)] reserve show ?case
    by (simp add: reservations_ok_def request_ok_def)
next
  case (release xs c ys)
  then show ?case
    by (auto simp: reservations_ok_def sorted_wrt_append)
qed

lemma disjoint_others:
  assumes "sorted_wrt (\<lambda>r s. prefix_range r \<inter> prefix_range s = {}) (xs @ c # ys)" "r \<in> set (xs @ ys)"
  shows "prefix_range c \<inter> prefix_range r = {}"
  using assms by (auto simp: sorted_wrt_append)

section \<open>Examples\<close>

text \<open>The pool 10.0.0.0/24 with 10.0.0.0/26 reserved.\<close>

definition ex_pool :: prefix where "ex_pool = net 167772160 24"

definition ex_reserved :: prefix where "ex_reserved = net 167772160 26"

lemma ex_prefixes:
  "prefix_wf ex_pool" "prefix_wf ex_reserved" "canonical_ipv4 ex_pool = Inr ex_pool"
  "first_available_child ex_pool 26 [] = Inr ex_reserved"
  "first_available_child ex_pool 26 [ex_reserved] = Inr (net 167772224 26)"
  by (simp add: prefix_wf_def ex_pool_def, simp add: prefix_wf_def ex_reserved_def, code_simp, code_simp, code_simp)

section \<open>Properties\<close>

text \<open>FirstAvailableChild refuses exactly the requests outside the pool as failed validations; otherwise it
  returns the lowest child of the requested size that meets no reservation, and reports a conflict exactly when
  every child meets one. Reservations may overlap, repeat and come in any order.\<close>

theorem first_available_child_lowest:
  assumes "prefix_wf parent" "\<forall>r \<in> set rs. prefix_wf r"
  shows "(first_available_child parent bits rs = Inl ValidationFailed \<longleftrightarrow> \<not> request_ok parent bits rs) \<and>
    (request_ok parent bits rs \<longrightarrow>
      (\<exists>a n m. masked parent = net a n \<and> pf_Bits parent = int n \<and> bits = int m \<and>
        (\<forall>c. first_available_child parent bits rs = Inr c \<longleftrightarrow>
           (\<exists>k < 2 ^ (m - n). c = child_prefix a m k \<and> child_free (unat a) m rs k \<and>
              (\<forall>j < k. \<not> child_free (unat a) m rs j))) \<and>
        (first_available_child parent bits rs = Inl StateConflict \<longleftrightarrow>
           (\<forall>k < 2 ^ (m - n). \<not> child_free (unat a) m rs k))))"
proof (cases "request_ok parent bits rs")
  case True
  show ?thesis
  proof (rule first_available_child_spec[OF assms True])
    fix a n m
    assume "masked parent = net a n" "pf_Bits parent = int n" "bits = int m"
      "first_available_child parent bits rs \<in> range Inr \<union> {Inl StateConflict}"
      "first_available_child parent bits rs = Inl StateConflict \<longleftrightarrow> (\<forall>k < 2 ^ (m - n). \<not> child_free (unat a) m rs k)"
      "\<And>c. first_available_child parent bits rs = Inr c \<longleftrightarrow>
         (\<exists>k < 2 ^ (m - n). c = child_prefix a m k \<and> child_free (unat a) m rs k \<and> (\<forall>j < k. \<not> child_free (unat a) m rs j))"
    moreover from this(4) have "first_available_child parent bits rs \<noteq> Inl ValidationFailed" by auto
    ultimately show ?thesis
      using True by blast
  qed
next
  case False
  then show ?thesis
    using first_available_child_refused[OF assms False] by simp
qed

theorem first_available_child_lowest_witness:
  "request_ok ex_pool 26 [ex_reserved] \<and> first_available_child ex_pool 26 [ex_reserved] = Inr (net 167772224 26)"
  using first_available_child_lowest[of ex_pool "[ex_reserved]" 26] ex_prefixes by auto

text \<open>C18. However prefixes are reserved from a pool and released again, the reservations stay inside the pool and
  pairwise disjoint: ValidateChild accepts each of them against all the others.\<close>

theorem allocations_stay_valid:
  assumes "prefix_wf parent" "allocated parent (xs @ c # ys)"
  shows "validate_child parent c (xs @ ys) = Inr () \<and> (\<forall>r \<in> set (xs @ ys). prefix_range c \<inter> prefix_range r = {})"
proof -
  note inv = allocated_ok[OF assms(2,1), unfolded reservations_ok_def]
  show ?thesis
    using inv disjoint_others[of xs c ys] assms(1) by (subst validate_child_ok) auto
qed

theorem allocations_stay_valid_witness:
  "validate_child ex_pool (net 167772224 26) [ex_reserved] = Inr ()"
proof -
  have "allocated ex_pool ([] @ net 167772224 26 # [ex_reserved])"
    using allocated.reserve[OF allocated.reserve[OF allocated.empty_pool]] ex_prefixes(4,5) by simp
  from allocations_stay_valid[OF ex_prefixes(1) this] show ?thesis by simp
qed

text \<open>LastAvailableUsableIPv4 returns the highest address of the subnet that is usable and not reserved, and
  reports a conflict exactly when every usable address is reserved.\<close>

theorem last_available_is_highest:
  assumes "canonical_ipv4 p = Inr q" "prefix_wf p" "pf_Bits p \<le> 30"
    "\<forall>x \<in> set rs. validate_usable_ipv4 p x = Inr ()" "distinct rs"
  shows "(\<forall>v. last_available_usable_ipv4 p rs = Inr v \<longleftrightarrow>
      (\<exists>w. v = Addr4 w \<and> validate_usable_ipv4 p v = Inr () \<and> v \<notin> set rs \<and>
         (\<forall>x > w. validate_usable_ipv4 p (Addr4 x) = Inr () \<longrightarrow> Addr4 x \<in> set rs))) \<and>
    (last_available_usable_ipv4 p rs = Inl StateConflict \<longleftrightarrow>
      (\<forall>x. validate_usable_ipv4 p (Addr4 x) = Inr () \<longrightarrow> Addr4 x \<in> set rs))"
proof -
  obtain a n where p: "p = net a n" "n \<le> 32" "q = net (keep_bits n a) n" "aligned (keep_bits n a) n"
    using canonical_ipv4_Inr[OF assms(2,1)] by metis
  have bits: "pf_Bits p = int n" "n \<le> 30"
    using p(1) assms(3) by simp_all
  from last_available_spec[OF assms(1)[unfolded p(3)] p(4) bits assms(4,5)] show ?thesis
  proof (elim disjE exE conjE)
    fix v
    assume v: "last_available_usable_ipv4 p rs = Inr (Addr4 v)" "validate_usable_ipv4 p (Addr4 v) = Inr ()" "Addr4 v \<notin> set rs"
      "\<forall>w > v. validate_usable_ipv4 p (Addr4 w) = Inr () \<longrightarrow> Addr4 w \<in> set rs"
    have unique: "w = v" if "validate_usable_ipv4 p (Addr4 w) = Inr ()" "Addr4 w \<notin> set rs"
      "\<forall>x > w. validate_usable_ipv4 p (Addr4 x) = Inr () \<longrightarrow> Addr4 x \<in> set rs" for w
      using that v by (metis linorder_neqE)
    show ?thesis
    proof (intro conjI allI)
      fix x
      show "last_available_usable_ipv4 p rs = Inr x \<longleftrightarrow>
        (\<exists>w. x = Addr4 w \<and> validate_usable_ipv4 p x = Inr () \<and> x \<notin> set rs \<and>
           (\<forall>y > w. validate_usable_ipv4 p (Addr4 y) = Inr () \<longrightarrow> Addr4 y \<in> set rs))"
        unfolding v(1) sum.inject using v(2-4) unique by blast
      show "last_available_usable_ipv4 p rs = Inl StateConflict \<longleftrightarrow>
        (\<forall>x. validate_usable_ipv4 p (Addr4 x) = Inr () \<longrightarrow> Addr4 x \<in> set rs)"
        unfolding v(1) using v(2,3) by blast
    qed
  next
    assume none: "last_available_usable_ipv4 p rs = Inl StateConflict"
      "\<forall>v. validate_usable_ipv4 p (Addr4 v) = Inr () \<longrightarrow> Addr4 v \<in> set rs"
    show ?thesis
      unfolding none(1) using none(2) by blast
  qed
qed

theorem last_available_is_highest_witness:
  "last_available_usable_ipv4 ex_reserved [Addr4 167772222] = Inr (Addr4 167772221)"
proof -
  have "canonical_ipv4 ex_reserved = Inr ex_reserved" "validate_usable_ipv4 ex_reserved (Addr4 167772222) = Inr ()"
    by code_simp+
  moreover have "pf_Bits ex_reserved \<le> 30" by (simp add: ex_reserved_def)
  moreover have "last_available_usable_ipv4 ex_reserved [Addr4 167772222] = Inr (Addr4 167772221)"
    by code_simp
  ultimately show ?thesis
    using last_available_is_highest[of ex_reserved ex_reserved "[Addr4 167772222]"] ex_prefixes(2) by simp
qed

text \<open>The text of an IPv4 prefix parses back to the prefix with its host bits cleared, so to itself when it is
  canonical.\<close>

theorem prefix_text_round_trip:
  assumes "n \<le> 32"
  shows "parse_ipv4_prefix (ipv4_prefix_text a n) = Inr (net (keep_bits n a) n) \<and>
    (aligned a n \<longrightarrow> parse_ipv4_prefix (ipv4_prefix_text a n) = Inr (net a n))"
  using parse_prefix_text[OF assms] keep_bits_id by simp

theorem prefix_text_round_trip_witness:
  "parse_ipv4_prefix (ipv4_prefix_text 167772161 24) = Inr (net 167772160 24)"
proof -
  have "keep_bits 24 (167772161 :: u32) = 167772160" by code_simp
  then show ?thesis
    using prefix_text_round_trip[of 24 167772161] by simp
qed

end
