(* ===== verification/RunnerAllocation.thy ===== *)
theory RunnerAllocation
  imports IpamProperties Ids "HOL-Library.AList" "HOL-Library.List_Lexorder" "HOL-Library.Char_ord"
begin

text \<open>
  Runner allocation (\<open>internal/common/runnerallocation\<close>): the slots of host user ids and subordinate id ranges, the
  registry that assigns each Runner a subnet of the Runner pool, and the quota of Runners of a Tenant.
\<close>

section \<open>Slots\<close>

abbreviation runner_subnet_bits :: int where "runner_subnet_bits \<equiv> 29"
abbreviation maximum_tenant_runners :: nat where "maximum_tenant_runners \<equiv> 5"
definition block_size :: u32 where "block_size = 65536"

record host_pool =
  hp_HostUIDStart :: u32
  hp_HostUIDEnd :: u32
  hp_SubUIDStart :: u32
  hp_SubUIDEnd :: u32
  hp_SubGIDStart :: u32
  hp_SubGIDEnd :: u32

record allocation_config =
  ac_SystemPool :: prefix
  ac_RunnerPool :: prefix
  ac_HostPool :: host_pool

record host_allocation =
  ha_Slot :: u32
  ha_HostUID :: u32
  ha_SubUIDStart :: u32
  ha_SubUIDCount :: u32
  ha_SubGIDStart :: u32
  ha_SubGIDCount :: u32
  ha_NetworkCIDR :: string

text \<open>\<open>uint64(x)\<close> and \<open>uint32(x)\<close>.\<close>

abbreviation to_u64 :: "u32 \<Rightarrow> u64" where "to_u64 x \<equiv> ucast x"
abbreviation to_u32 :: "u64 \<Rightarrow> u32" where "to_u32 x \<equiv> ucast x"

definition slot_count :: "host_pool \<Rightarrow> u32 res" where
  "slot_count c =
     (if hp_HostUIDEnd c < hp_HostUIDStart c \<or> hp_SubUIDEnd c < hp_SubUIDStart c \<or>
         hp_SubGIDEnd c < hp_SubGIDStart c
      then Inl ValidationFailed
      else (let host_slots = to_u64 (hp_HostUIDEnd c) - to_u64 (hp_HostUIDStart c) + 1;
                sub_uid_values = to_u64 (hp_SubUIDEnd c) - to_u64 (hp_SubUIDStart c) + 1;
                sub_gid_values = to_u64 (hp_SubGIDEnd c) - to_u64 (hp_SubGIDStart c) + 1 in
            if host_slots < of_nat maximum_tenant_runners \<or> 4294967295 < host_slots \<or>
               sub_uid_values \<noteq> host_slots * to_u64 block_size \<or> sub_gid_values \<noteq> host_slots * to_u64 block_size
            then Inl ValidationFailed
            else Inr (to_u32 host_slots)))"

definition validate_config :: "allocation_config \<Rightarrow> u32 res" where
  "validate_config c =
     (if \<not> prefix_valid (ac_SystemPool c) \<or> \<not> is4 (pf_Addr (ac_SystemPool c)) \<or>
         ac_SystemPool c \<noteq> masked (ac_SystemPool c) \<or>
         \<not> prefix_valid (ac_RunnerPool c) \<or> \<not> is4 (pf_Addr (ac_RunnerPool c)) \<or>
         ac_RunnerPool c \<noteq> masked (ac_RunnerPool c) \<or>
         pf_Bits (ac_RunnerPool c) \<le> pf_Bits (ac_SystemPool c) \<or>
         runner_subnet_bits < pf_Bits (ac_RunnerPool c) \<or>
         \<not> prefix_contains (ac_SystemPool c) (pf_Addr (ac_RunnerPool c))
      then Inl ValidationFailed
      else try_res (slot_count (ac_HostPool c)) (\<lambda>slots.
        (let network_slots = push_bit (nat (runner_subnet_bits - pf_Bits (ac_RunnerPool c))) 1 in
         if network_slots < to_u64 slots then Inl ValidationFailed else Inr slots)))"

text \<open>
  \<open>Prefix.String\<close>. An IPv6 address has eight groups in hexadecimal, the first longest run of two or more zero
  groups written \<open>::\<close>; an IPv4 address mapped to IPv6 keeps its dots.
\<close>

function hex_text :: "nat \<Rightarrow> string" where
  "hex_text n =
     (let digit = (\<lambda>d. char_of (if d < 10 then 48 + d else 87 + d)) in
      if n < 16 then [digit n] else hex_text (n div 16) @ [digit (n mod 16)])"
  by pat_completeness auto
termination
  by (relation "measure id") auto

declare hex_text.simps [simp del]

definition groups6 :: "128 word \<Rightarrow> nat list" where
  "groups6 a = map (\<lambda>i. unat (take_bit 16 (drop_bit (112 - 16 * i) a))) [0..<8]"

definition zero_run :: "nat list \<Rightarrow> nat \<Rightarrow> nat" where
  "zero_run gs i = length (takeWhile (\<lambda>g. g = 0) (drop i gs))"

definition longest_zero_run :: "nat list \<Rightarrow> nat \<times> nat" where
  "longest_zero_run gs =
     foldl (\<lambda>(s, e) i. let l = zero_run gs i in if 2 \<le> l \<and> e - s < l then (i, i + l) else (s, e)) (255, 255)
       [0..<length gs]"

fun colon_groups :: "nat list \<Rightarrow> string" where
  "colon_groups [] = []"
| "colon_groups [g] = hex_text g"
| "colon_groups (g # gs) = hex_text g @ '':'' @ colon_groups gs"

definition ipv6_text :: "128 word \<Rightarrow> string" where
  "ipv6_text a =
     (if drop_bit 32 a = 65535 then ''::ffff:'' @ ipv4_text (ucast a)
      else let gs = groups6 a; (s, e) = longest_zero_run gs in
        if s = 255 then colon_groups gs else colon_groups (take s gs) @ ''::'' @ colon_groups (drop e gs))"

definition prefix_string :: "prefix \<Rightarrow> string" where
  "prefix_string p =
     (if \<not> prefix_valid p then ''invalid Prefix''
      else (case pf_Addr p of
          Addr4 a \<Rightarrow> ipv4_text a
        | Addr6 a z \<Rightarrow> ipv6_text a
        | AddrNone \<Rightarrow> ''invalid IP'') @ ''/'' @ decimal_text (nat (pf_Bits p)))"

definition validate_record :: "host_allocation \<Rightarrow> unit res" where
  "validate_record a =
     (case parse_ipv4_prefix (ha_NetworkCIDR a) of
        Inl e \<Rightarrow> Inl ValidationFailed
      | Inr p \<Rightarrow>
          if prefix_string p \<noteq> ha_NetworkCIDR a \<or> pf_Bits p \<noteq> runner_subnet_bits \<or>
             ha_SubUIDCount a \<noteq> block_size \<or> ha_SubGIDCount a \<noteq> block_size
          then Inl ValidationFailed else Inr ())"

definition allocation_at :: "host_pool \<Rightarrow> u32 \<Rightarrow> prefix \<Rightarrow> host_allocation" where
  "allocation_at c slot network =
     \<lparr>ha_Slot = slot,
      ha_HostUID = hp_HostUIDStart c + slot,
      ha_SubUIDStart = to_u32 (to_u64 (hp_SubUIDStart c) + to_u64 slot * to_u64 block_size),
      ha_SubUIDCount = block_size,
      ha_SubGIDStart = to_u32 (to_u64 (hp_SubGIDStart c) + to_u64 slot * to_u64 block_size),
      ha_SubGIDCount = block_size,
      ha_NetworkCIDR = prefix_string network\<rparr>"

definition allocation :: "host_pool \<Rightarrow> u32 \<Rightarrow> prefix \<Rightarrow> host_allocation res" where
  "allocation c slot network =
     try_res (slot_count c) (\<lambda>slots.
     if slots \<le> slot then Inl ResourceInUse
     else try_res (validate_record (allocation_at c slot network)) (\<lambda>_.
       Inr (allocation_at c slot network)))"

definition validate_allocation :: "allocation_config \<Rightarrow> host_allocation \<Rightarrow> unit res" where
  "validate_allocation c a =
     try_res (validate_config c) (\<lambda>slots.
     if slots \<le> ha_Slot a \<or> ha_HostUID a = 0 \<or> ha_SubUIDStart a = 0 \<or> ha_SubGIDStart a = 0
       then Inl ValidationFailed
     else case parse_ipv4_prefix (ha_NetworkCIDR a) of
       Inl e \<Rightarrow> Inl ValidationFailed
     | Inr p \<Rightarrow>
         if pf_Bits p \<noteq> runner_subnet_bits \<or> \<not> prefix_contains (ac_RunnerPool c) (pf_Addr p)
           then Inl ValidationFailed
         else case allocation (ac_HostPool c) (ha_Slot a) p of
           Inl e \<Rightarrow> Inl ValidationFailed
         | Inr expected \<Rightarrow> if expected \<noteq> a then Inl ValidationFailed else Inr ())"

section \<open>Tenant quota\<close>

text \<open>\<open>sort.SearchStrings\<close>: the first position whose element is not below the text.\<close>

definition search_strings :: "string list \<Rightarrow> string \<Rightarrow> nat" where
  "search_strings xs x = length (takeWhile (\<lambda>y. y < x) xs)"

text \<open>The loop of \<open>Validate\<close>, with the previous id.\<close>

fun check_quota :: "ulid_check \<Rightarrow> string option \<Rightarrow> string list \<Rightarrow> unit res" where
  "check_quota u previous [] = Inr ()"
| "check_quota u previous (x # xs) =
     (if \<not> id_valid u KindRunner x \<or> \<not> opt_all (\<lambda>p. p < x) previous then Inl InternalError
      else check_quota u (Some x) xs)"

definition quota_validate :: "ulid_check \<Rightarrow> string list \<Rightarrow> unit res" where
  "quota_validate u ids = (if maximum_tenant_runners < length ids then Inl InternalError else check_quota u None ids)"

definition quota_claim :: "ulid_check \<Rightarrow> string list \<Rightarrow> string \<Rightarrow> string list res" where
  "quota_claim u ids runner =
     try_res (quota_validate u ids) (\<lambda>_.
     if \<not> id_valid u KindRunner runner then Inl ValidationFailed
     else (let index = search_strings ids runner in
       if index < length ids \<and> ids ! index = runner then Inr ids
       else if maximum_tenant_runners \<le> length ids then Inl ResourceInUse
       else Inr (sort (ids @ [runner]))))"

definition quota_release :: "ulid_check \<Rightarrow> string list \<Rightarrow> string \<Rightarrow> string list res" where
  "quota_release u ids runner =
     try_res (quota_validate u ids) (\<lambda>_.
     (let index = search_strings ids runner in
      if length ids \<le> index \<or> ids ! index \<noteq> runner then Inl StateConflict
      else Inr (take index ids @ drop (index + 1) ids)))"

section \<open>Subnet registry\<close>

text \<open>The map of reservations is a list of pairs with distinct owners, \<open>None\<close> when it is nil.\<close>

record registry =
  rg_RunnerNetworkPool :: string
  rg_Reservations :: "(string \<times> string) list option"

definition reservations :: "registry \<Rightarrow> (string \<times> string) list" where
  "reservations r = (case rg_Reservations r of None \<Rightarrow> [] | Some m \<Rightarrow> m)"

definition runner_owner :: "string \<Rightarrow> string" where
  "runner_owner runner = ''runner/'' @ runner"

definition is_runner_owner :: "string \<Rightarrow> bool" where
  "is_runner_owner owner \<longleftrightarrow> has_prefix ''runner/'' owner"

definition owner_runner :: "string \<Rightarrow> string" where
  "owner_runner owner = (if is_runner_owner owner then drop 7 owner else owner)"

text \<open>The loop of \<open>runnerPrefixes\<close>.\<close>

fun collect_runner_prefixes :: "ulid_check \<Rightarrow> prefix \<Rightarrow> prefix list \<Rightarrow> (string \<times> string) list \<Rightarrow> prefix list res" where
  "collect_runner_prefixes u root reserved [] = Inr reserved"
| "collect_runner_prefixes u root reserved ((owner, v) # rest) =
     (if \<not> is_runner_owner owner then collect_runner_prefixes u root reserved rest
      else case parse_ipv4_prefix v of
        Inl e \<Rightarrow> Inl InternalError
      | Inr p \<Rightarrow>
          if \<not> id_valid u KindRunner (owner_runner owner) \<or> prefix_string p \<noteq> v \<or>
             pf_Bits p \<noteq> runner_subnet_bits \<or> validate_child root p reserved \<noteq> Inr ()
          then Inl InternalError
          else collect_runner_prefixes u root (reserved @ [p]) rest)"

definition runner_prefixes :: "ulid_check \<Rightarrow> registry \<Rightarrow> prefix \<Rightarrow> prefix list res" where
  "runner_prefixes u r root =
     (if \<not> prefix_valid root \<or> \<not> is4 (pf_Addr root) \<or> root \<noteq> masked root then Inl ValidationFailed
      else collect_runner_prefixes u root [] (reservations r))"

definition reserve_runner ::
  "ulid_check \<Rightarrow> registry \<Rightarrow> prefix \<Rightarrow> string \<Rightarrow> (registry \<times> prefix) res" where
  "reserve_runner u r root runner =
     (if \<not> id_valid u KindRunner runner then Inl ValidationFailed
      else if rg_RunnerNetworkPool r \<noteq> prefix_string root then Inl StateConflict
      else try_res (runner_prefixes u r root) (\<lambda>reserved.
        case map_of (reservations r) (runner_owner runner) of
          Some v \<Rightarrow>
            (case parse_ipv4_prefix v of
               Inl e \<Rightarrow> Inl InternalError
             | Inr p \<Rightarrow> Inr (r\<lparr>rg_Reservations := Some (reservations r)\<rparr>, p))
        | None \<Rightarrow>
            (case first_available_child root runner_subnet_bits reserved of
               Inl e \<Rightarrow> Inl ResourceInUse
             | Inr p \<Rightarrow>
                 Inr (r\<lparr>rg_Reservations :=
                    Some (AList.update (runner_owner runner) (prefix_string p) (reservations r))\<rparr>, p))))"

fun check_reservations :: "ulid_check \<Rightarrow> prefix \<Rightarrow> (string \<times> string) list \<Rightarrow> unit res" where
  "check_reservations u pool [] = Inr ()"
| "check_reservations u pool ((owner, v) # rest) =
     (case parse_ipv4_prefix v of
        Inl e \<Rightarrow> Inl InternalError
      | Inr p \<Rightarrow>
          if trim_space owner = [] \<or> prefix_string p \<noteq> v then Inl InternalError
          else if is_runner_owner owner then
            (if \<not> id_valid u KindRunner (owner_runner owner) \<or> pf_Bits p \<noteq> runner_subnet_bits \<or>
                \<not> prefix_contains pool (pf_Addr p)
             then Inl InternalError else check_reservations u pool rest)
          else if prefix_overlaps p pool then Inl InternalError
          else check_reservations u pool rest)"

definition validate_reservations :: "ulid_check \<Rightarrow> registry \<Rightarrow> unit res" where
  "validate_reservations u r =
     (case parse_ipv4_prefix (rg_RunnerNetworkPool r) of
        Inl e \<Rightarrow> Inl InternalError
      | Inr pool \<Rightarrow>
          if prefix_string pool \<noteq> rg_RunnerNetworkPool r \<or> runner_subnet_bits < pf_Bits pool \<or>
             rg_Reservations r = None
          then Inl InternalError else check_reservations u pool (reservations r))"

text \<open>A missing owner reads the empty text.\<close>

definition release_runner :: "ulid_check \<Rightarrow> registry \<Rightarrow> string \<Rightarrow> string \<Rightarrow> registry res" where
  "release_runner u r runner subnet =
     try_res (validate_reservations u r) (\<lambda>_.
     if (case map_of (reservations r) (runner_owner runner) of None \<Rightarrow> [] | Some v \<Rightarrow> v) \<noteq> subnet
       then Inl StateConflict
     else Inr (r\<lparr>rg_Reservations := Some (AList.delete (runner_owner runner) (reservations r))\<rparr>))"

fun check_registry :: "ulid_check \<Rightarrow> prefix \<Rightarrow> prefix \<Rightarrow> prefix list \<Rightarrow> (string \<times> string) list \<Rightarrow> unit res" where
  "check_registry u root pool reserved [] = Inr ()"
| "check_registry u root pool reserved ((owner, v) # rest) =
     (case parse_ipv4_prefix v of
        Inl e \<Rightarrow> Inl InternalError
      | Inr p \<Rightarrow>
          if trim_space owner = [] \<or> prefix_string p \<noteq> v \<or> validate_child root p reserved \<noteq> Inr ()
            then Inl InternalError
          else if (if is_runner_owner owner
                   then \<not> id_valid u KindRunner (owner_runner owner) \<or> pf_Bits p \<noteq> runner_subnet_bits \<or>
                     \<not> prefix_contains pool (pf_Addr p)
                   else prefix_overlaps p pool)
            then Inl InternalError
          else check_registry u root pool (reserved @ [p]) rest)"

definition registry_validate :: "ulid_check \<Rightarrow> registry \<Rightarrow> prefix \<Rightarrow> unit res" where
  "registry_validate u r root =
     (if \<not> prefix_valid root \<or> \<not> is4 (pf_Addr root) \<or> root \<noteq> masked root \<or> validate_reservations u r \<noteq> Inr ()
        then Inl InternalError
      else case parse_ipv4_prefix (rg_RunnerNetworkPool r) of
        Inl e \<Rightarrow> Inl InternalError
      | Inr pool \<Rightarrow>
          if prefix_string pool \<noteq> rg_RunnerNetworkPool r \<or> pf_Bits pool \<le> pf_Bits root \<or>
             runner_subnet_bits < pf_Bits pool \<or> \<not> prefix_contains root (pf_Addr pool)
          then Inl InternalError
          else check_registry u root pool [] (reservations r))"

end
