(* ===== verification/RunnerAllocationProperties.thy ===== *)
theory RunnerAllocationProperties
  imports RunnerAllocation
begin

text \<open>
  What runner allocation promises: the slots of a host are isolated, the registry of subnets stays valid and cannot
  run out before the slots do, and the quota of a Tenant is a set of at most five Runners.
\<close>

section \<open>Slots\<close>

text \<open>The three ranges hold the same number of slots.\<close>

definition slot_pool :: "host_pool \<Rightarrow> nat \<Rightarrow> bool" where
  "slot_pool c n \<longleftrightarrow>
     maximum_tenant_runners \<le> n \<and> n < 2 ^ 32 \<and>
     unat (hp_HostUIDStart c) + n = unat (hp_HostUIDEnd c) + 1 \<and>
     unat (hp_SubUIDStart c) + n * 65536 = unat (hp_SubUIDEnd c) + 1 \<and>
     unat (hp_SubGIDStart c) + n * 65536 = unat (hp_SubGIDEnd c) + 1"

lemma unat_mult_u64: "unat x * unat y < 2 ^ 64 \<Longrightarrow> unat (x * y :: u64) = unat x * unat y"
  by (simp add: unat_word_ariths)

lemma unat_to_u32: "unat (w :: u64) < 2 ^ 32 \<Longrightarrow> unat (to_u32 w) = unat w"
  by (simp add: unsigned_ucast_eq take_bit_nat_eq_self)

lemma unat_block_size [simp]: "unat block_size = 65536"
  by (simp add: block_size_def)

lemma unat_mult_block:
  assumes "unat x \<le> 2 ^ 32"
  shows "unat (x * to_u64 block_size) = unat x * 65536"
proof -
  have b: "unat (to_u64 block_size) = 65536" by (simp only: unat_ucast_u64 unat_block_size)
  have "unat x * 65536 < 2 ^ 64" using assms by simp
  then show ?thesis using unat_mult_u64[of x "to_u64 block_size", unfolded b] by blast
qed

text \<open>The number of values of an inclusive range, which does not wrap around.\<close>

lemma range_values:
  assumes "lo \<le> hi"
  shows "unat (to_u64 hi - to_u64 lo + 1) = unat hi - unat lo + 1"
proof -
  have le: "unat lo \<le> unat hi" using assms by (simp add: word_le_nat_alt)
  then have "unat (to_u64 hi - to_u64 lo) = unat hi - unat lo"
    by (subst unat_sub_u64) (simp_all only: unat_ucast_u64)
  moreover have "unat hi < 2 ^ 32" by (rule u32_less)
  ultimately show ?thesis by (subst unat_add_u64) simp_all
qed

lemma slot_count_Inr: "slot_count c = Inr k \<longleftrightarrow> slot_pool c (unat k)"
proof (cases "hp_HostUIDStart c \<le> hp_HostUIDEnd c \<and> hp_SubUIDStart c \<le> hp_SubUIDEnd c \<and>
    hp_SubGIDStart c \<le> hp_SubGIDEnd c")
  case True
  let ?h = "to_u64 (hp_HostUIDEnd c) - to_u64 (hp_HostUIDStart c) + 1"
    and ?s = "to_u64 (hp_SubUIDEnd c) - to_u64 (hp_SubUIDStart c) + 1"
    and ?g = "to_u64 (hp_SubGIDEnd c) - to_u64 (hp_SubGIDStart c) + 1"
  have h: "unat ?h = unat (hp_HostUIDEnd c) - unat (hp_HostUIDStart c) + 1"
    and s: "unat ?s = unat (hp_SubUIDEnd c) - unat (hp_SubUIDStart c) + 1"
    and g: "unat ?g = unat (hp_SubGIDEnd c) - unat (hp_SubGIDStart c) + 1"
    using True by (simp_all only: range_values)
  have le: "unat (hp_HostUIDStart c) \<le> unat (hp_HostUIDEnd c)" "unat (hp_SubUIDStart c) \<le> unat (hp_SubUIDEnd c)"
    "unat (hp_SubGIDStart c) \<le> unat (hp_SubGIDEnd c)"
    using True by (simp_all only: word_le_nat_alt)
  have "unat ?h \<le> 2 ^ 32" using u32_less[of "hp_HostUIDEnd c"] unfolding h by linarith
  then have m: "unat (?h * to_u64 block_size) = unat ?h * 65536"
    by (rule unat_mult_block)
  have s_eq: "?s = ?h * to_u64 block_size \<longleftrightarrow> unat ?s = unat ?h * 65536"
    and g_eq: "?g = ?h * to_u64 block_size \<longleftrightarrow> unat ?g = unat ?h * 65536"
    by (simp_all only: m word_unat_eq_iff)
  have five: "?h < of_nat maximum_tenant_runners \<longleftrightarrow> unat ?h < 5" by (simp add: word_less_nat_alt)
  have big: "4294967295 < ?h \<longleftrightarrow> 4294967295 < unat ?h" by (simp add: word_less_nat_alt)
  have ordered: "\<not> (hp_HostUIDEnd c < hp_HostUIDStart c \<or> hp_SubUIDEnd c < hp_SubUIDStart c \<or>
      hp_SubGIDEnd c < hp_SubGIDStart c)"
    using True by (simp add: not_less)
  have count: "slot_count c =
      (if unat ?h < 5 \<or> 4294967295 < unat ?h \<or> unat ?s \<noteq> unat ?h * 65536 \<or> unat ?g \<noteq> unat ?h * 65536
       then Inl ValidationFailed else Inr (to_u32 ?h))"
    unfolding slot_count_def if_not_P[OF ordered] Let_def five big s_eq g_eq ..
  have k: "to_u32 ?h = k \<longleftrightarrow> unat ?h = unat k" if "unat ?h \<le> 4294967295"
    using that unat_to_u32[of ?h] by (simp only: word_unat_eq_iff) simp
  have "slot_count c = Inr k \<longleftrightarrow>
      5 \<le> unat ?h \<and> unat ?h \<le> 4294967295 \<and> unat ?s = unat ?h * 65536 \<and> unat ?g = unat ?h * 65536 \<and> unat ?h = unat k"
    unfolding count if_Inl_eq_Inr sum.inject de_Morgan_disj not_less not_not using k by blast
  also have "\<dots> \<longleftrightarrow> slot_pool c (unat k)"
    unfolding slot_pool_def h s g using le u32_less[of k] by (auto simp: algebra_simps)
  finally show ?thesis .
next
  case False
  then have "slot_count c = Inl ValidationFailed" by (auto simp: slot_count_def not_le)
  moreover have "\<not> slot_pool c (unat k)"
    using False unfolding slot_pool_def by (auto simp: word_le_nat_alt)
  ultimately show ?thesis by simp
qed

lemma slot_count_error: "slot_count c = Inl e \<Longrightarrow> e = ValidationFailed"
  by (auto simp: slot_count_def Let_def split: if_splits)

text \<open>The ids of a slot, computed without wrap-around.\<close>

lemma slot_start:
  fixes lo hi :: u32
  assumes "unat lo + n * 65536 = unat hi + 1" "unat slot < n"
  shows "unat (to_u32 (to_u64 lo + to_u64 slot * to_u64 block_size)) = unat lo + unat slot * 65536"
proof -
  have le: "unat lo + unat slot * 65536 < 2 ^ 32" using assms u32_less[of hi] by simp
  have m: "unat (to_u64 slot * to_u64 block_size) = unat slot * 65536"
    using unat_mult_block[of "to_u64 slot"] less_imp_le[OF u32_less[of slot]] by (simp only: unat_ucast_u64)
  have "unat (to_u64 lo + to_u64 slot * to_u64 block_size) = unat lo + unat slot * 65536"
    using le unat_add_u64[of "to_u64 lo" "to_u64 slot * to_u64 block_size"] unfolding m unat_ucast_u64 by simp
  with le show ?thesis by (subst unat_to_u32) simp_all
qed

definition subuid_range :: "host_allocation \<Rightarrow> nat set" where
  "subuid_range a = block_range (unat (ha_SubUIDStart a)) (unat (ha_SubUIDCount a))"

definition subgid_range :: "host_allocation \<Rightarrow> nat set" where
  "subgid_range a = block_range (unat (ha_SubGIDStart a)) (unat (ha_SubGIDCount a))"

lemma allocation_at_ids:
  assumes "slot_pool c n" "unat slot < n"
  shows "unat (ha_HostUID (allocation_at c slot p)) = unat (hp_HostUIDStart c) + unat slot"
    "subuid_range (allocation_at c slot p) = block_range (unat (hp_SubUIDStart c) + unat slot * 65536) 65536"
    "subgid_range (allocation_at c slot p) = block_range (unat (hp_SubGIDStart c) + unat slot * 65536) 65536"
proof -
  note pool = assms(1)[unfolded slot_pool_def]
  have "unat (hp_HostUIDStart c) + unat slot < 2 ^ 32" using pool assms(2) u32_less[of "hp_HostUIDEnd c"] by linarith
  then show "unat (ha_HostUID (allocation_at c slot p)) = unat (hp_HostUIDStart c) + unat slot"
    by (simp add: allocation_at_def unat_word_ariths)
  show "subuid_range (allocation_at c slot p) = block_range (unat (hp_SubUIDStart c) + unat slot * 65536) 65536"
    using pool by (simp add: subuid_range_def allocation_at_def slot_start[OF _ assms(2)])
  show "subgid_range (allocation_at c slot p) = block_range (unat (hp_SubGIDStart c) + unat slot * 65536) 65536"
    using pool by (simp add: subgid_range_def allocation_at_def slot_start[OF _ assms(2)])
qed

lemma allocation_Inr:
  "allocation c slot p = Inr a \<longleftrightarrow>
     (\<exists>n. slot_pool c n \<and> unat slot < n) \<and> validate_record (allocation_at c slot p) = Inr () \<and> a = allocation_at c slot p"
proof -
  have n: "(\<exists>n. slot_pool c n \<and> unat slot < n) \<longleftrightarrow> (\<exists>k. slot_count c = Inr k \<and> slot < k)"
  proof
    assume "\<exists>n. slot_pool c n \<and> unat slot < n"
    then obtain n where n: "slot_pool c n" "unat slot < n" by blast
    then have "unat (of_nat n :: u32) = n" by (simp add: slot_pool_def u32_of_nat)
    with n show "\<exists>k. slot_count c = Inr k \<and> slot < k"
      by (intro exI[of _ "of_nat n"]) (simp add: slot_count_Inr word_less_nat_alt)
  qed (auto simp: slot_count_Inr word_less_nat_alt)
  show ?thesis unfolding n allocation_def by (auto simp: not_le)
qed

section \<open>The text of subnets\<close>

lemma parse_prefix_Inr:
  assumes "parse_ipv4_prefix v = Inr p"
  obtains a n where "p = net a n" "n \<le> 32" "aligned a n"
proof -
  obtain w n where "n \<le> 32" "p = masked (prefix_from (Addr4 w) (int n))"
    using assms by (auto simp: parse_ipv4_prefix_def split: list.splits option.splits if_splits)
  then have "p = net (keep_bits n w) n" by (simp add: prefix_from_def masked_def prefix_valid_def addr_prefix_net)
  with \<open>n \<le> 32\<close> keep_bits_aligned that show thesis by blast
qed

lemma prefix_string_net [simp]: "prefix_string (net a n) = ipv4_prefix_text a n"
  by (simp add: prefix_string_def ipv4_prefix_text_def)

lemma parse_net_text: "aligned a n \<Longrightarrow> parse_ipv4_prefix (ipv4_prefix_text a n) = Inr (net a n)"
  using parse_prefix_text[of n a] by (simp add: keep_bits_id aligned_def)

text \<open>A canonical subnet text, as the records hold it.\<close>

definition subnet_text :: "string \<Rightarrow> prefix \<Rightarrow> bool" where
  "subnet_text v p \<longleftrightarrow> parse_ipv4_prefix v = Inr p \<and> prefix_string p = v"

lemma subnet_text_iff: "subnet_text v p \<longleftrightarrow> (\<exists>a n. p = net a n \<and> aligned a n \<and> v = ipv4_prefix_text a n)"
proof
  assume s: "subnet_text v p"
  then obtain a n where p: "p = net a n" "aligned a n" by (auto simp: subnet_text_def elim: parse_prefix_Inr)
  with s have "v = ipv4_prefix_text a n" by (simp add: subnet_text_def)
  with p show "\<exists>a n. p = net a n \<and> aligned a n \<and> v = ipv4_prefix_text a n" by blast
qed (auto simp: subnet_text_def parse_net_text)

lemma subnet_text_unique: "subnet_text v p \<Longrightarrow> subnet_text v q \<Longrightarrow> p = q"
  by (simp add: subnet_text_def)

lemma aligned_facts:
  assumes "aligned a n"
  shows "prefix_range (net a n) = net_range a n" "prefix_wf (net a n)" "masked (net a n) = net a n" "n \<le> 32"
    "canonical_ipv4 (net a n) = Inr (net a n)"
  using assms prefix_range_net[of n a] masked_net[of n a] keep_bits_id[OF assms] canonical_aligned[OF assms]
  by (simp_all add: aligned_def prefix_wf_def)

lemma validate_record_ok:
  "validate_record a = Inr () \<longleftrightarrow>
     (\<exists>b. aligned b 29 \<and> ha_NetworkCIDR a = ipv4_prefix_text b 29) \<and>
     ha_SubUIDCount a = block_size \<and> ha_SubGIDCount a = block_size"
proof -
  have "validate_record a = Inr () \<longleftrightarrow>
      (\<exists>p. subnet_text (ha_NetworkCIDR a) p \<and> pf_Bits p = 29) \<and>
      ha_SubUIDCount a = block_size \<and> ha_SubGIDCount a = block_size"
    by (auto simp: validate_record_def subnet_text_def split: sum.split)
  also have "(\<exists>p. subnet_text (ha_NetworkCIDR a) p \<and> pf_Bits p = 29) \<longleftrightarrow>
      (\<exists>b. aligned b 29 \<and> ha_NetworkCIDR a = ipv4_prefix_text b 29)"
  proof
    assume "\<exists>b. aligned b 29 \<and> ha_NetworkCIDR a = ipv4_prefix_text b 29"
    then obtain b where "aligned b 29" "ha_NetworkCIDR a = ipv4_prefix_text b 29" by blast
    then show "\<exists>p. subnet_text (ha_NetworkCIDR a) p \<and> pf_Bits p = 29"
      by (intro exI[of _ "net b 29"]) (auto simp: subnet_text_iff)
  qed (auto simp: subnet_text_iff)
  finally show ?thesis .
qed

lemma validate_record_error: "validate_record a = Inl e \<Longrightarrow> e = ValidationFailed"
  by (auto simp: validate_record_def split: sum.splits if_splits)

text \<open>The slot and the subnet of an allocation determine it, and it is refused only for them.\<close>

lemma allocation_of_net:
  assumes "slot_pool c n" "unat slot < n" "aligned b 29"
  shows "allocation c slot (net b 29) = Inr (allocation_at c slot (net b 29))"
  unfolding allocation_Inr validate_record_ok using assms by (auto simp: allocation_at_def)

section \<open>The accepted allocations\<close>

lemma validate_config_Inr:
  assumes "prefix_wf (ac_SystemPool c)" "prefix_wf (ac_RunnerPool c)"
  shows "validate_config c = Inr slots \<longleftrightarrow>
    (\<exists>s m r n. ac_SystemPool c = net s m \<and> aligned s m \<and> ac_RunnerPool c = net r n \<and> aligned r n \<and>
       m < n \<and> n \<le> 29 \<and> net_range r n \<subseteq> net_range s m \<and>
       slot_pool (ac_HostPool c) (unat slots) \<and> unat slots \<le> 2 ^ (29 - n))"
proof -
  have canon: "prefix_valid p \<and> is4 (pf_Addr p) \<and> p = masked p \<longleftrightarrow> (\<exists>a n. p = net a n \<and> aligned a n)"
    if "prefix_wf p" for p
  proof
    assume p: "prefix_valid p \<and> is4 (pf_Addr p) \<and> p = masked p"
    then have "canonical_ipv4 p = Inr (masked p)" by (simp add: canonical_ipv4_def)
    from canonical_ipv4_Inr[OF that this] p show "\<exists>a n. p = net a n \<and> aligned a n" by metis
  qed (auto simp: aligned_facts)
  have slots: "push_bit (nat (29 - int n)) (1 :: u64) < to_u64 slots \<longleftrightarrow> 2 ^ (29 - n) < unat slots" if "n \<le> 29" for n
  proof -
    have "nat (29 - int n) = 29 - n" using that by linarith
    then show ?thesis using unat_block[of "29 - n"] that by (simp only: word_less_nat_alt unat_ucast_u64)
  qed
  have inside: "prefix_contains (net s m) (Addr4 r) \<longleftrightarrow> net_range r n \<subseteq> net_range s m"
    if "aligned s m" "aligned r n" "m < n" for s m r n
    using contains_prefix_net[OF that(2,1)] that(3) by (simp add: contains_prefix_def)
  show ?thesis
  proof (cases "\<exists>s m r n. ac_SystemPool c = net s m \<and> aligned s m \<and> ac_RunnerPool c = net r n \<and> aligned r n")
    case True
    then obtain s m r n where c: "ac_SystemPool c = net s m" "aligned s m" "ac_RunnerPool c = net r n" "aligned r n" by blast
    then have "validate_config c = Inr slots \<longleftrightarrow>
        m < n \<and> n \<le> 29 \<and> net_range r n \<subseteq> net_range s m \<and> slot_count (ac_HostPool c) = Inr slots \<and>
        unat slots \<le> 2 ^ (29 - n)"
      unfolding validate_config_def using inside[OF c(2,4)] slots[of n] aligned_facts(3)
      by (auto simp: Let_def not_less)
    with c show ?thesis by (auto simp: slot_count_Inr)
  next
    case False
    then have "validate_config c = Inl ValidationFailed"
      unfolding validate_config_def using canon[OF assms(1)] canon[OF assms(2)] by auto
    with False show ?thesis by auto
  qed
qed

lemma validate_config_error: "validate_config c = Inl e \<Longrightarrow> e = ValidationFailed"
  by (auto simp: validate_config_def try_res_eq_Inl Let_def dest: slot_count_error split: if_splits)

lemma validate_allocation_ok:
  assumes wf: "prefix_wf (ac_SystemPool c)" "prefix_wf (ac_RunnerPool c)" and c: "validate_config c = Inr slots"
  shows "validate_allocation c a = Inr () \<longleftrightarrow>
    (\<exists>b. aligned b 29 \<and> prefix_range (net b 29) \<subseteq> prefix_range (ac_RunnerPool c) \<and> ha_Slot a < slots \<and>
       a = allocation_at (ac_HostPool c) (ha_Slot a) (net b 29)) \<and>
    ha_HostUID a \<noteq> 0 \<and> ha_SubUIDStart a \<noteq> 0 \<and> ha_SubGIDStart a \<noteq> 0"
proof -
  obtain r n where r: "ac_RunnerPool c = net r n" "aligned r n" "n \<le> 29" "slot_pool (ac_HostPool c) (unat slots)"
    using validate_config_Inr[OF wf, of slots] c by blast
  have inside: "prefix_contains (ac_RunnerPool c) (Addr4 b) \<longleftrightarrow> prefix_range (net b 29) \<subseteq> prefix_range (ac_RunnerPool c)"
    if "aligned b 29" for b
    using contains_prefix_net[OF that r(2)] r(1,3) that aligned_facts(1) by (simp add: contains_prefix_def r(2))
  show ?thesis (is "?lhs \<longleftrightarrow> ?rhs")
  proof
    assume v: ?lhs
    then obtain p where p: "parse_ipv4_prefix (ha_NetworkCIDR a) = Inr p" "pf_Bits p = 29"
      "prefix_contains (ac_RunnerPool c) (pf_Addr p)" "ha_Slot a < slots"
      "allocation (ac_HostPool c) (ha_Slot a) p = Inr a"
      and ids: "ha_HostUID a \<noteq> 0" "ha_SubUIDStart a \<noteq> 0" "ha_SubGIDStart a \<noteq> 0"
      by (auto simp: validate_allocation_def c split: sum.splits if_splits)
    obtain b k where "p = net b k" "aligned b k" using parse_prefix_Inr[OF p(1)] by metis
    moreover from this p(2) have "k = 29" by simp
    ultimately have b: "p = net b 29" "aligned b 29" by simp_all
    moreover have "a = allocation_at (ac_HostPool c) (ha_Slot a) (net b 29)"
      using p(5) b(1) by (simp add: allocation_Inr)
    ultimately show ?rhs using p(3,4) ids inside[of b] by (intro conjI exI[of _ b]) simp_all
  next
    assume ?rhs
    then obtain b where b: "aligned b 29" "prefix_range (net b 29) \<subseteq> prefix_range (ac_RunnerPool c)" "ha_Slot a < slots"
      "a = allocation_at (ac_HostPool c) (ha_Slot a) (net b 29)"
      and ids: "ha_HostUID a \<noteq> 0" "ha_SubUIDStart a \<noteq> 0" "ha_SubGIDStart a \<noteq> 0" by blast
    have "ha_NetworkCIDR a = ipv4_prefix_text b 29" using arg_cong[OF b(4), of ha_NetworkCIDR] by (simp add: allocation_at_def)
    then have parse: "parse_ipv4_prefix (ha_NetworkCIDR a) = Inr (net b 29)" by (simp add: parse_net_text b(1))
    have "unat (ha_Slot a) < unat slots" using b(3) by (simp add: word_less_nat_alt)
    from allocation_of_net[OF r(4) this b(1)] b(4) have "allocation (ac_HostPool c) (ha_Slot a) (net b 29) = Inr a" by simp
    with parse b(2,3) ids inside[OF b(1)] show ?lhs by (simp add: validate_allocation_def c)
  qed
qed

section \<open>The quota of a Tenant\<close>

definition quota_ok :: "ulid_check \<Rightarrow> string list \<Rightarrow> bool" where
  "quota_ok u xs \<longleftrightarrow> length xs \<le> maximum_tenant_runners \<and> sorted_wrt (<) xs \<and> list_all (id_valid u KindRunner) xs"

lemma check_quota_ok:
  "check_quota u previous xs = Inr () \<longleftrightarrow>
     list_all (id_valid u KindRunner) xs \<and> sorted_wrt (<) xs \<and> (\<forall>p x. previous = Some p \<longrightarrow> x \<in> set xs \<longrightarrow> p < x)"
proof (induction xs arbitrary: previous)
  case (Cons x xs)
  show ?case by (cases previous) (auto simp: Cons.IH)
qed simp

lemma check_quota_cases: "check_quota u previous xs = Inr () \<or> check_quota u previous xs = Inl InternalError"
  by (induction xs arbitrary: previous) auto

lemma quota_validate_ok: "quota_validate u xs = (if quota_ok u xs then Inr () else Inl InternalError)"
  using check_quota_cases[of u None xs] check_quota_ok[of u None xs]
  by (auto simp: quota_validate_def quota_ok_def)

lemma search_strings_member:
  "sorted_wrt (<) xs \<Longrightarrow> search_strings xs x < length xs \<and> xs ! search_strings xs x = x \<longleftrightarrow> x \<in> set xs"
proof (induction xs)
  case (Cons y ys)
  consider "y < x" | "y = x" | "x < y" by force
  then show ?case
  proof cases
    case 1
    with Cons show ?thesis by (auto simp: search_strings_def)
  next
    case 3
    with Cons.prems have "x \<notin> set (y # ys)" by auto
    moreover from 3 have "\<not> y < x" "y \<noteq> x" by auto
    ultimately show ?thesis by (simp add: search_strings_def)
  qed (simp add: search_strings_def)
qed (simp add: search_strings_def)

lemma search_strings_remove:
  "sorted_wrt (<) xs \<Longrightarrow> x \<in> set xs \<Longrightarrow>
     take (search_strings xs x) xs @ drop (search_strings xs x + 1) xs = remove1 x xs"
proof (induction xs)
  case (Cons y ys)
  show ?case
  proof (cases "y = x")
    case False
    with Cons.prems have "y < x" "x \<in> set ys" by auto
    with Cons False show ?thesis by (simp add: search_strings_def)
  qed (simp add: search_strings_def)
qed simp

lemma strict_sorted_set: "sorted_wrt (<) xs \<Longrightarrow> sorted_list_of_set (set xs) = (xs :: 'a :: linorder list)"
  by (simp add: strict_sorted_iff sorted_list_of_set.idem_if_sorted_distinct)

lemma quota_claim_set:
  assumes "quota_ok u xs"
  shows "quota_claim u xs r =
    (if \<not> id_valid u KindRunner r then Inl ValidationFailed
     else if card (insert r (set xs)) \<le> maximum_tenant_runners then Inr (sorted_list_of_set (insert r (set xs)))
     else Inl ResourceInUse)"
proof -
  have s: "sorted_wrt (<) xs" and l: "length xs \<le> maximum_tenant_runners" using assms by (simp_all add: quota_ok_def)
  then have d: "distinct xs" by (simp add: strict_sorted_iff)
  show ?thesis
  proof (cases "r \<in> set xs")
    case True
    then have "insert r (set xs) = set xs" by blast
    with True assms s l d search_strings_member[OF s, of r] show ?thesis
      by (simp add: quota_claim_def quota_validate_ok distinct_card strict_sorted_set)
  next
    case False
    have "sort (xs @ [r]) = sorted_list_of_set (insert r (set xs))"
      using False d sorted_list_of_set_sort_remdups[of "xs @ [r]"] by (simp add: distinct_remdups_id)
    with False assms d search_strings_member[OF s, of r] show ?thesis
      by (auto simp: quota_claim_def quota_validate_ok distinct_card Let_def)
  qed
qed

lemma quota_release_set:
  assumes "quota_ok u xs"
  shows "quota_release u xs r =
    (if r \<in> set xs then Inr (sorted_list_of_set (set xs - {r})) else Inl StateConflict)"
proof -
  have s: "sorted_wrt (<) xs" using assms by (simp add: quota_ok_def)
  then have "remove1 r xs = sorted_list_of_set (set xs - {r})"
    using sorted_list_of_set_remove[of "set xs" r] by (simp add: strict_sorted_set)
  with assms search_strings_member[OF s, of r] search_strings_remove[OF s, of r] show ?thesis
    by (auto simp: quota_release_def quota_validate_ok Let_def not_le)
qed

lemma quota_ok_set:
  "finite S \<Longrightarrow> card S \<le> maximum_tenant_runners \<Longrightarrow> \<forall>x \<in> S. id_valid u KindRunner x \<Longrightarrow> quota_ok u (sorted_list_of_set S)"
  by (simp add: quota_ok_def list_all_iff)

section \<open>The registry\<close>

definition entry_net :: "string \<times> string \<Rightarrow> prefix" where
  "entry_net e = (case parse_ipv4_prefix (snd e) of Inr p \<Rightarrow> p | Inl _ \<Rightarrow> net 0 0)"

lemma entry_net_text: "subnet_text v p \<Longrightarrow> entry_net (x, v) = p"
  by (simp add: entry_net_def subnet_text_def)

lemma entry_net_aligned: obtains a n where "entry_net e = net a n" "aligned a n"
proof (cases "parse_ipv4_prefix (snd e)")
  case (Inl x)
  then have "entry_net e = net 0 0" "aligned 0 0" by (simp_all add: entry_net_def aligned_def)
  then show thesis by (rule that)
next
  case (Inr p)
  then show thesis using parse_prefix_Inr[OF Inr] that by (auto simp: entry_net_def)
qed

definition runner_entries :: "registry \<Rightarrow> (string \<times> string) list" where
  "runner_entries r = filter (\<lambda>e. is_runner_owner (fst e)) (reservations r)"

text \<open>What one reservation has to be: a canonical subnet, of the size of a Runner and inside the Runner pool when a
  Runner owns it, and apart from the pool otherwise.\<close>

definition entry_ok :: "ulid_check \<Rightarrow> prefix \<Rightarrow> string \<times> string \<Rightarrow> bool" where
  "entry_ok u pool e \<longleftrightarrow>
     subnet_text (snd e) (entry_net e) \<and> trim_space (fst e) \<noteq> [] \<and>
     (if is_runner_owner (fst e)
      then id_valid u KindRunner (owner_runner (fst e)) \<and> pf_Bits (entry_net e) = 29 \<and>
        prefix_range (entry_net e) \<subseteq> prefix_range pool
      else prefix_range (entry_net e) \<inter> prefix_range pool = {})"

definition disjoint_nets :: "prefix list \<Rightarrow> bool" where
  "disjoint_nets ps \<longleftrightarrow> sorted_wrt (\<lambda>p q. prefix_range p \<inter> prefix_range q = {}) ps"

lemma pool_contains:
  assumes "aligned r n" "aligned a k" "n \<le> k"
  shows "prefix_contains (net r n) (Addr4 a) \<longleftrightarrow> prefix_range (net a k) \<subseteq> prefix_range (net r n)"
  using contains_prefix_net[OF assms(2,1)] assms(3) by (simp add: contains_prefix_def aligned_facts(1)[OF assms(1)]
      aligned_facts(1)[OF assms(2)])

lemma pool_overlaps:
  assumes "aligned r n" "aligned a k"
  shows "prefix_overlaps (net a k) (net r n) \<longleftrightarrow> prefix_range (net a k) \<inter> prefix_range (net r n) \<noteq> {}"
  using overlaps_net[OF assms(2,1)] by (simp add: aligned_facts(1)[OF assms(1)] aligned_facts(1)[OF assms(2)])

lemma check_reservations_ok:
  assumes pool: "aligned r n" "n \<le> 29"
  shows "check_reservations u (net r n) es = Inr () \<longleftrightarrow> list_all (entry_ok u (net r n)) es"
proof (induction es)
  case (Cons e es)
  obtain owner v where e: "e = (owner, v)" by (cases e)
  show ?case
  proof (cases "parse_ipv4_prefix v")
    case (Inl x)
    then show ?thesis by (simp add: e entry_ok_def subnet_text_def)
  next
    case (Inr p)
    then obtain a k where p: "p = net a k" "aligned a k" using parse_prefix_Inr by metis
    have net: "entry_net (owner, v) = net a k" using Inr p(1) by (simp add: entry_net_def)
    show ?thesis
      using Inr p Cons pool_contains[OF pool(1) p(2)] pool_overlaps[OF pool(1) p(2)] pool(2)
      by (auto simp: e entry_ok_def net subnet_text_def)
  qed
qed simp

lemma net_facts:
  assumes "aligned a k"
  shows "prefix_valid (net a k)" "is4 (pf_Addr (net a k))" "prefix_wf (net a k)"
  using assms by (simp_all add: aligned_facts)

text \<open>The reservations of the loops are subnets already accepted.\<close>

lemma validate_child_nets:
  assumes "aligned r n" "aligned a k" "\<forall>q \<in> set qs. \<exists>b m. q = net b m \<and> aligned b m"
  shows "validate_child (net r n) (net a k) qs = Inr () \<longleftrightarrow>
    prefix_range (net a k) \<subseteq> prefix_range (net r n) \<and> (\<forall>q \<in> set qs. prefix_range (net a k) \<inter> prefix_range q = {})"
proof -
  have "\<forall>q \<in> set qs. prefix_wf q \<and> prefix_valid q \<and> is4 (pf_Addr q)" using assms(3) net_facts by auto
  then show ?thesis using net_facts[OF assms(1)] net_facts[OF assms(2)] by (subst validate_child_ok) auto
qed

lemma disjoint_nets_snoc:
  "disjoint_nets (ps @ [p]) \<longleftrightarrow> disjoint_nets ps \<and> (\<forall>q \<in> set ps. prefix_range p \<inter> prefix_range q = {})"
  by (auto simp: disjoint_nets_def sorted_wrt_append)

lemma disjoint_nets_append:
  "disjoint_nets (ps @ qs) \<longleftrightarrow>
     disjoint_nets ps \<and> disjoint_nets qs \<and> (\<forall>p \<in> set ps. \<forall>q \<in> set qs. prefix_range p \<inter> prefix_range q = {})"
  by (simp add: disjoint_nets_def sorted_wrt_append)

lemma check_registry_ok:
  assumes root: "aligned s m" and pool: "aligned r n" "n \<le> 29"
    and res: "disjoint_nets res" "\<forall>q \<in> set res. \<exists>b m. q = net b m \<and> aligned b m"
  shows "check_registry u (net s m) (net r n) res es = Inr () \<longleftrightarrow>
    list_all (entry_ok u (net r n)) es \<and> (\<forall>e \<in> set es. prefix_range (entry_net e) \<subseteq> prefix_range (net s m)) \<and>
    disjoint_nets (res @ map entry_net es)"
  using res
proof (induction es arbitrary: res)
  case (Cons e es)
  obtain owner v where e: "e = (owner, v)" by (cases e)
  show ?case
  proof (cases "parse_ipv4_prefix v")
    case (Inl x)
    then show ?thesis by (simp add: e entry_ok_def subnet_text_def)
  next
    case (Inr p)
    then obtain a k where p: "p = net a k" "aligned a k" using parse_prefix_Inr by metis
    have net: "entry_net (owner, v) = net a k" using Inr p(1) by (simp add: entry_net_def)
    have v: "validate_child (net s m) (net a k) res = Inr () \<longleftrightarrow>
        prefix_range (net a k) \<subseteq> prefix_range (net s m) \<and> disjoint_nets (res @ [net a k])"
      unfolding validate_child_nets[OF root p(2) Cons.prems(2)] disjoint_nets_snoc using Cons.prems(1) by blast
    show ?thesis
    proof (cases "disjoint_nets (res @ [net a k])")
      case True
      have "\<forall>q \<in> set (res @ [net a k]). \<exists>b m. q = net b m \<and> aligned b m" using Cons.prems(2) p(2) by auto
      note IH = Cons.IH[OF True this]
      show ?thesis
        using Inr p pool_contains[OF pool(1) p(2)] pool_overlaps[OF pool(1) p(2)] pool(2) True
        by (auto simp: e entry_ok_def net subnet_text_def v IH)
    next
      case False
      then have "\<not> disjoint_nets (res @ map entry_net (e # es))"
        using net by (auto simp: e disjoint_nets_def sorted_wrt_append)
      with False Inr p show ?thesis by (simp add: e v)
    qed
  qed
qed simp

section \<open>Reserving and releasing\<close>

definition nested_pools :: "prefix \<Rightarrow> prefix \<Rightarrow> bool" where
  "nested_pools root pool \<longleftrightarrow>
     (\<exists>s m r n. root = net s m \<and> aligned s m \<and> pool = net r n \<and> aligned r n \<and> m < n \<and> n \<le> 29 \<and>
        prefix_range pool \<subseteq> prefix_range root)"

definition registry_inv :: "ulid_check \<Rightarrow> registry \<Rightarrow> prefix \<Rightarrow> prefix \<Rightarrow> bool" where
  "registry_inv u r root pool \<longleftrightarrow>
     nested_pools root pool \<and> rg_RunnerNetworkPool r = prefix_string pool \<and> rg_Reservations r \<noteq> None \<and>
     list_all (entry_ok u pool) (reservations r) \<and>
     (\<forall>e \<in> set (reservations r). prefix_range (entry_net e) \<subseteq> prefix_range root) \<and>
     disjoint_nets (map entry_net (reservations r))"

lemma validate_reservations_ok:
  assumes "aligned a n" "n \<le> 29" "rg_RunnerNetworkPool r = ipv4_prefix_text a n"
  shows "validate_reservations u r = Inr () \<longleftrightarrow>
    rg_Reservations r \<noteq> None \<and> list_all (entry_ok u (net a n)) (reservations r)"
  using check_reservations_ok[OF assms(1,2)] assms
  by (auto simp: validate_reservations_def parse_net_text)

lemma registry_validate_iff:
  assumes "prefix_wf root"
  shows "registry_validate u r root = Inr () \<longleftrightarrow> (\<exists>pool. registry_inv u r root pool)"
proof
  assume v: "registry_validate u r root = Inr ()"
  then have "prefix_valid root" "is4 (pf_Addr root)" "root = masked root"
    by (auto simp: registry_validate_def split: if_splits)
  then have "canonical_ipv4 root = Inr root" by (simp add: canonical_ipv4_def)
  from canonical_ipv4_Inr[OF assms this] obtain s m where root: "root = net s m" "aligned s m" by metis
  from v obtain pool where pool: "parse_ipv4_prefix (rg_RunnerNetworkPool r) = Inr pool"
    by (auto simp: registry_validate_def split: sum.splits if_splits)
  then obtain a n where a: "pool = net a n" "aligned a n" using parse_prefix_Inr by metis
  from v pool have ptext: "rg_RunnerNetworkPool r = ipv4_prefix_text a n" and bits: "m < n" "n \<le> 29"
    and inside: "prefix_contains (net s m) (Addr4 a)"
    and res: "validate_reservations u r = Inr ()" "check_registry u (net s m) (net a n) [] (reservations r) = Inr ()"
    by (auto simp: registry_validate_def root a split: if_splits)
  have "prefix_range pool \<subseteq> prefix_range root"
    using inside pool_contains[OF root(2) a(2)] bits(1) by (simp add: root(1) a(1))
  then have "nested_pools root pool" using root a bits unfolding nested_pools_def by blast
  moreover have "rg_Reservations r \<noteq> None" using res(1) validate_reservations_ok[OF a(2) bits(2) ptext] by blast
  ultimately have "registry_inv u r root pool"
    using res(2) check_registry_ok[OF root(2) a(2) bits(2), of "[]"] ptext
    by (simp add: registry_inv_def a(1) root(1) disjoint_nets_def)
  then show "\<exists>pool. registry_inv u r root pool" ..
next
  assume "\<exists>pool. registry_inv u r root pool"
  then obtain pool where inv: "registry_inv u r root pool" ..
  then obtain s m a n where p: "root = net s m" "aligned s m" "pool = net a n" "aligned a n" "m < n" "n \<le> 29"
    "prefix_range pool \<subseteq> prefix_range root"
    unfolding registry_inv_def nested_pools_def by blast
  have ptext: "rg_RunnerNetworkPool r = ipv4_prefix_text a n" using inv by (simp add: registry_inv_def p(3))
  have "prefix_contains (net s m) (Addr4 a)" using p(5,7) pool_contains[OF p(2,4)] by (simp add: p(1,3))
  moreover have "validate_reservations u r = Inr ()"
    using inv validate_reservations_ok[OF p(4,6) ptext] by (simp add: registry_inv_def p(3))
  moreover have "check_registry u (net s m) (net a n) [] (reservations r) = Inr ()"
    using inv check_registry_ok[OF p(2,4,6), of "[]"] by (simp add: registry_inv_def p(1,3) disjoint_nets_def)
  ultimately show "registry_validate u r root = Inr ()"
    using p(2,4,5,6) by (simp add: registry_validate_def p(1) ptext parse_net_text aligned_facts(3))
qed

lemma runner_prefixes_loop:
  assumes "aligned a n" "list_all (entry_ok u (net a n)) es" "disjoint_nets (res @ map entry_net es)"
    "\<forall>q \<in> set res. \<exists>b m. q = net b m \<and> aligned b m"
  shows "collect_runner_prefixes u (net a n) res es =
    Inr (res @ map entry_net (filter (\<lambda>e. is_runner_owner (fst e)) es))"
  using assms(2-4)
proof (induction es arbitrary: res)
  case (Cons e es)
  obtain owner v where e: "e = (owner, v)" by (cases e)
  show ?case
  proof (cases "is_runner_owner owner")
    case True
    obtain b k where b: "entry_net e = net b k" "aligned b k" by (rule entry_net_aligned)
    have ok: "subnet_text v (net b k)" "id_valid u KindRunner (owner_runner owner)" "k = 29"
      "prefix_range (net b k) \<subseteq> prefix_range (net a n)"
      using Cons.prems(1) True b(1) by (auto simp: e entry_ok_def)
    have "validate_child (net a n) (net b k) res = Inr ()"
      unfolding validate_child_nets[OF assms(1) b(2) Cons.prems(3)]
      using ok(4) Cons.prems(2) b(1) by (auto simp: disjoint_nets_def sorted_wrt_append)
    moreover have "collect_runner_prefixes u (net a n) (res @ [net b k]) es =
        Inr ((res @ [net b k]) @ map entry_net (filter (\<lambda>e. is_runner_owner (fst e)) es))"
      using Cons.prems b by (intro Cons.IH) auto
    ultimately show ?thesis using True ok b(1) by (simp add: e subnet_text_def)
  next
    case False
    have "disjoint_nets (res @ map entry_net es)" using Cons.prems(2)
      unfolding disjoint_nets_def list.map sorted_wrt_append by simp
    with False Cons show ?thesis by (simp add: e)
  qed
qed simp

lemma runner_prefixes_inv:
  assumes "registry_inv u r root pool"
  shows "runner_prefixes u r pool = Inr (map entry_net (runner_entries r))"
proof -
  obtain a n where p: "pool = net a n" "aligned a n" using assms by (auto simp: registry_inv_def nested_pools_def)
  then have "collect_runner_prefixes u pool [] (reservations r) = Inr (map entry_net (runner_entries r))"
    using assms runner_prefixes_loop[OF p(2), of u "reservations r" "[]"]
    by (simp add: registry_inv_def runner_entries_def)
  then show ?thesis using p by (simp add: runner_prefixes_def aligned_facts(3))
qed

definition runner_nets :: "registry \<Rightarrow> prefix list" where
  "runner_nets r = map entry_net (runner_entries r)"

lemma reserve_runner_inv:
  assumes inv: "registry_inv u r root pool" and runner: "id_valid u KindRunner runner"
  shows "reserve_runner u r pool runner =
    (case map_of (reservations r) (runner_owner runner) of
       Some v \<Rightarrow> Inr (r, entry_net (runner_owner runner, v))
     | None \<Rightarrow>
         (case first_available_child pool 29 (runner_nets r) of
            Inl e \<Rightarrow> Inl ResourceInUse
          | Inr p \<Rightarrow>
              Inr (r\<lparr>rg_Reservations := Some (AList.update (runner_owner runner) (prefix_string p) (reservations r))\<rparr>, p)))"
proof -
  have ptext: "rg_RunnerNetworkPool r = prefix_string pool" and some: "rg_Reservations r = Some (reservations r)"
    using inv by (auto simp: registry_inv_def reservations_def split: option.splits)
  have same: "r\<lparr>rg_Reservations := Some (reservations r)\<rparr> = r" by (simp add: some[symmetric])
  have parse: "parse_ipv4_prefix v = Inr (entry_net (runner_owner runner, v))"
    if "map_of (reservations r) (runner_owner runner) = Some v" for v
  proof -
    have "(runner_owner runner, v) \<in> set (reservations r)" using that by (rule map_of_SomeD)
    then have "entry_ok u pool (runner_owner runner, v)" using inv by (auto simp: registry_inv_def list_all_iff)
    then show ?thesis by (simp add: entry_ok_def subnet_text_def)
  qed
  show ?thesis
    unfolding reserve_runner_def runner_prefixes_inv[OF inv] runner_nets_def
    using runner ptext parse by (simp add: same split: option.split)
qed

lemma runner_nets_inv:
  assumes "registry_inv u r root pool"
  shows "\<forall>q \<in> set (runner_nets r). \<exists>b. q = net b 29 \<and> aligned b 29 \<and> prefix_range q \<subseteq> prefix_range pool"
    "disjoint_nets (runner_nets r)"
proof -
  have "\<exists>b. entry_net e = net b 29 \<and> aligned b 29 \<and> prefix_range (entry_net e) \<subseteq> prefix_range pool"
    if "e \<in> set (runner_entries r)" for e
  proof -
    have "entry_ok u pool e" "is_runner_owner (fst e)"
      using that assms by (auto simp: runner_entries_def registry_inv_def list_all_iff)
    moreover obtain b k where "entry_net e = net b k" "aligned b k" by (rule entry_net_aligned)
    ultimately show ?thesis by (auto simp: entry_ok_def)
  qed
  then show "\<forall>q \<in> set (runner_nets r). \<exists>b. q = net b 29 \<and> aligned b 29 \<and> prefix_range q \<subseteq> prefix_range pool"
    by (auto simp: runner_nets_def)
  show "disjoint_nets (runner_nets r)"
    using assms unfolding registry_inv_def disjoint_nets_def runner_nets_def runner_entries_def
    by (auto simp: sorted_wrt_map intro: sorted_wrt_filter)
qed

lemma allocated_subnet:
  assumes inv: "registry_inv u r root pool" and p: "first_available_child pool 29 (runner_nets r) = Inr p"
  obtains b where "p = net b 29" "aligned b 29" "prefix_range p \<subseteq> prefix_range pool"
    "\<forall>q \<in> set (runner_nets r). prefix_range p \<inter> prefix_range q = {}"
proof -
  obtain a n where pool: "pool = net a n" "aligned a n" "n \<le> 29" using inv by (auto simp: registry_inv_def nested_pools_def)
  have wf: "prefix_wf pool" "\<forall>q \<in> set (runner_nets r). prefix_wf q"
    using runner_nets_inv(1)[OF inv] net_facts(3) by (auto simp: pool)
  note c = allocated_child[OF wf p]
  from first_available_child_spec[OF wf c(8)] obtain s m j k where "aligned s j" "j \<le> m" "m \<le> 32" "29 = int m"
    "k < 2 ^ (m - j)" "p = child_prefix s m k"
    using p by metis
  then have "p = net (of_nat (unat s + k * 2 ^ (32 - m))) 29" "aligned (of_nat (unat s + k * 2 ^ (32 - m))) 29"
    using child_within(3)[of s j m k] by (auto simp: child_prefix_def)
  then show thesis using c(4,6) by (intro that[of "of_nat (unat s + k * 2 ^ (32 - m))"])
qed

lemma runner_owner_facts:
  "is_runner_owner (runner_owner runner)" "owner_runner (runner_owner runner) = runner"
  unfolding owner_runner_def is_runner_owner_def runner_owner_def by (simp_all only: has_prefix_append) simp_all

text \<open>Trimming keeps every character that no space rune is encoded with.\<close>

lemma trim_right_keeps:
  "x \<in> set s \<Longrightarrow> \<forall>e \<in> set space_encodings. x \<notin> set e \<Longrightarrow> x \<in> set (trim_right s)"
proof (induction s rule: trim_right.induct)
  case (1 s)
  show ?case
  proof (cases "find (\<lambda>e. has_suffix e s) space_encodings")
    case None
    with "1.prems" show ?thesis by (subst trim_right.simps) simp
  next
    case (Some e)
    then have e: "e \<in> set space_encodings" "has_suffix e s" by (auto simp: find_Some_iff)
    have "set s = set (take (length s - length e) s) \<union> set e"
      using e(2) by (metis append_take_drop_id has_suffix_def set_append)
    then have "x \<in> set (take (length s - length e) s)" using "1.prems" e(1) by blast
    with "1.IH"[OF Some] "1.prems" Some show ?thesis by (subst trim_right.simps) simp
  qed
qed

lemma runner_owner_not_blank: "trim_space (runner_owner runner) \<noteq> []"
proof -
  have no: "\<forall>e \<in> set space_encodings. CHR ''r'' \<notin> set e" by (simp add: space_encodings_def)
  have "\<not> list_ex (\<lambda>e. has_prefix e (runner_owner runner)) space_encodings"
    by (simp add: space_encodings_def has_prefix_def runner_owner_def)
  then have "trim_left (runner_owner runner) = runner_owner runner" by (simp add: trim_left_id)
  moreover have "CHR ''r'' \<in> set (runner_owner runner)" by (simp add: runner_owner_def)
  ultimately show ?thesis using trim_right_keeps[OF _ no, of "runner_owner runner"] by (auto simp: trim_space_def)
qed

lemma reservations_update [simp]: "reservations (r\<lparr>rg_Reservations := Some m\<rparr>) = m"
  by (simp add: reservations_def)

lemma update_new: "k \<notin> fst ` set al \<Longrightarrow> AList.update k v al = al @ [(k, v)]"
  by (induction al) auto

lemma delete_filter: "AList.delete k al = filter (\<lambda>e. fst e \<noteq> k) al"
  by (auto simp: AList.delete_eq intro!: filter_cong)

lemma other_entries_apart:
  assumes inv: "registry_inv u r root pool" and p: "prefix_range p \<subseteq> prefix_range pool"
    "\<forall>q \<in> set (runner_nets r). prefix_range p \<inter> prefix_range q = {}" and e: "e \<in> set (reservations r)"
  shows "prefix_range p \<inter> prefix_range (entry_net e) = {}"
proof (cases "is_runner_owner (fst e)")
  case True
  then have "entry_net e \<in> set (runner_nets r)" using e by (auto simp: runner_nets_def runner_entries_def)
  with p(2) show ?thesis by blast
next
  case False
  then have "prefix_range (entry_net e) \<inter> prefix_range pool = {}"
    using inv e by (auto simp: registry_inv_def list_all_iff entry_ok_def)
  with p(1) show ?thesis by blast
qed

lemma reserve_inv:
  assumes inv: "registry_inv u r root pool" and d: "distinct (map fst (reservations r))"
    and res: "reserve_runner u r pool runner = Inr (r', p)"
  shows "registry_inv u r' root pool" "distinct (map fst (reservations r'))"
    "map_of (reservations r') (runner_owner runner) = Some (prefix_string p)"
    "\<exists>b. p = net b 29 \<and> aligned b 29 \<and> prefix_range p \<subseteq> prefix_range pool"
proof -
  have runner: "id_valid u KindRunner runner" using res by (auto simp: reserve_runner_def split: if_splits)
  note eq = reserve_runner_inv[OF inv runner]
  have goal: "registry_inv u r' root pool \<and> distinct (map fst (reservations r')) \<and>
      map_of (reservations r') (runner_owner runner) = Some (prefix_string p) \<and>
      (\<exists>b. p = net b 29 \<and> aligned b 29 \<and> prefix_range p \<subseteq> prefix_range pool)"
  proof (cases "map_of (reservations r) (runner_owner runner)")
    case (Some v)
    with res eq have r': "r' = r" "p = entry_net (runner_owner runner, v)" by simp_all
    have e: "(runner_owner runner, v) \<in> set (reservations r)" using Some by (rule map_of_SomeD)
    then have "entry_ok u pool (runner_owner runner, v)" using inv by (auto simp: registry_inv_def list_all_iff)
    then have "prefix_string p = v" by (simp add: entry_ok_def subnet_text_def r'(2))
    moreover have "p \<in> set (runner_nets r)"
      using e runner_owner_facts(1) by (force simp: runner_nets_def runner_entries_def r'(2))
    ultimately show ?thesis using inv d Some runner_nets_inv(1)[OF inv] by (auto simp: r'(1))
  next
    case None
    with res eq obtain p' where p: "first_available_child pool 29 (runner_nets r) = Inr p'" "p' = p"
      and r': "r' = r\<lparr>rg_Reservations := Some (AList.update (runner_owner runner) (prefix_string p) (reservations r))\<rparr>"
      by (auto split: sum.splits)
    obtain b where b: "p = net b 29" "aligned b 29" "prefix_range p \<subseteq> prefix_range pool"
      "\<forall>q \<in> set (runner_nets r). prefix_range p \<inter> prefix_range q = {}"
      using allocated_subnet[OF inv p(1)] p(2) by metis
    let ?e = "(runner_owner runner, prefix_string p)"
    have new: "AList.update (runner_owner runner) (prefix_string p) (reservations r) = reservations r @ [?e]"
      using None by (simp add: update_new map_of_eq_None_iff)
    have net: "entry_net ?e = p" using b(1,2) by (simp add: entry_net_def parse_net_text)
    have st: "subnet_text (prefix_string p) p" and bits: "pf_Bits p = 29" using b(1,2) by (auto simp: subnet_text_iff)
    have "entry_ok u pool ?e"
      using st b(3) runner runner_owner_facts runner_owner_not_blank bits unfolding entry_ok_def net fst_conv snd_conv by simp
    moreover have "disjoint_nets (map entry_net (reservations r) @ [p])"
      using inv other_entries_apart[OF inv b(3,4)] by (auto simp: disjoint_nets_snoc registry_inv_def)
    moreover have "prefix_range pool \<subseteq> prefix_range root" using inv by (auto simp: registry_inv_def nested_pools_def)
    ultimately have "registry_inv u r' root pool"
      using inv b(3) by (auto simp: registry_inv_def r' new net)
    with d b None show ?thesis by (auto simp: r' AList.distinct_update AList.update_conv' map_of_eq_None_iff)
  qed
  then show "registry_inv u r' root pool" "distinct (map fst (reservations r'))"
    "map_of (reservations r') (runner_owner runner) = Some (prefix_string p)"
    "\<exists>b. p = net b 29 \<and> aligned b 29 \<and> prefix_range p \<subseteq> prefix_range pool" by blast+
qed

lemma release_registry_inv:
  assumes inv: "registry_inv u r root pool" and d: "distinct (map fst (reservations r))"
    and res: "release_runner u r runner subnet = Inr r'"
  shows "registry_inv u r' root pool" "distinct (map fst (reservations r'))"
    "map_of (reservations r') = (map_of (reservations r))(runner_owner runner := None)"
proof -
  have r': "r' = r\<lparr>rg_Reservations := Some (filter (\<lambda>e. fst e \<noteq> runner_owner runner) (reservations r))\<rparr>"
    using res by (auto simp: release_runner_def delete_filter split: if_splits)
  have "disjoint_nets (map entry_net (filter (\<lambda>e. fst e \<noteq> runner_owner runner) (reservations r)))"
    using inv by (auto simp: registry_inv_def disjoint_nets_def sorted_wrt_map intro: sorted_wrt_filter)
  then show "registry_inv u r' root pool" using inv by (auto simp: registry_inv_def r' list_all_iff)
  show "distinct (map fst (reservations r'))" using d by (simp add: r' distinct_map_filter)
  show "map_of (reservations r') = (map_of (reservations r))(runner_owner runner := None)"
    using AList.delete_conv'[of "runner_owner runner" "reservations r"] by (simp add: r' delete_filter)
qed

text \<open>The registries that reservations and releases make of one that the Controller has validated.\<close>

inductive registry_reachable :: "ulid_check \<Rightarrow> prefix \<Rightarrow> registry \<Rightarrow> registry \<Rightarrow> bool" for u root r0 where
  start_registry: "registry_reachable u root r0 r0"
| reserve_step: "\<lbrakk>registry_reachable u root r0 r; prefix_wf pool; reserve_runner u r pool runner = Inr (r', p)\<rbrakk> \<Longrightarrow>
    registry_reachable u root r0 r'"
| release_step: "\<lbrakk>registry_reachable u root r0 r; release_runner u r runner subnet = Inr r'\<rbrakk> \<Longrightarrow>
    registry_reachable u root r0 r'"

text \<open>The text of a canonical IPv4 prefix is the text of no other valid prefix, so the pool of a reservation is the
  one the registry names.\<close>

lemma prefix_string_pool:
  assumes inv: "registry_inv u r root pool" and res: "reserve_runner u r pool' runner = Inr (r', p)" and wf: "prefix_wf pool'"
  shows "pool' = pool"
proof -
  from res obtain ps where r: "rg_RunnerNetworkPool r = prefix_string pool'" "runner_prefixes u r pool' = Inr ps"
    unfolding reserve_runner_def if_Inl_eq_Inr try_res_eq_Inr by blast
  from r(2) have "prefix_valid pool'" "is4 (pf_Addr pool')" "pool' = masked pool'"
    unfolding runner_prefixes_def if_Inl_eq_Inr by blast+
  have s: "prefix_string pool' = prefix_string pool" using inv unfolding registry_inv_def r(1) by blast
  have "canonical_ipv4 pool' = Inr pool'"
    unfolding canonical_ipv4_def using \<open>prefix_valid pool'\<close> \<open>is4 (pf_Addr pool')\<close> \<open>pool' = masked pool'\<close> by simp
  from canonical_ipv4_Inr[OF wf this] obtain a n where a: "pool' = net a n" "aligned a n" by metis
  obtain b m where b: "pool = net b m" "aligned b m"
    using inv unfolding registry_inv_def nested_pools_def by blast
  have "ipv4_prefix_text a n = ipv4_prefix_text b m" using s unfolding a(1) b(1) prefix_string_net .
  then have "Inr (net a n) = (Inr (net b m) :: prefix res)"
    unfolding parse_net_text[OF a(2), symmetric] parse_net_text[OF b(2), symmetric] by simp
  then show ?thesis unfolding a(1) b(1) by simp
qed

lemma registry_reachable_inv:
  assumes "registry_reachable u root r0 r" "prefix_wf root" "registry_validate u r0 root = Inr ()"
    "distinct (map fst (reservations r0))"
  shows "\<exists>pool. registry_inv u r root pool \<and> distinct (map fst (reservations r))"
  using assms
proof (induction rule: registry_reachable.induct)
  case start_registry
  then show ?case using registry_validate_iff by blast
next
  case (reserve_step r pool' runner r' p)
  then obtain pool where inv: "registry_inv u r root pool" "distinct (map fst (reservations r))" by blast
  with reserve_step.hyps prefix_string_pool have "pool' = pool" by blast
  with reserve_inv[OF inv] reserve_step.hyps show ?case by blast
next
  case (release_step r runner subnet r')
  then show ?case using release_registry_inv by blast
qed

lemma disjoint_entries:
  assumes "registry_inv u r root pool" "e \<in> set (reservations r)" "f \<in> set (reservations r)" "e \<noteq> f"
  shows "prefix_range (entry_net e) \<inter> prefix_range (entry_net f) = {}"
proof -
  have "sorted_wrt (\<lambda>e f. prefix_range (entry_net e) \<inter> prefix_range (entry_net f) = {}) (reservations r)"
    using assms(1) by (simp add: registry_inv_def disjoint_nets_def sorted_wrt_map)
  moreover obtain i j where "i < length (reservations r)" "e = reservations r ! i" "j < length (reservations r)"
    "f = reservations r ! j" using assms(2,3) by (auto simp: in_set_conv_nth)
  moreover from this assms(4) have "i < j \<or> j < i" by (metis linorder_neqE_nat)
  ultimately show ?thesis unfolding sorted_wrt_iff_nth_less by blast
qed

section \<open>The pool suffices for the slots\<close>

lemma child_meets:
  assumes "aligned a n" "n \<le> 29" "k < 2 ^ (29 - n)" "aligned b 29" "child_range (unat a) 29 k \<inter> net_range b 29 \<noteq> {}"
  shows "unat b = unat a + k * 8"
proof -
  let ?c = "of_nat (unat a + k * 2 ^ (32 - 29)) :: u32"
  have c: "unat ?c = unat a + k * 8" "aligned ?c 29" "net_range ?c 29 = child_range (unat a) 29 k"
    using child_within(2-4)[OF assms(1,2) _ assms(3)] by simp_all
  have "net_range b 29 \<inter> net_range ?c 29 \<noteq> {}" using assms(5) unfolding c(3) by blast
  then have "unat b div 8 = unat ?c div 8" using net_ranges_meet(1)[OF assms(4) c(2)] by simp
  moreover have "8 dvd unat b" "8 dvd unat ?c" using assms(4) c(2) by (simp_all add: aligned_def)
  ultimately show ?thesis using c(1) by (metis dvd_div_mult_self)
qed

lemma free_child_exists:
  assumes pool: "aligned a n" "n \<le> 29" and ps: "\<forall>q \<in> set ps. \<exists>b. q = net b 29 \<and> aligned b 29"
    and few: "length ps < 2 ^ (29 - n)"
  shows "\<exists>k < 2 ^ (29 - n). child_free (unat a) 29 ps k"
proof (rule ccontr)
  assume none: "\<not> ?thesis"
  have meets: "\<exists>q \<in> set ps. \<exists>b. q = net b 29 \<and> unat b = unat a + k * 8" if k: "k < 2 ^ (29 - n)" for k
  proof -
    have "\<not> child_free (unat a) 29 ps k" using none k by blast
    then obtain q where q: "q \<in> set ps" "child_range (unat a) 29 k \<inter> prefix_range q \<noteq> {}"
      unfolding child_free_def by blast
    then obtain b where b: "q = net b 29" "aligned b 29" using ps by blast
    with q(2) have "unat b = unat a + k * 8"
      by (intro child_meets[OF pool k b(2)]) (simp add: aligned_facts(1))
    with q(1) b(1) show ?thesis by blast
  qed
  have "\<forall>k \<in> {..<2 ^ (29 - n)}. \<exists>q. q \<in> set ps \<and> (\<exists>b. q = net b 29 \<and> unat b = unat a + k * 8)"
    using meets by blast
  from bchoice[OF this] obtain f where
    f: "\<forall>k \<in> {..<2 ^ (29 - n)}. f k \<in> set ps \<and> (\<exists>b. f k = net b 29 \<and> unat b = unat a + k * 8)" ..
  have "inj_on f {..<2 ^ (29 - n)}"
  proof (rule inj_onI)
    fix i j assume ij: "i \<in> {..<2 ^ (29 - n)}" "j \<in> {..<2 ^ (29 - n)}" "f i = f j"
    then obtain b c where "f i = net b 29" "unat b = unat a + i * 8" "f j = net c 29" "unat c = unat a + j * 8"
      using f by blast
    with ij(3) show "i = j" by simp
  qed
  moreover have "f ` {..<2 ^ (29 - n)} \<subseteq> set ps" using f by blast
  ultimately have "card {..<(2::nat) ^ (29 - n)} \<le> card (set ps)" by (intro card_inj_on_le) auto
  then show False using few card_length[of ps] by simp
qed

lemma reserve_succeeds:
  assumes inv: "registry_inv u r root pool" and runner: "id_valid u KindRunner runner"
    and pool: "pool = net a n" "aligned a n" "n \<le> 29" and few: "length (runner_entries r) < 2 ^ (29 - n)"
  shows "\<exists>r' p. reserve_runner u r pool runner = Inr (r', p)"
proof (cases "map_of (reservations r) (runner_owner runner)")
  case None
  have wf: "prefix_wf pool" "\<forall>q \<in> set (runner_nets r). prefix_wf q"
    using runner_nets_inv(1)[OF inv] net_facts(3) pool by auto
  have "\<forall>q \<in> set (runner_nets r). prefix_valid q \<and> is4 (pf_Addr q) \<and> prefix_range q \<subseteq> prefix_range pool"
    using runner_nets_inv(1)[OF inv] net_facts(1,2) by auto
  then have "request_ok pool 29 (runner_nets r)" using pool by (simp add: request_ok_def)
  from first_available_child_spec[OF wf this] obtain s m j where c: "masked pool = net s j" "29 = int m" "pf_Bits pool = int j"
    "first_available_child pool 29 (runner_nets r) = Inl StateConflict \<longleftrightarrow>
       (\<forall>k < 2 ^ (m - j). \<not> child_free (unat s) m (runner_nets r) k)"
    "first_available_child pool 29 (runner_nets r) \<in> range Inr \<union> {Inl StateConflict}"
    by metis
  have m: "m = 29" "s = a" "j = n" using c(1,2) pool aligned_facts(3)[OF pool(2)] by simp_all
  have "\<forall>q \<in> set (runner_nets r). \<exists>b. q = net b 29 \<and> aligned b 29" using runner_nets_inv(1)[OF inv] by blast
  from free_child_exists[OF pool(2,3) this] few obtain p where "first_available_child pool 29 (runner_nets r) = Inr p"
    using c(4,5) unfolding m by (auto simp: runner_nets_def)
  with None show ?thesis unfolding reserve_runner_inv[OF inv runner] by simp
qed (simp add: reserve_runner_inv[OF inv runner])

section \<open>Examples\<close>

text \<open>The pool 10.0.0.0/24 of the system pool 10.0.0.0/16 gives room for eight host slots.\<close>

definition example_hosts :: host_pool where
  "example_hosts = \<lparr>hp_HostUIDStart = 20000, hp_HostUIDEnd = 20007, hp_SubUIDStart = 1000000, hp_SubUIDEnd = 1524287,
     hp_SubGIDStart = 1000000, hp_SubGIDEnd = 1524287\<rparr>"

definition example_config :: allocation_config where
  "example_config = \<lparr>ac_SystemPool = net 167772160 16, ac_RunnerPool = net 167772160 24, ac_HostPool = example_hosts\<rparr>"

definition example_registry :: registry where
  "example_registry = \<lparr>rg_RunnerNetworkPool = ipv4_prefix_text 167772160 24, rg_Reservations = Some []\<rparr>"

definition example_runner :: "char \<Rightarrow> string" where
  "example_runner c = KindRunner @ ''_'' @ replicate 26 c"

definition any_ulid :: ulid_check where
  "any_ulid = (\<lambda>_. True)"

lemma example_count: "slot_count example_hosts = Inr 8"
  by (simp add: slot_count_Inr slot_pool_def example_hosts_def)

lemma example_aligned: "aligned 167772160 16" "aligned 167772160 24" "aligned 167772160 29" "aligned 167772168 29"
  by (simp_all add: aligned_def)

lemma example_wf: "prefix_wf (ac_SystemPool example_config)" "prefix_wf (ac_RunnerPool example_config)"
  using net_facts(3) example_aligned by (simp_all add: example_config_def)

lemma example_nested: "nested_pools (net 167772160 16) (net 167772160 24)"
  unfolding nested_pools_def
  by (intro exI[of _ 167772160] exI[of _ "16 :: nat"] exI[of _ "24 :: nat"])
    (auto simp: example_aligned aligned_facts(1) net_range_def block_range_def)

lemma example_valid: "validate_config example_config = Inr 8"
proof -
  have "net_range 167772160 24 \<subseteq> net_range 167772160 16" by (auto simp: net_range_def block_range_def)
  then show ?thesis
    unfolding validate_config_Inr[OF example_wf]
    using example_count example_aligned by (auto simp: example_config_def slot_count_Inr)
qed

lemma example_inv: "registry_inv any_ulid example_registry (net 167772160 16) (net 167772160 24)"
  using example_nested by (simp add: registry_inv_def example_registry_def reservations_def disjoint_nets_def)

lemma example_ids: "id_valid any_ulid KindRunner (example_runner CHR ''A'')" "id_valid any_ulid KindRunner (example_runner CHR ''B'')"
  "example_runner CHR ''A'' < example_runner CHR ''B''"
  by code_simp+

lemma example_validates: "registry_validate any_ulid example_registry (net 167772160 16) = Inr ()"
  using registry_validate_iff[OF net_facts(3)[OF example_aligned(1)]] example_inv by blast

lemma example_reserve:
  obtains r p where "reserve_runner any_ulid example_registry (net 167772160 24) (example_runner CHR ''A'') = Inr (r, p)"
  using reserve_succeeds[OF example_inv example_ids(1) refl example_aligned(2)]
  by (auto simp: runner_entries_def example_registry_def reservations_def)

section \<open>Properties\<close>

text \<open>C22. The slots of a host are isolated: for a valid configuration each slot has an allocation for every subnet of
  the Runner size; its host user id and its blocks of subordinate ids lie inside the configured ranges, computed
  without wrap-around; and two slots share no host user id and no subordinate id.\<close>

theorem runner_slots_isolated:
  assumes "slot_count c = Inr slots" "i < slots" "j < slots" "i \<noteq> j"
  shows "(\<forall>b. aligned b 29 \<longrightarrow> allocation c i (net b 29) = Inr (allocation_at c i (net b 29))) \<and>
    (\<forall>p q a b. allocation c i p = Inr a \<longrightarrow> allocation c j q = Inr b \<longrightarrow>
       hp_HostUIDStart c \<le> ha_HostUID a \<and> ha_HostUID a \<le> hp_HostUIDEnd c \<and> ha_HostUID a \<noteq> ha_HostUID b \<and>
       subuid_range a \<subseteq> {unat (hp_SubUIDStart c)..unat (hp_SubUIDEnd c)} \<and> subuid_range a \<inter> subuid_range b = {} \<and>
       subgid_range a \<subseteq> {unat (hp_SubGIDStart c)..unat (hp_SubGIDEnd c)} \<and> subgid_range a \<inter> subgid_range b = {})"
proof -
  have pool: "slot_pool c (unat slots)" using assms(1) by (simp add: slot_count_Inr)
  have lt: "unat i < unat slots" "unat j < unat slots" "unat i \<noteq> unat j"
    using assms(2-4) by (simp_all add: word_less_nat_alt word_unat_eq_iff)
  note at_i = allocation_at_ids[OF pool lt(1)] and at_j = allocation_at_ids[OF pool lt(2)]
  have apart: "block_range (lo + unat i * 65536) 65536 \<inter> block_range (lo + unat j * 65536) 65536 = {}" for lo
    using lt(3) by (subst block_meets) auto
  have within: "block_range (lo + unat i * 65536) 65536 \<subseteq> {lo..hi}" if "lo + unat slots * 65536 = hi + 1" for lo hi
    using that lt(1) by (auto simp: block_range_def)
  have "hp_HostUIDStart c \<le> ha_HostUID (allocation_at c i p)" "ha_HostUID (allocation_at c i p) \<le> hp_HostUIDEnd c"
    "ha_HostUID (allocation_at c i p) \<noteq> ha_HostUID (allocation_at c j q)" for p q
    using pool lt unfolding slot_pool_def word_le_nat_alt word_unat_eq_iff at_i(1) at_j(1) by linarith+
  moreover have "allocation c i (net b 29) = Inr (allocation_at c i (net b 29))" if "aligned b 29" for b
    by (rule allocation_of_net[OF pool lt(1) that])
  ultimately show ?thesis
    using apart within pool unfolding slot_pool_def allocation_Inr by (auto simp: at_i(2,3) at_j(2,3))
qed

theorem runner_slots_isolated_witness:
  "subuid_range (allocation_at example_hosts 0 (net 167772160 29)) \<inter>
     subuid_range (allocation_at example_hosts 1 (net 167772168 29)) = {}"
proof -
  have "(0 :: u32) < 8" "(1 :: u32) < 8" "(0 :: u32) \<noteq> 1" by simp_all
  note iso = runner_slots_isolated[OF example_count this] and osi = runner_slots_isolated[OF example_count this(2,1) this(3)[symmetric]]
  from iso osi example_aligned(3,4) show ?thesis by blast
qed

text \<open>An allocation record is accepted against a valid configuration exactly when it is what the configuration
  computes for its slot and some subnet of the Runner pool, and no id of it is 0.\<close>

theorem accepted_allocations:
  assumes "prefix_wf (ac_SystemPool c)" "prefix_wf (ac_RunnerPool c)" "validate_config c = Inr slots"
  shows "validate_allocation c a = Inr () \<longleftrightarrow>
    (\<exists>b. aligned b 29 \<and> prefix_range (net b 29) \<subseteq> prefix_range (ac_RunnerPool c) \<and> ha_Slot a < slots \<and>
       a = allocation_at (ac_HostPool c) (ha_Slot a) (net b 29)) \<and>
    ha_HostUID a \<noteq> 0 \<and> ha_SubUIDStart a \<noteq> 0 \<and> ha_SubGIDStart a \<noteq> 0"
  using assms by (rule validate_allocation_ok)

theorem accepted_allocations_witness:
  "validate_allocation example_config (allocation_at example_hosts 1 (net 167772168 29)) = Inr ()"
proof -
  let ?a = "allocation_at example_hosts 1 (net 167772168 29)"
  have "net_range 167772168 29 \<subseteq> net_range 167772160 24" by (auto simp: net_range_def block_range_def)
  then have "prefix_range (net 167772168 29) \<subseteq> prefix_range (ac_RunnerPool example_config)"
    using example_aligned by (simp add: example_config_def aligned_facts(1))
  moreover have "ha_Slot ?a = 1" "ha_HostUID ?a \<noteq> 0" "ha_SubUIDStart ?a \<noteq> 0" "ha_SubGIDStart ?a \<noteq> 0"
    by (simp_all add: allocation_at_def example_hosts_def block_size_def)
  ultimately show ?thesis
    using accepted_allocations[OF example_wf example_valid, of ?a] example_aligned(4)
    by (auto simp: example_config_def)
qed

text \<open>The registry stays valid: whatever reservations and releases follow on a registry that the Controller has
  validated, the registry validates, each owner holds one subnet, and the subnets of different owners do not meet.\<close>

theorem registry_stays_valid:
  assumes "registry_reachable u root r0 r" "prefix_wf root" "registry_validate u r0 root = Inr ()"
    "distinct (map fst (reservations r0))"
  shows "registry_validate u r root = Inr () \<and> distinct (map fst (reservations r)) \<and>
    (\<forall>e \<in> set (reservations r). \<forall>f \<in> set (reservations r). fst e \<noteq> fst f \<longrightarrow>
       prefix_range (entry_net e) \<inter> prefix_range (entry_net f) = {})"
proof -
  obtain pool where "registry_inv u r root pool" "distinct (map fst (reservations r))"
    using registry_reachable_inv[OF assms] by blast
  then show ?thesis using registry_validate_iff[OF assms(2)] disjoint_entries by blast
qed

theorem registry_stays_valid_witness:
  "\<exists>r p. reserve_runner any_ulid example_registry (net 167772160 24) (example_runner CHR ''A'') = Inr (r, p) \<and>
     registry_validate any_ulid r (net 167772160 16) = Inr ()"
proof -
  obtain r p where r: "reserve_runner any_ulid example_registry (net 167772160 24) (example_runner CHR ''A'') = Inr (r, p)"
    by (rule example_reserve)
  have "registry_reachable any_ulid (net 167772160 16) example_registry r"
    by (rule registry_reachable.reserve_step[OF registry_reachable.start_registry net_facts(3)[OF example_aligned(2)] r])
  from registry_stays_valid[OF this net_facts(3)[OF example_aligned(1)] example_validates] r show ?thesis
    by (auto simp: example_registry_def reservations_def)
qed

text \<open>Reserving is idempotent and undone by releasing: a reserved subnet is a Runner subnet of the pool that met
  no reservation, the same Runner is given it again, and releasing it restores the reservations.\<close>

theorem reserve_release_round_trip:
  assumes "prefix_wf root" "registry_validate u r root = Inr ()" "distinct (map fst (reservations r))" "prefix_wf pool"
    "reserve_runner u r pool runner = Inr (r', p)"
  shows "pf_Bits p = 29 \<and> prefix_range p \<subseteq> prefix_range pool \<and> reserve_runner u r' pool runner = Inr (r', p) \<and>
    (map_of (reservations r) (runner_owner runner) = None \<longrightarrow>
       (\<exists>s. release_runner u r' runner (prefix_string p) = Inr s \<and>
          map_of (reservations s) = map_of (reservations r)))"
proof -
  obtain pool' where inv: "registry_inv u r root pool'" using registry_validate_iff[OF assms(1)] assms(2) by blast
  have eq: "pool' = pool" using prefix_string_pool[OF inv assms(5,4)] by simp
  have runner: "id_valid u KindRunner runner" using assms(5) by (auto simp: reserve_runner_def split: if_splits)
  note r = reserve_inv[OF inv assms(3) assms(5)[folded eq]]
  obtain b where b: "p = net b 29" "aligned b 29" "prefix_range p \<subseteq> prefix_range pool" using r(4) eq by blast
  have again: "reserve_runner u r' pool runner = Inr (r', p)"
    unfolding reserve_runner_inv[OF r(1) runner, unfolded eq] using r(3) b(1,2)
    by (simp add: entry_net_def parse_net_text)
  obtain a n where pool: "pool = net a n" "aligned a n" "n \<le> 29" using inv eq by (auto simp: registry_inv_def nested_pools_def)
  have "rg_RunnerNetworkPool r' = ipv4_prefix_text a n" using r(1) eq pool by (simp add: registry_inv_def)
  then have ok: "validate_reservations u r' = Inr ()"
    using validate_reservations_ok[OF pool(2,3)] r(1) eq pool(1) by (simp add: registry_inv_def)
  let ?s = "r'\<lparr>rg_Reservations := Some (AList.delete (runner_owner runner) (reservations r'))\<rparr>"
  have rel: "release_runner u r' runner (prefix_string p) = Inr ?s" using ok r(3) by (simp add: release_runner_def)
  have "map_of (reservations ?s) = map_of (reservations r)" if none: "map_of (reservations r) (runner_owner runner) = None"
  proof -
    have "map_of (reservations r') = (map_of (reservations r))(runner_owner runner \<mapsto> prefix_string p)"
      using assms(5) none unfolding eq[symmetric] reserve_runner_inv[OF inv runner]
      by (auto simp: AList.update_conv' split: sum.splits)
    then show ?thesis using none by (simp add: AList.delete_conv' fun_upd_idem)
  qed
  with b again rel show ?thesis by auto
qed

theorem reserve_release_round_trip_witness:
  "\<exists>r p. reserve_runner any_ulid example_registry (net 167772160 24) (example_runner CHR ''A'') = Inr (r, p) \<and>
     reserve_runner any_ulid r (net 167772160 24) (example_runner CHR ''A'') = Inr (r, p)"
proof -
  obtain r p where r: "reserve_runner any_ulid example_registry (net 167772160 24) (example_runner CHR ''A'') = Inr (r, p)"
    by (rule example_reserve)
  from reserve_release_round_trip[OF net_facts(3)[OF example_aligned(1)] example_validates _
      net_facts(3)[OF example_aligned(2)] r] r
  show ?thesis by (auto simp: example_registry_def reservations_def)
qed

text \<open>The subnets cannot run out before the slots: with a valid configuration and registry, fewer Runner
  reservations than slots leave room for every further Runner.\<close>

theorem subnets_suffice_for_slots:
  assumes "prefix_wf (ac_SystemPool c)" "prefix_wf (ac_RunnerPool c)" "validate_config c = Inr slots"
    "registry_inv u r root (ac_RunnerPool c)" "id_valid u KindRunner runner" "length (runner_entries r) < unat slots"
  shows "\<exists>r' p. reserve_runner u r (ac_RunnerPool c) runner = Inr (r', p)"
proof -
  obtain a n where "ac_RunnerPool c = net a n" "aligned a n" "n \<le> 29" "unat slots \<le> 2 ^ (29 - n)"
    using validate_config_Inr[OF assms(1,2), of slots] assms(3) by blast
  with reserve_succeeds[OF assms(4,5)] assms(6) show ?thesis by simp
qed

theorem subnets_suffice_for_slots_witness:
  "\<exists>r' p. reserve_runner any_ulid example_registry (net 167772160 24) (example_runner CHR ''A'') = Inr (r', p)"
proof -
  have "length (runner_entries example_registry) < unat (8 :: u32)"
    by (simp add: runner_entries_def example_registry_def reservations_def)
  from subnets_suffice_for_slots[OF example_wf example_valid _ example_ids(1) this] example_inv
  show ?thesis by (simp add: example_config_def)
qed

text \<open>The quota of a Tenant is a set of at most five Runners, kept in order: claiming adds a Runner to the set or
  finds it there, and is refused exactly when the set would hold six; releasing removes a Runner of the set and
  refuses any other; both results are quotas again.\<close>

theorem quota_is_a_bounded_set:
  assumes "quota_validate u q = Inr ()"
  shows "quota_claim u q runner =
      (if \<not> id_valid u KindRunner runner then Inl ValidationFailed
       else if card (insert runner (set q)) \<le> 5 then Inr (sorted_list_of_set (insert runner (set q)))
       else Inl ResourceInUse) \<and>
    quota_release u q runner =
      (if runner \<in> set q then Inr (sorted_list_of_set (set q - {runner})) else Inl StateConflict) \<and>
    (\<forall>q'. quota_claim u q runner = Inr q' \<or> quota_release u q runner = Inr q' \<longrightarrow> quota_validate u q' = Inr ())"
proof -
  have ok: "quota_ok u q" using assms by (simp add: quota_validate_ok split: if_splits)
  then have v: "\<forall>x \<in> set q. id_valid u KindRunner x" "card (set q - {runner}) \<le> maximum_tenant_runners"
    using card_Diff1_le[of "set q" runner] card_length[of q] by (auto simp: quota_ok_def list_all_iff intro: order_trans)
  have "quota_ok u q'" if "quota_claim u q runner = Inr q' \<or> quota_release u q runner = Inr q'" for q'
  proof -
    from that obtain S where "q' = sorted_list_of_set S" "S = insert runner (set q) \<and> id_valid u KindRunner runner \<or> S = set q - {runner}"
      "card S \<le> maximum_tenant_runners"
      using v(2) unfolding quota_claim_set[OF ok] quota_release_set[OF ok]
      by (metis (no_types, lifting) sum.inject(2) sum.distinct(1))
    then show ?thesis using v(1) by (auto intro!: quota_ok_set)
  qed
  then show ?thesis using quota_claim_set[OF ok] quota_release_set[OF ok] by (simp add: quota_validate_ok)
qed

theorem quota_is_a_bounded_set_witness:
  "quota_claim any_ulid [example_runner CHR ''B''] (example_runner CHR ''A'') =
     Inr [example_runner CHR ''A'', example_runner CHR ''B'']"
proof -
  have "quota_validate any_ulid [example_runner CHR ''B''] = Inr ()"
    using example_ids(2) by (simp add: quota_validate_def)
  from quota_is_a_bounded_set[OF this, of "example_runner CHR ''A''"] example_ids show ?thesis
    by (simp add: insort_is_Cons less_imp_le less_imp_neq)
qed

end
