(* ===== verification/BlueprintReconcile.thy ===== *)
theory BlueprintReconcile
  imports Kahn Ids "HOL-Library.List_Lexorder" "HOL-Library.Char_ord" "HOL-Library.Product_Lexorder"
begin

text \<open>
  Blueprint reconciliation (\<open>internal/core/blueprintreconcile\<close>): the selection of the units of the latest
  desired set that may start, wait or are satisfied, of the executions that continue or are cancelled, and the
  handoff of a superseded execution.
\<close>

section \<open>Resources, units and executions\<close>

datatype resource_key = ResourceKey (rk_Kind: kind) (rk_ID: string)

text \<open>\<open>compareKey\<close>: by kind and then by id, both compared by bytes.\<close>

definition compare_key :: "resource_key \<Rightarrow> resource_key \<Rightarrow> int" where
  "compare_key x y =
     (let order = (if rk_Kind x < rk_Kind y then -1 else if rk_Kind y < rk_Kind x then 1 else 0) in
      if order \<noteq> 0 then order
      else if rk_ID x < rk_ID y then -1 else if rk_ID y < rk_ID x then 1 else 0)"

lemma compare_key_sign:
  "compare_key x y \<le> 0 \<longleftrightarrow> (rk_Kind x, rk_ID x) \<le> (rk_Kind y, rk_ID y)"
  "compare_key x y < 0 \<longleftrightarrow> (rk_Kind x, rk_ID x) < (rk_Kind y, rk_ID y)"
  "compare_key x y = 0 \<longleftrightarrow> x = y"
  by (auto simp: compare_key_def Let_def resource_key.expand)

instantiation resource_key :: linorder
begin

definition less_eq_resource_key :: "resource_key \<Rightarrow> resource_key \<Rightarrow> bool" where
  "less_eq_resource_key x y \<longleftrightarrow> compare_key x y \<le> 0"

definition less_resource_key :: "resource_key \<Rightarrow> resource_key \<Rightarrow> bool" where
  "less_resource_key x y \<longleftrightarrow> compare_key x y < 0"

instance
proof
  fix x y z :: resource_key
  note key_order = less_resource_key_def less_eq_resource_key_def compare_key_sign(1,2)
  show "x < y \<longleftrightarrow> x \<le> y \<and> \<not> y \<le> x" unfolding key_order by (rule less_le_not_le)
  show "x \<le> x" by (simp add: key_order)
  show "x \<le> y \<Longrightarrow> y \<le> z \<Longrightarrow> x \<le> z" unfolding key_order by (rule order_trans)
  show "x \<le> y \<Longrightarrow> y \<le> x \<Longrightarrow> x = y" unfolding key_order by (cases x; cases y) (auto dest: order_antisym)
  show "x \<le> y \<or> y \<le> x" unfolding key_order by (rule linear)
qed

end

text \<open>A fingerprint is an array of 32 bytes; the zero array stands for no input.\<close>

type_synonym fingerprint = "256 word"

record unit_ =
  un_Target :: resource_key
  un_Removal :: bool
  un_Fingerprint :: fingerprint
  un_Reads :: "resource_key list"
  un_Writes :: "resource_key list"
  un_After :: "resource_key list"

datatype applied_state = Absent | Applied | Diverged | Uncertain | Declared | AppliedStateOther string

record applied_unit =
  ap_Target :: resource_key
  ap_State :: applied_state
  ap_Fingerprint :: fingerprint
  ap_AffectedWrites :: "resource_key list"

datatype execution_state = ExecPending | ExecRunning | ExecDraining | ExecutionStateOther string

record execution =
  exe_WorkItemID :: string
  exe_AttemptID :: string
  exe_TaskID :: string
  exe_AttemptNumber :: u64
  exe_Unit :: unit_
  exe_State :: execution_state

record snapshot =
  sn_Desired :: "unit_ list"
  sn_Applied :: "applied_unit list"
  sn_Executions :: "execution list"

record selection =
  sl_Ready :: "resource_key list"
  sl_Satisfied :: "resource_key list"
  sl_Waiting :: "resource_key list"
  sl_ResolveEffects :: "resource_key list"
  sl_CancelPending :: "string list"
  sl_CancelRunning :: "string list"
  sl_ContinuePending :: "string list"
  sl_ContinueRunning :: "string list"

section \<open>Access sets\<close>

text \<open>The merge of two sorted access sets.\<close>

fun intersects :: "resource_key list \<Rightarrow> resource_key list \<Rightarrow> bool" where
  "intersects [] ys = False"
| "intersects xs [] = False"
| "intersects (x # xs) (y # ys) =
     (if compare_key x y = 0 then True
      else if compare_key x y < 0 then intersects xs (y # ys) else intersects (x # xs) ys)"

definition conflicts :: "unit_ \<Rightarrow> unit_ \<Rightarrow> bool" where
  "conflicts l r \<longleftrightarrow>
     intersects (un_Writes l) (un_Writes r) \<or> intersects (un_Writes l) (un_Reads r) \<or>
     intersects (un_Reads l) (un_Writes r)"

definition conflicts_any :: "unit_ \<Rightarrow> unit_ list \<Rightarrow> bool" where
  "conflicts_any u held \<longleftrightarrow> list_ex (\<lambda>other. conflicts u other) held"

definition same_unit :: "unit_ \<Rightarrow> unit_ \<Rightarrow> bool" where
  "same_unit l r \<longleftrightarrow>
     un_Target l = un_Target r \<and> un_Removal l = un_Removal r \<and> un_Fingerprint l = un_Fingerprint r \<and>
     un_Reads l = un_Reads r \<and> un_Writes l = un_Writes r \<and> un_After l = un_After r"

section \<open>Normalisation\<close>

definition reconcile_kinds :: "kind list" where
  "reconcile_kinds =
     [KindEnvironment, KindService, KindEnvEntry, KindVolume, KindAttach, KindRoute, KindDNSRecord,
      KindNetwork, KindComponent, KindSecret, KindScript]"

definition valid_key :: "ulid_check \<Rightarrow> resource_key \<Rightarrow> bool" where
  "valid_key u key \<longleftrightarrow> rk_Kind key \<in> set reconcile_kinds \<and> id_valid u (rk_Kind key) (rk_ID key)"

fun check_keys :: "ulid_check \<Rightarrow> resource_key option \<Rightarrow> resource_key list \<Rightarrow> unit res" where
  "check_keys u previous [] = Inr ()"
| "check_keys u previous (key # keys) =
     (if \<not> valid_key u key \<or> previous = Some key then Inl ValidationFailed else check_keys u (Some key) keys)"

definition normalize_keys :: "ulid_check \<Rightarrow> resource_key list \<Rightarrow> resource_key list res" where
  "normalize_keys u keys = try_res (check_keys u None (sort keys)) (\<lambda>_. Inr (sort keys))"

definition normalize_unit :: "ulid_check \<Rightarrow> unit_ \<Rightarrow> unit_ res" where
  "normalize_unit u v =
     (if \<not> valid_key u (un_Target v) \<or> un_Removal v = (un_Fingerprint v \<noteq> 0) then Inl ValidationFailed
      else try_res (normalize_keys u (un_Reads v)) (\<lambda>reads.
      try_res (normalize_keys u (un_Writes v)) (\<lambda>writes.
      try_res (normalize_keys u (un_After v)) (\<lambda>after_keys.
      if un_Target v \<notin> set writes \<or> intersects reads writes \<or> un_Target v \<in> set after_keys
      then Inl ValidationFailed
      else Inr (v\<lparr>un_Reads := reads, un_Writes := writes, un_After := after_keys\<rparr>)))))"

definition normalize_execution :: "ulid_check \<Rightarrow> execution \<Rightarrow> execution res" where
  "normalize_execution u e =
     (if \<not> id_valid u KindWorkItem (exe_WorkItemID e) \<or> \<not> id_valid u KindTask (exe_TaskID e) \<or>
         exe_State e \<noteq> ExecPending \<and> exe_State e \<noteq> ExecRunning \<and> exe_State e \<noteq> ExecDraining \<or>
         exe_State e = ExecPending \<and> (exe_AttemptNumber e \<noteq> 0 \<or> exe_AttemptID e \<noteq> []) \<or>
         exe_State e \<noteq> ExecPending \<and> (exe_AttemptNumber e = 0 \<or> \<not> id_valid u KindAttempt (exe_AttemptID e))
      then Inl ValidationFailed
      else try_res (normalize_unit u (exe_Unit e)) (\<lambda>v. Inr (e\<lparr>exe_Unit := v\<rparr>)))"

text \<open>The loop over the desired units; the map \<open>desired\<close> is the list of units normalised so far.\<close>

fun normalize_desired :: "ulid_check \<Rightarrow> unit_ list \<Rightarrow> unit_ list \<Rightarrow> unit_ list res" where
  "normalize_desired u seen [] = Inr seen"
| "normalize_desired u seen (v # vs) =
     try_res (normalize_unit u v) (\<lambda>n.
     if un_Target v \<in> un_Target ` set seen then Inl ValidationFailed else normalize_desired u (seen @ [n]) vs)"

text \<open>\<open>desired[key]\<close>: the unit of a target.\<close>

definition unit_of :: "unit_ list \<Rightarrow> resource_key \<Rightarrow> unit_ option" where
  "unit_of vs key = find (\<lambda>v. un_Target v = key) vs"

definition removal_desired :: "unit_ list \<Rightarrow> resource_key \<Rightarrow> bool" where
  "removal_desired vs key = (case unit_of vs key of None \<Rightarrow> False | Some v \<Rightarrow> un_Removal v)"

definition normalize_applied_unit :: "ulid_check \<Rightarrow> unit_ list \<Rightarrow> applied_unit list \<Rightarrow> applied_unit \<Rightarrow> applied_unit res" where
  "normalize_applied_unit u desired seen a =
     (if \<not> valid_key u (ap_Target a) \<or>
         ap_State a \<noteq> Applied \<and> ap_State a \<noteq> Absent \<and> ap_State a \<noteq> Diverged \<and> ap_State a \<noteq> Uncertain \<and>
           ap_State a \<noteq> Declared \<or>
         ap_State a = Applied \<and> ap_Fingerprint a = 0 \<or>
         (ap_State a = Absent \<or> ap_State a = Declared) \<and> ap_Fingerprint a \<noteq> 0
        then Inl ValidationFailed
      else if ap_Target a \<in> ap_Target ` set seen then Inl ValidationFailed
      else if ap_State a = Declared \<and> \<not> removal_desired desired (ap_Target a) then Inl ValidationFailed
      else try_res (normalize_keys u (ap_AffectedWrites a)) (\<lambda>writes.
      (let affected = (ap_State a = Uncertain \<or> ap_State a = Diverged) in
       if affected \<and> ap_Target a \<notin> set writes \<or> \<not> affected \<and> length writes \<noteq> 0 \<or>
          ap_State a = Diverged \<and> length writes \<noteq> 1
       then Inl ValidationFailed else Inr (a\<lparr>ap_AffectedWrites := writes\<rparr>))))"

fun normalize_applied :: "ulid_check \<Rightarrow> unit_ list \<Rightarrow> applied_unit list \<Rightarrow> applied_unit list \<Rightarrow> applied_unit list res" where
  "normalize_applied u desired seen [] = Inr seen"
| "normalize_applied u desired seen (a # as) =
     try_res (normalize_applied_unit u desired seen a) (\<lambda>n. normalize_applied u desired (seen @ [n]) as)"

text \<open>
  \<open>validateDependencies\<close>: the ready list is a stack, whose initial order is that of a map iteration, here the
  order of the units.
\<close>

definition unit_graph :: "unit_ list \<Rightarrow> (resource_key \<times> resource_key) list" where
  "unit_graph vs = concat (map (\<lambda>v. map (\<lambda>d. (d, un_Target v)) (un_After v)) vs)"

definition validate_dependencies :: "unit_ list \<Rightarrow> unit res" where
  "validate_dependencies vs =
     (if list_ex (\<lambda>v. list_ex (\<lambda>d. d \<notin> un_Target ` set vs) (un_After v)) vs then Inl ValidationFailed
      else (let ready = rev (map un_Target (filter (\<lambda>v. length (un_After v) = 0) vs));
                ordered = kahn_run push_stack (unit_graph vs) (map un_Target vs) ready
            in if length ordered \<noteq> length vs then Inl ValidationFailed else Inr ()))"

text \<open>The loop over the executions, with the work items seen, the targets of pending required executions, and
  the units of the executions that hold claims.\<close>

fun normalize_executions ::
  "ulid_check \<Rightarrow> unit_ list \<Rightarrow> string list \<Rightarrow> resource_key list \<Rightarrow> unit_ list \<Rightarrow> execution list \<Rightarrow> execution list res" where
  "normalize_executions u desired items queued held [] = Inr []"
| "normalize_executions u desired items queued held (e # es) =
     try_res (normalize_execution u e) (\<lambda>n.
     if exe_WorkItemID n \<in> set items then Inl ValidationFailed
     else if exe_State n \<noteq> ExecPending then
       (if conflicts_any (exe_Unit n) held then Inl ValidationFailed
        else try_res (normalize_executions u desired (exe_WorkItemID n # items) queued (held @ [exe_Unit n]) es)
               (\<lambda>ns. Inr (n # ns)))
     else if (case unit_of desired (un_Target (exe_Unit n)) of
                None \<Rightarrow> False | Some latest \<Rightarrow> same_unit (exe_Unit n) latest) then
       (if un_Target (exe_Unit n) \<in> set queued then Inl ValidationFailed
        else try_res (normalize_executions u desired (exe_WorkItemID n # items) (un_Target (exe_Unit n) # queued) held es)
               (\<lambda>ns. Inr (n # ns)))
     else try_res (normalize_executions u desired (exe_WorkItemID n # items) queued held es) (\<lambda>ns. Inr (n # ns)))"

definition normalize_snapshot :: "ulid_check \<Rightarrow> snapshot \<Rightarrow> snapshot res" where
  "normalize_snapshot u s =
     try_res (normalize_desired u [] (sn_Desired s)) (\<lambda>desired.
     try_res (normalize_applied u desired [] (sn_Applied s)) (\<lambda>applied.
     if list_ex (\<lambda>v. un_Target v \<notin> ap_Target ` set applied) desired then Inl ValidationFailed
     else try_res (validate_dependencies desired) (\<lambda>_.
     try_res (normalize_executions u desired [] [] [] (sn_Executions s)) (\<lambda>executions.
       Inr \<lparr>sn_Desired = sort_key un_Target desired, sn_Applied = applied,
            sn_Executions = sort_key exe_WorkItemID executions\<rparr>))))"

section \<open>Selection\<close>

definition any_marked :: "resource_key list \<Rightarrow> resource_key set \<Rightarrow> bool" where
  "any_marked keys marked \<longleftrightarrow> list_ex (\<lambda>k. k \<in> marked) keys"

definition touches_resources :: "unit_ \<Rightarrow> resource_key set \<Rightarrow> bool" where
  "touches_resources v marked \<longleftrightarrow> any_marked (un_Reads v) marked \<or> any_marked (un_Writes v) marked"

definition pending_writes_affect :: "unit_ \<Rightarrow> unit_ list \<Rightarrow> bool" where
  "pending_writes_affect v held \<longleftrightarrow>
     list_ex (\<lambda>other. intersects (un_Writes other) (un_Writes v) \<or> intersects (un_Writes other) (un_Reads v)) held"

text \<open>A missing key of \<open>desired\<close> reads the zero unit, which no other unit affects; the dependencies of a
  normalised snapshot are all present.\<close>

definition dependencies_applied :: "unit_ \<Rightarrow> unit_ list \<Rightarrow> (resource_key \<Rightarrow> bool) \<Rightarrow> unit_ list \<Rightarrow> bool" where
  "dependencies_applied v desired trusted held \<longleftrightarrow>
     list_all (\<lambda>key. trusted key \<and>
       \<not> (case unit_of desired key of None \<Rightarrow> False | Some d \<Rightarrow> pending_writes_affect d held)) (un_After v)"

definition applied_of :: "applied_unit list \<Rightarrow> resource_key \<Rightarrow> applied_unit option" where
  "applied_of as key = find (\<lambda>a. ap_Target a = key) as"

definition uncertain_keys :: "applied_unit list \<Rightarrow> resource_key set" where
  "uncertain_keys as = \<Union> (set ` (ap_AffectedWrites ` set (filter (\<lambda>a. ap_State a = Uncertain) as)))"

definition diverged_keys :: "applied_unit list \<Rightarrow> resource_key set" where
  "diverged_keys as = \<Union> (set ` (ap_AffectedWrites ` set (filter (\<lambda>a. ap_State a \<noteq> Uncertain) as)))"

definition applied_matches :: "unit_ \<Rightarrow> applied_unit option \<Rightarrow> bool" where
  "applied_matches v prior \<longleftrightarrow>
     (case prior of
        None \<Rightarrow> False
      | Some a \<Rightarrow> un_Removal v \<and> ap_State a = Absent \<or>
          \<not> un_Removal v \<and> ap_State a = Applied \<and> ap_Fingerprint a = un_Fingerprint v)"

definition trusted :: "snapshot \<Rightarrow> resource_key \<Rightarrow> bool" where
  "trusted s key =
     (case unit_of (sn_Desired s) key of
        None \<Rightarrow> False
      | Some v \<Rightarrow> applied_matches v (applied_of (sn_Applied s) key) \<and>
          \<not> touches_resources v (uncertain_keys (sn_Applied s)) \<and>
          \<not> touches_resources v (diverged_keys (sn_Applied s)))"

text \<open>The state of the two loops: the claims held, the decisions so far, and the targets whose execution
  continues, running or pending.\<close>

record select_state =
  ss_Held :: "unit_ list"
  ss_Selection :: selection
  ss_Continuing :: "resource_key list"
  ss_ContinuingPending :: "resource_key list"

fun select_executions :: "snapshot \<Rightarrow> execution list \<Rightarrow> select_state \<Rightarrow> select_state" where
  "select_executions s [] st = st"
| "select_executions s (e # es) st =
     (let v = exe_Unit e; sel = ss_Selection st;
          required = (case unit_of (sn_Desired s) (un_Target v) of None \<Rightarrow> False | Some latest \<Rightarrow> same_unit latest v) in
      select_executions s es
        (case exe_State e of
           ExecPending \<Rightarrow>
             if \<not> required \<or> trusted s (un_Target v) \<or> conflicts_any v (ss_Held st)
             then st\<lparr>ss_Selection := sel\<lparr>sl_CancelPending := sl_CancelPending sel @ [exe_WorkItemID e]\<rparr>\<rparr>
             else st\<lparr>ss_Selection := sel\<lparr>sl_ContinuePending := sl_ContinuePending sel @ [exe_WorkItemID e]\<rparr>,
                     ss_ContinuingPending := un_Target v # ss_ContinuingPending st,
                     ss_Held := ss_Held st @ [v]\<rparr>
         | ExecRunning \<Rightarrow>
             if required
             then st\<lparr>ss_Selection := sel\<lparr>sl_ContinueRunning := sl_ContinueRunning sel @ [exe_WorkItemID e]\<rparr>,
                     ss_Continuing := un_Target v # ss_Continuing st\<rparr>
             else st\<lparr>ss_Selection := sel\<lparr>sl_CancelRunning := sl_CancelRunning sel @ [exe_WorkItemID e]\<rparr>\<rparr>
         | _ \<Rightarrow> st))"

definition waits :: "snapshot \<Rightarrow> unit_ \<Rightarrow> unit_ list \<Rightarrow> bool" where
  "waits s v held \<longleftrightarrow>
     touches_resources v (uncertain_keys (sn_Applied s)) \<or> any_marked (un_Reads v) (diverged_keys (sn_Applied s)) \<or>
     \<not> dependencies_applied v (sn_Desired s) (trusted s) held"

definition select_unit :: "snapshot \<Rightarrow> unit_ \<Rightarrow> select_state \<Rightarrow> select_state" where
  "select_unit s v st =
     (let t = un_Target v; sel = ss_Selection st in
      if t \<in> set (ss_Continuing st) \<or> t \<in> set (ss_ContinuingPending st) then st
      else if conflicts_any v (ss_Held st)
        then st\<lparr>ss_Selection := sel\<lparr>sl_Waiting := sl_Waiting sel @ [t]\<rparr>\<rparr>
      else if (case applied_of (sn_Applied s) t of None \<Rightarrow> False | Some a \<Rightarrow> ap_State a = Uncertain)
        then st\<lparr>ss_Selection := sel\<lparr>sl_ResolveEffects := sl_ResolveEffects sel @ [t]\<rparr>\<rparr>
      else if waits s v (ss_Held st)
        then st\<lparr>ss_Selection := sel\<lparr>sl_Waiting := sl_Waiting sel @ [t]\<rparr>\<rparr>
      else if trusted s t
        then st\<lparr>ss_Selection := sel\<lparr>sl_Satisfied := sl_Satisfied sel @ [t]\<rparr>\<rparr>
      else st\<lparr>ss_Selection := sel\<lparr>sl_Ready := sl_Ready sel @ [t]\<rparr>, ss_Held := ss_Held st @ [v]\<rparr>)"

fun select_desired :: "snapshot \<Rightarrow> unit_ list \<Rightarrow> select_state \<Rightarrow> select_state" where
  "select_desired s [] st = st"
| "select_desired s (v # vs) st = select_desired s vs (select_unit s v st)"

definition empty_selection :: selection where
  "empty_selection = \<lparr>sl_Ready = [], sl_Satisfied = [], sl_Waiting = [], sl_ResolveEffects = [],
     sl_CancelPending = [], sl_CancelRunning = [], sl_ContinuePending = [], sl_ContinueRunning = []\<rparr>"

definition initial_state :: "snapshot \<Rightarrow> select_state" where
  "initial_state s =
     \<lparr>ss_Held = map exe_Unit (filter (\<lambda>e. exe_State e \<noteq> ExecPending) (sn_Executions s)),
      ss_Selection = empty_selection, ss_Continuing = [], ss_ContinuingPending = []\<rparr>"

definition select_state_of :: "snapshot \<Rightarrow> select_state" where
  "select_state_of s = select_desired s (sn_Desired s) (select_executions s (sn_Executions s) (initial_state s))"

definition select :: "ulid_check \<Rightarrow> snapshot \<Rightarrow> selection res" where
  "select u input = try_res (normalize_snapshot u input) (\<lambda>s. Inr (ss_Selection (select_state_of s)))"

section \<open>Handoff\<close>

datatype executor_stop_state = ExecutorUnconfirmed | ExecutorStopped | ExecutorStopOther string
datatype write_outcome = WriteUnknown | WriteUntouched | WriteChanged | WriteOutcomeOther string

record write_effect =
  we_Resource :: resource_key
  we_Outcome :: write_outcome

record handoff_report =
  hr_WorkItemID :: string
  hr_AttemptID :: string
  hr_TaskID :: string
  hr_AttemptNumber :: u64
  hr_Executor :: executor_stop_state
  hr_Writes :: "write_effect list"

record handoff_decision =
  hd_Settled :: bool
  hd_ChangedWrites :: "resource_key list"

text \<open>The loop over the sorted writes, beside those of the execution.\<close>

fun account_writes ::
  "resource_key list \<Rightarrow> write_effect list \<Rightarrow> bool \<Rightarrow> resource_key list \<Rightarrow> (bool \<times> resource_key list) res" where
  "account_writes (k # ks) (w # ws) settled changed =
     (if we_Resource w \<noteq> k then Inl ValidationFailed
      else case we_Outcome w of
        WriteUnknown \<Rightarrow> account_writes ks ws False changed
      | WriteUntouched \<Rightarrow> account_writes ks ws settled changed
      | WriteChanged \<Rightarrow> account_writes ks ws settled (changed @ [we_Resource w])
      | WriteOutcomeOther x \<Rightarrow> Inl ValidationFailed)"
| "account_writes ks [] settled changed = Inr (settled, changed)"
| "account_writes [] (w # ws) settled changed = Inl Panic"

definition resolve_handoff :: "ulid_check \<Rightarrow> execution \<Rightarrow> handoff_report \<Rightarrow> handoff_decision res" where
  "resolve_handoff u execution report =
     try_res (normalize_execution u execution) (\<lambda>e.
     if exe_State e \<noteq> ExecDraining \<or> hr_WorkItemID report \<noteq> exe_WorkItemID e \<or> hr_TaskID report \<noteq> exe_TaskID e \<or>
        hr_AttemptID report \<noteq> exe_AttemptID e \<or> hr_AttemptNumber report \<noteq> exe_AttemptNumber e
       then Inl StateConflict
     else if hr_Executor report \<noteq> ExecutorUnconfirmed \<and> hr_Executor report \<noteq> ExecutorStopped \<or>
             length (hr_Writes report) \<noteq> length (un_Writes (exe_Unit e))
       then Inl ValidationFailed
     else try_res (account_writes (un_Writes (exe_Unit e)) (sort_key we_Resource (hr_Writes report))
                     (hr_Executor report = ExecutorStopped) []) (\<lambda>(settled, changed).
       if \<not> settled then Inr \<lparr>hd_Settled = False, hd_ChangedWrites = []\<rparr>
       else Inr \<lparr>hd_Settled = True, hd_ChangedWrites = changed\<rparr>))"

section \<open>Access sets as sets\<close>

lemma resource_order:
  "compare_key x y = 0 \<longleftrightarrow> x = y" "compare_key x y < 0 \<longleftrightarrow> x < y"
  by (simp_all add: compare_key_sign less_resource_key_def)

lemma intersects_iff:
  "sorted xs \<Longrightarrow> sorted ys \<Longrightarrow> intersects xs ys \<longleftrightarrow> set xs \<inter> set ys \<noteq> {}"
proof (induction xs ys rule: intersects.induct)
  case (3 x xs y ys)
  consider "x = y" | "x < y" | "y < x" by force
  then show ?case
  proof cases
    case 2
    then have "x \<notin> set (y # ys)" using "3.prems"(2) by auto
    with 2 3 show ?thesis by (auto simp: resource_order)
  next
    case 3
    then have "y \<notin> set (x # xs)" using "3.prems"(1) by auto
    with 3 "3.IH" "3.prems" show ?thesis by (auto simp: resource_order)
  qed (simp add: resource_order)
qed auto

text \<open>The promise of \<open>conflicts\<close>: two units that do not conflict can run side by side, neither of them
  writing what the other reads or writes.\<close>

definition independent :: "unit_ \<Rightarrow> unit_ \<Rightarrow> bool" where
  "independent l r \<longleftrightarrow>
     set (un_Writes l) \<inter> (set (un_Reads r) \<union> set (un_Writes r)) = {} \<and>
     set (un_Writes r) \<inter> (set (un_Reads l) \<union> set (un_Writes l)) = {}"

lemma independent_commute: "independent l r \<longleftrightarrow> independent r l"
  by (auto simp: independent_def)

definition access_sorted :: "unit_ \<Rightarrow> bool" where
  "access_sorted v \<longleftrightarrow> sorted (un_Reads v) \<and> sorted (un_Writes v)"

lemma conflicts_independent: "access_sorted l \<Longrightarrow> access_sorted r \<Longrightarrow> conflicts l r \<longleftrightarrow> \<not> independent l r"
  unfolding conflicts_def independent_def access_sorted_def by (auto simp: intersects_iff)

lemma conflicts_any_iff: "conflicts_any v held \<longleftrightarrow> (\<exists>other \<in> set held. conflicts v other)"
  by (simp add: conflicts_any_def list_ex_iff)

lemma conflicts_any_independent:
  "access_sorted v \<Longrightarrow> \<forall>h \<in> set held. access_sorted h \<Longrightarrow>
     conflicts_any v held \<longleftrightarrow> (\<exists>h \<in> set held. \<not> independent v h)"
  by (simp add: conflicts_any_iff conflicts_independent)

lemma same_unit_iff [simp]: "same_unit l r \<longleftrightarrow> l = r"
  by (cases l; cases r) (auto simp: same_unit_def)

section \<open>Normalisation as a condition and a normal form\<close>

definition keys_ok :: "ulid_check \<Rightarrow> resource_key list \<Rightarrow> bool" where
  "keys_ok u keys \<longleftrightarrow> distinct keys \<and> list_all (valid_key u) keys"

lemma check_keys_ok:
  "sorted keys \<Longrightarrow> (\<forall>p. previous = Some p \<longrightarrow> (\<forall>k \<in> set keys. p \<le> k)) \<Longrightarrow>
     check_keys u previous keys = Inr () \<longleftrightarrow>
       keys_ok u keys \<and> (\<forall>p. previous = Some p \<longrightarrow> p \<notin> set keys)"
proof (induction keys arbitrary: previous)
  case (Cons key keys)
  have "\<forall>k \<in> set keys. key \<le> k" using Cons.prems(1) by simp
  with Cons.IH[of "Some key"] Cons.prems(1)
  have IH: "check_keys u (Some key) keys = Inr () \<longleftrightarrow> keys_ok u keys \<and> key \<notin> set keys" by simp
  have "p \<notin> set keys" if "previous = Some p" "p \<noteq> key" for p
    using that Cons.prems \<open>\<forall>k \<in> set keys. key \<le> k\<close> by force
  then show ?case by (auto simp: IH keys_ok_def)
qed (simp add: keys_ok_def)

lemma check_keys_error: "check_keys u previous keys = Inl e \<Longrightarrow> e = ValidationFailed"
  by (induction keys arbitrary: previous) (auto split: if_splits)

lemma keys_ok_sort [simp]: "keys_ok u (sort keys) \<longleftrightarrow> keys_ok u keys"
  by (simp add: keys_ok_def list_all_iff)

lemma normalize_keys_Inr: "normalize_keys u keys = Inr ns \<longleftrightarrow> keys_ok u keys \<and> ns = sort keys"
  unfolding normalize_keys_def try_res_unit by (auto simp: check_keys_ok)

lemma normalize_keys_error: "normalize_keys u keys = Inl e \<Longrightarrow> e = ValidationFailed"
  by (auto simp: normalize_keys_def try_res_eq_Inl dest: check_keys_error)

definition unit_ok :: "ulid_check \<Rightarrow> unit_ \<Rightarrow> bool" where
  "unit_ok u v \<longleftrightarrow>
     valid_key u (un_Target v) \<and> (un_Removal v \<longleftrightarrow> un_Fingerprint v = 0) \<and>
     keys_ok u (un_Reads v) \<and> keys_ok u (un_Writes v) \<and> keys_ok u (un_After v) \<and>
     un_Target v \<in> set (un_Writes v) \<and> set (un_Reads v) \<inter> set (un_Writes v) = {} \<and>
     un_Target v \<notin> set (un_After v)"

definition normal_unit :: "unit_ \<Rightarrow> unit_" where
  "normal_unit v = v\<lparr>un_Reads := sort (un_Reads v), un_Writes := sort (un_Writes v), un_After := sort (un_After v)\<rparr>"

lemma normal_unit_simps [simp]:
  "un_Target (normal_unit v) = un_Target v" "un_Removal (normal_unit v) = un_Removal v"
  "un_Fingerprint (normal_unit v) = un_Fingerprint v" "set (un_Reads (normal_unit v)) = set (un_Reads v)"
  "set (un_Writes (normal_unit v)) = set (un_Writes v)" "set (un_After (normal_unit v)) = set (un_After v)"
  "access_sorted (normal_unit v)" "length (un_After (normal_unit v)) = length (un_After v)"
  "normal_unit (normal_unit v) = normal_unit v"
  by (simp_all add: normal_unit_def access_sorted_def sorted_sort_id)

lemma independent_normal [simp]:
  "independent (normal_unit l) r \<longleftrightarrow> independent l r" "independent l (normal_unit r) \<longleftrightarrow> independent l r"
  by (simp_all add: independent_def)

lemma unit_ok_normal [simp]: "unit_ok u (normal_unit v) \<longleftrightarrow> unit_ok u v"
  unfolding unit_ok_def by (simp add: normal_unit_def)

lemma normalize_unit_Inr: "normalize_unit u v = Inr n \<longleftrightarrow> unit_ok u v \<and> n = normal_unit v"
  unfolding normalize_unit_def unit_ok_def
  by (auto simp: normalize_keys_Inr intersects_iff normal_unit_def)

lemma normalize_unit_error: "normalize_unit u v = Inl e \<Longrightarrow> e = ValidationFailed"
  by (auto simp: normalize_unit_def try_res_eq_Inl dest: normalize_keys_error split: if_splits)

definition execution_ok :: "ulid_check \<Rightarrow> execution \<Rightarrow> bool" where
  "execution_ok u e \<longleftrightarrow>
     id_valid u KindWorkItem (exe_WorkItemID e) \<and> id_valid u KindTask (exe_TaskID e) \<and> unit_ok u (exe_Unit e) \<and>
     (exe_State e = ExecPending \<and> exe_AttemptNumber e = 0 \<and> exe_AttemptID e = [] \<or>
      exe_State e \<in> {ExecRunning, ExecDraining} \<and> exe_AttemptNumber e \<noteq> 0 \<and> id_valid u KindAttempt (exe_AttemptID e))"

definition normal_execution :: "execution \<Rightarrow> execution" where
  "normal_execution e = e\<lparr>exe_Unit := normal_unit (exe_Unit e)\<rparr>"

lemma normal_execution_simps [simp]:
  "exe_WorkItemID (normal_execution e) = exe_WorkItemID e" "exe_State (normal_execution e) = exe_State e"
  "exe_Unit (normal_execution e) = normal_unit (exe_Unit e)" "exe_TaskID (normal_execution e) = exe_TaskID e"
  "exe_AttemptID (normal_execution e) = exe_AttemptID e" "exe_AttemptNumber (normal_execution e) = exe_AttemptNumber e"
  by (simp_all add: normal_execution_def)

lemma normalize_execution_Inr:
  "normalize_execution u e = Inr n \<longleftrightarrow> execution_ok u e \<and> n = normal_execution e"
  unfolding normalize_execution_def execution_ok_def
  by (auto simp: normalize_unit_Inr normal_execution_def)

lemma normalize_execution_error: "normalize_execution u e = Inl x \<Longrightarrow> x = ValidationFailed"
  by (auto simp: normalize_execution_def try_res_eq_Inl dest: normalize_unit_error split: if_splits)

text \<open>The desired units.\<close>

lemma normalize_desired_Inr:
  "normalize_desired u seen vs = Inr ns \<longleftrightarrow>
     list_all (unit_ok u) vs \<and> distinct (map un_Target vs) \<and> un_Target ` set seen \<inter> un_Target ` set vs = {} \<and>
     ns = seen @ map normal_unit vs"
  by (induction vs arbitrary: seen) (auto simp: normalize_unit_Inr)

lemma normalize_desired_error: "normalize_desired u seen vs = Inl e \<Longrightarrow> e = ValidationFailed"
  by (induction vs arbitrary: seen) (auto simp: try_res_eq_Inl dest: normalize_unit_error split: if_splits)

text \<open>The applied units.\<close>

definition applied_ok :: "ulid_check \<Rightarrow> (resource_key \<Rightarrow> bool) \<Rightarrow> applied_unit \<Rightarrow> bool" where
  "applied_ok u removal a \<longleftrightarrow>
     valid_key u (ap_Target a) \<and> keys_ok u (ap_AffectedWrites a) \<and>
     (case ap_State a of
        Applied \<Rightarrow> ap_Fingerprint a \<noteq> 0 \<and> ap_AffectedWrites a = []
      | Absent \<Rightarrow> ap_Fingerprint a = 0 \<and> ap_AffectedWrites a = []
      | Declared \<Rightarrow> ap_Fingerprint a = 0 \<and> ap_AffectedWrites a = [] \<and> removal (ap_Target a)
      | Diverged \<Rightarrow> ap_AffectedWrites a = [ap_Target a]
      | Uncertain \<Rightarrow> ap_Target a \<in> set (ap_AffectedWrites a)
      | AppliedStateOther x \<Rightarrow> False)"

definition normal_applied :: "applied_unit \<Rightarrow> applied_unit" where
  "normal_applied a = a\<lparr>ap_AffectedWrites := sort (ap_AffectedWrites a)\<rparr>"

lemma normal_applied_simps [simp]:
  "ap_Target (normal_applied a) = ap_Target a" "ap_State (normal_applied a) = ap_State a"
  "ap_Fingerprint (normal_applied a) = ap_Fingerprint a"
  "set (ap_AffectedWrites (normal_applied a)) = set (ap_AffectedWrites a)"
  by (simp_all add: normal_applied_def)

lemma sort_Nil_iff: "sort xs = [] \<longleftrightarrow> xs = []"
  by (metis length_0_conv length_sort)

lemma one_key: "k \<in> set ks \<Longrightarrow> length ks = Suc 0 \<Longrightarrow> ks = [k]"
  by (cases ks) auto

lemma normalize_applied_unit_Inr:
  "normalize_applied_unit u desired seen a = Inr n \<longleftrightarrow>
     applied_ok u (removal_desired desired) a \<and> ap_Target a \<notin> ap_Target ` set seen \<and> n = normal_applied a"
  unfolding normalize_applied_unit_def applied_ok_def normal_applied_def Let_def
  by (cases "ap_State a") (auto simp: normalize_keys_Inr sort_Nil_iff dest: one_key)

lemma normalize_applied_unit_error: "normalize_applied_unit u desired seen a = Inl e \<Longrightarrow> e = ValidationFailed"
  by (auto simp: normalize_applied_unit_def Let_def try_res_eq_Inl dest: normalize_keys_error split: if_splits)

lemma normalize_applied_Inr:
  "normalize_applied u desired seen as = Inr ns \<longleftrightarrow>
     list_all (applied_ok u (removal_desired desired)) as \<and> distinct (map ap_Target as) \<and>
     ap_Target ` set seen \<inter> ap_Target ` set as = {} \<and> ns = seen @ map normal_applied as"
  by (induction as arbitrary: seen) (auto simp: normalize_applied_unit_Inr)

lemma normalize_applied_error: "normalize_applied u desired seen as = Inl e \<Longrightarrow> e = ValidationFailed"
  by (induction as arbitrary: seen) (auto simp: try_res_eq_Inl dest: normalize_applied_unit_error)

text \<open>The dependencies: every one is desired, and they have no cycle.\<close>

definition after_edges :: "unit_ list \<Rightarrow> (resource_key \<times> resource_key) set" where
  "after_edges vs = {(d, un_Target v) | v d. v \<in> set vs \<and> d \<in> set (un_After v)}"

lemma after_edges_iff: "(d, t) \<in> after_edges vs \<longleftrightarrow> (\<exists>v \<in> set vs. t = un_Target v \<and> d \<in> set (un_After v))"
  by (auto simp: after_edges_def)

lemma set_unit_graph: "set (unit_graph vs) = after_edges vs"
  by (auto simp: unit_graph_def after_edges_def)

lemma indegree_unit_graph_other: "t \<notin> un_Target ` set vs \<Longrightarrow> indegree_of (unit_graph vs) t = 0"
  by (auto simp: indegree_of_def unit_graph_def filter_empty_conv)

lemma indegree_unit_graph:
  "distinct (map un_Target vs) \<Longrightarrow> v \<in> set vs \<Longrightarrow> indegree_of (unit_graph vs) (un_Target v) = int (length (un_After v))"
proof (induction vs)
  case (Cons w vs)
  have split: "indegree_of (unit_graph (w # vs)) t =
      (if un_Target w = t then int (length (un_After w)) else 0) + indegree_of (unit_graph vs) t" for t
    by (simp add: indegree_of_def unit_graph_def filter_map comp_def)
  show ?case
  proof (cases "v = w")
    case True
    with Cons.prems(1) show ?thesis by (simp add: split indegree_unit_graph_other)
  next
    case False
    with Cons.prems have "un_Target w \<noteq> un_Target v" by auto
    with False Cons show ?thesis by (simp add: split)
  qed
qed simp

lemma validate_dependencies_ok:
  assumes d: "distinct (map un_Target vs)"
  shows "validate_dependencies vs = Inr () \<longleftrightarrow>
     (\<forall>v \<in> set vs. set (un_After v) \<subseteq> un_Target ` set vs) \<and> acyclic (after_edges vs)"
proof (cases "\<forall>v \<in> set vs. set (un_After v) \<subseteq> un_Target ` set vs")
  case True
  let ?ready = "rev (map un_Target (filter (\<lambda>v. length (un_After v) = 0) vs))"
  have "mset ?ready = mset (filter (\<lambda>n. indegree_of (unit_graph vs) n = 0) (map un_Target vs))"
    by (simp add: filter_map comp_def indegree_unit_graph[OF d] cong: filter_cong)
  moreover have "fst ` set (unit_graph vs) \<union> snd ` set (unit_graph vs) \<subseteq> set (map un_Target vs)"
    using True by (fastforce simp: set_unit_graph after_edges_def)
  ultimately obtain ord where "kahn_order push_stack (unit_graph vs) (map un_Target vs) ?ready = Some ord"
    "length ord = length vs \<longleftrightarrow> acyclic (after_edges vs)"
    using stack_list.kahn_order_spec[of "unit_graph vs" "map un_Target vs" ?ready] d by (auto simp: set_unit_graph)
  moreover have "\<not> list_ex (\<lambda>v. list_ex (\<lambda>d. d \<notin> un_Target ` set vs) (un_After v)) vs"
    using True by (auto simp: list_ex_iff)
  ultimately show ?thesis using True by (simp add: validate_dependencies_def kahn_run_def Let_def)
next
  case False
  then have "list_ex (\<lambda>v. list_ex (\<lambda>d. d \<notin> un_Target ` set vs) (un_After v)) vs" by (auto simp: list_ex_iff)
  with False show ?thesis by (simp add: validate_dependencies_def)
qed

lemma validate_dependencies_error: "validate_dependencies vs = Inl e \<Longrightarrow> e = ValidationFailed"
  by (auto simp: validate_dependencies_def Let_def split: if_splits)

text \<open>The executions.\<close>

definition required :: "(resource_key \<Rightarrow> unit_ option) \<Rightarrow> execution \<Rightarrow> bool" where
  "required latest e \<longleftrightarrow> latest (un_Target (exe_Unit e)) = Some (exe_Unit e)"

lemma required_case:
  "(case latest (un_Target (exe_Unit e)) of None \<Rightarrow> False | Some v \<Rightarrow> same_unit v (exe_Unit e)) \<longleftrightarrow> required latest e"
  "(case latest (un_Target (exe_Unit e)) of None \<Rightarrow> False | Some v \<Rightarrow> same_unit (exe_Unit e) v) \<longleftrightarrow> required latest e"
  by (auto simp: required_def split: option.splits)

text \<open>The units of the executions that own claims, and the targets of the pending executions that are
  still required.\<close>

definition owned_units :: "execution list \<Rightarrow> unit_ list" where
  "owned_units es = map exe_Unit (filter (\<lambda>e. exe_State e \<noteq> ExecPending) es)"

definition queued_targets :: "(resource_key \<Rightarrow> unit_ option) \<Rightarrow> execution list \<Rightarrow> resource_key list" where
  "queued_targets latest es =
     map (un_Target \<circ> exe_Unit) (filter (\<lambda>e. exe_State e = ExecPending \<and> required latest e) es)"

lemma owned_units_simps [simp]:
  "owned_units [] = []"
  "owned_units (e # es) = (if exe_State e \<noteq> ExecPending then [exe_Unit e] else []) @ owned_units es"
  by (simp_all add: owned_units_def)

lemma queued_targets_simps [simp]:
  "queued_targets latest [] = []"
  "queued_targets latest (e # es) =
     (if exe_State e = ExecPending \<and> required latest e then [un_Target (exe_Unit e)] else []) @ queued_targets latest es"
  by (simp_all add: queued_targets_def)

definition pairwise_independent :: "unit_ list \<Rightarrow> bool" where
  "pairwise_independent vs \<longleftrightarrow> sorted_wrt independent vs"

lemma normalize_executions_Inr:
  "\<forall>h \<in> set held. access_sorted h \<Longrightarrow>
   normalize_executions u desired items queued held es = Inr ns \<longleftrightarrow>
     ns = map normal_execution es \<and> list_all (execution_ok u) es \<and>
     distinct (map exe_WorkItemID es) \<and> set items \<inter> exe_WorkItemID ` set es = {} \<and>
     pairwise_independent (owned_units ns) \<and> (\<forall>v \<in> set (owned_units ns). \<forall>h \<in> set held. independent v h) \<and>
     distinct (queued_targets (unit_of desired) ns) \<and> set queued \<inter> set (queued_targets (unit_of desired) ns) = {}"
proof (induction es arbitrary: items queued held ns)
  case (Cons e es)
  let ?n = "normal_execution e"
  have any: "conflicts_any (normal_unit (exe_Unit e)) held \<longleftrightarrow> (\<exists>h \<in> set held. \<not> independent h (exe_Unit e))"
    using Cons.prems by (simp add: conflicts_any_independent independent_commute)
  have held': "\<forall>h \<in> set (held @ [normal_unit (exe_Unit e)]). access_sorted h" using Cons.prems by simp
  show ?case
  proof (cases "exe_State e = ExecPending")
    case True
    show ?thesis
    proof (cases "required (unit_of desired) ?n")
      case True
      with \<open>exe_State e = ExecPending\<close> show ?thesis
        unfolding normalize_executions.simps required_case try_res_eq_Inr normalize_execution_Inr
        by (auto simp: Cons.IH[OF Cons.prems] pairwise_independent_def)
    next
      case False
      with \<open>exe_State e = ExecPending\<close> show ?thesis
        unfolding normalize_executions.simps required_case try_res_eq_Inr normalize_execution_Inr
        by (auto simp: Cons.IH[OF Cons.prems] pairwise_independent_def)
    qed
  next
    case False
    then show ?thesis
      unfolding normalize_executions.simps try_res_eq_Inr normalize_execution_Inr
      by (auto simp: Cons.IH[OF held'] any pairwise_independent_def independent_commute)
  qed
qed (auto simp: pairwise_independent_def)

lemma normalize_executions_error:
  "normalize_executions u desired items queued held es = Inl x \<Longrightarrow> x = ValidationFailed"
  by (induction es arbitrary: items queued held)
    (auto simp: try_res_eq_Inl required_case dest: normalize_execution_error split: if_splits)

text \<open>The conditions a snapshot has to meet, whatever the order of its lists, and its normal form.\<close>

definition desired_units :: "snapshot \<Rightarrow> unit_ list" where
  "desired_units s = map normal_unit (sn_Desired s)"

definition snapshot_valid :: "ulid_check \<Rightarrow> snapshot \<Rightarrow> bool" where
  "snapshot_valid u s \<longleftrightarrow>
     list_all (unit_ok u) (sn_Desired s) \<and> distinct (map un_Target (sn_Desired s)) \<and>
     list_all (applied_ok u (removal_desired (desired_units s))) (sn_Applied s) \<and>
     distinct (map ap_Target (sn_Applied s)) \<and>
     un_Target ` set (sn_Desired s) \<subseteq> ap_Target ` set (sn_Applied s) \<and>
     (\<forall>v \<in> set (sn_Desired s). set (un_After v) \<subseteq> un_Target ` set (sn_Desired s)) \<and>
     acyclic (after_edges (sn_Desired s)) \<and>
     list_all (execution_ok u) (sn_Executions s) \<and> distinct (map exe_WorkItemID (sn_Executions s)) \<and>
     pairwise_independent (owned_units (sn_Executions s)) \<and>
     distinct (queued_targets (unit_of (desired_units s)) (map normal_execution (sn_Executions s)))"

definition normal_snapshot :: "snapshot \<Rightarrow> snapshot" where
  "normal_snapshot s =
     \<lparr>sn_Desired = sort_key un_Target (desired_units s), sn_Applied = map normal_applied (sn_Applied s),
      sn_Executions = sort_key exe_WorkItemID (map normal_execution (sn_Executions s))\<rparr>"

lemma owned_units_normal: "owned_units (map normal_execution es) = map normal_unit (owned_units es)"
  by (induction es) auto

lemma pairwise_independent_normal [simp]:
  "pairwise_independent (map normal_unit vs) \<longleftrightarrow> pairwise_independent vs"
  by (simp add: pairwise_independent_def sorted_wrt_map)

lemma after_edges_normal [simp]: "after_edges (map normal_unit vs) = after_edges vs"
  by (auto simp: set_eq_iff after_edges_iff)

lemma normalize_snapshot_Inr:
  "normalize_snapshot u s = Inr n \<longleftrightarrow> snapshot_valid u s \<and> n = normal_snapshot s"
proof -
  have dt: "map un_Target (map normal_unit vs) = map un_Target vs" for vs by simp
  show ?thesis
    unfolding normalize_snapshot_def snapshot_valid_def normal_snapshot_def desired_units_def
      try_res_eq_Inr normalize_desired_Inr normalize_applied_Inr
    by (auto simp: normalize_executions_Inr try_res_unit validate_dependencies_ok[unfolded after_edges_normal] dt
        owned_units_normal list_ex_iff image_image comp_def) blast
qed

lemma normalize_snapshot_error: "normalize_snapshot u s = Inl e \<Longrightarrow> e = ValidationFailed"
  unfolding normalize_snapshot_def
  by (auto simp: try_res_eq_Inl dest: normalize_desired_error normalize_applied_error validate_dependencies_error
      normalize_executions_error split: if_splits)

lemma select_cases:
  "select u s = (if snapshot_valid u s then Inr (ss_Selection (select_state_of (normal_snapshot s))) else Inl ValidationFailed)"
proof (cases "normalize_snapshot u s")
  case (Inl e)
  then have "\<not> snapshot_valid u s" using normalize_snapshot_Inr by force
  with Inl show ?thesis using normalize_snapshot_error by (auto simp: select_def)
next
  case (Inr n)
  then show ?thesis by (simp add: select_def normalize_snapshot_Inr)
qed

end
