(* ===== verification/BlueprintReconcileProperties.thy ===== *)
theory BlueprintReconcileProperties
  imports BlueprintReconcile "HOL-Library.Sublist"
begin

text \<open>
  What the selection of Blueprint units promises: the units in flight are independent, every desired target and
  every execution is decided once, the decision does not depend on the order of the lists, repeated rounds
  converge, and a handoff settles exactly on complete evidence.
\<close>

section \<open>Units by target\<close>

lemma find_target:
  assumes "distinct (map f xs)" "x \<in> set xs"
  shows "find (\<lambda>y. f y = f x) xs = Some x"
  using assms by (induction xs) auto

lemma find_key_iff:
  assumes "distinct (map f xs)"
  shows "find (\<lambda>y. f y = k) xs = Some x \<longleftrightarrow> x \<in> set xs \<and> f x = k"
  using find_target[OF assms] by (auto simp: find_Some_iff)

lemma find_key_None: "find (\<lambda>y. f y = k) xs = None \<longleftrightarrow> k \<notin> f ` set xs"
  by (auto simp: find_None_iff)

lemma find_key_cong:
  assumes "distinct (map f xs)" "distinct (map f ys)" "set xs = set ys"
  shows "find (\<lambda>y. f y = k) xs = find (\<lambda>y. f y = k) ys"
proof (cases "find (\<lambda>y. f y = k) ys")
  case None
  then have "find (\<lambda>y. f y = k) xs = None" using assms(3) by (simp add: find_key_None)
  with None show ?thesis by simp
next
  case (Some y)
  with find_key_iff[OF assms(2), of k y] find_key_iff[OF assms(1), of k y] assms(3) show ?thesis by simp
qed

lemma find_key_map:
  assumes "\<And>x. f (g x) = f x"
  shows "find (\<lambda>y. f y = k) (map g xs) = map_option g (find (\<lambda>y. f y = k) xs)"
  by (induction xs) (auto simp: assms)

lemma map_key_sorted [simp]:
  "distinct (map f (sort_key g xs)) \<longleftrightarrow> distinct (map f xs)"
  by (metis distinct_mset_eq mset_map mset_sort)

lemma unit_of_Some:
  "distinct (map un_Target vs) \<Longrightarrow> unit_of vs k = Some v \<longleftrightarrow> v \<in> set vs \<and> un_Target v = k"
  by (simp add: unit_of_def find_key_iff)

lemma unit_of_normal: "unit_of (map normal_unit vs) k = map_option normal_unit (unit_of vs k)"
  unfolding unit_of_def by (rule find_key_map) simp

lemma removal_desired_normal [simp]: "removal_desired (map normal_unit vs) = removal_desired vs"
  by (auto simp: removal_desired_def unit_of_normal split: option.splits)

lemma applied_of_normal: "applied_of (map normal_applied as) k = map_option normal_applied (applied_of as k)"
  unfolding applied_of_def by (rule find_key_map) simp

lemma applied_matches_normal [simp]:
  "applied_matches (normal_unit v) a \<longleftrightarrow> applied_matches v a"
  "applied_matches v (map_option normal_applied a) \<longleftrightarrow> applied_matches v a"
  by (auto simp: applied_matches_def split: option.splits)

lemma any_marked_iff: "any_marked ks m \<longleftrightarrow> set ks \<inter> m \<noteq> {}"
  by (auto simp: any_marked_def list_ex_iff)

lemma touches_iff: "touches_resources v m \<longleftrightarrow> (set (un_Reads v) \<union> set (un_Writes v)) \<inter> m \<noteq> {}"
  by (auto simp: touches_resources_def any_marked_iff)

lemma touches_normal [simp]: "touches_resources (normal_unit v) m \<longleftrightarrow> touches_resources v m"
  by (simp add: touches_iff)

lemma marked_iff:
  "k \<in> uncertain_keys as \<longleftrightarrow> (\<exists>a \<in> set as. ap_State a = Uncertain \<and> k \<in> set (ap_AffectedWrites a))"
  "k \<in> diverged_keys as \<longleftrightarrow> (\<exists>a \<in> set as. ap_State a \<noteq> Uncertain \<and> k \<in> set (ap_AffectedWrites a))"
  by (auto simp: uncertain_keys_def diverged_keys_def)

lemma marked_normal [simp]:
  "uncertain_keys (map normal_applied as) = uncertain_keys as" "diverged_keys (map normal_applied as) = diverged_keys as"
  by (auto simp: set_eq_iff marked_iff)

section \<open>The normal form of a snapshot\<close>

lemma normal_snapshot_simps [simp]:
  "sn_Desired (normal_snapshot s) = sort_key un_Target (map normal_unit (sn_Desired s))"
  "sn_Applied (normal_snapshot s) = map normal_applied (sn_Applied s)"
  "sn_Executions (normal_snapshot s) = sort_key exe_WorkItemID (map normal_execution (sn_Executions s))"
  by (simp_all add: normal_snapshot_def desired_units_def)

lemma unit_of_snapshot:
  assumes "snapshot_valid u s"
  shows "unit_of (sn_Desired (normal_snapshot s)) k = map_option normal_unit (unit_of (sn_Desired s) k)"
proof -
  have d: "distinct (map un_Target (sn_Desired s))" using assms by (simp add: snapshot_valid_def)
  have "unit_of (sn_Desired (normal_snapshot s)) k = unit_of (map normal_unit (sn_Desired s)) k"
    unfolding unit_of_def by (rule find_key_cong) (use d in \<open>simp_all add: comp_def\<close>)
  then show ?thesis by (simp add: unit_of_normal)
qed

lemma trusted_normal:
  assumes "snapshot_valid u s"
  shows "trusted (normal_snapshot s) k \<longleftrightarrow> trusted s k"
  unfolding trusted_def unit_of_snapshot[OF assms] by (simp add: applied_of_normal split: option.split)

definition latest :: "snapshot \<Rightarrow> resource_key \<Rightarrow> unit_ option" where
  "latest s k = map_option normal_unit (unit_of (sn_Desired s) k)"

lemma latest_normal: "snapshot_valid u s \<Longrightarrow> unit_of (sn_Desired (normal_snapshot s)) = latest s"
  by (rule ext) (simp only: unit_of_snapshot latest_def)

lemma unit_ok_facts: "unit_ok u v \<Longrightarrow> un_Target v \<in> set (un_Writes v)"
  by (simp add: unit_ok_def)

section \<open>Independent units\<close>

lemma sorted_wrt_mset:
  "(\<And>x y. P x y \<Longrightarrow> P y x) \<Longrightarrow> mset xs = mset ys \<Longrightarrow> sorted_wrt P xs \<Longrightarrow> sorted_wrt P ys"
proof (induction xs arbitrary: ys)
  case (Cons x xs)
  then have "x \<in> set ys" by (metis list.set_intros(1) mset_eq_setD)
  then obtain zs ws where ys: "ys = zs @ x # ws" by (auto dest: split_list)
  with Cons.prems(2) have m: "mset xs = mset (zs @ ws)" by simp
  have "set xs = set zs \<union> set ws" using mset_eq_setD[OF m] by simp
  with Cons.prems(1,3) have "\<forall>z \<in> set zs. P z x" "\<forall>w \<in> set ws. P x w" by auto
  moreover have "sorted_wrt P (zs @ ws)" using Cons.IH[OF Cons.prems(1) m] Cons.prems(3) by simp
  ultimately show ?case by (auto simp: ys sorted_wrt_append)
qed simp

lemma pairwise_independent_mset:
  "mset vs = mset ws \<Longrightarrow> pairwise_independent vs \<longleftrightarrow> pairwise_independent ws"
  unfolding pairwise_independent_def using sorted_wrt_mset independent_commute by metis

lemma pairwise_independent_append:
  "pairwise_independent (vs @ ws) \<longleftrightarrow>
     pairwise_independent vs \<and> pairwise_independent ws \<and> (\<forall>v \<in> set vs. \<forall>w \<in> set ws. independent v w)"
  by (simp add: pairwise_independent_def sorted_wrt_append)

lemma pairwise_independent_one [simp]: "pairwise_independent [v]" "pairwise_independent []"
  by (simp_all add: pairwise_independent_def)

lemma pairwise_independent_targets:
  "pairwise_independent vs \<Longrightarrow> \<forall>v \<in> set vs. un_Target v \<in> set (un_Writes v) \<Longrightarrow> distinct (map un_Target vs)"
  by (induction vs) (fastforce simp: pairwise_independent_def independent_def)+

section \<open>The loop over the executions\<close>

text \<open>The pending executions that continue, given the claims held.\<close>

fun kept :: "snapshot \<Rightarrow> unit_ list \<Rightarrow> execution list \<Rightarrow> execution list" where
  "kept s held [] = []"
| "kept s held (e # es) =
     (if exe_State e = ExecPending \<and> required (unit_of (sn_Desired s)) e \<and> \<not> trusted s (un_Target (exe_Unit e)) \<and>
         \<not> conflicts_any (exe_Unit e) held
      then e # kept s (held @ [exe_Unit e]) es else kept s held es)"

definition carried :: "snapshot \<Rightarrow> execution list \<Rightarrow> execution list" where
  "carried s es = filter (\<lambda>e. exe_State e = ExecRunning \<and> required (unit_of (sn_Desired s)) e) es"

lemma kept_subseq: "subseq (kept s held es) es"
  by (induction es arbitrary: held) auto

lemma kept_facts:
  "e \<in> set (kept s held es) \<Longrightarrow>
     e \<in> set es \<and> exe_State e = ExecPending \<and> required (unit_of (sn_Desired s)) e \<and> \<not> trusted s (un_Target (exe_Unit e))"
  by (induction es arbitrary: held) (auto split: if_splits)

lemma kept_independent:
  "\<forall>h \<in> set held. access_sorted h \<Longrightarrow> \<forall>e \<in> set es. access_sorted (exe_Unit e) \<Longrightarrow> pairwise_independent held \<Longrightarrow>
     pairwise_independent (held @ map exe_Unit (kept s held es))"
proof (induction es arbitrary: held)
  case (Cons e es)
  show ?case
  proof (cases "exe_State e = ExecPending \<and> required (unit_of (sn_Desired s)) e \<and>
      \<not> trusted s (un_Target (exe_Unit e)) \<and> \<not> conflicts_any (exe_Unit e) held")
    case True
    with Cons.prems have "\<forall>h \<in> set held. independent h (exe_Unit e)"
      by (auto simp: conflicts_any_independent independent_commute)
    with Cons.prems have "pairwise_independent (held @ [exe_Unit e])" by (simp add: pairwise_independent_append)
    from Cons.IH[OF _ _ this] Cons.prems True show ?thesis by simp
  next
    case False
    with Cons show ?thesis by auto
  qed
qed simp

text \<open>What the loop leaves in the state.\<close>

lemma select_executions_state:
  "exec_done = select_executions s es st \<Longrightarrow>
     ss_Held exec_done = ss_Held st @ map exe_Unit (kept s (ss_Held st) es) \<and>
     ss_Continuing exec_done = rev (map (un_Target \<circ> exe_Unit) (carried s es)) @ ss_Continuing st \<and>
     ss_ContinuingPending exec_done = rev (map (un_Target \<circ> exe_Unit) (kept s (ss_Held st) es)) @ ss_ContinuingPending st"
  by (induction es arbitrary: st)
    (auto simp: required_case carried_def Let_def split: execution_state.split)

lemma select_executions_continue:
  "sel = ss_Selection st \<Longrightarrow> sel' = ss_Selection (select_executions s es st) \<Longrightarrow>
     sl_ContinuePending sel' = sl_ContinuePending sel @ map exe_WorkItemID (kept s (ss_Held st) es) \<and>
     sl_ContinueRunning sel' = sl_ContinueRunning sel @ map exe_WorkItemID (carried s es)"
  by (induction es arbitrary: st sel)
    (auto simp: required_case carried_def Let_def split: execution_state.split)

lemma select_executions_cancel:
  "sel = ss_Selection st \<Longrightarrow> sel' = ss_Selection (select_executions s es st) \<Longrightarrow>
     mset (sl_CancelPending sel') + mset (sl_ContinuePending sel') =
       mset (sl_CancelPending sel) + mset (sl_ContinuePending sel) +
       mset (map exe_WorkItemID (filter (\<lambda>e. exe_State e = ExecPending) es)) \<and>
     mset (sl_CancelRunning sel') + mset (sl_ContinueRunning sel') =
       mset (sl_CancelRunning sel) + mset (sl_ContinueRunning sel) +
       mset (map exe_WorkItemID (filter (\<lambda>e. exe_State e = ExecRunning) es))"
  by (induction es arbitrary: st sel)
    (auto simp: required_case Let_def split: execution_state.split)

lemma select_executions_targets:
  "sel = ss_Selection st \<Longrightarrow> sel' = ss_Selection (select_executions s es st) \<Longrightarrow>
     sl_Ready sel' = sl_Ready sel \<and> sl_Satisfied sel' = sl_Satisfied sel \<and>
     sl_Waiting sel' = sl_Waiting sel \<and> sl_ResolveEffects sel' = sl_ResolveEffects sel"
  by (induction es arbitrary: st sel) (auto simp: Let_def split: execution_state.split)

section \<open>The loop over the desired units\<close>

fun started :: "snapshot \<Rightarrow> select_state \<Rightarrow> unit_ list \<Rightarrow> unit_ list" where
  "started s st [] = []"
| "started s st (v # vs) =
     (if sl_Ready (ss_Selection (select_unit s v st)) = sl_Ready (ss_Selection st) then [] else [v]) @
     started s (select_unit s v st) vs"

lemma select_unit_frame [simp]:
  "ss_Continuing (select_unit s v st) = ss_Continuing st"
  "ss_ContinuingPending (select_unit s v st) = ss_ContinuingPending st"
  "sl_CancelPending (ss_Selection (select_unit s v st)) = sl_CancelPending (ss_Selection st)"
  "sl_CancelRunning (ss_Selection (select_unit s v st)) = sl_CancelRunning (ss_Selection st)"
  "sl_ContinuePending (ss_Selection (select_unit s v st)) = sl_ContinuePending (ss_Selection st)"
  "sl_ContinueRunning (ss_Selection (select_unit s v st)) = sl_ContinueRunning (ss_Selection st)"
  by (simp_all add: select_unit_def Let_def)

lemma select_desired_frame [simp]:
  "ss_Continuing (select_desired s vs st) = ss_Continuing st"
  "ss_ContinuingPending (select_desired s vs st) = ss_ContinuingPending st"
  "sl_CancelPending (ss_Selection (select_desired s vs st)) = sl_CancelPending (ss_Selection st)"
  "sl_CancelRunning (ss_Selection (select_desired s vs st)) = sl_CancelRunning (ss_Selection st)"
  "sl_ContinuePending (ss_Selection (select_desired s vs st)) = sl_ContinuePending (ss_Selection st)"
  "sl_ContinueRunning (ss_Selection (select_desired s vs st)) = sl_ContinueRunning (ss_Selection st)"
  by (induction vs arbitrary: st) simp_all

text \<open>A unit is started exactly when nothing held conflicts with it and it is neither blocked nor applied.\<close>

definition startable :: "snapshot \<Rightarrow> unit_ \<Rightarrow> select_state \<Rightarrow> bool" where
  "startable s v st \<longleftrightarrow>
     un_Target v \<notin> set (ss_Continuing st) \<and> un_Target v \<notin> set (ss_ContinuingPending st) \<and>
     \<not> conflicts_any v (ss_Held st) \<and>
     (\<forall>a. applied_of (sn_Applied s) (un_Target v) = Some a \<longrightarrow> ap_State a \<noteq> Uncertain) \<and>
     \<not> waits s v (ss_Held st) \<and> \<not> trusted s (un_Target v)"

lemma select_unit_ready:
  "sl_Ready (ss_Selection (select_unit s v st)) =
     sl_Ready (ss_Selection st) @ (if startable s v st then [un_Target v] else [])"
  "ss_Held (select_unit s v st) = ss_Held st @ (if startable s v st then [v] else [])"
  by (auto simp: select_unit_def startable_def Let_def split: option.splits)

lemma started_Cons [simp]:
  "started s st (v # vs) = (if startable s v st then [v] else []) @ started s (select_unit s v st) vs"
  by (simp add: select_unit_ready)

declare started.simps(2) [simp del]

lemma select_desired_ready:
  "sl_Ready (ss_Selection (select_desired s vs st)) = sl_Ready (ss_Selection st) @ map un_Target (started s st vs) \<and>
   ss_Held (select_desired s vs st) = ss_Held st @ started s st vs"
  by (induction vs arbitrary: st) (simp_all add: select_unit_ready)

lemma started_subseq: "subseq (started s st vs) vs"
  by (induction vs arbitrary: st) auto

lemma started_independent:
  "\<forall>h \<in> set (ss_Held st). access_sorted h \<Longrightarrow> \<forall>v \<in> set vs. access_sorted v \<Longrightarrow> pairwise_independent (ss_Held st) \<Longrightarrow>
     pairwise_independent (ss_Held st @ started s st vs)"
proof (induction vs arbitrary: st)
  case (Cons v vs)
  let ?st = "select_unit s v st"
  have "pairwise_independent (ss_Held ?st)"
    using Cons.prems
    by (auto simp: select_unit_ready pairwise_independent_append startable_def conflicts_any_independent
        independent_commute)
  moreover have "\<forall>h \<in> set (ss_Held ?st). access_sorted h" using Cons.prems by (auto simp: select_unit_ready)
  ultimately have "pairwise_independent (ss_Held ?st @ started s ?st vs)" using Cons by simp
  then show ?case by (simp add: select_unit_ready split: if_splits)
qed simp

text \<open>Every unit that no execution carries on is decided.\<close>

definition decided_targets :: "selection \<Rightarrow> resource_key multiset" where
  "decided_targets sel = mset (sl_Ready sel @ sl_Satisfied sel @ sl_Waiting sel @ sl_ResolveEffects sel)"

lemma select_unit_decided:
  "decided_targets (ss_Selection (select_unit s v st)) =
     decided_targets (ss_Selection st) +
     (if un_Target v \<in> set (ss_Continuing st) \<union> set (ss_ContinuingPending st) then {#} else {#un_Target v#})"
  by (auto simp: select_unit_def decided_targets_def Let_def)

lemma select_desired_decided:
  "decided_targets (ss_Selection (select_desired s vs st)) =
     decided_targets (ss_Selection st) +
     mset (filter (\<lambda>t. t \<notin> set (ss_Continuing st) \<union> set (ss_ContinuingPending st)) (map un_Target vs))"
  by (induction vs arbitrary: st) (auto simp: select_unit_decided)

section \<open>The whole selection\<close>

lemma snapshot_valid_facts:
  assumes "snapshot_valid u s"
  shows "distinct (map un_Target (sn_Desired s))" "distinct (map exe_WorkItemID (sn_Executions s))"
    "distinct (map ap_Target (sn_Applied s))"
    "pairwise_independent (owned_units (sn_Executions s))"
    "\<forall>v \<in> set (sn_Desired s). un_Target v \<in> set (un_Writes v)"
    "\<forall>e \<in> set (sn_Executions s). un_Target (exe_Unit e) \<in> set (un_Writes (exe_Unit e))"
  using assms by (auto simp: snapshot_valid_def list_all_iff unit_ok_def execution_ok_def)

text \<open>The executions of the normal form, those that continue, and the units that start.\<close>

abbreviation ordered_executions :: "snapshot \<Rightarrow> execution list" where
  "ordered_executions s \<equiv> sn_Executions (normal_snapshot s)"

definition kept_of :: "snapshot \<Rightarrow> execution list" where
  "kept_of s = kept (normal_snapshot s) (owned_units (ordered_executions s)) (ordered_executions s)"

definition carried_of :: "snapshot \<Rightarrow> execution list" where
  "carried_of s = carried (normal_snapshot s) (ordered_executions s)"

definition executions_done :: "snapshot \<Rightarrow> select_state" where
  "executions_done s =
     select_executions (normal_snapshot s) (ordered_executions s) (initial_state (normal_snapshot s))"

definition started_of :: "snapshot \<Rightarrow> unit_ list" where
  "started_of s = started (normal_snapshot s) (executions_done s) (sn_Desired (normal_snapshot s))"

lemma initial_state_simps [simp]:
  "ss_Held (initial_state s) = owned_units (sn_Executions s)" "ss_Selection (initial_state s) = empty_selection"
  "ss_Continuing (initial_state s) = []" "ss_ContinuingPending (initial_state s) = []"
  by (simp_all add: initial_state_def owned_units_def)

lemma executions_done_state:
  "ss_Held (executions_done s) = owned_units (ordered_executions s) @ map exe_Unit (kept_of s)"
  "ss_Continuing (executions_done s) = rev (map (un_Target \<circ> exe_Unit) (carried_of s))"
  "ss_ContinuingPending (executions_done s) = rev (map (un_Target \<circ> exe_Unit) (kept_of s))"
  using select_executions_state[OF refl, of "normal_snapshot s" "ordered_executions s" "initial_state (normal_snapshot s)"]
  by (simp_all only: executions_done_def kept_of_def carried_of_def initial_state_simps append_Nil2 append_Nil)

lemma executions_done_selection:
  "sl_ContinuePending (ss_Selection (executions_done s)) = map exe_WorkItemID (kept_of s)"
  "sl_ContinueRunning (ss_Selection (executions_done s)) = map exe_WorkItemID (carried_of s)"
  "decided_targets (ss_Selection (executions_done s)) = {#}" "sl_Ready (ss_Selection (executions_done s)) = []"
  using select_executions_continue[OF refl refl, of "normal_snapshot s" "ordered_executions s" "initial_state (normal_snapshot s)"]
    select_executions_targets[OF refl refl, of "normal_snapshot s" "ordered_executions s" "initial_state (normal_snapshot s)"]
  unfolding executions_done_def[symmetric] initial_state_simps kept_of_def[symmetric] carried_of_def[symmetric]
  by (simp_all add: empty_selection_def decided_targets_def)

lemma mset_ordered: "mset (ordered_executions s) = image_mset normal_execution (mset (sn_Executions s))"
  by simp

lemma mset_ordered_filter:
  assumes "\<And>e. P (normal_execution e) = Q e" "\<And>e. f (normal_execution e) = g e"
  shows "mset (map f (filter P (ordered_executions s))) = mset (map g (filter Q (sn_Executions s)))"
  by (simp add: filter_mset_image_mset image_mset.compositionality comp_def assms)

lemma filter_subseq_keys:
  "subseq ks es \<Longrightarrow> distinct (map f es) \<Longrightarrow> filter (\<lambda>e. f e \<in> f ` set ks) es = ks"
proof (induction rule: list_emb.induct)
  case (list_emb_Cons xs ys y)
  from list_emb_Cons have "set xs \<subseteq> set ys" by (metis distinct.simps(2) filter_is_subset list.simps(9))
  with list_emb_Cons.prems have "f y \<notin> f ` set xs" by auto
  with list_emb_Cons show ?case by simp
next
  case (list_emb_Cons2 x y xs ys)
  have "filter (\<lambda>e. f e \<in> f ` set (x # xs)) ys = filter (\<lambda>e. f e \<in> f ` set xs) ys"
    using list_emb_Cons2 by (intro filter_cong) (auto simp: image_iff)
  with list_emb_Cons2 show ?case by simp
qed simp

lemma distinct_ordered: "snapshot_valid u s \<Longrightarrow> distinct (map exe_WorkItemID (ordered_executions s))"
  using snapshot_valid_facts(2) by (simp add: comp_def)

lemma kept_of_subseq: "subseq (kept_of s) (ordered_executions s)"
  unfolding kept_of_def by (rule kept_subseq)

lemma carried_of_subseq: "subseq (carried_of s) (ordered_executions s)"
  unfolding carried_of_def carried_def by (rule subseq_filter_left)

lemma access_sorted_ordered:
  "\<forall>e \<in> set (ordered_executions s). access_sorted (exe_Unit e)"
  "\<forall>v \<in> set (sn_Desired (normal_snapshot s)). access_sorted v"
  "\<forall>v \<in> set (owned_units (ordered_executions s)). access_sorted v"
  by (auto simp: owned_units_def)

lemma held_independent:
  assumes "snapshot_valid u s"
  shows "pairwise_independent (owned_units (ordered_executions s) @ map exe_Unit (kept_of s) @ started_of s)"
proof -
  have "mset (owned_units (ordered_executions s)) = mset (map normal_unit (owned_units (sn_Executions s)))"
    unfolding owned_units_def map_map comp_def by (rule mset_ordered_filter) simp_all
  then have "pairwise_independent (owned_units (ordered_executions s))"
    using snapshot_valid_facts(4)[OF assms] by (metis pairwise_independent_mset pairwise_independent_normal)
  then have "pairwise_independent (ss_Held (executions_done s))"
    unfolding executions_done_state kept_of_def
    by (rule kept_independent[OF access_sorted_ordered(3,1)])
  moreover have "\<forall>h \<in> set (ss_Held (executions_done s)). access_sorted h"
    using access_sorted_ordered(1,3) kept_facts unfolding executions_done_state kept_of_def by fastforce
  ultimately have "pairwise_independent (ss_Held (executions_done s) @ started_of s)"
    unfolding started_of_def by (intro started_independent access_sorted_ordered(2))
  then show ?thesis by (simp add: executions_done_state)
qed

lemma select_Inr:
  assumes "select u s = Inr sel"
  shows "snapshot_valid u s" "sl_ContinuePending sel = map exe_WorkItemID (kept_of s)"
    "sl_ContinueRunning sel = map exe_WorkItemID (carried_of s)" "sl_Ready sel = map un_Target (started_of s)"
    "sel = ss_Selection (select_desired (normal_snapshot s) (sn_Desired (normal_snapshot s)) (executions_done s))"
proof -
  show ok: "snapshot_valid u s" and
    sel: "sel = ss_Selection (select_desired (normal_snapshot s) (sn_Desired (normal_snapshot s)) (executions_done s))"
    using assms by (simp_all add: select_cases select_state_of_def executions_done_def split: if_splits)
  show "sl_ContinuePending sel = map exe_WorkItemID (kept_of s)" "sl_ContinueRunning sel = map exe_WorkItemID (carried_of s)"
    "sl_Ready sel = map un_Target (started_of s)"
    by (simp_all only: sel select_desired_frame select_desired_ready executions_done_selection started_of_def append_Nil)
qed

text \<open>The units that run side by side: those that executions own, those whose pending execution continues, and
  those that become ready.\<close>

definition claimed :: "snapshot \<Rightarrow> selection \<Rightarrow> unit_ list" where
  "claimed s sel =
     owned_units (sn_Executions s) @
     map exe_Unit (filter (\<lambda>e. exe_WorkItemID e \<in> set (sl_ContinuePending sel)) (sn_Executions s))"

definition in_flight :: "snapshot \<Rightarrow> selection \<Rightarrow> unit_ list" where
  "in_flight s sel =
     claimed s sel @ filter (\<lambda>v. un_Target v \<in> set (sl_Ready sel)) (sn_Desired s)"

lemma in_flight_held:
  assumes "select u s = Inr sel"
  shows "mset (map normal_unit (in_flight s sel)) =
    mset (owned_units (ordered_executions s) @ map exe_Unit (kept_of s) @ started_of s)"
    "mset (map normal_unit (claimed s sel)) = mset (ss_Held (executions_done s))"
proof -
  note r = select_Inr[OF assms]
  have owned: "mset (owned_units (ordered_executions s)) = mset (map normal_unit (owned_units (sn_Executions s)))"
    unfolding owned_units_def map_map comp_def by (rule mset_ordered_filter) simp_all
  have "kept_of s = filter (\<lambda>e. exe_WorkItemID e \<in> set (sl_ContinuePending sel)) (ordered_executions s)"
    using filter_subseq_keys[OF kept_of_subseq distinct_ordered[OF r(1)]] by (simp add: r(2))
  then have kept: "mset (map exe_Unit (kept_of s)) =
      mset (map (\<lambda>e. normal_unit (exe_Unit e)) (filter (\<lambda>e. exe_WorkItemID e \<in> set (sl_ContinuePending sel)) (sn_Executions s)))"
    by (simp only:) (rule mset_ordered_filter; simp)
  have "distinct (map un_Target (sn_Desired (normal_snapshot s)))"
    using snapshot_valid_facts(1)[OF r(1)] by (simp add: comp_def)
  then have "started_of s = filter (\<lambda>v. un_Target v \<in> set (sl_Ready sel)) (sn_Desired (normal_snapshot s))"
    using filter_subseq_keys[of "started_of s" "sn_Desired (normal_snapshot s)" un_Target]
    by (simp only: r(4) set_map started_of_def started_subseq)
  then have "mset (started_of s) = mset (map normal_unit (filter (\<lambda>v. un_Target v \<in> set (sl_Ready sel)) (sn_Desired s)))"
    by (simp only:) (simp add: filter_mset_image_mset)
  with owned kept show "mset (map normal_unit (in_flight s sel)) =
      mset (owned_units (ordered_executions s) @ map exe_Unit (kept_of s) @ started_of s)"
    by (simp add: in_flight_def claimed_def image_mset.compositionality comp_def)
  from owned kept show "mset (map normal_unit (claimed s sel)) = mset (ss_Held (executions_done s))"
    by (simp add: claimed_def executions_done_state image_mset.compositionality comp_def)
qed

section \<open>Every target and every execution is decided once\<close>

lemma mset_keys_subset:
  assumes "distinct xs" "distinct ys" "set ys \<subseteq> set xs"
  shows "mset (filter (\<lambda>x. x \<notin> set ys) xs) + mset ys = mset xs"
proof -
  have same: "mset (filter (\<lambda>x. x \<in> set ys) xs) = mset ys"
    using assms by (subst set_eq_iff_mset_eq_distinct[symmetric]) auto
  show ?thesis using multiset_partition[of "mset xs" "\<lambda>x. x \<in> set ys"] by (simp add: same[symmetric])
qed

lemma subseq_set_subset: "subseq xs ys \<Longrightarrow> set xs \<subseteq> set ys"
  by (auto dest: list_emb_set)

lemma mset_filter_disj:
  "\<forall>x \<in> set xs. \<not> (P x \<and> Q x) \<Longrightarrow> mset (filter (\<lambda>x. P x \<or> Q x) xs) = mset (filter P xs) + mset (filter Q xs)"
  by (induction xs) auto

text \<open>The executions a selection lets go on.\<close>

definition continuing_executions :: "snapshot \<Rightarrow> selection \<Rightarrow> execution list" where
  "continuing_executions s sel =
     filter (\<lambda>e. exe_WorkItemID e \<in> set (sl_ContinuePending sel) \<union> set (sl_ContinueRunning sel)) (sn_Executions s)"

lemma continuing_targets:
  assumes "select u s = Inr sel"
  shows "mset (map (un_Target \<circ> exe_Unit) (continuing_executions s sel)) =
    mset (map (un_Target \<circ> exe_Unit) (kept_of s @ carried_of s))"
proof -
  note r = select_Inr[OF assms] and d = distinct_ordered[OF select_Inr(1)[OF assms]]
  let ?P = "\<lambda>e. exe_WorkItemID e \<in> set (sl_ContinuePending sel)"
    and ?R = "\<lambda>e. exe_WorkItemID e \<in> set (sl_ContinueRunning sel)"
  have k: "filter ?P (ordered_executions s) = kept_of s" and c: "filter ?R (ordered_executions s) = carried_of s"
    using filter_subseq_keys[OF kept_of_subseq d] filter_subseq_keys[OF carried_of_subseq d]
    by (simp_all only: r(2,3) set_map)
  have "exe_State e = ExecPending" if "e \<in> set (kept_of s)" for e
    using that unfolding kept_of_def by (auto dest: kept_facts)
  moreover have "exe_State e = ExecRunning" if "e \<in> set (carried_of s)" for e
    using that by (simp add: carried_of_def carried_def)
  ultimately have disjoint: "set (kept_of s) \<inter> set (carried_of s) = {}" by (metis disjoint_iff execution_state.distinct(1))
  then have disj: "\<not> (?P e \<and> ?R e)" if "e \<in> set (ordered_executions s)" for e
  proof -
    have "?P e \<longleftrightarrow> e \<in> set (kept_of s)" "?R e \<longleftrightarrow> e \<in> set (carried_of s)"
      using that by (simp_all only: k[symmetric] c[symmetric] set_filter mem_Collect_eq simp_thms)
    with disjoint show ?thesis by blast
  qed
  have "mset (map (un_Target \<circ> exe_Unit) (continuing_executions s sel)) =
      mset (map (un_Target \<circ> exe_Unit) (filter (\<lambda>e. ?P e \<or> ?R e) (ordered_executions s)))"
    unfolding continuing_executions_def by (rule mset_ordered_filter[symmetric]) simp_all
  also have "mset (filter (\<lambda>e. ?P e \<or> ?R e) (ordered_executions s)) = mset (kept_of s) + mset (carried_of s)"
    unfolding k[symmetric] c[symmetric] using disj by (intro mset_filter_disj ballI)
  then have "mset (map (un_Target \<circ> exe_Unit) (filter (\<lambda>e. ?P e \<or> ?R e) (ordered_executions s))) =
      mset (map (un_Target \<circ> exe_Unit) (kept_of s @ carried_of s))"
    by (metis (no_types, lifting) mset_append mset_map)
  finally show ?thesis .
qed

lemma ordered_target_written:
  "snapshot_valid u s \<Longrightarrow> e \<in> set (ordered_executions s) \<Longrightarrow> un_Target (exe_Unit e) \<in> set (un_Writes (exe_Unit e))"
  using snapshot_valid_facts(6) by auto

lemma continuing_distinct:
  assumes "snapshot_valid u s"
  shows "distinct (map (un_Target \<circ> exe_Unit) (kept_of s @ carried_of s))"
proof -
  let ?held = "owned_units (ordered_executions s) @ map exe_Unit (kept_of s)"
  have "pairwise_independent ?held"
    using held_independent[OF assms, unfolded append_assoc[symmetric]]
    by (subst (asm) pairwise_independent_append) (elim conjE)
  moreover have "\<forall>v \<in> set ?held. un_Target v \<in> set (un_Writes v)"
  proof
    fix v assume "v \<in> set ?held"
    then obtain e where "v = exe_Unit e" "e \<in> set (ordered_executions s) \<or> e \<in> set (kept_of s)"
      unfolding owned_units_def set_append set_map set_filter by blast
    then show "un_Target v \<in> set (un_Writes v)"
      using ordered_target_written[OF assms] subseq_set_subset[OF kept_of_subseq] by blast
  qed
  ultimately have "distinct (map un_Target ?held)" by (rule pairwise_independent_targets)
  then have d: "distinct (map un_Target (owned_units (ordered_executions s)) @ map (un_Target \<circ> exe_Unit) (kept_of s))"
    by (simp only: map_append map_map)
  have c: "carried_of s = filter (\<lambda>e. exe_State e = ExecRunning \<and> required (unit_of (sn_Desired (normal_snapshot s))) e)
      (filter (\<lambda>e. exe_State e \<noteq> ExecPending) (ordered_executions s))"
    unfolding carried_of_def carried_def filter_filter by (rule filter_cong) auto
  have "distinct (map (un_Target \<circ> exe_Unit) (filter (\<lambda>e. exe_State e \<noteq> ExecPending) (ordered_executions s)))"
    using d by (simp only: owned_units_def map_map distinct_append)
  then have "distinct (map (un_Target \<circ> exe_Unit) (carried_of s))" unfolding c by (rule distinct_map_filter)
  moreover have "set (map (un_Target \<circ> exe_Unit) (carried_of s)) \<subseteq> set (map un_Target (owned_units (ordered_executions s)))"
    unfolding c owned_units_def by auto
  ultimately show ?thesis using d unfolding map_append distinct_append by blast
qed

lemma kept_of_facts:
  "e \<in> set (kept_of s) \<Longrightarrow>
     e \<in> set (ordered_executions s) \<and> exe_State e = ExecPending \<and>
     required (unit_of (sn_Desired (normal_snapshot s))) e \<and> \<not> trusted (normal_snapshot s) (un_Target (exe_Unit e))"
  unfolding kept_of_def by (rule kept_facts)

lemma carried_of_facts:
  "e \<in> set (carried_of s) \<longleftrightarrow>
     e \<in> set (ordered_executions s) \<and> exe_State e = ExecRunning \<and> required (unit_of (sn_Desired (normal_snapshot s))) e"
  unfolding carried_of_def carried_def by auto

lemma continuing_desired:
  assumes "snapshot_valid u s"
  shows "set (map (un_Target \<circ> exe_Unit) (kept_of s @ carried_of s)) \<subseteq> un_Target ` set (sn_Desired s)"
proof
  fix t assume "t \<in> set (map (un_Target \<circ> exe_Unit) (kept_of s @ carried_of s))"
  then obtain e where e: "e \<in> set (kept_of s) \<or> e \<in> set (carried_of s)" "t = un_Target (exe_Unit e)" by auto
  then have "required (unit_of (sn_Desired (normal_snapshot s))) e"
    using kept_of_facts carried_of_facts by blast
  with e(2) have "latest s t = Some (exe_Unit e)" by (simp only: required_def latest_normal[OF assms])
  then obtain v where "unit_of (sn_Desired s) t = Some v" by (auto simp: latest_def)
  then show "t \<in> un_Target ` set (sn_Desired s)"
    using unit_of_Some[OF snapshot_valid_facts(1)[OF assms]] by force
qed

lemma targets_decided:
  assumes "select u s = Inr sel"
  shows "mset (map un_Target (sn_Desired s)) =
    decided_targets sel + mset (map (un_Target \<circ> exe_Unit) (continuing_executions s sel))"
proof -
  note r = select_Inr[OF assms]
  let ?ts = "map un_Target (sn_Desired (normal_snapshot s))"
    and ?cs = "map (un_Target \<circ> exe_Unit) (kept_of s @ carried_of s)"
  have ts: "mset ?ts = mset (map un_Target (sn_Desired s))" by (simp add: image_mset.compositionality comp_def)
  have "set (ss_Continuing (executions_done s)) \<union> set (ss_ContinuingPending (executions_done s)) = set ?cs"
    by (auto simp: executions_done_state)
  then have "decided_targets sel = mset (filter (\<lambda>t. t \<notin> set ?cs) ?ts)"
    by (simp only: r(5) select_desired_decided executions_done_selection(3) add_0)
  moreover have "distinct ?ts" using snapshot_valid_facts(1)[OF r(1)] ts by (metis distinct_mset_eq)
  moreover have "set ?cs \<subseteq> set ?ts"
    using continuing_desired[OF r(1)] mset_eq_setD[OF ts] by (simp only: set_map)
  ultimately show ?thesis
    using mset_keys_subset[OF _ continuing_distinct[OF r(1)], of ?ts] by (simp only: continuing_targets[OF assms] ts)
qed

lemma executions_decided:
  assumes "select u s = Inr sel"
  shows "mset (sl_CancelPending sel @ sl_ContinuePending sel) =
      mset (map exe_WorkItemID (filter (\<lambda>e. exe_State e = ExecPending) (sn_Executions s)))"
    "mset (sl_CancelRunning sel @ sl_ContinueRunning sel) =
      mset (map exe_WorkItemID (filter (\<lambda>e. exe_State e = ExecRunning) (sn_Executions s)))"
proof -
  note r = select_Inr[OF assms]
  have ids: "mset (map exe_WorkItemID (filter (\<lambda>e. exe_State e = x) (ordered_executions s))) =
      mset (map exe_WorkItemID (filter (\<lambda>e. exe_State e = x) (sn_Executions s)))" for x
    by (rule mset_ordered_filter) simp_all
  note c = select_executions_cancel[OF refl refl, of "normal_snapshot s" "ordered_executions s"
      "initial_state (normal_snapshot s)", unfolded initial_state_simps ids, folded executions_done_def]
  have "mset (sl_CancelPending sel) = mset (sl_CancelPending (ss_Selection (executions_done s)))"
    "mset (sl_CancelRunning sel) = mset (sl_CancelRunning (ss_Selection (executions_done s)))"
    "mset (sl_ContinuePending sel) = mset (sl_ContinuePending (ss_Selection (executions_done s)))"
    "mset (sl_ContinueRunning sel) = mset (sl_ContinueRunning (ss_Selection (executions_done s)))"
    by (simp_all only: r(5) select_desired_frame)
  with c show "mset (sl_CancelPending sel @ sl_ContinuePending sel) =
      mset (map exe_WorkItemID (filter (\<lambda>e. exe_State e = ExecPending) (sn_Executions s)))"
    "mset (sl_CancelRunning sel @ sl_ContinueRunning sel) =
      mset (map exe_WorkItemID (filter (\<lambda>e. exe_State e = ExecRunning) (sn_Executions s)))"
    by (simp_all add: empty_selection_def)
qed

section \<open>The order of the lists does not matter\<close>

definition same_snapshot :: "snapshot \<Rightarrow> snapshot \<Rightarrow> bool" where
  "same_snapshot s t \<longleftrightarrow>
     mset (sn_Desired s) = mset (sn_Desired t) \<and> mset (sn_Applied s) = mset (sn_Applied t) \<and>
     mset (sn_Executions s) = mset (sn_Executions t)"

lemma find_key_mset:
  "distinct (map f xs) \<Longrightarrow> mset xs = mset ys \<Longrightarrow> find (\<lambda>y. f y = k) xs = find (\<lambda>y. f y = k) ys"
  by (metis distinct_mset_eq find_key_cong mset_eq_setD mset_map)

lemma queued_mset: "mset es = mset fs \<Longrightarrow> mset (queued_targets l es) = mset (queued_targets l fs)"
  by (simp add: queued_targets_def)

lemma owned_mset: "mset es = mset fs \<Longrightarrow> mset (owned_units es) = mset (owned_units fs)"
  by (simp add: owned_units_def)

lemma after_edges_set: "set vs = set ws \<Longrightarrow> after_edges vs = after_edges ws"
  by (simp add: after_edges_def)

lemma list_all_set: "set xs = set ys \<Longrightarrow> list_all P xs = list_all P ys"
  by (simp add: list_all_iff)

lemma same_snapshot_commute: "same_snapshot s t \<Longrightarrow> same_snapshot t s"
  by (simp add: same_snapshot_def)

lemma snapshot_valid_same:
  assumes same: "same_snapshot s t" and ok: "snapshot_valid u s"
  shows "snapshot_valid u t"
proof -
  have m: "mset (sn_Desired s) = mset (sn_Desired t)" "mset (sn_Applied s) = mset (sn_Applied t)"
    "mset (sn_Executions s) = mset (sn_Executions t)" using same by (simp_all add: same_snapshot_def)
  note sets = m[THEN mset_eq_setD]
  have keys: "mset (map f xs) = mset (map f ys)" if "mset xs = mset ys" for f :: "'x \<Rightarrow> 'y" and xs ys
    using that by simp
  have units: "unit_of (desired_units s) = unit_of (desired_units t)"
    unfolding unit_of_def desired_units_def
    by (rule ext, rule find_key_mset) (use snapshot_valid_facts(1)[OF ok] m(1) in \<open>simp_all add: comp_def\<close>)
  then have removal: "removal_desired (desired_units s) = removal_desired (desired_units t)"
    by (simp add: removal_desired_def fun_eq_iff)
  have queued: "mset (queued_targets (unit_of (desired_units t)) (map normal_execution (sn_Executions s))) =
      mset (queued_targets (unit_of (desired_units t)) (map normal_execution (sn_Executions t)))"
    by (rule queued_mset) (simp add: m(3))
  from ok show ?thesis
    unfolding snapshot_valid_def units removal sets list_all_set[OF sets(1)] list_all_set[OF sets(2)]
      list_all_set[OF sets(3)] after_edges_set[OF sets(1)] distinct_mset_eq[OF keys[OF m(1)]]
      distinct_mset_eq[OF keys[OF m(2)]] distinct_mset_eq[OF keys[OF m(3)]]
      pairwise_independent_mset[OF owned_mset[OF m(3)]] distinct_mset_eq[OF queued] .
qed

text \<open>The units and the executions have one normal form; the applied units are read by target.\<close>

lemma normal_same:
  assumes same: "same_snapshot s t" and ok: "snapshot_valid u s"
  shows "sn_Desired (normal_snapshot s) = sn_Desired (normal_snapshot t)"
    "ordered_executions s = ordered_executions t"
    "applied_of (sn_Applied (normal_snapshot s)) = applied_of (sn_Applied (normal_snapshot t))"
    "uncertain_keys (sn_Applied (normal_snapshot s)) = uncertain_keys (sn_Applied (normal_snapshot t))"
    "diverged_keys (sn_Applied (normal_snapshot s)) = diverged_keys (sn_Applied (normal_snapshot t))"
proof -
  have m: "mset (sn_Desired s) = mset (sn_Desired t)" "mset (sn_Applied s) = mset (sn_Applied t)"
    "mset (sn_Executions s) = mset (sn_Executions t)" using same by (simp_all add: same_snapshot_def)
  show "sn_Desired (normal_snapshot s) = sn_Desired (normal_snapshot t)"
    using sort_key_mset_eq[of "map normal_unit (sn_Desired s)" "map normal_unit (sn_Desired t)" un_Target]
      m(1) snapshot_valid_facts(1)[OF ok] by (simp add: comp_def)
  show "ordered_executions s = ordered_executions t"
    using sort_key_mset_eq[of "map normal_execution (sn_Executions s)" "map normal_execution (sn_Executions t)" exe_WorkItemID]
      m(3) snapshot_valid_facts(2)[OF ok] by (simp add: comp_def)
  show "applied_of (sn_Applied (normal_snapshot s)) = applied_of (sn_Applied (normal_snapshot t))"
    unfolding applied_of_def
    by (rule ext, rule find_key_mset) (use snapshot_valid_facts(3)[OF ok] m(2) in \<open>simp_all add: comp_def\<close>)
  show "uncertain_keys (sn_Applied (normal_snapshot s)) = uncertain_keys (sn_Applied (normal_snapshot t))"
    "diverged_keys (sn_Applied (normal_snapshot s)) = diverged_keys (sn_Applied (normal_snapshot t))"
    using mset_eq_setD[OF m(2)] by (simp_all add: uncertain_keys_def diverged_keys_def)
qed

text \<open>The selection reads the applied units only through the three views above.\<close>

lemma trusted_views:
  assumes "sn_Desired a = sn_Desired b" "applied_of (sn_Applied a) = applied_of (sn_Applied b)"
    "uncertain_keys (sn_Applied a) = uncertain_keys (sn_Applied b)"
    "diverged_keys (sn_Applied a) = diverged_keys (sn_Applied b)"
  shows "trusted a = trusted b"
  by (rule ext) (simp only: trusted_def assms)

lemma select_executions_views:
  "sn_Desired a = sn_Desired b \<Longrightarrow> trusted a = trusted b \<Longrightarrow> select_executions a es st = select_executions b es st"
  by (induction es arbitrary: st) (simp_all add: Let_def)

lemma select_unit_views:
  assumes "sn_Desired a = sn_Desired b" "applied_of (sn_Applied a) = applied_of (sn_Applied b)"
    "uncertain_keys (sn_Applied a) = uncertain_keys (sn_Applied b)"
    "diverged_keys (sn_Applied a) = diverged_keys (sn_Applied b)"
  shows "select_unit a = select_unit b"
  by (intro ext) (simp only: select_unit_def waits_def trusted_views[OF assms] assms)

lemma select_desired_views:
  "select_unit a = select_unit b \<Longrightarrow> select_desired a vs st = select_desired b vs st"
  by (induction vs arbitrary: st) simp_all

lemma select_same:
  assumes same: "same_snapshot s t"
  shows "select u s = select u t"
proof (cases "snapshot_valid u s")
  case True
  note n = normal_same[OF same True]
  note views = select_unit_views[OF n(1,3-5)] trusted_views[OF n(1,3-5)]
  have "initial_state (normal_snapshot s) = initial_state (normal_snapshot t)"
    by (simp only: initial_state_def n(2))
  then have "select_state_of (normal_snapshot s) = select_state_of (normal_snapshot t)"
    by (simp only: select_state_of_def n(1,2) select_executions_views[OF n(1) views(2)] select_desired_views[OF views(1)])
  with True snapshot_valid_same[OF same True] show ?thesis by (simp add: select_cases)
next
  case False
  then have "\<not> snapshot_valid u t" using snapshot_valid_same[OF same_snapshot_commute[OF same]] by blast
  with False show ?thesis by (simp add: select_cases)
qed

section \<open>Convergence\<close>

text \<open>The records once the ready units have been acknowledged, every other record unchanged.\<close>

definition acknowledge_unit :: "snapshot \<Rightarrow> selection \<Rightarrow> applied_unit \<Rightarrow> applied_unit" where
  "acknowledge_unit s sel a =
     (case unit_of (sn_Desired s) (ap_Target a) of
        None \<Rightarrow> a
      | Some v \<Rightarrow>
          if ap_Target a \<in> set (sl_Ready sel)
          then (if un_Removal v then a\<lparr>ap_State := Absent, ap_Fingerprint := 0\<rparr>
                else a\<lparr>ap_State := Applied, ap_Fingerprint := un_Fingerprint v\<rparr>)
          else a)"

definition reconcile_round :: "ulid_check \<Rightarrow> snapshot \<Rightarrow> snapshot" where
  "reconcile_round u s =
     (case select u s of
        Inl e \<Rightarrow> s
      | Inr sel \<Rightarrow> s\<lparr>sn_Applied := map (acknowledge_unit s sel) (sn_Applied s)\<rparr>)"

text \<open>Nothing is in flight, and every record says what was last applied.\<close>

definition quiet :: "snapshot \<Rightarrow> bool" where
  "quiet s \<longleftrightarrow>
     sn_Executions s = [] \<and> list_all (\<lambda>a. ap_State a \<noteq> Uncertain \<and> ap_State a \<noteq> Diverged) (sn_Applied s)"

definition untrusted :: "snapshot \<Rightarrow> resource_key list" where
  "untrusted s = filter (\<lambda>t. \<not> trusted s t) (map un_Target (sn_Desired s))"

lemma applied_ok_affected:
  "applied_ok u r a \<Longrightarrow> ap_State a \<noteq> Uncertain \<Longrightarrow> ap_State a \<noteq> Diverged \<Longrightarrow> ap_AffectedWrites a = []"
  by (auto simp: applied_ok_def split: applied_state.splits)

lemma quiet_unmarked:
  assumes "snapshot_valid u s" "quiet s"
  shows "uncertain_keys (sn_Applied s) = {}" "diverged_keys (sn_Applied s) = {}"
  using assms applied_ok_affected
  by (fastforce simp: snapshot_valid_def quiet_def list_all_iff set_eq_iff marked_iff)+

lemma quiet_trusted:
  assumes "snapshot_valid u s" "quiet s" "v \<in> set (sn_Desired s)"
  shows "trusted s (un_Target v) \<longleftrightarrow> applied_matches v (applied_of (sn_Applied s) (un_Target v))"
proof -
  have "unit_of (sn_Desired s) (un_Target v) = Some v"
    using assms snapshot_valid_facts(1) by (simp add: unit_of_Some)
  then show ?thesis by (simp add: trusted_def quiet_unmarked[OF assms(1,2)] touches_iff)
qed

lemma started_Nil:
  "started s st vs = [] \<Longrightarrow> v \<in> set vs \<Longrightarrow> \<not> startable s v st"
proof (induction vs arbitrary: st)
  case (Cons w vs)
  then have w: "\<not> startable s w st" "started s (select_unit s w st) vs = []" by (auto split: if_splits)
  then have "ss_Held (select_unit s w st) = ss_Held st" by (simp add: select_unit_ready)
  then have "startable s v (select_unit s w st) \<longleftrightarrow> startable s v st"
    by (simp only: startable_def select_unit_frame)
  with w Cons show ?case by auto
qed simp

lemma quiet_done:
  assumes "quiet s"
  shows "ss_Held (executions_done s) = []" "ss_Continuing (executions_done s) = []"
    "ss_ContinuingPending (executions_done s) = []"
  using assms by (simp_all add: quiet_def executions_done_state kept_of_def carried_of_def carried_def)

lemma quiet_waits:
  assumes "snapshot_valid u s" "quiet s"
  shows "waits (normal_snapshot s) v [] \<longleftrightarrow> (\<exists>d \<in> set (un_After v). \<not> trusted s d)"
  using quiet_unmarked[OF assms]
  by (auto simp: waits_def touches_iff any_marked_iff dependencies_applied_def pending_writes_affect_def list_all_iff
      trusted_normal[OF assms(1)] simp del: normal_snapshot_simps(1,3) split: option.splits)

lemma quiet_not_uncertain:
  assumes "quiet s" "applied_of (sn_Applied (normal_snapshot s)) t = Some a"
  shows "ap_State a \<noteq> Uncertain"
  using assms by (auto simp: quiet_def list_all_iff applied_of_def find_Some_iff)

lemma quiet_startable:
  assumes "snapshot_valid u s" "quiet s"
  shows "startable (normal_snapshot s) v (executions_done s) \<longleftrightarrow>
    \<not> trusted s (un_Target v) \<and> (\<forall>d \<in> set (un_After v). trusted s d)"
  unfolding startable_def quiet_done[OF assms(2)] quiet_waits[OF assms] trusted_normal[OF assms(1)]
  using quiet_not_uncertain[OF assms(2)] by (auto simp: conflicts_any_def)

lemma quiet_progress:
  assumes ok: "snapshot_valid u s" and quiet: "quiet s" and left: "untrusted s \<noteq> []"
  shows "started_of s \<noteq> []"
proof -
  let ?Q = "set (untrusted s)"
  have "finite (after_edges (sn_Desired s))" unfolding set_unit_graph[symmetric] by simp
  moreover have "acyclic (after_edges (sn_Desired s))" using ok by (simp add: snapshot_valid_def)
  ultimately have "wf (after_edges (sn_Desired s))" by (rule finite_acyclic_wf)
  then obtain t where t: "t \<in> ?Q" "\<And>d. (d, t) \<in> after_edges (sn_Desired s) \<Longrightarrow> d \<notin> ?Q"
    using left by (metis list.set_sel(1) wfE_min)
  then obtain v where v: "v \<in> set (sn_Desired s)" "t = un_Target v" "\<not> trusted s t" by (auto simp: untrusted_def)
  have "trusted s d" if "d \<in> set (un_After v)" for d
  proof -
    have "d \<notin> ?Q" using t(2)[of d] v(1,2) that by (auto simp: after_edges_iff)
    moreover have "d \<in> un_Target ` set (sn_Desired s)" using ok v(1) that by (auto simp: snapshot_valid_def)
    ultimately show ?thesis by (auto simp: untrusted_def)
  qed
  then have "startable (normal_snapshot s) (normal_unit v) (executions_done s)"
    using v by (simp add: quiet_startable[OF ok quiet])
  moreover have "normal_unit v \<in> set (sn_Desired (normal_snapshot s))" using v(1) by simp
  ultimately show ?thesis unfolding started_of_def using started_Nil by blast
qed

lemma started_untrusted:
  assumes "v \<in> set (started s st vs)"
  shows "\<not> trusted s (un_Target v)"
  using assms by (induction vs arbitrary: st) (auto simp: startable_def split: if_splits)

lemma acknowledge_unit_target [simp]: "ap_Target (acknowledge_unit s sel a) = ap_Target a"
  by (simp add: acknowledge_unit_def split: option.split)

lemma round_simps [simp]:
  "sn_Desired (reconcile_round u s) = sn_Desired s" "sn_Executions (reconcile_round u s) = sn_Executions s"
  by (simp_all add: reconcile_round_def split: sum.split)

lemma round_applied:
  "select u s = Inr sel \<Longrightarrow> sn_Applied (reconcile_round u s) = map (acknowledge_unit s sel) (sn_Applied s)"
  by (simp add: reconcile_round_def)

lemma acknowledged_ok:
  assumes "snapshot_valid u s" "quiet s" "a \<in> set (sn_Applied s)"
  shows "applied_ok u (removal_desired (desired_units s)) (acknowledge_unit s sel a)"
    "ap_State (acknowledge_unit s sel a) \<notin> {Uncertain, Diverged}"
proof -
  have a: "applied_ok u (removal_desired (desired_units s)) a" "ap_State a \<notin> {Uncertain, Diverged}"
    using assms by (auto simp: snapshot_valid_def quiet_def list_all_iff)
  then have "ap_AffectedWrites a = []" using applied_ok_affected by blast
  moreover have "un_Fingerprint v \<noteq> 0 \<or> un_Removal v" if "unit_of (sn_Desired s) k = Some v" for k v
    using that assms(1) snapshot_valid_facts(1)[OF assms(1)]
    by (auto simp: unit_of_Some snapshot_valid_def list_all_iff unit_ok_def)
  ultimately show "applied_ok u (removal_desired (desired_units s)) (acknowledge_unit s sel a)"
    using a(1) by (auto simp: acknowledge_unit_def applied_ok_def split: option.split)
  show "ap_State (acknowledge_unit s sel a) \<notin> {Uncertain, Diverged}"
    using a(2) by (simp add: acknowledge_unit_def split: option.split)
qed

lemma round_ok:
  assumes ok: "snapshot_valid u s" and quiet: "quiet s"
  shows "snapshot_valid u (reconcile_round u s)" "quiet (reconcile_round u s)"
proof -
  obtain sel where sel: "select u s = Inr sel" using ok by (simp add: select_cases)
  note a = acknowledged_ok[OF ok quiet]
  have d: "desired_units (reconcile_round u s) = desired_units s" by (simp add: desired_units_def)
  have "list_all (applied_ok u (removal_desired (desired_units s))) (sn_Applied (reconcile_round u s))"
    unfolding round_applied[OF sel] list_all_iff using a(1) by auto
  moreover have targets: "map ap_Target (sn_Applied (reconcile_round u s)) = map ap_Target (sn_Applied s)"
    by (simp add: round_applied[OF sel])
  have "distinct (map ap_Target (sn_Applied (reconcile_round u s)))"
    using snapshot_valid_facts(3)[OF ok] by (simp only: targets)
  moreover have "un_Target ` set (sn_Desired s) \<subseteq> ap_Target ` set (sn_Applied (reconcile_round u s))"
    using ok unfolding snapshot_valid_def set_map[symmetric] targets by blast
  ultimately show "snapshot_valid u (reconcile_round u s)"
    using ok unfolding snapshot_valid_def round_simps d by satx
  show "quiet (reconcile_round u s)"
    using quiet a(2) unfolding quiet_def round_simps by (auto simp: round_applied[OF sel] list_all_iff)
qed

lemma applied_of_round:
  assumes "select u s = Inr sel"
  shows "applied_of (sn_Applied (reconcile_round u s)) k = map_option (acknowledge_unit s sel) (applied_of (sn_Applied s) k)"
  unfolding applied_of_def round_applied[OF assms] by (rule find_key_map) simp

lemma round_trusted:
  assumes ok: "snapshot_valid u s" and quiet: "quiet s" and sel: "select u s = Inr sel" and v: "v \<in> set (sn_Desired s)"
  shows "trusted (reconcile_round u s) (un_Target v) \<longleftrightarrow> trusted s (un_Target v) \<or> un_Target v \<in> set (sl_Ready sel)"
proof -
  have "un_Target v \<in> ap_Target ` set (sn_Applied s)" using ok v by (auto simp: snapshot_valid_def)
  then obtain a where a: "applied_of (sn_Applied s) (un_Target v) = Some a"
    using find_key_None[of ap_Target "un_Target v" "sn_Applied s"] by (auto simp: applied_of_def)
  then have "ap_Target a = un_Target v" by (auto simp: applied_of_def find_Some_iff)
  moreover have "unit_of (sn_Desired s) (un_Target v) = Some v"
    using snapshot_valid_facts(1)[OF ok] v by (simp add: unit_of_Some)
  moreover have "v \<in> set (sn_Desired (reconcile_round u s))" using v by simp
  ultimately show ?thesis
    unfolding quiet_trusted[OF round_ok[OF ok quiet] \<open>v \<in> set (sn_Desired (reconcile_round u s))\<close>] quiet_trusted[OF ok quiet v]
      applied_of_round[OF sel] a
    by (auto simp: applied_matches_def acknowledge_unit_def)
qed

lemma round_untrusted:
  assumes ok: "snapshot_valid u s" and quiet: "quiet s" and left: "untrusted s \<noteq> []"
  shows "length (untrusted (reconcile_round u s)) < length (untrusted s)"
proof -
  obtain sel where sel: "select u s = Inr sel" using ok by (simp add: select_cases)
  have eq: "untrusted (reconcile_round u s) = filter (\<lambda>t. t \<notin> set (sl_Ready sel)) (untrusted s)"
    unfolding untrusted_def filter_filter round_simps
    by (rule filter_cong) (use round_trusted[OF ok quiet sel] in auto)
  obtain v where v: "v \<in> set (started_of s)" using quiet_progress[OF assms] by (meson list.set_sel(1))
  then have "un_Target v \<in> set (sl_Ready sel)" by (simp add: select_Inr(4)[OF sel])
  moreover have "un_Target v \<in> set (untrusted s)"
    using started_untrusted v subseq_set_subset[OF started_subseq] trusted_normal[OF ok]
    unfolding started_of_def untrusted_def by fastforce
  ultimately show ?thesis unfolding eq by (intro length_filter_less[of "un_Target v"]) simp_all
qed

lemma rounds_untrusted:
  "snapshot_valid u s \<Longrightarrow> quiet s \<Longrightarrow> length (untrusted s) \<le> n \<Longrightarrow>
     snapshot_valid u ((reconcile_round u ^^ n) s) \<and> quiet ((reconcile_round u ^^ n) s) \<and> untrusted ((reconcile_round u ^^ n) s) = [] \<and>
     sn_Desired ((reconcile_round u ^^ n) s) = sn_Desired s"
proof (induction n arbitrary: s)
  case (Suc n)
  show ?case
  proof (cases "untrusted s = []")
    case True
    note r = round_ok[OF Suc.prems(1,2)]
    obtain sel where sel: "select u s = Inr sel" using Suc.prems(1) by (simp add: select_cases)
    have "untrusted (reconcile_round u s) = []"
      using True round_trusted[OF Suc.prems(1,2) sel] by (auto simp: untrusted_def filter_empty_conv)
    with Suc.IH[OF r] show ?thesis by (simp add: funpow_swap1)
  next
    case False
    with round_untrusted[OF Suc.prems(1,2)] Suc.prems(3) have "length (untrusted (reconcile_round u s)) \<le> n" by simp
    with Suc.IH[OF round_ok[OF Suc.prems(1,2)]] show ?thesis by (simp add: funpow_swap1)
  qed
qed simp

text \<open>With nothing left to do, every target is satisfied.\<close>

lemma select_unit_satisfied:
  assumes "ss_Held st = []" "ss_Continuing st = []" "ss_ContinuingPending st = []"
    "\<not> waits s v []" "trusted s (un_Target v)" "\<And>a. applied_of (sn_Applied s) (un_Target v) = Some a \<Longrightarrow> ap_State a \<noteq> Uncertain"
  shows "select_unit s v st = st\<lparr>ss_Selection := (ss_Selection st)\<lparr>sl_Satisfied := sl_Satisfied (ss_Selection st) @ [un_Target v]\<rparr>\<rparr>"
  using assms by (auto simp: select_unit_def Let_def conflicts_any_def split: option.split)

lemma select_desired_satisfied:
  assumes "\<forall>v \<in> set vs. \<not> waits s v [] \<and> trusted s (un_Target v) \<and>
      (\<forall>a. applied_of (sn_Applied s) (un_Target v) = Some a \<longrightarrow> ap_State a \<noteq> Uncertain)"
    "ss_Held st = []" "ss_Continuing st = []" "ss_ContinuingPending st = []"
  shows "select_desired s vs st =
    st\<lparr>ss_Selection := (ss_Selection st)\<lparr>sl_Satisfied := sl_Satisfied (ss_Selection st) @ map un_Target vs\<rparr>\<rparr>"
  using assms by (induction vs arbitrary: st) (simp_all add: select_unit_satisfied)

lemma map_sort_key: "map f (sort_key f xs) = sort (map f xs)"
  by (rule sorted_distinct_eqI) simp_all

lemma quiet_satisfied:
  assumes ok: "snapshot_valid u s" and quiet: "quiet s" and "untrusted s = []"
  shows "select u s = Inr (empty_selection\<lparr>sl_Satisfied := sort (map un_Target (sn_Desired s))\<rparr>)"
proof -
  let ?n = "normal_snapshot s"
  have t: "trusted s (un_Target v)" if "v \<in> set (sn_Desired s)" for v
    using assms(3) that by (auto simp: untrusted_def filter_empty_conv)
  have all: "\<forall>v \<in> set (sn_Desired ?n). \<not> waits ?n v [] \<and> trusted ?n (un_Target v) \<and>
      (\<forall>a. applied_of (sn_Applied ?n) (un_Target v) = Some a \<longrightarrow> ap_State a \<noteq> Uncertain)"
  proof
    fix v assume "v \<in> set (sn_Desired ?n)"
    then obtain w where w: "w \<in> set (sn_Desired s)" "v = normal_unit w" by auto
    have "\<forall>d \<in> set (un_After w). trusted s d" using ok w(1) t by (fastforce simp: snapshot_valid_def)
    then show "\<not> waits ?n v [] \<and> trusted ?n (un_Target v) \<and>
        (\<forall>a. applied_of (sn_Applied ?n) (un_Target v) = Some a \<longrightarrow> ap_State a \<noteq> Uncertain)"
      using w t quiet_not_uncertain[OF quiet] unfolding quiet_waits[OF ok quiet] trusted_normal[OF ok] by auto
  qed
  have "ss_Selection (executions_done s) = empty_selection"
    using quiet by (simp add: executions_done_def quiet_def)
  moreover have "map un_Target (sn_Desired ?n) = sort (map un_Target (sn_Desired s))"
    by (simp add: map_sort_key comp_def)
  ultimately show ?thesis
    using ok unfolding select_cases select_state_of_def executions_done_def[symmetric]
      select_desired_satisfied[OF all quiet_done[OF quiet]]
    by (simp only: if_True select_state.simps) (simp add: empty_selection_def)
qed

section \<open>Ready and satisfied targets\<close>

lemma pending_writes_affect_mono:
  "set held \<subseteq> set held' \<Longrightarrow> pending_writes_affect v held \<Longrightarrow> pending_writes_affect v held'"
  by (auto simp: pending_writes_affect_def list_ex_iff)

lemma waits_mono: "set held \<subseteq> set held' \<Longrightarrow> waits s v held \<Longrightarrow> waits s v held'"
  using pending_writes_affect_mono
  by (fastforce simp: waits_def dependencies_applied_def list_all_iff split: option.splits)

lemma started_startable:
  "v \<in> set (started s st vs) \<Longrightarrow> v \<in> set vs \<and> \<not> trusted s (un_Target v) \<and> \<not> waits s v (ss_Held st)"
proof (induction vs arbitrary: st)
  case (Cons w vs)
  have mono: "set (ss_Held st) \<subseteq> set (ss_Held (select_unit s w st))" by (auto simp: select_unit_ready)
  show ?case
  proof (cases "v \<in> set (started s (select_unit s w st) vs)")
    case True
    from Cons.IH[OF this] show ?thesis using waits_mono[OF mono] by auto
  next
    case False
    with Cons.prems show ?thesis by (auto simp: startable_def split: if_splits)
  qed
qed simp

lemma select_desired_trusted:
  "t \<in> set (sl_Satisfied (ss_Selection (select_desired s vs st))) \<Longrightarrow>
     t \<in> set (sl_Satisfied (ss_Selection st)) \<or> trusted s t"
proof (induction vs arbitrary: st)
  case (Cons v vs)
  from Cons.IH[of "select_unit s v st"] Cons.prems
  have "t \<in> set (sl_Satisfied (ss_Selection (select_unit s v st))) \<or> trusted s t" by simp
  then show ?case by (auto simp: select_unit_def Let_def split: if_splits)
qed simp

lemma pending_writes_affect_iff:
  assumes "access_sorted v" "\<forall>h \<in> set held. access_sorted h"
  shows "pending_writes_affect v held \<longleftrightarrow>
    (\<exists>h \<in> set held. set (un_Writes h) \<inter> (set (un_Reads v) \<union> set (un_Writes v)) \<noteq> {})"
  using assms by (fastforce simp: pending_writes_affect_def list_ex_iff access_sorted_def intersects_iff)

lemma done_access_sorted: "\<forall>h \<in> set (ss_Held (executions_done s)). access_sorted h"
  using access_sorted_ordered(1,3) subseq_set_subset[OF kept_of_subseq] unfolding executions_done_state by fastforce

lemma claimed_writes:
  assumes "select u s = Inr sel"
  shows "(\<exists>h \<in> set (ss_Held (executions_done s)). set (un_Writes h) \<inter> X \<noteq> {}) \<longleftrightarrow>
    (\<exists>h \<in> set (claimed s sel). set (un_Writes h) \<inter> X \<noteq> {})"
proof -
  have "set (ss_Held (executions_done s)) = normal_unit ` set (claimed s sel)"
    using mset_eq_setD[OF in_flight_held(2)[OF assms]] by simp
  then show ?thesis by simp
qed

lemma ready_unit:
  assumes sel: "select u s = Inr sel" and v: "v \<in> set (sn_Desired s)" "un_Target v \<in> set (sl_Ready sel)"
  shows "\<not> trusted s (un_Target v) \<and>
    (set (un_Reads v) \<union> set (un_Writes v)) \<inter> uncertain_keys (sn_Applied s) = {} \<and>
    set (un_Reads v) \<inter> diverged_keys (sn_Applied s) = {} \<and>
    (\<forall>d \<in> set (sn_Desired s). un_Target d \<in> set (un_After v) \<longrightarrow>
       trusted s (un_Target d) \<and>
       (\<forall>h \<in> set (claimed s sel). set (un_Writes h) \<inter> (set (un_Reads d) \<union> set (un_Writes d)) = {}))"
proof -
  note ok = select_Inr(1)[OF sel] and d = snapshot_valid_facts(1)[OF select_Inr(1)[OF sel]]
  obtain w where w: "w \<in> set (started_of s)" "un_Target w = un_Target v"
    using v(2) unfolding select_Inr(4)[OF sel] by auto
  then have st: "w \<in> set (sn_Desired (normal_snapshot s))" "\<not> trusted s (un_Target v)"
    "\<not> waits (normal_snapshot s) w (ss_Held (executions_done s))"
    using started_startable unfolding started_of_def by (fastforce simp: trusted_normal[OF ok])+
  then obtain x where "x \<in> set (sn_Desired s)" "w = normal_unit x" by auto
  with w(2) v(1) d have wv: "w = normal_unit v" by (auto dest: inj_onD simp: distinct_map)
  have dep: "trusted s (un_Target e) \<and> \<not> pending_writes_affect (normal_unit e) (ss_Held (executions_done s))"
    if e: "e \<in> set (sn_Desired s)" "un_Target e \<in> set (un_After v)" for e
  proof -
    have "unit_of (sn_Desired s) (un_Target e) = Some e" using e(1) d by (simp add: unit_of_Some)
    then have "unit_of (sn_Desired (normal_snapshot s)) (un_Target e) = Some (normal_unit e)"
      unfolding unit_of_snapshot[OF ok] by simp
    with st(3) e(2) show ?thesis
      unfolding waits_def wv dependencies_applied_def list_all_iff trusted_normal[OF ok]
      by (auto simp del: normal_snapshot_simps(1,3))
  qed
  have "trusted s (un_Target e) \<and>
       (\<forall>h \<in> set (claimed s sel). set (un_Writes h) \<inter> (set (un_Reads e) \<union> set (un_Writes e)) = {})"
    if e: "e \<in> set (sn_Desired s)" "un_Target e \<in> set (un_After v)" for e
    using dep[OF e] claimed_writes[OF sel, of "set (un_Reads e) \<union> set (un_Writes e)"]
    unfolding pending_writes_affect_iff[OF normal_unit_simps(7) done_access_sorted] normal_unit_simps by blast
  moreover have "(set (un_Reads v) \<union> set (un_Writes v)) \<inter> uncertain_keys (sn_Applied s) = {}"
    "set (un_Reads v) \<inter> diverged_keys (sn_Applied s) = {}"
    using st(3) unfolding waits_def wv by (auto simp: touches_iff any_marked_iff)
  ultimately show ?thesis using st(2) by blast
qed

section \<open>Handoff\<close>

lemma account_writes_Inr:
  "length ks = length ws \<Longrightarrow>
   account_writes ks ws settled changed = Inr r \<longleftrightarrow>
     map we_Resource ws = ks \<and> (\<forall>w \<in> set ws. we_Outcome w \<in> {WriteUnknown, WriteUntouched, WriteChanged}) \<and>
     r = (settled \<and> (\<forall>w \<in> set ws. we_Outcome w \<noteq> WriteUnknown),
          changed @ map we_Resource (filter (\<lambda>w. we_Outcome w = WriteChanged) ws))"
proof (induction ks ws arbitrary: settled changed rule: list_induct2)
  case (Cons k ks w ws)
  then show ?case by (cases "we_Outcome w") auto
qed auto

definition evidence_complete :: "ulid_check \<Rightarrow> execution \<Rightarrow> handoff_report \<Rightarrow> bool" where
  "evidence_complete u e r \<longleftrightarrow>
     execution_ok u e \<and> exe_State e = ExecDraining \<and>
     hr_WorkItemID r = exe_WorkItemID e \<and> hr_TaskID r = exe_TaskID e \<and> hr_AttemptID r = exe_AttemptID e \<and>
     hr_AttemptNumber r = exe_AttemptNumber e \<and> hr_Executor r \<in> {ExecutorUnconfirmed, ExecutorStopped} \<and>
     mset (map we_Resource (hr_Writes r)) = mset (un_Writes (exe_Unit e)) \<and>
     (\<forall>w \<in> set (hr_Writes r). we_Outcome w \<in> {WriteUnknown, WriteUntouched, WriteChanged})"

definition changed_writes :: "handoff_report \<Rightarrow> resource_key list" where
  "changed_writes r = sort (map we_Resource (filter (\<lambda>w. we_Outcome w = WriteChanged) (hr_Writes r)))"

lemma sorted_writes:
  "sort (map we_Resource ws) = sort ks \<longleftrightarrow> image_mset we_Resource (mset ws) = mset ks"
  unfolding mset_map[symmetric] by (metis mset_sort properties_for_sort sorted_sort)

lemma resolve_handoff_Inr:
  "resolve_handoff u e r = Inr d \<longleftrightarrow>
     evidence_complete u e r \<and>
     d = (if hr_Executor r = ExecutorStopped \<and> (\<forall>w \<in> set (hr_Writes r). we_Outcome w \<noteq> WriteUnknown)
          then \<lparr>hd_Settled = True, hd_ChangedWrites = changed_writes r\<rparr>
          else \<lparr>hd_Settled = False, hd_ChangedWrites = []\<rparr>)"
proof -
  have w: "un_Writes (normal_unit v) = sort (un_Writes v)" for v by (simp add: normal_unit_def)
  have len: "length (un_Writes (exe_Unit e)) = length (hr_Writes r)"
    if "mset (map we_Resource (hr_Writes r)) = mset (un_Writes (exe_Unit e))"
    using arg_cong[OF that, of size] by simp
  have acc: "account_writes (sort (un_Writes (exe_Unit e))) (sort_key we_Resource (hr_Writes r)) b [] = Inr x \<longleftrightarrow>
      mset (map we_Resource (hr_Writes r)) = mset (un_Writes (exe_Unit e)) \<and>
      (\<forall>w \<in> set (hr_Writes r). we_Outcome w \<in> {WriteUnknown, WriteUntouched, WriteChanged}) \<and>
      x = (b \<and> (\<forall>w \<in> set (hr_Writes r). we_Outcome w \<noteq> WriteUnknown), changed_writes r)"
    if "length (hr_Writes r) = length (un_Writes (exe_Unit e))" for b x
    using that account_writes_Inr[of "sort (un_Writes (exe_Unit e))" "sort_key we_Resource (hr_Writes r)" b "[]" x]
    by (simp add: sorted_writes changed_writes_def filter_sort map_sort_key)
  show ?thesis
    unfolding resolve_handoff_def evidence_complete_def try_res_eq_Inr normalize_execution_Inr
    by (auto simp: w acc len) metis
qed

section \<open>An example\<close>

text \<open>A volume and a service that is started after it; the ids are accepted by the ULID check \<open>(\<lambda>_. True)\<close>.\<close>

definition example_key :: "kind \<Rightarrow> string \<Rightarrow> resource_key" where
  "example_key k p = ResourceKey k (p @ ''_'' @ replicate 26 (CHR ''A''))"

definition volume_unit :: unit_ where
  "volume_unit = \<lparr>un_Target = example_key KindVolume ''vol'', un_Removal = False, un_Fingerprint = 1, un_Reads = [],
     un_Writes = [example_key KindVolume ''vol''], un_After = []\<rparr>"

definition service_unit :: unit_ where
  "service_unit = \<lparr>un_Target = example_key KindService ''svc'', un_Removal = False, un_Fingerprint = 2,
     un_Reads = [example_key KindVolume ''vol''], un_Writes = [example_key KindService ''svc''],
     un_After = [example_key KindVolume ''vol'']\<rparr>"

definition absent :: "resource_key \<Rightarrow> applied_unit" where
  "absent k = \<lparr>ap_Target = k, ap_State = Absent, ap_Fingerprint = 0, ap_AffectedWrites = []\<rparr>"

definition fresh_snapshot :: snapshot where
  "fresh_snapshot = \<lparr>sn_Desired = [service_unit, volume_unit],
     sn_Applied = [absent (un_Target volume_unit), absent (un_Target service_unit)], sn_Executions = []\<rparr>"

text \<open>The volume is being replaced by a draining execution; a queued execution publishes a route.\<close>

definition route_unit :: unit_ where
  "route_unit = \<lparr>un_Target = example_key KindRoute ''rte'', un_Removal = False, un_Fingerprint = 3, un_Reads = [],
     un_Writes = [example_key KindRoute ''rte''], un_After = []\<rparr>"

definition example_execution :: "string \<Rightarrow> unit_ \<Rightarrow> execution_state \<Rightarrow> execution" where
  "example_execution c v st =
     \<lparr>exe_WorkItemID = KindWorkItem @ ''_'' @ concat (replicate 26 c),
      exe_AttemptID = (if st = ExecPending then [] else KindAttempt @ ''_'' @ concat (replicate 26 c)),
      exe_TaskID = KindTask @ ''_'' @ replicate 26 (CHR ''A''), exe_AttemptNumber = (if st = ExecPending then 0 else 1),
      exe_Unit = v, exe_State = st\<rparr>"

definition busy_snapshot :: snapshot where
  "busy_snapshot = \<lparr>sn_Desired = [service_unit, route_unit, volume_unit],
     sn_Applied = map (absent \<circ> un_Target) [volume_unit, service_unit, route_unit],
     sn_Executions = [example_execution ''B'' route_unit ExecPending,
       example_execution ''A'' (volume_unit\<lparr>un_Fingerprint := 9\<rparr>) ExecDraining]\<rparr>"

definition accept_all :: ulid_check where
  "accept_all = (\<lambda>_. True)"

definition busy_selection :: selection where
  "busy_selection = empty_selection\<lparr>sl_Waiting := [un_Target service_unit, un_Target volume_unit],
     sl_ContinuePending := [exe_WorkItemID (example_execution ''B'' route_unit ExecPending)]\<rparr>"

definition fresh_selection :: selection where
  "fresh_selection = empty_selection\<lparr>sl_Ready := [un_Target volume_unit], sl_Waiting := [un_Target service_unit]\<rparr>"

lemma busy_selected: "select accept_all busy_snapshot = Inr busy_selection"
  by code_simp

lemma fresh_selected: "select accept_all fresh_snapshot = Inr fresh_selection"
  by code_simp

section \<open>Properties\<close>

text \<open>C19. Whatever a selection lets run side by side is independent: among the units owned by running and
  draining executions, the pending executions that continue and the targets that become ready, none writes what
  another one reads or writes.\<close>

theorem in_flight_independent:
  assumes "select u s = Inr sel"
  shows "pairwise_independent (in_flight s sel)"
proof -
  have "pairwise_independent (map normal_unit (in_flight s sel))"
    using held_independent[OF select_Inr(1)[OF assms]] pairwise_independent_mset[OF in_flight_held(1)[OF assms]] by blast
  then show ?thesis by simp
qed

theorem in_flight_independent_witness:
  "pairwise_independent (in_flight busy_snapshot busy_selection) \<and>
   map un_Target (in_flight busy_snapshot busy_selection) = [un_Target volume_unit, un_Target route_unit]"
  using in_flight_independent[OF busy_selected] by (intro conjI) (assumption | code_simp)+

text \<open>A selection decides everything exactly once: each desired target is ready, satisfied, waiting, in need
  of effect resolution or carried on by one continuing execution; each pending execution continues or is
  cancelled, and so is each running one; draining executions are left alone.\<close>

theorem selection_is_a_partition:
  assumes "select u s = Inr sel"
  shows "mset (map un_Target (sn_Desired s)) =
      mset (sl_Ready sel @ sl_Satisfied sel @ sl_Waiting sel @ sl_ResolveEffects sel) +
      mset (map (un_Target \<circ> exe_Unit) (continuing_executions s sel)) \<and>
    mset (map exe_WorkItemID (filter (\<lambda>e. exe_State e = ExecPending) (sn_Executions s))) =
      mset (sl_CancelPending sel @ sl_ContinuePending sel) \<and>
    mset (map exe_WorkItemID (filter (\<lambda>e. exe_State e = ExecRunning) (sn_Executions s))) =
      mset (sl_CancelRunning sel @ sl_ContinueRunning sel)"
  using targets_decided[OF assms] executions_decided[OF assms] unfolding decided_targets_def by simp

theorem selection_is_a_partition_witness:
  "mset (map un_Target (sn_Desired busy_snapshot)) =
      mset (sl_Waiting busy_selection) +
      mset (map (un_Target \<circ> exe_Unit) (continuing_executions busy_snapshot busy_selection))"
  using selection_is_a_partition[OF busy_selected] by (simp add: busy_selection_def empty_selection_def)

text \<open>The selection is a function of the sets of units, records and executions: listing them in another order
  gives the same decision or the same refusal.\<close>

theorem selection_ignores_order:
  assumes "mset (sn_Desired s) = mset (sn_Desired t)" "mset (sn_Applied s) = mset (sn_Applied t)"
    "mset (sn_Executions s) = mset (sn_Executions t)"
  shows "select u s = select u t"
  using assms by (intro select_same) (simp add: same_snapshot_def)

theorem selection_ignores_order_witness:
  "select accept_all (busy_snapshot\<lparr>sn_Desired := rev (sn_Desired busy_snapshot)\<rparr>) = Inr busy_selection"
  using selection_ignores_order[of "busy_snapshot\<lparr>sn_Desired := rev (sn_Desired busy_snapshot)\<rparr>" busy_snapshot accept_all]
    busy_selected by simp

text \<open>C20. A target becomes ready only on applied ground: it is not applied itself, it touches no resource with
  uncertain effects and reads none with diverged ones, and every unit it comes after is applied and is not being
  rewritten by an execution that owns claims or continues.\<close>

theorem ready_units_are_admissible:
  assumes "select u s = Inr sel" "v \<in> set (sn_Desired s)" "un_Target v \<in> set (sl_Ready sel)"
  shows "\<not> trusted s (un_Target v) \<and>
    (set (un_Reads v) \<union> set (un_Writes v)) \<inter> uncertain_keys (sn_Applied s) = {} \<and>
    set (un_Reads v) \<inter> diverged_keys (sn_Applied s) = {} \<and>
    (\<forall>d \<in> set (sn_Desired s). un_Target d \<in> set (un_After v) \<longrightarrow>
       trusted s (un_Target d) \<and>
       (\<forall>h \<in> set (claimed s sel). set (un_Writes h) \<inter> (set (un_Reads d) \<union> set (un_Writes d)) = {}))"
  using assms by (rule ready_unit)

theorem ready_units_are_admissible_witness:
  "\<not> trusted fresh_snapshot (un_Target volume_unit) \<and>
   set (un_Writes volume_unit) \<inter> uncertain_keys (sn_Applied fresh_snapshot) = {}"
proof -
  have "volume_unit \<in> set (sn_Desired fresh_snapshot)" by (simp add: fresh_snapshot_def)
  moreover have "un_Target volume_unit \<in> set (sl_Ready fresh_selection)" by (simp add: fresh_selection_def)
  ultimately show ?thesis using ready_units_are_admissible[OF fresh_selected] by blast
qed

text \<open>C21. Reconciliation converges: when nothing is in flight and no effect is uncertain or diverged, and the ready
  targets of every round are acknowledged, at most one round per desired unit makes every target satisfied.\<close>

theorem rounds_converge:
  assumes "snapshot_valid u s" "quiet s"
  shows "select u ((reconcile_round u ^^ length (sn_Desired s)) s) =
    Inr (empty_selection\<lparr>sl_Satisfied := sort (map un_Target (sn_Desired s))\<rparr>)"
proof -
  have "length (untrusted s) \<le> length (sn_Desired s)"
    by (metis length_filter_le length_map untrusted_def)
  from rounds_untrusted[OF assms this] quiet_satisfied[of u "(reconcile_round u ^^ length (sn_Desired s)) s"] show ?thesis by simp
qed

theorem rounds_converge_witness:
  "select accept_all ((reconcile_round accept_all ^^ 2) fresh_snapshot) =
    Inr (empty_selection\<lparr>sl_Satisfied := sort [un_Target service_unit, un_Target volume_unit]\<rparr>)"
proof -
  have "snapshot_valid accept_all fresh_snapshot" using select_Inr(1)[OF fresh_selected] .
  moreover have "quiet fresh_snapshot" by (simp add: quiet_def fresh_snapshot_def absent_def)
  ultimately show ?thesis using rounds_converge[of accept_all fresh_snapshot] by (simp add: fresh_snapshot_def numeral_2_eq_2)
qed

text \<open>A handoff is decided exactly on complete evidence: the report has to name the draining execution, and
  one valid outcome for each resource it writes, in any order. It settles exactly when the executor is confirmed
  stopped and no outcome is unknown, and then reports exactly the changed resources, in order.\<close>

theorem handoff_settles_iff:
  "resolve_handoff u e r = Inr d \<longleftrightarrow>
     evidence_complete u e r \<and>
     d = (if hr_Executor r = ExecutorStopped \<and> (\<forall>w \<in> set (hr_Writes r). we_Outcome w \<noteq> WriteUnknown)
          then \<lparr>hd_Settled = True, hd_ChangedWrites = changed_writes r\<rparr>
          else \<lparr>hd_Settled = False, hd_ChangedWrites = []\<rparr>)"
  by (rule resolve_handoff_Inr)

definition example_report :: handoff_report where
  "example_report = \<lparr>hr_WorkItemID = exe_WorkItemID (example_execution ''A'' volume_unit ExecDraining),
     hr_AttemptID = exe_AttemptID (example_execution ''A'' volume_unit ExecDraining),
     hr_TaskID = exe_TaskID (example_execution ''A'' volume_unit ExecDraining), hr_AttemptNumber = 1,
     hr_Executor = ExecutorStopped, hr_Writes = [\<lparr>we_Resource = un_Target volume_unit, we_Outcome = WriteChanged\<rparr>]\<rparr>"

theorem handoff_settles_iff_witness:
  "evidence_complete accept_all (example_execution ''A'' volume_unit ExecDraining) example_report"
proof -
  have "resolve_handoff accept_all (example_execution ''A'' volume_unit ExecDraining) example_report =
      Inr \<lparr>hd_Settled = True, hd_ChangedWrites = [un_Target volume_unit]\<rparr>"
    by code_simp
  then show ?thesis unfolding handoff_settles_iff by blast
qed

end
