(* ===== verification/Sha256.thy ===== *)
theory Sha256
  imports Prelude
begin

unbundle bit_operations_syntax

text \<open>
  \<open>crypto/sha256\<close> of Go's standard library (FIPS 180-4) and its lower-case hexadecimal text, for the digests that
  identify controller releases. The theorems use only that the text has 64 digits of \<open>0-9a-f\<close>; the definition is
  executable.
\<close>

section \<open>Words and bytes\<close>

definition word_of_bytes :: "nat list \<Rightarrow> u32" where
  "word_of_bytes bs = foldl (\<lambda>w b. push_bit 8 w OR of_nat b) 0 bs"

fun chunks :: "nat \<Rightarrow> 'a list \<Rightarrow> 'a list list" where
  "chunks n xs = (if n = 0 \<or> xs = [] then [] else take n xs # chunks n (drop n xs))"

declare chunks.simps [simp del]

definition big_endian :: "nat \<Rightarrow> nat \<Rightarrow> nat list" where
  "big_endian len n = map (\<lambda>i. n div 256 ^ (len - 1 - i) mod 256) [0..<len]"

text \<open>The message, the bit 1, zeros up to 56 bytes modulo 64, and the length in bits (64 bits).\<close>

definition padded :: "nat list \<Rightarrow> nat list" where
  "padded bs = bs @ [128] @ replicate ((119 - length bs mod 64) mod 64) 0 @ big_endian 8 (8 * length bs)"

section \<open>The compression function\<close>

text \<open>The tables of the code, one text for each of its rows of four words.\<close>

definition hex_value :: "char \<Rightarrow> nat" where
  "hex_value c = (if is_digit c then byte c - 48 else byte c - 87)"

definition word_of_hex :: "string \<Rightarrow> u32" where
  "word_of_hex s = foldl (\<lambda>w c. push_bit 4 w OR of_nat (hex_value c)) 0 s"

definition table_words :: "string list \<Rightarrow> u32 list" where
  "table_words rows = concat (map (\<lambda>row. map word_of_hex (chunks 8 row)) rows)"

definition sha_constants :: "u32 list" where
  "sha_constants = table_words
    [''428a2f9871374491b5c0fbcfe9b5dba5'',
     ''3956c25b59f111f1923f82a4ab1c5ed5'',
     ''d807aa9812835b01243185be550c7dc3'',
     ''72be5d7480deb1fe9bdc06a7c19bf174'',
     ''e49b69c1efbe47860fc19dc6240ca1cc'',
     ''2de92c6f4a7484aa5cb0a9dc76f988da'',
     ''983e5152a831c66db00327c8bf597fc7'',
     ''c6e00bf3d5a7914706ca635114292967'',
     ''27b70a852e1b21384d2c6dfc53380d13'',
     ''650a7354766a0abb81c2c92e92722c85'',
     ''a2bfe8a1a81a664bc24b8b70c76c51a3'',
     ''d192e819d6990624f40e3585106aa070'',
     ''19a4c1161e376c082748774c34b0bcb5'',
     ''391c0cb34ed8aa4a5b9cca4f682e6ff3'',
     ''748f82ee78a5636f84c878148cc70208'',
     ''90befffaa4506cebbef9a3f7c67178f2'']"

definition sha_initial :: "u32 list" where
  "sha_initial = table_words
    [''6a09e667bb67ae853c6ef372a54ff53a'',
     ''510e527f9b05688c1f83d9ab5be0cd19'']"

definition schedule_step :: "u32 list \<Rightarrow> u32 list" where
  "schedule_step ws =
     (let n = length ws; a = ws ! (n - 15); b = ws ! (n - 2);
          s0 = word_rotr 7 a XOR word_rotr 18 a XOR drop_bit 3 a;
          s1 = word_rotr 17 b XOR word_rotr 19 b XOR drop_bit 10 b
      in ws @ [ws ! (n - 16) + s0 + ws ! (n - 7) + s1])"

definition sha_schedule :: "u32 list \<Rightarrow> u32 list" where
  "sha_schedule ws = (schedule_step ^^ 48) ws"

fun sha_round :: "u32 list \<Rightarrow> u32 \<times> u32 \<Rightarrow> u32 list" where
  "sha_round [a, b, c, d, e, f, g, h] (k, w) =
     (let s1 = word_rotr 6 e XOR word_rotr 11 e XOR word_rotr 25 e;
          ch = (e AND f) XOR (NOT e AND g);
          t1 = h + s1 + ch + k + w;
          s0 = word_rotr 2 a XOR word_rotr 13 a XOR word_rotr 22 a;
          maj = (a AND b) XOR (a AND c) XOR (b AND c);
          t2 = s0 + maj
      in [t1 + t2, a, b, c, d + t1, e, f, g])"
| "sha_round st _ = st"

definition sha_block :: "u32 list \<Rightarrow> nat list \<Rightarrow> u32 list" where
  "sha_block st bs =
     map2 (+) st (foldl sha_round st (zip sha_constants (sha_schedule (map word_of_bytes (chunks 4 bs)))))"

definition sha256_words :: "string \<Rightarrow> u32 list" where
  "sha256_words s = foldl sha_block sha_initial (chunks 64 (padded (map byte s)))"

section \<open>Hexadecimal text\<close>

definition hex_digit :: "nat \<Rightarrow> char" where
  "hex_digit n = (if n < 10 then char_of (48 + n) else char_of (87 + n))"

definition hex_word :: "u32 \<Rightarrow> string" where
  "hex_word w = map (\<lambda>i. hex_digit (unat (drop_bit (4 * (7 - i)) w AND 15))) [0..<8]"

definition sha256_text :: "string \<Rightarrow> string" where
  "sha256_text s = concat (map hex_word (sha256_words s))"

lemma hex_digit_lower: "n < 16 \<Longrightarrow> is_lower_hex (hex_digit n)"
  by (auto simp: hex_digit_def is_lower_hex_def is_digit_def byte_def)

lemma hex_word_lower: "list_all is_lower_hex (hex_word w)"
proof -
  have "unat (x AND 15) < 16" for x :: u32
  proof -
    have "x AND 15 \<le> 15" by (rule word_and_le1)
    then have "unat (x AND 15) \<le> unat (15 :: u32)" by (simp add: word_le_nat_alt)
    then show ?thesis by simp
  qed
  then show ?thesis by (simp add: hex_word_def list_all_iff hex_digit_lower)
qed

lemma length_hex_word [simp]: "length (hex_word w) = 8"
  by (simp add: hex_word_def)

lemma length_sha_round: "length st = 8 \<Longrightarrow> length (sha_round st kw) = 8"
  by (induction st kw rule: sha_round.induct) (auto simp: Let_def)

lemma length_rounds: "length st = 8 \<Longrightarrow> length (foldl sha_round st kws) = 8"
  by (induction kws arbitrary: st) (auto simp: length_sha_round)

lemma length_sha_block: "length st = 8 \<Longrightarrow> length (sha_block st bs) = 8"
  by (simp add: sha_block_def length_rounds)

lemma length_sha256_words: "length (sha256_words s) = 8"
proof -
  have "length (foldl sha_block st bss) = 8" if "length st = 8" for st bss
    using that by (induction bss arbitrary: st) (auto simp: length_sha_block)
  moreover have "length sha_initial = 8" by (simp add: sha_initial_def table_words_def chunks.simps)
  ultimately show ?thesis by (simp add: sha256_words_def)
qed

lemma sha256_text_hex: "sha256_hex (sha256_text s)"
proof -
  have "length (concat (map hex_word ws)) = 8 * length ws" for ws
    by (induction ws) auto
  moreover have "list_all is_lower_hex (concat (map hex_word ws))" for ws
    by (induction ws) (auto simp: hex_word_lower)
  ultimately show ?thesis
    by (simp add: sha256_text_def sha256_hex_def length_sha256_words)
qed

end
