(* ===== verification/UpgradeModel.thy ===== *)
theory UpgradeModel
  imports Sha256 Text WorkModel
begin

text \<open>
  The records of a Controller upgrade (\<open>internal/common/controllerupgrade\<close>) with what they are made of: failure
  observations (\<open>internal/common/taskprogress/failure.go\<close>), build provenance (\<open>internal/common/version\<close>) and pinned
  image references (\<open>internal/common/imageref\<close>).

  Third-party code and the JSON text of the records are parameters, the fields of \<open>upgrade_env\<close>. No definition here
  depends on anything else about them.
\<close>

section \<open>Failures\<close>

type_synonym i32 = "32 word"

record failure =
  fl_Code :: string
  fl_ExitCode :: i32

definition failure_codes :: "string list" where
  "failure_codes =
     [''step_timed_out'', ''execution_canceled'', ''permission_denied'', ''file_not_found'', ''image_unavailable'',
      ''image_resolution_busy'', ''state_conflict'', ''resource_in_use'', ''scope_unauthorized'',
      ''dependency_unavailable'', ''execution_input_rejected'', ''internal_execution_error'', ''process_failed'',
      ''config_rejected'', ''compose_failed'', ''component_config_rejected'', ''component_activation_failed'',
      ''healthcheck_pgrep_missing'', ''healthcheck_curl_missing'', ''healthcheck_nc_missing'',
      ''healthcheck_command_missing'', ''healthcheck_command_not_executable'']"

definition failure_validate :: "failure option \<Rightarrow> unit res" where
  "failure_validate f =
     (case f of
        None \<Rightarrow> Inr ()
      | Some v \<Rightarrow> if fl_Code v \<notin> set failure_codes then Inl ValidationFailed else Inr ())"

definition failures_equal :: "failure option \<Rightarrow> failure option \<Rightarrow> bool" where
  "failures_equal l r \<longleftrightarrow>
     l = None \<and> r = None \<or> (case (l, r) of (Some a, Some b) \<Rightarrow> a = b | _ \<Rightarrow> False)"

text \<open>The wire message \<open>agentpb.StepFailure\<close> has the same two fields.\<close>

definition failure_from_agent :: "failure option \<Rightarrow> failure option res" where
  "failure_from_agent f =
     (case f of
        None \<Rightarrow> Inr None
      | Some v \<Rightarrow> try_res (failure_validate (Some v)) (\<lambda>_. Inr (Some v)))"

definition classify_cause :: "err option \<Rightarrow> i32 \<Rightarrow> string \<Rightarrow> string" where
  "classify_cause e exitCode code =
     (if e = Some ContextDeadline then ''step_timed_out''
      else if e = Some ContextCanceled then ''execution_canceled''
      else if e = Some FileDenied then ''permission_denied''
      else if e = Some FileMissing then ''file_not_found''
      else if exitCode \<noteq> 0 \<and> code = [] then ''process_failed''
      else if e = Some WorkloadImageResolutionUnavailable then ''image_unavailable''
      else if e = Some WorkloadImageResolutionBusy then ''image_resolution_busy''
      else if e = Some StateConflict then ''state_conflict''
      else if e = Some ResourceInUse then ''resource_in_use''
      else if e = Some ScopeUnauthorized then ''scope_unauthorized''
      else if e = Some StorageUnavailable \<or> e = Some RequestUnavailable then ''dependency_unavailable''
      else if e = Some ValidationFailed then ''execution_input_rejected''
      else if code = [] then ''internal_execution_error''
      else code)"

definition capture_failure :: "err option \<Rightarrow> i32 \<Rightarrow> string \<Rightarrow> failure option" where
  "capture_failure e exitCode code =
     (if e = None \<and> exitCode = 0 \<and> code = [] then None
      else Some \<lparr>fl_Code = (if code = [] \<or> code = ''compose_failed'' then classify_cause e exitCode code else code),
        fl_ExitCode = exitCode\<rparr>)"

datatype compose_diagnostic =
    DiagnosticUnspecified
  | DiagnosticNone
  | DiagnosticConfigRejected
  | DiagnosticComposeFailed
  | DiagnosticComponentConfigRejected
  | DiagnosticComponentActivationFailed
  | DiagnosticPgrepMissing
  | DiagnosticCurlMissing
  | DiagnosticNcMissing
  | DiagnosticCommandMissing
  | DiagnosticCommandNotExecutable
  | DiagnosticOther i32

fun helper_failure_code :: "compose_diagnostic \<Rightarrow> string" where
  "helper_failure_code DiagnosticConfigRejected = ''config_rejected''"
| "helper_failure_code DiagnosticComposeFailed = ''compose_failed''"
| "helper_failure_code DiagnosticComponentConfigRejected = ''component_config_rejected''"
| "helper_failure_code DiagnosticComponentActivationFailed = ''component_activation_failed''"
| "helper_failure_code DiagnosticPgrepMissing = ''healthcheck_pgrep_missing''"
| "helper_failure_code DiagnosticCurlMissing = ''healthcheck_curl_missing''"
| "helper_failure_code DiagnosticNcMissing = ''healthcheck_nc_missing''"
| "helper_failure_code DiagnosticCommandMissing = ''healthcheck_command_missing''"
| "helper_failure_code DiagnosticCommandNotExecutable = ''healthcheck_command_not_executable''"
| "helper_failure_code _ = []"

definition capture_step_failure :: "err option \<Rightarrow> i32 \<Rightarrow> compose_diagnostic \<Rightarrow> failure option" where
  "capture_step_failure e exitCode diagnostic = capture_failure e exitCode (helper_failure_code diagnostic)"

definition capture_controller_failure :: "err \<Rightarrow> failure option" where
  "capture_controller_failure e = capture_failure (Some e) 0 []"

section \<open>Manifests\<close>

type_synonym digest = string

definition digest_valid :: "digest \<Rightarrow> bool" where
  "digest_valid d \<longleftrightarrow>
     (if length d \<noteq> 71 \<or> \<not> has_prefix ''sha256:'' d then False else list_all is_lower_hex (drop 7 d))"

definition hash :: "string \<Rightarrow> digest" where
  "hash raw = ''sha256:'' @ sha256_text raw"

text \<open>
  \<open>ue_Named\<close> is \<open>reference.ParseNormalizedNamed\<close>: whether the reference carries a tag, and its digest; \<open>ue_Digest\<close> is
  \<open>digest.Parse\<close>: whether the algorithm is SHA-256 and whether \<open>Validate\<close> accepts it.
\<close>

record provenance =
  pv_Kind :: string
  pv_Commit :: string

definition build_provenance_validate :: "provenance \<Rightarrow> unit res" where
  "build_provenance_validate p =
     (if pv_Kind p = [] \<and> pv_Commit p = [] then Inr ()
      else if pv_Kind p \<noteq> ''source_ref'' \<and> pv_Kind p \<noteq> ''release'' \<or> length (pv_Commit p) \<noteq> 40
        then Inl ValidationFailed
      else if \<not> list_all is_lower_hex (pv_Commit p) then Inl ValidationFailed
      else Inr ())"

record manifest =
  mn_Schema :: int
  mn_ControllerSHA256 :: digest
  mn_ControllerVersion :: string
  mn_ControllerSource :: provenance
  mn_AgentImage :: string
  mn_StorageEpoch :: int
  mn_ChannelSchema :: int

record agent_predecessor =
  ag_ID :: string
  ag_Image :: string
  ag_Generation :: u64

datatype upgrade_phase =
    PhasePrepared | PhaseActivating | PhaseTrial | PhaseStarting | PhaseHealthy | PhaseRollingBack
  | PhaseStopping | PhaseRolledBack | PhaseRecovered | PhaseCancelled | PhaseOther string

record journal =
  jn_Schema :: int
  jn_TaskID :: string
  jn_Release :: digest
  jn_Manifest :: manifest
  jn_PreviousController :: digest
  jn_Agent :: "agent_predecessor option"
  jn_StartedAt :: gotime
  jn_Deadline :: gotime
  jn_Phase :: upgrade_phase
  jn_TrialBootID :: string
  jn_Failure :: "failure option"

record upgrade_env =
  ue_Ulid :: ulid_check
  ue_Named :: "string \<Rightarrow> (bool \<times> string option) option"
  ue_Digest :: "string \<Rightarrow> (bool \<times> bool) option"
  ue_ManifestJSON :: "manifest \<Rightarrow> string res"
  ue_ManifestDecode :: "string \<Rightarrow> manifest res"
  ue_JournalSize :: "journal \<Rightarrow> nat res"

abbreviation manifest_schema :: int where "manifest_schema \<equiv> 2"
abbreviation storage_epoch :: int where "storage_epoch \<equiv> 44"
abbreviation channel_schema_version :: int where "channel_schema_version \<equiv> 51"
abbreviation max_manifest_bytes :: nat where "max_manifest_bytes \<equiv> 4096"
abbreviation task_timeout_seconds :: int where "task_timeout_seconds \<equiv> 600"
abbreviation recovery_reserve_seconds :: int where "recovery_reserve_seconds \<equiv> 150"

definition is_digest_pinned :: "upgrade_env \<Rightarrow> string \<Rightarrow> bool" where
  "is_digest_pinned v s \<longleftrightarrow>
     (if s = [] \<or> \<not> trimmed s then False
      else case ue_Named v s of
             None \<Rightarrow> False
           | Some (tagged, digested) \<Rightarrow>
               if tagged then False
               else case digested of
                      None \<Rightarrow> False
                    | Some d \<Rightarrow> (case ue_Digest v d of None \<Rightarrow> False | Some (sha256, valid) \<Rightarrow> sha256 \<and> valid))"

definition valid_version :: "string \<Rightarrow> bool" where
  "valid_version s \<longleftrightarrow>
     (if length s = 0 \<or> length s > 128 then False
      else list_all (\<lambda>c. is_lower_letter c \<or> is_upper_letter c \<or> is_digit c \<or> c \<in> set ''._+/-'') s)"

definition manifest_validate_record :: "upgrade_env \<Rightarrow> manifest \<Rightarrow> unit res" where
  "manifest_validate_record v m =
     (if mn_Schema m \<noteq> manifest_schema \<or> mn_StorageEpoch m < 1 \<or> mn_ChannelSchema m < 1 then Inl ValidationFailed
      else if \<not> digest_valid (mn_ControllerSHA256 m) \<or> \<not> is_digest_pinned v (mn_AgentImage m) \<or>
          length (mn_AgentImage m) > 1024 \<or> \<not> valid_version (mn_ControllerVersion m) \<or>
          \<not> is_ok (build_provenance_validate (mn_ControllerSource m)) then Inl ValidationFailed
      else Inr ())"

definition manifest_validate :: "upgrade_env \<Rightarrow> manifest \<Rightarrow> unit res" where
  "manifest_validate v m =
     try_res (manifest_validate_record v m) (\<lambda>_.
       if mn_StorageEpoch m \<noteq> storage_epoch \<or> mn_ChannelSchema m \<noteq> channel_schema_version then Inl ValidationFailed
       else Inr ())"

definition parse_manifest :: "upgrade_env \<Rightarrow> string \<Rightarrow> digest \<Rightarrow> manifest res" where
  "parse_manifest v raw expected =
     (if length raw = 0 \<or> length raw > max_manifest_bytes \<or> \<not> digest_valid expected \<or> hash raw \<noteq> expected
      then Inl ValidationFailed
      else try_res (ue_ManifestDecode v raw) (\<lambda>m. try_res (manifest_validate v m) (\<lambda>_. Inr m)))"

record release_record =
  rr_Release :: digest
  rr_Manifest :: manifest

definition release_validate_record :: "upgrade_env \<Rightarrow> release_record \<Rightarrow> unit res" where
  "release_validate_record v r =
     try_res (ue_ManifestJSON v (rr_Manifest r)) (\<lambda>canonical.
       if length canonical > max_manifest_bytes \<or> \<not> digest_valid (rr_Release r) \<or> hash canonical \<noteq> rr_Release r
       then Inl ValidationFailed
       else manifest_validate_record v (rr_Manifest r))"

definition release_validate :: "upgrade_env \<Rightarrow> release_record \<Rightarrow> unit res" where
  "release_validate v r = try_res (release_validate_record v r) (\<lambda>_. manifest_validate v (rr_Manifest r))"

record build_metadata =
  bm_Schema :: int
  bm_ControllerSHA256 :: digest
  bm_ControllerVersion :: string
  bm_ControllerSource :: provenance
  bm_StorageEpoch :: int
  bm_ChannelSchema :: int

definition describe_build :: "digest \<Rightarrow> string \<Rightarrow> provenance \<Rightarrow> build_metadata res" where
  "describe_build binary version source =
     (if \<not> digest_valid binary \<or> \<not> valid_version version \<or> \<not> is_ok (build_provenance_validate source)
      then Inl ValidationFailed
      else Inr \<lparr>bm_Schema = manifest_schema, bm_ControllerSHA256 = binary, bm_ControllerVersion = version,
        bm_ControllerSource = source, bm_StorageEpoch = storage_epoch, bm_ChannelSchema = channel_schema_version\<rparr>)"

section \<open>Phases and journals\<close>

fun can_advance :: "upgrade_phase \<Rightarrow> upgrade_phase \<Rightarrow> bool" where
  "can_advance PhasePrepared q \<longleftrightarrow> q = PhaseActivating \<or> q = PhaseCancelled \<or> q = PhaseRollingBack"
| "can_advance PhaseActivating q \<longleftrightarrow> q = PhaseTrial \<or> q = PhaseRollingBack"
| "can_advance PhaseTrial q \<longleftrightarrow> q = PhaseStarting \<or> q = PhaseRollingBack"
| "can_advance PhaseStarting q \<longleftrightarrow> q = PhaseHealthy \<or> q = PhaseRollingBack"
| "can_advance PhaseRollingBack q \<longleftrightarrow> q = PhaseStopping \<or> q = PhaseRolledBack"
| "can_advance PhaseStopping q \<longleftrightarrow> q = PhaseRolledBack"
| "can_advance PhaseRolledBack q \<longleftrightarrow> q = PhaseRecovered"
| "can_advance _ q \<longleftrightarrow> False"

definition phase_settled :: "upgrade_phase \<Rightarrow> bool" where
  "phase_settled p \<longleftrightarrow> p = PhaseHealthy \<or> p = PhaseRecovered \<or> p = PhaseCancelled"

fun phase_valid :: "upgrade_phase \<Rightarrow> bool" where
  "phase_valid (PhaseOther s) \<longleftrightarrow> False"
| "phase_valid _ \<longleftrightarrow> True"

definition zone_offset :: "gotime \<Rightarrow> int" where
  "zone_offset t = (case loc t of UTC \<Rightarrow> 0 | Location off \<Rightarrow> off)"

definition candidate_deadline :: "journal \<Rightarrow> gotime" where
  "candidate_deadline j = add_duration (jn_Deadline j) (- recovery_reserve_seconds * second)"

definition valid_boot_id :: "string \<Rightarrow> bool" where
  "valid_boot_id s \<longleftrightarrow>
     (if length s \<noteq> 36 then False
      else list_all (\<lambda>(i, c). if i = 8 \<or> i = 13 \<or> i = 18 \<or> i = 23 then c = CHR ''-'' else is_lower_hex c)
             (enumerate 0 s))"

definition predecessor_valid :: "upgrade_env \<Rightarrow> agent_predecessor \<Rightarrow> bool" where
  "predecessor_valid v a \<longleftrightarrow>
     \<not> (\<not> id_valid (ue_Ulid v) KindAgent (ag_ID a) \<or> \<not> is_digest_pinned v (ag_Image a) \<or>
        length (ag_Image a) > 1024 \<or> ag_Generation a = 0 \<or> ag_Generation a > 18446744073709551615 - 4)"

definition journal_validate :: "upgrade_env \<Rightarrow> journal \<Rightarrow> unit res" where
  "journal_validate v j =
     (if jn_Schema j \<noteq> 2 \<or> \<not> id_valid (ue_Ulid v) KindTask (jn_TaskID j) \<or> \<not> digest_valid (jn_Release j) \<or>
         \<not> digest_valid (jn_PreviousController j) \<or> \<not> phase_valid (jn_Phase j) \<or> is_zero (jn_StartedAt j) \<or>
         zone_offset (jn_StartedAt j) \<noteq> 0 \<or> zone_offset (jn_Deadline j) \<noteq> 0 \<or>
         \<not> after (jn_Deadline j) (jn_StartedAt j) \<or>
         sub_time (jn_Deadline j) (jn_StartedAt j) > task_timeout_seconds * second
      then Inl ValidationFailed
      else
        try_res (manifest_validate v (jn_Manifest j)) (\<lambda>_.
        try_res (failure_validate (jn_Failure j)) (\<lambda>_.
        if (case jn_Failure j of
              None \<Rightarrow> False
            | Some f \<Rightarrow> fl_ExitCode f \<noteq> 0 \<or> jn_Phase j \<noteq> PhaseRollingBack \<and> jn_Phase j \<noteq> PhaseStopping \<and>
                jn_Phase j \<noteq> PhaseRolledBack \<and> jn_Phase j \<noteq> PhaseRecovered) then Inl ValidationFailed
        else if jn_TrialBootID j \<noteq> [] \<and> \<not> valid_boot_id (jn_TrialBootID j) \<or>
            (jn_Phase j = PhaseTrial \<or> jn_Phase j = PhaseStarting \<or> jn_Phase j = PhaseHealthy) \<and>
              \<not> valid_boot_id (jn_TrialBootID j) then Inl ValidationFailed
        else case jn_Agent j of
               None \<Rightarrow> Inr ()
             | Some a \<Rightarrow> if \<not> predecessor_valid v a then Inl ValidationFailed else Inr ())))"

definition same_operation :: "journal \<Rightarrow> journal \<Rightarrow> bool" where
  "same_operation j k \<longleftrightarrow>
     (if jn_Schema j \<noteq> jn_Schema k \<or> jn_TaskID j \<noteq> jn_TaskID k \<or> jn_Release j \<noteq> jn_Release k \<or>
         jn_Manifest j \<noteq> jn_Manifest k \<or> jn_PreviousController j \<noteq> jn_PreviousController k \<or>
         instant (jn_StartedAt j) \<noteq> instant (jn_StartedAt k) \<or> instant (jn_Deadline j) \<noteq> instant (jn_Deadline k)
      then False
      else if jn_Agent j = None \<or> jn_Agent k = None then jn_Agent j = None \<and> jn_Agent k = None
      else jn_Agent j = jn_Agent k)"

section \<open>Task input and execution result\<close>

record upgrade_input =
  ui_Release :: digest
  ui_Manifest :: manifest
  ui_PreviousController :: digest
  ui_Agent :: "agent_predecessor option"

definition upgrade_input_validate_record :: "upgrade_env \<Rightarrow> upgrade_input \<Rightarrow> unit res" where
  "upgrade_input_validate_record v i =
     (if \<not> digest_valid (ui_Release i) \<or> \<not> digest_valid (ui_PreviousController i) \<or>
         mn_ControllerSHA256 (ui_Manifest i) = ui_PreviousController i then Inl ValidationFailed
      else
        try_res (release_validate_record v \<lparr>rr_Release = ui_Release i, rr_Manifest = ui_Manifest i\<rparr>) (\<lambda>_.
        case ui_Agent i of
          None \<Rightarrow> Inr ()
        | Some a \<Rightarrow> if \<not> predecessor_valid v a then Inl ValidationFailed else Inr ()))"

definition upgrade_input_validate :: "upgrade_env \<Rightarrow> upgrade_input \<Rightarrow> unit res" where
  "upgrade_input_validate v i =
     try_res (upgrade_input_validate_record v i) (\<lambda>_. manifest_validate v (ui_Manifest i))"

record execution_result =
  xr_Outcome :: outcome
  xr_Settled :: bool
  xr_Journal :: "journal option"
  xr_Failure :: "failure option"

definition execution_result_validate :: "upgrade_env \<Rightarrow> execution_result \<Rightarrow> journal \<Rightarrow> unit res" where
  "execution_result_validate v r expected =
     try_res (journal_validate v expected) (\<lambda>_.
       if xr_Failure r = None \<and> xr_Outcome r \<noteq> Succeeded \<or> xr_Failure r \<noteq> None \<and> xr_Outcome r = Succeeded
       then Inl ValidationFailed
       else
         try_res (failure_validate (xr_Failure r)) (\<lambda>_.
         if xr_Outcome r \<noteq> Succeeded \<and> xr_Outcome r \<noteq> Failed \<and> xr_Outcome r \<noteq> Cancelled then Inl ValidationFailed
         else case xr_Journal r of
                None \<Rightarrow> if xr_Outcome r = Succeeded then Inl ValidationFailed else Inr ()
              | Some j \<Rightarrow>
                  try_res (journal_validate v j) (\<lambda>_.
                  if \<not> same_operation j expected \<or> xr_Settled r \<and> \<not> phase_settled (jn_Phase j) \<or>
                      \<not> xr_Settled r \<and> xr_Outcome r = Succeeded then Inl ValidationFailed
                  else if xr_Outcome r = Succeeded \<and> jn_Phase j \<noteq> PhaseHealthy then Inl ValidationFailed
                  else Inr ())))"

end
