(* ===== verification/UpgradeStore.thy ===== *)
theory UpgradeStore
  imports UpgradeModel
begin

text \<open>
  The private store of Controller releases (\<open>internal/infra/controllerrelease\<close>): the journal of the upgrade in
  progress, the installed, previous and recovery executables, the selected release, and the staged releases.

  Every change of the store is one atomic replacement of a file (\<open>atomicWrite\<close>: a temporary file, synced and renamed),
  and the operations run under one lock. An operation is a function from the disk to the disks that stand after each of
  its writes, the disk at its end, and its result. A process that dies, or a write that fails, leaves one of the disks
  visited so far. A JSON file is represented by the value that \<open>jcs.Decode\<close> returns for it.
\<close>

section \<open>Disk\<close>

text \<open>
  A file is missing, not a regular file (nothing can be written over it), a regular file that cannot be used (its
  ownership, mode, size or content), each with the error of reading it, or holds a value.
\<close>

datatype 'a stored = Missing | NotRegular err | Unsafe err | Stored 'a

record staged =
  sr_Manifest :: "string stored"
  sr_Controller :: "string stored"

record disk =
  dk_Journal :: "journal stored"
  dk_Selected :: "release_record stored"
  dk_Candidate :: "digest stored"
  dk_Controller :: "string stored"
  dk_Previous :: "string stored"
  dk_Recovery :: "string stored"
  dk_Releases :: "string \<Rightarrow> staged stored"

text \<open>What the process knows besides the disk: the boot id of the kernel and whether the binary directory was opened.\<close>

record upgrade_store =
  us_BootID :: string
  us_Native :: bool

type_synonym 'a op = "disk \<Rightarrow> disk list \<times> disk \<times> 'a res"

definition visited :: "disk list \<times> disk \<times> 'a res \<Rightarrow> disk list" where
  "visited r = fst r"

definition final_disk :: "disk list \<times> disk \<times> 'a res \<Rightarrow> disk" where
  "final_disk r = fst (snd r)"

definition outcome_of :: "disk list \<times> disk \<times> 'a res \<Rightarrow> 'a res" where
  "outcome_of r = snd (snd r)"

definition reading :: "(disk \<Rightarrow> 'a res) \<Rightarrow> 'a op" where
  "reading f d = ([], d, f d)"

definition give :: "'a res \<Rightarrow> 'a op" where
  "give r d = ([], d, r)"

definition then_op :: "'a op \<Rightarrow> ('a \<Rightarrow> 'b op) \<Rightarrow> 'b op" where
  "then_op m k d =
     (case m d of (ds, d', r) \<Rightarrow>
        (case r of
           Inl e \<Rightarrow> (ds, d', Inl e)
         | Inr a \<Rightarrow> (case k a d' of (es, d'', s) \<Rightarrow> (ds @ es, d'', s))))"

section \<open>Files\<close>

abbreviation maximum_journal_bytes :: nat where "maximum_journal_bytes \<equiv> 16384"
abbreviation maximum_binary_bytes :: nat where "maximum_binary_bytes \<equiv> 268435456"

fun read_stored :: "'a stored \<Rightarrow> 'a res" where
  "read_stored Missing = Inl FileMissing"
| "read_stored (NotRegular e) = Inl e"
| "read_stored (Unsafe e) = Inl e"
| "read_stored (Stored x) = Inr x"

definition open_regular :: "string stored \<Rightarrow> nat \<Rightarrow> string res" where
  "open_regular f maximum =
     try_res (read_stored f) (\<lambda>c. if length c = 0 \<or> length c > maximum then Inl ValidationFailed else Inr c)"

text \<open>The bytes that \<open>copyDigest\<close> reads are bounded and not empty.\<close>

definition copy_digest :: "string \<Rightarrow> digest res" where
  "copy_digest c =
     (if length c > maximum_binary_bytes then Inl ValidationFailed
      else if length c = 0 then Inl ValidationFailed
      else Inr (hash c))"

definition verify_copy :: "string \<Rightarrow> digest \<Rightarrow> unit res" where
  "verify_copy c expected =
     (if \<not> digest_valid expected then Inl ValidationFailed
      else try_res (copy_digest c) (\<lambda>actual. if actual \<noteq> expected then Inl ValidationFailed else Inr ()))"

definition atomic_write :: "(disk \<Rightarrow> 'a stored) \<Rightarrow> unit res \<Rightarrow> (disk \<Rightarrow> disk) \<Rightarrow> unit op" where
  "atomic_write file write publish d =
     (case file d of
        NotRegular e \<Rightarrow> ([], d, Inl ValidationFailed)
      | _ \<Rightarrow> (case write of Inl e \<Rightarrow> ([], d, Inl e) | Inr _ \<Rightarrow> ([publish d], publish d, Inr ())))"

definition copy_executable ::
  "(disk \<Rightarrow> string stored) \<Rightarrow> (disk \<Rightarrow> string stored) \<Rightarrow> (string \<Rightarrow> disk \<Rightarrow> disk) \<Rightarrow> digest \<Rightarrow> unit op" where
  "copy_executable source target publish expected =
     then_op (reading (\<lambda>d. open_regular (source d) maximum_binary_bytes)) (\<lambda>c.
       atomic_write target (verify_copy c expected) (publish c))"

definition set_controller :: "string \<Rightarrow> disk \<Rightarrow> disk" where
  "set_controller c d = d\<lparr>dk_Controller := Stored c\<rparr>"

definition set_previous :: "string \<Rightarrow> disk \<Rightarrow> disk" where
  "set_previous c d = d\<lparr>dk_Previous := Stored c\<rparr>"

definition set_recovery :: "string \<Rightarrow> disk \<Rightarrow> disk" where
  "set_recovery c d = d\<lparr>dk_Recovery := Stored c\<rparr>"

definition installed :: "upgrade_store \<Rightarrow> disk \<Rightarrow> digest res" where
  "installed s d =
     (if \<not> us_Native s then Inl StateConflict
      else try_res (open_regular (dk_Controller d) maximum_binary_bytes) copy_digest)"

definition release_directory :: "disk \<Rightarrow> digest \<Rightarrow> staged res" where
  "release_directory d i =
     (if \<not> digest_valid i then Inl ValidationFailed
      else case dk_Releases d (drop 7 i) of
             Missing \<Rightarrow> Inl ValidationFailed
           | f \<Rightarrow> read_stored f)"

definition inspect :: "upgrade_env \<Rightarrow> disk \<Rightarrow> digest \<Rightarrow> manifest res" where
  "inspect v d i =
     try_res (release_directory d i) (\<lambda>root.
     try_res (open_regular (sr_Manifest root) max_manifest_bytes) (\<lambda>raw.
     try_res (parse_manifest v raw i) (\<lambda>m.
     try_res (open_regular (sr_Controller root) maximum_binary_bytes) (\<lambda>c.
     try_res (verify_copy c (mn_ControllerSHA256 m)) (\<lambda>_. Inr m)))))"

section \<open>Journal\<close>

definition current :: "upgrade_env \<Rightarrow> disk \<Rightarrow> journal option res" where
  "current v d =
     (case read_stored (dk_Journal d) of
        Inl e \<Rightarrow> if e = FileMissing then Inr None else Inl e
      | Inr j \<Rightarrow> try_res (journal_validate v j) (\<lambda>_. Inr (Some j)))"

definition set_journal :: "journal \<Rightarrow> disk \<Rightarrow> disk" where
  "set_journal j d = d\<lparr>dk_Journal := Stored j\<rparr>"

definition write_journal :: "upgrade_env \<Rightarrow> journal \<Rightarrow> unit op" where
  "write_journal v j =
     then_op (give (journal_validate v j)) (\<lambda>_.
     then_op (give (ue_JournalSize v j)) (\<lambda>n.
     if n > maximum_journal_bytes then give (Inl ValidationFailed)
     else atomic_write dk_Journal (Inr ()) (set_journal j)))"

definition advance_with ::
  "upgrade_env \<Rightarrow> string \<Rightarrow> upgrade_phase \<Rightarrow> upgrade_phase \<Rightarrow> failure option \<Rightarrow> journal op" where
  "advance_with v taskID p q f =
     then_op (reading (current v)) (\<lambda>c.
       case c of
         None \<Rightarrow> give (Inl StateConflict)
       | Some j \<Rightarrow>
           if jn_TaskID j \<noteq> taskID \<or> \<not> can_advance p q then give (Inl StateConflict)
           else if jn_Phase j = q then give (Inr j)
           else if jn_Phase j \<noteq> p then give (Inl StateConflict)
           else
             let j' = (if q = PhaseRollingBack then j\<lparr>jn_Phase := q, jn_Failure := f\<rparr> else j\<lparr>jn_Phase := q\<rparr>) in
             then_op (write_journal v j') (\<lambda>_. give (Inr j')))"

definition advance :: "upgrade_env \<Rightarrow> string \<Rightarrow> upgrade_phase \<Rightarrow> upgrade_phase \<Rightarrow> journal op" where
  "advance v taskID p q =
     (if q = PhaseRollingBack then give (Inl StateConflict) else advance_with v taskID p q None)"

definition begin_rollback :: "upgrade_env \<Rightarrow> string \<Rightarrow> upgrade_phase \<Rightarrow> failure option \<Rightarrow> journal op" where
  "begin_rollback v taskID p f = advance_with v taskID p PhaseRollingBack f"

section \<open>Selection\<close>

definition qualified_release :: "journal \<Rightarrow> release_record" where
  "qualified_release j = \<lparr>rr_Release = jn_Release j, rr_Manifest = jn_Manifest j\<rparr>"

definition set_selected :: "release_record \<Rightarrow> disk \<Rightarrow> disk" where
  "set_selected r d = d\<lparr>dk_Selected := Stored r\<rparr>"

definition retain_selection :: "upgrade_env \<Rightarrow> journal \<Rightarrow> unit op" where
  "retain_selection v j =
     (if jn_Phase j \<noteq> PhaseHealthy then give (Inr ())
      else
        then_op (give (release_validate v (qualified_release j))) (\<lambda>_.
        atomic_write dk_Selected (Inr ()) (set_selected (qualified_release j))))"

definition selected :: "upgrade_env \<Rightarrow> disk \<Rightarrow> release_record option res" where
  "selected v d =
     try_res (current v d) (\<lambda>c.
       let stored =
         (case read_stored (dk_Selected d) of
            Inl e \<Rightarrow> if e = FileMissing then Inr None else Inl e
          | Inr r \<Rightarrow> try_res (release_validate v r) (\<lambda>_. Inr (Some r)))
       in case c of
            None \<Rightarrow> stored
          | Some j \<Rightarrow>
              if \<not> phase_settled (jn_Phase j) then Inl ResourceInUse
              else if jn_Phase j = PhaseHealthy
                then try_res (release_validate v (qualified_release j)) (\<lambda>_. Inr (Some (qualified_release j)))
              else stored)"

definition candidate :: "upgrade_env \<Rightarrow> disk \<Rightarrow> release_record option res" where
  "candidate v d =
     (case read_stored (dk_Candidate d) of
        Inl e \<Rightarrow> if e = FileMissing then Inr None else Inl e
      | Inr i \<Rightarrow> try_res (inspect v d i) (\<lambda>m. Inr (Some \<lparr>rr_Release = i, rr_Manifest = m\<rparr>)))"

section \<open>Activation and recovery\<close>

definition prepare :: "upgrade_env \<Rightarrow> upgrade_store \<Rightarrow> journal \<Rightarrow> unit op" where
  "prepare v s j =
     then_op (give (journal_validate v j)) (\<lambda>_.
     if jn_Phase j \<noteq> PhasePrepared \<or> \<not> us_Native s then give (Inl StateConflict)
     else
       then_op (reading (current v)) (\<lambda>c.
       case c of
         Some k \<Rightarrow>
           if jn_TaskID k = jn_TaskID j then
             (if \<not> same_operation k j then give (Inl StateConflict) else give (Inr ()))
           else if \<not> phase_settled (jn_Phase k) then give (Inl ResourceInUse)
           else
             then_op (reading (\<lambda>d. inspect v d (jn_Release j))) (\<lambda>m.
             if m \<noteq> jn_Manifest j then give (Inl StateConflict)
             else
               then_op (copy_executable dk_Controller dk_Previous set_previous (jn_PreviousController j)) (\<lambda>_.
               then_op (copy_executable dk_Controller dk_Recovery set_recovery (jn_PreviousController j)) (\<lambda>_.
               then_op (retain_selection v k) (\<lambda>_. write_journal v j))))
       | None \<Rightarrow>
           then_op (reading (\<lambda>d. inspect v d (jn_Release j))) (\<lambda>m.
           if m \<noteq> jn_Manifest j then give (Inl StateConflict)
           else
             then_op (copy_executable dk_Controller dk_Previous set_previous (jn_PreviousController j)) (\<lambda>_.
             then_op (copy_executable dk_Controller dk_Recovery set_recovery (jn_PreviousController j)) (\<lambda>_.
             write_journal v j)))))"

definition activate :: "upgrade_env \<Rightarrow> upgrade_store \<Rightarrow> string \<Rightarrow> unit op" where
  "activate v s taskID =
     then_op (reading (current v)) (\<lambda>c.
       case c of
         None \<Rightarrow> give (Inl StateConflict)
       | Some j \<Rightarrow>
           if jn_TaskID j \<noteq> taskID \<or> jn_Phase j \<noteq> PhaseActivating \<and> jn_Phase j \<noteq> PhaseTrial
           then give (Inl StateConflict)
           else
             then_op (reading (installed s)) (\<lambda>now.
             if jn_Phase j = PhaseTrial \<and> now = mn_ControllerSHA256 (jn_Manifest j) then give (Inr ())
             else if now \<noteq> jn_PreviousController j then give (Inl StateConflict)
             else
               then_op (reading (\<lambda>d. inspect v d (jn_Release j))) (\<lambda>m.
               if m \<noteq> jn_Manifest j then give (Inl StateConflict)
               else
                 then_op (reading (\<lambda>d. release_directory d (jn_Release j))) (\<lambda>root.
                 then_op (write_journal v (j\<lparr>jn_Phase := PhaseTrial, jn_TrialBootID := us_BootID s\<rparr>)) (\<lambda>_.
                 copy_executable (\<lambda>_. sr_Controller root) dk_Controller set_controller (mn_ControllerSHA256 m))))))"

definition rollback_locked :: "upgrade_env \<Rightarrow> journal \<Rightarrow> unit op" where
  "rollback_locked v j =
     (if phase_settled (jn_Phase j) then give (Inl StateConflict)
      else
        let restore = (\<lambda>k.
          then_op (copy_executable dk_Previous dk_Controller set_controller (jn_PreviousController k)) (\<lambda>_.
          write_journal v (k\<lparr>jn_Phase := PhaseRolledBack\<rparr>)))
        in
        if jn_Phase j \<noteq> PhaseRollingBack \<and> jn_Phase j \<noteq> PhaseStopping \<and> jn_Phase j \<noteq> PhaseRolledBack then
          (if \<not> can_advance (jn_Phase j) PhaseRollingBack then give (Inl StateConflict)
           else
             let k = j\<lparr>jn_Phase := PhaseRollingBack\<rparr> in
             then_op (write_journal v k) (\<lambda>_. restore k))
        else restore j)"

definition rollback :: "upgrade_env \<Rightarrow> string \<Rightarrow> unit op" where
  "rollback v taskID =
     then_op (reading (current v)) (\<lambda>c.
       case c of
         None \<Rightarrow> give (Inl StateConflict)
       | Some j \<Rightarrow> if jn_TaskID j \<noteq> taskID then give (Inl StateConflict) else rollback_locked v j)"

definition guard :: "upgrade_env \<Rightarrow> upgrade_store \<Rightarrow> gotime \<Rightarrow> unit op" where
  "guard v s now =
     then_op (reading (current v)) (\<lambda>c.
       case c of
         None \<Rightarrow> give (Inr ())
       | Some j \<Rightarrow>
           then_op (reading (installed s)) (\<lambda>i.
           case jn_Phase j of
             PhaseStopping \<Rightarrow> copy_executable dk_Previous dk_Controller set_controller (jn_PreviousController j)
           | PhaseHealthy \<Rightarrow>
               if i \<noteq> mn_ControllerSHA256 (jn_Manifest j) then give (Inl StateConflict) else give (Inr ())
           | PhasePrepared \<Rightarrow> if i \<noteq> jn_PreviousController j then give (Inl StateConflict) else give (Inr ())
           | PhaseCancelled \<Rightarrow> if i \<noteq> jn_PreviousController j then give (Inl StateConflict) else give (Inr ())
           | PhaseRolledBack \<Rightarrow> if i \<noteq> jn_PreviousController j then give (Inl StateConflict) else give (Inr ())
           | PhaseRecovered \<Rightarrow> if i \<noteq> jn_PreviousController j then give (Inl StateConflict) else give (Inr ())
           | PhaseTrial \<Rightarrow>
               if i = mn_ControllerSHA256 (jn_Manifest j) \<and> before now (candidate_deadline j) \<and>
                   jn_TrialBootID j = us_BootID s
               then write_journal v (j\<lparr>jn_Phase := PhaseStarting\<rparr>)
               else rollback_locked v j
           | _ \<Rightarrow> rollback_locked v j))"

section \<open>Staging\<close>

text \<open>
  \<open>ue_BuildDecode\<close> is \<open>jcs.Canonicalize\<close> followed by \<open>jcs.Decode\<close> of the metadata. The staging directory is private and
  unpublished until its rename, so publishing a release is one visible change.
\<close>

definition set_release :: "string \<Rightarrow> staged \<Rightarrow> disk \<Rightarrow> disk" where
  "set_release leaf root d = d\<lparr>dk_Releases := (dk_Releases d)(leaf := Stored root)\<rparr>"

definition publish_stage :: "upgrade_env \<Rightarrow> release_record \<Rightarrow> string \<Rightarrow> string \<Rightarrow> unit op" where
  "publish_stage v r raw binary d =
     (let leaf = drop 7 (rr_Release r) in
      if dk_Releases d leaf \<noteq> Missing then
        (if inspect v d (rr_Release r) \<noteq> Inr (rr_Manifest r) then give (Inl ValidationFailed) d
         else if copy_digest binary \<noteq> Inr (mn_ControllerSHA256 (rr_Manifest r)) then give (Inl ValidationFailed) d
         else give (Inr ()) d)
      else if copy_digest binary \<noteq> Inr (mn_ControllerSHA256 (rr_Manifest r)) then give (Inl ValidationFailed) d
      else
        (let d' = set_release leaf \<lparr>sr_Manifest = Stored raw, sr_Controller = Stored binary\<rparr> d in
         ([d'], d', Inr ())))"

definition set_candidate :: "digest \<Rightarrow> disk \<Rightarrow> disk" where
  "set_candidate i d = d\<lparr>dk_Candidate := Stored i\<rparr>"

definition stage_release ::
  "upgrade_env \<Rightarrow> (string \<Rightarrow> build_metadata res) \<Rightarrow> string \<Rightarrow> string option \<Rightarrow> string \<Rightarrow> release_record op" where
  "stage_release v decode metadata binary agentImage =
     (if length metadata = 0 \<or> length metadata > max_manifest_bytes \<or> binary = None
      then give (Inl ValidationFailed)
      else
        then_op (give (decode metadata)) (\<lambda>build.
        let m = \<lparr>mn_Schema = bm_Schema build, mn_ControllerSHA256 = bm_ControllerSHA256 build,
              mn_ControllerVersion = bm_ControllerVersion build, mn_ControllerSource = bm_ControllerSource build,
              mn_AgentImage = agentImage, mn_StorageEpoch = bm_StorageEpoch build,
              mn_ChannelSchema = bm_ChannelSchema build\<rparr>
        in
        then_op (give (manifest_validate v m)) (\<lambda>_.
        then_op (give (ue_ManifestJSON v m)) (\<lambda>raw.
        let r = \<lparr>rr_Release = hash raw, rr_Manifest = m\<rparr> in
        then_op (publish_stage v r raw (the binary)) (\<lambda>_.
        then_op (atomic_write dk_Candidate (Inr ()) (set_candidate (rr_Release r))) (\<lambda>_.
        give (Inr r)))))))"

end
