(* ===== verification/UpgradeControl.thy ===== *)
theory UpgradeControl
  imports UpgradeStore
begin

text \<open>
  The processes that drive an upgrade (\<open>internal/controller/controllerupgrade\<close>): the coordinator in the Controller, the
  watchdog of the predecessor that stops and starts the Controller service, and the gate that pauses mutations while an
  upgrade is open. They run concurrently, so the watchdog is a machine that makes at most one call of the store or of
  the service manager per step, and \<open>upgrade_call\<close> lists the calls of the store that the processes make.
\<close>

section \<open>Watchdog\<close>

datatype watchdog_pc =
    WatchInit
  | WatchLoop
  | WatchStopCandidate
  | WatchActivate
  | WatchStartCandidate
  | WatchRequest err
  | WatchBegin err upgrade_phase
  | WatchClaim
  | WatchStop
  | WatchRestore
  | WatchStart
  | WatchDone "unit res"

record watchdog =
  wd_PC :: watchdog_pc
  wd_Started :: bool

text \<open>
  One step sees the clock, \<open>ctx.Err()\<close> and the answer of the service manager to a stop or a start.
\<close>

record watch_input =
  wi_Now :: gotime
  wi_Context :: "err option"
  wi_Unit :: "unit res"

definition watchdog_current :: "upgrade_env \<Rightarrow> string \<Rightarrow> disk \<Rightarrow> (journal \<times> bool) res" where
  "watchdog_current v taskID d =
     try_res (current v d) (\<lambda>c.
       case c of
         None \<Rightarrow> Inl StateConflict
       | Some j \<Rightarrow> try_res (journal_validate v j) (\<lambda>_. Inr (j, jn_TaskID j = taskID)))"

definition watchdog_loop :: "upgrade_env \<Rightarrow> string \<Rightarrow> watch_input \<Rightarrow> bool \<Rightarrow> disk \<Rightarrow> watchdog_pc" where
  "watchdog_loop v taskID i started d =
     (case wi_Context i of
        Some e \<Rightarrow> WatchDone (Inl e)
      | None \<Rightarrow>
          (case watchdog_current v taskID d of
             Inl e \<Rightarrow> WatchDone (Inl e)
           | Inr (j, mine) \<Rightarrow>
               if \<not> mine then WatchDone (Inr ())
               else if phase_settled (jn_Phase j) then WatchDone (Inr ())
               else
                 case jn_Phase j of
                   PhaseActivating \<Rightarrow>
                     if \<not> before (wi_Now i) (candidate_deadline j) then WatchRequest ContextDeadline
                     else WatchStopCandidate
                 | PhaseTrial \<Rightarrow>
                     if \<not> before (wi_Now i) (candidate_deadline j) then WatchRequest ContextDeadline
                     else WatchStartCandidate
                 | PhaseStarting \<Rightarrow>
                     if \<not> before (wi_Now i) (candidate_deadline j) then WatchRequest ContextDeadline else WatchLoop
                 | PhaseRollingBack \<Rightarrow> WatchClaim
                 | PhaseStopping \<Rightarrow> WatchStop
                 | PhaseRolledBack \<Rightarrow> if \<not> started then WatchStart else WatchLoop
                 | _ \<Rightarrow> WatchDone (Inl StateConflict)))"

text \<open>\<open>requestRollback\<close> reads the journal and then asks for the rollback from the phase that it read.\<close>

definition watchdog_request :: "upgrade_env \<Rightarrow> string \<Rightarrow> err \<Rightarrow> disk \<Rightarrow> watchdog_pc" where
  "watchdog_request v taskID cause d =
     (case watchdog_current v taskID d of
        Inl e \<Rightarrow> WatchDone (Inl e)
      | Inr (j, mine) \<Rightarrow>
          if \<not> mine then WatchLoop
          else if phase_settled (jn_Phase j) \<or> jn_Phase j = PhaseRollingBack \<or> jn_Phase j = PhaseStopping \<or>
            jn_Phase j = PhaseRolledBack then WatchLoop
          else WatchBegin cause (jn_Phase j))"

definition activation_failed :: "watch_input \<Rightarrow> err \<Rightarrow> watchdog_pc" where
  "activation_failed i e = (case wi_Context i of Some c \<Rightarrow> WatchDone (Inl c) | None \<Rightarrow> WatchRequest e)"

definition stay :: "disk \<Rightarrow> watchdog_pc \<Rightarrow> bool \<Rightarrow> disk list \<times> disk \<times> watchdog" where
  "stay d pc started = ([], d, \<lparr>wd_PC = pc, wd_Started = started\<rparr>)"

text \<open>A call of the store, followed by the next place for success and for an error.\<close>

definition call_store ::
  "'a op \<Rightarrow> disk \<Rightarrow> watchdog_pc \<Rightarrow> (err \<Rightarrow> watchdog_pc) \<Rightarrow> bool \<Rightarrow> disk list \<times> disk \<times> watchdog" where
  "call_store m d ok failed started =
     (case m d of (ds, d', r) \<Rightarrow>
        (ds, d', \<lparr>wd_PC = (case r of Inr _ \<Rightarrow> ok | Inl e \<Rightarrow> failed e), wd_Started = started\<rparr>))"

definition call_unit :: "unit res \<Rightarrow> watchdog_pc \<Rightarrow> (err \<Rightarrow> watchdog_pc) \<Rightarrow> watchdog_pc" where
  "call_unit r ok failed = (case r of Inr _ \<Rightarrow> ok | Inl e \<Rightarrow> failed e)"

definition tolerate_conflict :: "err \<Rightarrow> watchdog_pc" where
  "tolerate_conflict e = (if e = StateConflict then WatchLoop else WatchDone (Inl e))"

definition watchdog_step ::
  "upgrade_env \<Rightarrow> upgrade_store \<Rightarrow> string \<Rightarrow> watch_input \<Rightarrow> watchdog \<Rightarrow> disk \<Rightarrow> disk list \<times> disk \<times> watchdog" where
  "watchdog_step v s taskID i w d =
     (let started = wd_Started w in
      case wd_PC w of
        WatchInit \<Rightarrow>
          stay d
            (if \<not> id_valid (ue_Ulid v) KindTask taskID then WatchDone (Inl ValidationFailed)
             else case watchdog_current v taskID d of
                    Inl e \<Rightarrow> WatchDone (Inl e)
                  | Inr (_, mine) \<Rightarrow> if \<not> mine then WatchDone (Inr ()) else WatchLoop) started
      | WatchLoop \<Rightarrow> stay d (watchdog_loop v taskID i started d) started
      | WatchStopCandidate \<Rightarrow> stay d (call_unit (wi_Unit i) WatchActivate (activation_failed i)) started
      | WatchActivate \<Rightarrow> call_store (activate v s taskID) d WatchStartCandidate (activation_failed i) started
      | WatchStartCandidate \<Rightarrow> stay d (call_unit (wi_Unit i) WatchLoop (activation_failed i)) started
      | WatchRequest cause \<Rightarrow> stay d (watchdog_request v taskID cause d) started
      | WatchBegin cause p \<Rightarrow>
          call_store (begin_rollback v taskID p (capture_controller_failure cause)) d WatchLoop tolerate_conflict
            started
      | WatchClaim \<Rightarrow>
          call_store (advance v taskID PhaseRollingBack PhaseStopping) d WatchLoop tolerate_conflict started
      | WatchStop \<Rightarrow> stay d (call_unit (wi_Unit i) WatchRestore (\<lambda>e. WatchDone (Inl e))) started
      | WatchRestore \<Rightarrow> call_store (rollback v taskID) d WatchStart (\<lambda>e. WatchDone (Inl e)) started
      | WatchStart \<Rightarrow>
          (case wi_Unit i of
             Inl e \<Rightarrow> stay d (WatchDone (Inl e)) started
           | Inr _ \<Rightarrow> stay d WatchLoop True)
      | WatchDone r \<Rightarrow> stay d (WatchDone r) started)"

section \<open>Coordinator\<close>

definition coordinator_current :: "upgrade_env \<Rightarrow> journal \<Rightarrow> disk \<Rightarrow> journal option res" where
  "coordinator_current v expected d =
     try_res (current v d) (\<lambda>c.
       case c of
         None \<Rightarrow> Inr None
       | Some j \<Rightarrow>
           try_res (journal_validate v j) (\<lambda>_.
           if jn_TaskID j \<noteq> jn_TaskID expected then
             (if phase_settled (jn_Phase j) then Inr None else Inl StateConflict)
           else if \<not> same_operation j expected then Inl StateConflict
           else Inr (Some j)))"

text \<open>What \<open>execute\<close> does with the journal that it finds.\<close>

datatype coordinator_action =
    CoordinatorPrepare
  | CoordinatorInterrupted "upgrade_phase option"
  | CoordinatorHandoff
  | CoordinatorQualify
  | CoordinatorConfirmHealthy
  | CoordinatorRecover upgrade_phase
  | CoordinatorSettle outcome

definition coordinator_execute :: "upgrade_env \<Rightarrow> journal \<Rightarrow> bool \<Rightarrow> disk \<Rightarrow> coordinator_action res" where
  "coordinator_execute v expected forward d =
     try_res (coordinator_current v expected d) (\<lambda>c.
       if \<not> forward \<and> c = None \<or> (case c of None \<Rightarrow> False | Some j \<Rightarrow> jn_Phase j = PhasePrepared)
       then Inr (CoordinatorInterrupted (map_option jn_Phase c))
       else
         case c of
           None \<Rightarrow> Inr CoordinatorPrepare
         | Some j \<Rightarrow>
             (case jn_Phase j of
                PhaseActivating \<Rightarrow> Inr CoordinatorHandoff
              | PhaseTrial \<Rightarrow> Inr CoordinatorHandoff
              | PhaseRollingBack \<Rightarrow> Inr CoordinatorHandoff
              | PhaseStopping \<Rightarrow> Inr CoordinatorHandoff
              | PhaseStarting \<Rightarrow> Inr CoordinatorQualify
              | PhaseHealthy \<Rightarrow> Inr CoordinatorConfirmHealthy
              | PhaseRolledBack \<Rightarrow> Inr (CoordinatorRecover PhaseRolledBack)
              | PhaseRecovered \<Rightarrow> Inr (CoordinatorRecover PhaseRecovered)
              | PhaseCancelled \<Rightarrow> Inr (CoordinatorSettle Cancelled)
              | _ \<Rightarrow> Inl InternalError))"

text \<open>The end of \<open>prepare\<close>: what follows a successful preparation.\<close>

definition commit_prepared :: "upgrade_env \<Rightarrow> journal \<Rightarrow> bool \<Rightarrow> gotime \<Rightarrow> journal op" where
  "commit_prepared v expected aborted now =
     (let p = (if aborted then PhaseCancelled
               else if \<not> before now (candidate_deadline expected) then PhaseRollingBack
               else PhaseActivating) in
      if p = PhaseRollingBack
      then begin_rollback v (jn_TaskID expected) PhasePrepared (capture_controller_failure ContextDeadline)
      else advance v (jn_TaskID expected) PhasePrepared p)"

text \<open>
  \<open>qualify\<close>: the candidate process checks itself, and either publishes its qualification or asks for the rollback. The
  result of the checks is \<open>checks\<close>; the rollback reads the journal again.
\<close>

definition request_rollback :: "upgrade_env \<Rightarrow> journal \<Rightarrow> err \<Rightarrow> unit op" where
  "request_rollback v expected cause =
     then_op (reading (coordinator_current v expected)) (\<lambda>c.
       case c of
         None \<Rightarrow> give (Inl StateConflict)
       | Some j \<Rightarrow>
           if phase_settled (jn_Phase j) then give (Inl StateConflict)
           else if jn_Phase j \<noteq> PhaseRollingBack \<and> jn_Phase j \<noteq> PhaseStopping \<and> jn_Phase j \<noteq> PhaseRolledBack
             then then_op (begin_rollback v (jn_TaskID j) (jn_Phase j) (capture_controller_failure cause))
                    (\<lambda>_. give (Inr ()))
           else give (Inr ()))"

definition qualify :: "upgrade_env \<Rightarrow> digest \<Rightarrow> journal \<Rightarrow> unit res \<Rightarrow> outcome option op" where
  "qualify v process expected checks =
     (if process \<noteq> mn_ControllerSHA256 (jn_Manifest expected)
      then then_op (request_rollback v expected StateConflict) (\<lambda>_. give (Inr None))
      else
        case checks of
          Inl e \<Rightarrow> then_op (request_rollback v expected e) (\<lambda>_. give (Inr None))
        | Inr _ \<Rightarrow>
            then_op (advance v (jn_TaskID expected) PhaseStarting PhaseHealthy) (\<lambda>_. give (Inr (Some Succeeded))))"

definition confirm_healthy :: "digest \<Rightarrow> journal \<Rightarrow> unit res \<Rightarrow> outcome res" where
  "confirm_healthy process expected checks =
     (if process \<noteq> mn_ControllerSHA256 (jn_Manifest expected) then Inl StateConflict
      else try_res checks (\<lambda>_. Inr Succeeded))"

definition recover_predecessor ::
  "upgrade_env \<Rightarrow> digest \<Rightarrow> journal \<Rightarrow> upgrade_phase \<Rightarrow> unit res \<Rightarrow> outcome op" where
  "recover_predecessor v process expected p checks =
     (if process \<noteq> jn_PreviousController expected then give (Inl StateConflict)
      else
        then_op (give checks) (\<lambda>_.
        if p = PhaseRolledBack
        then then_op (advance v (jn_TaskID expected) PhaseRolledBack PhaseRecovered) (\<lambda>_. give (Inr Failed))
        else give (Inr Failed)))"

definition request_abort :: "upgrade_env \<Rightarrow> journal \<Rightarrow> bool op" where
  "request_abort v expected =
     then_op (reading (coordinator_current v expected)) (\<lambda>c.
       case c of
         None \<Rightarrow> give (Inr True)
       | Some j \<Rightarrow>
           if jn_Phase j = PhasePrepared
           then then_op (advance v (jn_TaskID expected) PhasePrepared PhaseCancelled) (\<lambda>_. give (Inr True))
           else if jn_Phase j = PhaseCancelled then give (Inr True)
           else give (Inr False))"

definition interrupted :: "upgrade_env \<Rightarrow> journal \<Rightarrow> upgrade_phase option \<Rightarrow> unit op" where
  "interrupted v expected found =
     (if found = None then give (Inr ())
      else then_op (advance v (jn_TaskID expected) PhasePrepared PhaseCancelled) (\<lambda>_. give (Inr ())))"

text \<open>\<open>settle\<close>: an aborted operation that did not succeed is cancelled.\<close>

definition settle_status :: "bool \<Rightarrow> outcome \<Rightarrow> outcome" where
  "settle_status aborted status = (if aborted \<and> status \<noteq> Succeeded then Cancelled else status)"

text \<open>\<open>Execute\<close>: the result from the settled status, the failure noted by this process and the journal found.\<close>

definition execution_result_of ::
  "upgrade_env \<Rightarrow> journal \<Rightarrow> outcome \<Rightarrow> failure option \<Rightarrow> journal option \<Rightarrow> gotime \<Rightarrow> execution_result res" where
  "execution_result_of v expected status noted found now =
     (let observed = (case found of None \<Rightarrow> noted | Some j \<Rightarrow> if jn_Failure j \<noteq> None then jn_Failure j else noted);
          failure =
            (if status = Succeeded then None
             else if observed = None then
               (if status = Cancelled then capture_controller_failure ContextCanceled
                else if \<not> before now (jn_Deadline expected) then capture_controller_failure ContextDeadline
                else capture_controller_failure RequestFailed)
             else observed);
          r = \<lparr>xr_Outcome = status, xr_Settled = True, xr_Journal = found, xr_Failure = failure\<rparr>
      in try_res (execution_result_validate v r expected) (\<lambda>_. Inr r))"

definition unresolved :: "upgrade_env \<Rightarrow> journal \<Rightarrow> err \<Rightarrow> disk \<Rightarrow> execution_result res" where
  "unresolved v expected cause d =
     try_res (coordinator_current v expected d) (\<lambda>found.
       let r = \<lparr>xr_Outcome = Failed, xr_Settled = False, xr_Journal = found,
             xr_Failure = capture_controller_failure cause\<rparr>
       in try_res (execution_result_validate v r expected) (\<lambda>_. Inr r))"

section \<open>Mutation gate\<close>

definition check_mutation :: "upgrade_env \<Rightarrow> string \<Rightarrow> disk \<Rightarrow> unit res" where
  "check_mutation v recoveryTaskID d =
     try_res (current v d) (\<lambda>c.
       case c of
         None \<Rightarrow> Inr ()
       | Some j \<Rightarrow>
           try_res (journal_validate v j) (\<lambda>_.
           if phase_settled (jn_Phase j) \<or> recoveryTaskID = jn_TaskID j then Inr () else Inl ResourceInUse))"

section \<open>Calls of the store\<close>

text \<open>
  The calls that the processes make, with the phases written at their call sites. Their order and interleaving is
  arbitrary, and a call may be cut off after any of its writes.
\<close>

datatype upgrade_call =
    CallStage "string \<Rightarrow> build_metadata res" string "string option" string
  | CallPrepare journal
  | CallCancel string
  | CallCommit string
  | CallQualify string
  | CallRecovered string
  | CallClaim string
  | CallBeginRollback string upgrade_phase err
  | CallActivate string
  | CallRollback string
  | CallGuard gotime

fun perform :: "upgrade_env \<Rightarrow> upgrade_store \<Rightarrow> upgrade_call \<Rightarrow> disk \<Rightarrow> disk list" where
  "perform v s (CallStage dec metadata binary agentImage) d = visited (stage_release v dec metadata binary agentImage d)"
| "perform v s (CallPrepare j) d = visited (prepare v s j d)"
| "perform v s (CallCancel t) d = visited (advance v t PhasePrepared PhaseCancelled d)"
| "perform v s (CallCommit t) d = visited (advance v t PhasePrepared PhaseActivating d)"
| "perform v s (CallQualify t) d = visited (advance v t PhaseStarting PhaseHealthy d)"
| "perform v s (CallRecovered t) d = visited (advance v t PhaseRolledBack PhaseRecovered d)"
| "perform v s (CallClaim t) d = visited (advance v t PhaseRollingBack PhaseStopping d)"
| "perform v s (CallBeginRollback t p e) d = visited (begin_rollback v t p (capture_controller_failure e) d)"
| "perform v s (CallActivate t) d = visited (activate v s t d)"
| "perform v s (CallRollback t) d = visited (rollback v t d)"
| "perform v s (CallGuard now) d = visited (guard v s now d)"

inductive upgrade_step :: "upgrade_env \<Rightarrow> disk \<Rightarrow> disk \<Rightarrow> bool" for v where
  performed: "d' \<in> set (perform v s c d) \<Longrightarrow> upgrade_step v d d'"

inductive upgrade_reachable :: "upgrade_env \<Rightarrow> disk \<Rightarrow> disk \<Rightarrow> bool" for v d where
  reach_start: "upgrade_reachable v d d"
| reach_step: "\<lbrakk>upgrade_reachable v d e; upgrade_step v e f\<rbrakk> \<Longrightarrow> upgrade_reachable v d f"

end
