(* ===== verification/UpgradeProtocol.thy ===== *)
theory UpgradeProtocol
  imports UpgradeControl
begin

text \<open>
  The protocol behind the store of Controller releases: what each single write requires, whoever makes it, and the
  proof that every operation of the store only makes such writes, in whatever place it is cut off.
\<close>

section \<open>Operations\<close>

lemma op_simps [simp]:
  "visited (ds, d, r) = ds" "final_disk (ds, d, r) = d" "outcome_of (ds, d, r) = r"
  by (simp_all add: visited_def final_disk_def outcome_of_def)

lemma reading_simps [simp]:
  "visited (reading f d) = []" "final_disk (reading f d) = d" "outcome_of (reading f d) = f d"
  by (simp_all add: reading_def)

lemma give_simps [simp]:
  "visited (give r d) = []" "final_disk (give r d) = d" "outcome_of (give r d) = r"
  by (simp_all add: give_def)

lemma then_op_visited:
  "e \<in> set (visited (then_op m k d)) \<longleftrightarrow>
     e \<in> set (visited (m d)) \<or> (\<exists>a. outcome_of (m d) = Inr a \<and> e \<in> set (visited (k a (final_disk (m d)))))"
  by (auto simp: then_op_def visited_def final_disk_def outcome_of_def split: prod.splits sum.splits)

lemma then_op_final:
  "final_disk (then_op m k d) =
     (case outcome_of (m d) of Inl e \<Rightarrow> final_disk (m d) | Inr a \<Rightarrow> final_disk (k a (final_disk (m d))))"
  by (auto simp: then_op_def visited_def final_disk_def outcome_of_def split: prod.splits sum.splits)

lemma then_op_outcome:
  "outcome_of (then_op m k d) =
     (case outcome_of (m d) of Inl e \<Rightarrow> Inl e | Inr a \<Rightarrow> outcome_of (k a (final_disk (m d))))"
  by (auto simp: then_op_def visited_def final_disk_def outcome_of_def split: prod.splits sum.splits)

lemmas run_simps = then_op_visited then_op_final then_op_outcome

lemma then_give [simp]: "then_op (give (Inr a)) k = k a" "then_op (give (Inl e)) k = give (Inl e)"
  by (rule ext, simp add: then_op_def give_def split: prod.splits)+

text \<open>One write: it happened, or the disk is as before.\<close>

lemma atomic_write_run:
  "visited (atomic_write file w p d) = [] \<and> final_disk (atomic_write file w p d) = d \<and>
     (\<exists>e. outcome_of (atomic_write file w p d) = Inl e) \<or>
   w = Inr () \<and> visited (atomic_write file w p d) = [p d] \<and> final_disk (atomic_write file w p d) = p d \<and>
     outcome_of (atomic_write file w p d) = Inr ()"
  by (cases "file d"; cases w) (auto simp: atomic_write_def)

lemma open_regular_Inr:
  "open_regular f n = Inr c \<longleftrightarrow> f = Stored c \<and> c \<noteq> [] \<and> length c \<le> n"
  by (cases f) (auto simp: open_regular_def)

definition holds :: "string stored \<Rightarrow> digest \<Rightarrow> bool" where
  "holds f h \<longleftrightarrow> (\<exists>c. f = Stored c \<and> c \<noteq> [] \<and> length c \<le> maximum_binary_bytes \<and> hash c = h)"

lemma verify_copy_Inr:
  "verify_copy c h = Inr () \<longleftrightarrow> digest_valid h \<and> c \<noteq> [] \<and> length c \<le> maximum_binary_bytes \<and> hash c = h"
  by (auto simp: verify_copy_def copy_digest_def)

lemma holds_unique: "holds f h \<Longrightarrow> holds f h' \<Longrightarrow> h = h'"
  by (auto simp: holds_def)

lemma copy_executable_run:
  "visited (copy_executable src dst p h d) = [] \<and> final_disk (copy_executable src dst p h d) = d \<and>
     (\<exists>e. outcome_of (copy_executable src dst p h d) = Inl e) \<or>
   (\<exists>c. holds (Stored c) h \<and> src d = Stored c \<and> digest_valid h \<and>
     visited (copy_executable src dst p h d) = [p c d] \<and> final_disk (copy_executable src dst p h d) = p c d \<and>
     outcome_of (copy_executable src dst p h d) = Inr ())"
proof (cases "open_regular (src d) maximum_binary_bytes")
  case (Inl e)
  then show ?thesis by (simp add: copy_executable_def then_op_def reading_def)
next
  case (Inr c)
  then have run: "copy_executable src dst p h d = atomic_write dst (verify_copy c h) (p c) d"
    by (simp add: copy_executable_def then_op_def reading_def split: prod.splits)
  from Inr have "src d = Stored c" by (simp add: open_regular_Inr)
  then show ?thesis
    using atomic_write_run[of dst "verify_copy c h" "p c" d] unfolding run
    by (auto simp: verify_copy_Inr holds_def)
qed

lemma write_journal_run:
  "visited (write_journal v j d) = [] \<and> final_disk (write_journal v j d) = d \<and>
     (\<exists>e. outcome_of (write_journal v j d) = Inl e) \<or>
   journal_validate v j = Inr () \<and> visited (write_journal v j d) = [set_journal j d] \<and>
     final_disk (write_journal v j d) = set_journal j d \<and> outcome_of (write_journal v j d) = Inr ()"
proof (cases "journal_validate v j")
  case (Inl e)
  then show ?thesis by (simp add: write_journal_def)
next
  case (Inr u)
  then show ?thesis
    using atomic_write_run[of dk_Journal "Inr ()" "set_journal j" d]
    by (cases "ue_JournalSize v j") (auto simp: write_journal_def)
qed

text \<open>Reading the state of an upgrade.\<close>

lemma current_Inr:
  "current v d = Inr c \<longleftrightarrow>
     (c = None \<and> read_stored (dk_Journal d) = Inl FileMissing) \<or>
     (\<exists>j. c = Some j \<and> dk_Journal d = Stored j \<and> journal_validate v j = Inr ())"
proof (cases "read_stored (dk_Journal d)")
  case (Inl e)
  then show ?thesis by (cases "dk_Journal d") (auto simp: current_def)
next
  case (Inr j)
  then have "dk_Journal d = Stored j" by (cases "dk_Journal d") auto
  then show ?thesis by (auto simp: current_def)
qed

lemma installed_Inr: "installed s d = Inr h \<longleftrightarrow> us_Native s \<and> holds (dk_Controller d) h"
  by (auto simp: installed_def open_regular_Inr copy_digest_def holds_def)

lemma inspect_Inr:
  "inspect v d i = Inr m \<longleftrightarrow>
     (\<exists>root raw. release_directory d i = Inr root \<and> open_regular (sr_Manifest root) max_manifest_bytes = Inr raw \<and>
        parse_manifest v raw i = Inr m \<and> digest_valid (mn_ControllerSHA256 m) \<and>
        holds (sr_Controller root) (mn_ControllerSHA256 m))"
  by (auto simp: inspect_def verify_copy_Inr open_regular_Inr holds_def)

section \<open>The protocol\<close>

text \<open>
  The abstract protocol: the single writes that an upgrade may make, whoever makes them, with what must stand on the
  disk at that moment.
\<close>

definition recovering :: "upgrade_phase \<Rightarrow> bool" where
  "recovering p \<longleftrightarrow> p = PhaseRollingBack \<or> p = PhaseStopping \<or> p = PhaseRolledBack"

definition journal_of :: "disk \<Rightarrow> journal option" where
  "journal_of d = (case dk_Journal d of Stored j \<Rightarrow> Some j | _ \<Rightarrow> None)"

lemma journal_of_Some [simp]: "journal_of d = Some j \<longleftrightarrow> dk_Journal d = Stored j"
  by (cases "dk_Journal d") (auto simp: journal_of_def)

text \<open>No upgrade is open.\<close>

definition quiet_journal :: "disk \<Rightarrow> bool" where
  "quiet_journal d \<longleftrightarrow> (\<forall>j. dk_Journal d = Stored j \<longrightarrow> phase_settled (jn_Phase j))"

inductive operation_move :: "upgrade_env \<Rightarrow> disk \<Rightarrow> disk \<Rightarrow> bool" for v d where
  publish: "dk_Releases d leaf = Missing \<Longrightarrow> operation_move v d (set_release leaf root d)"
| choose: "operation_move v d (set_candidate i d)"
| save_previous: "\<lbrakk>quiet_journal d; dk_Controller d = Stored c\<rbrakk> \<Longrightarrow> operation_move v d (set_previous c d)"
| save_recovery: "\<lbrakk>quiet_journal d; dk_Controller d = Stored c\<rbrakk> \<Longrightarrow> operation_move v d (set_recovery c d)"
| retain_release: "\<lbrakk>dk_Journal d = Stored k; jn_Phase k = PhaseHealthy\<rbrakk>
    \<Longrightarrow> operation_move v d (set_selected (qualified_release k) d)"
| cancel: "\<lbrakk>dk_Journal d = Stored j; jn_Phase j = PhasePrepared; j' = j\<lparr>jn_Phase := PhaseCancelled\<rparr>;
    journal_validate v j' = Inr ()\<rbrakk> \<Longrightarrow> operation_move v d (set_journal j' d)"
| commit: "\<lbrakk>dk_Journal d = Stored j; jn_Phase j = PhasePrepared; j' = j\<lparr>jn_Phase := PhaseActivating\<rparr>;
    journal_validate v j' = Inr ()\<rbrakk> \<Longrightarrow> operation_move v d (set_journal j' d)"
| attempt: "\<lbrakk>dk_Journal d = Stored j; jn_Phase j = PhaseActivating \<or> jn_Phase j = PhaseTrial;
    holds (dk_Controller d) (jn_PreviousController j); j' = j\<lparr>jn_Phase := PhaseTrial, jn_TrialBootID := b\<rparr>;
    journal_validate v j' = Inr ()\<rbrakk> \<Longrightarrow> operation_move v d (set_journal j' d)"
| put_candidate: "\<lbrakk>dk_Journal d = Stored j; jn_Phase j = PhaseTrial;
    holds (Stored c) (mn_ControllerSHA256 (jn_Manifest j))\<rbrakk> \<Longrightarrow> operation_move v d (set_controller c d)"
| start_candidate: "\<lbrakk>dk_Journal d = Stored j; jn_Phase j = PhaseTrial;
    holds (dk_Controller d) (mn_ControllerSHA256 (jn_Manifest j)); j' = j\<lparr>jn_Phase := PhaseStarting\<rparr>;
    journal_validate v j' = Inr ()\<rbrakk> \<Longrightarrow> operation_move v d (set_journal j' d)"
| abandon: "\<lbrakk>dk_Journal d = Stored j; can_advance (jn_Phase j) PhaseRollingBack;
    j' = j\<lparr>jn_Phase := PhaseRollingBack, jn_Failure := f\<rparr>; journal_validate v j' = Inr ()\<rbrakk>
    \<Longrightarrow> operation_move v d (set_journal j' d)"
| claim_stop: "\<lbrakk>dk_Journal d = Stored j; jn_Phase j = PhaseRollingBack; j' = j\<lparr>jn_Phase := PhaseStopping\<rparr>;
    journal_validate v j' = Inr ()\<rbrakk> \<Longrightarrow> operation_move v d (set_journal j' d)"
| give_back: "\<lbrakk>dk_Journal d = Stored j; recovering (jn_Phase j); holds (Stored c) (jn_PreviousController j)\<rbrakk>
    \<Longrightarrow> operation_move v d (set_controller c d)"
| put_back: "\<lbrakk>dk_Journal d = Stored j; recovering (jn_Phase j); holds (dk_Controller d) (jn_PreviousController j);
    j' = j\<lparr>jn_Phase := PhaseRolledBack\<rparr>; journal_validate v j' = Inr ()\<rbrakk>
    \<Longrightarrow> operation_move v d (set_journal j' d)"
| agents_recovered: "\<lbrakk>dk_Journal d = Stored j; jn_Phase j = PhaseRolledBack; j' = j\<lparr>jn_Phase := PhaseRecovered\<rparr>;
    journal_validate v j' = Inr ()\<rbrakk> \<Longrightarrow> operation_move v d (set_journal j' d)"

text \<open>Only \<open>Prepare\<close> opens an operation.\<close>

definition opening_move :: "upgrade_env \<Rightarrow> disk \<Rightarrow> disk \<Rightarrow> bool" where
  "opening_move v d e \<longleftrightarrow>
     (\<exists>j. quiet_journal d \<and> journal_validate v j = Inr () \<and> jn_Phase j = PhasePrepared \<and>
        (\<forall>k. dk_Journal d = Stored k \<longrightarrow> jn_TaskID k \<noteq> jn_TaskID j) \<and>
        (\<forall>k. dk_Journal d = Stored k \<and> jn_Phase k = PhaseHealthy \<longrightarrow>
           dk_Selected d = Stored (qualified_release k)) \<and>
        holds (dk_Controller d) (jn_PreviousController j) \<and> holds (dk_Previous d) (jn_PreviousController j) \<and>
        holds (dk_Recovery d) (jn_PreviousController j) \<and> e = set_journal j d)"

text \<open>Only the candidate qualifies itself.\<close>

definition qualification_move :: "upgrade_env \<Rightarrow> disk \<Rightarrow> disk \<Rightarrow> bool" where
  "qualification_move v d e \<longleftrightarrow>
     (\<exists>j. dk_Journal d = Stored j \<and> jn_Phase j = PhaseStarting \<and>
        journal_validate v (j\<lparr>jn_Phase := PhaseHealthy\<rparr>) = Inr () \<and> e = set_journal (j\<lparr>jn_Phase := PhaseHealthy\<rparr>) d)"

definition preparation_move :: "upgrade_env \<Rightarrow> disk \<Rightarrow> disk \<Rightarrow> bool" where
  "preparation_move v d e \<longleftrightarrow> operation_move v d e \<or> opening_move v d e"

definition upgrade_move :: "upgrade_env \<Rightarrow> disk \<Rightarrow> disk \<Rightarrow> bool" where
  "upgrade_move v d e \<longleftrightarrow> preparation_move v d e \<or> qualification_move v d e"

lemma operation_moveI [intro]: "operation_move v d e \<Longrightarrow> preparation_move v d e"
  by (simp add: preparation_move_def)

section \<open>Crash specifications\<close>

text \<open>Successive disks related by \<open>R\<close>, and the specification of an operation that is cut off after any write.\<close>

fun chain :: "('a \<Rightarrow> 'a \<Rightarrow> bool) \<Rightarrow> 'a \<Rightarrow> 'a list \<Rightarrow> bool" where
  "chain R x [] \<longleftrightarrow> True"
| "chain R x (y # ys) \<longleftrightarrow> R x y \<and> chain R y ys"

lemma chain_append: "chain R x (xs @ ys) \<longleftrightarrow> chain R x xs \<and> chain R (last (x # xs)) ys"
  by (induction xs arbitrary: x) auto

lemma chain_inv:
  assumes "chain R x ys" "P x" "\<And>a b. P a \<Longrightarrow> R a b \<Longrightarrow> P b" "y \<in> set ys"
  shows "P y"
  using assms(1,2,4) by (induction ys arbitrary: x) (auto dest: assms(3))

definition crash_spec :: "(disk \<Rightarrow> disk \<Rightarrow> bool) \<Rightarrow> disk \<Rightarrow> 'a op \<Rightarrow> ('a \<Rightarrow> disk \<Rightarrow> bool) \<Rightarrow> bool" where
  "crash_spec R d m Q \<longleftrightarrow>
     chain R d (visited (m d)) \<and> final_disk (m d) = last (d # visited (m d)) \<and>
     (\<forall>a. outcome_of (m d) = Inr a \<longrightarrow> Q a (final_disk (m d)))"

lemma spec_give: "(\<And>a. r = Inr a \<Longrightarrow> Q a d) \<Longrightarrow> crash_spec R d (give r) Q"
  by (simp add: crash_spec_def)

lemma spec_reading: "(\<And>a. f d = Inr a \<Longrightarrow> Q a d) \<Longrightarrow> crash_spec R d (reading f) Q"
  by (simp add: crash_spec_def)

lemma spec_then:
  assumes "crash_spec R d m P" "\<And>a e. P a e \<Longrightarrow> crash_spec R e (k a) Q"
  shows "crash_spec R d (then_op m k) Q"
proof (cases "m d")
  case (fields ds d' r)
  show ?thesis
  proof (cases r)
    case (Inl e)
    with assms(1) fields show ?thesis by (simp add: crash_spec_def then_op_def)
  next
    case (Inr a)
    have "chain R d ds" "d' = last (d # ds)" "\<forall>b. r = Inr b \<longrightarrow> P b d'"
      using assms(1) unfolding crash_spec_def fields op_simps by blast+
    with Inr have first: "chain R d ds" "d' = last (d # ds)" "P a d'" by blast+
    obtain es e' s where rest: "k a d' = (es, e', s)" by (metis prod_cases3)
    have "chain R d' es" "e' = last (d' # es)" "\<forall>b. s = Inr b \<longrightarrow> Q b e'"
      using assms(2)[OF first(3)] unfolding crash_spec_def rest op_simps by blast+
    then show ?thesis using first fields Inr rest by (auto simp: crash_spec_def then_op_def chain_append)
  qed
qed

lemma spec_read:
  assumes "\<And>a. f d = Inr a \<Longrightarrow> crash_spec R d (k a) Q"
  shows "crash_spec R d (then_op (reading f) k) Q"
  by (rule spec_then[where P = "\<lambda>a e. e = d \<and> f d = Inr a"]) (auto intro: spec_reading assms)

lemma spec_given:
  assumes "\<And>a. r = Inr a \<Longrightarrow> crash_spec R d (k a) Q"
  shows "crash_spec R d (then_op (give r) k) Q"
  by (rule spec_then[where P = "\<lambda>a e. e = d \<and> r = Inr a"]) (auto intro: spec_give assms)

lemma spec_write:
  assumes "R d (p d)" "Q () (p d)"
  shows "crash_spec R d (atomic_write file w p) Q"
  using atomic_write_run[of "file" w p d] assms by (auto simp: crash_spec_def)

lemma spec_copy:
  assumes "\<And>c. src d = Stored c \<Longrightarrow> holds (Stored c) h \<Longrightarrow> R d (p c d) \<and> Q () (p c d)"
  shows "crash_spec R d (copy_executable src dst p h) Q"
  using copy_executable_run[of src dst p h d] assms by (auto simp: crash_spec_def)

lemma spec_journal:
  assumes "journal_validate v j = Inr () \<Longrightarrow> R d (set_journal j d) \<and> Q () (set_journal j d)"
  shows "crash_spec R d (write_journal v j) Q"
  using write_journal_run[of v j d] assms by (auto simp: crash_spec_def)

lemma spec_weaken: "crash_spec R d m P \<Longrightarrow> (\<And>a e. P a e \<Longrightarrow> Q a e) \<Longrightarrow> crash_spec R d m Q"
  by (auto simp: crash_spec_def)

lemma spec_fail: "crash_spec R d (give (Inl e)) Q"
  by (rule spec_give) simp

section \<open>The operations keep to the protocol\<close>

lemma set_disk_simps [simp]:
  "dk_Journal (set_journal j d) = Stored j" "dk_Controller (set_journal j d) = dk_Controller d"
  "dk_Previous (set_journal j d) = dk_Previous d" "dk_Recovery (set_journal j d) = dk_Recovery d"
  "dk_Selected (set_journal j d) = dk_Selected d" "dk_Releases (set_journal j d) = dk_Releases d"
  "dk_Journal (set_controller c d) = dk_Journal d" "dk_Controller (set_controller c d) = Stored c"
  "dk_Previous (set_controller c d) = dk_Previous d" "dk_Recovery (set_controller c d) = dk_Recovery d"
  "dk_Selected (set_controller c d) = dk_Selected d"
  "dk_Journal (set_previous c d) = dk_Journal d" "dk_Controller (set_previous c d) = dk_Controller d"
  "dk_Previous (set_previous c d) = Stored c" "dk_Recovery (set_previous c d) = dk_Recovery d"
  "dk_Selected (set_previous c d) = dk_Selected d"
  "dk_Journal (set_recovery c d) = dk_Journal d" "dk_Controller (set_recovery c d) = dk_Controller d"
  "dk_Previous (set_recovery c d) = dk_Previous d" "dk_Recovery (set_recovery c d) = Stored c"
  "dk_Selected (set_recovery c d) = dk_Selected d"
  "dk_Journal (set_selected r d) = dk_Journal d" "dk_Controller (set_selected r d) = dk_Controller d"
  "dk_Previous (set_selected r d) = dk_Previous d" "dk_Recovery (set_selected r d) = dk_Recovery d"
  "dk_Selected (set_selected r d) = Stored r"
  "dk_Journal (set_release l s d) = dk_Journal d" "dk_Controller (set_release l s d) = dk_Controller d"
  "dk_Previous (set_release l s d) = dk_Previous d" "dk_Recovery (set_release l s d) = dk_Recovery d"
  "dk_Selected (set_release l s d) = dk_Selected d"
  "dk_Journal (set_candidate i d) = dk_Journal d" "dk_Controller (set_candidate i d) = dk_Controller d"
  "dk_Previous (set_candidate i d) = dk_Previous d" "dk_Recovery (set_candidate i d) = dk_Recovery d"
  "dk_Selected (set_candidate i d) = dk_Selected d" "dk_Candidate (set_candidate i d) = Stored i"
  by (simp_all add: set_journal_def set_controller_def set_previous_def set_recovery_def set_selected_def
      set_release_def set_candidate_def)

lemma quiet_simps [simp]:
  "quiet_journal (set_previous c d) = quiet_journal d" "quiet_journal (set_recovery c d) = quiet_journal d"
  by (simp_all add: quiet_journal_def)

lemma quiet_same: "quiet_journal d \<Longrightarrow> dk_Journal e = dk_Journal d \<Longrightarrow> quiet_journal e"
  by (simp add: quiet_journal_def)

lemma current_Some: "current v d = Inr (Some j) \<Longrightarrow> dk_Journal d = Stored j \<and> journal_validate v j = Inr ()"
  by (simp add: current_Inr)

lemma current_None: "current v d = Inr None \<Longrightarrow> quiet_journal d"
  by (auto simp: current_Inr quiet_journal_def)

text \<open>\<open>advance\<close> and \<open>BeginRollback\<close>: one write when the journal stands in the phase \<open>p\<close>, none otherwise.\<close>

lemma spec_advance_with:
  assumes "\<And>j. \<lbrakk>dk_Journal d = Stored j; jn_Phase j = p; can_advance p q; q \<noteq> PhaseRollingBack;
       journal_validate v (j\<lparr>jn_Phase := q\<rparr>) = Inr ()\<rbrakk> \<Longrightarrow> R d (set_journal (j\<lparr>jn_Phase := q\<rparr>) d)"
    and "\<And>j. \<lbrakk>dk_Journal d = Stored j; jn_Phase j = p; can_advance p q; q = PhaseRollingBack;
       journal_validate v (j\<lparr>jn_Phase := q, jn_Failure := f\<rparr>) = Inr ()\<rbrakk>
       \<Longrightarrow> R d (set_journal (j\<lparr>jn_Phase := q, jn_Failure := f\<rparr>) d)"
  shows "crash_spec R d (advance_with v t p q f) (\<lambda>j e. dk_Journal e = Stored j \<and> jn_Phase j = q)"
  unfolding advance_with_def
  apply (rule spec_read)
  apply (split option.split, intro conjI allI impI)
   apply (rule spec_fail)
  apply (simp only: Let_def split: if_split, intro conjI impI)
      apply (auto intro!: spec_fail spec_give spec_then[OF spec_journal[where Q = "\<lambda>_ e. dk_Journal e = Stored _"]]
        dest!: current_Some intro: assms(1))
  using assms(2) by force

lemma spec_retain:
  assumes "dk_Journal d = Stored k"
  shows "crash_spec (preparation_move v) d (retain_selection v k)
     (\<lambda>_ e. (jn_Phase k = PhaseHealthy \<longrightarrow> dk_Selected e = Stored (qualified_release k)) \<and>
        dk_Journal e = dk_Journal d \<and> dk_Controller e = dk_Controller d \<and> dk_Previous e = dk_Previous d \<and>
        dk_Recovery e = dk_Recovery d)"
  unfolding retain_selection_def using assms
  by (auto intro!: spec_give spec_given spec_write retain_release)

text \<open>The two copies of the installed executable at the start of \<open>Prepare\<close>.\<close>

lemma spec_save:
  assumes "quiet_journal d"
    and "\<And>e. \<lbrakk>dk_Journal e = dk_Journal d; dk_Selected e = dk_Selected d; holds (dk_Controller e) h;
       holds (dk_Previous e) h; holds (dk_Recovery e) h\<rbrakk> \<Longrightarrow> crash_spec (preparation_move v) e m Q"
  shows "crash_spec (preparation_move v) d
     (then_op (copy_executable dk_Controller dk_Previous set_previous h) (\<lambda>_.
      then_op (copy_executable dk_Controller dk_Recovery set_recovery h) (\<lambda>_. m))) Q"
proof (rule spec_then)
  show "crash_spec (preparation_move v) d (copy_executable dk_Controller dk_Previous set_previous h)
     (\<lambda>_ e. quiet_journal e \<and> dk_Journal e = dk_Journal d \<and> dk_Selected e = dk_Selected d \<and>
        holds (dk_Controller e) h \<and> holds (dk_Previous e) h)"
    using assms(1) by (auto intro!: spec_copy save_previous)
  show "crash_spec (preparation_move v) e (then_op (copy_executable dk_Controller dk_Recovery set_recovery h) (\<lambda>_. m)) Q"
    if "quiet_journal e \<and> dk_Journal e = dk_Journal d \<and> dk_Selected e = dk_Selected d \<and>
        holds (dk_Controller e) h \<and> holds (dk_Previous e) h" for e
  proof (rule spec_then)
    show "crash_spec (preparation_move v) e (copy_executable dk_Controller dk_Recovery set_recovery h)
      (\<lambda>_ f. dk_Journal f = dk_Journal d \<and> dk_Selected f = dk_Selected d \<and> holds (dk_Controller f) h \<and>
         holds (dk_Previous f) h \<and> holds (dk_Recovery f) h)"
      using that by (auto intro!: spec_copy save_recovery)
  qed (auto intro: assms(2))
qed

lemma prepare_keeps_protocol: "crash_spec (preparation_move v) d (prepare v s j) (\<lambda>_ _. True)"
proof -
  have opened: "crash_spec (preparation_move v) e (write_journal v j) (\<lambda>_ _. True)"
    if "quiet_journal e" "jn_Phase j = PhasePrepared" "\<forall>k. dk_Journal e = Stored k \<longrightarrow> jn_TaskID k \<noteq> jn_TaskID j"
      "\<forall>k. dk_Journal e = Stored k \<and> jn_Phase k = PhaseHealthy \<longrightarrow> dk_Selected e = Stored (qualified_release k)"
      "holds (dk_Controller e) (jn_PreviousController j)" "holds (dk_Previous e) (jn_PreviousController j)"
      "holds (dk_Recovery e) (jn_PreviousController j)" for e
    using that by (auto intro!: spec_journal simp: preparation_move_def opening_move_def)
  have fresh: "crash_spec (preparation_move v) d
      (then_op (copy_executable dk_Controller dk_Previous set_previous (jn_PreviousController j)) (\<lambda>_.
       then_op (copy_executable dk_Controller dk_Recovery set_recovery (jn_PreviousController j)) (\<lambda>_.
       write_journal v j))) (\<lambda>_ _. True)"
    if "current v d = Inr None" "jn_Phase j = PhasePrepared"
    using that by (intro spec_save opened current_None) (auto simp: current_Inr quiet_journal_def)
  have again: "crash_spec (preparation_move v) d
      (then_op (copy_executable dk_Controller dk_Previous set_previous (jn_PreviousController j)) (\<lambda>_.
       then_op (copy_executable dk_Controller dk_Recovery set_recovery (jn_PreviousController j)) (\<lambda>_.
       then_op (retain_selection v k) (\<lambda>_. write_journal v j)))) (\<lambda>_ _. True)"
    if "current v d = Inr (Some k)" "phase_settled (jn_Phase k)" "jn_TaskID k \<noteq> jn_TaskID j"
      "jn_Phase j = PhasePrepared" for k
  proof (rule spec_save)
    from that have k: "dk_Journal d = Stored k" by (simp add: current_Inr)
    with that show "quiet_journal d" by (simp add: quiet_journal_def)
    fix e :: disk
    assume e: "dk_Journal e = dk_Journal d" "dk_Selected e = dk_Selected d"
      "holds (dk_Controller e) (jn_PreviousController j)" "holds (dk_Previous e) (jn_PreviousController j)"
      "holds (dk_Recovery e) (jn_PreviousController j)"
    show "crash_spec (preparation_move v) e (then_op (retain_selection v k) (\<lambda>_. write_journal v j)) (\<lambda>_ _. True)"
      by (rule spec_then[OF spec_retain])
        (use e k that in \<open>auto intro!: opened simp: quiet_journal_def\<close>)
  qed
  show ?thesis
    unfolding prepare_def
    apply (rule spec_given)
    apply (split if_split, intro conjI impI)
     apply (rule spec_fail)
    apply (rule spec_read)
    apply (split option.split, intro conjI allI impI)
     apply (rule spec_read)
     apply (split if_split, intro conjI impI)
      apply (rule spec_fail)
     apply (rule fresh; simp)
    apply (simp only: split: if_split, intro conjI impI)
       apply (auto intro!: spec_fail spec_give spec_read again)
    done
qed

lemma activate_keeps_protocol: "crash_spec (operation_move v) d (activate v s t) (\<lambda>_ _. True)"
proof -
  have cutover: "crash_spec (operation_move v) d
      (then_op (write_journal v (j\<lparr>jn_Phase := PhaseTrial, jn_TrialBootID := us_BootID s\<rparr>)) (\<lambda>_.
       copy_executable (\<lambda>_. f) dk_Controller set_controller (mn_ControllerSHA256 m))) (\<lambda>_ _. True)"
    if "dk_Journal d = Stored j" "jn_Phase j = PhaseActivating \<or> jn_Phase j = PhaseTrial"
      "holds (dk_Controller d) (jn_PreviousController j)" "m = jn_Manifest j" for j f m
    using that
    by (intro spec_then[OF spec_journal[where Q = "\<lambda>_ e. dk_Journal e =
            Stored (j\<lparr>jn_Phase := PhaseTrial, jn_TrialBootID := us_BootID s\<rparr>)"]] spec_copy)
      (auto intro: attempt put_candidate)
  show ?thesis
    unfolding activate_def
    apply (rule spec_read)
    apply (split option.split, intro conjI allI impI)
     apply (rule spec_fail)
    apply (split if_split, intro conjI impI)
     apply (rule spec_fail)
    apply (rule spec_read)
    apply (simp only: split: if_split, intro conjI impI)
      apply (auto intro!: spec_fail spec_give spec_read cutover dest!: current_Some simp: installed_Inr)
    done
qed

lemma rollback_locked_keeps_protocol:
  assumes "dk_Journal d = Stored j"
  shows "crash_spec (operation_move v) d (rollback_locked v j)
    (\<lambda>_ e. holds (dk_Controller e) (jn_PreviousController j) \<and>
       (\<exists>k. dk_Journal e = Stored (k\<lparr>jn_Phase := PhaseRolledBack\<rparr>) \<and> (k = j \<or> k = j\<lparr>jn_Phase := PhaseRollingBack\<rparr>)))"
    (is "crash_spec _ _ _ ?Q")
proof -
  have restore: "crash_spec (operation_move v) e
      (then_op (copy_executable dk_Previous dk_Controller set_controller (jn_PreviousController k)) (\<lambda>_.
       write_journal v (k\<lparr>jn_Phase := PhaseRolledBack\<rparr>))) ?Q"
    if k: "dk_Journal e = Stored k" "recovering (jn_Phase k)" "k = j \<or> k = j\<lparr>jn_Phase := PhaseRollingBack\<rparr>" for e k
  proof (rule spec_then)
    show "crash_spec (operation_move v) e
        (copy_executable dk_Previous dk_Controller set_controller (jn_PreviousController k))
        (\<lambda>_ f. dk_Journal f = Stored k \<and> holds (dk_Controller f) (jn_PreviousController k))"
      using k by (auto intro!: spec_copy give_back)
    show "crash_spec (operation_move v) f (write_journal v (k\<lparr>jn_Phase := PhaseRolledBack\<rparr>)) ?Q"
      if "dk_Journal f = Stored k \<and> holds (dk_Controller f) (jn_PreviousController k)" for f
      using that k by (auto intro!: spec_journal put_back)
  qed
  have begun: "crash_spec (operation_move v) d (write_journal v (j\<lparr>jn_Phase := PhaseRollingBack\<rparr>))
      (\<lambda>_ e. dk_Journal e = Stored (j\<lparr>jn_Phase := PhaseRollingBack\<rparr>))"
    if "can_advance (jn_Phase j) PhaseRollingBack"
  proof (rule spec_journal)
    assume "journal_validate v (j\<lparr>jn_Phase := PhaseRollingBack\<rparr>) = Inr ()"
    then have "operation_move v d (set_journal (j\<lparr>jn_Phase := PhaseRollingBack, jn_Failure := jn_Failure j\<rparr>) d)"
      using assms that by (intro abandon[OF _ _ refl]) simp_all
    then show "operation_move v d (set_journal (j\<lparr>jn_Phase := PhaseRollingBack\<rparr>) d) \<and>
        dk_Journal (set_journal (j\<lparr>jn_Phase := PhaseRollingBack\<rparr>) d) = Stored (j\<lparr>jn_Phase := PhaseRollingBack\<rparr>)"
      by simp
  qed
  consider (refused) "phase_settled (jn_Phase j) \<or> \<not> recovering (jn_Phase j) \<and> \<not> can_advance (jn_Phase j) PhaseRollingBack"
    | (continued) "recovering (jn_Phase j)"
    | (started) "\<not> phase_settled (jn_Phase j)" "\<not> recovering (jn_Phase j)" "can_advance (jn_Phase j) PhaseRollingBack"
    by blast
  then show ?thesis
  proof cases
    case refused
    then have "\<exists>e. rollback_locked v j = give (Inl e)"
      by (auto simp: rollback_locked_def Let_def recovering_def)
    then show ?thesis by (auto intro: spec_fail)
  next
    case continued
    then have "rollback_locked v j =
      then_op (copy_executable dk_Previous dk_Controller set_controller (jn_PreviousController j)) (\<lambda>_.
        write_journal v (j\<lparr>jn_Phase := PhaseRolledBack\<rparr>))"
      by (auto simp: rollback_locked_def Let_def recovering_def phase_settled_def)
    then show ?thesis using restore[OF assms continued] by simp
  next
    case started
    define k where "k = j\<lparr>jn_Phase := PhaseRollingBack\<rparr>"
    from started have "rollback_locked v j =
      then_op (write_journal v k) (\<lambda>_.
        then_op (copy_executable dk_Previous dk_Controller set_controller (jn_PreviousController k)) (\<lambda>_.
          write_journal v (k\<lparr>jn_Phase := PhaseRolledBack\<rparr>)))"
      unfolding k_def by (auto simp: rollback_locked_def Let_def recovering_def)
    then show ?thesis
      using begun[OF started(3)] restore[of _ k] by (auto simp: k_def recovering_def intro: spec_then)
  qed
qed

lemma rollback_keeps_protocol: "crash_spec (operation_move v) d (rollback v t) (\<lambda>_ _. True)"
  unfolding rollback_def
  apply (rule spec_read)
  apply (split option.split, intro conjI allI impI)
   apply (rule spec_fail)
  apply (split if_split, intro conjI impI)
   apply (rule spec_fail)
  apply (rule spec_weaken[OF rollback_locked_keeps_protocol])
   apply (auto dest: current_Some)
  done

text \<open>
  What \<open>Guard\<close> leaves when it lets the service start: the candidate only when it is qualified or on the attempt that
  this guard records, and the predecessor otherwise.
\<close>

definition guard_verdict :: "upgrade_store \<Rightarrow> gotime \<Rightarrow> disk \<Rightarrow> journal \<Rightarrow> disk \<Rightarrow> bool" where
  "guard_verdict s now d j e \<longleftrightarrow>
     holds (dk_Controller e) (jn_PreviousController j) \<and>
       (e = d \<and> jn_Phase j \<in> {PhasePrepared, PhaseCancelled, PhaseRolledBack, PhaseRecovered} \<or>
        dk_Journal e = Stored j \<and> jn_Phase j = PhaseStopping \<or>
        (\<exists>k. dk_Journal e = Stored k \<and> same_operation k j \<and> jn_Phase k = PhaseRolledBack)) \<or>
     holds (dk_Controller e) (mn_ControllerSHA256 (jn_Manifest j)) \<and>
       (e = d \<and> jn_Phase j = PhaseHealthy \<or>
        e = set_journal (j\<lparr>jn_Phase := PhaseStarting\<rparr>) d \<and> jn_Phase j = PhaseTrial \<and>
          before now (candidate_deadline j) \<and> jn_TrialBootID j = us_BootID s)"

lemma same_operation_update [simp]:
  "same_operation (j\<lparr>jn_Phase := p\<rparr>) j" "same_operation (j\<lparr>jn_Phase := p, jn_Failure := f\<rparr>) j"
  "same_operation (j\<lparr>jn_Phase := p, jn_TrialBootID := b\<rparr>) j" "same_operation j j"
  by (simp_all add: same_operation_def)

lemma spec_guard_rollback:
  assumes "dk_Journal d = Stored j"
  shows "crash_spec (operation_move v) d (rollback_locked v j) (\<lambda>_ e. guard_verdict s now d j e)"
  by (rule spec_weaken[OF rollback_locked_keeps_protocol[OF assms]]) (auto simp: guard_verdict_def)

lemma guard_keeps_protocol:
  "crash_spec (operation_move v) d (guard v s now)
     (\<lambda>_ e. case journal_of d of None \<Rightarrow> e = d | Some j \<Rightarrow> guard_verdict s now d j e)"
proof -
  have kept: "crash_spec (operation_move v) d (if h \<noteq> x then give (Inl StateConflict) else give (Inr ()))
      (\<lambda>_ e. guard_verdict s now d j e)"
    if "holds (dk_Controller d) h" "h = x \<Longrightarrow> guard_verdict s now d j d" for h x j
    using that by (auto intro: spec_fail spec_give)
  have verdict: "crash_spec (operation_move v) d
      (case jn_Phase j of
         PhaseStopping \<Rightarrow> copy_executable dk_Previous dk_Controller set_controller (jn_PreviousController j)
       | PhaseHealthy \<Rightarrow>
           if h \<noteq> mn_ControllerSHA256 (jn_Manifest j) then give (Inl StateConflict) else give (Inr ())
       | PhasePrepared \<Rightarrow> if h \<noteq> jn_PreviousController j then give (Inl StateConflict) else give (Inr ())
       | PhaseCancelled \<Rightarrow> if h \<noteq> jn_PreviousController j then give (Inl StateConflict) else give (Inr ())
       | PhaseRolledBack \<Rightarrow> if h \<noteq> jn_PreviousController j then give (Inl StateConflict) else give (Inr ())
       | PhaseRecovered \<Rightarrow> if h \<noteq> jn_PreviousController j then give (Inl StateConflict) else give (Inr ())
       | PhaseTrial \<Rightarrow>
           if h = mn_ControllerSHA256 (jn_Manifest j) \<and> before now (candidate_deadline j) \<and>
               jn_TrialBootID j = us_BootID s
           then write_journal v (j\<lparr>jn_Phase := PhaseStarting\<rparr>)
           else rollback_locked v j
       | _ \<Rightarrow> rollback_locked v j) (\<lambda>_ e. guard_verdict s now d j e)"
    if j: "dk_Journal d = Stored j" and h: "holds (dk_Controller d) h" for j h
  proof (cases "jn_Phase j")
    case PhaseTrial
    show ?thesis
    proof (cases "h = mn_ControllerSHA256 (jn_Manifest j) \<and> before now (candidate_deadline j) \<and>
        jn_TrialBootID j = us_BootID s")
      case True
      with PhaseTrial j h show ?thesis by (auto intro!: spec_journal simp: guard_verdict_def start_candidate)
    next
      case False
      show ?thesis by (simp only: PhaseTrial upgrade_phase.case if_not_P[OF False] spec_guard_rollback[OF j])
    qed
  next
    case PhaseStopping
    with j h show ?thesis by (auto intro!: spec_copy give_back simp: guard_verdict_def recovering_def)
  qed (simp_all only: upgrade_phase.case spec_guard_rollback[OF j],
      (rule kept[OF h]; use j h in \<open>auto simp: guard_verdict_def\<close>)+)
  show ?thesis
    unfolding guard_def
    apply (rule spec_read)
    apply (split option.split, intro conjI allI impI)
     apply (rule spec_give, force simp: current_Inr journal_of_def split: stored.splits)
    apply (rule spec_read)
    apply (drule current_Some[OF trans[OF _ arg_cong[where f = Inr]]], assumption)
    apply (simp only: journal_of_Some[THEN iffD2] option.case installed_Inr)
    apply (rule verdict)
     apply simp_all
    done
qed

lemma stage_keeps_protocol:
  "crash_spec (operation_move v) d (stage_release v dec metadata binary agentImage)
     (\<lambda>r e. dk_Candidate e = Stored (rr_Release r))"
proof -
  have published: "crash_spec (operation_move v) e (publish_stage v r raw b) (\<lambda>_ _. True)" for e r raw b
    by (auto simp: crash_spec_def publish_stage_def Let_def intro: publish)
  have chosen: "crash_spec (operation_move v) e
      (then_op (atomic_write dk_Candidate (Inr ()) (set_candidate (rr_Release r))) (\<lambda>_. give (Inr r)))
      (\<lambda>r e. dk_Candidate e = Stored (rr_Release r))" for e r
    by (rule spec_then[OF spec_write[where Q = "\<lambda>_ e. dk_Candidate e = Stored (rr_Release r)"]])
      (auto intro: choose spec_give)
  show ?thesis
    unfolding stage_release_def Let_def
    apply (split if_split, intro conjI impI)
     apply (rule spec_fail)
    apply (intro spec_given)
    apply (rule spec_then[OF published])
    apply (rule chosen)
    done
qed

lemma advance_keeps_protocol:
  assumes "(p, q) \<in> {(PhasePrepared, PhaseCancelled), (PhasePrepared, PhaseActivating),
    (PhaseRolledBack, PhaseRecovered), (PhaseRollingBack, PhaseStopping)}"
  shows "crash_spec (operation_move v) d (advance v t p q) (\<lambda>j e. dk_Journal e = Stored j \<and> jn_Phase j = q)"
proof -
  have "q \<noteq> PhaseRollingBack" using assms by auto
  then have "advance v t p q = advance_with v t p q None" by (simp add: advance_def)
  moreover have "crash_spec (operation_move v) d (advance_with v t p q None)
      (\<lambda>j e. dk_Journal e = Stored j \<and> jn_Phase j = q)"
    by (rule spec_advance_with) (use assms in \<open>auto intro: cancel commit agents_recovered claim_stop\<close>)
  ultimately show ?thesis by simp
qed

lemma qualify_keeps_protocol:
  "crash_spec (qualification_move v) d (advance v t PhaseStarting PhaseHealthy)
     (\<lambda>j e. dk_Journal e = Stored j \<and> jn_Phase j = PhaseHealthy)"
proof -
  have "crash_spec (qualification_move v) d (advance_with v t PhaseStarting PhaseHealthy None)
      (\<lambda>j e. dk_Journal e = Stored j \<and> jn_Phase j = PhaseHealthy)"
    by (rule spec_advance_with) (auto simp: qualification_move_def)
  then show ?thesis by (simp add: advance_def)
qed

lemma begin_rollback_keeps_protocol:
  "crash_spec (operation_move v) d (begin_rollback v t p f)
     (\<lambda>j e. dk_Journal e = Stored j \<and> jn_Phase j = PhaseRollingBack)"
  unfolding begin_rollback_def by (auto intro!: spec_advance_with intro: abandon)

lemma calls_keep_protocol:
  "(\<exists>j. c = CallPrepare j) \<and> chain (preparation_move v) d (perform v s c d) \<or>
   (\<exists>t. c = CallQualify t) \<and> chain (qualification_move v) d (perform v s c d) \<or>
   chain (operation_move v) d (perform v s c d)"
  by (cases c)
    (use prepare_keeps_protocol activate_keeps_protocol rollback_keeps_protocol guard_keeps_protocol
      stage_keeps_protocol advance_keeps_protocol begin_rollback_keeps_protocol qualify_keeps_protocol in
      \<open>simp_all add: crash_spec_def\<close>)

lemma chain_mono: "chain R x ys \<Longrightarrow> (\<And>a b. R a b \<Longrightarrow> S a b) \<Longrightarrow> chain S x ys"
  by (induction ys arbitrary: x) auto

lemma perform_chain: "chain (upgrade_move v) d (perform v s c d)"
  using calls_keep_protocol[of c v d s] by (auto elim: chain_mono simp: upgrade_move_def preparation_move_def)

text \<open>\<open>Prepare\<close> writes nothing while another operation is open.\<close>

lemma prepare_open:
  assumes "dk_Journal d = Stored k" "\<not> phase_settled (jn_Phase k)"
  shows "visited (prepare v s j d) = []"
proof -
  have "e \<notin> set (visited (prepare v s j d))" for e
    using assms by (auto simp: prepare_def then_op_visited current_Inr split: if_splits)
  then show ?thesis by (cases "visited (prepare v s j d)") auto
qed

lemma open_chain:
  assumes "dk_Journal d = Stored k" "\<not> phase_settled (jn_Phase k)"
  shows "chain (\<lambda>d e. operation_move v d e \<or> qualification_move v d e) d (perform v s c d)"
  using calls_keep_protocol[of c v d s] prepare_open[OF assms, of v s] by (auto elim: chain_mono)

end
