(* ===== verification/UpgradeProperties.thy ===== *)
theory UpgradeProperties
  imports UpgradeProtocol
begin

text \<open>
  What a Controller upgrade promises over every interleaving of its processes and every crash: the predecessor can
  always be restored, the guard starts the candidate once, recovery is final, the selected release is the last
  qualified one, and the watchdog brings an abandoned upgrade back to its predecessor.
\<close>

section \<open>Invariant\<close>

definition runs_predecessor :: "upgrade_phase \<Rightarrow> bool" where
  "runs_predecessor p \<longleftrightarrow> p \<in> {PhasePrepared, PhaseActivating, PhaseCancelled, PhaseRolledBack, PhaseRecovered}"

definition runs_candidate :: "upgrade_phase \<Rightarrow> bool" where
  "runs_candidate p \<longleftrightarrow> p \<in> {PhaseStarting, PhaseHealthy}"

definition upgrade_inv :: "upgrade_env \<Rightarrow> disk \<Rightarrow> journal \<Rightarrow> bool" where
  "upgrade_inv v d j \<longleftrightarrow>
     journal_validate v j = Inr () \<and>
     (holds (dk_Controller d) (jn_PreviousController j) \<or>
      holds (dk_Controller d) (mn_ControllerSHA256 (jn_Manifest j))) \<and>
     (runs_predecessor (jn_Phase j) \<longrightarrow> holds (dk_Controller d) (jn_PreviousController j)) \<and>
     (runs_candidate (jn_Phase j) \<longrightarrow> holds (dk_Controller d) (mn_ControllerSHA256 (jn_Manifest j))) \<and>
     (\<not> phase_settled (jn_Phase j) \<longrightarrow>
        holds (dk_Previous d) (jn_PreviousController j) \<and> holds (dk_Recovery d) (jn_PreviousController j))"

definition disk_inv :: "upgrade_env \<Rightarrow> disk \<Rightarrow> bool" where
  "disk_inv v d \<longleftrightarrow> (\<forall>j. dk_Journal d = Stored j \<longrightarrow> upgrade_inv v d j)"

lemmas phase_class_defs = runs_predecessor_def runs_candidate_def phase_settled_def recovering_def

lemma disk_inv_stored: "dk_Journal d = Stored j \<Longrightarrow> disk_inv v d \<longleftrightarrow> upgrade_inv v d j"
  by (simp add: disk_inv_def)

lemma can_advance_open: "can_advance p q \<Longrightarrow> \<not> phase_settled p"
  by (cases p) (simp_all add: phase_settled_def)

lemma recovering_open: "recovering p \<Longrightarrow> \<not> phase_settled p"
  by (auto simp: recovering_def phase_settled_def)

text \<open>A new journal of the same operation, over the same files.\<close>

lemma upgrade_inv_journal:
  assumes "upgrade_inv v d j" "\<not> phase_settled (jn_Phase j)" "journal_validate v k = Inr ()"
    "jn_PreviousController k = jn_PreviousController j" "jn_Manifest k = jn_Manifest j"
    "runs_predecessor (jn_Phase k) \<Longrightarrow> holds (dk_Controller d) (jn_PreviousController j)"
    "runs_candidate (jn_Phase k) \<Longrightarrow> holds (dk_Controller d) (mn_ControllerSHA256 (jn_Manifest j))"
  shows "upgrade_inv v (set_journal k d) k"
  using assms by (auto simp: upgrade_inv_def)

lemma operation_move_inv: "operation_move v d e \<Longrightarrow> disk_inv v d \<Longrightarrow> disk_inv v e"
proof (induction rule: operation_move.induct)
  case (save_previous c)
  then show ?case by (simp add: disk_inv_def upgrade_inv_def quiet_journal_def)
next
  case (save_recovery c)
  then show ?case by (simp add: disk_inv_def upgrade_inv_def quiet_journal_def)
next
  case (cancel j j')
  then show ?case
    by (simp add: disk_inv_stored)
      (rule upgrade_inv_journal, assumption, simp_all add: phase_class_defs upgrade_inv_def)
next
  case (commit j j')
  then show ?case
    by (simp add: disk_inv_stored)
      (rule upgrade_inv_journal, assumption, simp_all add: phase_class_defs upgrade_inv_def)
next
  case (attempt j j' b)
  then have "\<not> phase_settled (jn_Phase j)" by (auto simp: phase_settled_def)
  with attempt show ?case
    by (simp add: disk_inv_stored) (rule upgrade_inv_journal, assumption, simp_all add: phase_class_defs)
next
  case (put_candidate j c)
  then show ?case by (simp add: disk_inv_stored upgrade_inv_def phase_class_defs)
next
  case (start_candidate j j')
  then show ?case
    by (simp add: disk_inv_stored) (rule upgrade_inv_journal, assumption, simp_all add: phase_class_defs)
next
  case (abandon j j' f)
  then have "\<not> phase_settled (jn_Phase j)" by (auto dest: can_advance_open)
  with abandon show ?case
    by (simp add: disk_inv_stored) (rule upgrade_inv_journal, assumption, simp_all add: phase_class_defs)
next
  case (claim_stop j j')
  then show ?case
    by (simp add: disk_inv_stored) (rule upgrade_inv_journal, assumption, simp_all add: phase_class_defs)
next
  case (give_back j c)
  then have "\<not> runs_candidate (jn_Phase j)" by (auto simp: recovering_def runs_candidate_def)
  with give_back show ?case by (simp add: disk_inv_stored upgrade_inv_def)
next
  case (put_back j j')
  then show ?case
    by (simp add: disk_inv_stored)
      (rule upgrade_inv_journal, assumption, simp_all add: recovering_open runs_candidate_def)
next
  case (agents_recovered j j')
  then show ?case
    by (simp add: disk_inv_stored)
      (rule upgrade_inv_journal, assumption, simp_all add: phase_class_defs upgrade_inv_def)
qed (simp_all add: disk_inv_def upgrade_inv_def)

lemma opening_move_inv: "opening_move v d e \<Longrightarrow> disk_inv v e"
  by (auto simp: opening_move_def disk_inv_def upgrade_inv_def phase_class_defs)

lemma qualification_move_inv: "qualification_move v d e \<Longrightarrow> disk_inv v d \<Longrightarrow> disk_inv v e"
  unfolding qualification_move_def
  by (elim exE conjE, simp add: disk_inv_stored)
    (rule upgrade_inv_journal, assumption, simp_all add: phase_class_defs upgrade_inv_def)

lemma upgrade_move_inv: "disk_inv v d \<Longrightarrow> upgrade_move v d e \<Longrightarrow> disk_inv v e"
  by (auto simp: upgrade_move_def preparation_move_def intro: operation_move_inv opening_move_inv qualification_move_inv)

lemma upgrade_step_inv: "upgrade_step v d e \<Longrightarrow> disk_inv v d \<Longrightarrow> disk_inv v e"
  by (cases rule: upgrade_step.cases, assumption)
    (auto intro: chain_inv[OF perform_chain] upgrade_move_inv)

lemma upgrade_reachable_inv: "upgrade_reachable v d e \<Longrightarrow> disk_inv v d \<Longrightarrow> disk_inv v e"
  by (induction rule: upgrade_reachable.induct) (auto intro: upgrade_step_inv)

section \<open>An open operation\<close>

text \<open>What one write may do to the journal of an operation.\<close>

definition continues :: "journal \<Rightarrow> journal \<Rightarrow> bool" where
  "continues j k \<longleftrightarrow>
     same_operation k j \<and>
     (recovering (jn_Phase j) \<longrightarrow>
        (recovering (jn_Phase k) \<or> jn_Phase k = PhaseRecovered) \<and> jn_Failure k = jn_Failure j) \<and>
     (jn_Phase j = PhaseRecovered \<longrightarrow> k = j)"

lemma same_operation_iff:
  "same_operation j k \<longleftrightarrow>
     jn_Schema j = jn_Schema k \<and> jn_TaskID j = jn_TaskID k \<and> jn_Release j = jn_Release k \<and>
     jn_Manifest j = jn_Manifest k \<and> jn_PreviousController j = jn_PreviousController k \<and>
     instant (jn_StartedAt j) = instant (jn_StartedAt k) \<and> instant (jn_Deadline j) = instant (jn_Deadline k) \<and>
     jn_Agent j = jn_Agent k"
  unfolding same_operation_def by (cases "jn_Agent j"; cases "jn_Agent k") auto

lemma same_operation_trans: "same_operation j k \<Longrightarrow> same_operation k l \<Longrightarrow> same_operation j l"
  by (simp add: same_operation_iff)

lemma continues_refl [simp]: "continues j j"
  by (simp add: continues_def)

lemma continues_trans: "continues j k \<Longrightarrow> continues k l \<Longrightarrow> continues j l"
  unfolding continues_def using same_operation_trans[of l k j] by (metis)

lemma operation_move_continues:
  "operation_move v d e \<Longrightarrow> dk_Journal d = Stored j \<Longrightarrow> \<exists>k. dk_Journal e = Stored k \<and> continues j k"
  by (induction rule: operation_move.induct) (auto simp: continues_def recovering_def)

lemma qualification_continues:
  "qualification_move v d e \<Longrightarrow> dk_Journal d = Stored j \<Longrightarrow> \<exists>k. dk_Journal e = Stored k \<and> continues j k"
  by (auto simp: qualification_move_def continues_def recovering_def)

lemma operation_chain_continues:
  assumes "chain (\<lambda>d e. operation_move v d e \<or> qualification_move v d e) d ds" "dk_Journal d = Stored j" "e \<in> set ds"
  shows "\<exists>k. dk_Journal e = Stored k \<and> continues j k"
proof (rule chain_inv[OF assms(1) _ _ assms(3)])
  show "\<exists>k. dk_Journal d = Stored k \<and> continues j k" using assms(2) by simp
next
  fix a b
  assume "\<exists>k. dk_Journal a = Stored k \<and> continues j k" "operation_move v a b \<or> qualification_move v a b"
  then show "\<exists>k. dk_Journal b = Stored k \<and> continues j k"
    using operation_move_continues qualification_continues continues_trans by blast
qed

text \<open>A run of steps that ends at the latest when the operation settles.\<close>

inductive open_run :: "upgrade_env \<Rightarrow> disk \<Rightarrow> disk \<Rightarrow> bool" for v d where
  open_start: "open_run v d d"
| open_step: "\<lbrakk>open_run v d e; \<not> quiet_journal e; upgrade_step v e f\<rbrakk> \<Longrightarrow> open_run v d f"

lemma open_run_continues:
  assumes "open_run v d e" "dk_Journal d = Stored j"
  shows "\<exists>k. dk_Journal e = Stored k \<and> continues j k"
  using assms(1)
proof (induction rule: open_run.induct)
  case open_start
  then show ?case using assms(2) by simp
next
  case (open_step e f)
  then obtain k where k: "dk_Journal e = Stored k" "continues j k" by blast
  with open_step.hyps(2) have unsettled: "\<not> phase_settled (jn_Phase k)" by (simp add: quiet_journal_def)
  from open_step.hyps(3) obtain s c where "f \<in> set (perform v s c e)" by (auto elim: upgrade_step.cases)
  then show ?case
    using operation_chain_continues[OF open_chain[OF k(1) unsettled] k(1)] k(2) continues_trans by blast
qed

section \<open>The selected release\<close>

text \<open>The last release that qualified: the one of a healthy journal, or the one retained from it.\<close>

definition last_release :: "disk \<Rightarrow> release_record stored" where
  "last_release d =
     (case journal_of d of
        Some j \<Rightarrow> if jn_Phase j = PhaseHealthy then Stored (qualified_release j) else dk_Selected d
      | None \<Rightarrow> dk_Selected d)"

lemma journal_of_stored [simp]: "dk_Journal d = Stored j \<Longrightarrow> journal_of d = Some j"
  by simp

lemma last_release_cong:
  "dk_Journal e = dk_Journal d \<Longrightarrow> dk_Selected e = dk_Selected d \<Longrightarrow> last_release e = last_release d"
  by (simp add: last_release_def journal_of_def split: stored.splits)

lemma last_release_unqualified:
  "dk_Journal d = Stored j \<Longrightarrow> jn_Phase j \<noteq> PhaseHealthy \<Longrightarrow> last_release d = dk_Selected d"
  by (simp add: last_release_def)

lemma operation_move_release: "operation_move v d e \<Longrightarrow> last_release e = last_release d"
proof (induction rule: operation_move.induct)
  case (retain_release k)
  then show ?case by (simp add: last_release_def)
next
  case (attempt j j' b)
  then have "jn_Phase j \<noteq> PhaseHealthy" by auto
  with attempt show ?case by (simp add: last_release_def)
next
  case (abandon j j' f)
  then have "jn_Phase j \<noteq> PhaseHealthy" by auto
  with abandon show ?case by (simp add: last_release_def)
next
  case (put_back j j')
  then have "jn_Phase j \<noteq> PhaseHealthy" by (auto simp: recovering_def)
  with put_back show ?case by (simp add: last_release_def)
qed (simp_all add: last_release_def journal_of_def split: stored.splits)

lemma opening_move_release:
  assumes "opening_move v d e"
  shows "last_release e = last_release d"
proof -
  from assms obtain j where j: "e = set_journal j d" "jn_Phase j = PhasePrepared"
    "\<forall>k. dk_Journal d = Stored k \<and> jn_Phase k = PhaseHealthy \<longrightarrow> dk_Selected d = Stored (qualified_release k)"
    by (auto simp: opening_move_def)
  then have "last_release e = dk_Selected d" by (simp add: last_release_def)
  moreover have "last_release d = dk_Selected d"
    using j(3) by (auto simp: last_release_def split: option.splits)
  ultimately show ?thesis by simp
qed

lemma current_healthy:
  "current v d = Inr (Some j) \<Longrightarrow> jn_Phase j = PhaseHealthy \<Longrightarrow> last_release d = Stored (qualified_release j)"
  by (auto simp: current_Inr last_release_def)

lemma current_unqualified:
  "current v d = Inr c \<Longrightarrow> \<forall>j. c = Some j \<longrightarrow> jn_Phase j \<noteq> PhaseHealthy \<Longrightarrow> last_release d = dk_Selected d"
  by (auto simp: current_Inr last_release_def journal_of_def split: stored.splits)

lemma selected_is_last:
  assumes "selected v d = Inr r"
  shows "case read_stored (last_release d) of
      Inl e \<Rightarrow> e = FileMissing \<and> r = None
    | Inr x \<Rightarrow> r = Some x \<and> release_validate v x = Inr ()"
proof -
  from assms obtain c where c: "current v d = Inr c" by (auto simp: selected_def)
  show ?thesis
  proof (cases "\<exists>j. c = Some j \<and> jn_Phase j = PhaseHealthy")
    case True
    then obtain j where "c = Some j" "jn_Phase j = PhaseHealthy" by blast
    with c assms current_healthy[of v d j] show ?thesis
      by (auto simp: selected_def Let_def phase_settled_def try_res_unit)
  next
    case False
    with c have "last_release d = dk_Selected d" by (intro current_unqualified) auto
    with False c assms show ?thesis
      by (cases c; cases "read_stored (dk_Selected d)")
        (auto simp: selected_def Let_def try_res_unit split: if_splits)
  qed
qed

lemma perform_release:
  assumes "e \<in> set (perform v s c d)" "\<forall>t. c \<noteq> CallQualify t"
  shows "last_release e = last_release d"
proof -
  have "chain (preparation_move v) d (perform v s c d)"
    using calls_keep_protocol[of c v d s] assms(2) by (auto elim: chain_mono)
  then show ?thesis
  proof (rule chain_inv[OF _ _ _ assms(1), where P = "\<lambda>e. last_release e = last_release d"])
    fix a b
    assume "last_release a = last_release d" "preparation_move v a b"
    then show "last_release b = last_release d"
      by (auto simp: preparation_move_def dest: operation_move_release opening_move_release)
  qed simp
qed

text \<open>Runs of calls other than \<open>Qualify\<close>, each whole or cut off by a crash.\<close>

definition unqualified_step :: "upgrade_env \<Rightarrow> disk \<Rightarrow> disk \<Rightarrow> bool" where
  "unqualified_step v d e \<longleftrightarrow> (\<exists>s c. e \<in> set (perform v s c d) \<and> (\<forall>t. c \<noteq> CallQualify t))"

abbreviation unqualified_run :: "upgrade_env \<Rightarrow> disk \<Rightarrow> disk \<Rightarrow> bool" where
  "unqualified_run v \<equiv> (unqualified_step v)\<^sup>*\<^sup>*"

section \<open>Recovery\<close>

lemma journal_validate_ok:
  "journal_validate v j = Inr () \<longleftrightarrow>
     (jn_Schema j = 2 \<and> id_valid (ue_Ulid v) KindTask (jn_TaskID j) \<and> digest_valid (jn_Release j) \<and>
      digest_valid (jn_PreviousController j) \<and> \<not> is_zero (jn_StartedAt j) \<and>
      zone_offset (jn_StartedAt j) = 0 \<and> zone_offset (jn_Deadline j) = 0 \<and>
      after (jn_Deadline j) (jn_StartedAt j) \<and>
      sub_time (jn_Deadline j) (jn_StartedAt j) \<le> task_timeout_seconds * second \<and>
      manifest_validate v (jn_Manifest j) = Inr () \<and> opt_all (predecessor_valid v) (jn_Agent j)) \<and>
     phase_valid (jn_Phase j) \<and>
     (case jn_Failure j of
        None \<Rightarrow> True
      | Some f \<Rightarrow> fl_Code f \<in> set failure_codes \<and> fl_ExitCode f = 0 \<and>
          (recovering (jn_Phase j) \<or> jn_Phase j = PhaseRecovered)) \<and>
     (jn_TrialBootID j \<noteq> [] \<longrightarrow> valid_boot_id (jn_TrialBootID j)) \<and>
     (jn_Phase j = PhaseTrial \<or> jn_Phase j = PhaseStarting \<or> jn_Phase j = PhaseHealthy \<longrightarrow>
        valid_boot_id (jn_TrialBootID j))"
  by (cases "jn_Failure j"; cases "jn_Agent j")
    (auto simp: journal_validate_def try_res_unit failure_validate_def recovering_def not_less)

text \<open>Failures that the code captures are in the catalogue.\<close>

lemma classify_cause_code: "code = [] \<or> code = ''compose_failed'' \<Longrightarrow> classify_cause e x code \<in> set failure_codes"
  unfolding classify_cause_def by (auto simp: failure_codes_def)

lemma helper_failure_code_listed: "helper_failure_code dg = [] \<or> helper_failure_code dg \<in> set failure_codes"
  by (cases dg) (simp_all add: failure_codes_def)

lemma capture_controller_failure_Some:
  "\<exists>f. capture_controller_failure e = Some f \<and> fl_Code f \<in> set failure_codes \<and> fl_ExitCode f = 0"
  using classify_cause_code[of "[]" "Some e" 0]
  by (simp add: capture_controller_failure_def capture_failure_def)

definition journal_fits :: "upgrade_env \<Rightarrow> journal \<Rightarrow> bool" where
  "journal_fits v j \<longleftrightarrow> (\<exists>n \<le> maximum_journal_bytes. ue_JournalSize v j = Inr n)"

lemma write_journal_ok:
  assumes "journal_validate v j = Inr ()" "journal_fits v j" "dk_Journal d = Stored k"
  shows "write_journal v j d = ([set_journal j d], set_journal j d, Inr ())"
  using assms by (auto simp: write_journal_def journal_fits_def atomic_write_def)

lemma copy_executable_ok:
  assumes "holds (src d) h" "digest_valid h" "dst d = Stored x"
  shows "\<exists>c. src d = Stored c \<and> copy_executable src dst p h d = ([p c d], p c d, Inr ())"
proof -
  from assms(1) obtain c where c: "src d = Stored c" "c \<noteq> []" "length c \<le> maximum_binary_bytes" "hash c = h"
    by (auto simp: holds_def)
  then have "verify_copy c h = Inr ()" using assms(2) by (simp add: verify_copy_Inr)
  with c assms(3) show ?thesis
    by (simp add: copy_executable_def then_op_def reading_def open_regular_Inr[THEN iffD2] atomic_write_def)
qed

section \<open>The watchdog alone\<close>

fun watch_run ::
  "upgrade_env \<Rightarrow> upgrade_store \<Rightarrow> string \<Rightarrow> watch_input list \<Rightarrow> watchdog \<Rightarrow> disk \<Rightarrow> watchdog \<times> disk" where
  "watch_run v s t [] w d = (w, d)"
| "watch_run v s t (i # is) w d = (case watchdog_step v s t i w d of (_, d', w') \<Rightarrow> watch_run v s t is w' d')"

text \<open>The deadline of the candidate has passed, the context is alive and the service manager stops and starts.\<close>

definition expired_input :: "journal \<Rightarrow> watch_input \<Rightarrow> bool" where
  "expired_input j i \<longleftrightarrow>
     wi_Context i = None \<and> wi_Unit i = Inr () \<and> \<not> before (wi_Now i) (candidate_deadline j)"

definition predecessor_back :: "journal \<Rightarrow> watchdog \<times> disk \<Rightarrow> bool" where
  "predecessor_back j r \<longleftrightarrow>
     wd_PC (fst r) = WatchLoop \<and> wd_Started (fst r) \<and> holds (dk_Controller (snd r)) (jn_PreviousController j) \<and>
     (\<exists>k. dk_Journal (snd r) = Stored k \<and> same_operation k j \<and> jn_Phase k = PhaseRolledBack)"

definition leads_back ::
  "upgrade_env \<Rightarrow> upgrade_store \<Rightarrow> journal \<Rightarrow> nat \<Rightarrow> watchdog_pc \<Rightarrow> disk \<Rightarrow> bool" where
  "leads_back v s j n pc d \<longleftrightarrow>
     (\<forall>is. length is = n \<longrightarrow> (\<forall>i \<in> set is. expired_input j i) \<longrightarrow>
        predecessor_back j (watch_run v s (jn_TaskID j) is \<lparr>wd_PC = pc, wd_Started = False\<rparr> d))"

lemma leads_back_Suc:
  assumes "\<And>i. expired_input j i \<Longrightarrow>
      watchdog_step v s (jn_TaskID j) i \<lparr>wd_PC = pc, wd_Started = False\<rparr> d =
        (ds, d', \<lparr>wd_PC = pc', wd_Started = False\<rparr>)"
    and "leads_back v s j n pc' d'"
  shows "leads_back v s j (Suc n) pc d"
  using assms by (auto simp: leads_back_def length_Suc_conv)

text \<open>A disk on which the operation of \<open>j\<close> can be recovered.\<close>

definition recoverable :: "upgrade_env \<Rightarrow> journal \<Rightarrow> disk \<Rightarrow> journal \<Rightarrow> bool" where
  "recoverable v j d k \<longleftrightarrow>
     dk_Journal d = Stored k \<and> journal_validate v k = Inr () \<and> same_operation k j \<and>
     holds (dk_Previous d) (jn_PreviousController j) \<and> (\<exists>x. dk_Controller d = Stored x) \<and>
     (\<forall>l. same_operation l j \<and> journal_validate v l = Inr () \<longrightarrow> journal_fits v l)"

lemma recoverable_facts:
  assumes "recoverable v j d k"
  shows "current v d = Inr (Some k)" "watchdog_current v (jn_TaskID j) d = Inr (k, True)"
    "jn_TaskID k = jn_TaskID j" "jn_PreviousController k = jn_PreviousController j"
    "candidate_deadline k = candidate_deadline k \<and> instant (candidate_deadline k) = instant (candidate_deadline j)"
  using assms
  by (auto simp: recoverable_def current_def watchdog_current_def same_operation_iff candidate_deadline_def
      add_duration_def)

lemma expired_same:
  "expired_input j i \<Longrightarrow> same_operation k j \<Longrightarrow> \<not> before (wi_Now i) (candidate_deadline k)"
  by (simp add: expired_input_def before_def same_operation_iff candidate_deadline_def add_duration_def)

lemma recovering_phase_ok:
  assumes "journal_validate v k = Inr ()" "recovering (jn_Phase k)" "recovering q"
  shows "journal_validate v (k\<lparr>jn_Phase := q\<rparr>) = Inr ()"
proof -
  have q: "phase_valid q" "q \<noteq> PhaseTrial" "q \<noteq> PhaseStarting" "q \<noteq> PhaseHealthy"
    using assms(3) by (auto simp: recovering_def)
  from assms show ?thesis by (cases "jn_Failure k") (simp_all add: journal_validate_ok q)
qed

lemma abandon_ok:
  assumes "journal_validate v k = Inr ()"
  shows "journal_validate v (k\<lparr>jn_Phase := PhaseRollingBack, jn_Failure := capture_controller_failure e\<rparr>) = Inr ()"
proof -
  obtain f where "capture_controller_failure e = Some f" "fl_Code f \<in> set failure_codes" "fl_ExitCode f = 0"
    using capture_controller_failure_Some by blast
  with assms show ?thesis by (simp add: journal_validate_ok recovering_def)
qed

lemma recoverable_journal:
  assumes "recoverable v j d k" "same_operation l k" "journal_validate v l = Inr ()"
  shows "write_journal v l d = ([set_journal l d], set_journal l d, Inr ())" "recoverable v j (set_journal l d) l"
proof -
  have l: "same_operation l j"
    using assms(1) same_operation_trans[OF assms(2)] unfolding recoverable_def by blast
  with assms show "write_journal v l d = ([set_journal l d], set_journal l d, Inr ())"
    by (intro write_journal_ok) (auto simp: recoverable_def)
  from assms l show "recoverable v j (set_journal l d) l" by (simp add: recoverable_def)
qed

lemma leads_back_start:
  assumes "recoverable v j d k" "jn_Phase k = PhaseRolledBack" "holds (dk_Controller d) (jn_PreviousController j)"
  shows "leads_back v s j 1 WatchStart d"
  using assms
  by (auto simp: leads_back_def length_Suc_conv watchdog_step_def expired_input_def stay_def predecessor_back_def
      recoverable_def)

lemma leads_back_restore:
  assumes "recoverable v j d k" "recovering (jn_Phase k)"
  shows "leads_back v s j 2 WatchRestore d"
proof -
  note facts = recoverable_facts[OF assms(1)]
  from assms(1) have "digest_valid (jn_PreviousController k)" "holds (dk_Previous d) (jn_PreviousController k)"
    "\<exists>x. dk_Controller d = Stored x"
    by (auto simp: recoverable_def journal_validate_ok facts(4))
  then obtain c where c: "dk_Previous d = Stored c" "copy_executable dk_Previous dk_Controller set_controller
      (jn_PreviousController k) d = ([set_controller c d], set_controller c d, Inr ())"
    using copy_executable_ok[of dk_Previous d _ dk_Controller _ set_controller] by blast
  define l where "l = k\<lparr>jn_Phase := PhaseRolledBack\<rparr>"
  have at: "recoverable v j (set_controller c d) k"
    using assms(1) by (simp add: recoverable_def)
  have "journal_validate v l = Inr ()"
    using assms recovering_phase_ok[of v k PhaseRolledBack] by (simp add: l_def recoverable_def recovering_def)
  note written = recoverable_journal[OF at _ this, unfolded l_def, OF same_operation_update(1), folded l_def]
  let ?e = "set_journal l (set_controller c d)"
  have "rollback v (jn_TaskID j) d = ([set_controller c d, ?e], ?e, Inr ())"
    using assms(2) c(2) written(1)
    by (auto simp: rollback_def then_op_def reading_def facts rollback_locked_def Let_def recovering_def
        phase_settled_def l_def)
  then have step: "watchdog_step v s (jn_TaskID j) i \<lparr>wd_PC = WatchRestore, wd_Started = False\<rparr> d =
      ([set_controller c d, ?e], ?e, \<lparr>wd_PC = WatchStart, wd_Started = False\<rparr>)" for i
    by (simp add: watchdog_step_def call_store_def)
  have "leads_back v s j 1 WatchStart ?e"
    using leads_back_start[OF written(2)] assms(1) c(1) by (simp add: l_def recoverable_def)
  then show ?thesis using leads_back_Suc[OF step] by (simp add: numeral_2_eq_2)
qed

lemma leads_back_stopping:
  assumes "recoverable v j d k" "jn_Phase k = PhaseStopping"
  shows "leads_back v s j 4 WatchLoop d"
proof -
  have "leads_back v s j 2 WatchRestore d" using leads_back_restore[OF assms(1)] assms(2) by (simp add: recovering_def)
  then have "leads_back v s j (Suc 2) WatchStop d"
    by (rule leads_back_Suc[rotated]) (simp add: watchdog_step_def stay_def call_unit_def expired_input_def)
  then have "leads_back v s j (Suc (Suc 2)) WatchLoop d"
    by (rule leads_back_Suc[rotated])
      (simp add: watchdog_step_def stay_def watchdog_loop_def expired_input_def recoverable_facts[OF assms(1)]
        assms(2) phase_settled_def)
  then show ?thesis by simp
qed

lemma leads_back_rolling:
  assumes "recoverable v j d k" "jn_Phase k = PhaseRollingBack"
  shows "leads_back v s j 6 WatchLoop d"
proof -
  note facts = recoverable_facts[OF assms(1)]
  define l where "l = k\<lparr>jn_Phase := PhaseStopping\<rparr>"
  have "journal_validate v l = Inr ()"
    using assms recovering_phase_ok[of v k PhaseStopping] by (simp add: l_def recoverable_def recovering_def)
  note written = recoverable_journal[OF assms(1) _ this, unfolded l_def, OF same_operation_update(1), folded l_def]
  have "advance v (jn_TaskID j) PhaseRollingBack PhaseStopping d = ([set_journal l d], set_journal l d, Inr l)"
    using assms(2) written(1)
    by (simp add: advance_def advance_with_def then_op_def reading_def give_def facts Let_def l_def)
  then have step: "watchdog_step v s (jn_TaskID j) i \<lparr>wd_PC = WatchClaim, wd_Started = False\<rparr> d =
      ([set_journal l d], set_journal l d, \<lparr>wd_PC = WatchLoop, wd_Started = False\<rparr>)" for i
    by (simp add: watchdog_step_def call_store_def)
  have "leads_back v s j 4 WatchLoop (set_journal l d)"
    using leads_back_stopping[OF written(2)] by (simp add: l_def)
  then have "leads_back v s j (Suc 4) WatchClaim d" by (rule leads_back_Suc[OF step])
  then have "leads_back v s j (Suc (Suc 4)) WatchLoop d"
    by (rule leads_back_Suc[rotated])
      (simp add: watchdog_step_def stay_def watchdog_loop_def expired_input_def facts assms(2) phase_settled_def)
  then show ?thesis by simp
qed

lemma leads_back_committed:
  assumes "recoverable v j d k" "jn_Phase k \<in> {PhaseActivating, PhaseTrial, PhaseStarting}"
  shows "leads_back v s j 9 WatchLoop d"
proof -
  note facts = recoverable_facts[OF assms(1)]
  define l where "l = k\<lparr>jn_Phase := PhaseRollingBack, jn_Failure := capture_controller_failure ContextDeadline\<rparr>"
  have "journal_validate v l = Inr ()"
    using assms(1) abandon_ok by (simp add: l_def recoverable_def)
  note written = recoverable_journal[OF assms(1) _ this, unfolded l_def, OF same_operation_update(2), folded l_def]
  have "begin_rollback v (jn_TaskID j) (jn_Phase k) (capture_controller_failure ContextDeadline) d =
      ([set_journal l d], set_journal l d, Inr l)"
    using assms(2) written(1)
    by (auto simp: begin_rollback_def advance_with_def then_op_def reading_def give_def facts Let_def l_def)
  then have step: "watchdog_step v s (jn_TaskID j) i
      \<lparr>wd_PC = WatchBegin ContextDeadline (jn_Phase k), wd_Started = False\<rparr> d =
      ([set_journal l d], set_journal l d, \<lparr>wd_PC = WatchLoop, wd_Started = False\<rparr>)" for i
    by (simp add: watchdog_step_def call_store_def)
  have "leads_back v s j 6 WatchLoop (set_journal l d)"
    using leads_back_rolling[OF written(2)] by (simp add: l_def)
  then have "leads_back v s j (Suc 6) (WatchBegin ContextDeadline (jn_Phase k)) d"
    by (rule leads_back_Suc[OF step])
  then have "leads_back v s j (Suc (Suc 6)) (WatchRequest ContextDeadline) d"
    by (rule leads_back_Suc[rotated])
      (use assms(2) in \<open>auto simp: watchdog_step_def stay_def watchdog_request_def facts phase_settled_def\<close>)
  then have "leads_back v s j (Suc (Suc (Suc 6))) WatchLoop d"
  proof (rule leads_back_Suc[rotated])
    fix i
    assume i: "expired_input j i"
    have "\<not> before (wi_Now i) (candidate_deadline k)"
      using expired_same[OF i] assms(1) unfolding recoverable_def by blast
    then have "watchdog_loop v (jn_TaskID j) i False d = WatchRequest ContextDeadline"
      using i assms(2) by (elim insertE emptyE)
        (simp_all add: watchdog_loop_def expired_input_def facts(2) phase_settled_def)
    then show "watchdog_step v s (jn_TaskID j) i \<lparr>wd_PC = WatchLoop, wd_Started = False\<rparr> d =
        ([], d, \<lparr>wd_PC = WatchRequest ContextDeadline, wd_Started = False\<rparr>)"
      by (simp add: watchdog_step_def stay_def)
  qed
  then show ?thesis by simp
qed

lemma leads_back_rolled_back:
  assumes "recoverable v j d k" "jn_Phase k = PhaseRolledBack" "holds (dk_Controller d) (jn_PreviousController j)"
  shows "leads_back v s j 2 WatchLoop d"
proof -
  have "leads_back v s j (Suc 1) WatchLoop d"
    by (rule leads_back_Suc[OF _ leads_back_start[OF assms]])
      (simp add: watchdog_step_def stay_def watchdog_loop_def expired_input_def recoverable_facts[OF assms(1)]
        assms(2) phase_settled_def)
  then show ?thesis by (simp add: numeral_2_eq_2)
qed

text \<open>Staging does not touch the journal.\<close>

lemma stage_keeps_journal:
  "crash_spec (\<lambda>a b. dk_Journal b = dk_Journal a) d (stage_release v dec metadata binary agentImage) (\<lambda>_ _. True)"
proof -
  have published: "crash_spec (\<lambda>a b. dk_Journal b = dk_Journal a) e (publish_stage v r raw b) (\<lambda>_ _. True)"
    for e r raw b
    by (simp add: crash_spec_def publish_stage_def Let_def)
  show ?thesis
    unfolding stage_release_def Let_def
    apply (split if_split, intro conjI impI)
     apply (rule spec_fail)
    apply (intro spec_given)
    apply (rule spec_then[OF published])
    apply (rule spec_then[OF spec_write[where Q = "\<lambda>_ _. True"]])
      apply (simp_all add: spec_give)
    done
qed

section \<open>Results\<close>

lemma observed_failure_ok:
  assumes "failure_validate noted = Inr ()" "\<forall>j. found = Some j \<longrightarrow> journal_validate v j = Inr ()"
  shows "failure_validate
     (case found of None \<Rightarrow> noted | Some j \<Rightarrow> if jn_Failure j \<noteq> None then jn_Failure j else noted) = Inr ()"
proof (cases found)
  case (Some j)
  with assms(2) have "journal_validate v j = Inr ()" by simp
  then have "failure_validate (jn_Failure j) = Inr ()"
    by (auto simp: journal_validate_ok failure_validate_def split: option.splits)
  with Some assms(1) show ?thesis by simp
qed (use assms in simp)

lemma captured_ok: "failure_validate (capture_controller_failure e) = Inr ()" "capture_controller_failure e \<noteq> None"
proof -
  obtain f where "capture_controller_failure e = Some f" "fl_Code f \<in> set failure_codes"
    using capture_controller_failure_Some by blast
  then show "failure_validate (capture_controller_failure e) = Inr ()" "capture_controller_failure e \<noteq> None"
    by (simp_all add: failure_validate_def)
qed

section \<open>An example\<close>

lemma hash_valid: "digest_valid (hash raw)"
  using sha256_text_hex[of raw] by (simp add: digest_valid_def hash_def sha256_hex_def has_prefix_def)

definition ux_manifest :: manifest where
  "ux_manifest = \<lparr>mn_Schema = 2, mn_ControllerSHA256 = hash ''new'', mn_ControllerVersion = ''1.0'',
     mn_ControllerSource = \<lparr>pv_Kind = [], pv_Commit = []\<rparr>, mn_AgentImage = ''agent'', mn_StorageEpoch = 44,
     mn_ChannelSchema = 51\<rparr>"

definition ux_env :: upgrade_env where
  "ux_env = \<lparr>ue_Ulid = crockford_ulid, ue_Named = (\<lambda>_. Some (False, Some ''d'')), ue_Digest = (\<lambda>_. Some (True, True)),
     ue_ManifestJSON = (\<lambda>_. Inr ''manifest''), ue_ManifestDecode = (\<lambda>_. Inr ux_manifest),
     ue_JournalSize = (\<lambda>_. Inr 100)\<rparr>"

definition ux_boot :: string where
  "ux_boot = ''12345678-1234-1234-1234-123456789abc''"

definition ux_store :: upgrade_store where
  "ux_store = \<lparr>us_BootID = ux_boot, us_Native = True\<rparr>"

definition ux_journal :: "char \<Rightarrow> string \<Rightarrow> upgrade_phase \<Rightarrow> string \<Rightarrow> journal" where
  "ux_journal c previous p boot = \<lparr>jn_Schema = 2, jn_TaskID = ex_id ''task'' c, jn_Release = hash ''manifest'',
     jn_Manifest = ux_manifest, jn_PreviousController = hash previous, jn_Agent = None,
     jn_StartedAt = \<lparr>instant = 1000000000, loc = UTC\<rparr>, jn_Deadline = \<lparr>instant = 601000000000, loc = UTC\<rparr>,
     jn_Phase = p, jn_TrialBootID = boot, jn_Failure = None\<rparr>"

definition ux_disk :: "journal stored \<Rightarrow> string \<Rightarrow> string stored \<Rightarrow> string stored \<Rightarrow> disk" where
  "ux_disk j controller previous recovery = \<lparr>dk_Journal = j, dk_Selected = Missing, dk_Candidate = Missing,
     dk_Controller = Stored controller, dk_Previous = previous, dk_Recovery = recovery,
     dk_Releases = (\<lambda>_. Stored \<lparr>sr_Manifest = Stored ''manifest'', sr_Controller = Stored ''new''\<rparr>)\<rparr>"

lemma ux_manifest_ok: "manifest_validate ux_env ux_manifest = Inr ()"
proof -
  have "is_digest_pinned ux_env ''agent''" by (simp add: is_digest_pinned_def ux_env_def) code_simp
  moreover have "valid_version ''1.0''" by code_simp
  ultimately show ?thesis
    by (simp add: manifest_validate_def manifest_validate_record_def ux_manifest_def hash_valid
        build_provenance_validate_def)
qed

lemma ux_boot_ok: "valid_boot_id ux_boot"
  unfolding ux_boot_def by code_simp

lemma ux_env_simps [simp]:
  "ue_Ulid ux_env = crockford_ulid" "ue_ManifestJSON ux_env m = Inr ''manifest''"
  "ue_ManifestDecode ux_env raw = Inr ux_manifest" "ue_JournalSize ux_env j = Inr 100"
  by (simp_all add: ux_env_def)

lemma ux_journal_ok:
  assumes "phase_valid p" "c = CHR ''1'' \<or> c = CHR ''2''" "boot = ux_boot \<or> boot = [] \<and> \<not> runs_candidate p \<and> p \<noteq> PhaseTrial"
  shows "journal_validate ux_env (ux_journal c previous p boot) = Inr ()"
proof -
  have "id_valid crockford_ulid KindTask (ex_id ''task'' c)" using assms(2) by (auto simp: KindTask_def)
  then show ?thesis
    using assms(1,3) ux_boot_ok
    by (auto simp: journal_validate_ok ux_journal_def ux_manifest_ok hash_valid zone_offset_def is_zero_def after_def
        sub_time_def runs_candidate_def)
qed

lemma ux_journal_simps [simp]:
  "jn_Phase (ux_journal c previous p boot) = p" "jn_PreviousController (ux_journal c previous p boot) = hash previous"
  "jn_Manifest (ux_journal c previous p boot) = ux_manifest" "jn_TaskID (ux_journal c previous p boot) = ex_id ''task'' c"
  "jn_Release (ux_journal c previous p boot) = hash ''manifest''" "jn_TrialBootID (ux_journal c previous p boot) = boot"
  "jn_Failure (ux_journal c previous p boot) = None"
  "(ux_journal c previous p boot)\<lparr>jn_Phase := q\<rparr> = ux_journal c previous q boot"
  "candidate_deadline (ux_journal c previous p boot) = \<lparr>instant = 451000000000, loc = UTC\<rparr>"
  by (simp_all add: ux_journal_def candidate_deadline_def add_duration_def)

lemma ux_disk_simps [simp]:
  "dk_Journal (ux_disk j a b c) = j" "dk_Controller (ux_disk j a b c) = Stored a" "dk_Previous (ux_disk j a b c) = b"
  "dk_Recovery (ux_disk j a b c) = c" "dk_Selected (ux_disk j a b c) = Missing"
  by (simp_all add: ux_disk_def)

lemma ux_store_simps [simp]: "us_Native ux_store" "us_BootID ux_store = ux_boot"
  by (simp_all add: ux_store_def)

lemma ux_holds [simp]: "holds (Stored ''old'') (hash ''old'')" "holds (Stored ''new'') (hash ''new'')"
  by (simp_all add: holds_def)

lemma ux_manifest_simps [simp]: "mn_ControllerSHA256 ux_manifest = hash ''new''"
  by (simp add: ux_manifest_def)

lemma ux_inspect: "inspect ux_env (ux_disk j a b c) (hash ''manifest'') = Inr ux_manifest"
  by (simp add: inspect_def release_directory_def hash_valid ux_disk_def open_regular_def parse_manifest_def
      ux_manifest_ok verify_copy_def copy_digest_def)

lemma ux_current:
  "dk_Journal d = Stored j \<Longrightarrow> journal_validate ux_env j = Inr () \<Longrightarrow> current ux_env d = Inr (Some j)"
  by (simp add: current_def)

lemma ux_write:
  assumes "journal_validate ux_env j = Inr ()" "\<forall>e. dk_Journal d \<noteq> NotRegular e"
  shows "write_journal ux_env j d = ([set_journal j d], set_journal j d, Inr ())"
  using assms by (cases "dk_Journal d") (simp_all add: write_journal_def atomic_write_def)

lemma ux_copy:
  assumes "src d = Stored c" "holds (Stored c) h" "digest_valid h" "\<forall>e. dst d \<noteq> NotRegular e"
  shows "copy_executable src dst p h d = ([p c d], p c d, Inr ())"
proof -
  have "verify_copy c h = Inr ()" using assms(2,3) by (auto simp: verify_copy_Inr holds_def)
  moreover have "open_regular (src d) maximum_binary_bytes = Inr c"
    using assms(1,2) by (auto simp: open_regular_Inr holds_def)
  ultimately show ?thesis using assms(4)
    by (cases "dst d") (simp_all add: copy_executable_def then_op_def reading_def atomic_write_def)
qed

text \<open>The disks of the example: before, while and after an upgrade is prepared.\<close>

definition ux_start :: disk where
  "ux_start = ux_disk Missing ''old'' Missing Missing"

definition ux_prepared :: disk where
  "ux_prepared = set_journal (ux_journal CHR ''1'' ''old'' PhasePrepared [])
     (set_recovery ''old'' (set_previous ''old'' ux_start))"

lemma ux_prepare:
  "prepare ux_env ux_store (ux_journal CHR ''1'' ''old'' PhasePrepared []) ux_start =
     ([set_previous ''old'' ux_start, set_recovery ''old'' (set_previous ''old'' ux_start), ux_prepared],
      ux_prepared, Inr ())"
proof -
  have ok: "journal_validate ux_env (ux_journal CHR ''1'' ''old'' PhasePrepared []) = Inr ()"
    by (rule ux_journal_ok) (simp_all add: runs_candidate_def)
  have none: "current ux_env ux_start = Inr None" by (simp add: current_def ux_start_def)
  have seen: "inspect ux_env ux_start (hash ''manifest'') = Inr ux_manifest" by (simp add: ux_start_def ux_inspect)
  have first: "copy_executable dk_Controller dk_Previous set_previous (hash ''old'') ux_start =
      ([set_previous ''old'' ux_start], set_previous ''old'' ux_start, Inr ())"
    by (rule ux_copy) (simp_all add: ux_start_def hash_valid)
  have second: "copy_executable dk_Controller dk_Recovery set_recovery (hash ''old'') (set_previous ''old'' ux_start) =
      ([set_recovery ''old'' (set_previous ''old'' ux_start)], set_recovery ''old'' (set_previous ''old'' ux_start), Inr ())"
    by (rule ux_copy) (simp_all add: ux_start_def hash_valid)
  have third: "write_journal ux_env (ux_journal CHR ''1'' ''old'' PhasePrepared [])
      (set_recovery ''old'' (set_previous ''old'' ux_start)) = ([ux_prepared], ux_prepared, Inr ())"
    unfolding ux_prepared_def by (rule ux_write[OF ok]) (simp add: ux_start_def)
  show ?thesis
    by (simp add: prepare_def ok then_op_def reading_def none seen first second third)
qed

definition ux_activating :: disk where
  "ux_activating = set_journal (ux_journal CHR ''1'' ''old'' PhaseActivating []) ux_prepared"

lemma ux_commit:
  "advance ux_env (ex_id ''task'' CHR ''1'') PhasePrepared PhaseActivating ux_prepared =
     ([ux_activating], ux_activating, Inr (ux_journal CHR ''1'' ''old'' PhaseActivating []))"
proof -
  have c: "current ux_env ux_prepared = Inr (Some (ux_journal CHR ''1'' ''old'' PhasePrepared []))"
    by (rule ux_current) (simp_all add: ux_prepared_def ux_journal_ok runs_candidate_def)
  have w: "write_journal ux_env (ux_journal CHR ''1'' ''old'' PhaseActivating []) ux_prepared =
      ([ux_activating], ux_activating, Inr ())"
    unfolding ux_activating_def
    by (rule ux_write) (simp_all add: ux_prepared_def ux_journal_ok runs_candidate_def)
  show ?thesis by (simp add: advance_def advance_with_def then_op_def reading_def give_def c Let_def w)
qed

lemma ux_steps:
  "upgrade_step ux_env ux_start ux_prepared" "upgrade_step ux_env ux_prepared ux_activating"
  "dk_Journal ux_start = Missing" "dk_Journal ux_prepared = Stored (ux_journal CHR ''1'' ''old'' PhasePrepared [])"
  "dk_Journal ux_activating = Stored (ux_journal CHR ''1'' ''old'' PhaseActivating [])"
proof -
  show "upgrade_step ux_env ux_start ux_prepared"
    by (rule upgrade_step.performed[where s = ux_store and c = "CallPrepare (ux_journal CHR ''1'' ''old'' PhasePrepared [])"])
      (simp add: ux_prepare)
  show "upgrade_step ux_env ux_prepared ux_activating"
    by (rule upgrade_step.performed[where s = ux_store and c = "CallCommit (ex_id ''task'' CHR ''1'')"])
      (simp add: ux_commit)
qed (simp_all add: ux_start_def ux_prepared_def ux_activating_def)

lemma ux_reachable: "upgrade_reachable ux_env ux_start ux_activating"
  by (meson ux_steps(1,2) upgrade_reachable.intros)

section \<open>Properties\<close>

text \<open>C24. Crash safety of the upgrade. On every disk that the processes of an upgrade can leave, in whatever order their
  calls run and wherever a call is cut off, the journal is valid and the installed executable is the predecessor or the
  candidate of its operation: the predecessor before the trial and after the recovery, the candidate from the recorded
  start on. Until the operation settles, the predecessor is kept twice, for the rollback and for the recovery unit.
\<close>

theorem predecessor_always_restorable:
  assumes "dk_Journal d = Missing" "upgrade_reachable v d e" "dk_Journal e = Stored j"
  shows "journal_validate v j = Inr () \<and>
    (holds (dk_Controller e) (jn_PreviousController j) \<or>
     holds (dk_Controller e) (mn_ControllerSHA256 (jn_Manifest j))) \<and>
    (jn_Phase j \<in> {PhasePrepared, PhaseActivating, PhaseCancelled, PhaseRolledBack, PhaseRecovered} \<longrightarrow>
       holds (dk_Controller e) (jn_PreviousController j)) \<and>
    (jn_Phase j \<in> {PhaseStarting, PhaseHealthy} \<longrightarrow>
       holds (dk_Controller e) (mn_ControllerSHA256 (jn_Manifest j))) \<and>
    (\<not> phase_settled (jn_Phase j) \<longrightarrow>
       holds (dk_Previous e) (jn_PreviousController j) \<and> holds (dk_Recovery e) (jn_PreviousController j))"
proof -
  have "disk_inv v d" using assms(1) by (simp add: disk_inv_def)
  then have "disk_inv v e" using assms(2) by (rule upgrade_reachable_inv[rotated])
  then have "upgrade_inv v e j" using assms(3) by (simp add: disk_inv_def)
  then show ?thesis unfolding upgrade_inv_def runs_predecessor_def runs_candidate_def by blast
qed

theorem predecessor_always_restorable_witness:
  "journal_validate ux_env (ux_journal CHR ''1'' ''old'' PhaseActivating []) = Inr () \<and>
   holds (dk_Controller ux_activating) (hash ''old'') \<and> holds (dk_Previous ux_activating) (hash ''old'') \<and>
   holds (dk_Recovery ux_activating) (hash ''old'')"
  using predecessor_always_restorable[OF ux_steps(3) ux_reachable ux_steps(5)] by (simp add: phase_settled_def)

text \<open>C26. What the startup guard lets run. When \<open>Guard\<close> returns without an error, the candidate is installed only if its
  operation is healthy, or if this very call recorded the start of the trial, before the deadline of the candidate and
  on the boot of its activation. In every other case the predecessor is installed, and the journal says that it was
  never replaced, that its stop is pending, or that it was rolled back. A second start of an unfinished candidate is
  therefore always a rollback.
\<close>

theorem guard_starts_candidate_once:
  assumes "guard v s now d = (ds, e, Inr ())" "dk_Journal d = Stored j"
  shows "holds (dk_Controller e) (jn_PreviousController j) \<and>
      (e = d \<and> jn_Phase j \<in> {PhasePrepared, PhaseCancelled, PhaseRolledBack, PhaseRecovered} \<or>
       dk_Journal e = Stored j \<and> jn_Phase j = PhaseStopping \<or>
       (\<exists>k. dk_Journal e = Stored k \<and> same_operation k j \<and> jn_Phase k = PhaseRolledBack)) \<or>
    holds (dk_Controller e) (mn_ControllerSHA256 (jn_Manifest j)) \<and>
      (e = d \<and> jn_Phase j = PhaseHealthy \<or>
       e = set_journal (j\<lparr>jn_Phase := PhaseStarting\<rparr>) d \<and> jn_Phase j = PhaseTrial \<and>
         before now (candidate_deadline j) \<and> jn_TrialBootID j = us_BootID s)"
proof -
  have "\<forall>a. outcome_of (guard v s now d) = Inr a \<longrightarrow>
      (case journal_of d of None \<Rightarrow> final_disk (guard v s now d) = d
       | Some j \<Rightarrow> guard_verdict s now d j (final_disk (guard v s now d)))"
    using guard_keeps_protocol[of v d s now] unfolding crash_spec_def by blast
  then have "guard_verdict s now d j e"
    unfolding assms(1) op_simps journal_of_stored[OF assms(2)] by simp
  then show ?thesis unfolding guard_verdict_def .
qed

definition ux_trial :: disk where
  "ux_trial = ux_disk (Stored (ux_journal CHR ''1'' ''old'' PhaseTrial ux_boot)) ''new'' (Stored ''old'') (Stored ''old'')"

lemma ux_guard:
  "guard ux_env ux_store \<lparr>instant = 2000000000, loc = UTC\<rparr> ux_trial =
     ([set_journal (ux_journal CHR ''1'' ''old'' PhaseStarting ux_boot) ux_trial],
      set_journal (ux_journal CHR ''1'' ''old'' PhaseStarting ux_boot) ux_trial, Inr ())"
proof -
  have c: "current ux_env ux_trial = Inr (Some (ux_journal CHR ''1'' ''old'' PhaseTrial ux_boot))"
    by (rule ux_current) (simp_all add: ux_trial_def ux_journal_ok)
  have i: "installed ux_store ux_trial = Inr (hash ''new'')"
    by (simp add: installed_Inr ux_trial_def)
  have w: "write_journal ux_env (ux_journal CHR ''1'' ''old'' PhaseStarting ux_boot) ux_trial =
      ([set_journal (ux_journal CHR ''1'' ''old'' PhaseStarting ux_boot) ux_trial],
       set_journal (ux_journal CHR ''1'' ''old'' PhaseStarting ux_boot) ux_trial, Inr ())"
    by (rule ux_write) (simp_all add: ux_trial_def ux_journal_ok)
  show ?thesis by (simp add: guard_def then_op_def reading_def c i w before_def)
qed

theorem guard_starts_candidate_once_witness:
  "holds (dk_Controller (set_journal (ux_journal CHR ''1'' ''old'' PhaseStarting ux_boot) ux_trial)) (hash ''old'') \<or>
   holds (dk_Controller (set_journal (ux_journal CHR ''1'' ''old'' PhaseStarting ux_boot) ux_trial)) (hash ''new'')"
  using guard_starts_candidate_once[OF ux_guard, of "ux_journal CHR ''1'' ''old'' PhaseTrial ux_boot"]
  by (auto simp: ux_trial_def)

text \<open>An open operation owns the journal until it settles. Along every run of calls that ends at the latest with its
  settlement, the journal stays the same operation; and once its recovery has begun, it can only end as recovered, with
  the failure that was recorded first.
\<close>

theorem recovery_is_final:
  assumes "open_run v d e" "dk_Journal d = Stored j"
  shows "\<exists>k. dk_Journal e = Stored k \<and> same_operation k j \<and>
    (jn_Phase j \<in> {PhaseRollingBack, PhaseStopping, PhaseRolledBack} \<longrightarrow>
       jn_Phase k \<in> {PhaseRollingBack, PhaseStopping, PhaseRolledBack, PhaseRecovered} \<and>
       jn_Failure k = jn_Failure j)"
  using open_run_continues[OF assms] unfolding continues_def recovering_def by blast

theorem recovery_is_final_witness:
  "\<exists>k. dk_Journal ux_activating = Stored k \<and>
     same_operation k (ux_journal CHR ''1'' ''old'' PhasePrepared [])"
proof -
  have "open_run ux_env ux_prepared ux_activating"
    by (rule open_step[OF open_start _ ux_steps(2)]) (simp add: quiet_journal_def ux_steps phase_settled_def)
  from recovery_is_final[OF this ux_steps(4)] show ?thesis by blast
qed

lemma unqualified_run_release:
  "unqualified_run v d e \<Longrightarrow> last_release e = last_release d"
  by (induction rule: rtranclp_induct) (auto simp: unqualified_step_def dest: perform_release)

lemma selected_from_last:
  assumes "last_release e = last_release d" "selected v d = Inr r"
  shows "selected v e =
    try_res (current v e) (\<lambda>c. case c of
        None \<Rightarrow> Inr r
      | Some j \<Rightarrow> if phase_settled (jn_Phase j) then Inr r else Inl ResourceInUse)"
proof (cases "current v e")
  case (Inr c)
  note last = selected_is_last[OF assms(2)]
  show ?thesis
  proof (cases "\<exists>j. c = Some j \<and> jn_Phase j = PhaseHealthy")
    case True
    then obtain j where j: "c = Some j" "jn_Phase j = PhaseHealthy" by blast
    with Inr have "last_release e = Stored (qualified_release j)" by (intro current_healthy) auto
    with assms(1) have "last_release d = Stored (qualified_release j)" by simp
    with last j Inr show ?thesis by (simp add: selected_def phase_settled_def)
  next
    case False
    with Inr have "last_release e = dk_Selected e" by (intro current_unqualified) auto
    with assms(1) last Inr False show ?thesis
      by (cases c) (auto simp: selected_def Let_def split: option.splits sum.splits)
  qed
qed (simp add: selected_def)

text \<open>C28. Only \<open>Qualify\<close> changes the selected release. When \<open>Selected\<close> answers on a disk, then after every run of calls
  without \<open>Qualify\<close>, each of them whole or cut off by a crash after any of its writes, \<open>Selected\<close> is determined: it
  gives the same release whenever there is no journal or the journal is settled (also after further upgrades were
  prepared and cancelled, or failed and recovered), and it refuses with \<open>ResourceInUse\<close> exactly while an upgrade is
  open, or with the error of the journal when that cannot be read.
\<close>

theorem selection_survives_crashes:
  assumes "unqualified_run v d e" "selected v d = Inr r"
  shows "selected v e =
    try_res (current v e) (\<lambda>c. case c of
        None \<Rightarrow> Inr r
      | Some j \<Rightarrow> if phase_settled (jn_Phase j) then Inr r else Inl ResourceInUse)"
  by (rule selected_from_last[OF unqualified_run_release[OF assms(1)] assms(2)])

definition ux_healthy :: disk where
  "ux_healthy = ux_disk (Stored (ux_journal CHR ''1'' ''old'' PhaseHealthy ux_boot)) ''new'' (Stored ''old'') (Stored ''old'')"

text \<open>An upgrade is qualified; the next one is prepared over it and cancelled.\<close>

definition ux_retained :: disk where
  "ux_retained = set_selected (qualified_release (ux_journal CHR ''1'' ''old'' PhaseHealthy ux_boot))
     (set_recovery ''new'' (set_previous ''new'' ux_healthy))"

definition ux_again :: disk where
  "ux_again = set_journal (ux_journal CHR ''2'' ''new'' PhasePrepared []) ux_retained"

definition ux_cancelled :: disk where
  "ux_cancelled = set_journal (ux_journal CHR ''2'' ''new'' PhaseCancelled []) ux_again"

lemma ux_release_ok:
  "release_validate ux_env (qualified_release (ux_journal CHR ''1'' ''old'' PhaseHealthy ux_boot)) = Inr ()"
  using ux_manifest_ok
  by (simp add: release_validate_def release_validate_record_def qualified_release_def hash_valid manifest_validate_def
      try_res_unit)

lemma ux_prepare_again:
  "ux_again \<in> set (perform ux_env ux_store (CallPrepare (ux_journal CHR ''2'' ''new'' PhasePrepared [])) ux_healthy)"
proof -
  let ?j = "ux_journal CHR ''2'' ''new'' PhasePrepared []"
  have ok: "journal_validate ux_env ?j = Inr ()"
    by (rule ux_journal_ok) (simp_all add: runs_candidate_def)
  have c: "current ux_env ux_healthy = Inr (Some (ux_journal CHR ''1'' ''old'' PhaseHealthy ux_boot))"
    by (rule ux_current) (simp_all add: ux_healthy_def ux_journal_ok)
  have seen: "inspect ux_env ux_healthy (hash ''manifest'') = Inr ux_manifest"
    by (simp add: ux_healthy_def ux_inspect)
  have first: "copy_executable dk_Controller dk_Previous set_previous (hash ''new'') ux_healthy =
      ([set_previous ''new'' ux_healthy], set_previous ''new'' ux_healthy, Inr ())"
    by (rule ux_copy) (simp_all add: ux_healthy_def hash_valid)
  have second: "copy_executable dk_Controller dk_Recovery set_recovery (hash ''new'') (set_previous ''new'' ux_healthy) =
      ([set_recovery ''new'' (set_previous ''new'' ux_healthy)], set_recovery ''new'' (set_previous ''new'' ux_healthy),
       Inr ())"
    by (rule ux_copy) (simp_all add: ux_healthy_def hash_valid)
  have third: "retain_selection ux_env (ux_journal CHR ''1'' ''old'' PhaseHealthy ux_boot)
      (set_recovery ''new'' (set_previous ''new'' ux_healthy)) = ([ux_retained], ux_retained, Inr ())"
    by (simp add: retain_selection_def ux_release_ok atomic_write_def ux_retained_def ux_healthy_def)
  have fourth: "write_journal ux_env ?j ux_retained = ([ux_again], ux_again, Inr ())"
    unfolding ux_again_def by (rule ux_write[OF ok]) (simp add: ux_retained_def ux_healthy_def)
  show ?thesis
    by (simp add: prepare_def ok then_op_def reading_def c seen first second third fourth phase_settled_def)
qed

lemma ux_cancel: "ux_cancelled \<in> set (perform ux_env ux_store (CallCancel (ex_id ''task'' CHR ''2'')) ux_again)"
proof -
  have c: "current ux_env ux_again = Inr (Some (ux_journal CHR ''2'' ''new'' PhasePrepared []))"
    by (rule ux_current) (simp_all add: ux_again_def ux_journal_ok runs_candidate_def)
  have w: "write_journal ux_env (ux_journal CHR ''2'' ''new'' PhaseCancelled []) ux_again =
      ([ux_cancelled], ux_cancelled, Inr ())"
    unfolding ux_cancelled_def
    by (rule ux_write) (simp_all add: ux_again_def ux_journal_ok runs_candidate_def)
  show ?thesis by (simp add: advance_def advance_with_def then_op_def reading_def give_def c w Let_def)
qed

theorem selection_survives_crashes_witness:
  "selected ux_env ux_cancelled = Inr (Some (qualified_release (ux_journal CHR ''1'' ''old'' PhaseHealthy ux_boot)))"
proof -
  have c: "current ux_env ux_healthy = Inr (Some (ux_journal CHR ''1'' ''old'' PhaseHealthy ux_boot))"
    "current ux_env ux_cancelled = Inr (Some (ux_journal CHR ''2'' ''new'' PhaseCancelled []))"
    by (rule ux_current; simp add: ux_healthy_def ux_cancelled_def ux_journal_ok runs_candidate_def)+
  have before: "selected ux_env ux_healthy =
      Inr (Some (qualified_release (ux_journal CHR ''1'' ''old'' PhaseHealthy ux_boot)))"
    by (simp add: selected_def c Let_def phase_settled_def ux_release_ok)
  have "unqualified_step ux_env ux_healthy ux_again" "unqualified_step ux_env ux_again ux_cancelled"
    unfolding unqualified_step_def using ux_prepare_again ux_cancel by blast+
  then have "unqualified_run ux_env ux_healthy ux_cancelled" by (meson converse_rtranclp_into_rtranclp r_into_rtranclp)
  from selection_survives_crashes[OF this before] show ?thesis by (simp add: c phase_settled_def)
qed

text \<open>C27. The watchdog brings an abandoned upgrade back. From every disk of a committed upgrade that has not settled, with
  the deadline of the candidate passed, a service manager that stops and starts, and journals that fit their file, at
  most nine steps of the watchdog alone restore the predecessor, record the rollback and start the service.
\<close>

theorem watchdog_restores_predecessor:
  assumes "dk_Journal d0 = Missing" "upgrade_reachable v d0 d" "dk_Journal d = Stored j"
    "jn_Phase j \<in> {PhaseActivating, PhaseTrial, PhaseStarting, PhaseRollingBack, PhaseStopping, PhaseRolledBack}"
    "\<forall>k. same_operation k j \<and> journal_validate v k = Inr () \<longrightarrow> journal_fits v k"
  shows "\<exists>n \<le> 9. \<forall>is. length is = n \<and> (\<forall>i \<in> set is. expired_input j i) \<longrightarrow>
    predecessor_back j (watch_run v s (jn_TaskID j) is \<lparr>wd_PC = WatchLoop, wd_Started = False\<rparr> d)"
proof -
  have "disk_inv v d0" using assms(1) by (simp add: disk_inv_def)
  then have inv: "upgrade_inv v d j" using upgrade_reachable_inv[OF assms(2)] assms(3) by (simp add: disk_inv_def)
  have "\<not> phase_settled (jn_Phase j)" using assms(4) by (auto simp: phase_settled_def)
  with inv assms(3,5) have r: "recoverable v j d j"
    by (auto simp: recoverable_def upgrade_inv_def holds_def)
  have "\<exists>n \<le> 9. leads_back v s j n WatchLoop d"
  proof (cases "jn_Phase j = PhaseRolledBack")
    case True
    with inv have "holds (dk_Controller d) (jn_PreviousController j)"
      by (simp add: upgrade_inv_def runs_predecessor_def)
    then show ?thesis using leads_back_rolled_back[OF r True] by (intro exI[of _ 2]) simp
  next
    case False
    with assms(4) consider "jn_Phase j \<in> {PhaseActivating, PhaseTrial, PhaseStarting}"
      | "jn_Phase j = PhaseRollingBack" | "jn_Phase j = PhaseStopping" by blast
    then show ?thesis
    proof cases
      case 1
      then show ?thesis using leads_back_committed[OF r 1] by blast
    next
      case 2
      then show ?thesis using leads_back_rolling[OF r 2] by (intro exI[of _ 6]) simp
    next
      case 3
      then show ?thesis using leads_back_stopping[OF r 3] by (intro exI[of _ 4]) simp
    qed
  qed
  then show ?thesis unfolding leads_back_def by blast
qed

theorem watchdog_restores_predecessor_witness:
  "\<exists>n \<le> 9. \<forall>is. length is = n \<and> (\<forall>i \<in> set is. expired_input (ux_journal CHR ''1'' ''old'' PhaseActivating []) i) \<longrightarrow>
    predecessor_back (ux_journal CHR ''1'' ''old'' PhaseActivating [])
      (watch_run ux_env ux_store (ex_id ''task'' CHR ''1'') is \<lparr>wd_PC = WatchLoop, wd_Started = False\<rparr> ux_activating)"
  using watchdog_restores_predecessor[OF ux_steps(3) ux_reachable ux_steps(5), of ux_store]
  by (simp add: journal_fits_def)

text \<open>A claimed stop blocks the qualification of the predecessor. While the journal is in the stopping phase, no call of
  any process but the rollback of the watchdog changes the journal, whatever it is and wherever it is cut off: the
  starting predecessor cannot be recorded as rolled back before the stop has completed.
\<close>

theorem stop_claim_holds:
  assumes "dk_Journal d = Stored j" "jn_Phase j = PhaseStopping" "\<forall>t. c \<noteq> CallRollback t"
    "e \<in> set (perform v s c d)"
  shows "dk_Journal e = Stored j"
proof (cases c)
  case (CallPrepare k)
  with assms prepare_open[OF assms(1)] show ?thesis by (simp add: phase_settled_def)
next
  case (CallGuard now)
  have "e \<in> set (visited (copy_executable dk_Previous dk_Controller set_controller (jn_PreviousController j) d))"
    using assms CallGuard by (auto simp: guard_def then_op_visited current_Inr)
  then show ?thesis
    using copy_executable_run[of dk_Previous dk_Controller set_controller "jn_PreviousController j" d] assms(1) by auto
next
  case (CallStage dec metadata binary agentImage)
  then have "chain (\<lambda>a b. dk_Journal b = dk_Journal a) d (perform v s c d)"
    using stage_keeps_journal[of d v dec metadata binary agentImage] by (simp add: crash_spec_def)
  from chain_inv[OF this _ _ assms(4), of "\<lambda>a. dk_Journal a = Stored j"] assms(1) show ?thesis by simp
next
  case (CallRollback t)
  with assms(3) show ?thesis by simp
qed (use assms in \<open>auto simp: advance_def begin_rollback_def advance_with_def activate_def then_op_visited current_Inr
      split: if_splits\<close>)

definition ux_stopping :: disk where
  "ux_stopping = ux_disk (Stored (ux_journal CHR ''1'' ''old'' PhaseStopping [])) ''new'' (Stored ''old'') (Stored ''old'')"

theorem stop_claim_holds_witness:
  "dk_Journal (set_controller ''old'' ux_stopping) = Stored (ux_journal CHR ''1'' ''old'' PhaseStopping [])"
proof -
  have c: "current ux_env ux_stopping = Inr (Some (ux_journal CHR ''1'' ''old'' PhaseStopping []))"
    by (rule ux_current) (simp_all add: ux_stopping_def ux_journal_ok runs_candidate_def)
  have i: "installed ux_store ux_stopping = Inr (hash ''new'')" by (simp add: installed_Inr ux_stopping_def)
  have "copy_executable dk_Previous dk_Controller set_controller (hash ''old'') ux_stopping =
      ([set_controller ''old'' ux_stopping], set_controller ''old'' ux_stopping, Inr ())"
    by (rule ux_copy) (simp_all add: ux_stopping_def hash_valid)
  then have "set_controller ''old'' ux_stopping \<in> set (perform ux_env ux_store (CallGuard zero_time) ux_stopping)"
    by (simp add: guard_def then_op_def reading_def c i)
  then show ?thesis by (rule stop_claim_holds[rotated 3]) (simp_all add: ux_stopping_def)
qed

text \<open>C25. The operations of the store refine the protocol of an upgrade: on any disk, every write that a call makes, in
  sequence, is one of the moves of the protocol and finds on the disk what that move requires, so that a call that is
  cut off after some of its writes is a shorter run of the same protocol.
\<close>

theorem calls_refine_protocol: "chain (upgrade_move v) d (perform v s c d)"
  by (rule perform_chain)

text \<open>
  The result of a settled upgrade is always accepted. From a settled journal of the operation, or none, and a status
  that claims success only for a healthy one, the result that \<open>Execute\<close> builds passes its validation, carries a failure
  exactly when it did not succeed, and prefers the failure that the journal recorded first.
\<close>

theorem settled_result_validates:
  assumes "journal_validate v expected = Inr ()" "failure_validate noted = Inr ()"
    "status \<in> {Succeeded, Failed, Cancelled}"
    "\<forall>j. found = Some j \<longrightarrow>
       journal_validate v j = Inr () \<and> same_operation j expected \<and> phase_settled (jn_Phase j)"
    "status = Succeeded \<longrightarrow> (\<exists>j. found = Some j \<and> jn_Phase j = PhaseHealthy)"
  shows "\<exists>f. execution_result_of v expected status noted found now =
      Inr \<lparr>xr_Outcome = status, xr_Settled = True, xr_Journal = found, xr_Failure = f\<rparr> \<and>
    (f = None \<longleftrightarrow> status = Succeeded) \<and>
    (\<forall>j. found = Some j \<and> jn_Failure j \<noteq> None \<and> status \<noteq> Succeeded \<longrightarrow> f = jn_Failure j)"
proof -
  define observed where "observed =
    (case found of None \<Rightarrow> noted | Some j \<Rightarrow> if jn_Failure j \<noteq> None then jn_Failure j else noted)"
  define f where "f =
    (if status = Succeeded then None
     else if observed = None then
       (if status = Cancelled then capture_controller_failure ContextCanceled
        else if \<not> before now (jn_Deadline expected) then capture_controller_failure ContextDeadline
        else capture_controller_failure RequestFailed)
     else observed)"
  have "failure_validate observed = Inr ()"
    unfolding observed_def by (rule observed_failure_ok[where v = v]) (use assms in auto)
  moreover have "failure_validate None = Inr ()" by (simp add: failure_validate_def)
  ultimately have valid: "failure_validate f = Inr ()" by (simp add: f_def captured_ok)
  have set: "f = None \<longleftrightarrow> status = Succeeded" using captured_ok(2) unfolding f_def by (metis (full_types))
  let ?r = "\<lparr>xr_Outcome = status, xr_Settled = True, xr_Journal = found, xr_Failure = f\<rparr>"
  have "execution_result_validate v ?r expected = Inr ()"
    using assms valid set by (cases found) (auto simp: execution_result_validate_def)
  then have "execution_result_of v expected status noted found now = Inr ?r"
    by (simp add: execution_result_of_def Let_def observed_def[symmetric] f_def[symmetric])
  moreover have "f = jn_Failure j" if "found = Some j" "jn_Failure j \<noteq> None" "status \<noteq> Succeeded" for j
    using that by (auto simp: f_def observed_def)
  ultimately show ?thesis using set by blast
qed

theorem settled_result_validates_witness:
  "\<exists>f. execution_result_of ux_env (ux_journal CHR ''1'' ''old'' PhasePrepared []) Succeeded None
      (Some (ux_journal CHR ''1'' ''old'' PhaseHealthy ux_boot)) zero_time =
    Inr \<lparr>xr_Outcome = Succeeded, xr_Settled = True,
      xr_Journal = Some (ux_journal CHR ''1'' ''old'' PhaseHealthy ux_boot), xr_Failure = f\<rparr> \<and> f = None"
proof -
  have "same_operation (ux_journal CHR ''1'' ''old'' PhaseHealthy ux_boot) (ux_journal CHR ''1'' ''old'' PhasePrepared [])"
    by (simp add: same_operation_def ux_journal_def)
  then show ?thesis
    using settled_result_validates[of ux_env "ux_journal CHR ''1'' ''old'' PhasePrepared []" None Succeeded
        "Some (ux_journal CHR ''1'' ''old'' PhaseHealthy ux_boot)" zero_time]
    by (auto simp: ux_journal_ok runs_candidate_def failure_validate_def phase_settled_def)
qed

text \<open>
  A failure captured on the Agent survives its report: the Controller accepts it and reads the same observation, and
  nothing is reported exactly when there was no error, no exit code and no diagnostic.
\<close>

theorem failure_report_round_trip:
  "failure_from_agent (capture_step_failure e x dg) = Inr (capture_step_failure e x dg) \<and>
   (capture_step_failure e x dg = None \<longleftrightarrow> e = None \<and> x = 0 \<and> helper_failure_code dg = [])"
proof -
  have "fl_Code f \<in> set failure_codes" if "capture_step_failure e x dg = Some f" for f
    using that helper_failure_code_listed[of dg] classify_cause_code[of "helper_failure_code dg" e x]
    by (auto simp: capture_step_failure_def capture_failure_def split: if_splits)
  then show ?thesis
    by (cases "capture_step_failure e x dg")
      (auto simp: failure_from_agent_def failure_validate_def try_res_unit capture_step_failure_def capture_failure_def
        split: if_splits)
qed

text \<open>
  Ordinary mutations are admitted only while the installed executable is the untouched, the restored or the qualified
  one, never during a trial.
\<close>

theorem mutations_wait_for_recovery:
  assumes "dk_Journal d = Missing" "upgrade_reachable v d e" "dk_Journal e = Stored j"
    "check_mutation v recoveryTaskID e = Inr ()" "recoveryTaskID \<noteq> jn_TaskID j"
  shows "holds (dk_Controller e)
    (if jn_Phase j = PhaseHealthy then mn_ControllerSHA256 (jn_Manifest j) else jn_PreviousController j)"
proof -
  have "disk_inv v d" using assms(1) by (simp add: disk_inv_def)
  then have inv: "upgrade_inv v e j" using upgrade_reachable_inv[OF assms(2)] assms(3) by (simp add: disk_inv_def)
  have "phase_settled (jn_Phase j)"
    using assms(3,4,5) by (auto simp: check_mutation_def current_def split: if_splits)
  with inv show ?thesis by (auto simp: upgrade_inv_def phase_settled_def runs_predecessor_def runs_candidate_def)
qed

end
