(* ===== verification/GroupDesired.thy ===== *)
theory GroupDesired
  imports Text Ids
begin

text \<open>
  The desired state of a Release Group (\<open>internal/core/releasegroup/group.go\<close>): validation, normalisation and
  replacement of the explicit membership and its complete order.
\<close>

section \<open>Data\<close>

datatype group_failure_policy = PolicyUnset | PolicySwitchBack | PolicyLeaveActive | PolicyOther string

abbreviation minimum_members :: nat where "minimum_members \<equiv> 2"
abbreviation maximum_members :: nat where "maximum_members \<equiv> 32"

record group_desired =
  de_Name :: string
  de_ServiceIDs :: "string list"
  de_Order :: "string list"
  de_DefaultTag :: string
  de_OnFailure :: group_failure_policy

record desired_group =
  dg_ID :: string
  dg_EnvironmentID :: string
  dg_Desired :: group_desired

section \<open>Operations\<close>

text \<open>The maps \<open>members\<close> and \<open>ordered\<close> are the lists of the keys inserted so far.\<close>

fun collect_members :: "ulid_check \<Rightarrow> string list \<Rightarrow> string list \<Rightarrow> unit res" where
  "collect_members u members [] = Inr ()"
| "collect_members u members (s # ss) =
     (if \<not> id_valid u KindService s then Inl ValidationFailed
      else if s \<in> set members then Inl ValidationFailed
      else collect_members u (s # members) ss)"

fun check_order :: "string list \<Rightarrow> string list \<Rightarrow> string list \<Rightarrow> unit res" where
  "check_order members ordered [] = Inr ()"
| "check_order members ordered (s # ss) =
     (if s \<notin> set members then Inl ValidationFailed
      else if s \<in> set ordered then Inl ValidationFailed
      else check_order members (s # ordered) ss)"

definition build_group :: "ulid_check \<Rightarrow> string \<Rightarrow> string \<Rightarrow> group_desired \<Rightarrow> desired_group res" where
  "build_group u gid env d =
     (if trim_space (de_Name d) = [] \<or> \<not> valid_utf8 (de_Name d) \<or>
         (case runes (de_Name d) of None \<Rightarrow> False | Some rs \<Rightarrow> list_ex is_control_rune rs)
      then Inl ValidationFailed
      else if de_DefaultTag d \<noteq> [] \<and> trim_space (de_DefaultTag d) = [] then Inl ValidationFailed
      else if length (de_ServiceIDs d) < minimum_members \<or> length (de_ServiceIDs d) > maximum_members
      then Inl ValidationFailed
      else
        try_res (collect_members u [] (de_ServiceIDs d)) (\<lambda>_.
        let order = (if length (de_Order d) = 0 then de_ServiceIDs d else de_Order d) in
        if length order \<noteq> length (de_ServiceIDs d) then Inl ValidationFailed
        else
          try_res (check_order (de_ServiceIDs d) [] order) (\<lambda>_.
          let policy = (if de_OnFailure d = PolicyUnset then PolicySwitchBack else de_OnFailure d) in
          if policy \<noteq> PolicySwitchBack \<and> policy \<noteq> PolicyLeaveActive then Inl ValidationFailed
          else Inr \<lparr>dg_ID = gid, dg_EnvironmentID = env,
            dg_Desired = d\<lparr>de_Order := order, de_OnFailure := policy\<rparr>\<rparr>)))"

definition new_group :: "ulid_check \<Rightarrow> desired_group \<Rightarrow> desired_group res" where
  "new_group u i =
     (if \<not> id_valid u KindReleaseGroup (dg_ID i) then Inl ValidationFailed
      else if \<not> id_valid u KindEnvironment (dg_EnvironmentID i) then Inl ValidationFailed
      else build_group u (dg_ID i) (dg_EnvironmentID i) (dg_Desired i))"

definition group_equal :: "desired_group \<Rightarrow> desired_group \<Rightarrow> bool" where
  "group_equal l r \<longleftrightarrow>
     dg_ID l = dg_ID r \<and> dg_EnvironmentID l = dg_EnvironmentID r \<and>
     de_Name (dg_Desired l) = de_Name (dg_Desired r) \<and>
     de_DefaultTag (dg_Desired l) = de_DefaultTag (dg_Desired r) \<and>
     de_OnFailure (dg_Desired l) = de_OnFailure (dg_Desired r) \<and>
     de_ServiceIDs (dg_Desired l) = de_ServiceIDs (dg_Desired r) \<and>
     de_Order (dg_Desired l) = de_Order (dg_Desired r)"

definition validate_group :: "ulid_check \<Rightarrow> desired_group \<Rightarrow> unit res" where
  "validate_group u g =
     try_res (new_group u g) (\<lambda>n. if \<not> group_equal g n then Inl ValidationFailed else Inr ())"

definition replace_group :: "ulid_check \<Rightarrow> desired_group \<Rightarrow> group_desired \<Rightarrow> desired_group res" where
  "replace_group u g d =
     try_res (validate_group u g) (\<lambda>_. build_group u (dg_ID g) (dg_EnvironmentID g) d)"

section \<open>What is accepted\<close>

lemma collect_members_ok:
  "collect_members u ms ss = Inr () \<longleftrightarrow>
     (\<forall>s \<in> set ss. id_valid u KindService s \<and> s \<notin> set ms) \<and> distinct ss"
  by (induction ss arbitrary: ms) auto

lemma check_order_ok:
  "check_order ms os ss = Inr () \<longleftrightarrow> set ss \<subseteq> set ms \<and> set ss \<inter> set os = {} \<and> distinct ss"
  by (induction ss arbitrary: os) auto

text \<open>The declarative reading of a desired state: members without repetition, and an order that permutes them.\<close>

definition desired_ok :: "ulid_check \<Rightarrow> group_desired \<Rightarrow> bool" where
  "desired_ok u d \<longleftrightarrow>
     trim_space (de_Name d) \<noteq> [] \<and> (\<exists>rs. runes (de_Name d) = Some rs \<and> \<not> list_ex is_control_rune rs) \<and>
     (de_DefaultTag d \<noteq> [] \<longrightarrow> trim_space (de_DefaultTag d) \<noteq> []) \<and>
     minimum_members \<le> length (de_ServiceIDs d) \<and> length (de_ServiceIDs d) \<le> maximum_members \<and>
     distinct (de_ServiceIDs d) \<and> (\<forall>s \<in> set (de_ServiceIDs d). id_valid u KindService s) \<and>
     (de_Order d \<noteq> [] \<longrightarrow> mset (de_Order d) = mset (de_ServiceIDs d)) \<and>
     de_OnFailure d \<in> {PolicyUnset, PolicySwitchBack, PolicyLeaveActive}"

definition normal_desired :: "group_desired \<Rightarrow> group_desired" where
  "normal_desired d =
     d\<lparr>de_Order := (if de_Order d = [] then de_ServiceIDs d else de_Order d),
       de_OnFailure := (if de_OnFailure d = PolicyUnset then PolicySwitchBack else de_OnFailure d)\<rparr>"

lemma order_permutes:
  assumes "distinct ms"
  shows "length os = length ms \<and> check_order ms [] os = Inr () \<longleftrightarrow> mset os = mset ms"
proof
  assume os: "length os = length ms \<and> check_order ms [] os = Inr ()"
  then have "set os \<subseteq> set ms" "distinct os" by (simp_all add: check_order_ok)
  moreover have "set os = set ms"
    using os assms \<open>distinct os\<close> \<open>set os \<subseteq> set ms\<close>
    by (intro card_subset_eq) (simp_all add: distinct_card)
  ultimately show "mset os = mset ms" using assms by (simp add: set_eq_iff_mset_eq_distinct)
next
  assume m: "mset os = mset ms"
  then show "length os = length ms \<and> check_order ms [] os = Inr ()"
    using assms mset_eq_setD[OF m] mset_eq_length[OF m] distinct_mset_eq[OF m] by (simp add: check_order_ok)
qed

lemma build_group_Inr:
  "build_group u gid env d = Inr g \<longleftrightarrow>
     desired_ok u d \<and> g = \<lparr>dg_ID = gid, dg_EnvironmentID = env, dg_Desired = normal_desired d\<rparr>"
proof -
  let ?order = "if de_Order d = [] then de_ServiceIDs d else de_Order d"
  have names: "\<not> (trim_space (de_Name d) = [] \<or> \<not> valid_utf8 (de_Name d) \<or>
      (case runes (de_Name d) of None \<Rightarrow> False | Some rs \<Rightarrow> list_ex is_control_rune rs)) \<longleftrightarrow>
      trim_space (de_Name d) \<noteq> [] \<and> (\<exists>rs. runes (de_Name d) = Some rs \<and> \<not> list_ex is_control_rune rs)"
    by (auto simp: valid_utf8_def)
  have order: "length ?order = length (de_ServiceIDs d) \<and> check_order (de_ServiceIDs d) [] ?order = Inr () \<longleftrightarrow>
      (de_Order d \<noteq> [] \<longrightarrow> mset (de_Order d) = mset (de_ServiceIDs d))" if "distinct (de_ServiceIDs d)"
    using order_permutes[OF that] by auto
  have policy: "(let policy = if de_OnFailure d = PolicyUnset then PolicySwitchBack else de_OnFailure d
       in if policy \<noteq> PolicySwitchBack \<and> policy \<noteq> PolicyLeaveActive then Inl ValidationFailed
          else Inr \<lparr>dg_ID = gid, dg_EnvironmentID = env, dg_Desired = d\<lparr>de_Order := ?order, de_OnFailure := policy\<rparr>\<rparr>) =
       Inr g \<longleftrightarrow>
     de_OnFailure d \<in> {PolicyUnset, PolicySwitchBack, PolicyLeaveActive} \<and>
     g = \<lparr>dg_ID = gid, dg_EnvironmentID = env, dg_Desired = normal_desired d\<rparr>"
    by (cases "de_OnFailure d") (auto simp: normal_desired_def)
  have "build_group u gid env d = Inr g \<longleftrightarrow>
     \<not> (trim_space (de_Name d) = [] \<or> \<not> valid_utf8 (de_Name d) \<or>
        (case runes (de_Name d) of None \<Rightarrow> False | Some rs \<Rightarrow> list_ex is_control_rune rs)) \<and>
     \<not> (de_DefaultTag d \<noteq> [] \<and> trim_space (de_DefaultTag d) = []) \<and>
     \<not> (length (de_ServiceIDs d) < minimum_members \<or> length (de_ServiceIDs d) > maximum_members) \<and>
     collect_members u [] (de_ServiceIDs d) = Inr () \<and> \<not> length ?order \<noteq> length (de_ServiceIDs d) \<and>
     check_order (de_ServiceIDs d) [] ?order = Inr () \<and>
     de_OnFailure d \<in> {PolicyUnset, PolicySwitchBack, PolicyLeaveActive} \<and>
     g = \<lparr>dg_ID = gid, dg_EnvironmentID = env, dg_Desired = normal_desired d\<rparr>"
    unfolding build_group_def if_Inl_eq_Inr try_res_unit Let_def[of ?order] length_0_conv policy ..
  then have "build_group u gid env d = Inr g \<longleftrightarrow>
     trim_space (de_Name d) \<noteq> [] \<and> (\<exists>rs. runes (de_Name d) = Some rs \<and> \<not> list_ex is_control_rune rs) \<and>
     (de_DefaultTag d \<noteq> [] \<longrightarrow> trim_space (de_DefaultTag d) \<noteq> []) \<and>
     minimum_members \<le> length (de_ServiceIDs d) \<and> length (de_ServiceIDs d) \<le> maximum_members \<and>
     (distinct (de_ServiceIDs d) \<and> (\<forall>s \<in> set (de_ServiceIDs d). id_valid u KindService s)) \<and>
     (length ?order = length (de_ServiceIDs d) \<and> check_order (de_ServiceIDs d) [] ?order = Inr ()) \<and>
     de_OnFailure d \<in> {PolicyUnset, PolicySwitchBack, PolicyLeaveActive} \<and>
     g = \<lparr>dg_ID = gid, dg_EnvironmentID = env, dg_Desired = normal_desired d\<rparr>"
    unfolding names by (auto simp: collect_members_ok not_less)
  then show ?thesis unfolding desired_ok_def using order by blast
qed

lemma normal_desired_idem [simp]: "normal_desired (normal_desired d) = normal_desired d"
  by (simp add: normal_desired_def)

lemma normal_desired_ok: "desired_ok u d \<Longrightarrow> desired_ok u (normal_desired d)"
  by (auto simp: desired_ok_def normal_desired_def)

lemma new_group_Inr:
  "new_group u i = Inr g \<longleftrightarrow>
     id_valid u KindReleaseGroup (dg_ID i) \<and> id_valid u KindEnvironment (dg_EnvironmentID i) \<and>
     desired_ok u (dg_Desired i) \<and> g = i\<lparr>dg_Desired := normal_desired (dg_Desired i)\<rparr>"
  by (auto simp: new_group_def build_group_Inr)

lemma validate_group_ok:
  "validate_group u g = Inr () \<longleftrightarrow>
     id_valid u KindReleaseGroup (dg_ID g) \<and> id_valid u KindEnvironment (dg_EnvironmentID g) \<and>
     desired_ok u (dg_Desired g) \<and> normal_desired (dg_Desired g) = dg_Desired g"
proof -
  have "group_equal g (g\<lparr>dg_Desired := normal_desired (dg_Desired g)\<rparr>) \<longleftrightarrow> normal_desired (dg_Desired g) = dg_Desired g"
    by (cases "dg_Desired g") (auto simp: group_equal_def normal_desired_def)
  then show ?thesis by (auto simp: validate_group_def new_group_Inr)
qed

section \<open>Properties\<close>

text \<open>C23. A Release Group is stored in one normal form. What \<open>New\<close> accepts is a group of 2 to 32 distinct Services whose
  order is a permutation of them, with a concrete failure policy; it passes \<open>Validate\<close> and is unchanged when it is built
  again; and a replacement keeps the identity and the Environment and is again valid.
\<close>

theorem group_normal_form:
  assumes "new_group u i = Inr g"
  shows "validate_group u g = Inr () \<and> new_group u g = Inr g \<and>
    2 \<le> length (de_ServiceIDs (dg_Desired g)) \<and> length (de_ServiceIDs (dg_Desired g)) \<le> 32 \<and>
    distinct (de_ServiceIDs (dg_Desired g)) \<and>
    mset (de_Order (dg_Desired g)) = mset (de_ServiceIDs (dg_Desired g)) \<and>
    de_OnFailure (dg_Desired g) \<in> {PolicySwitchBack, PolicyLeaveActive} \<and>
    (\<forall>d h. replace_group u g d = Inr h \<longrightarrow>
       dg_ID h = dg_ID g \<and> dg_EnvironmentID h = dg_EnvironmentID g \<and> validate_group u h = Inr ())"
proof -
  from assms have i: "id_valid u KindReleaseGroup (dg_ID g)" "id_valid u KindEnvironment (dg_EnvironmentID g)"
    "desired_ok u (dg_Desired i)" "g = i\<lparr>dg_Desired := normal_desired (dg_Desired i)\<rparr>"
    by (auto simp: new_group_Inr)
  then have n: "desired_ok u (dg_Desired g)" "normal_desired (dg_Desired g) = dg_Desired g"
    by (simp_all add: normal_desired_ok)
  have replaced: "dg_ID h = dg_ID g \<and> dg_EnvironmentID h = dg_EnvironmentID g \<and> validate_group u h = Inr ()"
    if "replace_group u g d = Inr h" for d h
    using that i(1,2) by (auto simp: replace_group_def build_group_Inr validate_group_ok normal_desired_ok)
  have form: "mset (de_Order (dg_Desired g)) = mset (de_ServiceIDs (dg_Desired g))"
    "de_OnFailure (dg_Desired g) \<in> {PolicySwitchBack, PolicyLeaveActive}"
    using i(3) by (auto simp: i(4) desired_ok_def normal_desired_def)
  show ?thesis
    using i(1,2) n replaced form by (auto simp: validate_group_ok new_group_Inr desired_ok_def)
qed

definition gx_group :: desired_group where
  "gx_group = \<lparr>dg_ID = ex_id ''rg'' CHR ''1'', dg_EnvironmentID = ex_id ''env'' CHR ''1'',
     dg_Desired = \<lparr>de_Name = ''web'', de_ServiceIDs = [ex_id ''svc'' CHR ''1'', ex_id ''svc'' CHR ''2''], de_Order = [],
       de_DefaultTag = [], de_OnFailure = PolicyUnset\<rparr>\<rparr>"

theorem group_normal_form_witness:
  "validate_group crockford_ulid (gx_group\<lparr>dg_Desired := normal_desired (dg_Desired gx_group)\<rparr>) = Inr ()"
proof -
  have "trim_space ''web'' = ''web''"
    unfolding trim_space_trimmed by code_simp
  moreover have "runes ''web'' = Some [119, 101, 98]" "\<not> list_ex is_control_rune [119, 101, 98]" by code_simp+
  ultimately have "new_group crockford_ulid gx_group = Inr (gx_group\<lparr>dg_Desired := normal_desired (dg_Desired gx_group)\<rparr>)"
    by (simp add: new_group_Inr gx_group_def desired_ok_def kind_defs)
  from group_normal_form[OF this] show ?thesis by blast
qed

end
