(* ===== verification/MaterializationHash.thy ===== *)
theory MaterializationHash
  imports Sha256
begin

unbundle bit_operations_syntax

text \<open>
  The incremental SHA-256 of the materialisation frames (\<open>internal/common/entrymaterialization/sha256.go\<close>): content is
  written in pieces of any size, one partial block is buffered, and the digest is taken from a copy of the state. The
  compression itself is that of \<open>Sha256\<close>.
\<close>

section \<open>Big-endian numbers\<close>

definition be_text :: "nat \<Rightarrow> nat \<Rightarrow> string" where
  "be_text len n = map char_of (big_endian len n)"

definition be_value :: "string \<Rightarrow> nat" where
  "be_value s = foldl (\<lambda>n c. 256 * n + byte c) 0 s"

lemma length_be_text [simp]: "length (be_text len n) = len"
  by (simp add: be_text_def big_endian_def)

lemma byte_char_of: "byte (char_of n) = n mod 256"
  by (simp add: byte_def of_char_of)

lemma map_byte_be_text: "map byte (be_text len n) = big_endian len n"
  by (simp add: be_text_def big_endian_def byte_char_of)

lemma big_endian_Suc: "big_endian (Suc len) n = big_endian len (n div 256) @ [n mod 256]"
proof -
  have "n div 256 ^ (Suc len - 1 - i) mod 256 = n div 256 div 256 ^ (len - 1 - i) mod 256" if "i < len" for i
  proof -
    from that have "Suc len - 1 - i = Suc (len - 1 - i)" by simp
    then show ?thesis by (simp add: div_mult2_eq)
  qed
  then show ?thesis by (simp add: big_endian_def)
qed

lemma be_text_Suc: "be_text (Suc len) n = be_text len (n div 256) @ [char_of (n mod 256)]"
  by (simp add: be_text_def big_endian_Suc)

lemma be_value_snoc: "be_value (s @ [c]) = 256 * be_value s + byte c"
  by (simp add: be_value_def)

lemma be_value_text: "be_value (be_text len n) = n mod 256 ^ len"
proof (induction len arbitrary: n)
  case 0
  then show ?case by (simp add: be_text_def big_endian_def be_value_def)
next
  case (Suc len)
  have "n mod 256 ^ Suc len = 256 * (n div 256 mod 256 ^ len) + n mod 256"
    by (simp add: mod_mult2_eq)
  then show ?case by (simp only: be_text_Suc be_value_snoc Suc.IH byte_char_of mod_mod_trivial)
qed

lemma be_text_value: "n < 256 ^ len \<Longrightarrow> be_value (be_text len n) = n"
  by (simp add: be_value_text)

section \<open>The hasher\<close>

record hasher =
  hs_State :: "u32 list"
  hs_Block :: string
  hs_Buffered :: nat
  hs_Length :: u64
  hs_Destroyed :: bool

abbreviation block_bytes :: nat where "block_bytes \<equiv> 64"

definition new_hasher :: hasher where
  "new_hasher = \<lparr>hs_State = sha_initial, hs_Block = replicate block_bytes (CHR 0x00), hs_Buffered = 0, hs_Length = 0,
     hs_Destroyed = False\<rparr>"

definition compress :: "u32 list \<Rightarrow> string \<Rightarrow> u32 list" where
  "compress st block = sha_block st (map byte block)"

text \<open>\<open>copy(block[at:], content)\<close>.\<close>

definition copy_into :: "string \<Rightarrow> nat \<Rightarrow> string \<Rightarrow> string" where
  "copy_into block at content =
     (let n = min (length block - at) (length content) in take at block @ take n content @ drop (at + n) block)"

fun compress_blocks :: "u32 list \<Rightarrow> string \<Rightarrow> u32 list \<times> string" where
  "compress_blocks st content =
     (if length content \<ge> block_bytes
      then compress_blocks (compress st (take block_bytes content)) (drop block_bytes content)
      else (st, content))"

declare compress_blocks.simps [simp del]

definition hasher_absorb :: "hasher \<Rightarrow> string \<Rightarrow> hasher" where
  "hasher_absorb h content =
     (let h1 = h\<lparr>hs_Length := hs_Length h + of_nat (length content)\<rparr>;
          (h2, rest) =
            (if hs_Buffered h1 \<noteq> 0 then
               let count = min (block_bytes - hs_Buffered h1) (length content);
                   block = copy_into (hs_Block h1) (hs_Buffered h1) content;
                   buffered = hs_Buffered h1 + count
               in if buffered = block_bytes
                  then (h1\<lparr>hs_State := compress (hs_State h1) block,
                         hs_Block := replicate block_bytes (CHR 0x00), hs_Buffered := 0\<rparr>, drop count content)
                  else (h1\<lparr>hs_Block := block, hs_Buffered := buffered\<rparr>, drop count content)
             else (h1, content));
          (st, tail) = compress_blocks (hs_State h2) rest;
          h3 = h2\<lparr>hs_State := st\<rparr>
      in if tail \<noteq> []
         then h3\<lparr>hs_Block := copy_into (hs_Block h3) 0 tail, hs_Buffered := min block_bytes (length tail)\<rparr>
         else h3)"

definition hasher_write :: "hasher \<Rightarrow> string \<Rightarrow> hasher res" where
  "hasher_write h content =
     (if hs_Destroyed h then Inl InternalError
      else if length content > unat ((- 1 :: u64) div 8 - hs_Length h) then Inl InternalError
      else Inr (hasher_absorb h content))"

text \<open>\<open>sumDigest\<close>: the padding and the length are written to a copy.\<close>

definition hasher_digest :: "hasher \<Rightarrow> string res" where
  "hasher_digest h =
     (if hs_Destroyed h then Inl InternalError
      else
        let bits = hs_Length h * 8;
            missing = 56 - int (hs_Buffered h);
            padding = nat (if missing \<le> 0 then missing + int block_bytes else missing);
            h1 = hasher_absorb h (take padding (CHR 0x80 # replicate (block_bytes - 1) (CHR 0x00)));
            h2 = hasher_absorb h1 (be_text 8 (unat bits))
        in if hs_Buffered h2 \<noteq> 0 then Inl InternalError
           else Inr (concat (map (\<lambda>w. be_text 4 (unat w)) (hs_State h2))))"

definition hasher_destroy :: "hasher \<Rightarrow> hasher" where
  "hasher_destroy h =
     h\<lparr>hs_State := replicate 8 0, hs_Block := replicate block_bytes (CHR 0x00), hs_Buffered := 0, hs_Length := 0,
       hs_Destroyed := True\<rparr>"

definition sum_and_destroy :: "hasher \<Rightarrow> string res \<times> hasher" where
  "sum_and_destroy h = (hasher_digest h, hasher_destroy h)"

definition hasher_verify :: "hasher \<Rightarrow> string \<Rightarrow> bool \<times> hasher" where
  "hasher_verify h expected =
     (case sum_and_destroy h of
        (Inl _, h') \<Rightarrow> (False, h')
      | (Inr actual, h') \<Rightarrow> (actual = expected, h'))"

definition digest_bytes :: "string \<Rightarrow> string" where
  "digest_bytes s =
     (case hasher_write new_hasher s of
        Inl _ \<Rightarrow> replicate 32 (CHR 0x00)
      | Inr h \<Rightarrow> (case fst (sum_and_destroy h) of Inl _ \<Rightarrow> replicate 32 (CHR 0x00) | Inr d \<Rightarrow> d))"

section \<open>The reference digest\<close>

definition sha256 :: "string \<Rightarrow> string" where
  "sha256 s = concat (map (\<lambda>w. be_text 4 (unat w)) (sha256_words s))"

lemma length_sha256 [simp]: "length (sha256 s) = 32"
proof -
  have "length (concat (map (\<lambda>w. be_text 4 (unat w)) ws)) = 4 * length ws" for ws :: "u32 list"
    by (induction ws) auto
  then show ?thesis by (simp add: sha256_def length_sha256_words)
qed

text \<open>The state after whole blocks.\<close>

definition absorb :: "u32 list \<Rightarrow> string \<Rightarrow> u32 list" where
  "absorb st s = foldl sha_block st (chunks block_bytes (map byte s))"

lemma chunks_Nil [simp]: "chunks n [] = []"
  by (subst chunks.simps) simp

lemma chunks_append:
  "n \<noteq> 0 \<Longrightarrow> length xs = n \<Longrightarrow> chunks n (xs @ ys) = xs # chunks n ys"
  by (subst chunks.simps) auto

lemma absorb_Nil [simp]: "absorb st [] = st"
  by (simp add: absorb_def)

lemma absorb_block: "length b = block_bytes \<Longrightarrow> absorb st (b @ s) = absorb (compress st b) s"
  by (simp add: absorb_def chunks_append compress_def)

lemma absorb_append:
  "block_bytes dvd length s \<Longrightarrow> absorb st (s @ t) = absorb (absorb st s) t"
proof (induction "length s" arbitrary: s st rule: less_induct)
  case less
  show ?case
  proof (cases "s = []")
    case False
    with less.prems have long: "block_bytes \<le> length s" by (intro dvd_imp_le) simp_all
    define b where "b = take block_bytes s"
    define r where "r = drop block_bytes s"
    have s: "s = b @ r" "length b = block_bytes" using long by (simp_all add: b_def r_def)
    have "length r < length s" "block_bytes dvd length r"
      using long less.prems by (simp_all add: r_def)
    then have "absorb st' (r @ t) = absorb (absorb st' r) t" for st' using less.hyps by blast
    then show ?thesis by (simp add: s absorb_block)
  qed simp
qed

definition whole :: "string \<Rightarrow> string" where
  "whole s = take (length s - length s mod block_bytes) s"

definition partial :: "string \<Rightarrow> string" where
  "partial s = drop (length s - length s mod block_bytes) s"

lemma whole_partial: "whole s @ partial s = s"
  by (simp add: whole_def partial_def)

lemma length_partial: "length (partial s) = length s mod block_bytes"
  by (simp add: partial_def)

lemma dvd_whole: "block_bytes dvd length (whole s)"
  by (simp add: whole_def dvd_minus_mod)

lemma whole_partial_unique:
  assumes "s = a @ b" "block_bytes dvd length a" "length b < block_bytes"
  shows "whole s = a" "partial s = b"
proof -
  from assms have "length s mod block_bytes = length b" by (auto simp: dvd_def)
  with assms(1) show "whole s = a" "partial s = b" by (simp_all add: whole_def partial_def)
qed

lemma compress_blocks_eq: "compress_blocks st s = (absorb st (whole s), partial s)"
proof (induction st s rule: compress_blocks.induct)
  case (1 st s)
  show ?case
  proof (cases "block_bytes \<le> length s")
    case True
    define b where "b = take block_bytes s"
    define r where "r = drop block_bytes s"
    have s: "s = b @ r" "length b = block_bytes" using True by (simp_all add: b_def r_def)
    have "s = (b @ whole r) @ partial r" by (simp add: s whole_partial)
    then have "whole s = b @ whole r" "partial s = partial r"
      using whole_partial_unique[of s "b @ whole r" "partial r"] dvd_whole[of r] length_partial[of r] s(2) by simp_all
    then show ?thesis
      using 1 True s(2) by (subst compress_blocks.simps) (simp add: b_def[symmetric] r_def[symmetric] absorb_block)
  next
    case False
    then show ?thesis by (subst compress_blocks.simps) (simp add: whole_def partial_def)
  qed
qed

section \<open>Writing in pieces\<close>

definition represents :: "hasher \<Rightarrow> string \<Rightarrow> bool" where
  "represents h s \<longleftrightarrow>
     \<not> hs_Destroyed h \<and> hs_State h = absorb sha_initial (whole s) \<and> hs_Buffered h = length (partial s) \<and>
     length (hs_Block h) = block_bytes \<and> take (hs_Buffered h) (hs_Block h) = partial s \<and>
     hs_Length h = of_nat (length s)"

lemma whole_Nil [simp]: "whole [] = []" "partial [] = []"
  by (simp_all add: whole_def partial_def)

lemma new_hasher_represents: "represents new_hasher []"
  by (simp add: represents_def new_hasher_def whole_def partial_def)

lemma take_copy_into:
  assumes "length b = block_bytes" "length p = at" "take at b = p" "at + length c \<le> block_bytes"
  shows "take (at + length c) (copy_into b at c) = p @ c" "length (copy_into b at c) = block_bytes"
  using assms by (auto simp: copy_into_def min_def)

lemma represents_absorb:
  assumes h: "represents h s"
  shows "represents (hasher_absorb h c) (s @ c)"
proof -
  define p where "p = partial s"
  define h1 where "h1 = h\<lparr>hs_Length := hs_Length h + of_nat (length c)\<rparr>"
  have "length p < block_bytes" by (simp add: p_def length_partial)
  moreover have "s = whole s @ p" by (simp add: p_def whole_partial)
  moreover have "hs_Buffered h = length p" "take (length p) (hs_Block h) = p" "length (hs_Block h) = block_bytes"
    using h unfolding represents_def p_def by metis+
  ultimately have p: "length p < block_bytes" "s = whole s @ p" "hs_Buffered h = length p"
    "take (length p) (hs_Block h) = p" "length (hs_Block h) = block_bytes" by blast+
  have fin: "represents
      (if tail \<noteq> [] then h2\<lparr>hs_State := st, hs_Block := copy_into (hs_Block h2) 0 tail,
         hs_Buffered := min block_bytes (length tail)\<rparr> else h2\<lparr>hs_State := st\<rparr>) (s @ c)"
    if rest: "compress_blocks (hs_State h2) rest = (st, tail)" "s @ c = a @ rest" "block_bytes dvd length a"
      "hs_State h2 = absorb sha_initial a" "hs_Buffered h2 = 0" "length (hs_Block h2) = block_bytes"
      "hs_Length h2 = of_nat (length (s @ c))" "\<not> hs_Destroyed h2"
    for h2 rest st tail a
  proof -
    have t: "st = absorb (hs_State h2) (whole rest)" "tail = partial rest" "length tail < block_bytes"
      using rest(1) by (auto simp: compress_blocks_eq length_partial)
    have "s @ c = (a @ whole rest) @ partial rest" by (simp add: rest(2) whole_partial)
    then have w: "whole (s @ c) = a @ whole rest" "partial (s @ c) = tail"
      using whole_partial_unique[of "s @ c" "a @ whole rest" "partial rest"] rest(3) dvd_whole[of rest] t(2,3)
      by simp_all
    show ?thesis
      using take_copy_into[of "hs_Block h2" "[]" 0 tail] rest t w
      by (simp add: represents_def absorb_append)
  qed
  show ?thesis
  proof (cases "p = []")
    case True
    obtain st tail where blocks: "compress_blocks (hs_State h1) c = (st, tail)" by force
    have "hasher_absorb h c =
        (if tail \<noteq> [] then h1\<lparr>hs_State := st, hs_Block := copy_into (hs_Block h1) 0 tail,
           hs_Buffered := min block_bytes (length tail)\<rparr> else h1\<lparr>hs_State := st\<rparr>)"
      using True p(3) blocks by (simp add: hasher_absorb_def Let_def h1_def)
    moreover have "represents \<dots> (s @ c)"
      by (rule fin[OF blocks, of s]) (use True h p dvd_whole[of s] in \<open>simp_all add: represents_def h1_def\<close>)
    ultimately show ?thesis by simp
  next
    case False
    define count where "count = min (block_bytes - length p) (length c)"
    define block where "block = copy_into (hs_Block h) (length p) c"
    show ?thesis
    proof (cases "length p + count = block_bytes")
      case True
      define h2 where "h2 = h1\<lparr>hs_State := compress (hs_State h1) block,
        hs_Block := replicate block_bytes (CHR 0x00), hs_Buffered := 0\<rparr>"
      from True have count: "count = block_bytes - length p" "count \<le> length c"
        unfolding count_def by (auto split: if_splits)
      have block: "block = p @ take count c"
        using p True count by (simp add: block_def copy_into_def count_def[symmetric])
      obtain st tail where blocks: "compress_blocks (hs_State h2) (drop count c) = (st, tail)" by force
      have "hasher_absorb h c =
          (if tail \<noteq> [] then h2\<lparr>hs_State := st, hs_Block := copy_into (hs_Block h2) 0 tail,
             hs_Buffered := min block_bytes (length tail)\<rparr> else h2\<lparr>hs_State := st\<rparr>)"
        using False True p(3) blocks
        by (simp add: hasher_absorb_def Let_def h1_def h2_def block_def[symmetric] count_def[symmetric])
      moreover have "represents \<dots> (s @ c)"
      proof (rule fin[OF blocks, of "whole s @ block"])
        show "s @ c = (whole s @ block) @ drop count c" by (subst p(2)) (simp add: block)
        have "length block = block_bytes" using count True by (simp add: block)
        then show "block_bytes dvd length (whole s @ block)" using dvd_whole[of s] by simp
        have "absorb sha_initial (whole s @ block) = compress (absorb sha_initial (whole s)) block"
          using absorb_append[OF dvd_whole[of s], of sha_initial block]
            absorb_block[OF \<open>length block = block_bytes\<close>, of _ "[]"] by simp
        then show "hs_State h2 = absorb sha_initial (whole s @ block)"
          using h by (simp add: h2_def h1_def represents_def)
      qed (use h in \<open>simp_all add: h2_def h1_def represents_def\<close>)
      ultimately show ?thesis by simp
    next
      case short: False
      then have count: "count = length c" "length p + length c < block_bytes"
        using p(1) unfolding count_def by (auto split: if_splits)
      have "hasher_absorb h c = h1\<lparr>hs_Block := block, hs_Buffered := length p + length c\<rparr>"
        using False short p(3) count
        by (simp add: hasher_absorb_def Let_def h1_def block_def[symmetric] count_def[symmetric] compress_blocks_eq)
      moreover have "s @ c = whole s @ (p @ c)" by (subst p(2)) simp
      then have "whole (s @ c) = whole s" "partial (s @ c) = p @ c"
        using whole_partial_unique[of "s @ c" "whole s" "p @ c"] dvd_whole count by simp_all
      moreover have "take (length p + length c) block = p @ c" "length block = block_bytes"
        unfolding block_def using take_copy_into[of "hs_Block h" p "length p" c] p count by simp_all
      ultimately show ?thesis using h by (simp add: represents_def h1_def)
    qed
  qed
qed

section \<open>The digest of pieces\<close>

lemma representsD:
  assumes "represents h s" "represents h' s"
  shows "hs_State h = hs_State h'" "hs_Buffered h = hs_Buffered h'"
  using assms by (simp_all add: represents_def)

lemma digest_padding:
  assumes h: "represents h s" and bound: "8 * length s < 2 ^ 64"
  shows "hasher_digest h = Inr (sha256 s)"
proof -
  define r where "r = length s mod block_bytes"
  have r: "r < block_bytes" "hs_Buffered h = r" using h by (simp_all add: r_def represents_def length_partial)
  define padding where "padding = (if r < 56 then 56 - r else 120 - r)"
  have nat_padding: "nat (if 56 - int (hs_Buffered h) \<le> 0 then 56 - int (hs_Buffered h) + int block_bytes
      else 56 - int (hs_Buffered h)) = padding"
    using r by (auto simp: padding_def)
  define zeros where "zeros = (119 - r) mod 64"
  have zeros: "padding = Suc zeros" using r by (auto simp: padding_def zeros_def mod_if)
  have pad: "take padding (CHR 0x80 # replicate (block_bytes - 1) (CHR 0x00)) = CHR 0x80 # replicate zeros (CHR 0x00)"
    using r by (simp add: zeros) (auto simp: zeros_def)
  define full where "full = s @ (CHR 0x80 # replicate zeros (CHR 0x00)) @ be_text 8 (8 * length s)"
  have "unat (hs_Length h * 8) = 8 * length s"
  proof -
    have "hs_Length h * 8 = (of_nat (8 * length s) :: u64)" using h by (simp add: represents_def mult.commute)
    then show ?thesis using bound by (simp only: unat_of_nat) simp
  qed
  then have run: "hasher_digest h = (let h2 = hasher_absorb (hasher_absorb h (CHR 0x80 # replicate zeros (CHR 0x00)))
      (be_text 8 (8 * length s)) in if hs_Buffered h2 \<noteq> 0 then Inl InternalError
      else Inr (concat (map (\<lambda>w. be_text 4 (unat w)) (hs_State h2))))"
    using h unfolding hasher_digest_def Let_def nat_padding pad by (simp add: represents_def)
  have "length full = length s + padding + 8" by (simp add: full_def zeros)
  also have "\<dots> = (length s - r) + (r + padding + 8)" by (simp add: r_def)
  finally have "length full = (length s - r) + (r + padding + 8)" .
  moreover have "64 dvd length s - r" by (simp add: r_def dvd_minus_mod)
  moreover have "64 dvd r + padding + 8" using r(1) by (auto simp: padding_def)
  ultimately have dvd: "block_bytes dvd length full" by simp
  have padded: "represents (hasher_absorb (hasher_absorb h (CHR 0x80 # replicate zeros (CHR 0x00)))
      (be_text 8 (8 * length s))) full"
    using represents_absorb[OF represents_absorb[OF h, of "CHR 0x80 # replicate zeros (CHR 0x00)"],
        of "be_text 8 (8 * length s)"] by (simp add: full_def)
  moreover have "whole full = full" "partial full = []"
    using whole_partial_unique[of full full "[]"] dvd by simp_all
  moreover have "map byte full = padded (map byte s)"
    by (simp add: full_def padded_def map_byte_be_text zeros_def r_def byte_def)
  then have "absorb sha_initial full = sha256_words s" by (simp add: absorb_def sha256_words_def)
  ultimately show ?thesis by (simp add: run Let_def represents_def sha256_def)
qed

abbreviation maximum_digest_input :: nat where "maximum_digest_input \<equiv> (2 ^ 64 - 1) div 8"

lemma hasher_write_ok:
  assumes "represents h s" "length s + length c \<le> maximum_digest_input"
  shows "hasher_write h c = Inr (hasher_absorb h c)" "represents (hasher_absorb h c) (s @ c)"
proof -
  have len: "hs_Length h = of_nat (length s)" "\<not> hs_Destroyed h" using assms(1) by (simp_all add: represents_def)
  have limit: "unat ((- 1 :: u64) div 8) = maximum_digest_input" by (simp add: unat_div)
  have s: "unat (of_nat (length s) :: u64) = length s" using assms(2) by (simp add: unat_of_nat)
  then have "(of_nat (length s) :: u64) \<le> - 1 div 8" using assms(2) limit by (simp add: word_le_nat_alt)
  then have "unat ((- 1 :: u64) div 8 - of_nat (length s)) = maximum_digest_input - length s"
    using s limit by (simp add: unat_sub)
  then show "hasher_write h c = Inr (hasher_absorb h c)" using assms(2) len by (simp add: hasher_write_def)
  show "represents (hasher_absorb h c) (s @ c)" by (rule represents_absorb[OF assms(1)])
qed

lemma digest_bytes_sha256: "length s \<le> maximum_digest_input \<Longrightarrow> digest_bytes s = sha256 s"
  using hasher_write_ok[OF new_hasher_represents, of s] digest_padding[of "hasher_absorb new_hasher s" s]
  by (simp add: digest_bytes_def sum_and_destroy_def)

end
