(* ===== verification/MaterializationHeader.thy ===== *)
theory MaterializationHeader
  imports MaterializationHash Ids
begin

text \<open>
  The header and the policy of a materialisation frame (\<open>internal/common/entrymaterialization/header.go\<close> and
  \<open>policy.go\<close>): which file of which Environment is written, removed or replaced, with which owner, mode, length and
  digest. \<open>path.Clean\<close> is modelled on components, as its documentation states it. The main fact is
  \<open>valid_destination_iff\<close>, the destinations the path policy accepts.
\<close>

section \<open>Slash-separated paths\<close>

text \<open>\<open>strings.Split(value, "/")\<close> and \<open>strings.Join(parts, "/")\<close>.\<close>

fun split_slash :: "string \<Rightarrow> string list" where
  "split_slash [] = [[]]"
| "split_slash (c # cs) =
     (if c = CHR ''/'' then [] # split_slash cs
      else case split_slash cs of [] \<Rightarrow> [[c]] | p # ps \<Rightarrow> (c # p) # ps)"

fun join_slash :: "string list \<Rightarrow> string" where
  "join_slash [] = []"
| "join_slash [p] = p"
| "join_slash (p # q # ps) = p @ ''/'' @ join_slash (q # ps)"

lemma split_slash_nonempty [simp]: "split_slash s \<noteq> []"
  by (induction s) (auto split: list.splits)

lemma split_slash_cons:
  obtains p ps where "split_slash s = p # ps"
  by (cases "split_slash s") auto

lemma split_no_slash: "p \<in> set (split_slash s) \<Longrightarrow> CHR ''/'' \<notin> set p"
proof (induction s arbitrary: p)
  case (Cons c cs)
  then show ?case by (rule_tac s = cs in split_slash_cons) (auto split: if_splits)
qed simp

lemma join_slash_cons: "ps \<noteq> [] \<Longrightarrow> join_slash (p # ps) = p @ ''/'' @ join_slash ps"
  by (cases ps) auto

lemma join_split: "join_slash (split_slash s) = s"
proof (induction s)
  case (Cons c cs)
  obtain p ps where p: "split_slash cs = p # ps" by (rule split_slash_cons)
  with Cons.IH show ?case by (cases ps) (auto simp: join_slash_cons)
qed simp

lemma split_slash_append: "CHR ''/'' \<notin> set p \<Longrightarrow> split_slash (p @ ''/'' @ s) = p # split_slash s"
  by (induction p) auto

lemma split_plain: "CHR ''/'' \<notin> set p \<Longrightarrow> split_slash p = [p]"
  by (induction p) auto

lemma split_join: "\<lbrakk>ps \<noteq> []; \<forall>p \<in> set ps. CHR ''/'' \<notin> set p\<rbrakk> \<Longrightarrow> split_slash (join_slash ps) = ps"
proof (induction ps rule: join_slash.induct)
  case (3 p q ps)
  then show ?case using split_slash_append[of p "join_slash (q # ps)"] by simp
qed (auto simp: split_plain)

text \<open>
  \<open>path.Clean\<close>: empty and \<open>"."\<close> components go, \<open>".."\<close> removes the component before it, and a leading \<open>".."\<close> stays in
  a relative path and goes in a rooted one. The components are kept in reverse.
\<close>

definition clean_step :: "bool \<Rightarrow> string list \<Rightarrow> string \<Rightarrow> string list" where
  "clean_step rooted out c =
     (if c = [] \<or> c = ''.'' then out
      else if c = ''..'' then
        (if out \<noteq> [] \<and> hd out \<noteq> ''..'' then tl out else if rooted then out else ''..'' # out)
      else c # out)"

definition path_clean :: "string \<Rightarrow> string" where
  "path_clean s =
     (if s = [] then ''.''
      else
        let rooted = (hd s = CHR ''/'');
            parts = rev (foldl (clean_step rooted) [] (split_slash s))
        in if rooted then ''/'' @ join_slash parts else if parts = [] then ''.'' else join_slash parts)"

section \<open>Destinations\<close>

definition TemporaryPrefix :: string where
  "TemporaryPrefix = ''.groundplane-materialize-''"

abbreviation MaximumDestinationBytes :: nat where "MaximumDestinationBytes \<equiv> 240"
abbreviation backslash :: char where "backslash \<equiv> CHR 0x5C"

definition valid_destination :: "string \<Rightarrow> bool" where
  "valid_destination value =
     (if value = [] \<or> \<not> valid_utf8 value \<or> length value > MaximumDestinationBytes \<or> CHR 0x00 \<in> set value \<or>
         backslash \<in> set value \<or> has_prefix ''/'' value
      then False
      else
        let cleaned = path_clean value
        in if cleaned = ''.'' \<or> cleaned \<noteq> value \<or> has_prefix ''../'' cleaned then False
           else list_all (\<lambda>c. \<not> has_prefix TemporaryPrefix c) (split_slash value))"

definition validate_destination :: "string \<Rightarrow> unit res" where
  "validate_destination value = (if valid_destination value then Inr () else Inl InternalError)"

definition validate_desired_destination :: "string \<Rightarrow> unit res" where
  "validate_desired_destination value = (if valid_destination value then Inr () else Inl ValidationFailed)"

text \<open>A component that names a file or directory below its parent.\<close>

definition plain_component :: "string \<Rightarrow> bool" where
  "plain_component c \<longleftrightarrow> c \<noteq> [] \<and> c \<noteq> ''.'' \<and> c \<noteq> ''..'' \<and> CHR ''/'' \<notin> set c"

text \<open>What the relative form of \<open>path.Clean\<close> keeps: leading \<open>".."\<close>s, then plain components.\<close>

definition clean_parts :: "string list \<Rightarrow> bool" where
  "clean_parts ps \<longleftrightarrow> (\<exists>n qs. ps = replicate n ''..'' @ qs \<and> list_all plain_component qs)"

lemma clean_partsI: "list_all plain_component qs \<Longrightarrow> clean_parts (replicate n ''..'' @ qs)"
  unfolding clean_parts_def by blast

lemma clean_parts_step:
  assumes "clean_parts (rev out)" "CHR ''/'' \<notin> set c"
  shows "clean_parts (rev (clean_step False out c))"
proof -
  from assms(1) obtain n qs where out: "rev out = replicate n ''..'' @ qs" "list_all plain_component qs"
    by (auto simp: clean_parts_def)
  consider "c = [] \<or> c = ''.''" | "c = ''..''" "out \<noteq> []" "hd out \<noteq> ''..''"
    | "c = ''..''" "out = [] \<or> hd out = ''..''" | "plain_component c"
    using assms(2) by (auto simp: plain_component_def)
  then show ?thesis
  proof cases
    case 1
    then show ?thesis using assms(1) by (auto simp: clean_step_def)
  next
    case 2
    have "qs \<noteq> []"
    proof
      assume "qs = []"
      with out(1) have "rev out = replicate n ''..''" by simp
      then have "out = replicate n ''..''" by (metis rev_replicate rev_rev_ident)
      with 2 show False by (cases n) auto
    qed
    then obtain q r where q: "qs = r @ [q]" by (metis rev_exhaust)
    with out(1) have "out = rev (replicate n ''..'' @ r @ [q])" by (metis rev_rev_ident)
    then have "out = q # rev (replicate n ''..'' @ r)" by simp
    then have "rev (clean_step False out c) = replicate n ''..'' @ r" using 2 by (simp add: clean_step_def)
    then show ?thesis using out(2) q by (auto intro: clean_partsI)
  next
    case 3
    have "qs = []"
    proof (rule ccontr)
      assume "qs \<noteq> []"
      then obtain q r where q: "qs = r @ [q]" by (metis rev_exhaust)
      with out(1) have "out = rev (replicate n ''..'' @ r @ [q])" by (metis rev_rev_ident)
    then have "out = q # rev (replicate n ''..'' @ r)" by simp
      with 3 q out(2) show False by (auto simp: plain_component_def)
    qed
    moreover have "clean_step False out c = ''..'' # out" using 3 by (auto simp: clean_step_def)
    ultimately have "rev (clean_step False out c) = replicate (Suc n) ''..'' @ []"
      using out(1) by (simp add: replicate_append_same)
    then show ?thesis using clean_partsI[of "[]" "Suc n"] by simp
  next
    case 4
    then have "rev (clean_step False out c) = replicate n ''..'' @ (qs @ [c])"
      using out(1) by (auto simp: clean_step_def plain_component_def)
    then show ?thesis using clean_partsI[of "qs @ [c]" n] out(2) 4 by simp
  qed
qed

lemma clean_parts_fold:
  "\<lbrakk>clean_parts (rev out); \<forall>c \<in> set cs. CHR ''/'' \<notin> set c\<rbrakk> \<Longrightarrow> clean_parts (rev (foldl (clean_step False) out cs))"
  by (induction cs arbitrary: out) (auto simp: clean_parts_step)

lemma clean_plain: "list_all plain_component cs \<Longrightarrow> foldl (clean_step rooted) out cs = rev cs @ out"
  by (induction cs arbitrary: out) (auto simp: clean_step_def plain_component_def)

lemma has_prefix_slash: "has_prefix ''/'' v \<longleftrightarrow> v \<noteq> [] \<and> hd v = CHR ''/''"
  by (cases v) (auto simp: has_prefix_def)

lemma hd_split: "v \<noteq> [] \<Longrightarrow> [] \<noteq> hd (split_slash v) \<Longrightarrow> hd v \<noteq> CHR ''/''"
  by (cases v) auto

lemma clean_fixed_relative:
  assumes v: "v \<noteq> []" "\<not> has_prefix ''/'' v"
  shows "path_clean v = v \<and> v \<noteq> ''.'' \<and> \<not> has_prefix ''../'' v \<longleftrightarrow>
           v = ''..'' \<or> list_all plain_component (split_slash v)"
proof
  assume l: "path_clean v = v \<and> v \<noteq> ''.'' \<and> \<not> has_prefix ''../'' v"
  define ps where "ps = rev (foldl (clean_step False) [] (split_slash v))"
  have "clean_parts ps" unfolding ps_def
    by (rule clean_parts_fold) (use clean_partsI[of "[]" 0] split_no_slash in auto)
  then obtain n qs where parts: "ps = replicate n ''..'' @ qs" "list_all plain_component qs"
    by (auto simp: clean_parts_def)
  have "path_clean v = (if ps = [] then ''.'' else join_slash ps)"
    using v by (simp add: path_clean_def has_prefix_slash ps_def)
  with l have "ps \<noteq> []" "join_slash ps = v" by (metis, metis)
  moreover have "\<forall>p \<in> set ps. CHR ''/'' \<notin> set p"
  proof
    fix p assume "p \<in> set ps"
    then consider "p = ''..''" | "p \<in> set qs" using parts(1) by auto
    then show "CHR ''/'' \<notin> set p"
    proof cases
      case 2
      with parts(2) show ?thesis unfolding list_all_iff plain_component_def by blast
    qed simp
  qed
  ultimately have split: "split_slash v = ps" using split_join[of ps] by simp
  show "v = ''..'' \<or> list_all plain_component (split_slash v)"
  proof (cases n)
    case 0
    with parts split show ?thesis by simp
  next
    case (Suc m)
    with parts have ps: "ps = ''..'' # (replicate m ''..'' @ qs)" by simp
    have "replicate m ''..'' @ qs = []"
    proof (rule ccontr)
      assume "replicate m ''..'' @ qs \<noteq> []"
      with ps \<open>join_slash ps = v\<close> have "v = ''../'' @ join_slash (replicate m ''..'' @ qs)"
        by (simp add: join_slash_cons)
      with l show False unfolding has_prefix_iff by blast
    qed
    with ps \<open>join_slash ps = v\<close> show ?thesis by simp
  qed
next
  assume r: "v = ''..'' \<or> list_all plain_component (split_slash v)"
  show "path_clean v = v \<and> v \<noteq> ''.'' \<and> \<not> has_prefix ''../'' v"
  proof (cases "v = ''..''")
    case True
    then show ?thesis by (simp add: path_clean_def clean_step_def has_prefix_def)
  next
    case False
    with r have plain: "list_all plain_component (split_slash v)" by simp
    have "path_clean v = v"
      using v clean_plain[OF plain, of False "[]"]
      by (simp add: path_clean_def has_prefix_slash join_split)
    moreover have "v \<noteq> ''.''" using plain by (auto simp: plain_component_def)
    moreover have "\<not> has_prefix ''../'' v"
      using plain split_slash_append[of "''..''"] by (auto simp: has_prefix_iff plain_component_def)
    ultimately show ?thesis by simp
  qed
qed

lemma valid_destination_characterised:
  "valid_destination v \<longleftrightarrow>
     valid_utf8 v \<and> length v \<le> MaximumDestinationBytes \<and> CHR 0x00 \<notin> set v \<and> backslash \<notin> set v \<and>
     (v = ''..'' \<or> list_all (\<lambda>c. plain_component c \<and> \<not> has_prefix TemporaryPrefix c) (split_slash v))"
proof (cases "v \<noteq> [] \<and> \<not> has_prefix ''/'' v")
  case True
  have "list_all (\<lambda>c. \<not> has_prefix TemporaryPrefix c) (split_slash v)" if "v = ''..''"
    using that by (simp add: has_prefix_def TemporaryPrefix_def)
  moreover have "list_all (\<lambda>c. plain_component c \<and> \<not> has_prefix TemporaryPrefix c) (split_slash v) \<longleftrightarrow>
      list_all plain_component (split_slash v) \<and> list_all (\<lambda>c. \<not> has_prefix TemporaryPrefix c) (split_slash v)"
    by (auto simp: list_all_iff)
  moreover have "valid_destination v \<longleftrightarrow>
      valid_utf8 v \<and> length v \<le> MaximumDestinationBytes \<and> CHR 0x00 \<notin> set v \<and> backslash \<notin> set v \<and>
      (path_clean v = v \<and> v \<noteq> ''.'' \<and> \<not> has_prefix ''../'' v) \<and>
      list_all (\<lambda>c. \<not> has_prefix TemporaryPrefix c) (split_slash v)"
    using True by (cases "path_clean v = v") (auto simp: valid_destination_def Let_def)
  ultimately show ?thesis using True clean_fixed_relative[of v] by blast
next
  case False
  then have "split_slash v = [[]] \<or> (\<exists>ps. split_slash v = [] # ps)" "v \<noteq> ''..''"
    by (cases v; auto simp: has_prefix_slash)+
  moreover have "\<not> valid_destination v" using False by (auto simp: valid_destination_def)
  ultimately show ?thesis by (auto simp: plain_component_def)
qed

section \<open>Generated environment files\<close>

definition valid_generated_service_name :: "string \<Rightarrow> bool" where
  "valid_generated_service_name value \<longleftrightarrow>
     list_all (\<lambda>c. is_lower_letter c \<or> is_upper_letter c \<or> is_digit c \<or> c = CHR ''.'' \<or> c = CHR ''_'' \<or> c = CHR ''-'')
       value \<and> value \<noteq> []"

definition generated_env_destination :: "ulid_check \<Rightarrow> string \<Rightarrow> string \<Rightarrow> string res" where
  "generated_env_destination u environment service =
     (if \<not> id_valid u KindEnvironment environment then Inl InternalError
      else
        let destination = ''secrets/.env.'' @ environment
        in if service = [] then Inr destination
           else if \<not> valid_generated_service_name service then Inl InternalError
           else Inr (destination @ ''.'' @ service))"

section \<open>Headers\<close>

text \<open>\<open>OutputKind\<close> is a \<open>uint8\<close> with named values; a frame can carry any byte.\<close>

type_synonym output_kind = "8 word"

definition outputInvalid :: output_kind where "outputInvalid = 0"
definition OutputGeneratedEnv :: output_kind where "OutputGeneratedEnv = 1"
definition OutputPlainFile :: output_kind where "OutputPlainFile = 2"
definition OutputSecretFile :: output_kind where "OutputSecretFile = 3"
definition OutputRemoveGeneratedEnv :: output_kind where "OutputRemoveGeneratedEnv = 4"
definition OutputRemovePlainFile :: output_kind where "OutputRemovePlainFile = 5"
definition OutputRemoveSecretFile :: output_kind where "OutputRemoveSecretFile = 6"

lemmas output_kind_defs [model_simps] =
  outputInvalid_def OutputGeneratedEnv_def OutputPlainFile_def OutputSecretFile_def OutputRemoveGeneratedEnv_def
  OutputRemovePlainFile_def OutputRemoveSecretFile_def

definition output_kind_string :: "output_kind \<Rightarrow> string" where
  "output_kind_string k =
     (if k = OutputGeneratedEnv then ''generated_env''
      else if k = OutputPlainFile then ''plain_file''
      else if k = OutputSecretFile then ''secret_file''
      else if k = OutputRemoveGeneratedEnv then ''remove_generated_env''
      else if k = OutputRemovePlainFile then ''remove_plain_file''
      else if k = OutputRemoveSecretFile then ''remove_secret_file''
      else [])"

definition parse_output_kind :: "string \<Rightarrow> output_kind res" where
  "parse_output_kind value =
     (if value = ''generated_env'' then Inr OutputGeneratedEnv
      else if value = ''plain_file'' then Inr OutputPlainFile
      else if value = ''secret_file'' then Inr OutputSecretFile
      else if value = ''remove_generated_env'' then Inr OutputRemoveGeneratedEnv
      else if value = ''remove_plain_file'' then Inr OutputRemovePlainFile
      else if value = ''remove_secret_file'' then Inr OutputRemoveSecretFile
      else Inl InternalError)"

definition removes :: "output_kind \<Rightarrow> bool" where
  "removes k \<longleftrightarrow> k = OutputRemoveGeneratedEnv \<or> k = OutputRemovePlainFile \<or> k = OutputRemoveSecretFile"

definition ModePrivate :: u32 where "ModePrivate = 0x180"
definition ModeReadOnly :: u32 where "ModeReadOnly = 0x124"

text \<open>
  \<open>HeaderSpec\<close> and \<open>Header\<close> have the same fields; a \<open>Header\<close> is one that \<open>NewHeader\<close> has validated. A \<open>Digest\<close> is an
  array of 32 bytes, here a string.
\<close>

record header =
  hd_TaskID :: string
  hd_StepID :: string
  hd_EnvironmentID :: string
  hd_Generation :: u64
  hd_Destination :: string
  hd_ServiceID :: string
  hd_ServiceName :: string
  hd_OutputKind :: output_kind
  hd_UID :: u32
  hd_GID :: u32
  hd_Mode :: u32
  hd_Length :: u64
  hd_Digest :: string

text \<open>\<open>ValidateMetadata\<close> reads the fields of a header other than the task, the step, the length and the digest.\<close>

definition validate_metadata :: "ulid_check \<Rightarrow> header \<Rightarrow> unit res" where
  "validate_metadata u h =
     (if hd_Generation h = 0 then Inl InternalError
      else try_res (validate_destination (hd_Destination h)) (\<lambda>_.
        if hd_UID h = - 1 \<or> hd_GID h = - 1 then Inl InternalError
        else if hd_OutputKind h = OutputGeneratedEnv \<or> hd_OutputKind h = OutputRemoveGeneratedEnv then
          (if (case generated_env_destination u (hd_EnvironmentID h) (hd_ServiceName h) of
                 Inl _ \<Rightarrow> True
               | Inr destination \<Rightarrow>
                   (hd_ServiceID h = []) \<noteq> (hd_ServiceName h = []) \<or> hd_UID h \<noteq> 0 \<or> hd_GID h \<noteq> 0 \<or>
                   hd_Mode h \<noteq> ModePrivate \<or> hd_Destination h \<noteq> destination)
           then Inl InternalError else Inr ())
        else if hd_OutputKind h = OutputPlainFile \<or> hd_OutputKind h = OutputRemovePlainFile then
          (if hd_ServiceID h \<noteq> [] \<or> hd_ServiceName h \<noteq> [] \<or> hd_Mode h \<noteq> ModeReadOnly
           then Inl InternalError else Inr ())
        else if hd_OutputKind h = OutputSecretFile \<or> hd_OutputKind h = OutputRemoveSecretFile then
          (if hd_ServiceID h \<noteq> [] \<or> hd_ServiceName h \<noteq> [] \<or> hd_Mode h \<noteq> ModePrivate
           then Inl InternalError else Inr ())
        else Inl InternalError))"

definition header_validate :: "ulid_check \<Rightarrow> header \<Rightarrow> unit res" where
  "header_validate u h =
     (if \<not> id_valid u KindTask (hd_TaskID h) \<or> \<not> id_valid u KindStep (hd_StepID h) \<or>
         \<not> id_valid u KindEnvironment (hd_EnvironmentID h)
      then Inl InternalError
      else if removes (hd_OutputKind h) \<and> (hd_Length h \<noteq> 0 \<or> hd_Digest h \<noteq> digest_bytes [])
      then Inl InternalError
      else validate_metadata u h)"

definition new_header :: "ulid_check \<Rightarrow> header \<Rightarrow> header res" where
  "new_header u spec = try_res (header_validate u spec) (\<lambda>_. Inr spec)"

text \<open>What a valid header says about the sizes of its fields.\<close>

lemma metadata_destination: "validate_metadata u h = Inr () \<Longrightarrow> valid_destination (hd_Destination h)"
  by (auto simp: validate_metadata_def validate_destination_def split: if_splits)

lemma metadata_service_name:
  assumes "validate_metadata u h = Inr ()"
  shows "length (hd_ServiceName h) \<le> length (hd_Destination h) \<and> (hd_ServiceName h = [] \<longrightarrow> hd_ServiceID h = [])"
  using assms
  by (auto simp: validate_metadata_def generated_env_destination_def Let_def model_simps split: if_splits sum.splits)

lemma header_validE:
  assumes "header_validate u h = Inr ()"
  shows "length (hd_TaskID h) = 31" "length (hd_StepID h) = 31" "length (hd_EnvironmentID h) = 30"
    "valid_destination (hd_Destination h)" "length (hd_Destination h) \<le> 240"
    "length (hd_ServiceName h) \<le> length (hd_Destination h)" "hd_ServiceName h = [] \<Longrightarrow> hd_ServiceID h = []"
proof -
  have ids: "id_valid u KindTask (hd_TaskID h)" "id_valid u KindStep (hd_StepID h)"
    "id_valid u KindEnvironment (hd_EnvironmentID h)" and m: "validate_metadata u h = Inr ()"
    using assms by (auto simp: header_validate_def split: if_splits)
  show "length (hd_TaskID h) = 31" "length (hd_StepID h) = 31" "length (hd_EnvironmentID h) = 30"
    using ids[THEN id_valid_length] by (simp_all add: kind_defs)
  show "valid_destination (hd_Destination h)" using m by (rule metadata_destination)
  then show "length (hd_Destination h) \<le> 240" by (simp add: valid_destination_characterised)
  show "length (hd_ServiceName h) \<le> length (hd_Destination h)" "hd_ServiceName h = [] \<Longrightarrow> hd_ServiceID h = []"
    using metadata_service_name[OF m] by simp_all
qed

lemma output_kind_parse: "output_kind_string k = value \<and> value \<noteq> [] \<longleftrightarrow> parse_output_kind value = Inr k"
  by (auto simp: output_kind_string_def parse_output_kind_def model_simps split: if_splits)

text \<open>The path policy of materialised files, decided exactly: a destination is accepted when it is UTF-8 of at most 240
  bytes with no NUL and no backslash, and every component between slashes is a name of its own (not empty, \<open>"."\<close> or
  \<open>".."\<close>, without the prefix of the helper's temporary files) - or when it is \<open>".."\<close> itself, the parent of the
  directory the files are written to, which the test for a leading \<open>"../"\<close> does not see. So nothing accepted can
  climb out of that directory, except for this one text.
\<close>

theorem valid_destination_iff:
  "validate_desired_destination v = Inr () \<longleftrightarrow>
     valid_utf8 v \<and> length v \<le> MaximumDestinationBytes \<and> CHR 0x00 \<notin> set v \<and> backslash \<notin> set v \<and>
     (v = ''..'' \<or> list_all (\<lambda>c. plain_component c \<and> \<not> has_prefix TemporaryPrefix c) (split_slash v))"
  unfolding validate_desired_destination_def using valid_destination_characterised[of v] by simp

text \<open>The exception, evaluated: \<open>".."\<close> is accepted.\<close>

lemma parent_directory_accepted: "validate_desired_destination ''..'' = Inr ()"
  by code_simp

end
