(* ===== verification/MaterializationFrame.thy ===== *)
theory MaterializationFrame
  imports MaterializationHeader
begin

text \<open>
  The frame that carries one materialised file from the Controller to the helper
  (\<open>internal/common/entrymaterialization/frame.go\<close> and \<open>source.go\<close>): a prelude, one header record, numbered content
  records and an end record, each record with its type and its length. \<open>encode\<close> streams a source into a frame;
  \<open>decode\<close> streams a frame into a callback that reads the content piece by piece.

  Everything outside the code is in a \<open>channel\<close>: the pieces the source will deliver (any sizes, empty ones included)
  and whether it ends by failing, whether its \<open>Close\<close> fails, what the writer has taken and a script of short or failing
  writes, and after how many checks the context ends, with its error. A source that reports its end together with its
  last bytes is not represented; \<open>io.ReadFull\<close> treats it as one that reports it afterwards.
\<close>

section \<open>The outside world\<close>

record channel =
  ch_Context :: "(nat \<times> err) option"
  ch_Pieces :: "string list"
  ch_Fails :: bool
  ch_CloseFails :: bool
  ch_Written :: string
  ch_Writes :: "(int \<times> bool) list"

type_synonym 'a io = "channel \<Rightarrow> 'a res \<times> channel"

definition give_io :: "'a res \<Rightarrow> 'a io" where
  "give_io r ch = (r, ch)"

definition then_io :: "'a io \<Rightarrow> ('a \<Rightarrow> 'b io) \<Rightarrow> 'b io" where
  "then_io m k ch = (case m ch of (Inl e, ch') \<Rightarrow> (Inl e, ch') | (Inr v, ch') \<Rightarrow> k v ch')"

text \<open>\<open>ctx.Err()\<close>: nil until the context ends, then always its error.\<close>

definition context_err :: "unit io" where
  "context_err ch =
     (case ch_Context ch of
        None \<Rightarrow> (Inr (), ch)
      | Some (0, e) \<Rightarrow> (Inl e, ch)
      | Some (Suc n, e) \<Rightarrow> (Inr (), ch\<lparr>ch_Context := Some (n, e)\<rparr>))"

text \<open>\<open>writeAll\<close>; a write beyond the script takes everything.\<close>

function write_fully :: "string \<Rightarrow> unit io" where
  "write_fully value ch =
     (if value = [] then (Inr (), ch)
      else case context_err ch of
        (Inl e, ch1) \<Rightarrow> (Inl e, ch1)
      | (Inr _, ch1) \<Rightarrow>
          (let (count, failed) = (case ch_Writes ch1 of [] \<Rightarrow> (int (length value), False) | w # _ \<Rightarrow> w);
               ch2 = ch1\<lparr>ch_Writes := drop 1 (ch_Writes ch1)\<rparr>
           in if count < 0 \<or> count > int (length value) then (Inl InternalError, ch2)
              else
                let ch3 = ch2\<lparr>ch_Written := ch_Written ch2 @ take (nat count) value\<rparr>
                in if failed then then_io context_err (\<lambda>_. give_io (Inl InternalError)) ch3
                   else if count = 0 then (Inl InternalError, ch3)
                   else write_fully (drop (nat count) value) ch3))"
  by pat_completeness auto

termination
  by (relation "measure (\<lambda>(value, _). length value)") (auto split: list.splits)

declare write_fully.simps [simp del]

text \<open>\<open>io.ReadFull\<close> of \<open>n\<close> bytes; \<open>None\<close> when the source ends or fails first.\<close>

fun read_full :: "nat \<Rightarrow> string list \<Rightarrow> string option \<times> string list" where
  "read_full 0 ps = (Some [], ps)"
| "read_full (Suc n) [] = (None, [])"
| "read_full (Suc n) (p # ps) =
     (if length p < Suc n
      then (case read_full (Suc n - length p) ps of (None, r) \<Rightarrow> (None, r) | (Some s, r) \<Rightarrow> (Some (p @ s), r))
      else (Some (take (Suc n) p), (if length p = Suc n then ps else drop (Suc n) p # ps)))"

definition read_exact :: "nat \<Rightarrow> string io" where
  "read_exact n =
     then_io context_err (\<lambda>_ ch.
       case read_full n (ch_Pieces ch) of
         (None, ps) \<Rightarrow> then_io context_err (\<lambda>_. give_io (Inl InternalError)) (ch\<lparr>ch_Pieces := ps\<rparr>)
       | (Some s, ps) \<Rightarrow> then_io context_err (\<lambda>_. give_io (Inr s)) (ch\<lparr>ch_Pieces := ps\<rparr>))"

text \<open>\<open>requireEOF\<close>: a hundred reads of one byte, each of which may bring nothing.\<close>

primrec require_eof_within :: "nat \<Rightarrow> unit io" where
  "require_eof_within 0 = give_io (Inl InternalError)"
| "require_eof_within (Suc tries) =
     then_io context_err (\<lambda>_ ch.
       case ch_Pieces ch of
         [] \<Rightarrow>
           (if ch_Fails ch then then_io context_err (\<lambda>_. give_io (Inl InternalError)) ch else (Inr (), ch))
       | p # ps \<Rightarrow>
           (if p \<noteq> [] then (Inl InternalError, ch\<lparr>ch_Pieces := (if length p = 1 then ps else drop 1 p # ps)\<rparr>)
            else require_eof_within tries (ch\<lparr>ch_Pieces := ps\<rparr>)))"

definition require_eof :: "unit io" where
  "require_eof = require_eof_within 100"

text \<open>\<open>sourceGuard.finish\<close>: the source is closed on every path, and a failed close replaces the result.\<close>

definition guard_finish :: "'a io \<Rightarrow> 'a io" where
  "guard_finish m ch = (case m ch of (r, ch') \<Rightarrow> (if ch_CloseFails ch' then Inl InternalError else r, ch'))"

definition hash_chunk :: "hasher \<Rightarrow> string \<Rightarrow> hasher res" where
  "hash_chunk h content = (case hasher_write h content of Inl _ \<Rightarrow> Inl InternalError | Inr h' \<Rightarrow> Inr h')"

section \<open>Layout\<close>

abbreviation max_chunk_bytes :: nat where "max_chunk_bytes \<equiv> 65536"
abbreviation max_chunk_content :: nat where "max_chunk_content \<equiv> 65532"
abbreviation max_sequenced_content :: nat where "max_sequenced_content \<equiv> 65532 * 2 ^ 32"
abbreviation header_overhead :: nat where "header_overhead \<equiv> 488"

record frame_limits =
  lm_MaxContentBytes :: u64
  lm_MaxDestinationBytes :: u32

definition limits_validate :: "frame_limits \<Rightarrow> unit res" where
  "limits_validate l =
     (if lm_MaxContentBytes l = 0 \<or> lm_MaxDestinationBytes l = 0 then Inl InternalError else Inr ())"

text \<open>The test both directions apply to a header: \<open>header exceeds accepted limits\<close>.\<close>

definition within_limits :: "frame_limits \<Rightarrow> header \<Rightarrow> bool" where
  "within_limits l h \<longleftrightarrow>
     hd_Length h \<le> lm_MaxContentBytes l \<and> unat (hd_Length h) \<le> max_sequenced_content \<and>
     length (hd_Destination h) \<le> unat (lm_MaxDestinationBytes l)"

definition frame_prelude :: string where
  "frame_prelude = ''GPEM'' @ [CHR 0x02]"

text \<open>A record header: the type and the length as a big-endian \<open>uint32\<close>.\<close>

definition record_header :: "nat \<Rightarrow> nat \<Rightarrow> string" where
  "record_header t n = char_of t # be_text 4 n"

section \<open>Header fields\<close>

definition append_field :: "nat \<Rightarrow> string \<Rightarrow> string" where
  "append_field tag value = char_of tag # be_text 4 (length value) @ value"

definition header_fields :: "header \<Rightarrow> (nat \<times> string) list" where
  "header_fields h =
     [(1, hd_TaskID h), (2, hd_StepID h), (3, hd_EnvironmentID h), (4, be_text 8 (unat (hd_Generation h))),
      (5, hd_Destination h), (6, hd_ServiceID h), (7, hd_ServiceName h), (8, [char_of (unat (hd_OutputKind h))]),
      (9, be_text 4 (unat (hd_UID h))), (10, be_text 4 (unat (hd_GID h))), (11, be_text 4 (unat (hd_Mode h))),
      (12, be_text 8 (unat (hd_Length h))), (13, hd_Digest h)]"

definition encode_header :: "header \<Rightarrow> string" where
  "encode_header h = concat (map (\<lambda>(tag, value). append_field tag value) (header_fields h))"

text \<open>The \<open>switch tag\<close> of \<open>decodeHeader\<close>.\<close>

definition set_field :: "nat \<Rightarrow> string \<Rightarrow> header \<Rightarrow> header res" where
  "set_field tag value spec =
     (if tag = 1 then Inr (spec\<lparr>hd_TaskID := value\<rparr>)
      else if tag = 2 then Inr (spec\<lparr>hd_StepID := value\<rparr>)
      else if tag = 3 then Inr (spec\<lparr>hd_EnvironmentID := value\<rparr>)
      else if tag = 4 then
        if length value \<noteq> 8 then Inl InternalError else Inr (spec\<lparr>hd_Generation := of_nat (be_value value)\<rparr>)
      else if tag = 5 then Inr (spec\<lparr>hd_Destination := value\<rparr>)
      else if tag = 6 then Inr (spec\<lparr>hd_ServiceID := value\<rparr>)
      else if tag = 7 then Inr (spec\<lparr>hd_ServiceName := value\<rparr>)
      else if tag = 8 then
        if length value \<noteq> 1 then Inl InternalError else Inr (spec\<lparr>hd_OutputKind := of_nat (be_value value)\<rparr>)
      else if tag = 9 then
        if length value \<noteq> 4 then Inl InternalError else Inr (spec\<lparr>hd_UID := of_nat (be_value value)\<rparr>)
      else if tag = 10 then
        if length value \<noteq> 4 then Inl InternalError else Inr (spec\<lparr>hd_GID := of_nat (be_value value)\<rparr>)
      else if tag = 11 then
        if length value \<noteq> 4 then Inl InternalError else Inr (spec\<lparr>hd_Mode := of_nat (be_value value)\<rparr>)
      else if tag = 12 then
        if length value \<noteq> 8 then Inl InternalError else Inr (spec\<lparr>hd_Length := of_nat (be_value value)\<rparr>)
      else
        if length value \<noteq> 32 then Inl InternalError else Inr (spec\<lparr>hd_Digest := value\<rparr>))"

text \<open>The loop over the fields; the array \<open>seen\<close> is the list of the tags that are set in it.\<close>

function decode_fields :: "nat list \<Rightarrow> header \<Rightarrow> string \<Rightarrow> (nat list \<times> header) res" where
  "decode_fields seen spec encoded =
     (if encoded = [] then Inr (seen, spec)
      else if length encoded < 5 then Inl InternalError
      else
        let tag = byte (hd encoded);
            n = be_value (take 4 (drop 1 encoded));
            rest = drop 5 encoded
        in if tag = 0 \<or> tag \<ge> 14 then Inl InternalError
           else if tag \<in> set seen then Inl InternalError
           else if n > length rest then Inl InternalError
           else try_res (set_field tag (take n rest) spec) (\<lambda>spec'. decode_fields (tag # seen) spec' (drop n rest)))"
  by pat_completeness auto

termination
  by (relation "measure (\<lambda>(_, _, encoded). length encoded)") auto

declare decode_fields.simps [simp del]

definition empty_header :: header where
  "empty_header =
     \<lparr>hd_TaskID = [], hd_StepID = [], hd_EnvironmentID = [], hd_Generation = 0, hd_Destination = [], hd_ServiceID = [],
      hd_ServiceName = [], hd_OutputKind = 0, hd_UID = 0, hd_GID = 0, hd_Mode = 0, hd_Length = 0,
      hd_Digest = replicate 32 (CHR 0x00)\<rparr>"

definition decode_header :: "ulid_check \<Rightarrow> string \<Rightarrow> header res" where
  "decode_header u encoded =
     try_res (decode_fields [] empty_header encoded) (\<lambda>(seen, spec).
       if \<not> list_all (\<lambda>tag. tag \<in> set seen) [1..<14] then Inl InternalError else new_header u spec)"

section \<open>Encode\<close>

definition write_record :: "nat \<Rightarrow> string \<Rightarrow> unit io" where
  "write_record t payload = then_io (write_fully (record_header t (length payload))) (\<lambda>_. write_fully payload)"

definition write_chunk :: "u32 \<Rightarrow> string \<Rightarrow> unit io" where
  "write_chunk sequence content =
     then_io (write_fully (record_header 2 (length content + 4) @ be_text 4 (unat sequence)))
       (\<lambda>_. write_fully content)"

lemma unat_minus_chunk:
  assumes "n \<le> unat (r :: u64)"
  shows "unat (r - of_nat n) = unat r - n"
proof -
  have "n < 2 ^ 64" using assms u64_less[of r] by simp
  then have "unat (of_nat n :: u64) = n" by (simp add: unat_of_nat)
  then show ?thesis using assms by (simp add: unat_sub word_le_nat_alt)
qed

function encode_content :: "hasher \<Rightarrow> u64 \<Rightarrow> u32 \<Rightarrow> hasher io" where
  "encode_content h remaining sequence =
     (if remaining = 0 then give_io (Inr h)
      else
        let n = min max_chunk_content (unat remaining)
        in then_io (read_exact n) (\<lambda>chunk.
           then_io (give_io (hash_chunk h chunk)) (\<lambda>h'.
           then_io (write_chunk sequence chunk) (\<lambda>_.
             encode_content h' (remaining - of_nat n) (sequence + 1)))))"
  by pat_completeness auto

termination
  by (relation "measure (\<lambda>(_, remaining, _). unat remaining)") (auto simp: unat_minus_chunk unat_gt_0)

declare encode_content.simps [simp del]

definition encode_body :: "ulid_check \<Rightarrow> frame_limits \<Rightarrow> header \<Rightarrow> hasher \<Rightarrow> unit io" where
  "encode_body u limits h hasher =
     then_io context_err (\<lambda>_.
     then_io (give_io (limits_validate limits)) (\<lambda>_.
     then_io (give_io (header_validate u h)) (\<lambda>_.
       if \<not> within_limits limits h then give_io (Inl InternalError)
       else if length (hd_Destination h) + header_overhead > 2 ^ 32 - 1 then give_io (Inl InternalError)
       else
         then_io (write_fully frame_prelude) (\<lambda>_.
         then_io (write_record 1 (encode_header h)) (\<lambda>_.
         then_io (encode_content hasher (hd_Length h) 0) (\<lambda>hasher'.
         then_io require_eof (\<lambda>_.
           if \<not> fst (hasher_verify hasher' (hd_Digest h)) then give_io (Inl InternalError)
           else write_record 3 [])))))))"

definition encode :: "ulid_check \<Rightarrow> frame_limits \<Rightarrow> header \<Rightarrow> unit io" where
  "encode u limits h = guard_finish (encode_body u limits h new_hasher)"

section \<open>Decode\<close>

definition read_record_header :: "(nat \<times> nat) io" where
  "read_record_header = then_io (read_exact 5) (\<lambda>s. give_io (Inr (byte (hd s), be_value (drop 1 s))))"

record content_reader =
  cr_Channel :: channel
  cr_Header :: header
  cr_Digest :: hasher
  cr_Chunk :: string
  cr_Offset :: nat
  cr_Total :: u64
  cr_Sequence :: u32
  cr_Complete :: bool
  cr_Failure :: "err option"

text \<open>An operation on the channel of a reader.\<close>

definition on_channel :: "'a io \<Rightarrow> content_reader \<Rightarrow> 'a res \<times> content_reader" where
  "on_channel m r = (case m (cr_Channel r) of (v, ch) \<Rightarrow> (v, r\<lparr>cr_Channel := ch\<rparr>))"

definition load_content :: "nat \<Rightarrow> content_reader \<Rightarrow> unit res \<times> content_reader" where
  "load_content len r =
     (if len \<le> 4 \<or> len > max_chunk_bytes then (Inl InternalError, r)
      else case on_channel (read_exact 4) r of
        (Inl e, r1) \<Rightarrow> (Inl e, r1)
      | (Inr sequence, r1) \<Rightarrow>
          (if of_nat (be_value sequence) \<noteq> cr_Sequence r1 then (Inl InternalError, r1)
           else if cr_Total r1 > hd_Length (cr_Header r1) \<or> of_nat (len - 4) > hd_Length (cr_Header r1) - cr_Total r1
           then (Inl InternalError, r1)
           else case on_channel (read_exact (len - 4)) r1 of
             (Inl e, r2) \<Rightarrow> (Inl e, r2\<lparr>cr_Chunk := []\<rparr>)
           | (Inr chunk, r2) \<Rightarrow>
               (case hash_chunk (cr_Digest r2) chunk of
                  Inl e \<Rightarrow> (Inl e, r2\<lparr>cr_Chunk := chunk\<rparr>)
                | Inr h \<Rightarrow>
                    (Inr (), r2\<lparr>cr_Chunk := chunk, cr_Digest := h, cr_Total := cr_Total r2 + of_nat (len - 4),
                       cr_Sequence := cr_Sequence r2 + 1\<rparr>))))"

definition load_end :: "nat \<Rightarrow> content_reader \<Rightarrow> unit res \<times> content_reader" where
  "load_end len r =
     (if len \<noteq> 0 \<or> cr_Total r \<noteq> hd_Length (cr_Header r) then (Inl InternalError, r)
      else case hasher_verify (cr_Digest r) (hd_Digest (cr_Header r)) of
        (False, h) \<Rightarrow> (Inl InternalError, r\<lparr>cr_Digest := h\<rparr>)
      | (True, h) \<Rightarrow>
          (case on_channel require_eof (r\<lparr>cr_Digest := h\<rparr>) of
             (Inl e, r1) \<Rightarrow> (Inl e, r1)
           | (Inr _, r1) \<Rightarrow> (Inr (), r1\<lparr>cr_Complete := True\<rparr>)))"

definition load_chunk :: "content_reader \<Rightarrow> unit res \<times> content_reader" where
  "load_chunk r =
     (case on_channel read_record_header r of
        (Inl e, r1) \<Rightarrow> (Inl e, r1)
      | (Inr (t, len), r1) \<Rightarrow>
          (if t = 1 then (Inl InternalError, r1)
           else if t = 2 then load_content len r1
           else if t = 3 then load_end len r1
           else (Inl InternalError, r1)))"

text \<open>What \<open>Read\<close> returns: some bytes, the end of the content, or an error.\<close>

datatype reply = Bytes string | AtEnd | Failed err

text \<open>\<open>OwnBytes\<close>: a source over bytes in memory, which are cleared as they are read, and all of them on \<open>Close\<close>.\<close>

record byte_source =
  by_Value :: string
  by_Offset :: nat
  by_Closed :: bool

definition own_bytes :: "string \<Rightarrow> byte_source" where
  "own_bytes bytes = \<lparr>by_Value = bytes, by_Offset = 0, by_Closed = False\<rparr>"

definition source_read :: "nat \<Rightarrow> byte_source \<Rightarrow> reply \<times> byte_source" where
  "source_read n s =
     (if by_Closed s then (Failed PlainError, s)
      else if by_Offset s = length (by_Value s) then (AtEnd, s)
      else
        let got = take n (drop (by_Offset s) (by_Value s));
            count = length got
        in (Bytes got, s\<lparr>by_Value := take (by_Offset s) (by_Value s) @ replicate count (CHR 0x00) @
              drop (by_Offset s + count) (by_Value s), by_Offset := by_Offset s + count\<rparr>))"

definition source_close :: "byte_source \<Rightarrow> byte_source" where
  "source_close s = s\<lparr>by_Value := [], by_Offset := 0, by_Closed := True\<rparr>"

text \<open>The tail of \<open>Read\<close>, once a chunk is there: copy from it and drop it when it is used up.\<close>

definition take_chunk :: "nat \<Rightarrow> content_reader \<Rightarrow> reply \<times> content_reader" where
  "take_chunk n r =
     (let got = take n (drop (cr_Offset r) (cr_Chunk r));
          offset = cr_Offset r + length got
      in (Bytes got,
          if offset = length (cr_Chunk r) then r\<lparr>cr_Chunk := [], cr_Offset := 0\<rparr> else r\<lparr>cr_Offset := offset\<rparr>))"

definition content_read :: "nat \<Rightarrow> content_reader \<Rightarrow> reply \<times> content_reader" where
  "content_read n r =
     (if n = 0 then (Bytes [], r)
      else case cr_Failure r of
        Some e \<Rightarrow> (Failed e, r)
      | None \<Rightarrow>
          if cr_Complete r then (AtEnd, r)
          else case on_channel context_err r of
            (Inl e, r1) \<Rightarrow> (Failed e, r1\<lparr>cr_Failure := Some e\<rparr>)
          | (Inr _, r1) \<Rightarrow>
              (if cr_Offset r1 = length (cr_Chunk r1) then
                 case load_chunk (r1\<lparr>cr_Chunk := [], cr_Offset := 0\<rparr>) of
                   (Inl e, r2) \<Rightarrow> (Failed e, r2\<lparr>cr_Failure := Some e\<rparr>)
                 | (Inr _, r2) \<Rightarrow> if cr_Complete r2 then (AtEnd, r2) else take_chunk n r2
               else take_chunk n r1))"

text \<open>
  The callback is an arbitrary program that reads with buffers of any size and decides by the replies; it ends with an
  error or without one. Beside its result, \<open>run_consumer\<close> gives the bytes it has received.
\<close>

datatype consumer = Finish "unit res" | ReadNext nat "reply \<Rightarrow> consumer"

fun reply_bytes :: "reply \<Rightarrow> string" where
  "reply_bytes (Bytes s) = s"
| "reply_bytes AtEnd = []"
| "reply_bytes (Failed e) = []"

primrec run_consumer :: "consumer \<Rightarrow> content_reader \<Rightarrow> unit res \<times> string \<times> content_reader" where
  "run_consumer (Finish r) = (\<lambda>reader. (r, [], reader))"
| "run_consumer (ReadNext n k) =
     (\<lambda>reader.
        let (reply, reader1) = content_read n reader;
            (r, received, reader2) = run_consumer (k reply) reader1
        in (r, reply_bytes reply @ received, reader2))"

definition new_reader :: "header \<Rightarrow> hasher \<Rightarrow> channel \<Rightarrow> content_reader" where
  "new_reader h hasher ch =
     \<lparr>cr_Channel = ch, cr_Header = h, cr_Digest = hasher, cr_Chunk = [], cr_Offset = 0, cr_Total = 0, cr_Sequence = 0,
      cr_Complete = False, cr_Failure = None\<rparr>"

definition decode_content :: "(header \<Rightarrow> consumer) \<Rightarrow> header \<Rightarrow> hasher \<Rightarrow> (header \<times> string) io" where
  "decode_content consume h hasher ch =
     (case run_consumer (consume h) (new_reader h hasher ch) of
        (Inl e, _, reader) \<Rightarrow> (Inl e, cr_Channel reader)
      | (Inr _, received, reader) \<Rightarrow>
          (case cr_Failure reader of
             Some e \<Rightarrow> (Inl e, cr_Channel reader)
           | None \<Rightarrow>
               if \<not> cr_Complete reader then (Inl InternalError, cr_Channel reader)
               else (Inr (h, received), cr_Channel reader)))"

definition decode_body ::
  "ulid_check \<Rightarrow> frame_limits \<Rightarrow> (header \<Rightarrow> consumer) \<Rightarrow> hasher \<Rightarrow> (header \<times> string) io" where
  "decode_body u limits consume hasher =
     then_io context_err (\<lambda>_.
     then_io (give_io (limits_validate limits)) (\<lambda>_.
     then_io (read_exact 5) (\<lambda>prelude.
       if prelude \<noteq> frame_prelude then give_io (Inl InternalError)
       else then_io read_record_header (\<lambda>(t, len).
         if t \<noteq> 1 then give_io (Inl InternalError)
         else if len = 0 \<or> len > unat (lm_MaxDestinationBytes limits) + header_overhead
         then give_io (Inl InternalError)
         else
           then_io (read_exact len) (\<lambda>encoded.
           then_io (give_io (decode_header u encoded)) (\<lambda>h.
             if \<not> within_limits limits h then give_io (Inl InternalError)
             else decode_content consume h hasher))))))"

text \<open>\<open>Decode\<close>: the header it returns, with the bytes its callback has received.\<close>

definition decode :: "ulid_check \<Rightarrow> frame_limits \<Rightarrow> (header \<Rightarrow> consumer) \<Rightarrow> (header \<times> string) io" where
  "decode u limits consume = guard_finish (decode_body u limits consume new_hasher)"

end
