(* ===== verification/MaterializationCodec.thy ===== *)
theory MaterializationCodec
  imports MaterializationFrame
begin

text \<open>
  Facts of the frame operations one by one: what a successful read or write does to the channel, the laws of the digest
  as an interface (\<open>incremental_digest\<close>) and the round trip of the header fields. The theorems about whole frames are in
  \<open>MaterializationProperties\<close>.
\<close>

section \<open>Input and output\<close>

text \<open>\<open>moved ch i o ch'\<close>: from \<open>ch\<close> to \<open>ch'\<close> the bytes \<open>i\<close> have been read and the bytes \<open>o\<close> written.\<close>

definition moved :: "channel \<Rightarrow> string \<Rightarrow> string \<Rightarrow> channel \<Rightarrow> bool" where
  "moved ch i out ch' \<longleftrightarrow>
     concat (ch_Pieces ch) = i @ concat (ch_Pieces ch') \<and> ch_Written ch' = ch_Written ch @ out"

lemma moved_refl [simp]: "moved ch [] [] ch"
  by (simp add: moved_def)

lemma moved_trans: "\<lbrakk>moved ch i out ch'; moved ch' j q ch''\<rbrakk> \<Longrightarrow> moved ch (i @ j) (out @ q) ch''"
  by (simp add: moved_def)

lemma then_io_ok:
  "then_io m k ch = (Inr v, ch'') \<longleftrightarrow> (\<exists>w ch'. m ch = (Inr w, ch') \<and> k w ch' = (Inr v, ch''))"
  by (auto simp: then_io_def split: prod.splits sum.splits)

lemma give_io_ok: "give_io r ch = (Inr v, ch') \<longleftrightarrow> r = Inr v \<and> ch' = ch"
  by (auto simp: give_io_def)

lemma give_error_never: "then_io m (\<lambda>_. give_io (Inl e)) ch \<noteq> (Inr v, ch')"
  by (simp add: then_io_ok give_io_ok)

lemma context_err_ok:
  "context_err ch = (r, ch') \<Longrightarrow>
     ch_Pieces ch' = ch_Pieces ch \<and> ch_Written ch' = ch_Written ch \<and> ch_Fails ch' = ch_Fails ch"
  by (auto simp: context_err_def split: option.splits prod.splits nat.splits)

lemma write_fully_ok: "write_fully bytes ch = (Inr v, ch') \<Longrightarrow> moved ch [] bytes ch'"
proof (induction bytes ch arbitrary: ch' rule: write_fully.induct)
  case (1 bytes ch)
  show ?case
  proof (cases "bytes = []")
    case True
    then show ?thesis using "1.prems" by (subst (asm) write_fully.simps) simp
  next
    case False
    obtain r ch1 where ctx: "context_err ch = (r, ch1)" by force
    obtain count failed where w: "(case ch_Writes ch1 of [] \<Rightarrow> (int (length bytes), False) | w # _ \<Rightarrow> w) = (count, failed)"
      by force
    define ch2 where "ch2 = ch1\<lparr>ch_Writes := drop 1 (ch_Writes ch1)\<rparr>"
    define ch3 where "ch3 = ch2\<lparr>ch_Written := ch_Written ch2 @ take (nat count) bytes\<rparr>"
    from "1.prems" False ctx have r: "r = Inr ()" by (subst (asm) write_fully.simps) (auto split: sum.splits)
    from "1.prems" False ctx r w have k: "\<not> (count < 0 \<or> count > int (length bytes))" "\<not> failed" "count \<noteq> 0"
      "write_fully (drop (nat count) bytes) ch3 = (Inr v, ch')"
      by (subst (asm) write_fully.simps; simp add: Let_def ch3_def ch2_def give_error_never split: if_splits)+
    have "moved ch3 [] (drop (nat count) bytes) ch'"
      by (rule "1.IH"[OF False ctx[unfolded r, symmetric] refl w[symmetric] refl ch2_def k(1) ch3_def k(2,3,4)])
    moreover have "moved ch [] (take (nat count) bytes) ch3"
      using context_err_ok[OF ctx] by (simp add: moved_def ch3_def ch2_def)
    ultimately show ?thesis
      using moved_trans[of ch "[]" "take (nat count) bytes" ch3 "[]" "drop (nat count) bytes" ch'] by simp
  qed
qed

lemma read_full_ok: "read_full n ps = (Some s, ps') \<Longrightarrow> concat ps = s @ concat ps' \<and> length s = n"
proof (induction n ps arbitrary: s ps' rule: read_full.induct)
  case (3 n p ps)
  show ?case
  proof (cases "length p < Suc n")
    case True
    obtain t r where rest: "read_full (Suc n - length p) ps = (t, r)" by force
    with True "3.prems" obtain s1 where s1: "t = Some s1" "s = p @ s1" "r = ps'" by (auto split: option.splits)
    with "3.IH"[OF True] rest have "concat ps = s1 @ concat ps' \<and> length s1 = Suc n - length p" by blast
    with s1 True show ?thesis by simp
  next
    case False
    with "3.prems" have "s = take (Suc n) p" "concat ps' = drop (Suc n) p @ concat ps" by (auto split: if_splits)
    then show ?thesis using False by simp
  qed
qed auto

lemma read_exact_ok: "read_exact n ch = (Inr s, ch') \<Longrightarrow> moved ch s [] ch' \<and> length s = n"
proof -
  assume a: "read_exact n ch = (Inr s, ch')"
  then obtain ch1 where ctx: "context_err ch = (Inr (), ch1)"
    and b: "(case read_full n (ch_Pieces ch1) of
         (None, ps) \<Rightarrow> then_io context_err (\<lambda>_. give_io (Inl InternalError)) (ch1\<lparr>ch_Pieces := ps\<rparr>)
       | (Some s, ps) \<Rightarrow> then_io context_err (\<lambda>_. give_io (Inr s)) (ch1\<lparr>ch_Pieces := ps\<rparr>)) = (Inr s, ch')"
    by (auto simp: read_exact_def then_io_ok)
  obtain ps where full: "read_full n (ch_Pieces ch1) = (Some s, ps)"
    "then_io context_err (\<lambda>_. give_io (Inr s)) (ch1\<lparr>ch_Pieces := ps\<rparr>) = (Inr s, ch')"
    using b by (auto simp: give_error_never then_io_ok give_io_ok split: prod.splits option.splits)
  then have "context_err (ch1\<lparr>ch_Pieces := ps\<rparr>) = (Inr (), ch')" by (auto simp: then_io_ok give_io_ok)
  then show ?thesis
    using context_err_ok[OF ctx] read_full_ok[OF full(1)] by (auto dest!: context_err_ok simp: moved_def)
qed

lemma require_eof_ok: "require_eof ch = (Inr v, ch') \<Longrightarrow> moved ch [] [] ch' \<and> concat (ch_Pieces ch) = []"
proof -
  have "require_eof_within k ch = (Inr v, ch') \<Longrightarrow> moved ch [] [] ch' \<and> concat (ch_Pieces ch) = []" for k
  proof (induction k arbitrary: ch)
    case (Suc k)
    from Suc.prems obtain ch1 where ctx: "context_err ch = (Inr (), ch1)"
      and b: "(case ch_Pieces ch1 of
         [] \<Rightarrow>
           (if ch_Fails ch1 then then_io context_err (\<lambda>_. give_io (Inl InternalError)) ch1 else (Inr (), ch1))
       | p # ps \<Rightarrow>
           (if p \<noteq> [] then (Inl InternalError, ch1\<lparr>ch_Pieces := (if length p = 1 then ps else drop 1 p # ps)\<rparr>)
            else require_eof_within k (ch1\<lparr>ch_Pieces := ps\<rparr>))) = (Inr v, ch')"
      by (auto simp: then_io_ok)
    show ?case
    proof (cases "ch_Pieces ch1")
      case Nil
      with b context_err_ok[OF ctx] show ?thesis by (auto simp: give_error_never moved_def split: if_splits)
    next
      case (Cons p ps)
      with b have "p = []" "require_eof_within k (ch1\<lparr>ch_Pieces := ps\<rparr>) = (Inr v, ch')" by (auto split: if_splits)
      with Suc.IH Cons context_err_ok[OF ctx] show ?thesis by (fastforce simp: moved_def)
    qed
  qed (simp add: give_io_def)
  then show "require_eof ch = (Inr v, ch') \<Longrightarrow> ?thesis" by (simp add: require_eof_def)
qed

lemma guard_finish_ok: "guard_finish m ch = (Inr v, ch') \<Longrightarrow> m ch = (Inr v, ch')"
  by (auto simp: guard_finish_def split: prod.splits if_splits)

text \<open>
  An open in-memory source hands over the bytes it still owns, in their order, and what it has handed over is cleared in
  place; a closed one owns nothing.
\<close>

definition owned :: "byte_source \<Rightarrow> string" where
  "owned s = drop (by_Offset s) (by_Value s)"

definition wiped :: "byte_source \<Rightarrow> bool" where
  "wiped s \<longleftrightarrow> by_Offset s \<le> length (by_Value s) \<and> take (by_Offset s) (by_Value s) = replicate (by_Offset s) (CHR 0x00)"

lemma own_bytes_owned: "owned (own_bytes bytes) = bytes" "wiped (own_bytes bytes)"
  by (simp_all add: owned_def wiped_def own_bytes_def)

lemma source_read_owned:
  assumes "wiped s" "\<not> by_Closed s" "source_read n s = (reply, s')"
  shows "owned s = reply_bytes reply @ owned s' \<and> wiped s' \<and> (reply = AtEnd \<longleftrightarrow> owned s = []) \<and>
           (0 < n \<and> owned s \<noteq> [] \<longrightarrow> reply_bytes reply \<noteq> [])"
proof (cases "by_Offset s = length (by_Value s)")
  case True
  then show ?thesis using assms by (auto simp: source_read_def owned_def)
next
  case False
  define got where "got = take n (drop (by_Offset s) (by_Value s))"
  have le: "by_Offset s + length got \<le> length (by_Value s)" using assms(1) by (auto simp: wiped_def got_def)
  have split: "drop (by_Offset s) (by_Value s) = got @ drop (by_Offset s + length got) (by_Value s)"
  proof -
    have "got = take (length got) (drop (by_Offset s) (by_Value s))" by (simp add: got_def min_def)
    then show ?thesis by (metis add.commute append_take_drop_id drop_drop)
  qed
  have reply: "reply = Bytes got"
    and s': "s' = s\<lparr>by_Value := take (by_Offset s) (by_Value s) @ replicate (length got) (CHR 0x00) @
      drop (by_Offset s + length got) (by_Value s), by_Offset := by_Offset s + length got\<rparr>"
    using assms(2,3) False by (simp_all add: source_read_def Let_def got_def)
  have "owned s' = drop (by_Offset s + length got) (by_Value s)" using le by (simp add: owned_def s')
  moreover have "wiped s'" using assms(1) le by (simp add: wiped_def s' replicate_add)
  moreover have "owned s \<noteq> []" using assms(1) False by (simp add: owned_def wiped_def)
  moreover have "0 < n \<longrightarrow> got \<noteq> []" using \<open>owned s \<noteq> []\<close> by (simp add: got_def owned_def)
  ultimately show ?thesis using split by (simp add: owned_def reply)
qed

lemma source_close_owned: "owned (source_close s) = []" "wiped (source_close s)"
  "source_read n (source_close s) = (Failed PlainError, source_close s)"
  by (simp_all add: owned_def wiped_def source_close_def source_read_def)

section \<open>The digest as an interface\<close>

text \<open>
  What the frame code relies on of its \<open>Hasher\<close>: a state stands for the bytes written to it, a write that succeeds
  appends, a write within the limit succeeds, and the sum is that of the reference digest.
\<close>

locale incremental_digest =
  fixes stands_for :: "'h \<Rightarrow> string \<Rightarrow> bool"
    and fresh :: 'h
    and append :: "'h \<Rightarrow> string \<Rightarrow> 'h res"
    and total :: "'h \<Rightarrow> string res \<times> 'h"
    and reference :: "string \<Rightarrow> string"
    and limit :: nat
  assumes fresh: "stands_for fresh []"
    and append_extends: "\<lbrakk>stands_for h s; append h c = Inr h'\<rbrakk> \<Longrightarrow> stands_for h' (s @ c)"
    and append_succeeds: "\<lbrakk>stands_for h s; length s + length c \<le> limit\<rbrakk> \<Longrightarrow> \<exists>h'. append h c = Inr h'"
    and total_reference: "stands_for h s \<Longrightarrow> fst (total h) = Inr (reference s)"
begin

lemma pieces_succeed:
  "\<lbrakk>stands_for h s; length s + length (concat cs) \<le> limit\<rbrakk> \<Longrightarrow>
     \<exists>h'. foldl (\<lambda>r c. try_res r (\<lambda>h. append h c)) (Inr h) cs = Inr h' \<and> stands_for h' (s @ concat cs)"
proof (induction cs arbitrary: h s)
  case (Cons c cs)
  then obtain h1 where h1: "append h c = Inr h1" using append_succeeds[of h s c] by auto
  with Cons.prems(1) have "stands_for h1 (s @ c)" by (rule append_extends)
  from Cons.IH[OF this] Cons.prems(2) h1 show ?case by auto
qed simp

lemma sum_of_pieces:
  "length (concat cs) \<le> limit \<Longrightarrow>
     \<exists>h. foldl (\<lambda>r c. try_res r (\<lambda>h. append h c)) (Inr fresh) cs = Inr h \<and> fst (total h) = Inr (reference (concat cs))"
  using pieces_succeed[OF fresh, of cs] total_reference by fastforce

end

text \<open>The hasher of the code stands for what has been written to it, never more than the limit of \<open>Write\<close>.\<close>

definition hashes :: "hasher \<Rightarrow> string \<Rightarrow> bool" where
  "hashes h s \<longleftrightarrow> represents h s \<and> length s \<le> maximum_digest_input"

lemma hasher_write_limit:
  assumes "hashes h s" "hasher_write h c = Inr h'"
  shows "hashes h' (s @ c)"
proof -
  have limit: "unat ((- 1 :: u64) div 8) = maximum_digest_input" by (simp add: unat_div)
  have s: "unat (of_nat (length s) :: u64) = length s" using assms(1) by (simp add: hashes_def unat_of_nat)
  have "(of_nat (length s) :: u64) \<le> - 1 div 8" using assms(1) limit s by (simp add: hashes_def word_le_nat_alt)
  then have "unat ((- 1 :: u64) div 8 - of_nat (length s)) = maximum_digest_input - length s"
    using s limit by (simp add: unat_sub)
  then have "h' = hasher_absorb h c" "length s + length c \<le> maximum_digest_input"
    using assms by (auto simp: hasher_write_def hashes_def represents_def split: if_splits)
  then show ?thesis using assms(1) represents_absorb[of h s c] by (simp add: hashes_def)
qed

interpretation sha: incremental_digest hashes new_hasher hasher_write sum_and_destroy sha256 maximum_digest_input
proof
  show "hashes new_hasher []" using new_hasher_represents by (simp add: hashes_def)
  show "hashes h' (s @ c)" if "hashes h s" "hasher_write h c = Inr h'" for h s c h'
    using that by (rule hasher_write_limit)
  show "\<exists>h'. hasher_write h c = Inr h'" if "hashes h s" "length s + length c \<le> maximum_digest_input" for h s c
    using that hasher_write_ok[of h s c] by (simp add: hashes_def)
  show "fst (sum_and_destroy h) = Inr (sha256 s)" if "hashes h s" for h s
    using that digest_padding[of h s] by (simp add: hashes_def sum_and_destroy_def)
qed

lemma hasher_verify_hashes: "hashes h s \<Longrightarrow> fst (hasher_verify h d) = (sha256 s = d)"
  using sha.total_reference[of h s] by (auto simp: hasher_verify_def split: prod.splits sum.splits)

lemma hash_chunk_ok: "\<lbrakk>hashes h s; hash_chunk h c = Inr h'\<rbrakk> \<Longrightarrow> hashes h' (s @ c)"
  using sha.append_extends[of h s c h'] by (auto simp: hash_chunk_def split: sum.splits)

lemma hash_chunk_succeeds:
  "\<lbrakk>hashes h s; length s + length c \<le> maximum_digest_input\<rbrakk> \<Longrightarrow> \<exists>h'. hash_chunk h c = Inr h' \<and> hashes h' (s @ c)"
  using sha.append_succeeds[of h s c] hash_chunk_ok[of h s c] by (auto simp: hash_chunk_def)

section \<open>Header fields\<close>

lemma length_append_field [simp]: "length (append_field tag value) = 5 + length value"
  by (simp add: append_field_def)

lemma be_value_single: "be_value [c] = byte c"
  by (simp add: be_value_def)

lemma decode_fields_append:
  assumes "0 < tag" "tag < 14" "length value < 2 ^ 32"
  shows "decode_fields seen spec (append_field tag value @ rest) =
           (if tag \<in> set seen then Inl InternalError
            else try_res (set_field tag value spec) (\<lambda>spec'. decode_fields (tag # seen) spec' rest))"
proof -
  have "byte (char_of tag) = tag" using assms(2) by (simp add: byte_char_of)
  moreover have "be_value (be_text 4 (length value)) = length value"
    using assms(3) by (intro be_text_value) simp
  moreover have "take 4 (drop 1 (append_field tag value @ rest)) = be_text 4 (length value)"
    "drop 5 (append_field tag value @ rest) = value @ rest" "hd (append_field tag value @ rest) = char_of tag"
    by (simp_all add: append_field_def)
  moreover have "append_field tag value \<noteq> []" "\<not> length (append_field tag value @ rest) < 5"
    by (simp_all add: append_field_def)
  ultimately show ?thesis
    using assms by (subst decode_fields.simps) (simp add: Let_def del: append_eq_conv_conj)
qed

lemma word_text: "be_value (be_text 4 (unat w)) = unat (w :: u32)" "be_value (be_text 8 (unat v)) = unat (v :: u64)"
  using u32_less[of w] u64_less[of v] by (auto intro!: be_text_value)

lemma kind_text: "byte (char_of (unat k)) = unat (k :: output_kind)"
  using unsigned_less[of k, where 'a = nat] by (simp add: byte_char_of)

lemma length_encode_header:
  "length (encode_header h) =
     94 + length (hd_TaskID h) + length (hd_StepID h) + length (hd_EnvironmentID h) + length (hd_Destination h) +
     length (hd_ServiceID h) + length (hd_ServiceName h) + length (hd_Digest h)"
  by (simp add: encode_header_def header_fields_def)

lemma decode_encode_header:
  assumes valid: "header_validate u h = Inr ()" and digest: "length (hd_Digest h) = 32"
    and service: "length (hd_ServiceID h) < 2 ^ 32"
  shows "decode_header u (encode_header h) = Inr h"
proof -
  note sizes = header_validE[OF valid]
  have "decode_fields [] empty_header (encode_header h) = Inr ([13, 12, 11, 10, 9, 8, 7, 6, 5, 4, 3, 2, 1], h)"
    using sizes digest service
    by (simp add: encode_header_def header_fields_def decode_fields_append set_field_def be_value_single kind_text word_text
        decode_fields_append[where rest = "[]", simplified] decode_fields.simps[of _ _ "[]"] empty_header_def)
  moreover have "list_all (\<lambda>tag. tag \<in> set [13, 12, 11, 10, 9, 8, 7, 6, 5, 4, 3, 2, 1]) [1..<14]" by code_simp
  ultimately show ?thesis using valid by (simp add: decode_header_def new_header_def)
qed

end
