(* ===== verification/MaterializationAccept.thy ===== *)
theory MaterializationAccept
  imports MaterializationCodec
begin

text \<open>
  Whole frames: the layout \<open>frame_bytes\<close>, what the decoder has seen when it accepts a frame (an invariant of the content
  reader, kept by every read of any callback), and why no accepted frame is a part of another.
\<close>

section \<open>The layout of a frame\<close>

primrec frame_chunks :: "u32 \<Rightarrow> string list \<Rightarrow> string" where
  "frame_chunks n [] = []"
| "frame_chunks n (c # cs) =
     record_header 2 (length c + 4) @ be_text 4 (unat n) @ c @ frame_chunks (n + 1) cs"

definition frame_bytes :: "string \<Rightarrow> string list \<Rightarrow> string" where
  "frame_bytes encoded cs =
     frame_prelude @ record_header 1 (length encoded) @ encoded @ frame_chunks 0 cs @ record_header 3 0"

definition chunk_sizes :: "string list \<Rightarrow> bool" where
  "chunk_sizes cs \<longleftrightarrow> list_all (\<lambda>c. 0 < length c \<and> length c \<le> max_chunk_content) cs"

lemma chunk_sizes_simps [simp]:
  "chunk_sizes []" "chunk_sizes (c # cs) \<longleftrightarrow> 0 < length c \<and> length c \<le> max_chunk_content \<and> chunk_sizes cs"
  "chunk_sizes (cs @ ds) \<longleftrightarrow> chunk_sizes cs \<and> chunk_sizes ds"
  by (auto simp: chunk_sizes_def)

lemma length_record_header [simp]: "length (record_header t n) = 5"
  by (simp add: record_header_def)

lemma frame_chunks_append: "frame_chunks n (cs @ ds) = frame_chunks n cs @ frame_chunks (n + of_nat (length cs)) ds"
  by (induction cs arbitrary: n) (auto simp: add.assoc)

section \<open>Numbers read back\<close>

lemma be_value_bound: "be_value s < 256 ^ length s"
proof (induction s rule: rev_induct)
  case Nil
  then show ?case by (simp add: be_value_def)
next
  case (snoc c s)
  have "byte c < 256" by (simp add: byte_def)
  with snoc show ?case by (simp add: be_value_snoc)
qed

lemma be_text_be_value: "be_text (length s) (be_value s) = s"
proof (induction s rule: rev_induct)
  case Nil
  then show ?case by (simp add: be_text_def big_endian_def)
next
  case (snoc c s)
  have "byte c < 256" by (simp add: byte_def)
  then have "(256 * be_value s + byte c) div 256 = be_value s" "(256 * be_value s + byte c) mod 256 = byte c" by simp_all
  with snoc show ?case by (simp add: be_value_snoc be_text_Suc) (simp add: byte_def)
qed

lemma be_text_inject: "\<lbrakk>be_text n a = be_text n b; a < 256 ^ n; b < 256 ^ n\<rbrakk> \<Longrightarrow> a = b"
  by (metis be_text_value)

lemma read_record_header_ok:
  assumes "read_record_header ch = (Inr (t, len), ch')"
  shows "moved ch (record_header t len) [] ch'"
proof -
  obtain s where s: "read_exact 5 ch = (Inr s, ch')" "t = byte (hd s)" "len = be_value (drop 1 s)"
    using assms by (auto simp: read_record_header_def then_io_ok give_io_ok)
  from read_exact_ok[OF s(1)] have m: "moved ch s [] ch'" "length s = 5" by auto
  then obtain c r where "s = c # r" "length r = 4" by (cases s) auto
  then have "record_header t len = s" using s be_text_be_value[of r] by (simp add: record_header_def byte_def)
  with m show ?thesis by simp
qed

lemma read_record_header_length: "read_record_header ch = (Inr (t, len), ch') \<Longrightarrow> len < 2 ^ 32"
proof -
  assume "read_record_header ch = (Inr (t, len), ch')"
  then obtain s where s: "read_exact 5 ch = (Inr s, ch')" "len = be_value (drop 1 s)"
    by (auto simp: read_record_header_def then_io_ok give_io_ok)
  then have "length (drop 1 s) = 4" using read_exact_ok[OF s(1)] by simp
  then show ?thesis using be_value_bound[of "drop 1 s"] s(2) by simp
qed

lemma of_nat_u64: "n < 2 ^ 64 \<Longrightarrow> unat (of_nat n :: u64) = n"
  by (simp add: unat_of_nat)

section \<open>What the reader has seen\<close>

text \<open>
  Unless it has failed, a reader that started at \<open>ch0\<close> has read the records of some chunks, whose bytes are those the
  callback has received and those still buffered; the digest, the total and the sequence number are those of the chunks.
  A complete reader has read the end record of a frame whose length and digest match, and nothing follows.
\<close>

definition seen_chunks :: "channel \<Rightarrow> header \<Rightarrow> string \<Rightarrow> content_reader \<Rightarrow> string list \<Rightarrow> bool" where
  "seen_chunks ch0 h received r cs \<longleftrightarrow>
     chunk_sizes cs \<and> cr_Offset r \<le> length (cr_Chunk r) \<and> concat cs = received @ drop (cr_Offset r) (cr_Chunk r) \<and>
     length (concat cs) \<le> unat (hd_Length h) \<and> cr_Total r = of_nat (length (concat cs)) \<and>
     cr_Sequence r = of_nat (length cs) \<and>
     (if cr_Complete r
      then moved ch0 (frame_chunks 0 cs @ record_header 3 0) [] (cr_Channel r) \<and>
        concat (ch_Pieces (cr_Channel r)) = [] \<and> concat cs = received \<and> length (concat cs) = unat (hd_Length h) \<and>
        sha256 (concat cs) = hd_Digest h
      else moved ch0 (frame_chunks 0 cs) [] (cr_Channel r) \<and> hashes (cr_Digest r) (concat cs))"

lemma seen_chunksD:
  assumes "seen_chunks ch0 h received r cs"
  shows "chunk_sizes cs" "cr_Offset r \<le> length (cr_Chunk r)"
    "concat cs = received @ drop (cr_Offset r) (cr_Chunk r)" "length (concat cs) \<le> unat (hd_Length h)"
    "cr_Total r = of_nat (length (concat cs))" "unat (cr_Total r) = length (concat cs)"
    "cr_Sequence r = of_nat (length cs)"
proof -
  from assms show "chunk_sizes cs" "cr_Offset r \<le> length (cr_Chunk r)"
    "concat cs = received @ drop (cr_Offset r) (cr_Chunk r)" "length (concat cs) \<le> unat (hd_Length h)"
    "cr_Total r = of_nat (length (concat cs))" "cr_Sequence r = of_nat (length cs)"
    unfolding seen_chunks_def by blast+
  then show "unat (cr_Total r) = length (concat cs)"
    by (metis (no_types) le_less_trans of_nat_u64 u64_less)
qed

lemma seen_openD:
  assumes "seen_chunks ch0 h received r cs" "\<not> cr_Complete r"
  shows "moved ch0 (frame_chunks 0 cs) [] (cr_Channel r)" "hashes (cr_Digest r) (concat cs)"
  using assms(1) unfolding seen_chunks_def if_not_P[OF assms(2)] by blast+

lemma seen_completeD:
  assumes "seen_chunks ch0 h received r cs" "cr_Complete r"
  shows "moved ch0 (frame_chunks 0 cs @ record_header 3 0) [] (cr_Channel r)"
    "concat (ch_Pieces (cr_Channel r)) = []" "concat cs = received" "length (concat cs) = unat (hd_Length h)"
    "sha256 (concat cs) = hd_Digest h"
  using assms(1) unfolding seen_chunks_def if_P[OF assms(2)] by blast+

definition reader_ok :: "channel \<Rightarrow> header \<Rightarrow> string \<Rightarrow> content_reader \<Rightarrow> bool" where
  "reader_ok ch0 h received r \<longleftrightarrow>
     cr_Header r = h \<and> (cr_Failure r = None \<longrightarrow> (\<exists>cs. seen_chunks ch0 h received r cs))"

lemma new_reader_ok: "hashes hasher [] \<Longrightarrow> reader_ok ch h [] (new_reader h hasher ch)"
  by (auto simp: reader_ok_def seen_chunks_def new_reader_def intro!: exI[of _ "[]"])

lemma on_channel_ok:
  "on_channel m r = (Inr v, r') \<longleftrightarrow> (\<exists>ch. m (cr_Channel r) = (Inr v, ch) \<and> r' = r\<lparr>cr_Channel := ch\<rparr>)"
  by (auto simp: on_channel_def split: prod.splits)

lemma load_content_seen:
  assumes r: "seen_chunks ch0 (cr_Header r) received r cs" "\<not> cr_Complete r" "cr_Chunk r = []"
    and head: "moved (cr_Channel r) (record_header 2 len) [] ch1"
    and load: "load_content len (r\<lparr>cr_Channel := ch1\<rparr>) = (Inr (), r')"
  shows "\<exists>c. seen_chunks ch0 (cr_Header r) received r' (cs @ [c]) \<and> cr_Complete r' = cr_Complete r \<and>
           cr_Failure r' = cr_Failure r \<and> cr_Header r' = cr_Header r"
proof -
  define r1 where "r1 = r\<lparr>cr_Channel := ch1\<rparr>"
  have len: "4 < len" "len \<le> max_chunk_bytes" using load by (auto simp: load_content_def split: if_splits)
  obtain s ch2 where s: "read_exact 4 ch1 = (Inr s, ch2)" "of_nat (be_value s) = cr_Sequence r"
    "\<not> (cr_Total r > hd_Length (cr_Header r) \<or> of_nat (len - 4) > hd_Length (cr_Header r) - cr_Total r)"
    and load2: "(case on_channel (read_exact (len - 4)) (r1\<lparr>cr_Channel := ch2\<rparr>) of
             (Inl e, r2) \<Rightarrow> (Inl e, r2\<lparr>cr_Chunk := []\<rparr>)
           | (Inr chunk, r2) \<Rightarrow>
               (case hash_chunk (cr_Digest r2) chunk of
                  Inl e \<Rightarrow> (Inl e, r2\<lparr>cr_Chunk := chunk\<rparr>)
                | Inr h \<Rightarrow>
                    (Inr (), r2\<lparr>cr_Chunk := chunk, cr_Digest := h, cr_Total := cr_Total r2 + of_nat (len - 4),
                       cr_Sequence := cr_Sequence r2 + 1\<rparr>))) = (Inr (), r')"
  proof -
    obtain t r2 where x: "on_channel (read_exact 4) r1 = (t, r2)" by force
    with load len obtain s where t: "t = Inr s" by (auto simp: load_content_def r1_def split: sum.splits)
    with x obtain ch2 where y: "read_exact 4 ch1 = (Inr s, ch2)" "r2 = r1\<lparr>cr_Channel := ch2\<rparr>"
      by (auto simp: on_channel_ok r1_def)
    show ?thesis
      by (rule that[OF y(1)]; insert load len x t y(2); simp add: load_content_def r1_def split: if_splits)
  qed
  obtain c ch3 h' where c: "read_exact (len - 4) ch2 = (Inr c, ch3)" "hash_chunk (cr_Digest r) c = Inr h'"
    and r': "r' = r1\<lparr>cr_Channel := ch3, cr_Chunk := c, cr_Digest := h', cr_Total := cr_Total r + of_nat (len - 4),
      cr_Sequence := cr_Sequence r + 1\<rparr>"
  proof -
    obtain t r2 where x: "on_channel (read_exact (len - 4)) (r1\<lparr>cr_Channel := ch2\<rparr>) = (t, r2)" by force
    with load2 obtain c where t: "t = Inr c" by (auto split: sum.splits)
    with x obtain ch3 where y: "read_exact (len - 4) ch2 = (Inr c, ch3)" "r2 = r1\<lparr>cr_Channel := ch3\<rparr>"
      by (auto simp: on_channel_ok)
    from load2 x t y(2) obtain h' where "hash_chunk (cr_Digest r) c = Inr h'" by (auto simp: r1_def split: sum.splits)
    from that[OF y(1) this] load2 x t y(2) this show ?thesis by (simp add: r1_def)
  qed
  note seen = seen_chunksD[OF r(1)] and seen_open = seen_openD[OF r(1,2)]
  note total = seen(6) seen(4)
  have c_len: "length c = len - 4" using read_exact_ok[OF c(1)] by simp
  have "unat (of_nat (len - 4) :: u64) = len - 4" by (rule of_nat_u64) (use len in simp)
  moreover have "unat (hd_Length (cr_Header r) - cr_Total r) = unat (hd_Length (cr_Header r)) - unat (cr_Total r)"
    using s(3) by (intro unat_sub) (simp add: not_less)
  ultimately have fits: "length (concat cs) + length c \<le> unat (hd_Length (cr_Header r))"
    using s(3) total c_len by (simp add: word_le_nat_alt not_less)
  have "length s = 4" using read_exact_ok[OF s(1)] by simp
  moreover have "unat (of_nat (be_value s) :: u32) = be_value s"
    using be_value_bound[of s] \<open>length s = 4\<close> by (simp add: unat_of_nat)
  ultimately have seq: "be_text 4 (unat (cr_Sequence r)) = s" using s(2) be_text_be_value[of s] by metis
  have "moved ch0 (frame_chunks 0 cs @ record_header 2 len @ s @ c) [] ch3"
    using moved_trans[OF seen_open(1) moved_trans[OF moved_trans[OF head conjunct1[OF read_exact_ok[OF s(1)]]]
        conjunct1[OF read_exact_ok[OF c(1)]]]] by simp
  moreover have "frame_chunks 0 (cs @ [c]) = frame_chunks 0 cs @ record_header 2 len @ s @ c"
    using seq seen(7) c_len len by (simp add: frame_chunks_append)
  ultimately have mv: "moved ch0 (frame_chunks 0 (cs @ [c])) [] ch3" by simp
  have "hashes h' (concat cs @ c)" by (rule hash_chunk_ok[OF seen_open(2) c(2)])
  moreover have "concat cs = received" "cr_Offset r = 0" using seen(2,3) r(3) by simp_all
  moreover have "len - 4 \<le> max_chunk_content" using len by simp
  ultimately have "seen_chunks ch0 (cr_Header r) received r' (cs @ [c])"
    using seen(1,5,7) r(2) mv fits c_len len by (simp add: seen_chunks_def r' r1_def)
  then show ?thesis by (intro exI[of _ c]) (simp add: r' r1_def)
qed

lemma load_end_seen:
  assumes r: "seen_chunks ch0 (cr_Header r) received r cs" "\<not> cr_Complete r" "cr_Chunk r = []"
    and head: "moved (cr_Channel r) (record_header 3 len) [] ch1"
    and load: "load_end len (r\<lparr>cr_Channel := ch1\<rparr>) = (Inr (), r')"
  shows "seen_chunks ch0 (cr_Header r) received r' cs \<and> cr_Complete r' \<and>
           cr_Failure r' = cr_Failure r \<and> cr_Header r' = cr_Header r"
proof -
  define r1 where "r1 = r\<lparr>cr_Channel := ch1\<rparr>"
  have len: "len = 0" "cr_Total r = hd_Length (cr_Header r)"
    using load by (auto simp: load_end_def split: if_splits)
  obtain ok hasher where v: "hasher_verify (cr_Digest r) (hd_Digest (cr_Header r)) = (ok, hasher)" by force
  with load len have ok: "ok" by (auto simp: load_end_def split: bool.splits)
  obtain t r2 where e: "on_channel require_eof (r1\<lparr>cr_Digest := hasher\<rparr>) = (t, r2)" by force
  with load len v ok have t: "t = Inr ()" "r' = r2\<lparr>cr_Complete := True\<rparr>"
    by (auto simp: load_end_def r1_def split: sum.splits)
  with e obtain ch2 where ch2: "require_eof ch1 = (Inr (), ch2)" "r2 = r1\<lparr>cr_Digest := hasher, cr_Channel := ch2\<rparr>"
    by (auto simp: on_channel_ok r1_def)
  have eof: "moved ch1 [] [] ch2" "concat (ch_Pieces ch1) = []" using require_eof_ok[OF ch2(1)] by auto
  then have empty: "concat (ch_Pieces ch2) = []" by (simp add: moved_def)
  have "sha256 (concat cs) = hd_Digest (cr_Header r)"
  proof -
    show ?thesis using seen_openD(2)[OF r(1,2)] hasher_verify_hashes[of "cr_Digest r" "concat cs" "hd_Digest (cr_Header r)"] v ok by simp
  qed
  moreover have "length (concat cs) = unat (hd_Length (cr_Header r))"
    using seen_chunksD(6)[OF r(1)] len(2) by simp
  moreover have "moved ch0 (frame_chunks 0 cs @ record_header 3 0) [] ch2"
    using moved_trans[OF seen_openD(1)[OF r(1,2)] moved_trans[OF head eof(1)]] len(1) by simp
  moreover have "concat cs = received" using seen_chunksD(3)[OF r(1)] r(3) by simp
  ultimately show ?thesis
    using seen_chunksD[OF r(1)] r(3) empty by (simp add: seen_chunks_def t ch2 r1_def)
qed

lemma on_channel_header [simp]: "cr_Header (snd (on_channel m r)) = cr_Header r"
  by (simp add: on_channel_def split: prod.splits)

lemma load_chunk_header: "cr_Header (snd (load_chunk r)) = cr_Header r"
proof -
  have keep: "on_channel m r1 = (v, r2) \<Longrightarrow> cr_Header r2 = cr_Header r1" for m :: "'b io" and r1 v r2
    using on_channel_header[of m r1] by simp
  have "cr_Header (snd (load_content len r1)) = cr_Header r1" for len r1
    by (auto simp: load_content_def dest!: keep split: prod.splits sum.splits)
  moreover have "cr_Header (snd (load_end len r1)) = cr_Header r1" for len r1
    by (auto simp: load_end_def dest!: keep split: prod.splits sum.splits bool.splits)
  ultimately show ?thesis by (auto simp: load_chunk_def dest!: keep split: prod.splits sum.splits)
qed

lemma load_chunk_seen:
  assumes r: "seen_chunks ch0 (cr_Header r) received r cs" "\<not> cr_Complete r" "cr_Chunk r = []"
    and load: "load_chunk r = (Inr (), r')"
  shows "\<exists>cs'. seen_chunks ch0 (cr_Header r) received r' cs' \<and> cr_Failure r' = cr_Failure r \<and> cr_Header r' = cr_Header r"
proof -
  obtain t r1 where x: "on_channel read_record_header r = (t, r1)" by force
  with load obtain kind len where t: "t = Inr (kind, len)" by (auto simp: load_chunk_def split: sum.splits prod.splits)
  with x obtain ch1 where ch1: "read_record_header (cr_Channel r) = (Inr (kind, len), ch1)" "r1 = r\<lparr>cr_Channel := ch1\<rparr>"
    by (auto simp: on_channel_ok)
  note head = read_record_header_ok[OF ch1(1)]
  have "kind = 2 \<and> load_content len r1 = (Inr (), r') \<or> kind = 3 \<and> load_end len r1 = (Inr (), r')"
    using load x t by (auto simp: load_chunk_def split: if_splits)
  then show ?thesis
  proof (elim disjE conjE)
    assume k: "kind = 2" "load_content len r1 = (Inr (), r')"
    show ?thesis using load_content_seen[OF r head[unfolded k(1)] k(2)[unfolded ch1(2)]] by blast
  next
    assume k: "kind = 3" "load_end len r1 = (Inr (), r')"
    show ?thesis using load_end_seen[OF r head[unfolded k(1)] k(2)[unfolded ch1(2)]] by blast
  qed
qed

lemma take_chunk_seen:
  assumes r: "seen_chunks ch0 h received r cs" "\<not> cr_Complete r" and t: "take_chunk n r = (reply, r')"
  shows "seen_chunks ch0 h (received @ reply_bytes reply) r' cs \<and> cr_Header r' = cr_Header r \<and>
           cr_Failure r' = cr_Failure r"
proof -
  define got where "got = take n (drop (cr_Offset r) (cr_Chunk r))"
  have reply: "reply = Bytes got"
    and r': "r' = (if cr_Offset r + length got = length (cr_Chunk r) then r\<lparr>cr_Chunk := [], cr_Offset := 0\<rparr>
      else r\<lparr>cr_Offset := cr_Offset r + length got\<rparr>)"
    using t by (auto simp: take_chunk_def Let_def got_def)
  note seen = seen_chunksD[OF r(1)]
  have "drop (cr_Offset r) (cr_Chunk r) = got @ drop (cr_Offset r + length got) (cr_Chunk r)"
  proof -
    define rest where "rest = drop (cr_Offset r) (cr_Chunk r)"
    have "drop (cr_Offset r + length got) (cr_Chunk r) = drop (length got) rest"
      by (simp add: rest_def add.commute)
    moreover have "drop (length got) rest = drop n rest" by (simp add: got_def rest_def[symmetric] min_def)
    ultimately show ?thesis by (simp add: got_def rest_def[symmetric])
  qed
  moreover have "cr_Offset r + length got \<le> length (cr_Chunk r)" using seen(2) by (simp add: got_def)
  ultimately have "cr_Offset r' \<le> length (cr_Chunk r')"
    "concat cs = (received @ reply_bytes reply) @ drop (cr_Offset r') (cr_Chunk r')"
    using seen(3) by (auto simp: reply r')
  moreover have "cr_Total r' = cr_Total r" "cr_Sequence r' = cr_Sequence r" "cr_Complete r' = cr_Complete r"
    "cr_Channel r' = cr_Channel r" "cr_Digest r' = cr_Digest r" "cr_Header r' = cr_Header r"
    "cr_Failure r' = cr_Failure r"
    by (simp_all add: r')
  ultimately show ?thesis
    using seen(1,4,5,7) seen_openD[OF r] r(2) unfolding seen_chunks_def by metis
qed

lemma content_read_ok:
  assumes r: "reader_ok ch0 h received r" and read: "content_read n r = (reply, r')"
  shows "reader_ok ch0 h (received @ reply_bytes reply) r'"
proof (cases "n = 0 \<or> cr_Failure r \<noteq> None \<or> cr_Complete r")
  case True
  then show ?thesis using r read by (auto simp: content_read_def split: if_splits option.splits)
next
  case False
  then have go: "n \<noteq> 0" "cr_Failure r = None" "\<not> cr_Complete r" by auto
  with r obtain cs where cs: "seen_chunks ch0 h received r cs" and h: "cr_Header r = h" by (auto simp: reader_ok_def)
  obtain t ch1 where ctx: "context_err (cr_Channel r) = (t, ch1)" by force
  show ?thesis
  proof (cases t)
    case (Inl e)
    with go read ctx h show ?thesis by (auto simp: content_read_def on_channel_def reader_ok_def)
  next
    case (Inr v)
    define r1 where "r1 = r\<lparr>cr_Channel := ch1\<rparr>"
    have "concat (ch_Pieces (cr_Channel r1)) = concat (ch_Pieces (cr_Channel r))"
      "ch_Written (cr_Channel r1) = ch_Written (cr_Channel r)"
      using context_err_ok[OF ctx] by (simp_all add: r1_def)
    then have s1: "seen_chunks ch0 h received r1 cs" "\<not> cr_Complete r1" "cr_Failure r1 = None" "cr_Header r1 = h"
      using seen_chunksD[OF cs] seen_openD[OF cs go(3)] go h
      unfolding seen_chunks_def by (simp_all add: r1_def moved_def)
    show ?thesis
    proof (cases "cr_Offset r = length (cr_Chunk r)")
      case False
      with go read ctx Inr have "take_chunk n r1 = (reply, r')"
        by (simp add: content_read_def on_channel_def r1_def)
      from take_chunk_seen[OF s1(1,2) this] s1 show ?thesis by (auto simp: reader_ok_def)
    next
      case True
      define r2 where "r2 = r1\<lparr>cr_Chunk := [], cr_Offset := 0\<rparr>"
      have s2: "seen_chunks ch0 (cr_Header r2) received r2 cs" "\<not> cr_Complete r2" "cr_Chunk r2 = []" "cr_Failure r2 = None"
        "cr_Header r2 = h"
        using seen_chunksD[OF s1(1)] seen_openD[OF s1(1,2)] s1(2,3,4) True
        unfolding seen_chunks_def by (simp_all add: r2_def r1_def)
      obtain w r3 where load: "load_chunk r2 = (w, r3)" by force
      have read': "(case load_chunk r2 of
          (Inl e, r2) \<Rightarrow> (Failed e, r2\<lparr>cr_Failure := Some e\<rparr>)
        | (Inr _, r2) \<Rightarrow> if cr_Complete r2 then (AtEnd, r2) else take_chunk n r2) = (reply, r')"
        using go read ctx Inr True by (simp add: content_read_def on_channel_def r1_def r2_def)
      show ?thesis
      proof (cases w)
        case (Inl e)
        with read' load have "r' = r3\<lparr>cr_Failure := Some e\<rparr>" by simp
        moreover have "cr_Header r3 = h" using load_chunk_header[of r2] load s2(5) by simp
        ultimately show ?thesis by (simp add: reader_ok_def)
      next
        case (Inr v)
        with load load_chunk_seen[OF s2(1-3), of r3] obtain cs' where
          s3: "seen_chunks ch0 h received r3 cs'" "cr_Failure r3 = None" "cr_Header r3 = h" using s2(4,5) by auto
        show ?thesis
        proof (cases "cr_Complete r3")
          case True
          with read' load Inr s3 show ?thesis by (auto simp: reader_ok_def)
        next
          case False
          with read' load Inr have "take_chunk n r3 = (reply, r')" by simp
          from take_chunk_seen[OF s3(1) False this] s3 show ?thesis by (auto simp: reader_ok_def)
        qed
      qed
    qed
  qed
qed

lemma run_consumer_ok:
  "\<lbrakk>reader_ok ch0 h received r; run_consumer c r = (result, got, r')\<rbrakk> \<Longrightarrow> reader_ok ch0 h (received @ got) r'"
proof (induction c arbitrary: received r result got r')
  case (ReadNext n k)
  obtain reply r1 where read: "content_read n r = (reply, r1)" by force
  obtain result' got' r2 where rest: "run_consumer (k reply) r1 = (result', got', r2)" by (metis prod_cases3)
  have "got = reply_bytes reply @ got'" "r' = r2" using ReadNext.prems(2) read rest by simp_all
  with ReadNext.IH[OF rangeI content_read_ok[OF ReadNext.prems(1) read] rest] show ?case by simp
qed simp

end
