(* ===== verification/MaterializationAuthentic.thy ===== *)
theory MaterializationAuthentic
  imports MaterializationAccept
begin

text \<open>
  What an accepted frame is (\<open>authentic\<close>), and that the layout can be read in one way only: two frames of which one
  starts with the other are the same.
\<close>

section \<open>Accepted frames\<close>

definition authentic :: "ulid_check \<Rightarrow> frame_limits \<Rightarrow> string \<Rightarrow> header \<Rightarrow> string \<Rightarrow> bool" where
  "authentic u limits frame h content \<longleftrightarrow>
     (\<exists>encoded cs. frame = frame_bytes encoded cs \<and> decode_header u encoded = Inr h \<and>
        length encoded < 2 ^ 32 \<and> length encoded \<le> unat (lm_MaxDestinationBytes limits) + header_overhead \<and> chunk_sizes cs \<and>
        content = concat cs) \<and>
     header_validate u h = Inr () \<and> within_limits limits h \<and>
     length content = unat (hd_Length h) \<and> sha256 content = hd_Digest h"

lemma decode_header_valid: "decode_header u encoded = Inr h \<Longrightarrow> header_validate u h = Inr ()"
  by (auto simp: decode_header_def new_header_def split: if_splits prod.splits)

lemma decode_content_ok:
  assumes "decode_content consume h hasher ch = (Inr (h', received), ch')" "hashes hasher []"
  obtains cs where "h' = h" "moved ch (frame_chunks 0 cs @ record_header 3 0) [] ch'" "concat (ch_Pieces ch') = []"
    "chunk_sizes cs" "received = concat cs" "length received = unat (hd_Length h)" "sha256 received = hd_Digest h"
proof -
  obtain result got r where run: "run_consumer (consume h) (new_reader h hasher ch) = (result, got, r)"
    by (metis prod_cases3)
  with assms(1) have ok: "cr_Failure r = None" "cr_Complete r" "h' = h" "got = received" "cr_Channel r = ch'"
    by (auto simp: decode_content_def split: sum.splits option.splits if_splits)
  have "reader_ok ch h ([] @ got) r" by (rule run_consumer_ok[OF new_reader_ok[OF assms(2)] run])
  with ok obtain cs where seen: "seen_chunks ch h received r cs" by (auto simp: reader_ok_def)
  note complete = seen_completeD[OF seen ok(2)]
  show ?thesis
    using that[of cs] ok complete seen_chunksD(1)[OF seen] by metis
qed

lemma decode_authentic:
  assumes "decode u limits consume ch = (Inr (h, received), ch')"
  shows "authentic u limits (concat (ch_Pieces ch)) h received"
proof -
  have body: "decode_body u limits consume new_hasher ch = (Inr (h, received), ch')"
    using assms unfolding decode_def by (rule guard_finish_ok)
  obtain ch1 ch2 ch3 ch4 len encoded h0 where
    ctx: "context_err ch = (Inr (), ch1)" and
    prelude: "read_exact 5 ch1 = (Inr frame_prelude, ch2)" and
    head: "read_record_header ch2 = (Inr (1, len), ch3)" and
    bound: "len \<le> unat (lm_MaxDestinationBytes limits) + header_overhead" and
    enc: "read_exact len ch3 = (Inr encoded, ch4)" and
    dec: "decode_header u encoded = Inr h0" and limits: "within_limits limits h0" and
    content: "decode_content consume h0 new_hasher ch4 = (Inr (h, received), ch')"
    using body unfolding decode_body_def
    by (auto simp: then_io_ok give_io_ok give_error_never split: if_splits prod.splits)
  from content sha.fresh obtain cs where cs: "h = h0"
    "moved ch4 (frame_chunks 0 cs @ record_header 3 0) [] ch'" "concat (ch_Pieces ch') = []"
    "chunk_sizes cs" "received = concat cs" "length received = unat (hd_Length h0)" "sha256 received = hd_Digest h0"
    by (rule decode_content_ok)
  have "moved ch1 frame_prelude [] ch2" "moved ch3 encoded [] ch4" "length encoded = len"
    using read_exact_ok[OF prelude] read_exact_ok[OF enc] by simp_all
  then have "concat (ch_Pieces ch) = frame_bytes encoded cs"
    using context_err_ok[OF ctx] read_record_header_ok[OF head] cs(2,3) by (simp add: moved_def frame_bytes_def)
  then show ?thesis
    using dec limits bound cs \<open>length encoded = len\<close> decode_header_valid[OF dec] read_record_header_length[OF head]
    unfolding authentic_def by blast
qed

section \<open>One frame, one reading\<close>

lemma record_header_inject:
  assumes "record_header t n @ x = record_header t' n' @ y" "n < 2 ^ 32" "n' < 2 ^ 32" "t < 256" "t' < 256"
  shows "t = t' \<and> n = n' \<and> x = y"
proof -
  have "char_of t = (char_of t' :: char)" "be_text 4 n = be_text 4 n'" "x = y"
    using assms(1) by (simp_all add: record_header_def append_eq_append_conv)
  then show ?thesis
    using be_text_inject[of 4 n n'] assms byte_char_of[of t] byte_char_of[of t'] by simp
qed

lemma frame_chunks_inject:
  "\<lbrakk>frame_chunks n cs @ record_header 3 0 @ x = frame_chunks n ds @ record_header 3 0 @ y; chunk_sizes cs; chunk_sizes ds\<rbrakk>
     \<Longrightarrow> cs = ds \<and> x = y"
proof (induction cs arbitrary: n ds)
  case Nil
  show ?case
  proof (cases ds)
    case (Cons d ds')
    with Nil(1) have "record_header 3 0 @ x = record_header 2 (length d + 4) @
        be_text 4 (unat n) @ d @ frame_chunks (n + 1) ds' @ record_header 3 0 @ y" by simp
    from record_header_inject[OF this] Nil(3) Cons show ?thesis by simp
  next
    case (Nil)
    with \<open>frame_chunks n [] @ record_header 3 0 @ x = frame_chunks n ds @ record_header 3 0 @ y\<close> show ?thesis by simp
  qed
next
  case (Cons c cs)
  show ?case
  proof (cases ds)
    case Nil
    with Cons.prems(1) have "record_header 2 (length c + 4) @
        be_text 4 (unat n) @ c @ frame_chunks (n + 1) cs @ record_header 3 0 @ x = record_header 3 0 @ y" by simp
    from record_header_inject[OF this] Cons.prems(2) show ?thesis by simp
  next
    case (Cons d ds')
    with Cons.prems(1) have "record_header 2 (length c + 4) @
        be_text 4 (unat n) @ c @ frame_chunks (n + 1) cs @ record_header 3 0 @ x =
        record_header 2 (length d + 4) @
        be_text 4 (unat n) @ d @ frame_chunks (n + 1) ds' @ record_header 3 0 @ y" by simp
    from record_header_inject[OF this] Cons.prems(2,3) Cons have "length c = length d"
      "be_text 4 (unat n) @ c @ frame_chunks (n + 1) cs @ record_header 3 0 @ x =
       be_text 4 (unat n) @ d @ frame_chunks (n + 1) ds' @ record_header 3 0 @ y" by simp_all
    then show ?thesis using Cons.IH[of "n + 1" ds'] Cons.prems(2,3) Cons by simp
  qed
qed

lemma frame_bytes_inject:
  assumes "frame_bytes encoded cs @ x = frame_bytes encoded' ds @ y" "chunk_sizes cs" "chunk_sizes ds"
    "length encoded < 2 ^ 32" "length encoded' < 2 ^ 32"
  shows "encoded = encoded' \<and> cs = ds \<and> x = y"
proof -
  from assms(1) have "record_header 1 (length encoded) @ encoded @ frame_chunks 0 cs @ record_header 3 0 @ x =
      record_header 1 (length encoded') @ encoded' @ frame_chunks 0 ds @ record_header 3 0 @ y"
    by (simp add: frame_bytes_def)
  from record_header_inject[OF this] assms(4,5) have
    "length encoded = length encoded'"
    "encoded @ frame_chunks 0 cs @ record_header 3 0 @ x = encoded' @ frame_chunks 0 ds @ record_header 3 0 @ y"
    by simp_all
  then show ?thesis using frame_chunks_inject[of 0 cs x ds y] assms(2,3) by simp
qed

end
