(* ===== verification/MaterializationRoundTrip.thy ===== *)
theory MaterializationRoundTrip
  imports MaterializationAuthentic
begin

text \<open>
  The way through: with a source that neither fails nor stalls and a context that does not end, encoding writes the
  frame of the content, and decoding that frame serves the content to a callback that reads to the end.
\<close>

section \<open>A source that delivers\<close>

definition at_input :: "channel \<Rightarrow> string \<Rightarrow> bool" where
  "at_input ch s \<longleftrightarrow>
     ch_Context ch = None \<and> \<not> ch_Fails ch \<and> \<not> ch_CloseFails ch \<and> [] \<notin> set (ch_Pieces ch) \<and>
     concat (ch_Pieces ch) = s"

lemma at_input_context: "at_input ch s \<Longrightarrow> context_err ch = (Inr (), ch)"
  by (simp add: at_input_def context_err_def)

lemma read_full_delivers:
  "\<lbrakk>concat ps = s @ rest; n = length s; [] \<notin> set ps\<rbrakk> \<Longrightarrow>
     \<exists>ps'. read_full n ps = (Some s, ps') \<and> concat ps' = rest \<and> [] \<notin> set ps'"
proof (induction n ps arbitrary: s rule: read_full.induct)
  case (3 n p ps)
  show ?case
  proof (cases "length p < Suc n")
    case True
    then have s: "s = p @ drop (length p) s"
      using "3.prems"(1,2) by (metis append_eq_append_conv_if append_take_drop_id concat.simps(2) less_imp_le_nat)
    then have "concat ps = drop (length p) s @ rest" using "3.prems"(1) by (metis append_assoc concat.simps(2) same_append_eq)
    moreover have "Suc n - length p = length (drop (length p) s)" using "3.prems"(2) by simp
    ultimately obtain ps' where "read_full (Suc n - length p) ps = (Some (drop (length p) s), ps')"
      "concat ps' = rest" "[] \<notin> set ps'"
      using "3.IH"[OF True, of "drop (length p) s"] "3.prems"(3) by auto
    then show ?thesis using True s by (intro exI[of _ ps']) simp
  next
    case False
    then have "take (Suc n) p = s" "drop (Suc n) p @ concat ps = rest"
      using "3.prems"(1,2) by (auto simp: append_eq_append_conv_if split: if_splits)
    then show ?thesis using False "3.prems"(3) by auto
  qed
qed auto

lemma read_exact_delivers:
  assumes "at_input ch (s @ rest)" "n = length s"
  shows "\<exists>ch'. read_exact n ch = (Inr s, ch') \<and> at_input ch' rest \<and> ch_Writes ch' = ch_Writes ch \<and>
           ch_Written ch' = ch_Written ch"
proof -
  obtain ps where ps: "read_full n (ch_Pieces ch) = (Some s, ps)" "concat ps = rest" "[] \<notin> set ps"
    using read_full_delivers[of "ch_Pieces ch" s rest n] assms by (auto simp: at_input_def)
  define ch' where "ch' = ch\<lparr>ch_Pieces := ps\<rparr>"
  have "at_input ch' rest" using assms(1) ps by (simp add: at_input_def ch'_def)
  moreover have "read_exact n ch = (Inr s, ch')"
    using ps(1) at_input_context[OF assms(1)] at_input_context[OF \<open>at_input ch' rest\<close>]
    by (simp add: read_exact_def then_io_def give_io_def ch'_def)
  ultimately show ?thesis by (auto simp: ch'_def)
qed

lemma require_eof_delivers: "at_input ch [] \<Longrightarrow> require_eof ch = (Inr (), ch)"
proof -
  assume a: "at_input ch []"
  then have "ch_Pieces ch = []" by (cases "ch_Pieces ch") (auto simp: at_input_def)
  then have "require_eof_within (Suc k) ch = (Inr (), ch)" for k
    using a at_input_context[OF a] by (simp add: then_io_def at_input_def)
  then show ?thesis using numeral_eq_Suc[of "num.Bit0 (num.Bit0 (num.Bit1 (num.Bit0 (num.Bit0 (num.Bit1 num.One)))))"]
    unfolding require_eof_def by metis
qed

lemma write_fully_delivers:
  assumes "at_input ch rest" "ch_Writes ch = []"
  shows "write_fully s ch = (Inr (), ch\<lparr>ch_Written := ch_Written ch @ s\<rparr>)"
proof (cases "s = []")
  case True
  then show ?thesis by (subst write_fully.simps) simp
next
  case False
  then show ?thesis
    using assms at_input_context[OF assms(1)]
    by (subst write_fully.simps) (simp add: Let_def, subst write_fully.simps, simp)
qed

lemma at_input_written [simp]: "at_input (ch\<lparr>ch_Written := out\<rparr>) s = at_input ch s"
  by (simp add: at_input_def)

section \<open>Encoding\<close>

lemma encode_content_delivers:
  "\<lbrakk>at_input ch content; ch_Writes ch = []; length content = unat remaining; hashes h s;
    length s + length content \<le> maximum_digest_input\<rbrakk> \<Longrightarrow>
     \<exists>h' ch'. encode_content h remaining sequence ch = (Inr h', ch') \<and> hashes h' (s @ content) \<and> at_input ch' [] \<and>
       ch_Writes ch' = [] \<and> ch_Written ch' = ch_Written ch @ frame_chunks sequence (chunks max_chunk_content content)"
proof (induction "length content" arbitrary: content ch remaining h s sequence rule: less_induct)
  case less
  show ?case
  proof (cases "content = []")
    case True
    then have "remaining = 0" using less.prems(3) by (simp add: unat_eq_0)
    then show ?thesis using less.prems True by (subst encode_content.simps) (simp add: give_io_def)
  next
    case False
    then have "remaining \<noteq> 0" using less.prems(3) by auto
    define n where "n = min max_chunk_content (unat remaining)"
    define c where "c = take n content"
    define rest where "rest = drop n content"
    have "0 < unat remaining" using False less.prems(3) by (metis length_greater_0_conv)
    then have n: "n \<le> unat remaining" "0 < n" "n \<le> length content"
      using less.prems(3) by (simp_all add: n_def)
    have split: "content = c @ rest" "length c = n" using n by (simp_all add: c_def rest_def)
    have chunks: "chunks max_chunk_content content = c # chunks max_chunk_content rest"
      using False less.prems(3) by (subst chunks.simps) (simp add: c_def rest_def n_def min_def)
    obtain ch1 where ch1: "read_exact n ch = (Inr c, ch1)" "at_input ch1 rest" "ch_Writes ch1 = []"
      "ch_Written ch1 = ch_Written ch"
      using read_exact_delivers[of ch c rest n] less.prems(1,2) split by auto
    obtain h1 where h1: "hash_chunk h c = Inr h1" "hashes h1 (s @ c)"
      using hash_chunk_succeeds[OF less.prems(4), of c] less.prems(5) split by auto
    define ch2 where "ch2 = ch1\<lparr>ch_Written := ch_Written ch1 @ record_header 2 (length c + 4) @
      be_text 4 (unat sequence) @ c\<rparr>"
    have ch2: "write_chunk sequence c ch1 = (Inr (), ch2)"
      using ch1(2,3) by (simp add: write_chunk_def then_io_def write_fully_delivers[where rest = rest] ch2_def)
    have ready: "at_input ch2 rest" "ch_Writes ch2 = []" using ch1(2,3) by (simp_all add: ch2_def)
    have len: "length rest = unat (remaining - of_nat n)"
      using less.prems(3) n unat_minus_chunk[OF n(1)] by (simp add: rest_def)
    have "length rest < length content" "length (s @ c) + length rest \<le> maximum_digest_input"
    proof -
      have "length content = length c + length rest" using split(1) by (metis length_append)
      then show "length rest < length content" "length (s @ c) + length rest \<le> maximum_digest_input"
        using n(2) split(2) less.prems(5) by simp_all
    qed
    from less.hyps[OF this(1) ready len h1(2) this(2), of "sequence + 1"]
    obtain h' ch' where rec: "encode_content h1 (remaining - of_nat n) (sequence + 1) ch2 = (Inr h', ch')"
      "hashes h' ((s @ c) @ rest)" "at_input ch' []" "ch_Writes ch' = []"
      "ch_Written ch' = ch_Written ch2 @ frame_chunks (sequence + 1) (chunks max_chunk_content rest)"
      by blast
    have "encode_content h remaining sequence ch = (Inr h', ch')"
      using \<open>remaining \<noteq> 0\<close> ch1(1) h1(1) ch2 rec(1)
      by (subst encode_content.simps) (simp add: Let_def then_io_def give_io_def n_def[symmetric])
    moreover have "hashes h' (s @ content)" using rec(2) split(1) by (metis append_assoc)
    moreover have "ch_Written ch' = ch_Written ch @ frame_chunks sequence (chunks max_chunk_content content)"
      unfolding chunks using rec(5) ch1(4) by (simp add: ch2_def)
    ultimately show ?thesis using rec(3,4) by blast
  qed
qed

text \<open>What a caller of \<open>Encode\<close> has to bring: a valid header within the limits that describes the content.\<close>

definition describes :: "ulid_check \<Rightarrow> frame_limits \<Rightarrow> header \<Rightarrow> string \<Rightarrow> bool" where
  "describes u limits h content \<longleftrightarrow>
     limits_validate limits = Inr () \<and> header_validate u h = Inr () \<and> within_limits limits h \<and>
     length content = unat (hd_Length h) \<and> sha256 content = hd_Digest h"

lemma describes_size: "describes u limits h content \<Longrightarrow> length content \<le> maximum_digest_input"
  by (simp add: describes_def within_limits_def)

lemma encode_delivers:
  assumes d: "describes u limits h content" and ch: "at_input ch content" "ch_Writes ch = []"
  shows "\<exists>ch'. encode u limits h ch = (Inr (), ch') \<and>
           ch_Written ch' = ch_Written ch @ frame_bytes (encode_header h) (chunks max_chunk_content content)"
proof -
  define ch1 where "ch1 = ch\<lparr>ch_Written := ch_Written ch @ frame_prelude @
    record_header 1 (length (encode_header h)) @ encode_header h\<rparr>"
  have ch1: "at_input ch1 content" "ch_Writes ch1 = []" using ch by (simp_all add: ch1_def)
  have len: "length content = unat (hd_Length h)" using d by (simp add: describes_def)
  obtain hasher ch2 where c: "encode_content new_hasher (hd_Length h) 0 ch1 = (Inr hasher, ch2)"
    "hashes hasher content" "at_input ch2 []" "ch_Writes ch2 = []"
    "ch_Written ch2 = ch_Written ch1 @ frame_chunks 0 (chunks max_chunk_content content)"
    using encode_content_delivers[OF ch1 len sha.fresh, of 0] describes_size[OF d] by auto
  have verified: "fst (hasher_verify hasher (hd_Digest h))"
    using hasher_verify_hashes[OF c(2)] d by (simp add: describes_def)
  define ch3 where "ch3 = ch2\<lparr>ch_Written := ch_Written ch2 @ record_header 3 0\<rparr>"
  have "header_validate u h = Inr ()" using d by (simp add: describes_def)
  from header_validE(5)[OF this] have small: "\<not> length (hd_Destination h) + header_overhead > 2 ^ 32 - 1" by simp
  have "encode_body u limits h new_hasher ch = (Inr (), ch3)"
    using d ch c(1,3,4) small verified at_input_context[OF ch(1)] require_eof_delivers[OF c(3)]
    by (simp add: encode_body_def then_io_def give_io_def describes_def write_record_def ch1_def
        write_fully_delivers[where rest = content] write_fully_delivers[where rest = "[]"] ch3_def)
  moreover have "\<not> ch_CloseFails ch3" using c(3) by (simp add: ch3_def at_input_def)
  ultimately have "encode u limits h ch = (Inr (), ch3)" by (simp add: encode_def guard_finish_def)
  moreover have "ch_Written ch3 = ch_Written ch @ frame_bytes (encode_header h) (chunks max_chunk_content content)"
    using c(5) by (simp add: ch3_def ch1_def frame_bytes_def)
  ultimately show ?thesis by blast
qed

section \<open>Decoding\<close>

lemma byte_header: "t < 256 \<Longrightarrow> byte (hd (record_header t n)) = t" "drop (Suc 0) (record_header t n) = be_text 4 n"
  by (simp_all add: record_header_def byte_char_of)

lemma read_record_header_delivers:
  assumes "at_input ch (record_header t n @ rest)" "t < 256" "n < 2 ^ 32"
  shows "\<exists>ch'. read_record_header ch = (Inr (t, n), ch') \<and> at_input ch' rest"
proof -
  obtain ch' where "read_exact 5 ch = (Inr (record_header t n), ch')" "at_input ch' rest"
    using read_exact_delivers[OF assms(1), of 5] by auto
  then show ?thesis
    using assms(2,3) be_text_value[of n 4] by (simp add: read_record_header_def then_io_def give_io_def byte_header)
qed

text \<open>The callback that reads with buffers of \<open>buffer\<close> bytes until the content ends.\<close>

primrec drain :: "nat \<Rightarrow> nat \<Rightarrow> consumer" where
  "drain 0 buffer = Finish (Inl PlainError)"
| "drain (Suc reads) buffer =
     ReadNext buffer (\<lambda>reply.
       case reply of Bytes _ \<Rightarrow> drain reads buffer | AtEnd \<Rightarrow> Finish (Inr ()) | Failed e \<Rightarrow> Finish (Inl e))"

text \<open>The reader has the content still to serve: what is buffered and the chunks that follow.\<close>

definition to_serve :: "content_reader \<Rightarrow> string \<Rightarrow> string list \<Rightarrow> bool" where
  "to_serve r past cs \<longleftrightarrow>
     cr_Failure r = None \<and> \<not> cr_Complete r \<and>
     (cr_Chunk r = [] \<and> cr_Offset r = 0 \<or> cr_Offset r < length (cr_Chunk r)) \<and> chunk_sizes cs \<and>
     at_input (cr_Channel r) (frame_chunks (cr_Sequence r) cs @ record_header 3 0) \<and> hashes (cr_Digest r) past \<and>
     sha256 (past @ concat cs) = hd_Digest (cr_Header r) \<and>
     length (past @ concat cs) = unat (hd_Length (cr_Header r)) \<and> cr_Total r = of_nat (length past) \<and>
     unat (hd_Length (cr_Header r)) \<le> maximum_digest_input"

definition unread :: "content_reader \<Rightarrow> string list \<Rightarrow> string" where
  "unread r cs = drop (cr_Offset r) (cr_Chunk r) @ concat cs"

lemma load_content_delivers:
  assumes r: "to_serve r past (c # cs)" "cr_Chunk r = []" "cr_Offset r = 0"
  shows "\<exists>r'. load_chunk r = (Inr (), r') \<and> to_serve r' (past @ c) cs \<and> cr_Chunk r' = c \<and> cr_Offset r' = 0"
proof -
  have size: "0 < length c" "length c \<le> max_chunk_content" using r(1) by (simp_all add: to_serve_def)
  obtain ch1 where ch1: "read_record_header (cr_Channel r) = (Inr (2, length c + 4), ch1)"
    "at_input ch1 (be_text 4 (unat (cr_Sequence r)) @ c @ frame_chunks (cr_Sequence r + 1) cs @ record_header 3 0)"
    using read_record_header_delivers[of "cr_Channel r" 2 "length c + 4"] r(1) size by (auto simp: to_serve_def)
  obtain ch2 where ch2: "read_exact 4 ch1 = (Inr (be_text 4 (unat (cr_Sequence r))), ch2)"
    "at_input ch2 (c @ frame_chunks (cr_Sequence r + 1) cs @ record_header 3 0)"
    using read_exact_delivers[OF ch1(2), of 4] by auto
  obtain ch3 where ch3: "read_exact (length c) ch2 = (Inr c, ch3)"
    "at_input ch3 (frame_chunks (cr_Sequence r + 1) cs @ record_header 3 0)"
    using read_exact_delivers[OF ch2(2), of "length c"] by auto
  have len: "length past + (length c + length (concat cs)) = unat (hd_Length (cr_Header r))"
    "cr_Total r = of_nat (length past)" "unat (hd_Length (cr_Header r)) \<le> maximum_digest_input"
    "hashes (cr_Digest r) past"
    using r(1) by (simp_all add: to_serve_def)
  have past: "unat (cr_Total r) = length past" unfolding len(2) by (rule of_nat_u64) (use len(1,3) in simp)
  have "unat (of_nat (length c) :: u64) = length c" by (rule of_nat_u64) (use len(1,3) in simp)
  moreover have le: "cr_Total r \<le> hd_Length (cr_Header r)" using past len(1) by (simp add: word_le_nat_alt)
  ultimately have fits: "\<not> (cr_Total r > hd_Length (cr_Header r) \<or>
      of_nat (length c) > hd_Length (cr_Header r) - cr_Total r)"
    using past len(1) unat_sub[OF le] by (simp add: word_less_nat_alt)
  obtain h1 where h1: "hash_chunk (cr_Digest r) c = Inr h1" "hashes h1 (past @ c)"
    using hash_chunk_succeeds[OF len(4), of c] len(1,3) by auto
  define r' where "r' = r\<lparr>cr_Channel := ch3, cr_Chunk := c, cr_Digest := h1, cr_Total := cr_Total r + of_nat (length c),
    cr_Sequence := cr_Sequence r + 1\<rparr>"
  have "load_chunk r = (Inr (), r')"
    using ch1(1) ch2(1) ch3(1) size fits h1(1)
    by (simp add: load_chunk_def load_content_def on_channel_def word_text r'_def)
  moreover have "to_serve r' (past @ c) cs"
    using r ch3(2) h1(2) len(2) size by (simp add: to_serve_def r'_def)
  ultimately show ?thesis using r(3) by (simp add: r'_def)
qed

lemma load_end_delivers:
  assumes r: "to_serve r past []"
  shows "\<exists>r'. load_chunk r = (Inr (), r') \<and> cr_Complete r' \<and> cr_Failure r' = None \<and>
           \<not> ch_CloseFails (cr_Channel r')"
proof -
  obtain ch1 where ch1: "read_record_header (cr_Channel r) = (Inr (3, 0), ch1)" "at_input ch1 []"
    using read_record_header_delivers[of "cr_Channel r" 3 0 "[]"] r by (auto simp: to_serve_def)
  have total: "cr_Total r = hd_Length (cr_Header r)" using r by (simp add: to_serve_def)
  have "fst (hasher_verify (cr_Digest r) (hd_Digest (cr_Header r)))"
    using r hasher_verify_hashes[of "cr_Digest r" past] by (simp add: to_serve_def)
  then obtain h1 where h1: "hasher_verify (cr_Digest r) (hd_Digest (cr_Header r)) = (True, h1)" by (metis fst_conv surj_pair)
  define r' where "r' = r\<lparr>cr_Channel := ch1, cr_Digest := h1, cr_Complete := True\<rparr>"
  have "load_chunk r = (Inr (), r')"
    using ch1(1) total h1 require_eof_delivers[OF ch1(2)]
    by (simp add: load_chunk_def load_end_def on_channel_def r'_def)
  moreover have "cr_Failure r' = None" "\<not> ch_CloseFails (cr_Channel r')"
    using r ch1(2) by (simp_all add: r'_def to_serve_def at_input_def)
  ultimately show ?thesis by (simp add: r'_def)
qed

lemma take_chunk_delivers:
  assumes r: "to_serve r past cs" "cr_Offset r < length (cr_Chunk r)" "0 < k"
  shows "\<exists>s r'. take_chunk k r = (Bytes s, r') \<and> s \<noteq> [] \<and> to_serve r' past cs \<and> unread r cs = s @ unread r' cs"
proof -
  define s where "s = take k (drop (cr_Offset r) (cr_Chunk r))"
  define r' where "r' = (if cr_Offset r + length s = length (cr_Chunk r) then r\<lparr>cr_Chunk := [], cr_Offset := 0\<rparr>
    else r\<lparr>cr_Offset := cr_Offset r + length s\<rparr>)"
  have s: "s \<noteq> []" "cr_Offset r + length s \<le> length (cr_Chunk r)"
    "drop (cr_Offset r) (cr_Chunk r) = s @ drop (cr_Offset r + length s) (cr_Chunk r)"
  proof -
    show "s \<noteq> []" "cr_Offset r + length s \<le> length (cr_Chunk r)" using r(2,3) by (simp_all add: s_def)
    define rest where "rest = drop (cr_Offset r) (cr_Chunk r)"
    have "drop (cr_Offset r + length s) (cr_Chunk r) = drop (length s) rest" by (simp add: rest_def add.commute)
    moreover have "drop (length s) rest = drop k rest" by (simp add: s_def rest_def[symmetric] min_def)
    ultimately show "drop (cr_Offset r) (cr_Chunk r) = s @ drop (cr_Offset r + length s) (cr_Chunk r)"
      by (simp add: s_def rest_def[symmetric])
  qed
  have "take_chunk k r = (Bytes s, r')" by (simp add: take_chunk_def Let_def s_def r'_def)
  moreover have "to_serve r' past cs" "unread r cs = s @ unread r' cs"
    using r(1) s by (auto simp: r'_def to_serve_def unread_def)
  ultimately show ?thesis using s(1) by blast
qed

lemma content_read_delivers:
  assumes r: "to_serve r past cs" and k: "0 < k"
  shows "if unread r cs = []
    then \<exists>r'. content_read k r = (AtEnd, r') \<and> cr_Complete r' \<and> cr_Failure r' = None \<and>
      \<not> ch_CloseFails (cr_Channel r')
    else \<exists>s r' past' cs'. content_read k r = (Bytes s, r') \<and> s \<noteq> [] \<and> to_serve r' past' cs' \<and>
      unread r cs = s @ unread r' cs'"
proof -
  have go: "k \<noteq> 0" "cr_Failure r = None" "\<not> cr_Complete r" "context_err (cr_Channel r) = (Inr (), cr_Channel r)"
    using r k at_input_context by (auto simp: to_serve_def)
  show ?thesis
  proof (cases "cr_Offset r < length (cr_Chunk r)")
    case True
    then have "unread r cs \<noteq> []" by (simp add: unread_def)
    moreover have "content_read k r = take_chunk k r" using go True by (simp add: content_read_def on_channel_def)
    ultimately show ?thesis using take_chunk_delivers[OF r True k] by auto
  next
    case False
    then have empty: "cr_Chunk r = []" "cr_Offset r = 0" using r by (auto simp: to_serve_def)
    then have read: "content_read k r = (case load_chunk r of
          (Inl e, r2) \<Rightarrow> (Failed e, r2\<lparr>cr_Failure := Some e\<rparr>)
        | (Inr _, r2) \<Rightarrow> if cr_Complete r2 then (AtEnd, r2) else take_chunk k r2)"
      using go by (cases r) (simp add: content_read_def on_channel_def)
    show ?thesis
    proof (cases cs)
      case Nil
      then show ?thesis using load_end_delivers[of r past] r read empty by (auto simp: unread_def)
    next
      case (Cons c cs')
      obtain r2 where r2: "load_chunk r = (Inr (), r2)" "to_serve r2 (past @ c) cs'" "cr_Chunk r2 = c" "cr_Offset r2 = 0"
        using load_content_delivers[OF r[unfolded Cons] empty] by blast
      have c: "c \<noteq> []" using r Cons by (auto simp: to_serve_def)
      obtain s r' where s: "take_chunk k r2 = (Bytes s, r')" "s \<noteq> []" "to_serve r' (past @ c) cs'"
        "unread r2 cs' = s @ unread r' cs'"
        using take_chunk_delivers[OF r2(2) _ k] r2(3,4) c by auto
      have "unread r cs = unread r2 cs'" using empty r2(3,4) Cons by (simp add: unread_def)
      moreover have "content_read k r = (Bytes s, r')" using read r2(1,2) s(1) by (simp add: to_serve_def)
      ultimately show ?thesis using s by (metis append_is_Nil_conv)
    qed
  qed
qed

lemma drain_delivers:
  "\<lbrakk>to_serve r past cs; 0 < k; length (unread r cs) < reads\<rbrakk> \<Longrightarrow>
     \<exists>r'. run_consumer (drain reads k) r = (Inr (), unread r cs, r') \<and> cr_Complete r' \<and> cr_Failure r' = None \<and>
       \<not> ch_CloseFails (cr_Channel r')"
proof (induction reads arbitrary: r past cs)
  case (Suc reads)
  show ?case
  proof (cases "unread r cs = []")
    case True
    then show ?thesis using content_read_delivers[OF Suc.prems(1,2)] by auto
  next
    case False
    with content_read_delivers[OF Suc.prems(1,2)] obtain s r' past' cs' where
      s: "content_read k r = (Bytes s, r')" "s \<noteq> []" "to_serve r' past' cs'" "unread r cs = s @ unread r' cs'" by auto
    then have "length (unread r' cs') < reads" using Suc.prems(3) by (cases s) simp_all
    from Suc.IH[OF s(3) Suc.prems(2) this] s show ?thesis by auto
  qed
qed simp

lemma chunk_sizes_chunks: "chunk_sizes (chunks max_chunk_content s)"
proof (induction "length s" arbitrary: s rule: less_induct)
  case less
  show ?case
  proof (cases "s = []")
    case False
    then have "chunks max_chunk_content s = take max_chunk_content s # chunks max_chunk_content (drop max_chunk_content s)"
      by (subst chunks.simps) simp
    moreover have "chunk_sizes (chunks max_chunk_content (drop max_chunk_content s))"
      by (rule less) (use False in simp)
    ultimately show ?thesis using False by simp
  qed simp
qed

lemma concat_chunks: "concat (chunks max_chunk_content s) = s"
proof (induction "length s" arbitrary: s rule: less_induct)
  case less
  show ?case
  proof (cases "s = []")
    case False
    moreover have "concat (chunks max_chunk_content (drop max_chunk_content s)) = drop max_chunk_content s"
      by (rule less) (use False in simp)
    ultimately show ?thesis by (subst chunks.simps) simp
  qed simp
qed

end
