(* ===== verification/MaterializationProperties.thy ===== *)
theory MaterializationProperties
  imports MaterializationRoundTrip
begin

text \<open>
  The theorems about materialisation frames: the incremental digest, what an accepted frame is, that no accepted frame is
  the start of another, and that a frame that was encoded is decoded to its header and its content.
\<close>

section \<open>Decoding what was encoded\<close>

text \<open>The bound of \<open>Decode\<close> on the length of the encoded header.\<close>

definition header_fits :: "frame_limits \<Rightarrow> header \<Rightarrow> bool" where
  "header_fits limits h \<longleftrightarrow> length (encode_header h) \<le> unat (lm_MaxDestinationBytes limits) + header_overhead"

lemma described_length:
  assumes "describes u limits h content"
  shows "0 < length (encode_header h)" "length (encode_header h) \<le> 698 + length (hd_ServiceID h)"
    "length (hd_ServiceID h) \<le> 30 \<Longrightarrow> header_fits limits h"
proof -
  have d: "header_validate u h = Inr ()" "within_limits limits h" "sha256 content = hd_Digest h"
    using assms by (simp_all add: describes_def)
  have "length (hd_Digest h) = 32" using d(3) by (metis length_sha256)
  with header_validE[OF d(1)] have
    l: "length (encode_header h) = 218 + length (hd_Destination h) + length (hd_ServiceID h) + length (hd_ServiceName h)"
    "length (hd_Destination h) \<le> 240" "length (hd_ServiceName h) \<le> 240"
    by (simp_all add: length_encode_header)
  then show "0 < length (encode_header h)" "length (encode_header h) \<le> 698 + length (hd_ServiceID h)" by simp_all
  show "length (hd_ServiceID h) \<le> 30 \<Longrightarrow> header_fits limits h"
    using l d(2) by (simp add: header_fits_def within_limits_def)
qed

lemma decode_delivers:
  assumes d: "describes u limits h content" and service: "length (hd_ServiceID h) < 2 ^ 31"
    and fits: "header_fits limits h" and k: "0 < k"
    and ch: "at_input ch (frame_bytes (encode_header h) (chunks max_chunk_content content))"
  shows "\<exists>ch'. decode u limits (\<lambda>_. drain (Suc (length content)) k) ch = (Inr (h, content), ch')"
proof -
  define encoded where "encoded = encode_header h"
  define rest where "rest = frame_chunks 0 (chunks max_chunk_content content) @ record_header 3 0"
  have valid: "header_validate u h = Inr ()" and within: "within_limits limits h" and lim: "limits_validate limits = Inr ()"
    and digest: "sha256 content = hd_Digest h" and len: "length content = unat (hd_Length h)"
    using d by (simp_all add: describes_def)
  note sizes = header_validE[OF valid]
  have digest_length: "length (hd_Digest h) = 32" using digest by (metis length_sha256)
  have bound: "0 < length encoded" "length encoded \<le> unat (lm_MaxDestinationBytes limits) + header_overhead"
    "length encoded < 2 ^ 32"
    using described_length[OF d] service fits by (simp_all add: encoded_def header_fits_def)
  have dec: "decode_header u encoded = Inr h"
    unfolding encoded_def by (rule decode_encode_header[OF valid digest_length]) (use service in simp)
  have "at_input ch (frame_prelude @ record_header 1 (length encoded) @ encoded @ rest)"
    using ch by (simp add: frame_bytes_def encoded_def rest_def)
  from read_exact_delivers[OF this, of 5] obtain ch1 where ch1: "read_exact 5 ch = (Inr frame_prelude, ch1)"
    "at_input ch1 (record_header 1 (length encoded) @ encoded @ rest)" by (auto simp: frame_prelude_def)
  from read_record_header_delivers[OF ch1(2)] bound(3) obtain ch2 where
    ch2: "read_record_header ch1 = (Inr (1, length encoded), ch2)" "at_input ch2 (encoded @ rest)" by auto
  from read_exact_delivers[OF ch2(2) refl] obtain ch3 where
    ch3: "read_exact (length encoded) ch2 = (Inr encoded, ch3)" "at_input ch3 rest" by auto
  define r where "r = new_reader h new_hasher ch3"
  have "to_serve r [] (chunks max_chunk_content content)"
    using ch3(2) digest len sha.fresh chunk_sizes_chunks[of content] describes_size[OF d]
    by (simp add: to_serve_def r_def new_reader_def rest_def concat_chunks)
  moreover have "unread r (chunks max_chunk_content content) = content"
    by (simp add: unread_def r_def new_reader_def concat_chunks)
  ultimately obtain r' where r': "run_consumer (drain (Suc (length content)) k) r = (Inr (), content, r')"
    "cr_Complete r'" "cr_Failure r' = None" "\<not> ch_CloseFails (cr_Channel r')"
    using drain_delivers[of r "[]" "chunks max_chunk_content content" k "Suc (length content)"] k by auto
  have "decode_content (\<lambda>_. drain (Suc (length content)) k) h new_hasher ch3 = (Inr (h, content), cr_Channel r')"
    using r' by (simp add: decode_content_def r_def del: drain.simps)
  then have "decode_body u limits (\<lambda>_. drain (Suc (length content)) k) new_hasher ch = (Inr (h, content), cr_Channel r')"
    using at_input_context[OF ch] lim ch1(1) ch2(1) ch3(1) bound(1,2) dec within
    by (simp add: decode_body_def then_io_def give_io_def del: drain.simps)
  then show ?thesis using r'(4) by (auto simp: decode_def guard_finish_def)
qed

lemma decode_refuses:
  assumes d: "describes u limits h content" and service: "length (hd_ServiceID h) < 2 ^ 31"
    and long: "\<not> header_fits limits h"
    and ch: "at_input ch (frame_bytes (encode_header h) (chunks max_chunk_content content))"
  shows "fst (decode u limits consume ch) = Inl InternalError"
proof -
  define encoded where "encoded = encode_header h"
  have "length encoded < 2 ^ 32" using described_length[OF d] service by (simp add: encoded_def)
  define rest where "rest = encoded @ frame_chunks 0 (chunks max_chunk_content content) @ record_header 3 0"
  have "at_input ch (frame_prelude @ record_header 1 (length encoded) @ rest)"
    using ch by (simp add: frame_bytes_def encoded_def rest_def)
  from read_exact_delivers[OF this, of 5] obtain ch1 where ch1: "read_exact 5 ch = (Inr frame_prelude, ch1)"
    "at_input ch1 (record_header 1 (length encoded) @ rest)" by (auto simp: frame_prelude_def)
  from read_record_header_delivers[OF ch1(2)] \<open>length encoded < 2 ^ 32\<close> obtain ch2 where
    ch2: "read_record_header ch1 = (Inr (1, length encoded), ch2)" by auto
  have "limits_validate limits = Inr ()" using d by (simp add: describes_def)
  then have "decode_body u limits consume new_hasher ch = (Inl InternalError, ch2)"
    using at_input_context[OF ch] ch1(1) ch2 long
    by (simp add: decode_body_def then_io_def give_io_def header_fits_def encoded_def)
  then show ?thesis by (simp add: decode_def guard_finish_def)
qed

lemma round_trip:
  assumes "describes u limits h content" "length (hd_ServiceID h) < 2 ^ 31" "at_input ch content" "ch_Writes ch = []" "0 < k"
  shows "\<exists>frame ch'. encode u limits h ch = (Inr (), ch') \<and> ch_Written ch' = ch_Written ch @ frame \<and>
    (\<forall>input. at_input input frame \<longrightarrow>
       fst (decode u limits (\<lambda>_. drain (Suc (length content)) k) input) =
         (if header_fits limits h then Inr (h, content) else Inl InternalError))"
proof (cases "header_fits limits h")
  case True
  then show ?thesis using encode_delivers[OF assms(1,3,4)] decode_delivers[OF assms(1,2) _ assms(5)] by (metis fst_conv)
next
  case False
  then show ?thesis using encode_delivers[OF assms(1,3,4)] decode_refuses[OF assms(1,2)] by metis
qed

section \<open>Examples\<close>

definition example_limits :: frame_limits where
  "example_limits = \<lparr>lm_MaxContentBytes = 0x100000, lm_MaxDestinationBytes = 240\<rparr>"

definition example_file_header :: header where
  "example_file_header =
     \<lparr>hd_TaskID = ex_id KindTask (CHR ''1''), hd_StepID = ex_id KindStep (CHR ''2''),
      hd_EnvironmentID = ex_id KindEnvironment (CHR ''3''), hd_Generation = 7, hd_Destination = ''config/app.yaml'',
      hd_ServiceID = [], hd_ServiceName = [], hd_OutputKind = OutputPlainFile, hd_UID = 1000, hd_GID = 1001,
      hd_Mode = ModeReadOnly, hd_Length = 3, hd_Digest = sha256 ''abc''\<rparr>"

definition example_channel :: "string list \<Rightarrow> channel" where
  "example_channel pieces =
     \<lparr>ch_Context = None, ch_Pieces = pieces, ch_Fails = False, ch_CloseFails = False, ch_Written = [], ch_Writes = []\<rparr>"

lemma example_describes: "describes crockford_ulid example_limits example_file_header ''abc''"
proof -
  have "valid_destination ''config/app.yaml''" by code_simp
  then show ?thesis
    by (simp add: describes_def limits_validate_def example_limits_def header_validate_def example_file_header_def
        within_limits_def validate_metadata_def validate_destination_def removes_def output_kind_defs kind_defs
        word_le_nat_alt)
qed

definition example_frame :: string where
  "example_frame = frame_bytes (encode_header example_file_header) (chunks max_chunk_content ''abc'')"

lemma example_at_input: "s \<noteq> [] \<Longrightarrow> at_input (example_channel [s]) s"
  by (simp add: at_input_def example_channel_def)

lemma example_sizes: "length (hd_ServiceID example_file_header) < 2 ^ 31" "Suc (length ''abc'') = 4"
  "header_fits example_limits example_file_header"
  using described_length(3)[OF example_describes] by (simp_all add: example_file_header_def)

lemma example_decodes:
  "\<exists>ch'. decode crockford_ulid example_limits (\<lambda>_. drain 4 2) (example_channel [example_frame]) =
     (Inr (example_file_header, ''abc''), ch')"
proof -
  have "at_input (example_channel [example_frame]) example_frame"
    by (rule example_at_input) (simp add: example_frame_def frame_bytes_def frame_prelude_def)
  then show ?thesis
    using decode_delivers[OF example_describes example_sizes(1,3), of 2 "example_channel [example_frame]"]
    unfolding example_frame_def example_sizes(2) by simp
qed

section \<open>Properties\<close>

text \<open>C31. The digest written for this protocol, which buffers one block and wipes its state, is SHA-256: content handed over
  in any number of pieces of any sizes, up to \<open>(2^64 - 1) / 8\<close> bytes together, is accepted piece by piece, and the sum is
  the digest of the concatenation as the standard defines it, on the padded message; afterwards the state is destroyed.
\<close>

theorem incremental_digest_is_sha256:
  assumes "length (concat pieces) \<le> (2 ^ 64 - 1) div 8"
  shows "\<exists>h. foldl (\<lambda>r c. try_res r (\<lambda>h. hasher_write h c)) (Inr new_hasher) pieces = Inr h \<and>
           sum_and_destroy h = (Inr (sha256 (concat pieces)), hasher_destroy h)"
  using sha.sum_of_pieces[OF assms] by (auto simp: sum_and_destroy_def)

lemma incremental_digest_is_sha256_witness:
  "\<exists>h. foldl (\<lambda>r c. try_res r (\<lambda>h. hasher_write h c)) (Inr new_hasher) [''a'', [], ''bc''] = Inr h \<and>
     sum_and_destroy h = (Inr (sha256 ''abc''), hasher_destroy h)"
  using incremental_digest_is_sha256[of "[''a'', [], ''bc'']"] by simp

text \<open>C29. What the helper accepts is authentic and complete. Whatever the callback does - buffers of any size, reads after
  the end, an error swallowed - when \<open>Decode\<close> returns a header without an error, the source held exactly one frame and
  nothing after it, its header is valid and within the caller's limits, the chunks are numbered in order and none is
  empty or too long, and the bytes the callback has received are all of the content, of the length and with the SHA-256
  digest of the header.
\<close>

theorem accepted_frame_is_authentic:
  assumes "decode u limits consume ch = (Inr (h, received), ch')"
  shows "authentic u limits (concat (ch_Pieces ch)) h received"
  by (rule decode_authentic[OF assms])

lemma accepted_frame_is_authentic_witness:
  "authentic crockford_ulid example_limits (concat (ch_Pieces (example_channel [example_frame])))
     example_file_header ''abc''"
  using example_decodes accepted_frame_is_authentic by blast

text \<open>A frame that is cut short, or that has bytes after it, is never accepted: if one source is accepted and another
  hashes a proper beginning or a proper continuation of its bytes, decoding the other ends in an error, whatever the
  callback, in whatever pieces the bytes come.
\<close>

theorem accepted_frames_are_prefix_free:
  assumes "decode u limits consume ch = (Inr x, ch')" "extra \<noteq> []"
    "concat (ch_Pieces ch) = concat (ch_Pieces other) @ extra \<or> concat (ch_Pieces other) = concat (ch_Pieces ch) @ extra"
  shows "\<exists>e. fst (decode u limits consume' other) = Inl e"
proof (rule ccontr)
  assume "\<nexists>e. fst (decode u limits consume' other) = Inl e"
  then obtain y ch2 where y: "decode u limits consume' other = (Inr y, ch2)" by (metis prod.collapse sum.exhaust)
  obtain encoded cs where x: "concat (ch_Pieces ch) = frame_bytes encoded cs" "chunk_sizes cs"
    "length encoded < 2 ^ 32"
    using decode_authentic[of u limits consume ch "fst x" "snd x"] assms(1) by (auto simp: authentic_def)
  obtain encoded' ds where z: "concat (ch_Pieces other) = frame_bytes encoded' ds" "chunk_sizes ds"
    "length encoded' < 2 ^ 32"
    using decode_authentic[of u limits consume' other "fst y" "snd y"] y by (auto simp: authentic_def)
  from assms(3) show False
  proof
    assume "concat (ch_Pieces ch) = concat (ch_Pieces other) @ extra"
    then have "frame_bytes encoded cs @ [] = frame_bytes encoded' ds @ extra" using x(1) z(1) by simp
    from frame_bytes_inject[OF this x(2) z(2) x(3) z(3)] assms(2) show False by simp
  next
    assume "concat (ch_Pieces other) = concat (ch_Pieces ch) @ extra"
    then have "frame_bytes encoded' ds @ [] = frame_bytes encoded cs @ extra" using x(1) z(1) by simp
    from frame_bytes_inject[OF this z(2) x(2) z(3) x(3)] assms(2) show False by simp
  qed
qed

lemma accepted_frames_are_prefix_free_witness:
  "\<exists>e. fst (decode crockford_ulid example_limits (\<lambda>_. drain 4 2) (example_channel [example_frame @ ''!''])) = Inl e"
proof -
  obtain ch' where "decode crockford_ulid example_limits (\<lambda>_. drain 4 2) (example_channel [example_frame]) =
     (Inr (example_file_header, ''abc''), ch')"
    using example_decodes by blast
  from accepted_frames_are_prefix_free[OF this, of "''!''" "example_channel [example_frame @ ''!'']"]
  show ?thesis by (simp add: example_channel_def)
qed

text \<open>C30. Frames round-trip, up to the bound of \<open>Decode\<close> on the header. For a valid header within the limits that states the
  length and the digest of the content, with a service id below 2 GiB, encoding a source that delivers the content (in
  pieces of any size) to a writer that takes it succeeds. Any source that delivers the bytes written, in pieces of any
  size, is decoded to the same header, with the content handed to a callback that reads to the end with any buffer,
  exactly when the encoded header is at most 488 bytes longer than the destination limit; otherwise \<open>Decode\<close> refuses the
  frame. The bound holds whenever the service id is no longer than a canonical one (30 bytes).
\<close>

theorem frame_round_trip:
  assumes "describes u limits h content" "length (hd_ServiceID h) < 2 ^ 31" "at_input ch content" "ch_Writes ch = []" "0 < k"
  shows "(\<exists>frame ch'. encode u limits h ch = (Inr (), ch') \<and> ch_Written ch' = ch_Written ch @ frame \<and>
      (\<forall>input. at_input input frame \<longrightarrow>
         fst (decode u limits (\<lambda>_. drain (Suc (length content)) k) input) =
           (if header_fits limits h then Inr (h, content) else Inl InternalError))) \<and>
    (length (hd_ServiceID h) \<le> 30 \<longrightarrow> header_fits limits h)"
  using round_trip[OF assms] described_length(3)[OF assms(1)] by blast

lemma frame_round_trip_witness:
  "\<exists>frame ch'. encode crockford_ulid example_limits example_file_header (example_channel [''ab'', ''c'']) = (Inr (), ch') \<and>
     ch_Written ch' = frame \<and>
     (\<forall>input. at_input input frame \<longrightarrow>
        fst (decode crockford_ulid example_limits (\<lambda>_. drain 4 2) input) = Inr (example_file_header, ''abc''))"
proof -
  have "at_input (example_channel [''ab'', ''c'']) ''abc''" by (simp add: at_input_def example_channel_def)
  from frame_round_trip[OF example_describes example_sizes(1) this, of 2] show ?thesis
    unfolding example_sizes(2) by (simp add: example_channel_def example_sizes(3) del: drain.simps)
qed

end
