(* ===== verification/MaterializationProof.thy ===== *)
theory MaterializationProof
  imports MaterializationHeader ServiceDependency
begin

text \<open>
  Materialisation proofs (\<open>core/materializationproof\<close>): the immutable evidence that the files of one applied generation of
  an Environment are present or absent, its canonical form and digest, and the selection of the members one Service
  needs. All results of \<open>New\<close> and \<open>Restore\<close> are of Kind \<open>ValidationFailed\<close> when they are errors.
\<close>

section \<open>Records\<close>

type_synonym proof_outcome = string
type_synonym proof_output = string
type_synonym entry_storage = string

definition OutcomePresent :: proof_outcome where "OutcomePresent = ''present''"
definition OutcomeAbsent :: proof_outcome where "OutcomeAbsent = ''absent''"
definition OutputGeneratedEnvironment :: proof_output where "OutputGeneratedEnvironment = ''generated_env''"
definition ProofPlainFile :: proof_output where "ProofPlainFile = ''plain_file''"
definition ProofSecretFile :: proof_output where "ProofSecretFile = ''secret_file''"
definition EntryStoragePlain :: entry_storage where "EntryStoragePlain = ''plain''"
definition EntryStorageSecret :: entry_storage where "EntryStorageSecret = ''secret''"

lemmas proof_text_defs [model_simps] =
  OutcomePresent_def OutcomeAbsent_def OutputGeneratedEnvironment_def ProofPlainFile_def ProofSecretFile_def
  EntryStoragePlain_def EntryStorageSecret_def

abbreviation MaximumMembers :: nat where "MaximumMembers \<equiv> 4096"
abbreviation MaximumSourcesPerMember :: nat where "MaximumSourcesPerMember \<equiv> 4096"
abbreviation MaximumSources :: nat where "MaximumSources \<equiv> 16384"
abbreviation MaximumContentBytes :: nat where "MaximumContentBytes \<equiv> 2 ^ 20"

record entry_generation =
  eg_EntryID :: string
  eg_GenerationID :: string
  eg_Storage :: entry_storage
  eg_ValueSHA256 :: string

text \<open>The revision is an \<open>int64\<close>, read with \<open>sint\<close>.\<close>

record reusable_secret =
  rs_SecretID :: string
  rs_MetadataRevision :: u64
  rs_CiphertextSHA256 :: string

record proof_member =
  pm_MaterializationID :: string
  pm_ServiceID :: string
  pm_ServiceName :: string
  pm_Destination :: string
  pm_OutputKind :: proof_output
  pm_Outcome :: proof_outcome
  pm_UID :: u32
  pm_GID :: u32
  pm_Mode :: u32
  pm_Length :: u64
  pm_ContentSHA256 :: string
  pm_AbsenceOrOwnershipSHA256 :: string
  pm_EntryGenerations :: "entry_generation list"
  pm_ReusableSecrets :: "reusable_secret list"

record proof_record =
  pr_Schema :: "8 word"
  pr_EnvironmentID :: string
  pr_AppliedRevisionID :: string
  pr_RenderGeneration :: u64
  pr_ProducingTaskID :: string
  pr_MemberCount :: u32
  pr_CanonicalSHA256 :: string
  pr_Members :: "proof_member list"

record proof_input =
  pi_EnvironmentID :: string
  pi_AppliedRevisionID :: string
  pi_RenderGeneration :: u64
  pi_ProducingTaskID :: string
  pi_Members :: "proof_member list"

section \<open>Canonical form\<close>

text \<open>
  \<open>sort.Slice\<close> leaves the order of equal keys open; a record with equal keys is refused in any order, so the order that
  \<open>sort_key\<close> chooses makes no difference.
\<close>

definition canonical_member :: "proof_member \<Rightarrow> proof_member" where
  "canonical_member m =
     m\<lparr>pm_EntryGenerations := sort_key eg_EntryID (pm_EntryGenerations m),
       pm_ReusableSecrets := sort_key rs_SecretID (pm_ReusableSecrets m)\<rparr>"

definition canonicalize_proof :: "proof_record \<Rightarrow> proof_record" where
  "canonicalize_proof r = r\<lparr>pr_Members := sort_key pm_MaterializationID (map canonical_member (pr_Members r))\<rparr>"

text \<open>\<open>appendString\<close>, \<open>appendUint32\<close> and \<open>appendUint64\<close>.\<close>

definition string_text :: "string \<Rightarrow> string" where
  "string_text s = be_text 4 (length s) @ s"

definition u32_text :: "u32 \<Rightarrow> string" where
  "u32_text w = be_text 4 (unat w)"

definition u64_text :: "u64 \<Rightarrow> string" where
  "u64_text w = be_text 8 (unat w)"

definition entry_text :: "entry_generation \<Rightarrow> string" where
  "entry_text s =
     string_text (eg_EntryID s) @ string_text (eg_GenerationID s) @ string_text (eg_Storage s) @
     string_text (eg_ValueSHA256 s)"

definition secret_text :: "reusable_secret \<Rightarrow> string" where
  "secret_text s =
     string_text (rs_SecretID s) @ u64_text (rs_MetadataRevision s) @ string_text (rs_CiphertextSHA256 s)"

definition member_text :: "proof_member \<Rightarrow> string" where
  "member_text m =
     string_text (pm_ServiceID m) @ string_text (pm_MaterializationID m) @ string_text (pm_ServiceName m) @
     string_text (pm_Destination m) @ string_text (pm_OutputKind m) @ string_text (pm_Outcome m) @
     u32_text (pm_UID m) @ u32_text (pm_GID m) @ u32_text (pm_Mode m) @ u64_text (pm_Length m) @
     string_text (pm_ContentSHA256 m) @ string_text (pm_AbsenceOrOwnershipSHA256 m) @
     be_text 4 (length (pm_EntryGenerations m)) @ concat (map entry_text (pm_EntryGenerations m)) @
     be_text 4 (length (pm_ReusableSecrets m)) @ concat (map secret_text (pm_ReusableSecrets m))"

definition canonical_encoding :: "proof_record \<Rightarrow> string" where
  "canonical_encoding r =
     ''groundplane.materialization-proof.v1'' @ [CHR 0x00] @ [char_of (unat (pr_Schema r))] @
     string_text (pr_EnvironmentID r) @ string_text (pr_AppliedRevisionID r) @ u64_text (pr_RenderGeneration r) @
     string_text (pr_ProducingTaskID r) @ u32_text (pr_MemberCount r) @ concat (map member_text (pr_Members r))"

definition canonical_digest :: "proof_record \<Rightarrow> string" where
  "canonical_digest r = sha256_text (canonical_encoding r)"

definition empty_sha256 :: string where
  "empty_sha256 = sha256_text []"

section \<open>Validation\<close>

definition validate_proof_destination :: "string \<Rightarrow> unit res" where
  "validate_proof_destination v =
     (if v = [] \<or> length v > MaximumDestinationBytes \<or> \<not> valid_utf8 v \<or> CHR 0x00 \<in> set v \<or> backslash \<in> set v \<or>
         has_prefix ''/'' v \<or> path_clean v \<noteq> v \<or> v = ''.''
      then Inl ValidationFailed
      else if list_ex (\<lambda>c. c = [] \<or> has_prefix TemporaryPrefix c) (split_slash v) then Inl ValidationFailed
      else Inr ())"

definition validate_output :: "ulid_check \<Rightarrow> proof_record \<Rightarrow> proof_member \<Rightarrow> unit res" where
  "validate_output u r m =
     (if pm_OutputKind m = OutputGeneratedEnvironment then
        (if pm_UID m \<noteq> 0 \<or> pm_GID m \<noteq> 0 \<or> pm_Mode m \<noteq> ModePrivate then Inl ValidationFailed
         else if (pm_ServiceID m = []) \<noteq> (pm_ServiceName m = []) \<or>
             pm_ServiceName m \<noteq> [] \<and> \<not> valid_environment_compose_name (pm_ServiceName m)
         then Inl ValidationFailed
         else if generated_env_destination u (pr_EnvironmentID r) (pm_ServiceName m) \<noteq> Inr (pm_Destination m)
         then Inl ValidationFailed else Inr ())
      else if pm_OutputKind m = ProofPlainFile then
        (if pm_ServiceName m \<noteq> [] \<or> pm_Mode m \<noteq> ModeReadOnly then Inl ValidationFailed else Inr ())
      else if pm_OutputKind m = ProofSecretFile then
        (if pm_ServiceName m \<noteq> [] \<or> pm_Mode m \<noteq> ModePrivate then Inl ValidationFailed else Inr ())
      else Inl ValidationFailed)"

definition entry_generation_ok :: "ulid_check \<Rightarrow> entry_generation \<Rightarrow> bool" where
  "entry_generation_ok u s \<longleftrightarrow>
     id_valid u KindEnvEntry (eg_EntryID s) \<and> id_valid u KindConfig (eg_GenerationID s) \<and>
     sha256_hex (eg_ValueSHA256 s) \<and> (eg_Storage s = EntryStoragePlain \<or> eg_Storage s = EntryStorageSecret)"

definition reusable_secret_ok :: "ulid_check \<Rightarrow> reusable_secret \<Rightarrow> bool" where
  "reusable_secret_ok u s \<longleftrightarrow>
     id_valid u KindSecret (rs_SecretID s) \<and> sint (rs_MetadataRevision s) > 0 \<and> sha256_hex (rs_CiphertextSHA256 s)"

text \<open>The two loops of \<open>validateMember\<close>: every source is valid and its id comes after the one before it.\<close>

fun validate_sources :: "('s \<Rightarrow> bool) \<Rightarrow> ('s \<Rightarrow> string) \<Rightarrow> string \<Rightarrow> 's list \<Rightarrow> unit res" where
  "validate_sources ok key previous [] = Inr ()"
| "validate_sources ok key previous (s # ss) =
     (if \<not> ok s then Inl ValidationFailed
      else if key s \<le> previous then Inl ValidationFailed
      else validate_sources ok key (key s) ss)"

definition validate_member :: "ulid_check \<Rightarrow> proof_record \<Rightarrow> proof_member \<Rightarrow> unit res" where
  "validate_member u r m =
     (if \<not> id_valid u KindConfig (pm_MaterializationID m) \<or>
         pm_ServiceID m \<noteq> [] \<and> \<not> id_valid u KindService (pm_ServiceID m)
      then Inl ValidationFailed
      else try_res (validate_proof_destination (pm_Destination m)) (\<lambda>_.
        if pm_UID m = - 1 \<or> pm_GID m = - 1 \<or> unat (pm_Length m) > MaximumContentBytes \<or>
           \<not> sha256_hex (pm_ContentSHA256 m) \<or> \<not> sha256_hex (pm_AbsenceOrOwnershipSHA256 m)
        then Inl ValidationFailed
        else try_res (validate_output u r m) (\<lambda>_.
          if pm_Outcome m \<noteq> OutcomePresent \<and> pm_Outcome m \<noteq> OutcomeAbsent then Inl ValidationFailed
          else if pm_Outcome m = OutcomeAbsent \<and> (pm_Length m \<noteq> 0 \<or> pm_ContentSHA256 m \<noteq> empty_sha256)
          then Inl ValidationFailed
          else if length (pm_EntryGenerations m) > MaximumSourcesPerMember \<or>
                  length (pm_ReusableSecrets m) > MaximumSourcesPerMember
          then Inl ValidationFailed
          else try_res (validate_sources (entry_generation_ok u) eg_EntryID [] (pm_EntryGenerations m)) (\<lambda>_.
            validate_sources (reusable_secret_ok u) rs_SecretID [] (pm_ReusableSecrets m)))))"

text \<open>A source recorded before under the same id has to be the same.\<close>

fun merge_sources :: "('s \<Rightarrow> string) \<Rightarrow> (string \<rightharpoonup> 's) \<Rightarrow> 's list \<Rightarrow> (string \<rightharpoonup> 's) res" where
  "merge_sources key known [] = Inr known"
| "merge_sources key known (s # ss) =
     (case known (key s) of
        Some t \<Rightarrow> if t \<noteq> s then Inl ValidationFailed else merge_sources key (known(key s \<mapsto> s)) ss
      | None \<Rightarrow> merge_sources key (known(key s \<mapsto> s)) ss)"

fun validate_proof_members ::
  "ulid_check \<Rightarrow> proof_record \<Rightarrow> bool \<Rightarrow> string \<Rightarrow> nat \<Rightarrow> (string \<rightharpoonup> entry_generation) \<Rightarrow>
   (string \<rightharpoonup> reusable_secret) \<Rightarrow> string list \<Rightarrow> proof_member list \<Rightarrow> unit res" where
  "validate_proof_members u r canonical previous sources entries secrets destinations [] = Inr ()"
| "validate_proof_members u r canonical previous sources entries secrets destinations (m # ms) =
     try_res (validate_member u r m) (\<lambda>_.
       if canonical \<and> pm_MaterializationID m \<le> previous then Inl ValidationFailed
       else if pm_MaterializationID m = previous then Inl ValidationFailed
       else if pm_Destination m \<in> set destinations then Inl ValidationFailed
       else
         let sources' = sources + length (pm_EntryGenerations m) + length (pm_ReusableSecrets m)
         in if sources' > MaximumSources then Inl ValidationFailed
            else
              try_res (merge_sources eg_EntryID entries (pm_EntryGenerations m)) (\<lambda>entries'.
              try_res (merge_sources rs_SecretID secrets (pm_ReusableSecrets m)) (\<lambda>secrets'.
                validate_proof_members u r canonical (pm_MaterializationID m) sources' entries' secrets'
                  (pm_Destination m # destinations) ms)))"

definition validate_proof :: "ulid_check \<Rightarrow> proof_record \<Rightarrow> bool \<Rightarrow> unit res" where
  "validate_proof u r canonical =
     (if pr_Schema r \<noteq> 1 \<or> \<not> id_valid u KindEnvironment (pr_EnvironmentID r) \<or>
         \<not> id_valid u KindTask (pr_AppliedRevisionID r) \<or> pr_RenderGeneration r = 0 \<or>
         \<not> id_valid u KindTask (pr_ProducingTaskID r)
      then Inl ValidationFailed
      else if length (pr_Members r) > MaximumMembers \<or> pr_MemberCount r \<noteq> of_nat (length (pr_Members r))
      then Inl ValidationFailed
      else if canonical \<and> \<not> sha256_hex (pr_CanonicalSHA256 r) then Inl ValidationFailed
      else validate_proof_members u r canonical [] 0 Map.empty Map.empty [] (pr_Members r))"

definition new_proof :: "ulid_check \<Rightarrow> proof_input \<Rightarrow> proof_record res" where
  "new_proof u i =
     (let r = canonicalize_proof
        \<lparr>pr_Schema = 1, pr_EnvironmentID = pi_EnvironmentID i, pr_AppliedRevisionID = pi_AppliedRevisionID i,
         pr_RenderGeneration = pi_RenderGeneration i, pr_ProducingTaskID = pi_ProducingTaskID i, pr_MemberCount = 0,
         pr_CanonicalSHA256 = [], pr_Members = pi_Members i\<rparr>;
          r1 = r\<lparr>pr_MemberCount := of_nat (length (pr_Members r))\<rparr>
      in try_res (validate_proof u r1 False) (\<lambda>_. Inr (r1\<lparr>pr_CanonicalSHA256 := canonical_digest r1\<rparr>)))"

definition restore_proof :: "ulid_check \<Rightarrow> proof_record \<Rightarrow> proof_record res" where
  "restore_proof u r =
     try_res (validate_proof u r True) (\<lambda>_.
       if canonical_digest r \<noteq> pr_CanonicalSHA256 r then Inl ValidationFailed else Inr r)"

section \<open>Selection\<close>

record selection_request =
  sq_EnvironmentID :: string
  sq_AppliedRevisionID :: string
  sq_RenderGeneration :: u64
  sq_ProducingTaskID :: string
  sq_CanonicalSHA256 :: string
  sq_TargetServiceID :: string
  sq_RequiredMaterializationIDs :: "string list"

definition request_identity_ok :: "ulid_check \<Rightarrow> selection_request \<Rightarrow> bool" where
  "request_identity_ok u q \<longleftrightarrow>
     id_valid u KindEnvironment (sq_EnvironmentID q) \<and> id_valid u KindTask (sq_AppliedRevisionID q) \<and>
     sq_RenderGeneration q \<noteq> 0 \<and> id_valid u KindTask (sq_ProducingTaskID q) \<and>
     id_valid u KindService (sq_TargetServiceID q) \<and> sha256_hex (sq_CanonicalSHA256 q)"

definition request_matches :: "proof_record \<Rightarrow> selection_request \<Rightarrow> bool" where
  "request_matches p q \<longleftrightarrow>
     pr_EnvironmentID p = sq_EnvironmentID q \<and> pr_AppliedRevisionID p = sq_AppliedRevisionID q \<and>
     pr_RenderGeneration p = sq_RenderGeneration q \<and> pr_ProducingTaskID p = sq_ProducingTaskID q \<and>
     pr_CanonicalSHA256 p = sq_CanonicalSHA256 q"

text \<open>The loop over the sorted ids; \<open>previous\<close> is the one before, if there is one.\<close>

fun check_required :: "ulid_check \<Rightarrow> string option \<Rightarrow> string list \<Rightarrow> unit res" where
  "check_required u previous [] = Inr ()"
| "check_required u previous (x # xs) =
     (if \<not> id_valid u KindConfig x then Inl ValidationFailed
      else if previous = Some x then Inl ValidationFailed
      else check_required u (Some x) xs)"

text \<open>The map \<open>secretByID\<close> as the list of its values, in the order in which they were first set.\<close>

fun collect_secrets :: "reusable_secret list \<Rightarrow> reusable_secret list \<Rightarrow> reusable_secret list res" where
  "collect_secrets known [] = Inr known"
| "collect_secrets known (s # ss) =
     (case find (\<lambda>t. rs_SecretID t = rs_SecretID s) known of
        Some t \<Rightarrow> if t \<noteq> s then Inl InternalError else collect_secrets known ss
      | None \<Rightarrow> collect_secrets (known @ [s]) ss)"

fun select_required ::
  "(string \<rightharpoonup> proof_member) \<Rightarrow> string \<Rightarrow> proof_member list \<Rightarrow> reusable_secret list \<Rightarrow> string list \<Rightarrow>
   (proof_member list \<times> reusable_secret list) res" where
  "select_required members target selected secrets [] = Inr (selected, secrets)"
| "select_required members target selected secrets (x # xs) =
     (case members x of
        None \<Rightarrow> Inl StateConflict
      | Some m \<Rightarrow>
          if pm_ServiceID m \<noteq> [] \<and> pm_ServiceID m \<noteq> target then Inl StateConflict
          else try_res (collect_secrets secrets (pm_ReusableSecrets m)) (\<lambda>secrets'.
            select_required members target (selected @ [m]) secrets' xs))"

definition select_target_service ::
  "ulid_check \<Rightarrow> proof_record \<Rightarrow> selection_request \<Rightarrow> (proof_member list \<times> reusable_secret list) res" where
  "select_target_service u p q =
     (if \<not> request_identity_ok u q then Inl ValidationFailed
      else if \<not> request_matches p q then Inl StateConflict
      else
        let required = sort (sq_RequiredMaterializationIDs q)
        in try_res (check_required u None required) (\<lambda>_.
             let members = foldl (\<lambda>known m. known(pm_MaterializationID m \<mapsto> m)) Map.empty (pr_Members p)
             in if list_ex (\<lambda>m. pm_ServiceID m = sq_TargetServiceID q \<and> pm_MaterializationID m \<notin> set required)
                   (pr_Members p)
                then Inl StateConflict
                else try_res (select_required members (sq_TargetServiceID q) [] [] required)
                  (\<lambda>(selected, secrets). Inr (selected, sort_key rs_SecretID secrets))))"

end
