(* ===== verification/MaterializationProofProperties.thy ===== *)
theory MaterializationProofProperties
  imports MaterializationProof
begin

text \<open>
  What materialisation proofs guarantee: one canonical form for any order of the input, restored as it was built; an
  encoding under the digest that determines the record; and the exact selection for a Service.
\<close>

section \<open>Validation\<close>

lemma sorted_wrt_less_cons2: "sorted_wrt (<) (x # y # ys) \<longleftrightarrow> x < y \<and> sorted_wrt (<) (y # (ys :: string list))"
  using less_trans by auto

lemma validate_sources_ok:
  "validate_sources ok key previous ss = Inr () \<longleftrightarrow> list_all ok ss \<and> sorted_wrt (<) (previous # map key ss)"
proof (induction ss arbitrary: previous)
  case (Cons s ss)
  show ?case unfolding list.map sorted_wrt_less_cons2 by (auto simp: Cons.IH not_le)
qed simp

lemma validate_sources_error: "validate_sources ok key previous ss = Inl e \<Longrightarrow> e = ValidationFailed"
  by (induction ss arbitrary: previous) (auto split: if_splits)

lemma validate_member_error: "validate_member u r m = Inl e \<Longrightarrow> e = ValidationFailed"
  by (auto simp: validate_member_def validate_proof_destination_def validate_output_def try_res_eq_Inl
      dest: validate_sources_error split: if_splits)

lemma merge_sources_error: "merge_sources key known ss = Inl e \<Longrightarrow> e = ValidationFailed"
  by (induction ss arbitrary: known) (auto split: if_splits option.splits)

lemma validate_proof_members_error:
  "validate_proof_members u r c previous n entries secrets ds ms = Inl e \<Longrightarrow> e = ValidationFailed"
  by (induction ms arbitrary: previous n entries secrets ds)
    (auto simp: try_res_eq_Inl Let_def dest: validate_member_error merge_sources_error split: if_splits)

lemma validate_proof_error: "validate_proof u r c = Inl e \<Longrightarrow> e = ValidationFailed"
  by (auto simp: validate_proof_def dest: validate_proof_members_error split: if_splits)

lemma new_proof_error: "new_proof u i = Inl e \<Longrightarrow> e = ValidationFailed"
  by (auto simp: new_proof_def Let_def try_res_eq_Inl dest: validate_proof_error)

text \<open>Only the Environment of the record matters for its members.\<close>

lemma validate_member_environment:
  "pr_EnvironmentID r = pr_EnvironmentID r' \<Longrightarrow> validate_member u r m = validate_member u r' m"
  by (simp add: validate_member_def validate_output_def)

lemma validate_proof_members_environment:
  "pr_EnvironmentID r = pr_EnvironmentID r' \<Longrightarrow>
     validate_proof_members u r c previous n entries secrets ds ms = validate_proof_members u r' c previous n entries secrets ds ms"
  by (induction ms arbitrary: previous n entries secrets ds)
    (simp_all add: validate_member_environment[of r r'] Let_def cong: if_cong)

text \<open>What the loop over the members has established when it ends.\<close>

lemma merge_sources_known:
  "merge_sources key known ss = Inr known' \<Longrightarrow>
     (\<forall>k s. known k = Some s \<longrightarrow> known' k = Some s) \<and> (\<forall>s \<in> set ss. known' (key s) = Some s)"
proof (induction ss arbitrary: known)
  case (Cons s ss)
  then have rest: "merge_sources key (known(key s \<mapsto> s)) ss = Inr known'"
    and before: "known (key s) = None \<or> known (key s) = Some s"
    by (auto split: option.splits if_splits)
  note ih = Cons.IH[OF rest]
  have "known' k = Some t" if "known k = Some t" for k t
  proof -
    have "(known(key s \<mapsto> s)) k = Some t" using that before by (cases "k = key s") auto
    with ih show ?thesis by blast
  qed
  moreover have "known' (key s) = Some s" using ih by simp
  ultimately show ?case using ih by simp
qed simp

lemma validate_proof_members_ok:
  assumes "validate_proof_members u r c previous n entries secrets ds ms = Inr ()"
  shows "(\<forall>m \<in> set ms. validate_member u r m = Inr ()) \<and> distinct_adj (previous # map pm_MaterializationID ms) \<and>
    (c \<longrightarrow> sorted_wrt (<) (previous # map pm_MaterializationID ms)) \<and>
    distinct (map pm_Destination ms) \<and> set (map pm_Destination ms) \<inter> set ds = {} \<and>
    (\<exists>known. (\<forall>k s. secrets k = Some s \<longrightarrow> known k = Some s) \<and>
       (\<forall>m \<in> set ms. \<forall>s \<in> set (pm_ReusableSecrets m). known (rs_SecretID s) = Some s))"
  using assms
proof (induction ms arbitrary: previous n entries secrets ds)
  case (Cons m ms)
  from Cons.prems obtain entries' secrets' where
    m: "validate_member u r m = Inr ()" "c \<longrightarrow> previous < pm_MaterializationID m" "pm_MaterializationID m \<noteq> previous"
      "pm_Destination m \<notin> set ds" and
    secrets: "merge_sources rs_SecretID secrets (pm_ReusableSecrets m) = Inr secrets'" and
    rest: "validate_proof_members u r c (pm_MaterializationID m) (n + length (pm_EntryGenerations m) + length (pm_ReusableSecrets m))
      entries' secrets' (pm_Destination m # ds) ms = Inr ()"
    by (auto simp: Let_def try_res_unit not_le split: if_splits)
  note ih = Cons.IH[OF rest]
  then obtain known where known: "\<forall>k s. secrets' k = Some s \<longrightarrow> known k = Some s"
    "\<forall>m \<in> set ms. \<forall>s \<in> set (pm_ReusableSecrets m). known (rs_SecretID s) = Some s" by blast
  have "c \<longrightarrow> sorted_wrt (<) (previous # map pm_MaterializationID (m # ms))"
    unfolding list.map sorted_wrt_less_cons2 using ih m(2) by blast
  moreover have "\<exists>known. (\<forall>k s. secrets k = Some s \<longrightarrow> known k = Some s) \<and>
      (\<forall>m' \<in> set (m # ms). \<forall>s \<in> set (pm_ReusableSecrets m'). known (rs_SecretID s) = Some s)"
    using known merge_sources_known[OF secrets] by (intro exI[of _ known]) auto
  ultimately show ?case using ih m by auto
qed auto

lemma validate_proof_members_canonical:
  "\<lbrakk>validate_proof_members u r False previous n entries secrets ds ms = Inr (); sorted (previous # map pm_MaterializationID ms)\<rbrakk>
     \<Longrightarrow> validate_proof_members u r True previous n entries secrets ds ms = Inr ()"
  by (induction ms arbitrary: previous n entries secrets ds)
    (auto simp: Let_def try_res_unit split: if_splits)

section \<open>Canonical form\<close>

lemma canonical_fields [simp]:
  "pm_MaterializationID (canonical_member m) = pm_MaterializationID m"
  "pm_EntryGenerations (canonical_member m) = sort_key eg_EntryID (pm_EntryGenerations m)"
  "pm_ReusableSecrets (canonical_member m) = sort_key rs_SecretID (pm_ReusableSecrets m)"
  by (simp_all add: canonical_member_def)

lemma empty_least: "([] :: string) \<le> s"
  by simp

lemma canonical_digest_fixed [simp]: "canonical_digest (r\<lparr>pr_CanonicalSHA256 := d\<rparr>) = canonical_digest r"
  by (simp add: canonical_digest_def canonical_encoding_def)

lemma validate_proof_seal:
  assumes "validate_proof u r False = Inr ()" "sorted ([] # map pm_MaterializationID (pr_Members r))" "sha256_hex d"
  shows "validate_proof u (r\<lparr>pr_CanonicalSHA256 := d\<rparr>) True = Inr ()"
proof -
  have "validate_proof_members u r False [] 0 Map.empty Map.empty [] (pr_Members r) = Inr ()"
    using assms(1) by (auto simp: validate_proof_def split: if_splits)
  from validate_proof_members_canonical[OF this assms(2)]
  have "validate_proof_members u (r\<lparr>pr_CanonicalSHA256 := d\<rparr>) True [] 0 Map.empty Map.empty [] (pr_Members r) = Inr ()"
    using validate_proof_members_environment[of "r\<lparr>pr_CanonicalSHA256 := d\<rparr>" r] by simp
  then show ?thesis using assms(1,3) by (auto simp: validate_proof_def split: if_splits)
qed

lemma new_proof_cases:
  assumes "new_proof u i = Inr p"
  obtains r where "p = r\<lparr>pr_CanonicalSHA256 := canonical_digest r\<rparr>" "validate_proof u r False = Inr ()"
    "pr_Members r = sort_key pm_MaterializationID (map canonical_member (pi_Members i))"
    "pr_CanonicalSHA256 r = []" "pr_EnvironmentID r = pi_EnvironmentID i"
proof -
  define r0 where "r0 = canonicalize_proof
        \<lparr>pr_Schema = 1, pr_EnvironmentID = pi_EnvironmentID i, pr_AppliedRevisionID = pi_AppliedRevisionID i,
         pr_RenderGeneration = pi_RenderGeneration i, pr_ProducingTaskID = pi_ProducingTaskID i, pr_MemberCount = 0,
         pr_CanonicalSHA256 = [], pr_Members = pi_Members i\<rparr>"
  define r where "r = r0\<lparr>pr_MemberCount := of_nat (length (pr_Members r0))\<rparr>"
  have "try_res (validate_proof u r False) (\<lambda>_. Inr (r\<lparr>pr_CanonicalSHA256 := canonical_digest r\<rparr>)) = Inr p"
    using assms unfolding new_proof_def Let_def r0_def[symmetric] r_def[symmetric] .
  then have "validate_proof u r False = Inr ()" "p = r\<lparr>pr_CanonicalSHA256 := canonical_digest r\<rparr>"
    by (simp_all add: try_res_unit)
  then show thesis by (intro that[of r]) (simp_all add: r_def r0_def canonicalize_proof_def)
qed

lemma new_proof_restored:
  assumes "new_proof u i = Inr p"
  shows "restore_proof u p = Inr p"
proof -
  from assms obtain r where r: "p = r\<lparr>pr_CanonicalSHA256 := canonical_digest r\<rparr>" "validate_proof u r False = Inr ()"
    "pr_Members r = sort_key pm_MaterializationID (map canonical_member (pi_Members i))" by (rule new_proof_cases)
  have "sorted ([] # map pm_MaterializationID (pr_Members r))" by (simp add: r(3) empty_least)
  from validate_proof_seal[OF r(2) this, of "canonical_digest r"]
  have "validate_proof u p True = Inr ()" by (simp add: r(1) canonical_digest_def sha256_text_hex)
  then show ?thesis by (simp add: restore_proof_def r(1))
qed

lemma distinct_distinct_adj: "distinct xs \<Longrightarrow> distinct_adj xs"
  by (induction xs rule: induct_list012) auto

lemma sorted_distinct_adj: "\<lbrakk>sorted xs; distinct_adj xs\<rbrakk> \<Longrightarrow> distinct (xs :: string list)"
proof (induction xs)
  case (Cons x xs)
  then have "distinct xs" by (auto dest: distinct_adj_ConsD)
  moreover have "x \<notin> set xs"
  proof
    assume x: "x \<in> set xs"
    then obtain y ys where xs: "xs = y # ys" by (cases xs) auto
    with Cons.prems(2) have "x \<noteq> y" by simp
    with x xs Cons.prems(1) show False by auto
  qed
  ultimately show ?case by simp
qed simp

text \<open>Two inputs with the same members up to the order of the members and of their sources.\<close>

definition permuted_member :: "proof_member \<Rightarrow> proof_member \<Rightarrow> bool" where
  "permuted_member m n \<longleftrightarrow>
     m\<lparr>pm_EntryGenerations := [], pm_ReusableSecrets := []\<rparr> = n\<lparr>pm_EntryGenerations := [], pm_ReusableSecrets := []\<rparr> \<and>
     mset (pm_EntryGenerations m) = mset (pm_EntryGenerations n) \<and>
     mset (pm_ReusableSecrets m) = mset (pm_ReusableSecrets n)"

definition permuted_input :: "proof_input \<Rightarrow> proof_input \<Rightarrow> bool" where
  "permuted_input i j \<longleftrightarrow>
     i\<lparr>pi_Members := []\<rparr> = j\<lparr>pi_Members := []\<rparr> \<and>
     (\<exists>ms. mset ms = mset (pi_Members j) \<and> list_all2 permuted_member (pi_Members i) ms)"

lemma permuted_member_sym: "permuted_member m n \<Longrightarrow> permuted_member n m"
  by (simp add: permuted_member_def)

lemma permuted_input_sym: "permuted_input i j \<Longrightarrow> permuted_input j i"
proof -
  assume "permuted_input i j"
  then obtain ms where ms: "i\<lparr>pi_Members := []\<rparr> = j\<lparr>pi_Members := []\<rparr>" "mset ms = mset (pi_Members j)"
    "list_all2 permuted_member (pi_Members i) ms" by (auto simp: permuted_input_def)
  have "list_all2 permuted_member ms (pi_Members i)"
    using ms(3) by (auto simp: list_all2_conv_all_nth permuted_member_sym)
  with ms(2) obtain ns where "list_all2 permuted_member (pi_Members j) ns" "mset ns = mset (pi_Members i)"
    using list_all2_reorder_left_invariance by metis
  with ms(1) show ?thesis by (auto simp: permuted_input_def)
qed

lemma canonical_permuted:
  assumes "permuted_member m n" "distinct (map eg_EntryID (pm_EntryGenerations m))"
    "distinct (map rs_SecretID (pm_ReusableSecrets m))"
  shows "canonical_member m = canonical_member n"
proof -
  have "sort_key eg_EntryID (pm_EntryGenerations m) = sort_key eg_EntryID (pm_EntryGenerations n)"
    "sort_key rs_SecretID (pm_ReusableSecrets m) = sort_key rs_SecretID (pm_ReusableSecrets n)"
    using assms by (auto simp: permuted_member_def intro: sort_key_mset_eq)
  then show ?thesis using assms(1) by (cases m; cases n) (simp add: canonical_member_def permuted_member_def)
qed

lemma member_sources_distinct:
  assumes "validate_member u r (canonical_member m) = Inr ()"
  shows "distinct (map eg_EntryID (pm_EntryGenerations m))" "distinct (map rs_SecretID (pm_ReusableSecrets m))"
proof -
  have "sorted_wrt (<) (map eg_EntryID (sort_key eg_EntryID (pm_EntryGenerations m)))"
    "sorted_wrt (<) (map rs_SecretID (sort_key rs_SecretID (pm_ReusableSecrets m)))"
    using assms by (auto simp: validate_member_def try_res_unit validate_sources_ok split: if_splits)
  then have "distinct (map eg_EntryID (sort_key eg_EntryID (pm_EntryGenerations m)))"
    "distinct (map rs_SecretID (sort_key rs_SecretID (pm_ReusableSecrets m)))"
    by (simp_all add: strict_sorted_iff)
  moreover have "mset (map f (sort_key f xs)) = mset (map f xs)" for f :: "'x \<Rightarrow> string" and xs by simp
  ultimately show "distinct (map eg_EntryID (pm_EntryGenerations m))" "distinct (map rs_SecretID (pm_ReusableSecrets m))"
    using distinct_mset_eq by blast+
qed

lemma new_proof_permuted:
  assumes i: "new_proof u i = Inr p" and ij: "permuted_input i j"
  shows "new_proof u j = Inr p"
proof -
  from i obtain r where r: "validate_proof u r False = Inr ()"
    "pr_Members r = sort_key pm_MaterializationID (map canonical_member (pi_Members i))" by (rule new_proof_cases)
  then have "validate_proof_members u r False [] 0 Map.empty Map.empty [] (pr_Members r) = Inr ()"
    by (auto simp: validate_proof_def split: if_splits)
  note ok = validate_proof_members_ok[OF this]
  from ij obtain ms where ms: "i\<lparr>pi_Members := []\<rparr> = j\<lparr>pi_Members := []\<rparr>" "mset ms = mset (pi_Members j)"
    "list_all2 permuted_member (pi_Members i) ms" by (auto simp: permuted_input_def)
  have "canonical_member m = canonical_member n" if "m \<in> set (pi_Members i)" "permuted_member m n" for m n
  proof (rule canonical_permuted[OF that(2)])
    have "validate_member u r (canonical_member m) = Inr ()" using ok that(1) r(2) by auto
    then show "distinct (map eg_EntryID (pm_EntryGenerations m))" "distinct (map rs_SecretID (pm_ReusableSecrets m))"
      by (rule member_sources_distinct)+
  qed
  then have "map canonical_member (pi_Members i) = map canonical_member ms"
    using ms(3) by (auto simp: list_all2_conv_all_nth list_eq_iff_nth_eq)
  then have same: "mset (map canonical_member (pi_Members i)) = mset (map canonical_member (pi_Members j))"
    using ms(2) by (metis mset_map)
  have "sorted (map pm_MaterializationID (pr_Members r))" by (simp add: r(2))
  moreover have "distinct_adj (map pm_MaterializationID (pr_Members r))" using ok by (auto dest: distinct_adj_ConsD)
  ultimately have "distinct (map pm_MaterializationID (pr_Members r))" by (rule sorted_distinct_adj)
  then have "distinct (map pm_MaterializationID (map canonical_member (pi_Members i)))"
    unfolding r(2) using distinct_mset_eq by (metis mset_map mset_sort)
  from sort_key_mset_eq[OF same this]
  have "sort_key pm_MaterializationID (map canonical_member (pi_Members i)) =
      sort_key pm_MaterializationID (map canonical_member (pi_Members j))" .
  then have "new_proof u i = new_proof u j"
    using ms(1) by (cases i; cases j) (simp add: new_proof_def Let_def canonicalize_proof_def)
  with i show ?thesis by simp
qed

section \<open>The encoding under the digest\<close>

lemma be_text_read:
  assumes "be_text n a @ s = be_text n b @ t" "a < 256 ^ n" "b < 256 ^ n"
  shows "a = b \<and> s = t"
proof -
  have "be_text n a = be_text n b" "s = t" using assms(1) by (simp_all add: append_eq_append_conv)
  then show ?thesis using assms(2,3) be_text_value by metis
qed

text \<open>A text that can be read back from the front of any continuation.\<close>

definition prefix_code :: "('x \<Rightarrow> bool) \<Rightarrow> ('x \<Rightarrow> string) \<Rightarrow> bool" where
  "prefix_code P f \<longleftrightarrow> (\<forall>x y s t. P x \<longrightarrow> P y \<longrightarrow> (f x @ s = f y @ t \<longleftrightarrow> x = y \<and> s = t))"

definition short :: "string \<Rightarrow> bool" where
  "short s \<longleftrightarrow> length s < 2 ^ 32"

lemma string_text_read: "\<lbrakk>short a; short b\<rbrakk> \<Longrightarrow> string_text a @ s = string_text b @ t \<longleftrightarrow> a = b \<and> s = t"
proof
  assume sized: "short a" "short b" and eq: "string_text a @ s = string_text b @ t"
  have "length a = length b \<and> a @ s = b @ t"
    using be_text_read[of 4 "length a" "a @ s" "length b" "b @ t"] sized eq by (simp add: string_text_def short_def)
  then show "a = b \<and> s = t" using append_eq_append_conv[of a b s t] by blast
qed simp

lemma u32_text_read: "u32_text a @ s = u32_text b @ t \<longleftrightarrow> a = b \<and> s = t"
  using be_text_read[of 4 "unat a" s "unat b" t] u32_less[of a] u32_less[of b] by (auto simp: u32_text_def intro: unsigned_word_eqI)

lemma u64_text_read: "u64_text a @ s = u64_text b @ t \<longleftrightarrow> a = b \<and> s = t"
  using be_text_read[of 8 "unat a" s "unat b" t] u64_less[of a] u64_less[of b] by (auto simp: u64_text_def intro: unsigned_word_eqI)

lemma concat_read:
  assumes "prefix_code P f" "length xs = length ys" "list_all P xs" "list_all P ys"
  shows "concat (map f xs) @ s = concat (map f ys) @ t \<longleftrightarrow> xs = ys \<and> s = t"
  using assms(2,3,4)
proof (induction xs ys rule: list_induct2)
  case (Cons x xs y ys)
  have "f x @ (concat (map f xs) @ s) = f y @ (concat (map f ys) @ t) \<longleftrightarrow>
      x = y \<and> concat (map f xs) @ s = concat (map f ys) @ t"
    using assms(1) Cons.prems by (simp add: prefix_code_def)
  with Cons show ?case by simp
qed simp

lemma list_text_read:
  assumes "prefix_code P f" "list_all P xs" "list_all P ys" "length xs < 2 ^ 32" "length ys < 2 ^ 32"
  shows "be_text 4 (length xs) @ concat (map f xs) @ s = be_text 4 (length ys) @ concat (map f ys) @ t \<longleftrightarrow>
           xs = ys \<and> s = t"
proof
  assume eq: "be_text 4 (length xs) @ concat (map f xs) @ s = be_text 4 (length ys) @ concat (map f ys) @ t"
  have "length xs = length ys" "concat (map f xs) @ s = concat (map f ys) @ t"
    using be_text_read[OF eq] assms(4,5) by simp_all
  then show "xs = ys \<and> s = t" using concat_read[OF assms(1) _ assms(2,3)] by blast
qed simp

definition sized_entry :: "entry_generation \<Rightarrow> bool" where
  "sized_entry s \<longleftrightarrow> short (eg_EntryID s) \<and> short (eg_GenerationID s) \<and> short (eg_Storage s) \<and> short (eg_ValueSHA256 s)"

definition sized_secret :: "reusable_secret \<Rightarrow> bool" where
  "sized_secret s \<longleftrightarrow> short (rs_SecretID s) \<and> short (rs_CiphertextSHA256 s)"

definition sized_member :: "proof_member \<Rightarrow> bool" where
  "sized_member m \<longleftrightarrow>
     short (pm_ServiceID m) \<and> short (pm_MaterializationID m) \<and> short (pm_ServiceName m) \<and> short (pm_Destination m) \<and>
     short (pm_OutputKind m) \<and> short (pm_Outcome m) \<and> short (pm_ContentSHA256 m) \<and>
     short (pm_AbsenceOrOwnershipSHA256 m) \<and>
     length (pm_EntryGenerations m) < 2 ^ 32 \<and> length (pm_ReusableSecrets m) < 2 ^ 32 \<and>
     list_all sized_entry (pm_EntryGenerations m) \<and> list_all sized_secret (pm_ReusableSecrets m)"

lemma entry_text_code: "prefix_code sized_entry entry_text"
  unfolding prefix_code_def
proof (intro allI impI)
  fix a b s t assume "sized_entry a" "sized_entry b"
  then show "entry_text a @ s = entry_text b @ t \<longleftrightarrow> a = b \<and> s = t"
    by (cases a; cases b) (simp add: entry_text_def sized_entry_def string_text_read)
qed

lemma secret_text_code: "prefix_code sized_secret secret_text"
  unfolding prefix_code_def
proof (intro allI impI)
  fix a b s t assume "sized_secret a" "sized_secret b"
  then show "secret_text a @ s = secret_text b @ t \<longleftrightarrow> a = b \<and> s = t"
    by (cases a; cases b) (simp add: secret_text_def sized_secret_def string_text_read u64_text_read)
qed

lemma member_text_code: "prefix_code sized_member member_text"
  unfolding prefix_code_def
proof (intro allI impI)
  fix a b s t assume "sized_member a" "sized_member b"
  then show "member_text a @ s = member_text b @ t \<longleftrightarrow> a = b \<and> s = t"
    by (cases a; cases b)
      (auto simp: member_text_def sized_member_def string_text_read u32_text_read u64_text_read
        list_text_read[OF entry_text_code] list_text_read[OF secret_text_code] simp del: append_eq_append_conv)
qed

text \<open>Everything a valid record holds is short.\<close>

lemma id_short: "id_valid u k v \<Longrightarrow> length k < 100 \<Longrightarrow> short v"
  using id_valid_length[of u k v] by (simp add: short_def)

lemma hex_short: "sha256_hex v \<Longrightarrow> short v"
  by (simp add: short_def sha256_hex_def)

lemma valid_member_sized:
  assumes "validate_member u r m = Inr ()"
  shows "sized_member m"
proof -
  have ids: "id_valid u KindConfig (pm_MaterializationID m)"
    "pm_ServiceID m = [] \<or> id_valid u KindService (pm_ServiceID m)"
    and dest: "length (pm_Destination m) \<le> MaximumDestinationBytes"
    and hex: "sha256_hex (pm_ContentSHA256 m)" "sha256_hex (pm_AbsenceOrOwnershipSHA256 m)"
    and out: "validate_output u r m = Inr ()" and outcome: "pm_Outcome m = OutcomePresent \<or> pm_Outcome m = OutcomeAbsent"
    and counts: "length (pm_EntryGenerations m) \<le> MaximumSourcesPerMember"
      "length (pm_ReusableSecrets m) \<le> MaximumSourcesPerMember"
    and sources: "list_all (entry_generation_ok u) (pm_EntryGenerations m)"
      "list_all (reusable_secret_ok u) (pm_ReusableSecrets m)"
    using assms by (auto simp: validate_member_def validate_proof_destination_def try_res_unit validate_sources_ok
        split: if_splits)
  have "short (pm_OutputKind m) \<and> short (pm_ServiceName m)"
    using out by (auto simp: validate_output_def short_def valid_environment_compose_name_def model_simps split: if_splits)
  moreover have "short (pm_Outcome m)" using outcome by (auto simp: short_def model_simps)
  moreover have "short (pm_MaterializationID m)" "short (pm_ServiceID m)"
    using ids by (auto intro: id_short simp: kind_defs) (simp add: short_def)
  moreover have "list_all sized_entry (pm_EntryGenerations m)"
    using sources(1) unfolding list_all_iff
    by (auto simp: entry_generation_ok_def sized_entry_def hex_short kind_defs intro: id_short)
      (auto simp: short_def model_simps)
  moreover have "list_all sized_secret (pm_ReusableSecrets m)"
    using sources(2) unfolding list_all_iff
    by (auto simp: reusable_secret_ok_def sized_secret_def hex_short kind_defs intro: id_short)
  ultimately show ?thesis
    using dest hex[THEN hex_short] counts by (simp add: sized_member_def short_def)
qed

lemma encoding_determines_record:
  assumes r: "restore_proof u r = Inr p" and r': "restore_proof u r' = Inr p'"
    and eq: "canonical_encoding r = canonical_encoding r'"
  shows "r = r'"
proof -
  have v: "validate_proof u r True = Inr ()" "pr_CanonicalSHA256 r = canonical_digest r"
    using r by (auto simp: restore_proof_def try_res_unit split: if_splits)
  have v': "validate_proof u r' True = Inr ()" "pr_CanonicalSHA256 r' = canonical_digest r'"
    using r' by (auto simp: restore_proof_def try_res_unit split: if_splits)
  have parts: "short (pr_EnvironmentID r)" "short (pr_AppliedRevisionID r)" "short (pr_ProducingTaskID r)"
    "length (pr_Members r) \<le> MaximumMembers" "pr_MemberCount r = of_nat (length (pr_Members r))" "pr_Schema r = 1"
    "list_all sized_member (pr_Members r)"
    if "validate_proof u r True = Inr ()" for r
  proof -
    have ids: "id_valid u KindEnvironment (pr_EnvironmentID r)" "id_valid u KindTask (pr_AppliedRevisionID r)"
      "id_valid u KindTask (pr_ProducingTaskID r)" "length (pr_Members r) \<le> MaximumMembers"
      "pr_MemberCount r = of_nat (length (pr_Members r))" "pr_Schema r = 1"
      and ms: "validate_proof_members u r True [] 0 Map.empty Map.empty [] (pr_Members r) = Inr ()"
      using that by (auto simp: validate_proof_def split: if_splits)
    from ids show "length (pr_Members r) \<le> MaximumMembers" "pr_MemberCount r = of_nat (length (pr_Members r))"
      "pr_Schema r = 1" by simp_all
    from ids show "short (pr_EnvironmentID r)" "short (pr_AppliedRevisionID r)" "short (pr_ProducingTaskID r)"
      by (auto intro: id_short simp: kind_defs)
    show "list_all sized_member (pr_Members r)"
      using validate_proof_members_ok[OF ms] by (auto simp: list_all_iff intro: valid_member_sized)
  qed
  note p = parts[OF v(1)] and p' = parts[OF v'(1)]
  have fields: "pr_EnvironmentID r = pr_EnvironmentID r'" "pr_AppliedRevisionID r = pr_AppliedRevisionID r'"
    "pr_RenderGeneration r = pr_RenderGeneration r'" "pr_ProducingTaskID r = pr_ProducingTaskID r'"
    "pr_MemberCount r = pr_MemberCount r'"
    and members: "concat (map member_text (pr_Members r)) @ [] = concat (map member_text (pr_Members r')) @ []"
    using eq p(1-3,6) p'(1-3,6)
    by (simp_all add: canonical_encoding_def string_text_read u64_text_read u32_text_read)
  have "unat (of_nat n :: u32) = n" if "n \<le> MaximumMembers" for n
    using that by (simp add: unat_of_nat)
  then have "length (pr_Members r) = length (pr_Members r')" using p(4,5) p'(4,5) fields(5) by metis
  then have "pr_Members r = pr_Members r'"
    using concat_read[OF member_text_code _ p(7) p'(7), of "[]" "[]"] members by blast
  then show ?thesis
    using fields p(6) p'(6) v(2) v'(2) eq by (cases r; cases r') (simp add: canonical_digest_def)
qed

section \<open>Selection\<close>

lemma check_required_ok:
  "check_required u previous xs = Inr () \<longleftrightarrow>
     list_all (id_valid u KindConfig) xs \<and> distinct_adj xs \<and> (xs \<noteq> [] \<longrightarrow> previous \<noteq> Some (hd xs))"
proof (induction xs arbitrary: previous)
  case (Cons x xs)
  have step: "check_required u previous (x # xs) = Inr () \<longleftrightarrow>
      id_valid u KindConfig x \<and> previous \<noteq> Some x \<and> check_required u (Some x) xs = Inr ()" by auto
  have adj: "distinct_adj (x # xs) \<longleftrightarrow> distinct_adj xs \<and> (xs \<noteq> [] \<longrightarrow> x \<noteq> hd xs)" by (cases xs) auto
  show ?case unfolding step Cons.IH adj by auto
qed simp

lemma check_required_error: "check_required u previous xs = Inl e \<Longrightarrow> e = ValidationFailed"
  by (induction xs arbitrary: previous) (auto split: if_splits)

lemma member_map:
  "distinct (map pm_MaterializationID ms) \<Longrightarrow>
     foldl (\<lambda>known m. known(pm_MaterializationID m \<mapsto> m)) known0 ms x =
       (case find (\<lambda>m. pm_MaterializationID m = x) ms of None \<Rightarrow> known0 x | Some m \<Rightarrow> Some m)"
proof (induction ms arbitrary: known0)
  case (Cons m ms)
  have "find (\<lambda>m'. pm_MaterializationID m' = pm_MaterializationID m) ms = None"
    using Cons.prems by (simp add: find_None_iff) (metis image_eqI)
  with Cons show ?case by auto
qed simp

text \<open>With one record per Secret, the collection never meets an inconsistency.\<close>

lemma collect_secrets_ok:
  assumes "\<forall>s \<in> set ss. known (rs_SecretID s) = Some s" "\<forall>s \<in> set ts. known (rs_SecretID s) = Some s"
    "distinct (map rs_SecretID ts)"
  shows "\<exists>out. collect_secrets ts ss = Inr out \<and> set out = set ts \<union> set ss \<and> distinct (map rs_SecretID out)"
  using assms
proof (induction ss arbitrary: ts)
  case (Cons s ss)
  show ?case
  proof (cases "find (\<lambda>t. rs_SecretID t = rs_SecretID s) ts")
    case None
    then have "rs_SecretID s \<notin> set (map rs_SecretID ts)" by (auto simp: find_None_iff)
    with Cons.prems Cons.IH[of "ts @ [s]"] None show ?thesis by auto
  next
    case (Some t)
    then have "t \<in> set ts" "rs_SecretID t = rs_SecretID s" by (auto simp: find_Some_iff)
    with Cons.prems(1,2) have "t = s" by (metis list.set_intros(1) option.inject)
    with Cons.prems Cons.IH[of ts] Some \<open>t \<in> set ts\<close> show ?thesis by auto
  qed
qed simp

definition selectable :: "(string \<rightharpoonup> proof_member) \<Rightarrow> string \<Rightarrow> string \<Rightarrow> bool" where
  "selectable members target x \<longleftrightarrow>
     (\<exists>m. members x = Some m \<and> (pm_ServiceID m = [] \<or> pm_ServiceID m = target))"

lemma select_required_result:
  assumes "\<And>x m s. \<lbrakk>members x = Some m; s \<in> set (pm_ReusableSecrets m)\<rbrakk> \<Longrightarrow> known (rs_SecretID s) = Some s"
    "\<forall>s \<in> set ts. known (rs_SecretID s) = Some s" "distinct (map rs_SecretID ts)"
  shows "if list_all (selectable members target) xs
    then \<exists>out. select_required members target sel ts xs = Inr (sel @ map (the \<circ> members) xs, out) \<and>
      set out = set ts \<union> (\<Union>x \<in> set xs. set (pm_ReusableSecrets (the (members x)))) \<and> distinct (map rs_SecretID out)
    else select_required members target sel ts xs = Inl StateConflict"
  using assms(2,3)
proof (induction xs arbitrary: sel ts)
  case (Cons x xs)
  show ?case
  proof (cases "selectable members target x")
    case False
    then show ?thesis by (auto simp: selectable_def split: option.splits)
  next
    case True
    then obtain m where m: "members x = Some m" "pm_ServiceID m = [] \<or> pm_ServiceID m = target" by (auto simp: selectable_def)
    have "\<forall>s \<in> set (pm_ReusableSecrets m). known (rs_SecretID s) = Some s" using assms(1)[OF m(1)] by blast
    from collect_secrets_ok[OF this Cons.prems] obtain out where
      out: "collect_secrets ts (pm_ReusableSecrets m) = Inr out" "set out = set ts \<union> set (pm_ReusableSecrets m)"
        "distinct (map rs_SecretID out)" by blast
    have "\<forall>s \<in> set out. known (rs_SecretID s) = Some s" using out(2) Cons.prems(1) assms(1)[OF m(1)] by blast
    note rest = Cons.IH[OF this out(3), of "sel @ [m]"]
    show ?thesis
    proof (cases "list_all (selectable members target) xs")
      case all: True
      with rest obtain out' where "select_required members target (sel @ [m]) out xs =
          Inr ((sel @ [m]) @ map (the \<circ> members) xs, out')"
        "set out' = set out \<union> (\<Union>x \<in> set xs. set (pm_ReusableSecrets (the (members x))))"
        "distinct (map rs_SecretID out')" by auto
      then show ?thesis using True all m out by auto
    next
      case some: False
      then show ?thesis using rest m out(1) by auto
    qed
  qed
qed simp

text \<open>When a request is served: it names this proof, and the members of the target and of the request agree.\<close>

definition servable :: "ulid_check \<Rightarrow> proof_record \<Rightarrow> selection_request \<Rightarrow> bool" where
  "servable u p q \<longleftrightarrow>
     request_identity_ok u q \<and> request_matches p q \<and> distinct (sq_RequiredMaterializationIDs q) \<and>
     list_all (id_valid u KindConfig) (sq_RequiredMaterializationIDs q) \<and>
     (\<forall>x \<in> set (sq_RequiredMaterializationIDs q). \<exists>m \<in> set (pr_Members p). pm_MaterializationID m = x \<and>
        (pm_ServiceID m = [] \<or> pm_ServiceID m = sq_TargetServiceID q)) \<and>
     (\<forall>m \<in> set (pr_Members p). pm_ServiceID m = sq_TargetServiceID q \<longrightarrow>
        pm_MaterializationID m \<in> set (sq_RequiredMaterializationIDs q))"

lemma selection_result:
  assumes "restore_proof u r = Inr p"
  shows "if servable u p q
    then \<exists>ms ss. select_target_service u p q = Inr (ms, ss) \<and> set ms \<subseteq> set (pr_Members p) \<and>
      map pm_MaterializationID ms = sort (sq_RequiredMaterializationIDs q) \<and>
      sorted_wrt (<) (map rs_SecretID ss) \<and> set ss = (\<Union>m \<in> set ms. set (pm_ReusableSecrets m))
    else select_target_service u p q \<in> {Inl ValidationFailed, Inl StateConflict}"
proof -
  have p: "validate_proof u p True = Inr ()" using assms by (auto simp: restore_proof_def try_res_unit split: if_splits)
  then have "validate_proof_members u p True [] 0 Map.empty Map.empty [] (pr_Members p) = Inr ()"
    by (auto simp: validate_proof_def split: if_splits)
  note ok = validate_proof_members_ok[OF this]
  then have "sorted_wrt (<) (map pm_MaterializationID (pr_Members p))" by auto
  then have ids: "distinct (map pm_MaterializationID (pr_Members p))" by (simp add: strict_sorted_iff)
  from ok obtain known where known: "\<forall>m \<in> set (pr_Members p). \<forall>s \<in> set (pm_ReusableSecrets m). known (rs_SecretID s) = Some s"
    by blast
  define members where "members = foldl (\<lambda>known m. known(pm_MaterializationID m \<mapsto> m)) Map.empty (pr_Members p)"
  have find: "members x = find (\<lambda>m. pm_MaterializationID m = x) (pr_Members p)" for x
    using member_map[OF ids, of Map.empty x] by (simp add: members_def split: option.splits)
  have member: "members x = Some m \<longleftrightarrow> m \<in> set (pr_Members p) \<and> pm_MaterializationID m = x" for x m
  proof
    assume "members x = Some m"
    then show "m \<in> set (pr_Members p) \<and> pm_MaterializationID m = x" by (auto simp: find find_Some_iff)
  next
    assume m: "m \<in> set (pr_Members p) \<and> pm_MaterializationID m = x"
    then have "find (\<lambda>m. pm_MaterializationID m = x) (pr_Members p) \<noteq> None" by (auto simp: find_None_iff)
    then obtain n where n: "find (\<lambda>m. pm_MaterializationID m = x) (pr_Members p) = Some n" by auto
    then have "n \<in> set (pr_Members p)" "pm_MaterializationID n = x" by (auto simp: find_Some_iff)
    with m ids have "n = m" by (auto simp: distinct_map dest: inj_onD)
    with n show "members x = Some m" by (simp add: find)
  qed
  define required where "required = sort (sq_RequiredMaterializationIDs q)"
  define target where "target = sq_TargetServiceID q"
  have required: "set required = set (sq_RequiredMaterializationIDs q)"
    "distinct required \<longleftrightarrow> distinct (sq_RequiredMaterializationIDs q)"
    "distinct_adj required \<longleftrightarrow> distinct required"
    using sorted_distinct_adj[of required] distinct_distinct_adj[of required] by (auto simp: required_def)
  define unrequired where "unrequired \<longleftrightarrow> list_ex (\<lambda>m. pm_ServiceID m = target \<and> pm_MaterializationID m \<notin> set required)
    (pr_Members p)"
  have select: "select_target_service u p q =
     (if \<not> request_identity_ok u q then Inl ValidationFailed
      else if \<not> request_matches p q then Inl StateConflict
      else try_res (check_required u None required) (\<lambda>_.
             if unrequired then Inl StateConflict
             else try_res (select_required members target [] [] required)
                  (\<lambda>(selected, secrets). Inr (selected, sort_key rs_SecretID secrets))))"
    by (simp add: select_target_service_def Let_def required_def target_def members_def unrequired_def)
  have servable: "servable u p q \<longleftrightarrow> request_identity_ok u q \<and> request_matches p q \<and>
      check_required u None required = Inr () \<and> \<not> unrequired \<and> list_all (selectable members target) required"
    unfolding servable_def check_required_ok list_all_iff unrequired_def list_ex_iff selectable_def member
    using required by (auto simp: target_def)
  have consistent: "known (rs_SecretID s) = Some s" if "members x = Some m" "s \<in> set (pm_ReusableSecrets m)" for x m s
    using that known member by blast
  have chosen: "if list_all (selectable members target) required
    then \<exists>out. select_required members target [] [] required = Inr ([] @ map (the \<circ> members) required, out) \<and>
      set out = set [] \<union> (\<Union>x \<in> set required. set (pm_ReusableSecrets (the (members x)))) \<and> distinct (map rs_SecretID out)
    else select_required members target [] [] required = Inl StateConflict"
    by (rule select_required_result[of members known]) (use consistent in auto)
  show ?thesis
  proof (cases "servable u p q")
    case True
    then obtain out where out: "select_required members target [] [] required = Inr (map (the \<circ> members) required, out)"
      "set out = (\<Union>x \<in> set required. set (pm_ReusableSecrets (the (members x))))" "distinct (map rs_SecretID out)"
      using chosen servable by auto
    define ms where "ms = map (the \<circ> members) required"
    have found: "members x = Some (the (members x))" if "x \<in> set required" for x
      using that True servable by (auto simp: list_all_iff selectable_def)
    then have "set ms \<subseteq> set (pr_Members p)" "map pm_MaterializationID ms = required"
      by (auto simp: ms_def member intro!: map_idI)
    moreover have "select_target_service u p q = Inr (ms, sort_key rs_SecretID out)"
      using True servable out(1) by (simp add: select ms_def)
    moreover have "distinct (map rs_SecretID (sort_key rs_SecretID out))"
      using out(3) distinct_mset_eq by (metis mset_map mset_sort)
    then have "sorted_wrt (<) (map rs_SecretID (sort_key rs_SecretID out))" by (simp add: strict_sorted_iff)
    moreover have "set out = (\<Union>m \<in> set ms. set (pm_ReusableSecrets m))" by (simp add: ms_def out(2))
    ultimately show ?thesis using True by (simp add: required_def)
  next
    case False
    have "select_target_service u p q \<in> {Inl ValidationFailed, Inl StateConflict}"
    proof (cases "check_required u None required")
      case (Inl e)
      then show ?thesis using check_required_error[OF Inl] by (simp add: select)
    next
      case (Inr x)
      then have "check_required u None required = Inr ()" by simp
      then show ?thesis using False servable chosen by (auto simp: select)
    qed
    then show ?thesis using False by simp
  qed
qed

section \<open>Destinations\<close>

text \<open>
  All members are to resolve below the Environment directory, but the test of \<open>validateDestination\<close> knows no \<open>".."\<close>: a
  plain or secret file may be recorded at a path that climbs out of it.
\<close>

lemma climbing_destination_accepted:
  "validate_proof_destination ''../other'' = Inr ()" "validate_desired_destination ''../other'' = Inl ValidationFailed"
  by code_simp+

section \<open>Examples\<close>

definition example_secret :: reusable_secret where
  "example_secret = \<lparr>rs_SecretID = ex_id KindSecret (CHR ''1''), rs_MetadataRevision = 5, rs_CiphertextSHA256 = replicate 64 (CHR ''a'')\<rparr>"

definition example_entry :: "char \<Rightarrow> entry_generation" where
  "example_entry c = \<lparr>eg_EntryID = ex_id KindEnvEntry c, eg_GenerationID = ex_id KindConfig c, eg_Storage = EntryStoragePlain,
     eg_ValueSHA256 = replicate 64 (CHR ''b'')\<rparr>"

definition example_member :: "char \<Rightarrow> string \<Rightarrow> string \<Rightarrow> entry_generation list \<Rightarrow> proof_member" where
  "example_member c service destination entries =
     \<lparr>pm_MaterializationID = ex_id KindConfig c, pm_ServiceID = service, pm_ServiceName = [],
      pm_Destination = destination, pm_OutputKind = ProofPlainFile, pm_Outcome = OutcomePresent, pm_UID = 1000,
      pm_GID = 1000, pm_Mode = ModeReadOnly, pm_Length = 3, pm_ContentSHA256 = replicate 64 (CHR ''c''),
      pm_AbsenceOrOwnershipSHA256 = replicate 64 (CHR ''d''), pm_EntryGenerations = entries,
      pm_ReusableSecrets = [example_secret]\<rparr>"

definition example_input :: "proof_member list \<Rightarrow> proof_input" where
  "example_input ms =
     \<lparr>pi_EnvironmentID = ex_id KindEnvironment (CHR ''1''), pi_AppliedRevisionID = ex_id KindTask (CHR ''2''),
      pi_RenderGeneration = 4, pi_ProducingTaskID = ex_id KindTask (CHR ''3''), pi_Members = ms\<rparr>"

definition example_members :: "proof_member list" where
  "example_members =
     [example_member (CHR ''2'') (ex_id KindService (CHR ''7'')) ''b.conf'' [],
      example_member (CHR ''1'') [] ''a.conf'' [example_entry (CHR ''2''), example_entry (CHR ''1'')]]"


lemma example_order:
  "ex_id KindEnvEntry (CHR ''1'') < ex_id KindEnvEntry (CHR ''2'')" "ex_id KindConfig (CHR ''1'') < ex_id KindConfig (CHR ''2'')"
  by code_simp+

lemma example_parts:
  "validate_proof_destination ''a.conf'' = Inr ()" "validate_proof_destination ''b.conf'' = Inr ()"
  "sha256_hex (replicate 64 (CHR ''a''))" "sha256_hex (replicate 64 (CHR ''b''))" "sha256_hex (replicate 64 (CHR ''c''))"
  "sha256_hex (replicate 64 (CHR ''d''))"
  by code_simp+

lemma ex_id_nonempty: "ex_id k c \<noteq> []"
  by (simp add: ex_id_def)

lemmas example_proof_defs =
  example_input_def example_member_def example_entry_def example_secret_def validate_proof_def validate_member_def
  validate_output_def entry_generation_ok_def reusable_secret_ok_def proof_text_defs kind_defs ModeReadOnly_def

lemma example_new:
  "\<exists>p. new_proof crockford_ulid (example_input example_members) = Inr p \<and>
     map pm_MaterializationID (pr_Members p) = [ex_id KindConfig (CHR ''1''), ex_id KindConfig (CHR ''2'')] \<and>
     map pm_ServiceID (pr_Members p) = [[], ex_id KindService (CHR ''7'')] \<and>
     pr_EnvironmentID p = ex_id KindEnvironment (CHR ''1'') \<and> pr_AppliedRevisionID p = ex_id KindTask (CHR ''2'') \<and>
     pr_RenderGeneration p = 4 \<and> pr_ProducingTaskID p = ex_id KindTask (CHR ''3'')"
proof -
  define ms where "ms = [example_member (CHR ''1'') [] ''a.conf'' [example_entry (CHR ''1''), example_entry (CHR ''2'')],
    example_member (CHR ''2'') (ex_id KindService (CHR ''7'')) ''b.conf'' []]"
  have sorted: "sort_key pm_MaterializationID (map canonical_member example_members) = ms"
    using example_order
    by (simp add: ms_def example_members_def canonical_member_def example_member_def example_entry_def not_le)
  define r where "r = \<lparr>pr_Schema = 1, pr_EnvironmentID = ex_id KindEnvironment (CHR ''1''),
    pr_AppliedRevisionID = ex_id KindTask (CHR ''2''), pr_RenderGeneration = 4,
    pr_ProducingTaskID = ex_id KindTask (CHR ''3''), pr_MemberCount = 2, pr_CanonicalSHA256 = [], pr_Members = ms\<rparr>"
  have "validate_proof crockford_ulid r False = Inr ()"
    using example_order
    by (simp add: example_proof_defs example_parts ex_id_nonempty not_le less_imp_neq r_def ms_def)
  then have "new_proof crockford_ulid (example_input example_members) = Inr (r\<lparr>pr_CanonicalSHA256 := canonical_digest r\<rparr>)"
    using sorted by (simp add: new_proof_def Let_def canonicalize_proof_def example_input_def r_def ms_def)
  then show ?thesis by (simp add: r_def ms_def example_member_def)
qed

lemma example_empty: "\<exists>p. new_proof crockford_ulid (example_input []) = Inr p \<and> pr_Members p = []"
  by (simp add: new_proof_def Let_def canonicalize_proof_def example_proof_defs)

definition example_request :: "proof_record \<Rightarrow> selection_request" where
  "example_request p =
     \<lparr>sq_EnvironmentID = ex_id KindEnvironment (CHR ''1''), sq_AppliedRevisionID = ex_id KindTask (CHR ''2''),
      sq_RenderGeneration = 4, sq_ProducingTaskID = ex_id KindTask (CHR ''3''),
      sq_CanonicalSHA256 = pr_CanonicalSHA256 p, sq_TargetServiceID = ex_id KindService (CHR ''7''),
      sq_RequiredMaterializationIDs = [ex_id KindConfig (CHR ''2''), ex_id KindConfig (CHR ''1'')]\<rparr>"

section \<open>Properties\<close>

text \<open>C33. A materialisation proof has one form. \<open>New\<close> gives the same proof, or the same refusal, for every order of the
  members and of the sources within them; and what it builds is accepted by \<open>Restore\<close> and restored unchanged, although
  \<open>Restore\<close> normalises nothing and checks order, counts and digest.
\<close>

theorem proof_form_is_canonical:
  assumes "permuted_input i j"
  shows "new_proof u i = new_proof u j \<and> (\<forall>p. new_proof u i = Inr p \<longrightarrow> restore_proof u p = Inr p)"
proof (cases "new_proof u i")
  case (Inr p)
  then show ?thesis using new_proof_permuted[OF Inr assms] new_proof_restored by auto
next
  case (Inl e)
  then have "new_proof u j \<noteq> Inr p" for p using new_proof_permuted[OF _ permuted_input_sym[OF assms]] by fastforce
  then obtain e' where e': "new_proof u j = Inl e'" by (cases "new_proof u j") auto
  show ?thesis using Inl e' new_proof_error[OF Inl] new_proof_error[OF e'] by simp
qed

lemma example_permuted: "permuted_input (example_input example_members) (example_input (rev example_members))"
proof -
  have "list_all2 permuted_member example_members example_members"
    by (rule list_all2_refl) (simp add: permuted_member_def)
  then show ?thesis
    unfolding permuted_input_def by (intro conjI exI[of _ example_members]) (simp_all add: example_input_def)
qed

lemma proof_form_is_canonical_witness:
  "\<exists>p. new_proof crockford_ulid (example_input example_members) = Inr p \<and>
     new_proof crockford_ulid (example_input (rev example_members)) = Inr p \<and> restore_proof crockford_ulid p = Inr p"
proof -
  obtain p where p: "new_proof crockford_ulid (example_input example_members) = Inr p" using example_new by blast
  have "new_proof crockford_ulid (example_input example_members) =
      new_proof crockford_ulid (example_input (rev example_members)) \<and>
    (\<forall>p. new_proof crockford_ulid (example_input example_members) = Inr p \<longrightarrow> restore_proof crockford_ulid p = Inr p)"
    by (rule proof_form_is_canonical[OF example_permuted])
  with p show ?thesis by metis
qed

text \<open>C32. The digest of a proof covers all of it: two records that \<open>Restore\<close> accepts and that differ in any field of any
  member or source, in their order or number, have different texts under the digest. So no two accepted records share a
  digest unless SHA-256 has a collision on them.
\<close>

theorem canonical_encoding_injective:
  assumes "restore_proof u r = Inr p" "restore_proof u r' = Inr p'" "r \<noteq> r'"
  shows "canonical_encoding r \<noteq> canonical_encoding r'"
  using encoding_determines_record[OF assms(1,2)] assms(3) by blast

lemma canonical_encoding_injective_witness:
  "\<exists>p q. new_proof crockford_ulid (example_input example_members) = Inr p \<and>
     new_proof crockford_ulid (example_input []) = Inr q \<and> canonical_encoding p \<noteq> canonical_encoding q"
proof -
  obtain p where p: "new_proof crockford_ulid (example_input example_members) = Inr p"
    "map pm_MaterializationID (pr_Members p) \<noteq> []" using example_new by auto
  obtain q where q: "new_proof crockford_ulid (example_input []) = Inr q" "pr_Members q = []" using example_empty by blast
  have "p \<noteq> q" using p(2) q(2) by auto
  from canonical_encoding_injective[OF new_proof_restored[OF p(1)] new_proof_restored[OF q(1)] this] p(1) q(1)
  show ?thesis by blast
qed

text \<open>C34. Selection is exact. From an accepted proof, \<open>SelectTargetService\<close> serves precisely the requests that name this
  proof, repeat no id, find every required member shared or bound to the target, and leave out no member of the target.
  It then returns the required members in the order of their ids, and each Secret of theirs once, in the order of ids.
  Every other request is refused as invalid or conflicting; the internal error for inconsistent Secrets is never reached.
\<close>

theorem selection_is_exact:
  assumes "restore_proof u r = Inr p"
  shows "if servable u p q
    then \<exists>ms ss. select_target_service u p q = Inr (ms, ss) \<and> set ms \<subseteq> set (pr_Members p) \<and>
      map pm_MaterializationID ms = sort (sq_RequiredMaterializationIDs q) \<and>
      sorted_wrt (<) (map rs_SecretID ss) \<and> set ss = (\<Union>m \<in> set ms. set (pm_ReusableSecrets m))
    else select_target_service u p q \<in> {Inl ValidationFailed, Inl StateConflict}"
  by (rule selection_result[OF assms])

lemma selection_is_exact_witness:
  "\<exists>p ms ss. new_proof crockford_ulid (example_input example_members) = Inr p \<and>
     select_target_service crockford_ulid p (example_request p) = Inr (ms, ss) \<and>
     map pm_MaterializationID ms = [ex_id KindConfig (CHR ''1''), ex_id KindConfig (CHR ''2'')]"
proof -
  obtain p where p: "new_proof crockford_ulid (example_input example_members) = Inr p"
    "map pm_MaterializationID (pr_Members p) = [ex_id KindConfig (CHR ''1''), ex_id KindConfig (CHR ''2'')]"
    "map pm_ServiceID (pr_Members p) = [[], ex_id KindService (CHR ''7'')]"
    "pr_EnvironmentID p = ex_id KindEnvironment (CHR ''1'')" "pr_AppliedRevisionID p = ex_id KindTask (CHR ''2'')"
    "pr_RenderGeneration p = 4" "pr_ProducingTaskID p = ex_id KindTask (CHR ''3'')"
    using example_new by (elim exE conjE) (rule that)
  obtain a b where ab: "pr_Members p = [a, b]" using p(2) by (auto simp: map_eq_Cons_conv)
  have "sha256_hex (pr_CanonicalSHA256 p)"
    using new_proof_restored[OF p(1)] by (auto simp: restore_proof_def try_res_unit validate_proof_def split: if_splits)
  then have "servable crockford_ulid p (example_request p)"
  proof -
    have "pm_MaterializationID a = ex_id KindConfig (CHR ''1'')" "pm_MaterializationID b = ex_id KindConfig (CHR ''2'')"
      "pm_ServiceID a = []" "pm_ServiceID b = ex_id KindService (CHR ''7'')"
      using p(2,3) ab by simp_all
    then show ?thesis
      using \<open>sha256_hex (pr_CanonicalSHA256 p)\<close> p(4-7) ab
      by (simp add: servable_def request_identity_ok_def request_matches_def example_request_def kind_defs)
  qed
  moreover have "sort (sq_RequiredMaterializationIDs (example_request p)) =
      [ex_id KindConfig (CHR ''1''), ex_id KindConfig (CHR ''2'')]"
    using example_order by (simp add: example_request_def not_le)
  ultimately show ?thesis
    using selection_is_exact[OF new_proof_restored[OF p(1)], of "example_request p"] p(1) by auto
qed

end
