(* ===== verification/QueueStore.thy ===== *)
theory QueueStore
  imports WorkTask
begin

text \<open>
  The storage interface of the work queue (\<open>internal/infra/etcd/keyvalue/contract.go\<close>), the records stored through it
  (\<open>internal/infra/etcd/workqueue/records.go\<close>) and the composition of a transaction (\<open>commit.go\<close>).

  A record is stored as a versioned JSON envelope that names its kind; \<open>stored\<close> has one constructor per kind, so
  decoding under the wrong kind is a failed match. The size of an envelope, which \<open>encode\<close> bounds, is the field
  \<open>env_Size\<close> of \<open>queue_env\<close>, with the ULID syntax check and the random id of an alert event.

  etcd itself is not part of the repository. The locale \<open>mvcc_store\<close> states what the queue relies on: a transaction
  applies its writes exactly when every comparison holds, and a past revision never changes. The model behind it is
  the repository's own multi-version store, \<open>memoryHierarchyStore\<close> of \<open>internal/infra/etcd/hierarchy_test.go\<close>.
\<close>

section \<open>Stored records\<close>

record executor_record =
  ex_Identity :: identity
  ex_ProcessGeneration :: "128 word"
  ex_Ready :: bool
  ex_Capacity :: u16
  ex_Operations :: "operation list"
  ex_Unavailable :: "operation list"

record claim_owner =
  ow_TaskID :: string
  ow_WorkItemID :: string

record worker_slot =
  sl_TaskID :: string
  sl_WorkItemID :: string
  sl_AttemptID :: string

record task_reservation =
  tr_TaskID :: string
  tr_Intent :: input
  tr_Claim :: claim

record work_checkpoint =
  cp_AttemptID :: string
  cp_Sequence :: u64
  cp_StageID :: string
  cp_Evidence :: input
  cp_RecordedAt :: gotime

record alert_event =
  ae_ID :: string
  ae_Scope :: string
  ae_TaskID :: string
  ae_Target :: string
  ae_Action :: action
  ae_Status :: string
  ae_At :: gotime
  ae_Generation :: string
  ae_Attempts :: int
  ae_NextAttempt :: gotime

datatype stored =
    EmptyBytes
  | StItem item
  | StAttempt attempt
  | StTask task
  | StExecutor executor_record
  | StSlot worker_slot
  | StClaim claim_owner
  | StOwner claim_owner
  | StHostEffect claim_owner
  | StReservation task_reservation
  | StCheckpoint work_checkpoint
  | StStopCursor string string
  | StReplay string
  | StAlert alert_event
  | StBytes string

record queue_env =
  env_Ulid :: ulid_check
  env_Size :: "stored \<Rightarrow> nat"
  env_AlertID :: string

definition maximum_stored_bytes :: nat where "maximum_stored_bytes = 65536"

text \<open>\<open>encode\<close>: the envelope, within the storage bound.\<close>

definition encode_stored :: "queue_env \<Rightarrow> stored \<Rightarrow> stored res" where
  "encode_stored e v = (if maximum_stored_bytes < env_Size e v then Inl ValidationFailed else Inr v)"

lemma encode_stored_Inr [simp]: "encode_stored e v = Inr w \<longleftrightarrow> env_Size e v \<le> maximum_stored_bytes \<and> w = v"
  by (auto simp: encode_stored_def)

section \<open>Transactions\<close>

record condition =
  cn_Key :: string
  cn_ModRevision :: int
  cn_Prefix :: bool

datatype mutation_type = MutationPut | MutationDelete | MutationTypeOther nat

record mutation =
  mu_Type :: mutation_type
  mu_Key :: string
  mu_Value :: stored
  mu_Prefix :: bool

record change =
  ch_Conditions :: "condition list"
  ch_Mutations :: "mutation list"

abbreviation cond :: "string \<Rightarrow> int \<Rightarrow> condition" where
  "cond k r \<equiv> \<lparr>cn_Key = k, cn_ModRevision = r, cn_Prefix = False\<rparr>"

abbreviation no_key :: "string \<Rightarrow> condition" where
  "no_key k \<equiv> cond k 0"

abbreviation put :: "string \<Rightarrow> stored \<Rightarrow> mutation" where
  "put k v \<equiv> \<lparr>mu_Type = MutationPut, mu_Key = k, mu_Value = v, mu_Prefix = False\<rparr>"

abbreviation del :: "string \<Rightarrow> mutation" where
  "del k \<equiv> \<lparr>mu_Type = MutationDelete, mu_Key = k, mu_Value = EmptyBytes, mu_Prefix = False\<rparr>"

definition with_parts :: "change \<Rightarrow> condition list \<Rightarrow> mutation list \<Rightarrow> change" where
  "with_parts ch cs ms = \<lparr>ch_Conditions = ch_Conditions ch @ cs, ch_Mutations = ch_Mutations ch @ ms\<rparr>"

lemma with_parts_simps [simp]:
  "ch_Conditions (with_parts ch cs ms) = ch_Conditions ch @ cs" "ch_Mutations (with_parts ch cs ms) = ch_Mutations ch @ ms"
  by (simp_all add: with_parts_def)

text \<open>
  \<open>JoinChanges\<close>: one copy of identical comparisons; two revisions of one key, two writes of one key or a write under
  a deleted prefix are refused. The map of seen revisions holds exactly the comparisons already joined.
\<close>

fun join_conditions :: "condition list \<Rightarrow> condition list \<Rightarrow> condition list res" where
  "join_conditions [] joined = Inr joined"
| "join_conditions (c # cs) joined =
     (if cn_Key c = [] \<or> cn_ModRevision c < 0 \<or> cn_Prefix c \<and> cn_ModRevision c \<noteq> 0 then Inl ValidationFailed
      else if \<not> cn_Prefix c \<and>
              list_ex (\<lambda>d. \<not> cn_Prefix d \<and> cn_Key d = cn_Key c \<and> cn_ModRevision d \<noteq> cn_ModRevision c) joined
        then Inl ValidationFailed
      else join_conditions cs (if c \<in> set joined then joined else joined @ [c]))"

definition mutation_invalid :: "mutation \<Rightarrow> bool" where
  "mutation_invalid m \<longleftrightarrow>
     mu_Key m = [] \<or> mu_Type m \<noteq> MutationPut \<and> mu_Type m \<noteq> MutationDelete \<or>
     mu_Type m = MutationPut \<and> mu_Prefix m \<or> mu_Type m = MutationDelete \<and> mu_Value m \<noteq> EmptyBytes"

definition writes_overlap :: "mutation \<Rightarrow> mutation \<Rightarrow> bool" where
  "writes_overlap p m \<longleftrightarrow>
     mu_Key p = mu_Key m \<or> mu_Prefix p \<and> has_prefix (mu_Key p) (mu_Key m) \<or>
     mu_Prefix m \<and> has_prefix (mu_Key m) (mu_Key p)"

fun join_mutations :: "mutation list \<Rightarrow> mutation list \<Rightarrow> mutation list res" where
  "join_mutations [] joined = Inr joined"
| "join_mutations (m # ms) joined =
     (if mutation_invalid m then Inl ValidationFailed
      else if list_ex (\<lambda>p. writes_overlap p m) joined then Inl ValidationFailed
      else join_mutations ms (joined @ [m]))"

fun join_from :: "change list \<Rightarrow> change \<Rightarrow> change res" where
  "join_from [] joined = Inr joined"
| "join_from (ch # chs) joined =
     try_res (join_conditions (ch_Conditions ch) (ch_Conditions joined)) (\<lambda>cs.
     try_res (join_mutations (ch_Mutations ch) (ch_Mutations joined)) (\<lambda>ms.
     join_from chs \<lparr>ch_Conditions = cs, ch_Mutations = ms\<rparr>))"

definition join_changes :: "change list \<Rightarrow> change res" where
  "join_changes chs =
     try_res (join_from chs \<lparr>ch_Conditions = [], ch_Mutations = []\<rparr>) (\<lambda>joined.
     if ch_Conditions joined = [] \<or> ch_Mutations joined = [] then Inl ValidationFailed else Inr joined)"

section \<open>The joined transaction\<close>

lemma join_conditions_set:
  "join_conditions cs joined = Inr out \<Longrightarrow> set out = set joined \<union> set cs"
  by (induction cs joined rule: join_conditions.induct) (auto split: if_splits)

lemma join_mutations_append:
  "join_mutations ms joined = Inr out \<Longrightarrow> out = joined @ ms \<and> list_all (\<lambda>m. \<not> mutation_invalid m) ms"
  by (induction ms joined rule: join_mutations.induct) (auto split: if_splits)

definition exclusive_writes :: "mutation list \<Rightarrow> bool" where
  "exclusive_writes ms \<longleftrightarrow> sorted_wrt (\<lambda>p m. \<not> writes_overlap p m) ms"

lemma join_mutations_exclusive:
  "join_mutations ms joined = Inr out \<Longrightarrow> exclusive_writes joined \<Longrightarrow> exclusive_writes out"
  by (induction ms joined rule: join_mutations.induct)
    (auto simp: exclusive_writes_def sorted_wrt_append list_ex_iff split: if_splits)

lemma join_from_parts:
  "join_from chs joined = Inr out \<Longrightarrow>
     set (ch_Conditions out) = set (ch_Conditions joined) \<union> (\<Union>ch \<in> set chs. set (ch_Conditions ch)) \<and>
     ch_Mutations out = ch_Mutations joined @ concat (map ch_Mutations chs) \<and>
     (exclusive_writes (ch_Mutations joined) \<longrightarrow> exclusive_writes (ch_Mutations out)) \<and>
     (list_all (\<lambda>m. \<not> mutation_invalid m) (ch_Mutations joined) \<longrightarrow>
        list_all (\<lambda>m. \<not> mutation_invalid m) (ch_Mutations out))"
proof (induction chs joined rule: join_from.induct)
  case (2 ch chs joined)
  then obtain cs ms where j: "join_conditions (ch_Conditions ch) (ch_Conditions joined) = Inr cs"
    "join_mutations (ch_Mutations ch) (ch_Mutations joined) = Inr ms"
    "join_from chs \<lparr>ch_Conditions = cs, ch_Mutations = ms\<rparr> = Inr out" by auto
  with "2.IH"[OF j(3)] join_conditions_set[OF j(1)] join_mutations_append[OF j(2)]
    join_mutations_exclusive[OF j(2)] show ?case by auto
qed simp

lemma join_changes_parts:
  assumes "join_changes chs = Inr out"
  shows "set (ch_Conditions out) = (\<Union>ch \<in> set chs. set (ch_Conditions ch))"
    "ch_Mutations out = concat (map ch_Mutations chs)" "exclusive_writes (ch_Mutations out)"
    "list_all (\<lambda>m. \<not> mutation_invalid m) (ch_Mutations out)"
  using assms join_from_parts[of chs "\<lparr>ch_Conditions = [], ch_Mutations = []\<rparr>" out]
  by (auto simp: join_changes_def exclusive_writes_def split: if_splits)

section \<open>A multi-version store\<close>

text \<open>
  The version list of every key, flattened into one log with the newest version first; a version is a key, the
  revision that wrote it and the value, \<open>None\<close> for a deletion.
\<close>

record kv_store =
  st_Revision :: int
  st_Log :: "(string \<times> int \<times> stored option) list"

definition value_at :: "kv_store \<Rightarrow> string \<Rightarrow> int \<Rightarrow> (int \<times> stored) option" where
  "value_at s k r =
     (case find (\<lambda>(k', m, v). k' = k \<and> m \<le> r) (st_Log s) of
        Some (k', m, Some v) \<Rightarrow> Some (m, v)
      | _ \<Rightarrow> None)"

definition mod_of :: "(int \<times> stored) option \<Rightarrow> int" where
  "mod_of x = (case x of None \<Rightarrow> 0 | Some (m, v) \<Rightarrow> m)"

text \<open>\<open>conditionValue\<close>: the key itself, or the smallest present key under the prefix.\<close>

definition condition_value :: "kv_store \<Rightarrow> condition \<Rightarrow> (int \<times> stored) option" where
  "condition_value s c =
     (if \<not> cn_Prefix c then value_at s (cn_Key c) (st_Revision s)
      else case find (\<lambda>k. value_at s k (st_Revision s) \<noteq> None)
                  (sort (filter (has_prefix (cn_Key c)) (remdups (map fst (st_Log s))))) of
             None \<Rightarrow> None
           | Some k \<Rightarrow> value_at s k (st_Revision s))"

definition condition_holds :: "kv_store \<Rightarrow> condition \<Rightarrow> bool" where
  "condition_holds s c \<longleftrightarrow> mod_of (condition_value s c) = cn_ModRevision c"

text \<open>\<open>Transact\<close> fails on a mutation of another type, which \<open>join_changes\<close> excludes; here it adds no version.\<close>

definition write_mutation ::
  "int \<Rightarrow> mutation \<Rightarrow> (string \<times> int \<times> stored option) list \<Rightarrow> (string \<times> int \<times> stored option) list" where
  "write_mutation r m log =
     (if mu_Type m = MutationDelete \<and> mu_Prefix m
      then map (\<lambda>k. (k, r, None)) (filter (has_prefix (mu_Key m)) (remdups (map fst log))) @ log
      else case mu_Type m of
             MutationPut \<Rightarrow> (mu_Key m, r, Some (mu_Value m)) # log
           | MutationDelete \<Rightarrow> (mu_Key m, r, None) # log
           | MutationTypeOther n \<Rightarrow> log)"

definition transact :: "kv_store \<Rightarrow> condition list \<Rightarrow> mutation list \<Rightarrow> bool \<times> kv_store" where
  "transact s cs ms =
     (if list_all (condition_holds s) cs
      then (True, s\<lparr>st_Revision := st_Revision s + 1,
                    st_Log := fold (write_mutation (st_Revision s + 1)) ms (st_Log s)\<rparr>)
      else (False, s))"

definition log_ok :: "kv_store \<Rightarrow> bool" where
  "log_ok s \<longleftrightarrow> 0 \<le> st_Revision s \<and> list_all (\<lambda>(k, m, v). 0 < m \<and> m \<le> st_Revision s) (st_Log s)"

definition empty_store :: kv_store where
  "empty_store = \<lparr>st_Revision = 1, st_Log = []\<rparr>"

text \<open>What one mutation list does to one key: nothing, a deletion or a value.\<close>

definition touches :: "string \<Rightarrow> mutation \<Rightarrow> bool" where
  "touches k m \<longleftrightarrow> mu_Key m = k \<or> mu_Type m = MutationDelete \<and> mu_Prefix m \<and> has_prefix (mu_Key m) k"

definition write_of :: "mutation list \<Rightarrow> string \<Rightarrow> stored option option" where
  "write_of ms k =
     map_option (\<lambda>m. if mu_Type m = MutationPut then Some (mu_Value m) else None) (find (touches k) (rev ms))"

section \<open>What the queue relies on\<close>

locale mvcc_store =
  fixes revision :: "'s \<Rightarrow> int"
    and lookup_at :: "'s \<Rightarrow> string \<Rightarrow> int \<Rightarrow> (int \<times> stored) option"
    and txn :: "'s \<Rightarrow> condition list \<Rightarrow> mutation list \<Rightarrow> bool \<times> 's"
    and good :: "'s \<Rightarrow> bool"
  assumes version_positive: "good s \<Longrightarrow> lookup_at s k r = Some (m, v) \<Longrightarrow> 0 < m \<and> m \<le> r"
    and version_value: "lookup_at s k r = Some (m, v) \<Longrightarrow> lookup_at s k m = Some (m, v)"
    and refused: "txn s cs ms = (False, s') \<Longrightarrow> s' = s"
    and compared: "txn s cs ms = (True, s') \<Longrightarrow> c \<in> set cs \<Longrightarrow> \<not> cn_Prefix c \<Longrightarrow>
      mod_of (lookup_at s (cn_Key c) (revision s)) = cn_ModRevision c"
    and advanced: "txn s cs ms = (True, s') \<Longrightarrow> revision s' = revision s + 1"
    and past_kept: "txn s cs ms = (b, s') \<Longrightarrow> r \<le> revision s \<Longrightarrow> lookup_at s' k r = lookup_at s k r"
    and written: "good s \<Longrightarrow> txn s cs ms = (True, s') \<Longrightarrow> list_all (\<lambda>m. \<not> mutation_invalid m) ms \<Longrightarrow>
      lookup_at s' k (revision s') =
        (case write_of ms k of
           None \<Rightarrow> lookup_at s k (revision s)
         | Some None \<Rightarrow> None
         | Some (Some v) \<Rightarrow> Some (revision s', v))"
    and good_kept: "good s \<Longrightarrow> txn s cs ms = (b, s') \<Longrightarrow> good s'"
begin

text \<open>
  Optimistic concurrency: a value read at any past revision is the current value when its revision passes the
  comparison of a committing transaction, and a key read as missing is missing.
\<close>

lemma snapshot_is_current:
  assumes "txn s cs ms = (True, s')" "good s" "cond k m \<in> set cs" "lookup_at s k r = Some (m, v)"
  shows "lookup_at s k (revision s) = Some (m, v)"
proof -
  from assms(2,4) have "0 < m" using version_positive by blast
  moreover have "mod_of (lookup_at s k (revision s)) = m" using compared[OF assms(1,3)] by simp
  ultimately obtain w where w: "lookup_at s k (revision s) = Some (m, w)"
    by (cases "lookup_at s k (revision s)") (auto simp: mod_of_def)
  with version_value[OF w] version_value[OF assms(4)] show ?thesis by simp
qed

lemma missing_is_current:
  assumes "txn s cs ms = (True, s')" "good s" "no_key k \<in> set cs"
  shows "lookup_at s k (revision s) = None"
proof (cases "lookup_at s k (revision s)")
  case (Some x)
  then obtain m v where x: "lookup_at s k (revision s) = Some (m, v)" by (cases x) auto
  with assms(2) have "0 < m" using version_positive by blast
  moreover have "mod_of (lookup_at s k (revision s)) = 0" using compared[OF assms(1,3)] by simp
  ultimately show ?thesis using x by (simp add: mod_of_def)
qed

end

section \<open>The memory store keeps the laws\<close>

lemma find_older:
  fixes log :: "(string \<times> int \<times> stored option) list"
  assumes "find (\<lambda>(k', m, v). k' = k \<and> m \<le> r) log = Some (k', m, v)"
  shows "k' = k" "m \<le> r" "(k', m, v) \<in> set log"
  using assms by (induction log) (auto split: if_splits)

lemma find_own_version:
  "find (\<lambda>(k', m, v). k' = k \<and> m \<le> r) (log :: (string \<times> int \<times> stored option) list) = Some (k', m, v) \<Longrightarrow>
   find (\<lambda>(k', m', v). k' = k \<and> m' \<le> m) log = Some (k', m, v)"
proof (induction log)
  case (Cons x log)
  obtain a b c where x: "x = (a, b, c)" by (cases x) auto
  from Cons.prems have "m \<le> r" by (rule find_older(2))
  with Cons x show ?case by (auto split: if_splits)
qed simp

lemma value_at_Some:
  assumes "value_at s k r = Some (m, v)"
  shows "m \<le> r" "(k, m, Some v) \<in> set (st_Log s)" "value_at s k m = Some (m, v)"
proof -
  from assms obtain k' where f: "find (\<lambda>(k', m, v). k' = k \<and> m \<le> r) (st_Log s) = Some (k', m, Some v)"
    unfolding value_at_def by (auto split: option.splits)
  note o = find_older[OF f]
  from o show "m \<le> r" "(k, m, Some v) \<in> set (st_Log s)" by simp_all
  from find_own_version[OF f] o show "value_at s k m = Some (m, v)" by (simp add: value_at_def)
qed

text \<open>The versions one mutation adds all carry the new revision, so older revisions do not see them.\<close>

lemma write_mutation_added:
  "\<exists>new. write_mutation r m log = new @ log \<and> (\<forall>(k, r', v) \<in> set new. r' = r)"
  by (cases "mu_Type m") (auto simp: write_mutation_def)

lemma fold_write_added:
  "\<exists>new. fold (write_mutation r) ms log = new @ log \<and> (\<forall>(k, r', v) \<in> set new. r' = r)"
proof (induction ms arbitrary: log)
  case (Cons m ms)
  obtain a where a: "write_mutation r m log = a @ log" "\<forall>(k, r', v) \<in> set a. r' = r"
    using write_mutation_added by blast
  obtain b where "fold (write_mutation r) ms (a @ log) = b @ a @ log" "\<forall>(k, r', v) \<in> set b. r' = r"
    using Cons[of "a @ log"] by auto
  with a show ?case by (intro exI[of _ "b @ a"]) auto
qed simp

lemma find_skip: "(\<forall>x \<in> set new. \<not> P x) \<Longrightarrow> find P (new @ log) = find P log"
  by (induction new) auto

text \<open>The first version of a key, unless it is a deletion.\<close>

definition live :: "(string \<times> int \<times> stored option) option \<Rightarrow> (int \<times> stored) option" where
  "live x = (case x of Some (k, m, Some v) \<Rightarrow> Some (m, v) | _ \<Rightarrow> None)"

lemma live_simps [simp]: "live None = None" "live (Some (k, m, None)) = None" "live (Some (k, m, Some v)) = Some (m, v)"
  by (simp_all add: live_def)

definition latest_version :: "string \<Rightarrow> (string \<times> int \<times> stored option) list \<Rightarrow> (int \<times> stored) option" where
  "latest_version k log = live (find (\<lambda>x. fst x = k) log)"

lemma latest_append:
  "latest_version k (xs @ ys) = (case find (\<lambda>x. fst x = k) xs of None \<Rightarrow> latest_version k ys | Some x \<Rightarrow> live (Some x))"
  by (induction xs) (auto simp: latest_version_def)

lemma latest_unknown: "k \<notin> fst ` set log \<Longrightarrow> latest_version k log = None"
  by (induction log) (auto simp: latest_version_def)

lemma find_tombstone:
  "find (\<lambda>x. fst x = k) (map (\<lambda>k. (k, r, None)) ks) = (if k \<in> set ks then Some (k, r, None) else None)"
  by (induction ks) auto

lemma latest_write_mutation:
  assumes "\<not> mutation_invalid m"
  shows "latest_version k (write_mutation r m log) =
    (if touches k m then (if mu_Type m = MutationPut then Some (r, mu_Value m) else None) else latest_version k log)"
proof (cases "mu_Type m = MutationDelete \<and> mu_Prefix m")
  case True
  then have "k = mu_Key m \<Longrightarrow> has_prefix (mu_Key m) k" by (simp add: has_prefix_def)
  moreover have "latest_version k log = None" if "k \<notin> fst ` set log" using that by (rule latest_unknown)
  ultimately show ?thesis using True
    by (auto simp: write_mutation_def touches_def latest_append find_tombstone)
next
  case False
  then show ?thesis using assms
    by (cases "mu_Type m") (auto simp: write_mutation_def touches_def latest_version_def mutation_invalid_def)
qed

lemma write_of_Nil [simp]: "write_of [] k = None"
  by (simp add: write_of_def)

lemma write_of_snoc:
  "write_of (ms @ [m]) k =
     (if touches k m then Some (if mu_Type m = MutationPut then Some (mu_Value m) else None) else write_of ms k)"
  by (simp add: write_of_def)

lemma latest_fold_write:
  assumes "list_all (\<lambda>m. \<not> mutation_invalid m) ms"
  shows "latest_version k (fold (write_mutation r) ms log) =
    (case write_of ms k of None \<Rightarrow> latest_version k log | Some v \<Rightarrow> map_option (\<lambda>v. (r, v)) v)"
  using assms by (induction ms rule: rev_induct) (auto simp: latest_write_mutation write_of_snoc)

text \<open>At the current revision the first version of a key decides.\<close>

lemma value_at_latest:
  assumes "log_ok s"
  shows "value_at s k (st_Revision s) = latest_version k (st_Log s)"
proof -
  have "find (\<lambda>(k', m, v). k' = k \<and> m \<le> st_Revision s) log = find (\<lambda>x. fst x = k) log"
    if "\<forall>(k, m, v) \<in> set log. m \<le> st_Revision s" for log :: "(string \<times> int \<times> stored option) list"
    using that by (induction log) auto
  moreover have "\<forall>(k, m, v) \<in> set (st_Log s). m \<le> st_Revision s"
    using assms by (auto simp: log_ok_def list_all_iff)
  ultimately show ?thesis by (simp add: value_at_def latest_version_def live_def)
qed

lemma transact_success:
  "transact s cs ms = (True, s') \<longleftrightarrow>
     list_all (condition_holds s) cs \<and>
     s' = s\<lparr>st_Revision := st_Revision s + 1, st_Log := fold (write_mutation (st_Revision s + 1)) ms (st_Log s)\<rparr>"
  by (auto simp: transact_def)

lemma transact_refused: "transact s cs ms = (False, s') \<Longrightarrow> s' = s"
  by (auto simp: transact_def split: if_splits)

lemma transact_log:
  assumes "transact s cs ms = (b, s')"
  obtains new where "st_Log s' = new @ st_Log s" "\<forall>(k, r, v) \<in> set new. r = st_Revision s + 1"
    "st_Revision s \<le> st_Revision s'" "new \<noteq> [] \<longrightarrow> st_Revision s' = st_Revision s + 1"
proof (cases b)
  case True
  with assms fold_write_added[of "st_Revision s + 1" ms "st_Log s"] that show thesis
    by (auto simp: transact_success)
next
  case False
  with assms have "s' = s" by (auto dest: transact_refused)
  with that[of "[]"] show thesis by simp
qed

lemma transact_past:
  assumes "transact s cs ms = (b, s')" "r \<le> st_Revision s"
  shows "value_at s' k r = value_at s k r"
proof -
  obtain new where new: "st_Log s' = new @ st_Log s" "\<forall>(k, r, v) \<in> set new. r = st_Revision s + 1"
    using assms(1) by (rule transact_log)
  have "find (\<lambda>(k', m, v). k' = k \<and> m \<le> r) (new @ st_Log s) = find (\<lambda>(k', m, v). k' = k \<and> m \<le> r) (st_Log s)"
    by (rule find_skip) (use new(2) assms(2) in auto)
  with new(1) show ?thesis by (simp add: value_at_def)
qed

lemma transact_keeps_log:
  assumes "log_ok s" "transact s cs ms = (b, s')"
  shows "log_ok s'"
proof -
  obtain new where "st_Log s' = new @ st_Log s" "\<forall>(k, r, v) \<in> set new. r = st_Revision s + 1"
    "st_Revision s \<le> st_Revision s'" "new \<noteq> [] \<longrightarrow> st_Revision s' = st_Revision s + 1"
    using assms(2) by (rule transact_log)
  with assms(1) show ?thesis by (fastforce simp: log_ok_def list_all_iff)
qed

lemma transact_written:
  assumes "log_ok s" "transact s cs ms = (True, s')" "list_all (\<lambda>m. \<not> mutation_invalid m) ms"
  shows "value_at s' k (st_Revision s') =
    (case write_of ms k of None \<Rightarrow> value_at s k (st_Revision s) | Some None \<Rightarrow> None
     | Some (Some v) \<Rightarrow> Some (st_Revision s', v))"
  using latest_fold_write[OF assms(3), of k "st_Revision s + 1" "st_Log s"] assms(2)
  unfolding value_at_latest[OF assms(1)] value_at_latest[OF transact_keeps_log[OF assms(1,2)]]
  by (auto simp: transact_success split: option.splits)

interpretation mem: mvcc_store st_Revision value_at transact log_ok
proof (unfold_locales, goal_cases)
  case (1 s k r m v)
  then show ?case using value_at_Some(1,2)[OF 1(2)] by (auto simp: log_ok_def list_all_iff)
next
  case (2 s k r m v)
  then show ?case by (rule value_at_Some(3))
next
  case (3 s cs ms s')
  then show ?case by (rule transact_refused)
next
  case (4 s cs ms s' c)
  then show ?case by (auto simp: transact_success list_all_iff condition_holds_def condition_value_def)
next
  case (5 s cs ms s')
  then show ?case by (simp add: transact_success)
next
  case (6 s cs ms b s' r k)
  then show ?case by (rule transact_past)
next
  case (7 s cs ms s' k)
  then show ?case by (rule transact_written)
next
  case (8 s cs ms b s')
  then show ?case by (rule transact_keeps_log)
qed

end
