(* ===== verification/QueueChanges.thy ===== *)
theory QueueChanges
  imports QueueKeys
begin

text \<open>
  The prepared changes of the work queue (\<open>internal/infra/etcd/workqueue\<close>): what each operation compares and writes.
  A change never commits by itself; \<open>commit\<close> joins it with the changes of the operation's owner in one transaction.
\<close>

section \<open>Snapshots\<close>

record item_snapshot =
  is_Item :: item
  is_Revision :: int

record attempt_snapshot =
  an_Attempt :: attempt
  an_Revision :: int

record task_snapshot =
  ts_Task :: task
  ts_Revision :: int

record executor_snapshot =
  es_Record :: executor_record
  es_Revision :: int

record claim_snapshot =
  cs_Claim :: claim
  cs_Owner :: "claim_owner option"
  cs_Revision :: int

record effect_snapshot =
  hs_Owner :: "claim_owner option"
  hs_Revision :: int

record reservation_snapshot =
  rs_Claim :: claim
  rs_Owner :: "task_reservation option"
  rs_Revision :: int

record slot_snapshot =
  ss_Index :: u16
  ss_Record :: worker_slot
  ss_Revision :: int

record checkpoint_snapshot =
  ks_Record :: "work_checkpoint option"
  ks_Revision :: int

record assignment =
  as_ReadRevision :: int
  as_DecisionOnly :: bool
  as_Task :: task_snapshot
  as_Item :: item_snapshot
  as_Executor :: executor_snapshot
  as_Dependencies :: "item_snapshot list"
  as_Claims :: "claim_snapshot list"
  as_Reservations :: "reservation_snapshot list"
  as_HostEffect :: effect_snapshot
  as_QueueRevision :: int
  as_Slot :: u16
  as_AttemptID :: string
  as_Direction :: direction
  as_At :: gotime
  as_Deadline :: gotime

record work_completion =
  wc_Task :: task_snapshot
  wc_Item :: item_snapshot
  wc_Attempt :: attempt_snapshot
  wc_Slot :: slot_snapshot
  wc_Claims :: "claim_snapshot list"
  wc_HostEffect :: effect_snapshot
  wc_Result :: completion
  wc_At :: gotime

section \<open>Records\<close>

definition encode_item :: "queue_env \<Rightarrow> item \<Rightarrow> stored res" where
  "encode_item e it = try_res (item_validate (env_Ulid e) it) (\<lambda>_. encode_stored e (StItem it))"

definition encode_attempt :: "queue_env \<Rightarrow> attempt \<Rightarrow> stored res" where
  "encode_attempt e a = try_res (attempt_validate (env_Ulid e) a) (\<lambda>_. encode_stored e (StAttempt a))"

definition encode_task :: "queue_env \<Rightarrow> task \<Rightarrow> stored res" where
  "encode_task e t = try_res (task_validate (env_Ulid e) t) (\<lambda>_. encode_stored e (StTask t))"

definition maximum_executor_capacity :: nat where "maximum_executor_capacity = 256"

fun executor_operations :: "operation list \<Rightarrow> operation list \<Rightarrow> unit res" where
  "executor_operations seen [] = Inr ()"
| "executor_operations seen (x # xs) =
     (if \<not> valid_operation x then Inl ValidationFailed
      else if x \<in> set seen then Inl ValidationFailed
      else executor_operations (x # seen) xs)"

fun blocked_operations :: "operation list \<Rightarrow> operation list \<Rightarrow> operation list \<Rightarrow> unit res" where
  "blocked_operations supported blocked [] = Inr ()"
| "blocked_operations supported blocked (x # xs) =
     (if x \<notin> set supported then Inl ValidationFailed
      else if x \<in> set blocked then Inl ValidationFailed
      else blocked_operations supported (x # blocked) xs)"

definition executor_validate :: "ulid_check \<Rightarrow> executor_record \<Rightarrow> unit res" where
  "executor_validate u r =
     try_res (identity_validate u (ex_Identity r)) (\<lambda>_.
     if (idn_Executor (ex_Identity r) = AgentExecutor) \<noteq> (ex_ProcessGeneration r \<noteq> 0) then Inl ValidationFailed
     else if ex_Capacity r = 0 \<or> maximum_executor_capacity < unat (ex_Capacity r) \<or>
             length (ex_Operations r) = 0 \<or> 64 < length (ex_Operations r)
       then Inl ValidationFailed
     else try_res (executor_operations [] (ex_Operations r)) (\<lambda>_.
          blocked_operations (ex_Operations r) [] (ex_Unavailable r)))"

definition executor_allows :: "executor_record \<Rightarrow> operation \<Rightarrow> bool" where
  "executor_allows r x \<longleftrightarrow> ex_Ready r \<and> x \<in> set (ex_Operations r) \<and> x \<notin> set (ex_Unavailable r)"

definition encode_executor :: "queue_env \<Rightarrow> executor_record \<Rightarrow> stored res" where
  "encode_executor e r = try_res (executor_validate (env_Ulid e) r) (\<lambda>_. encode_stored e (StExecutor r))"

definition owner_of :: "item \<Rightarrow> claim_owner" where
  "owner_of it = \<lparr>ow_TaskID = it_TaskID it, ow_WorkItemID = it_ID it\<rparr>"

definition slot_of :: "item \<Rightarrow> worker_slot" where
  "slot_of it = \<lparr>sl_TaskID = it_TaskID it, sl_WorkItemID = it_ID it, sl_AttemptID = it_ActiveAttemptID it\<rparr>"

definition item_queue_key :: "item \<Rightarrow> string" where
  "item_queue_key it = queue_key (it_Placement it) (it_ID it)"

definition item_effect_key :: "item \<Rightarrow> string" where
  "item_effect_key it = host_effect_key (pl_HostID (it_Placement it)) (it_ID it)"

definition retry_waiting :: "item \<Rightarrow> bool" where
  "retry_waiting it \<longleftrightarrow>
     it_Phase it = Waiting \<and> (case it_Wait it of None \<Rightarrow> False | Some w \<Rightarrow> wt_Reason w = WaitRetry)"

definition waiting_input :: "item \<Rightarrow> bool" where
  "waiting_input it \<longleftrightarrow>
     it_Phase it = Waiting \<and> (case it_Wait it of None \<Rightarrow> False | Some w \<Rightarrow> wt_Reason w = WaitInput) \<and>
     it_Input it = None \<and> \<not> it_ForwardRevoked it"

text \<open>\<open>updateInputQueue\<close>; a newly created item has no previous state.\<close>

definition update_input_queue :: "queue_env \<Rightarrow> change \<Rightarrow> bool \<Rightarrow> item \<Rightarrow> change res" where
  "update_input_queue e ch previous it =
     (if previous = waiting_input it then Inr ch
      else if \<not> waiting_input it then Inr (with_parts ch [] [del (input_queue_key (it_ID it))])
      else try_res (encode_stored e (StOwner (owner_of it))) (\<lambda>v.
        Inr (with_parts ch [no_key (input_queue_key (it_ID it))] [put (input_queue_key (it_ID it)) v])))"

section \<open>The Task record and its indexes\<close>

definition task_ready_to_finish :: "task \<Rightarrow> bool" where
  "task_ready_to_finish t \<longleftrightarrow>
     tk_PublicationComplete t \<and> progress_unsettled (tk_Progress t) = 0 \<and> tk_FinishedAt t = None"

definition retention_writes :: "task \<Rightarrow> task \<Rightarrow> mutation list" where
  "retention_writes old new =
     (let prev = map_option (retention_key (tk_ID old)) (tk_RetainUntil old);
          nxt = map_option (retention_key (tk_ID new)) (tk_RetainUntil new)
      in if prev = nxt then []
         else (case prev of None \<Rightarrow> [] | Some k \<Rightarrow> [del k]) @
              (case nxt of None \<Rightarrow> [] | Some k \<Rightarrow> [put k (StBytes (tk_ID new))]))"

definition alert_state :: "task \<Rightarrow> string" where
  "alert_state t =
     (if tk_FinishedAt t \<noteq> None then (if tk_Outcome t = Failed then ''failed'' else [])
      else if 0 < pg_Attention (tk_Progress t) then ''attention_required'' else [])"

definition valid_alert_scope :: "ulid_check \<Rightarrow> string \<Rightarrow> bool" where
  "valid_alert_scope u s \<longleftrightarrow> s = ''platform'' \<or> id_valid u KindEnvironment s"

text \<open>\<open>PutEvent\<close>; the constant actions are shorter than the bound of an action.\<close>

definition put_event :: "queue_env \<Rightarrow> alert_event \<Rightarrow> mutation list res" where
  "put_event e ev =
     (if \<not> valid_alert_scope (env_Ulid e) (ae_Scope ev) \<or> \<not> id_valid (env_Ulid e) KindOperation (ae_ID ev) \<or>
         ae_Status ev \<noteq> ''failed'' \<and> ae_Status ev \<noteq> ''attention_required'' \<and> ae_Status ev \<noteq> ''test'' \<or>
         ae_Status ev \<noteq> ''test'' \<and> \<not> id_valid (env_Ulid e) KindTask (ae_TaskID ev) \<or> is_zero (ae_At ev) \<or>
         ae_Attempts ev < 0 \<or> 5 < ae_Attempts ev \<or> 512 < length (ae_Target ev) \<or> (case ae_Action ev of ActionOther s \<Rightarrow> 64 < length s | _ \<Rightarrow> False)
      then Inl ValidationFailed
      else Inr [put (alert_key (ae_Scope ev) (ae_ID ev)) (StAlert ev)])"

definition alert_transition :: "queue_env \<Rightarrow> task \<Rightarrow> task \<Rightarrow> mutation list res" where
  "alert_transition e old new =
     (if alert_state new = [] \<or> alert_state new = alert_state old then Inr []
      else put_event e
        \<lparr>ae_ID = env_AlertID e,
         ae_Scope = (if sc_EnvironmentID (tk_Scope new) = [] then ''platform'' else sc_EnvironmentID (tk_Scope new)),
         ae_TaskID = tk_ID new, ae_Target = tk_TargetName new, ae_Action = tk_Action new,
         ae_Status = alert_state new, ae_At = tk_UpdatedAt new, ae_Generation = [], ae_Attempts = 0,
         ae_NextAttempt = zero_time\<rparr>)"

definition task_change :: "queue_env \<Rightarrow> task_snapshot \<Rightarrow> task \<Rightarrow> change res" where
  "task_change e s next =
     (if ts_Revision s \<le> 0 \<or> tk_ID (ts_Task s) \<noteq> tk_ID next then Inl ValidationFailed
      else try_res (encode_task e next) (\<lambda>v.
      if tk_PublicationComplete (ts_Task s) \<and> \<not> tk_PublicationComplete next then Inl ValidationFailed
      else try_res (alert_transition e (ts_Task s) next) (\<lambda>alerts.
        Inr \<lparr>ch_Conditions = [cond (task_key (tk_ID next)) (ts_Revision s)],
             ch_Mutations =
               [put (task_key (tk_ID next)) v] @
               (if \<not> tk_PublicationComplete (ts_Task s) \<and> tk_PublicationComplete next
                then [del (publishing_key (tk_ID next))] else []) @
               (if task_ready_to_finish (ts_Task s) \<noteq> task_ready_to_finish next
                then [if task_ready_to_finish next then put (finish_key (tk_ID next)) (StBytes (tk_ID next))
                      else del (finish_key (tk_ID next))] else []) @
               retention_writes (ts_Task s) next @ alerts\<rparr>)))"

text \<open>\<open>countTransition\<close>: the Task's counters move with the item, in the same change.\<close>

definition count_change :: "queue_env \<Rightarrow> change \<Rightarrow> task_snapshot \<Rightarrow> item \<Rightarrow> item \<Rightarrow> gotime \<Rightarrow> change res" where
  "count_change e ch t old new now =
     try_res (count_transition (env_Ulid e) (ts_Task t) old new now) (\<lambda>next.
     try_res (task_change e t next) (\<lambda>part.
     update_input_queue e (with_parts ch (ch_Conditions part) (ch_Mutations part)) (waiting_input old) new))"

section \<open>Assignment\<close>

fun dependency_conditions :: "ulid_check \<Rightarrow> item \<Rightarrow> string list \<Rightarrow> item_snapshot list \<Rightarrow> condition list res" where
  "dependency_conditions u it (d # ds) (s # ss) =
     try_res (item_validate u (is_Item s)) (\<lambda>_.
     if is_Revision s \<le> 0 \<or> it_ID (is_Item s) \<noteq> d \<or> it_TaskID (is_Item s) \<noteq> it_TaskID it \<or>
        it_Phase (is_Item s) \<noteq> Settled \<or> it_Outcome (is_Item s) \<noteq> Succeeded
       then Inl StateConflict
     else try_res (dependency_conditions u it ds ss) (\<lambda>cs. Inr (cond (item_key d) (is_Revision s) # cs)))"
| "dependency_conditions u it [] [] = Inr []"
| "dependency_conditions u it _ _ = Inl ValidationFailed"

text \<open>The code compares the lengths before the loop, with the same error as the last equation.\<close>

definition checked_dependencies :: "ulid_check \<Rightarrow> item \<Rightarrow> item_snapshot list \<Rightarrow> condition list res" where
  "checked_dependencies u it deps =
     (if length deps \<noteq> length (it_Dependencies it) then Inl ValidationFailed
      else dependency_conditions u it (it_Dependencies it) deps)"

definition assignment_dependencies :: "ulid_check \<Rightarrow> assignment \<Rightarrow> unit res" where
  "assignment_dependencies u r =
     (if as_Direction r = Recovery then
        (if as_Dependencies r \<noteq> [] then Inl ValidationFailed else Inr ())
      else try_res (checked_dependencies u (is_Item (as_Item r)) (as_Dependencies r)) (\<lambda>_.
        if list_ex (\<lambda>d. as_ReadRevision r < ts_Revision (as_Task r) \<or> ts_Revision (as_Task r) < is_Revision d)
             (as_Dependencies r)
        then Inl ValidationFailed else Inr ()))"

fun claim_writes :: "claim_owner \<Rightarrow> stored \<Rightarrow> change \<Rightarrow> claim list \<Rightarrow> claim_snapshot list \<Rightarrow> change res" where
  "claim_writes own v ch (c # cs) (s # ss) =
     (if cs_Claim s \<noteq> c \<or> cs_Revision s < 0 \<or> (cs_Owner s = None) \<noteq> (cs_Revision s = 0) then Inl ValidationFailed
      else if cs_Owner s \<noteq> None \<and> cs_Owner s \<noteq> Some own then Inl ResourceInUse
      else claim_writes own v (with_parts ch [cond (claim_key c) (cs_Revision s)] [put (claim_key c) v]) cs ss)"
| "claim_writes own v ch [] ss = Inr ch"
| "claim_writes own v ch (c # cs) [] = Inl Panic"

definition add_claims :: "queue_env \<Rightarrow> change \<Rightarrow> item \<Rightarrow> claim_snapshot list \<Rightarrow> change res" where
  "add_claims e ch it snaps =
     (if length snaps \<noteq> length (it_Claims it) then Inl ValidationFailed
      else try_res (encode_stored e (StClaim (owner_of it))) (\<lambda>v.
        claim_writes (owner_of it) v ch (it_Claims it) snaps))"

definition reservation_validate :: "ulid_check \<Rightarrow> task_reservation \<Rightarrow> unit res" where
  "reservation_validate u r =
     (if \<not> id_valid u KindTask (tr_TaskID r) \<or> input_validate u (tr_Intent r) \<noteq> Inr () \<or>
         cl_HostID (tr_Claim r) \<noteq> [] \<or> \<not> id_valid u KindEnvironment (cl_ScopeID (tr_Claim r))
      then Inl ValidationFailed else Inr ())"

definition environment_claim :: "task \<Rightarrow> claim" where
  "environment_claim t = \<lparr>cl_HostID = [], cl_ScopeID = sc_EnvironmentID (tk_Scope t)\<rparr>"

fun reservation_conditions :: "ulid_check \<Rightarrow> task \<Rightarrow> reservation_snapshot list \<Rightarrow> condition list res" where
  "reservation_conditions u t [] = Inr []"
| "reservation_conditions u t (s # ss) =
     (if rs_Claim s \<noteq> environment_claim t \<or> rs_Revision s < 0 \<or> (rs_Owner s = None) \<noteq> (rs_Revision s = 0)
        then Inl ValidationFailed
      else try_res (case rs_Owner s of
          None \<Rightarrow> Inr ()
        | Some own \<Rightarrow>
            if reservation_validate u own \<noteq> Inr () \<or> tr_Claim own \<noteq> rs_Claim s then Inl InternalError
            else if tr_TaskID own \<noteq> tk_ID t \<or> tr_Intent own \<noteq> tk_Intent t then Inl ResourceInUse
            else Inr ()) (\<lambda>_.
      try_res (reservation_conditions u t ss) (\<lambda>cs.
        Inr (cond (reservation_key (rs_Claim s)) (rs_Revision s) # cs))))"

definition task_reservation_conditions :: "ulid_check \<Rightarrow> task \<Rightarrow> item \<Rightarrow> reservation_snapshot list \<Rightarrow> condition list res" where
  "task_reservation_conditions u t it snaps =
     (if length snaps \<noteq> (if sc_EnvironmentID (tk_Scope t) \<noteq> [] then 1 else 0) \<or> it_TaskID it \<noteq> tk_ID t
        then Inl ValidationFailed
      else reservation_conditions u t snaps)"

definition assign_host_effect :: "queue_env \<Rightarrow> change \<Rightarrow> item \<Rightarrow> effect_snapshot \<Rightarrow> direction \<Rightarrow> change res" where
  "assign_host_effect e ch it s dir =
     (if pl_Executor (it_Placement it) \<noteq> AgentExecutor then
        (if hs_Revision s \<noteq> 0 \<or> hs_Owner s \<noteq> None then Inl ValidationFailed else Inr ch)
      else if dir = Recovery then
        (if hs_Revision s \<le> 0 \<or> hs_Owner s \<noteq> Some (owner_of it) then Inl StateConflict
         else Inr (with_parts ch [cond (item_effect_key it) (hs_Revision s)] []))
      else if hs_Revision s \<noteq> 0 \<or> hs_Owner s \<noteq> None then Inl StateConflict
      else try_res (encode_stored e (StHostEffect (owner_of it))) (\<lambda>v.
        Inr (with_parts ch [no_key (item_effect_key it), no_key (host_fence_key (pl_HostID (it_Placement it)))]
               [put (item_effect_key it) v])))"

definition assignment_change :: "assignment \<Rightarrow> item \<Rightarrow> attempt \<Rightarrow> stored \<Rightarrow> stored \<Rightarrow> stored \<Rightarrow> change" where
  "assignment_change r next a itemBytes attemptBytes slotBytes =
     (let who = ex_Identity (es_Record (as_Executor r)) in
      \<lparr>ch_Conditions =
         [cond (item_key (it_ID next)) (is_Revision (as_Item r)),
          cond (executor_key who) (es_Revision (as_Executor r)),
          cond (item_queue_key next) (as_QueueRevision r),
          no_key (attempt_key (at_ID a)),
          no_key (attempt_index_key (it_ID next) (at_Number a)),
          no_key (slot_key (placement_of who) (as_Slot r))],
       ch_Mutations =
         [put (item_key (it_ID next)) itemBytes,
          put (attempt_key (at_ID a)) attemptBytes,
          put (attempt_index_key (it_ID next) (at_Number a)) slotBytes,
          put (slot_key (placement_of who) (as_Slot r)) slotBytes,
          del (item_queue_key next)]\<rparr>)"

definition prepare_assignment :: "queue_env \<Rightarrow> assignment \<Rightarrow> (change \<times> attempt) res" where
  "prepare_assignment e r =
     (if as_DecisionOnly r then Inl ValidationFailed
      else if tk_Stop (ts_Task (as_Task r)) \<noteq> None \<and> as_Direction r = Forward then Inl StateConflict
      else if is_Revision (as_Item r) \<le> 0 \<or> es_Revision (as_Executor r) \<le> 0 \<or> as_QueueRevision r \<le> 0
        then Inl ValidationFailed
      else try_res (executor_validate (env_Ulid e) (es_Record (as_Executor r))) (\<lambda>_.
      if \<not> executor_allows (es_Record (as_Executor r)) (it_Operation (is_Item (as_Item r))) \<or>
         ex_Capacity (es_Record (as_Executor r)) \<le> as_Slot r
        then Inl StateConflict
      else try_res (assign (env_Ulid e) (is_Item (as_Item r)) (ex_Identity (es_Record (as_Executor r)))
             (as_AttemptID r) (as_Direction r) (as_At r) (as_Deadline r)) (\<lambda>(next, a).
      try_res (encode_item e next) (\<lambda>itemBytes.
      try_res (encode_attempt e a) (\<lambda>attemptBytes.
      try_res (encode_stored e (StSlot \<lparr>sl_TaskID = it_TaskID next, sl_WorkItemID = it_ID next, sl_AttemptID = at_ID a\<rparr>))
        (\<lambda>slotBytes.
      try_res (assignment_dependencies (env_Ulid e) r) (\<lambda>_.
      try_res (add_claims e (assignment_change r next a itemBytes attemptBytes slotBytes) next (as_Claims r)) (\<lambda>ch.
      try_res (task_reservation_conditions (env_Ulid e) (ts_Task (as_Task r)) next (as_Reservations r)) (\<lambda>rs.
      try_res (assign_host_effect e (with_parts ch rs []) next (as_HostEffect r) (as_Direction r)) (\<lambda>ch.
      try_res (count_change e ch (as_Task r) (is_Item (as_Item r)) next (as_At r)) (\<lambda>ch.
      Inr (ch, a))))))))))))"

end
