(* ===== verification/QueueOperations.thy ===== *)
theory QueueOperations
  imports QueueChanges
begin

text \<open>
  The operations of the work queue beside assignment: start and checkpoints (\<open>checkpoint.go\<close>), completion and
  publication (\<open>publication.go\<close>, \<open>task.go\<close>), readiness and retries (\<open>readiness.go\<close>, \<open>unstarted_retry.go\<close>),
  settlement without execution (\<open>settlement.go\<close>, \<open>publication_settlement.go\<close>), stop (\<open>stop.go\<close>), activation
  (\<open>activation.go\<close>), collection (\<open>retention.go\<close>, \<open>group_collection.go\<close>), the fences of Controller decisions
  (\<open>decision.go\<close>), executors (\<open>executor.go\<close>), reservations (\<open>task_reservation.go\<close>) and \<open>Repository.Commit\<close>.
\<close>

section \<open>Start and checkpoints\<close>

definition prepare_start ::
  "queue_env \<Rightarrow> task_snapshot \<Rightarrow> item_snapshot \<Rightarrow> attempt_snapshot \<Rightarrow> executor_snapshot \<Rightarrow> gotime \<Rightarrow> change res" where
  "prepare_start e t i a x now =
     (if tk_Stop (ts_Task t) \<noteq> None \<and> at_Direction (an_Attempt a) = Forward then Inl StateConflict
      else if is_Revision i \<le> 0 \<or> an_Revision a \<le> 0 then Inl ValidationFailed
      else try_res (executor_validate (env_Ulid e) (es_Record x)) (\<lambda>_.
      if es_Revision x \<le> 0 \<or> \<not> executor_allows (es_Record x) (it_Operation (is_Item i)) \<or>
         ex_Identity (es_Record x) \<noteq> at_Executor (an_Attempt a)
        then Inl StateConflict
      else if at_StartedAt (an_Attempt a) \<noteq> None then Inl StateConflict
      else try_res (start (env_Ulid e) (is_Item i) (an_Attempt a) now) (\<lambda>(next, started).
      try_res (encode_item e next) (\<lambda>itemBytes.
      try_res (encode_attempt e started) (\<lambda>attemptBytes.
      count_change e
        \<lparr>ch_Conditions =
           [cond (executor_key (ex_Identity (es_Record x))) (es_Revision x),
            cond (item_key (it_ID next)) (is_Revision i),
            cond (attempt_key (at_ID started)) (an_Revision a)] @
           (if pl_Executor (it_Placement (is_Item i)) = AgentExecutor \<and> at_Direction started = Forward
            then [no_key (host_fence_key (pl_HostID (it_Placement (is_Item i))))] else []),
         ch_Mutations = [put (item_key (it_ID next)) itemBytes, put (attempt_key (at_ID started)) attemptBytes]\<rparr>
        t (is_Item i) next now)))))"

definition checkpoint_validate :: "ulid_check \<Rightarrow> work_checkpoint \<Rightarrow> unit res" where
  "checkpoint_validate u c =
     (if \<not> id_valid u KindAttempt (cp_AttemptID c) \<or> cp_Sequence c = 0 \<or> \<not> id_valid u KindStep (cp_StageID c) \<or>
         is_zero (cp_RecordedAt c)
      then Inl ValidationFailed else input_validate u (cp_Evidence c))"

definition checkpoint_follows :: "ulid_check \<Rightarrow> work_checkpoint option \<Rightarrow> work_checkpoint \<Rightarrow> unit res" where
  "checkpoint_follows u previous next =
     (case previous of
        None \<Rightarrow> if cp_Sequence next \<noteq> 1 then Inl ValidationFailed else Inr ()
      | Some p \<Rightarrow>
          try_res (checkpoint_validate u p) (\<lambda>_.
          if cp_AttemptID p \<noteq> cp_AttemptID next \<or> before (cp_RecordedAt next) (cp_RecordedAt p)
            then Inl ValidationFailed
          else if cp_Sequence next = cp_Sequence p then
            (if cp_StageID next \<noteq> cp_StageID p \<or> cp_Evidence next \<noteq> cp_Evidence p \<or>
                instant (cp_RecordedAt next) \<noteq> instant (cp_RecordedAt p)
             then Inl ValidationFailed else Inr ())
          else if cp_Sequence next \<le> cp_Sequence p \<or> cp_Sequence next - cp_Sequence p \<noteq> 1 then Inl ValidationFailed
          else Inr ()))"

definition prepare_checkpoint ::
  "queue_env \<Rightarrow> item_snapshot \<Rightarrow> attempt_snapshot \<Rightarrow> checkpoint_snapshot \<Rightarrow> work_checkpoint \<Rightarrow> change res" where
  "prepare_checkpoint e i a previous next =
     try_res (item_validate (env_Ulid e) (is_Item i)) (\<lambda>_.
     try_res (attempt_validate (env_Ulid e) (an_Attempt a)) (\<lambda>_.
     try_res (checkpoint_validate (env_Ulid e) next) (\<lambda>_.
     if is_Revision i \<le> 0 \<or> an_Revision a \<le> 0 \<or> ks_Revision previous < 0 \<or>
        (ks_Record previous = None) \<noteq> (ks_Revision previous = 0) \<or>
        it_Phase (is_Item i) \<noteq> Running \<or> it_ActiveAttemptID (is_Item i) \<noteq> cp_AttemptID next \<or>
        at_ID (an_Attempt a) \<noteq> cp_AttemptID next \<or> at_WorkItemID (an_Attempt a) \<noteq> it_ID (is_Item i) \<or>
        at_TaskID (an_Attempt a) \<noteq> it_TaskID (is_Item i) \<or>
        at_Number (an_Attempt a) \<noteq> it_AttemptNumber (is_Item i) \<or> at_FinishedAt (an_Attempt a) \<noteq> None \<or>
        (case at_StartedAt (an_Attempt a) of None \<Rightarrow> True | Some s \<Rightarrow> before (cp_RecordedAt next) s)
       then Inl ValidationFailed
     else try_res (checkpoint_follows (env_Ulid e) (ks_Record previous) next) (\<lambda>_.
     try_res (encode_stored e (StCheckpoint next)) (\<lambda>v.
       Inr \<lparr>ch_Conditions =
              [cond (item_key (it_ID (is_Item i))) (is_Revision i),
               cond (attempt_key (at_ID (an_Attempt a))) (an_Revision a),
               cond (checkpoint_key (cp_AttemptID next)) (ks_Revision previous)],
            ch_Mutations = [put (checkpoint_key (cp_AttemptID next)) v]\<rparr>)))))"

section \<open>Completion\<close>

fun release_claims :: "claim_owner \<Rightarrow> bool \<Rightarrow> change \<Rightarrow> claim list \<Rightarrow> claim_snapshot list \<Rightarrow> change res" where
  "release_claims own settled ch (c # cs) (s # ss) =
     (if cs_Claim s \<noteq> c \<or> cs_Revision s \<le> 0 \<or> cs_Owner s \<noteq> Some own then Inl ValidationFailed
      else release_claims own settled
             (with_parts ch [cond (claim_key c) (cs_Revision s)] (if settled then [del (claim_key c)] else [])) cs ss)"
| "release_claims own settled ch [] ss = Inr ch"
| "release_claims own settled ch (c # cs) [] = Inl Panic"

definition complete_host_effect :: "change \<Rightarrow> item \<Rightarrow> effect_snapshot \<Rightarrow> change res" where
  "complete_host_effect ch it s =
     (if pl_Executor (it_Placement it) \<noteq> AgentExecutor then
        (if hs_Revision s \<noteq> 0 \<or> hs_Owner s \<noteq> None then Inl ValidationFailed else Inr ch)
      else if hs_Revision s \<le> 0 \<or> hs_Owner s \<noteq> Some (owner_of it) then Inl StateConflict
      else Inr (with_parts ch [cond (item_effect_key it) (hs_Revision s)]
                  (if it_Phase it = Settled then [del (item_effect_key it)] else [])))"

definition prepare_completion_with :: "queue_env \<Rightarrow> work_completion \<Rightarrow> retry_decision option \<Rightarrow> change res" where
  "prepare_completion_with e r recovery =
     (if is_Revision (wc_Item r) \<le> 0 \<or> an_Revision (wc_Attempt r) \<le> 0 \<or> ss_Revision (wc_Slot r) \<le> 0
        then Inl ValidationFailed
      else try_res (finish (env_Ulid e) (is_Item (wc_Item r)) (an_Attempt (wc_Attempt r)) (wc_Result r) (wc_At r))
        (\<lambda>(finished, a).
      try_res (case recovery of None \<Rightarrow> Inr finished | Some d \<Rightarrow> retry (env_Ulid e) finished a d (wc_At r)) (\<lambda>it.
      if ss_Record (wc_Slot r) \<noteq> \<lparr>sl_TaskID = it_TaskID it, sl_WorkItemID = it_ID it, sl_AttemptID = at_ID a\<rparr>
        then Inl ValidationFailed
      else try_res (encode_item e it) (\<lambda>itemBytes.
      try_res (encode_attempt e a) (\<lambda>attemptBytes.
      let slotKey = slot_key (placement_of (at_Executor a)) (ss_Index (wc_Slot r)) in
      try_res (case recovery of
          None \<Rightarrow> Inr ([], [])
        | Some d \<Rightarrow> try_res (encode_stored e (StOwner (owner_of it))) (\<lambda>v.
            Inr ([no_key (item_queue_key it)], [put (item_queue_key it) v]))) (\<lambda>(qc, qm).
      if length (wc_Claims r) \<noteq> length (it_Claims it) then Inl ValidationFailed
      else try_res (release_claims (owner_of it) (it_Phase it = Settled)
          \<lparr>ch_Conditions =
             [cond (item_key (it_ID it)) (is_Revision (wc_Item r)),
              cond (attempt_key (at_ID a)) (an_Revision (wc_Attempt r)),
              cond slotKey (ss_Revision (wc_Slot r))] @ qc,
           ch_Mutations =
             [put (item_key (it_ID it)) itemBytes, put (attempt_key (at_ID a)) attemptBytes, del slotKey] @ qm\<rparr>
          (it_Claims it) (wc_Claims r)) (\<lambda>ch.
      try_res (complete_host_effect ch it (wc_HostEffect r)) (\<lambda>ch.
      count_change e ch (wc_Task r) (is_Item (wc_Item r)) it (wc_At r)))))))))"

definition prepare_completion :: "queue_env \<Rightarrow> work_completion \<Rightarrow> change res" where
  "prepare_completion e r = prepare_completion_with e r None"

definition prepare_completion_with_recovery :: "queue_env \<Rightarrow> work_completion \<Rightarrow> gotime \<Rightarrow> change res" where
  "prepare_completion_with_recovery e r deadline =
     (if at_Direction (an_Attempt (wc_Attempt r)) \<noteq> Forward \<or> co_EffectsSettled (wc_Result r) \<or>
         co_Outcome (wc_Result r) = Succeeded
      then Inl ValidationFailed
      else prepare_completion_with e r
        (Some \<lparr>rd_Direction = Recovery, rd_Result = co_Evidence (wc_Result r), rd_NotBefore = wc_At r,
               rd_Deadline = deadline\<rparr>))"

section \<open>Publication\<close>

definition prepare_item_creation :: "queue_env \<Rightarrow> item \<Rightarrow> change res" where
  "prepare_item_creation e it =
     (if it_Phase it \<noteq> Ready \<and> it_Phase it \<noteq> Waiting \<or> it_AttemptNumber it \<noteq> 0 \<or> it_Outcome it \<noteq> NoOutcome \<or>
         it_FirstFailure it \<noteq> None \<or> it_ForwardRevoked it \<or> it_Result it \<noteq> None \<or> it_CleanupResult it \<noteq> None \<or>
         it_Cleanup it \<noteq> CleanupNone
        then Inl ValidationFailed
      else try_res (encode_item e it) (\<lambda>v.
      try_res (encode_stored e (StOwner (owner_of it))) (\<lambda>reference.
      update_input_queue e
        \<lparr>ch_Conditions =
           [no_key (item_key (it_ID it)), no_key (task_item_key (it_TaskID it) (it_ID it))] @
           (if it_Phase it = Ready then [no_key (item_queue_key it)] else []),
         ch_Mutations =
           [put (item_key (it_ID it)) v, put (task_item_key (it_TaskID it) (it_ID it)) reference] @
           (if it_Phase it = Ready then [put (item_queue_key it) reference] else [])\<rparr>
        False it)))"

fun item_creations :: "queue_env \<Rightarrow> change \<Rightarrow> item list \<Rightarrow> change res" where
  "item_creations e ch [] = Inr ch"
| "item_creations e ch (it # its) =
     try_res (prepare_item_creation e it) (\<lambda>part.
     item_creations e (with_parts ch (ch_Conditions part) (ch_Mutations part)) its)"

definition prepare_items :: "queue_env \<Rightarrow> task_snapshot \<Rightarrow> item list \<Rightarrow> gotime \<Rightarrow> change res" where
  "prepare_items e t items now =
     (if ts_Revision t \<le> 0 \<or> length items = 0 then Inl ValidationFailed
      else try_res (count_publication (env_Ulid e) (ts_Task t) items now) (\<lambda>next.
      try_res (task_change e t next) (\<lambda>ch. item_creations e ch items)))"

definition prepare_publication_complete ::
  "queue_env \<Rightarrow> task_snapshot \<Rightarrow> item list \<Rightarrow> gotime \<Rightarrow> change res" where
  "prepare_publication_complete e t items now =
     (if ts_Revision t \<le> 0 \<or> tk_PublicationComplete (ts_Task t) \<or> before now (tk_UpdatedAt (ts_Task t))
        then Inl ValidationFailed
      else try_res (validate_graph (env_Ulid e) (ts_Task t) items) (\<lambda>_.
      if list_ex (\<lambda>it. it_AttemptNumber it \<noteq> 0 \<or> it_Outcome it \<noteq> NoOutcome \<or>
           it_Phase it \<noteq> Ready \<and> it_Phase it \<noteq> Waiting) items
        then Inl ValidationFailed
      else task_change e t ((ts_Task t)\<lparr>tk_PublicationComplete := True, tk_UpdatedAt := now\<rparr>)))"

section \<open>Readiness and retries\<close>

definition prepare_ready_change :: "queue_env \<Rightarrow> item_snapshot \<Rightarrow> item \<Rightarrow> change res" where
  "prepare_ready_change e i next =
     (if is_Revision i \<le> 0 \<or> it_ID (is_Item i) \<noteq> it_ID next \<or> it_TaskID (is_Item i) \<noteq> it_TaskID next
        then Inl ValidationFailed
      else try_res (encode_item e next) (\<lambda>v.
      let ch = \<lparr>ch_Conditions = [cond (item_key (it_ID next)) (is_Revision i), no_key (item_queue_key next)],
                ch_Mutations = [put (item_key (it_ID next)) v]\<rparr> in
      if it_Phase next = Ready \<or> retry_waiting next
      then try_res (encode_stored e (StOwner (owner_of next))) (\<lambda>reference.
        Inr (with_parts ch [] [put (item_queue_key next) reference]))
      else Inr ch))"

definition prepare_input_change ::
  "queue_env \<Rightarrow> task_snapshot \<Rightarrow> item_snapshot \<Rightarrow> input \<Rightarrow> gotime \<Rightarrow> change res" where
  "prepare_input_change e t i inp now =
     try_res (prepare_input (env_Ulid e) (is_Item i) inp now) (\<lambda>next.
     try_res (prepare_ready_change e i next) (\<lambda>ch. count_change e ch t (is_Item i) next now))"

text \<open>A retry moves the Task by \<open>CountRetry\<close> and leaves the input index alone.\<close>

definition retry_change ::
  "queue_env \<Rightarrow> change \<Rightarrow> task_snapshot \<Rightarrow> item \<Rightarrow> item \<Rightarrow> gotime \<Rightarrow> change res" where
  "retry_change e ch t old new now =
     try_res (count_retry (env_Ulid e) (ts_Task t) old new now) (\<lambda>next.
     try_res (task_change e t next) (\<lambda>part. Inr (with_parts ch (ch_Conditions part) (ch_Mutations part))))"

definition prepare_retry ::
  "queue_env \<Rightarrow> task_snapshot \<Rightarrow> item_snapshot \<Rightarrow> attempt_snapshot \<Rightarrow> retry_decision \<Rightarrow> gotime \<Rightarrow> change res" where
  "prepare_retry e t i previous d now =
     (if an_Revision previous \<le> 0 then Inl ValidationFailed
      else try_res (retry (env_Ulid e) (is_Item i) (an_Attempt previous) d now) (\<lambda>next.
      try_res (prepare_ready_change e i next) (\<lambda>ch.
      retry_change e
        (with_parts ch [cond (attempt_key (at_ID (an_Attempt previous))) (an_Revision previous)] [])
        t (is_Item i) next now)))"

definition prepare_unstarted_retry ::
  "queue_env \<Rightarrow> task_snapshot \<Rightarrow> item_snapshot \<Rightarrow> gotime \<Rightarrow> gotime \<Rightarrow> change res" where
  "prepare_unstarted_retry e t i deadline now =
     try_res (retry_unstarted (env_Ulid e) (is_Item i) deadline now) (\<lambda>next.
     try_res (prepare_ready_change e i next) (\<lambda>ch. retry_change e ch t (is_Item i) next now))"

definition prepare_retry_ready :: "queue_env \<Rightarrow> task_snapshot \<Rightarrow> item_snapshot \<Rightarrow> int \<Rightarrow> gotime \<Rightarrow> change res" where
  "prepare_retry_ready e t i queueRevision now =
     (if is_Revision i \<le> 0 \<or> queueRevision \<le> 0 then Inl ValidationFailed
      else try_res (release_retry_wait (env_Ulid e) (is_Item i) now) (\<lambda>next.
      try_res (encode_item e next) (\<lambda>v.
      count_change e
        \<lparr>ch_Conditions = [cond (item_key (it_ID next)) (is_Revision i), cond (item_queue_key next) queueRevision],
         ch_Mutations = [put (item_key (it_ID next)) v]\<rparr>
        t (is_Item i) next now)))"

text \<open>
  The three operations that take a queued item out of the queue: an expired cleanup, a settlement without execution
  and a revocation. They write the item, and delete its queue entry when \<open>dequeue\<close> says it may have one.
\<close>

definition item_change ::
  "queue_env \<Rightarrow> task_snapshot \<Rightarrow> item_snapshot \<Rightarrow> item \<Rightarrow> bool \<Rightarrow> gotime \<Rightarrow> change res" where
  "item_change e t i next dequeue now =
     try_res (encode_item e next) (\<lambda>v.
     count_change e
       \<lparr>ch_Conditions = [cond (item_key (it_ID next)) (is_Revision i)],
        ch_Mutations = [put (item_key (it_ID next)) v] @ (if dequeue then [del (item_queue_key next)] else [])\<rparr>
       t (is_Item i) next now)"

abbreviation queued_phase :: "item \<Rightarrow> bool" where
  "queued_phase it \<equiv> it_Phase it = Ready \<or> retry_waiting it"

definition prepare_cleanup_retry_expiry ::
  "queue_env \<Rightarrow> task_snapshot \<Rightarrow> item_snapshot \<Rightarrow> gotime \<Rightarrow> change res" where
  "prepare_cleanup_retry_expiry e t i now =
     (if is_Revision i \<le> 0 then Inl ValidationFailed
      else try_res (expire_cleanup_retry (env_Ulid e) (is_Item i) now) (\<lambda>next.
      item_change e t i next (queued_phase (is_Item i)) now))"

definition prepare_unstarted_settlement ::
  "queue_env \<Rightarrow> task_snapshot \<Rightarrow> item_snapshot \<Rightarrow> completion \<Rightarrow> gotime \<Rightarrow> change res" where
  "prepare_unstarted_settlement e t i c now =
     (if is_Revision i \<le> 0 then Inl ValidationFailed
      else try_res (settle_unstarted (env_Ulid e) (is_Item i) c now) (\<lambda>next.
      item_change e t i next (queued_phase (is_Item i)) now))"

definition prepare_queued_retry_settlement ::
  "queue_env \<Rightarrow> task_snapshot \<Rightarrow> item_snapshot \<Rightarrow> completion \<Rightarrow> gotime \<Rightarrow> change res" where
  "prepare_queued_retry_settlement e t i c now =
     (if is_Revision i \<le> 0 then Inl ValidationFailed
      else try_res (settle_queued_retry (env_Ulid e) (is_Item i) c now) (\<lambda>next.
      item_change e t i next (queued_phase (is_Item i)) now))"

definition prepare_revocation ::
  "queue_env \<Rightarrow> task_snapshot \<Rightarrow> item_snapshot \<Rightarrow> outcome \<Rightarrow> gotime \<Rightarrow> change res" where
  "prepare_revocation e t i result now =
     (if is_Revision i \<le> 0 \<or> it_Phase (is_Item i) = Settled then Inl ValidationFailed
      else try_res (revoke_forward (env_Ulid e) (is_Item i)
          (case tk_Stop (ts_Task t) of None \<Rightarrow> result | Some s \<Rightarrow> sr_Outcome s) now) (\<lambda>next.
      item_change e t i next (queued_phase (is_Item i) \<and> it_Phase next = Settled) now))"

definition prepare_unstarted_deadline ::
  "queue_env \<Rightarrow> task_snapshot \<Rightarrow> item_snapshot \<Rightarrow> int \<Rightarrow> gotime \<Rightarrow> change res" where
  "prepare_unstarted_deadline e t i queueRevision now =
     (if ts_Revision t \<le> 0 \<or> is_Revision i \<le> 0 \<or> queueRevision \<le> 0 \<or> \<not> tk_PublicationComplete (ts_Task t) \<or>
         tk_Stop (ts_Task t) \<noteq> None \<or> tk_FinishedAt (ts_Task t) \<noteq> None \<or>
         tk_CollectionStartedAt (ts_Task t) \<noteq> None \<or> it_TaskID (is_Item i) \<noteq> tk_ID (ts_Task t)
        then Inl ValidationFailed
      else try_res (renew_unstarted_deadline (env_Ulid e) (is_Item i) (tk_Deadline (ts_Task t)) now) (\<lambda>next.
      try_res (encode_item e next) (\<lambda>v.
        Inr \<lparr>ch_Conditions =
               [cond (task_key (tk_ID (ts_Task t))) (ts_Revision t),
                cond (item_key (it_ID (is_Item i))) (is_Revision i),
                cond (item_queue_key (is_Item i)) queueRevision],
             ch_Mutations = [put (item_key (it_ID next)) v]\<rparr>)))"

section \<open>Settlement of unpublished work\<close>

definition prepare_publication_settlement ::
  "queue_env \<Rightarrow> task_snapshot \<Rightarrow> item_snapshot \<Rightarrow> completion \<Rightarrow> gotime \<Rightarrow> change res" where
  "prepare_publication_settlement e t i c now =
     (if ts_Revision t \<le> 0 \<or> is_Revision i < 0 then Inl ValidationFailed
      else try_res (settle_publication (env_Ulid e) (ts_Task t) (is_Item i) (0 < is_Revision i) c now)
        (\<lambda>(nextTask, next).
      try_res (task_change e t nextTask) (\<lambda>ch.
      try_res (encode_item e next) (\<lambda>v.
      let ch = with_parts ch [cond (item_key (it_ID next)) (is_Revision i)] [put (item_key (it_ID next)) v] in
      if is_Revision i = 0 then
        try_res (encode_stored e (StOwner (owner_of next))) (\<lambda>reference.
          Inr (with_parts ch [no_key (task_item_key (it_TaskID next) (it_ID next)), no_key (item_queue_key next)]
                 [put (task_item_key (it_TaskID next) (it_ID next)) reference]))
      else update_input_queue e
        (with_parts ch [] (if it_Phase (is_Item i) = Ready then [del (item_queue_key next)] else []))
        (waiting_input (is_Item i)) next))))"

section \<open>Stop, activation and collection\<close>

definition prepare_stop :: "queue_env \<Rightarrow> task_snapshot \<Rightarrow> outcome \<Rightarrow> gotime \<Rightarrow> change res" where
  "prepare_stop e t result now =
     try_res (request_stop (env_Ulid e) (ts_Task t) result now) (\<lambda>next.
     try_res (task_change e t next) (\<lambda>ch.
     if tk_Stop (ts_Task t) \<noteq> None then Inr ch
     else try_res (encode_stored e (StStopCursor (tk_ID (ts_Task t)) [])) (\<lambda>v.
       Inr (with_parts ch [no_key (stop_key (tk_ID (ts_Task t)))] [put (stop_key (tk_ID (ts_Task t))) v]))))"

definition prepare_activation ::
  "queue_env \<Rightarrow> task_snapshot \<Rightarrow> item_snapshot \<Rightarrow> attempt_snapshot \<Rightarrow> executor_snapshot \<Rightarrow> input \<Rightarrow> gotime \<Rightarrow>
     change res" where
  "prepare_activation e t i a x inp now =
     (if is_Revision i \<le> 0 \<or> an_Revision a \<le> 0 \<or> es_Revision x \<le> 0 \<or> \<not> ex_Ready (es_Record x) \<or>
         ex_Identity (es_Record x) \<noteq> at_Executor (an_Attempt a)
        then Inl ValidationFailed
      else try_res (executor_validate (env_Ulid e) (es_Record x)) (\<lambda>_.
      try_res (authorize_activation (env_Ulid e) (ts_Task t) (is_Item i) (an_Attempt a) inp now) (\<lambda>next.
      try_res (task_change e t next) (\<lambda>ch.
        Inr (with_parts ch
          [cond (item_key (it_ID (is_Item i))) (is_Revision i),
           cond (attempt_key (at_ID (an_Attempt a))) (an_Revision a),
           cond (executor_key (ex_Identity (es_Record x))) (es_Revision x)] [])))))"

definition prepare_collection :: "queue_env \<Rightarrow> task_snapshot \<Rightarrow> gotime \<Rightarrow> change res" where
  "prepare_collection e t now =
     try_res (begin_collection (env_Ulid e) (ts_Task t) now) (\<lambda>next. task_change e t next)"

definition prepare_work_collection :: "queue_env \<Rightarrow> task_snapshot \<Rightarrow> item_snapshot \<Rightarrow> change res" where
  "prepare_work_collection e t i =
     (if ts_Revision t \<le> 0 \<or> is_Revision i \<le> 0 \<or> task_validate (env_Ulid e) (ts_Task t) \<noteq> Inr () \<or>
         item_validate (env_Ulid e) (is_Item i) \<noteq> Inr () \<or> tk_CollectionStartedAt (ts_Task t) = None \<or>
         it_TaskID (is_Item i) \<noteq> tk_ID (ts_Task t) \<or> it_Phase (is_Item i) \<noteq> Settled \<or>
         it_ActiveAttemptID (is_Item i) \<noteq> []
      then Inl ValidationFailed
      else Inr \<lparr>ch_Conditions =
             [cond (task_key (tk_ID (ts_Task t))) (ts_Revision t),
              cond (item_key (it_ID (is_Item i))) (is_Revision i),
              \<lparr>cn_Key = attempt_index_prefix (it_ID (is_Item i)), cn_ModRevision = 0, cn_Prefix = True\<rparr>,
              no_key (item_queue_key (is_Item i)), no_key (input_queue_key (it_ID (is_Item i)))],
           ch_Mutations =
             [del (item_key (it_ID (is_Item i))), del (task_item_key (tk_ID (ts_Task t)) (it_ID (is_Item i))),
              del (input_settlement_key (it_ID (is_Item i)))]\<rparr>)"

section \<open>Controller decisions\<close>

definition prepare_expiry_fence :: "queue_env \<Rightarrow> assignment \<Rightarrow> gotime \<Rightarrow> change res" where
  "prepare_expiry_fence e r now =
     (let it = is_Item (as_Item r); t = ts_Task (as_Task r) in
      if item_validate (env_Ulid e) it \<noteq> Inr () \<or> task_validate (env_Ulid e) t \<noteq> Inr () \<or>
         ts_Revision (as_Task r) \<le> 0 \<or> is_Revision (as_Item r) \<le> 0 \<or> as_QueueRevision r \<le> 0 \<or>
         as_ReadRevision r \<le> 0 \<or> it_TaskID it \<noteq> tk_ID t \<or> it_ActiveAttemptID it \<noteq> [] \<or> it_Phase it \<noteq> Ready \<or>
         before now (it_Deadline it) \<or> tk_Stop t \<noteq> None \<or> \<not> tk_PublicationComplete t \<or>
         tk_FinishedAt t \<noteq> None \<or> tk_CollectionStartedAt t \<noteq> None
      then Inl ValidationFailed
      else Inr \<lparr>ch_Conditions =
             [cond (task_key (tk_ID t)) (ts_Revision (as_Task r)),
              cond (item_key (it_ID it)) (is_Revision (as_Item r)),
              cond (item_queue_key it) (as_QueueRevision r)],
           ch_Mutations = []\<rparr>)"

fun unclaimed_conditions :: "claim list \<Rightarrow> claim_snapshot list \<Rightarrow> condition list res" where
  "unclaimed_conditions (c # cs) (s # ss) =
     (if cs_Claim s \<noteq> c \<or> cs_Owner s \<noteq> None \<or> cs_Revision s \<noteq> 0 then Inl ValidationFailed
      else try_res (unclaimed_conditions cs ss) (\<lambda>rest. Inr (no_key (claim_key c) # rest)))"
| "unclaimed_conditions cs [] = Inr []"
| "unclaimed_conditions [] (s # ss) = Inl Panic"

definition prepare_decision_fence :: "queue_env \<Rightarrow> assignment \<Rightarrow> change res" where
  "prepare_decision_fence e r =
     (let it = is_Item (as_Item r); t = ts_Task (as_Task r) in
      if \<not> as_DecisionOnly r \<or> as_ReadRevision r \<le> 0 \<or> ts_Revision (as_Task r) \<le> 0 \<or> is_Revision (as_Item r) \<le> 0 \<or>
         item_validate (env_Ulid e) it \<noteq> Inr () \<or> task_validate (env_Ulid e) t \<noteq> Inr () \<or> it_TaskID it \<noteq> tk_ID t \<or>
         pl_Executor (it_Placement it) \<noteq> ControllerExecutor \<or> it_AttemptNumber it \<noteq> 0 \<or>
         it_ActiveAttemptID it \<noteq> [] \<or> it_Phase it \<noteq> Ready \<or> tk_Stop t \<noteq> None \<or>
         \<not> tk_PublicationComplete t \<or> tk_FinishedAt t \<noteq> None \<or>
         length (as_Dependencies r) \<noteq> length (it_Dependencies it) \<or>
         length (as_Claims r) \<noteq> length (it_Claims it) \<or> es_Revision (as_Executor r) \<le> 0 \<or> as_QueueRevision r \<le> 0
      then Inl ValidationFailed
      else try_res (assignment_dependencies (env_Ulid e) r) (\<lambda>_.
      try_res (unclaimed_conditions (it_Claims it) (as_Claims r)) (\<lambda>free.
      try_res (task_reservation_conditions (env_Ulid e) t it (as_Reservations r)) (\<lambda>rs.
        Inr \<lparr>ch_Conditions =
               [cond (task_key (tk_ID t)) (ts_Revision (as_Task r)),
                cond (item_key (it_ID it)) (is_Revision (as_Item r)),
                cond (item_queue_key it) (as_QueueRevision r),
                cond (executor_key (ex_Identity (es_Record (as_Executor r)))) (es_Revision (as_Executor r))] @
               free @ rs,
             ch_Mutations = []\<rparr>))))"

section \<open>Executors and reservations\<close>

definition executor_change :: "queue_env \<Rightarrow> int \<Rightarrow> executor_record \<Rightarrow> change res" where
  "executor_change e revision next =
     try_res (encode_executor e next) (\<lambda>v.
       Inr \<lparr>ch_Conditions = [cond (executor_key (ex_Identity next)) revision],
            ch_Mutations = [put (executor_key (ex_Identity next)) v]\<rparr>)"

definition prepare_registration ::
  "queue_env \<Rightarrow> executor_snapshot \<Rightarrow> executor_record \<Rightarrow> (change \<times> executor_record) res" where
  "prepare_registration e previous requested =
     (if es_Revision previous < 0 \<or> idn_Generation (ex_Identity requested) \<noteq> 0 then Inl ValidationFailed
      else try_res
        (if 0 < es_Revision previous then
           try_res (executor_validate (env_Ulid e) (es_Record previous)) (\<lambda>_.
           let old = ex_Identity (es_Record previous) in
           if idn_Executor old = AgentExecutor \<and>
              ex_ProcessGeneration (es_Record previous) = ex_ProcessGeneration requested
             then Inl ValidationFailed
           else if idn_Executor old \<noteq> idn_Executor (ex_Identity requested) \<or>
                   idn_HostID old \<noteq> idn_HostID (ex_Identity requested) \<or> idn_Generation old = - 1
             then Inl ValidationFailed
           else Inr (idn_Generation old + 1))
         else Inr 1) (\<lambda>generation.
      let next = requested\<lparr>ex_Identity := (ex_Identity requested)\<lparr>idn_Generation := generation\<rparr>, ex_Ready := False\<rparr>
      in try_res (executor_change e (es_Revision previous) next) (\<lambda>ch. Inr (ch, next))))"

definition prepare_availability ::
  "queue_env \<Rightarrow> executor_snapshot \<Rightarrow> identity \<Rightarrow> bool \<Rightarrow> u16 \<Rightarrow> operation list \<Rightarrow> change res" where
  "prepare_availability e previous who ready capacity unavailable =
     (if es_Revision previous \<le> 0 \<or> ex_Identity (es_Record previous) \<noteq> who then Inl StateConflict
      else executor_change e (es_Revision previous)
        ((es_Record previous)\<lparr>ex_Ready := ready, ex_Capacity := capacity, ex_Unavailable := unavailable\<rparr>))"

definition prepare_task_reservation :: "queue_env \<Rightarrow> task \<Rightarrow> claim \<Rightarrow> change res" where
  "prepare_task_reservation e t c =
     (if task_validate (env_Ulid e) t \<noteq> Inr () \<or> tk_PublicationComplete t \<or> progress_total (tk_Progress t) \<noteq> 0 \<or>
         tk_FinishedAt t \<noteq> None \<or> tk_CollectionStartedAt t \<noteq> None \<or> tk_Stop t \<noteq> None \<or>
         sc_EnvironmentID (tk_Scope t) = [] \<or> c \<noteq> environment_claim t
        then Inl ValidationFailed
      else let r = \<lparr>tr_TaskID = tk_ID t, tr_Intent = tk_Intent t, tr_Claim = c\<rparr> in
      try_res (reservation_validate (env_Ulid e) r) (\<lambda>_.
      try_res (encode_stored e (StReservation r)) (\<lambda>v.
        Inr \<lparr>ch_Conditions = [no_key (task_key (tk_ID t)), no_key (reservation_key c),
               no_key (reservation_index_key (tk_ID t)), no_key (claim_key c)],
             ch_Mutations = [put (reservation_key c) v, put (reservation_index_key (tk_ID t)) v]\<rparr>)))"

section \<open>Commit\<close>

definition maximum_operations :: nat where "maximum_operations = 96"
definition maximum_bytes :: nat where "maximum_bytes = 1048576"

text \<open>
  \<open>Repository.Commit\<close>: one transaction for all changes, within the limits of the store. The size of the serialized
  request is that of the etcd client's encoding, a parameter.
\<close>

definition commit :: "(change \<Rightarrow> nat) \<Rightarrow> kv_store \<Rightarrow> change list \<Rightarrow> (bool \<times> kv_store) res" where
  "commit request_bytes s chs =
     try_res (join_changes chs) (\<lambda>joined.
     if maximum_operations < length (ch_Conditions joined) + length (ch_Mutations joined) \<or>
        maximum_bytes < request_bytes joined
       then Inl ValidationFailed
     else let (ok, s') = transact s (ch_Conditions joined) (ch_Mutations joined) in
       if st_Revision s' \<le> 0 then Inl InternalError else Inr (ok, s'))"

end
