(* ===== verification/QueuePublication.thy ===== *)
theory QueuePublication
  imports QueueOperations
begin

text \<open>
  The publication of whole Tasks and the retirement of their records (\<open>task.go\<close>, \<open>task_listing.go\<close>,
  \<open>task_replay.go\<close>, \<open>single_publication.go\<close>, \<open>staged_acceptance.go\<close>, \<open>decision_publication.go\<close>,
  \<open>captured_membership.go\<close>, \<open>publication_settlement.go\<close>, \<open>stop_cursor.go\<close>, \<open>attempt_collection.go\<close>,
  \<open>group_collection.go\<close>).
\<close>

section \<open>The records beside a Task\<close>

text \<open>
  What the queue reads of an \<open>IdempotencyMarker\<close>: its kind, state, Task and times, and the encoding of its locator.
  \<open>rm_Valid\<close> is the result of \<open>ValidateIdempotencyMarker\<close>, whose record of the request is not part of the queue.
\<close>

record replay_marker =
  rm_Valid :: bool
  rm_IsTask :: bool
  rm_Pending :: bool
  rm_TaskID :: string
  rm_CreatedAt :: gotime
  rm_UpdatedAt :: gotime
  rm_Locator :: string

definition replay_key :: "string \<Rightarrow> string" where
  "replay_key t = queue_root @ ''tasks/'' @ t @ ''/replay''"

definition task_items_prefix :: "string \<Rightarrow> string" where
  "task_items_prefix t = queue_root @ ''tasks/'' @ t @ ''/work/''"

definition journal_inventory_key :: "string \<Rightarrow> string" where
  "journal_inventory_key a = queue_root @ ''journal-inventory/'' @ a"

definition task_list_root :: string where
  "task_list_root = queue_root @ ''task-list/''"

definition task_list_keys :: "task \<Rightarrow> string list" where
  "task_list_keys t =
     [task_list_root @ ''all/'' @ tk_ID t] @
     (if sc_TenantID (tk_Scope t) = [] then [task_list_root @ ''platform/'' @ tk_ID t] else []) @
     map (\<lambda>x. task_list_root @ x @ ''/'' @ tk_ID t)
       (filter (\<lambda>x. x \<noteq> []) [sc_TenantID (tk_Scope t), sc_ProjectID (tk_Scope t), sc_EnvironmentID (tk_Scope t)])"

definition publish_task_list :: "change \<Rightarrow> task \<Rightarrow> change" where
  "publish_task_list ch t =
     with_parts ch (map (\<lambda>k. no_key k) (task_list_keys t)) (map (\<lambda>k. put k (StBytes (tk_ID t))) (task_list_keys t))"

definition replay_matches :: "task \<Rightarrow> replay_marker \<Rightarrow> bool" where
  "replay_matches t mk \<longleftrightarrow>
     rm_IsTask mk \<and> rm_Pending mk \<and> rm_TaskID mk = tk_ID t \<and>
     instant (rm_CreatedAt mk) = instant (tk_CreatedAt t) \<and> instant (rm_UpdatedAt mk) = instant (tk_CreatedAt t)"

definition bind_replay :: "queue_env \<Rightarrow> change \<Rightarrow> task \<Rightarrow> replay_marker \<Rightarrow> change res" where
  "bind_replay e ch t mk =
     (if \<not> rm_Valid mk \<or> \<not> replay_matches t mk then Inl ValidationFailed
      else try_res (encode_stored e (StReplay (rm_Locator mk))) (\<lambda>v.
        Inr (with_parts ch [no_key (replay_key (tk_ID t))] [put (replay_key (tk_ID t)) v])))"

section \<open>A new Task\<close>

text \<open>The checks that \<open>PrepareTask\<close> and \<open>PrepareSmallGraph\<close> share: nothing has happened to the Task.\<close>

definition fresh_task :: "task \<Rightarrow> bool" where
  "fresh_task t \<longleftrightarrow>
     \<not> tk_PublicationComplete t \<and> progress_total (tk_Progress t) = 0 \<and> tk_Outcome t = NoOutcome \<and>
     tk_FirstFailure t = None \<and> tk_FinishedAt t = None \<and> tk_Stop t = None \<and> tk_Activation t = None \<and>
     instant (tk_UpdatedAt t) = instant (tk_CreatedAt t)"

definition prepare_task :: "queue_env \<Rightarrow> task \<Rightarrow> replay_marker \<Rightarrow> change res" where
  "prepare_task e t mk =
     (if \<not> fresh_task t then Inl ValidationFailed
      else try_res (encode_task e t) (\<lambda>v.
      if \<not> replay_matches t mk then Inl ValidationFailed
      else try_res (bind_replay e
          \<lparr>ch_Conditions = [no_key (task_key (tk_ID t))],
           ch_Mutations = [put (task_key (tk_ID t)) v, put (publishing_key (tk_ID t)) (StBytes (tk_ID t))]\<rparr> t mk) (\<lambda>ch.
        Inr (publish_task_list ch t))))"

definition prepare_small_graph :: "queue_env \<Rightarrow> task \<Rightarrow> item list \<Rightarrow> replay_marker \<Rightarrow> change res" where
  "prepare_small_graph e t items mk =
     (if length items < 1 \<or> 8 < length items \<or> \<not> fresh_task t then Inl ValidationFailed
      else try_res (validate_graph (env_Ulid e) t items) (\<lambda>_.
      try_res (count_publication (env_Ulid e) t items (tk_CreatedAt t)) (\<lambda>next.
      try_res (encode_task e (next\<lparr>tk_PublicationComplete := True\<rparr>)) (\<lambda>v.
      try_res (item_creations e \<lparr>ch_Conditions = [], ch_Mutations = []\<rparr> items) (\<lambda>ch.
      try_res (bind_replay e (with_parts ch [no_key (task_key (tk_ID t))] [put (task_key (tk_ID t)) v]) t mk) (\<lambda>ch.
        Inr (publish_task_list ch t)))))))"

definition prepare_single_task :: "queue_env \<Rightarrow> task \<Rightarrow> item \<Rightarrow> replay_marker \<Rightarrow> change res" where
  "prepare_single_task e t it mk =
     (if tk_ExpectedItems t \<noteq> 1 then Inl ValidationFailed else prepare_small_graph e t [it] mk)"

text \<open>\<open>samePublishedItem\<close>: both encodings succeed and agree.\<close>

definition same_published_item :: "queue_env \<Rightarrow> item \<Rightarrow> item \<Rightarrow> bool res" where
  "same_published_item e expected actual =
     try_res (encode_item e expected) (\<lambda>left. try_res (encode_item e actual) (\<lambda>right. Inr (left = right)))"

fun initial_items :: "queue_env \<Rightarrow> item list \<Rightarrow> change \<Rightarrow> item list \<Rightarrow> change res" where
  "initial_items e graph ch [] = Inr ch"
| "initial_items e graph ch (it # its) =
     try_res (case find (\<lambda>g. it_ID g = it_ID it) graph of
                None \<Rightarrow> Inr False
              | Some captured \<Rightarrow> same_published_item e captured it) (\<lambda>found.
     if \<not> found then Inl ValidationFailed
     else try_res (prepare_item_creation e it) (\<lambda>part.
       initial_items e graph (with_parts ch (ch_Conditions part) (ch_Mutations part)) its))"

text \<open>The value of the first mutation of a key is replaced; \<open>None\<close> when there is none.\<close>

fun replace_value :: "string \<Rightarrow> stored \<Rightarrow> mutation list \<Rightarrow> mutation list option" where
  "replace_value k v [] = None"
| "replace_value k v (m # ms) =
     (if mu_Key m = k then Some (m\<lparr>mu_Value := v\<rparr> # ms) else map_option (\<lambda>r. m # r) (replace_value k v ms))"

definition prepare_staged_graph :: "queue_env \<Rightarrow> task \<Rightarrow> item list \<Rightarrow> item list \<Rightarrow> replay_marker \<Rightarrow> change res" where
  "prepare_staged_graph e t graph initial mk =
     (if length initial = 0 \<or> 8 < length initial \<or> length graph \<le> length initial then Inl ValidationFailed
      else try_res (validate_graph (env_Ulid e) t graph) (\<lambda>_.
      try_res (prepare_task e t mk) (\<lambda>ch.
      try_res (initial_items e graph ch initial) (\<lambda>ch.
      try_res (count_publication (env_Ulid e) t initial (tk_CreatedAt t)) (\<lambda>next.
      try_res (encode_task e next) (\<lambda>v.
      case replace_value (task_key (tk_ID t)) v (ch_Mutations ch) of
        None \<Rightarrow> Inl ValidationFailed
      | Some ms \<Rightarrow> Inr \<lparr>ch_Conditions = ch_Conditions ch, ch_Mutations = ms\<rparr>))))))"

section \<open>A decision that is already applied\<close>

definition prepare_settled_decision ::
  "queue_env \<Rightarrow> task \<Rightarrow> item \<Rightarrow> input \<Rightarrow> replay_marker \<Rightarrow> gotime \<Rightarrow> change res" where
  "prepare_settled_decision e t it evidence mk now =
     (if pl_Executor (it_Placement it) \<noteq> ControllerExecutor \<or> it_Phase it \<noteq> Waiting \<or> it_Input it \<noteq> None \<or>
         (case it_Wait it of None \<Rightarrow> True | Some w \<Rightarrow> wt_Reason w \<noteq> WaitInput) \<or> it_Dependencies it \<noteq> [] \<or>
         is_zero now \<or> \<not> is_utc now \<or> before now (tk_CreatedAt t) \<or> \<not> before now (tk_Deadline t)
        then Inl ValidationFailed
      else try_res (prepare_single_task e t it mk) (\<lambda>ch.
      try_res (settle_unstarted (env_Ulid e) it
          \<lparr>co_Outcome = Succeeded, co_Evidence = evidence, co_EffectsSettled = True\<rparr> now) (\<lambda>nextItem.
      try_res (count_publication (env_Ulid e) t [it] (tk_CreatedAt t)) (\<lambda>counted.
      try_res (count_transition (env_Ulid e) (counted\<lparr>tk_PublicationComplete := True\<rparr>) it nextItem now) (\<lambda>nextTask.
      try_res (encode_task e nextTask) (\<lambda>taskBytes.
      try_res (encode_item e nextItem) (\<lambda>itemBytes.
        Inr \<lparr>ch_Conditions =
               ch_Conditions ch @ map (\<lambda>c. no_key (claim_key c)) (it_Claims it) @
               (if sc_EnvironmentID (tk_Scope t) \<noteq> [] then [no_key (reservation_key (environment_claim t))] else []),
             ch_Mutations =
               filter (\<lambda>m. mu_Key m \<notin> {task_key (tk_ID t), item_key (it_ID it), input_queue_key (it_ID it)})
                 (ch_Mutations ch) @
               [put (task_key (tk_ID t)) taskBytes, put (item_key (it_ID it)) itemBytes,
                put (finish_key (tk_ID t)) (StBytes (tk_ID t))]\<rparr>)))))))"

section \<open>Publication without execution\<close>

fun rejected_progress :: "item list \<Rightarrow> progress \<Rightarrow> progress res" where
  "rejected_progress [] p = Inr p"
| "rejected_progress (it # its) p =
     (if it_Phase it \<noteq> Settled \<or> it_AttemptNumber it \<noteq> 0 \<or> it_ActiveAttemptID it \<noteq> [] \<or> it_Result it = None \<or>
         it_Cleanup it \<noteq> CleanupNone \<or> it_CleanupResult it \<noteq> None
        then Inl ValidationFailed
      else case it_Outcome it of
             Failed \<Rightarrow> rejected_progress its (p\<lparr>pg_Failed := pg_Failed p + 1\<rparr>)
           | Cancelled \<Rightarrow> rejected_progress its (p\<lparr>pg_Cancelled := pg_Cancelled p + 1\<rparr>)
           | Superseded \<Rightarrow> rejected_progress its (p\<lparr>pg_Superseded := pg_Superseded p + 1\<rparr>)
           | _ \<Rightarrow> Inl ValidationFailed)"

definition no_progress :: progress where
  "no_progress =
     \<lparr>pg_Waiting = 0, pg_Ready = 0, pg_Assigned = 0, pg_Running = 0, pg_Attention = 0, pg_Succeeded = 0,
      pg_Failed = 0, pg_Cancelled = 0, pg_Superseded = 0\<rparr>"

definition prepare_rejected_publication_complete ::
  "queue_env \<Rightarrow> task_snapshot \<Rightarrow> item list \<Rightarrow> gotime \<Rightarrow> change res" where
  "prepare_rejected_publication_complete e t items now =
     (if ts_Revision t \<le> 0 \<or> tk_PublicationComplete (ts_Task t) \<or> tk_FinishedAt (ts_Task t) \<noteq> None \<or>
         before now (tk_UpdatedAt (ts_Task t)) \<or> progress_unsettled (tk_Progress (ts_Task t)) \<noteq> 0 \<or>
         progress_total (tk_Progress (ts_Task t)) \<noteq> widen (tk_ExpectedItems (ts_Task t)) \<or>
         tk_Outcome (ts_Task t) = NoOutcome \<or> tk_Outcome (ts_Task t) = Succeeded
        then Inl ValidationFailed
      else try_res (validate_graph (env_Ulid e) (ts_Task t) items) (\<lambda>_.
      try_res (rejected_progress items no_progress) (\<lambda>p.
      if p \<noteq> tk_Progress (ts_Task t) then Inl ValidationFailed
      else task_change e t ((ts_Task t)\<lparr>tk_PublicationComplete := True, tk_UpdatedAt := now\<rparr>))))"

definition prepare_captured_membership :: "queue_env \<Rightarrow> task_snapshot \<Rightarrow> u32 \<Rightarrow> gotime \<Rightarrow> change res" where
  "prepare_captured_membership e s members now =
     (let t = ts_Task s in
      if ts_Revision s \<le> 0 \<or> tk_Action t \<noteq> ActionRemove \<or> tk_ExpectedItems t \<noteq> 0 \<or> tk_PublicationComplete t \<or>
         progress_total (tk_Progress t) \<noteq> 0 \<or> tk_FinishedAt t \<noteq> None \<or> members = 0 \<or>
         maximum_task_items < members \<or> before now (tk_UpdatedAt t)
      then Inl ValidationFailed
      else task_change e s (t\<lparr>tk_ExpectedItems := members, tk_UpdatedAt := now\<rparr>))"

section \<open>Progress of a stop\<close>

record stop_cursor =
  sp_TaskID :: string
  sp_After :: string

record stop_cursor_snapshot =
  sq_Record :: stop_cursor
  sq_Revision :: int

definition advance_stop :: "queue_env \<Rightarrow> stop_cursor_snapshot \<Rightarrow> task_snapshot \<Rightarrow> string \<Rightarrow> bool \<Rightarrow> change res" where
  "advance_stop e x t after_item finished =
     (if sq_Revision x \<le> 0 \<or> ts_Revision t \<le> 0 \<or> sp_TaskID (sq_Record x) \<noteq> tk_ID (ts_Task t) \<or>
         tk_Stop (ts_Task t) = None \<or> \<not> tk_PublicationComplete (ts_Task t) \<or>
         \<not> finished \<and> (\<not> id_valid (env_Ulid e) KindWorkItem after_item \<or> after_item \<le> sp_After (sq_Record x))
        then Inl ValidationFailed
      else try_res
        (if finished then Inr (del (stop_key (tk_ID (ts_Task t))))
         else try_res (encode_stored e (StStopCursor (tk_ID (ts_Task t)) after_item)) (\<lambda>v.
           Inr (put (stop_key (tk_ID (ts_Task t))) v))) (\<lambda>m.
        Inr \<lparr>ch_Conditions =
               [cond (stop_key (tk_ID (ts_Task t))) (sq_Revision x), cond (task_key (tk_ID (ts_Task t))) (ts_Revision t)],
             ch_Mutations = [m]\<rparr>))"

section \<open>Retirement of records\<close>

definition prepare_attempt_collection ::
  "queue_env \<Rightarrow> task_snapshot \<Rightarrow> item_snapshot \<Rightarrow> attempt_snapshot \<Rightarrow> change res" where
  "prepare_attempt_collection e t i a =
     (if ts_Revision t \<le> 0 \<or> is_Revision i \<le> 0 \<or> an_Revision a \<le> 0 \<or>
         task_validate (env_Ulid e) (ts_Task t) \<noteq> Inr () \<or> item_validate (env_Ulid e) (is_Item i) \<noteq> Inr () \<or>
         attempt_validate (env_Ulid e) (an_Attempt a) \<noteq> Inr () \<or> tk_CollectionStartedAt (ts_Task t) = None \<or>
         it_TaskID (is_Item i) \<noteq> tk_ID (ts_Task t) \<or> it_Phase (is_Item i) \<noteq> Settled \<or>
         it_ActiveAttemptID (is_Item i) \<noteq> [] \<or> at_TaskID (an_Attempt a) \<noteq> tk_ID (ts_Task t) \<or>
         at_WorkItemID (an_Attempt a) \<noteq> it_ID (is_Item i) \<or>
         it_AttemptNumber (is_Item i) < at_Number (an_Attempt a) \<or> at_FinishedAt (an_Attempt a) = None
      then Inl ValidationFailed
      else Inr \<lparr>ch_Conditions =
             [cond (task_key (tk_ID (ts_Task t))) (ts_Revision t),
              cond (item_key (it_ID (is_Item i))) (is_Revision i),
              cond (attempt_key (at_ID (an_Attempt a))) (an_Revision a)],
           ch_Mutations =
             [del (attempt_key (at_ID (an_Attempt a))),
              del (attempt_index_key (it_ID (is_Item i)) (at_Number (an_Attempt a))),
              del (checkpoint_key (at_ID (an_Attempt a))), del (journal_inventory_key (at_ID (an_Attempt a)))]\<rparr>)"

definition prepare_task_collection :: "queue_env \<Rightarrow> task_snapshot \<Rightarrow> change res" where
  "prepare_task_collection e t =
     (case tk_RetainUntil (ts_Task t) of
        None \<Rightarrow> Inl ValidationFailed
      | Some until \<Rightarrow>
          if ts_Revision t \<le> 0 \<or> task_validate (env_Ulid e) (ts_Task t) \<noteq> Inr () \<or>
             tk_CollectionStartedAt (ts_Task t) = None \<or> tk_FinishedAt (ts_Task t) = None \<or>
             progress_unsettled (tk_Progress (ts_Task t)) \<noteq> 0
          then Inl ValidationFailed
          else Inr \<lparr>ch_Conditions =
                 [cond (task_key (tk_ID (ts_Task t))) (ts_Revision t),
                  \<lparr>cn_Key = task_items_prefix (tk_ID (ts_Task t)), cn_ModRevision = 0, cn_Prefix = True\<rparr>,
                  no_key (publishing_key (tk_ID (ts_Task t))), no_key (finish_key (tk_ID (ts_Task t))),
                  no_key (reservation_index_key (tk_ID (ts_Task t)))],
               ch_Mutations =
                 [del (task_key (tk_ID (ts_Task t))), del (replay_key (tk_ID (ts_Task t))),
                  del (retention_key (tk_ID (ts_Task t)) until), del (stop_key (tk_ID (ts_Task t)))] @
                 map (\<lambda>k. del k) (task_list_keys (ts_Task t))\<rparr>)"

end
