(* ===== verification/QueueSafety.thy ===== *)
theory QueueSafety
  imports QueuePublication
begin

text \<open>
  The consistency of the stored queue. Six families of keys carry the safety of the queue: the items, the worker
  slots, the resource claims, the host effects, the ready queue and the input queue. \<open>consistent\<close> says that the
  last five are exactly what the items need. This theory gives, for every prepared change, its writes to these keys.
\<close>

section \<open>The keys that matter\<close>

definition core_prefixes :: "string list" where
  "core_prefixes =
     map (\<lambda>p. queue_root @ p) [''work/'', ''slots/'', ''claims/'', ''host-effects/'', ''ready/'', ''waiting-input/'']"

definition core_key :: "string \<Rightarrow> bool" where
  "core_key k \<longleftrightarrow> list_ex (\<lambda>p. has_prefix p k) core_prefixes"

definition core_free :: "mutation \<Rightarrow> bool" where
  "core_free m \<longleftrightarrow>
     \<not> core_key (mu_Key m) \<and> \<not> (mu_Prefix m \<and> list_ex (\<lambda>p. has_prefix (mu_Key m) p) core_prefixes)"

abbreviation core_free_change :: "change \<Rightarrow> bool" where
  "core_free_change ch \<equiv> list_all core_free (ch_Mutations ch)"

lemmas core_eval = core_key_def core_prefixes_def queue_root_def has_prefix_def

lemma core_keys [simp]:
  "core_key (item_key i)" "core_key (slot_key p n)" "core_key (claim_key c)" "core_key (host_effect_key h w)"
  "core_key (queue_key p i)" "core_key (input_queue_key i)" "core_key (item_queue_key it)" "core_key (item_effect_key it)"
  by (simp_all add: core_eval item_key_def slot_key_def claim_key_def host_effect_key_def queue_key_def
      queue_prefix_def input_queue_key_def item_queue_key_def item_effect_key_def)

lemma other_keys [simp]:
  "\<not> core_key (task_key i)" "\<not> core_key (attempt_key i)" "\<not> core_key (attempt_index_key i n)"
  "\<not> core_key (task_item_key i j)" "\<not> core_key (executor_key x)" "\<not> core_key (reservation_key c)"
  "\<not> core_key (reservation_index_key i)" "\<not> core_key (checkpoint_key i)" "\<not> core_key (finish_key i)"
  "\<not> core_key (publishing_key i)" "\<not> core_key (stop_key i)" "\<not> core_key (retention_key i t)"
  "\<not> core_key (input_settlement_key i)" "\<not> core_key (alert_key i j)" "\<not> core_key (replay_key i)"
  "\<not> core_key (journal_inventory_key i)" "\<not> core_key (task_list_root @ y)"
  by (simp_all add: core_eval queue_key_defs replay_key_def journal_inventory_key_def task_list_root_def)

lemma task_list_keys_free: "k \<in> set (task_list_keys t) \<Longrightarrow> \<not> core_key k"
  by (auto simp: task_list_keys_def split: if_splits)

text \<open>Two keys of different families differ in their first segment.\<close>

lemma family_distinct [simp]:
  "item_key i \<noteq> slot_key p n" "item_key i \<noteq> claim_key c" "item_key i \<noteq> host_effect_key h w"
  "item_key i \<noteq> queue_key p j" "item_key i \<noteq> input_queue_key j"
  "slot_key p n \<noteq> item_key i" "slot_key p n \<noteq> claim_key c" "slot_key p n \<noteq> host_effect_key h w"
  "slot_key p n \<noteq> queue_key q j" "slot_key p n \<noteq> input_queue_key j"
  "claim_key c \<noteq> item_key i" "claim_key c \<noteq> slot_key p n" "claim_key c \<noteq> host_effect_key h w"
  "claim_key c \<noteq> queue_key q j" "claim_key c \<noteq> input_queue_key j"
  "host_effect_key h w \<noteq> item_key i" "host_effect_key h w \<noteq> slot_key p n" "host_effect_key h w \<noteq> claim_key c"
  "host_effect_key h w \<noteq> queue_key q j" "host_effect_key h w \<noteq> input_queue_key j"
  "queue_key q j \<noteq> item_key i" "queue_key q j \<noteq> slot_key p n" "queue_key q j \<noteq> claim_key c"
  "queue_key q j \<noteq> host_effect_key h w" "queue_key q j \<noteq> input_queue_key i"
  "input_queue_key j \<noteq> item_key i" "input_queue_key j \<noteq> slot_key p n" "input_queue_key j \<noteq> claim_key c"
  "input_queue_key j \<noteq> host_effect_key h w" "input_queue_key j \<noteq> queue_key q i"
  by (simp_all add: queue_key_defs)

lemma input_queue_key_inject [simp]: "input_queue_key i = input_queue_key j \<longleftrightarrow> i = j"
  by (simp add: input_queue_key_def)

section \<open>The writes of a list of mutations to one key\<close>

lemma write_of_append:
  "write_of (xs @ ys) k = (case write_of ys k of None \<Rightarrow> write_of xs k | Some v \<Rightarrow> Some v)"
  by (induction ys rule: rev_induct) (simp_all add: write_of_snoc flip: append_assoc)

lemma write_of_single:
  "write_of [m] k = (if touches k m then Some (if mu_Type m = MutationPut then Some (mu_Value m) else None) else None)"
  by (simp add: write_of_def)

lemma write_of_Cons:
  "write_of (m # ms) k =
     (case write_of ms k of
        None \<Rightarrow> if touches k m then Some (if mu_Type m = MutationPut then Some (mu_Value m) else None) else None
      | Some v \<Rightarrow> Some v)"
  using write_of_append[of "[m]" ms k] by (simp add: write_of_single split: option.split)

lemma touches_simps [simp]:
  "touches k (put k' v) \<longleftrightarrow> k' = k" "touches k (del k') \<longleftrightarrow> k' = k"
  by (simp_all add: touches_def)

lemma write_of_puts:
  "write_of (map (\<lambda>x. put (f x) v) xs) k = (if k \<in> f ` set xs then Some (Some v) else None)"
  by (induction xs) (auto simp: write_of_Cons)

lemma write_of_dels:
  "write_of (map (\<lambda>x. del (f x)) xs) k = (if k \<in> f ` set xs then Some None else None)"
  by (induction xs) (auto simp: write_of_Cons)

definition core_writes :: "mutation list \<Rightarrow> mutation list" where
  "core_writes ms = filter (\<lambda>m. core_key (mu_Key m)) ms"

lemma core_writes_simps [simp]:
  "core_writes [] = []" "core_writes (m # ms) = (if core_key (mu_Key m) then m # core_writes ms else core_writes ms)"
  "core_writes (ms @ ns) = core_writes ms @ core_writes ns"
  by (simp_all add: core_writes_def)

lemma prefix_comparable:
  assumes "has_prefix p k" "has_prefix q k"
  shows "has_prefix p q \<or> has_prefix q p"
  using assms by (auto simp: has_prefix_iff append_eq_append_conv2)

lemma core_free_untouched:
  assumes "core_free m" "core_key k"
  shows "\<not> touches k m"
proof
  assume t: "touches k m"
  from assms(2) obtain p where p: "p \<in> set core_prefixes" "has_prefix p k" by (auto simp: core_key_def list_ex_iff)
  from assms(1) have c: "\<not> core_key (mu_Key m)" by (simp add: core_free_def)
  with t assms(2) have "mu_Prefix m" "has_prefix (mu_Key m) k" by (auto simp: touches_def)
  with p prefix_comparable[of p k "mu_Key m"] c assms(1) show False
    by (auto simp: core_free_def core_key_def list_ex_iff)
qed

lemma write_of_core_free: "list_all core_free ms \<Longrightarrow> core_key k \<Longrightarrow> write_of ms k = None"
  by (induction ms) (auto simp: write_of_Cons core_free_untouched)

text \<open>The prepared changes never delete by prefix, so their writes to a core key are those of \<open>core_writes\<close>.\<close>

definition plain :: "mutation list \<Rightarrow> bool" where
  "plain ms \<longleftrightarrow> list_all (\<lambda>m. \<not> mu_Prefix m) ms"

lemma plain_simps [simp]:
  "plain []" "plain (m # ms) \<longleftrightarrow> \<not> mu_Prefix m \<and> plain ms" "plain (ms @ ns) \<longleftrightarrow> plain ms \<and> plain ns"
  by (simp_all add: plain_def)

lemma write_of_core: "plain ms \<Longrightarrow> core_key k \<Longrightarrow> write_of ms k = write_of (core_writes ms) k"
  by (induction ms) (auto simp: write_of_Cons touches_def split: option.split)

section \<open>The core writes of each change\<close>

definition input_writes :: "bool \<Rightarrow> item \<Rightarrow> mutation list" where
  "input_writes previous it =
     (if previous = waiting_input it then []
      else if waiting_input it then [put (input_queue_key (it_ID it)) (StOwner (owner_of it))]
      else [del (input_queue_key (it_ID it))])"

lemma plain_input_writes [simp]: "plain (input_writes b it)"
  by (simp add: input_writes_def)

lemma core_writes_input [simp]: "core_writes (input_writes b it) = input_writes b it"
  by (simp add: input_writes_def)

lemma update_input_queue_Inr:
  "update_input_queue e ch b it = Inr ch' \<Longrightarrow> ch_Mutations ch' = ch_Mutations ch @ input_writes b it"
  by (auto simp: update_input_queue_def input_writes_def split: if_splits)

lemma retention_writes_free: "plain (retention_writes old new)" "core_writes (retention_writes old new) = []"
  by (auto simp: retention_writes_def Let_def split: option.splits)

lemma alert_transition_free:
  "alert_transition e old new = Inr ms \<Longrightarrow> plain ms \<and> core_writes ms = []"
  by (auto simp: alert_transition_def put_event_def split: if_splits)

lemma task_change_free:
  assumes "task_change e t next = Inr ch"
  shows "plain (ch_Mutations ch)" "core_writes (ch_Mutations ch) = []"
    "cond (task_key (tk_ID next)) (ts_Revision t) \<in> set (ch_Conditions ch)"
  using assms retention_writes_free[of "ts_Task t" "next"] alert_transition_free[of e "ts_Task t" "next"]
  by (auto simp: task_change_def encode_task_def split: if_splits)

lemma count_change_core:
  assumes "count_change e ch t old new now = Inr ch'" "plain (ch_Mutations ch)"
  shows "plain (ch_Mutations ch')"
    "core_writes (ch_Mutations ch') = core_writes (ch_Mutations ch) @ input_writes (waiting_input old) new"
  using assms by (auto simp: count_change_def task_change_free dest!: update_input_queue_Inr)

lemma update_input_queue_conditions:
  "update_input_queue e ch b it = Inr ch' \<Longrightarrow> set (ch_Conditions ch) \<subseteq> set (ch_Conditions ch')"
  by (auto simp: update_input_queue_def split: if_splits)

lemma count_change_conditions:
  assumes "count_change e ch t old new now = Inr ch'"
  shows "set (ch_Conditions ch) \<subseteq> set (ch_Conditions ch')"
    "cond (task_key (it_TaskID new)) (ts_Revision t) \<in> set (ch_Conditions ch')"
proof -
  from assms obtain "next" part where n: "count_transition (env_Ulid e) (ts_Task t) old new now = Inr next"
    "task_change e t next = Inr part"
    "update_input_queue e (with_parts ch (ch_Conditions part) (ch_Mutations part)) (waiting_input old) new = Inr ch'"
    by (auto simp: count_change_def)
  have sub: "set (ch_Conditions ch) \<union> set (ch_Conditions part) \<subseteq> set (ch_Conditions ch')"
    using update_input_queue_conditions[OF n(3)] by simp
  then show "set (ch_Conditions ch) \<subseteq> set (ch_Conditions ch')" by simp
  have "tk_ID next = it_TaskID new"
    using n(1) by (auto simp: count_transition_def try_res_unit Let_def split: option.splits if_splits)
  with sub task_change_free(3)[OF n(2)] show "cond (task_key (it_TaskID new)) (ts_Revision t) \<in> set (ch_Conditions ch')"
    by auto
qed

lemma retry_change_conditions:
  "retry_change e ch t old new now = Inr ch' \<Longrightarrow> set (ch_Conditions ch) \<subseteq> set (ch_Conditions ch')"
  by (auto simp: retry_change_def)

lemma retry_change_core:
  assumes "retry_change e ch t old new now = Inr ch'" "plain (ch_Mutations ch)"
  shows "plain (ch_Mutations ch')" "core_writes (ch_Mutations ch') = core_writes (ch_Mutations ch)"
  using assms by (auto simp: retry_change_def task_change_free)

lemma encode_item_Inr: "encode_item e it = Inr v \<longleftrightarrow> item_ok (env_Ulid e) it \<and> encode_stored e (StItem it) = Inr v"
  by (auto simp: encode_item_def try_res_unit)

lemma encode_attempt_Inr:
  "encode_attempt e a = Inr v \<Longrightarrow> v = StAttempt a \<and> attempt_validate (env_Ulid e) a = Inr ()"
  by (auto simp: encode_attempt_def try_res_unit)

lemma item_change_core:
  assumes "item_change e t i next dequeue now = Inr ch"
  shows "item_ok (env_Ulid e) next" "plain (ch_Mutations ch)"
    "core_writes (ch_Mutations ch) =
       [put (item_key (it_ID next)) (StItem next)] @ (if dequeue then [del (item_queue_key next)] else []) @
       input_writes (waiting_input (is_Item i)) next"
proof -
  from assms have ok: "item_ok (env_Ulid e) next" and c: "count_change e
       \<lparr>ch_Conditions = [cond (item_key (it_ID next)) (is_Revision i)],
        ch_Mutations = [put (item_key (it_ID next)) (StItem next)] @ (if dequeue then [del (item_queue_key next)] else [])\<rparr>
       t (is_Item i) next now = Inr ch"
    by (auto simp: item_change_def encode_item_Inr)
  show "item_ok (env_Ulid e) next" by (rule ok)
  show "plain (ch_Mutations ch)" by (rule count_change_core(1)[OF c]) simp
  show "core_writes (ch_Mutations ch) =
       [put (item_key (it_ID next)) (StItem next)] @ (if dequeue then [del (item_queue_key next)] else []) @
       input_writes (waiting_input (is_Item i)) next"
    using count_change_core(2)[OF c] by simp
qed

lemma ready_change_core:
  assumes "prepare_ready_change e i next = Inr ch"
  shows "item_ok (env_Ulid e) next" "plain (ch_Mutations ch)"
    "core_writes (ch_Mutations ch) =
       [put (item_key (it_ID next)) (StItem next)] @
       (if it_Phase next = Ready \<or> retry_waiting next then [put (item_queue_key next) (StOwner (owner_of next))] else [])"
  using assms by (auto simp: prepare_ready_change_def encode_item_Inr Let_def split: if_splits)

end
