(* ===== verification/QueueConsistent.thy ===== *)
theory QueueConsistent
  imports QueueSafety
begin

text \<open>
  \<open>consistent\<close>: the slots, claims, host effects and queue entries in the store are exactly those its items require. An
  item with an active attempt holds one slot. An item whose effects are unresolved (an active attempt, or a cleanup
  that is required, running or stopped) holds every one of its claims. The facts here say how the invariant survives a
  change of one item; \<open>QueueSteps\<close> applies them to the operations.
\<close>

section \<open>What an item requires of the store\<close>

abbreviation active :: "item \<Rightarrow> bool" where
  "active it \<equiv> it_ActiveAttemptID it \<noteq> []"

definition effects_open :: "item \<Rightarrow> bool" where
  "effects_open it \<longleftrightarrow>
     active it \<or> it_Cleanup it = CleanupRequired \<or> it_Cleanup it = CleanupRunning \<or> it_Cleanup it = CleanupStopped"

definition queued :: "item \<Rightarrow> bool" where
  "queued it \<longleftrightarrow> it_Phase it = Ready \<or> retry_waiting it \<and> it_AttemptNumber it \<noteq> 0"

definition stored_item :: "(string \<Rightarrow> stored option) \<Rightarrow> string \<Rightarrow> item option" where
  "stored_item m w = (case m (item_key w) of Some (StItem it) \<Rightarrow> Some it | _ \<Rightarrow> None)"

definition queue_entry :: "item option \<Rightarrow> placement \<Rightarrow> stored option" where
  "queue_entry x p =
     (case x of None \<Rightarrow> None
      | Some it \<Rightarrow> if queued it \<and> it_Placement it = p then Some (StOwner (owner_of it)) else None)"

definition input_entry :: "item option \<Rightarrow> stored option" where
  "input_entry x =
     (case x of None \<Rightarrow> None | Some it \<Rightarrow> if waiting_input it then Some (StOwner (owner_of it)) else None)"

definition effect_entry :: "item option \<Rightarrow> string \<Rightarrow> stored option" where
  "effect_entry x h =
     (case x of None \<Rightarrow> None
      | Some it \<Rightarrow>
          if effects_open it \<and> it_Placement it = \<lparr>pl_Executor = AgentExecutor, pl_HostID = h\<rparr>
          then Some (StHostEffect (owner_of it)) else None)"

lemmas entry_defs = queue_entry_def input_entry_def effect_entry_def

definition items_ok :: "ulid_check \<Rightarrow> (string \<Rightarrow> stored option) \<Rightarrow> bool" where
  "items_ok u m \<longleftrightarrow> (\<forall>w v. m (item_key w) = Some v \<longrightarrow> (\<exists>it. v = StItem it \<and> item_ok u it \<and> it_ID it = w))"

definition entries_ok :: "ulid_check \<Rightarrow> (string \<Rightarrow> stored option) \<Rightarrow> bool" where
  "entries_ok u m \<longleftrightarrow>
     (\<forall>w. m (input_queue_key w) = input_entry (stored_item m w) \<and>
       (\<forall>p. placement_validate u p = Inr () \<longrightarrow> m (queue_key p w) = queue_entry (stored_item m w) p) \<and>
       (\<forall>h. id_valid u KindHost h \<longrightarrow> m (host_effect_key h w) = effect_entry (stored_item m w) h))"

definition claims_ok :: "ulid_check \<Rightarrow> (string \<Rightarrow> stored option) \<Rightarrow> bool" where
  "claims_ok u m \<longleftrightarrow>
     (\<forall>c v. host_shape u (cl_HostID c) \<longrightarrow>
        (m (claim_key c) = Some v \<longleftrightarrow>
         (\<exists>w it. stored_item m w = Some it \<and> effects_open it \<and> c \<in> set (it_Claims it) \<and> v = StClaim (owner_of it))))"

definition slots_ok :: "ulid_check \<Rightarrow> (string \<Rightarrow> stored option) \<Rightarrow> bool" where
  "slots_ok u m \<longleftrightarrow>
     (\<forall>p n v. placement_validate u p = Inr () \<longrightarrow> m (slot_key p n) = Some v \<longrightarrow>
        (\<exists>w it. stored_item m w = Some it \<and> active it \<and> it_Placement it = p \<and> v = StSlot (slot_of it))) \<and>
     (\<forall>w it. stored_item m w = Some it \<longrightarrow> active it \<longrightarrow>
        (\<exists>!n. m (slot_key (it_Placement it) n) = Some (StSlot (slot_of it))))"

definition consistent :: "ulid_check \<Rightarrow> (string \<Rightarrow> stored option) \<Rightarrow> bool" where
  "consistent u m \<longleftrightarrow> items_ok u m \<and> entries_ok u m \<and> claims_ok u m \<and> slots_ok u m"

lemma stored_itemD:
  assumes "items_ok u m" "stored_item m w = Some it"
  shows "m (item_key w) = Some (StItem it)" "item_ok u it" "it_ID it = w"
  using assms by (auto simp: items_ok_def stored_item_def split: option.splits stored.splits)

lemma stored_itemI: "m (item_key w) = Some (StItem it) \<Longrightarrow> stored_item m w = Some it"
  by (simp add: stored_item_def)

lemma item_ok_placement: "item_ok u it \<Longrightarrow> placement_validate u (it_Placement it) = Inr ()"
  by (simp add: item_ok_def item_static_ok_def)

lemma item_ok_claims:
  assumes "item_ok u it" "c \<in> set (it_Claims it)"
  shows "host_shape u (cl_HostID c)"
  using assms by (auto simp: item_ok_def item_static_ok_def claim_ok_def host_shape_def)

lemma owner_of_inject: "owner_of a = owner_of b \<longleftrightarrow> it_TaskID a = it_TaskID b \<and> it_ID a = it_ID b"
  by (auto simp: owner_of_def)

section \<open>A change of one item\<close>

lemma stored_item_update:
  assumes "\<And>w'. m' (item_key w') = (if w' = w then Some (StItem it) else m (item_key w'))"
  shows "stored_item m' = (stored_item m)(w \<mapsto> it)"
  by (rule ext) (simp add: stored_item_def assms)

lemma items_ok_update:
  assumes "items_ok u m" "\<And>w'. m' (item_key w') = (if w' = w then Some (StItem it) else m (item_key w'))"
    "item_ok u it" "it_ID it = w"
  shows "items_ok u m'"
  using assms unfolding items_ok_def by simp

lemma entries_ok_update:
  assumes "entries_ok u m" "stored_item m' = (stored_item m)(w := x)"
    and "\<And>w'. w' \<noteq> w \<Longrightarrow> m' (input_queue_key w') = m (input_queue_key w')"
    and "\<And>p w'. placement_validate u p = Inr () \<Longrightarrow> w' \<noteq> w \<Longrightarrow> m' (queue_key p w') = m (queue_key p w')"
    and "\<And>h w'. id_valid u KindHost h \<Longrightarrow> w' \<noteq> w \<Longrightarrow> m' (host_effect_key h w') = m (host_effect_key h w')"
    and "m' (input_queue_key w) = input_entry x"
    and "\<And>p. placement_validate u p = Inr () \<Longrightarrow> m' (queue_key p w) = queue_entry x p"
    and "\<And>h. id_valid u KindHost h \<Longrightarrow> m' (host_effect_key h w) = effect_entry x h"
  shows "entries_ok u m'"
  using assms unfolding entries_ok_def by (auto simp: fun_upd_apply)

text \<open>The claims after a change: those of the item follow its effects, the others stay.\<close>

lemma claims_ok_update:
  assumes c: "claims_ok u m" and i: "items_ok u m" and s: "stored_item m' = (stored_item m)(w \<mapsto> next)"
    and id: "it_ID next = w" and ok: "item_ok u next"
    and same: "\<And>it. stored_item m w = Some it \<Longrightarrow> it_TaskID it = it_TaskID next \<and> it_Claims it = it_Claims next"
    and other: "\<And>c. host_shape u (cl_HostID c) \<Longrightarrow> c \<notin> set (it_Claims next) \<Longrightarrow> m' (claim_key c) = m (claim_key c)"
    and mine: "\<And>c. c \<in> set (it_Claims next) \<Longrightarrow>
      m' (claim_key c) = (if effects_open next then Some (StClaim (owner_of next))
                          else if m (claim_key c) = Some (StClaim (owner_of next)) then None else m (claim_key c))"
    and free: "\<And>c. effects_open next \<Longrightarrow> c \<in> set (it_Claims next) \<Longrightarrow>
      m (claim_key c) = None \<or> m (claim_key c) = Some (StClaim (owner_of next))"
  shows "claims_ok u m'"
  unfolding claims_ok_def
proof (intro allI impI)
  fix c :: claim and v assume h: "host_shape u (cl_HostID c)"
  have old: "m (claim_key c) = Some v \<longleftrightarrow>
    (\<exists>w it. stored_item m w = Some it \<and> effects_open it \<and> c \<in> set (it_Claims it) \<and> v = StClaim (owner_of it))" for v
    using c h by (simp add: claims_ok_def)
  have others: "(\<exists>x it. stored_item m' x = Some it \<and> effects_open it \<and> c \<in> set (it_Claims it) \<and> v = StClaim (owner_of it)) \<longleftrightarrow>
      effects_open next \<and> c \<in> set (it_Claims next) \<and> v = StClaim (owner_of next) \<or>
      (\<exists>x it. x \<noteq> w \<and> stored_item m x = Some it \<and> effects_open it \<and> c \<in> set (it_Claims it) \<and> v = StClaim (owner_of it))"
    unfolding s by (auto split: if_splits)
  have mineold: "v = StClaim (owner_of next) \<longleftrightarrow> x = w"
    if "stored_item m x = Some it" "v = StClaim (owner_of it)" "stored_item m w \<noteq> None \<or> x \<noteq> w" for x it
    using that stored_itemD(3)[OF i that(1)] same id by (auto simp: owner_of_inject)
  have away: "(\<exists>x it. x \<noteq> w \<and> stored_item m x = Some it \<and> effects_open it \<and> c \<in> set (it_Claims it) \<and> v = StClaim (owner_of it)) \<longleftrightarrow>
      m (claim_key c) = Some v \<and> v \<noteq> StClaim (owner_of next)"
    unfolding old using mineold by blast
  show "m' (claim_key c) = Some v \<longleftrightarrow>
    (\<exists>w it. stored_item m' w = Some it \<and> effects_open it \<and> c \<in> set (it_Claims it) \<and> v = StClaim (owner_of it))"
  proof (cases "c \<in> set (it_Claims next)")
    case True
    then show ?thesis unfolding others away mine[OF True] using free[OF _ True] by auto
  next
    case False
    have "m (claim_key c) \<noteq> Some (StClaim (owner_of next))"
    proof
      assume "m (claim_key c) = Some (StClaim (owner_of next))"
      then obtain x it where x: "stored_item m x = Some it" "c \<in> set (it_Claims it)" "owner_of it = owner_of next"
        using old by auto
      then have "x = w" using stored_itemD(3)[OF i x(1)] id by (auto simp: owner_of_inject)
      with x(1,2) same False show False by auto
    qed
    then show ?thesis unfolding others away other[OF h False] using False by auto
  qed
qed

lemma slots_okD:
  assumes "slots_ok u m" "placement_validate u p = Inr ()" "m (slot_key p n) = Some v"
  obtains w it where "stored_item m w = Some it" "active it" "it_Placement it = p" "v = StSlot (slot_of it)"
  using assms unfolding slots_ok_def by blast

lemma slots_ok_one:
  assumes "slots_ok u m" "stored_item m w = Some it" "active it"
  obtains n where "m (slot_key (it_Placement it) n) = Some (StSlot (slot_of it))"
    "\<And>n'. m (slot_key (it_Placement it) n') = Some (StSlot (slot_of it)) \<Longrightarrow> n' = n"
  using assms unfolding slots_ok_def by blast

lemma slots_ok_same:
  assumes "slots_ok u m" "stored_item m' = (stored_item m)(w \<mapsto> next)" "items_ok u m"
    and "\<And>p n. placement_validate u p = Inr () \<Longrightarrow> m' (slot_key p n) = m (slot_key p n)"
    and ok: "item_ok u next"
    and "\<And>it. stored_item m w = Some it \<Longrightarrow>
      it_Placement it = it_Placement next \<and> slot_of it = slot_of next"
    and "stored_item m w = None \<Longrightarrow> \<not> active next"
  shows "slots_ok u m'"
proof -
  have act: "active it \<longleftrightarrow> active next" if "stored_item m w = Some it" for it
    using assms(6)[OF that] by (simp add: slot_of_def)
  show ?thesis
    unfolding slots_ok_def
  proof (intro conjI allI impI)
    fix p n v assume p: "placement_validate u p = Inr ()" "m' (slot_key p n) = Some v"
    with assms(4) have "m (slot_key p n) = Some v" by simp
    then obtain x it where x: "stored_item m x = Some it" "active it" "it_Placement it = p" "v = StSlot (slot_of it)"
      by (rule slots_okD[OF assms(1) p(1)])
    show "\<exists>w it. stored_item m' w = Some it \<and> active it \<and> it_Placement it = p \<and> v = StSlot (slot_of it)"
    proof (cases "x = w")
      case True
      then show ?thesis using x act assms(2,6) by (intro exI[of _ w] exI[of _ "next"]) auto
    next
      case False
      then show ?thesis using x assms(2) by (intro exI[of _ x] exI[of _ it]) auto
    qed
  next
    fix x it assume x: "stored_item m' x = Some it" "active it"
    show "\<exists>!n. m' (slot_key (it_Placement it) n) = Some (StSlot (slot_of it))"
    proof (cases "x = w")
      case True
      with x assms(2) have it: "it = next" by simp
      with x assms(7) obtain old where "stored_item m w = Some old" by auto
      then show ?thesis
        using assms(1,4,6) act x it item_ok_placement[OF ok] unfolding slots_ok_def by metis
    next
      case False
      with x assms(2) have "stored_item m x = Some it" by simp
      then show ?thesis
        using assms(1,4) x item_ok_placement[OF stored_itemD(2)[OF assms(3)]] unfolding slots_ok_def by metis
    qed
  qed
qed

lemma slots_ok_acquire:
  assumes "slots_ok u m" "stored_item m' = (stored_item m)(w \<mapsto> next)" "items_ok u m" "item_ok u next"
    and "\<And>p n. placement_validate u p = Inr () \<Longrightarrow>
      m' (slot_key p n) = (if p = it_Placement next \<and> n = n0 then Some (StSlot (slot_of next)) else m (slot_key p n))"
    and "m (slot_key (it_Placement next) n0) = None" "active next" "it_ID next = w"
    and inactive: "\<And>it. stored_item m w = Some it \<Longrightarrow> \<not> active it"
  shows "slots_ok u m'"
  unfolding slots_ok_def
proof (intro conjI allI impI)
  fix p n v assume p: "placement_validate u p = Inr ()" "m' (slot_key p n) = Some v"
  show "\<exists>w it. stored_item m' w = Some it \<and> active it \<and> it_Placement it = p \<and> v = StSlot (slot_of it)"
  proof (cases "p = it_Placement next \<and> n = n0")
    case True
    then show ?thesis using p assms(2,5,7) by (intro exI[of _ w] exI[of _ "next"]) auto
  next
    case False
    with p assms(5) have "m (slot_key p n) = Some v" by (auto split: if_splits)
    then obtain x it where "stored_item m x = Some it" "active it" "it_Placement it = p" "v = StSlot (slot_of it)"
      using assms(1) p(1) unfolding slots_ok_def by metis
    then show ?thesis using inactive assms(2) by (intro exI[of _ x] exI[of _ it]) auto
  qed
next
  fix x it assume x: "stored_item m' x = Some it" "active it"
  show "\<exists>!n. m' (slot_key (it_Placement it) n) = Some (StSlot (slot_of it))"
  proof (cases "x = w")
    case True
    with x assms(2) have it: "it = next" by simp
    have "m (slot_key (it_Placement next) n) \<noteq> Some (StSlot (slot_of next))" for n
    proof
      assume "m (slot_key (it_Placement next) n) = Some (StSlot (slot_of next))"
      then obtain y old where y: "stored_item m y = Some old" "active old" "slot_of old = slot_of next"
        by (rule slots_okD[OF assms(1) item_ok_placement[OF assms(4)]]) auto
      then have "y = w" using stored_itemD(3)[OF assms(3) y(1)] assms(8) by (simp add: slot_of_def)
      with y inactive show False by blast
    qed
    then show ?thesis using it assms(5) item_ok_placement[OF assms(4)] by (intro ex1I[of _ n0]) (auto split: if_splits)
  next
    case False
    with x assms(2) have s: "stored_item m x = Some it" by simp
    then have p: "placement_validate u (it_Placement it) = Inr ()"
      using item_ok_placement stored_itemD(2)[OF assms(3)] by blast
    obtain n where n: "m (slot_key (it_Placement it) n) = Some (StSlot (slot_of it))"
      "\<And>n'. m (slot_key (it_Placement it) n') = Some (StSlot (slot_of it)) \<Longrightarrow> n' = n"
      using slots_ok_one[OF assms(1) s x(2)] by blast
    have "slot_of next \<noteq> slot_of it" using False stored_itemD(3)[OF assms(3) s] assms(8) by (auto simp: slot_of_def)
    then have eq: "m' (slot_key (it_Placement it) k) = Some (StSlot (slot_of it)) \<longleftrightarrow>
        m (slot_key (it_Placement it) k) = Some (StSlot (slot_of it))" for k
      using assms(6) assms(5)[OF p, of k] by (cases "it_Placement it = it_Placement next \<and> k = n0") auto
    show ?thesis unfolding eq using n by blast
  qed
qed

lemma slots_ok_release:
  assumes "slots_ok u m" "stored_item m' = (stored_item m)(w := x)" "items_ok u m"
    and "stored_item m w = Some old" "m (slot_key (it_Placement old) n0) = Some (StSlot (slot_of old))" "active old"
    and "\<And>p n. placement_validate u p = Inr () \<Longrightarrow>
      m' (slot_key p n) = (if p = it_Placement old \<and> n = n0 then None else m (slot_key p n))"
    and "\<And>it. x = Some it \<Longrightarrow> \<not> active it"
  shows "slots_ok u m'"
proof -
  have p: "placement_validate u (it_Placement it) = Inr ()" if "stored_item m y = Some it" for y it
    using item_ok_placement stored_itemD(2)[OF assms(3) that] by blast
  have one: "n = n0" if "m (slot_key (it_Placement old) n) = Some (StSlot (slot_of old))" for n
    using that assms(1,4,5,6) unfolding slots_ok_def by blast
  show ?thesis
    unfolding slots_ok_def
  proof (intro conjI allI impI)
    fix p n v assume v: "placement_validate u p = Inr ()" "m' (slot_key p n) = Some v"
    with assms(7) have m: "m (slot_key p n) = Some v" "\<not> (p = it_Placement old \<and> n = n0)" by (auto split: if_splits)
    then obtain y it where y: "stored_item m y = Some it" "active it" "it_Placement it = p" "v = StSlot (slot_of it)"
      using assms(1) v(1) unfolding slots_ok_def by metis
    have "y \<noteq> w" using y m assms(4) one by auto
    then show "\<exists>w it. stored_item m' w = Some it \<and> active it \<and> it_Placement it = p \<and> v = StSlot (slot_of it)"
      using y assms(2) by (intro exI[of _ y] exI[of _ it]) auto
  next
    fix y it assume y: "stored_item m' y = Some it" "active it"
    have yw: "y \<noteq> w" using y assms(2,8) by auto
    with y assms(2) have s: "stored_item m y = Some it" by simp
    obtain n where n: "m (slot_key (it_Placement it) n) = Some (StSlot (slot_of it))"
      "\<And>n'. m (slot_key (it_Placement it) n') = Some (StSlot (slot_of it)) \<Longrightarrow> n' = n"
      using slots_ok_one[OF assms(1) s y(2)] by blast
    have "slot_of it \<noteq> slot_of old"
      using yw stored_itemD(3)[OF assms(3) s] stored_itemD(3)[OF assms(3,4)] by (auto simp: slot_of_def)
    then have eq: "m' (slot_key (it_Placement it) k) = Some (StSlot (slot_of it)) \<longleftrightarrow>
        m (slot_key (it_Placement it) k) = Some (StSlot (slot_of it))" for k
      using assms(5) assms(7)[OF p[OF s], of k] by (cases "it_Placement it = it_Placement old \<and> k = n0") auto
    show "\<exists>!n. m' (slot_key (it_Placement it) n) = Some (StSlot (slot_of it))"
      unfolding eq using n by blast
  qed
qed

end
