(* ===== verification/QueueSteps.thy ===== *)
theory QueueSteps
  imports QueueConsistent
begin

text \<open>
  A committed transaction: what its success says about the store before it and does to the store after it; and the
  updates of one item (its creation, its removal, a change that leaves its holdings alone) that keep the queue consistent.
\<close>

section \<open>A committed transaction\<close>

definition kv_now :: "kv_store \<Rightarrow> string \<Rightarrow> stored option" where
  "kv_now s k = map_option snd (value_at s k (st_Revision s))"

lemma commit_parts:
  assumes "commit rb s chs = Inr (ok, s')"
  obtains joined where "join_changes chs = Inr joined"
    "transact s (ch_Conditions joined) (ch_Mutations joined) = (ok, s')"
proof -
  obtain joined where j: "join_changes chs = Inr joined" using assms by (auto simp: commit_def)
  obtain b t where t: "transact s (ch_Conditions joined) (ch_Mutations joined) = (b, t)" by fastforce
  from assms j t have "b = ok" "t = s'" by (auto simp: commit_def split: if_splits)
  with j t that show thesis by simp
qed

lemma commit_refused: "commit rb s chs = Inr (False, s') \<Longrightarrow> s' = s"
  by (erule commit_parts) (rule mem.refused)

lemma commit_keeps_log: "commit rb s chs = Inr (ok, s') \<Longrightarrow> log_ok s \<Longrightarrow> log_ok s'"
  by (erule commit_parts) (rule mem.good_kept)

lemma commit_written:
  assumes "commit rb s chs = Inr (True, s')" "log_ok s"
  shows "kv_now s' k = (case write_of (concat (map ch_Mutations chs)) k of None \<Rightarrow> kv_now s k | Some v \<Rightarrow> v)"
proof -
  obtain joined where j: "join_changes chs = Inr joined"
    "transact s (ch_Conditions joined) (ch_Mutations joined) = (True, s')"
    using assms(1) by (rule commit_parts)
  show ?thesis
    using mem.written[OF assms(2) j(2), of k] join_changes_parts(2,4)[OF j(1)]
    by (auto simp: kv_now_def split: option.splits)
qed

lemma commit_condition:
  assumes "commit rb s chs = Inr (True, s')" "ch \<in> set chs" "c \<in> set (ch_Conditions ch)"
  obtains cs ms where "transact s cs ms = (True, s')" "c \<in> set cs"
proof -
  obtain joined where j: "join_changes chs = Inr joined"
    "transact s (ch_Conditions joined) (ch_Mutations joined) = (True, s')"
    using assms(1) by (rule commit_parts)
  have "c \<in> set (ch_Conditions joined)" using assms(2,3) join_changes_parts(1)[OF j(1)] by blast
  with j(2) show thesis by (rule that)
qed

lemma commit_snapshot:
  assumes "commit rb s chs = Inr (True, s')" "log_ok s" "ch \<in> set chs" "cond k r \<in> set (ch_Conditions ch)"
    "value_at s k r0 = Some (r, v)"
  shows "kv_now s k = Some v"
proof -
  obtain cs ms where t: "transact s cs ms = (True, s')" "cond k r \<in> set cs"
    using assms(1,3,4) by (rule commit_condition)
  show ?thesis using mem.snapshot_is_current[OF t(1) assms(2) t(2) assms(5)] by (simp add: kv_now_def)
qed

lemma commit_missing:
  assumes "commit rb s chs = Inr (True, s')" "log_ok s" "ch \<in> set chs" "no_key k \<in> set (ch_Conditions ch)"
  shows "kv_now s k = None"
proof -
  obtain cs ms where t: "transact s cs ms = (True, s')" "no_key k \<in> set cs"
    using assms(1,3,4) by (rule commit_condition)
  show ?thesis using mem.missing_is_current[OF t(1) assms(2) t(2)] by (simp add: kv_now_def)
qed

lemma commit_present:
  assumes "commit rb s chs = Inr (True, s')" "ch \<in> set chs" "cond k r \<in> set (ch_Conditions ch)" "0 < r"
  shows "kv_now s k \<noteq> None"
proof -
  obtain cs ms where t: "transact s cs ms = (True, s')" "cond k r \<in> set cs"
    using assms(1,2,3) by (rule commit_condition)
  show ?thesis using mem.compared[OF t] assms(4) by (auto simp: kv_now_def mod_of_def split: option.splits)
qed

text \<open>One change of the queue among changes of other owners.\<close>

lemma commit_core:
  assumes "commit rb s (pre @ ch # post) = Inr (True, s')" "log_ok s"
    "list_all core_free_change (pre @ post)" "plain (ch_Mutations ch)" "core_key k"
  shows "kv_now s' k = (case write_of (core_writes (ch_Mutations ch)) k of None \<Rightarrow> kv_now s k | Some v \<Rightarrow> v)"
proof -
  have "list_all core_free (concat (map ch_Mutations chs))" if "list_all core_free_change chs" for chs
    using that by (induction chs) auto
  then have "write_of (concat (map ch_Mutations pre)) k = None" "write_of (concat (map ch_Mutations post)) k = None"
    using assms(3,5) by (simp_all add: write_of_core_free)
  then have "write_of (concat (map ch_Mutations (pre @ ch # post))) k = write_of (ch_Mutations ch) k"
    by (simp add: write_of_append split: option.split)
  with commit_written[OF assms(1,2), of k] write_of_core[OF assms(4,5)] show ?thesis by simp
qed

section \<open>A change that moves one item without its holdings\<close>

lemma input_entry_update:
  assumes "m (input_queue_key w) = input_entry x" "it_ID next = w"
    "(case x of None \<Rightarrow> False | Some it \<Rightarrow> waiting_input it) = b"
    "\<And>it. x = Some it \<Longrightarrow> owner_of it = owner_of next"
  shows "(case write_of (input_writes b next) (input_queue_key w) of None \<Rightarrow> m (input_queue_key w) | Some v \<Rightarrow> v) =
    input_entry (Some next)"
  using assms by (cases x) (auto simp: input_writes_def input_entry_def write_of_Cons)

lemma input_writes_elsewhere:
  "k \<noteq> input_queue_key (it_ID it) \<Longrightarrow> write_of (input_writes b it) k = None"
  by (simp add: input_writes_def write_of_Cons)

lemma quiet_update:
  assumes con: "consistent u m" and old: "stored_item m w = Some it"
    and ok: "item_ok u next" "it_ID next = w" "it_TaskID next = it_TaskID it" "it_Placement next = it_Placement it"
      "it_Claims next = it_Claims it" "it_ActiveAttemptID next = it_ActiveAttemptID it"
      "effects_open next = effects_open it"
    and m': "\<And>k. core_key k \<Longrightarrow> m' k = (case write_of L k of None \<Rightarrow> m k | Some v \<Rightarrow> v)"
    and L: "L = [put (item_key w) (StItem next)] @ Q @ input_writes (waiting_input it) next"
    and Q: "\<And>k. write_of Q k = (if k = item_queue_key next then q else None)"
    and q: "case q of None \<Rightarrow> queued next = queued it | Some None \<Rightarrow> \<not> queued next
            | Some (Some v) \<Rightarrow> queued next \<and> v = StOwner (owner_of next)"
  shows "consistent u m'"
proof -
  from con have parts: "items_ok u m" "entries_ok u m" "claims_ok u m" "slots_ok u m" by (simp_all add: consistent_def)
  have id: "it_ID it = w" using stored_itemD(3)[OF parts(1) old] .
  have own: "owner_of next = owner_of it" using ok id by (simp add: owner_of_def)
  have W: "write_of L k = (case write_of (input_writes (waiting_input it) next) k of
      None \<Rightarrow> if k = item_queue_key next \<and> q \<noteq> None then q
              else if k = item_key w then Some (Some (StItem next)) else None
    | Some v \<Rightarrow> Some v)" for k
    unfolding L write_of_append write_of_single Q by (simp split: option.split)
  have quiet: "m' k = m k" if "core_key k" "k \<noteq> item_key w" "k \<noteq> item_queue_key next" "k \<noteq> input_queue_key w" for k
    using that m'[OF that(1)] ok(2) by (simp add: W input_writes_elsewhere)
  have mitem: "m' (item_key w') = (if w' = w then Some (StItem next) else m (item_key w'))" for w'
    using m'[of "item_key w'"] by (simp add: W input_writes_elsewhere item_queue_key_def)
  then have st: "stored_item m' = (stored_item m)(w \<mapsto> next)" by (rule stored_item_update)
  have qk: "queue_key p x = item_queue_key next \<longleftrightarrow> p = it_Placement next \<and> x = w"
    if "placement_validate u p = Inr ()" for p x
    using queue_key_inject[OF that item_ok_placement[OF ok(1)]] ok(2) by (simp add: item_queue_key_def)
  have "entries_ok u m'"
  proof (rule entries_ok_update[OF parts(2) st])
    have "(case write_of (input_writes (waiting_input it) next) (input_queue_key w) of
        None \<Rightarrow> m (input_queue_key w) | Some v \<Rightarrow> v) = input_entry (Some next)"
      by (rule input_entry_update[of m w "Some it"]) (use parts(2) old own ok(2) in \<open>auto simp: entries_ok_def\<close>)
    moreover have "m' (input_queue_key w) = (case write_of (input_writes (waiting_input it) next) (input_queue_key w) of
        None \<Rightarrow> m (input_queue_key w) | Some v \<Rightarrow> v)"
      using m'[of "input_queue_key w"] by (simp add: W item_queue_key_def split: option.split)
    ultimately show "m' (input_queue_key w) = input_entry (Some next)" by simp
  next
    fix p assume p: "placement_validate u p = Inr ()"
    have e: "m (queue_key p w) = queue_entry (Some it) p" using parts(2) p old by (simp add: entries_ok_def)
    show "m' (queue_key p w) = queue_entry (Some next) p"
    proof (cases "p = it_Placement next")
      case True
      then have k: "queue_key p w = item_queue_key next" using qk[OF p] by simp
      have "item_queue_key next \<noteq> item_key w" "write_of (input_writes b next) (item_queue_key next) = None" for b
        by (simp_all add: item_queue_key_def input_writes_elsewhere)
      then have "m' (queue_key p w) = (case q of None \<Rightarrow> m (queue_key p w) | Some v \<Rightarrow> v)"
        unfolding k using m'[of "item_queue_key next"] by (simp add: W split: option.split)
      then show ?thesis using q e own ok(4) True by (auto simp: queue_entry_def split: option.splits)
    next
      case False
      then have "m' (queue_key p w) = m (queue_key p w)" using quiet[of "queue_key p w"] qk[OF p] by simp
      then show ?thesis using e ok(4) False by (simp add: queue_entry_def)
    qed
  next
    fix p w' assume "placement_validate u p = Inr ()" "w' \<noteq> w"
    then show "m' (queue_key p w') = m (queue_key p w')" using quiet[of "queue_key p w'"] qk by simp
  next
    fix h w' assume "id_valid u KindHost h"
    show "m' (host_effect_key h w') = m (host_effect_key h w')"
      using quiet[of "host_effect_key h w'"] by (simp add: item_queue_key_def)
  next
    fix h assume "id_valid u KindHost h"
    then have "m (host_effect_key h w) = effect_entry (Some it) h" using parts(2) old by (simp add: entries_ok_def)
    moreover have "m' (host_effect_key h w) = m (host_effect_key h w)"
      using quiet[of "host_effect_key h w"] by (simp add: item_queue_key_def)
    ultimately show "m' (host_effect_key h w) = effect_entry (Some next) h"
      using own ok by (simp add: effect_entry_def)
  qed (use quiet in \<open>simp add: item_queue_key_def\<close>)
  moreover have claim_same: "m' (claim_key c) = m (claim_key c)" for c
    using quiet[of "claim_key c"] by (simp add: item_queue_key_def)
  have "claims_ok u m'"
  proof (rule claims_ok_update[OF parts(3,1) st ok(2,1)])
    fix c assume c: "c \<in> set (it_Claims next)"
    then have h: "host_shape u (cl_HostID c)" using item_ok_claims[OF ok(1)] by blast
    have held: "m (claim_key c) = Some (StClaim (owner_of next)) \<longleftrightarrow> effects_open it"
    proof
      assume "m (claim_key c) = Some (StClaim (owner_of next))"
      then obtain x other where "stored_item m x = Some other" "effects_open other" "owner_of other = owner_of it"
        using parts(3) h own unfolding claims_ok_def by fastforce
      then show "effects_open it" using stored_itemD(3)[OF parts(1), of x other] old id by (auto simp: owner_of_inject)
    next
      assume "effects_open it"
      then show "m (claim_key c) = Some (StClaim (owner_of next))"
        using parts(3) h old c ok(5) own unfolding claims_ok_def by metis
    qed
    show "m' (claim_key c) = (if effects_open next then Some (StClaim (owner_of next))
        else if m (claim_key c) = Some (StClaim (owner_of next)) then None else m (claim_key c))"
      using held claim_same ok(7) by auto
    show "m (claim_key c) = None \<or> m (claim_key c) = Some (StClaim (owner_of next))" if "effects_open next"
      using held that ok(7) by simp
  qed (use old ok claim_same in auto)
  moreover have "slots_ok u m'"
  proof (rule slots_ok_same[OF parts(4) st parts(1)])
    fix p n show "m' (slot_key p n) = m (slot_key p n)" using quiet[of "slot_key p n"] by (simp add: item_queue_key_def)
  qed (use old ok id in \<open>auto simp: slot_of_def\<close>)
  moreover have "items_ok u m'" by (rule items_ok_update[OF parts(1) mitem ok(1,2)])
  ultimately show ?thesis by (simp add: consistent_def)
qed

section \<open>Creation and removal of an item\<close>

definition apply_writes :: "mutation list \<Rightarrow> (string \<Rightarrow> stored option) \<Rightarrow> string \<Rightarrow> stored option" where
  "apply_writes L m k = (case write_of L k of None \<Rightarrow> m k | Some v \<Rightarrow> v)"

lemma apply_writes_append: "apply_writes (xs @ ys) m = apply_writes ys (apply_writes xs m)"
  by (rule ext) (simp add: apply_writes_def write_of_append split: option.split)

lemma apply_writes_Nil [simp]: "apply_writes [] m = m"
  by (rule ext) (simp add: apply_writes_def)

lemma consistent_cong:
  assumes "\<And>k. core_key k \<Longrightarrow> m k = m' k"
  shows "consistent u m = consistent u m'"
proof -
  have "stored_item m = stored_item m'" by (rule ext) (simp add: stored_item_def assms)
  then show ?thesis
    by (simp add: consistent_def items_ok_def entries_ok_def claims_ok_def slots_ok_def assms)
qed

lemma create_update:
  assumes con: "consistent u m" and new: "m (item_key w) = None"
    and ok: "item_ok u it" "it_ID it = w" "\<not> effects_open it"
    and L: "L = [put (item_key w) (StItem it)] @
      (if queued it then [put (item_queue_key it) (StOwner (owner_of it))] else []) @ input_writes False it"
  shows "consistent u (apply_writes L m)"
proof -
  let ?m' = "apply_writes L m"
  from con have parts: "items_ok u m" "entries_ok u m" "claims_ok u m" "slots_ok u m" by (simp_all add: consistent_def)
  have none: "stored_item m w = None" using new by (simp add: stored_item_def)
  have W: "?m' k = (if k = input_queue_key w \<and> waiting_input it then Some (StOwner (owner_of it))
      else if k = item_queue_key it \<and> queued it then Some (StOwner (owner_of it))
      else if k = item_key w then Some (StItem it) else m k)" for k
    using ok(2) unfolding L by (auto simp: apply_writes_def write_of_Cons input_writes_def item_queue_key_def)
  have mitem: "?m' (item_key w') = (if w' = w then Some (StItem it) else m (item_key w'))" for w'
    by (simp add: W item_queue_key_def)
  then have st: "stored_item ?m' = (stored_item m)(w \<mapsto> it)" by (rule stored_item_update)
  have qk: "queue_key p x = item_queue_key it \<longleftrightarrow> p = it_Placement it \<and> x = w"
    if "placement_validate u p = Inr ()" for p x
    using queue_key_inject[OF that item_ok_placement[OF ok(1)]] ok(2) by (simp add: item_queue_key_def)
  have "entries_ok u ?m'"
  proof (rule entries_ok_update[OF parts(2) st])
    show "?m' (input_queue_key w) = input_entry (Some it)"
      using parts(2) none by (simp add: W item_queue_key_def entries_ok_def input_entry_def)
  next
    fix p assume p: "placement_validate u p = Inr ()"
    then have "m (queue_key p w) = None" using parts(2) none by (simp add: entries_ok_def queue_entry_def)
    then show "?m' (queue_key p w) = queue_entry (Some it) p" using qk[OF p] by (auto simp: W queue_entry_def)
  next
    fix h assume "id_valid u KindHost h"
    then have "m (host_effect_key h w) = None" using parts(2) none by (simp add: entries_ok_def effect_entry_def)
    then show "?m' (host_effect_key h w) = effect_entry (Some it) h"
      using ok(3) by (simp add: W item_queue_key_def effect_entry_def)
  qed (simp_all add: W item_queue_key_def[of it], use qk in \<open>simp_all add: item_queue_key_def\<close>)
  moreover have "claims_ok u ?m'"
  proof (rule claims_ok_update[OF parts(3,1) st ok(2,1)])
    fix c assume "c \<in> set (it_Claims it)"
    then have h: "host_shape u (cl_HostID c)" using item_ok_claims[OF ok(1)] by blast
    have "m (claim_key c) \<noteq> Some (StClaim (owner_of it))"
    proof
      assume "m (claim_key c) = Some (StClaim (owner_of it))"
      then obtain x other where "stored_item m x = Some other" "owner_of other = owner_of it"
        using parts(3) h unfolding claims_ok_def by fastforce
      then show False using stored_itemD(3)[OF parts(1), of x other] none ok(2) by (auto simp: owner_of_inject)
    qed
    then show "?m' (claim_key c) = (if effects_open it then Some (StClaim (owner_of it))
        else if m (claim_key c) = Some (StClaim (owner_of it)) then None else m (claim_key c))"
      using ok(3) by (simp add: W item_queue_key_def)
  qed (use none ok(3) in \<open>simp_all add: W item_queue_key_def\<close>)
  moreover have "slots_ok u ?m'"
    by (rule slots_ok_same[OF parts(4) st parts(1) _ ok(1)])
      (use none ok(3) in \<open>simp_all add: W item_queue_key_def effects_open_def\<close>)
  moreover have "items_ok u ?m'" by (rule items_ok_update[OF parts(1) mitem ok(1,2)])
  ultimately show ?thesis by (simp add: consistent_def)
qed

text \<open>A removed item must hold nothing.\<close>

lemma remove_update:
  assumes con: "consistent u m" and old: "stored_item m w = Some it"
    and idle: "\<not> effects_open it" "\<not> queued it" "\<not> waiting_input it"
  shows "consistent u (apply_writes [del (item_key w)] m)"
proof -
  let ?m' = "apply_writes [del (item_key w)] m"
  from con have parts: "items_ok u m" "entries_ok u m" "claims_ok u m" "slots_ok u m" by (simp_all add: consistent_def)
  have W: "?m' k = (if k = item_key w then None else m k)" for k
    by (simp add: apply_writes_def write_of_single)
  have st: "stored_item ?m' = (stored_item m)(w := None)" by (rule ext) (simp add: stored_item_def W)
  have "items_ok u ?m'" using parts(1) by (simp add: items_ok_def W)
  moreover have "entries_ok u ?m'"
    by (rule entries_ok_update[OF parts(2) st])
      (use parts(2) old idle in \<open>simp_all add: W entries_ok_def entry_defs\<close>)
  moreover have "claims_ok u ?m'"
    unfolding claims_ok_def
  proof (intro allI impI)
    fix c :: claim and v assume "host_shape u (cl_HostID c)"
    then have "m (claim_key c) = Some v \<longleftrightarrow>
        (\<exists>w it. stored_item m w = Some it \<and> effects_open it \<and> c \<in> set (it_Claims it) \<and> v = StClaim (owner_of it))"
      using parts(3) by (simp add: claims_ok_def)
    moreover have "stored_item ?m' x = Some i \<and> effects_open i \<longleftrightarrow> stored_item m x = Some i \<and> effects_open i" for x i
      using old idle(1) st by auto
    ultimately show "?m' (claim_key c) = Some v \<longleftrightarrow>
        (\<exists>w it. stored_item ?m' w = Some it \<and> effects_open it \<and> c \<in> set (it_Claims it) \<and> v = StClaim (owner_of it))"
      by (simp only: W family_distinct if_False) metis
  qed
  moreover have "slots_ok u ?m'"
    unfolding slots_ok_def
  proof (intro conjI allI impI)
    fix p n v assume v: "placement_validate u p = Inr ()" "?m' (slot_key p n) = Some v"
    then have "m (slot_key p n) = Some v" by (simp add: W)
    then obtain y other where "stored_item m y = Some other" "active other" "it_Placement other = p" "v = StSlot (slot_of other)"
      by (rule slots_okD[OF parts(4) v(1)])
    then show "\<exists>w it. stored_item ?m' w = Some it \<and> active it \<and> it_Placement it = p \<and> v = StSlot (slot_of it)"
      using old idle(1) st by (intro exI[of _ y] exI[of _ other]) (auto simp: effects_open_def)
  next
    fix y other assume "stored_item ?m' y = Some other" "active other"
    then show "\<exists>!n. ?m' (slot_key (it_Placement other) n) = Some (StSlot (slot_of other))"
      using parts(4) st unfolding slots_ok_def by (auto simp: W split: if_splits)
  qed
  ultimately show ?thesis by (simp add: consistent_def)
qed

end
