(* ===== verification/QueueLife.thy ===== *)
theory QueueLife
  imports QueueSteps
begin

text \<open>
  The evidence an operation is prepared from, read at any earlier revision of the store, and the comparisons that make
  it current again. The lemmas take the operations that move one stored item without its holdings one by one: when the
  comparisons hold, the store stays consistent and the item moves along its lifecycle.
\<close>

section \<open>Evidence and comparisons\<close>

text \<open>The snapshot was read at some revision of the store.\<close>

definition item_seen :: "kv_store \<Rightarrow> item_snapshot \<Rightarrow> bool" where
  "item_seen s i \<longleftrightarrow> (\<exists>r. value_at s (item_key (it_ID (is_Item i))) r = Some (is_Revision i, StItem (is_Item i)))"

definition task_seen :: "kv_store \<Rightarrow> task_snapshot \<Rightarrow> bool" where
  "task_seen s t \<longleftrightarrow> (\<exists>r. value_at s (task_key (tk_ID (ts_Task t))) r = Some (ts_Revision t, StTask (ts_Task t)))"

definition claim_seen :: "kv_store \<Rightarrow> claim_snapshot \<Rightarrow> bool" where
  "claim_seen s c \<longleftrightarrow>
     (case cs_Owner c of
        None \<Rightarrow> True
      | Some own \<Rightarrow> \<exists>r. value_at s (claim_key (cs_Claim c)) r = Some (cs_Revision c, StClaim own))"

definition slot_seen :: "kv_store \<Rightarrow> placement \<Rightarrow> slot_snapshot \<Rightarrow> bool" where
  "slot_seen s p x \<longleftrightarrow> (\<exists>r. value_at s (slot_key p (ss_Index x)) r = Some (ss_Revision x, StSlot (ss_Record x)))"

text \<open>Every comparison of a change passes now.\<close>

definition holds_now :: "kv_store \<Rightarrow> change \<Rightarrow> bool" where
  "holds_now s ch \<longleftrightarrow>
     log_ok s \<and>
     (\<forall>c \<in> set (ch_Conditions ch). \<not> cn_Prefix c \<longrightarrow>
        mod_of (value_at s (cn_Key c) (st_Revision s)) = cn_ModRevision c)"

lemma commit_holds:
  assumes "commit rb s chs = Inr (True, s')" "log_ok s" "ch \<in> set chs"
  shows "holds_now s ch"
  unfolding holds_now_def
proof (intro conjI ballI impI)
  fix c assume c: "c \<in> set (ch_Conditions ch)" "\<not> cn_Prefix c"
  obtain cs ms where "transact s cs ms = (True, s')" "c \<in> set cs" using assms(1,3) c(1) by (rule commit_condition)
  then show "mod_of (value_at s (cn_Key c) (st_Revision s)) = cn_ModRevision c" using c(2) by (rule mem.compared)
qed (rule assms(2))

lemma holds_value:
  assumes "holds_now s ch" "cond k r \<in> set (ch_Conditions ch)" "0 < r"
  obtains v where "value_at s k (st_Revision s) = Some (r, v)" "kv_now s k = Some v"
proof -
  have "mod_of (value_at s k (st_Revision s)) = r" using assms(1,2) unfolding holds_now_def by force
  with assms(3) that show thesis by (cases "value_at s k (st_Revision s)") (auto simp: mod_of_def kv_now_def)
qed

lemma holds_snapshot:
  assumes "holds_now s ch" "cond k r \<in> set (ch_Conditions ch)" "value_at s k r0 = Some (r, v)"
  shows "kv_now s k = Some v"
proof -
  have "log_ok s" using assms(1) by (simp add: holds_now_def)
  then have "0 < r" using assms(3) mem.version_positive by blast
  then obtain w where w: "value_at s k (st_Revision s) = Some (r, w)" "kv_now s k = Some w"
    by (rule holds_value[OF assms(1,2)])
  from mem.version_value[OF w(1)] mem.version_value[OF assms(3)] w(2) show ?thesis by simp
qed

lemma holds_missing:
  assumes "holds_now s ch" "no_key k \<in> set (ch_Conditions ch)"
  shows "kv_now s k = None"
proof (cases "value_at s k (st_Revision s)")
  case (Some x)
  obtain m v where x: "x = (m, v)" by (cases x) auto
  have "log_ok s" "mod_of (value_at s k (st_Revision s)) = 0" using assms unfolding holds_now_def by force+
  moreover from this(1) Some x have "0 < m" using mem.version_positive by blast
  ultimately show ?thesis using Some x by (simp add: mod_of_def)
qed (simp add: kv_now_def)

lemma seen_now:
  assumes "holds_now s ch" "item_seen s i" "cond (item_key (it_ID (is_Item i))) (is_Revision i) \<in> set (ch_Conditions ch)"
  shows "stored_item (kv_now s) (it_ID (is_Item i)) = Some (is_Item i)"
  using holds_snapshot[OF assms(1,3)] assms(2) by (auto simp: item_seen_def intro: stored_itemI)

section \<open>Operations\<close>

text \<open>
  What a step may do to the stored items: create one that has no attempt, collect a settled one of a Task that
  is being collected, or move one by transitions of its lifecycle (\<open>work_step\<close>).
\<close>

definition item_step :: "ulid_check \<Rightarrow> item \<Rightarrow> item \<Rightarrow> bool" where
  "item_step u it it' \<longleftrightarrow> (\<exists>as as'. work_step u (it, as) (it', as'))"

definition task_collecting :: "(string \<Rightarrow> stored option) \<Rightarrow> string \<Rightarrow> bool" where
  "task_collecting m i \<longleftrightarrow> (\<exists>t. m (task_key i) = Some (StTask t) \<and> tk_CollectionStartedAt t \<noteq> None)"

definition item_moves :: "ulid_check \<Rightarrow> (string \<Rightarrow> stored option) \<Rightarrow> (string \<Rightarrow> stored option) \<Rightarrow> bool" where
  "item_moves u m m' \<longleftrightarrow>
     (\<forall>w. case stored_item m w of
            None \<Rightarrow> opt_all (\<lambda>it. it_AttemptNumber it = 0) (stored_item m' w)
          | Some it \<Rightarrow> (case stored_item m' w of
              None \<Rightarrow> it_Phase it = Settled \<and> task_collecting m (it_TaskID it)
            | Some it' \<Rightarrow> (item_step u)\<^sup>*\<^sup>* it it'))"

lemma item_stepI: "work_step u (it, as) (it', as') \<Longrightarrow> (item_step u)\<^sup>*\<^sup>* it it'"
  by (rule r_into_rtranclp) (auto simp: item_step_def)

lemma item_moves_refl: "stored_item m' = stored_item m \<Longrightarrow> item_moves u m m'"
  by (auto simp: item_moves_def split: option.split)

lemma item_moves_update:
  assumes "\<And>x. m' (item_key x) = (if x = w then Some (StItem next) else m (item_key x))"
    "stored_item m w = Some it" "(item_step u)\<^sup>*\<^sup>* it next"
  shows "item_moves u m m'"
  using stored_item_update[OF assms(1)] assms(2,3) by (auto simp: item_moves_def split: option.split)

lemma item_moves_create:
  assumes "\<And>x. m' (item_key x) = (if x = w then Some (StItem next) else m (item_key x))"
    "m (item_key w) = None" "it_AttemptNumber next = 0"
  shows "item_moves u m m'"
proof -
  have "stored_item m w = None" using assms(2) by (simp add: stored_item_def)
  then show ?thesis using stored_item_update[OF assms(1)] assms(3) by (auto simp: item_moves_def split: option.split)
qed

lemma item_ok_time: "item_ok u it \<Longrightarrow> valid_time (it_UpdatedAt it)"
  by (simp add: item_ok_def item_times_ok_def)

definition keeps_queue :: "queue_env \<Rightarrow> kv_store \<Rightarrow> change \<Rightarrow> bool" where
  "keeps_queue e s ch \<longleftrightarrow>
     plain (ch_Mutations ch) \<and>
     (consistent (env_Ulid e) (kv_now s) \<longrightarrow>
      consistent (env_Ulid e) (apply_writes (core_writes (ch_Mutations ch)) (kv_now s))) \<and>
     item_moves (env_Ulid e) (kv_now s) (apply_writes (core_writes (ch_Mutations ch)) (kv_now s))"

text \<open>The fields a transition of a stored item leaves alone, and what it may do to the queue entry.\<close>

definition same_holder :: "item \<Rightarrow> item \<Rightarrow> bool" where
  "same_holder it next \<longleftrightarrow>
     it_ID next = it_ID it \<and> it_TaskID next = it_TaskID it \<and> it_Placement next = it_Placement it \<and>
     it_Claims next = it_Claims it"

lemma keeps_quiet:
  assumes "plain (ch_Mutations ch)" "stored_item (kv_now s) (it_ID it) = Some it"
    and core: "core_writes (ch_Mutations ch) =
      [put (item_key (it_ID next)) (StItem next)] @ Q @ input_writes (waiting_input it) next"
    and "item_ok (env_Ulid e) next" "same_holder it next" "it_ActiveAttemptID next = it_ActiveAttemptID it"
      "effects_open next = effects_open it" "(item_step (env_Ulid e))\<^sup>*\<^sup>* it next"
    and Q: "Q = [] \<and> (consistent (env_Ulid e) (kv_now s) \<longrightarrow> queued next = queued it) \<or>
      Q = [del (item_queue_key next)] \<and> \<not> queued next \<or>
      Q = [put (item_queue_key next) (StOwner (owner_of next))] \<and> queued next"
  shows "keeps_queue e s ch"
  unfolding keeps_queue_def
proof (intro conjI impI assms(1))
  have "write_of Q (item_key x) = None" for x using Q by (auto simp: write_of_single item_queue_key_def)
  then have "apply_writes (core_writes (ch_Mutations ch)) (kv_now s) (item_key x) =
      (if x = it_ID it then Some (StItem next) else kv_now s (item_key x))" for x
    unfolding core using assms(5) input_writes_elsewhere[of "item_key x" "next"]
    by (auto simp: apply_writes_def write_of_append write_of_Cons same_holder_def)
  then show "item_moves (env_Ulid e) (kv_now s) (apply_writes (core_writes (ch_Mutations ch)) (kv_now s))"
    by (rule item_moves_update) (rule assms(2,8))+
next
  assume con: "consistent (env_Ulid e) (kv_now s)"
  define q where "q = (if Q = [] then None else if Q = [del (item_queue_key next)] then Some None
    else Some (Some (StOwner (owner_of next))))"
  have Qk: "write_of Q k = (if k = item_queue_key next then q else None)" for k
    using Q by (auto simp: q_def write_of_single)
  show "consistent (env_Ulid e) (apply_writes (core_writes (ch_Mutations ch)) (kv_now s))"
  proof (rule quiet_update[OF con assms(2,4)])
    show "apply_writes (core_writes (ch_Mutations ch)) (kv_now s) k =
        (case write_of ([put (item_key (it_ID it)) (StItem next)] @ Q @ input_writes (waiting_input it) next) k of
           None \<Rightarrow> kv_now s k | Some v \<Rightarrow> v)" for k
      using assms(5) unfolding core by (simp add: apply_writes_def same_holder_def)
    show "case q of None \<Rightarrow> queued next = queued it | Some None \<Rightarrow> \<not> queued next
        | Some (Some v) \<Rightarrow> queued next \<and> v = StOwner (owner_of next)"
      using Q con by (auto simp: q_def)
    show "write_of Q k = (if k = item_queue_key next then q else None)" for k by (rule Qk)
  qed (use assms(5,6,7) in \<open>simp_all add: same_holder_def\<close>)
qed

lemma item_change_keeps:
  assumes "item_change e t i next dequeue now = Inr ch" "holds_now s ch" "item_seen s i"
    "same_holder (is_Item i) next" "it_ActiveAttemptID next = it_ActiveAttemptID (is_Item i)"
    "effects_open next = effects_open (is_Item i)"
    "if dequeue then \<not> queued next else queued next = queued (is_Item i)"
    "(item_step (env_Ulid e))\<^sup>*\<^sup>* (is_Item i) next"
  shows "keeps_queue e s ch"
proof -
  note core = item_change_core[OF assms(1)]
  have "cond (item_key (it_ID (is_Item i))) (is_Revision i) \<in> set (ch_Conditions ch)"
    using count_change_conditions assms(1,4) by (fastforce simp: item_change_def same_holder_def)
  then have st: "stored_item (kv_now s) (it_ID (is_Item i)) = Some (is_Item i)"
    by (rule seen_now[OF assms(2,3)])
  show ?thesis
    by (rule keeps_quiet[OF core(2) st core(3) core(1) assms(4,5,6,8)]) (use assms(7) in \<open>auto split: if_splits\<close>)
qed

lemma cleanup_retry_expiry_keeps:
  assumes "prepare_cleanup_retry_expiry e t i now = Inr ch" "holds_now s ch" "item_seen s i"
  shows "keeps_queue e s ch"
proof -
  from assms(1) obtain "next" where n: "expire_cleanup_retry (env_Ulid e) (is_Item i) now = Inr next"
    "item_change e t i next (queued_phase (is_Item i)) now = Inr ch"
    by (auto simp: prepare_cleanup_retry_expiry_def)
  show ?thesis
    by (rule item_change_keeps[OF n(2) assms(2,3) _ _ _ _ item_stepI[OF step_expire[OF n(1)]]])
      (use n(1) in \<open>auto simp: expire_cleanup_retry_Inr same_holder_def effects_open_def queued_def retry_waiting_def\<close>)
qed

lemma unstarted_settlement_keeps:
  assumes "prepare_unstarted_settlement e t i c now = Inr ch" "holds_now s ch" "item_seen s i"
  shows "keeps_queue e s ch"
proof -
  from assms(1) obtain "next" where n: "settle_unstarted (env_Ulid e) (is_Item i) c now = Inr next"
    "item_change e t i next (queued_phase (is_Item i)) now = Inr ch"
    by (auto simp: prepare_unstarted_settlement_def)
  show ?thesis
    by (rule item_change_keeps[OF n(2) assms(2,3) _ _ _ _ item_stepI[OF step_settle_unstarted[OF n(1)]]])
      (use n(1) in \<open>auto simp: settle_unstarted_Inr settled_item_def same_holder_def effects_open_def queued_def
        retry_waiting_def split: if_splits\<close>)
qed

lemma queued_retry_settlement_keeps:
  assumes "prepare_queued_retry_settlement e t i c now = Inr ch" "holds_now s ch" "item_seen s i"
  shows "keeps_queue e s ch"
proof -
  from assms(1) obtain "next" where n: "settle_queued_retry (env_Ulid e) (is_Item i) c now = Inr next"
    "item_change e t i next (queued_phase (is_Item i)) now = Inr ch"
    by (auto simp: prepare_queued_retry_settlement_def)
  show ?thesis
    by (rule item_change_keeps[OF n(2) assms(2,3) _ _ _ _ item_stepI[OF step_settle_queued[OF n(1)]]])
      (use n(1) in \<open>auto simp: settle_queued_retry_Inr settled_item_def same_holder_def effects_open_def queued_def
        retry_waiting_def\<close>)
qed

lemma revocation_keeps:
  assumes "prepare_revocation e t i result now = Inr ch" "holds_now s ch" "item_seen s i"
  shows "keeps_queue e s ch"
proof -
  define x where "x = (case tk_Stop (ts_Task t) of None \<Rightarrow> result | Some s \<Rightarrow> sr_Outcome s)"
  from assms(1) obtain "next" where n: "revoke_forward (env_Ulid e) (is_Item i) x now = Inr next"
    "item_change e t i next (queued_phase (is_Item i) \<and> it_Phase next = Settled) now = Inr ch"
    "it_Phase (is_Item i) \<noteq> Settled"
    by (auto simp: prepare_revocation_def x_def)
  have steps: "(item_step (env_Ulid e))\<^sup>*\<^sup>* (is_Item i) next"
  proof (cases "next = is_Item i")
    case False
    then have "it_UpdatedAt next = now" using n(1,3) by (auto simp: revoke_forward_Inr split: if_splits)
    then have "valid_time now" using item_ok_time[OF item_change_core(1)[OF n(2)]] by simp
    then show ?thesis by (rule item_stepI[OF step_revoke[OF n(1)]])
  qed simp
  show ?thesis
    by (rule item_change_keeps[OF n(2) assms(2,3) _ _ _ _ steps])
      (use n(1,3) in \<open>auto simp: revoke_forward_Inr same_holder_def effects_open_def queued_def retry_waiting_def
        split: if_splits\<close>)
qed

lemma start_keeps:
  assumes "prepare_start e t i a x now = Inr ch" "holds_now s ch" "item_seen s i"
  shows "keeps_queue e s ch"
proof -
  from assms(1) obtain "next" started attemptBytes where n: "start (env_Ulid e) (is_Item i) (an_Attempt a) now = Inr (next, started)"
    "at_StartedAt (an_Attempt a) = None" "item_ok (env_Ulid e) next"
    and c: "count_change e
        \<lparr>ch_Conditions =
           [cond (executor_key (ex_Identity (es_Record x))) (es_Revision x),
            cond (item_key (it_ID next)) (is_Revision i),
            cond (attempt_key (at_ID started)) (an_Revision a)] @
           (if pl_Executor (it_Placement (is_Item i)) = AgentExecutor \<and> at_Direction started = Forward
            then [no_key (host_fence_key (pl_HostID (it_Placement (is_Item i))))] else []),
         ch_Mutations = [put (item_key (it_ID next)) (StItem next), put (attempt_key (at_ID started)) attemptBytes]\<rparr>
        t (is_Item i) next now = Inr ch"
    by (auto simp: prepare_start_def encode_item_Inr try_res_unit)
  have it: "same_holder (is_Item i) next" "it_ActiveAttemptID next = it_ActiveAttemptID (is_Item i)"
    "effects_open next = effects_open (is_Item i)" "queued next = queued (is_Item i)" "it_UpdatedAt next = now"
    using n(1,2) by (auto simp: start_Inr same_holder_def effects_open_def queued_def retry_waiting_def)
  have steps: "(item_step (env_Ulid e))\<^sup>*\<^sup>* (is_Item i) next"
    by (rule item_stepI, rule step_start[where i = 0 and as = "[an_Attempt a]"])
      (use n(1) item_ok_time[OF n(3)] it(5) in simp_all)
  have "cond (item_key (it_ID (is_Item i))) (is_Revision i) \<in> set (ch_Conditions ch)"
    using count_change_conditions(1)[OF c] it(1) by (simp add: same_holder_def)
  then have st: "stored_item (kv_now s) (it_ID (is_Item i)) = Some (is_Item i)"
    by (rule seen_now[OF assms(2,3)])
  show ?thesis
    by (rule keeps_quiet[OF count_change_core(1)[OF c] st _ n(3) it(1,2,3) steps, where Q = "[]"])
      (use count_change_core(2)[OF c] it(4) in simp_all)
qed

lemma unstarted_deadline_keeps:
  assumes "prepare_unstarted_deadline e t i q now = Inr ch" "holds_now s ch" "item_seen s i"
  shows "keeps_queue e s ch"
proof -
  from assms(1) obtain "next" where n: "renew_unstarted_deadline (env_Ulid e) (is_Item i) (tk_Deadline (ts_Task t)) now = Inr next"
    "item_ok (env_Ulid e) next"
    and c: "ch = \<lparr>ch_Conditions =
               [cond (task_key (tk_ID (ts_Task t))) (ts_Revision t),
                cond (item_key (it_ID (is_Item i))) (is_Revision i),
                cond (item_queue_key (is_Item i)) q],
             ch_Mutations = [put (item_key (it_ID next)) (StItem next)]\<rparr>"
    by (auto simp: prepare_unstarted_deadline_def encode_item_Inr)
  have it: "same_holder (is_Item i) next" "it_ActiveAttemptID next = it_ActiveAttemptID (is_Item i)"
    "effects_open next = effects_open (is_Item i)" "queued next = queued (is_Item i)"
    "waiting_input next = waiting_input (is_Item i)"
    using n(1) by (auto simp: renew_unstarted_deadline_Inr same_holder_def effects_open_def queued_def
        retry_waiting_def waiting_input_def)
  have st: "stored_item (kv_now s) (it_ID (is_Item i)) = Some (is_Item i)"
    by (rule seen_now[OF assms(2,3)]) (simp add: c)
  show ?thesis
    by (rule keeps_quiet[OF _ st _ n(2) it(1,2,3) item_stepI[OF step_renew[OF n(1)]], where Q = "[]"]) (simp_all add: c it input_writes_def)
qed

text \<open>An item becomes ready or waits for a retry: its queue entry is new.\<close>

lemma ready_change_keeps:
  assumes r: "prepare_ready_change e i next = Inr ch0"
    and ch: "plain (ch_Mutations ch)" "core_writes (ch_Mutations ch) =
      core_writes (ch_Mutations ch0) @ input_writes (waiting_input (is_Item i)) next"
      "set (ch_Conditions ch0) \<subseteq> set (ch_Conditions ch)"
    and now: "holds_now s ch" "item_seen s i"
    and it: "same_holder (is_Item i) next" "it_ActiveAttemptID next = it_ActiveAttemptID (is_Item i)"
      "effects_open next = effects_open (is_Item i)" "queued_phase next" "queued next"
      "(item_step (env_Ulid e))\<^sup>*\<^sup>* (is_Item i) next"
  shows "keeps_queue e s ch"
proof -
  have "cond (item_key (it_ID (is_Item i))) (is_Revision i) \<in> set (ch_Conditions ch0)"
    using r by (auto simp: prepare_ready_change_def Let_def split: if_splits)
  with ch(3) have "cond (item_key (it_ID (is_Item i))) (is_Revision i) \<in> set (ch_Conditions ch)" by blast
  then have st: "stored_item (kv_now s) (it_ID (is_Item i)) = Some (is_Item i)"
    by (rule seen_now[OF now])
  show ?thesis
    by (rule keeps_quiet[OF ch(1) st _ ready_change_core(1)[OF r] it(1,2,3,6)])
      (use ch(2) ready_change_core(3)[OF r] it(4,5) in auto)
qed

lemma input_keeps:
  assumes "prepare_input_change e t i inp now = Inr ch" "holds_now s ch" "item_seen s i"
  shows "keeps_queue e s ch"
proof -
  from assms(1) obtain "next" ch0 where n: "prepare_input (env_Ulid e) (is_Item i) inp now = Inr next"
    "prepare_ready_change e i next = Inr ch0" "count_change e ch0 t (is_Item i) next now = Inr ch"
    by (auto simp: prepare_input_change_def)
  have "it_UpdatedAt next = now" using n(1) by (auto simp: prepare_input_Inr)
  then have "valid_time now" using item_ok_time[OF ready_change_core(1)[OF n(2)]] by simp
  note steps = item_stepI[OF step_prepare[OF n(1) this]]
  show ?thesis
    by (rule ready_change_keeps[OF n(2) count_change_core[OF n(3) ready_change_core(2)[OF n(2)]]
          count_change_conditions(1)[OF n(3)] assms(2,3) _ _ _ _ _ steps])
      (use n(1) in \<open>auto simp: prepare_input_Inr same_holder_def effects_open_def queued_def\<close>)
qed

lemma retry_keeps:
  assumes "prepare_retry e t i p d now = Inr ch" "holds_now s ch" "item_seen s i"
  shows "keeps_queue e s ch"
proof -
  from assms(1) obtain "next" ch0 where n: "retry (env_Ulid e) (is_Item i) (an_Attempt p) d now = Inr next"
    "prepare_ready_change e i next = Inr ch0" "retry_change e
        (with_parts ch0 [cond (attempt_key (at_ID (an_Attempt p))) (an_Revision p)] []) t (is_Item i) next now = Inr ch"
    by (auto simp: prepare_retry_def)
  from n(1) have f: "\<not> waiting_input (is_Item i)" "\<not> waiting_input next"
    by (auto simp: retry_Inr waiting_input_def Let_def retry_wait_def retry_base_def)
  have it: "same_holder (is_Item i) next" "it_ActiveAttemptID next = it_ActiveAttemptID (is_Item i)"
    "effects_open next = effects_open (is_Item i)" "queued_phase next" "queued next"
    using n(1) by (auto simp: retry_Inr Let_def retry_base_def retry_wait_def same_holder_def effects_open_def
        queued_def retry_waiting_def attempt_ok_def)
  have c: "plain (ch_Mutations ch)" "core_writes (ch_Mutations ch) = core_writes (ch_Mutations ch0)"
    using retry_change_core[OF n(3)] ready_change_core(2)[OF n(2)] by simp_all
  show ?thesis
    by (rule ready_change_keeps[OF n(2) c(1) _ _ assms(2,3) it item_stepI[OF step_retry[OF _ n(1), of "[an_Attempt p]"]]])
      (use c(2) f retry_change_conditions[OF n(3)] in \<open>auto simp: input_writes_def\<close>)
qed

lemma unstarted_retry_keeps:
  assumes "prepare_unstarted_retry e t i deadline now = Inr ch" "holds_now s ch" "item_seen s i"
  shows "keeps_queue e s ch"
proof -
  from assms(1) obtain "next" ch0 where n: "retry_unstarted (env_Ulid e) (is_Item i) deadline now = Inr next"
    "prepare_ready_change e i next = Inr ch0" "retry_change e ch0 t (is_Item i) next now = Inr ch"
    by (auto simp: prepare_unstarted_retry_def)
  have it: "same_holder (is_Item i) next" "it_ActiveAttemptID next = it_ActiveAttemptID (is_Item i)"
    "effects_open next = effects_open (is_Item i)" "queued_phase next" "queued next"
    using n(1) by (auto simp: retry_unstarted_Inr same_holder_def effects_open_def queued_def)
  have c: "plain (ch_Mutations ch)" "core_writes (ch_Mutations ch) = core_writes (ch_Mutations ch0)"
    using retry_change_core[OF n(3)] ready_change_core(2)[OF n(2)] by simp_all
  have f: "\<not> waiting_input (is_Item i)" "\<not> waiting_input next"
    using n(1) by (auto simp: retry_unstarted_Inr waiting_input_def)
  show ?thesis
    by (rule ready_change_keeps[OF n(2) c(1) _ _ assms(2,3) it item_stepI[OF step_retry_unstarted[OF n(1)]]])
      (use c(2) f retry_change_conditions[OF n(3)] in \<open>auto simp: input_writes_def\<close>)
qed

text \<open>A due retry keeps its queue entry, whose presence the transaction compares.\<close>

lemma retry_ready_keeps:
  assumes "prepare_retry_ready e t i q now = Inr ch" "holds_now s ch" "item_seen s i"
  shows "keeps_queue e s ch"
proof -
  from assms(1) obtain "next" where n: "release_retry_wait (env_Ulid e) (is_Item i) now = Inr next"
    "item_ok (env_Ulid e) next" "0 < q"
    and c: "count_change e
        \<lparr>ch_Conditions = [cond (item_key (it_ID next)) (is_Revision i), cond (item_queue_key next) q],
         ch_Mutations = [put (item_key (it_ID next)) (StItem next)]\<rparr> t (is_Item i) next now = Inr ch"
    by (auto simp: prepare_retry_ready_def encode_item_Inr)
  have it: "same_holder (is_Item i) next" "it_ActiveAttemptID next = it_ActiveAttemptID (is_Item i)"
    "effects_open next = effects_open (is_Item i)" "queued next" "it_UpdatedAt next = now"
    using n(1) by (auto simp: release_retry_wait_Inr same_holder_def effects_open_def queued_def)
  have "valid_time now" using item_ok_time[OF n(2)] it(5) by simp
  note steps = item_stepI[OF step_release[OF n(1) this]]
  have conds: "cond (item_key (it_ID (is_Item i))) (is_Revision i) \<in> set (ch_Conditions ch)"
    "cond (item_queue_key next) q \<in> set (ch_Conditions ch)"
    using count_change_conditions(1)[OF c] it(1) by (simp_all add: same_holder_def)
  have st: "stored_item (kv_now s) (it_ID (is_Item i)) = Some (is_Item i)"
    by (rule seen_now[OF assms(2,3) conds(1)])
  have "queued (is_Item i)" if con: "consistent (env_Ulid e) (kv_now s)"
  proof -
    obtain v where v: "kv_now s (item_queue_key next) = Some v" using holds_value[OF assms(2) conds(2) n(3)] by blast
    have p: "placement_validate (env_Ulid e) (it_Placement next) = Inr ()" by (rule item_ok_placement[OF n(2)])
    have "kv_now s (item_queue_key next) =
        queue_entry (stored_item (kv_now s) (it_ID next)) (it_Placement next)"
      using con p unfolding consistent_def entries_ok_def item_queue_key_def by blast
    with v st it(1) show ?thesis by (auto simp: same_holder_def queue_entry_def split: if_splits)
  qed
  then show ?thesis
    by (intro keeps_quiet[OF count_change_core(1)[OF c] st _ n(2) it(1,2,3) steps, where Q = "[]"])
      (use count_change_core(2)[OF c] it(4) in simp_all)
qed

end
