(* ===== verification/QueueInvariant.thy ===== *)
theory QueueInvariant
  imports QueueLife
begin

text \<open>
  The operations that create and remove items or take and give up holdings: publication, collection, assignment and
  completion. Each keeps the stored queue consistent when the comparisons of its transaction hold.
\<close>

section \<open>Publication of items\<close>

definition create_writes :: "item \<Rightarrow> mutation list" where
  "create_writes it =
     [put (item_key (it_ID it)) (StItem it)] @
     (if queued it then [put (item_queue_key it) (StOwner (owner_of it))] else []) @ input_writes False it"

lemma unstarted_inactive:
  "item_ok u it \<Longrightarrow> it_Phase it = Ready \<or> it_Phase it = Waiting \<or> it_Phase it = Settled \<or> it_Phase it = Attention \<Longrightarrow>
   \<not> active it"
  using item_ok_active[of u it] by auto

lemma item_creation_core:
  assumes "prepare_item_creation e it = Inr ch"
  shows "plain (ch_Mutations ch)" "core_writes (ch_Mutations ch) = create_writes it"
    "no_key (item_key (it_ID it)) \<in> set (ch_Conditions ch)" "item_ok (env_Ulid e) it" "\<not> effects_open it"
    "it_AttemptNumber it = 0"
proof -
  from assms have it: "it_Phase it = Ready \<or> it_Phase it = Waiting" "it_AttemptNumber it = 0" "it_Cleanup it = CleanupNone"
    "item_ok (env_Ulid e) it"
    and c: "update_input_queue e
        \<lparr>ch_Conditions =
           [no_key (item_key (it_ID it)), no_key (task_item_key (it_TaskID it) (it_ID it))] @
           (if it_Phase it = Ready then [no_key (item_queue_key it)] else []),
         ch_Mutations =
           [put (item_key (it_ID it)) (StItem it), put (task_item_key (it_TaskID it) (it_ID it)) (StOwner (owner_of it))] @
           (if it_Phase it = Ready then [put (item_queue_key it) (StOwner (owner_of it))] else [])\<rparr> False it = Inr ch"
    by (auto simp: prepare_item_creation_def encode_item_Inr split: if_splits)
  have q: "queued it \<longleftrightarrow> it_Phase it = Ready" using it(2) by (simp add: queued_def)
  note m = update_input_queue_Inr[OF c]
  show "plain (ch_Mutations ch)" using m by simp
  show "core_writes (ch_Mutations ch) = create_writes it" using m q by (simp add: create_writes_def)
  show "no_key (item_key (it_ID it)) \<in> set (ch_Conditions ch)" using update_input_queue_conditions[OF c] by simp
  show "item_ok (env_Ulid e) it" by (rule it(4))
  show "it_AttemptNumber it = 0" by (rule it(2))
  show "\<not> effects_open it" using unstarted_inactive[OF it(4)] it(1,3) by (auto simp: effects_open_def)
qed

lemma item_creations_core:
  assumes "item_creations e ch items = Inr ch'" "plain (ch_Mutations ch)"
  shows "plain (ch_Mutations ch') \<and> set (ch_Conditions ch) \<subseteq> set (ch_Conditions ch') \<and>
    core_writes (ch_Mutations ch') = core_writes (ch_Mutations ch) @ concat (map create_writes items) \<and>
    (\<forall>it \<in> set items. no_key (item_key (it_ID it)) \<in> set (ch_Conditions ch') \<and> item_ok (env_Ulid e) it \<and> \<not> effects_open it \<and>
       it_AttemptNumber it = 0)"
  using assms
proof (induction items arbitrary: ch)
  case (Cons it items)
  then obtain part where p: "prepare_item_creation e it = Inr part"
    "item_creations e (with_parts ch (ch_Conditions part) (ch_Mutations part)) items = Inr ch'" by auto
  from Cons.IH[OF p(2)] Cons.prems(2) item_creation_core[OF p(1)] show ?case by auto
qed simp

lemma count_items_distinct:
  "count_items u t seen its x = Inr y \<Longrightarrow> distinct (map it_ID its) \<and> set seen \<inter> it_ID ` set its = {}"
  by (induction u t seen its x rule: count_items.induct) (auto simp: try_res_unit split: option.splits if_splits)

lemma create_writes_value:
  "write_of (create_writes it) (item_key x) = (if x = it_ID it then Some (Some (StItem it)) else None)"
  by (simp add: create_writes_def write_of_Cons input_writes_def item_queue_key_def)

lemma create_writes_item:
  "apply_writes (create_writes it) m (item_key x) = (if x = it_ID it then Some (StItem it) else m (item_key x))"
  by (simp add: apply_writes_def create_writes_def write_of_Cons input_writes_def item_queue_key_def)

lemma creations_keep:
  assumes "consistent u m" "distinct (map it_ID items)"
    "\<forall>it \<in> set items. m (item_key (it_ID it)) = None \<and> item_ok u it \<and> \<not> effects_open it"
  shows "consistent u (apply_writes (concat (map create_writes items)) m)"
  using assms
proof (induction items arbitrary: m)
  case (Cons it items)
  have "consistent u (apply_writes (create_writes it) m)"
    by (rule create_update[OF Cons.prems(1), of "it_ID it"]) (use Cons.prems(3) in \<open>simp_all add: create_writes_def\<close>)
  then have "consistent u (apply_writes (concat (map create_writes items)) (apply_writes (create_writes it) m))"
    by (rule Cons.IH) (use Cons.prems(2,3) in \<open>auto simp: create_writes_item image_iff\<close>)
  then show ?case by (simp add: apply_writes_append)
qed simp

lemma creations_item:
  "write_of (concat (map create_writes items)) (item_key w) = None \<or>
   (\<exists>it \<in> set items. it_ID it = w \<and> write_of (concat (map create_writes items)) (item_key w) = Some (Some (StItem it)))"
  by (induction items) (auto simp: write_of_append create_writes_value split: option.split)

lemma creations_move:
  assumes "\<forall>it \<in> set items. m (item_key (it_ID it)) = None \<and> it_AttemptNumber it = 0"
  shows "item_moves u m (apply_writes (concat (map create_writes items)) m)"
  unfolding item_moves_def
proof
  fix w
  let ?m' = "apply_writes (concat (map create_writes items)) m"
  from creations_item[of items w]
  show "case stored_item m w of None \<Rightarrow> opt_all (\<lambda>it. it_AttemptNumber it = 0) (stored_item ?m' w)
    | Some it \<Rightarrow> (case stored_item ?m' w of None \<Rightarrow> it_Phase it = Settled \<and> task_collecting m (it_TaskID it) | Some it' \<Rightarrow> (item_step u)\<^sup>*\<^sup>* it it')"
  proof
    assume "write_of (concat (map create_writes items)) (item_key w) = None"
    then have "stored_item ?m' w = stored_item m w" by (simp add: stored_item_def apply_writes_def)
    then show ?thesis by (auto split: option.split)
  next
    assume "\<exists>it \<in> set items. it_ID it = w \<and>
      write_of (concat (map create_writes items)) (item_key w) = Some (Some (StItem it))"
    then obtain it where "it \<in> set items" "it_ID it = w" "stored_item ?m' w = Some it"
      by (auto simp: stored_item_def apply_writes_def)
    with assms show ?thesis by (auto simp: stored_item_def)
  qed
qed

text \<open>The other records of a new Task are not part of the queue.\<close>

lemma bind_replay_parts:
  assumes "bind_replay e ch t mk = Inr ch'"
  shows "plain (ch_Mutations ch') = plain (ch_Mutations ch)"
    "core_writes (ch_Mutations ch') = core_writes (ch_Mutations ch)" "set (ch_Conditions ch) \<subseteq> set (ch_Conditions ch')"
  using assms by (auto simp: bind_replay_def split: if_splits)

lemma publish_task_list_parts:
  "plain (ch_Mutations (publish_task_list ch t)) = plain (ch_Mutations ch)"
  "core_writes (ch_Mutations (publish_task_list ch t)) = core_writes (ch_Mutations ch)"
  "set (ch_Conditions ch) \<subseteq> set (ch_Conditions (publish_task_list ch t))"
proof -
  have "core_writes (map (\<lambda>k. put k v) (task_list_keys t)) = []" for v
    using task_list_keys_free[of _ t] by (auto simp: core_writes_def filter_empty_conv)
  then show "plain (ch_Mutations (publish_task_list ch t)) = plain (ch_Mutations ch)"
    "core_writes (ch_Mutations (publish_task_list ch t)) = core_writes (ch_Mutations ch)"
    "set (ch_Conditions ch) \<subseteq> set (ch_Conditions (publish_task_list ch t))"
    by (auto simp: publish_task_list_def plain_def list_all_iff)
qed

text \<open>Whatever else a change writes, the items it creates keep the queue.\<close>

lemma created_keeps:
  assumes "count_publication (env_Ulid e) t items now = Inr next" "item_creations e ch0 items = Inr ch1"
    "plain (ch_Mutations ch0)" "core_writes (ch_Mutations ch0) = []" "holds_now s ch"
    "plain (ch_Mutations ch)" "core_writes (ch_Mutations ch) = core_writes (ch_Mutations ch1)"
    "set (ch_Conditions ch1) \<subseteq> set (ch_Conditions ch)"
  shows "keeps_queue e s ch"
proof -
  note core = item_creations_core[OF assms(2,3)]
  have "distinct (map it_ID items)"
    using assms(1) count_items_distinct by (fastforce simp: count_publication_def try_res_unit)
  moreover have "\<forall>it \<in> set items. kv_now s (item_key (it_ID it)) = None"
    using core assms(8) holds_missing[OF assms(5)] by blast
  ultimately show ?thesis
    using core assms(4,6,7) creations_keep creations_move by (simp add: keeps_queue_def)
qed

lemma publish_keeps:
  assumes "prepare_items e t items now = Inr ch" "holds_now s ch"
  shows "keeps_queue e s ch"
proof -
  from assms(1) obtain "next" ch0 where n: "count_publication (env_Ulid e) (ts_Task t) items now = Inr next"
    "task_change e t next = Inr ch0" "item_creations e ch0 items = Inr ch"
    by (auto simp: prepare_items_def split: if_splits)
  note free = task_change_free(1,2)[OF n(2)]
  show ?thesis
    by (rule created_keeps[OF n(1,3) free assms(2)]) (use item_creations_core[OF n(3) free(1)] in auto)
qed

lemma small_graph_parts:
  assumes "prepare_small_graph e t items mk = Inr ch"
  obtains "next" ch1 where "count_publication (env_Ulid e) t items (tk_CreatedAt t) = Inr next"
    "item_creations e \<lparr>ch_Conditions = [], ch_Mutations = []\<rparr> items = Inr ch1" "plain (ch_Mutations ch)"
    "core_writes (ch_Mutations ch) = core_writes (ch_Mutations ch1)" "set (ch_Conditions ch1) \<subseteq> set (ch_Conditions ch)"
proof -
  from assms obtain "next" v ch1 ch2 where n: "count_publication (env_Ulid e) t items (tk_CreatedAt t) = Inr next"
    "item_creations e \<lparr>ch_Conditions = [], ch_Mutations = []\<rparr> items = Inr ch1"
    "bind_replay e (with_parts ch1 [no_key (task_key (tk_ID t))] [put (task_key (tk_ID t)) v]) t mk = Inr ch2"
    "ch = publish_task_list ch2 t"
    by (auto simp: prepare_small_graph_def split: if_splits)
  have "plain (ch_Mutations ch1)" using item_creations_core[OF n(2)] by simp
  then show thesis
    using that[OF n(1,2)] bind_replay_parts[OF n(3)] publish_task_list_parts[of ch2 t] by (auto simp: n(4))
qed

lemma small_graph_keeps:
  assumes "prepare_small_graph e t items mk = Inr ch" "holds_now s ch"
  shows "keeps_queue e s ch"
proof -
  obtain "next" ch1 where "count_publication (env_Ulid e) t items (tk_CreatedAt t) = Inr next"
    "item_creations e \<lparr>ch_Conditions = [], ch_Mutations = []\<rparr> items = Inr ch1" "plain (ch_Mutations ch)"
    "core_writes (ch_Mutations ch) = core_writes (ch_Mutations ch1)" "set (ch_Conditions ch1) \<subseteq> set (ch_Conditions ch)"
    using assms(1) by (rule small_graph_parts)
  from created_keeps[OF this(1,2) _ _ assms(2) this(3,4,5)] show ?thesis by simp
qed

lemma initial_items_created: "initial_items e graph ch its = Inr ch' \<Longrightarrow> item_creations e ch its = Inr ch'"
  by (induction e graph ch its rule: initial_items.induct) (auto split: if_splits)

lemma replace_value_core:
  "replace_value k v ms = Some ms' \<Longrightarrow> \<not> core_key k \<Longrightarrow> plain ms' = plain ms \<and> core_writes ms' = core_writes ms"
  by (induction ms arbitrary: ms') (auto split: if_splits)

lemma prepare_task_free:
  "prepare_task e t mk = Inr ch \<Longrightarrow> plain (ch_Mutations ch) \<and> core_writes (ch_Mutations ch) = []"
  by (auto simp: prepare_task_def publish_task_list_parts bind_replay_parts split: if_splits)

lemma staged_graph_keeps:
  assumes "prepare_staged_graph e t graph initial mk = Inr ch" "holds_now s ch"
  shows "keeps_queue e s ch"
proof -
  from assms(1) obtain ch0 ch1 "next" v ms where n: "prepare_task e t mk = Inr ch0" "initial_items e graph ch0 initial = Inr ch1"
    "count_publication (env_Ulid e) t initial (tk_CreatedAt t) = Inr next"
    "replace_value (task_key (tk_ID t)) v (ch_Mutations ch1) = Some ms"
    "ch = \<lparr>ch_Conditions = ch_Conditions ch1, ch_Mutations = ms\<rparr>"
    by (auto simp: prepare_staged_graph_def split: if_splits option.splits)
  note made = initial_items_created[OF n(2)]
  have free: "plain (ch_Mutations ch0)" "core_writes (ch_Mutations ch0) = []" using prepare_task_free[OF n(1)] by simp_all
  show ?thesis
    by (rule created_keeps[OF n(3) made free assms(2)])
      (use replace_value_core[OF n(4)] item_creations_core[OF made free(1)] in \<open>simp_all add: n(5)\<close>)
qed

lemma core_writes_filter: "core_writes (filter P ms) = filter P (core_writes ms)"
  by (induction ms) auto

text \<open>A decision that is already applied creates one settled item.\<close>

lemma created_settled:
  assumes "item_ok (env_Ulid e) next" "\<not> effects_open next" "it_AttemptNumber next = 0" "holds_now s ch"
    "plain (ch_Mutations ch)" "core_writes (ch_Mutations ch) = create_writes next"
    "no_key (item_key (it_ID next)) \<in> set (ch_Conditions ch)"
  shows "keeps_queue e s ch"
proof -
  have "kv_now s (item_key (it_ID next)) = None" using holds_missing[OF assms(4,7)] .
  then show ?thesis
    using assms(3,5,6) create_update[OF _ _ assms(1) refl assms(2)] create_writes_item
      item_moves_create[of "apply_writes (create_writes next) (kv_now s)" "it_ID next" "next" "kv_now s"]
    by (simp add: keeps_queue_def create_writes_def)
qed

lemma settled_unstarted:
  assumes "settle_unstarted u it c now = Inr next"
  shows "same_holder it next" "it_ActiveAttemptID next = it_ActiveAttemptID it" "effects_open next = effects_open it"
    "\<not> queued next" "\<not> waiting_input next" "\<not> effects_open next" "queued it = (it_Phase it = Ready)"
    "it_AttemptNumber next = 0" "item_ok u next"
  using assms by (auto simp: settle_unstarted_Inr settled_item_def same_holder_def effects_open_def queued_def
      retry_waiting_def waiting_input_def split: if_splits)

lemma settled_decision_keeps:
  assumes "prepare_settled_decision e t it evidence mk now = Inr ch" "holds_now s ch"
  shows "keeps_queue e s ch"
proof -
  from assms(1) obtain ch0 "next" taskBytes where n: "prepare_small_graph e t [it] mk = Inr ch0"
    "settle_unstarted (env_Ulid e) it \<lparr>co_Outcome = Succeeded, co_Evidence = evidence, co_EffectsSettled = True\<rparr> now = Inr next"
    and phase: "it_Phase it = Waiting"
    and ch: "ch = \<lparr>ch_Conditions =
               ch_Conditions ch0 @ map (\<lambda>c. no_key (claim_key c)) (it_Claims it) @
               (if sc_EnvironmentID (tk_Scope t) \<noteq> [] then [no_key (reservation_key (environment_claim t))] else []),
             ch_Mutations =
               filter (\<lambda>m. mu_Key m \<notin> {task_key (tk_ID t), item_key (it_ID it), input_queue_key (it_ID it)})
                 (ch_Mutations ch0) @
               [put (task_key (tk_ID t)) taskBytes, put (item_key (it_ID it)) (StItem next),
                put (finish_key (tk_ID t)) (StBytes (tk_ID t))]\<rparr>"
    by (auto simp: prepare_settled_decision_def prepare_single_task_def encode_item_Inr split: if_splits)
  obtain ch1 counted where p: "item_creations e \<lparr>ch_Conditions = [], ch_Mutations = []\<rparr> [it] = Inr ch1"
    "plain (ch_Mutations ch0)" "core_writes (ch_Mutations ch0) = core_writes (ch_Mutations ch1)"
    "set (ch_Conditions ch1) \<subseteq> set (ch_Conditions ch0)"
    using n(1) by (rule small_graph_parts)
  have core: "core_writes (ch_Mutations ch1) = create_writes it" "no_key (item_key (it_ID it)) \<in> set (ch_Conditions ch1)"
    using item_creations_core[OF p(1)] by simp_all
  note x = settled_unstarted[OF n(2)]
  have id: "it_ID next = it_ID it" using x(1) by (simp add: same_holder_def)
  have "core_writes (ch_Mutations ch) = create_writes next"
    using x(4,5,7) phase by (simp add: ch core_writes_filter p(3) core(1) create_writes_def input_writes_def id)
  moreover have "plain (ch_Mutations ch)" using p(2) by (simp add: ch plain_def list_all_iff)
  moreover have "no_key (item_key (it_ID next)) \<in> set (ch_Conditions ch)" using core(2) p(4) by (auto simp: ch id)
  ultimately show ?thesis using created_settled[OF x(9,6,8) assms(2)] by blast
qed

lemma publication_settlement_keeps:
  assumes "prepare_publication_settlement e t i c now = Inr ch" "holds_now s ch" "0 < is_Revision i \<Longrightarrow> item_seen s i"
  shows "keeps_queue e s ch"
proof -
  from assms(1) obtain nextTask "next" ch0 where
    n: "settle_publication (env_Ulid e) (ts_Task t) (is_Item i) (0 < is_Revision i) c now = Inr (nextTask, next)"
      "task_change e t nextTask = Inr ch0" "item_ok (env_Ulid e) next" "0 \<le> is_Revision i"
    and ch: "(let ch = with_parts ch0 [cond (item_key (it_ID next)) (is_Revision i)] [put (item_key (it_ID next)) (StItem next)] in
      if is_Revision i = 0 then
        try_res (encode_stored e (StOwner (owner_of next))) (\<lambda>reference.
          Inr (with_parts ch [no_key (task_item_key (it_TaskID next) (it_ID next)), no_key (item_queue_key next)]
                 [put (task_item_key (it_TaskID next) (it_ID next)) reference]))
      else update_input_queue e
        (with_parts ch [] (if it_Phase (is_Item i) = Ready then [del (item_queue_key next)] else []))
        (waiting_input (is_Item i)) next) = Inr ch"
    by (auto simp: prepare_publication_settlement_def encode_item_Inr Let_def split: if_splits)
  have settled: "settle_unstarted (env_Ulid e) (is_Item i) c now = Inr next"
    using n(1) by (auto simp: settle_publication_def Let_def try_res_unit split: option.splits if_splits)
  note it = settled_unstarted[OF settled]
  show ?thesis
  proof (cases "is_Revision i = 0")
    case True
    with ch have c: "set (ch_Conditions ch) \<supseteq> {no_key (item_key (it_ID next))}" "plain (ch_Mutations ch)"
      "core_writes (ch_Mutations ch) = create_writes next"
      using task_change_free(1,2)[OF n(2)] it by (auto simp: create_writes_def input_writes_def)
    show ?thesis by (rule created_settled[OF n(3) it(6,8) assms(2) c(2,3)]) (use c(1) in simp)
  next
    case False
    with ch have u: "update_input_queue e
        (with_parts (with_parts ch0 [cond (item_key (it_ID next)) (is_Revision i)] [put (item_key (it_ID next)) (StItem next)])
          [] (if it_Phase (is_Item i) = Ready then [del (item_queue_key next)] else []))
        (waiting_input (is_Item i)) next = Inr ch" by (simp add: Let_def)
    have m: "plain (ch_Mutations ch)" "core_writes (ch_Mutations ch) = [put (item_key (it_ID next)) (StItem next)] @
        (if it_Phase (is_Item i) = Ready then [del (item_queue_key next)] else []) @ input_writes (waiting_input (is_Item i)) next"
      using update_input_queue_Inr[OF u] task_change_free(1,2)[OF n(2)] by simp_all
    have c: "cond (item_key (it_ID (is_Item i))) (is_Revision i) \<in> set (ch_Conditions ch)"
      using update_input_queue_conditions[OF u] it(1) by (simp add: same_holder_def)
    have "item_seen s i" using assms(3) n(4) False by simp
    then have st: "stored_item (kv_now s) (it_ID (is_Item i)) = Some (is_Item i)"
      by (rule seen_now[OF assms(2) _ c])
    show ?thesis
      by (rule keeps_quiet[OF m(1) st m(2) n(3) it(1,2,3) item_stepI[OF step_settle_unstarted[OF settled]]])
        (use it(4,7) in auto)
  qed
qed

lemma collection_keeps:
  assumes "prepare_work_collection e t i = Inr ch" "holds_now s ch" "item_seen s i" "task_seen s t"
  shows "keeps_queue e s ch"
proof -
  from assms(1) have it: "item_ok (env_Ulid e) (is_Item i)" "it_Phase (is_Item i) = Settled" "\<not> active (is_Item i)"
      "it_TaskID (is_Item i) = tk_ID (ts_Task t)" "tk_CollectionStartedAt (ts_Task t) \<noteq> None"
      "cond (task_key (tk_ID (ts_Task t))) (ts_Revision t) \<in> set (ch_Conditions ch)"
    and ch: "cond (item_key (it_ID (is_Item i))) (is_Revision i) \<in> set (ch_Conditions ch)" "plain (ch_Mutations ch)"
      "core_writes (ch_Mutations ch) = [del (item_key (it_ID (is_Item i)))]"
    by (auto simp: prepare_work_collection_def split: if_splits)
  have st: "stored_item (kv_now s) (it_ID (is_Item i)) = Some (is_Item i)" by (rule seen_now[OF assms(2,3) ch(1)])
  have "\<not> effects_open (is_Item i)" "\<not> queued (is_Item i)" "\<not> waiting_input (is_Item i)"
    using it by (auto simp: effects_open_def queued_def retry_waiting_def waiting_input_def item_ok_def item_state_ok_def)
  moreover have "task_collecting (kv_now s) (it_TaskID (is_Item i))"
    using holds_snapshot[OF assms(2) it(6)] assms(4) it(4,5) by (auto simp: task_seen_def task_collecting_def)
  then have "item_moves (env_Ulid e) (kv_now s) (apply_writes (core_writes (ch_Mutations ch)) (kv_now s))"
    using st it(2) by (auto simp: item_moves_def ch(3) stored_item_def apply_writes_def write_of_Cons split: option.split stored.split)
  ultimately show ?thesis using ch(2,3) remove_update[OF _ st] by (simp add: keeps_queue_def)
qed

section \<open>Assignment\<close>

lemma claim_writes_parts:
  assumes "claim_writes own v ch cs ss = Inr ch'" "length ss = length cs"
  shows "ch_Mutations ch' = ch_Mutations ch @ map (\<lambda>c. put (claim_key c) v) cs \<and>
    set (ch_Conditions ch) \<subseteq> set (ch_Conditions ch') \<and>
    (\<forall>c \<in> set cs. \<exists>x \<in> set ss. cs_Claim x = c \<and> cond (claim_key c) (cs_Revision x) \<in> set (ch_Conditions ch') \<and>
       (cs_Owner x = None \<and> cs_Revision x = 0 \<or> cs_Owner x = Some own))"
  using assms
proof (induction own v ch cs ss rule: claim_writes.induct)
  case (1 own v ch c cs s ss)
  then have h: "cs_Claim s = c" "(cs_Owner s = None) = (cs_Revision s = 0)" "cs_Owner s = None \<or> cs_Owner s = Some own"
    "claim_writes own v (with_parts ch [cond (claim_key c) (cs_Revision s)] [put (claim_key c) v]) cs ss = Inr ch'"
    by (auto split: if_splits)
  then have ih: "ch_Mutations ch' = (ch_Mutations ch @ [put (claim_key c) v]) @ map (\<lambda>c. put (claim_key c) v) cs \<and>
    set (ch_Conditions ch @ [cond (claim_key c) (cs_Revision s)]) \<subseteq> set (ch_Conditions ch') \<and>
    (\<forall>c \<in> set cs. \<exists>x \<in> set ss. cs_Claim x = c \<and> cond (claim_key c) (cs_Revision x) \<in> set (ch_Conditions ch') \<and>
       (cs_Owner x = None \<and> cs_Revision x = 0 \<or> cs_Owner x = Some own))"
    using 1 by (auto split: if_splits)
  with h(1,2,3) show ?case by auto
qed auto

definition effect_writes :: "item \<Rightarrow> direction \<Rightarrow> mutation list" where
  "effect_writes it dir =
     (if pl_Executor (it_Placement it) = AgentExecutor \<and> dir \<noteq> Recovery
      then [put (item_effect_key it) (StHostEffect (owner_of it))] else [])"

lemma assign_host_effect_parts:
  "assign_host_effect e ch it x dir = Inr ch' \<Longrightarrow>
     ch_Mutations ch' = ch_Mutations ch @ effect_writes it dir \<and> set (ch_Conditions ch) \<subseteq> set (ch_Conditions ch')"
  by (auto simp: assign_host_effect_def effect_writes_def split: if_splits)

text \<open>An item takes a slot and its claims, leaves the queue and, going forward on a host, enters the host's effects.\<close>

lemma acquire_update:
  assumes con: "consistent u m" and old: "stored_item m (it_ID it) = Some it" and ok: "item_ok u next"
    and it: "same_holder it next" "\<not> active it" "active next" "\<not> queued next" "\<not> waiting_input it" "\<not> waiting_input next"
    and slot: "m (slot_key (it_Placement next) n0) = None"
    and free: "\<And>c. c \<in> set (it_Claims next) \<Longrightarrow> m (claim_key c) = None \<or> m (claim_key c) = Some (StClaim (owner_of next))"
    and dir: "effects_open it \<longleftrightarrow> dir = Recovery"
    and L: "L = [put (item_key (it_ID next)) (StItem next),
      put (slot_key (it_Placement next) n0) (StSlot (slot_of next)), del (item_queue_key next)] @
      map (\<lambda>c. put (claim_key c) (StClaim (owner_of next))) (it_Claims next) @ effect_writes next dir"
  shows "consistent u (apply_writes L m)"
proof -
  let ?m' = "apply_writes L m"
  from con have parts: "items_ok u m" "entries_ok u m" "claims_ok u m" "slots_ok u m" by (simp_all add: consistent_def)
  have id: "it_ID next = it_ID it" "owner_of next = owner_of it" "it_Placement next = it_Placement it"
    "it_Claims next = it_Claims it" "it_TaskID next = it_TaskID it"
    using it(1) by (simp_all add: same_holder_def owner_of_def)
  have un: "effects_open next" using it(3) by (simp add: effects_open_def)
  have W: "?m' k = (if k = item_effect_key next \<and> effect_writes next dir \<noteq> [] then Some (StHostEffect (owner_of next))
      else if k \<in> claim_key ` set (it_Claims next) then Some (StClaim (owner_of next))
      else if k = item_queue_key next then None
      else if k = slot_key (it_Placement next) n0 then Some (StSlot (slot_of next))
      else if k = item_key (it_ID next) then Some (StItem next) else m k)" for k
    unfolding L by (simp add: apply_writes_def write_of_append write_of_Cons write_of_puts effect_writes_def)
  have apart: "item_queue_key next \<noteq> item_key x" "item_queue_key next \<noteq> slot_key p n" "item_queue_key next \<noteq> claim_key c"
    "item_queue_key next \<noteq> input_queue_key x" "item_queue_key next \<noteq> host_effect_key h x"
    "item_effect_key next \<noteq> item_key x" "item_effect_key next \<noteq> slot_key p n" "item_effect_key next \<noteq> claim_key c"
    "item_effect_key next \<noteq> input_queue_key x" "item_effect_key next \<noteq> queue_key p x" for x p n c h
    by (simp_all add: item_queue_key_def item_effect_key_def)
  note apart' = apart[symmetric]
  have image: "k \<notin> claim_key ` set (it_Claims next)" if "\<And>c. k \<noteq> claim_key c" for k using that by auto
  have mitem: "?m' (item_key w) = (if w = it_ID next then Some (StItem next) else m (item_key w))" for w
    by (simp add: W apart' image)
  then have st: "stored_item ?m' = (stored_item m)(it_ID next \<mapsto> next)" by (rule stored_item_update)
  have p: "placement_validate u (it_Placement next) = Inr ()" by (rule item_ok_placement[OF ok])
  have "entries_ok u ?m'"
  proof (rule entries_ok_update[OF parts(2) st])
    show "?m' (input_queue_key (it_ID next)) = input_entry (Some next)"
      using parts(2) old it id(1) by (simp add: W apart' image entries_ok_def input_entry_def)
  next
    fix q assume q: "placement_validate u q = Inr ()"
    have e: "m (queue_key q (it_ID next)) = queue_entry (Some it) q"
      using parts(2) q old id(1) by (simp add: entries_ok_def)
    show "?m' (queue_key q (it_ID next)) = queue_entry (Some next) q"
    proof (cases "q = it_Placement next")
      case True
      then have "queue_key q (it_ID next) = item_queue_key next" by (simp add: item_queue_key_def)
      then show ?thesis using it(4) by (simp add: W apart' apart image queue_entry_def) (simp add: item_queue_key_def item_effect_key_def)
    next
      case False
      then have "queue_key q (it_ID next) \<noteq> item_queue_key next" using queue_key_inject[OF q p] by (simp add: item_queue_key_def)
      with e False id(3) show ?thesis by (simp add: W apart' image queue_entry_def)
    qed
  next
    fix h assume h: "id_valid u KindHost h"
    have e: "m (host_effect_key h (it_ID next)) = effect_entry (Some it) h"
      using parts(2) h old id(1) by (simp add: entries_ok_def)
    show "?m' (host_effect_key h (it_ID next)) = effect_entry (Some next) h"
    proof (cases "it_Placement next = \<lparr>pl_Executor = AgentExecutor, pl_HostID = h\<rparr>")
      case True
      then have "host_effect_key h (it_ID next) = item_effect_key next" by (simp add: item_effect_key_def)
      with e True un id dir show ?thesis by (auto simp: W apart' apart image effect_entry_def effect_writes_def)
    next
      case False
      have "host_effect_key h (it_ID next) = item_effect_key next \<Longrightarrow> effect_writes next dir = []"
      proof (rule ccontr)
        assume k: "host_effect_key h (it_ID next) = item_effect_key next" "effect_writes next dir \<noteq> []"
        then have a: "pl_Executor (it_Placement next) = AgentExecutor" by (auto simp: effect_writes_def split: if_splits)
        with p have "id_valid u KindHost (pl_HostID (it_Placement next))"
          by (auto simp: placement_validate_def split: if_splits)
        with k(1) h have "h = pl_HostID (it_Placement next)" by (simp add: item_effect_key_def host_effect_key_inject)
        with a False show False by (cases "it_Placement next") auto
      qed
      with e False id(3) show ?thesis by (simp add: W apart' image effect_entry_def)
    qed
  next
    fix w assume "w \<noteq> it_ID next"
    then show "?m' (input_queue_key w) = m (input_queue_key w)" by (simp add: W apart' image)
  next
    fix q w assume "placement_validate u q = Inr ()" "w \<noteq> it_ID next"
    then have "queue_key q w \<noteq> item_queue_key next" using queue_key_inject[OF _ p] by (simp add: item_queue_key_def)
    then show "?m' (queue_key q w) = m (queue_key q w)" by (simp add: W apart' image)
  next
    fix h w assume h: "id_valid u KindHost h" "w \<noteq> it_ID next"
    have "effect_writes next dir = [] \<or> host_effect_key h w \<noteq> item_effect_key next"
    proof (cases "effect_writes next dir = []")
      case False
      then have "pl_Executor (it_Placement next) = AgentExecutor" by (auto simp: effect_writes_def split: if_splits)
      with p have "id_valid u KindHost (pl_HostID (it_Placement next))"
        by (auto simp: placement_validate_def split: if_splits)
      with h show ?thesis by (simp add: item_effect_key_def host_effect_key_inject)
    qed simp
    then show "?m' (host_effect_key h w) = m (host_effect_key h w)" by (auto simp: W apart' image)
  qed
  moreover have "claims_ok u ?m'"
  proof (rule claims_ok_update[OF parts(3,1) st refl ok])
    fix c :: claim assume h: "host_shape u (cl_HostID c)" "c \<notin> set (it_Claims next)"
    have "claim_key c \<notin> claim_key ` set (it_Claims next)"
      using h claim_key_inject[OF h(1) item_ok_claims[OF ok]] by auto
    then show "?m' (claim_key c) = m (claim_key c)" by (simp add: W apart')
  next
    fix c assume "c \<in> set (it_Claims next)"
    then show "?m' (claim_key c) = (if effects_open next then Some (StClaim (owner_of next))
        else if m (claim_key c) = Some (StClaim (owner_of next)) then None else m (claim_key c))"
      using un by (auto simp: W apart')
  qed (use old id free in auto)
  moreover have "slots_ok u ?m'"
  proof (rule slots_ok_acquire[OF parts(4) st parts(1) ok _ slot it(3) refl])
    fix q n assume q: "placement_validate u q = Inr ()"
    show "?m' (slot_key q n) = (if q = it_Placement next \<and> n = n0 then Some (StSlot (slot_of next)) else m (slot_key q n))"
      using slot_key_inject[OF q p] by (simp add: W apart' image)
  qed (use old id it(2) in auto)
  moreover have "items_ok u ?m'" by (rule items_ok_update[OF parts(1) mitem ok refl])
  ultimately show ?thesis by (simp add: consistent_def)
qed

text \<open>What a prepared assignment passed on its way.\<close>

lemma prepare_assignment_parts:
  assumes "prepare_assignment e r = Inr (ch, a)"
  obtains "next" ch0 rs ch1 where
    "assign (env_Ulid e) (is_Item (as_Item r)) (ex_Identity (es_Record (as_Executor r)))
       (as_AttemptID r) (as_Direction r) (as_At r) (as_Deadline r) = Inr (next, a)"
    "item_ok (env_Ulid e) next"
    "executor_allows (es_Record (as_Executor r)) (it_Operation (is_Item (as_Item r)))"
    "as_Slot r < ex_Capacity (es_Record (as_Executor r))"
    "tk_Stop (ts_Task (as_Task r)) = None \<or> as_Direction r \<noteq> Forward"
    "0 < is_Revision (as_Item r)" "0 < es_Revision (as_Executor r)" "0 < as_QueueRevision r"
    "assignment_dependencies (env_Ulid e) r = Inr ()"
    "length (as_Claims r) = length (it_Claims next)"
    "claim_writes (owner_of next) (StClaim (owner_of next))
       (assignment_change r next a (StItem next) (StAttempt a)
         (StSlot \<lparr>sl_TaskID = it_TaskID next, sl_WorkItemID = it_ID next, sl_AttemptID = at_ID a\<rparr>))
       (it_Claims next) (as_Claims r) = Inr ch0"
    "task_reservation_conditions (env_Ulid e) (ts_Task (as_Task r)) next (as_Reservations r) = Inr rs"
    "assign_host_effect e (with_parts ch0 rs []) next (as_HostEffect r) (as_Direction r) = Inr ch1"
    "count_change e ch1 (as_Task r) (is_Item (as_Item r)) next (as_At r) = Inr ch"
proof -
  from assms obtain "next" attemptBytes ch0 rs ch1 where
    guards: "tk_Stop (ts_Task (as_Task r)) = None \<or> as_Direction r \<noteq> Forward"
      "0 < is_Revision (as_Item r)" "0 < es_Revision (as_Executor r)" "0 < as_QueueRevision r"
      "executor_allows (es_Record (as_Executor r)) (it_Operation (is_Item (as_Item r)))"
      "as_Slot r < ex_Capacity (es_Record (as_Executor r))"
      "assignment_dependencies (env_Ulid e) r = Inr ()"
    and steps: "assign (env_Ulid e) (is_Item (as_Item r)) (ex_Identity (es_Record (as_Executor r)))
       (as_AttemptID r) (as_Direction r) (as_At r) (as_Deadline r) = Inr (next, a)"
      "encode_item e next = Inr (StItem next)" "encode_attempt e a = Inr attemptBytes"
      "add_claims e (assignment_change r next a (StItem next) attemptBytes
         (StSlot \<lparr>sl_TaskID = it_TaskID next, sl_WorkItemID = it_ID next, sl_AttemptID = at_ID a\<rparr>)) next (as_Claims r) = Inr ch0"
      "task_reservation_conditions (env_Ulid e) (ts_Task (as_Task r)) next (as_Reservations r) = Inr rs"
      "assign_host_effect e (with_parts ch0 rs []) next (as_HostEffect r) (as_Direction r) = Inr ch1"
      "count_change e ch1 (as_Task r) (is_Item (as_Item r)) next (as_At r) = Inr ch"
    by (auto simp: prepare_assignment_def try_res_unit not_le encode_item_Inr)
  have "attemptBytes = StAttempt a" using encode_attempt_Inr[OF steps(3)] by simp
  with steps guards that show thesis by (auto simp: add_claims_def encode_item_Inr split: if_splits)
qed

lemma assign_moves:
  assumes "assign u it who aid dir now deadline = Inr (next, a)"
  shows "same_holder it next" "\<not> active it" "active next" "at_ID a = it_ActiveAttemptID next" "\<not> queued next"
    "placement_of who = it_Placement next" "\<not> waiting_input it" "\<not> waiting_input next"
    "effects_open it \<longleftrightarrow> dir = Recovery" "dir = Forward \<or> dir = Recovery"
proof -
  from assms obtain inp where f: "item_ok u it" "it_Phase it = Ready" "idn_Executor who = pl_Executor (it_Placement it)"
    "idn_HostID who = pl_HostID (it_Placement it)" "a = assigned_attempt it inp who aid dir now deadline" "attempt_ok u a"
    "next = it\<lparr>it_Phase := Assigned, it_ActiveAttemptID := aid, it_AttemptNumber := it_AttemptNumber it + 1,
       it_UpdatedAt := now, it_Cleanup := if dir = Recovery then CleanupRunning else it_Cleanup it\<rparr>"
    and d: "dir = Forward \<and> it_Cleanup it = CleanupNone \<or>
      dir = Recovery \<and> (it_Cleanup it = CleanupRequired \<or> it_Cleanup it = CleanupStopped)"
    unfolding assign_Inr by blast
  have "at_ID a = aid" using f(5) by (simp add: assigned_attempt_def)
  with f(6) have "aid \<noteq> []" by (auto simp: attempt_ok_def)
  moreover have "\<not> active it" using item_ok_active[OF f(1)] f(2) by auto
  ultimately show "same_holder it next" "\<not> active it" "active next" "at_ID a = it_ActiveAttemptID next" "\<not> queued next"
    "placement_of who = it_Placement next" "\<not> waiting_input it" "\<not> waiting_input next"
    "effects_open it \<longleftrightarrow> dir = Recovery" "dir = Forward \<or> dir = Recovery"
    using f(2,3,4,5,7) d
    by (auto simp: same_holder_def placement_of_def queued_def retry_waiting_def waiting_input_def effects_open_def
        assigned_attempt_def)
qed

text \<open>What the transaction of an assignment writes to the core keys, and what it compares.\<close>

lemma assignment_transaction:
  assumes prep: "prepare_assignment e r = Inr (ch, a)"
  obtains "next" where
    "assign (env_Ulid e) (is_Item (as_Item r)) (ex_Identity (es_Record (as_Executor r)))
       (as_AttemptID r) (as_Direction r) (as_At r) (as_Deadline r) = Inr (next, a)"
    "item_ok (env_Ulid e) next" "plain (ch_Mutations ch)"
    "core_writes (ch_Mutations ch) = [put (item_key (it_ID next)) (StItem next),
        put (slot_key (it_Placement next) (as_Slot r)) (StSlot (slot_of next)), del (item_queue_key next)] @
      map (\<lambda>c. put (claim_key c) (StClaim (owner_of next))) (it_Claims next) @ effect_writes next (as_Direction r)"
    "cond (item_key (it_ID (is_Item (as_Item r)))) (is_Revision (as_Item r)) \<in> set (ch_Conditions ch)"
    "cond (executor_key (ex_Identity (es_Record (as_Executor r)))) (es_Revision (as_Executor r)) \<in> set (ch_Conditions ch)"
    "no_key (slot_key (it_Placement next) (as_Slot r)) \<in> set (ch_Conditions ch)"
    "cond (task_key (it_TaskID next)) (ts_Revision (as_Task r)) \<in> set (ch_Conditions ch)"
    "\<forall>c \<in> set (it_Claims next). \<exists>x \<in> set (as_Claims r). cs_Claim x = c \<and>
       cond (claim_key c) (cs_Revision x) \<in> set (ch_Conditions ch) \<and>
       (cs_Owner x = None \<and> cs_Revision x = 0 \<or> cs_Owner x = Some (owner_of next))"
    "pl_Executor (it_Placement next) = AgentExecutor \<and> as_Direction r \<noteq> Recovery \<longrightarrow>
       no_key (host_fence_key (pl_HostID (it_Placement next))) \<in> set (ch_Conditions ch)"
proof -
  obtain "next" ch0 rs ch1 where p: "assign (env_Ulid e) (is_Item (as_Item r)) (ex_Identity (es_Record (as_Executor r)))
       (as_AttemptID r) (as_Direction r) (as_At r) (as_Deadline r) = Inr (next, a)"
    and ok: "item_ok (env_Ulid e) next" and len: "length (as_Claims r) = length (it_Claims next)"
    and c0: "claim_writes (owner_of next) (StClaim (owner_of next))
       (assignment_change r next a (StItem next) (StAttempt a)
         (StSlot \<lparr>sl_TaskID = it_TaskID next, sl_WorkItemID = it_ID next, sl_AttemptID = at_ID a\<rparr>))
       (it_Claims next) (as_Claims r) = Inr ch0"
    and c1: "assign_host_effect e (with_parts ch0 rs []) next (as_HostEffect r) (as_Direction r) = Inr ch1"
    and c2: "count_change e ch1 (as_Task r) (is_Item (as_Item r)) next (as_At r) = Inr ch"
    using prep by (rule prepare_assignment_parts)
  note it = assign_moves[OF p]
  note parts0 = claim_writes_parts[OF c0 len]
  note parts1 = assign_host_effect_parts[OF c1]
  have plain1: "plain (ch_Mutations ch1)"
    using parts0 parts1 by (auto simp: assignment_change_def Let_def plain_def list_all_iff effect_writes_def)
  have cw: "core_writes (map (\<lambda>c. put (claim_key c) v) cs) = map (\<lambda>c. put (claim_key c) v) cs" for v cs
    by (simp add: core_writes_def)
  have core: "core_writes (ch_Mutations ch) = [put (item_key (it_ID next)) (StItem next),
        put (slot_key (it_Placement next) (as_Slot r)) (StSlot (slot_of next)), del (item_queue_key next)] @
      map (\<lambda>c. put (claim_key c) (StClaim (owner_of next))) (it_Claims next) @ effect_writes next (as_Direction r)"
    using count_change_core(2)[OF c2 plain1] parts0 parts1 it
    by (simp add: assignment_change_def Let_def input_writes_def slot_of_def cw effect_writes_def)
  have sub: "set (ch_Conditions ch0) \<subseteq> set (ch_Conditions ch)"
    using count_change_conditions(1)[OF c2] parts1 by auto
  have base: "cond (item_key (it_ID (is_Item (as_Item r)))) (is_Revision (as_Item r)) \<in> set (ch_Conditions ch)"
    "cond (executor_key (ex_Identity (es_Record (as_Executor r)))) (es_Revision (as_Executor r)) \<in> set (ch_Conditions ch)"
    "no_key (slot_key (it_Placement next) (as_Slot r)) \<in> set (ch_Conditions ch)"
    using sub parts0 it(1,6) by (auto simp: assignment_change_def Let_def same_holder_def)
  have claims: "\<forall>c \<in> set (it_Claims next). \<exists>x \<in> set (as_Claims r). cs_Claim x = c \<and>
       cond (claim_key c) (cs_Revision x) \<in> set (ch_Conditions ch) \<and>
       (cs_Owner x = None \<and> cs_Revision x = 0 \<or> cs_Owner x = Some (owner_of next))"
    using parts0 sub by blast
  have "pl_Executor (it_Placement next) = AgentExecutor \<and> as_Direction r \<noteq> Recovery \<longrightarrow>
       no_key (host_fence_key (pl_HostID (it_Placement next))) \<in> set (ch_Conditions ch1)"
    using c1 by (auto simp: assign_host_effect_def split: if_splits)
  then have fence: "pl_Executor (it_Placement next) = AgentExecutor \<and> as_Direction r \<noteq> Recovery \<longrightarrow>
       no_key (host_fence_key (pl_HostID (it_Placement next))) \<in> set (ch_Conditions ch)"
    using count_change_conditions(1)[OF c2] by blast
  show thesis
    by (rule that[OF p ok count_change_core(1)[OF c2 plain1] core base count_change_conditions(2)[OF c2] claims fence])
qed

text \<open>Every claim of an assignment that commits is free or held by the item itself.\<close>

lemma claims_free:
  assumes "holds_now s ch" "\<forall>c \<in> set (as_Claims r). claim_seen s c"
    "\<forall>c \<in> set cs. \<exists>x \<in> set (as_Claims r). cs_Claim x = c \<and>
       cond (claim_key c) (cs_Revision x) \<in> set (ch_Conditions ch) \<and>
       (cs_Owner x = None \<and> cs_Revision x = 0 \<or> cs_Owner x = Some own)" "c \<in> set cs"
  shows "kv_now s (claim_key c) = None \<or> kv_now s (claim_key c) = Some (StClaim own)"
proof -
  from assms(3,4) obtain x where x: "x \<in> set (as_Claims r)" "cs_Claim x = c"
    "cond (claim_key c) (cs_Revision x) \<in> set (ch_Conditions ch)"
    "cs_Owner x = None \<and> cs_Revision x = 0 \<or> cs_Owner x = Some own" by blast
  then show ?thesis using assms(2) holds_missing[OF assms(1)] holds_snapshot[OF assms(1) x(3)]
    by (fastforce simp: claim_seen_def)
qed

lemma assignment_keeps:
  assumes prep: "prepare_assignment e r = Inr (ch, a)" and now: "holds_now s ch"
    and seen: "item_seen s (as_Item r)" "\<forall>c \<in> set (as_Claims r). claim_seen s c"
  shows "keeps_queue e s ch"
proof -
  let ?u = "env_Ulid e" and ?it = "is_Item (as_Item r)" and ?m = "kv_now s"
  obtain "next" where p: "assign ?u ?it (ex_Identity (es_Record (as_Executor r)))
       (as_AttemptID r) (as_Direction r) (as_At r) (as_Deadline r) = Inr (next, a)"
    and ok: "item_ok ?u next" and plain: "plain (ch_Mutations ch)"
    and core: "core_writes (ch_Mutations ch) = [put (item_key (it_ID next)) (StItem next),
        put (slot_key (it_Placement next) (as_Slot r)) (StSlot (slot_of next)), del (item_queue_key next)] @
      map (\<lambda>c. put (claim_key c) (StClaim (owner_of next))) (it_Claims next) @ effect_writes next (as_Direction r)"
    and item: "cond (item_key (it_ID ?it)) (is_Revision (as_Item r)) \<in> set (ch_Conditions ch)"
    and slot: "no_key (slot_key (it_Placement next) (as_Slot r)) \<in> set (ch_Conditions ch)"
    and claims: "\<forall>c \<in> set (it_Claims next). \<exists>x \<in> set (as_Claims r). cs_Claim x = c \<and>
       cond (claim_key c) (cs_Revision x) \<in> set (ch_Conditions ch) \<and>
       (cs_Owner x = None \<and> cs_Revision x = 0 \<or> cs_Owner x = Some (owner_of next))"
    using prep by (rule assignment_transaction)
  note it = assign_moves[OF p]
  define L where "L = core_writes (ch_Mutations ch)"
  note L = L_def[unfolded core]
  have st: "stored_item ?m (it_ID ?it) = Some ?it" by (rule seen_now[OF now seen(1) item])
  show ?thesis
    unfolding keeps_queue_def L_def[symmetric]
  proof (intro conjI impI)
    show "plain (ch_Mutations ch)" by (rule plain)
    have "apply_writes L ?m (item_key x) = (if x = it_ID ?it then Some (StItem next) else ?m (item_key x))" for x
      using it(1) by (auto simp: L apply_writes_def write_of_append write_of_Cons write_of_puts effect_writes_def
          item_queue_key_def item_effect_key_def same_holder_def)
    then show "item_moves ?u ?m (apply_writes L ?m)"
      by (rule item_moves_update) (rule st, rule item_stepI[OF step_assign[OF p]])
  next
    assume "consistent ?u ?m"
    then show "consistent ?u (apply_writes L ?m)"
      by (rule acquire_update[OF _ st ok it(1,2,3,5,7,8) holds_missing[OF now slot] claims_free[OF now seen(2) claims] it(9) L])
  qed
qed

section \<open>Completion\<close>

lemma release_claims_parts:
  assumes "release_claims own settled ch cs ss = Inr ch'" "length ss = length cs"
  shows "ch_Mutations ch' = ch_Mutations ch @ (if settled then map (\<lambda>c. del (claim_key c)) cs else []) \<and>
    set (ch_Conditions ch) \<subseteq> set (ch_Conditions ch')"
  using assms by (induction own settled ch cs ss rule: release_claims.induct) (auto split: if_splits)

definition retire_writes :: "item \<Rightarrow> mutation list" where
  "retire_writes it =
     (if it_Phase it \<noteq> Settled then []
      else map (\<lambda>c. del (claim_key c)) (it_Claims it) @
        (if pl_Executor (it_Placement it) = AgentExecutor then [del (item_effect_key it)] else []))"

text \<open>An item gives up its slot; when its effects are settled it gives up its claims and its host effect too.\<close>

lemma release_update:
  assumes con: "consistent u m" and old: "stored_item m (it_ID it) = Some it" and ok: "item_ok u next"
    and it: "same_holder it next" "active it" "\<not> active next" "effects_open next \<longleftrightarrow> it_Phase next \<noteq> Settled"
      "\<not> queued it" "\<not> waiting_input it" "\<not> waiting_input next"
    and slot: "m (slot_key (it_Placement next) n0) = Some (StSlot (slot_of it))"
    and L: "L = [put (item_key (it_ID next)) (StItem next), del (slot_key (it_Placement next) n0)] @
      (if queued next then [put (item_queue_key next) (StOwner (owner_of next))] else []) @ retire_writes next"
  shows "consistent u (apply_writes L m)"
proof -
  let ?m' = "apply_writes L m"
  from con have parts: "items_ok u m" "entries_ok u m" "claims_ok u m" "slots_ok u m" by (simp_all add: consistent_def)
  have id: "it_ID next = it_ID it" "owner_of next = owner_of it" "it_Placement next = it_Placement it"
    "it_Claims next = it_Claims it" "it_TaskID next = it_TaskID it"
    using it(1) by (simp_all add: same_holder_def owner_of_def)
  have un: "effects_open it" using it(2) by (simp add: effects_open_def)
  have p: "placement_validate u (it_Placement next) = Inr ()" by (rule item_ok_placement[OF ok])
  define host where "host \<longleftrightarrow> it_Phase next = Settled \<and> pl_Executor (it_Placement next) = AgentExecutor"
  have W: "?m' k = (if k = item_effect_key next \<and> host then None
      else if k \<in> claim_key ` set (it_Claims next) \<and> it_Phase next = Settled then None
      else if k = item_queue_key next \<and> queued next then Some (StOwner (owner_of next))
      else if k = slot_key (it_Placement next) n0 then None
      else if k = item_key (it_ID next) then Some (StItem next) else m k)" for k
    unfolding L by (auto simp: apply_writes_def write_of_append write_of_Cons write_of_dels retire_writes_def host_def
        item_queue_key_def item_effect_key_def)
  have apart: "item_queue_key next \<noteq> item_key x" "item_queue_key next \<noteq> slot_key p n" "item_queue_key next \<noteq> claim_key c"
    "item_queue_key next \<noteq> input_queue_key x" "item_queue_key next \<noteq> host_effect_key h x"
    "item_effect_key next \<noteq> item_key x" "item_effect_key next \<noteq> slot_key p n" "item_effect_key next \<noteq> claim_key c"
    "item_effect_key next \<noteq> input_queue_key x" "item_effect_key next \<noteq> queue_key p x" for x p n c h
    by (simp_all add: item_queue_key_def item_effect_key_def)
  note apart' = apart[symmetric]
  have image: "k \<notin> claim_key ` set (it_Claims next)" if "\<And>c. k \<noteq> claim_key c" for k using that by auto
  have mitem: "?m' (item_key w) = (if w = it_ID next then Some (StItem next) else m (item_key w))" for w
    by (simp add: W apart' image)
  then have st: "stored_item ?m' = (stored_item m)(it_ID next \<mapsto> next)" by (rule stored_item_update)
  have hostkey: "host_effect_key h w = item_effect_key next \<longleftrightarrow> h = pl_HostID (it_Placement next) \<and> w = it_ID next"
    if "id_valid u KindHost h" "pl_Executor (it_Placement next) = AgentExecutor" for h w
  proof -
    from that(2) p have "id_valid u KindHost (pl_HostID (it_Placement next))"
      by (auto simp: placement_validate_def split: if_splits)
    with that(1) show ?thesis by (simp add: item_effect_key_def host_effect_key_inject)
  qed
  have "entries_ok u ?m'"
  proof (rule entries_ok_update[OF parts(2) st])
    show "?m' (input_queue_key (it_ID next)) = input_entry (Some next)"
      using parts(2) old it id(1) by (simp add: W apart' image entries_ok_def input_entry_def)
  next
    fix q assume q: "placement_validate u q = Inr ()"
    have e: "m (queue_key q (it_ID next)) = None"
      using parts(2) q old id(1) it(5) by (simp add: entries_ok_def queue_entry_def)
    have "queue_key q (it_ID next) = item_queue_key next \<longleftrightarrow> q = it_Placement next"
      using queue_key_inject[OF q p] by (simp add: item_queue_key_def)
    then show "?m' (queue_key q (it_ID next)) = queue_entry (Some next) q"
      using e by (auto simp: W apart' image queue_entry_def)
  next
    fix h assume h: "id_valid u KindHost h"
    have e: "m (host_effect_key h (it_ID next)) = effect_entry (Some it) h"
      using parts(2) h old id(1) by (simp add: entries_ok_def)
    show "?m' (host_effect_key h (it_ID next)) = effect_entry (Some next) h"
    proof (cases "it_Placement next = \<lparr>pl_Executor = AgentExecutor, pl_HostID = h\<rparr>")
      case True
      then have "host_effect_key h (it_ID next) = item_effect_key next" by (simp add: item_effect_key_def)
      with e True un id it(4) show ?thesis by (auto simp: W apart' apart image effect_entry_def host_def)
    next
      case False
      then have "\<not> (host_effect_key h (it_ID next) = item_effect_key next \<and> host)"
        using hostkey[OF h] by (cases "it_Placement next") (auto simp: host_def)
      with e False id(3) show ?thesis by (auto simp: W apart' image effect_entry_def)
    qed
  next
    fix w assume "w \<noteq> it_ID next"
    then show "?m' (input_queue_key w) = m (input_queue_key w)" by (simp add: W apart' image)
  next
    fix q w assume "placement_validate u q = Inr ()" "w \<noteq> it_ID next"
    then have "queue_key q w \<noteq> item_queue_key next" using queue_key_inject[OF _ p] by (simp add: item_queue_key_def)
    then show "?m' (queue_key q w) = m (queue_key q w)" by (simp add: W apart' image)
  next
    fix h w assume "id_valid u KindHost h" "w \<noteq> it_ID next"
    then have "\<not> (host_effect_key h w = item_effect_key next \<and> host)" using hostkey by (auto simp: host_def)
    then show "?m' (host_effect_key h w) = m (host_effect_key h w)" by (auto simp: W apart' image)
  qed
  moreover have "claims_ok u ?m'"
  proof (rule claims_ok_update[OF parts(3,1) st refl ok])
    fix c :: claim assume h: "host_shape u (cl_HostID c)" "c \<notin> set (it_Claims next)"
    have "claim_key c \<notin> claim_key ` set (it_Claims next)"
      using h claim_key_inject[OF h(1) item_ok_claims[OF ok]] by auto
    then show "?m' (claim_key c) = m (claim_key c)" by (simp add: W apart')
  next
    fix c assume c: "c \<in> set (it_Claims next)"
    have "m (claim_key c) = Some (StClaim (owner_of next))"
      using parts(3) item_ok_claims[OF ok c] old un c id unfolding claims_ok_def by metis
    then show "?m' (claim_key c) = (if effects_open next then Some (StClaim (owner_of next))
        else if m (claim_key c) = Some (StClaim (owner_of next)) then None else m (claim_key c))"
      and "m (claim_key c) = None \<or> m (claim_key c) = Some (StClaim (owner_of next))"
      using it(4) c by (auto simp: W apart')
  qed (use old id in auto)
  moreover have "slots_ok u ?m'"
  proof (rule slots_ok_release[OF parts(4) st parts(1), of it n0])
    fix q n assume q: "placement_validate u q = Inr ()"
    show "?m' (slot_key q n) = (if q = it_Placement it \<and> n = n0 then None else m (slot_key q n))"
      using slot_key_inject[OF q p] id(3) by (simp add: W apart' image)
  qed (use old id slot it(2,3) in auto)
  moreover have "items_ok u ?m'" by (rule items_ok_update[OF parts(1) mitem ok refl])
  ultimately show ?thesis by (simp add: consistent_def)
qed

lemma complete_host_effect_parts:
  "complete_host_effect ch it x = Inr ch' \<Longrightarrow>
     ch_Mutations ch' = ch_Mutations ch @
       (if pl_Executor (it_Placement it) = AgentExecutor \<and> it_Phase it = Settled then [del (item_effect_key it)] else []) \<and>
     set (ch_Conditions ch) \<subseteq> set (ch_Conditions ch')"
  by (auto simp: complete_host_effect_def split: if_splits)

lemma prepare_completion_parts:
  assumes "prepare_completion_with e r recovery = Inr ch"
  obtains finished a it ch0 ch1 itemBytes attemptBytes where
    "finish (env_Ulid e) (is_Item (wc_Item r)) (an_Attempt (wc_Attempt r)) (wc_Result r) (wc_At r) = Inr (finished, a)"
    "(case recovery of None \<Rightarrow> Inr finished | Some d \<Rightarrow> retry (env_Ulid e) finished a d (wc_At r)) = Inr it"
    "ss_Record (wc_Slot r) = \<lparr>sl_TaskID = it_TaskID it, sl_WorkItemID = it_ID it, sl_AttemptID = at_ID a\<rparr>"
    "item_ok (env_Ulid e) it" "length (wc_Claims r) = length (it_Claims it)"
    "release_claims (owner_of it) (it_Phase it = Settled)
          \<lparr>ch_Conditions =
             [cond (item_key (it_ID it)) (is_Revision (wc_Item r)),
              cond (attempt_key (at_ID a)) (an_Revision (wc_Attempt r)),
              cond (slot_key (placement_of (at_Executor a)) (ss_Index (wc_Slot r))) (ss_Revision (wc_Slot r))] @
             (if recovery = None then [] else [no_key (item_queue_key it)]),
           ch_Mutations =
             [put (item_key (it_ID it)) (StItem it), put (attempt_key (at_ID a)) attemptBytes,
              del (slot_key (placement_of (at_Executor a)) (ss_Index (wc_Slot r)))] @
             (if recovery = None then [] else [put (item_queue_key it) (StOwner (owner_of it))])\<rparr>
          (it_Claims it) (wc_Claims r) = Inr ch0"
    "complete_host_effect ch0 it (wc_HostEffect r) = Inr ch1"
    "count_change e ch1 (wc_Task r) (is_Item (wc_Item r)) it (wc_At r) = Inr ch"
  using assms
  by (cases recovery) (auto simp: prepare_completion_with_def encode_item_Inr Let_def split: if_splits)

lemma completion_keeps:
  assumes prep: "prepare_completion_with e r recovery = Inr ch" and now: "holds_now s ch"
    and seen: "item_seen s (wc_Item r)"
      "slot_seen s (placement_of (at_Executor (an_Attempt (wc_Attempt r)))) (wc_Slot r)"
    and rec: "\<And>d. recovery = Some d \<Longrightarrow> rd_Direction d = Recovery \<and> rd_NotBefore d = wc_At r"
  shows "keeps_queue e s ch"
proof -
  let ?u = "env_Ulid e" and ?it = "is_Item (wc_Item r)" and ?m = "kv_now s"
  obtain finished a it ch0 ch1 itemBytes attemptBytes where
    fin: "finish ?u ?it (an_Attempt (wc_Attempt r)) (wc_Result r) (wc_At r) = Inr (finished, a)"
    and ret: "(case recovery of None \<Rightarrow> Inr finished | Some d \<Rightarrow> retry ?u finished a d (wc_At r)) = Inr it"
    and rec_slot: "ss_Record (wc_Slot r) = \<lparr>sl_TaskID = it_TaskID it, sl_WorkItemID = it_ID it, sl_AttemptID = at_ID a\<rparr>"
    and ok: "item_ok ?u it" and len: "length (wc_Claims r) = length (it_Claims it)"
    and c0: "release_claims (owner_of it) (it_Phase it = Settled)
          \<lparr>ch_Conditions =
             [cond (item_key (it_ID it)) (is_Revision (wc_Item r)),
              cond (attempt_key (at_ID a)) (an_Revision (wc_Attempt r)),
              cond (slot_key (placement_of (at_Executor a)) (ss_Index (wc_Slot r))) (ss_Revision (wc_Slot r))] @
             (if recovery = None then [] else [no_key (item_queue_key it)]),
           ch_Mutations =
             [put (item_key (it_ID it)) (StItem it), put (attempt_key (at_ID a)) attemptBytes,
              del (slot_key (placement_of (at_Executor a)) (ss_Index (wc_Slot r)))] @
             (if recovery = None then [] else [put (item_queue_key it) (StOwner (owner_of it))])\<rparr>
          (it_Claims it) (wc_Claims r) = Inr ch0"
    and c1: "complete_host_effect ch0 it (wc_HostEffect r) = Inr ch1"
    and c2: "count_change e ch1 (wc_Task r) ?it it (wc_At r) = Inr ch"
    using prep by (rule prepare_completion_parts)
  from fin have m: "item_ok ?u ?it" "attempt_ok ?u (an_Attempt (wc_Attempt r))" "match_active ?u ?it (an_Attempt (wc_Attempt r)) = Inr ()"
    and f: "finished = finish_item (?it\<lparr>it_ActiveAttemptID := [], it_UpdatedAt := wc_At r\<rparr>) (an_Attempt (wc_Attempt r)) (wc_Result r)"
      "a = (an_Attempt (wc_Attempt r))\<lparr>at_FinishedAt := Some (wc_At r), at_Outcome := co_Outcome (wc_Result r),
         at_Result := Some (co_Evidence (wc_Result r))\<rparr>"
      by (simp_all add: finish_Inr match_active_ok)
  from m(3) have ma: "it_ActiveAttemptID ?it = at_ID a" "placement_of (at_Executor a) = it_Placement ?it"
    by (simp_all add: match_active_ok f(2) placement_of_def)
  have act: "active ?it" using m(2) ma(1) f(2) by (auto simp: attempt_ok_def)
  have ph: "it_Phase ?it = Assigned \<or> it_Phase ?it = Running" using item_ok_active[OF m(1)] act by simp
  have fi: "same_holder ?it finished" "\<not> active finished" "effects_open finished \<longleftrightarrow> it_Phase finished \<noteq> Settled"
    "it_Phase finished = Settled \<or> it_Phase finished = Attention"
    unfolding f(1) by (auto simp: finish_item_def Let_def same_holder_def effects_open_def)
  have it: "same_holder ?it it" "\<not> active it" "effects_open it \<longleftrightarrow> it_Phase it \<noteq> Settled" "\<not> waiting_input it"
    "queued it \<longleftrightarrow> recovery \<noteq> None"
  proof -
    have "same_holder ?it it \<and> \<not> active it \<and> (effects_open it \<longleftrightarrow> it_Phase it \<noteq> Settled) \<and> \<not> waiting_input it \<and>
        (queued it \<longleftrightarrow> recovery \<noteq> None)"
    proof (cases recovery)
      case None
      with ret have "it = finished" by simp
      with None fi show ?thesis by (auto simp: waiting_input_def queued_def retry_waiting_def)
    next
      case (Some d)
      with ret have "retry ?u finished a d (wc_At r) = Inr it" by simp
      with rec[OF Some] have "it_Phase it = Ready" "same_holder finished it" "it_ActiveAttemptID it = it_ActiveAttemptID finished"
        "effects_open it = effects_open finished" "effects_open finished"
        by (auto simp: retry_Inr Let_def retry_base_def same_holder_def effects_open_def after_def)
      with Some fi show ?thesis by (auto simp: waiting_input_def queued_def same_holder_def)
    qed
    then show "same_holder ?it it" "\<not> active it" "effects_open it \<longleftrightarrow> it_Phase it \<noteq> Settled" "\<not> waiting_input it"
      "queued it \<longleftrightarrow> recovery \<noteq> None" by blast+
  qed
  have idle: "\<not> queued ?it" "\<not> waiting_input ?it" using ph by (auto simp: queued_def retry_waiting_def waiting_input_def)
  have pl: "placement_of (at_Executor a) = it_Placement it" using ma(2) it(1) by (simp add: same_holder_def)
  note parts0 = release_claims_parts[OF c0 len]
  note parts1 = complete_host_effect_parts[OF c1]
  have plain1: "plain (ch_Mutations ch1)"
    using parts0 parts1 by (auto simp: plain_def list_all_iff split: if_splits)
  have cw: "core_writes (map (\<lambda>c. del (claim_key c)) cs) = map (\<lambda>c. del (claim_key c)) cs" for cs
    by (simp add: core_writes_def)
  define L where "L = [put (item_key (it_ID it)) (StItem it), del (slot_key (it_Placement it) (ss_Index (wc_Slot r)))] @
      (if queued it then [put (item_queue_key it) (StOwner (owner_of it))] else []) @ retire_writes it"
  have core: "core_writes (ch_Mutations ch) = L"
    using count_change_core(2)[OF c2 plain1] parts0 parts1 it(4,5) idle(2) pl
    by (simp add: L_def retire_writes_def cw input_writes_def)
  have conds: "set (ch_Conditions ch0) \<subseteq> set (ch_Conditions ch)"
    using count_change_conditions(1)[OF c2] parts1 by auto
  have base: "cond (item_key (it_ID ?it)) (is_Revision (wc_Item r)) \<in> set (ch_Conditions ch)"
    "cond (slot_key (it_Placement it) (ss_Index (wc_Slot r))) (ss_Revision (wc_Slot r)) \<in> set (ch_Conditions ch)"
    using conds parts0 it(1) pl by (auto simp: same_holder_def)
  have st: "stored_item ?m (it_ID ?it) = Some ?it" by (rule seen_now[OF now seen(1) base(1)])
  have "at_Executor (an_Attempt (wc_Attempt r)) = at_Executor a" by (simp add: f(2))
  then have slot: "?m (slot_key (it_Placement it) (ss_Index (wc_Slot r))) = Some (StSlot (slot_of ?it))"
    using seen(2) holds_snapshot[OF now base(2)] rec_slot it(1) ma pl
    by (auto simp: slot_seen_def slot_of_def same_holder_def)
  show ?thesis
    unfolding keeps_queue_def
  proof (intro conjI impI)
    show "plain (ch_Mutations ch)" by (rule count_change_core(1)[OF c2 plain1])
    have "apply_writes L ?m (item_key x) = (if x = it_ID ?it then Some (StItem it) else ?m (item_key x))" for x
      using it(1) by (auto simp: L_def apply_writes_def write_of_append write_of_Cons write_of_dels retire_writes_def
          item_queue_key_def item_effect_key_def same_holder_def)
    moreover have "(item_step ?u)\<^sup>*\<^sup>* ?it it"
    proof -
      have "(item_step ?u)\<^sup>*\<^sup>* ?it finished"
        by (rule item_stepI, rule step_finish[where i = 0 and as = "[an_Attempt (wc_Attempt r)]"]) (use fin in simp_all)
      moreover have "(item_step ?u)\<^sup>*\<^sup>* finished it"
        using ret item_stepI[OF step_retry[of a "[a]"]] by (cases recovery) auto
      ultimately show ?thesis by (rule rtranclp_trans)
    qed
    ultimately show "item_moves ?u ?m (apply_writes (core_writes (ch_Mutations ch)) ?m)"
      unfolding core by (intro item_moves_update[OF _ st])
  next
    assume con: "consistent ?u ?m"
    show "consistent ?u (apply_writes (core_writes (ch_Mutations ch)) ?m)"
      unfolding core
      by (rule release_update[OF con st ok it(1) act it(2,3) idle it(4) slot L_def])
  qed
qed

end
