(* ===== verification/QueueRun.thy ===== *)
theory QueueRun
  imports QueueInvariant
begin

text \<open>
  The life of the stored queue as a step relation. \<open>prepared\<close> lists the operations with the evidence they read, at any
  earlier revision of the store; \<open>queue_step\<close> commits one of them in a transaction with changes of other owners. Every
  reachable store is consistent.
\<close>

section \<open>The operations that leave the queue's keys alone\<close>

lemma core_free_by:
  "plain ms \<Longrightarrow> core_writes ms = [] \<Longrightarrow> list_all core_free ms"
  by (induction ms) (auto simp: core_free_def split: if_splits)

lemma task_change_core_free: "task_change e t next = Inr ch \<Longrightarrow> core_free_change ch"
  by (rule core_free_by) (rule task_change_free, assumption)+

lemma core_free_put [simp]: "core_free (put k v) \<longleftrightarrow> \<not> core_key k"
  by (simp add: core_free_def)

lemma core_free_del [simp]: "core_free (del k) \<longleftrightarrow> \<not> core_key k"
  by (simp add: core_free_def)

lemma prepare_task_core_free: "prepare_task e t mk = Inr ch \<Longrightarrow> core_free_change ch"
  using prepare_task_free[of e t mk ch] by (auto intro: core_free_by)

lemma core_free_operations:
  "prepare_publication_complete e t items now = Inr ch \<Longrightarrow> core_free_change ch"
  "prepare_checkpoint e i a previous c = Inr ch \<Longrightarrow> core_free_change ch"
  "prepare_stop e t result now = Inr ch \<Longrightarrow> core_free_change ch"
  "prepare_activation e t i a x inp now = Inr ch \<Longrightarrow> core_free_change ch"
  "prepare_collection e t now = Inr ch \<Longrightarrow> core_free_change ch"
  "prepare_expiry_fence e r now = Inr ch \<Longrightarrow> core_free_change ch"
  "prepare_decision_fence e r = Inr ch \<Longrightarrow> core_free_change ch"
  "prepare_registration e xs y = Inr (ch, y') \<Longrightarrow> core_free_change ch"
  "prepare_availability e xs who ready capacity blocked = Inr ch \<Longrightarrow> core_free_change ch"
  "prepare_task_reservation e tk cl = Inr ch \<Longrightarrow> core_free_change ch"
  "prepare_task e tk mk = Inr ch \<Longrightarrow> core_free_change ch"
  "prepare_rejected_publication_complete e t items now = Inr ch \<Longrightarrow> core_free_change ch"
  "prepare_captured_membership e t members now = Inr ch \<Longrightarrow> core_free_change ch"
  "advance_stop e sq t w done = Inr ch \<Longrightarrow> core_free_change ch"
  "prepare_attempt_collection e t i a = Inr ch \<Longrightarrow> core_free_change ch"
  "prepare_task_collection e t = Inr ch \<Longrightarrow> core_free_change ch"
  by (auto simp: prepare_publication_complete_def prepare_checkpoint_def prepare_stop_def prepare_activation_def
      prepare_collection_def prepare_expiry_fence_def prepare_decision_fence_def prepare_registration_def
      prepare_availability_def prepare_task_reservation_def executor_change_def Let_def
      prepare_rejected_publication_complete_def prepare_captured_membership_def advance_stop_def
      prepare_attempt_collection_def prepare_task_collection_def core_free_del list_all_iff task_list_keys_free
      dest!: task_change_core_free prepare_task_core_free split: if_splits option.splits)

section \<open>The step relation\<close>

inductive prepared :: "queue_env \<Rightarrow> kv_store \<Rightarrow> change \<Rightarrow> bool" for e s where
  by_publication: "prepare_items e t items now = Inr ch \<Longrightarrow> prepared e s ch"
| by_small_graph: "prepare_small_graph e tk items mk = Inr ch \<Longrightarrow> prepared e s ch"
| by_staged_graph: "prepare_staged_graph e tk graph initial mk = Inr ch \<Longrightarrow> prepared e s ch"
| by_settled_decision: "prepare_settled_decision e tk it evidence mk now = Inr ch \<Longrightarrow> prepared e s ch"
| by_input: "prepare_input_change e t i inp now = Inr ch \<Longrightarrow> item_seen s i \<Longrightarrow> prepared e s ch"
| by_assignment:
    "prepare_assignment e r = Inr (ch, a) \<Longrightarrow> item_seen s (as_Item r) \<Longrightarrow>
     \<forall>c \<in> set (as_Claims r). claim_seen s c \<Longrightarrow> prepared e s ch"
| by_start: "prepare_start e t i a x now = Inr ch \<Longrightarrow> item_seen s i \<Longrightarrow> prepared e s ch"
| by_completion:
    "prepare_completion e c = Inr ch \<Longrightarrow> item_seen s (wc_Item c) \<Longrightarrow>
     slot_seen s (placement_of (at_Executor (an_Attempt (wc_Attempt c)))) (wc_Slot c) \<Longrightarrow> prepared e s ch"
| by_recovering_completion:
    "prepare_completion_with_recovery e c deadline = Inr ch \<Longrightarrow> item_seen s (wc_Item c) \<Longrightarrow>
     slot_seen s (placement_of (at_Executor (an_Attempt (wc_Attempt c)))) (wc_Slot c) \<Longrightarrow> prepared e s ch"
| by_retry: "prepare_retry e t i p d now = Inr ch \<Longrightarrow> item_seen s i \<Longrightarrow> prepared e s ch"
| by_unstarted_retry: "prepare_unstarted_retry e t i deadline now = Inr ch \<Longrightarrow> item_seen s i \<Longrightarrow> prepared e s ch"
| by_due_retry: "prepare_retry_ready e t i q now = Inr ch \<Longrightarrow> item_seen s i \<Longrightarrow> prepared e s ch"
| by_cleanup_expiry: "prepare_cleanup_retry_expiry e t i now = Inr ch \<Longrightarrow> item_seen s i \<Longrightarrow> prepared e s ch"
| by_unstarted_settlement: "prepare_unstarted_settlement e t i c now = Inr ch \<Longrightarrow> item_seen s i \<Longrightarrow> prepared e s ch"
| by_retry_settlement: "prepare_queued_retry_settlement e t i c now = Inr ch \<Longrightarrow> item_seen s i \<Longrightarrow> prepared e s ch"
| by_revocation: "prepare_revocation e t i result now = Inr ch \<Longrightarrow> item_seen s i \<Longrightarrow> prepared e s ch"
| by_deadline: "prepare_unstarted_deadline e t i q now = Inr ch \<Longrightarrow> item_seen s i \<Longrightarrow> prepared e s ch"
| by_publication_settlement:
    "prepare_publication_settlement e t i c now = Inr ch \<Longrightarrow> (is_Revision i = 0 \<or> item_seen s i) \<Longrightarrow> prepared e s ch"
| by_work_collection: "prepare_work_collection e t i = Inr ch \<Longrightarrow> item_seen s i \<Longrightarrow> task_seen s t \<Longrightarrow> prepared e s ch"
| by_others: "core_free_change ch \<Longrightarrow> prepared e s ch"

inductive queue_step :: "queue_env \<Rightarrow> (change \<Rightarrow> nat) \<Rightarrow> kv_store \<Rightarrow> kv_store \<Rightarrow> bool" for e rb where
  committed:
    "prepared e s ch \<Longrightarrow> list_all core_free_change (pre @ post) \<Longrightarrow>
     commit rb s (pre @ ch # post) = Inr (ok, s') \<Longrightarrow> queue_step e rb s s'"

definition queue_initial :: "kv_store \<Rightarrow> bool" where
  "queue_initial s \<longleftrightarrow> log_ok s \<and> list_all (\<lambda>(k, m, v). \<not> core_key k) (st_Log s)"

inductive queue_reachable :: "queue_env \<Rightarrow> (change \<Rightarrow> nat) \<Rightarrow> kv_store \<Rightarrow> bool" for e rb where
  queue_start: "queue_initial s \<Longrightarrow> queue_reachable e rb s"
| queue_later: "queue_reachable e rb s \<Longrightarrow> queue_step e rb s s' \<Longrightarrow> queue_reachable e rb s'"

inductive_cases queue_stepE: "queue_step e rb s s'"

section \<open>Every reachable store is consistent\<close>

lemma core_free_keeps: "core_free_change ch \<Longrightarrow> core_writes (ch_Mutations ch) = []"
  unfolding core_writes_def by (induction "ch_Mutations ch" rule: list.induct)
    (auto simp: core_free_def list_all_iff filter_empty_conv)

lemma recovering_completion:
  "prepare_completion_with_recovery e c deadline = Inr ch \<Longrightarrow>
     \<exists>d. prepare_completion_with e c (Some d) = Inr ch \<and> rd_Direction d = Recovery \<and> rd_NotBefore d = wc_At c"
  by (auto simp: prepare_completion_with_recovery_def split: if_splits)

lemma prepared_keeps:
  assumes "prepared e s ch" "holds_now s ch" "\<not> core_free_change ch"
  shows "keeps_queue e s ch"
  using assms(1)
proof cases
  case (by_recovering_completion c deadline)
  then show ?thesis using recovering_completion completion_keeps assms(2) by blast
next
  case (by_completion c)
  then show ?thesis using completion_keeps[OF _ assms(2), where recovery = None] by (simp add: prepare_completion_def)
next
  case (by_publication_settlement t i c now)
  then show ?thesis using publication_settlement_keeps[OF _ assms(2)] by auto
qed (use assms(2,3) in \<open>blast intro: publish_keeps small_graph_keeps staged_graph_keeps settled_decision_keeps input_keeps assignment_keeps start_keeps retry_keeps
    unstarted_retry_keeps retry_ready_keeps cleanup_retry_expiry_keeps unstarted_settlement_keeps
    queued_retry_settlement_keeps revocation_keeps unstarted_deadline_keeps collection_keeps\<close>)+

lemma initial_current:
  assumes "queue_initial s" "core_key k"
  shows "kv_now s k = None"
proof -
  have "k \<notin> fst ` set (st_Log s)" using assms by (auto simp: queue_initial_def list_all_iff)
  then show ?thesis using assms(1) by (simp add: kv_now_def queue_initial_def value_at_latest latest_unknown)
qed

lemma initial_consistent:
  assumes "queue_initial s"
  shows "consistent u (kv_now s)"
proof -
  note none = initial_current[OF assms]
  then have "stored_item (kv_now s) w = None" for w by (simp add: stored_item_def)
  then show ?thesis using none
    by (simp add: consistent_def items_ok_def entries_ok_def claims_ok_def slots_ok_def entry_defs)
qed

lemma step_log: "queue_step e rb s s' \<Longrightarrow> log_ok s \<Longrightarrow> log_ok s'"
  by (erule queue_stepE) (rule commit_keeps_log)

text \<open>A step is either refused, or applies the core writes of one prepared change whose comparisons hold.\<close>

lemma step_writes:
  assumes "queue_step e rb s s'" "log_ok s"
  obtains "s' = s" | ch where "prepared e s ch" "holds_now s ch" "plain (ch_Mutations ch)" "\<not> core_free_change ch"
      "\<And>k. core_key k \<Longrightarrow> kv_now s' k = apply_writes (core_writes (ch_Mutations ch)) (kv_now s) k"
    | "\<And>k. core_key k \<Longrightarrow> kv_now s' k = kv_now s k"
  using assms(1)
proof cases
  case (committed ch pre post ok)
  show thesis
  proof (cases ok)
    case False
    with committed(3) have "s' = s" by (auto dest: commit_refused)
    then show thesis by (rule that(1))
  next
    case True
    with committed have c: "commit rb s (pre @ ch # post) = Inr (True, s')" by simp
    show thesis
    proof (cases "core_free_change ch")
      case True
      then have "list_all core_free_change (pre @ ch # post)" using committed(2) by simp
      then have "list_all core_free (concat (map ch_Mutations (pre @ ch # post)))"
        by (auto simp: list_all_iff)
      then show thesis using that(3) commit_written[OF c assms(2)] by (simp add: write_of_core_free)
    next
      case False
      have h: "holds_now s ch" by (rule commit_holds[OF c assms(2)]) simp
      then have p: "plain (ch_Mutations ch)" using prepared_keeps[OF committed(1) _ False] by (simp add: keeps_queue_def)
      show thesis
        by (rule that(2)[OF committed(1) h p False]) (simp add: commit_core[OF c assms(2) committed(2) p] apply_writes_def)
    qed
  qed
qed

lemma reachable_log: "queue_reachable e rb s \<Longrightarrow> log_ok s"
  by (induction rule: queue_reachable.induct) (auto simp: queue_initial_def intro: step_log)

lemma reachable_consistent:
  "queue_reachable e rb s \<Longrightarrow> consistent (env_Ulid e) (kv_now s)"
proof (induction rule: queue_reachable.induct)
  case (queue_later s s')
  have log: "log_ok s" using queue_later(1) by (rule reachable_log)
  from queue_later(2) log show ?case
  proof (cases rule: step_writes)
    case 1
    then show ?thesis using queue_later(3) by simp
  next
    case (2 ch)
    then show ?thesis using prepared_keeps[OF 2(1,2,4)] queue_later(3) consistent_cong
      unfolding keeps_queue_def by metis
  next
    case 3
    then show ?thesis using queue_later(3) consistent_cong by metis
  qed
qed (rule initial_consistent)

section \<open>What a step does to the stored items\<close>

lemma stored_item_cong: "(\<And>k. core_key k \<Longrightarrow> m k = m' k) \<Longrightarrow> stored_item m = stored_item m'"
  by (rule ext) (simp add: stored_item_def)

lemma item_moves_cong: "stored_item m' = stored_item m'' \<Longrightarrow> item_moves u m m' = item_moves u m m''"
  unfolding item_moves_def by (simp only:)

lemma step_moves:
  assumes "queue_step e rb s s'" "log_ok s"
  shows "item_moves (env_Ulid e) (kv_now s) (kv_now s')"
  using assms
proof (cases rule: step_writes)
  case (2 ch)
  then have "stored_item (kv_now s') = stored_item (apply_writes (core_writes (ch_Mutations ch)) (kv_now s))"
    by (intro stored_item_cong)
  from item_moves_cong[OF this] show ?thesis using prepared_keeps[OF 2(1,2,4)] by (simp add: keeps_queue_def)
next
  case 3
  then have "stored_item (kv_now s') = stored_item (kv_now s)" by (intro stored_item_cong)
  then show ?thesis by (rule item_moves_refl)
qed (simp add: item_moves_refl)

text \<open>A settled success is final: no transition of the lifecycle leaves it.\<close>

definition succeeded :: "item \<Rightarrow> bool" where
  "succeeded it \<longleftrightarrow> it_Phase it = Settled \<and> it_Outcome it = Succeeded"

lemma succeeded_idle:
  assumes "succeeded it" "item_ok u it" "attempt_ok u a"
  shows "match_active u it a \<noteq> Inr ()"
  using assms item_ok_active[OF assms(2)] by (auto simp: match_active_ok succeeded_def attempt_ok_def)

lemma succeeded_work_step: "work_step u s s' \<Longrightarrow> succeeded (fst s) \<Longrightarrow> fst s' = fst s"
proof (induction rule: work_step.induct)
  case (step_assign it who aid dir now deadline it' a as)
  then show ?case by (auto simp: assign_Inr succeeded_def)
next
  case (step_start i as it now it' a)
  then show ?case using succeeded_idle[of it u "as ! i"] by (auto simp: start_Inr match_active_ok)
next
  case (step_finish i as it c now it' a)
  then have "match_active u it (as ! i) = Inr ()" by (simp add: finish_Inr)
  then show ?case using succeeded_idle[of it u "as ! i"] step_finish by (simp add: match_active_ok)
next
  case (step_revoke it x now it' as)
  then show ?case by (auto simp: revoke_forward_Inr succeeded_def)
next
  case (step_prepare it inp now it' as)
  then show ?case by (auto simp: prepare_input_Inr succeeded_def)
next
  case (step_retry p as it d now it')
  then show ?case by (auto simp: retry_Inr succeeded_def)
next
  case (step_release it now it' as)
  then show ?case by (auto simp: release_retry_wait_Inr succeeded_def)
next
  case (step_expire it now it' as)
  then show ?case by (auto simp: expire_cleanup_retry_Inr succeeded_def)
next
  case (step_settle_unstarted it c now it' as)
  then show ?case by (auto simp: settle_unstarted_Inr succeeded_def)
next
  case (step_settle_queued it c now it' as)
  then show ?case by (auto simp: settle_queued_retry_Inr succeeded_def)
next
  case (step_retry_unstarted it deadline now it' as)
  then show ?case by (auto simp: retry_unstarted_Inr succeeded_def)
next
  case (step_renew it deadline now it' as)
  then show ?case by (auto simp: renew_unstarted_deadline_Inr succeeded_def)
qed

lemma succeeded_step: "item_step u it it' \<Longrightarrow> succeeded it \<Longrightarrow> it' = it"
  by (auto simp: item_step_def dest: succeeded_work_step)

lemma succeeded_steps: "(item_step u)\<^sup>*\<^sup>* it it' \<Longrightarrow> succeeded it \<Longrightarrow> it' = it"
  by (induction rule: rtranclp_induct) (auto dest: succeeded_step)

end
