(* ===== verification/QueueEvidence.thy ===== *)
theory QueueEvidence
  imports QueueRun
begin

text \<open>
  The evidence of an assignment between its reading and its commit. The transaction compares the Task, the item, the
  executor, the slot and the claims, but not the dependencies of the item: those still hold because a settled success
  is final and its item can only disappear while the Task is collected, which the comparison of the Task excludes.
\<close>

section \<open>Versions over time\<close>

lemma step_revision: "queue_step e rb s s' \<Longrightarrow> st_Revision s \<le> st_Revision s'"
proof (erule queue_stepE)
  fix ch pre post ok
  assume "commit rb s (pre @ ch # post) = Inr (ok, s')"
  then obtain joined :: change where "transact s (ch_Conditions joined) (ch_Mutations joined) = (ok, s')"
    by (rule commit_parts) blast
  then show "st_Revision s \<le> st_Revision s'" by (rule transact_log)
qed

text \<open>A version that is no longer current never becomes current again.\<close>

lemma version_gone:
  assumes "queue_step e rb s s'" "log_ok s" "r \<le> st_Revision s" "value_at s k (st_Revision s) \<noteq> Some (r, v)"
  shows "value_at s' k (st_Revision s') \<noteq> Some (r, v)"
  using assms(1)
proof cases
  case (committed ch pre post ok)
  obtain joined where j: "join_changes (pre @ ch # post) = Inr joined"
    "transact s (ch_Conditions joined) (ch_Mutations joined) = (ok, s')"
    using committed(3) by (rule commit_parts)
  show ?thesis
  proof (cases ok)
    case True
    with j(2) have t: "transact s (ch_Conditions joined) (ch_Mutations joined) = (True, s')" by simp
    have "st_Revision s' = st_Revision s + 1" using t by (rule mem.advanced)
    with mem.written[OF assms(2) t join_changes_parts(4)[OF j(1)], of k] assms(3,4) show ?thesis
      by (auto split: option.splits)
  next
    case False
    with j(2) have "s' = s" by (auto dest: transact_refused)
    with assms(4) show ?thesis by simp
  qed
qed

section \<open>Dependencies\<close>

text \<open>While one version of its Task, which is not being collected, stays current, a successful item stays as it is.\<close>

lemma success_stays:
  assumes "(queue_step e rb)\<^sup>*\<^sup>* s0 s" "log_ok s0" "r \<le> st_Revision s0"
    "stored_item (kv_now s0) d = Some dep" "succeeded dep" "tk_CollectionStartedAt t = None"
  shows "log_ok s \<and> r \<le> st_Revision s \<and>
    (stored_item (kv_now s) d = Some dep \<or>
     value_at s (task_key (it_TaskID dep)) (st_Revision s) \<noteq> Some (r, StTask t))"
  using assms(1)
proof (induction rule: rtranclp_induct)
  case base
  then show ?case using assms(2,3,4) by simp
next
  case (step s s')
  then have ok: "log_ok s" "r \<le> st_Revision s" by simp_all
  let ?k = "task_key (it_TaskID dep)"
  have "stored_item (kv_now s') d = Some dep"
    if v: "value_at s ?k (st_Revision s) = Some (r, StTask t)" "stored_item (kv_now s) d = Some dep"
  proof -
    have "\<not> task_collecting (kv_now s) (it_TaskID dep)"
      using v(1) assms(6) by (simp add: task_collecting_def kv_now_def)
    moreover have "case stored_item (kv_now s') d of
        None \<Rightarrow> it_Phase dep = Settled \<and> task_collecting (kv_now s) (it_TaskID dep)
      | Some it' \<Rightarrow> (item_step (env_Ulid e))\<^sup>*\<^sup>* dep it'"
      using step_moves[OF step(2) ok(1)] v(2) unfolding item_moves_def by (auto dest!: spec[of _ d])
    ultimately show ?thesis using succeeded_steps assms(5) by (auto split: option.splits)
  qed
  moreover have "value_at s' ?k (st_Revision s') \<noteq> Some (r, StTask t)"
    if "value_at s ?k (st_Revision s) \<noteq> Some (r, StTask t)"
    using version_gone[OF step(2) ok that] .
  ultimately show ?case
    using step ok step_log[OF step(2) ok(1)] step_revision[OF step(2)] by fastforce
qed

section \<open>The evidence\<close>

text \<open>What \<open>ReadCandidate\<close> reads at one revision of the store.\<close>

definition evidence_read :: "kv_store \<Rightarrow> assignment \<Rightarrow> bool" where
  "evidence_read s r \<longleftrightarrow>
     as_ReadRevision r = st_Revision s \<and>
     value_at s (task_key (tk_ID (ts_Task (as_Task r)))) (st_Revision s) =
       Some (ts_Revision (as_Task r), StTask (ts_Task (as_Task r))) \<and>
     value_at s (item_key (it_ID (is_Item (as_Item r)))) (st_Revision s) =
       Some (is_Revision (as_Item r), StItem (is_Item (as_Item r))) \<and>
     value_at s (executor_key (ex_Identity (es_Record (as_Executor r)))) (st_Revision s) =
       Some (es_Revision (as_Executor r), StExecutor (es_Record (as_Executor r))) \<and>
     (\<forall>d \<in> set (as_Dependencies r).
        value_at s (item_key (it_ID (is_Item d))) (st_Revision s) = Some (is_Revision d, StItem (is_Item d))) \<and>
     (\<forall>c \<in> set (as_Claims r).
        value_at s (claim_key (cs_Claim c)) (st_Revision s) =
          map_option (\<lambda>own. (cs_Revision c, StClaim own)) (cs_Owner c))"

lemma past_kept_steps:
  "(queue_step e rb)\<^sup>*\<^sup>* s0 s \<Longrightarrow> st_Revision s0 \<le> st_Revision s \<and>
     (\<forall>r \<le> st_Revision s0. value_at s k r = value_at s0 k r)"
proof (induction rule: rtranclp_induct)
  case (step s s')
  from step(2) have "\<forall>r \<le> st_Revision s. value_at s' k r = value_at s k r"
  proof cases
    case (committed ch pre post ok)
    obtain joined :: change where "transact s (ch_Conditions joined) (ch_Mutations joined) = (ok, s')"
      using committed(3) by (rule commit_parts) blast
    then show ?thesis using mem.past_kept by blast
  qed
  with step step_revision[OF step(2)] show ?case by auto
qed simp

lemma dependency_conditions_parts:
  "dependency_conditions u it ds deps = Inr cs \<Longrightarrow> d \<in> set ds \<Longrightarrow>
     \<exists>x \<in> set deps. it_ID (is_Item x) = d \<and> it_TaskID (is_Item x) = it_TaskID it \<and> succeeded (is_Item x) \<and>
       item_ok u (is_Item x)"
  by (induction u it ds deps arbitrary: cs rule: dependency_conditions.induct)
    (auto simp: succeeded_def try_res_unit split: if_splits)

lemma assignment_dependencies_parts:
  assumes "assignment_dependencies u r = Inr ()" "as_Direction r \<noteq> Recovery"
    "d \<in> set (it_Dependencies (is_Item (as_Item r)))"
  shows "\<exists>x \<in> set (as_Dependencies r). it_ID (is_Item x) = d \<and> it_TaskID (is_Item x) = it_TaskID (is_Item (as_Item r)) \<and>
    succeeded (is_Item x)"
proof -
  from assms(1,2) obtain cs where
    "dependency_conditions u (is_Item (as_Item r)) (it_Dependencies (is_Item (as_Item r))) (as_Dependencies r) = Inr cs"
    by (auto simp: assignment_dependencies_def checked_dependencies_def split: if_splits)
  from dependency_conditions_parts[OF this assms(3)] show ?thesis by blast
qed

lemma assignment_task:
  assumes "prepare_assignment e r = Inr (ch, a)"
  shows "tk_ID (ts_Task (as_Task r)) = it_TaskID (is_Item (as_Item r))" "tk_PublicationComplete (ts_Task (as_Task r))"
    "tk_FinishedAt (ts_Task (as_Task r)) = None" "tk_CollectionStartedAt (ts_Task (as_Task r)) = None"
proof -
  obtain "next" ch1 where "count_change e ch1 (as_Task r) (is_Item (as_Item r)) next (as_At r) = Inr ch"
    using assms by (rule prepare_assignment_parts)
  then obtain nextTask where
    "count_transition (env_Ulid e) (ts_Task (as_Task r)) (is_Item (as_Item r)) next (as_At r) = Inr nextTask"
    by (auto simp: count_change_def)
  then have t: "task_ok (env_Ulid e) (ts_Task (as_Task r))" "tk_ID (ts_Task (as_Task r)) = it_TaskID (is_Item (as_Item r))"
    "tk_PublicationComplete (ts_Task (as_Task r))" "tk_FinishedAt (ts_Task (as_Task r)) = None"
    by (auto simp: count_transition_def try_res_unit split: if_splits)
  then show "tk_ID (ts_Task (as_Task r)) = it_TaskID (is_Item (as_Item r))" "tk_PublicationComplete (ts_Task (as_Task r))"
    "tk_FinishedAt (ts_Task (as_Task r)) = None" by simp_all
  show "tk_CollectionStartedAt (ts_Task (as_Task r)) = None"
    using t(1,4) by (cases "tk_CollectionStartedAt (ts_Task (as_Task r))") (auto simp: task_ok_def task_finish_ok_def)
qed

text \<open>The evidence as later stores show it.\<close>

lemma evidence_kept:
  assumes "(queue_step e rb)\<^sup>*\<^sup>* s0 s" "evidence_read s0 r"
  shows "value_at s (task_key (tk_ID (ts_Task (as_Task r)))) (st_Revision s0) =
      Some (ts_Revision (as_Task r), StTask (ts_Task (as_Task r)))"
    "value_at s (item_key (it_ID (is_Item (as_Item r)))) (st_Revision s0) =
      Some (is_Revision (as_Item r), StItem (is_Item (as_Item r)))"
    "value_at s (executor_key (ex_Identity (es_Record (as_Executor r)))) (st_Revision s0) =
      Some (es_Revision (as_Executor r), StExecutor (es_Record (as_Executor r)))"
    "\<forall>c \<in> set (as_Claims r). claim_seen s c"
proof -
  have k: "value_at s k (st_Revision s0) = value_at s0 k (st_Revision s0)" for k
    using past_kept_steps[OF assms(1)] by blast
  show "\<forall>c \<in> set (as_Claims r). claim_seen s c"
  proof
    fix c assume "c \<in> set (as_Claims r)"
    then have "value_at s (claim_key (cs_Claim c)) (st_Revision s0) = map_option (\<lambda>own. (cs_Revision c, StClaim own)) (cs_Owner c)"
      using assms(2) unfolding evidence_read_def k by blast
    then show "claim_seen s c" by (cases "cs_Owner c") (auto simp: claim_seen_def)
  qed
  show "value_at s (task_key (tk_ID (ts_Task (as_Task r)))) (st_Revision s0) =
      Some (ts_Revision (as_Task r), StTask (ts_Task (as_Task r)))"
    "value_at s (item_key (it_ID (is_Item (as_Item r)))) (st_Revision s0) =
      Some (is_Revision (as_Item r), StItem (is_Item (as_Item r)))"
    "value_at s (executor_key (ex_Identity (es_Record (as_Executor r)))) (st_Revision s0) =
      Some (es_Revision (as_Executor r), StExecutor (es_Record (as_Executor r)))"
    using assms(2) by (simp_all add: evidence_read_def k)
qed

lemma dependencies_kept:
  assumes "log_ok s0" "(queue_step e rb)\<^sup>*\<^sup>* s0 s" "evidence_read s0 r" "prepare_assignment e r = Inr (ch, a)"
    "value_at s (task_key (it_TaskID (is_Item (as_Item r)))) (st_Revision s) =
      Some (ts_Revision (as_Task r), StTask (ts_Task (as_Task r)))"
    "as_Direction r \<noteq> Recovery" "d \<in> set (it_Dependencies (is_Item (as_Item r)))"
  shows "\<exists>dep. stored_item (kv_now s) d = Some dep \<and> succeeded dep \<and> it_TaskID dep = it_TaskID (is_Item (as_Item r))"
proof -
  have deps: "assignment_dependencies (env_Ulid e) r = Inr ()" using assms(4) by (rule prepare_assignment_parts)
  obtain y where y: "y \<in> set (as_Dependencies r)" "it_ID (is_Item y) = d"
    "it_TaskID (is_Item y) = it_TaskID (is_Item (as_Item r))" "succeeded (is_Item y)"
    using assignment_dependencies_parts[OF deps assms(6,7)] by blast
  with assms(3) have "stored_item (kv_now s0) d = Some (is_Item y)"
    by (auto simp: evidence_read_def stored_item_def kv_now_def)
  moreover have "value_at s0 (task_key (tk_ID (ts_Task (as_Task r)))) (st_Revision s0) =
      Some (ts_Revision (as_Task r), StTask (ts_Task (as_Task r)))" using assms(3) by (simp add: evidence_read_def)
  then have "ts_Revision (as_Task r) \<le> st_Revision s0" using mem.version_positive[OF assms(1)] by blast
  ultimately have "stored_item (kv_now s) d = Some (is_Item y)"
    using success_stays[OF assms(2,1) _ _ y(4) assignment_task(4)[OF assms(4)]] assms(5) y(3) by metis
  with y show ?thesis by blast
qed

text \<open>The records of an assignment that commits are current.\<close>

lemma committed_assignment:
  assumes "holds_now s ch" "prepare_assignment e r = Inr (ch, a)"
    "value_at s (task_key (tk_ID (ts_Task (as_Task r)))) r0 = Some (ts_Revision (as_Task r), StTask (ts_Task (as_Task r)))"
    "value_at s (item_key (it_ID (is_Item (as_Item r)))) r0 = Some (is_Revision (as_Item r), StItem (is_Item (as_Item r)))"
    "value_at s (executor_key (ex_Identity (es_Record (as_Executor r)))) r0 =
      Some (es_Revision (as_Executor r), StExecutor (es_Record (as_Executor r)))"
    "\<forall>c \<in> set (as_Claims r). claim_seen s c"
  shows "stored_item (kv_now s) (it_ID (is_Item (as_Item r))) = Some (is_Item (as_Item r))"
    "value_at s (task_key (it_TaskID (is_Item (as_Item r)))) (st_Revision s) =
      Some (ts_Revision (as_Task r), StTask (ts_Task (as_Task r)))"
    "kv_now s (executor_key (ex_Identity (es_Record (as_Executor r)))) = Some (StExecutor (es_Record (as_Executor r)))"
    "kv_now s (slot_key (it_Placement (is_Item (as_Item r))) (as_Slot r)) = None"
    "\<forall>c \<in> set (it_Claims (is_Item (as_Item r))). kv_now s (claim_key c) \<in> {None, Some (StClaim (owner_of (is_Item (as_Item r))))}"
    "pl_Executor (it_Placement (is_Item (as_Item r))) = AgentExecutor \<Longrightarrow> as_Direction r \<noteq> Recovery \<Longrightarrow>
      kv_now s (host_fence_key (pl_HostID (it_Placement (is_Item (as_Item r))))) = None"
    "it_Phase (is_Item (as_Item r)) = Ready" "as_Direction r = Forward \<or> as_Direction r = Recovery"
proof -
  obtain "next" where p: "assign (env_Ulid e) (is_Item (as_Item r)) (ex_Identity (es_Record (as_Executor r)))
       (as_AttemptID r) (as_Direction r) (as_At r) (as_Deadline r) = Inr (next, a)"
    and c: "cond (item_key (it_ID (is_Item (as_Item r)))) (is_Revision (as_Item r)) \<in> set (ch_Conditions ch)"
    "cond (executor_key (ex_Identity (es_Record (as_Executor r)))) (es_Revision (as_Executor r)) \<in> set (ch_Conditions ch)"
    "no_key (slot_key (it_Placement next) (as_Slot r)) \<in> set (ch_Conditions ch)"
    "cond (task_key (it_TaskID next)) (ts_Revision (as_Task r)) \<in> set (ch_Conditions ch)"
    and claims: "\<forall>c \<in> set (it_Claims next). \<exists>x \<in> set (as_Claims r). cs_Claim x = c \<and>
       cond (claim_key c) (cs_Revision x) \<in> set (ch_Conditions ch) \<and>
       (cs_Owner x = None \<and> cs_Revision x = 0 \<or> cs_Owner x = Some (owner_of next))"
    and fence: "pl_Executor (it_Placement next) = AgentExecutor \<and> as_Direction r \<noteq> Recovery \<longrightarrow>
       no_key (host_fence_key (pl_HostID (it_Placement next))) \<in> set (ch_Conditions ch)"
    using assms(2) by (rule assignment_transaction)
  note same = assign_moves(1)[OF p, unfolded same_holder_def]
  note task = assignment_task(1)[OF assms(2)]
  have log: "log_ok s" using assms(1) by (simp add: holds_now_def)
  show "stored_item (kv_now s) (it_ID (is_Item (as_Item r))) = Some (is_Item (as_Item r))"
    using holds_snapshot[OF assms(1) c(1) assms(4)] by (rule stored_itemI)
  have "kv_now s (task_key (it_TaskID next)) = Some (StTask (ts_Task (as_Task r)))"
    using holds_snapshot[OF assms(1) c(4)] assms(3) same task by simp
  moreover have "0 < ts_Revision (as_Task r)" using mem.version_positive[OF log assms(3)] by simp
  with holds_value[OF assms(1) c(4)] obtain v where
    "value_at s (task_key (it_TaskID next)) (st_Revision s) = Some (ts_Revision (as_Task r), v)" by blast
  ultimately show "value_at s (task_key (it_TaskID (is_Item (as_Item r)))) (st_Revision s) =
      Some (ts_Revision (as_Task r), StTask (ts_Task (as_Task r)))" using same by (simp add: kv_now_def)
  show "kv_now s (executor_key (ex_Identity (es_Record (as_Executor r)))) = Some (StExecutor (es_Record (as_Executor r)))"
    by (rule holds_snapshot[OF assms(1) c(2) assms(5)])
  show "kv_now s (slot_key (it_Placement (is_Item (as_Item r))) (as_Slot r)) = None"
    using holds_missing[OF assms(1) c(3)] same by simp
  have "owner_of next = owner_of (is_Item (as_Item r))" using same by (simp add: owner_of_def)
  then show "\<forall>c \<in> set (it_Claims (is_Item (as_Item r))).
      kv_now s (claim_key c) \<in> {None, Some (StClaim (owner_of (is_Item (as_Item r))))}"
    using claims_free[OF assms(1,6) claims] same by auto
  show "pl_Executor (it_Placement (is_Item (as_Item r))) = AgentExecutor \<Longrightarrow> as_Direction r \<noteq> Recovery \<Longrightarrow>
      kv_now s (host_fence_key (pl_HostID (it_Placement (is_Item (as_Item r))))) = None"
    using fence holds_missing[OF assms(1)] same by simp
  show "it_Phase (is_Item (as_Item r)) = Ready" using p by (auto simp: assign_Inr)
  show "as_Direction r = Forward \<or> as_Direction r = Recovery" by (rule assign_moves(10)[OF p])
qed

end
