(* ===== verification/QueueExample.thy ===== *)
theory QueueExample
  imports QueueRun WorkTaskProperties
begin

text \<open>
  A run of the queue over the memory store: a Task and its Agent are stored, its item is published, the Task is
  opened, and the Agent's only slot takes the item.
\<close>

definition ex_env :: queue_env where
  "ex_env = \<lparr>env_Ulid = crockford_ulid, env_Size = (\<lambda>v. 100), env_AlertID = []\<rparr>"

definition ex_executor :: executor_record where
  "ex_executor = \<lparr>ex_Identity = ex_identity, ex_ProcessGeneration = 1, ex_Ready = True, ex_Capacity = 1,
     ex_Operations = [OpRelease], ex_Unavailable = []\<rparr>"

definition ex_task_id :: string where "ex_task_id = ex_id ''task'' CHR ''1''"
definition ex_item_id :: string where "ex_item_id = ex_id ''work'' CHR ''1''"
definition ex_host_id :: string where "ex_host_id = ex_id ''host'' CHR ''1''"

definition ex_placement :: placement where
  "ex_placement = \<lparr>pl_Executor = AgentExecutor, pl_HostID = ex_host_id\<rparr>"

definition ex_owner :: claim_owner where
  "ex_owner = \<lparr>ow_TaskID = ex_task_id, ow_WorkItemID = ex_item_id\<rparr>"

definition ex_claim :: claim where
  "ex_claim = \<lparr>cl_HostID = ex_host_id, cl_ScopeID = ex_id ''svc'' CHR ''1''\<rparr>"

lemmas ex_ids = ex_task_id_def ex_item_id_def ex_host_id_def ex_placement_def ex_owner_def ex_claim_def

definition ex_empty :: kv_store where
  "ex_empty = \<lparr>st_Revision = 1, st_Log =
     [(task_key ex_task_id, 1, Some (StTask ex_task)), (executor_key ex_identity, 1, Some (StExecutor ex_executor))]\<rparr>"

section \<open>The item is published and the Task opened\<close>

definition ex_publication :: change where
  "ex_publication =
     \<lparr>ch_Conditions =
        [cond (task_key ex_task_id) 1, no_key (item_key ex_item_id), no_key (task_item_key ex_task_id ex_item_id),
         no_key (queue_key ex_placement ex_item_id)],
      ch_Mutations =
        [put (task_key ex_task_id) (StTask ex_published), put (item_key ex_item_id) (StItem ex_item),
         put (task_item_key ex_task_id ex_item_id) (StOwner ex_owner),
         put (queue_key ex_placement ex_item_id) (StOwner ex_owner)]\<rparr>"

lemma ex_task_fields: "tk_ID ex_task = ex_task_id" "tk_ID ex_published = ex_task_id" "tk_ID ex_open = ex_task_id"
  by (simp_all add: ex_task_defs ex_ids)

lemma ex_task_state:
  "tk_PublicationComplete ex_task = False" "tk_PublicationComplete ex_published = False" "tk_PublicationComplete ex_open = True"
  "tk_FinishedAt ex_task = None" "tk_FinishedAt ex_published = None" "tk_FinishedAt ex_open = None"
  "tk_RetainUntil ex_task = None" "tk_RetainUntil ex_published = None" "tk_RetainUntil ex_open = None"
  "pg_Attention (tk_Progress ex_task) = 0" "pg_Attention (tk_Progress ex_published) = 0"
  "pg_Attention (tk_Progress ex_open) = 0" "progress_unsettled (tk_Progress ex_open) = 1"
  by (simp_all add: ex_task_defs progress_unsettled_def widen_def)

lemma ex_item_fields: "it_ID ex_item = ex_item_id" "it_TaskID ex_item = ex_task_id" "it_Placement ex_item = ex_placement"
  "it_Claims ex_item = [ex_claim]" "it_Phase ex_item = Ready" "it_AttemptNumber ex_item = 0"
  "owner_of ex_item = ex_owner" "item_queue_key ex_item = queue_key ex_placement ex_item_id"
  by (simp_all add: ex_item_def ex_ids owner_of_def item_queue_key_def)

lemma ex_env_fields [simp]: "env_Ulid ex_env = crockford_ulid" "encode_stored ex_env v = Inr v"
  by (simp_all add: ex_env_def encode_stored_def maximum_stored_bytes_def)

lemma ex_prepare_items: "prepare_items ex_env \<lparr>ts_Task = ex_task, ts_Revision = 1\<rparr> [ex_item] (ex_time 1) = Inr ex_publication"
proof -
  have t: "task_validate crockford_ulid ex_published = Inr ()" using ex_published_ok by simp
  have c: "task_change ex_env \<lparr>ts_Task = ex_task, ts_Revision = 1\<rparr> ex_published =
      Inr \<lparr>ch_Conditions = [cond (task_key ex_task_id) 1], ch_Mutations = [put (task_key ex_task_id) (StTask ex_published)]\<rparr>"
    using t by (simp add: task_change_def encode_task_def ex_task_fields ex_task_state alert_transition_def
        alert_state_def retention_writes_def task_ready_to_finish_def del: task_validate_ok)
  have i: "prepare_item_creation ex_env ex_item =
      Inr \<lparr>ch_Conditions = [no_key (item_key ex_item_id), no_key (task_item_key ex_task_id ex_item_id),
         no_key (queue_key ex_placement ex_item_id)],
       ch_Mutations = [put (item_key ex_item_id) (StItem ex_item),
         put (task_item_key ex_task_id ex_item_id) (StOwner ex_owner),
         put (queue_key ex_placement ex_item_id) (StOwner ex_owner)]\<rparr>"
    using ex_item_ok
    by (simp add: prepare_item_creation_def encode_item_def ex_item_fields update_input_queue_def waiting_input_def)
      (simp add: ex_item_def)
  show ?thesis
    using ex_publish by (simp add: prepare_items_def c i ex_publication_def with_parts_def)
qed

text \<open>The transaction of one change on its own.\<close>

definition after_change :: "kv_store \<Rightarrow> change \<Rightarrow> kv_store" where
  "after_change s ch =
     s\<lparr>st_Revision := st_Revision s + 1, st_Log := fold (write_mutation (st_Revision s + 1)) (ch_Mutations ch) (st_Log s)\<rparr>"

lemma commit_alone:
  assumes "join_changes [ch] = Inr ch" "list_all (condition_holds s) (ch_Conditions ch)"
    "length (ch_Conditions ch) + length (ch_Mutations ch) \<le> 96" "0 \<le> st_Revision s"
  shows "commit (\<lambda>_. 0) s [ch] = Inr (True, after_change s ch)"
  using assms by (simp add: commit_def transact_def maximum_operations_def after_change_def)

lemmas queue_run_simps = join_changes_def mutation_invalid_def writes_overlap_def condition_holds_def condition_value_def
  value_at_def mod_of_def after_change_def write_mutation_def queue_key_defs

definition ex_staged :: kv_store where
  "ex_staged = after_change ex_empty ex_publication"

lemma ex_publication_commit: "commit (\<lambda>_. 0) ex_empty [ex_publication] = Inr (True, ex_staged)"
  unfolding ex_staged_def
proof (rule commit_alone)
  show "join_changes [ex_publication] = Inr ex_publication"
    by (simp add: ex_publication_def queue_run_simps)
  show "list_all (condition_holds ex_empty) (ch_Conditions ex_publication)"
    by (simp add: ex_publication_def ex_empty_def queue_run_simps)
qed (simp_all add: ex_publication_def ex_empty_def)

definition ex_opening :: change where
  "ex_opening = \<lparr>ch_Conditions = [cond (task_key ex_task_id) 2],
     ch_Mutations = [put (task_key ex_task_id) (StTask ex_open), del (publishing_key ex_task_id)]\<rparr>"

lemma ex_prepare_opening:
  "prepare_publication_complete ex_env \<lparr>ts_Task = ex_published, ts_Revision = 2\<rparr> [ex_item] (ex_time 2) = Inr ex_opening"
proof -
  have o: "ex_open = ex_published\<lparr>tk_PublicationComplete := True, tk_UpdatedAt := ex_time 2\<rparr>" by (simp add: ex_open_def)
  have g: "validate_graph crockford_ulid ex_published [ex_item] = Inr ()"
    using ex_open_step by (auto simp: publication_complete_def try_res_unit split: if_splits)
  have t: "task_validate crockford_ulid ex_open = Inr ()"
    using task_reachable_inv[OF ex_open_reachable] by (simp add: task_inv_def)
  have c: "task_change ex_env \<lparr>ts_Task = ex_published, ts_Revision = 2\<rparr> ex_open = Inr ex_opening"
    using t by (simp add: task_change_def encode_task_def ex_task_fields ex_task_state alert_transition_def
        alert_state_def retention_writes_def task_ready_to_finish_def ex_opening_def del: task_validate_ok)
  show ?thesis using g c
    by (simp add: prepare_publication_complete_def ex_item_fields flip: o)
      (simp add: ex_task_defs ex_item_def ex_time_defs)
qed

definition ex_ready :: kv_store where
  "ex_ready = after_change ex_staged ex_opening"

lemmas ex_store_defs = ex_empty_def ex_staged_def ex_ready_def ex_publication_def ex_opening_def

lemma ex_opening_commit: "commit (\<lambda>_. 0) ex_staged [ex_opening] = Inr (True, ex_ready)"
  unfolding ex_ready_def
proof (rule commit_alone)
  show "join_changes [ex_opening] = Inr ex_opening"
    by (simp add: ex_opening_def queue_run_simps)
  show "list_all (condition_holds ex_staged) (ch_Conditions ex_opening)"
    by (simp add: ex_store_defs queue_run_simps)
qed (simp_all add: ex_store_defs after_change_def)

section \<open>The Agent takes the item\<close>

definition ex_held :: item where
  "ex_held = ex_item\<lparr>it_Phase := Assigned, it_ActiveAttemptID := ex_id ''try'' CHR ''1'', it_AttemptNumber := 1,
     it_UpdatedAt := ex_time 3\<rparr>"

definition ex_holding :: attempt where
  "ex_holding = ex_attempt\<lparr>at_AssignedAt := ex_time 3\<rparr>"

definition ex_assignment :: assignment where
  "ex_assignment =
     \<lparr>as_ReadRevision = 3, as_DecisionOnly = False, as_Task = \<lparr>ts_Task = ex_open, ts_Revision = 3\<rparr>,
      as_Item = \<lparr>is_Item = ex_item, is_Revision = 2\<rparr>, as_Executor = \<lparr>es_Record = ex_executor, es_Revision = 1\<rparr>,
      as_Dependencies = [], as_Claims = [\<lparr>cs_Claim = ex_claim, cs_Owner = None, cs_Revision = 0\<rparr>],
      as_Reservations = [], as_HostEffect = \<lparr>hs_Owner = None, hs_Revision = 0\<rparr>, as_QueueRevision = 2, as_Slot = 0,
      as_AttemptID = ex_id ''try'' CHR ''1'', as_Direction = Forward, as_At = ex_time 3, as_Deadline = ex_time 600\<rparr>"

definition ex_busy :: task where
  "ex_busy = ex_open\<lparr>tk_Progress := (tk_Progress ex_task)\<lparr>pg_Assigned := 1\<rparr>, tk_UpdatedAt := ex_time 3\<rparr>"

definition ex_slot :: stored where
  "ex_slot = StSlot \<lparr>sl_TaskID = ex_task_id, sl_WorkItemID = ex_item_id, sl_AttemptID = ex_id ''try'' CHR ''1''\<rparr>"

definition ex_taking :: change where
  "ex_taking =
     \<lparr>ch_Conditions =
        [cond (item_key ex_item_id) 2, cond (executor_key ex_identity) 1, cond (queue_key ex_placement ex_item_id) 2,
         no_key (attempt_key (ex_id ''try'' CHR ''1'')), no_key (attempt_index_key ex_item_id 1),
         no_key (slot_key ex_placement 0), no_key (claim_key ex_claim), no_key (host_effect_key ex_host_id ex_item_id),
         no_key (host_fence_key ex_host_id), cond (task_key ex_task_id) 3],
      ch_Mutations =
        [put (item_key ex_item_id) (StItem ex_held), put (attempt_key (ex_id ''try'' CHR ''1'')) (StAttempt ex_holding),
         put (attempt_index_key ex_item_id 1) ex_slot, put (slot_key ex_placement 0) ex_slot,
         del (queue_key ex_placement ex_item_id), put (claim_key ex_claim) (StClaim ex_owner),
         put (host_effect_key ex_host_id ex_item_id) (StHostEffect ex_owner),
         put (task_key ex_task_id) (StTask ex_busy)]\<rparr>"

lemma ex_hold:
  "assign crockford_ulid ex_item ex_identity (ex_id ''try'' CHR ''1'') Forward (ex_time 3) (ex_time 600) = Inr (ex_held, ex_holding)"
proof -
  have a: "ex_holding = assigned_attempt ex_item (ex_input CHR ''1'') ex_identity (ex_id ''try'' CHR ''1'')
      Forward (ex_time 3) (ex_time 600)"
    by (simp add: assigned_attempt_def ex_holding_def ex_attempt_def ex_item_def)
  have "attempt_ok crockford_ulid ex_holding"
    using ex_attempt_ok ex_time_valid[of 3]
    by (simp add: attempt_ok_def ex_holding_def) (simp add: ex_attempt_def ex_time_defs)
  with ex_item_ok ex_identity_ok a show ?thesis
    unfolding assign_Inr by (simp add: ex_item_def ex_held_def ex_identity_def ex_time_defs)
qed

lemma ex_held_ok: "item_ok crockford_ulid ex_held" "attempt_ok crockford_ulid ex_holding"
  using assign_keeps_ok[OF ex_hold] by (simp_all add: ex_time_valid)

lemma ex_held_fields: "it_ID ex_held = ex_item_id" "it_TaskID ex_held = ex_task_id" "it_Placement ex_held = ex_placement"
  "it_Claims ex_held = [ex_claim]" "owner_of ex_held = ex_owner" "slot_of ex_held = \<lparr>sl_TaskID = ex_task_id,
     sl_WorkItemID = ex_item_id, sl_AttemptID = ex_id ''try'' CHR ''1''\<rparr>"
  "it_Dependencies ex_item = []" "it_Operation ex_item = OpRelease" "at_ID ex_holding = ex_id ''try'' CHR ''1''"
  "at_Number ex_holding = 1" "tk_Stop ex_open = None" "sc_EnvironmentID (tk_Scope ex_open) = []"
  "item_queue_key ex_held = queue_key ex_placement ex_item_id" "item_effect_key ex_held = host_effect_key ex_host_id ex_item_id"
  "pl_Executor ex_placement = AgentExecutor" "pl_HostID ex_placement = ex_host_id" "placement_of ex_identity = ex_placement"
  "ex_Identity ex_executor = ex_identity" "waiting_input ex_item = waiting_input ex_held"
  by (simp_all add: ex_held_def ex_holding_def ex_item_def ex_attempt_def ex_ids owner_of_def slot_of_def ex_task_defs
      item_queue_key_def item_effect_key_def placement_of_def ex_identity_def ex_executor_def waiting_input_def)

lemma ex_count_held: "count_transition crockford_ulid ex_open ex_item ex_held (ex_time 3) = Inr ex_busy"
proof -
  have "task_ok crockford_ulid ex_open" using task_reachable_inv[OF ex_open_reachable] by (simp add: task_inv_def)
  moreover have "progress_counter ex_item = Some CountReady" "progress_counter ex_held = Some CountAssigned"
    by (simp_all add: progress_counter_def ex_item_def ex_held_def)
  ultimately show ?thesis using ex_item_ok ex_held_ok
    by (simp add: count_transition_def)
      (simp add: ex_busy_def ex_task_defs ex_item_def ex_held_def ex_time_defs)
qed

lemma ex_busy_valid: "task_validate crockford_ulid ex_busy = Inr ()"
proof -
  have "task_ok crockford_ulid ex_open" using task_reachable_inv[OF ex_open_reachable] by (simp add: task_inv_def)
  then have "task_ok crockford_ulid (ex_open\<lparr>tk_UpdatedAt := ex_time 3\<rparr>)"
    by (rule task_ok_touch[OF _ ex_time_valid]) (simp_all add: ex_task_defs ex_time_defs)
  then show ?thesis
    by (simp add: ex_busy_def task_ok_def task_static_ok_def task_times_ok_def task_count_ok_def task_requests_ok_def
        task_finish_ok_def progress_comparisons) (simp add: ex_task_defs total_nat_def)
qed

lemma ex_busy_state: "tk_ID ex_busy = ex_task_id" "tk_PublicationComplete ex_busy = True" "tk_FinishedAt ex_busy = None"
  "tk_RetainUntil ex_busy = None" "pg_Attention (tk_Progress ex_busy) = 0" "progress_unsettled (tk_Progress ex_busy) = 1"
  by (simp_all add: ex_busy_def ex_task_defs progress_unsettled_def widen_def ex_ids)

lemma ex_executor_ok: "executor_validate crockford_ulid ex_executor = Inr ()" "executor_allows ex_executor OpRelease"
  "ex_Capacity ex_executor = 1"
proof -
  have "idn_Executor ex_identity = AgentExecutor" by (simp add: ex_identity_def)
  then show "executor_validate crockford_ulid ex_executor = Inr ()" "executor_allows ex_executor OpRelease"
    "ex_Capacity ex_executor = 1"
    using ex_identity_ok by (simp_all add: executor_validate_def executor_allows_def ex_executor_def
        maximum_executor_capacity_def)
qed

lemma ex_prepare_assignment: "prepare_assignment ex_env ex_assignment = Inr (ex_taking, ex_holding)"
proof -
  have c: "task_change ex_env \<lparr>ts_Task = ex_open, ts_Revision = 3\<rparr> ex_busy =
      Inr \<lparr>ch_Conditions = [cond (task_key ex_task_id) 3], ch_Mutations = [put (task_key ex_task_id) (StTask ex_busy)]\<rparr>"
    using ex_busy_valid by (simp add: task_change_def encode_task_def ex_task_fields ex_task_state ex_busy_state
        alert_transition_def alert_state_def retention_writes_def task_ready_to_finish_def del: task_validate_ok)
  show ?thesis
    using ex_held_ok ex_hold ex_count_held ex_executor_ok
    by (simp add: prepare_assignment_def ex_assignment_def ex_held_fields ex_item_fields encode_item_def encode_attempt_def
        assignment_dependencies_def checked_dependencies_def add_claims_def assignment_change_def Let_def
        task_reservation_conditions_def assign_host_effect_def count_change_def c update_input_queue_def ex_taking_def
        ex_slot_def ex_task_fields)
qed

definition ex_working :: kv_store where
  "ex_working = after_change ex_ready ex_taking"

lemma ex_taking_commit: "commit (\<lambda>_. 0) ex_ready [ex_taking] = Inr (True, ex_working)"
  unfolding ex_working_def
proof (rule commit_alone)
  show "join_changes [ex_taking] = Inr ex_taking"
    by (simp add: ex_taking_def ex_slot_def queue_run_simps)
  show "list_all (condition_holds ex_ready) (ch_Conditions ex_taking)"
    by (simp add: ex_taking_def ex_store_defs queue_run_simps)
qed (simp_all add: ex_store_defs after_change_def ex_taking_def)

section \<open>The stores of the run are reachable\<close>

abbreviation ex_reachable :: "kv_store \<Rightarrow> bool" where
  "ex_reachable \<equiv> queue_reachable ex_env (\<lambda>_. 0)"

lemma ex_alone:
  assumes "prepared ex_env s ch" "commit (\<lambda>_. 0) s [ch] = Inr (True, s')"
  shows "queue_step ex_env (\<lambda>_. 0) s s'"
  by (rule committed[OF assms(1), of "[]" "[]"]) (use assms(2) in simp_all)

lemma ex_staged_step: "queue_step ex_env (\<lambda>_. 0) ex_empty ex_staged"
  by (rule ex_alone[OF by_publication[OF ex_prepare_items] ex_publication_commit])

lemma ex_ready_step: "queue_step ex_env (\<lambda>_. 0) ex_staged ex_ready"
  by (rule ex_alone[OF by_others[OF core_free_operations(1)[OF ex_prepare_opening]] ex_opening_commit])

lemma ex_ready_item: "value_at ex_ready (item_key ex_item_id) 3 = Some (2, StItem ex_item)"
  by (simp add: ex_store_defs queue_run_simps)

lemma ex_seen: "item_seen ex_ready (as_Item ex_assignment)" "\<forall>c \<in> set (as_Claims ex_assignment). claim_seen ex_ready c"
proof -
  show "item_seen ex_ready (as_Item ex_assignment)"
    unfolding item_seen_def by (rule exI[of _ 3]) (simp add: ex_assignment_def ex_item_fields ex_ready_item)
qed (simp add: ex_assignment_def claim_seen_def)

lemma ex_working_step: "queue_step ex_env (\<lambda>_. 0) ex_ready ex_working"
  by (rule ex_alone[OF by_assignment[OF ex_prepare_assignment ex_seen] ex_taking_commit])

lemma ex_reachable_stores: "ex_reachable ex_empty" "ex_reachable ex_staged" "ex_reachable ex_ready" "ex_reachable ex_working"
proof -
  have "queue_initial ex_empty" by (simp add: queue_initial_def ex_empty_def log_ok_def)
  then show e: "ex_reachable ex_empty" by (rule queue_start)
  show s: "ex_reachable ex_staged" by (rule queue_later[OF e ex_staged_step])
  show r: "ex_reachable ex_ready" by (rule queue_later[OF s ex_ready_step])
  show "ex_reachable ex_working" by (rule queue_later[OF r ex_working_step])
qed

lemma ex_working_item: "stored_item (kv_now ex_working) ex_item_id = Some ex_held"
  by (simp add: stored_item_def kv_now_def ex_working_def ex_taking_def ex_store_defs queue_run_simps)

end
