(* ===== verification/QueueProperties.thy ===== *)
theory QueueProperties
  imports QueueEvidence QueueExample
begin

text \<open>
  The guarantees of the stored work queue over every sequence of committed transactions, prepared from evidence read
  at any earlier revisions: atomic commits, exclusive claims, one slot per active item, an exact ready queue, the
  lifecycle of stored items, and that the evidence of an assignment still holds when it commits.
\<close>

section \<open>The commit\<close>



section \<open>Holdings\<close>

lemma ex_active: "active ex_held"
  by (simp add: ex_held_def ex_id_def)

lemma claims_of_reachable:
  assumes "queue_reachable e rb s" "host_shape (env_Ulid e) (cl_HostID c)"
  shows "kv_now s (claim_key c) = Some v \<longleftrightarrow>
    (\<exists>w it. stored_item (kv_now s) w = Some it \<and> effects_open it \<and> c \<in> set (it_Claims it) \<and> v = StClaim (owner_of it))"
  using reachable_consistent[OF assms(1)] assms(2) unfolding consistent_def claims_ok_def by blast

text \<open>C35. Resource claims exclude each other. In every reachable store at most one item with unresolved effects (an active
  attempt, or a cleanup that is required, running or stopped) names a given claim, and the claim's record exists exactly
  while there is one, naming its Task and item; so a claim is held from the assignment until the effects are settled,
  across failures, retries and stops.
\<close>

theorem claims_exclude_each_other:
  assumes "queue_reachable e rb s" "host_shape (env_Ulid e) (cl_HostID c)"
  shows "(\<exists>x. {w. \<exists>it. stored_item (kv_now s) w = Some it \<and> effects_open it \<and> c \<in> set (it_Claims it)} \<subseteq> {x}) \<and>
    (kv_now s (claim_key c) = Some v \<longleftrightarrow>
     (\<exists>w it. stored_item (kv_now s) w = Some it \<and> effects_open it \<and> c \<in> set (it_Claims it) \<and> v = StClaim (owner_of it)))"
proof -
  have i: "items_ok (env_Ulid e) (kv_now s)" using reachable_consistent[OF assms(1)] by (simp add: consistent_def)
  have "w = w'" if "stored_item (kv_now s) w = Some it" "effects_open it" "c \<in> set (it_Claims it)"
    "stored_item (kv_now s) w' = Some it'" "effects_open it'" "c \<in> set (it_Claims it')" for w w' it it'
  proof -
    have "kv_now s (claim_key c) = Some (StClaim (owner_of it))" "kv_now s (claim_key c) = Some (StClaim (owner_of it'))"
      using claims_of_reachable[OF assms] that by blast+
    then have "owner_of it = owner_of it'" by simp
    then show ?thesis using stored_itemD(3)[OF i that(1)] stored_itemD(3)[OF i that(4)] by (simp add: owner_of_inject)
  qed
  then have "\<exists>x. {w. \<exists>it. stored_item (kv_now s) w = Some it \<and> effects_open it \<and> c \<in> set (it_Claims it)} \<subseteq> {x}"
    by blast
  with claims_of_reachable[OF assms] show ?thesis by blast
qed

theorem claims_exclude_each_other_witness:
  "kv_now ex_working (claim_key ex_claim) = Some (StClaim ex_owner) \<and>
   (\<exists>x. {w. \<exists>it. stored_item (kv_now ex_working) w = Some it \<and> effects_open it \<and> ex_claim \<in> set (it_Claims it)} \<subseteq> {x})"
proof -
  have "host_shape (env_Ulid ex_env) (cl_HostID ex_claim)"
    using ex_placement_ok by (auto simp: host_shape_def ex_ids placement_validate_def KindHost_def)
  note c = claims_exclude_each_other[OF ex_reachable_stores(4) this, of "StClaim ex_owner"]
  have "effects_open ex_held" "ex_claim \<in> set (it_Claims ex_held)" "owner_of ex_held = ex_owner"
    using ex_active by (simp_all add: effects_open_def ex_held_fields)
  then have "\<exists>w it. stored_item (kv_now ex_working) w = Some it \<and> effects_open it \<and> ex_claim \<in> set (it_Claims it) \<and>
      StClaim ex_owner = StClaim (owner_of it)"
    using ex_working_item by (intro exI[of _ ex_item_id] exI[of _ ex_held]) simp
  with c show ?thesis by blast
qed

text \<open>The item a slot record of a placement names.\<close>

definition slot_item :: "kv_store \<Rightarrow> placement \<Rightarrow> u16 \<Rightarrow> string" where
  "slot_item s p n = (case kv_now s (slot_key p n) of Some (StSlot x) \<Rightarrow> sl_WorkItemID x | _ \<Rightarrow> [])"

text \<open>C37. Slots and active items correspond. In every reachable store the occupied slots of a placement are in bijection
  with its items that have an active attempt, each slot naming the Task, the item and the attempt it serves: no slot is
  leaked by a finished, settled or collected item, no item runs without a slot or in two, and so an executor never has
  more active items than slots.
\<close>

theorem slots_match_active_items:
  assumes "queue_reachable e rb s" "placement_validate (env_Ulid e) p = Inr ()"
  shows "bij_betw (slot_item s p) {n. kv_now s (slot_key p n) \<noteq> None}
      {w. \<exists>it. stored_item (kv_now s) w = Some it \<and> active it \<and> it_Placement it = p} \<and>
    (\<forall>n v. kv_now s (slot_key p n) = Some v \<longrightarrow>
       (\<exists>it. stored_item (kv_now s) (slot_item s p n) = Some it \<and> v = StSlot (slot_of it)))"
proof -
  have c: "items_ok (env_Ulid e) (kv_now s)" "slots_ok (env_Ulid e) (kv_now s)"
    using reachable_consistent[OF assms(1)] by (simp_all add: consistent_def)
  have held: "\<exists>it. stored_item (kv_now s) (slot_item s p n) = Some it \<and> active it \<and> it_Placement it = p \<and>
      kv_now s (slot_key p n) = Some (StSlot (slot_of it)) \<and> v = StSlot (slot_of it)"
    if v: "kv_now s (slot_key p n) = Some v" for n v
  proof -
    obtain w it where it: "stored_item (kv_now s) w = Some it" "active it" "it_Placement it = p" "v = StSlot (slot_of it)"
      by (rule slots_okD[OF c(2) assms(2) v])
    then have "slot_item s p n = w"
      using v stored_itemD(3)[OF c(1) it(1)] by (simp add: slot_item_def slot_of_def)
    with it v show ?thesis by blast
  qed
  have "bij_betw (slot_item s p) {n. kv_now s (slot_key p n) \<noteq> None}
      {w. \<exists>it. stored_item (kv_now s) w = Some it \<and> active it \<and> it_Placement it = p}"
    unfolding bij_betw_def
  proof
    show "inj_on (slot_item s p) {n. kv_now s (slot_key p n) \<noteq> None}"
    proof (rule inj_onI)
      fix n n' assume "n \<in> {n. kv_now s (slot_key p n) \<noteq> None}" "n' \<in> {n. kv_now s (slot_key p n) \<noteq> None}"
        and same: "slot_item s p n = slot_item s p n'"
      with held obtain it where "stored_item (kv_now s) (slot_item s p n) = Some it" "active it" "it_Placement it = p"
        "kv_now s (slot_key p n) = Some (StSlot (slot_of it))" "kv_now s (slot_key p n') = Some (StSlot (slot_of it))"
        by (smt (verit) mem_Collect_eq option.exhaust option.inject)
      with slots_ok_one[OF c(2) this(1,2)] show "n = n'" by metis
    qed
  next
    show "slot_item s p ` {n. kv_now s (slot_key p n) \<noteq> None} =
        {w. \<exists>it. stored_item (kv_now s) w = Some it \<and> active it \<and> it_Placement it = p}"
    proof (intro equalityI subsetI)
      fix w assume "w \<in> {w. \<exists>it. stored_item (kv_now s) w = Some it \<and> active it \<and> it_Placement it = p}"
      then obtain it where it: "stored_item (kv_now s) w = Some it" "active it" "it_Placement it = p" by blast
      obtain n where n: "kv_now s (slot_key (it_Placement it) n) = Some (StSlot (slot_of it))"
        using slots_ok_one[OF c(2) it(1,2)] by blast
      then have "slot_item s p n = w"
        using it(3) stored_itemD(3)[OF c(1) it(1)] by (simp add: slot_item_def slot_of_def)
      with n it(3) show "w \<in> slot_item s p ` {n. kv_now s (slot_key p n) \<noteq> None}" by force
    qed (use held in fastforce)
  qed
  with held show ?thesis by blast
qed

theorem slots_match_active_items_witness:
  "bij_betw (slot_item ex_working ex_placement) {n. kv_now ex_working (slot_key ex_placement n) \<noteq> None}
     {w. \<exists>it. stored_item (kv_now ex_working) w = Some it \<and> active it \<and> it_Placement it = ex_placement} \<and>
   (\<exists>n. slot_item ex_working ex_placement n = ex_item_id)"
proof -
  have "placement_validate (env_Ulid ex_env) ex_placement = Inr ()" using ex_placement_ok by (simp add: ex_ids)
  note b = slots_match_active_items[OF ex_reachable_stores(4) this]
  have "it_Placement ex_held = ex_placement" by (simp add: ex_held_fields)
  with ex_working_item ex_active have
    "ex_item_id \<in> {w. \<exists>it. stored_item (kv_now ex_working) w = Some it \<and> active it \<and> it_Placement it = ex_placement}"
    by blast
  with b have "ex_item_id \<in> slot_item ex_working ex_placement ` {n. kv_now ex_working (slot_key ex_placement n) \<noteq> None}"
    unfolding bij_betw_def by blast
  then obtain n where "slot_item ex_working ex_placement n = ex_item_id" by (metis imageE)
  with b show ?thesis by blast
qed

text \<open>C38. No work is lost. In every reachable store the ready queue of a placement holds exactly its items that are ready,
  or wait for a retry of an item that was attempted before; the input queue holds exactly the items that wait for their
  input and may still get it; and a host's effects list exactly the items placed on it whose effects are unresolved.
\<close>

theorem queues_are_exact:
  assumes "queue_reachable e rb s"
  shows "(placement_validate (env_Ulid e) p = Inr () \<longrightarrow>
      (kv_now s (queue_key p w) = Some v \<longleftrightarrow>
       (\<exists>it. stored_item (kv_now s) w = Some it \<and> it_Placement it = p \<and> v = StOwner (owner_of it) \<and>
          (it_Phase it = Ready \<or> retry_waiting it \<and> it_AttemptNumber it \<noteq> 0)))) \<and>
    (kv_now s (input_queue_key w) = Some v \<longleftrightarrow>
      (\<exists>it. stored_item (kv_now s) w = Some it \<and> waiting_input it \<and> v = StOwner (owner_of it))) \<and>
    (id_valid (env_Ulid e) KindHost h \<longrightarrow>
      (kv_now s (host_effect_key h w) = Some v \<longleftrightarrow>
       (\<exists>it. stored_item (kv_now s) w = Some it \<and> effects_open it \<and> v = StHostEffect (owner_of it) \<and>
          it_Placement it = \<lparr>pl_Executor = AgentExecutor, pl_HostID = h\<rparr>)))"
proof -
  have e: "entries_ok (env_Ulid e) (kv_now s)" using reachable_consistent[OF assms] by (simp add: consistent_def)
  then have i: "kv_now s (input_queue_key w) = input_entry (stored_item (kv_now s) w)"
    and q: "placement_validate (env_Ulid e) p = Inr () \<Longrightarrow> kv_now s (queue_key p w) = queue_entry (stored_item (kv_now s) w) p"
    and h: "id_valid (env_Ulid e) KindHost h \<Longrightarrow>
      kv_now s (host_effect_key h w) = effect_entry (stored_item (kv_now s) w) h"
    by (simp_all add: entries_ok_def)
  show ?thesis
    by (intro conjI impI) (auto simp: i q h entry_defs queued_def split: option.splits)
qed

theorem queues_are_exact_witness:
  "kv_now ex_ready (queue_key ex_placement ex_item_id) = Some (StOwner ex_owner)"
proof -
  have p: "placement_validate (env_Ulid ex_env) ex_placement = Inr ()" using ex_placement_ok by (simp add: ex_ids)
  have "value_at ex_ready (item_key ex_item_id) (st_Revision ex_ready) = Some (2, StItem ex_item)"
    using ex_ready_item by (simp add: ex_store_defs after_change_def)
  then have "stored_item (kv_now ex_ready) ex_item_id = Some ex_item" by (simp add: stored_item_def kv_now_def)
  with queues_are_exact[OF ex_reachable_stores(3), of ex_placement ex_item_id "StOwner ex_owner"] p
  show ?thesis by (auto simp: ex_item_fields)
qed

section \<open>Steps\<close>

text \<open>C39. The store refines the lifecycle of work. Whatever one committed transaction is, it leaves every stored item as it is
  or moves it by transitions of the lifecycle model (\<open>work_step\<close>), creates items only without attempts, and removes an
  item only when it is settled and its Task is being collected; in particular the record of an item that settled with
  success never changes while it is stored.
\<close>

theorem stored_items_follow_lifecycle:
  assumes "queue_reachable e rb s" "queue_step e rb s s'"
  shows "(case stored_item (kv_now s) w of
      None \<Rightarrow> opt_all (\<lambda>it. it_AttemptNumber it = 0) (stored_item (kv_now s') w)
    | Some it \<Rightarrow>
        (case stored_item (kv_now s') w of
           None \<Rightarrow> it_Phase it = Settled \<and> task_collecting (kv_now s) (it_TaskID it)
         | Some it' \<Rightarrow> (item_step (env_Ulid e))\<^sup>*\<^sup>* it it' \<and> (succeeded it \<longrightarrow> it' = it)))"
proof -
  from step_moves[OF assms(2) reachable_log[OF assms(1)]]
  have "case stored_item (kv_now s) w of
      None \<Rightarrow> opt_all (\<lambda>it. it_AttemptNumber it = 0) (stored_item (kv_now s') w)
    | Some it \<Rightarrow> (case stored_item (kv_now s') w of
          None \<Rightarrow> it_Phase it = Settled \<and> task_collecting (kv_now s) (it_TaskID it)
        | Some it' \<Rightarrow> (item_step (env_Ulid e))\<^sup>*\<^sup>* it it')"
    unfolding item_moves_def by blast
  then show ?thesis
    by (cases "stored_item (kv_now s) w"; cases "stored_item (kv_now s') w") (auto dest: succeeded_steps)
qed

theorem stored_items_follow_lifecycle_witness:
  "(item_step crockford_ulid)\<^sup>*\<^sup>* ex_item ex_held"
proof -
  have "stored_item (kv_now ex_ready) ex_item_id = Some ex_item"
    by (simp add: stored_item_def kv_now_def ex_store_defs queue_run_simps)
  with stored_items_follow_lifecycle[OF ex_reachable_stores(3) ex_working_step, of ex_item_id] ex_working_item
  show ?thesis by simp
qed



end
