(* ===== verification/Spec2Isabelle.thy ===== *)
theory Spec2Isabelle
  imports Ids ServiceDependency Requirements WorkTaskProperties WorkStage RollingCursor Ports ReleaseGroupProperties RunnerAllocationProperties
    BlueprintReconcileProperties UpgradeProperties GroupDesired MaterializationProperties MaterializationProofProperties
    QueueProperties
begin

text \<open>
  A verification development of the Groundplane control plane (the Go sources under \<open>src/internal\<close>).

  \<^bold>\<open>The program.\<close> A Controller accepts declarative input (Blueprints, Services, Releases) and turns every accepted change
  into a Task: a captured graph of work items with a deadline, stored in etcd. Agents on the hosts execute the items in
  numbered attempts. The Controller settles their results, counts them into the Task, decides what may run next and
  compensates what failed. The decisions are pure functions over records, which handlers read, apply and write back in
  one compare-and-swap transaction. Most theories model these functions and take each transaction as one atomic step.
  Two stores are modelled down to their writes: the work queue, where the comparisons and writes of every transaction are
  part of the model, and the upgrade of the Controller itself, whose store is a directory of files and whose steps are
  the single writes of those files.

  \<^bold>\<open>The theories.\<close>

  \<^item> \<open>Prelude\<close>: errors by Kind, fallible results, byte strings and UTF-8, \<open>time.Time\<close>, machine integers, lemmas on
    sorted and distinct lists. \<open>Text\<close>: Go's \<open>strings\<close> functions on operator text. \<open>Sha256\<close>: the compression
    function of \<open>common/entrymaterialization/sha256.go\<close>, which is that of \<open>crypto/sha256\<close>, and the digest of a message.
  \<^item> \<open>Ids\<close> (\<open>common/ids\<close>, \<open>common/workloadimage\<close>): kinds and validation of stable identifiers.
  \<^item> \<open>Kahn\<close>: the topological sort that the repository contains four times. The locale \<open>ready_list\<close> is what a discipline
    of the ready list has to satisfy; it is interpreted for the queue (\<open>common/workexecution/graph.go\<close>) and the stack
    (\<open>core/blueprintreconcile/validation.go\<close>), and its extension \<open>sorted_ready_list\<close> for the two sorted lists
    (\<open>core/service_dependency.go\<close>, \<open>core/blueprint_requirement_dag.go\<close>).
  \<^item> \<open>ServiceDependency\<close> (\<open>core/service_dependency*.go\<close>): dependency plans of the Services of an Environment.
    \<open>Requirements\<close> (\<open>core/blueprint_requirement_dag.go\<close>): resolution of requirements and the Task graph they add to.
  \<^item> \<open>WorkModel\<close>, \<open>WorkTransitions\<close>, \<open>WorkLifecycle\<close> (\<open>common/workexecution\<close>: \<open>model.go\<close>, \<open>validation.go\<close>,
    \<open>attempt.go\<close>, \<open>readiness.go\<close>, \<open>settlement.go\<close>, \<open>unstarted_retry.go\<close>, \<open>delivery.go\<close>): the work item with its attempts,
    every transition, and the step relation \<open>work_step\<close> with its invariant. \<open>WorkTask\<close>, \<open>WorkTaskSystem\<close>,
    \<open>WorkTaskProperties\<close> (\<open>task.go\<close>, \<open>progress.go\<close>, \<open>stop.go\<close>, \<open>graph.go\<close> and the rest): the Task over its items.
    \<open>WorkStage\<close> (\<open>diagnostics.go\<close>): the diagnostic stages of an attempt.
  \<^item> \<open>QueueStore\<close> (\<open>infra/etcd/keyvalue/contract.go\<close>, \<open>infra/etcd/workqueue\<close>: \<open>records.go\<close>, \<open>commit.go\<close>), \<open>QueueKeys\<close>
    (\<open>keys.go\<close>), \<open>QueueChanges\<close>, \<open>QueueOperations\<close>, \<open>QueuePublication\<close> (the prepared changes of \<open>workqueue\<close>, file by
    file, and the alert outbox of \<open>infra/etcd/taskalerts\<close>): the work items and Tasks in etcd. A prepared change lists
    comparisons and writes; \<open>commit\<close> joins changes and applies them when every comparison holds. \<open>QueueSafety\<close>,
    \<open>QueueConsistent\<close>, \<open>QueueSteps\<close>, \<open>QueueLife\<close>, \<open>QueueInvariant\<close> show that every change keeps \<open>consistent\<close>, which
    ties the worker slots, resource claims, host effects and queues to the stored items; \<open>QueueRun\<close> has the step
    relation \<open>queue_step\<close>, \<open>QueueEvidence\<close> what an assignment has read, \<open>QueueExample\<close> a run and \<open>QueueProperties\<close> the
    theorems. etcd is the locale \<open>mvcc_store\<close>, interpreted on the memory store the repository tests with.
  \<^item> \<open>Rolling\<close>, \<open>RollingCursor\<close> (\<open>common/rollingrelease\<close>): the plan of a rolling replacement and its durable cursor.
  \<^item> \<open>ReleaseModel\<close> (\<open>core/release\<close>): the intent, checkpoints and state machine of a Release. \<open>Ports\<close>
    (\<open>core/serviceports\<close>, \<open>core/release/proxy_ports.go\<close>, \<open>readiness.go\<close>, \<open>proxy_transition.go\<close>, \<open>common/serviceproxy\<close>):
    exposed ports. \<open>ReleaseGroup\<close>, \<open>ReleaseGroupProperties\<close> (\<open>core/release/group_execution.go\<close>, \<open>group_work.go\<close>): the
    executor of a group and the Controller decision that replays it. \<open>GroupDesired\<close> (\<open>core/releasegroup\<close>): the desired
    state of a group.
  \<^item> \<open>Ipam\<close>, \<open>IpamProperties\<close> (\<open>common/ipam\<close>): IPv4 allocation. \<open>RunnerAllocation\<close>, \<open>RunnerAllocationProperties\<close>
    (\<open>common/runnerallocation\<close>): Runner slots, the registry of Runner subnets (which allocates with \<open>Ipam\<close>), and quotas.
  \<^item> \<open>BlueprintReconcile\<close>, \<open>BlueprintReconcileProperties\<close> (\<open>core/blueprintreconcile\<close>): the selection of the units of the
    latest desired set, and the handoff of a superseded execution.
  \<^item> \<open>UpgradeModel\<close> (\<open>common/controllerupgrade\<close>, \<open>common/taskprogress\<close>, \<open>common/version\<close>, \<open>common/imageref\<close>): the records of
    a Controller upgrade. \<open>UpgradeStore\<close> (\<open>infra/controllerrelease\<close>): its store on disk. \<open>UpgradeControl\<close>
    (\<open>controller/controllerupgrade\<close>): the watchdog, the coordinator and the mutation gate. \<open>UpgradeProtocol\<close>: the abstract
    protocol of single writes and the proof that every call keeps to it. \<open>UpgradeProperties\<close>: what follows.
  \<^item> \<open>MaterializationHash\<close>, \<open>MaterializationHeader\<close>, \<open>MaterializationFrame\<close> (\<open>common/entrymaterialization\<close>: \<open>sha256.go\<close>,
    \<open>header.go\<close> with \<open>policy.go\<close>, \<open>frame.go\<close> with \<open>source.go\<close>): the frame that carries a file to the helper that writes it.
    The source, the writer and the context are a \<open>channel\<close> that may end or fail at any point; the callback of the decoder
    is any program that reads (\<open>consumer\<close>). \<open>MaterializationCodec\<close> has the facts of each operation, with the locale
    \<open>incremental_digest\<close> for the \<open>Hasher\<close> interface, \<open>MaterializationAccept\<close> the invariant of the content reader,
    \<open>MaterializationAuthentic\<close> the accepted frames, \<open>MaterializationRoundTrip\<close> the way through, and
    \<open>MaterializationProperties\<close> the theorems.
  \<^item> \<open>MaterializationProof\<close>, \<open>MaterializationProofProperties\<close> (\<open>core/materializationproof\<close>): the evidence that the files of
    an applied generation are present or absent, with its canonical form, its digest and the selection for a Service.

  Component theories hold the definitions in the order of the code; a \<open>Properties\<close> theory holds the invariants, the
  example that its witnesses evaluate, and the properties, each under the identifier \<open>C1\<close>, \<open>C2\<close>, ... of its claim.
\<close>

text \<open>
  \<^bold>\<open>What the groups of lemmas show.\<close>

  \<^item> Validators are characterised by predicates (\<open>item_validate_ok\<close>, \<open>registry_validate_iff\<close>, \<open>journal_validate_ok\<close>, ...),
    so that the invariants of the step relations are exactly what the code checks.
  \<^item> Step relations (\<open>work_step\<close>, \<open>task_step\<close>, \<open>cursor_step\<close>, \<open>group_run\<close>, \<open>registry_reachable\<close>, \<open>upgrade_step\<close>, \<open>queue_step\<close>) have one
    preservation lemma per operation and one invariant over all reachable states; liveness is stated as the existence
    of a run (\<open>reachable_work_can_settle\<close>, \<open>cursor_never_stuck\<close>) or as a bound on the number of rounds or steps
    (\<open>rounds_converge\<close>, \<open>watchdog_restores_predecessor\<close>).
  \<^item> Optimised or loop-based routines equal closed forms or abstract objects: Kahn's loop and the least topological order,
    canonical port sets, the cursor and the list of its remaining steps, group decisions and the failure policy, the
    quota and a bounded set, the store of releases and the upgrade protocol.
  \<^item> Optimistic concurrency: a queue operation is prepared from evidence read at any earlier revision. \<open>holds_now\<close> says
    that the comparisons of its change hold when it commits, \<open>holds_snapshot\<close> and \<open>holds_missing\<close> that the evidence is then
    the current state, \<open>keeps_queue\<close> that its writes keep the queue consistent and move the item along its lifecycle;
    each operation has one such lemma (\<open>assignment_keeps\<close>, \<open>completion_keeps\<close>, \<open>publish_keeps\<close>, ...).
  \<^item> Crashes: an operation of the release store yields the disks that stand after each of its writes. \<open>crash_spec\<close> is the
    specification of such an operation at every cut, with one rule per construct.
  \<^item> Byte formats: \<open>moved\<close> says which bytes a successful operation has read and written, \<open>reader_ok\<close> what a content reader
    has seen whatever its callback does, \<open>to_serve\<close> what it still has to deliver; from them follow that accepted frames
    are authentic and prefix-free and that frames round-trip. \<open>prefix_code\<close> composes texts that can be read back, up to
    the encoding under the digest of a materialisation proof.

  \<^bold>\<open>Fuel and bounds.\<close> Only Kahn's loop has fuel, the number of nodes: every iteration orders one more node and none twice,
  so the loop is shown to return before the fuel runs out. Every other recursion is structural or has a measure. Machine integers keep
  their width (\<open>u16\<close>, \<open>u32\<close>, \<open>u64\<close>, addresses); counters and ranges are shown not to wrap where the code relies on it.

  \<^bold>\<open>Parameters.\<close> \<open>u :: ulid_check\<close> is \<open>ulid.ParseStrict\<close>; \<open>tagged\<close> is \<open>reference.ParseNormalizedNamed\<close> with a tag or digest;
  \<open>json_size\<close> is the size of a JSON encoding; the fields of \<open>upgrade_env\<close> are the OCI reference and digest parsers and
  the canonical JSON of manifests and journals; those of \<open>queue_env\<close> are the ULID check, the size of a stored envelope and
  the random id of an alert, and \<open>commit\<close> takes the size of its request. All are third-party code or its immediate
  results, and no property assumes anything about them, with one exception: \<open>watchdog_restores_predecessor\<close> assumes that
  the journals of the operation fit the size limit of their file.

  \<^bold>\<open>Not modelled, and why.\<close> Error texts (errors are their Kind); the clock and randomness (arguments). Of
  \<open>infra/etcd\<close> everything but the prepared changes and the commit of the work queue: its record codecs, the readers and
  their pages (a snapshot is an argument, which a step requires to have been read at some revision), errors of the
  transport (a commit that may or may not have happened is a step or none), and the stores of the features. Of the work
  queue itself: the finish and rejection of a Task with the request's replay marker and the release of its reservation
  (their Task transitions are \<open>complete_task\<close> and \<open>reject_planning\<close>), the receipts joined with an input settlement, the
  scheduler's cursor and the schema check; a transaction of \<open>queue_step\<close> moves the items of one prepared change, with
  any changes of other records beside it. Docker, systemd, object stores, encryption and host effects; the Agent executors
  (\<open>internal/agent\<close>), which are ordered effect calls; HTTP and stream handlers and planners in \<open>internal/controller\<close> other
  than the upgrade; the wire conversions over generated protobuf types; text rendering of proxies and Compose files;
  backup formats and database protocols; composition, command line, console, packaging and generated code.

  \<^bold>\<open>Plan.\<close> Next in order: the sweep of the work dispatcher (\<open>controller/workdispatch/scheduler.go\<close>) with the readers of the
  queue, work receipts and the task materialisation messages around the frames, Blueprint bundles, backup schedules.
\<close>

end
